(* ===== verification/Prelude.thy ===== *)
theory Prelude
  imports Main "HOL-Library.Word"
begin

text \<open>
  Shared vocabulary of the development: the machine integers of the C sources, the C
  operators whose meaning differs from HOL's, the big- and little-endian byte codecs the
  wire formats use, and the lemmas about words, lists and runs that the component theories
  apply through the simplifier or through one of the collections below.

  Conventions. An unsigned field whose width matters (counters that saturate, flag masks,
  wire fields, checksums) is a word of that width. A signed field (\<^verbatim>\<open>int32_t\<close>,
  \<^verbatim>\<open>int64_t\<close>) is an \<^typ>\<open>int\<close>: signed overflow is undefined in C, so the model is
  the C value wherever C gives one; every explicit narrowing cast of the source is written
  out with \<open>to_i16\<close>, \<open>to_i32\<close> or \<open>ucast\<close>. A state passed by pointer is a value that
  the operation returns updated; a pointer argument for which the source gives NULL a
  meaning of its own (``use the defaults'', ``no verdict'') is an \<^typ>\<open>'a option\<close>.
\<close>

unbundle bit_operations_syntax

type_synonym u8 = "8 word"
type_synonym u16 = "16 word"
type_synonym u32 = "32 word"
type_synonym u64 = "64 word"
type_synonym bytes = "8 word list"

named_theorems cfg_defs "definitions that only build constants or configurations"
named_theorems step_defs "definitions of single operations, to unfold in step proofs"
named_theorems codec_simps "round-trip equations of the byte codecs"

section \<open>C arithmetic\<close>

text \<open>\<^verbatim>\<open>/\<close> and \<^verbatim>\<open>%\<close> of C truncate towards zero.\<close>

definition cdiv :: "int \<Rightarrow> int \<Rightarrow> int" where
  "cdiv a b = sgn a * sgn b * (\<bar>a\<bar> div \<bar>b\<bar>)"

definition cmod :: "int \<Rightarrow> int \<Rightarrow> int" where
  "cmod a b = a - cdiv a b * b"

text \<open>Narrowing casts to a signed type keep the low bits in two's complement.\<close>

definition to_i16 :: "int \<Rightarrow> int" where
  "to_i16 x = sint (word_of_int x :: u16)"

definition to_i32 :: "int \<Rightarrow> int" where
  "to_i32 x = sint (word_of_int x :: u32)"

definition to_i64 :: "int \<Rightarrow> int" where
  "to_i64 x = sint (word_of_int x :: u64)"

lemma cdiv_nonneg [simp]: "0 \<le> a \<Longrightarrow> 0 < b \<Longrightarrow> cdiv a b = a div b"
  by (cases "a = 0") (simp_all add: cdiv_def)

lemma abs_cdiv: "0 < b \<Longrightarrow> \<bar>cdiv a b\<bar> = \<bar>a\<bar> div b"
  by (cases "a = 0") (auto simp: cdiv_def abs_mult pos_imp_zdiv_nonneg_iff abs_sgn_eq)

lemma abs_cdiv_le: "0 < b \<Longrightarrow> \<bar>a\<bar> \<le> m * b \<Longrightarrow> \<bar>cdiv a b\<bar> \<le> m"
  using zdiv_mono1 [of "\<bar>a\<bar>" "m * b" b] by (simp add: abs_cdiv)

lemma abs_cdiv_ge: "0 < b \<Longrightarrow> m * b \<le> \<bar>a\<bar> \<Longrightarrow> m \<le> \<bar>cdiv a b\<bar>"
  using zdiv_mono1 [of "m * b" "\<bar>a\<bar>" b] by (simp add: abs_cdiv)

lemma cmod_nonneg [simp]: "0 \<le> a \<Longrightarrow> 0 < b \<Longrightarrow> cmod a b = a mod b"
  by (simp add: cmod_def minus_div_mult_eq_mod)

lemma sint_word_of_int_id:
  "- (2 ^ (LENGTH('a) - 1)) \<le> x \<Longrightarrow> x < 2 ^ (LENGTH('a) - 1) \<Longrightarrow>
   sint (word_of_int x :: 'a::len word) = x"
  by (simp add: sint_sbintrunc' signed_take_bit_int_eq_self)

lemma to_i16_id: "- 32768 \<le> x \<Longrightarrow> x < 32768 \<Longrightarrow> to_i16 x = x"
  unfolding to_i16_def by (rule sint_word_of_int_id) simp_all

lemma to_i32_id: "- 2147483648 \<le> x \<Longrightarrow> x < 2147483648 \<Longrightarrow> to_i32 x = x"
  unfolding to_i32_def by (rule sint_word_of_int_id) simp_all

lemma to_i64_id: "- (2 ^ 63) \<le> x \<Longrightarrow> x < 2 ^ 63 \<Longrightarrow> to_i64 x = x"
  unfolding to_i64_def by (rule sint_word_of_int_id) simp_all

section \<open>Counters and flag masks\<close>

text \<open>An increment guarded by a saturation test does not wrap.\<close>

lemma unat_Suc_if_less: "x < y \<Longrightarrow> unat (x + 1) = Suc (unat (x::'a::len word))"
proof -
  assume "x < y"
  moreover have "unat y < 2 ^ LENGTH('a)" by (rule unsigned_less)
  ultimately have "Suc (unat x) < 2 ^ LENGTH('a)"
    unfolding word_less_nat_alt by linarith
  then show ?thesis by (simp add: unat_word_ariths)
qed

lemma mask_or_disjoint: "(a OR b) AND c = (0::'a::len word) \<longleftrightarrow> a AND c = 0 \<and> b AND c = 0"
  by (auto simp: bit_eq_iff bit_simps)

lemma or_eq_0_iff: "a OR b = (0::'a::len word) \<longleftrightarrow> a = 0 \<and> b = 0"
  by (auto simp: bit_eq_iff bit_simps)

lemma and_eq_0_mono: "a AND c = (0::'a::len word) \<Longrightarrow> d AND c = d \<Longrightarrow> a AND d = 0"
  by (metis and.assoc and.commute and_zero_eq)

section \<open>Big-endian byte codecs\<close>

text \<open>
  The sources carry private copies of the same helpers (\<open>put_u32\<close>, \<open>get_u32\<close>,
  \<open>put_i64\<close>, \<open>get_i64\<close> and their 16-bit forms); they are modelled once. A reader is
  given a list at least as long as what it reads: every caller tests the length first.
\<close>

definition put_u16 :: "u16 \<Rightarrow> bytes" where
  "put_u16 v = [ucast (drop_bit 8 v), ucast v]"

fun get_u16 :: "bytes \<Rightarrow> u16" where
  "get_u16 (a # b # _) = push_bit 8 (ucast a) OR ucast b"
| "get_u16 _ = 0"

definition put_u32 :: "u32 \<Rightarrow> bytes" where
  "put_u32 v = [ucast (drop_bit 24 v), ucast (drop_bit 16 v), ucast (drop_bit 8 v), ucast v]"

fun get_u32 :: "bytes \<Rightarrow> u32" where
  "get_u32 (a # b # c # d # _) =
     push_bit 24 (ucast a) OR push_bit 16 (ucast b) OR push_bit 8 (ucast c) OR ucast d"
| "get_u32 _ = 0"

definition put_u64 :: "u64 \<Rightarrow> bytes" where
  "put_u64 u = put_u32 (ucast (drop_bit 32 u)) @ put_u32 (ucast u)"

definition get_u64 :: "bytes \<Rightarrow> u64" where
  "get_u64 p = push_bit 32 (ucast (get_u32 p)) OR ucast (get_u32 (drop 4 p))"

definition put_i64 :: "int \<Rightarrow> bytes" where
  "put_i64 v = put_u64 (word_of_int v)"

definition get_i64 :: "bytes \<Rightarrow> int" where
  "get_i64 p = sint (get_u64 p)"

lemma length_put_u16 [simp]: "length (put_u16 v) = 2"
  by (simp add: put_u16_def)

lemma length_put_u32 [simp]: "length (put_u32 v) = 4"
  by (simp add: put_u32_def)

lemma length_put_u64 [simp]: "length (put_u64 v) = 8"
  by (simp add: put_u64_def)

lemma length_put_i64 [simp]: "length (put_i64 v) = 8"
  by (simp add: put_i64_def)

lemma get_put_u16 [simp, codec_simps]: "get_u16 (put_u16 v @ r) = v"
  by (rule bit_word_eqI) (auto simp: put_u16_def bit_simps)

lemma get_put_u32 [simp, codec_simps]: "get_u32 (put_u32 v @ r) = v"
proof (rule bit_word_eqI)
  fix n
  assume "n < LENGTH(32)"
  then consider "n < 8" | "8 \<le> n \<and> n < 16" | "16 \<le> n \<and> n < 24" | "24 \<le> n \<and> n < 32"
    by force
  then show "bit (get_u32 (put_u32 v @ r)) n = bit v n"
    by cases (auto simp: put_u32_def bit_simps)
qed

lemma get_put_u64 [simp, codec_simps]: "get_u64 (put_u64 v @ r) = v"
proof -
  have "push_bit 32 (ucast (ucast (drop_bit 32 v) :: u32)) OR ucast (ucast v :: u32) = v"
    by (rule bit_word_eqI) (auto simp: bit_simps)
  then show ?thesis by (simp add: get_u64_def put_u64_def)
qed

lemma get_put_i64 [simp, codec_simps]:
  "- (2 ^ 63) \<le> v \<Longrightarrow> v < 2 ^ 63 \<Longrightarrow> get_i64 (put_i64 v @ r) = v"
  using to_i64_id [of v] by (simp add: get_i64_def put_i64_def to_i64_def)

text \<open>Writing back what a reader read gives the bytes it read.\<close>

lemma not_bit_beyond: "LENGTH('a) \<le> n \<Longrightarrow> \<not> bit (w::'a::len word) n"
  using bit_imp_le_length by fastforce

lemma put_get_u16: "2 \<le> length p \<Longrightarrow> put_u16 (get_u16 p) = take 2 p"
  by (cases p rule: get_u16.cases) (auto simp: put_u16_def bit_simps not_bit_beyond intro!: bit_word_eqI)

lemma put_get_u32: "4 \<le> length p \<Longrightarrow> put_u32 (get_u32 p) = take 4 p"
  by (cases p rule: get_u32.cases) (auto simp: put_u32_def bit_simps not_bit_beyond intro!: bit_word_eqI)

lemma put_get_u64: "8 \<le> length p \<Longrightarrow> put_u64 (get_u64 p) = take 8 p"
proof -
  have hi: "ucast (drop_bit 32 (push_bit 32 (ucast x) OR ucast y :: u64)) = (x::u32)"
    and lo: "ucast (push_bit 32 (ucast x) OR ucast y :: u64) = (y::u32)" for x y :: u32
    by (auto intro!: bit_word_eqI simp: bit_simps not_bit_beyond)
  assume "8 \<le> length p"
  then show ?thesis
    using take_add [of 4 4 p] by (simp only: put_u64_def get_u64_def hi lo put_get_u32) (simp add: put_get_u32)
qed

text \<open>\<^verbatim>\<open>memcpy\<close> into a buffer at an offset.\<close>

definition overwrite :: "bytes \<Rightarrow> nat \<Rightarrow> bytes \<Rightarrow> bytes" where
  "overwrite buf off p = take off buf @ p @ drop (off + length p) buf"

lemma length_overwrite [simp]: "off + length p \<le> length buf \<Longrightarrow> length (overwrite buf off p) = length buf"
  by (simp add: overwrite_def)

lemma take_overwrite: "off + length p \<le> length buf \<Longrightarrow> take (off + length p) (overwrite buf off p) = take off buf @ p"
  by (simp add: overwrite_def)

text \<open>Consecutive fields of a buffer.\<close>

lemma fields_join:
  "n + a = m \<Longrightarrow> take a (drop n xs) @ take b (drop m xs) = take (a + b) (drop n xs)"
  "n + a = m \<Longrightarrow> take a (drop n xs) @ take b (drop m xs) @ r = take (a + b) (drop n xs) @ r"
  "n + a = m \<Longrightarrow> take a (drop n xs) @ drop m xs = drop n xs"
  by (auto simp: take_add add.commute simp flip: drop_drop)

lemma byte_field: "n < length xs \<Longrightarrow> [xs ! n] = take 1 (drop n xs)"
  by (simp add: take_Suc hd_drop_conv_nth)

lemma take_eq_prefix: "length xs = n \<Longrightarrow> take n (drop 0 xs) = xs"
  by simp

section \<open>Runs of an operation over a sequence of events\<close>

text \<open>
  A component is driven by a sequence of calls. \<open>run_steps\<close> threads its state through
  them and collects what each call returned, in order.
\<close>

fun run_steps :: "('s \<Rightarrow> 'e \<Rightarrow> 's \<times> 'o) \<Rightarrow> 's \<Rightarrow> 'e list \<Rightarrow> 's \<times> 'o list" where
  "run_steps f s [] = (s, [])"
| "run_steps f s (e # es) =
     (let (s', out) = f s e; (s'', outs) = run_steps f s' es in (s'', out # outs))"

lemma run_steps_Nil_snd [simp]: "snd (run_steps f s []) = []"
  by simp

lemma fst_run_steps_Cons: "fst (run_steps f s (e # es)) = fst (run_steps f (fst (f s e)) es)"
  by (simp add: split_beta Let_def)

lemma snd_run_steps_Cons:
  "snd (run_steps f s (e # es)) = snd (f s e) # snd (run_steps f (fst (f s e)) es)"
  by (simp add: split_beta Let_def)

lemma length_run_steps [simp]: "length (snd (run_steps f s es)) = length es"
  by (induction es arbitrary: s) (simp_all add: split_beta Let_def)

lemma run_steps_append:
  "run_steps f s (es @ es') =
     (let (s', o1) = run_steps f s es; (s'', o2) = run_steps f s' es' in (s'', o1 @ o2))"
  by (induction es arbitrary: s) (simp_all add: split_beta Let_def)

text \<open>
  The interface every stateful component offers to the proofs about runs: an invariant
  that holds initially for the states considered and that every step keeps.
\<close>

locale stepper =
  fixes step :: "'s \<Rightarrow> 'e \<Rightarrow> 's \<times> 'o"
    and invar :: "'s \<Rightarrow> bool"
  assumes invar_step: "invar s \<Longrightarrow> invar (fst (step s e))"
begin

lemma invar_run: "invar s \<Longrightarrow> invar (fst (run_steps step s es))"
  by (induction es arbitrary: s) (simp_all add: fst_run_steps_Cons invar_step del: run_steps.simps(2))

lemma outputs_run:
  assumes "invar s" and "\<And>s e. invar s \<Longrightarrow> P (snd (step s e))" and "out \<in> set (snd (run_steps step s es))"
  shows "P out"
  using assms(1,3)
proof (induction es arbitrary: s)
  case Nil
  then show ?case by simp
next
  case (Cons e es)
  then consider "out = snd (step s e)" | "out \<in> set (snd (run_steps step (fst (step s e)) es))"
    by (auto simp: snd_run_steps_Cons simp del: run_steps.simps(2))
  then show ?case
    by cases (use Cons.prems(1) Cons.IH assms(2) invar_step in blast)+
qed

end

text \<open>
  A stepper that never lets the same item through twice: an item that has been accepted is
  spent, a spent item stays spent, and a spent item is refused.
\<close>

locale once_only = stepper step invar
  for step :: "'s \<Rightarrow> 'e \<Rightarrow> 's \<times> 'o" and invar :: "'s \<Rightarrow> bool" +
  fixes accepted :: "'o \<Rightarrow> 'i option"
    and spent :: "'s \<Rightarrow> 'i \<Rightarrow> bool"
  assumes spent_step: "invar s \<Longrightarrow> spent s i \<Longrightarrow> spent (fst (step s e)) i"
    and spent_refused: "invar s \<Longrightarrow> spent s i \<Longrightarrow> accepted (snd (step s e)) \<noteq> Some i"
    and accepted_spent: "invar s \<Longrightarrow> accepted (snd (step s e)) = Some i \<Longrightarrow> spent (fst (step s e)) i"
begin

lemma spent_never_again:
  "invar s \<Longrightarrow> spent s i \<Longrightarrow> i \<notin> set (List.map_filter accepted (snd (run_steps step s es)))"
proof (induction es arbitrary: s)
  case (Cons e es)
  then show ?case
    using spent_refused [of s i e] spent_step [of s i e] invar_step [of s e]
    by (auto simp: snd_run_steps_Cons map_filter_simps simp del: run_steps.simps(2) split: option.split)
qed (simp add: map_filter_simps)

lemma accepted_distinct:
  "invar s \<Longrightarrow> distinct (List.map_filter accepted (snd (run_steps step s es)))"
proof (induction es arbitrary: s)
  case (Cons e es)
  then show ?case
    using spent_never_again [of "fst (step s e)" _ es] accepted_spent [of s e] invar_step [of s e]
    by (auto simp: snd_run_steps_Cons map_filter_simps simp del: run_steps.simps(2) split: option.split)
qed (simp add: map_filter_simps)

end

end
