(* ===== verification/Float32.thy ===== *)
theory Float32
  imports Prelude Complex_Main
begin

text \<open>
  The C type \<^verbatim>\<open>float\<close>: IEEE 754 binary32 with round-to-nearest-even, as the
  Cortex-M4F and the ESP32 FPUs compute it. A value is a rational number, an infinity or
  NaN; every operation is the exact rational operation followed by one rounding. The two
  zeros are identified: the sources never divide by a zero whose sign they could observe
  without the quotient leaving the range of the conversion that follows.
\<close>

datatype f32 = Fin rat | Inf bool \<comment> \<open>\<^term>\<open>True\<close>: negative\<close> | NaN

section \<open>Rounding\<close>

text \<open>The binary exponent \<open>\<lfloor>log\<^sub>2 \<bar>x\<bar>\<rfloor>\<close> of a non-zero rational.\<close>

fun bit_len :: "int \<Rightarrow> int" where
  "bit_len n = (if n \<le> 0 then 0 else 1 + bit_len (n div 2))"

declare bit_len.simps [simp del]

definition f32_expo :: "rat \<Rightarrow> int" where
  "f32_expo x =
     (let (n, d) = quotient_of \<bar>x\<bar>;
          k = bit_len n - bit_len d
      in if 2 powi k \<le> \<bar>x\<bar> then k else k - 1)"

definition round_even :: "rat \<Rightarrow> int" where
  "round_even y =
     (let f = \<lfloor>y\<rfloor>; r = y - of_int f
      in if r < 1 / 2 then f else if 1 / 2 < r then f + 1 else if even f then f else f + 1)"

text \<open>
  Rounding to 24 significant bits, to the subnormal grid \<open>2^-149\<close> below \<open>2^-126\<close>, and to
  an infinity from \<open>2^128\<close> on.
\<close>

definition f32_round :: "rat \<Rightarrow> f32" where
  "f32_round x =
     (if x = 0 then Fin 0
      else let q = max (f32_expo x) (- 126) - 23;
               y = of_int (round_even (x / 2 powi q)) * 2 powi q
           in if \<bar>y\<bar> < 2 ^ 128 then Fin y else Inf (x < 0))"

section \<open>Operations\<close>

fun f32_neg :: "f32 \<Rightarrow> f32" where
  "f32_neg (Fin x) = Fin (- x)"
| "f32_neg (Inf s) = Inf (\<not> s)"
| "f32_neg NaN = NaN"

fun f32_add :: "f32 \<Rightarrow> f32 \<Rightarrow> f32" where
  "f32_add (Fin x) (Fin y) = f32_round (x + y)"
| "f32_add (Inf s) (Inf t) = (if s = t then Inf s else NaN)"
| "f32_add (Inf s) (Fin _) = Inf s"
| "f32_add (Fin _) (Inf t) = Inf t"
| "f32_add _ _ = NaN"

definition f32_sub :: "f32 \<Rightarrow> f32 \<Rightarrow> f32" where
  "f32_sub x y = f32_add x (f32_neg y)"

fun f32_mul :: "f32 \<Rightarrow> f32 \<Rightarrow> f32" where
  "f32_mul (Fin x) (Fin y) = f32_round (x * y)"
| "f32_mul (Inf s) (Inf t) = Inf (s \<noteq> t)"
| "f32_mul (Inf s) (Fin y) = (if y = 0 then NaN else Inf (s \<noteq> (y < 0)))"
| "f32_mul (Fin x) (Inf t) = (if x = 0 then NaN else Inf ((x < 0) \<noteq> t))"
| "f32_mul _ _ = NaN"

fun f32_div :: "f32 \<Rightarrow> f32 \<Rightarrow> f32" where
  "f32_div (Fin x) (Fin y) =
     (if y = 0 then (if x = 0 then NaN else Inf (x < 0)) else f32_round (x / y))"
| "f32_div (Inf s) (Fin y) = Inf (s \<noteq> (y < 0))"
| "f32_div (Fin _) (Inf _) = Fin 0"
| "f32_div _ _ = NaN"

text \<open>Comparisons are false whenever an operand is NaN.\<close>

fun f32_le :: "f32 \<Rightarrow> f32 \<Rightarrow> bool" where
  "f32_le (Fin x) (Fin y) = (x \<le> y)"
| "f32_le (Inf s) (Fin _) = s"
| "f32_le (Fin _) (Inf t) = (\<not> t)"
| "f32_le (Inf s) (Inf t) = (s \<or> \<not> t)"
| "f32_le _ _ = False"

fun f32_lt :: "f32 \<Rightarrow> f32 \<Rightarrow> bool" where
  "f32_lt (Fin x) (Fin y) = (x < y)"
| "f32_lt (Inf s) (Fin _) = s"
| "f32_lt (Fin _) (Inf t) = (\<not> t)"
| "f32_lt (Inf s) (Inf t) = (s \<and> \<not> t)"
| "f32_lt _ _ = False"

definition f32_of_int :: "int \<Rightarrow> f32" where
  "f32_of_int n = f32_round (of_int n)"

text \<open>
  Conversion to \<^verbatim>\<open>int32_t\<close> truncates towards zero. Outside the range of the target
  type C leaves the result undefined; the model has what the ARM \<^verbatim>\<open>VCVT\<close>
  instruction gives, the nearest bound and 0 for NaN.
\<close>

definition trunc_rat :: "rat \<Rightarrow> int" where
  "trunc_rat x = (if 0 \<le> x then \<lfloor>x\<rfloor> else - \<lfloor>- x\<rfloor>)"

fun f32_to_i32 :: "f32 \<Rightarrow> int" where
  "f32_to_i32 (Fin x) = max (- 2147483648) (min 2147483647 (trunc_rat x))"
| "f32_to_i32 (Inf s) = (if s then - 2147483648 else 2147483647)"
| "f32_to_i32 NaN = 0"

section \<open>Small integers are represented exactly\<close>

lemma round_even_of_int [simp]: "round_even (of_int n) = n"
  by (simp add: round_even_def)

lemma bit_len_nonneg: "0 \<le> bit_len n"
  by (induction n rule: bit_len.induct) (subst bit_len.simps, auto)

lemma bit_len_pos: "0 < n \<Longrightarrow> 1 \<le> bit_len n"
  using bit_len_nonneg [of "n div 2"] by (simp add: bit_len.simps [of n])

lemma bit_len_bounds:
  assumes "0 < n"
  shows "(2::rat) powi (bit_len n - 1) \<le> of_int n \<and> of_int n < (2::rat) powi bit_len n"
  using assms
proof (induction n rule: bit_len.induct)
  case (1 n)
  show ?case
  proof (cases "n = 1")
    case True
    then show ?thesis by (simp add: bit_len.simps [of 1] bit_len.simps [of 0])
  next
    case False
    let ?m = "n div 2" and ?k = "bit_len (n div 2)"
    have k: "bit_len n = 1 + ?k" using "1.prems" by (simp add: bit_len.simps [of n])
    have IH: "(2::rat) powi (?k - 1) \<le> of_int ?m" "of_int ?m < (2::rat) powi ?k"
      using "1.IH" "1.prems" False by auto
    have "2 * ?m \<le> n" and "n \<le> 2 * ?m + 1" by linarith+
    then have "of_int (2 * ?m) \<le> (of_int n :: rat)" and "of_int n \<le> (of_int (2 * ?m + 1) :: rat)"
      unfolding of_int_le_iff by blast+
    then have lo: "2 * of_int ?m \<le> (of_int n :: rat)" and hi: "of_int n \<le> 2 * (of_int ?m :: rat) + 1"
      by simp_all
    have "1 \<le> ?k" using "1.prems" False by (intro bit_len_pos) linarith
    then obtain j where "?k = int j"
      by (metis nonneg_int_cases order_trans zero_le_one)
    then have "of_int ?m < (of_int (2 ^ j) :: rat)"
      using IH(2) by simp
    then have "?m + 1 \<le> 2 ^ j"
      unfolding of_int_less_iff by simp
    then have "of_int (?m + 1) \<le> (of_int (2 ^ j) :: rat)"
      unfolding of_int_le_iff .
    then have "of_int n < 2 * (2::rat) powi ?k"
      using hi \<open>?k = int j\<close> by simp
    then show ?thesis
      using lo IH(1) by (simp add: k power_int_add power_int_diff)
  qed
qed

lemma f32_expo_le:
  assumes "x \<noteq> 0"
  shows "2 powi f32_expo x \<le> \<bar>x\<bar>"
proof -
  obtain n d where q: "quotient_of \<bar>x\<bar> = (n, d)" by fastforce
  have d: "0 < d" using quotient_of_denom_pos [OF q] .
  have x: "\<bar>x\<bar> = of_int n / of_int d" using quotient_of_div [OF q] .
  have "0 < of_int n / (of_int d :: rat)" using assms by (simp flip: x)
  then have n: "0 < n" using d by (simp add: zero_less_divide_iff)
  let ?a = "bit_len n" and ?b = "bit_len d"
  have "(2::rat) powi (?a - 1) \<le> of_int n" and "of_int d \<le> (2::rat) powi ?b"
    using bit_len_bounds [of n] bit_len_bounds [of d] n d by auto
  then have "(2::rat) powi (?a - 1) / 2 powi ?b \<le> \<bar>x\<bar>"
    unfolding x using n d by (intro frac_le) auto
  moreover have "(2::rat) powi (?a - 1) / 2 powi ?b = 2 powi (?a - ?b - 1)"
    using power_int_diff [of "2::rat" "?a - 1" ?b] by (simp add: algebra_simps del: power_int_of_nat)
  ultimately have "(2::rat) powi (?a - ?b - 1) \<le> \<bar>x\<bar>" by simp
  then show ?thesis
    by (simp add: f32_expo_def q Let_def)
qed

lemma f32_of_int_exact:
  assumes "\<bar>n\<bar> < 2 ^ 24"
  shows "f32_of_int n = Fin (of_int n)"
proof (cases "n = 0")
  case True
  then show ?thesis by (simp add: f32_of_int_def f32_round_def)
next
  case False
  let ?x = "of_int n :: rat"
  let ?e = "f32_expo ?x"
  let ?q = "max ?e (- 126) - 23"
  have ax: "\<bar>?x\<bar> < 2 ^ 24"
    using assms by (metis of_int_abs of_int_less_iff of_int_numeral of_int_power)
  have "(2::rat) powi ?e < 2 powi 24"
    using f32_expo_le [of ?x] False ax by (simp add: order.strict_trans1)
  then have "?e < 24"
    by (meson linorder_not_less one_le_numeral power_int_increasing)
  then obtain k where "- ?q = int k"
    using nonneg_int_cases [of "- ?q"] by auto
  then have "?q = - int k" by linarith
  then have p: "(2::rat) powi ?q = inverse (2 ^ k)"
    by (simp only: power_int_minus power_int_of_nat)
  have "?x / 2 powi ?q = of_int (n * 2 ^ k)"
    unfolding p by (simp add: field_simps)
  then have "round_even (?x / 2 powi ?q) = n * 2 ^ k"
    by (simp only: round_even_of_int)
  then have r: "of_int (round_even (?x / 2 powi ?q)) * 2 powi ?q = ?x"
    unfolding p by simp
  moreover have "\<bar>?x\<bar> < 2 ^ 128"
    using ax by (rule order.strict_trans) simp
  ultimately show ?thesis
    using False unfolding f32_of_int_def f32_round_def Let_def r by simp
qed

lemma f32_le_of_int:
  "\<bar>a\<bar> < 2 ^ 24 \<Longrightarrow> \<bar>b\<bar> < 2 ^ 24 \<Longrightarrow> f32_le (f32_of_int a) (f32_of_int b) \<longleftrightarrow> a \<le> b"
  by (simp add: f32_of_int_exact)

lemma f32_lt_not_le: "f32_lt x y \<Longrightarrow> \<not> f32_le y x"
  by (cases x; cases y) auto

end
