(* ===== verification/Approach.thy ===== *)
theory Approach
  imports Float32
begin

text \<open>
  The predictive approach controller (\<^verbatim>\<open>modules/ultrawidelock_cred/src/ultrawidelock_approach.c\<close>
  and its header): the component that turns trusted UWB ranges into bolt decisions. The
  theory holds the configuration and state records, the Kalman filter in binary32
  arithmetic, the median window, the obstruction vote, the feed body in the four stages the
  source runs in order, the idle tick, and the session operations; then the invariant of
  the state and the properties of single steps. The build option
  \<^verbatim>\<open>CONFIG_ULTRAWIDELOCK_ML_LOS\<close> is the field \<open>ac_ml_los\<close> of the configuration, so that
  both builds are covered by one model.
\<close>

section \<open>Configuration and state\<close>

datatype approach_action =
    HOLD
  | UNLOCK_PREDICT
  | UNLOCK_THRESHOLD
  | RELOCK_DEPART
  | RELOCK_ABORT

record approach_cfg =
  ac_unlock_cm :: int
  ac_relock_cm :: int
  ac_near_dwell :: int
  ac_far_dwell :: int
  ac_motor_ms :: int
  ac_margin_ms :: int
  ac_vmin_cm_s :: int
  ac_far_silence_ms :: int
  ac_approach_cm :: int
  ac_range_correct_en :: bool
  ac_nlos_conf_min :: f32
  ac_nlos_widen_cm :: int
  ac_nlos_widen_class_cm :: "int list" \<comment> \<open>indexed by the carry class, 4 entries\<close>
  ac_predict_en :: bool
  ac_ml_los :: bool \<comment> \<open>built with \<^verbatim>\<open>CONFIG_ULTRAWIDELOCK_ML_LOS\<close>\<close>

record approach =
  ap_cfg :: approach_cfg
  ap_locked :: bool
  ap_win :: "int list"
  ap_win_ms :: "int list"
  ap_ch_win :: "bool list"
  ap_carry_win :: "nat list"
  ap_wlen :: nat
  ap_wpos :: nat
  ap_near_dwell :: int
  ap_far_dwell :: int
  ap_kf_init :: bool
  ap_accepted :: int
  ap_rejects :: int
  ap_last_ms :: int
  ap_d :: f32
  ap_v :: f32
  ap_p00 :: f32
  ap_p01 :: f32
  ap_p11 :: f32
  ap_pred_dwell :: int
  ap_pred_open :: bool
  ap_pred_deadline_ms :: int
  ap_eta_ms :: int
  ap_approach_armed :: bool
  ap_last_cm :: int
  ap_last_feed_ms :: int

text \<open>The tuning constants of the source file.\<close>

definition MEDIAN_N :: nat where [cfg_defs]: "MEDIAN_N = 5"
definition CARRY_N :: nat where [cfg_defs]: "CARRY_N = 4"
definition CARRY_HAND :: nat where [cfg_defs]: "CARRY_HAND = 1"
definition KF_R_CM2 :: f32 where "KF_R_CM2 = Fin 900"
definition KF_QA :: f32 where "KF_QA = Fin 22500"
definition KF_GATE_CM :: f32 where "KF_GATE_CM = Fin 100"
definition KF_REJECT_MAX :: int where "KF_REJECT_MAX = 3"
definition KF_STALE_MS :: int where "KF_STALE_MS = 1000"
definition KF_VINIT_CM2S2 :: f32 where "KF_VINIT_CM2S2 = Fin 40000"
definition KF_MIN_SAMPLES :: int where "KF_MIN_SAMPLES = 6"
definition PRED_DWELL_N :: int where [cfg_defs]: "PRED_DWELL_N = 2"
definition PRED_GRACE_MS :: int where [cfg_defs]: "PRED_GRACE_MS = 1800"
definition MEDIAN_STALE_MS :: int where [cfg_defs]: "MEDIAN_STALE_MS = 2500"
definition BAND_SILENCE_MS :: int where [cfg_defs]: "BAND_SILENCE_MS = 2500"
definition NLOS_VOTES_N :: nat where [cfg_defs]: "NLOS_VOTES_N = MEDIAN_N div 2 + 1"

section \<open>The Kalman filter\<close>

definition kf_rebase :: "approach \<Rightarrow> int \<Rightarrow> int \<Rightarrow> approach" where
  "kf_rebase ap now_ms cm =
     ap\<lparr>ap_kf_init := True, ap_accepted := 1, ap_rejects := 0, ap_last_ms := now_ms,
        ap_d := f32_of_int cm, ap_v := Fin 0, ap_p00 := KF_R_CM2, ap_p01 := Fin 0,
        ap_p11 := KF_VINIT_CM2S2, ap_pred_dwell := 0, ap_eta_ms := - 1\<rparr>"

text \<open>The elapsed time in seconds, at least one millisecond.\<close>

definition kf_dt :: "int \<Rightarrow> f32" where
  "kf_dt ms =
     (let dt = f32_div (f32_of_int ms) (Fin 1000); lo = f32_round (1 / 1000)
      in if f32_lt dt lo then lo else dt)"

definition kf_time_update :: "approach \<Rightarrow> int \<Rightarrow> approach" where
  "kf_time_update ap now_ms =
     (let dt = kf_dt (now_ms - ap_last_ms ap);
          dt2 = f32_mul dt dt;
          p00 = ap_p00 ap; p01 = ap_p01 ap; p11 = ap_p11 ap
      in ap\<lparr>ap_last_ms := now_ms,
            ap_d := f32_add (ap_d ap) (f32_mul (ap_v ap) dt),
            ap_p00 := f32_add p00
              (f32_add (f32_add (f32_mul dt (f32_add p01 p01)) (f32_mul dt2 p11))
                 (f32_div (f32_mul (f32_mul KF_QA dt2) dt2) (Fin 4))),
            ap_p01 := f32_add p01
              (f32_add (f32_mul dt p11) (f32_div (f32_mul (f32_mul KF_QA dt2) dt) (Fin 2))),
            ap_p11 := f32_add p11 (f32_mul KF_QA dt2)\<rparr>)"

definition kf_measure_update :: "approach \<Rightarrow> f32 \<Rightarrow> approach" where
  "kf_measure_update ap y =
     (let p00 = ap_p00 ap; p01 = ap_p01 ap; p11 = ap_p11 ap;
          s = f32_add p00 KF_R_CM2;
          k0 = f32_div p00 s;
          k1 = f32_div p01 s
      in ap\<lparr>ap_rejects := 0,
            ap_d := f32_add (ap_d ap) (f32_mul k0 y),
            ap_v := f32_add (ap_v ap) (f32_mul k1 y),
            ap_p11 := f32_sub p11 (f32_mul k1 p01),
            ap_p01 := f32_sub p01 (f32_mul k0 p01),
            ap_p00 := f32_sub p00 (f32_mul k0 p00),
            ap_accepted := (if ap_accepted ap < KF_MIN_SAMPLES then ap_accepted ap + 1
                            else ap_accepted ap)\<rparr>)"

definition kf_update :: "approach \<Rightarrow> int \<Rightarrow> int \<Rightarrow> approach \<times> bool" where
  "kf_update ap now_ms cm =
     (if \<not> ap_kf_init ap \<or> now_ms - ap_last_ms ap > KF_STALE_MS then (kf_rebase ap now_ms cm, True)
      else
        let ap1 = kf_time_update ap now_ms;
            y = f32_sub (f32_of_int cm) (ap_d ap1);
            ay = (if f32_lt y (Fin 0) then f32_neg y else y)
        in if f32_lt KF_GATE_CM ay
           then let ap2 = ap1\<lparr>ap_rejects := ap_rejects ap1 + 1\<rparr>
                in if ap_rejects ap2 \<ge> KF_REJECT_MAX then (kf_rebase ap2 now_ms cm, True)
                   else (ap2, False)
           else (kf_measure_update ap1 y, True))"

section \<open>The median window\<close>

text \<open>
  The insertion sort, as it runs in place: \<open>sort_shift t k v\<close> is the inner loop with
  \<open>k = j + 1\<close>, \<open>sort_from t i n\<close> the outer loop from index \<open>i\<close>.
\<close>

fun sort_shift :: "int list \<Rightarrow> nat \<Rightarrow> int \<Rightarrow> int list" where
  "sort_shift t 0 v = t[0 := v]"
| "sort_shift t (Suc j) v =
     (if t ! j > v then sort_shift (t[Suc j := t ! j]) j v else t[Suc j := v])"

function sort_from :: "int list \<Rightarrow> nat \<Rightarrow> nat \<Rightarrow> int list" where
  "sort_from t i n = (if i < n then sort_from (sort_shift t i (t ! i)) (Suc i) n else t)"
  by pat_completeness auto
termination
  by (relation "measure (\<lambda>(t, i, n). n - i)") auto

declare sort_from.simps [simp del]

definition range_median :: "int list \<Rightarrow> nat \<Rightarrow> int" where
  "range_median win n = sort_from (take n win) 1 n ! (n div 2)"

text \<open>The entries young enough to vote, in window order.\<close>

definition fresh_idx :: "approach \<Rightarrow> int \<Rightarrow> nat list" where
  "fresh_idx ap now_ms = filter (\<lambda>i. now_ms - ap_win_ms ap ! i \<le> MEDIAN_STALE_MS) [0..<ap_wlen ap]"

definition range_median_fresh :: "approach \<Rightarrow> int \<Rightarrow> int" where
  "range_median_fresh ap now_ms =
     (let t = map (\<lambda>i. ap_win ap ! i) (fresh_idx ap now_ms); n = length t
      in if n = 0 then ap_win ap ! ((ap_wpos ap + MEDIAN_N - 1) mod MEDIAN_N)
         else range_median t n)"

section \<open>Defaults and initialisation\<close>

definition ultrawidelock_approach_defaults :: "bool \<Rightarrow> approach_cfg" where
  [cfg_defs]: "ultrawidelock_approach_defaults los =
     \<lparr>ac_unlock_cm = 100, ac_relock_cm = 250, ac_near_dwell = 2, ac_far_dwell = 3,
      ac_motor_ms = 500, ac_margin_ms = 250, ac_vmin_cm_s = 30, ac_far_silence_ms = 750,
      ac_approach_cm = 180, ac_range_correct_en = False,
      ac_nlos_conf_min = f32_round (261 / 100), ac_nlos_widen_cm = 0,
      ac_nlos_widen_class_cm = replicate CARRY_N 0, ac_predict_en = True, ac_ml_los = los\<rparr>"

definition approach_zero :: "approach_cfg \<Rightarrow> approach" where
  [cfg_defs]: "approach_zero c =
     \<lparr>ap_cfg = c, ap_locked = False, ap_win = replicate MEDIAN_N 0,
      ap_win_ms = replicate MEDIAN_N 0, ap_ch_win = replicate MEDIAN_N False,
      ap_carry_win = replicate MEDIAN_N 0, ap_wlen = 0, ap_wpos = 0, ap_near_dwell = 0,
      ap_far_dwell = 0, ap_kf_init = False, ap_accepted = 0, ap_rejects = 0, ap_last_ms = 0,
      ap_d = Fin 0, ap_v = Fin 0, ap_p00 = Fin 0, ap_p01 = Fin 0, ap_p11 = Fin 0,
      ap_pred_dwell = 0, ap_pred_open = False, ap_pred_deadline_ms = 0, ap_eta_ms = 0,
      ap_approach_armed = False, ap_last_cm = 0, ap_last_feed_ms = 0\<rparr>"

text \<open>The three clamps \<open>init\<close> applies to a caller's band, in the order it applies them.\<close>

definition clamp_approach_cm :: "approach_cfg \<Rightarrow> approach_cfg" where
  "clamp_approach_cm c =
     (if ac_approach_cm c > 0 \<and>
         (ac_approach_cm c \<le> ac_unlock_cm c \<or> ac_approach_cm c \<ge> ac_relock_cm c)
      then c\<lparr>ac_approach_cm := ac_unlock_cm c + cdiv (ac_relock_cm c - ac_unlock_cm c) 2\<rparr>
      else c)"

definition clamp_widen :: "approach_cfg \<Rightarrow> int \<Rightarrow> int" where
  "clamp_widen c w =
     (let w1 = (if w < 0 then 0 else w)
      in if ac_approach_cm c > 0 \<and> ac_unlock_cm c + w1 \<ge> ac_approach_cm c
         then ac_approach_cm c - ac_unlock_cm c - 1 else w1)"

definition approach_cfg_clamp :: "approach_cfg \<Rightarrow> approach_cfg" where
  "approach_cfg_clamp c =
     (let c1 = clamp_approach_cm c;
          c2 = c1\<lparr>ac_nlos_widen_cm := clamp_widen c1 (ac_nlos_widen_cm c1)\<rparr>
      in if ac_ml_los c2
         then c2\<lparr>ac_nlos_widen_class_cm := map (clamp_widen c2) (ac_nlos_widen_class_cm c2)\<rparr>
         else c2)"

definition ultrawidelock_approach_init :: "bool \<Rightarrow> approach_cfg option \<Rightarrow> approach" where
  "ultrawidelock_approach_init los cfg =
     (let c = (case cfg of Some c \<Rightarrow> c | None \<Rightarrow> ultrawidelock_approach_defaults los)
      in (approach_zero (approach_cfg_clamp c))\<lparr>ap_locked := True, ap_eta_ms := - 1\<rparr>)"

definition pred_abort :: "approach \<Rightarrow> approach \<times> approach_action" where
  "pred_abort ap =
     (let ap1 = ap\<lparr>ap_locked := True, ap_pred_open := False, ap_pred_dwell := 0\<rparr>
      in (if \<not> (ap_kf_init ap \<and> ac_approach_cm (ap_cfg ap) > 0 \<and>
               f32_le (ap_d ap) (f32_of_int (ac_approach_cm (ap_cfg ap))))
          then ap1\<lparr>ap_approach_armed := False\<rparr> else ap1, RELOCK_ABORT))"

definition ultrawidelock_approach_session_up :: "approach \<Rightarrow> approach" where
  "ultrawidelock_approach_session_up ap = ap\<lparr>ap_approach_armed := True\<rparr>"

section \<open>The obstruction vote and the radius in force\<close>

definition nlos_votes :: "approach \<Rightarrow> int \<Rightarrow> nat list" where
  "nlos_votes ap now_ms =
     filter (\<lambda>i. ap_ch_win ap ! i \<and> now_ms - ap_win_ms ap ! i \<le> MEDIAN_STALE_MS) [0..<ap_wlen ap]"

definition nlos_blocked :: "approach \<Rightarrow> int \<Rightarrow> bool" where
  "nlos_blocked ap now_ms =
     (ac_ml_los (ap_cfg ap) \<and> ap_wlen ap \<ge> MEDIAN_N \<and>
      length (nlos_votes ap now_ms) \<ge> NLOS_VOTES_N)"

definition widen_for_class :: "approach \<Rightarrow> nat \<Rightarrow> int" where
  "widen_for_class ap c =
     (let per_class = ac_nlos_widen_class_cm (ap_cfg ap) ! c
      in if per_class > 0 then per_class else ac_nlos_widen_cm (ap_cfg ap))"

definition carry_votes :: "approach \<Rightarrow> int \<Rightarrow> nat \<Rightarrow> nat" where
  "carry_votes ap now_ms c = length (filter (\<lambda>i. ap_carry_win ap ! i = c) (nlos_votes ap now_ms))"

definition nlos_carry_class :: "approach \<Rightarrow> int \<Rightarrow> nat" where
  "nlos_carry_class ap now_ms =
     fold (\<lambda>c best.
             if carry_votes ap now_ms c > carry_votes ap now_ms best \<or>
                carry_votes ap now_ms c = carry_votes ap now_ms best \<and>
                widen_for_class ap c < widen_for_class ap best
             then c else best)
          [CARRY_HAND..<CARRY_N] CARRY_HAND"

definition effective_unlock_cm :: "approach \<Rightarrow> int \<Rightarrow> int" where
  "effective_unlock_cm ap now_ms =
     (if ac_ml_los (ap_cfg ap)
      then if \<not> nlos_blocked ap now_ms then ac_unlock_cm (ap_cfg ap)
           else ac_unlock_cm (ap_cfg ap) + widen_for_class ap (nlos_carry_class ap now_ms)
      else ac_unlock_cm (ap_cfg ap) +
           (if nlos_blocked ap now_ms then ac_nlos_widen_cm (ap_cfg ap) else 0))"

definition pred_arrived :: "approach \<Rightarrow> int \<Rightarrow> bool" where
  "pred_arrived ap now_ms =
     (let eff = effective_unlock_cm ap now_ms
      in ap_kf_init ap \<and> f32_le (ap_d ap) (f32_of_int eff) \<or>
         ap_last_feed_ms ap \<noteq> 0 \<and> ap_last_cm ap \<le> eff)"

text \<open>\<^verbatim>\<open>ultrawidelock_ml_los_range_true_cm\<close>: the antenna and obstruction offsets, in millimetres.\<close>

definition ultrawidelock_ml_los_range_true_cm :: "u16 \<Rightarrow> bool \<Rightarrow> u16" where
  "ultrawidelock_ml_los_range_true_cm reported_cm obstructed =
     (let mm0 = uint reported_cm * 10 + 255;
          mm1 = (if obstructed then mm0 - 845 else mm0);
          mm = (if mm1 < 0 then 0 else mm1)
      in word_of_int ((mm + 5) div 10))"

definition channel_correct :: "approach \<Rightarrow> int \<Rightarrow> int \<Rightarrow> int" where
  "channel_correct ap now_ms median_cm =
     (if ac_ml_los (ap_cfg ap)
      then if \<not> ac_range_correct_en (ap_cfg ap) \<or> median_cm < 0 then median_cm
           else uint (ultrawidelock_ml_los_range_true_cm (word_of_int median_cm) (nlos_blocked ap now_ms))
      else median_cm)"

section \<open>The feed body\<close>

text \<open>Stage 1: update the estimator and the ETA. Also returns whether the estimate is fresh.\<close>

definition feed_estimate :: "approach \<Rightarrow> int \<Rightarrow> int \<Rightarrow> approach \<times> bool" where
  "feed_estimate ap now_ms cm =
     (let (ap1, est_fresh) = kf_update ap now_ms (channel_correct ap now_ms cm);
          closing = f32_neg (ap_v ap1);
          radius_pre = effective_unlock_cm ap1 now_ms;
          c = ap_cfg ap1
      in (if ac_predict_en c \<and> est_fresh \<and> ap_accepted ap1 \<ge> KF_MIN_SAMPLES \<and>
             f32_le (f32_of_int (ac_vmin_cm_s c)) closing \<and> f32_lt (f32_of_int radius_pre) (ap_d ap1)
          then ap1\<lparr>ap_eta_ms := f32_to_i32
                 (f32_div (f32_mul (f32_sub (ap_d ap1) (f32_of_int radius_pre)) (Fin 1000)) closing)\<rparr>
          else ap1\<lparr>ap_eta_ms := - 1, ap_pred_dwell := 0\<rparr>,
          est_fresh))"

text \<open>Stage 2: file the sample in the window.\<close>

definition feed_file :: "approach \<Rightarrow> int \<Rightarrow> int \<Rightarrow> nat \<Rightarrow> f32 \<Rightarrow> approach" where
  "feed_file ap now_ms cm carry confidence =
     (let w = ap_wpos ap
      in ap\<lparr>ap_last_cm := cm, ap_last_feed_ms := now_ms,
            ap_win := (ap_win ap)[w := cm],
            ap_win_ms := (ap_win_ms ap)[w := now_ms],
            ap_ch_win := (ap_ch_win ap)[w := carry \<noteq> 0 \<and>
                              f32_le (ac_nlos_conf_min (ap_cfg ap)) confidence],
            ap_carry_win := (if ac_ml_los (ap_cfg ap)
                             then (ap_carry_win ap)[w := if carry < CARRY_N then carry else CARRY_HAND]
                             else ap_carry_win ap),
            ap_wpos := (w + 1) mod MEDIAN_N,
            ap_wlen := (if ap_wlen ap < MEDIAN_N then ap_wlen ap + 1 else ap_wlen ap)\<rparr>)"

definition approached :: "approach \<Rightarrow> bool" where
  "approached ap = (ac_approach_cm (ap_cfg ap) \<le> 0 \<or> ap_approach_armed ap)"

text \<open>
  Stage 3: the trajectory gate and the presence path, for the corrected median \<open>f\<close>. The
  second component is the action when this stage returns from the function.
\<close>

definition feed_presence :: "approach \<Rightarrow> int \<Rightarrow> int \<Rightarrow> approach \<times> approach_action option" where
  "feed_presence ap now_ms f =
     (let c = ap_cfg ap;
          ap1 = (if ac_approach_cm c > 0 \<and> f \<ge> ac_approach_cm c
                 then ap\<lparr>ap_approach_armed := True\<rparr> else ap)
      in if f \<le> effective_unlock_cm ap1 now_ms then
           (let ap2 = ap1\<lparr>ap_far_dwell := 0, ap_pred_open := False\<rparr>
            in if ap_locked ap2 \<and> approached ap2
               then let ap3 = ap2\<lparr>ap_near_dwell := ap_near_dwell ap2 + 1\<rparr>
                    in if ap_near_dwell ap3 \<ge> ac_near_dwell c
                       then (ap3\<lparr>ap_locked := False\<rparr>, Some UNLOCK_THRESHOLD) else (ap3, None)
               else (ap2, None))
         else if f \<ge> ac_relock_cm c then
           (let ap2 = ap1\<lparr>ap_near_dwell := 0\<rparr>
            in if \<not> ap_locked ap2
               then let ap3 = ap2\<lparr>ap_far_dwell := ap_far_dwell ap2 + 1\<rparr>
                    in if ap_far_dwell ap3 \<ge> ac_far_dwell c
                       then (ap3\<lparr>ap_locked := True, ap_pred_open := False, ap_pred_dwell := 0,
                                 ap_approach_armed := False\<rparr>, Some RELOCK_DEPART)
                       else (ap3, None)
               else (ap2, None))
         else (ap1\<lparr>ap_near_dwell := 0, ap_far_dwell := 0\<rparr>, None))"

text \<open>
  Stage 4: the prediction path. \<open>closing\<close> is the value stage 1 computed and \<open>appr\<close> the
  gate's answer stage 3 took, both local variables of the source.
\<close>

definition feed_predict ::
    "approach \<Rightarrow> int \<Rightarrow> bool \<Rightarrow> f32 \<Rightarrow> bool \<Rightarrow> approach \<times> approach_action" where
  "feed_predict ap now_ms est_fresh closing appr =
     (let c = ap_cfg ap
      in if ap_pred_open ap then
           (if pred_arrived ap now_ms
            then (ap\<lparr>ap_pred_open := False, ap_pred_dwell := 0\<rparr>, HOLD)
            else if now_ms \<ge> ap_pred_deadline_ms ap then pred_abort ap
            else if est_fresh \<and> ap_accepted ap \<ge> KF_MIN_SAMPLES
            then if f32_lt closing (f32_div (f32_of_int (ac_vmin_cm_s c)) (Fin 2)) then pred_abort ap
                 else (ap\<lparr>ap_pred_deadline_ms := now_ms + PRED_GRACE_MS\<rparr>, HOLD)
            else (ap, HOLD))
         else if ap_locked ap \<and> appr \<and> ap_eta_ms ap \<ge> 0 \<and>
                 ap_eta_ms ap \<le> ac_motor_ms c + ac_margin_ms c then
           (let ap1 = ap\<lparr>ap_pred_dwell := ap_pred_dwell ap + 1\<rparr>
            in if ap_pred_dwell ap1 \<ge> PRED_DWELL_N
               then (ap1\<lparr>ap_locked := False, ap_pred_open := True, ap_pred_dwell := 0,
                         ap_pred_deadline_ms := now_ms + ap_eta_ms ap1 + PRED_GRACE_MS\<rparr>,
                     UNLOCK_PREDICT)
               else (ap1, HOLD))
         else (ap\<lparr>ap_pred_dwell := 0\<rparr>, HOLD))"

text \<open>The gate's answer \<open>approached\<close> of the source, taken after the arming test.\<close>

definition gate_answer :: "approach \<Rightarrow> int \<Rightarrow> bool" where
  "gate_answer ap f =
     (ac_approach_cm (ap_cfg ap) \<le> 0 \<or> ap_approach_armed ap \<or> f \<ge> ac_approach_cm (ap_cfg ap))"

definition feed_one ::
    "approach \<Rightarrow> int \<Rightarrow> int \<Rightarrow> nat \<Rightarrow> f32 \<Rightarrow> approach \<times> approach_action" where
  "feed_one ap now_ms cm carry confidence =
     (let (ap1, est_fresh) = feed_estimate ap now_ms cm;
          closing = f32_neg (ap_v ap1);
          ap2 = feed_file ap1 now_ms cm carry confidence;
          f = channel_correct ap2 now_ms (range_median_fresh ap2 now_ms);
          appr = gate_answer ap2 f
      in case feed_presence ap2 now_ms f of
           (ap3, Some act) \<Rightarrow> (ap3, act)
         | (ap3, None) \<Rightarrow> feed_predict ap3 now_ms est_fresh closing appr)"

definition ultrawidelock_approach_feed_channel ::
    "approach \<Rightarrow> int \<Rightarrow> int \<Rightarrow> bool \<Rightarrow> f32 \<Rightarrow> approach \<times> approach_action" where
  "ultrawidelock_approach_feed_channel ap now_ms cm obstructed confidence =
     feed_one ap now_ms cm (if obstructed then CARRY_HAND else 0) confidence"

definition ultrawidelock_approach_feed :: "approach \<Rightarrow> int \<Rightarrow> int \<Rightarrow> approach \<times> approach_action" where
  "ultrawidelock_approach_feed ap now_ms cm =
     ultrawidelock_approach_feed_channel ap now_ms cm False (Fin 0)"

text \<open>Only built with \<^verbatim>\<open>CONFIG_ULTRAWIDELOCK_ML_LOS\<close>; the class is cast to \<^verbatim>\<open>uint8_t\<close>.\<close>

definition ultrawidelock_approach_feed_carry ::
    "approach \<Rightarrow> int \<Rightarrow> int \<Rightarrow> nat \<Rightarrow> f32 \<Rightarrow> approach \<times> approach_action" where
  "ultrawidelock_approach_feed_carry ap now_ms cm carry confidence =
     feed_one ap now_ms cm (carry mod 256) confidence"

section \<open>Departure observation, tick, and the session operations\<close>

definition ultrawidelock_approach_observe_departure :: "approach \<Rightarrow> int \<Rightarrow> int \<Rightarrow> approach" where
  "ultrawidelock_approach_observe_departure ap now_ms cm =
     (if cm < ac_relock_cm (ap_cfg ap) then ap
      else ap\<lparr>ap_last_cm := cm, ap_last_feed_ms := now_ms, ap_approach_armed := True\<rparr>)"

definition silence_need_ms :: "approach \<Rightarrow> int" where
  "silence_need_ms ap =
     (let need = ac_far_silence_ms (ap_cfg ap)
      in if ap_last_cm ap < ac_relock_cm (ap_cfg ap) \<and> need < BAND_SILENCE_MS
         then BAND_SILENCE_MS else need)"

definition ultrawidelock_approach_tick :: "approach \<Rightarrow> int \<Rightarrow> approach \<times> approach_action" where
  "ultrawidelock_approach_tick ap now_ms =
     (if ap_pred_open ap \<and> now_ms \<ge> ap_pred_deadline_ms ap then
        (if pred_arrived ap now_ms
         then (ap\<lparr>ap_pred_open := False, ap_pred_dwell := 0\<rparr>, HOLD)
         else pred_abort ap)
      else if \<not> ap_locked ap \<and> \<not> ap_pred_open ap \<and> ac_far_silence_ms (ap_cfg ap) > 0 \<and>
              ap_last_feed_ms ap \<noteq> 0 \<and> ap_last_cm ap > effective_unlock_cm ap now_ms \<and>
              now_ms - ap_last_feed_ms ap \<ge> silence_need_ms ap then
        (let ap1 = ap\<lparr>ap_locked := True, ap_near_dwell := 0, ap_far_dwell := 0,
                      ap_pred_open := False, ap_pred_dwell := 0\<rparr>
         in (if ap_last_cm ap \<ge> ac_relock_cm (ap_cfg ap)
             then ap1\<lparr>ap_approach_armed := False\<rparr> else ap1, RELOCK_DEPART))
      else (ap, HOLD))"

definition ultrawidelock_approach_gone :: "approach \<Rightarrow> approach \<times> approach_action" where
  "ultrawidelock_approach_gone ap =
     (ultrawidelock_approach_init (ac_ml_los (ap_cfg ap)) (Some (ap_cfg ap)),
      if \<not> ap_locked ap then RELOCK_DEPART else HOLD)"

definition ultrawidelock_approach_veto :: "approach \<Rightarrow> approach" where
  "ultrawidelock_approach_veto ap =
     (if ap_locked ap then ap
      else ap\<lparr>ap_locked := True, ap_pred_open := False, ap_pred_dwell := 0, ap_eta_ms := - 1\<rparr>)"

text \<open>The trace accessors.\<close>

definition f32_round_half :: "f32 \<Rightarrow> int" where
  "f32_round_half x = f32_to_i32 (f32_add x (if f32_lt x (Fin 0) then Fin (- 1 / 2) else Fin (1 / 2)))"

definition ultrawidelock_approach_est_cm :: "approach \<Rightarrow> int" where
  "ultrawidelock_approach_est_cm ap = (if \<not> ap_kf_init ap then - 1 else f32_round_half (ap_d ap))"

definition ultrawidelock_approach_vel_cm_s :: "approach \<Rightarrow> int" where
  "ultrawidelock_approach_vel_cm_s ap =
     (if \<not> ap_kf_init ap then 0 else f32_round_half (f32_neg (ap_v ap)))"

definition ultrawidelock_approach_nlos_carry :: "approach \<Rightarrow> int \<Rightarrow> nat" where
  "ultrawidelock_approach_nlos_carry ap now_ms =
     (if \<not> nlos_blocked ap now_ms then 0 else nlos_carry_class ap now_ms)"

end
