(* ===== verification/Approach_Proofs.thy ===== *)
theory Approach_Proofs
  imports Approach "HOL-Library.Multiset"
begin

text \<open>
  Properties of the approach controller: the median is the middle of the sorted fresh
  window, the radius in force stays below the arming distance, the state invariant is kept
  by every operation, the action stream and the bolt mirror agree, and a credential that
  never approached never opens the door.
\<close>

section \<open>The median\<close>

lemma sorted_mset_unique: "sorted xs \<Longrightarrow> sorted ys \<Longrightarrow> mset xs = mset ys \<Longrightarrow> xs = (ys :: int list)"
  by (metis properties_for_sort)

lemma insort_snoc:
  assumes "sorted (zs @ [z])"
  shows "insort v (zs @ [z]) = (if z > v then insort v zs @ [z] else zs @ [z, v :: int])"
  using assms
  by (intro sorted_mset_unique) (auto simp: sorted_append sorted_insort set_insort_key)

lemma sort_shift_insort:
  "sorted xs \<Longrightarrow> sort_shift (xs @ a # ys) (length xs) v = insort v xs @ ys"
proof (induction xs arbitrary: a ys rule: rev_induct)
  case Nil
  then show ?case by simp
next
  case (snoc z zs)
  have "sort_shift (zs @ z # z # ys) (length zs) v = insort v zs @ z # ys"
    using snoc by (simp add: sorted_append)
  then show ?case
    using snoc.prems by (simp add: insort_snoc nth_append list_update_append)
qed

lemma sort_from_sort:
  assumes "sorted (take i t)" and "i \<le> length t"
  shows "sort_from t i (length t) = sort t"
  using assms
proof (induction "length t - i" arbitrary: t i)
  case 0
  then show ?case
    by (subst sort_from.simps) (simp add: sorted_sort_id)
next
  case (Suc k)
  let ?xs = "take i t" and ?t' = "insort (t ! i) (take i t) @ drop (Suc i) t"
  from Suc.hyps(2) have i: "i < length t" by linarith
  then have t: "t = ?xs @ t ! i # drop (Suc i) t"
    by (rule id_take_nth_drop)
  have step: "sort_shift t i (t ! i) = ?t'"
    using sort_shift_insort [OF Suc.prems(1), of "t ! i" "drop (Suc i) t" "t ! i"] i t by simp
  have len: "length ?t' = length t" using i by simp
  have "sort_from t i (length t) = sort_from ?t' (Suc i) (length ?t')"
    unfolding len using i by (subst sort_from.simps) (simp add: step)
  also have "\<dots> = sort ?t'"
    using Suc.hyps(2) i Suc.prems(1) len
    by (intro Suc.hyps(1)) (auto simp: sorted_insort)
  also have "\<dots> = sort t"
    using arg_cong [OF t, of mset] by (intro properties_for_sort) simp_all
  finally show ?case .
qed

lemma range_median_sort:
  "n \<le> length w \<Longrightarrow> range_median w n = sort (take n w) ! (n div 2)"
proof -
  assume "n \<le> length w"
  then have l: "length (take n w) = n" by simp
  show ?thesis
  proof (cases "n = 0")
    case True
    then show ?thesis by (simp add: range_median_def sort_from.simps)
  next
    case False
    then have "sort_from (take n w) 1 (length (take n w)) = sort (take n w)"
      using l by (intro sort_from_sort) (cases w; auto)+
    then show ?thesis unfolding range_median_def l by simp
  qed
qed

lemma range_median_in_set:
  assumes "0 < n" and "n \<le> length w"
  shows "range_median w n \<in> set (take n w)"
proof -
  have "sort (take n w) ! (n div 2) \<in> set (sort (take n w))"
    using assms by (intro nth_mem) simp
  then show ?thesis by (simp add: range_median_sort assms)
qed

section \<open>The invariant of the state\<close>

definition window_ok :: "approach \<Rightarrow> bool" where
  "window_ok ap \<longleftrightarrow>
     length (ap_win ap) = MEDIAN_N \<and> length (ap_win_ms ap) = MEDIAN_N \<and>
     length (ap_ch_win ap) = MEDIAN_N \<and> length (ap_carry_win ap) = MEDIAN_N \<and>
     ap_wlen ap \<le> MEDIAN_N \<and> ap_wpos ap < MEDIAN_N \<and>
     (ap_wlen ap < MEDIAN_N \<longrightarrow> ap_wpos ap = ap_wlen ap) \<and>
     (\<forall>c \<in> set (ap_carry_win ap). c < CARRY_N) \<and>
     length (ac_nlos_widen_class_cm (ap_cfg ap)) = CARRY_N \<and>
     approach_cfg_clamp (ap_cfg ap) = ap_cfg ap"

definition approach_wf :: "approach \<Rightarrow> bool" where
  "approach_wf ap \<longleftrightarrow> window_ok ap \<and> (ap_pred_open ap \<longrightarrow> \<not> ap_locked ap)"

lemma window_ok_frame [simp]:
  "window_ok (ap\<lparr>ap_locked := b\<rparr>) = window_ok ap"
  "window_ok (ap\<lparr>ap_near_dwell := i\<rparr>) = window_ok ap"
  "window_ok (ap\<lparr>ap_far_dwell := i\<rparr>) = window_ok ap"
  "window_ok (ap\<lparr>ap_pred_dwell := i\<rparr>) = window_ok ap"
  "window_ok (ap\<lparr>ap_pred_open := b\<rparr>) = window_ok ap"
  "window_ok (ap\<lparr>ap_pred_deadline_ms := i\<rparr>) = window_ok ap"
  "window_ok (ap\<lparr>ap_eta_ms := i\<rparr>) = window_ok ap"
  "window_ok (ap\<lparr>ap_approach_armed := b\<rparr>) = window_ok ap"
  "window_ok (ap\<lparr>ap_last_cm := i\<rparr>) = window_ok ap"
  "window_ok (ap\<lparr>ap_last_feed_ms := i\<rparr>) = window_ok ap"
  by (simp_all add: window_ok_def)

text \<open>What the estimator leaves alone: the window, the gates, the bolt mirror.\<close>

definition same_presence :: "approach \<Rightarrow> approach \<Rightarrow> bool" where
  "same_presence a b \<longleftrightarrow>
     ap_cfg a = ap_cfg b \<and> ap_locked a = ap_locked b \<and> ap_win a = ap_win b \<and>
     ap_win_ms a = ap_win_ms b \<and> ap_ch_win a = ap_ch_win b \<and> ap_carry_win a = ap_carry_win b \<and>
     ap_wlen a = ap_wlen b \<and> ap_wpos a = ap_wpos b \<and> ap_near_dwell a = ap_near_dwell b \<and>
     ap_far_dwell a = ap_far_dwell b \<and> ap_pred_open a = ap_pred_open b \<and>
     ap_approach_armed a = ap_approach_armed b \<and> ap_last_cm a = ap_last_cm b \<and>
     ap_last_feed_ms a = ap_last_feed_ms b \<and> ap_pred_deadline_ms a = ap_pred_deadline_ms b"

lemma same_presence_wf: "same_presence a b \<Longrightarrow> approach_wf a = approach_wf b"
  by (simp add: same_presence_def approach_wf_def window_ok_def)

lemma kf_update_frame: "same_presence (fst (kf_update ap now cm)) ap"
  by (simp add: kf_update_def kf_rebase_def kf_time_update_def kf_measure_update_def Let_def
      same_presence_def)

lemma feed_estimate_frame: "same_presence (fst (feed_estimate ap now cm)) ap"
  using kf_update_frame [of ap now "channel_correct ap now cm"]
  by (simp add: feed_estimate_def split_beta Let_def same_presence_def)

lemma clamp_approach_cm_idem: "clamp_approach_cm (clamp_approach_cm c) = clamp_approach_cm c"
  by (auto simp: clamp_approach_cm_def)

lemma clamp_widen_idem: "clamp_widen c (clamp_widen c w) = clamp_widen c w"
  by (simp add: clamp_widen_def Let_def)

lemma clamp_widen_cong:
  "ac_approach_cm c = ac_approach_cm c' \<Longrightarrow> ac_unlock_cm c = ac_unlock_cm c' \<Longrightarrow>
   clamp_widen c = clamp_widen c'"
  by (simp add: clamp_widen_def fun_eq_iff Let_def)

lemma approach_cfg_clamp_idem: "approach_cfg_clamp (approach_cfg_clamp c) = approach_cfg_clamp c"
proof -
  define c1 where "c1 = clamp_approach_cm c"
  have W: "clamp_widen (c1\<lparr>ac_nlos_widen_class_cm := l, ac_nlos_widen_cm := w\<rparr>) = clamp_widen c1"
      "clamp_widen (c1\<lparr>ac_nlos_widen_cm := w, ac_nlos_widen_class_cm := l\<rparr>) = clamp_widen c1"
      "clamp_widen (c1\<lparr>ac_nlos_widen_cm := w\<rparr>) = clamp_widen c1" for w l
    by (rule clamp_widen_cong; simp)+
  have A: "clamp_approach_cm (c1\<lparr>ac_nlos_widen_cm := w\<rparr>) = c1\<lparr>ac_nlos_widen_cm := w\<rparr>"
      "clamp_approach_cm (c1\<lparr>ac_nlos_widen_cm := w, ac_nlos_widen_class_cm := l\<rparr>) =
       c1\<lparr>ac_nlos_widen_cm := w, ac_nlos_widen_class_cm := l\<rparr>" for w l
    unfolding c1_def by (auto simp: clamp_approach_cm_def)
  show ?thesis
    unfolding approach_cfg_clamp_def Let_def c1_def [symmetric]
    by (simp add: W A clamp_widen_idem o_def)
qed

lemma approach_cfg_clamp_frame [simp]:
  "ac_unlock_cm (approach_cfg_clamp c) = ac_unlock_cm c"
  "ac_relock_cm (approach_cfg_clamp c) = ac_relock_cm c"
  "ac_ml_los (approach_cfg_clamp c) = ac_ml_los c"
  "length (ac_nlos_widen_class_cm (approach_cfg_clamp c)) = length (ac_nlos_widen_class_cm c)"
  by (simp_all add: approach_cfg_clamp_def clamp_approach_cm_def Let_def)

text \<open>A caller's configuration has one widening per carry class.\<close>

definition cfg_shape :: "approach_cfg option \<Rightarrow> bool" where
  "cfg_shape co \<longleftrightarrow> (case co of None \<Rightarrow> True | Some c \<Rightarrow> length (ac_nlos_widen_class_cm c) = CARRY_N)"

lemma init_wf: "cfg_shape co \<Longrightarrow> approach_wf (ultrawidelock_approach_init los co)"
  by (cases co) (auto simp: cfg_shape_def approach_wf_def window_ok_def ultrawidelock_approach_init_def
      approach_cfg_clamp_idem cfg_defs)

lemma feed_file_wf: "approach_wf ap \<Longrightarrow> approach_wf (feed_file ap now cm carry conf)"
  by (auto simp: approach_wf_def window_ok_def feed_file_def Let_def cfg_defs
      dest!: set_update_subset_insert [THEN subsetD])

lemma feed_presence_wf: "approach_wf ap \<Longrightarrow> approach_wf (fst (feed_presence ap now f))"
  by (auto simp: approach_wf_def feed_presence_def Let_def)

lemma feed_predict_wf: "approach_wf ap \<Longrightarrow> approach_wf (fst (feed_predict ap now fresh cl appr))"
  by (auto simp: approach_wf_def feed_predict_def pred_abort_def Let_def)

text \<open>The state in which a sample has been filed, and the corrected median taken there.\<close>

definition filed :: "approach \<Rightarrow> int \<Rightarrow> int \<Rightarrow> nat \<Rightarrow> f32 \<Rightarrow> approach" where
  "filed ap now cm carry conf = feed_file (fst (feed_estimate ap now cm)) now cm carry conf"

definition filed_median :: "approach \<Rightarrow> int \<Rightarrow> int \<Rightarrow> nat \<Rightarrow> f32 \<Rightarrow> int" where
  "filed_median ap now cm carry conf =
     (let a = filed ap now cm carry conf in channel_correct a now (range_median_fresh a now))"

lemma feed_one_stages:
  obtains fresh cl where
    "feed_one ap now cm carry conf =
      (case feed_presence (filed ap now cm carry conf) now (filed_median ap now cm carry conf) of
         (ap3, Some act) \<Rightarrow> (ap3, act)
       | (ap3, None) \<Rightarrow> feed_predict ap3 now fresh cl
            (gate_answer (filed ap now cm carry conf) (filed_median ap now cm carry conf)))"
  using that by (simp add: feed_one_def filed_def filed_median_def Let_def split_beta)

lemma filed_frame [simp]:
  "ap_cfg (filed ap now cm carry conf) = ap_cfg ap"
  "ap_locked (filed ap now cm carry conf) = ap_locked ap"
  "ap_pred_open (filed ap now cm carry conf) = ap_pred_open ap"
  "ap_approach_armed (filed ap now cm carry conf) = ap_approach_armed ap"
  "ap_near_dwell (filed ap now cm carry conf) = ap_near_dwell ap"
  "ap_far_dwell (filed ap now cm carry conf) = ap_far_dwell ap"
  "ap_win (filed ap now cm carry conf) = (ap_win ap)[ap_wpos ap := cm]"
  "ap_win_ms (filed ap now cm carry conf) = (ap_win_ms ap)[ap_wpos ap := now]"
  "ap_wlen (filed ap now cm carry conf) = (if ap_wlen ap < MEDIAN_N then ap_wlen ap + 1 else ap_wlen ap)"
  "ap_wpos (filed ap now cm carry conf) = (ap_wpos ap + 1) mod MEDIAN_N"
  "ap_last_cm (filed ap now cm carry conf) = cm"
  "ap_last_feed_ms (filed ap now cm carry conf) = now"
  using feed_estimate_frame [of ap now cm]
  by (simp_all add: filed_def feed_file_def Let_def same_presence_def)

lemma filed_wf: "approach_wf ap \<Longrightarrow> approach_wf (filed ap now cm carry conf)"
  using feed_estimate_frame [of ap now cm] by (simp add: filed_def feed_file_wf same_presence_wf)

lemma feed_one_wf: "approach_wf ap \<Longrightarrow> approach_wf (fst (feed_one ap now cm carry conf))"
proof (rule feed_one_stages [of ap now cm carry conf])
  fix fresh cl
  let ?a = "filed ap now cm carry conf" and ?f = "filed_median ap now cm carry conf"
  assume "approach_wf ap" and eq: "feed_one ap now cm carry conf = (case feed_presence ?a now ?f of
       (ap3, Some act) \<Rightarrow> (ap3, act)
     | (ap3, None) \<Rightarrow> feed_predict ap3 now fresh cl (gate_answer ?a ?f))"
  then have "approach_wf (fst (feed_presence ?a now ?f))"
    by (intro feed_presence_wf filed_wf)
  then show ?thesis
    unfolding eq by (cases "feed_presence ?a now ?f") (simp add: feed_predict_wf split: option.split)
qed

section \<open>Events\<close>

datatype ap_event =
    EvFeed int int nat f32 \<comment> \<open>time, range, carry class, confidence\<close>
  | EvSessionUp
  | EvDeparture int int
  | EvTick int
  | EvGone
  | EvVeto

fun ap_step :: "approach \<Rightarrow> ap_event \<Rightarrow> approach \<times> approach_action" where
  "ap_step ap (EvFeed now cm carry conf) = feed_one ap now cm carry conf"
| "ap_step ap EvSessionUp = (ultrawidelock_approach_session_up ap, HOLD)"
| "ap_step ap (EvDeparture now cm) = (ultrawidelock_approach_observe_departure ap now cm, HOLD)"
| "ap_step ap (EvTick now) = ultrawidelock_approach_tick ap now"
| "ap_step ap EvGone = ultrawidelock_approach_gone ap"
| "ap_step ap EvVeto = (ultrawidelock_approach_veto ap, HOLD)"

lemma tick_wf: "approach_wf ap \<Longrightarrow> approach_wf (fst (ultrawidelock_approach_tick ap now))"
  by (auto simp: approach_wf_def ultrawidelock_approach_tick_def pred_abort_def Let_def)

lemma ap_step_wf: "approach_wf ap \<Longrightarrow> approach_wf (fst (ap_step ap e))"
proof (cases e)
  case EvGone
  assume "approach_wf ap"
  then have "cfg_shape (Some (ap_cfg ap))"
    by (simp add: approach_wf_def window_ok_def cfg_shape_def)
  then show ?thesis using EvGone by (simp add: ultrawidelock_approach_gone_def init_wf)
next
  case EvSessionUp
  then show "approach_wf ap \<Longrightarrow> ?thesis"
    by (simp add: approach_wf_def ultrawidelock_approach_session_up_def)
next
  case EvDeparture
  then show "approach_wf ap \<Longrightarrow> ?thesis"
    by (simp add: approach_wf_def ultrawidelock_approach_observe_departure_def)
next
  case EvVeto
  then show "approach_wf ap \<Longrightarrow> ?thesis"
    by (auto simp: approach_wf_def ultrawidelock_approach_veto_def)
qed (simp_all add: feed_one_wf tick_wf)

interpretation ap: stepper ap_step approach_wf
  by unfold_locales (rule ap_step_wf)

section \<open>The action stream and the bolt mirror\<close>

text \<open>
  What the caller does with the actions: a bolt that is driven by nothing else. The
  contract of the header is that each transition is reported exactly once.
\<close>

fun bolt_step :: "bool \<Rightarrow> approach_action \<Rightarrow> bool option" where
  "bolt_step locked HOLD = Some locked"
| "bolt_step locked UNLOCK_PREDICT = (if locked then Some False else None)"
| "bolt_step locked UNLOCK_THRESHOLD = (if locked then Some False else None)"
| "bolt_step locked RELOCK_DEPART = (if locked then None else Some True)"
| "bolt_step locked RELOCK_ABORT = (if locked then None else Some True)"

fun bolt_run :: "bool \<Rightarrow> approach_action list \<Rightarrow> bool option" where
  "bolt_run locked [] = Some locked"
| "bolt_run locked (a # as) = (case bolt_step locked a of None \<Rightarrow> None | Some l \<Rightarrow> bolt_run l as)"

lemma feed_presence_bolt:
  "feed_presence ap now f = (ap', out) \<Longrightarrow>
   (case out of None \<Rightarrow> ap_locked ap' = ap_locked ap
    | Some act \<Rightarrow> bolt_step (ap_locked ap) act = Some (ap_locked ap'))"
  by (auto simp: feed_presence_def Let_def split: if_splits)

lemma feed_predict_bolt:
  "(ap_pred_open ap \<longrightarrow> \<not> ap_locked ap) \<Longrightarrow> feed_predict ap now fresh cl appr = (ap', act) \<Longrightarrow>
   bolt_step (ap_locked ap) act = Some (ap_locked ap')"
  by (auto simp: feed_predict_def pred_abort_def Let_def split: if_splits)

lemma feed_one_bolt:
  assumes "approach_wf ap" and "feed_one ap now cm carry conf = (ap', act)"
  shows "bolt_step (ap_locked ap) act = Some (ap_locked ap')"
proof (rule feed_one_stages [of ap now cm carry conf])
  fix fresh cl
  let ?a = "filed ap now cm carry conf" and ?f = "filed_median ap now cm carry conf"
  assume eq: "feed_one ap now cm carry conf = (case feed_presence ?a now ?f of
       (ap3, Some act) \<Rightarrow> (ap3, act)
     | (ap3, None) \<Rightarrow> feed_predict ap3 now fresh cl (gate_answer ?a ?f))"
  obtain ap3 out where p: "feed_presence ?a now ?f = (ap3, out)" by fastforce
  have wf3: "approach_wf ap3"
    using feed_presence_wf [OF filed_wf [OF assms(1)], of now cm carry conf now ?f] p by simp
  show ?thesis
  proof (cases out)
    case None
    then have "feed_predict ap3 now fresh cl (gate_answer ?a ?f) = (ap', act)" and "ap_locked ap3 = ap_locked ap"
      using eq assms(2) p feed_presence_bolt [OF p] by simp_all
    then show ?thesis
      using feed_predict_bolt [of ap3] wf3 by (simp add: approach_wf_def)
  next
    case (Some a)
    then show ?thesis using eq assms(2) p feed_presence_bolt [OF p] by simp
  qed
qed

lemma ap_step_bolt:
  assumes "approach_wf ap" and "e \<noteq> EvVeto"
  shows "bolt_step (ap_locked ap) (snd (ap_step ap e)) = Some (ap_locked (fst (ap_step ap e)))"
proof (cases e)
  case (EvFeed now cm carry conf)
  then show ?thesis
    using feed_one_bolt [OF assms(1), of now cm carry conf] by (cases "feed_one ap now cm carry conf") simp
next
  case EvVeto
  with assms(2) show ?thesis by simp
qed (use assms(1) in \<open>auto simp: approach_wf_def ultrawidelock_approach_session_up_def
    ultrawidelock_approach_observe_departure_def ultrawidelock_approach_tick_def pred_abort_def
    ultrawidelock_approach_gone_def ultrawidelock_approach_init_def Let_def\<close>)

lemma bolt_run_refines:
  "approach_wf ap \<Longrightarrow> EvVeto \<notin> set es \<Longrightarrow>
   bolt_run (ap_locked ap) (snd (run_steps ap_step ap es)) = Some (ap_locked (fst (run_steps ap_step ap es)))"
proof (induction es arbitrary: ap)
  case Nil
  then show ?case by simp
next
  case (Cons e es)
  then show ?case
    using ap_step_bolt [of ap e] ap_step_wf [of ap e]
    by (auto simp: fst_run_steps_Cons snd_run_steps_Cons simp del: run_steps.simps(2))
qed

section \<open>The trajectory gate\<close>

lemma fresh_idx_bound: "i \<in> set (fresh_idx ap now) \<Longrightarrow> i < ap_wlen ap"
  by (simp add: fresh_idx_def)

lemma range_median_fresh_mem:
  assumes "ap_wlen ap \<noteq> 0" and "window_ok ap"
  obtains i where "i < MEDIAN_N" and "range_median_fresh ap now = ap_win ap ! i"
    and "i < ap_wlen ap \<or> fresh_idx ap now = []"
proof (cases "fresh_idx ap now = []")
  case True
  then show ?thesis
    using that [of "(ap_wpos ap + MEDIAN_N - 1) mod MEDIAN_N"]
    by (simp add: range_median_fresh_def MEDIAN_N_def)
next
  case False
  let ?t = "map (\<lambda>i. ap_win ap ! i) (fresh_idx ap now)"
  have "range_median ?t (length ?t) \<in> set ?t"
    using range_median_in_set [of "length ?t" ?t] False by simp
  then obtain i where "i \<in> set (fresh_idx ap now)" and "range_median ?t (length ?t) = ap_win ap ! i"
    by auto
  then show ?thesis
    using that [of i] False fresh_idx_bound [of i ap now] assms(2)
    by (simp add: range_median_fresh_def Let_def window_ok_def)
qed

text \<open>The sample just filed is fresh, so the vote is never empty after filing.\<close>

lemma filed_fresh_nonempty:
  assumes "approach_wf ap"
  shows "fresh_idx (filed ap now cm carry conf) now \<noteq> []"
proof -
  have w: "window_ok ap" using assms by (simp add: approach_wf_def)
  let ?i = "ap_wpos ap"
  have "?i < ap_wlen (filed ap now cm carry conf)" and "ap_win_ms (filed ap now cm carry conf) ! ?i = now"
    using w by (auto simp: window_ok_def)
  then have "?i \<in> set (fresh_idx (filed ap now cm carry conf) now)"
    by (simp add: fresh_idx_def MEDIAN_STALE_MS_def del: filed_frame)
  then show ?thesis by auto
qed

lemma filed_median_mem:
  assumes "approach_wf ap" and "\<not> (ac_ml_los (ap_cfg ap) \<and> ac_range_correct_en (ap_cfg ap))"
  obtains i where "i < ap_wlen (filed ap now cm carry conf)"
    and "filed_median ap now cm carry conf = ap_win (filed ap now cm carry conf) ! i"
proof -
  let ?a = "filed ap now cm carry conf"
  have "window_ok ?a" using filed_wf [OF assms(1)] by (simp add: approach_wf_def)
  moreover have "ap_wlen ?a \<noteq> 0" by (simp add: MEDIAN_N_def)
  ultimately obtain i where "range_median_fresh ?a now = ap_win ?a ! i" and "i < ap_wlen ?a"
    using range_median_fresh_mem [of ?a now] filed_fresh_nonempty [OF assms(1)] by metis
  moreover have "filed_median ap now cm carry conf = range_median_fresh ?a now"
    using assms(2) by (auto simp: filed_median_def Let_def channel_correct_def)
  ultimately show ?thesis using that by simp
qed

text \<open>
  A locked, unarmed controller whose window holds nothing at or beyond the arming distance,
  and the events of a credential that gives no evidence of an approach.
\<close>

definition loitering :: "approach \<Rightarrow> bool" where
  "loitering ap \<longleftrightarrow>
     approach_wf ap \<and> ap_locked ap \<and> \<not> ap_approach_armed ap \<and> ac_approach_cm (ap_cfg ap) > 0 \<and>
     \<not> (ac_ml_los (ap_cfg ap) \<and> ac_range_correct_en (ap_cfg ap)) \<and>
     (\<forall>i < ap_wlen ap. ap_win ap ! i < ac_approach_cm (ap_cfg ap))"

fun no_approach :: "approach_cfg \<Rightarrow> ap_event \<Rightarrow> bool" where
  "no_approach c (EvFeed now cm carry conf) = (cm < ac_approach_cm c)"
| "no_approach c EvSessionUp = False"
| "no_approach c (EvDeparture now cm) = (cm < ac_relock_cm c)"
| "no_approach c _ = True"

lemma feed_presence_unarmed:
  assumes "ap_locked ap" and "\<not> gate_answer ap f"
  shows "\<exists>ap'. feed_presence ap now f = (ap', None) \<and> ap_locked ap' \<and> \<not> ap_approach_armed ap' \<and>
     ap_cfg ap' = ap_cfg ap \<and> ap_wlen ap' = ap_wlen ap \<and> ap_win ap' = ap_win ap \<and>
     (ap_pred_open ap' \<longrightarrow> ap_pred_open ap)"
  using assms by (auto simp: feed_presence_def gate_answer_def approached_def Let_def)

lemma loitering_feed:
  assumes "loitering ap" and "cm < ac_approach_cm (ap_cfg ap)"
  shows "loitering (fst (feed_one ap now cm carry conf)) \<and> snd (feed_one ap now cm carry conf) = HOLD \<and>
    ap_cfg (fst (feed_one ap now cm carry conf)) = ap_cfg ap"
proof (rule feed_one_stages [of ap now cm carry conf])
  fix fresh cl
  let ?a = "filed ap now cm carry conf" and ?f = "filed_median ap now cm carry conf"
  assume eq: "feed_one ap now cm carry conf = (case feed_presence ?a now ?f of
       (ap3, Some act) \<Rightarrow> (ap3, act)
     | (ap3, None) \<Rightarrow> feed_predict ap3 now fresh cl (gate_answer ?a ?f))"
  have wf: "approach_wf ap" and w: "window_ok ap"
    using assms(1) by (auto simp: loitering_def approach_wf_def)
  have win: "\<forall>i < ap_wlen ?a. ap_win ?a ! i < ac_approach_cm (ap_cfg ap)"
    using assms w by (auto simp: loitering_def window_ok_def nth_list_update less_Suc_eq)
  then have "?f < ac_approach_cm (ap_cfg ap)"
    using filed_median_mem [OF wf, of now cm carry conf] assms(1) by (metis loitering_def)
  then have g: "\<not> gate_answer ?a ?f"
    using assms(1) by (simp add: gate_answer_def loitering_def)
  obtain ap3 where p: "feed_presence ?a now ?f = (ap3, None)" and l: "ap_locked ap3"
      "\<not> ap_approach_armed ap3" "ap_cfg ap3 = ap_cfg ap" "ap_wlen ap3 = ap_wlen ?a" "ap_win ap3 = ap_win ?a"
    using feed_presence_unarmed [OF _ g] assms(1) by (auto simp: loitering_def)
  have "approach_wf ap3"
    using feed_presence_wf [OF filed_wf [OF wf]] p by (metis fst_conv)
  then have no: "\<not> ap_pred_open ap3" using l(1) by (simp add: approach_wf_def)
  have "feed_one ap now cm carry conf = (ap3\<lparr>ap_pred_dwell := 0\<rparr>, HOLD)"
    unfolding eq p using no g by (simp add: feed_predict_def Let_def)
  then show ?thesis
    using l win assms(1) \<open>approach_wf ap3\<close> by (simp add: loitering_def approach_wf_def)
qed

lemma loitering_step:
  assumes "loitering ap" and "no_approach (ap_cfg ap) e"
  shows "loitering (fst (ap_step ap e)) \<and> snd (ap_step ap e) = HOLD \<and>
    ap_cfg (fst (ap_step ap e)) = ap_cfg ap"
proof (cases e)
  case (EvFeed now cm carry conf)
  then show ?thesis using loitering_feed [OF assms(1), of cm now carry conf] assms(2) by simp
next
  case EvGone
  have c: "approach_cfg_clamp (ap_cfg ap) = ap_cfg ap" and "ap_locked ap"
    using assms(1) by (simp_all add: loitering_def approach_wf_def window_ok_def)
  then have "ap_cfg (fst (ap_step ap e)) = ap_cfg ap"
    using EvGone by (simp add: ultrawidelock_approach_gone_def ultrawidelock_approach_init_def
        approach_zero_def)
  then show ?thesis
    using EvGone assms(1) ap_step_wf [of ap e]
    by (auto simp: loitering_def ultrawidelock_approach_gone_def ultrawidelock_approach_init_def
        approach_zero_def c)
next
  case (EvTick now)
  have "\<not> ap_pred_open ap" using assms(1) by (auto simp: loitering_def approach_wf_def)
  then show ?thesis using EvTick assms(1) by (simp add: ultrawidelock_approach_tick_def loitering_def)
qed (use assms in \<open>simp_all add: loitering_def ultrawidelock_approach_observe_departure_def
    ultrawidelock_approach_veto_def\<close>)

lemma loitering_run:
  "loitering ap \<Longrightarrow> \<forall>e \<in> set es. no_approach (ap_cfg ap) e \<Longrightarrow>
   ap_locked (fst (run_steps ap_step ap es)) \<and> set (snd (run_steps ap_step ap es)) \<subseteq> {HOLD}"
proof (induction es arbitrary: ap)
  case Nil
  then show ?case by (simp add: loitering_def)
next
  case (Cons e es)
  then have "loitering (fst (ap_step ap e))" "snd (ap_step ap e) = HOLD" "ap_cfg (fst (ap_step ap e)) = ap_cfg ap"
    using loitering_step [of ap e] by auto
  then show ?case
    using Cons by (auto simp: fst_run_steps_Cons snd_run_steps_Cons simp del: run_steps.simps(2))
qed

section \<open>The radius in force\<close>

lemma clamped_approach_cm:
  assumes "approach_cfg_clamp c = c" and "ac_unlock_cm c + 2 \<le> ac_relock_cm c" and "0 < ac_approach_cm c"
  shows "ac_unlock_cm c < ac_approach_cm c \<and> ac_approach_cm c < ac_relock_cm c"
proof -
  have "ac_approach_cm c = ac_approach_cm (clamp_approach_cm c)"
    by (subst assms(1) [symmetric]) (simp add: approach_cfg_clamp_def Let_def)
  then show ?thesis
    using assms(2,3) by (auto simp: clamp_approach_cm_def split: if_splits)
qed

lemma clamped_widen:
  assumes "approach_cfg_clamp c = c"
  shows "ac_nlos_widen_cm c = clamp_widen c (ac_nlos_widen_cm c)"
    and "ac_ml_los c \<Longrightarrow> w \<in> set (ac_nlos_widen_class_cm c) \<Longrightarrow> w \<in> range (clamp_widen c)"
proof -
  let ?c1 = "clamp_approach_cm c"
  have a: "ac_approach_cm ?c1 = ac_approach_cm c"
    by (subst (2) assms [symmetric]) (simp add: approach_cfg_clamp_def Let_def)
  have u: "ac_unlock_cm ?c1 = ac_unlock_cm c" and wd: "ac_nlos_widen_cm ?c1 = ac_nlos_widen_cm c"
    and l: "ac_nlos_widen_class_cm ?c1 = ac_nlos_widen_class_cm c" "ac_ml_los ?c1 = ac_ml_los c"
    by (simp_all add: clamp_approach_cm_def)
  have cw: "clamp_widen ?c1 = clamp_widen c" using a u by (rule clamp_widen_cong)
  have cw': "clamp_widen (?c1\<lparr>ac_nlos_widen_cm := x\<rparr>) = clamp_widen c" for x
    using a u by (intro clamp_widen_cong) simp_all
  show "ac_nlos_widen_cm c = clamp_widen c (ac_nlos_widen_cm c)"
    by (subst assms [symmetric]) (simp add: approach_cfg_clamp_def Let_def cw wd)
  assume "ac_ml_los c" "w \<in> set (ac_nlos_widen_class_cm c)"
  moreover have "ac_nlos_widen_class_cm c = map (clamp_widen c) (ac_nlos_widen_class_cm c)" if "ac_ml_los c"
    by (subst assms [symmetric]) (simp add: approach_cfg_clamp_def Let_def that l cw')
  ultimately show "w \<in> range (clamp_widen c)" by (metis ex_map_conv rangeI)
qed

lemma clamp_widen_bounds:
  "ac_unlock_cm c < ac_approach_cm c \<or> ac_approach_cm c \<le> 0 \<Longrightarrow> 0 \<le> clamp_widen c w"
  "0 < ac_approach_cm c \<Longrightarrow> ac_unlock_cm c + clamp_widen c w < ac_approach_cm c"
  by (auto simp: clamp_widen_def Let_def)

lemma nlos_carry_class_range: "nlos_carry_class ap now < CARRY_N"
proof -
  have "[CARRY_HAND..<CARRY_N] = [1, 2, 3]"
    by (simp add: CARRY_HAND_def CARRY_N_def upt_rec)
  then show ?thesis
    by (simp add: nlos_carry_class_def CARRY_HAND_def CARRY_N_def)
qed

lemma widen_for_class_clamped:
  assumes "window_ok ap" and "ac_ml_los (ap_cfg ap)" and "c < CARRY_N"
  shows "widen_for_class ap c \<in> range (clamp_widen (ap_cfg ap))"
proof -
  let ?c = "ap_cfg ap"
  have cl: "approach_cfg_clamp ?c = ?c" and "c < length (ac_nlos_widen_class_cm ?c)"
    using assms by (simp_all add: window_ok_def)
  then have "ac_nlos_widen_class_cm ?c ! c \<in> range (clamp_widen ?c)"
    using clamped_widen(2) [OF cl assms(2)] by simp
  then show ?thesis
    using clamped_widen(1) [OF cl] by (metis widen_for_class_def rangeI)
qed

lemma effective_unlock_cases:
  assumes "window_ok ap"
  obtains "effective_unlock_cm ap now = ac_unlock_cm (ap_cfg ap)"
  | w where "effective_unlock_cm ap now = ac_unlock_cm (ap_cfg ap) + clamp_widen (ap_cfg ap) w"
      and "nlos_blocked ap now"
proof (cases "nlos_blocked ap now")
  case True
  then have los: "ac_ml_los (ap_cfg ap)" by (simp add: nlos_blocked_def)
  then obtain w where "widen_for_class ap (nlos_carry_class ap now) = clamp_widen (ap_cfg ap) w"
    using widen_for_class_clamped [OF assms los nlos_carry_class_range] by blast
  then show ?thesis
    using that(2) [of w] los True by (simp add: effective_unlock_cm_def)
next
  case False
  then show ?thesis using that(1) by (simp add: effective_unlock_cm_def)
qed

lemma effective_unlock_ge:
  assumes "window_ok ap" and "ac_unlock_cm (ap_cfg ap) + 2 \<le> ac_relock_cm (ap_cfg ap)"
  shows "ac_unlock_cm (ap_cfg ap) \<le> effective_unlock_cm ap now"
proof -
  have "ac_unlock_cm (ap_cfg ap) < ac_approach_cm (ap_cfg ap) \<or> ac_approach_cm (ap_cfg ap) \<le> 0"
    using clamped_approach_cm [of "ap_cfg ap"] assms by (auto simp: window_ok_def)
  then show ?thesis
    by (cases rule: effective_unlock_cases [OF assms(1), of now])
      (auto simp: clamp_widen_bounds(1))
qed

section \<open>Arrival\<close>

text \<open>Armed, locked, and nothing in the window beyond the unlock radius.\<close>

definition arriving :: "int \<Rightarrow> approach \<Rightarrow> bool" where
  "arriving k ap \<longleftrightarrow>
     approach_wf ap \<and> ap_locked ap \<and> ap_approach_armed ap \<and> ap_near_dwell ap = k \<and>
     ac_unlock_cm (ap_cfg ap) + 2 \<le> ac_relock_cm (ap_cfg ap) \<and>
     \<not> (ac_ml_los (ap_cfg ap) \<and> ac_range_correct_en (ap_cfg ap)) \<and>
     (\<forall>i < ap_wlen ap. ap_win ap ! i \<le> ac_unlock_cm (ap_cfg ap))"

lemma arriving_feed:
  assumes "arriving k ap" and "cm \<le> ac_unlock_cm (ap_cfg ap)"
  shows "snd (feed_one ap now cm carry conf) \<in> {UNLOCK_THRESHOLD, UNLOCK_PREDICT} \<or>
    k + 1 < ac_near_dwell (ap_cfg ap) \<and> arriving (k + 1) (fst (feed_one ap now cm carry conf)) \<and>
    ap_cfg (fst (feed_one ap now cm carry conf)) = ap_cfg ap"
proof (rule feed_one_stages [of ap now cm carry conf])
  fix fresh cl
  let ?a = "filed ap now cm carry conf" and ?f = "filed_median ap now cm carry conf"
  assume eq: "feed_one ap now cm carry conf = (case feed_presence ?a now ?f of
       (ap3, Some act) \<Rightarrow> (ap3, act)
     | (ap3, None) \<Rightarrow> feed_predict ap3 now fresh cl (gate_answer ?a ?f))"
  have wf: "approach_wf ap" and w: "window_ok ap"
    using assms(1) by (auto simp: arriving_def approach_wf_def)
  have win: "\<forall>i < ap_wlen ?a. ap_win ?a ! i \<le> ac_unlock_cm (ap_cfg ap)"
    using assms w by (auto simp: arriving_def window_ok_def nth_list_update less_Suc_eq)
  then have f: "?f \<le> ac_unlock_cm (ap_cfg ap)"
    using filed_median_mem [OF wf, of now cm carry conf] assms(1) by (metis arriving_def)
  have arm: "(if 0 < ac_approach_cm (ap_cfg ap) \<and> ac_approach_cm (ap_cfg ap) \<le> ?f
       then ?a\<lparr>ap_approach_armed := True\<rparr> else ?a) = ?a"
    using assms(1) by (simp add: arriving_def)
  have "?f \<le> effective_unlock_cm ?a now"
    using effective_unlock_ge [of ?a now] f filed_wf [OF wf] assms(1)
    by (simp add: approach_wf_def arriving_def order_trans [OF f])
  then have p: "feed_presence ?a now ?f = (let ap3 = ?a\<lparr>ap_far_dwell := 0, ap_pred_open := False, ap_near_dwell := k + 1\<rparr>
      in if ac_near_dwell (ap_cfg ap) \<le> k + 1 then (ap3\<lparr>ap_locked := False\<rparr>, Some UNLOCK_THRESHOLD) else (ap3, None))"
    using assms(1) unfolding feed_presence_def Let_def filed_frame(1) arm
    by (simp add: approached_def arriving_def)
  show ?thesis
  proof (cases "ac_near_dwell (ap_cfg ap) \<le> k + 1")
    case True
    then show ?thesis unfolding eq p by simp
  next
    case False
    then show ?thesis
      unfolding eq p using assms(1) win filed_wf [OF wf, of now cm carry conf]
      by (auto simp: feed_predict_def arriving_def approach_wf_def Let_def)
  qed
qed

lemma arriving_run:
  assumes "arriving k ap" and "\<forall>e \<in> set es. \<exists>now cm carry conf. e = EvFeed now cm carry conf \<and> cm \<le> ac_unlock_cm (ap_cfg ap)"
    and "ac_near_dwell (ap_cfg ap) - k \<le> int (length es)" and "es \<noteq> []"
  shows "\<exists>act \<in> set (snd (run_steps ap_step ap es)). act \<in> {UNLOCK_THRESHOLD, UNLOCK_PREDICT}"
  using assms
proof (induction es arbitrary: k ap)
  case Nil
  then show ?case by simp
next
  case (Cons e es)
  from Cons.prems(2) obtain now cm carry conf where
    e: "e = EvFeed now cm carry conf" and cm: "cm \<le> ac_unlock_cm (ap_cfg ap)" by auto
  let ?r = "feed_one ap now cm carry conf"
  show ?case
  proof (cases "snd ?r \<in> {UNLOCK_THRESHOLD, UNLOCK_PREDICT}")
    case True
    then show ?thesis by (auto simp: e snd_run_steps_Cons simp del: run_steps.simps(2))
  next
    case False
    then have k: "k + 1 < ac_near_dwell (ap_cfg ap)" and a: "arriving (k + 1) (fst ?r)"
      and c: "ap_cfg (fst ?r) = ap_cfg ap"
      using arriving_feed [OF Cons.prems(1) cm] by auto
    then have "es \<noteq> []" and "ac_near_dwell (ap_cfg ap) - (k + 1) \<le> int (length es)"
      using Cons.prems(3) by auto
    then have "\<exists>act \<in> set (snd (run_steps ap_step (fst ?r) es)). act \<in> {UNLOCK_THRESHOLD, UNLOCK_PREDICT}"
      using Cons.IH [OF a] Cons.prems(2) c by simp
    then show ?thesis by (auto simp: e snd_run_steps_Cons simp del: run_steps.simps(2))
  qed
qed

section \<open>The innovation gate\<close>

text \<open>Whether the filter, brought forward to \<open>now\<close>, would call the measurement a spike.\<close>

definition kf_spike :: "approach \<Rightarrow> int \<Rightarrow> int \<Rightarrow> bool" where
  "kf_spike ap now cm =
     (ap_kf_init ap \<and> now - ap_last_ms ap \<le> KF_STALE_MS \<and>
      (let y = f32_sub (f32_of_int cm) (ap_d (kf_time_update ap now))
       in f32_lt KF_GATE_CM (if f32_lt y (Fin 0) then f32_neg y else y)))"

lemma kf_spike_rejected:
  assumes "kf_spike ap now cm" and "ap_rejects ap + 1 < KF_REJECT_MAX"
  shows "kf_update ap now cm = ((kf_time_update ap now)\<lparr>ap_rejects := ap_rejects ap + 1\<rparr>, False)"
proof -
  have "ap_rejects (kf_time_update ap now) = ap_rejects ap"
    by (simp add: kf_time_update_def Let_def)
  then show ?thesis
    using assms by (simp add: kf_update_def kf_spike_def Let_def)
qed

lemma kf_spike_rebases:
  assumes "kf_spike ap now cm" and "ap_rejects ap + 1 \<ge> KF_REJECT_MAX"
  shows "snd (kf_update ap now cm)" and "ap_d (fst (kf_update ap now cm)) = f32_of_int cm"
    and "ap_v (fst (kf_update ap now cm)) = Fin 0" and "ap_accepted (fst (kf_update ap now cm)) = 1"
proof -
  have "ap_rejects (kf_time_update ap now) = ap_rejects ap"
    by (simp add: kf_time_update_def Let_def)
  then show "snd (kf_update ap now cm)" "ap_d (fst (kf_update ap now cm)) = f32_of_int cm"
    "ap_v (fst (kf_update ap now cm)) = Fin 0" "ap_accepted (fst (kf_update ap now cm)) = 1"
    using assms by (simp_all add: kf_update_def kf_spike_def kf_rebase_def Let_def)
qed

section \<open>Properties\<close>

lemma init_frame:
  "ap_locked (ultrawidelock_approach_init los co)"
  "\<not> ap_approach_armed (ultrawidelock_approach_init los co)"
  "ap_wlen (ultrawidelock_approach_init los co) = 0"
  "ap_near_dwell (ultrawidelock_approach_init los co) = 0"
  "\<not> ap_pred_open (ultrawidelock_approach_init los co)"
  by (simp_all add: ultrawidelock_approach_init_def approach_zero_def Let_def)

lemma init_loitering:
  assumes "cfg_shape co" and "ac_approach_cm (ap_cfg (ultrawidelock_approach_init los co)) > 0"
    and "\<not> (ac_ml_los (ap_cfg (ultrawidelock_approach_init los co)) \<and>
            ac_range_correct_en (ap_cfg (ultrawidelock_approach_init los co)))"
  shows "loitering (ultrawidelock_approach_init los co)"
  using assms init_wf [OF assms(1), of los]
  by (auto simp: loitering_def init_frame)



text \<open>The actions drive the bolt exactly. Over any sequence of calls without a veto, a bolt
  that does nothing but follow the returned actions (and for which an unlock of an open bolt
  or a relock of a locked one would be an error) ends in the state the controller's own
  mirror \<open>locked\<close> records: every transition is reported once, and none is missed.\<close>

theorem actions_drive_the_bolt:
  assumes "cfg_shape co" and "EvVeto \<notin> set es"
  shows "bolt_run True (snd (run_steps ap_step (ultrawidelock_approach_init los co) es)) =
    Some (ap_locked (fst (run_steps ap_step (ultrawidelock_approach_init los co) es)))"
proof -
  have "ap_locked (ultrawidelock_approach_init los co)"
    by (simp add: ultrawidelock_approach_init_def Let_def)
  then show ?thesis
    using bolt_run_refines [OF init_wf [OF assms(1)] assms(2), of los] by simp
qed

theorem actions_drive_the_bolt_witness:
  "bolt_run True (snd (run_steps ap_step (ultrawidelock_approach_init True None)
      [EvSessionUp, EvFeed 1000 60 0 (Fin 0), EvFeed 2500 50 0 (Fin 0), EvTick 3000])) =
    Some (ap_locked (fst (run_steps ap_step (ultrawidelock_approach_init True None)
      [EvSessionUp, EvFeed 1000 60 0 (Fin 0), EvFeed 2500 50 0 (Fin 0), EvTick 3000])))"
  by (rule actions_drive_the_bolt) (simp_all add: cfg_shape_def)

text \<open>An arrival opens the door. When a session has come up on a fresh controller and every
  range fed afterwards is within the unlock radius, then \<open>near_dwell\<close> samples (at least one)
  suffice: some call among them returns an unlock action, whatever the sample times are.\<close>

theorem arrival_opens:
  assumes "cfg_shape co" and "ap0 = ultrawidelock_approach_session_up (ultrawidelock_approach_init los co)"
    and "ac_unlock_cm (ap_cfg ap0) + 2 \<le> ac_relock_cm (ap_cfg ap0)"
    and "\<not> (ac_ml_los (ap_cfg ap0) \<and> ac_range_correct_en (ap_cfg ap0))"
    and "\<forall>e \<in> set es. \<exists>now cm carry conf. e = EvFeed now cm carry conf \<and> cm \<le> ac_unlock_cm (ap_cfg ap0)"
    and "ac_near_dwell (ap_cfg ap0) \<le> int (length es)" and "es \<noteq> []"
  shows "UNLOCK_THRESHOLD \<in> set (snd (run_steps ap_step ap0 es)) \<or>
    UNLOCK_PREDICT \<in> set (snd (run_steps ap_step ap0 es))"
proof -
  have "arriving 0 ap0"
    using assms(2-4) init_wf [OF assms(1), of los]
    by (simp add: arriving_def ultrawidelock_approach_session_up_def approach_wf_def init_frame)
  then show ?thesis using arriving_run [of 0 ap0 es] assms(5-7) by auto
qed

theorem arrival_opens_witness:
  "UNLOCK_THRESHOLD \<in> set (snd (run_steps ap_step
      (ultrawidelock_approach_session_up (ultrawidelock_approach_init False None))
      [EvFeed 1000 80 0 (Fin 0), EvFeed 1200 70 0 (Fin 0)])) \<or>
   UNLOCK_PREDICT \<in> set (snd (run_steps ap_step
      (ultrawidelock_approach_session_up (ultrawidelock_approach_init False None))
      [EvFeed 1000 80 0 (Fin 0), EvFeed 1200 70 0 (Fin 0)]))"
proof -
  let ?a = "ultrawidelock_approach_session_up (ultrawidelock_approach_init False None)"
  have c: "ap_cfg ?a = ultrawidelock_approach_defaults False"
    by (simp add: ultrawidelock_approach_init_def approach_zero_def approach_cfg_clamp_def
        clamp_approach_cm_def clamp_widen_def ultrawidelock_approach_defaults_def
        ultrawidelock_approach_session_up_def)
  show ?thesis
    by (rule arrival_opens [of None ?a False])
      (simp_all only: c, simp_all add: cfg_shape_def ultrawidelock_approach_defaults_def)
qed

text \<open>The median the decisions use is the true median of the samples still young enough to
  vote: after a sample is filed, the in-place insertion sort picks the middle element of the
  sorted list of the window entries at most \<open>MEDIAN_STALE_MS\<close> old, and there is at least one.\<close>

theorem fresh_median_is_sorted_middle:
  assumes "approach_wf ap" and "a = filed ap now cm carry conf"
    and "t = map (\<lambda>i. ap_win a ! i) (filter (\<lambda>i. now - ap_win_ms a ! i \<le> 2500) [0..<ap_wlen a])"
  shows "t \<noteq> [] \<and> range_median_fresh a now = sort t ! (length t div 2)"
proof -
  have t: "t = map (\<lambda>i. ap_win a ! i) (fresh_idx a now)"
    using assms(3) by (simp add: fresh_idx_def MEDIAN_STALE_MS_def)
  have "fresh_idx a now \<noteq> []" using filed_fresh_nonempty [OF assms(1)] assms(2) by simp
  then show ?thesis
    by (simp add: range_median_fresh_def t range_median_sort)
qed

theorem fresh_median_is_sorted_middle_witness:
  "range_median_fresh (filed (ultrawidelock_approach_init False None) 1000 77 0 (Fin 0)) 1000 = 77"
proof -
  let ?i = "ultrawidelock_approach_init False None"
  let ?a = "filed ?i 1000 77 0 (Fin 0)"
  have wf: "approach_wf ?i" by (rule init_wf) (simp add: cfg_shape_def)
  have i: "ap_win ?i = [0, 0, 0, 0, 0]" "ap_win_ms ?i = [0, 0, 0, 0, 0]" "ap_wlen ?i = 0" "ap_wpos ?i = 0"
    by (simp_all add: ultrawidelock_approach_init_def approach_zero_def MEDIAN_N_def numeral_eq_Suc)
  show ?thesis
    using fresh_median_is_sorted_middle [OF wf, of ?a 1000 77 0 "Fin 0" "[77]"]
    by (simp add: i MEDIAN_N_def)
qed

text \<open>The radius in force never reaches the arming distance. In every well-formed state whose
  band is at least two centimetres wide and whose gate is on, the configured arming distance
  lies strictly inside the band, and the unlock radius with whatever widening the obstruction
  vote selects is at least \<open>unlock_cm\<close> and strictly below \<open>approach_cm\<close>.\<close>

theorem radius_below_arming_distance:
  assumes "approach_wf ap" and "c = ap_cfg ap" and "ac_unlock_cm c + 2 \<le> ac_relock_cm c" and "0 < ac_approach_cm c"
  shows "ac_unlock_cm c \<le> effective_unlock_cm ap now \<and> effective_unlock_cm ap now < ac_approach_cm c \<and>
    ac_approach_cm c < ac_relock_cm c"
proof -
  have w: "window_ok ap" using assms(1) by (simp add: approach_wf_def)
  then have b: "ac_unlock_cm c < ac_approach_cm c" "ac_approach_cm c < ac_relock_cm c"
    using clamped_approach_cm [of c] assms(2-4) by (auto simp: window_ok_def)
  have "effective_unlock_cm ap now < ac_approach_cm c"
    by (cases rule: effective_unlock_cases [OF w, of now])
      (use assms(2,4) b clamp_widen_bounds(2) in auto)
  then show ?thesis
    using effective_unlock_ge [OF w] assms(2,3) b by simp
qed

theorem radius_below_arming_distance_witness:
  "100 \<le> effective_unlock_cm (ultrawidelock_approach_init True None) 0 \<and>
   effective_unlock_cm (ultrawidelock_approach_init True None) 0 < 180"
proof -
  have c: "ap_cfg (ultrawidelock_approach_init True None) = ultrawidelock_approach_defaults True"
    by (simp add: ultrawidelock_approach_init_def approach_zero_def approach_cfg_clamp_def
        clamp_approach_cm_def clamp_widen_def ultrawidelock_approach_defaults_def)
  have wf: "approach_wf (ultrawidelock_approach_init True None)"
    by (rule init_wf) (simp add: cfg_shape_def)
  show ?thesis
    using radius_below_arming_distance [OF wf refl, of 0]
    unfolding c by (simp add: ultrawidelock_approach_defaults_def)
qed

lemma effective_unlock_armed [simp]:
  "effective_unlock_cm (a\<lparr>ap_approach_armed := b\<rparr>) now = effective_unlock_cm a now"
proof -
  let ?a = "a\<lparr>ap_approach_armed := b\<rparr>"
  have v: "nlos_votes ?a now = nlos_votes a now" by (simp add: nlos_votes_def)
  have "widen_for_class ?a = widen_for_class a"
    by (rule ext) (simp add: widen_for_class_def Let_def)
  moreover have "carry_votes ?a now = carry_votes a now"
    by (rule ext) (simp add: carry_votes_def v)
  ultimately show ?thesis
    by (simp add: effective_unlock_cm_def nlos_blocked_def nlos_carry_class_def v)
qed

text \<open>An unlock is always backed by the evidence the configuration demands. A presence unlock
  was offered for a locked bolt, with the trajectory gate answered, a corrected median within
  the radius in force, and the near-dwell counter at its threshold; a predictive unlock for a
  locked bolt, with the gate answered, an ETA between 0 and the retraction window
  \<open>motor_ms + margin_ms\<close>, and it leaves the bolt supervised by a deadline.\<close>

theorem unlock_has_evidence:
  assumes "approach_wf ap" and "feed_one ap now cm carry conf = (ap', act)"
    and "a = filed ap now cm carry conf" and "f = filed_median ap now cm carry conf"
  shows "(act = UNLOCK_THRESHOLD \<longrightarrow>
           ap_locked ap \<and> gate_answer a f \<and> f \<le> effective_unlock_cm a now \<and>
           ac_near_dwell (ap_cfg ap) \<le> ap_near_dwell ap + 1) \<and>
         (act = UNLOCK_PREDICT \<longrightarrow>
           ap_locked ap \<and> gate_answer a f \<and> 0 \<le> ap_eta_ms ap' \<and>
           ap_eta_ms ap' \<le> ac_motor_ms (ap_cfg ap) + ac_margin_ms (ap_cfg ap) \<and>
           ap_pred_open ap' \<and> ap_pred_deadline_ms ap' = now + ap_eta_ms ap' + PRED_GRACE_MS)"
proof (rule feed_one_stages [of ap now cm carry conf])
  fix fresh cl
  assume eq: "feed_one ap now cm carry conf =
      (case feed_presence (filed ap now cm carry conf) now (filed_median ap now cm carry conf) of
         (ap3, Some act) \<Rightarrow> (ap3, act)
       | (ap3, None) \<Rightarrow> feed_predict ap3 now fresh cl
            (gate_answer (filed ap now cm carry conf) (filed_median ap now cm carry conf)))"
  obtain ap3 out where p: "feed_presence a now f = (ap3, out)" by fastforce
  have frame: "ap_cfg a = ap_cfg ap" "ap_locked a = ap_locked ap" "ap_near_dwell a = ap_near_dwell ap"
    by (simp_all add: assms(3))
  show ?thesis
  proof (cases out)
    case None
    have "ap_cfg ap3 = ap_cfg ap \<and> ap_locked ap3 = ap_locked ap"
      using p None by (auto simp: feed_presence_def Let_def frame split: if_splits)
    then show ?thesis
      using eq p None assms(2-4)
      by (auto simp: feed_predict_def pred_abort_def Let_def split: if_splits)
  next
    case (Some act')
    then have "act = act'" using eq p assms(2-4) by simp
    then show ?thesis
      using p Some frame
      by (auto simp: feed_presence_def gate_answer_def approached_def Let_def split: if_splits)
  qed
qed

theorem unlock_has_evidence_witness:
  "\<exists>ap'. feed_one (ultrawidelock_approach_session_up (ultrawidelock_approach_init False
       (Some (ultrawidelock_approach_defaults False\<lparr>ac_near_dwell := 1\<rparr>)))) 1000 80 0 (Fin 0) =
     (ap', UNLOCK_THRESHOLD) \<and>
   filed_median (ultrawidelock_approach_session_up (ultrawidelock_approach_init False
       (Some (ultrawidelock_approach_defaults False\<lparr>ac_near_dwell := 1\<rparr>)))) 1000 80 0 (Fin 0) \<le>
   effective_unlock_cm (filed (ultrawidelock_approach_session_up (ultrawidelock_approach_init False
       (Some (ultrawidelock_approach_defaults False\<lparr>ac_near_dwell := 1\<rparr>)))) 1000 80 0 (Fin 0)) 1000"
proof -
  let ?a = "ultrawidelock_approach_session_up (ultrawidelock_approach_init False
       (Some (ultrawidelock_approach_defaults False\<lparr>ac_near_dwell := 1\<rparr>)))"
  have wf: "approach_wf ?a"
    using init_wf [of "Some (ultrawidelock_approach_defaults False\<lparr>ac_near_dwell := 1\<rparr>)" False]
    by (simp add: cfg_shape_def approach_wf_def ultrawidelock_approach_session_up_def
        ultrawidelock_approach_defaults_def init_frame)
  have "snd (feed_one ?a 1000 80 0 (Fin 0)) = UNLOCK_THRESHOLD" by code_simp
  then obtain ap' where r: "feed_one ?a 1000 80 0 (Fin 0) = (ap', UNLOCK_THRESHOLD)"
    by (metis prod.collapse)
  show ?thesis using unlock_has_evidence [OF wf r refl refl] r by blast
qed

text \<open>A predictive open is reclaimed on time. A tick at or after the deadline of an
  outstanding predictive open ends the prediction: either the credential has arrived, and the
  bolt is left to the presence rules, or the bolt is relocked and the abort reported.\<close>

theorem overdue_prediction_is_resolved:
  assumes "ap_pred_open ap" and "ap_pred_deadline_ms ap \<le> now"
    and "ultrawidelock_approach_tick ap now = (ap', act)"
  shows "\<not> ap_pred_open ap' \<and>
    (if pred_arrived ap now then act = HOLD \<and> ap_locked ap' = ap_locked ap
     else act = RELOCK_ABORT \<and> ap_locked ap')"
  using assms by (auto simp: ultrawidelock_approach_tick_def pred_abort_def Let_def split: if_splits)

theorem overdue_prediction_is_resolved_witness:
  "let ap = (ultrawidelock_approach_init False None)\<lparr>ap_locked := False, ap_pred_open := True,
          ap_pred_deadline_ms := 2000, ap_last_cm := 160, ap_last_feed_ms := 500\<rparr>
   in \<not> ap_pred_open (fst (ultrawidelock_approach_tick ap 2100)) \<and>
      snd (ultrawidelock_approach_tick ap 2100) = RELOCK_ABORT"
proof -
  define ap where "ap = (ultrawidelock_approach_init False None)\<lparr>ap_locked := False, ap_pred_open := True,
          ap_pred_deadline_ms := 2000, ap_last_cm := 160, ap_last_feed_ms := 500\<rparr>"
  have "\<not> pred_arrived ap 2100" unfolding ap_def by code_simp
  then have "\<not> ap_pred_open (fst (ultrawidelock_approach_tick ap 2100)) \<and>
      snd (ultrawidelock_approach_tick ap 2100) = RELOCK_ABORT"
    using overdue_prediction_is_resolved [of ap 2100, OF _ _ prod.collapse [symmetric]]
    by (simp add: ap_def)
  then show ?thesis by (simp add: ap_def Let_def)
qed

text \<open>Departure by silence. With the silence rule on, a bolt open on presence whose last range
  was outside the radius in force is relocked by the tick as soon as the silence reaches
  \<open>far_silence_ms\<close> if that range was at or beyond \<open>relock_cm\<close>, and the larger of it and
  \<open>BAND_SILENCE_MS\<close> if it was in the dead band; a credential last seen inside the radius is
  never relocked by silence, however long.\<close>

theorem silence_relocks_only_outside_radius:
  assumes "\<not> ap_locked ap" and "\<not> ap_pred_open ap" and "0 < ac_far_silence_ms (ap_cfg ap)"
    and "ap_last_feed_ms ap \<noteq> 0" and "c = ap_cfg ap"
    and "need = (if ap_last_cm ap < ac_relock_cm c then max (ac_far_silence_ms c) 2500 else ac_far_silence_ms c)"
  shows "ap_locked (fst (ultrawidelock_approach_tick ap now)) \<longleftrightarrow>
    effective_unlock_cm ap now < ap_last_cm ap \<and> need \<le> now - ap_last_feed_ms ap"
  using assms
  by (auto simp: ultrawidelock_approach_tick_def silence_need_ms_def BAND_SILENCE_MS_def Let_def max_def)

theorem silence_relocks_only_outside_radius_witness:
  "let ap = (ultrawidelock_approach_init False None)\<lparr>ap_locked := False, ap_last_cm := 207, ap_last_feed_ms := 1000\<rparr>
   in ap_locked (fst (ultrawidelock_approach_tick ap 3500)) \<and> \<not> ap_locked (fst (ultrawidelock_approach_tick ap 3499))"
proof -
  define ap where "ap = (ultrawidelock_approach_init False None)\<lparr>ap_locked := False, ap_last_cm := 207, ap_last_feed_ms := 1000\<rparr>"
  have c: "ap_cfg ap = ultrawidelock_approach_defaults False"
    by (simp add: ap_def ultrawidelock_approach_init_def approach_zero_def approach_cfg_clamp_def
        clamp_approach_cm_def clamp_widen_def ultrawidelock_approach_defaults_def)
  have "effective_unlock_cm ap t = 100" for t
    by (simp add: effective_unlock_cm_def nlos_blocked_def c ultrawidelock_approach_defaults_def)
  moreover have "\<not> ap_locked ap" "\<not> ap_pred_open ap" "ap_last_feed_ms ap = 1000" "ap_last_cm ap = 207"
    by (simp_all add: ap_def init_frame)
  ultimately have "ap_locked (fst (ultrawidelock_approach_tick ap t)) \<longleftrightarrow> 3500 \<le> t" for t
    using silence_relocks_only_outside_radius [of ap "ap_cfg ap" 2500 t]
    by (simp add: c ultrawidelock_approach_defaults_def)
  then have "ap_locked (fst (ultrawidelock_approach_tick ap 3500)) \<and>
      \<not> ap_locked (fst (ultrawidelock_approach_tick ap 3499))"
    by simp
  then show ?thesis by (simp add: ap_def Let_def)
qed

lemma feed_predict_not_threshold: "snd (feed_predict ap now fresh cl appr) \<noteq> UNLOCK_THRESHOLD"
  by (simp add: feed_predict_def pred_abort_def Let_def)

lemma threshold_from_presence:
  assumes "feed_one ap now cm carry conf = (ap', UNLOCK_THRESHOLD)"
  shows "feed_presence (filed ap now cm carry conf) now (filed_median ap now cm carry conf) =
    (ap', Some UNLOCK_THRESHOLD)"
  using assms feed_predict_not_threshold
  by (rule_tac feed_one_stages [of ap now cm carry conf])
    (auto split: option.splits prod.splits, metis snd_conv)

text \<open>A refused unlock is offered again. After a presence unlock that the caller vetoes, the
  controller is locked again but keeps the dwell it had counted and the approach it had seen:
  the next sample whose median is still within the radius in force is answered with a
  presence unlock at once.\<close>

theorem vetoed_unlock_is_reoffered:
  assumes "approach_wf ap" and "feed_one ap now cm carry conf = (ap1, UNLOCK_THRESHOLD)"
    and "ap2 = ultrawidelock_approach_veto ap1"
    and "filed_median ap2 now' cm' carry' conf' \<le> effective_unlock_cm (filed ap2 now' cm' carry' conf') now'"
  shows "ap_locked ap2 \<and> snd (feed_one ap2 now' cm' carry' conf') = UNLOCK_THRESHOLD"
proof (rule feed_one_stages [of ap2 now' cm' carry' conf'])
  fix fresh cl
  let ?a = "filed ap2 now' cm' carry' conf'" and ?f = "filed_median ap2 now' cm' carry' conf'"
  assume eq: "feed_one ap2 now' cm' carry' conf' = (case feed_presence ?a now' ?f of
       (ap3, Some act) \<Rightarrow> (ap3, act)
     | (ap3, None) \<Rightarrow> feed_predict ap3 now' fresh cl (gate_answer ?a ?f))"
  have "ap_cfg ap1 = ap_cfg ap \<and> ac_near_dwell (ap_cfg ap) \<le> ap_near_dwell ap1 \<and>
      (ac_approach_cm (ap_cfg ap) \<le> 0 \<or> ap_approach_armed ap1)"
    using threshold_from_presence [OF assms(2)]
    by (auto simp: feed_presence_def approached_def Let_def split: if_splits)
  then have "ap_locked ap2" "ac_near_dwell (ap_cfg ap2) \<le> ap_near_dwell ap2 + 1"
      "ac_approach_cm (ap_cfg ap2) \<le> 0 \<or> ap_approach_armed ap2"
    by (auto simp: assms(3) ultrawidelock_approach_veto_def)
  then show ?thesis
    unfolding eq using assms(4)
    by (auto simp: feed_presence_def approached_def Let_def)
qed

theorem vetoed_unlock_is_reoffered_witness:
  "let ap = ultrawidelock_approach_session_up (ultrawidelock_approach_init False
        (Some (ultrawidelock_approach_defaults False\<lparr>ac_near_dwell := 1\<rparr>)));
       ap2 = ultrawidelock_approach_veto (fst (feed_one ap 1000 80 0 (Fin 0)))
   in snd (feed_one ap2 2500 75 0 (Fin 0)) = UNLOCK_THRESHOLD"
proof -
  define c where "c = ultrawidelock_approach_defaults False\<lparr>ac_near_dwell := 1\<rparr>"
  define ap where "ap = ultrawidelock_approach_session_up (ultrawidelock_approach_init False (Some c))"
  define ap2 where "ap2 = ultrawidelock_approach_veto (fst (feed_one ap 1000 80 0 (Fin 0)))"
  have wf: "approach_wf ap"
    using init_wf [of "Some c" False]
    by (simp add: ap_def c_def cfg_shape_def approach_wf_def ultrawidelock_approach_session_up_def
        ultrawidelock_approach_defaults_def init_frame)
  have "snd (feed_one ap 1000 80 0 (Fin 0)) = UNLOCK_THRESHOLD"
    unfolding ap_def c_def by code_simp
  then have r: "feed_one ap 1000 80 0 (Fin 0) = (fst (feed_one ap 1000 80 0 (Fin 0)), UNLOCK_THRESHOLD)"
    by (metis prod.collapse)
  have "filed_median ap2 2500 75 0 (Fin 0) \<le> effective_unlock_cm (filed ap2 2500 75 0 (Fin 0)) 2500"
    unfolding ap2_def ap_def c_def by code_simp
  then have "snd (feed_one ap2 2500 75 0 (Fin 0)) = UNLOCK_THRESHOLD"
    using vetoed_unlock_is_reoffered [OF wf r ap2_def] by blast
  then show ?thesis by (simp add: ap2_def ap_def c_def Let_def)
qed

text \<open>The innovation gate. A measurement more than a metre away from the prediction does not
  move the estimate: the filter only advances its time and counts the reject. The third
  such measurement in a row re-bases the filter on the data, at the measured distance with
  zero velocity and convergence starting over, so the gate cannot wedge shut.\<close>

theorem innovation_gate:
  assumes "kf_spike ap now cm"
  shows "if ap_rejects ap + 1 < 3
    then kf_update ap now cm = ((kf_time_update ap now)\<lparr>ap_rejects := ap_rejects ap + 1\<rparr>, False)
    else snd (kf_update ap now cm) \<and> ap_d (fst (kf_update ap now cm)) = f32_of_int cm \<and>
         ap_v (fst (kf_update ap now cm)) = Fin 0 \<and> ap_accepted (fst (kf_update ap now cm)) = 1"
  using kf_spike_rejected [OF assms] kf_spike_rebases [OF assms] by (simp add: KF_REJECT_MAX_def)

theorem innovation_gate_witness:
  "let ap = fst (kf_update (ultrawidelock_approach_init False None) 1000 300)
   in kf_update ap 1200 40 = ((kf_time_update ap 1200)\<lparr>ap_rejects := 1\<rparr>, False)"
proof -
  define ap where "ap = fst (kf_update (ultrawidelock_approach_init False None) 1000 300)"
  have "kf_spike ap 1200 40" and "ap_rejects ap = 0"
    unfolding ap_def by code_simp+
  then have "kf_update ap 1200 40 = ((kf_time_update ap 1200)\<lparr>ap_rejects := 1\<rparr>, False)"
    using innovation_gate [of ap 1200 40] by simp
  then show ?thesis by (simp add: ap_def Let_def)
qed

end
