(* ===== verification/Side.thy ===== *)
theory Side
  imports Prelude
begin

text \<open>
  The inside/outside gate of passive unlock (\<^verbatim>\<open>modules/ultrawidelock_anchor/src/ultrawidelock_side.c\<close>):
  the differential-RSSI classification of one window, the temporal filter over windows, and
  the gate. The feed is written in the stages the source runs in order (fault flags,
  classification, candidate, commit, decision).
\<close>

datatype side_label = L_UNKNOWN | L_INSIDE | L_OUTSIDE | L_THRESHOLD

datatype side_motion =
    MOTION_UNKNOWN
  | MOTION_OUTSIDE_FAR
  | MOTION_OUTSIDE_APPROACHING
  | MOTION_OUTSIDE_NEAR
  | MOTION_THRESHOLD
  | MOTION_INSIDE_NEAR
  | MOTION_INSIDE_FAR

record side_features =
  sf_obs_session_id :: u32
  sf_seq :: u32
  sf_now_ms :: int
  sf_uwb_range_mm :: int
  sf_uwb_vel_mm_s :: int
  sf_uwb_range_var_mm :: int
  sf_rssi_inside :: int
  sf_rssi_outside :: int
  sf_rssi_threshold :: int
  sf_pkts_inside :: u8
  sf_pkts_outside :: u8
  sf_pkts_threshold :: u8
  sf_uwb_peer_mm :: int
  sf_fusion_side :: u8
  sf_fusion_conf :: u8
  sf_door_state :: u8
  sf_prev_side :: u8
  sf_since_confirmed_ms :: u16
  sf_classifier_ver :: u8
  sf_calibration_ver :: u8
  sf_anchor_health_mask :: u8
  sf_flags :: u8

record side_cfg =
  sc_rssi_outside_margin_db :: int
  sc_rssi_threshold_band_db :: int
  sc_min_pkts_per_anchor :: u8
  sc_quorum_mask :: u8
  sc_agree_windows :: u8
  sc_dwell_ms :: u16
  sc_evidence_fresh_ms :: u16
  sc_outside_hold_ms :: u16
  sc_confidence_min :: u8
  sc_classifier_ver :: u8
  sc_calibration_ver :: u8

record side_raw =
  sr_side :: side_label
  sr_confidence :: u8
  sr_contrib_mask :: u8
  sr_oi_db :: int
  sr_ti_db :: int
  sr_ot_db :: int

record side_decision =
  sd_side :: side_label
  sd_motion :: side_motion
  sd_confidence :: u8
  sd_contrib_mask :: u8
  sd_flags :: u8
  sd_classifier_ver :: u8
  sd_calibration_ver :: u8
  sd_obs_session_id :: u32
  sd_seq :: u32
  sd_decided_ms :: int

record side_filter =
  fl_cfg :: side_cfg
  fl_cand :: side_label
  fl_committed :: side_label
  fl_motion :: side_motion
  fl_cand_n :: u8
  fl_confidence :: u8
  fl_committed_conf :: u8
  fl_contrib_mask :: u8
  fl_flags :: u8
  fl_obs_session_id :: u32
  fl_last_seq :: u32
  fl_cand_since_ms :: int
  fl_committed_ms :: int
  fl_last_outside_ms :: int
  fl_last_inside_ms :: int

text \<open>The flag bits and the anchor mask.\<close>

abbreviation SF_DEGRADED :: u8 where "SF_DEGRADED \<equiv> 0x01"
abbreviation SF_MULTI_PHONE :: u8 where "SF_MULTI_PHONE \<equiv> 0x02"
abbreviation SF_SESSION_MISMATCH :: u8 where "SF_SESSION_MISMATCH \<equiv> 0x04"
abbreviation SF_REPLAY :: u8 where "SF_REPLAY \<equiv> 0x08"
abbreviation SF_VERSION_MISMATCH :: u8 where "SF_VERSION_MISMATCH \<equiv> 0x10"
abbreviation SF_INSIDE_CONTRADICT :: u8 where "SF_INSIDE_CONTRADICT \<equiv> 0x20"
abbreviation SF_EVIDENCE_STALE :: u8 where "SF_EVIDENCE_STALE \<equiv> 0x40"
abbreviation SF_QUORUM_FAIL :: u8 where "SF_QUORUM_FAIL \<equiv> 0x80"

abbreviation UINT32_MAX :: u32 where "UINT32_MAX \<equiv> 0xFFFFFFFF"
abbreviation RSSI_ABSENT :: int where "RSSI_ABSENT \<equiv> - 32768"
abbreviation VEL_UNKNOWN :: int where "VEL_UNKNOWN \<equiv> - 2147483648"

section \<open>Defaults and initialisation\<close>

definition ultrawidelock_side_defaults :: side_cfg where
  [cfg_defs]: "ultrawidelock_side_defaults =
     \<lparr>sc_rssi_outside_margin_db = 6, sc_rssi_threshold_band_db = 3, sc_min_pkts_per_anchor = 3,
      sc_quorum_mask = 0x02 OR 0x04, sc_agree_windows = 3, sc_dwell_ms = 400,
      sc_evidence_fresh_ms = 4500, sc_outside_hold_ms = 8000, sc_confidence_min = 60,
      sc_classifier_ver = 1, sc_calibration_ver = 1\<rparr>"

definition side_cfg_or_default :: "side_cfg option \<Rightarrow> side_cfg" where
  "side_cfg_or_default co = (case co of Some c \<Rightarrow> c | None \<Rightarrow> ultrawidelock_side_defaults)"

definition ultrawidelock_side_filter_init :: "side_cfg option \<Rightarrow> side_filter" where
  "ultrawidelock_side_filter_init co =
     \<lparr>fl_cfg = side_cfg_or_default co, fl_cand = L_UNKNOWN, fl_committed = L_UNKNOWN,
      fl_motion = MOTION_UNKNOWN, fl_cand_n = 0, fl_confidence = 0, fl_committed_conf = 0,
      fl_contrib_mask = 0, fl_flags = 0, fl_obs_session_id = 0, fl_last_seq = UINT32_MAX,
      fl_cand_since_ms = 0, fl_committed_ms = 0, fl_last_outside_ms = 0, fl_last_inside_ms = 0\<rparr>"

definition ultrawidelock_side_transition_ok :: "side_label \<Rightarrow> side_label \<Rightarrow> bool" where
  "ultrawidelock_side_transition_ok from to =
     (if from = to \<or> from = L_UNKNOWN \<or> to = L_UNKNOWN then True
      else if from = L_INSIDE \<and> to = L_OUTSIDE \<or> from = L_OUTSIDE \<and> to = L_INSIDE then False
      else True)"

section \<open>Classification of one window\<close>

definition rssi_present :: "int \<Rightarrow> u8 \<Rightarrow> u8 \<Rightarrow> bool" where
  "rssi_present rssi pkts min_pkts = (rssi \<noteq> RSSI_ABSENT \<and> pkts \<ge> min_pkts)"

definition clamp_u8 :: "int \<Rightarrow> u8" where
  "clamp_u8 v = (if v < 0 then 0 else if v > 100 then 100 else word_of_int v)"

definition side_raw_zero :: side_raw where
  "side_raw_zero = \<lparr>sr_side = L_UNKNOWN, sr_confidence = 0, sr_contrib_mask = 0,
     sr_oi_db = 0, sr_ti_db = 0, sr_ot_db = 0\<rparr>"

definition contrib_mask :: "side_cfg \<Rightarrow> side_features \<Rightarrow> u8" where
  "contrib_mask c ft =
     (if sf_uwb_range_mm ft \<ge> 0 then 0x01 else 0) OR
     (if rssi_present (sf_rssi_inside ft) (sf_pkts_inside ft) (sc_min_pkts_per_anchor c) then 0x02 else 0) OR
     (if rssi_present (sf_rssi_outside ft) (sf_pkts_outside ft) (sc_min_pkts_per_anchor c) then 0x04 else 0) OR
     (if rssi_present (sf_rssi_threshold ft) (sf_pkts_threshold ft) (sc_min_pkts_per_anchor c) then 0x08 else 0) OR
     (if sf_uwb_peer_mm ft \<ge> 0 then 0x10 else 0)"

text \<open>The opinion of the two-anchor fusion, when the caller has one.\<close>

definition fusion_opinion :: "side_features \<Rightarrow> side_label \<times> u8" where
  "fusion_opinion ft =
     (let conf = (if sf_fusion_conf ft > 100 then 100 else sf_fusion_conf ft)
      in if sf_fusion_side ft = 2 then (L_OUTSIDE, conf)
         else if sf_fusion_side ft = 1 then (L_INSIDE, conf)
         else if sf_fusion_side ft = 3 then (L_THRESHOLD, conf)
         else (L_UNKNOWN, 0))"

definition ultrawidelock_side_classify_raw :: "side_cfg option \<Rightarrow> side_features option \<Rightarrow> side_raw" where
  "ultrawidelock_side_classify_raw co fo =
     (case fo of None \<Rightarrow> side_raw_zero
      | Some ft \<Rightarrow>
        let c = side_cfg_or_default co in
        if sf_flags ft AND (SF_MULTI_PHONE OR SF_SESSION_MISMATCH OR SF_REPLAY OR
             SF_VERSION_MISMATCH OR SF_DEGRADED OR SF_EVIDENCE_STALE) \<noteq> 0
        then side_raw_zero
        else
          let mask = contrib_mask c ft;
              have_in = rssi_present (sf_rssi_inside ft) (sf_pkts_inside ft) (sc_min_pkts_per_anchor c);
              have_out = rssi_present (sf_rssi_outside ft) (sf_pkts_outside ft) (sc_min_pkts_per_anchor c);
              have_th = rssi_present (sf_rssi_threshold ft) (sf_pkts_threshold ft) (sc_min_pkts_per_anchor c);
              (side, conf) = fusion_opinion ft;
              margin = sc_rssi_outside_margin_db c;
              band = sc_rssi_threshold_band_db c
          in if have_in \<and> have_out then
               let oi = sf_rssi_outside ft - sf_rssi_inside ft;
                   ti = sf_rssi_threshold ft - sf_rssi_inside ft;
                   ot = sf_rssi_outside ft - sf_rssi_threshold ft;
                   raw = side_raw_zero\<lparr>sr_contrib_mask := mask, sr_oi_db := to_i16 oi,
                           sr_ti_db := (if have_th then to_i16 ti else 0),
                           sr_ot_db := (if have_th then to_i16 ot else 0)\<rparr>
               in if have_th \<and> oi > - band \<and> oi < band \<and> ot > - band \<and> ot < band
                  then raw\<lparr>sr_side := L_THRESHOLD,
                         sr_confidence := clamp_u8 (55 + (band - (if oi < 0 then - oi else oi)) * 5)\<rparr>
                  else if oi \<ge> margin then
                    (if side = L_INSIDE then raw\<lparr>sr_side := L_UNKNOWN, sr_confidence := 0\<rparr>
                     else raw\<lparr>sr_side := L_OUTSIDE, sr_confidence := clamp_u8 (60 + (oi - margin) * 4)\<rparr>)
                  else if oi \<le> - margin then
                    (if side = L_OUTSIDE then raw\<lparr>sr_side := L_UNKNOWN, sr_confidence := 0\<rparr>
                     else raw\<lparr>sr_side := L_INSIDE, sr_confidence := clamp_u8 (60 + (- oi - margin) * 4)\<rparr>)
                  else if side = L_UNKNOWN then raw\<lparr>sr_side := L_THRESHOLD, sr_confidence := 40\<rparr>
                  else raw\<lparr>sr_side := side, sr_confidence := conf\<rparr>
             else if side = L_UNKNOWN then side_raw_zero\<lparr>sr_contrib_mask := mask\<rparr>
             else side_raw_zero\<lparr>sr_contrib_mask := mask, sr_side := side, sr_confidence := conf\<rparr>)"

definition motion_from :: "side_label \<Rightarrow> int \<Rightarrow> int \<Rightarrow> side_motion" where
  "motion_from side vel range_mm =
     (let closing = (vel \<noteq> VEL_UNKNOWN \<and> vel < - 100);
          far = (range_mm < 0 \<or> range_mm > 1500)
      in case side of
           L_OUTSIDE \<Rightarrow>
             if far then (if closing then MOTION_OUTSIDE_APPROACHING else MOTION_OUTSIDE_FAR)
             else (if closing then MOTION_OUTSIDE_APPROACHING else MOTION_OUTSIDE_NEAR)
         | L_INSIDE \<Rightarrow> if far then MOTION_INSIDE_FAR else MOTION_INSIDE_NEAR
         | L_THRESHOLD \<Rightarrow> MOTION_THRESHOLD
         | L_UNKNOWN \<Rightarrow> MOTION_UNKNOWN)"

section \<open>The temporal filter\<close>

text \<open>Stage 1: the reset on a new observation session and the fault flags of this window.\<close>

definition feed_session :: "side_filter \<Rightarrow> side_features \<Rightarrow> side_filter" where
  "feed_session f ft =
     (if fl_obs_session_id f \<noteq> 0 \<and> sf_obs_session_id ft \<noteq> fl_obs_session_id f
      then f\<lparr>fl_cand_n := 0, fl_cand := L_UNKNOWN, fl_last_seq := UINT32_MAX\<rparr> else f)"

definition feed_flags :: "side_filter \<Rightarrow> side_features \<Rightarrow> u8" where
  "feed_flags f ft =
     (let f1 = feed_session f ft;
          c = fl_cfg f
      in sf_flags ft OR
         (if sf_classifier_ver ft \<noteq> sc_classifier_ver c \<or> sf_calibration_ver ft \<noteq> sc_calibration_ver c
          then SF_VERSION_MISMATCH else 0) OR
         (if fl_last_seq f1 \<noteq> UINT32_MAX \<and> sf_seq ft \<noteq> 0 \<and> sf_seq ft \<le> fl_last_seq f1
          then SF_REPLAY else 0) OR
         (if sf_anchor_health_mask ft AND sc_quorum_mask c \<noteq> sc_quorum_mask c
          then SF_QUORUM_FAIL else 0))"

text \<open>Stage 2: the classification, suppressed when a fault flag is set.\<close>

definition feed_raw :: "side_filter \<Rightarrow> side_features \<Rightarrow> side_raw" where
  "feed_raw f ft =
     (let raw = ultrawidelock_side_classify_raw (Some (fl_cfg f)) (Some ft)
      in if feed_flags f ft AND (SF_MULTI_PHONE OR SF_SESSION_MISMATCH OR SF_REPLAY OR
              SF_VERSION_MISMATCH OR SF_DEGRADED OR SF_EVIDENCE_STALE OR SF_QUORUM_FAIL) \<noteq> 0
         then raw\<lparr>sr_side := L_UNKNOWN, sr_confidence := 0\<rparr> else raw)"

definition feed_flags_final :: "side_filter \<Rightarrow> side_features \<Rightarrow> u8" where
  "feed_flags_final f ft =
     (if sr_side (feed_raw f ft) = L_INSIDE \<and> fl_committed f = L_OUTSIDE \<and>
         \<not> ultrawidelock_side_transition_ok (fl_committed f) (sr_side (feed_raw f ft))
      then feed_flags f ft OR SF_INSIDE_CONTRADICT else feed_flags f ft)"

text \<open>A window that heard too few packets is missing data, not evidence.\<close>

definition evidence_gap :: "side_filter \<Rightarrow> side_features \<Rightarrow> bool" where
  "evidence_gap f ft =
     (sr_side (feed_raw f ft) = L_UNKNOWN \<and> sr_confidence (feed_raw f ft) = 0 \<and> feed_flags_final f ft = 0)"

text \<open>Stage 3: the inside stamp, the bookkeeping fields and the candidate.\<close>

definition feed_candidate :: "side_filter \<Rightarrow> side_features \<Rightarrow> side_filter" where
  "feed_candidate f ft =
     (let raw = feed_raw f ft;
          f1 = feed_session f ft;
          f2 = (if sr_side raw = L_INSIDE then f1\<lparr>fl_last_inside_ms := sf_now_ms ft\<rparr> else f1);
          f3 = f2\<lparr>fl_obs_session_id := sf_obs_session_id ft, fl_last_seq := sf_seq ft,
                  fl_flags := feed_flags_final f ft, fl_contrib_mask := sr_contrib_mask raw\<rparr>
      in if evidence_gap f ft then f3
         else if sr_side raw = fl_cand f3 \<and> sr_side raw \<noteq> L_UNKNOWN
         then f3\<lparr>fl_cand_n := (if fl_cand_n f3 < 255 then fl_cand_n f3 + 1 else fl_cand_n f3),
                 fl_confidence := sr_confidence raw\<rparr>
         else f3\<lparr>fl_cand := sr_side raw, fl_cand_n := (if sr_side raw = L_UNKNOWN then 0 else 1),
                 fl_cand_since_ms := sf_now_ms ft, fl_confidence := sr_confidence raw\<rparr>)"

text \<open>Stage 4: the commit, its decay, the lone-spike guard and the motion state.\<close>

definition feed_commit :: "side_filter \<Rightarrow> side_raw \<Rightarrow> side_features \<Rightarrow> side_filter" where
  "feed_commit f raw ft =
     (let c = fl_cfg f;
          now = sf_now_ms ft;
          f1 = (if sr_side raw \<noteq> L_UNKNOWN \<and> fl_cand_n f \<ge> sc_agree_windows c \<and>
                   now - fl_cand_since_ms f \<ge> uint (sc_dwell_ms c)
                then (let f' = f\<lparr>fl_committed := sr_side raw, fl_committed_ms := now,
                                 fl_committed_conf := sr_confidence raw\<rparr>
                      in if sr_side raw = L_OUTSIDE then f'\<lparr>fl_last_outside_ms := now\<rparr>
                         else if sr_side raw = L_INSIDE then f'\<lparr>fl_last_inside_ms := now\<rparr>
                         else f')
                else if sr_side raw = L_UNKNOWN then
                  (if fl_committed f \<noteq> L_UNKNOWN \<and> now - fl_committed_ms f > uint (sc_evidence_fresh_ms c)
                   then f\<lparr>fl_committed := L_UNKNOWN, fl_confidence := 0, fl_committed_conf := 0\<rparr> else f)
                else f);
          f2 = (if fl_committed f1 = L_INSIDE \<and> sr_side raw = L_OUTSIDE \<and> fl_cand_n f1 < sc_agree_windows c
                then f1\<lparr>fl_committed := L_INSIDE\<rparr> else f1)
      in f2\<lparr>fl_motion := motion_from (fl_committed f2) (sf_uwb_vel_mm_s ft) (sf_uwb_range_mm ft)\<rparr>)"

definition hold_outside :: "side_filter \<Rightarrow> side_label \<Rightarrow> int \<Rightarrow> bool" where
  "hold_outside f side now =
     (sc_outside_hold_ms (fl_cfg f) \<noteq> 0 \<and> side = L_OUTSIDE \<and>
      fl_last_outside_ms f > fl_last_inside_ms f \<and>
      now - fl_last_outside_ms f \<le> uint (sc_outside_hold_ms (fl_cfg f)))"

text \<open>Stage 5: the decision reported for the filter after the commit stage.\<close>

definition feed_decide :: "side_filter \<Rightarrow> side_features \<Rightarrow> side_decision" where
  "feed_decide f ft =
     (let now = sf_now_ms ft;
          d = \<lparr>sd_side = fl_committed f, sd_motion = fl_motion f,
               sd_confidence = (if fl_committed f \<noteq> L_UNKNOWN then fl_committed_conf f else fl_confidence f),
               sd_contrib_mask = fl_contrib_mask f, sd_flags = fl_flags f,
               sd_classifier_ver = sc_classifier_ver (fl_cfg f),
               sd_calibration_ver = sc_calibration_ver (fl_cfg f),
               sd_obs_session_id = sf_obs_session_id ft, sd_seq = sf_seq ft, sd_decided_ms = now\<rparr>
      in if sd_side d \<noteq> L_UNKNOWN \<and> now - fl_committed_ms f > uint (sc_evidence_fresh_ms (fl_cfg f)) \<and>
            \<not> hold_outside f (sd_side d) now
         then d\<lparr>sd_side := L_UNKNOWN, sd_flags := sd_flags d OR SF_EVIDENCE_STALE, sd_confidence := 0\<rparr>
         else d)"

definition side_decision_degraded :: side_decision where
  "side_decision_degraded =
     \<lparr>sd_side = L_UNKNOWN, sd_motion = MOTION_UNKNOWN, sd_confidence = 0, sd_contrib_mask = 0,
      sd_flags = SF_DEGRADED, sd_classifier_ver = 0, sd_calibration_ver = 0, sd_obs_session_id = 0,
      sd_seq = 0, sd_decided_ms = 0\<rparr>"

definition ultrawidelock_side_filter_feed ::
    "side_filter \<Rightarrow> side_features option \<Rightarrow> side_filter \<times> side_decision" where
  "ultrawidelock_side_filter_feed f fo =
     (case fo of None \<Rightarrow> (f, side_decision_degraded)
      | Some ft \<Rightarrow> let f1 = feed_commit (feed_candidate f ft) (feed_raw f ft) ft
                  in (f1, feed_decide f1 ft))"

section \<open>The gate\<close>

definition ultrawidelock_side_may_passive_unlock :: "side_decision option \<Rightarrow> side_cfg option \<Rightarrow> bool" where
  "ultrawidelock_side_may_passive_unlock dopt co =
     (case dopt of None \<Rightarrow> False
      | Some d \<Rightarrow>
        let c = side_cfg_or_default co
        in if sd_side d \<noteq> L_OUTSIDE then False
           else if sd_confidence d < sc_confidence_min c then False
           else if sd_flags d AND (SF_DEGRADED OR SF_MULTI_PHONE OR SF_SESSION_MISMATCH OR SF_REPLAY OR
                     SF_VERSION_MISMATCH OR SF_INSIDE_CONTRADICT OR SF_EVIDENCE_STALE OR SF_QUORUM_FAIL) \<noteq> 0
           then False
           else True)"

end
