(* ===== verification/Side_Proofs.thy ===== *)
theory Side_Proofs
  imports Side "HOL-Library.Sublist"
begin

text \<open>
  What the inside/outside gate guarantees. The first section gives the fields after each stage
  of a feed and the exact condition of a permit; the second follows the agreement streak over
  runs of the filter (\<^verbatim>\<open>streak_inv\<close>, an instance of the \<open>stepper\<close> interface); the third
  shows that a walk-up does open the gate, and how the sequence check treats replays.
\<close>

section \<open>One feed\<close>

lemma feed_Some:
  "ultrawidelock_side_filter_feed f (Some ft) =
     (feed_commit (feed_candidate f ft) (feed_raw f ft) ft,
      feed_decide (feed_commit (feed_candidate f ft) (feed_raw f ft) ft) ft)"
  by (simp add: ultrawidelock_side_filter_feed_def Let_def)

lemma all_flags: "(SF_DEGRADED OR SF_MULTI_PHONE OR SF_SESSION_MISMATCH OR SF_REPLAY OR
   SF_VERSION_MISMATCH OR SF_INSIDE_CONTRADICT OR SF_EVIDENCE_STALE OR SF_QUORUM_FAIL) = (- 1 :: u8)"
  by simp

lemma side_gate_iff:
  "ultrawidelock_side_may_passive_unlock (Some d) co \<longleftrightarrow>
     sd_side d = L_OUTSIDE \<and> sc_confidence_min (side_cfg_or_default co) \<le> sd_confidence d \<and> sd_flags d = 0"
  unfolding ultrawidelock_side_may_passive_unlock_def all_flags by (auto simp: Let_def not_less)

lemma feed_candidate_fields [simp]:
  "fl_cfg (feed_candidate f ft) = fl_cfg f"
  "fl_committed (feed_candidate f ft) = fl_committed f"
  "fl_committed_ms (feed_candidate f ft) = fl_committed_ms f"
  "fl_committed_conf (feed_candidate f ft) = fl_committed_conf f"
  "fl_last_outside_ms (feed_candidate f ft) = fl_last_outside_ms f"
  "fl_flags (feed_candidate f ft) = feed_flags_final f ft"
  "fl_last_seq (feed_candidate f ft) = sf_seq ft"
  "fl_obs_session_id (feed_candidate f ft) = sf_obs_session_id ft"
  by (simp_all add: feed_candidate_def feed_session_def Let_def)

lemma feed_commit_fields [simp]:
  "fl_cfg (feed_commit f raw ft) = fl_cfg f"
  "fl_flags (feed_commit f raw ft) = fl_flags f"
  "fl_cand (feed_commit f raw ft) = fl_cand f"
  "fl_cand_n (feed_commit f raw ft) = fl_cand_n f"
  "fl_cand_since_ms (feed_commit f raw ft) = fl_cand_since_ms f"
  "fl_last_seq (feed_commit f raw ft) = fl_last_seq f"
  "fl_obs_session_id (feed_commit f raw ft) = fl_obs_session_id f"
  by (simp_all add: feed_commit_def Let_def)

text \<open>A concrete window: both witnesses heard, the outside one stronger by \<open>oi\<close> dB.\<close>

definition wit_window :: "u32 \<Rightarrow> int \<Rightarrow> int \<Rightarrow> side_features" where
  "wit_window sq t oi = \<lparr>sf_obs_session_id = 7, sf_seq = sq, sf_now_ms = t, sf_uwb_range_mm = 2000,
     sf_uwb_vel_mm_s = - 400, sf_uwb_range_var_mm = - 1, sf_rssi_inside = - 70, sf_rssi_outside = - 70 + oi,
     sf_rssi_threshold = RSSI_ABSENT, sf_pkts_inside = 5, sf_pkts_outside = 5, sf_pkts_threshold = 0,
     sf_uwb_peer_mm = - 1, sf_fusion_side = 0, sf_fusion_conf = 0, sf_door_state = 0, sf_prev_side = 0,
     sf_since_confirmed_ms = 0, sf_classifier_ver = 1, sf_calibration_ver = 1, sf_anchor_health_mask = 6,
     sf_flags = 0\<rparr>"

text \<open>A window either commits its own side, keeps the committed one, or lets it decay.\<close>

definition commits :: "side_filter \<Rightarrow> side_raw \<Rightarrow> side_features \<Rightarrow> bool" where
  "commits f raw ft \<longleftrightarrow> sr_side raw \<noteq> L_UNKNOWN \<and> fl_cand_n f \<ge> sc_agree_windows (fl_cfg f) \<and>
     sf_now_ms ft - fl_cand_since_ms f \<ge> uint (sc_dwell_ms (fl_cfg f))"

lemma fl_committed_commit:
  "fl_committed (feed_commit f raw ft) =
    (if commits f raw ft then sr_side raw
     else if sr_side raw = L_UNKNOWN \<and> sf_now_ms ft - fl_committed_ms f > uint (sc_evidence_fresh_ms (fl_cfg f))
     then L_UNKNOWN else fl_committed f)"
  by (auto simp: feed_commit_def commits_def Let_def)

lemma fl_committed_conf_commit:
  "commits f raw ft \<Longrightarrow> fl_committed_conf (feed_commit f raw ft) = sr_confidence raw"
  by (auto simp: feed_commit_def commits_def Let_def)

lemma fl_committed_ms_commit:
  "fl_committed_ms (feed_commit f raw ft) = (if commits f raw ft then sf_now_ms ft else fl_committed_ms f)"
  by (auto simp: feed_commit_def commits_def Let_def)

section \<open>Streaks\<close>

text \<open>What one window contributed: nothing (a data gap) or a label. \<open>streak L h\<close> is the number of
  windows labelled \<open>L\<close> at the front of a history (newest first), gaps skipped.\<close>

fun streak :: "side_label \<Rightarrow> side_label option list \<Rightarrow> nat" where
  "streak L [] = 0"
| "streak L (None # h) = streak L h"
| "streak L (Some l # h) = (if l = L then Suc (streak L h) else 0)"

definition window_obs :: "side_filter \<Rightarrow> side_features \<Rightarrow> side_label option" where
  "window_obs f ft = (if evidence_gap f ft then None else Some (sr_side (feed_raw f ft)))"

text \<open>The filter with the history of what it saw, newest first.\<close>

definition side_step :: "side_filter \<times> side_label option list \<Rightarrow> side_features \<Rightarrow>
    (side_filter \<times> side_label option list) \<times> side_decision" where
  "side_step s ft =
     (let (f', d) = ultrawidelock_side_filter_feed (fst s) (Some ft)
      in ((f', window_obs (fst s) ft # snd s), d))"

definition streak_inv :: "side_filter \<times> side_label option list \<Rightarrow> bool" where
  "streak_inv s \<longleftrightarrow>
     (fl_cand (fst s) \<noteq> L_UNKNOWN \<longrightarrow> unat (fl_cand_n (fst s)) \<le> streak (fl_cand (fst s)) (snd s)) \<and>
     (fl_committed (fst s) \<noteq> L_UNKNOWN \<longrightarrow>
        (\<exists>older. suffix older (snd s) \<and>
           unat (sc_agree_windows (fl_cfg (fst s))) \<le> streak (fl_committed (fst s)) older))"

lemma feed_raw_gap: "evidence_gap f ft \<Longrightarrow> sr_side (feed_raw f ft) = L_UNKNOWN"
  by (simp add: evidence_gap_def)

lemma cand_after:
  "fl_cand (feed_candidate f ft) =
     (if evidence_gap f ft then fl_cand (feed_session f ft) else sr_side (feed_raw f ft))"
  "fl_cand_n (feed_candidate f ft) =
     (if evidence_gap f ft then fl_cand_n (feed_session f ft)
      else if sr_side (feed_raw f ft) = L_UNKNOWN then 0
      else if sr_side (feed_raw f ft) = fl_cand (feed_session f ft)
      then (if fl_cand_n (feed_session f ft) < 255 then fl_cand_n (feed_session f ft) + 1
            else fl_cand_n (feed_session f ft))
      else 1)"
  by (simp_all add: feed_candidate_def Let_def)

lemma feed_session_cand:
  "(fl_cand (feed_session f ft) = fl_cand f \<and> fl_cand_n (feed_session f ft) = fl_cand_n f) \<or>
   (fl_cand (feed_session f ft) = L_UNKNOWN \<and> fl_cand_n (feed_session f ft) = 0)"
  by (simp add: feed_session_def)

lemma streak_cand_step:
  assumes "fl_cand f \<noteq> L_UNKNOWN \<longrightarrow> unat (fl_cand_n f) \<le> streak (fl_cand f) h"
    and "fl_cand (feed_candidate f ft) \<noteq> L_UNKNOWN"
  shows "unat (fl_cand_n (feed_candidate f ft)) \<le> streak (fl_cand (feed_candidate f ft)) (window_obs f ft # h)"
  using assms feed_session_cand [of f ft]
  by (auto simp: cand_after window_obs_def unat_Suc_if_less split: if_splits)

lemma streak_inv_step:
  assumes "streak_inv s"
  shows "streak_inv (fst (side_step s ft))"
proof -
  obtain f h where s: "s = (f, h)" by (cases s)
  let ?c = "feed_candidate f ft" and ?r = "feed_raw f ft" and ?h = "window_obs f ft # h"
  have cand: "fl_cand ?c \<noteq> L_UNKNOWN \<longrightarrow> unat (fl_cand_n ?c) \<le> streak (fl_cand ?c) ?h"
    using assms streak_cand_step [of f h ft] by (simp add: s streak_inv_def)
  have "\<exists>older. suffix older ?h \<and>
      unat (sc_agree_windows (fl_cfg f)) \<le> streak (fl_committed (feed_commit ?c ?r ft)) older"
    if "fl_committed (feed_commit ?c ?r ft) \<noteq> L_UNKNOWN"
  proof (cases "commits ?c ?r ft")
    case True
    then have "fl_cand ?c = sr_side ?r" and "sr_side ?r \<noteq> L_UNKNOWN"
      and "sc_agree_windows (fl_cfg f) \<le> fl_cand_n ?c"
      using feed_raw_gap [of f ft] by (auto simp: commits_def cand_after(1))
    then have "unat (sc_agree_windows (fl_cfg f)) \<le> streak (sr_side ?r) ?h"
      using cand by (simp add: word_le_nat_alt)
    then show ?thesis using True by (auto simp: fl_committed_commit)
  next
    case False
    then have "fl_committed (feed_commit ?c ?r ft) = fl_committed f"
      using that by (auto simp: fl_committed_commit split: if_splits)
    then show ?thesis
      using assms that by (auto simp: s streak_inv_def suffix_Cons)
  qed
  then show ?thesis
    using cand by (simp add: s streak_inv_def side_step_def feed_Some)
qed

interpretation side: stepper side_step streak_inv
  by unfold_locales (rule streak_inv_step)

lemma side_step_cfg: "fl_cfg (fst (fst (side_step s ft))) = fl_cfg (fst s)"
  by (simp add: side_step_def feed_Some)

lemma side_run_cfg: "fl_cfg (fst (fst (run_steps side_step s fts))) = fl_cfg (fst s)"
  by (induction fts arbitrary: s) (simp_all add: fst_run_steps_Cons side_step_cfg del: run_steps.simps(2))

lemma streak_inv_init: "streak_inv (ultrawidelock_side_filter_init co, [])"
  by (simp add: streak_inv_def ultrawidelock_side_filter_init_def)

text \<open>C9: Evidence of the inside closes the gate at once. Whatever the filter has committed, held or
  counted before, a window that classifies as INSIDE is never answered with a permission to
  unlock passively, under any configuration of the gate.\<close>

theorem inside_window_refused:
  assumes "sr_side (feed_raw f ft) = L_INSIDE"
  shows "\<not> ultrawidelock_side_may_passive_unlock (Some (snd (ultrawidelock_side_filter_feed f (Some ft)))) co"
proof -
  let ?f = "feed_commit (feed_candidate f ft) (feed_raw f ft) ft"
  have "fl_committed ?f = L_OUTSIDE \<Longrightarrow> fl_flags ?f \<noteq> 0"
    using assms
    by (auto simp: fl_committed_commit feed_flags_final_def ultrawidelock_side_transition_ok_def or_eq_0_iff
        split: if_splits)
  then show ?thesis
    by (auto simp: feed_Some side_gate_iff feed_decide_def Let_def)
qed

theorem inside_window_refused_witness:
  "\<not> ultrawidelock_side_may_passive_unlock (Some (snd (ultrawidelock_side_filter_feed
     (fst (fst (run_steps side_step (ultrawidelock_side_filter_init None, [])
        [wit_window 1 2000 8, wit_window 2 4000 8, wit_window 3 6000 8]))) (Some (wit_window 4 8000 (- 9)))))) None"
  by (rule inside_window_refused) code_simp

text \<open>The exact condition of the permission given after a window: the filter stands committed
  OUTSIDE, this window raised no fault flag of any kind, the committing window was confident
  enough, and the commit is fresh or still covered by the OUTSIDE hold.\<close>

theorem side_permit_iff:
  assumes "f' = fst (ultrawidelock_side_filter_feed f (Some ft))"
    and "d = snd (ultrawidelock_side_filter_feed f (Some ft))"
  shows "ultrawidelock_side_may_passive_unlock (Some d) (Some c) \<longleftrightarrow>
    fl_committed f' = L_OUTSIDE \<and> feed_flags_final f ft = 0 \<and> sc_confidence_min c \<le> fl_committed_conf f' \<and>
    (sf_now_ms ft - fl_committed_ms f' \<le> uint (sc_evidence_fresh_ms (fl_cfg f)) \<or>
     hold_outside f' L_OUTSIDE (sf_now_ms ft))"
  unfolding assms
  by (auto simp: feed_Some side_gate_iff feed_decide_def Let_def side_cfg_or_default_def)

theorem side_permit_iff_witness:
  "fl_committed (fst (ultrawidelock_side_filter_feed (fst (fst (run_steps side_step
     (ultrawidelock_side_filter_init None, []) [wit_window 1 2000 8, wit_window 2 4000 8])))
     (Some (wit_window 3 6000 9)))) = L_OUTSIDE"
proof -
  let ?f = "fst (fst (run_steps side_step (ultrawidelock_side_filter_init None, [])
    [wit_window 1 2000 8, wit_window 2 4000 8]))"
  have "ultrawidelock_side_may_passive_unlock (Some (snd (ultrawidelock_side_filter_feed ?f
      (Some (wit_window 3 6000 9))))) (Some ultrawidelock_side_defaults)"
    by code_simp
  then show ?thesis
    using side_permit_iff [OF refl refl, of ?f "wit_window 3 6000 9" ultrawidelock_side_defaults] by blast
qed

text \<open>C3: No permission without sustained evidence. In every run of the filter from its initial
  state, a permission after a window implies that at some point of the history there were at
  least \<open>agree_windows\<close> windows classified OUTSIDE in a row, where only windows without data
  may lie between them.\<close>

theorem permit_needs_outside_streak:
  assumes "s = fst (run_steps side_step (ultrawidelock_side_filter_init (Some c), []) fts)"
    and "d = snd (side_step s ft)"
    and "ultrawidelock_side_may_passive_unlock (Some d) co"
  shows "\<exists>older. suffix older (window_obs (fst s) ft # snd s) \<and> unat (sc_agree_windows c) \<le> streak L_OUTSIDE older"
proof -
  have "streak_inv (fst (side_step s ft))"
    unfolding assms(1) using side.invar_run [OF streak_inv_init] streak_inv_step by blast
  moreover have "fl_committed (fst (fst (side_step s ft))) = L_OUTSIDE"
    using assms(2,3)
    by (auto simp: side_step_def feed_Some side_gate_iff feed_decide_def Let_def split: if_splits)
  moreover have "fl_cfg (fst s) = c"
    by (simp add: assms(1) side_run_cfg ultrawidelock_side_filter_init_def side_cfg_or_default_def)
  ultimately show ?thesis
    using side_step_cfg [of s ft] by (auto simp: streak_inv_def side_step_def feed_Some)
qed

theorem permit_needs_outside_streak_witness:
  "\<exists>older. suffix older [Some L_OUTSIDE, Some L_OUTSIDE, Some L_OUTSIDE] \<and> 3 \<le> streak L_OUTSIDE older"
proof -
  let ?s = "fst (run_steps side_step (ultrawidelock_side_filter_init (Some ultrawidelock_side_defaults), [])
        [wit_window 1 2000 8, wit_window 2 4000 8])"
  have "ultrawidelock_side_may_passive_unlock (Some (snd (side_step ?s (wit_window 3 6000 9)))) None"
    by code_simp
  note w = permit_needs_outside_streak [OF refl refl this]
  have "window_obs (fst ?s) (wit_window 3 6000 9) # snd ?s = [Some L_OUTSIDE, Some L_OUTSIDE, Some L_OUTSIDE]"
    by code_simp
  then show ?thesis using w by (simp add: ultrawidelock_side_defaults_def)
qed

section \<open>Liveness\<close>

definition good_outside :: "side_cfg \<Rightarrow> u32 \<Rightarrow> side_features \<Rightarrow> bool" where
  "good_outside c sid ft \<longleftrightarrow>
     sr_side (ultrawidelock_side_classify_raw (Some c) (Some ft)) = L_OUTSIDE \<and>
     sc_confidence_min c \<le> sr_confidence (ultrawidelock_side_classify_raw (Some c) (Some ft)) \<and>
     sf_flags ft = 0 \<and> sf_obs_session_id ft = sid \<and>
     sf_classifier_ver ft = sc_classifier_ver c \<and> sf_calibration_ver ft = sc_calibration_ver c \<and>
     sf_anchor_health_mask ft AND sc_quorum_mask c = sc_quorum_mask c"

definition outside_streak_state :: "side_cfg \<Rightarrow> u32 \<Rightarrow> side_features list \<Rightarrow> side_filter \<Rightarrow> bool" where
  "outside_streak_state c sid fts f \<longleftrightarrow>
     fl_cfg f = c \<and> fl_cand f = L_OUTSIDE \<and> unat (fl_cand_n f) = min 255 (length fts) \<and>
     fl_cand_since_ms f = sf_now_ms (hd fts) \<and> fl_last_seq f = sf_seq (last fts) \<and> fl_obs_session_id f = sid"

lemma good_outside_raw:
  assumes "good_outside (fl_cfg f) sid ft" and "fl_obs_session_id f = 0 \<or> fl_obs_session_id f = sid"
    and "fl_last_seq f = UINT32_MAX \<or> fl_last_seq f < sf_seq ft"
  shows "feed_session f ft = f" and "feed_flags_final f ft = 0"
    and "feed_raw f ft = ultrawidelock_side_classify_raw (Some (fl_cfg f)) (Some ft)" and "\<not> evidence_gap f ft"
proof -
  show s: "feed_session f ft = f"
    using assms by (auto simp: feed_session_def good_outside_def)
  have fl: "feed_flags f ft = 0"
    using assms by (auto simp: feed_flags_def s good_outside_def Let_def)
  show r: "feed_raw f ft = ultrawidelock_side_classify_raw (Some (fl_cfg f)) (Some ft)"
    by (simp add: feed_raw_def fl)
  show "feed_flags_final f ft = 0" and "\<not> evidence_gap f ft"
    using assms(1) by (auto simp: feed_flags_final_def fl r good_outside_def evidence_gap_def)
qed

lemma outside_streak_first:
  assumes "good_outside c sid ft"
  shows "outside_streak_state c sid [ft] (fst (ultrawidelock_side_filter_feed (ultrawidelock_side_filter_init (Some c)) (Some ft)))"
proof -
  let ?f = "ultrawidelock_side_filter_init (Some c)"
  have c: "fl_cfg ?f = c" "fl_obs_session_id ?f = 0" "fl_last_seq ?f = UINT32_MAX" "fl_cand ?f = L_UNKNOWN"
    by (simp_all add: ultrawidelock_side_filter_init_def side_cfg_or_default_def)
  note r = good_outside_raw [of ?f sid ft, unfolded c, OF assms]
  show ?thesis
    using assms r c by (simp add: outside_streak_state_def feed_Some feed_candidate_def Let_def good_outside_def)
qed

lemma outside_streak_next:
  assumes "outside_streak_state c sid fts f" and "fts \<noteq> []" and "good_outside c sid ft"
    and "sf_seq (last fts) < sf_seq ft"
  shows "outside_streak_state c sid (fts @ [ft]) (fst (ultrawidelock_side_filter_feed f (Some ft)))"
proof -
  have c: "fl_cfg f = c" "fl_obs_session_id f = sid" "fl_last_seq f < sf_seq ft" "fl_cand f = L_OUTSIDE"
    using assms(1,4) by (simp_all add: outside_streak_state_def)
  note r = good_outside_raw [of f sid ft, unfolded c(1,2), OF assms(3)]
  have "fl_cand_n f < 255 \<longleftrightarrow> length fts < 255"
    using assms(1) by (auto simp: outside_streak_state_def word_less_nat_alt)
  then show ?thesis
    using assms r c
    by (auto simp: outside_streak_state_def feed_Some feed_candidate_def Let_def good_outside_def
        unat_Suc_if_less [of "fl_cand_n f" 255])
qed

lemma outside_streak_run:
  assumes "fts \<noteq> []" and "\<forall>ft\<in>set fts. good_outside c sid ft" and "sorted_wrt (<) (map sf_seq fts)"
  shows "outside_streak_state c sid fts (fst (fst (run_steps side_step (ultrawidelock_side_filter_init (Some c), []) fts)))"
  using assms
proof (induction fts rule: rev_induct)
  case Nil
  then show ?case by simp
next
  case (snoc ft fts)
  show ?case
  proof (cases "fts = []")
    case True
    then show ?thesis using snoc.prems outside_streak_first by (simp add: side_step_def split_beta)
  next
    case False
    then have "sf_seq (last fts) < sf_seq ft"
      using snoc.prems(3) by (simp add: sorted_wrt_append)
    then show ?thesis
      using False snoc outside_streak_next
      by (auto simp: run_steps_append sorted_wrt_append side_step_def split_beta Let_def)
  qed
qed

lemma outside_streak_permits:
  assumes "outside_streak_state c sid fts f" and "fts \<noteq> []" and "good_outside c sid ft"
    and "sf_seq (last fts) < sf_seq ft" and "unat (sc_agree_windows c) \<le> Suc (length fts)"
    and "uint (sc_dwell_ms c) \<le> sf_now_ms ft - sf_now_ms (hd fts)"
  shows "ultrawidelock_side_may_passive_unlock (Some (snd (ultrawidelock_side_filter_feed f (Some ft)))) (Some c)"
proof -
  have c: "fl_cfg f = c" "fl_obs_session_id f = sid" "fl_last_seq f < sf_seq ft" "fl_cand f = L_OUTSIDE"
    using assms(1,4) by (simp_all add: outside_streak_state_def)
  note r = good_outside_raw [of f sid ft, unfolded c(1,2), OF assms(3)]
  note n = outside_streak_next [OF assms(1-4)]
  have "unat (sc_agree_windows c) < 2 ^ LENGTH(8)" by (rule unsigned_less)
  then have "commits (feed_candidate f ft) (feed_raw f ft) ft"
    using n assms r c by (auto simp: commits_def outside_streak_state_def feed_Some word_le_nat_alt good_outside_def)
  then show ?thesis
    using assms(3) r c
    by (simp add: feed_Some side_gate_iff feed_decide_def Let_def fl_committed_commit fl_committed_ms_commit
        fl_committed_conf_commit good_outside_def side_cfg_or_default_def)
qed

text \<open>The gate does open. From the initial state, at least \<open>agree_windows\<close> fault-free windows of
  one session with increasing sequence numbers, each classified OUTSIDE with sufficient
  confidence and together spanning the dwell time, end with the permission.\<close>

theorem outside_walkup_permits:
  assumes "\<forall>ft\<in>set (fts @ [ft]). good_outside c sid ft" and "sorted_wrt (<) (map sf_seq (fts @ [ft]))"
    and "fts \<noteq> []" and "unat (sc_agree_windows c) \<le> length (fts @ [ft])"
    and "uint (sc_dwell_ms c) \<le> sf_now_ms ft - sf_now_ms (hd fts)"
    and "s = fst (run_steps side_step (ultrawidelock_side_filter_init (Some c), []) fts)"
  shows "ultrawidelock_side_may_passive_unlock (Some (snd (side_step s ft))) (Some c)"
proof -
  have "outside_streak_state c sid fts (fst s)"
    unfolding assms(6) by (rule outside_streak_run) (use assms in \<open>auto simp: sorted_wrt_append\<close>)
  moreover have "sf_seq (last fts) < sf_seq ft"
    using assms(2,3) by (simp add: sorted_wrt_append)
  ultimately show ?thesis
    using outside_streak_permits [of c sid fts "fst s" ft] assms by (simp add: side_step_def split_beta Let_def)
qed

theorem outside_walkup_permits_witness:
  "ultrawidelock_side_may_passive_unlock (Some (snd (side_step
     (fst (run_steps side_step (ultrawidelock_side_filter_init (Some ultrawidelock_side_defaults), [])
        [wit_window 1 2000 8, wit_window 2 4000 8])) (wit_window 3 6000 9)))) (Some ultrawidelock_side_defaults)"
  by (rule outside_walkup_permits [where sid = 7, OF _ _ _ _ _ refl]; code_simp)

text \<open>A window rejected as a replay still moves the sequence number back: after a filter at
  sequence number \<open>n\<close> has flagged a replayed window, a second replayed window with a larger
  number, still not above \<open>n\<close>, is no longer flagged.\<close>

theorem rejected_replay_rewinds:
  assumes "fl_obs_session_id f \<noteq> 0" and "sf_obs_session_id ft1 = fl_obs_session_id f"
    and "sf_obs_session_id ft2 = fl_obs_session_id f" and "fl_last_seq f \<noteq> UINT32_MAX"
    and "0 < sf_seq ft1" and "sf_seq ft1 < sf_seq ft2" and "sf_seq ft2 \<le> fl_last_seq f"
    and "sf_flags ft2 AND SF_REPLAY = 0"
  shows "feed_flags f ft1 AND SF_REPLAY = SF_REPLAY \<and>
    feed_flags (fst (ultrawidelock_side_filter_feed f (Some ft1))) ft2 AND SF_REPLAY = 0"
proof -
  have "sf_seq ft1 \<le> fl_last_seq f" and "sf_seq ft1 \<noteq> 0" using assms(5-7) by auto
  then have "feed_flags f ft1 AND SF_REPLAY = SF_REPLAY"
    using assms by (auto simp: feed_flags_def feed_session_def Let_def bit_eq_iff bit_simps)
  moreover have "feed_flags (fst (ultrawidelock_side_filter_feed f (Some ft1))) ft2 AND SF_REPLAY = 0"
    using assms by (auto simp: feed_flags_def feed_session_def Let_def feed_Some mask_or_disjoint)
  ultimately show ?thesis by simp
qed

theorem rejected_replay_rewinds_witness:
  "feed_flags (fst (ultrawidelock_side_filter_feed
     (fst (ultrawidelock_side_filter_feed (ultrawidelock_side_filter_init None) (Some (wit_window 10 2000 8))))
     (Some (wit_window 5 4000 8)))) (wit_window 6 6000 8) AND SF_REPLAY = 0"
  by (rule conjunct2, rule rejected_replay_rewinds; code_simp)

end
