(* ===== verification/Checksum.thy ===== *)
theory Checksum
  imports Prelude
begin

text \<open>
  The byte-wise checksums of the persistent and logged records. The interface says only that
  one byte is absorbed injectively, in the register and in the byte; that is enough for every
  record format to notice the corruption of any single byte it covers.
\<close>

locale checksum =
  fixes absorb :: "'c \<Rightarrow> u8 \<Rightarrow> 'c"
    and start :: 'c
  assumes absorb_reg: "absorb c b = absorb c' b \<longleftrightarrow> c = c'"
    and absorb_byte: "absorb c b = absorb c b' \<longleftrightarrow> b = b'"
begin

lemma foldl_absorb_inj: "foldl absorb c bs = foldl absorb c' bs \<longleftrightarrow> c = c'"
  by (induction bs arbitrary: c c') (simp_all add: absorb_reg)

lemma single_byte_detected:
  assumes "i < length bs" and "b \<noteq> bs ! i"
  shows "foldl absorb start (bs[i := b]) \<noteq> foldl absorb start bs"
proof -
  let ?c = "foldl absorb start (take i bs)"
  have "bs = take i bs @ bs ! i # drop (Suc i) bs"
    using assms(1) by (rule id_take_nth_drop)
  then have "foldl absorb start bs = foldl absorb (absorb ?c (bs ! i)) (drop (Suc i) bs)"
    by (metis foldl_Cons foldl_append)
  moreover have "foldl absorb start (bs[i := b]) = foldl absorb (absorb ?c b) (drop (Suc i) bs)"
    using assms(1) by (simp add: upd_conv_take_nth_drop)
  ultimately show ?thesis
    using assms(2) by (simp add: foldl_absorb_inj absorb_byte)
qed

end

section \<open>CRC-16 of the side log\<close>

text \<open>\<^verbatim>\<open>ultrawidelock_side_log_crc16\<close>: polynomial 0x1021, preset 0xffff, most significant bit first.\<close>

definition crc16_bit :: "u16 \<Rightarrow> u16" where
  "crc16_bit crc = (if crc AND 0x8000 \<noteq> 0 then push_bit 1 crc XOR 0x1021 else push_bit 1 crc)"

definition crc16_byte :: "u16 \<Rightarrow> u8 \<Rightarrow> u16" where
  "crc16_byte crc b = (crc16_bit ^^ 8) (crc XOR push_bit 8 (ucast b))"

definition ultrawidelock_side_log_crc16 :: "bytes \<Rightarrow> u16" where
  "ultrawidelock_side_log_crc16 p = foldl crc16_byte 0xffff p"

lemma bit_push1: "bit (push_bit 1 (x::'a::len word)) n \<longleftrightarrow> n \<noteq> 0 \<and> n < LENGTH('a) \<and> bit x (n - 1)"
  unfolding bit_push_bit_iff by auto

lemma bit_drop1: "bit (drop_bit 1 (x::'a::len word)) n \<longleftrightarrow> bit x (Suc n)"
  by (simp add: bit_drop_bit_eq)

lemma and_msb16: "x AND 0x8000 \<noteq> (0::u16) \<longleftrightarrow> bit x 15"
  using bit_iff_and_push_bit_not_eq_0 [of x 15] by simp

text \<open>The same register as a plain integer; this is what evaluation uses.\<close>

definition crc16_bit_int :: "int \<Rightarrow> int" where
  "crc16_bit_int x = (if x \<ge> 32768 then (2 * x - 65536) XOR 0x1021 else 2 * x)"

fun crc16_bits_int :: "nat \<Rightarrow> int \<Rightarrow> int" where
  "crc16_bits_int 0 x = x"
| "crc16_bits_int (Suc n) x = crc16_bits_int n (crc16_bit_int x)"

lemma and_msb_uint: "c AND 0x8000 \<noteq> (0::u16) \<longleftrightarrow> 32768 \<le> uint c"
proof -
  have "bit c 15 \<longleftrightarrow> odd (uint c div 32768)"
    using bit_uint_iff [of c 15] bit_iff_odd [of "uint c" 15] by simp
  moreover have "uint c < 65536" using uint_bounded [of c] by simp
  then have "uint c div 32768 = (if 32768 \<le> uint c then 1 else 0)" by auto
  ultimately show ?thesis by (simp add: and_msb16)
qed

lemma crc16_bit_uint: "uint (crc16_bit c) = crc16_bit_int (uint c)"
proof -
  have poly: "uint (0x1021 :: u16) = 0x1021" by simp
  have b: "uint c < 65536" "0 \<le> uint c" using uint_bounded [of c] by simp_all
  have p: "uint (push_bit 1 c) = (2 * uint c) mod 65536"
    using unsigned_push_bit_eq [of 1 c, where ?'a = int]
    by (simp add: push_bit_eq_mult [of _ "uint c"] take_bit_eq_mod mult.commute del: push_bit_Suc)
  have "(2 * uint c) mod 65536 = (if 32768 \<le> uint c then 2 * uint c - 65536 else 2 * uint c)"
  proof (cases "32768 \<le> uint c")
    case True
    then have "(2 * uint c - 65536) mod 65536 = 2 * uint c - 65536"
      using b by (intro mod_pos_pos_trivial) auto
    then show ?thesis using True by (simp only: minus_mod_self2 if_True)
  qed (use b in simp)
  then show ?thesis
    unfolding crc16_bit_def crc16_bit_int_def and_msb_uint using p by (cases "32768 \<le> uint c") (simp_all only: if_True if_False unsigned_xor_eq poly)
qed

lemma crc16_bits_uint: "uint ((crc16_bit ^^ n) c) = crc16_bits_int n (uint c)"
  by (induction n arbitrary: c) (simp_all add: funpow_swap1 crc16_bit_uint)

lemma crc16_byte_code [code]:
  "crc16_byte c b = word_of_int (crc16_bits_int 8 (uint c XOR (256 * uint b)))"
proof -
  have "uint (push_bit 8 (ucast b :: u16)) = 256 * uint b"
    using uint_bounded [of b] unsigned_push_bit_eq [of 8 "ucast b :: u16", where ?'a = int]
    by (simp add: push_bit_eq_mult [of _ "uint _"] take_bit_eq_mod unsigned_ucast_eq mult.commute)
  then have "uint (crc16_byte c b) = crc16_bits_int 8 (uint c XOR (256 * uint b))"
    by (simp add: crc16_byte_def crc16_bits_uint unsigned_xor_eq)
  then show ?thesis by (metis word_of_int_uint)
qed

lemma crc16_bit_inj: "inj crc16_bit"
proof (rule injI)
  fix x y
  assume e: "crc16_bit x = crc16_bit y"
  have b: "bit (crc16_bit z) n = ((n \<noteq> 0 \<and> n < 16 \<and> bit z (n - 1)) \<noteq> (bit z 15 \<and> bit (0x1021::u16) n))" for z n
    unfolding crc16_bit_def by (simp only: and_msb16 bit_push1 bit_xor_iff if_distrib [of "\<lambda>w. bit w n"]) auto
  have m: "bit x 15 = bit y 15"
    using b [of x 0] b [of y 0] e by simp
  show "x = y"
  proof (rule bit_word_eqI)
    fix n
    assume "n < LENGTH(16)"
    then consider "n = 15" | "Suc n < 16" by fastforce
    then show "bit x n = bit y n"
      using m b [of x "Suc n"] b [of y "Suc n"] e by cases auto
  qed
qed

lemma xor_cancel_right: "a XOR c = b XOR c \<longleftrightarrow> a = (b::'a::len word)"
  by (metis xor.assoc xor.right_neutral xor_self_eq)

lemma xor_cancel_left: "c XOR a = c XOR b \<longleftrightarrow> a = (b::'a::len word)"
  using xor_cancel_right [of a c b] by (simp add: xor.commute)

lemma push8_inj: "push_bit 8 (ucast a :: u16) = push_bit 8 (ucast b) \<longleftrightarrow> a = (b::u8)"
proof
  assume p: "push_bit 8 (ucast a :: u16) = push_bit 8 (ucast b)"
  show "a = b"
  proof (rule bit_word_eqI)
    fix n
    assume "n < LENGTH(8)"
    then show "bit a n = bit b n"
      using arg_cong [OF p, of "\<lambda>w. bit w (n + 8)"] by (simp add: bit_simps)
  qed
qed simp

lemma crc16_byte_inj: "crc16_byte c b = crc16_byte c' b' \<longleftrightarrow> c XOR push_bit 8 (ucast b) = c' XOR push_bit 8 (ucast b')"
  using inj_eq [OF inj_fn [OF crc16_bit_inj, of 8]] by (simp add: crc16_byte_def)

interpretation crc16: checksum crc16_byte "0xffff"
  by unfold_locales (simp_all add: crc16_byte_inj xor_cancel_right xor_cancel_left push8_inj)

section \<open>CRC-32 of the firmware updates\<close>

text \<open>
  \<^verbatim>\<open>modules/ultrawidelock_dfu/src/dfu_crc.c\<close>: the reflected IEEE polynomial, with the register
  complemented on entry and on return so that calls chain.
\<close>

definition crc32_bit :: "u32 \<Rightarrow> u32" where
  "crc32_bit crc = drop_bit 1 crc XOR (0xedb88320 AND - (crc AND 1))"

definition crc32_byte :: "u32 \<Rightarrow> u8 \<Rightarrow> u32" where
  "crc32_byte crc b = (crc32_bit ^^ 8) (crc XOR ucast b)"

definition ultrawidelock_crc32_update :: "u32 \<Rightarrow> bytes \<Rightarrow> u32" where
  "ultrawidelock_crc32_update crc data = NOT (foldl crc32_byte (NOT crc) data)"

definition ultrawidelock_crc32 :: "bytes \<Rightarrow> u32" where
  "ultrawidelock_crc32 data = ultrawidelock_crc32_update 0 data"

lemma neg_and_1: "- (x AND 1) = (if bit x 0 then - 1 else (0::u32))"
  by (simp add: and_one_eq mod2_eq_if bit_0)

lemma crc32_bit_inj: "inj crc32_bit"
proof (rule injI)
  fix x y
  assume e: "crc32_bit x = crc32_bit y"
  have b: "bit (crc32_bit z) n = (bit z (Suc n) \<noteq> (bit z 0 \<and> bit (0xedb88320::u32) n))" for z n
    unfolding crc32_bit_def neg_and_1 by (simp only: bit_drop1 bit_xor_iff) (auto simp: bit_simps dest: bit_imp_le_length)
  have "\<not> bit z (Suc 31)" for z :: u32
    using bit_imp_le_length [of z 32] by auto
  then have m: "bit x 0 = bit y 0"
    using b [of x 31] b [of y 31] e by simp
  show "x = y"
  proof (rule bit_word_eqI)
    fix n
    show "bit x n = bit y n"
      using m b [of x "n - 1"] b [of y "n - 1"] e by (cases n) auto
  qed
qed

lemma ucast_u8_inj: "(ucast a :: u32) = ucast b \<longleftrightarrow> a = (b::u8)"
proof
  assume p: "(ucast a :: u32) = ucast b"
  show "a = b"
  proof (rule bit_word_eqI)
    fix n
    assume "n < LENGTH(8)"
    then show "bit a n = bit b n"
      using arg_cong [OF p, of "\<lambda>w. bit w n"] by (simp add: bit_simps)
  qed
qed simp

lemma crc32_byte_inj: "crc32_byte c b = crc32_byte c' b' \<longleftrightarrow> c XOR ucast b = c' XOR ucast b'"
  using inj_eq [OF inj_fn [OF crc32_bit_inj, of 8]] by (simp add: crc32_byte_def)

interpretation crc32: checksum crc32_byte "NOT 0"
  by unfold_locales (simp_all add: crc32_byte_inj xor_cancel_right xor_cancel_left ucast_u8_inj)

lemma crc32_chain:
  "ultrawidelock_crc32_update (ultrawidelock_crc32_update c a) b = ultrawidelock_crc32_update c (a @ b)"
  by (simp add: ultrawidelock_crc32_update_def)

end
