(* ===== verification/Side_Log.thy ===== *)
theory Side_Log
  imports Side Checksum
begin

text \<open>
  The 48-byte decision record (\<^verbatim>\<open>modules/ultrawidelock_anchor/src/ultrawidelock_side_log.c\<close>). The
  record has no padding, so the bytes the checksum covers are the fields before
  \<^verbatim>\<open>crc16\<close> in order, little-endian.
\<close>

record side_log_rec =
  sl_magic :: u16
  sl_version :: u8
  sl_side :: u8
  sl_motion :: u8
  sl_confidence :: u8
  sl_contrib_mask :: u8
  sl_flags :: u8
  sl_obs_session_id :: u32
  sl_seq :: u32
  sl_now_ms_lo :: u32
  sl_uwb_range_mm :: int
  sl_ble_in_dbm :: int
  sl_ble_out_dbm :: int
  sl_ble_th_dbm :: int
  sl_oi_db :: int
  sl_classifier_ver :: u8
  sl_calibration_ver :: u8
  sl_ble_pkts_in :: u8
  sl_ble_pkts_out :: u8
  sl_ble_pkts_th :: u8
  sl_reserved0 :: u8
  sl_crc16 :: u16
  sl_pad :: bytes

definition le16 :: "u16 \<Rightarrow> bytes" where
  "le16 v = [ucast v, ucast (drop_bit 8 v)]"

definition le32 :: "u32 \<Rightarrow> bytes" where
  "le32 v = [ucast v, ucast (drop_bit 8 v), ucast (drop_bit 16 v), ucast (drop_bit 24 v)]"

definition side_log_bytes :: "side_log_rec \<Rightarrow> bytes" where
  "side_log_bytes r =
     le16 (sl_magic r) @ [sl_version r, sl_side r, sl_motion r, sl_confidence r, sl_contrib_mask r, sl_flags r] @
     le32 (sl_obs_session_id r) @ le32 (sl_seq r) @ le32 (sl_now_ms_lo r) @
     le32 (word_of_int (sl_uwb_range_mm r)) @ le16 (word_of_int (sl_ble_in_dbm r)) @
     le16 (word_of_int (sl_ble_out_dbm r)) @ le16 (word_of_int (sl_ble_th_dbm r)) @
     le16 (word_of_int (sl_oi_db r)) @
     [sl_classifier_ver r, sl_calibration_ver r, sl_ble_pkts_in r, sl_ble_pkts_out r, sl_ble_pkts_th r, sl_reserved0 r]"

fun label_code :: "side_label \<Rightarrow> u8" where
  "label_code L_UNKNOWN = 0"
| "label_code L_INSIDE = 1"
| "label_code L_OUTSIDE = 2"
| "label_code L_THRESHOLD = 3"

fun motion_code :: "side_motion \<Rightarrow> u8" where
  "motion_code MOTION_UNKNOWN = 0"
| "motion_code MOTION_OUTSIDE_FAR = 1"
| "motion_code MOTION_OUTSIDE_APPROACHING = 2"
| "motion_code MOTION_OUTSIDE_NEAR = 3"
| "motion_code MOTION_THRESHOLD = 4"
| "motion_code MOTION_INSIDE_NEAR = 5"
| "motion_code MOTION_INSIDE_FAR = 6"

text \<open>The record for a window and its decision (the source's -1 for a missing one is None).\<close>

definition side_log_fill :: "side_features \<Rightarrow> side_decision \<Rightarrow> side_raw option \<Rightarrow> side_log_rec" where
  "side_log_fill ft d ro =
     (let r = \<lparr>sl_magic = 0x5344, sl_version = 1, sl_side = label_code (sd_side d),
               sl_motion = motion_code (sd_motion d), sl_confidence = sd_confidence d,
               sl_contrib_mask = sd_contrib_mask d, sl_flags = sd_flags d,
               sl_obs_session_id = sd_obs_session_id d, sl_seq = sd_seq d,
               sl_now_ms_lo = word_of_int (sf_now_ms ft), sl_uwb_range_mm = sf_uwb_range_mm ft,
               sl_ble_in_dbm = sf_rssi_inside ft, sl_ble_out_dbm = sf_rssi_outside ft,
               sl_ble_th_dbm = sf_rssi_threshold ft,
               sl_oi_db = (case ro of Some raw \<Rightarrow> sr_oi_db raw | None \<Rightarrow> 0),
               sl_classifier_ver = sd_classifier_ver d, sl_calibration_ver = sd_calibration_ver d,
               sl_ble_pkts_in = sf_pkts_inside ft, sl_ble_pkts_out = sf_pkts_outside ft,
               sl_ble_pkts_th = sf_pkts_threshold ft, sl_reserved0 = 0, sl_crc16 = 0,
               sl_pad = replicate 8 0\<rparr>
      in r\<lparr>sl_crc16 := ultrawidelock_side_log_crc16 (side_log_bytes r)\<rparr>)"

definition ultrawidelock_side_log_pack ::
    "side_features option \<Rightarrow> side_decision option \<Rightarrow> side_raw option \<Rightarrow> side_log_rec option" where
  "ultrawidelock_side_log_pack fo dopt ro =
     (case (fo, dopt) of (Some ft, Some d) \<Rightarrow> Some (side_log_fill ft d ro) | _ \<Rightarrow> None)"

definition ultrawidelock_side_log_check :: "side_log_rec option \<Rightarrow> int" where
  "ultrawidelock_side_log_check ro =
     (case ro of None \<Rightarrow> - 1
      | Some r \<Rightarrow>
        if sl_magic r \<noteq> 0x5344 \<or> sl_version r \<noteq> 1 then - 1
        else if ultrawidelock_side_log_crc16 (side_log_bytes r) = sl_crc16 r then 0 else - 1)"

section \<open>Properties\<close>

lemma length_le [simp]: "length (le16 v) = 2" "length (le32 w) = 4"
  by (simp_all add: le16_def le32_def)

lemma length_side_log_bytes: "length (side_log_bytes r) = 38"
  by (simp add: side_log_bytes_def)

lemma side_log_bytes_crc [simp]: "side_log_bytes (r\<lparr>sl_crc16 := c\<rparr>) = side_log_bytes r"
  by (simp add: side_log_bytes_def)

lemma fill_crc: "sl_crc16 (side_log_fill ft d ro) = ultrawidelock_side_log_crc16 (side_log_bytes (side_log_fill ft d ro))"
  by (simp add: side_log_fill_def Let_def side_log_bytes_def)

lemma fill_magic: "sl_magic (side_log_fill ft d ro) = 0x5344" "sl_version (side_log_fill ft d ro) = 1"
  by (simp_all add: side_log_fill_def Let_def)

text \<open>Every packed record passes the check, and a record whose covered bytes differ from a packed
  one in exactly one byte, under the same stored checksum, never does.\<close>

theorem side_log_detects_corruption:
  assumes "ultrawidelock_side_log_pack fo dopt ro = Some r" and "i < 38" and "b \<noteq> side_log_bytes r ! i"
    and "side_log_bytes r' = (side_log_bytes r)[i := b]" and "sl_crc16 r' = sl_crc16 r"
  shows "ultrawidelock_side_log_check (Some r) = 0 \<and> ultrawidelock_side_log_check (Some r') = - 1"
proof -
  obtain ft d where r: "r = side_log_fill ft d ro"
    using assms(1) by (auto simp: ultrawidelock_side_log_pack_def split: option.splits)
  have "ultrawidelock_side_log_crc16 (side_log_bytes r') \<noteq> ultrawidelock_side_log_crc16 (side_log_bytes r)"
    using crc16.single_byte_detected [of i "side_log_bytes r" b] assms(2-4)
    by (simp add: ultrawidelock_side_log_crc16_def length_side_log_bytes)
  then show ?thesis
    using assms(5) by (simp add: ultrawidelock_side_log_check_def r fill_crc fill_magic)
qed

definition wit_log_feat :: side_features where
  "wit_log_feat = \<lparr>sf_obs_session_id = 7, sf_seq = 3, sf_now_ms = 6000, sf_uwb_range_mm = 2000,
     sf_uwb_vel_mm_s = - 400, sf_uwb_range_var_mm = - 1, sf_rssi_inside = - 70, sf_rssi_outside = - 61,
     sf_rssi_threshold = RSSI_ABSENT, sf_pkts_inside = 5, sf_pkts_outside = 5, sf_pkts_threshold = 0,
     sf_uwb_peer_mm = - 1, sf_fusion_side = 0, sf_fusion_conf = 0, sf_door_state = 0, sf_prev_side = 0,
     sf_since_confirmed_ms = 0, sf_classifier_ver = 1, sf_calibration_ver = 1, sf_anchor_health_mask = 6,
     sf_flags = 0\<rparr>"

text \<open>A record whose committed side was changed from OUTSIDE to INSIDE after packing.\<close>

theorem side_log_detects_corruption_witness:
  "\<exists>r. ultrawidelock_side_log_pack (Some wit_log_feat) (Some (side_decision_degraded\<lparr>sd_side := L_OUTSIDE\<rparr>)) None = Some r \<and>
     ultrawidelock_side_log_check (Some (r\<lparr>sl_side := 1\<rparr>)) = - 1"
proof -
  let ?d = "side_decision_degraded\<lparr>sd_side := L_OUTSIDE\<rparr>"
  let ?r = "side_log_fill wit_log_feat ?d None"
  have p: "ultrawidelock_side_log_pack (Some wit_log_feat) (Some ?d) None = Some ?r"
    by (simp add: ultrawidelock_side_log_pack_def)
  have "(1::u8) \<noteq> side_log_bytes ?r ! 3" and "side_log_bytes (?r\<lparr>sl_side := 1\<rparr>) = (side_log_bytes ?r)[3 := 1]"
    by (simp_all add: side_log_bytes_def side_log_fill_def Let_def le16_def)
  then show ?thesis
    using side_log_detects_corruption [OF p, of 3 1 "?r\<lparr>sl_side := 1\<rparr>"] p by simp
qed

end
