(* ===== verification/Latch.thy ===== *)
theory Latch
  imports Side Checksum
begin

text \<open>
  The inside veto (\<^verbatim>\<open>modules/ultrawidelock_anchor/src/ultrawidelock_latch.c\<close>): the table of
  credential records, the per-approach clear progress, the gate, and the persistent blob. A
  record pointer is an index into the table of eight records.
\<close>

record latch_cfg =
  lc_entry_dwell_ms :: u32
  lc_clear_windows :: u8
  lc_clear_min_mm :: int
  lc_clear_valid_ms :: u32
  lc_opportunity_valid_ms :: u32

record latch_rec =
  lr_cred_id :: u32
  lr_confirmed_inside_ms :: int
  lr_opportunity_ms :: int
  lr_flags :: u8

record latch =
  la_cfg :: latch_cfg
  la_rec :: "latch_rec list"
  la_active :: bool
  la_active_cred :: u32
  la_agree_n :: u8
  la_last_outside_ms :: int

abbreviation LATCH_MAX_CREDS :: nat where "LATCH_MAX_CREDS \<equiv> 8"
abbreviation LATCH_CRED_ANY :: u32 where "LATCH_CRED_ANY \<equiv> 0xFFFFFFFF"
abbreviation LATCH_REC_LEN :: nat where "LATCH_REC_LEN \<equiv> 21"
abbreviation LATCH_BLOB_LEN :: nat where "LATCH_BLOB_LEN \<equiv> 2 + 8 * 21 + 2"
abbreviation LATCH_BLOB_VER :: u8 where "LATCH_BLOB_VER \<equiv> 1"

definition LATCH_F_USED :: u8 where [cfg_defs]: "LATCH_F_USED = 0x01"
definition LATCH_F_OPPORTUNITY :: u8 where [cfg_defs]: "LATCH_F_OPPORTUNITY = 0x02"

definition LATCH_R_NO_SESSION :: u8 where [cfg_defs]: "LATCH_R_NO_SESSION = 0x01"
definition LATCH_R_NO_RECORD :: u8 where [cfg_defs]: "LATCH_R_NO_RECORD = 0x02"
definition LATCH_R_NO_OPPORTUNITY :: u8 where [cfg_defs]: "LATCH_R_NO_OPPORTUNITY = 0x04"
definition LATCH_R_DWELL :: u8 where [cfg_defs]: "LATCH_R_DWELL = 0x08"
definition LATCH_R_WINDOWS :: u8 where [cfg_defs]: "LATCH_R_WINDOWS = 0x10"
definition LATCH_R_STALE :: u8 where [cfg_defs]: "LATCH_R_STALE = 0x20"

section \<open>Initialisation\<close>

definition ultrawidelock_latch_defaults :: latch_cfg where
  [cfg_defs]: "ultrawidelock_latch_defaults =
     \<lparr>lc_entry_dwell_ms = 60000, lc_clear_windows = 3, lc_clear_min_mm = 3000,
      lc_clear_valid_ms = 10000, lc_opportunity_valid_ms = 0\<rparr>"

definition latch_rec_zero :: latch_rec where
  "latch_rec_zero = \<lparr>lr_cred_id = 0, lr_confirmed_inside_ms = 0, lr_opportunity_ms = 0, lr_flags = 0\<rparr>"

definition ultrawidelock_latch_init :: "latch_cfg option \<Rightarrow> latch" where
  "ultrawidelock_latch_init co =
     \<lparr>la_cfg = (case co of Some c \<Rightarrow> c | None \<Rightarrow> ultrawidelock_latch_defaults),
      la_rec = replicate LATCH_MAX_CREDS latch_rec_zero, la_active = False, la_active_cred = 0,
      la_agree_n = 0, la_last_outside_ms = 0\<rparr>"

section \<open>The record table\<close>

definition rec_used :: "latch_rec \<Rightarrow> bool" where
  "rec_used r = (lr_flags r AND LATCH_F_USED \<noteq> 0)"

fun rec_find :: "latch_rec list \<Rightarrow> u32 \<Rightarrow> nat option" where
  "rec_find [] cred = None"
| "rec_find (r # rs) cred =
     (if rec_used r \<and> lr_cred_id r = cred then Some 0 else map_option Suc (rec_find rs cred))"

text \<open>The victim scan: \<open>i\<close> is the slot looked at, \<open>victim\<close> the best slot so far and its stamp.\<close>

fun rec_victim :: "nat \<Rightarrow> (nat \<times> int) option \<Rightarrow> latch_rec list \<Rightarrow> nat option" where
  "rec_victim i victim [] = map_option fst victim"
| "rec_victim i victim (r # rs) =
     (if \<not> rec_used r then Some i
      else case victim of
             None \<Rightarrow> rec_victim (Suc i) (Some (i, lr_confirmed_inside_ms r)) rs
           | Some (j, stamp) \<Rightarrow>
               if lr_confirmed_inside_ms r < stamp
               then rec_victim (Suc i) (Some (i, lr_confirmed_inside_ms r)) rs
               else rec_victim (Suc i) victim rs)"

definition rec_alloc :: "latch \<Rightarrow> u32 \<Rightarrow> int \<Rightarrow> (latch \<times> nat) option" where
  "rec_alloc l cred now =
     (case rec_victim 0 None (la_rec l) of
        None \<Rightarrow> None
      | Some v \<Rightarrow>
          Some (l\<lparr>la_rec := (la_rec l)[v := \<lparr>lr_cred_id = cred, lr_confirmed_inside_ms = now,
                    lr_opportunity_ms = 0, lr_flags = LATCH_F_USED\<rparr>]\<rparr>, v))"

text \<open>Find the record, or allocate one: the prologue shared by the two \<open>note\<close> operations.\<close>

definition rec_obtain :: "latch \<Rightarrow> u32 \<Rightarrow> int \<Rightarrow> (latch \<times> nat) option" where
  "rec_obtain l cred now =
     (case rec_find (la_rec l) cred of Some i \<Rightarrow> Some (l, i) | None \<Rightarrow> rec_alloc l cred now)"

section \<open>Events\<close>

definition ultrawidelock_latch_session_open :: "latch \<Rightarrow> u32 \<Rightarrow> latch" where
  "ultrawidelock_latch_session_open l cred =
     l\<lparr>la_active := True, la_active_cred := cred, la_agree_n := 0, la_last_outside_ms := 0\<rparr>"

definition ultrawidelock_latch_session_close :: "latch \<Rightarrow> latch" where
  "ultrawidelock_latch_session_close l =
     l\<lparr>la_active := False, la_active_cred := 0, la_agree_n := 0, la_last_outside_ms := 0\<rparr>"

definition rec_give_opportunity :: "int \<Rightarrow> latch_rec \<Rightarrow> latch_rec" where
  "rec_give_opportunity now r =
     r\<lparr>lr_flags := lr_flags r OR LATCH_F_OPPORTUNITY, lr_opportunity_ms := now\<rparr>"

definition ultrawidelock_latch_note_grant :: "latch \<Rightarrow> u32 \<Rightarrow> int \<Rightarrow> latch" where
  "ultrawidelock_latch_note_grant l cred now =
     (if cred = LATCH_CRED_ANY then l
      else case rec_obtain l cred now of
             None \<Rightarrow> l
           | Some (l1, i) \<Rightarrow>
               let r = (la_rec l1 ! i)\<lparr>lr_confirmed_inside_ms := now, lr_opportunity_ms := now,
                          lr_flags := LATCH_F_USED OR LATCH_F_OPPORTUNITY\<rparr>;
                   others = map (\<lambda>x. if rec_used x then rec_give_opportunity now x else x) (la_rec l1)
               in l1\<lparr>la_rec := others[i := r], la_agree_n := 0, la_last_outside_ms := 0\<rparr>)"

definition ultrawidelock_latch_note_opportunity :: "latch \<Rightarrow> u32 \<Rightarrow> int \<Rightarrow> latch" where
  "ultrawidelock_latch_note_opportunity l cred now =
     (if cred = LATCH_CRED_ANY
      then l\<lparr>la_rec := map (\<lambda>x. if rec_used x then rec_give_opportunity now x else x) (la_rec l)\<rparr>
      else case rec_obtain l cred now of
             None \<Rightarrow> l
           | Some (l1, i) \<Rightarrow> l1\<lparr>la_rec := (la_rec l1)[i := rec_give_opportunity now (la_rec l1 ! i)]\<rparr>)"

definition ultrawidelock_latch_note_window :: "latch \<Rightarrow> u32 \<Rightarrow> side_label \<Rightarrow> int \<Rightarrow> int \<Rightarrow> latch" where
  "ultrawidelock_latch_note_window l cred side range_mm now =
     (if \<not> la_active l \<or> la_active_cred l \<noteq> cred then l
      else if side = L_INSIDE then l\<lparr>la_agree_n := 0, la_last_outside_ms := 0\<rparr>
      else if side \<noteq> L_OUTSIDE then l
      else if la_agree_n l = 0 \<and> (range_mm < 0 \<or> range_mm < lc_clear_min_mm (la_cfg l)) then l
      else l\<lparr>la_agree_n := (if la_agree_n l < 0xFF then la_agree_n l + 1 else la_agree_n l),
             la_last_outside_ms := now\<rparr>)"

section \<open>The gate\<close>

definition latch_why_record :: "latch \<Rightarrow> u32 \<Rightarrow> int \<Rightarrow> u8" where
  "latch_why_record l cred now =
     (case rec_find (la_rec l) cred of
        None \<Rightarrow> LATCH_R_NO_RECORD
      | Some i \<Rightarrow>
          let r = la_rec l ! i;
              have_opp = (lr_flags r AND LATCH_F_OPPORTUNITY \<noteq> 0 \<and>
                \<not> (lc_opportunity_valid_ms (la_cfg l) \<noteq> 0 \<and>
                   now - lr_opportunity_ms r > uint (lc_opportunity_valid_ms (la_cfg l))));
              since_inside = now - lr_confirmed_inside_ms r
          in (if have_opp then 0 else LATCH_R_NO_OPPORTUNITY) OR
             (if since_inside \<ge> 0 \<and> since_inside < uint (lc_entry_dwell_ms (la_cfg l))
              then LATCH_R_DWELL else 0))"

definition ultrawidelock_latch_may_passive_unlock :: "latch option \<Rightarrow> u32 \<Rightarrow> int \<Rightarrow> bool \<times> u8" where
  "ultrawidelock_latch_may_passive_unlock lo cred now =
     (case lo of
        None \<Rightarrow> (False, LATCH_R_NO_SESSION)
      | Some l \<Rightarrow>
          let why =
            (if \<not> la_active l \<or> la_active_cred l \<noteq> cred \<or> cred = LATCH_CRED_ANY
             then LATCH_R_NO_SESSION else 0) OR
            latch_why_record l cred now OR
            (if la_agree_n l < lc_clear_windows (la_cfg l) then LATCH_R_WINDOWS
             else if lc_clear_valid_ms (la_cfg l) \<noteq> 0 \<and>
                     now - la_last_outside_ms l > uint (lc_clear_valid_ms (la_cfg l))
             then LATCH_R_STALE else 0)
          in (why = 0, why))"

section \<open>The persistent blob\<close>

definition put_rec :: "latch_rec \<Rightarrow> bytes" where
  "put_rec r = put_u32 (lr_cred_id r) @ put_i64 (lr_confirmed_inside_ms r) @
     put_i64 (lr_opportunity_ms r) @ [lr_flags r]"

definition latch_body :: "latch \<Rightarrow> bytes" where
  "latch_body l =
     (let used = filter rec_used (la_rec l)
      in LATCH_BLOB_VER # of_nat (length used) # concat (map put_rec used))"

definition ultrawidelock_latch_serialize :: "latch \<Rightarrow> nat \<Rightarrow> bytes option" where
  "ultrawidelock_latch_serialize l cap =
     (if cap < LATCH_BLOB_LEN then None
      else Some (latch_body l @ put_u16 (ultrawidelock_side_log_crc16 (latch_body l))))"

definition get_rec :: "bytes \<Rightarrow> latch_rec" where
  "get_rec p =
     \<lparr>lr_cred_id = get_u32 p, lr_confirmed_inside_ms = get_i64 (drop 4 p),
      lr_opportunity_ms = get_i64 (drop 12 p),
      lr_flags = ((p ! 20) AND (LATCH_F_USED OR LATCH_F_OPPORTUNITY)) OR LATCH_F_USED\<rparr>"

fun get_recs :: "nat \<Rightarrow> bytes \<Rightarrow> latch_rec list" where
  "get_recs 0 p = []"
| "get_recs (Suc n) p = get_rec p # get_recs n (drop LATCH_REC_LEN p)"

definition ultrawidelock_latch_deserialize :: "latch_cfg option \<Rightarrow> bytes \<Rightarrow> latch \<times> bool" where
  "ultrawidelock_latch_deserialize co buf =
     (let l = ultrawidelock_latch_init co;
          n = unat (buf ! 1);
          need = 2 + n * LATCH_REC_LEN
      in if length buf < 4 then (l, False)
         else if buf ! 0 \<noteq> LATCH_BLOB_VER then (l, False)
         else if n > LATCH_MAX_CREDS then (l, False)
         else if length buf \<noteq> need + 2 then (l, False)
         else if get_u16 (drop need buf) \<noteq> ultrawidelock_side_log_crc16 (take need buf) then (l, False)
         else (l\<lparr>la_rec := get_recs n (drop 2 buf) @ drop n (la_rec l)\<rparr>, True))"

end
