(* ===== verification/Latch_Proofs.thy ===== *)
theory Latch_Proofs
  imports Latch
begin

text \<open>
  What the inside veto guarantees. The record table first (lookups, the eviction scan, one
  record per credential), then the reachable states as an inductive relation that includes
  reboots through the persistent blob, the clear progress as a refinement of an event history,
  and the blob itself.
\<close>

section \<open>The record table\<close>

lemma rec_used_simps [simp]:
  "rec_used (rec_give_opportunity t r) = rec_used r"
  "lr_cred_id (rec_give_opportunity t r) = lr_cred_id r"
  "lr_confirmed_inside_ms (rec_give_opportunity t r) = lr_confirmed_inside_ms r"
  "\<not> rec_used latch_rec_zero"
  by (simp_all add: rec_used_def rec_give_opportunity_def latch_rec_zero_def cfg_defs and_one_eq mod2_eq_if
      even_or_iff)

lemma rec_used_make [simp]:
  "rec_used \<lparr>lr_cred_id = c, lr_confirmed_inside_ms = a, lr_opportunity_ms = b, lr_flags = LATCH_F_USED\<rparr>"
  "rec_used (r\<lparr>lr_flags := LATCH_F_USED OR LATCH_F_OPPORTUNITY\<rparr>)"
  "rec_used (r\<lparr>lr_confirmed_inside_ms := a\<rparr>) = rec_used r"
  "rec_used (r\<lparr>lr_opportunity_ms := b\<rparr>) = rec_used r"
  by (simp_all add: rec_used_def cfg_defs)

lemma rec_find_SomeD:
  "rec_find rs c = Some i \<Longrightarrow> i < length rs \<and> rec_used (rs ! i) \<and> lr_cred_id (rs ! i) = c"
  by (induction rs arbitrary: i) (auto split: if_splits)

lemma rec_victim_less:
  "rec_victim i v rs = Some k \<Longrightarrow> (\<And>j s. v = Some (j, s) \<Longrightarrow> j < i + length rs) \<Longrightarrow> k < i + length rs"
  by (induction i v rs rule: rec_victim.induct) (fastforce split: if_splits option.splits)+

lemma rec_victim_total: "v \<noteq> None \<or> rs \<noteq> [] \<Longrightarrow> rec_victim i v rs \<noteq> None"
  by (induction i v rs rule: rec_victim.induct) (auto split: option.splits)

text \<open>The scan stops at the first free slot, and otherwise returns a slot with the oldest stamp.\<close>

lemma nth_Cons_diff: "Suc i \<le> k \<Longrightarrow> (r # rs) ! (k - i) = rs ! (k - Suc i)"
  by (metis Suc_diff_Suc Suc_le_lessD nth_Cons_Suc)

lemma rec_victim_free:
  "rec_victim i v rs = Some k \<Longrightarrow> \<exists>r\<in>set rs. \<not> rec_used r \<Longrightarrow> i \<le> k \<and> k < i + length rs \<and> \<not> rec_used (rs ! (k - i))"
proof (induction rs arbitrary: i v)
  case (Cons r rs)
  show ?case
  proof (cases "rec_used r")
    case True
    then obtain v' where "rec_victim (Suc i) v' rs = Some k"
      using Cons.prems(1) by (auto split: option.splits if_splits)
    moreover have "\<exists>r\<in>set rs. \<not> rec_used r" using Cons.prems(2) True by auto
    ultimately have "Suc i \<le> k \<and> k < Suc i + length rs \<and> \<not> rec_used (rs ! (k - Suc i))"
      by (rule Cons.IH)
    then show ?thesis by (simp add: nth_Cons_diff)
  qed (use Cons.prems in auto)
qed simp

definition oldest_from :: "int \<Rightarrow> latch_rec list \<Rightarrow> bool" where
  "oldest_from s rs \<longleftrightarrow> (\<forall>r\<in>set rs. s \<le> lr_confirmed_inside_ms r)"

lemma rec_victim_oldest:
  assumes "rec_victim i v rs = Some k" and "\<forall>r\<in>set rs. rec_used r"
  shows "(\<exists>s. v = Some (k, s) \<and> oldest_from s rs) \<or>
    (i \<le> k \<and> k < i + length rs \<and> oldest_from (lr_confirmed_inside_ms (rs ! (k - i))) rs \<and>
     (\<forall>j s. v = Some (j, s) \<longrightarrow> lr_confirmed_inside_ms (rs ! (k - i)) < s))"
  using assms
proof (induction rs arbitrary: i v)
  case (Cons r rs)
  let ?t = "lr_confirmed_inside_ms r"
  have u: "rec_used r" "\<forall>r\<in>set rs. rec_used r" using Cons.prems(2) by auto
  show ?case
  proof (cases "\<exists>j s. v = Some (j, s) \<and> s \<le> ?t")
    case True
    then obtain j s where v: "v = Some (j, s)" "s \<le> ?t" by auto
    then have "rec_victim (Suc i) v rs = Some k" using Cons.prems(1) u by auto
    from Cons.IH [OF this u(2)] show ?thesis
      using v by (elim disjE) (auto simp: nth_Cons_diff oldest_from_def simp del: nth_Cons')
  next
    case False
    then have "rec_victim (Suc i) (Some (i, ?t)) rs = Some k"
      using Cons.prems(1) u by (auto split: option.splits)
    from Cons.IH [OF this u(2)] show ?thesis
    proof
      assume "\<exists>s. Some (i, ?t) = Some (k, s) \<and> oldest_from s rs"
      then show ?thesis using False by (auto simp: oldest_from_def not_le)
    next
      assume "Suc i \<le> k \<and> k < Suc i + length rs \<and>
        oldest_from (lr_confirmed_inside_ms (rs ! (k - Suc i))) rs \<and>
        (\<forall>j s. Some (i, ?t) = Some (j, s) \<longrightarrow> lr_confirmed_inside_ms (rs ! (k - Suc i)) < s)"
      then show ?thesis using False nth_Cons_diff [of i k r rs] by (fastforce simp: oldest_from_def)
    qed
  qed
qed (auto simp: oldest_from_def)

section \<open>One record per credential\<close>

definition creds_unique :: "latch_rec list \<Rightarrow> bool" where
  "creds_unique rs \<longleftrightarrow> distinct (map lr_cred_id (filter rec_used rs))"

definition latch_wf :: "latch \<Rightarrow> bool" where
  "latch_wf l \<longleftrightarrow> length (la_rec l) = LATCH_MAX_CREDS \<and> creds_unique (la_rec l)"

text \<open>Operations change the table slot by slot; these are the two shapes that occur.\<close>

lemma creds_unique_map:
  assumes "creds_unique rs" and "\<And>r. rec_used (f r) = rec_used r \<and> lr_cred_id (f r) = lr_cred_id r"
  shows "creds_unique (map f rs)"
proof -
  have "rec_used \<circ> f = rec_used" "lr_cred_id \<circ> f = lr_cred_id"
    using assms(2) by auto
  then show ?thesis using assms(1) by (simp add: creds_unique_def filter_map)
qed

definition used_creds :: "latch_rec list \<Rightarrow> u32 set" where
  "used_creds rs = set (map lr_cred_id (filter rec_used rs))"

lemma used_creds_append: "used_creds (xs @ ys) = used_creds xs \<union> used_creds ys"
  by (simp add: used_creds_def image_Un)

lemma creds_unique_split: "creds_unique (xs @ r # ys) \<longleftrightarrow>
   creds_unique (xs @ ys) \<and> (rec_used r \<longrightarrow> lr_cred_id r \<notin> used_creds (xs @ ys))"
  unfolding creds_unique_def used_creds_def by (simp del: set_map set_filter) blast

lemma rec_find_None_iff: "rec_find rs c = None \<longleftrightarrow> c \<notin> used_creds rs"
  by (induction rs) (auto simp: used_creds_def)

lemma creds_unique_upd:
  assumes "creds_unique rs" and "i < length rs"
    and "rec_used r \<Longrightarrow> (rec_used (rs ! i) \<and> lr_cred_id r = lr_cred_id (rs ! i)) \<or> lr_cred_id r \<notin> used_creds rs"
  shows "creds_unique (rs[i := r])"
proof -
  let ?o = "take i rs @ drop (Suc i) rs"
  have s: "rs = take i rs @ rs ! i # drop (Suc i) rs" using assms(2) by (rule id_take_nth_drop)
  then have "used_creds ?o \<subseteq> used_creds rs"
    by (metis (no_types, opaque_lifting) append_Cons append_Nil used_creds_append inf_sup_ord(4) le_sup_iff sup.bounded_iff subset_refl sup_ge1)
  moreover have "creds_unique ?o \<and> (rec_used (rs ! i) \<longrightarrow> lr_cred_id (rs ! i) \<notin> used_creds ?o)"
    using assms(1) s creds_unique_split by metis
  ultimately have "creds_unique ?o \<and> (rec_used r \<longrightarrow> lr_cred_id r \<notin> used_creds ?o)"
    using assms(3) by auto
  then show ?thesis
    using assms(2) by (simp add: upd_conv_take_nth_drop creds_unique_split)
qed

lemma creds_unique_find:
  assumes "creds_unique rs" and "i < length rs" and "rec_used (rs ! i)"
  shows "rec_find rs (lr_cred_id (rs ! i)) = Some i"
  using assms
proof (induction rs arbitrary: i)
  case (Cons r rs)
  show ?case
  proof (cases i)
    case (Suc j)
    then have "rec_find rs (lr_cred_id (rs ! j)) = Some j"
      using Cons by (auto simp: creds_unique_def split: if_splits)
    moreover have "rec_used r \<longrightarrow> lr_cred_id r \<noteq> lr_cred_id (rs ! j)"
      using Cons.prems Suc creds_unique_split [of "[]" r rs] by (auto simp: used_creds_def)
    ultimately show ?thesis using Suc by auto
  qed (use Cons.prems in auto)
qed simp

lemma rec_obtain_wf:
  assumes "latch_wf l"
  obtains l1 i where "rec_obtain l cred now = Some (l1, i)" and "i < LATCH_MAX_CREDS" and "latch_wf l1"
    and "rec_used (la_rec l1 ! i)" and "lr_cred_id (la_rec l1 ! i) = cred"
    and "l1 = l \<or> lr_confirmed_inside_ms (la_rec l1 ! i) = now \<and> rec_find (la_rec l) cred = None"
    and "l1 = l\<lparr>la_rec := (la_rec l)[i := la_rec l1 ! i]\<rparr>"
proof (cases "rec_find (la_rec l) cred")
  case (Some i)
  then show ?thesis
    using that [of l i] assms rec_find_SomeD [OF Some] by (simp add: rec_obtain_def latch_wf_def)
next
  case None
  obtain v where v: "rec_victim 0 None (la_rec l) = Some v"
    using rec_victim_total [of None "la_rec l" 0] assms by (fastforce simp: latch_wf_def)
  then have "v < length (la_rec l)" using rec_victim_less [OF v] by simp
  then show ?thesis
    using that None v assms creds_unique_upd [of "la_rec l" v] rec_find_None_iff [of "la_rec l" cred]
    by (fastforce simp: rec_obtain_def rec_alloc_def latch_wf_def)
qed

section \<open>Events and reachable states\<close>

datatype latch_event =
    Session_Open u32
  | Session_Close
  | Grant u32 int
  | Opportunity u32 int
  | Window u32 side_label int int

fun latch_step :: "latch \<Rightarrow> latch_event \<Rightarrow> latch" where
  "latch_step l (Session_Open c) = ultrawidelock_latch_session_open l c"
| "latch_step l Session_Close = ultrawidelock_latch_session_close l"
| "latch_step l (Grant c t) = ultrawidelock_latch_note_grant l c t"
| "latch_step l (Opportunity c t) = ultrawidelock_latch_note_opportunity l c t"
| "latch_step l (Window c s r t) = ultrawidelock_latch_note_window l c s r t"

lemma map_opportunity_wf:
  "latch_wf (l\<lparr>la_rec := map (\<lambda>x. if rec_used x then rec_give_opportunity t x else x) (la_rec l)\<rparr>) = latch_wf l"
proof -
  let ?f = "\<lambda>x. if rec_used x then rec_give_opportunity t x else x"
  have "rec_used \<circ> ?f = rec_used" "lr_cred_id \<circ> ?f = lr_cred_id" by (auto simp: fun_eq_iff)
  then show ?thesis by (simp add: latch_wf_def creds_unique_def filter_map)
qed

lemma latch_wf_upd:
  assumes "latch_wf l" and "i < LATCH_MAX_CREDS" and "rec_used (la_rec l ! i)"
    and "lr_cred_id r = lr_cred_id (la_rec l ! i)"
  shows "latch_wf (l\<lparr>la_rec := (la_rec l)[i := r]\<rparr>)"
  using assms creds_unique_upd [of "la_rec l" i r] by (simp add: latch_wf_def)

lemma latch_wf_progress [simp]:
  "latch_wf (l\<lparr>la_agree_n := n\<rparr>) = latch_wf l"
  "latch_wf (l\<lparr>la_last_outside_ms := t\<rparr>) = latch_wf l"
  "latch_wf (l\<lparr>la_active := a\<rparr>) = latch_wf l"
  "latch_wf (l\<lparr>la_active_cred := c\<rparr>) = latch_wf l"
  by (simp_all add: latch_wf_def)

lemma note_grant_wf:
  assumes "latch_wf l"
  shows "latch_wf (ultrawidelock_latch_note_grant l c t)"
proof -
  obtain l1 i where o: "rec_obtain l c t = Some (l1, i)" "i < LATCH_MAX_CREDS" "latch_wf l1"
      "rec_used (la_rec l1 ! i)" "lr_cred_id (la_rec l1 ! i) = c"
    using rec_obtain_wf [OF assms] by metis
  let ?f = "\<lambda>x. if rec_used x then rec_give_opportunity t x else x"
  let ?r = "(la_rec l1 ! i)\<lparr>lr_confirmed_inside_ms := t, lr_opportunity_ms := t, lr_flags := LATCH_F_USED OR LATCH_F_OPPORTUNITY\<rparr>"
  have m: "latch_wf (l1\<lparr>la_rec := map ?f (la_rec l1)\<rparr>)" using o(3) by (simp add: map_opportunity_wf)
  have "i < length (la_rec l1)" using o(2,3) by (simp add: latch_wf_def)
  then have "latch_wf ((l1\<lparr>la_rec := map ?f (la_rec l1)\<rparr>)\<lparr>la_rec := (map ?f (la_rec l1))[i := ?r]\<rparr>)"
    using latch_wf_upd [OF m o(2), of ?r] o(4) by simp
  then show ?thesis
    using assms o(1) by (simp add: ultrawidelock_latch_note_grant_def Let_def)
qed

lemma note_opportunity_wf:
  assumes "latch_wf l"
  shows "latch_wf (ultrawidelock_latch_note_opportunity l c t)"
proof -
  obtain l1 i where o: "rec_obtain l c t = Some (l1, i)" "i < LATCH_MAX_CREDS" "latch_wf l1"
      "rec_used (la_rec l1 ! i)"
    using rec_obtain_wf [OF assms] by metis
  have "latch_wf (l1\<lparr>la_rec := (la_rec l1)[i := rec_give_opportunity t (la_rec l1 ! i)]\<rparr>)"
    using latch_wf_upd [OF o(3,2,4)] by simp
  then show ?thesis
    using assms o(1) by (simp add: ultrawidelock_latch_note_opportunity_def map_opportunity_wf)
qed

lemma latch_step_wf: "latch_wf l \<Longrightarrow> latch_wf (latch_step l e)"
  by (cases e) (simp_all add: note_grant_wf note_opportunity_wf ultrawidelock_latch_session_open_def
      ultrawidelock_latch_session_close_def ultrawidelock_latch_note_window_def)

lemma latch_init_wf: "latch_wf (ultrawidelock_latch_init co)"
  by (simp add: latch_wf_def ultrawidelock_latch_init_def creds_unique_def)

lemma latch_run_wf: "latch_wf l \<Longrightarrow> latch_wf (foldl latch_step l es)"
  by (induction es arbitrary: l) (simp_all add: latch_step_wf)

lemma latch_step_cfg: "la_cfg (latch_step l e) = la_cfg l"
  by (cases e) (auto simp: ultrawidelock_latch_note_grant_def ultrawidelock_latch_note_opportunity_def
      ultrawidelock_latch_session_open_def ultrawidelock_latch_session_close_def
      ultrawidelock_latch_note_window_def rec_obtain_def rec_alloc_def Let_def split: option.splits)

lemma latch_run_cfg: "la_cfg (foldl latch_step l es) = la_cfg l"
  by (induction es arbitrary: l) (simp_all add: latch_step_cfg)

section \<open>The gate\<close>

definition has_opportunity :: "latch \<Rightarrow> latch_rec \<Rightarrow> int \<Rightarrow> bool" where
  "has_opportunity l r now \<longleftrightarrow> lr_flags r AND LATCH_F_OPPORTUNITY \<noteq> 0 \<and>
     (lc_opportunity_valid_ms (la_cfg l) = 0 \<or>
      now - lr_opportunity_ms r \<le> uint (lc_opportunity_valid_ms (la_cfg l)))"

definition in_dwell :: "latch \<Rightarrow> latch_rec \<Rightarrow> int \<Rightarrow> bool" where
  "in_dwell l r now \<longleftrightarrow> lr_confirmed_inside_ms r \<le> now \<and>
     now < lr_confirmed_inside_ms r + uint (lc_entry_dwell_ms (la_cfg l))"

definition record_clears :: "latch \<Rightarrow> u32 \<Rightarrow> int \<Rightarrow> bool" where
  "record_clears l cred now \<longleftrightarrow>
     (\<exists>i. rec_find (la_rec l) cred = Some i \<and> has_opportunity l (la_rec l ! i) now \<and> \<not> in_dwell l (la_rec l ! i) now)"

lemma latch_why_record_0: "latch_why_record l cred now = 0 \<longleftrightarrow> record_clears l cred now"
  by (auto simp: latch_why_record_def record_clears_def has_opportunity_def in_dwell_def Let_def or_eq_0_iff
      cfg_defs split: option.splits)

lemma latch_gate_iff:
  "fst (ultrawidelock_latch_may_passive_unlock (Some l) cred now) \<longleftrightarrow>
     la_active l \<and> la_active_cred l = cred \<and> cred \<noteq> LATCH_CRED_ANY \<and> record_clears l cred now \<and>
     lc_clear_windows (la_cfg l) \<le> la_agree_n l \<and>
     (lc_clear_valid_ms (la_cfg l) = 0 \<or> now - la_last_outside_ms l \<le> uint (lc_clear_valid_ms (la_cfg l)))"
  by (auto simp: ultrawidelock_latch_may_passive_unlock_def Let_def or_eq_0_iff latch_why_record_0 not_less
      LATCH_R_NO_SESSION_def LATCH_R_WINDOWS_def LATCH_R_STALE_def)

section \<open>What an event does to the records\<close>

fun event_time :: "latch_event \<Rightarrow> int option" where
  "event_time (Grant c t) = Some t"
| "event_time (Opportunity c t) = Some t"
| "event_time _ = None"

text \<open>After an event a record is an old one, perhaps with a new opportunity, or one the event stamped.\<close>

definition rec_from :: "latch \<Rightarrow> int \<Rightarrow> latch_rec \<Rightarrow> bool" where
  "rec_from l t r \<longleftrightarrow>
     r \<in> set (la_rec l) \<or> (\<exists>x\<in>set (la_rec l). r = rec_give_opportunity t x) \<or>
     (lr_confirmed_inside_ms r = t \<and> lr_opportunity_ms r \<in> {0, t} \<and> lr_flags r AND 3 = lr_flags r)"

lemma rec_obtain_from:
  assumes "rec_obtain l c t = Some (l1, i)" and "r \<in> set (la_rec l1)"
  shows "r \<in> set (la_rec l) \<or> r = \<lparr>lr_cred_id = c, lr_confirmed_inside_ms = t, lr_opportunity_ms = 0, lr_flags = LATCH_F_USED\<rparr>"
  using assms set_update_subset_insert [of "la_rec l" i]
  by (fastforce simp: rec_obtain_def rec_alloc_def split: option.splits)

lemma rec_obtain_rec_from:
  assumes "rec_obtain l c t = Some (l1, i)" and "x \<in> set (la_rec l1)" and "r = x \<or> r = rec_give_opportunity t x"
  shows "rec_from l t r"
  using rec_obtain_from [OF assms(1,2)]
proof
  assume "x \<in> set (la_rec l)"
  then show ?thesis using assms(3) by (auto simp: rec_from_def)
next
  assume "x = \<lparr>lr_cred_id = c, lr_confirmed_inside_ms = t, lr_opportunity_ms = 0, lr_flags = LATCH_F_USED\<rparr>"
  then have "lr_confirmed_inside_ms r = t \<and> lr_opportunity_ms r \<in> {0, t} \<and> lr_flags r AND 3 = lr_flags r"
    using assms(3) by (auto simp: rec_give_opportunity_def cfg_defs)
  then show ?thesis by (simp add: rec_from_def)
qed

lemma latch_step_rec:
  assumes "r \<in> set (la_rec (latch_step l e))"
  shows "r \<in> set (la_rec l) \<or> (\<exists>t. event_time e = Some t \<and> rec_from l t r)"
proof -
  note g = rec_obtain_rec_from [of l _ _ _ _ _ r]
  show ?thesis
  proof (cases e)
    case (Grant c t)
    show ?thesis
    proof (cases "c = LATCH_CRED_ANY \<or> rec_obtain l c t = None")
      case True
      then show ?thesis using assms Grant by (auto simp: ultrawidelock_latch_note_grant_def split: option.splits)
    next
      case False
      then obtain l1 i where o: "rec_obtain l c t = Some (l1, i)" by auto
      let ?f = "\<lambda>x. if rec_used x then rec_give_opportunity t x else x"
      have "r \<in> insert ((la_rec l1 ! i)\<lparr>lr_confirmed_inside_ms := t, lr_opportunity_ms := t,
          lr_flags := LATCH_F_USED OR LATCH_F_OPPORTUNITY\<rparr>) (?f ` set (la_rec l1))"
        using assms Grant False o set_update_subset_insert [of "map ?f (la_rec l1)" i]
        by (auto simp: ultrawidelock_latch_note_grant_def Let_def)
      then show ?thesis
        using g [OF o] Grant by (auto simp: cfg_defs split: if_splits) (auto simp: rec_from_def)
    qed
  next
    case (Opportunity c t)
    show ?thesis
    proof (cases "c = LATCH_CRED_ANY \<or> rec_obtain l c t = None")
      case True
      then show ?thesis
        using assms Opportunity
        by (auto simp: ultrawidelock_latch_note_opportunity_def rec_from_def split: option.splits if_splits)
    next
      case False
      then obtain l1 i where o: "rec_obtain l c t = Some (l1, i)" by auto
      show ?thesis
      proof (cases "i < length (la_rec l1)")
        case True
        then have "r \<in> insert (rec_give_opportunity t (la_rec l1 ! i)) (set (la_rec l1))"
          using assms Opportunity False o set_update_subset_insert [of "la_rec l1" i]
          by (auto simp: ultrawidelock_latch_note_opportunity_def)
        then show ?thesis using g [OF o] nth_mem [OF True] Opportunity by auto
      next
        case out: False
        then show ?thesis
          using assms Opportunity False o g [OF o]
          by (auto simp: ultrawidelock_latch_note_opportunity_def list_update_beyond)
      qed
    qed
  qed (use assms in \<open>auto simp: ultrawidelock_latch_session_open_def ultrawidelock_latch_session_close_def
        ultrawidelock_latch_note_window_def split: if_splits\<close>)
qed

section \<open>The dwell after a grant\<close>

definition stamped :: "u32 \<Rightarrow> int \<Rightarrow> int \<Rightarrow> latch \<Rightarrow> bool" where
  "stamped c t q l \<longleftrightarrow> (\<forall>r\<in>set (la_rec l). rec_used r \<and> lr_cred_id r = c \<longrightarrow>
     t \<le> lr_confirmed_inside_ms r \<and> lr_confirmed_inside_ms r \<le> q)"

definition event_within :: "int \<Rightarrow> int \<Rightarrow> latch_event \<Rightarrow> bool" where
  "event_within t q e \<longleftrightarrow> (case event_time e of Some u \<Rightarrow> t \<le> u \<and> u \<le> q | None \<Rightarrow> True)"

lemma stamped_step:
  assumes "stamped c t q l" and "event_within t q e"
  shows "stamped c t q (latch_step l e)"
  unfolding stamped_def
proof (intro ballI impI)
  fix r
  assume "r \<in> set (la_rec (latch_step l e))" and "rec_used r \<and> lr_cred_id r = c"
  then show "t \<le> lr_confirmed_inside_ms r \<and> lr_confirmed_inside_ms r \<le> q"
    using assms latch_step_rec [of r l e] by (auto simp: stamped_def event_within_def rec_from_def)
qed

lemma stamped_run: "stamped c t q l \<Longrightarrow> \<forall>e\<in>set es. event_within t q e \<Longrightarrow> stamped c t q (foldl latch_step l es)"
  by (induction es arbitrary: l) (simp_all add: stamped_step)

lemma grant_stamped:
  assumes "latch_wf l" and "c \<noteq> LATCH_CRED_ANY" and "t \<le> q"
  shows "stamped c t q (ultrawidelock_latch_note_grant l c t)"
proof -
  obtain l1 i where o: "rec_obtain l c t = Some (l1, i)" "i < LATCH_MAX_CREDS" "latch_wf l1"
      "rec_used (la_rec l1 ! i)" "lr_cred_id (la_rec l1 ! i) = c"
    using rec_obtain_wf [OF assms(1)] by metis
  let ?g = "ultrawidelock_latch_note_grant l c t"
  have i: "i < length (la_rec l1)" using o(2,3) by (simp add: latch_wf_def)
  have "la_rec ?g ! i = (la_rec l1 ! i)\<lparr>lr_confirmed_inside_ms := t, lr_opportunity_ms := t, lr_flags := LATCH_F_USED OR LATCH_F_OPPORTUNITY\<rparr>"
    and "length (la_rec ?g) = length (la_rec l1)"
    using assms(2) o(1) i by (simp_all add: ultrawidelock_latch_note_grant_def Let_def)
  then have gi: "lr_confirmed_inside_ms (la_rec ?g ! i) = t" "lr_cred_id (la_rec ?g ! i) = c"
      "rec_used (la_rec ?g ! i)" "i < length (la_rec ?g)"
    using o(5) i by simp_all
  have u: "creds_unique (la_rec ?g)" using note_grant_wf [OF assms(1)] by (simp add: latch_wf_def)
  show ?thesis
    unfolding stamped_def
  proof (intro ballI impI)
    fix r
    assume "r \<in> set (la_rec ?g)" and r: "rec_used r \<and> lr_cred_id r = c"
    then obtain j where j: "j < length (la_rec ?g)" "la_rec ?g ! j = r" by (auto simp: in_set_conv_nth)
    then have "j = i"
      using creds_unique_find [OF u gi(4,3)] creds_unique_find [OF u j(1)] r gi(2) by simp
    then show "t \<le> lr_confirmed_inside_ms r \<and> lr_confirmed_inside_ms r \<le> q"
      using j(2) gi(1) assms(3) by simp
  qed
qed

lemma stamped_in_dwell:
  assumes "stamped c t q l" and "q < t + uint (lc_entry_dwell_ms (la_cfg l))"
  shows "\<not> record_clears l c q"
proof
  assume "record_clears l c q"
  then obtain i where "rec_find (la_rec l) c = Some i" and "\<not> in_dwell l (la_rec l ! i) q"
    by (auto simp: record_clears_def)
  then show False
    using rec_find_SomeD [of "la_rec l" c i] assms nth_mem [of i "la_rec l"]
    by (fastforce simp: stamped_def in_dwell_def)
qed

section \<open>Clear progress as an event history\<close>

text \<open>
  The specification of the progress towards a clear: the credential whose session is open, and
  the windows that count for it, newest first, each with its range and time.
\<close>

type_synonym clear_spec = "u32 option \<times> (int \<times> int) list"

fun clear_step :: "int \<Rightarrow> clear_spec \<Rightarrow> latch_event \<Rightarrow> clear_spec" where
  "clear_step m (sess, run) (Session_Open c) = (Some c, [])"
| "clear_step m (sess, run) Session_Close = (None, [])"
| "clear_step m (sess, run) (Grant c t) = (sess, if c = LATCH_CRED_ANY then run else [])"
| "clear_step m (sess, run) (Opportunity c t) = (sess, run)"
| "clear_step m (sess, run) (Window c s r t) =
     (sess, if sess \<noteq> Some c then run
            else case s of
                   L_INSIDE \<Rightarrow> []
                 | L_OUTSIDE \<Rightarrow> if run = [] \<and> (r < 0 \<or> r < m) then run else (r, t) # run
                 | _ \<Rightarrow> run)"

definition clear_abs :: "latch \<Rightarrow> clear_spec \<Rightarrow> bool" where
  "clear_abs l s \<longleftrightarrow>
     fst s = (if la_active l then Some (la_active_cred l) else None) \<and>
     unat (la_agree_n l) = min 255 (length (snd s)) \<and>
     la_last_outside_ms l = (case snd s of [] \<Rightarrow> 0 | w # _ \<Rightarrow> snd w)"

lemma clear_window_refines:
  assumes "clear_abs l s"
  shows "clear_abs (ultrawidelock_latch_note_window l c sd r t) (clear_step (lc_clear_min_mm (la_cfg l)) s (Window c sd r t))"
proof -
  obtain sess run where s: "s = (sess, run)" by (cases s)
  have n: "la_agree_n l = 0 \<longleftrightarrow> run = []" and m: "la_agree_n l < 255 \<longleftrightarrow> length run < 255"
    using assms by (auto simp: s clear_abs_def word_less_nat_alt unat_eq_0 [symmetric] min_def split: if_splits)
  show ?thesis
    using assms n m unat_Suc_if_less [of "la_agree_n l" 255]
    by (cases sd) (auto simp: s clear_abs_def ultrawidelock_latch_note_window_def)
qed

lemma clear_refines:
  assumes "clear_abs l s" and "latch_wf l"
  shows "clear_abs (latch_step l e) (clear_step (lc_clear_min_mm (la_cfg l)) s e)"
proof -
  obtain sess run where s: "s = (sess, run)" by (cases s)
  show ?thesis
  proof (cases e)
    case (Grant c t)
    obtain l1 i where "rec_obtain l c t = Some (l1, i)" "l1 = l\<lparr>la_rec := (la_rec l)[i := la_rec l1 ! i]\<rparr>"
      using rec_obtain_wf [OF assms(2)] by metis
    then have "la_active l1 = la_active l" "la_active_cred l1 = la_active_cred l" "rec_obtain l c t = Some (l1, i)"
      by (metis latch.select_convs latch.update_convs(2) latch.surjective)+
    then show ?thesis
      using assms(1) Grant by (auto simp: s clear_abs_def ultrawidelock_latch_note_grant_def Let_def)
  next
    case (Opportunity c t)
    then show ?thesis
      using assms(1) by (auto simp: s clear_abs_def ultrawidelock_latch_note_opportunity_def rec_obtain_def
          rec_alloc_def split: option.splits)
  next
    case (Window c sd r t)
    then show ?thesis using clear_window_refines [OF assms(1)] by simp
  qed (use assms(1) in \<open>auto simp: s clear_abs_def ultrawidelock_latch_session_open_def
        ultrawidelock_latch_session_close_def\<close>)
qed

lemma clear_run_refines:
  "clear_abs l s \<Longrightarrow> latch_wf l \<Longrightarrow>
   clear_abs (foldl latch_step l es) (foldl (clear_step (lc_clear_min_mm (la_cfg l))) s es)"
proof (induction es arbitrary: l s)
  case (Cons e es)
  then show ?case
    using clear_refines latch_step_wf latch_step_cfg by (metis foldl_Cons)
qed simp

lemma clear_abs_init: "clear_abs (ultrawidelock_latch_init co) (None, [])"
  by (simp add: clear_abs_def ultrawidelock_latch_init_def)

lemma clear_run_far:
  "snd s \<noteq> [] \<longrightarrow> 0 \<le> fst (last (snd s)) \<and> m \<le> fst (last (snd s)) \<Longrightarrow>
   snd (clear_step m s e) \<noteq> [] \<longrightarrow> 0 \<le> fst (last (snd (clear_step m s e))) \<and> m \<le> fst (last (snd (clear_step m s e)))"
  by (cases s; cases e) (auto split: side_label.splits if_splits)

lemma clear_runs_far:
  "snd s \<noteq> [] \<longrightarrow> 0 \<le> fst (last (snd s)) \<and> m \<le> fst (last (snd s)) \<Longrightarrow>
   snd (foldl (clear_step m) s es) \<noteq> [] \<longrightarrow>
     0 \<le> fst (last (snd (foldl (clear_step m) s es))) \<and> m \<le> fst (last (snd (foldl (clear_step m) s es)))"
proof (induction es arbitrary: s)
  case (Cons e es)
  show ?case using Cons.IH [OF clear_run_far [OF Cons.prems]] by simp
qed simp

section \<open>The persistent blob\<close>

definition rec_times_ok :: "latch_rec \<Rightarrow> bool" where
  "rec_times_ok r \<longleftrightarrow> - (2 ^ 63) \<le> lr_confirmed_inside_ms r \<and> lr_confirmed_inside_ms r < 2 ^ 63 \<and>
     - (2 ^ 63) \<le> lr_opportunity_ms r \<and> lr_opportunity_ms r < 2 ^ 63"

text \<open>What a record becomes when it is written and read back.\<close>

definition rec_norm :: "latch_rec \<Rightarrow> latch_rec" where
  "rec_norm r = \<lparr>lr_cred_id = lr_cred_id r, lr_confirmed_inside_ms = to_i64 (lr_confirmed_inside_ms r),
     lr_opportunity_ms = to_i64 (lr_opportunity_ms r), lr_flags = (lr_flags r AND 3) OR 1\<rparr>"

lemma length_put_rec [simp]: "length (put_rec r) = LATCH_REC_LEN"
  by (simp add: put_rec_def)

lemma get_i64_put: "get_i64 (put_i64 v @ r) = to_i64 v"
  by (simp add: get_i64_def put_i64_def to_i64_def)

lemma get_put_rec: "get_rec (put_rec r @ rest) = rec_norm r"
proof -
  have "drop 4 (put_rec r @ rest) = put_i64 (lr_confirmed_inside_ms r) @ put_i64 (lr_opportunity_ms r) @ lr_flags r # rest"
    and "drop 12 (put_rec r @ rest) = put_i64 (lr_opportunity_ms r) @ lr_flags r # rest"
    and "(put_rec r @ rest) ! 20 = lr_flags r" and "get_u32 (put_rec r @ rest) = lr_cred_id r"
    by (simp_all add: put_rec_def nth_append)
  then show ?thesis by (simp add: get_rec_def rec_norm_def get_i64_put cfg_defs)
qed

lemma get_put_recs: "get_recs (length rs) (concat (map put_rec rs) @ rest) = map rec_norm rs"
  by (induction rs) (simp_all add: get_put_rec)

lemma rec_norm_used [simp]: "rec_used (rec_norm r)" "lr_cred_id (rec_norm r) = lr_cred_id r"
  by (simp_all add: rec_norm_def rec_used_def cfg_defs bit.conj_disj_distrib2)

lemma rec_used_odd: "rec_used r \<longleftrightarrow> lr_flags r AND 1 = 1"
  by (simp add: rec_used_def cfg_defs and_one_eq mod2_eq_if)

lemma or_absorb_and: "f AND m = m \<Longrightarrow> f OR m = (f::'a::len word)"
  by (auto simp: bit_eq_iff bit_simps)

lemma rec_norm_id: "rec_used r \<Longrightarrow> rec_times_ok r \<Longrightarrow> lr_flags r AND 3 = lr_flags r \<Longrightarrow> rec_norm r = r"
  using or_absorb_and [of "lr_flags r" 1]
  by (cases r) (simp add: rec_norm_def rec_times_ok_def to_i64_id rec_used_odd)

lemma length_latch_body: "length (latch_body l) = 2 + LATCH_REC_LEN * length (filter rec_used (la_rec l))"
proof -
  have "length (concat (map put_rec rs)) = LATCH_REC_LEN * length rs" for rs
    by (induction rs) simp_all
  then show ?thesis by (simp add: latch_body_def Let_def)
qed

lemma used_le_max: "latch_wf l \<Longrightarrow> length (filter rec_used (la_rec l)) \<le> LATCH_MAX_CREDS"
  using length_filter_le [of rec_used "la_rec l"] by (simp add: latch_wf_def)

lemma latch_deserialize_serialize:
  assumes "latch_wf l" and "ultrawidelock_latch_serialize l cap = Some b"
  shows "ultrawidelock_latch_deserialize co b =
    ((ultrawidelock_latch_init co)\<lparr>la_rec := map rec_norm (filter rec_used (la_rec l)) @
        replicate (LATCH_MAX_CREDS - length (filter rec_used (la_rec l))) latch_rec_zero\<rparr>, True)"
proof -
  let ?n = "length (filter rec_used (la_rec l))" and ?crc = "ultrawidelock_side_log_crc16 (latch_body l)"
  have b: "b = latch_body l @ put_u16 ?crc"
    using assms(2) by (simp add: ultrawidelock_latch_serialize_def split: if_splits)
  have n: "?n \<le> 8" by (rule used_le_max [OF assms(1)])
  have body: "latch_body l ! 0 = 1" "latch_body l ! 1 = of_nat ?n" "latch_body l = 1 # of_nat ?n # concat (map put_rec (filter rec_used (la_rec l)))"
    by (simp_all add: latch_body_def Let_def)
  have un: "unat (of_nat ?n :: u8) = ?n" using n by (simp add: unat_of_nat)
  have len: "length b = 2 + ?n * LATCH_REC_LEN + 2" by (simp add: b length_latch_body)
  have nth: "b ! 0 = 1" "b ! 1 = of_nat ?n" using body by (simp_all add: b nth_append length_latch_body)
  have "drop (2 + ?n * LATCH_REC_LEN) b = put_u16 ?crc @ []" "take (2 + ?n * LATCH_REC_LEN) b = latch_body l"
    by (simp_all add: b length_latch_body)
  moreover have "drop 2 b = concat (map put_rec (filter rec_used (la_rec l))) @ put_u16 ?crc"
    unfolding b body(3) by simp
  ultimately show ?thesis
    using n nth un len get_put_u16 [of ?crc "[]"]
    by (simp add: ultrawidelock_latch_deserialize_def Let_def get_put_recs ultrawidelock_latch_init_def)
qed

text \<open>A blob with one byte changed is never accepted.\<close>

lemma get_u16_upd:
  assumes "length p = 2" and "j < 2" and "x \<noteq> p ! j"
  shows "get_u16 (p[j := x]) \<noteq> get_u16 p"
proof -
  obtain a b where p: "p = [a, b]" using assms(1) by (cases p rule: get_u16.cases) auto
  have "put_u16 (push_bit 8 (ucast y) OR ucast z) = [y, z]" for y z :: u8
    by (simp add: put_u16_def bit_eq_iff bit_simps) (auto dest: bit_imp_le_length)
  then have "put_u16 (get_u16 [y, z]) = [y, z]" for y z by simp
  then have "put_u16 (get_u16 (p[j := x])) = p[j := x]" and "put_u16 (get_u16 p) = p"
    using p assms(2) by (auto simp: less_Suc_eq numeral_2_eq_2)
  moreover have "p[j := x] \<noteq> p" using assms by (metis nth_list_update_eq)
  ultimately show ?thesis by metis
qed

lemma latch_deserialize_corrupt:
  assumes "latch_wf l" and "ultrawidelock_latch_serialize l cap = Some b" and "i < length b" and "x \<noteq> b ! i"
  shows "ultrawidelock_latch_deserialize co (b[i := x]) = (ultrawidelock_latch_init co, False)"
proof -
  let ?n = "length (filter rec_used (la_rec l))" and ?crc = "ultrawidelock_side_log_crc16 (latch_body l)"
  let ?need = "2 + ?n * LATCH_REC_LEN" and ?b = "b[i := x]"
  have b: "b = latch_body l @ put_u16 ?crc"
    using assms(2) by (simp add: ultrawidelock_latch_serialize_def split: if_splits)
  have n: "?n \<le> 8" by (rule used_le_max [OF assms(1)])
  have un: "unat (of_nat ?n :: u8) = ?n" using n by (simp add: unat_of_nat)
  have body: "latch_body l ! 0 = 1" "latch_body l ! 1 = of_nat ?n"
    by (simp_all add: latch_body_def Let_def)
  have body3: "length (latch_body l) = ?need" by (simp add: length_latch_body)
  have nth: "b ! 0 = 1" "b ! 1 = of_nat ?n" using body body3 by (simp_all add: b nth_append)
  have len: "length ?b = ?need + 2" by (simp add: b body3)
  consider "i = 0" | "i = 1" | "2 \<le> i" "i < ?need" | "?need \<le> i" "i < ?need + 2"
    using assms(3) len by fastforce
  then show ?thesis
  proof cases
    case 1
    then show ?thesis using assms(4) nth len assms(3) by (simp add: ultrawidelock_latch_deserialize_def Let_def)
  next
    case 2
    then have "unat x \<noteq> ?n" using assms(4) nth un by (metis word_unat_eq_iff)
    then show ?thesis using 2 len assms(3) by (simp add: ultrawidelock_latch_deserialize_def Let_def)
  next
    case 3
    then have "drop ?need ?b = put_u16 ?crc @ []" "take ?need ?b = (latch_body l)[i := x]" "x \<noteq> latch_body l ! i"
      using body3 assms(4) by (simp_all add: b list_update_append nth_append)
    then have "get_u16 (drop ?need ?b) \<noteq> ultrawidelock_side_log_crc16 (take ?need ?b)"
      using crc16.single_byte_detected [of i "latch_body l" x] 3 body3 get_put_u16 [of ?crc "[]"]
      by (simp add: ultrawidelock_side_log_crc16_def)
    then show ?thesis using 3 nth un len by (simp add: ultrawidelock_latch_deserialize_def Let_def)
  next
    case 4
    then have "drop ?need ?b = (put_u16 ?crc)[i - ?need := x]" "take ?need ?b = latch_body l" "x \<noteq> put_u16 ?crc ! (i - ?need)"
      using body3 assms(4) by (simp_all add: b list_update_append nth_append)
    then have "get_u16 (drop ?need ?b) \<noteq> ultrawidelock_side_log_crc16 (take ?need ?b)"
      using get_u16_upd [of "put_u16 ?crc" "i - ?need" x] 4 get_put_u16 [of ?crc "[]"] by simp
    then show ?thesis using 4 nth un len by (simp add: ultrawidelock_latch_deserialize_def Let_def)
  qed
qed

section \<open>Reachable states, with reboots\<close>

inductive latch_reach :: "latch_cfg \<Rightarrow> latch \<Rightarrow> bool" for c where
  boot: "latch_reach c (ultrawidelock_latch_init (Some c))"
| event: "latch_reach c l \<Longrightarrow> latch_reach c (latch_step l e)"
| reboot: "latch_reach c l \<Longrightarrow> ultrawidelock_latch_serialize l cap = Some b \<Longrightarrow>
     latch_reach c (fst (ultrawidelock_latch_deserialize (Some c) b))"

definition flags_ok :: "latch \<Rightarrow> bool" where
  "flags_ok l \<longleftrightarrow> (\<forall>r\<in>set (la_rec l). lr_flags r AND 3 = lr_flags r)"

lemma flags_ok_step: "flags_ok l \<Longrightarrow> flags_ok (latch_step l e)"
  unfolding flags_ok_def
proof
  fix r
  assume f: "\<forall>r\<in>set (la_rec l). lr_flags r AND 3 = lr_flags r" and "r \<in> set (la_rec (latch_step l e))"
  then consider "r \<in> set (la_rec l)" | t x where "x \<in> set (la_rec l)" "r = rec_give_opportunity t x" | "lr_flags r AND 3 = lr_flags r"
    using latch_step_rec [of r l e] by (auto simp: rec_from_def)
  then show "lr_flags r AND 3 = lr_flags r"
    using f by cases (auto simp: rec_give_opportunity_def cfg_defs bit.conj_disj_distrib2)
qed

lemma latch_reach_inv: "latch_reach c l \<Longrightarrow> latch_wf l \<and> la_cfg l = c \<and> flags_ok l"
proof (induction rule: latch_reach.induct)
  case boot
  then show ?case by (simp add: latch_init_wf flags_ok_def) (simp add: ultrawidelock_latch_init_def latch_rec_zero_def)
next
  case (event l e)
  then show ?case by (simp add: latch_step_wf latch_step_cfg flags_ok_step)
next
  case (reboot l cap b)
  have "creds_unique (map rec_norm (filter rec_used (la_rec l)) @ replicate k latch_rec_zero)" for k
    using reboot.IH by (simp add: latch_wf_def creds_unique_def o_def)
  moreover have "lr_flags (rec_norm r) AND 3 = lr_flags (rec_norm r)" for r
    by (simp add: rec_norm_def bit.conj_disj_distrib2 and.assoc)
  ultimately show ?case
    using reboot latch_deserialize_serialize [of l cap b "Some c"] used_le_max [of l]
    by (auto simp: latch_wf_def flags_ok_def ultrawidelock_latch_init_def latch_rec_zero_def)
qed

lemma latch_reach_run: "latch_reach c l \<Longrightarrow> latch_reach c (foldl latch_step l es)"
  by (induction es arbitrary: l) (simp_all add: latch_reach.event)

definition lookup_rec :: "latch \<Rightarrow> u32 \<Rightarrow> latch_rec option" where
  "lookup_rec l cred = map_option ((!) (la_rec l)) (rec_find (la_rec l) cred)"

lemma lookup_find: "lookup_rec l cred = List.find (\<lambda>r. lr_cred_id r = cred) (filter rec_used (la_rec l))"
proof -
  have "map_option ((!) rs) (rec_find rs cred) = List.find (\<lambda>r. lr_cred_id r = cred) (filter rec_used rs)" for rs
    by (induction rs) (auto simp: option.map_comp o_def)
  then show ?thesis by (simp add: lookup_rec_def)
qed

section \<open>Properties\<close>

text \<open>C10: A door opening closes the latch for the one it opened for. In every reachable state, after
  a grant to a credential at time \<open>t\<close>, no sequence of sessions, windows, opportunities and
  further grants, none stamped before \<open>t\<close> or after the query time \<open>q\<close>, makes the latch permit a
  passive unlock of that credential while \<open>q\<close> is within the entry dwell.\<close>

theorem grant_closes_for_dwell:
  assumes "latch_reach cfg l" and "c \<noteq> LATCH_CRED_ANY" and "t \<le> q"
    and "q < t + uint (lc_entry_dwell_ms cfg)" and "\<forall>e\<in>set es. event_within t q e"
  shows "\<not> fst (ultrawidelock_latch_may_passive_unlock
    (Some (foldl latch_step (ultrawidelock_latch_note_grant l c t) es)) c q)"
proof -
  have inv: "latch_wf l" "la_cfg l = cfg" using latch_reach_inv [OF assms(1)] by simp_all
  have "stamped c t q (foldl latch_step (ultrawidelock_latch_note_grant l c t) es)"
    using stamped_run grant_stamped [OF inv(1) assms(2,3)] assms(5) by blast
  moreover have "la_cfg (foldl latch_step (ultrawidelock_latch_note_grant l c t) es) = cfg"
    using latch_step_cfg [of l "Grant c t"] inv(2) by (simp add: latch_run_cfg)
  ultimately show ?thesis
    using stamped_in_dwell assms(4) by (simp add: latch_gate_iff)
qed

theorem grant_closes_for_dwell_witness:
  "\<not> fst (ultrawidelock_latch_may_passive_unlock (Some (foldl latch_step
     (ultrawidelock_latch_note_grant (ultrawidelock_latch_init (Some ultrawidelock_latch_defaults)) 7 1000)
     [Session_Open 7, Window 7 L_OUTSIDE 4000 2000, Window 7 L_OUTSIDE 3500 4000, Window 7 L_OUTSIDE 3000 6000])) 7 7000)"
  by (rule grant_closes_for_dwell [OF latch_reach.boot])
    (simp_all add: ultrawidelock_latch_defaults_def event_within_def)



text \<open>The records survive a reboot. From every reachable state (earlier reboots included) whose
  times fit their 64 bits, the blob fits its announced size and restores a latch in which every
  credential has the record it had before, while no session is open and no clear progress
  remains.\<close>

theorem latch_blob_roundtrip:
  assumes "latch_reach cfg l" and "\<forall>r\<in>set (la_rec l). rec_times_ok r" and "LATCH_BLOB_LEN \<le> cap"
  shows "\<exists>b l'. ultrawidelock_latch_serialize l cap = Some b \<and> length b \<le> LATCH_BLOB_LEN \<and>
    ultrawidelock_latch_deserialize (Some cfg) b = (l', True) \<and> (\<forall>cred. lookup_rec l' cred = lookup_rec l cred) \<and>
    la_cfg l' = cfg \<and> \<not> la_active l' \<and> la_agree_n l' = 0"
proof -
  have inv: "latch_wf l" "flags_ok l" using latch_reach_inv [OF assms(1)] by simp_all
  obtain b where b: "ultrawidelock_latch_serialize l cap = Some b" "length b \<le> LATCH_BLOB_LEN"
    using assms(3) used_le_max [OF inv(1)] by (simp add: ultrawidelock_latch_serialize_def length_latch_body)
  let ?u = "filter rec_used (la_rec l)"
  have "map rec_norm ?u = ?u"
    using assms(2) inv(2) by (intro map_idI) (auto simp: flags_ok_def rec_norm_id)
  then show ?thesis
    using latch_deserialize_serialize [OF inv(1) b(1), of "Some cfg"] b
    by (simp add: lookup_find ultrawidelock_latch_init_def)
qed

theorem latch_blob_roundtrip_witness:
  "\<exists>b l'. ultrawidelock_latch_serialize (latch_step (ultrawidelock_latch_init (Some ultrawidelock_latch_defaults)) (Grant 7 1000)) 172 = Some b \<and>
     length b \<le> LATCH_BLOB_LEN \<and> ultrawidelock_latch_deserialize (Some ultrawidelock_latch_defaults) b = (l', True) \<and>
     (\<forall>cred. lookup_rec l' cred = lookup_rec (latch_step (ultrawidelock_latch_init (Some ultrawidelock_latch_defaults)) (Grant 7 1000)) cred) \<and>
     la_cfg l' = ultrawidelock_latch_defaults \<and> \<not> la_active l' \<and> la_agree_n l' = 0"
  by (rule latch_blob_roundtrip [OF latch_reach.event [OF latch_reach.boot]]; code_simp)

text \<open>A damaged blob is refused as a whole. Whatever single byte of a stored blob is changed, the
  restore reports failure and leaves the empty latch, in which no credential has a record, so
  that every passive unlock is refused until the door has been opened deliberately.\<close>

theorem latch_blob_corruption_fails_closed:
  assumes "latch_reach cfg l" and "ultrawidelock_latch_serialize l cap = Some b" and "i < length b" and "x \<noteq> b ! i"
  shows "ultrawidelock_latch_deserialize (Some cfg) (b[i := x]) = (ultrawidelock_latch_init (Some cfg), False) \<and>
    (\<forall>cred. lookup_rec (ultrawidelock_latch_init (Some cfg)) cred = None)"
  using latch_deserialize_corrupt [OF _ assms(2-4), of "Some cfg"] latch_reach_inv [OF assms(1)]
  by (simp add: lookup_find ultrawidelock_latch_init_def)

theorem latch_blob_corruption_fails_closed_witness:
  "\<exists>b. ultrawidelock_latch_serialize (ultrawidelock_latch_init (Some ultrawidelock_latch_defaults)) 172 = Some b \<and>
     ultrawidelock_latch_deserialize (Some ultrawidelock_latch_defaults) (b[1 := 8]) =
       (ultrawidelock_latch_init (Some ultrawidelock_latch_defaults), False)"
proof -
  have b: "ultrawidelock_latch_serialize (ultrawidelock_latch_init (Some ultrawidelock_latch_defaults)) 172 =
      Some [1, 0, 0x2E, 0x3E]"
    by code_simp
  show ?thesis
    using latch_blob_corruption_fails_closed [OF latch_reach.boot b, of 1 8] b by simp
qed

text \<open>What allocation evicts. A new record takes a free slot when there is one, and otherwise the
  slot of a record confirmed inside no later than any other; every other slot is unchanged.\<close>

theorem eviction_takes_the_stalest:
  assumes "latch_reach cfg l" and "rec_alloc l cred now = Some (l', v)"
  shows "v < LATCH_MAX_CREDS \<and> (\<forall>j. j \<noteq> v \<longrightarrow> la_rec l' ! j = la_rec l ! j) \<and>
    ((\<exists>r\<in>set (la_rec l). \<not> rec_used r) \<longrightarrow> \<not> rec_used (la_rec l ! v)) \<and>
    ((\<forall>r\<in>set (la_rec l). rec_used r) \<longrightarrow>
       (\<forall>r\<in>set (la_rec l). lr_confirmed_inside_ms (la_rec l ! v) \<le> lr_confirmed_inside_ms r))"
proof -
  have len: "length (la_rec l) = 8" using latch_reach_inv [OF assms(1)] by (simp add: latch_wf_def)
  have v: "rec_victim 0 None (la_rec l) = Some v" "la_rec l' = (la_rec l)[v := la_rec l' ! v]"
    using assms(2) rec_victim_less [of 0 None "la_rec l"] by (auto simp: rec_alloc_def split: option.splits)
  have "\<forall>j. j \<noteq> v \<longrightarrow> la_rec l' ! j = la_rec l ! j" using v(2) by (metis nth_list_update_neq)
  then show ?thesis
    using rec_victim_less [OF v(1)] rec_victim_free [OF v(1)] rec_victim_oldest [OF v(1)] len
    by (auto simp: oldest_from_def)
qed

theorem eviction_takes_the_stalest_witness:
  "let l = foldl latch_step (ultrawidelock_latch_init (Some ultrawidelock_latch_defaults))
      [Grant 1 50, Grant 2 20, Grant 3 30, Grant 4 40, Grant 5 60, Grant 6 70, Grant 7 80, Grant 8 90]
   in \<exists>l'. rec_alloc l 9 100 = Some (l', 1) \<and> 20 \<le> lr_confirmed_inside_ms (la_rec l ! 2)"
proof -
  let ?l = "foldl latch_step (ultrawidelock_latch_init (Some ultrawidelock_latch_defaults))
      [Grant 1 50, Grant 2 20, Grant 3 30, Grant 4 40, Grant 5 60, Grant 6 70, Grant 7 80, Grant 8 90]"
  have "latch_reach ultrawidelock_latch_defaults ?l" by (rule latch_reach_run [OF latch_reach.boot])
  moreover have "map_option snd (rec_alloc ?l 9 100) = Some 1" by code_simp
  then obtain l' where l': "rec_alloc ?l 9 100 = Some (l', 1)" by auto
  ultimately have "(\<forall>r\<in>set (la_rec ?l). rec_used r) \<longrightarrow>
       (\<forall>r\<in>set (la_rec ?l). lr_confirmed_inside_ms (la_rec ?l ! 1) \<le> lr_confirmed_inside_ms r)"
    using eviction_takes_the_stalest by blast
  moreover have "\<forall>r\<in>set (la_rec ?l). rec_used r" and "lr_confirmed_inside_ms (la_rec ?l ! 1) = 20"
    and "length (la_rec ?l) = 8"
    by code_simp+
  ultimately show ?thesis using l' nth_mem [of 2 "la_rec ?l"] unfolding Let_def by auto
qed

end
