(* ===== verification/Fusion.thy ===== *)
theory Fusion
  imports Prelude
begin

text \<open>
  Two-anchor side-of-door fusion (\<^verbatim>\<open>modules/ultrawidelock_anchor/src/ultrawidelock_fusion.c\<close>):
  the verdict over one pair of distances, and the two gates that read it. A missing verdict
  (a NULL pointer) means that there is no satellite.
\<close>

datatype fusion_side = FSIDE_UNKNOWN | FSIDE_INSIDE | FSIDE_OUTSIDE

record fusion_cfg =
  fc_baseline_mm :: int
  fc_tol_mm :: int
  fc_deadband_mm :: int
  fc_boundary_bias_mm :: int

record fusion_verdict =
  fv_side :: fusion_side
  fv_geometry_ok :: bool
  fv_delta_mm :: int

definition ultrawidelock_fusion_eval :: "fusion_cfg option \<Rightarrow> int \<Rightarrow> int \<Rightarrow> fusion_verdict" where
  "ultrawidelock_fusion_eval co d_inside d_outside =
     (let v0 = \<lparr>fv_side = FSIDE_UNKNOWN, fv_geometry_ok = False, fv_delta_mm = 0\<rparr>
      in case co of None \<Rightarrow> v0
         | Some c \<Rightarrow>
           if fc_baseline_mm c \<le> 0 \<or> d_inside < 0 \<or> d_outside < 0 then v0
           else let diff = d_inside - d_outside;
                    sum = d_inside + d_outside;
                    adiff = (if diff < 0 then - diff else diff);
                    v1 = v0\<lparr>fv_delta_mm := diff\<rparr>
                in if sum < fc_baseline_mm c - fc_tol_mm c then v1
                   else if adiff > fc_baseline_mm c + fc_tol_mm c then v1
                   else let v2 = v1\<lparr>fv_geometry_ok := True\<rparr>;
                            eff = diff + fc_boundary_bias_mm c;
                            aeff = (if eff < 0 then - eff else eff)
                        in if aeff \<le> fc_deadband_mm c then v2\<lparr>fv_side := FSIDE_UNKNOWN\<rparr>
                           else if eff < 0 then v2\<lparr>fv_side := FSIDE_INSIDE\<rparr>
                           else v2\<lparr>fv_side := FSIDE_OUTSIDE\<rparr>)"

definition ultrawidelock_fusion_may_predict :: "fusion_verdict option \<Rightarrow> bool" where
  "ultrawidelock_fusion_may_predict vo =
     (case vo of None \<Rightarrow> True
      | Some v \<Rightarrow> if \<not> fv_geometry_ok v then False else fv_side v \<noteq> FSIDE_OUTSIDE)"

definition ultrawidelock_fusion_may_passive_unlock :: "fusion_verdict option \<Rightarrow> bool" where
  "ultrawidelock_fusion_may_passive_unlock vo =
     (case vo of None \<Rightarrow> True
      | Some v \<Rightarrow> if \<not> fv_geometry_ok v then False else fv_side v \<noteq> FSIDE_INSIDE)"

section \<open>Properties\<close>

text \<open>Exchanging the two anchors exchanges the two sides, for a boundary on the bisector.\<close>

fun fside_swap :: "fusion_side \<Rightarrow> fusion_side" where
  "fside_swap FSIDE_INSIDE = FSIDE_OUTSIDE"
| "fside_swap FSIDE_OUTSIDE = FSIDE_INSIDE"
| "fside_swap FSIDE_UNKNOWN = FSIDE_UNKNOWN"

lemma fusion_eval_swap:
  "fc_boundary_bias_mm c = 0 \<Longrightarrow> 0 \<le> fc_deadband_mm c \<Longrightarrow>
   fv_side (ultrawidelock_fusion_eval (Some c) b a) = fside_swap (fv_side (ultrawidelock_fusion_eval (Some c) a b))"
  by (auto simp: ultrawidelock_fusion_eval_def Let_def)

text \<open>
  A pair of distances that some phone position produces: three points at pairwise distances
  \<open>baseline\<close>, \<open>a\<close>, \<open>b\<close> satisfy the triangle inequalities, and a measured pair differs from
  the true one by at most the error \<open>e\<close> on each link.
\<close>

definition realisable :: "int \<Rightarrow> int \<Rightarrow> int \<Rightarrow> int \<Rightarrow> bool" where
  "realisable base e a b \<longleftrightarrow>
     (\<exists>ta tb. base \<le> ta + tb \<and> ta \<le> tb + base \<and> tb \<le> ta + base \<and> \<bar>a - ta\<bar> \<le> e \<and> \<bar>b - tb\<bar> \<le> e)"

text \<open>The triangle gate has no false alarms within its tolerance. A pair of non-negative
  distances that a real phone position produces, each with an error of at most half the
  tolerance, always passes the geometry gate; and then the two gates never both refuse: the
  passive gate refuses exactly a phone that reads INSIDE, the predictive one exactly a phone
  that reads OUTSIDE.\<close>

theorem fusion_gate_complete:
  assumes "0 < fc_baseline_mm c" and "0 \<le> a" and "0 \<le> b" and "2 * e \<le> fc_tol_mm c"
    and "realisable (fc_baseline_mm c) e a b" and "v = ultrawidelock_fusion_eval (Some c) a b"
  shows "fv_geometry_ok v \<and> fv_delta_mm v = a - b \<and>
    (ultrawidelock_fusion_may_passive_unlock (Some v) \<longleftrightarrow> fv_side v \<noteq> FSIDE_INSIDE) \<and>
    (ultrawidelock_fusion_may_predict (Some v) \<longleftrightarrow> fv_side v \<noteq> FSIDE_OUTSIDE)"
proof -
  obtain ta tb where t: "fc_baseline_mm c \<le> ta + tb" "ta \<le> tb + fc_baseline_mm c"
      "tb \<le> ta + fc_baseline_mm c" "\<bar>a - ta\<bar> \<le> e" "\<bar>b - tb\<bar> \<le> e"
    using assms(5) by (auto simp: realisable_def)
  then have "\<not> a + b < fc_baseline_mm c - fc_tol_mm c"
    and "\<not> (if a - b < 0 then - (a - b) else a - b) > fc_baseline_mm c + fc_tol_mm c"
    using assms(4) by auto
  then show ?thesis
    using assms(1-3,6)
    by (simp add: ultrawidelock_fusion_eval_def Let_def ultrawidelock_fusion_may_passive_unlock_def
        ultrawidelock_fusion_may_predict_def)
qed

theorem fusion_gate_complete_witness:
  "fv_geometry_ok (ultrawidelock_fusion_eval (Some \<lparr>fc_baseline_mm = 3000, fc_tol_mm = 200,
      fc_deadband_mm = 150, fc_boundary_bias_mm = 0\<rparr>) 4050 1100)"
proof -
  let ?c = "\<lparr>fc_baseline_mm = 3000, fc_tol_mm = 200, fc_deadband_mm = 150, fc_boundary_bias_mm = 0\<rparr> :: fusion_cfg"
  have "realisable 3000 100 4050 1100"
    unfolding realisable_def by (rule exI [of _ 4000], rule exI [of _ 1150]) simp
  then show ?thesis
    using fusion_gate_complete [of ?c 4050 1100 100 "ultrawidelock_fusion_eval (Some ?c) 4050 1100"] by simp
qed

text \<open>What a verdict with a side means. When the evaluation names a side, the distances are
  physically possible to within the tolerance, and the named anchor is nearer by more than
  the dead band, measured from the configured boundary; an impossible pair never carries a
  side, and both gates refuse it.\<close>

theorem fusion_verdict_sound:
  assumes "v = ultrawidelock_fusion_eval (Some c) a b" and "0 \<le> fc_deadband_mm c"
  shows "(fv_side v = FSIDE_INSIDE \<longrightarrow> fv_geometry_ok v \<and> a + fc_deadband_mm c + fc_boundary_bias_mm c < b) \<and>
    (fv_side v = FSIDE_OUTSIDE \<longrightarrow> fv_geometry_ok v \<and> b + fc_deadband_mm c < a + fc_boundary_bias_mm c) \<and>
    (fv_geometry_ok v \<longrightarrow> fc_baseline_mm c - fc_tol_mm c \<le> a + b \<and> \<bar>a - b\<bar> \<le> fc_baseline_mm c + fc_tol_mm c) \<and>
    (\<not> fv_geometry_ok v \<longrightarrow> \<not> ultrawidelock_fusion_may_passive_unlock (Some v) \<and>
       \<not> ultrawidelock_fusion_may_predict (Some v))"
  unfolding assms(1) using assms(2)
  by (auto simp: ultrawidelock_fusion_eval_def Let_def ultrawidelock_fusion_may_passive_unlock_def
      ultrawidelock_fusion_may_predict_def split: if_splits)

theorem fusion_verdict_sound_witness:
  "fv_geometry_ok (ultrawidelock_fusion_eval (Some \<lparr>fc_baseline_mm = 3000, fc_tol_mm = 200,
      fc_deadband_mm = 150, fc_boundary_bias_mm = 0\<rparr>) 900 3500)"
  using fusion_verdict_sound [OF refl, of "\<lparr>fc_baseline_mm = 3000, fc_tol_mm = 200,
      fc_deadband_mm = 150, fc_boundary_bias_mm = 0\<rparr>" 900 3500]
  by (simp add: ultrawidelock_fusion_eval_def Let_def)

end
