(* ===== verification/Door.thy ===== *)
theory Door
  imports Prelude
begin

text \<open>
  Door swing angle and state machine (\<^verbatim>\<open>modules/ultrawidelock_anchor/src/ultrawidelock_door.c\<close>): the
  cosine table with its interpolated lookup and its inverse, the hinge geometry, and the
  hysteresis with dwell. Angles are in millidegrees.
\<close>

record door_cfg =
  dc_hinge_to_frame_mm :: int
  dc_hinge_to_leaf_mm :: int
  dc_offset_mddeg :: int

datatype door_state = DOOR_UNKNOWN | DOOR_CLOSED | DOOR_AJAR | DOOR_OPEN

record door_thresholds =
  dt_closed_enter_mddeg :: int
  dt_closed_leave_mddeg :: int
  dt_open_enter_mddeg :: int
  dt_open_leave_mddeg :: int
  dt_dwell :: u8

record door =
  do_cfg :: door_cfg
  do_th :: door_thresholds
  do_state :: door_state
  do_cand :: door_state
  do_cand_n :: u8
  do_last_mddeg :: int

abbreviation DOOR_ANGLE_INVALID :: int where "DOOR_ANGLE_INVALID \<equiv> - 2147483648"
abbreviation INT32_MAX :: int where "INT32_MAX \<equiv> 2147483647"
abbreviation Q15 :: int where "Q15 \<equiv> 32767"

section \<open>Fixed-point trigonometry\<close>

definition k_cos_q15 :: "int list" where
  "k_cos_q15 = [
    32767, 32762, 32747, 32722, 32687, 32642, 32587, 32523, 32448, 32364, 32269, 32165, 32051,
    31927, 31794, 31650, 31498, 31335, 31163, 30982, 30791, 30591, 30381, 30162, 29934, 29697,
    29451, 29196, 28932, 28659, 28377, 28087, 27788, 27481, 27165, 26841, 26509, 26169, 25821,
    25465, 25101, 24730, 24351, 23964, 23571, 23170, 22762, 22347, 21925, 21497, 21062, 20621,
    20173, 19720, 19260, 18794, 18323, 17846, 17364, 16876, 16384, 15886, 15383, 14876, 14364,
    13848, 13328, 12803, 12275, 11743, 11207, 10668, 10126, 9580, 9032, 8481, 7927, 7371, 6813,
    6252, 5690, 5126, 4560, 3993, 3425, 2856, 2286, 1715, 1144, 572, 0, - 572, - 1144, - 1715,
    - 2286, - 2856, - 3425, - 3993, - 4560, - 5126, - 5690, - 6252, - 6813, - 7371, - 7927, - 8481,
    - 9032, - 9580, - 10126, - 10668, - 11207, - 11743, - 12275, - 12803, - 13328, - 13848,
    - 14364, - 14876, - 15383, - 15886, - 16383, - 16876, - 17364, - 17846, - 18323, - 18794,
    - 19260, - 19720, - 20173, - 20621, - 21062, - 21497, - 21925, - 22347, - 22762, - 23170,
    - 23571, - 23964, - 24351, - 24730, - 25101, - 25465, - 25821, - 26169, - 26509, - 26841,
    - 27165, - 27481, - 27788, - 28087, - 28377, - 28659, - 28932, - 29196, - 29451, - 29697,
    - 29934, - 30162, - 30381, - 30591, - 30791, - 30982, - 31163, - 31335, - 31498, - 31650,
    - 31794, - 31927, - 32051, - 32165, - 32269, - 32364, - 32448, - 32523, - 32587, - 32642,
    - 32687, - 32722, - 32747, - 32762, - 32767]"

definition cos_q15 :: "int \<Rightarrow> int" where
  "cos_q15 mddeg0 =
     (let mddeg = (if mddeg0 < 0 then - mddeg0 else mddeg0)
      in if mddeg \<ge> 180000 then - Q15
         else let deg = cdiv mddeg 1000; frac = cmod mddeg 1000
              in k_cos_q15 ! nat deg + cdiv ((k_cos_q15 ! nat (deg + 1) - k_cos_q15 ! nat deg) * frac) 1000)"

definition sin_q15 :: "int \<Rightarrow> int" where
  "sin_q15 mddeg = cos_q15 (90000 - mddeg)"

text \<open>The binary search of \<^verbatim>\<open>acos_mddeg\<close>: the bracketing degree of the table.\<close>

function acos_search :: "int \<Rightarrow> nat \<Rightarrow> nat \<Rightarrow> nat \<times> nat" where
  "acos_search q lo hi =
     (if hi - lo > 1
      then let mid = (lo + hi) div 2
           in if k_cos_q15 ! mid > q then acos_search q mid hi else acos_search q lo mid
      else (lo, hi))"
  by pat_completeness auto
termination by (relation "measure (\<lambda>(q, lo, hi). hi - lo)") auto

declare acos_search.simps [simp del]

definition acos_mddeg :: "int \<Rightarrow> int" where
  "acos_mddeg q15 =
     (if q15 \<ge> Q15 then 0
      else if q15 \<le> - Q15 then 180000
      else let (lo, hi) = acos_search q15 0 180;
               span = k_cos_q15 ! lo - k_cos_q15 ! hi
           in if span \<le> 0 then int lo * 1000
              else int lo * 1000 + cdiv ((k_cos_q15 ! lo - q15) * 1000) span)"

section \<open>Geometry\<close>

definition ultrawidelock_door_defaults :: door_thresholds where
  [cfg_defs]: "ultrawidelock_door_defaults =
     \<lparr>dt_closed_enter_mddeg = 2000, dt_closed_leave_mddeg = 5000, dt_open_enter_mddeg = 35000,
      dt_open_leave_mddeg = 30000, dt_dwell = 3\<rparr>"

definition door_cfg_ok :: "door_cfg option \<Rightarrow> bool" where
  "door_cfg_ok co =
     (case co of None \<Rightarrow> False
      | Some c \<Rightarrow> dc_hinge_to_frame_mm c > 0 \<and> dc_hinge_to_leaf_mm c > 0 \<and>
                 dc_offset_mddeg c \<ge> 0 \<and> dc_offset_mddeg c < 180000)"

definition ultrawidelock_door_angle_mddeg :: "door_cfg \<Rightarrow> int \<Rightarrow> int" where
  "ultrawidelock_door_angle_mddeg c d_mm =
     (if \<not> door_cfg_ok (Some c) \<or> d_mm < 0 then DOOR_ANGLE_INVALID
      else let a = dc_hinge_to_frame_mm c; b = dc_hinge_to_leaf_mm c;
               num = (a * a + b * b - d_mm * d_mm) * Q15;
               den = 2 * a * b
           in if den = 0 then DOOR_ANGLE_INVALID
              else let ratio = to_i32 (cdiv num den)
                   in if ratio > Q15 + 1 \<or> ratio < - Q15 - 1 then DOOR_ANGLE_INVALID
                      else acos_mddeg ratio - dc_offset_mddeg c)"

text \<open>The Newton iteration of the integer square root, from the seed downwards.\<close>

function newton_isqrt :: "int \<Rightarrow> int \<Rightarrow> int" where
  "newton_isqrt d2 d =
     (if d > 0
      then let nxt = cdiv (d + cdiv d2 d) 2
           in if nxt \<ge> d then d else newton_isqrt d2 nxt
      else d)"
  by pat_completeness auto
termination by (relation "measure (\<lambda>(d2, d). nat d)") auto

declare newton_isqrt.simps [simp del]

definition ultrawidelock_door_resolution_mddeg :: "door_cfg \<Rightarrow> int \<Rightarrow> int \<Rightarrow> int" where
  "ultrawidelock_door_resolution_mddeg c at_mddeg jitter_mm =
     (if \<not> door_cfg_ok (Some c) \<or> jitter_mm \<le> 0 then INT32_MAX
      else let a = dc_hinge_to_frame_mm c; b = dc_hinge_to_leaf_mm c;
               phi = at_mddeg + dc_offset_mddeg c
           in if phi < 0 \<or> phi > 180000 then INT32_MAX
              else let d2 = a * a + b * b - cdiv (2 * a * b * cos_q15 phi) Q15
                   in if d2 \<le> 0 then INT32_MAX
                      else let d = newton_isqrt d2 (a + b)
                           in if d = 0 then INT32_MAX
                              else let s = sin_q15 phi
                                   in if s \<le> 0 then INT32_MAX
                                      else let sens = cdiv (cdiv (a * b * s) Q15) d
                                           in if sens \<le> 0 then INT32_MAX
                                              else to_i32 (cdiv (jitter_mm * 57296) sens))"

section \<open>The state machine\<close>

definition ultrawidelock_door_init :: "door_cfg option \<Rightarrow> door_thresholds option \<Rightarrow> door option" where
  "ultrawidelock_door_init co tho =
     (case co of
        Some c \<Rightarrow>
          if door_cfg_ok (Some c)
          then let th = (case tho of Some t \<Rightarrow> t | None \<Rightarrow> ultrawidelock_door_defaults)
               in Some \<lparr>do_cfg = c, do_th = (if dt_dwell th = 0 then th\<lparr>dt_dwell := 1\<rparr> else th),
                        do_state = DOOR_UNKNOWN, do_cand = DOOR_UNKNOWN, do_cand_n = 0,
                        do_last_mddeg = DOOR_ANGLE_INVALID\<rparr>
          else None
      | None \<Rightarrow> None)"

definition door_classify :: "door \<Rightarrow> int \<Rightarrow> door_state" where
  "door_classify d mddeg =
     (if do_state d = DOOR_CLOSED \<and> mddeg \<le> dt_closed_leave_mddeg (do_th d) then DOOR_CLOSED
      else if do_state d = DOOR_OPEN \<and> mddeg \<ge> dt_open_leave_mddeg (do_th d) then DOOR_OPEN
      else if mddeg \<le> dt_closed_enter_mddeg (do_th d) then DOOR_CLOSED
      else if mddeg \<ge> dt_open_enter_mddeg (do_th d) then DOOR_OPEN
      else DOOR_AJAR)"

definition ultrawidelock_door_feed :: "door \<Rightarrow> int \<Rightarrow> door \<times> door_state" where
  "ultrawidelock_door_feed d0 d_mm =
     (let mddeg = ultrawidelock_door_angle_mddeg (do_cfg d0) d_mm;
          d = d0\<lparr>do_last_mddeg := mddeg\<rparr>
      in if mddeg = DOOR_ANGLE_INVALID
         then (d\<lparr>do_cand := DOOR_UNKNOWN, do_cand_n := 0\<rparr>, do_state d)
         else let want = door_classify d mddeg
              in if want = do_state d
                 then (d\<lparr>do_cand := DOOR_UNKNOWN, do_cand_n := 0\<rparr>, do_state d)
                 else let d1 = (if want = do_cand d then d\<lparr>do_cand_n := do_cand_n d + 1\<rparr>
                                else d\<lparr>do_cand := want, do_cand_n := 1\<rparr>)
                      in if do_cand_n d1 \<ge> dt_dwell (do_th d1)
                         then (d1\<lparr>do_state := want, do_cand := DOOR_UNKNOWN, do_cand_n := 0\<rparr>, want)
                         else (d1, do_state d1))"

end
