(* ===== verification/Door_Proofs.thy ===== *)
theory Door_Proofs
  imports Door
begin

text \<open>
  Accuracy of the table trigonometry and of the integer square root, and what the door state
  machine needs to change its mind.
\<close>

section \<open>The table\<close>

definition table_steps_ok :: "int list \<Rightarrow> bool" where
  "table_steps_ok xs = list_all (\<lambda>(x, y). y < x \<and> x - y < 1000) (zip xs (tl xs))"

lemma k_cos_facts: "table_steps_ok k_cos_q15" "length k_cos_q15 = 181" "k_cos_q15 ! 0 = Q15" "k_cos_q15 ! 180 = - Q15"
  by code_simp+

lemma k_cos_step:
  assumes "i < 180"
  shows "k_cos_q15 ! Suc i < k_cos_q15 ! i" and "k_cos_q15 ! i - k_cos_q15 ! Suc i < 1000"
proof -
  have "(k_cos_q15 ! i, tl k_cos_q15 ! i) \<in> set (zip k_cos_q15 (tl k_cos_q15))"
    using assms k_cos_facts(2) by (force simp: in_set_zip)
  then show "k_cos_q15 ! Suc i < k_cos_q15 ! i" and "k_cos_q15 ! i - k_cos_q15 ! Suc i < 1000"
    using k_cos_facts(1,2) assms by (auto simp: table_steps_ok_def list_all_iff nth_tl)
qed

lemma acos_search_brackets:
  assumes "lo < hi" and "q < k_cos_q15 ! lo" and "k_cos_q15 ! hi \<le> q" and "hi \<le> 180"
  shows "\<exists>i. acos_search q lo hi = (i, Suc i) \<and> i < 180 \<and> q < k_cos_q15 ! i \<and> k_cos_q15 ! Suc i \<le> q"
  using assms
proof (induction q lo hi rule: acos_search.induct)
  case (1 q lo hi)
  let ?m = "(lo + hi) div 2"
  show ?case
  proof (cases "hi - lo > 1")
    case True
    then have "lo < ?m" "?m < hi" by auto
    then show ?thesis
      using 1 True acos_search.simps [of q lo hi] by (auto simp: Let_def not_less)
  next
    case False
    then have "hi = Suc lo" using 1(3) by simp
    then show ?thesis using 1(3-6) acos_search.simps [of q lo hi] by simp
  qed
qed

lemma acos_mddeg_bracket:
  assumes "- Q15 < q" and "q < Q15"
  obtains i where "i < 180" "q < k_cos_q15 ! i" "k_cos_q15 ! Suc i \<le> q"
    "acos_mddeg q = int i * 1000 + (k_cos_q15 ! i - q) * 1000 div (k_cos_q15 ! i - k_cos_q15 ! Suc i)"
proof -
  obtain i where i: "acos_search q 0 180 = (i, Suc i)" "i < 180" "q < k_cos_q15 ! i" "k_cos_q15 ! Suc i \<le> q"
    using acos_search_brackets [of 0 180 q] assms k_cos_facts(3,4) by auto
  then show ?thesis
    using that [of i] assms k_cos_step(1) [of i] by (simp add: acos_mddeg_def)
qed

lemma cos_q15_pos:
  "0 \<le> m \<Longrightarrow> m < 180000 \<Longrightarrow> cos_q15 m = k_cos_q15 ! nat (m div 1000) +
     cdiv ((k_cos_q15 ! nat (m div 1000 + 1) - k_cos_q15 ! nat (m div 1000)) * (m mod 1000)) 1000"
  by (simp add: cos_q15_def Let_def)

lemma cos_q15_interpolates:
  assumes "i < 180" and "0 \<le> f" and "f < 1000"
  shows "cos_q15 (int i * 1000 + f) = k_cos_q15 ! i - (k_cos_q15 ! i - k_cos_q15 ! Suc i) * f div 1000"
proof -
  let ?m = "int i * 1000 + f" and ?s = "k_cos_q15 ! i - k_cos_q15 ! Suc i"
  have m: "0 \<le> ?m" "?m < 180000" "?m div 1000 = int i" "?m mod 1000 = f" using assms by auto
  have s: "0 < ?s" using k_cos_step(1) [OF assms(1)] by simp
  have "cdiv ((k_cos_q15 ! Suc i - k_cos_q15 ! i) * f) 1000 = - (?s * f div 1000)"
  proof (cases "f = 0")
    case False
    then have "0 < ?s * f" using s assms(2) by (simp add: zero_less_mult_iff)
    moreover have "(k_cos_q15 ! Suc i - k_cos_q15 ! i) * f = - (?s * f)" by (simp add: algebra_simps)
    ultimately show ?thesis by (simp add: cdiv_def)
  qed (simp add: cdiv_def)
  moreover have "nat (int i) = i" "nat (int i + 1) = Suc i" by simp_all
  ultimately show ?thesis unfolding cos_q15_pos [OF m(1,2)] m(3,4) by simp
qed

text \<open>The arithmetic of the interpolation: a table step below 1000 loses at most one count.\<close>

lemma interpolation_loss:
  fixes s x :: int
  assumes "0 < s" and "s < 1000" and "0 < x" and "x < s"
  shows "0 \<le> x * 1000 div s" and "x * 1000 div s < 1000"
    and "s * (x * 1000 div s) div 1000 \<le> x" and "x - 1 \<le> s * (x * 1000 div s) div 1000"
proof -
  let ?f = "x * 1000 div s"
  have f: "s * ?f \<le> x * 1000" "x * 1000 < s * ?f + s"
    using assms(1) mult_div_mod_eq [of s "x * 1000"] pos_mod_bound [of s "x * 1000"] pos_mod_sign [of s "x * 1000"]
    by linarith+
  show "0 \<le> ?f" using assms by (simp add: pos_imp_zdiv_nonneg_iff)
  have "s * ?f < s * 1000" using f(1) assms(4) by linarith
  then show "?f < 1000" using assms(1) by simp
  show "s * ?f div 1000 \<le> x" using f(1) zdiv_mono1 [of "s * ?f" "x * 1000" 1000] by simp
  show "x - 1 \<le> s * ?f div 1000"
    using f(2) assms(2) zdiv_mono1 [of "(x - 1) * 1000" "s * ?f" 1000] by simp
qed

text \<open>The table arc cosine inverts the table cosine. For every cosine strictly between -1 and 1 in
  Q15 the angle lies between 0 and 180 degrees, and the interpolated cosine of that angle is
  the given value or one count above it.\<close>

theorem cos_of_acos:
  assumes "- Q15 < q" and "q < Q15"
  shows "0 \<le> acos_mddeg q \<and> acos_mddeg q \<le> 180000 \<and>
    q \<le> cos_q15 (acos_mddeg q) \<and> cos_q15 (acos_mddeg q) \<le> q + 1"
proof -
  obtain i where i: "i < 180" "q < k_cos_q15 ! i" "k_cos_q15 ! Suc i \<le> q"
      "acos_mddeg q = int i * 1000 + (k_cos_q15 ! i - q) * 1000 div (k_cos_q15 ! i - k_cos_q15 ! Suc i)"
    using acos_mddeg_bracket [OF assms] by metis
  let ?s = "k_cos_q15 ! i - k_cos_q15 ! Suc i" and ?x = "k_cos_q15 ! i - q"
  show ?thesis
  proof (cases "?x = ?s")
    case True
    have "?s * 1000 div ?s = 1000" using k_cos_step(1) [OF i(1)] by (intro nonzero_mult_div_cancel_left) simp
    then have a: "acos_mddeg q = int (Suc i) * 1000 + 0" using i(4) unfolding True by simp
    have "cos_q15 (int (Suc i) * 1000 + 0) = k_cos_q15 ! Suc i"
    proof (cases "Suc i = 180")
      case False
      then show ?thesis using cos_q15_interpolates [of "Suc i" 0] i(1) by simp
    qed (use k_cos_facts(4) in \<open>simp add: cos_q15_def\<close>)
    then have "cos_q15 (acos_mddeg q) = k_cos_q15 ! Suc i" unfolding a .
    then show ?thesis using a i(1) True by simp
  next
    case False
    then have x: "0 < ?x" "?x < ?s" using i(2,3) by auto
    note l = interpolation_loss [of ?s ?x, OF _ k_cos_step(2) [OF i(1)] x]
    have s: "0 < ?s" using k_cos_step(1) [OF i(1)] by simp
    have "cos_q15 (acos_mddeg q) = k_cos_q15 ! i - ?s * (?x * 1000 div ?s) div 1000"
      unfolding i(4) by (rule cos_q15_interpolates [OF i(1) l(1,2)]) (use s in auto)
    then show ?thesis using l s i(1,4) by auto
  qed
qed

theorem cos_of_acos_witness: "cos_q15 (acos_mddeg 12345) \<in> {12345, 12346}"
  using cos_of_acos [of 12345] by auto

section \<open>The integer square root\<close>

lemma newton_bound:
  fixes n d s :: int
  assumes "0 < d" and "0 \<le> n" and "s * s \<le> n"
  shows "s \<le> (d + n div d) div 2"
proof -
  have "0 \<le> (d - s) * (d - s)" by simp
  then have "(2 * s - d) * d \<le> n" using assms(3) by (simp add: algebra_simps)
  then have "2 * s - d \<le> n div d" using assms(1) zdiv_mono1 [of "(2 * s - d) * d" n d] by simp
  then show ?thesis by linarith
qed

text \<open>\<open>upper n d\<close>: no integer above \<open>d\<close> has its square below \<open>n\<close>.\<close>

definition sqrt_upper :: "int \<Rightarrow> int \<Rightarrow> bool" where
  "sqrt_upper n d \<longleftrightarrow> (\<forall>s. s * s \<le> n \<longrightarrow> s \<le> d)"

lemma newton_isqrt_spec:
  "0 < n \<Longrightarrow> 0 < d \<Longrightarrow> sqrt_upper n d \<Longrightarrow>
   0 < newton_isqrt n d \<and> newton_isqrt n d * newton_isqrt n d \<le> n \<and> sqrt_upper n (newton_isqrt n d)"
proof (induction n d rule: newton_isqrt.induct)
  case (1 n d)
  let ?x = "(d + n div d) div 2"
  have c: "cdiv (d + cdiv n d) 2 = ?x" using 1(2,3) by (simp add: pos_imp_zdiv_nonneg_iff)
  have ub: "sqrt_upper n ?x" using newton_bound 1(2,3) by (simp add: sqrt_upper_def)
  then have "1 \<le> ?x" using 1(2) by (simp add: sqrt_upper_def)
  show ?case
  proof (cases "?x \<ge> d")
    case True
    then have "d \<le> n div d" by linarith
    then have "d * d \<le> n div d * d" using 1(3) by (intro mult_right_mono) auto
    also have "\<dots> \<le> n" using 1(3) div_mult_mod_eq [of n d] pos_mod_sign [of d n] by linarith
    finally show ?thesis using 1 True c by (simp add: newton_isqrt.simps [of n d] Let_def)
  next
    case False
    then show ?thesis
      using 1 c ub \<open>1 \<le> ?x\<close> by (simp add: newton_isqrt.simps [of n d] Let_def)
  qed
qed

text \<open>The square root of the angular-resolution estimate is exact. Started from any positive seed
  whose square is at least \<open>n\<close>, the Newton iteration ends with the integer part of the square
  root of \<open>n\<close>.\<close>

theorem newton_isqrt_exact:
  assumes "0 < n" and "0 < d" and "n \<le> d * d" and "r = newton_isqrt n d"
  shows "0 < r \<and> r * r \<le> n \<and> n < (r + 1) * (r + 1)"
proof -
  have "\<not> d < s" if "s * s \<le> n" for s
    using that assms(2,3) mult_strict_mono [of d s d s] by auto
  then have "sqrt_upper n d" by (auto simp: sqrt_upper_def not_less)
  then have s: "0 < r" "r * r \<le> n" "sqrt_upper n r" using newton_isqrt_spec assms by auto
  then have "\<not> (r + 1) * (r + 1) \<le> n" unfolding sqrt_upper_def by (metis zless_add1_eq linorder_not_le order_refl)
  then show ?thesis using s by simp
qed

theorem newton_isqrt_exact_witness: "newton_isqrt 1234567 2000 * newton_isqrt 1234567 2000 \<le> 1234567"
  using newton_isqrt_exact [of 1234567 2000] by simp

section \<open>The state machine\<close>

text \<open>The state one reading argues for; None for a reading the geometry cannot explain.\<close>

definition door_obs :: "door \<Rightarrow> int \<Rightarrow> door_state option" where
  "door_obs d x =
     (if ultrawidelock_door_angle_mddeg (do_cfg d) x = DOOR_ANGLE_INVALID then None
      else Some (door_classify d (ultrawidelock_door_angle_mddeg (do_cfg d) x)))"

lemma door_classify_last [simp]: "door_classify (d\<lparr>do_last_mddeg := m\<rparr>) a = door_classify d a"
  by (simp add: door_classify_def)

lemma door_classify_known [simp]: "door_classify d a \<noteq> DOOR_UNKNOWN"
  by (simp add: door_classify_def)

text \<open>The whole feed by what the reading argues for.\<close>

lemma door_feed_cases:
  "fst (ultrawidelock_door_feed d x) =
     (let d1 = d\<lparr>do_last_mddeg := ultrawidelock_door_angle_mddeg (do_cfg d) x\<rparr>
      in case door_obs d x of
           None \<Rightarrow> d1\<lparr>do_cand := DOOR_UNKNOWN, do_cand_n := 0\<rparr>
         | Some w \<Rightarrow>
             if w = do_state d then d1\<lparr>do_cand := DOOR_UNKNOWN, do_cand_n := 0\<rparr>
             else let n = (if w = do_cand d then do_cand_n d + 1 else 1)
                  in if dt_dwell (do_th d) \<le> n then d1\<lparr>do_state := w, do_cand := DOOR_UNKNOWN, do_cand_n := 0\<rparr>
                     else d1\<lparr>do_cand := w, do_cand_n := n\<rparr>)"
  by (auto simp: ultrawidelock_door_feed_def door_obs_def Let_def)

definition door_streak :: "door_state \<Rightarrow> door_state option list \<Rightarrow> nat" where
  "door_streak w h = length (takeWhile (\<lambda>x. x = Some w) h)"

definition door_step :: "door \<times> door_state option list \<Rightarrow> int \<Rightarrow> (door \<times> door_state option list) \<times> door_state" where
  "door_step s x =
     ((fst (ultrawidelock_door_feed (fst s) x), door_obs (fst s) x # snd s), snd (ultrawidelock_door_feed (fst s) x))"

definition door_inv :: "door \<times> door_state option list \<Rightarrow> bool" where
  "door_inv s \<longleftrightarrow>
     do_cand_n (fst s) < dt_dwell (do_th (fst s)) \<and>
     (do_cand (fst s) = DOOR_UNKNOWN \<longrightarrow> do_cand_n (fst s) = 0) \<and>
     (do_cand (fst s) \<noteq> DOOR_UNKNOWN \<longrightarrow> unat (do_cand_n (fst s)) \<le> door_streak (do_cand (fst s)) (snd s))"

lemma door_inv_step: "door_inv s \<Longrightarrow> door_inv (fst (door_step s x))"
proof -
  assume inv: "door_inv s"
  then have n: "0 < dt_dwell (do_th (fst s))" "unat (do_cand_n (fst s) + 1) = Suc (unat (do_cand_n (fst s)))"
    using unat_Suc_if_less [of "do_cand_n (fst s)"] by (auto simp: door_inv_def word_greater_zero_iff)
  show ?thesis
  proof (cases "door_obs (fst s) x")
    case None
    then show ?thesis using inv n by (simp add: door_inv_def door_step_def door_feed_cases)
  next
    case (Some w)
    then have "w \<noteq> DOOR_UNKNOWN" by (auto simp: door_obs_def split: if_splits)
    then show ?thesis
      using inv n Some
      by (auto simp: door_inv_def door_step_def door_feed_cases Let_def door_streak_def not_le)
  qed
qed

interpretation door: stepper door_step door_inv
  by unfold_locales (rule door_inv_step)

lemma door_change_streak:
  assumes "door_inv s" and "do_state (fst (fst (door_step s x))) \<noteq> do_state (fst s)"
    and "w = do_state (fst (fst (door_step s x)))"
  shows "unat (dt_dwell (do_th (fst s))) \<le> door_streak w (snd (fst (door_step s x))) \<and>
    ultrawidelock_door_angle_mddeg (do_cfg (fst s)) x \<noteq> DOOR_ANGLE_INVALID \<and>
    w = door_classify (fst s) (ultrawidelock_door_angle_mddeg (do_cfg (fst s)) x)"
proof -
  obtain v where v: "door_obs (fst s) x = Some v" "v \<noteq> do_state (fst s)" "w = v"
      "dt_dwell (do_th (fst s)) \<le> (if v = do_cand (fst s) then do_cand_n (fst s) + 1 else 1)"
    using assms(2,3) by (auto simp: door_step_def door_feed_cases Let_def split: option.splits if_splits)
  have "v \<noteq> DOOR_UNKNOWN" using v(1) by (auto simp: door_obs_def split: if_splits)
  moreover have "unat (do_cand_n (fst s) + 1) = Suc (unat (do_cand_n (fst s)))"
    using assms(1) unat_Suc_if_less by (auto simp: door_inv_def)
  ultimately show ?thesis
    using v assms(1)
    by (auto simp: door_step_def door_streak_def door_inv_def word_le_nat_alt door_obs_def split: if_splits)
qed

lemma door_init_inv: "ultrawidelock_door_init co tho = Some d \<Longrightarrow> door_inv (d, [])"
  by (auto simp: ultrawidelock_door_init_def door_inv_def Let_def word_greater_zero_iff split: option.splits if_splits)

lemma door_classify_hysteresis:
  assumes "door_classify d a = w" and "w \<noteq> do_state d"
  shows "(do_state d = DOOR_CLOSED \<longrightarrow> dt_closed_leave_mddeg (do_th d) < a) \<and>
    (do_state d = DOOR_OPEN \<longrightarrow> a < dt_open_leave_mddeg (do_th d)) \<and>
    (w = DOOR_CLOSED \<longrightarrow> a \<le> dt_closed_enter_mddeg (do_th d)) \<and>
    (w = DOOR_OPEN \<longrightarrow> dt_open_enter_mddeg (do_th d) \<le> a)"
  using assms by (auto simp: door_classify_def split: if_splits)

text \<open>What it takes to change the door state. In every run from a successful initialisation, the
  reported state changes only at a reading with a valid angle, after at least \<open>dwell\<close>
  consecutive readings that all argued for the new state, and only past the hysteresis band:
  CLOSED is left above its leave angle and entered at or below its enter angle, OPEN is left
  below its leave angle and entered at or above its enter angle.\<close>

theorem door_changes_after_dwell:
  assumes "ultrawidelock_door_init (Some c) tho = Some d0" and "s = fst (run_steps door_step (d0, []) xs)"
    and "s' = fst (door_step s x)" and "do_state (fst s') \<noteq> do_state (fst s)"
    and "a = ultrawidelock_door_angle_mddeg (do_cfg (fst s)) x" and "th = do_th (fst s)"
  shows "a \<noteq> DOOR_ANGLE_INVALID \<and> unat (dt_dwell th) \<le> door_streak (do_state (fst s')) (snd s') \<and>
    (do_state (fst s) = DOOR_CLOSED \<longrightarrow> dt_closed_leave_mddeg th < a) \<and>
    (do_state (fst s) = DOOR_OPEN \<longrightarrow> a < dt_open_leave_mddeg th) \<and>
    (do_state (fst s') = DOOR_CLOSED \<longrightarrow> a \<le> dt_closed_enter_mddeg th) \<and>
    (do_state (fst s') = DOOR_OPEN \<longrightarrow> dt_open_enter_mddeg th \<le> a)"
proof -
  have "door_inv s" unfolding assms(2) by (rule door.invar_run [OF door_init_inv [OF assms(1)]])
  from door_change_streak [OF this, of x "do_state (fst s')"] assms(3-6)
  have "unat (dt_dwell th) \<le> door_streak (do_state (fst s')) (snd s')" "a \<noteq> DOOR_ANGLE_INVALID"
    "door_classify (fst s) a = do_state (fst s')"
    by auto
  then show ?thesis using door_classify_hysteresis [of "fst s" a] assms(4,6) by auto
qed

definition wit_door_cfg :: door_cfg where
  "wit_door_cfg = \<lparr>dc_hinge_to_frame_mm = 800, dc_hinge_to_leaf_mm = 800, dc_offset_mddeg = 10000\<rparr>"

theorem door_changes_after_dwell_witness:
  "let d0 = the (ultrawidelock_door_init (Some wit_door_cfg) None);
       s = fst (run_steps door_step (d0, []) [140, 141]); s' = fst (door_step s 142)
   in do_state (fst s') = DOOR_CLOSED \<and> 3 \<le> door_streak DOOR_CLOSED (snd s')"
proof -
  let ?d0 = "the (ultrawidelock_door_init (Some wit_door_cfg) None)"
  let ?s = "fst (run_steps door_step (?d0, []) [140, 141])" and ?s' = "fst (door_step (fst (run_steps door_step (?d0, []) [140, 141])) 142)"
  have i: "ultrawidelock_door_init (Some wit_door_cfg) None = Some ?d0"
    by (simp add: ultrawidelock_door_init_def wit_door_cfg_def door_cfg_ok_def Let_def)
  have "do_state (fst ?s') = DOOR_CLOSED" and "do_state (fst ?s) = DOOR_UNKNOWN" and "dt_dwell (do_th (fst ?s)) = 3"
    by code_simp+
  then show ?thesis
    using door_changes_after_dwell [OF i refl refl _ refl refl, of "[140, 141]" 142] unfolding Let_def by simp
qed

section \<open>Impossible distances\<close>

text \<open>The law-of-cosines numerator, and its bound for distances a hinge can produce.\<close>

definition hinge_num :: "door_cfg \<Rightarrow> int \<Rightarrow> int" where
  "hinge_num c d = dc_hinge_to_frame_mm c * dc_hinge_to_frame_mm c + dc_hinge_to_leaf_mm c * dc_hinge_to_leaf_mm c - d * d"

definition hinge_den :: "door_cfg \<Rightarrow> int" where
  "hinge_den c = 2 * dc_hinge_to_frame_mm c * dc_hinge_to_leaf_mm c"

lemma hinge_den_pos: "door_cfg_ok (Some c) \<Longrightarrow> 0 < hinge_den c"
  by (simp add: door_cfg_ok_def hinge_den_def)

lemma hinge_num_possible:
  assumes "0 \<le> d" and "\<bar>dc_hinge_to_frame_mm c - dc_hinge_to_leaf_mm c\<bar> \<le> d"
    and "d \<le> dc_hinge_to_frame_mm c + dc_hinge_to_leaf_mm c"
  shows "\<bar>hinge_num c d\<bar> \<le> hinge_den c"
proof -
  let ?a = "dc_hinge_to_frame_mm c" and ?b = "dc_hinge_to_leaf_mm c"
  have "(?a - ?b) * (?a - ?b) \<le> d * d"
    using mult_mono [OF assms(2) assms(2)] assms(1) by (simp flip: abs_mult)
  moreover have "d * d \<le> (?a + ?b) * (?a + ?b)"
    using mult_mono [OF assms(3) assms(3)] assms(1,3) by simp
  ultimately show ?thesis by (simp add: hinge_num_def hinge_den_def algebra_simps abs_le_iff)
qed

lemma door_angle_unfold:
  assumes "door_cfg_ok (Some c)" and "0 \<le> d" and "\<bar>hinge_num c d\<bar> * Q15 < 2147483648 * hinge_den c"
    and "r = cdiv (hinge_num c d * Q15) (hinge_den c)"
  shows "ultrawidelock_door_angle_mddeg c d =
    (if \<bar>r\<bar> > Q15 + 1 then DOOR_ANGLE_INVALID else acos_mddeg r - dc_offset_mddeg c)"
proof -
  have D: "0 < hinge_den c" using assms(1) by (rule hinge_den_pos)
  let ?n = "\<bar>hinge_num c d * Q15\<bar>"
  have "?n div hinge_den c * hinge_den c \<le> ?n"
    using div_mult_mod_eq [of ?n "hinge_den c"] pos_mod_sign [OF D, of ?n] by linarith
  also have "\<dots> < 2147483648 * hinge_den c" using assms(3) by (simp add: abs_mult)
  finally have "?n div hinge_den c < 2147483648" using D mult_less_cancel_right_pos by blast
  then have "\<bar>r\<bar> < 2147483648" unfolding assms(4) abs_cdiv [OF D] .
  then have "to_i32 r = r" by (intro to_i32_id) auto
  then show ?thesis
    using assms(1,2) D unfolding assms(4)
    by (auto simp: ultrawidelock_door_angle_mddeg_def Let_def hinge_num_def hinge_den_def)
qed

lemma acos_mddeg_range: "0 \<le> acos_mddeg q"
proof (cases "- Q15 < q \<and> q < Q15")
  case True
  then obtain i where "i < 180" "q < k_cos_q15 ! i" "k_cos_q15 ! Suc i \<le> q"
    "acos_mddeg q = int i * 1000 + (k_cos_q15 ! i - q) * 1000 div (k_cos_q15 ! i - k_cos_q15 ! Suc i)"
    using acos_mddeg_bracket by metis
  then show ?thesis by (simp add: pos_imp_zdiv_nonneg_iff)
qed (auto simp: acos_mddeg_def)

text \<open>The plausibility gate of the hinge geometry, for distances whose law-of-cosines ratio fits 32
  bits: every distance a hinge can produce, from the difference to the sum of the two arms,
  gives a valid angle, and every distance more than two Q15 counts outside that range is
  rejected as a measurement fault.\<close>

theorem door_angle_gate:
  assumes "door_cfg_ok (Some c)" and "0 \<le> d" and "\<bar>hinge_num c d\<bar> * Q15 < 2147483648 * hinge_den c"
  shows "(\<bar>dc_hinge_to_frame_mm c - dc_hinge_to_leaf_mm c\<bar> \<le> d \<and> d \<le> dc_hinge_to_frame_mm c + dc_hinge_to_leaf_mm c \<longrightarrow>
      ultrawidelock_door_angle_mddeg c d = acos_mddeg (cdiv (hinge_num c d * Q15) (hinge_den c)) - dc_offset_mddeg c \<and>
      ultrawidelock_door_angle_mddeg c d \<noteq> DOOR_ANGLE_INVALID) \<and>
    ((Q15 + 2) * hinge_den c \<le> \<bar>hinge_num c d\<bar> * Q15 \<longrightarrow> ultrawidelock_door_angle_mddeg c d = DOOR_ANGLE_INVALID)"
proof -
  let ?r = "cdiv (hinge_num c d * Q15) (hinge_den c)"
  have D: "0 < hinge_den c" using assms(1) by (rule hinge_den_pos)
  note u = door_angle_unfold [OF assms refl]
  have "\<bar>?r\<bar> \<le> Q15"
    if "\<bar>dc_hinge_to_frame_mm c - dc_hinge_to_leaf_mm c\<bar> \<le> d \<and> d \<le> dc_hinge_to_frame_mm c + dc_hinge_to_leaf_mm c"
    using abs_cdiv_le [OF D, of "hinge_num c d * Q15" Q15] hinge_num_possible [OF assms(2)] that by (simp add: abs_mult)
  moreover have "Q15 + 2 \<le> \<bar>?r\<bar>" if "(Q15 + 2) * hinge_den c \<le> \<bar>hinge_num c d\<bar> * Q15"
    using abs_cdiv_ge [OF D, of "Q15 + 2" "hinge_num c d * Q15"] that by (simp add: abs_mult)
  moreover have "acos_mddeg ?r - dc_offset_mddeg c \<noteq> DOOR_ANGLE_INVALID"
    using acos_mddeg_range [of ?r] assms(1) by (simp add: door_cfg_ok_def)
  ultimately show ?thesis using u by auto
qed

theorem door_angle_gate_witness:
  "ultrawidelock_door_angle_mddeg wit_door_cfg 900 \<noteq> DOOR_ANGLE_INVALID \<and>
   ultrawidelock_door_angle_mddeg wit_door_cfg 1700 = DOOR_ANGLE_INVALID"
  using door_angle_gate [of wit_door_cfg 900] door_angle_gate [of wit_door_cfg 1700]
  by (simp add: wit_door_cfg_def door_cfg_ok_def hinge_num_def hinge_den_def)

text \<open>Without that bound the 32-bit truncation of the ratio defeats the gate: with both anchors a
  metre from the hinge, a reported distance of 512.01 metres is accepted as a door angle.\<close>

theorem door_angle_truncation:
  "ultrawidelock_door_angle_mddeg \<lparr>dc_hinge_to_frame_mm = 1000, dc_hinge_to_leaf_mm = 1000, dc_offset_mddeg = 0\<rparr> 512010 = 96887"
  by code_simp

end
