(* ===== verification/Slam.thy ===== *)
theory Slam
  imports Prelude
begin

text \<open>
  Impact and tamper classification of the door node
  (\<^verbatim>\<open>modules/ultrawidelock_anchor/src/ultrawidelock_slam.c\<close>).
\<close>

datatype slam_event = SLAM_NONE | SLAM_IMPACT | SLAM_TAMPER

record slam_cfg =
  sm_debounce_ms :: u32
  sm_tamper_window_ms :: u32
  sm_tamper_count :: u8

record slam_state =
  ss_last_accept_ms :: int
  ss_window_start_ms :: int
  ss_window_count :: u8
  ss_tamper_latched :: bool
  ss_seeded :: bool

definition ultrawidelock_slam_init :: slam_state where
  "ultrawidelock_slam_init =
     \<lparr>ss_last_accept_ms = 0, ss_window_start_ms = 0, ss_window_count = 0, ss_tamper_latched = False,
      ss_seeded = False\<rparr>"

definition ultrawidelock_slam_poll ::
    "slam_cfg option \<Rightarrow> slam_state \<Rightarrow> bool \<Rightarrow> int \<Rightarrow> slam_state \<times> slam_event" where
  "ultrawidelock_slam_poll co s struck now =
     (case co of
        None \<Rightarrow> (s, SLAM_NONE)
      | Some c \<Rightarrow>
          if sm_tamper_count c = 0 \<or> \<not> struck then (s, SLAM_NONE)
          else if ss_seeded s \<and> now - ss_last_accept_ms s \<ge> 0 \<and>
                  now - ss_last_accept_ms s < uint (sm_debounce_ms c)
          then (s, SLAM_NONE)
          else
            let s1 = s\<lparr>ss_last_accept_ms := now, ss_seeded := True\<rparr>;
                since_window = now - ss_window_start_ms s1;
                s2 = (if ss_window_count s1 = 0 \<or> since_window < 0 \<or>
                         since_window > uint (sm_tamper_window_ms c)
                      then s1\<lparr>ss_window_start_ms := now, ss_window_count := 1\<rparr>
                      else if ss_window_count s1 < 255
                      then s1\<lparr>ss_window_count := ss_window_count s1 + 1\<rparr>
                      else s1)
            in if ss_window_count s2 \<ge> sm_tamper_count c
               then if \<not> ss_tamper_latched s2 then (s2\<lparr>ss_tamper_latched := True\<rparr>, SLAM_TAMPER)
                    else (s2, SLAM_NONE)
               else (s2, SLAM_IMPACT))"

definition ultrawidelock_slam_tampered :: "slam_state option \<Rightarrow> bool" where
  "ultrawidelock_slam_tampered so = (case so of None \<Rightarrow> False | Some s \<Rightarrow> ss_tamper_latched s)"

definition ultrawidelock_slam_clear_tamper :: "slam_state \<Rightarrow> slam_state" where
  "ultrawidelock_slam_clear_tamper s = s\<lparr>ss_tamper_latched := False, ss_window_count := 0\<rparr>"

section \<open>Runs\<close>

datatype slam_input = Poll bool int | Clear

text \<open>A strike that is not swallowed by the debounce.\<close>

definition accepts :: "slam_cfg \<Rightarrow> slam_state \<Rightarrow> bool \<Rightarrow> int \<Rightarrow> bool" where
  "accepts c s struck now \<longleftrightarrow> sm_tamper_count c \<noteq> 0 \<and> struck \<and>
     \<not> (ss_seeded s \<and> ss_last_accept_ms s \<le> now \<and> now < ss_last_accept_ms s + uint (sm_debounce_ms c))"

text \<open>The classifier with the times of the strikes it accepted, newest first.\<close>

fun slam_step :: "slam_cfg \<Rightarrow> slam_state \<times> int list \<Rightarrow> slam_input \<Rightarrow> (slam_state \<times> int list) \<times> slam_event" where
  "slam_step c (s, h) (Poll struck now) =
     (let (s', e) = ultrawidelock_slam_poll (Some c) s struck now
      in ((s', if accepts c s struck now then now # h else h), e))"
| "slam_step c (s, h) Clear = ((ultrawidelock_slam_clear_tamper s, h), SLAM_NONE)"

definition slam_inv :: "slam_cfg \<Rightarrow> slam_state \<times> int list \<Rightarrow> bool" where
  "slam_inv c s \<longleftrightarrow>
     unat (ss_window_count (fst s)) \<le> length (snd s) \<and>
     (\<forall>t\<in>set (take (unat (ss_window_count (fst s))) (snd s)).
        ss_window_start_ms (fst s) \<le> t \<and> t \<le> ss_window_start_ms (fst s) + uint (sm_tamper_window_ms c))"

lemma poll_accepted:
  assumes "accepts c s struck now"
  shows "ultrawidelock_slam_poll (Some c) s struck now =
    (let open_new = (ss_window_count s = 0 \<or> now < ss_window_start_ms s \<or>
                     ss_window_start_ms s + uint (sm_tamper_window_ms c) < now);
         n = (if open_new then 1 else if ss_window_count s < 255 then ss_window_count s + 1 else ss_window_count s);
         s2 = s\<lparr>ss_last_accept_ms := now, ss_seeded := True,
                ss_window_start_ms := (if open_new then now else ss_window_start_ms s), ss_window_count := n\<rparr>
     in if n \<ge> sm_tamper_count c
        then if \<not> ss_tamper_latched s then (s2\<lparr>ss_tamper_latched := True\<rparr>, SLAM_TAMPER) else (s2, SLAM_NONE)
        else (s2, SLAM_IMPACT))"
  using assms by (simp add: ultrawidelock_slam_poll_def accepts_def Let_def) auto

lemma poll_ignored: "\<not> accepts c s struck now \<Longrightarrow> ultrawidelock_slam_poll (Some c) s struck now = (s, SLAM_NONE)"
  by (auto simp: ultrawidelock_slam_poll_def accepts_def)

lemma slam_inv_step:
  assumes "slam_inv c s"
  shows "slam_inv c (fst (slam_step c s i))"
proof (cases i)
  case (Poll struck now)
  obtain s0 h where s: "s = (s0, h)" by (cases s)
  show ?thesis
  proof (cases "accepts c s0 struck now")
    case True
    have m: "unat (ss_window_count s0 + 1) = Suc (unat (ss_window_count s0))" if "ss_window_count s0 < 255"
      using that by (rule unat_Suc_if_less)
    have "set (take (unat (ss_window_count s0)) (now # h)) \<subseteq> insert now (set (take (unat (ss_window_count s0)) h))"
      by (cases "unat (ss_window_count s0)") (auto simp: take_Suc_conv_app_nth dest: in_set_takeD, meson in_mono set_take_subset_set_take le_SucI order_refl)
    then show ?thesis
      using assms True m by (auto simp: Poll s slam_inv_def poll_accepted Let_def le_SucI)
  next
    case False
    then show ?thesis using assms by (simp add: Poll s poll_ignored)
  qed
next
  case Clear
  then show ?thesis using assms by (cases s) (simp add: slam_inv_def ultrawidelock_slam_clear_tamper_def)
qed

interpretation slam: stepper "slam_step c" "slam_inv c" for c
  by unfold_locales (rule slam_inv_step)

lemma slam_inv_init: "slam_inv c (ultrawidelock_slam_init, [])"
  by (simp add: slam_inv_def ultrawidelock_slam_init_def)

text \<open>A tamper report means a burst. In every run of polls and clears from the initial state, a
  TAMPER answer implies that the latest \<open>tamper_count\<close> accepted strikes all lie within one
  tamper window, and that tamper was not already latched.\<close>

theorem tamper_means_burst:
  assumes "(s, h) = fst (run_steps (slam_step c) (ultrawidelock_slam_init, []) is)"
    and "((s', h'), SLAM_TAMPER) = slam_step c (s, h) (Poll struck now)"
  shows "unat (sm_tamper_count c) \<le> length h' \<and> \<not> ss_tamper_latched s \<and> ss_tamper_latched s' \<and>
    (\<forall>t\<in>set (take (unat (sm_tamper_count c)) h'). \<forall>u\<in>set (take (unat (sm_tamper_count c)) h').
       \<bar>t - u\<bar> \<le> uint (sm_tamper_window_ms c))"
proof -
  have acc: "accepts c s struck now" using assms(2) by (auto simp: poll_ignored split: if_splits)
  have "slam_inv c (s', h')"
    using slam.invar_run [OF slam_inv_init, of c "is"] slam_inv_step [of c "(s, h)" "Poll struck now"] assms
    by (metis fst_conv)
  moreover have n: "sm_tamper_count c \<le> ss_window_count s'" "\<not> ss_tamper_latched s" "ss_tamper_latched s'"
    using assms(2) acc by (auto simp: poll_accepted Let_def split: if_splits)
  moreover have "set (take (unat (sm_tamper_count c)) h') \<subseteq> set (take (unat (ss_window_count s')) h')"
    using n(1) by (intro set_take_subset_set_take) (simp add: word_le_nat_alt)
  ultimately have "unat (sm_tamper_count c) \<le> length h'"
    and w: "\<forall>t\<in>set (take (unat (sm_tamper_count c)) h'). ss_window_start_ms s' \<le> t \<and>
      t \<le> ss_window_start_ms s' + uint (sm_tamper_window_ms c)"
    unfolding slam_inv_def word_le_nat_alt by auto
  moreover have "\<bar>t - u\<bar> \<le> uint (sm_tamper_window_ms c)"
    if "t \<in> set (take (unat (sm_tamper_count c)) h')" "u \<in> set (take (unat (sm_tamper_count c)) h')" for t u
    using bspec [OF w that(1)] bspec [OF w that(2)] by linarith
  ultimately show ?thesis using n by blast
qed

definition wit_slam_cfg :: slam_cfg where
  "wit_slam_cfg = \<lparr>sm_debounce_ms = 400, sm_tamper_window_ms = 4000, sm_tamper_count = 3\<rparr>"

theorem tamper_means_burst_witness:
  "\<bar>3000 - 1000\<bar> \<le> uint (sm_tamper_window_ms wit_slam_cfg)"
proof -
  let ?s = "fst (run_steps (slam_step wit_slam_cfg) (ultrawidelock_slam_init, []) [Poll True 1000, Poll True 1100, Poll True 2000])"
  have "(fst ?s, snd ?s) = fst (run_steps (slam_step wit_slam_cfg) (ultrawidelock_slam_init, []) [Poll True 1000, Poll True 1100, Poll True 2000])"
    by simp
  moreover have "((fst (fst (slam_step wit_slam_cfg ?s (Poll True 3000))), [3000, 2000, 1000]), SLAM_TAMPER) =
      slam_step wit_slam_cfg (fst ?s, snd ?s) (Poll True 3000)"
    by code_simp
  ultimately have w: "\<forall>t\<in>set (take (unat (sm_tamper_count wit_slam_cfg)) [3000, 2000, 1000]).
      \<forall>u\<in>set (take (unat (sm_tamper_count wit_slam_cfg)) [3000, 2000, 1000]). \<bar>t - u\<bar> \<le> uint (sm_tamper_window_ms wit_slam_cfg)"
    using tamper_means_burst by blast
  have "set (take (unat (sm_tamper_count wit_slam_cfg)) [3000, 2000, 1000]) = {3000, 2000, 1000::int}"
    by (simp add: wit_slam_cfg_def)
  then show ?thesis using w by blast
qed

end
