(* ===== verification/Rssi_Gate.thy ===== *)
theory Rssi_Gate
  imports Prelude
begin

text \<open>
  The BLE-RSSI power gate (\<^verbatim>\<open>modules/ultrawidelock_cred/src/ultrawidelock_rssi_gate.c\<close>): Q4 smoothing,
  open and close hysteresis, the rise-rate fast open and the hold cap. The millisecond clock
  is a 32-bit word, so that differences wrap as they do in the source.
\<close>

record rssi_gate_cfg =
  rc_open_dbm :: int
  rc_close_dbm :: int
  rc_close_hold_ms :: u16
  rc_ewma_shift :: u8
  rc_slope_open_db :: u8
  rc_slope_window_ms :: u16
  rc_max_hold_ms :: u16

record rssi_gate =
  rg_primed :: bool
  rg_open :: bool
  rg_holding :: bool
  rg_capped :: bool
  rg_hold_since_ms :: u32
  rg_ewma_q4 :: int
  rg_below :: bool
  rg_below_since_ms :: u32
  rg_old_valid :: bool
  rg_mid_valid :: bool
  rg_old_q4 :: int
  rg_mid_q4 :: int
  rg_old_ms :: u32
  rg_mid_ms :: u32

abbreviation RSSI_UNAVAILABLE :: int where "RSSI_UNAVAILABLE \<equiv> 127"
abbreviation Q4 :: int where "Q4 \<equiv> 16"

definition rssi_gate_cfg_default :: rssi_gate_cfg where
  [cfg_defs]: "rssi_gate_cfg_default =
     \<lparr>rc_open_dbm = - 55, rc_close_dbm = - 65, rc_close_hold_ms = 3000, rc_ewma_shift = 2,
      rc_slope_open_db = 8, rc_slope_window_ms = 1500, rc_max_hold_ms = 0\<rparr>"

definition ultrawidelock_rssi_gate_reset :: rssi_gate where
  "ultrawidelock_rssi_gate_reset =
     \<lparr>rg_primed = False, rg_open = False, rg_holding = False, rg_capped = False, rg_hold_since_ms = 0,
      rg_ewma_q4 = 0, rg_below = False, rg_below_since_ms = 0, rg_old_valid = False, rg_mid_valid = False,
      rg_old_q4 = 0, rg_mid_q4 = 0, rg_old_ms = 0, rg_mid_ms = 0\<rparr>"

definition ultrawidelock_rssi_gate_is_open :: "rssi_gate \<Rightarrow> bool" where
  "ultrawidelock_rssi_gate_is_open g = rg_open g"

definition ultrawidelock_rssi_gate_hold_begin :: "rssi_gate \<Rightarrow> u32 \<Rightarrow> rssi_gate" where
  "ultrawidelock_rssi_gate_hold_begin g now =
     g\<lparr>rg_holding := True, rg_capped := False, rg_hold_since_ms := now\<rparr>"

definition ultrawidelock_rssi_gate_was_capped :: "rssi_gate \<Rightarrow> bool" where
  "ultrawidelock_rssi_gate_was_capped g = rg_capped g"

definition ultrawidelock_rssi_gate_level_dbm :: "rssi_gate \<Rightarrow> int" where
  "ultrawidelock_rssi_gate_level_dbm g = to_i16 (cdiv (rg_ewma_q4 g) Q4)"

definition slope_track :: "rssi_gate \<Rightarrow> rssi_gate_cfg \<Rightarrow> u32 \<Rightarrow> rssi_gate" where
  "slope_track g c now =
     (let half = ucast (rc_slope_window_ms c) div (2::u32)
      in if \<not> rg_mid_valid g
         then g\<lparr>rg_mid_q4 := rg_ewma_q4 g, rg_mid_ms := now, rg_mid_valid := True\<rparr>
         else if now - rg_mid_ms g \<ge> half
         then g\<lparr>rg_old_q4 := rg_mid_q4 g, rg_old_ms := rg_mid_ms g, rg_old_valid := True,
                rg_mid_q4 := rg_ewma_q4 g, rg_mid_ms := now\<rparr>
         else g)"

definition gate_smooth :: "rssi_gate \<Rightarrow> rssi_gate_cfg \<Rightarrow> int \<Rightarrow> rssi_gate" where
  "gate_smooth g c sample_q4 =
     (if \<not> rg_primed g then g\<lparr>rg_ewma_q4 := sample_q4, rg_primed := True\<rparr>
      else g\<lparr>rg_ewma_q4 := rg_ewma_q4 g + cdiv (sample_q4 - rg_ewma_q4 g) (2 ^ unat (rc_ewma_shift c))\<rparr>)"

text \<open>The closed gate: level, rise rate, hold cap, in this order.\<close>

definition gate_try_open :: "rssi_gate \<Rightarrow> rssi_gate_cfg \<Rightarrow> u32 \<Rightarrow> rssi_gate" where
  "gate_try_open g c now =
     (let by_level = (rg_ewma_q4 g \<ge> rc_open_dbm c * Q4);
          by_slope = (\<not> by_level \<and> rc_slope_open_db c > 0 \<and> rg_old_valid g \<and>
            now - rg_old_ms g \<le> 2 * ucast (rc_slope_window_ms c) \<and>
            rg_ewma_q4 g - rg_old_q4 g \<ge> uint (rc_slope_open_db c) * Q4 \<and>
            rg_ewma_q4 g > rc_close_dbm c * Q4);
          by_cap = (\<not> (by_level \<or> by_slope) \<and> rg_holding g \<and> rc_max_hold_ms c > 0 \<and>
            now - rg_hold_since_ms g \<ge> ucast (rc_max_hold_ms c));
          g1 = (if by_cap then g\<lparr>rg_capped := True\<rparr> else g)
      in if by_level \<or> by_slope \<or> by_cap
         then g1\<lparr>rg_open := True, rg_below := False, rg_holding := False\<rparr> else g1)"

text \<open>The open gate: close only on a sustained drop.\<close>

definition gate_try_close :: "rssi_gate \<Rightarrow> rssi_gate_cfg \<Rightarrow> u32 \<Rightarrow> rssi_gate" where
  "gate_try_close g c now =
     (if rg_ewma_q4 g \<le> rc_close_dbm c * Q4
      then if \<not> rg_below g then g\<lparr>rg_below := True, rg_below_since_ms := now\<rparr>
           else if now - rg_below_since_ms g \<ge> ucast (rc_close_hold_ms c)
           then g\<lparr>rg_open := False, rg_below := False\<rparr> else g
      else g\<lparr>rg_below := False\<rparr>)"

definition ultrawidelock_rssi_gate_feed :: "rssi_gate \<Rightarrow> rssi_gate_cfg \<Rightarrow> int \<Rightarrow> u32 \<Rightarrow> rssi_gate \<times> bool" where
  "ultrawidelock_rssi_gate_feed g c rssi_dbm now =
     (if rssi_dbm = RSSI_UNAVAILABLE then (g, rg_open g)
      else let g1 = slope_track (gate_smooth g c (rssi_dbm * Q4)) c now;
               g2 = (if \<not> rg_open g1 then gate_try_open g1 c now else gate_try_close g1 c now)
           in (g2, rg_open g2))"

section \<open>Properties\<close>

lemma slope_track_fields [simp]:
  "rg_ewma_q4 (slope_track g c t) = rg_ewma_q4 g" "rg_open (slope_track g c t) = rg_open g"
  "rg_below (slope_track g c t) = rg_below g" "rg_below_since_ms (slope_track g c t) = rg_below_since_ms g"
  "rg_primed (slope_track g c t) = rg_primed g"
  by (simp_all add: slope_track_def Let_def)

lemma gate_smooth_fields [simp]:
  "rg_open (gate_smooth g c x) = rg_open g" "rg_below (gate_smooth g c x) = rg_below g"
  "rg_below_since_ms (gate_smooth g c x) = rg_below_since_ms g" "rg_primed (gate_smooth g c x)"
  by (simp_all add: gate_smooth_def)

lemma gate_try_fields [simp]:
  "rg_ewma_q4 (gate_try_open g c t) = rg_ewma_q4 g" "rg_ewma_q4 (gate_try_close g c t) = rg_ewma_q4 g"
  "rg_primed (gate_try_open g c t) = rg_primed g" "rg_primed (gate_try_close g c t) = rg_primed g"
  by (simp_all add: gate_try_open_def gate_try_close_def Let_def)

text \<open>One smoothing step moves towards the sample and never past it.\<close>

lemma cdiv_toward: "0 < b \<Longrightarrow> (0 \<le> a \<longrightarrow> 0 \<le> cdiv a b \<and> cdiv a b \<le> a) \<and> (a \<le> 0 \<longrightarrow> a \<le> cdiv a b \<and> cdiv a b \<le> 0)"
proof -
  assume b: "0 < b"
  have d: "0 \<le> x \<Longrightarrow> 0 \<le> x div b \<and> x div b \<le> x" for x :: int
    using b by (simp add: pos_imp_zdiv_nonneg_iff) (metis b div_by_1 int_one_le_iff_zero_less zdiv_mono2 zero_less_one)
  show ?thesis
    using d [of a] d [of "- a"] b by (cases "a = 0"; cases "0 \<le> a") (auto simp: cdiv_def)
qed

lemma gate_smooth_between:
  assumes "rg_primed g \<Longrightarrow> lo \<le> rg_ewma_q4 g \<and> rg_ewma_q4 g \<le> hi" and "lo \<le> x" and "x \<le> hi"
  shows "lo \<le> rg_ewma_q4 (gate_smooth g c x) \<and> rg_ewma_q4 (gate_smooth g c x) \<le> hi"
  using assms cdiv_toward [of "2 ^ unat (rc_ewma_shift c)" "x - rg_ewma_q4 g"]
  by (cases "rg_ewma_q4 g \<le> x") (auto simp: gate_smooth_def)

definition gate_run :: "rssi_gate_cfg \<Rightarrow> rssi_gate \<Rightarrow> (int \<times> u32) list \<Rightarrow> rssi_gate" where
  "gate_run c g xs = foldl (\<lambda>g (r, t). fst (ultrawidelock_rssi_gate_feed g c r t)) g xs"

lemma gate_feed_level:
  assumes "rg_primed g \<Longrightarrow> lo \<le> rg_ewma_q4 g \<and> rg_ewma_q4 g \<le> hi"
    and "r \<noteq> RSSI_UNAVAILABLE \<Longrightarrow> lo \<le> r * Q4 \<and> r * Q4 \<le> hi"
    and "g' = fst (ultrawidelock_rssi_gate_feed g c r t)"
  shows "rg_primed g' \<Longrightarrow> lo \<le> rg_ewma_q4 g' \<and> rg_ewma_q4 g' \<le> hi"
  using assms gate_smooth_between [of g lo hi "r * Q4" c]
  by (auto simp: ultrawidelock_rssi_gate_feed_def Let_def split: if_splits)

lemma gate_run_level:
  assumes "rg_primed g \<Longrightarrow> lo \<le> rg_ewma_q4 g \<and> rg_ewma_q4 g \<le> hi"
    and "\<forall>(r, t)\<in>set xs. r \<noteq> RSSI_UNAVAILABLE \<longrightarrow> lo \<le> r * Q4 \<and> r * Q4 \<le> hi"
  shows "rg_primed (gate_run c g xs) \<Longrightarrow> lo \<le> rg_ewma_q4 (gate_run c g xs) \<and> rg_ewma_q4 (gate_run c g xs) \<le> hi"
  using assms
proof (induction xs arbitrary: g)
  case (Cons x xs)
  obtain r t where x: "x = (r, t)" by (cases x)
  let ?g = "fst (ultrawidelock_rssi_gate_feed g c r t)"
  have "rg_primed ?g \<Longrightarrow> lo \<le> rg_ewma_q4 ?g \<and> rg_ewma_q4 ?g \<le> hi"
    using gate_feed_level [of g lo hi r ?g c t] Cons.prems(2,3) x by simp
  then show ?case using Cons x by (auto simp: gate_run_def)
qed (simp add: gate_run_def)

text \<open>A closed, uncapped gate whose samples stayed weak stays closed.\<close>

definition weak_bound :: "rssi_gate_cfg \<Rightarrow> int" where
  "weak_bound c = (if rc_slope_open_db c > 0 then min (rc_open_dbm c * Q4 - 1) (rc_close_dbm c * Q4)
                   else rc_open_dbm c * Q4 - 1)"

lemma gate_feed_weak:
  assumes "rc_max_hold_ms c = 0" and "\<not> rg_open g" and "rg_primed g \<Longrightarrow> rg_ewma_q4 g \<le> weak_bound c"
    and "r \<noteq> RSSI_UNAVAILABLE \<Longrightarrow> r * Q4 \<le> weak_bound c" and "g' = fst (ultrawidelock_rssi_gate_feed g c r t)"
  shows "\<not> rg_open g' \<and> (rg_primed g' \<longrightarrow> rg_ewma_q4 g' \<le> weak_bound c)"
proof (cases "r = RSSI_UNAVAILABLE")
  case True
  then show ?thesis using assms by (simp add: ultrawidelock_rssi_gate_feed_def)
next
  case False
  let ?g = "slope_track (gate_smooth g c (r * Q4)) c t"
  have l: "rg_ewma_q4 ?g \<le> weak_bound c"
    using gate_smooth_between [of g "min (rg_ewma_q4 g) (r * Q4)" "weak_bound c" "r * Q4" c] assms(3,4) False by simp
  then have "\<not> rg_open (gate_try_open ?g c t)"
    using assms(1,2) by (auto simp: gate_try_open_def Let_def weak_bound_def split: if_splits)
  then show ?thesis using l assms(2,5) False by (simp add: ultrawidelock_rssi_gate_feed_def Let_def)
qed

lemma gate_run_weak:
  assumes "rc_max_hold_ms c = 0" and "\<not> rg_open g" and "rg_primed g \<longrightarrow> rg_ewma_q4 g \<le> weak_bound c"
    and "\<forall>(r, t)\<in>set xs. r \<noteq> RSSI_UNAVAILABLE \<longrightarrow> r * Q4 \<le> weak_bound c"
  shows "\<not> rg_open (gate_run c g xs)"
  using assms(2-)
proof (induction xs arbitrary: g)
  case (Cons x xs)
  obtain r t where x: "x = (r, t)" by (cases x)
  let ?g = "fst (ultrawidelock_rssi_gate_feed g c r t)"
  have "\<not> rg_open ?g \<and> (rg_primed ?g \<longrightarrow> rg_ewma_q4 ?g \<le> weak_bound c)"
    by (rule gate_feed_weak [OF assms(1) Cons.prems(1) _ _ refl]) (use Cons.prems x in auto)
  then have "\<not> rg_open (gate_run c ?g xs)" using Cons.IH [of ?g] Cons.prems(3) by simp
  then show ?case by (simp add: gate_run_def x)
qed (simp add: gate_run_def)

text \<open>The radio is armed only for a phone that is near. With the hold cap off, a gate that is open
  after any samples from reset has seen a sample at or above the opening level or, when the
  rise-rate rule is enabled, one above the closing level.\<close>

theorem gate_opens_on_strength:
  assumes "rc_max_hold_ms c = 0" and "rg_open (gate_run c ultrawidelock_rssi_gate_reset xs)"
  shows "\<exists>r\<in>set (map fst xs). r \<noteq> RSSI_UNAVAILABLE \<and> (rc_open_dbm c \<le> r \<or> rc_slope_open_db c > 0 \<and> rc_close_dbm c < r)"
proof (rule ccontr)
  assume no: "\<not> ?thesis"
  have "r * Q4 \<le> weak_bound c" if "(r, t) \<in> set xs" "r \<noteq> RSSI_UNAVAILABLE" for r t
  proof -
    have "r \<in> set (map fst xs)" using that(1) by force
    then have "r < rc_open_dbm c" "rc_slope_open_db c > 0 \<longrightarrow> r \<le> rc_close_dbm c"
      using no that(2) by (meson not_le, meson not_less)
    then show ?thesis by (auto simp: weak_bound_def)
  qed
  then show False
    using gate_run_weak [OF assms(1), of ultrawidelock_rssi_gate_reset xs] assms(2)
    by (auto simp: ultrawidelock_rssi_gate_reset_def)
qed

theorem gate_opens_on_strength_witness:
  "\<exists>r\<in>set (map fst [(- 70, 0), (- 60, 500), (- 50, 1000), (- 48, 1500::u32)]). r \<noteq> RSSI_UNAVAILABLE \<and>
     (rc_open_dbm rssi_gate_cfg_default \<le> r \<or> rc_slope_open_db rssi_gate_cfg_default > 0 \<and> rc_close_dbm rssi_gate_cfg_default < r)"
  by (rule gate_opens_on_strength) code_simp+

text \<open>The gate with the history since its reset, newest first: was the smoothed level at or below the
  closing level, and when.\<close>

definition gate_step :: "rssi_gate_cfg \<Rightarrow> rssi_gate \<times> (bool \<times> u32) list \<Rightarrow> int \<times> u32 \<Rightarrow>
    (rssi_gate \<times> (bool \<times> u32) list) \<times> bool" where
  "gate_step c s x =
     (let (g', out) = ultrawidelock_rssi_gate_feed (fst s) c (fst x) (snd x)
      in ((g', if fst x = RSSI_UNAVAILABLE then snd s
               else (rg_ewma_q4 g' \<le> rc_close_dbm c * Q4, snd x) # snd s), out))"

definition dropped_since :: "u32 \<Rightarrow> (bool \<times> u32) list \<Rightarrow> bool" where
  "dropped_since t h \<longleftrightarrow> (\<exists>h1 h2. h = h1 @ (True, t) # h2 \<and> (\<forall>x\<in>set h1. fst x))"

lemma dropped_since_Cons: "dropped_since t h \<Longrightarrow> dropped_since t ((True, u) # h)"
  unfolding dropped_since_def by (metis append_Cons fst_conv set_ConsD)

lemma dropped_since_new: "dropped_since t ((True, t) # h)"
  unfolding dropped_since_def by (rule exI [of _ "[]"]) simp

definition gate_inv :: "rssi_gate \<times> (bool \<times> u32) list \<Rightarrow> bool" where
  "gate_inv s \<longleftrightarrow> (rg_open (fst s) \<and> rg_below (fst s) \<longrightarrow> dropped_since (rg_below_since_ms (fst s)) (snd s))"

lemma gate_inv_step: "gate_inv s \<Longrightarrow> gate_inv (fst (gate_step c s x))"
  by (cases "rg_ewma_q4 (gate_smooth (fst s) c (fst x * Q4)) \<le> rc_close_dbm c * Q4")
    (auto simp: gate_inv_def gate_step_def ultrawidelock_rssi_gate_feed_def Let_def gate_try_open_def
      gate_try_close_def dropped_since_Cons dropped_since_new)

interpretation gate: stepper "gate_step c" gate_inv for c
  by unfold_locales (rule gate_inv_step)

text \<open>The gate closes only on a sustained drop. In every run from reset, a sample at which the gate
  goes from open to closed ends a stretch in which every smoothed level was at or below the
  closing level and whose first sample is at least \<open>close_hold_ms\<close> old.\<close>

theorem gate_closes_after_hold:
  assumes "s = fst (run_steps (gate_step c) (ultrawidelock_rssi_gate_reset, []) xs)"
    and "s' = fst (gate_step c s (r, t))" and "rg_open (fst s)" and "\<not> rg_open (fst s')"
  shows "\<exists>t0. ucast (rc_close_hold_ms c) \<le> t - t0 \<and> dropped_since t0 (snd s')"
proof -
  have "gate_inv s"
    unfolding assms(1) by (rule gate.invar_run) (simp add: gate_inv_def ultrawidelock_rssi_gate_reset_def)
  moreover have "rg_below (fst s)" and "ucast (rc_close_hold_ms c) \<le> t - rg_below_since_ms (fst s)"
    and "snd s' = (True, t) # snd s"
    using assms(2-4)
    by (auto simp: gate_step_def ultrawidelock_rssi_gate_feed_def Let_def gate_try_close_def split: if_splits)
  ultimately show ?thesis
    using assms(3) dropped_since_Cons by (auto simp: gate_inv_def)
qed

theorem gate_closes_after_hold_witness:
  "\<exists>t0. 3000 \<le> (5000::u32) - t0 \<and> dropped_since t0 [(True, 5000), (True, 2000), (False, 1000), (False, 0)]"
proof -
  let ?s = "fst (run_steps (gate_step rssi_gate_cfg_default) (ultrawidelock_rssi_gate_reset, []) [(- 50, 0), (- 60, 1000), (- 110, 2000)])"
  have "rg_open (fst ?s)" and "\<not> rg_open (fst (fst (gate_step rssi_gate_cfg_default ?s (- 100, 5000))))"
    and h: "snd (fst (gate_step rssi_gate_cfg_default ?s (- 100, 5000))) = [(True, 5000), (True, 2000), (False, 1000), (False, 0)]"
    by code_simp+
  from gate_closes_after_hold [OF refl refl this(1,2)] show ?thesis
    unfolding h by (simp add: rssi_gate_cfg_default_def)
qed

text \<open>The capped flag outlives the opening it describes: after a capped opening, a close and an opening
  by level, the gate still reports a capped opening.\<close>

lemma was_capped_survives_close:
  "let c = rssi_gate_cfg_default\<lparr>rc_max_hold_ms := 1000, rc_close_hold_ms := 100\<rparr>;
       g1 = fst (ultrawidelock_rssi_gate_feed (ultrawidelock_rssi_gate_hold_begin ultrawidelock_rssi_gate_reset 0) c (- 90) 1500);
       g2 = gate_run c g1 [(- 90, 2000), (- 90, 3000)];
       g3 = gate_run c g2 [(- 20, 4000), (- 20, 4100), (- 20, 4200)]
   in rg_open g1 \<and> \<not> rg_open g2 \<and> rg_open g3 \<and> rg_ewma_q4 g3 \<ge> rc_open_dbm c * Q4 \<and>
      ultrawidelock_rssi_gate_was_capped g3"
  by code_simp

end
