(* ===== verification/Satellite.thy ===== *)
theory Satellite
  imports Fusion
begin

text \<open>
  The freshness and pairing rules around the second anchors' reports
  (\<^verbatim>\<open>modules/ultrawidelock_anchor/src/ultrawidelock_satellite.c\<close>): one satellite, and the set of
  three roles. A record given as None stands for a NULL pointer.
\<close>

record sat_sample =
  sa_block :: u32
  sa_mm :: int
  sa_ms :: int
  sa_have :: bool

record satellite =
  st_cfg :: fusion_cfg
  st_last_ms :: int
  st_peer_mm :: int
  st_peer_block :: u32
  st_ring :: "sat_sample list"
  st_ring_next :: nat
  st_stale_ms :: u32
  st_self_is_inside :: bool
  st_have :: bool

abbreviation SATELLITE_RING :: nat where "SATELLITE_RING \<equiv> 8"
abbreviation SATELLITE_MAX_ROLES :: nat where "SATELLITE_MAX_ROLES \<equiv> 3"
abbreviation SATELLITE_STALE_MS_DEFAULT :: u32 where "SATELLITE_STALE_MS_DEFAULT \<equiv> 1500"

text \<open>With no configuration the source leaves the boundary bias as it was (\<open>bias0\<close>).\<close>

definition ultrawidelock_satellite_init :: "int \<Rightarrow> fusion_cfg option \<Rightarrow> u32 \<Rightarrow> bool \<Rightarrow> satellite" where
  "ultrawidelock_satellite_init bias0 co stale_ms self_is_inside =
     \<lparr>st_cfg = (case co of Some c \<Rightarrow> c
                | None \<Rightarrow> \<lparr>fc_baseline_mm = 0, fc_tol_mm = 0, fc_deadband_mm = 0, fc_boundary_bias_mm = bias0\<rparr>),
      st_last_ms = 0, st_peer_mm = 0, st_peer_block = 0,
      st_ring = replicate SATELLITE_RING \<lparr>sa_block = 0, sa_mm = 0, sa_ms = 0, sa_have = False\<rparr>,
      st_ring_next = 0,
      st_stale_ms = (if stale_ms \<noteq> 0 then stale_ms else SATELLITE_STALE_MS_DEFAULT),
      st_self_is_inside = self_is_inside, st_have = False\<rparr>"

definition ultrawidelock_satellite_observe :: "satellite \<Rightarrow> int \<Rightarrow> u32 \<Rightarrow> int \<Rightarrow> satellite" where
  "ultrawidelock_satellite_observe s self_mm self_block now =
     (if self_mm < 0 then s
      else s\<lparr>st_ring := (st_ring s)[st_ring_next s :=
               \<lparr>sa_block = self_block, sa_mm = self_mm, sa_ms = now, sa_have = True\<rparr>],
             st_ring_next := (st_ring_next s + 1) mod SATELLITE_RING\<rparr>)"

text \<open>The scan stops at the first entry of the block, fresh or not.\<close>

fun ring_scan :: "sat_sample list \<Rightarrow> u32 \<Rightarrow> u32 \<Rightarrow> int \<Rightarrow> sat_sample option" where
  "ring_scan [] stale block now = None"
| "ring_scan (e # es) stale block now =
     (if \<not> sa_have e \<or> sa_block e \<noteq> block then ring_scan es stale block now
      else let age = now - sa_ms e
           in if age < 0 \<or> age > uint stale then None else Some e)"

definition ring_find :: "satellite \<Rightarrow> u32 \<Rightarrow> int \<Rightarrow> sat_sample option" where
  "ring_find s block now = ring_scan (st_ring s) (st_stale_ms s) block now"

definition ultrawidelock_satellite_report :: "satellite \<Rightarrow> int \<Rightarrow> u32 \<Rightarrow> int \<Rightarrow> satellite" where
  "ultrawidelock_satellite_report s peer_mm peer_block now =
     (if peer_mm < 0 then s
      else s\<lparr>st_peer_mm := peer_mm, st_peer_block := peer_block, st_last_ms := now, st_have := True\<rparr>)"

definition report_fresh :: "satellite option \<Rightarrow> int \<Rightarrow> bool" where
  "report_fresh so now =
     (case so of None \<Rightarrow> False
      | Some s \<Rightarrow> if \<not> st_have s then False
                 else let age = now - st_last_ms s in if age < 0 then False else age \<le> uint (st_stale_ms s))"

definition sat_fresh :: "satellite option \<Rightarrow> int \<Rightarrow> bool" where
  "sat_fresh so now =
     (case so of None \<Rightarrow> False
      | Some s \<Rightarrow> if fc_baseline_mm (st_cfg s) \<le> 0 then False else report_fresh (Some s) now)"

definition ultrawidelock_satellite_pair :: "satellite option \<Rightarrow> int \<Rightarrow> (int \<times> int \<times> u32) option" where
  "ultrawidelock_satellite_pair so now =
     (case so of None \<Rightarrow> None
      | Some s \<Rightarrow> if \<not> report_fresh (Some s) now then None
                 else case ring_find s (st_peer_block s) now of
                        None \<Rightarrow> None
                      | Some mine \<Rightarrow> Some (sa_mm mine, st_peer_mm s, st_peer_block s))"

definition verdict_none :: fusion_verdict where
  "verdict_none = \<lparr>fv_side = FSIDE_UNKNOWN, fv_geometry_ok = False, fv_delta_mm = 0\<rparr>"

definition ultrawidelock_satellite_verdict :: "satellite option \<Rightarrow> int \<Rightarrow> fusion_verdict" where
  "ultrawidelock_satellite_verdict so now =
     (case so of None \<Rightarrow> verdict_none
      | Some s \<Rightarrow>
          if \<not> sat_fresh (Some s) now then verdict_none
          else case ring_find s (st_peer_block s) now of
                 None \<Rightarrow> verdict_none
               | Some mine \<Rightarrow>
                   if st_self_is_inside s
                   then ultrawidelock_fusion_eval (Some (st_cfg s)) (sa_mm mine) (st_peer_mm s)
                   else ultrawidelock_fusion_eval (Some (st_cfg s)) (st_peer_mm s) (sa_mm mine))"

definition ultrawidelock_satellite_peer_mm :: "satellite option \<Rightarrow> int \<Rightarrow> int" where
  "ultrawidelock_satellite_peer_mm so now =
     (case so of None \<Rightarrow> - 1 | Some s \<Rightarrow> if \<not> sat_fresh (Some s) now then - 1 else st_peer_mm s)"

definition ultrawidelock_satellite_may_predict :: "satellite option \<Rightarrow> int \<Rightarrow> bool" where
  "ultrawidelock_satellite_may_predict so now =
     (case so of None \<Rightarrow> True
      | Some s \<Rightarrow> if \<not> sat_fresh (Some s) now then True
                 else if ring_find s (st_peer_block s) now = None then True
                 else ultrawidelock_fusion_may_predict (Some (ultrawidelock_satellite_verdict (Some s) now)))"

definition ultrawidelock_satellite_may_passive_unlock :: "satellite option \<Rightarrow> int \<Rightarrow> bool" where
  "ultrawidelock_satellite_may_passive_unlock so now =
     (case so of None \<Rightarrow> True
      | Some s \<Rightarrow> if \<not> sat_fresh (Some s) now then True
                 else if ring_find s (st_peer_block s) now = None then True
                 else ultrawidelock_fusion_may_passive_unlock (Some (ultrawidelock_satellite_verdict (Some s) now)))"

section \<open>The set of roles\<close>

text \<open>A set is the list of its three slots; role \<open>r\<close> is slot \<open>r - 1\<close>.\<close>

type_synonym satellite_set = "satellite list"

definition ultrawidelock_satellite_set_init ::
    "int list \<Rightarrow> fusion_cfg list option \<Rightarrow> u32 \<Rightarrow> bool \<Rightarrow> satellite_set" where
  "ultrawidelock_satellite_set_init bias0 co stale_ms self_is_inside =
     map (\<lambda>i. ultrawidelock_satellite_init (bias0 ! i) (map_option (\<lambda>c. c ! i) co) stale_ms self_is_inside)
       [0..<SATELLITE_MAX_ROLES]"

definition ultrawidelock_satellite_set_report ::
    "satellite_set \<Rightarrow> u8 \<Rightarrow> int \<Rightarrow> u32 \<Rightarrow> int \<Rightarrow> satellite_set" where
  "ultrawidelock_satellite_set_report ss role peer_mm peer_block now =
     (if role < 1 \<or> unat role > SATELLITE_MAX_ROLES then ss
      else ss[unat role - 1 := ultrawidelock_satellite_report (ss ! (unat role - 1)) peer_mm peer_block now])"

definition ultrawidelock_satellite_set_observe :: "satellite_set \<Rightarrow> int \<Rightarrow> u32 \<Rightarrow> int \<Rightarrow> satellite_set" where
  "ultrawidelock_satellite_set_observe ss self_mm self_block now =
     map (\<lambda>s. ultrawidelock_satellite_observe s self_mm self_block now) ss"

text \<open>The scan of \<^verbatim>\<open>set_verdict\<close> over the roles' verdicts, with the first definite one and the first
  abstention found so far.\<close>

fun set_verdict_scan :: "fusion_verdict option \<Rightarrow> fusion_verdict option \<Rightarrow> fusion_verdict list \<Rightarrow> fusion_verdict" where
  "set_verdict_scan definite abstain [] =
     (case definite of Some v \<Rightarrow> v
      | None \<Rightarrow> (case abstain of Some v \<Rightarrow> v | None \<Rightarrow> verdict_none))"
| "set_verdict_scan definite abstain (v # vs) =
     (if \<not> fv_geometry_ok v then set_verdict_scan definite abstain vs
      else if fv_side v = FSIDE_UNKNOWN
      then set_verdict_scan definite (case abstain of None \<Rightarrow> Some v | Some a \<Rightarrow> Some a) vs
      else case definite of
             None \<Rightarrow> set_verdict_scan (Some v) abstain vs
           | Some d \<Rightarrow> if fv_side v \<noteq> fv_side d then verdict_none else set_verdict_scan definite abstain vs)"

definition ultrawidelock_satellite_set_verdict :: "satellite_set option \<Rightarrow> int \<Rightarrow> fusion_verdict" where
  "ultrawidelock_satellite_set_verdict sso now =
     (case sso of None \<Rightarrow> verdict_none
      | Some ss \<Rightarrow> set_verdict_scan None None (map (\<lambda>s. ultrawidelock_satellite_verdict (Some s) now) ss))"

definition ultrawidelock_satellite_set_may_predict :: "satellite_set option \<Rightarrow> int \<Rightarrow> bool" where
  "ultrawidelock_satellite_set_may_predict sso now =
     (case sso of None \<Rightarrow> True
      | Some ss \<Rightarrow> list_all (\<lambda>s. ultrawidelock_satellite_may_predict (Some s) now) ss)"

definition ultrawidelock_satellite_set_may_passive_unlock :: "satellite_set option \<Rightarrow> int \<Rightarrow> bool" where
  "ultrawidelock_satellite_set_may_passive_unlock sso now =
     (case sso of None \<Rightarrow> True
      | Some ss \<Rightarrow> list_all (\<lambda>s. ultrawidelock_satellite_may_passive_unlock (Some s) now) ss)"

fun set_peer_scan :: "int \<Rightarrow> satellite list \<Rightarrow> int" where
  "set_peer_scan now [] = - 1"
| "set_peer_scan now (s # ss) =
     (let mm = ultrawidelock_satellite_peer_mm (Some s) now in if mm \<ge> 0 then mm else set_peer_scan now ss)"

definition ultrawidelock_satellite_set_peer_mm :: "satellite_set option \<Rightarrow> int \<Rightarrow> int" where
  "ultrawidelock_satellite_set_peer_mm sso now = (case sso of None \<Rightarrow> - 1 | Some ss \<Rightarrow> set_peer_scan now ss)"

section \<open>Pairs come from one ranging round\<close>

datatype sat_event = Observe int u32 int | Report int u32 int

fun sat_step :: "satellite \<Rightarrow> sat_event \<Rightarrow> satellite" where
  "sat_step s (Observe mm b t) = ultrawidelock_satellite_observe s mm b t"
| "sat_step s (Report mm b t) = ultrawidelock_satellite_report s mm b t"

text \<open>Everything the state holds was put there by an event.\<close>

definition sat_inv :: "satellite \<Rightarrow> sat_event list \<Rightarrow> bool" where
  "sat_inv s es \<longleftrightarrow>
     (\<forall>e\<in>set (st_ring s). sa_have e \<longrightarrow> 0 \<le> sa_mm e \<and> Observe (sa_mm e) (sa_block e) (sa_ms e) \<in> set es) \<and>
     (st_have s \<longrightarrow> 0 \<le> st_peer_mm s \<and> Report (st_peer_mm s) (st_peer_block s) (st_last_ms s) \<in> set es)"

lemma sat_inv_step:
  assumes "sat_inv s es"
  shows "sat_inv (sat_step s e) (es @ [e])"
proof (cases e)
  case (Observe mm b t)
  let ?new = "\<lparr>sa_block = b, sa_mm = mm, sa_ms = t, sa_have = True\<rparr>"
  have "set ((st_ring s)[st_ring_next s := ?new]) \<subseteq> insert ?new (set (st_ring s))"
    by (rule set_update_subset_insert)
  then show ?thesis
    using assms Observe by (fastforce simp: sat_inv_def ultrawidelock_satellite_observe_def)
next
  case (Report mm b t)
  then show ?thesis using assms by (auto simp: sat_inv_def ultrawidelock_satellite_report_def)
qed

lemma sat_inv_run: "sat_inv (foldl sat_step (ultrawidelock_satellite_init bias0 co stale inside) es) es"
proof (induction es rule: rev_induct)
  case Nil
  then show ?case by (simp add: sat_inv_def ultrawidelock_satellite_init_def)
next
  case (snoc e es)
  then show ?case using sat_inv_step by simp
qed

lemma ring_scan_SomeD:
  "ring_scan es stale block now = Some e \<Longrightarrow>
   e \<in> set es \<and> sa_have e \<and> sa_block e = block \<and> sa_ms e \<le> now \<and> now - sa_ms e \<le> uint stale"
  by (induction es) (auto simp: Let_def split: if_splits)

lemma sat_run_stale: "st_stale_ms (foldl sat_step s es) = st_stale_ms s"
proof (induction es arbitrary: s)
  case (Cons e es)
  have "st_stale_ms (sat_step s e) = st_stale_ms s"
    by (cases e) (simp_all add: ultrawidelock_satellite_observe_def ultrawidelock_satellite_report_def)
  then show ?case using Cons by simp
qed simp

text \<open>The two distances are of one ranging round: whenever the satellite offers a pair, both
  distances are non-negative, they were observed and reported for the very block the pair
  names, and neither measurement is from the future or older than the staleness bound.\<close>

theorem pairs_are_of_one_round:
  assumes "s = foldl sat_step (ultrawidelock_satellite_init bias0 co stale inside) es"
    and "ultrawidelock_satellite_pair (Some s) now = Some (self_mm, peer_mm, block)"
  shows "\<exists>t u. Observe self_mm block t \<in> set es \<and> Report peer_mm block u \<in> set es \<and>
    0 \<le> self_mm \<and> 0 \<le> peer_mm \<and> t \<le> now \<and> u \<le> now \<and>
    now - t \<le> uint (st_stale_ms s) \<and> now - u \<le> uint (st_stale_ms s)"
proof -
  have fresh: "st_have s" "st_last_ms s \<le> now" "now - st_last_ms s \<le> uint (st_stale_ms s)"
    using assms(2) by (auto simp: ultrawidelock_satellite_pair_def report_fresh_def Let_def split: if_splits)
  obtain e where e: "ring_find s (st_peer_block s) now = Some e" "self_mm = sa_mm e"
      "peer_mm = st_peer_mm s" "block = st_peer_block s"
    using assms(2) by (auto simp: ultrawidelock_satellite_pair_def split: if_splits option.splits)
  note r = ring_scan_SomeD [OF e(1) [unfolded ring_find_def]]
  have "sat_inv s es" unfolding assms(1) by (rule sat_inv_run)
  then show ?thesis
    using r e(2-4) fresh by (intro exI [of _ "sa_ms e"] exI [of _ "st_last_ms s"]) (auto simp: sat_inv_def)
qed

definition wit_sat_cfg :: fusion_cfg where
  "wit_sat_cfg = \<lparr>fc_baseline_mm = 3000, fc_tol_mm = 200, fc_deadband_mm = 150, fc_boundary_bias_mm = 0\<rparr>"

theorem pairs_are_of_one_round_witness:
  "\<exists>t u. Observe 900 42 t \<in> set [Observe 900 42 1000, Report 3500 42 1200, Observe 800 43 1300] \<and>
     Report 3500 42 u \<in> set [Observe 900 42 1000, Report 3500 42 1200, Observe 800 43 1300]"
proof -
  have "ultrawidelock_satellite_pair (Some (foldl sat_step (ultrawidelock_satellite_init 0 (Some wit_sat_cfg) 0 True)
      [Observe 900 42 1000, Report 3500 42 1200, Observe 800 43 1300])) 1400 = Some (900, 3500, 42)"
    by code_simp
  from pairs_are_of_one_round [OF refl this] show ?thesis by blast
qed

section \<open>The gates over the roles\<close>

text \<open>
  What both gates promise of one role: a role without fresh evidence permits. A set of roles
  then behaves as the roles that speak.
\<close>

locale role_gate =
  fixes gate :: "satellite option \<Rightarrow> int \<Rightarrow> bool"
  assumes silent_permits: "\<not> sat_fresh (Some s) now \<Longrightarrow> gate (Some s) now"
begin

lemma refusal_is_evidence: "\<not> gate (Some s) now \<Longrightarrow> sat_fresh (Some s) now"
  using silent_permits by blast

lemma one_speaking_role:
  assumes "i < length ss" and "\<And>j. j < length ss \<Longrightarrow> j \<noteq> i \<Longrightarrow> \<not> sat_fresh (Some (ss ! j)) now"
  shows "list_all (\<lambda>s. gate (Some s) now) ss \<longleftrightarrow> gate (Some (ss ! i)) now"
  using assms silent_permits by (auto simp: list_all_length)

end

interpretation predict_gate: role_gate ultrawidelock_satellite_may_predict
  by unfold_locales (simp add: ultrawidelock_satellite_may_predict_def)

interpretation unlock_gate: role_gate ultrawidelock_satellite_may_passive_unlock
  by unfold_locales (simp add: ultrawidelock_satellite_may_passive_unlock_def)

text \<open>The distances a role evaluates, inside anchor first.\<close>

definition role_pair :: "satellite \<Rightarrow> int \<Rightarrow> (int \<times> int) option" where
  "role_pair s now =
     (if \<not> sat_fresh (Some s) now then None
      else map_option (\<lambda>e. if st_self_is_inside s then (sa_mm e, st_peer_mm s) else (st_peer_mm s, sa_mm e))
             (ring_find s (st_peer_block s) now))"

lemma satellite_verdict_pair:
  "ultrawidelock_satellite_verdict (Some s) now =
     (case role_pair s now of None \<Rightarrow> verdict_none | Some (a, b) \<Rightarrow> ultrawidelock_fusion_eval (Some (st_cfg s)) a b)"
  by (auto simp: ultrawidelock_satellite_verdict_def role_pair_def split: option.splits)

lemma satellite_passive_pair:
  "ultrawidelock_satellite_may_passive_unlock (Some s) now \<longleftrightarrow>
     (case role_pair s now of None \<Rightarrow> True
      | Some (a, b) \<Rightarrow> let v = ultrawidelock_fusion_eval (Some (st_cfg s)) a b
                      in fv_geometry_ok v \<and> fv_side v \<noteq> FSIDE_INSIDE)"
  unfolding ultrawidelock_satellite_may_passive_unlock_def satellite_verdict_pair
  by (auto simp: role_pair_def ultrawidelock_fusion_may_passive_unlock_def Let_def split: option.splits if_splits)

lemma satellite_refuses_iff:
  "\<not> ultrawidelock_satellite_may_passive_unlock (Some s) now \<longleftrightarrow>
     (\<exists>a b. role_pair s now = Some (a, b) \<and>
        (let v = ultrawidelock_fusion_eval (Some (st_cfg s)) a b
         in \<not> fv_geometry_ok v \<or> fv_side v = FSIDE_INSIDE))"
  unfolding satellite_passive_pair by (cases "role_pair s now") (auto simp: Let_def)

text \<open>What a verdict must say to refuse: an impossible pair, or a phone placed inside.\<close>

definition evidence_against :: "fusion_verdict \<Rightarrow> bool" where
  "evidence_against v \<longleftrightarrow> fv_side v = FSIDE_INSIDE \<or> \<not> fv_geometry_ok v"

text \<open>The passive gate over all roles refuses exactly on evidence: some role holds a fresh pair of
  distances of one block, and that pair is geometrically impossible or places the phone inside
  by more than the dead band. Silence, staleness and unpaired reports never refuse.\<close>

theorem set_gate_refuses_on_evidence:
  "\<not> ultrawidelock_satellite_set_may_passive_unlock (Some ss) now \<longleftrightarrow>
     (\<exists>s a b. s \<in> set ss \<and> role_pair s now = Some (a, b) \<and>
        evidence_against (ultrawidelock_fusion_eval (Some (st_cfg s)) a b))"
  by (auto simp: ultrawidelock_satellite_set_may_passive_unlock_def list_all_iff satellite_refuses_iff evidence_against_def Let_def)

section \<open>The verdict of a set\<close>

definition definite :: "fusion_verdict \<Rightarrow> bool" where
  "definite v \<longleftrightarrow> fv_geometry_ok v \<and> fv_side v \<noteq> FSIDE_UNKNOWN"

definition abstains :: "fusion_verdict \<Rightarrow> bool" where
  "abstains v \<longleftrightarrow> fv_geometry_ok v \<and> fv_side v = FSIDE_UNKNOWN"

text \<open>The rule as the header states it.\<close>

definition set_rule :: "fusion_verdict list \<Rightarrow> fusion_verdict" where
  "set_rule vs =
     (case filter definite vs of
        d # ds \<Rightarrow> if list_all (\<lambda>v. fv_side v = fv_side d) ds then d else verdict_none
      | [] \<Rightarrow> (case filter abstains vs of a # _ \<Rightarrow> a | [] \<Rightarrow> verdict_none))"

lemma scan_definite:
  "set_verdict_scan (Some d) ab vs =
     (if list_all (\<lambda>v. fv_side v = fv_side d) (filter definite vs) then d else verdict_none)"
  by (induction vs arbitrary: ab) (auto simp: definite_def)

lemma scan_open:
  "set_verdict_scan None ab vs =
     (case filter definite vs of
        d # ds \<Rightarrow> if list_all (\<lambda>v. fv_side v = fv_side d) ds then d else verdict_none
      | [] \<Rightarrow> (case ab of Some a \<Rightarrow> a | None \<Rightarrow> (case filter abstains vs of a # _ \<Rightarrow> a | [] \<Rightarrow> verdict_none)))"
  by (induction vs arbitrary: ab) (auto simp: definite_def abstains_def scan_definite split: option.split list.split)

text \<open>The scan over the roles computes the stated rule: the lowest definite verdict when all definite
  roles agree, no verdict when two of them name opposite sides, and otherwise the lowest
  abstention.\<close>

theorem set_verdict_is_the_rule:
  "ultrawidelock_satellite_set_verdict (Some ss) now =
     set_rule (map (\<lambda>s. ultrawidelock_satellite_verdict (Some s) now) ss)"
  by (simp add: ultrawidelock_satellite_set_verdict_def scan_open set_rule_def split: list.split)

text \<open>With one speaking role whose triangle fails, the set's verdict is not the role's verdict: the
  difference of the distances is lost.\<close>

theorem failed_triangle_loses_delta:
  "let s = foldl sat_step (ultrawidelock_satellite_init 0 (Some wit_sat_cfg) 0 True) [Observe 100 42 1000, Report 200 42 1200];
       q = ultrawidelock_satellite_init 0 None 0 True
   in fv_delta_mm (ultrawidelock_satellite_verdict (Some s) 1300) = - 100 \<and>
      fv_delta_mm (ultrawidelock_satellite_set_verdict (Some [s, q, q]) 1300) = 0"
  by code_simp

text \<open>A stale measurement of a block hides a fresh one of the same block: with an old entry for block
  42 in the ring (the blocks restart with each session), a fresh observation and a fresh report of
  block 42 that place the phone inside are not paired, and the passive gate permits.\<close>

theorem stale_entry_hides_fresh_pair:
  "let s = foldl sat_step (ultrawidelock_satellite_init 0 (Some wit_sat_cfg) 0 True)
         [Observe 2500 42 1000, Observe 500 42 9000, Report 3400 42 9100];
       s' = foldl sat_step (ultrawidelock_satellite_init 0 (Some wit_sat_cfg) 0 True)
         [Observe 500 42 9000, Report 3400 42 9100]
   in ultrawidelock_satellite_may_passive_unlock (Some s) 9200 \<and>
      \<not> ultrawidelock_satellite_may_passive_unlock (Some s') 9200"
  by code_simp

end
