(* ===== verification/Report.thy ===== *)
theory Report
  imports Checksum "HOL-Library.Monad_Syntax"
begin

text \<open>
  The range-report line codec (\<^verbatim>\<open>modules/ultrawidelock_anchor/src/ultrawidelock_report.c\<close>). A line is
  its list of bytes. The append helpers of the source write into a caller's buffer and set a
  sticky failure flag; the parser's scanner carries a sticky failure flag too, which is the
  option monad here.
\<close>

record range_report =
  rr_anchor_id :: u16
  rr_seq :: u32
  rr_us :: u64
  rr_d_mm :: int
  rr_quality :: u16
  rr_trust :: u8
  rr_flags :: u8
  rr_dropped :: u32
  rr_accepted :: u32

datatype report_error = REPORT_EINVAL | REPORT_ENOSPC | REPORT_EBADMSG

abbreviation REPORT_MAGIC :: bytes where "REPORT_MAGIC \<equiv> [0x41, 0x52, 0x50, 0x31]"
abbreviation ch_space :: u8 where "ch_space \<equiv> 0x20"
abbreviation ch_star :: u8 where "ch_star \<equiv> 0x2A"
abbreviation ch_minus :: u8 where "ch_minus \<equiv> 0x2D"
abbreviation ch_nl :: u8 where "ch_nl \<equiv> 0x0A"
abbreviation ch_cr :: u8 where "ch_cr \<equiv> 0x0D"

definition ultrawidelock_report_crc16 :: "bytes \<Rightarrow> u16" where
  "ultrawidelock_report_crc16 data = foldl crc16_byte 0xFFFF data"

section \<open>Formatting\<close>

definition dec_char :: "int \<Rightarrow> u8" where
  "dec_char d = 0x30 + word_of_int d"

text \<open>The digit loop, least significant first, into a buffer of \<open>k\<close> characters.\<close>

fun dec_loop :: "nat \<Rightarrow> int \<Rightarrow> int list" where
  "dec_loop 0 v = []"
| "dec_loop (Suc k) v = (if v = 0 then [] else v mod 10 # dec_loop k (v div 10))"

definition report_put_u64 :: "int \<Rightarrow> bytes" where
  "report_put_u64 v = (if v = 0 then [0x30] else map dec_char (rev (dec_loop 20 v)))"

definition report_put_i32 :: "int \<Rightarrow> bytes" where
  "report_put_i32 v = (if v < 0 then ch_minus # report_put_u64 (- v) else report_put_u64 v)"

definition hex_char :: "u16 \<Rightarrow> u8" where
  "hex_char n = (if n < 10 then 0x30 + ucast n else 0x41 + ucast n - 10)"

definition put_hex4 :: "u16 \<Rightarrow> bytes" where
  "put_hex4 v = map (\<lambda>i. hex_char (drop_bit (12 - 4 * i) v AND 0xF)) [0..<4]"

record app =
  app_buf :: bytes
  app_cap :: nat
  app_fail :: bool

text \<open>One append: a field that does not fit sets the flag and the line does not grow.\<close>

definition app_put :: "bytes \<Rightarrow> app \<Rightarrow> app" where
  "app_put xs a =
     (if app_fail a then a
      else if length xs > app_cap a - length (app_buf a) then a\<lparr>app_fail := True\<rparr>
      else a\<lparr>app_buf := app_buf a @ xs\<rparr>)"

definition app_u64 :: "int \<Rightarrow> app \<Rightarrow> app" where "app_u64 v = app_put (report_put_u64 v)"
definition app_i32 :: "int \<Rightarrow> app \<Rightarrow> app" where "app_i32 v = app_put (report_put_i32 v)"
definition app_ch :: "u8 \<Rightarrow> app \<Rightarrow> app" where "app_ch c = app_put [c]"

fun app_str :: "bytes \<Rightarrow> app \<Rightarrow> app" where
  "app_str [] a = a"
| "app_str (c # cs) a = (if app_fail a then a else app_str cs (app_ch c a))"

definition app_fields :: "range_report \<Rightarrow> app \<Rightarrow> app" where
  "app_fields r a =
     (let a = app_str REPORT_MAGIC a;
          a = app_u64 (uint (rr_anchor_id r)) (app_ch ch_space a);
          a = app_u64 (uint (rr_seq r)) (app_ch ch_space a);
          a = app_u64 (uint (ucast (drop_bit 32 (rr_us r)) :: u32)) (app_ch ch_space a);
          a = app_u64 (uint (ucast (rr_us r AND 0xFFFFFFFF) :: u32)) (app_ch ch_space a);
          a = app_i32 (rr_d_mm r) (app_ch ch_space a);
          a = app_u64 (uint (rr_quality r)) (app_ch ch_space a);
          a = app_u64 (uint (rr_trust r)) (app_ch ch_space a);
          a = app_u64 (uint (rr_flags r)) (app_ch ch_space a);
          a = app_u64 (uint (rr_dropped r)) (app_ch ch_space a)
      in app_u64 (uint (rr_accepted r)) (app_ch ch_space a))"

text \<open>The result is the line, or the error and what had been written to the buffer by then.\<close>

definition ultrawidelock_report_format :: "range_report option \<Rightarrow> nat \<Rightarrow> (report_error \<times> bytes) + bytes" where
  "ultrawidelock_report_format ro cap =
     (case ro of None \<Rightarrow> Inl (REPORT_EINVAL, [])
      | Some r \<Rightarrow>
          let a = app_fields r \<lparr>app_buf = [], app_cap = cap, app_fail = False\<rparr>
          in if app_fail a then Inl (REPORT_ENOSPC, app_buf a)
             else let crc = ultrawidelock_report_crc16 (app_buf a);
                      b = app_ch ch_star (app_ch ch_space a)
                  in if app_fail b then Inl (REPORT_ENOSPC, app_buf b)
                     else let c = app_put (put_hex4 crc) b
                          in if app_fail c then Inl (REPORT_ENOSPC, app_buf c)
                             else let d = app_ch ch_nl c
                                  in if app_fail d then Inl (REPORT_ENOSPC, app_buf d) else Inr (app_buf d))"

section \<open>Parsing\<close>

definition skip_space :: "bytes \<Rightarrow> bytes" where
  "skip_space p = dropWhile (\<lambda>c. c = ch_space) p"

definition is_digit :: "u8 \<Rightarrow> bool" where
  "is_digit c = (0x30 \<le> c \<and> c \<le> 0x39)"

fun scan_digits :: "int \<Rightarrow> int \<Rightarrow> nat \<Rightarrow> bytes \<Rightarrow> (int \<times> nat \<times> bytes) option" where
  "scan_digits limit v digits [] = Some (v, digits, [])"
| "scan_digits limit v digits (c # p) =
     (if is_digit c
      then let v' = v * 10 + uint (c - 0x30)
           in if v' > limit then None
              else if digits + 1 > 20 then None
              else scan_digits limit v' (digits + 1) p
      else Some (v, digits, c # p))"

definition scan_u64 :: "int \<Rightarrow> bytes \<Rightarrow> (int \<times> bytes) option" where
  "scan_u64 limit p =
     do {
       (v, digits, p') \<leftarrow> scan_digits limit 0 0 (skip_space p);
       if digits = 0 then None else Some (v, p')
     }"

definition scan_i32 :: "bytes \<Rightarrow> (int \<times> bytes) option" where
  "scan_i32 p =
     (let q = skip_space p;
          neg = (q \<noteq> [] \<and> hd q = ch_minus);
          q' = (if neg then tl q else q)
      in do {
           (mag, rest) \<leftarrow> scan_u64 (if neg then 2147483648 else 2147483647) q';
           Some (if neg then - mag else mag, rest)
         })"

definition scan_report :: "bytes \<Rightarrow> (range_report \<times> bytes) option" where
  "scan_report p =
     do {
       (anchor_id, p) \<leftarrow> scan_u64 65535 p;
       (seq, p) \<leftarrow> scan_u64 4294967295 p;
       (hi, p) \<leftarrow> scan_u64 4294967295 p;
       (lo, p) \<leftarrow> scan_u64 4294967295 p;
       (d_mm, p) \<leftarrow> scan_i32 p;
       (quality, p) \<leftarrow> scan_u64 65535 p;
       (trust, p) \<leftarrow> scan_u64 255 p;
       (flags, p) \<leftarrow> scan_u64 255 p;
       (dropped, p) \<leftarrow> scan_u64 4294967295 p;
       (accepted, p) \<leftarrow> scan_u64 4294967295 p;
       Some (\<lparr>rr_anchor_id = word_of_int anchor_id, rr_seq = word_of_int seq,
              rr_us = push_bit 32 (word_of_int hi) OR word_of_int lo, rr_d_mm = d_mm, rr_quality = word_of_int quality,
              rr_trust = word_of_int trust, rr_flags = word_of_int flags, rr_dropped = word_of_int dropped,
              rr_accepted = word_of_int accepted\<rparr>, p)
     }"

definition hex_val :: "u8 \<Rightarrow> u16 option" where
  "hex_val c =
     (if 0x30 \<le> c \<and> c \<le> 0x39 then Some (ucast (c - 0x30))
      else if 0x41 \<le> c \<and> c \<le> 0x46 then Some (ucast (c - 0x41 + 10))
      else if 0x61 \<le> c \<and> c \<le> 0x66 then Some (ucast (c - 0x61 + 10))
      else None)"

fun scan_hex :: "u16 \<Rightarrow> bytes \<Rightarrow> u16 option" where
  "scan_hex got [] = Some got"
| "scan_hex got (c # cs) = do { nib \<leftarrow> hex_val c; scan_hex (push_bit 4 got OR nib) cs }"

definition trim_eol :: "bytes \<Rightarrow> bytes" where
  "trim_eol l = rev (dropWhile (\<lambda>c. c = ch_nl \<or> c = ch_cr) (rev l))"

text \<open>One past the last star, 0 when there is none.\<close>

definition star_end :: "bytes \<Rightarrow> nat" where
  "star_end l = length l - length (takeWhile (\<lambda>c. c \<noteq> ch_star) (rev l))"

definition ultrawidelock_report_parse :: "bytes option \<Rightarrow> report_error + range_report" where
  "ultrawidelock_report_parse lo =
     (case lo of None \<Rightarrow> Inl REPORT_EINVAL
      | Some l \<Rightarrow>
          let line = trim_eol l; i = star_end line; covered = i - 2
          in if length line < 10 then Inl REPORT_EBADMSG
             else if take 4 line \<noteq> REPORT_MAGIC then Inl REPORT_EBADMSG
             else if i = 0 \<or> length line - i \<noteq> 4 then Inl REPORT_EBADMSG
             else if i < 2 \<or> line ! (i - 2) \<noteq> ch_space then Inl REPORT_EBADMSG
             else case scan_hex 0 (drop i line) of
                    None \<Rightarrow> Inl REPORT_EBADMSG
                  | Some got \<Rightarrow>
                      if ultrawidelock_report_crc16 (take covered line) \<noteq> got then Inl REPORT_EBADMSG
                      else case scan_report (drop 4 (take covered line)) of
                             None \<Rightarrow> Inl REPORT_EBADMSG
                           | Some (r, rest) \<Rightarrow> if skip_space rest \<noteq> [] then Inl REPORT_EBADMSG else Inr r)"

end
