(* ===== verification/Report_Proofs.thy ===== *)
theory Report_Proofs
  imports Report
begin

text \<open>
  The report line round trip. The decimal fields are related to one recursive specification of
  decimal notation (\<open>dec\<close>), then the scanner is shown to consume exactly one field at a time.
\<close>

section \<open>Decimal fields\<close>

function dec :: "int \<Rightarrow> int list" where
  "dec v = (if v < 10 then [v] else dec (v div 10) @ [v mod 10])"
  by pat_completeness auto
termination by (relation "measure nat") auto

declare dec.simps [simp del]

lemma dec_loop_dec: "0 < v \<Longrightarrow> v < 10 ^ k \<Longrightarrow> rev (dec_loop k v) = dec v"
proof (induction k arbitrary: v)
  case (Suc k)
  show ?case
  proof (cases "v < 10")
    case True
    then have "v div 10 = 0" "v mod 10 = v" using Suc.prems by auto
    then show ?thesis using Suc.prems True by (cases k) (simp_all add: dec.simps [of v])
  next
    case False
    then have "0 < v div 10" "v div 10 < 10 ^ k" using Suc.prems by auto
    then show ?thesis using Suc False by (simp add: dec.simps [of v])
  qed
qed simp

lemma report_put_u64_dec: "0 \<le> v \<Longrightarrow> v < 10 ^ 20 \<Longrightarrow> report_put_u64 v = map dec_char (dec v)"
  by (auto simp: report_put_u64_def dec_loop_dec dec.simps [of 0] dec_char_def)

lemma dec_digits: "0 \<le> v \<Longrightarrow> d \<in> set (dec v) \<Longrightarrow> 0 \<le> d \<and> d \<le> 9"
proof (induction v rule: dec.induct)
  case (1 v)
  then show ?case by (cases "v < 10") (auto simp: dec.simps [of v])
qed

lemma length_dec: "0 \<le> v \<Longrightarrow> v < 10 ^ Suc k \<Longrightarrow> length (dec v) \<le> Suc k"
proof (induction k arbitrary: v)
  case (Suc k)
  show ?case
  proof (cases "v < 10")
    case False
    then have "length (dec (v div 10)) \<le> Suc k" using Suc.prems by (intro Suc.IH) auto
    then show ?thesis using False by (simp add: dec.simps [of v])
  qed (simp add: dec.simps [of v])
qed (simp add: dec.simps)

lemma dec_nonempty: "dec v \<noteq> []"
  by (simp add: dec.simps [of v])

lemma dec_char_digit: "0 \<le> d \<Longrightarrow> d \<le> 9 \<Longrightarrow> is_digit (dec_char d) \<and> uint (dec_char d - 0x30) = d"
proof -
  assume "0 \<le> d" "d \<le> 9"
  then have "d \<in> set [0, 1, 2, 3, 4, 5, 6, 7, 8, 9]" by (simp, presburger)
  moreover have "\<forall>d\<in>set [0, 1, 2, 3, 4, 5, 6, 7, 8, 9]. is_digit (dec_char d) \<and> uint (dec_char d - 0x30) = d"
    by code_simp
  ultimately show ?thesis by blast
qed

text \<open>The scanner reads a decimal field back, whatever follows.\<close>

lemma scan_dec:
  assumes "0 \<le> v" and "v \<le> limit" and "length (dec v) \<le> 20"
  shows "scan_digits limit 0 0 (map dec_char (dec v) @ cs) = scan_digits limit v (length (dec v)) cs"
  using assms
proof (induction v arbitrary: cs rule: dec.induct)
  case (1 v)
  show ?case
  proof (cases "v < 10")
    case True
    then show ?thesis using 1(2,3) dec_char_digit [of v] by (simp add: dec.simps [of v])
  next
    case False
    have "v div 10 * 10 + v mod 10 = v" by simp
    moreover have "0 \<le> v div 10" "v div 10 \<le> limit" "length (dec (v div 10)) < 20"
      using 1(2-4) False by (auto simp: dec.simps [of v])
    ultimately show ?thesis
      using 1(1) [OF False, of "dec_char (v mod 10) # cs"] 1(2,3) False dec_char_digit [of "v mod 10"]
      by (simp add: dec.simps [of v])
  qed
qed

definition stops :: "bytes \<Rightarrow> bool" where
  "stops cs \<longleftrightarrow> (case cs of [] \<Rightarrow> True | c # _ \<Rightarrow> \<not> is_digit c)"

lemma scan_digits_stops: "stops cs \<Longrightarrow> scan_digits limit v n cs = Some (v, n, cs)"
  by (cases cs) (simp_all add: stops_def)

lemma dec_char_not_space: "0 \<le> d \<Longrightarrow> d \<le> 9 \<Longrightarrow> dec_char d \<noteq> ch_space"
  using dec_char_digit [of d] by (auto simp: is_digit_def)

lemma skip_space_dec: "0 \<le> v \<Longrightarrow> skip_space (map dec_char (dec v) @ cs) = map dec_char (dec v) @ cs"
proof -
  assume v: "0 \<le> v"
  obtain d ds where "dec v = d # ds" using dec_nonempty [of v] by (cases "dec v") auto
  then show ?thesis
    using dec_digits [OF v, of d] dec_char_not_space [of d] by (simp add: skip_space_def)
qed

lemma scan_field:
  assumes "0 \<le> v" and "v \<le> limit" and "limit < 10 ^ 20" and "stops cs"
  shows "scan_u64 limit (ch_space # report_put_u64 v @ cs) = Some (v, cs)"
proof -
  have v: "v < 10 ^ Suc 19" using assms(2,3) by simp
  have "skip_space (ch_space # report_put_u64 v @ cs) = map dec_char (dec v) @ cs"
    using skip_space_dec [OF assms(1), of cs] report_put_u64_dec [OF assms(1)] v by (simp add: skip_space_def)
  then show ?thesis
    using scan_dec [OF assms(1,2)] length_dec [OF assms(1) v] scan_digits_stops [OF assms(4)] dec_nonempty [of v]
    by (simp add: scan_u64_def)
qed

lemma scan_u64_no_space:
  assumes "0 \<le> v" and "v \<le> limit" and "limit < 10 ^ 20" and "stops cs"
  shows "scan_u64 limit (report_put_u64 v @ cs) = Some (v, cs)"
  using scan_field [OF assms] by (simp add: scan_u64_def skip_space_def)

lemma minus_not_digit: "\<not> is_digit ch_minus" "\<not> is_digit ch_space"
  by (simp_all add: is_digit_def)

lemma report_put_u64_hd:
  assumes "0 \<le> v" and "v < 10 ^ 20"
  shows "report_put_u64 v \<noteq> [] \<and> hd (report_put_u64 v @ cs) \<noteq> ch_minus \<and> skip_space (report_put_u64 v @ cs) = report_put_u64 v @ cs"
proof -
  obtain d ds where d: "dec v = d # ds" using dec_nonempty [of v] by (cases "dec v") auto
  then have "is_digit (dec_char d)" using dec_digits [OF assms(1), of d] dec_char_digit [of d] by simp
  then show ?thesis
    using d report_put_u64_dec [OF assms] skip_space_dec [OF assms(1), of cs] minus_not_digit by auto
qed

lemma scan_i32_field:
  assumes "- 2147483648 \<le> v" and "v \<le> 2147483647" and "stops cs"
  shows "scan_i32 (ch_space # report_put_i32 v @ cs) = Some (v, cs)"
proof (cases "v < 0")
  case True
  then show ?thesis
    using scan_u64_no_space [of "- v" 2147483648 cs] assms
    by (simp add: scan_i32_def report_put_i32_def skip_space_def)
next
  case False
  then have h: "report_put_u64 v \<noteq> []" "hd (report_put_u64 v @ cs) \<noteq> ch_minus"
      "skip_space (ch_space # report_put_u64 v @ cs) = report_put_u64 v @ cs"
    using report_put_u64_hd [of v cs] assms(2) by (auto simp: skip_space_def)
  then show ?thesis
    using scan_u64_no_space [of v 2147483647 cs] assms False
    by (simp add: scan_i32_def report_put_i32_def Let_def)
qed

section \<open>The line\<close>

definition u64_field :: "int \<Rightarrow> bytes" where
  "u64_field v = ch_space # report_put_u64 v"

definition i32_field :: "int \<Rightarrow> bytes" where
  "i32_field v = ch_space # report_put_i32 v"

definition report_fields :: "range_report \<Rightarrow> bytes" where
  "report_fields r =
     u64_field (uint (rr_anchor_id r)) @ u64_field (uint (rr_seq r)) @
     u64_field (uint (ucast (drop_bit 32 (rr_us r)) :: u32)) @
     u64_field (uint (ucast (rr_us r AND 0xFFFFFFFF) :: u32)) @ i32_field (rr_d_mm r) @
     u64_field (uint (rr_quality r)) @ u64_field (uint (rr_trust r)) @ u64_field (uint (rr_flags r)) @
     u64_field (uint (rr_dropped r)) @ u64_field (uint (rr_accepted r))"

definition report_ok :: "range_report \<Rightarrow> bool" where
  "report_ok r \<longleftrightarrow> - 2147483648 \<le> rr_d_mm r \<and> rr_d_mm r \<le> 2147483647"

lemma length_u64_field: "0 \<le> v \<Longrightarrow> v < 10 ^ Suc k \<Longrightarrow> Suc k \<le> 20 \<Longrightarrow> length (u64_field v) \<le> Suc (Suc k)"
proof -
  assume v: "0 \<le> v" "v < 10 ^ Suc k" and k: "Suc k \<le> 20"
  have "(10::int) ^ Suc k \<le> 10 ^ 20" using k by (intro power_increasing) simp_all
  then have "v < 10 ^ 20" using v(2) by linarith
  then show ?thesis using length_dec [OF v] by (simp add: u64_field_def report_put_u64_dec v(1))
qed

lemma length_word_fields:
  "length (u64_field (uint (a::u8))) \<le> 4" "length (u64_field (uint (b::u16))) \<le> 6" "length (u64_field (uint (c::u32))) \<le> 11"
  using length_u64_field [of "uint a" 2] length_u64_field [of "uint b" 4] length_u64_field [of "uint c" 9]
    unsigned_less [of a, where 'a = int] unsigned_less [of b, where 'a = int] unsigned_less [of c, where 'a = int]
  by simp_all

lemma length_i32_field: "report_ok r \<Longrightarrow> length (i32_field (rr_d_mm r)) \<le> 12"
  using length_u64_field [of "- rr_d_mm r" 9] length_u64_field [of "rr_d_mm r" 9]
  by (auto simp: i32_field_def u64_field_def report_put_i32_def report_ok_def)

lemma length_report_fields: "report_ok r \<Longrightarrow> length (report_fields r) \<le> 87"
  using length_word_fields(1) [of "rr_trust r"] length_word_fields(1) [of "rr_flags r"]
    length_word_fields(2) [of "rr_anchor_id r"] length_word_fields(2) [of "rr_quality r"]
    length_word_fields(3) [of "rr_seq r"] length_word_fields(3) [of "ucast (drop_bit 32 (rr_us r))"]
    length_word_fields(3) [of "ucast (rr_us r AND 0xFFFFFFFF)"] length_word_fields(3) [of "rr_dropped r"]
    length_word_fields(3) [of "rr_accepted r"] length_i32_field [of r]
  by (simp add: report_fields_def)

text \<open>All appends of a line are one fold over its chunks.\<close>

lemma fold_app_put_fail: "app_fail a \<Longrightarrow> fold app_put xss a = a"
  by (induction xss) (simp_all add: app_put_def)

lemma fold_app_put_fits:
  "\<not> app_fail a \<Longrightarrow> length (app_buf a) + length (concat xss) \<le> app_cap a \<Longrightarrow>
   fold app_put xss a = a\<lparr>app_buf := app_buf a @ concat xss\<rparr>"
  by (induction xss arbitrary: a) (simp_all add: app_put_def)

lemma app_str_fold: "app_str xs a = fold app_put (map (\<lambda>c. [c]) xs) a"
proof (induction xs arbitrary: a)
  case (Cons c xs)
  then show ?case using fold_app_put_fail [of a "map (\<lambda>c. [c]) (c # xs)"] by (auto simp: app_ch_def)
qed simp

definition report_chunks :: "range_report \<Rightarrow> bytes list" where
  "report_chunks r =
     [[0x41], [0x52], [0x50], [0x31],
      [ch_space], report_put_u64 (uint (rr_anchor_id r)), [ch_space], report_put_u64 (uint (rr_seq r)),
      [ch_space], report_put_u64 (uint (ucast (drop_bit 32 (rr_us r)) :: u32)),
      [ch_space], report_put_u64 (uint (ucast (rr_us r AND 0xFFFFFFFF) :: u32)),
      [ch_space], report_put_i32 (rr_d_mm r), [ch_space], report_put_u64 (uint (rr_quality r)),
      [ch_space], report_put_u64 (uint (rr_trust r)), [ch_space], report_put_u64 (uint (rr_flags r)),
      [ch_space], report_put_u64 (uint (rr_dropped r)), [ch_space], report_put_u64 (uint (rr_accepted r))]"

lemma app_fields_fold: "app_fields r a = fold app_put (report_chunks r) a"
  by (simp only: app_fields_def app_str_fold app_ch_def app_u64_def app_i32_def report_chunks_def Let_def
      list.map fold_simps o_apply)

lemma concat_report_chunks: "concat (report_chunks r) = REPORT_MAGIC @ report_fields r"
  by (simp add: report_chunks_def report_fields_def u64_field_def i32_field_def)

lemma app_fields_fits:
  assumes "4 + length (report_fields r) \<le> cap"
  shows "app_fields r \<lparr>app_buf = [], app_cap = cap, app_fail = False\<rparr> =
    \<lparr>app_buf = REPORT_MAGIC @ report_fields r, app_cap = cap, app_fail = False\<rparr>"
  using assms fold_app_put_fits [of "\<lparr>app_buf = [], app_cap = cap, app_fail = False\<rparr>" "report_chunks r"]
  by (simp add: app_fields_fold concat_report_chunks)

definition report_line :: "range_report \<Rightarrow> bytes" where
  "report_line r = (let body = REPORT_MAGIC @ report_fields r
     in body @ [ch_space, ch_star] @ put_hex4 (ultrawidelock_report_crc16 body) @ [ch_nl])"

lemma length_put_hex4 [simp]: "length (put_hex4 v) = 4"
  by (simp add: put_hex4_def)

lemma report_format_line:
  "report_ok r \<Longrightarrow> 98 \<le> cap \<Longrightarrow> ultrawidelock_report_format (Some r) cap = Inr (report_line r)"
  using length_report_fields [of r]
  by (simp add: ultrawidelock_report_format_def app_fields_fits Let_def app_ch_def app_put_def report_line_def)

section \<open>Reading it back\<close>

lemma hex_val_char: "n < 16 \<Longrightarrow> hex_val (hex_char n) = Some n"
proof -
  assume "n < 16"
  then have "unat n \<in> set [0..<16]" by (simp add: word_less_nat_alt)
  then have "of_nat (unat n) \<in> set (map of_nat [0..<16] :: u16 list)" by (metis image_eqI list.set_map)
  moreover have "\<forall>n\<in>set (map of_nat [0..<16]). hex_val (hex_char n) = Some n" by code_simp
  ultimately show ?thesis by auto
qed

lemma mask4: "(0xF::u16) = mask 4"
  by (simp add: mask_eq_exp_minus_1)

lemma and_15_less: "x AND 0xF < (16::u16)"
proof -
  have "x AND 0xF \<le> 0xF" by (rule word_and_le1)
  also have "\<dots> < (16::u16)" by simp
  finally show ?thesis .
qed

lemma hex4_value:
  "push_bit 4 (push_bit 4 (push_bit 4 (drop_bit 12 v AND 0xF) OR (drop_bit 8 v AND 0xF)) OR (drop_bit 4 v AND 0xF)) OR
     (v AND 0xF) = (v::u16)"
proof (rule bit_word_eqI)
  fix n
  assume "n < LENGTH(16)"
  then consider "n < 4" | "4 \<le> n \<and> n < 8" | "8 \<le> n \<and> n < 12" | "12 \<le> n \<and> n < 16" by force
  then show "bit (push_bit 4 (push_bit 4 (push_bit 4 (drop_bit 12 v AND 0xF) OR (drop_bit 8 v AND 0xF)) OR
      (drop_bit 4 v AND 0xF)) OR (v AND 0xF)) n = bit v n"
    unfolding mask4 by cases (auto simp: bit_simps)
qed

lemma scan_put_hex4: "scan_hex 0 (put_hex4 v) = Some v"
proof -
  have "put_hex4 v = map hex_char [drop_bit 12 v AND 0xF, drop_bit 8 v AND 0xF, drop_bit 4 v AND 0xF, v AND 0xF]"
    by (simp add: put_hex4_def upt_rec)
  then show ?thesis
    using hex4_value [of v] by (simp add: hex_val_char and_15_less)
qed

lemma hex_char_plain: "n < 16 \<Longrightarrow> hex_char n \<noteq> ch_star \<and> hex_char n \<noteq> ch_nl \<and> hex_char n \<noteq> ch_cr"
  using hex_val_char [of n] by (auto simp: hex_val_def)

lemma put_hex4_plain: "c \<in> set (put_hex4 v) \<Longrightarrow> c \<noteq> ch_star \<and> c \<noteq> ch_nl \<and> c \<noteq> ch_cr"
  using hex_char_plain and_15_less by (auto simp: put_hex4_def)

lemma stops_fields [simp]:
  "stops (u64_field v @ cs)" "stops (i32_field w @ cs)" "stops (u64_field v)" "stops []"
  by (simp_all add: stops_def u64_field_def i32_field_def minus_not_digit)

lemma scan_u64_field:
  "0 \<le> v \<Longrightarrow> v \<le> limit \<Longrightarrow> limit < 10 ^ 20 \<Longrightarrow> stops cs \<Longrightarrow> scan_u64 limit (u64_field v @ cs) = Some (v, cs)"
  using scan_field [of v limit cs] by (simp add: u64_field_def)

lemma scan_word_field:
  "stops cs \<Longrightarrow> scan_u64 255 (u64_field (uint (a::u8)) @ cs) = Some (uint a, cs)"
  "stops cs \<Longrightarrow> scan_u64 65535 (u64_field (uint (b::u16)) @ cs) = Some (uint b, cs)"
  "stops cs \<Longrightarrow> scan_u64 4294967295 (u64_field (uint (c::u32)) @ cs) = Some (uint c, cs)"
  using scan_u64_field [of "uint a" 255 cs] scan_u64_field [of "uint b" 65535 cs] scan_u64_field [of "uint c" 4294967295 cs]
    unsigned_less [of a, where 'a = int] unsigned_less [of b, where 'a = int] unsigned_less [of c, where 'a = int]
  by simp_all

lemma mask32: "(0xFFFFFFFF::u64) = mask 32"
  by (simp add: mask_eq_exp_minus_1)

lemma us_halves: "push_bit 32 (ucast (ucast (drop_bit 32 u) :: u32)) OR ucast (ucast (u AND 0xFFFFFFFF) :: u32) = (u::u64)"
  unfolding mask32
proof (rule bit_word_eqI)
  fix n
  assume "n < LENGTH(64)"
  then consider "n < 32" | "32 \<le> n \<and> n < 64" by force
  then show "bit (push_bit 32 (ucast (ucast (drop_bit 32 u) :: u32)) OR ucast (ucast (u AND mask 32) :: u32) :: u64) n = bit u n"
    by cases (auto simp: bit_simps)
qed

lemma scan_report_fields:
  assumes "report_ok r"
  shows "scan_report (report_fields r) = Some (r, [])"
proof -
  have "scan_i32 (i32_field (rr_d_mm r) @ cs) = Some (rr_d_mm r, cs)" if "stops cs" for cs
    using scan_i32_field [of "rr_d_mm r" cs] assms that by (simp add: i32_field_def report_ok_def)
  then show ?thesis
    using us_halves [of "rr_us r"] scan_word_field(3) [of "[]" "rr_accepted r"]
    by (simp add: scan_report_def report_fields_def scan_word_field)
qed

lemma trim_report: "trim_eol (body @ [ch_space, ch_star] @ put_hex4 v @ [ch_nl]) = body @ [ch_space, ch_star] @ put_hex4 v"
proof -
  obtain hs h where h: "put_hex4 v = hs @ [h]"
    using length_put_hex4 [of v] by (metis append_butlast_last_id list.size(3) zero_neq_numeral)
  then have "h \<noteq> ch_nl \<and> h \<noteq> ch_cr" using put_hex4_plain [of h v] by simp
  then show ?thesis by (simp add: trim_eol_def h)
qed

lemma star_report: "star_end (body @ [ch_space, ch_star] @ put_hex4 v) = length body + 2"
proof -
  have "takeWhile (\<lambda>c. c \<noteq> ch_star) (rev (put_hex4 v) @ ch_star # ch_space # rev body) = rev (put_hex4 v)"
    using put_hex4_plain [of _ v] by (subst takeWhile_append2) auto
  then show ?thesis by (simp add: star_end_def)
qed

text \<open>What the parser does with a line of the right shape.\<close>

lemma parse_shape:
  assumes "4 \<le> length body"
  shows "ultrawidelock_report_parse (Some (body @ [ch_space, ch_star] @ put_hex4 v @ [ch_nl])) =
    (if take 4 body \<noteq> REPORT_MAGIC \<or> ultrawidelock_report_crc16 body \<noteq> v then Inl REPORT_EBADMSG
     else case scan_report (drop 4 body) of
            None \<Rightarrow> Inl REPORT_EBADMSG
          | Some (r, rest) \<Rightarrow> if skip_space rest \<noteq> [] then Inl REPORT_EBADMSG else Inr r)"
proof -
  let ?l = "body @ [ch_space, ch_star] @ put_hex4 v"
  have "take 4 ?l = take 4 body" "drop (length body + 2) ?l = put_hex4 v" "take (length body) ?l = body"
    "?l ! length body = ch_space" "length ?l = length body + 6"
    using assms by (simp_all add: nth_append)
  then show ?thesis
    using assms unfolding ultrawidelock_report_parse_def
    by (simp add: trim_report [simplified] star_report [simplified] Let_def scan_put_hex4 split: option.split)
qed

text \<open>A report line reads back as the report. Every report whose distance fits its 32 bits
  is rendered in at most 98 characters (the announced maximum is 128), and parsing that line
  returns exactly the report.\<close>

theorem report_roundtrip:
  assumes "report_ok r" and "98 \<le> cap"
  shows "\<exists>line. ultrawidelock_report_format (Some r) cap = Inr line \<and> length line \<le> 98 \<and>
    ultrawidelock_report_parse (Some line) = Inr r"
proof -
  let ?b = "REPORT_MAGIC @ report_fields r"
  have "report_line r = ?b @ [ch_space, ch_star] @ put_hex4 (ultrawidelock_report_crc16 ?b) @ [ch_nl]"
    by (simp add: report_line_def)
  moreover have "ultrawidelock_report_parse (Some (?b @ [ch_space, ch_star] @ put_hex4 (ultrawidelock_report_crc16 ?b) @ [ch_nl])) = Inr r"
    by (subst parse_shape) (simp_all add: scan_report_fields [OF assms(1)] skip_space_def)
  ultimately show ?thesis
    using report_format_line [OF assms] length_report_fields [OF assms(1)] by simp
qed

definition wit_report :: range_report where
  "wit_report = \<lparr>rr_anchor_id = 7, rr_seq = 12345, rr_us = 0x1234567890AB, rr_d_mm = - 42, rr_quality = 900,
     rr_trust = 3, rr_flags = 1, rr_dropped = 0, rr_accepted = 99\<rparr>"

theorem report_roundtrip_witness:
  "\<exists>line. ultrawidelock_report_format (Some wit_report) 128 = Inr line \<and> length line \<le> 98 \<and>
     ultrawidelock_report_parse (Some line) = Inr wit_report"
  by (rule report_roundtrip) (simp_all add: report_ok_def wit_report_def)

text \<open>A damaged report is never read as another report: changing any single byte of the covered part
  of a rendered line makes the parser reject it.\<close>

theorem report_corruption_rejected:
  assumes "report_ok r" and "98 \<le> cap" and "ultrawidelock_report_format (Some r) cap = Inr line"
    and "i < length line - 7" and "x \<noteq> line ! i"
  shows "ultrawidelock_report_parse (Some (line[i := x])) = Inl REPORT_EBADMSG"
proof -
  define b where "b = REPORT_MAGIC @ report_fields r"
  let ?t = "[ch_space, ch_star] @ put_hex4 (ultrawidelock_report_crc16 b) @ [ch_nl]"
  have line: "line = b @ ?t" using report_format_line [OF assms(1,2)] assms(3) by (simp add: report_line_def b_def)
  have len: "4 \<le> length b" by (simp add: b_def)
  have i: "i < length b" "x \<noteq> b ! i" using assms(4,5) by (simp_all add: line nth_append)
  then have "ultrawidelock_report_crc16 (b[i := x]) \<noteq> ultrawidelock_report_crc16 b"
    unfolding ultrawidelock_report_crc16_def by (rule crc16.single_byte_detected)
  moreover have "line[i := x] = b[i := x] @ ?t" unfolding line using i(1) by (rule list_update_append1)
  ultimately show ?thesis using parse_shape [of "b[i := x]"] len by simp
qed

theorem report_corruption_rejected_witness:
  "\<exists>line. ultrawidelock_report_format (Some wit_report) 128 = Inr line \<and>
     ultrawidelock_report_parse (Some (line[4 := 0x30])) = Inl REPORT_EBADMSG"
proof -
  have ok: "report_ok wit_report" by (simp add: report_ok_def wit_report_def)
  let ?l = "report_line wit_report"
  have f: "ultrawidelock_report_format (Some wit_report) 128 = Inr ?l" by (rule report_format_line [OF ok]) simp
  have "?l ! 4 = ch_space" "4 < length ?l - 7"
    by (simp_all add: report_line_def report_fields_def u64_field_def)
  then show ?thesis using report_corruption_rejected [OF ok _ f, of 4 "0x30"] f by simp
qed

text \<open>A buffer that is too small does receive the beginning of the line.\<close>

lemma short_buffer_gets_a_partial_line:
  "ultrawidelock_report_format (Some wit_report) 10 = Inl (REPORT_ENOSPC, REPORT_MAGIC @ [ch_space, 0x37, ch_space])"
  by code_simp

end
