(* ===== verification/Witness_Msg.thy ===== *)
theory Witness_Msg
  imports Prelude
begin

text \<open>
  The three messages of the sealed peer link (\<^verbatim>\<open>ultrawidelock_witness_msg.c\<close>): the BLE
  witness report WV2, the second anchor's report WV3 and the session handoff WV4, with their
  codecs, and the replay window the link keeps per peer. An encoder returns \<^const>\<open>None\<close>
  where the source returns 0 bytes, a decoder where it returns false.

  Each decoder accepts exactly the image of its encoder: decoding an encoded message gives the
  message back, and encoding a decoded message gives the datagram back byte for byte.
\<close>

section \<open>Messages\<close>

abbreviation WITNESS_MSG_VER :: u8 where "WITNESS_MSG_VER \<equiv> 2"
abbreviation ANCHOR_MSG_VER :: u8 where "ANCHOR_MSG_VER \<equiv> 3"
abbreviation JOIN_MSG_VER :: u8 where "JOIN_MSG_VER \<equiv> 4"
abbreviation WITNESS_MSG_MAX_TUPLES :: nat where "WITNESS_MSG_MAX_TUPLES \<equiv> 8"
abbreviation WITNESS_MSG_HDR_LEN :: nat where "WITNESS_MSG_HDR_LEN \<equiv> 21"
abbreviation WITNESS_MSG_TUPLE_LEN :: nat where "WITNESS_MSG_TUPLE_LEN \<equiv> 5"
abbreviation ANCHOR_MSG_LEN :: nat where "ANCHOR_MSG_LEN \<equiv> 24"
abbreviation JOIN_URSK_LEN :: nat where "JOIN_URSK_LEN \<equiv> 32"
abbreviation JOIN_RCFG_LEN :: nat where "JOIN_RCFG_LEN \<equiv> 17"
abbreviation JOIN_MSG_LEN :: nat where "JOIN_MSG_LEN \<equiv> 60"
abbreviation WITNESS_ROLE_INSIDE :: u8 where "WITNESS_ROLE_INSIDE \<equiv> 1"
abbreviation WITNESS_ROLE_OUTSIDE :: u8 where "WITNESS_ROLE_OUTSIDE \<equiv> 2"
abbreviation WITNESS_ROLE_THRESHOLD :: u8 where "WITNESS_ROLE_THRESHOLD \<equiv> 3"

record witness_tuple =
  wt_hash24 :: u32
  wt_mean_dbm :: int
  wt_n_pkts :: u8

record witness_msg =
  wm_ver :: u8
  wm_role :: u8
  wm_boot_id :: u32
  wm_ctr :: u32
  wm_echo_nonce :: u64
  wm_window_ms :: u16
  wm_n_tuples :: u8
  wm_tuples :: "witness_tuple list"

record anchor_msg =
  am_ver :: u8
  am_role :: u8
  am_boot_id :: u32
  am_ctr :: u32
  am_echo_nonce :: u64
  am_ranging_block :: u16
  am_peer_mm :: int

record join_msg =
  jm_ver :: u8
  jm_boot_id :: u32
  jm_ctr :: u32
  jm_ursk :: bytes
  jm_rcfg :: bytes
  jm_channel :: u8
  jm_sync_code_index :: u8

definition role_known :: "u8 \<Rightarrow> bool" where
  "role_known role \<longleftrightarrow> role = WITNESS_ROLE_INSIDE \<or> role = WITNESS_ROLE_OUTSIDE \<or> role = WITNESS_ROLE_THRESHOLD"

section \<open>WV2, the witness report\<close>

definition put_tuple :: "witness_tuple \<Rightarrow> bytes" where
  "put_tuple t = (let h = wt_hash24 t AND 0x00FFFFFF
     in [ucast (drop_bit 16 h), ucast (drop_bit 8 h), ucast h, word_of_int (wt_mean_dbm t), wt_n_pkts t])"

definition ultrawidelock_witness_msg_encode :: "witness_msg \<Rightarrow> nat \<Rightarrow> bytes option" where
  "ultrawidelock_witness_msg_encode msg cap =
     (if WITNESS_MSG_MAX_TUPLES < unat (wm_n_tuples msg) then None
      else if \<not> role_known (wm_role msg) then None
      else if cap < WITNESS_MSG_HDR_LEN + unat (wm_n_tuples msg) * WITNESS_MSG_TUPLE_LEN then None
      else Some ([wm_ver msg, wm_role msg] @ put_u32 (wm_boot_id msg) @ put_u32 (wm_ctr msg) @
        put_u64 (wm_echo_nonce msg) @ put_u16 (wm_window_ms msg) @ [wm_n_tuples msg] @
        concat (map put_tuple (take (unat (wm_n_tuples msg)) (wm_tuples msg)))))"

definition get_tuple :: "bytes \<Rightarrow> witness_tuple" where
  "get_tuple p = \<lparr> wt_hash24 = push_bit 16 (ucast (p ! 0)) OR push_bit 8 (ucast (p ! 1)) OR ucast (p ! 2),
     wt_mean_dbm = sint (p ! 3), wt_n_pkts = p ! 4 \<rparr>"

fun get_tuples :: "nat \<Rightarrow> bytes \<Rightarrow> witness_tuple list" where
  "get_tuples 0 p = []"
| "get_tuples (Suc n) p = get_tuple p # get_tuples n (drop WITNESS_MSG_TUPLE_LEN p)"

definition tuple_zero :: witness_tuple where
  "tuple_zero = \<lparr> wt_hash24 = 0, wt_mean_dbm = 0, wt_n_pkts = 0 \<rparr>"

definition ultrawidelock_witness_msg_decode :: "bytes \<Rightarrow> witness_msg option" where
  "ultrawidelock_witness_msg_decode buf =
     (if length buf < WITNESS_MSG_HDR_LEN then None
      else if buf ! 0 \<noteq> WITNESS_MSG_VER then None
      else if \<not> role_known (buf ! 1) then None
      else (let n = unat (buf ! 20)
        in if WITNESS_MSG_MAX_TUPLES < n then None
           else if length buf \<noteq> WITNESS_MSG_HDR_LEN + n * WITNESS_MSG_TUPLE_LEN then None
           else Some \<lparr> wm_ver = buf ! 0, wm_role = buf ! 1, wm_boot_id = get_u32 (drop 2 buf),
             wm_ctr = get_u32 (drop 6 buf), wm_echo_nonce = get_u64 (drop 10 buf),
             wm_window_ms = get_u16 (drop 18 buf), wm_n_tuples = buf ! 20,
             wm_tuples = get_tuples n (drop 21 buf) @ replicate (WITNESS_MSG_MAX_TUPLES - n) tuple_zero \<rparr>))"

definition ultrawidelock_witness_msg_find :: "witness_msg \<Rightarrow> u32 \<Rightarrow> witness_tuple option" where
  "ultrawidelock_witness_msg_find msg hash24 =
     List.find (\<lambda>t. 0 < wt_n_pkts t \<and> wt_hash24 t = hash24 AND 0x00FFFFFF)
       (take (min (unat (wm_n_tuples msg)) WITNESS_MSG_MAX_TUPLES) (wm_tuples msg))"

definition ultrawidelock_witness_msg_at :: "witness_msg \<Rightarrow> u8 \<Rightarrow> witness_tuple option" where
  "ultrawidelock_witness_msg_at msg idx =
     (if wm_n_tuples msg \<le> idx \<or> WITNESS_MSG_MAX_TUPLES \<le> unat idx then None
      else if wt_n_pkts (wm_tuples msg ! unat idx) = 0 then None
      else Some (wm_tuples msg ! unat idx))"

section \<open>The replay window\<close>

record witness_seen =
  ws_boot_id :: u32
  ws_ctr :: u32
  ws_have :: bool

definition ultrawidelock_seen_accept_ctr :: "witness_seen \<Rightarrow> u32 \<Rightarrow> u32 \<Rightarrow> bool \<times> witness_seen" where
  "ultrawidelock_seen_accept_ctr seen boot_id ctr =
     (if ws_have seen \<and> ws_boot_id seen = boot_id \<and> ctr \<le> ws_ctr seen then (False, seen)
      else (True, seen\<lparr> ws_boot_id := boot_id, ws_ctr := ctr, ws_have := True \<rparr>))"

definition ultrawidelock_witness_seen_accept :: "witness_seen \<Rightarrow> witness_msg option \<Rightarrow> bool \<times> witness_seen" where
  "ultrawidelock_witness_seen_accept seen msg =
     (case msg of None \<Rightarrow> (False, seen)
      | Some m \<Rightarrow> ultrawidelock_seen_accept_ctr seen (wm_boot_id m) (wm_ctr m))"

section \<open>WV3, the anchor report\<close>

definition ultrawidelock_msg_is_anchor :: "bytes \<Rightarrow> bool" where
  "ultrawidelock_msg_is_anchor buf \<longleftrightarrow> 1 \<le> length buf \<and> buf ! 0 = ANCHOR_MSG_VER"

definition ultrawidelock_anchor_msg_encode :: "anchor_msg \<Rightarrow> nat \<Rightarrow> bytes option" where
  "ultrawidelock_anchor_msg_encode msg cap =
     (if \<not> role_known (am_role msg) then None
      else if cap < ANCHOR_MSG_LEN then None
      else Some ([ANCHOR_MSG_VER, am_role msg] @ put_u32 (am_boot_id msg) @ put_u32 (am_ctr msg) @
        put_u64 (am_echo_nonce msg) @ put_u16 (am_ranging_block msg) @ put_u32 (word_of_int (am_peer_mm msg))))"

definition ultrawidelock_anchor_msg_decode :: "bytes \<Rightarrow> anchor_msg option" where
  "ultrawidelock_anchor_msg_decode buf =
     (if buf ! 0 \<noteq> ANCHOR_MSG_VER then None
      else if length buf \<noteq> ANCHOR_MSG_LEN then None
      else if \<not> role_known (buf ! 1) then None
      else Some \<lparr> am_ver = buf ! 0, am_role = buf ! 1, am_boot_id = get_u32 (drop 2 buf),
        am_ctr = get_u32 (drop 6 buf), am_echo_nonce = get_u64 (drop 10 buf),
        am_ranging_block = get_u16 (drop 18 buf), am_peer_mm = sint (get_u32 (drop 20 buf)) \<rparr>)"

section \<open>WV4, the session handoff\<close>

definition ultrawidelock_msg_is_join :: "bytes \<Rightarrow> bool" where
  "ultrawidelock_msg_is_join buf \<longleftrightarrow> 1 \<le> length buf \<and> buf ! 0 = JOIN_MSG_VER"

definition ultrawidelock_join_msg_encode :: "join_msg \<Rightarrow> nat \<Rightarrow> bytes option" where
  "ultrawidelock_join_msg_encode msg cap =
     (if cap < JOIN_MSG_LEN then None
      else Some ([JOIN_MSG_VER] @ put_u32 (jm_boot_id msg) @ put_u32 (jm_ctr msg) @
        take JOIN_URSK_LEN (jm_ursk msg) @ take JOIN_RCFG_LEN (jm_rcfg msg) @
        [jm_channel msg, jm_sync_code_index msg]))"

definition ultrawidelock_join_msg_decode :: "bytes \<Rightarrow> join_msg option" where
  "ultrawidelock_join_msg_decode buf =
     (if buf ! 0 \<noteq> JOIN_MSG_VER then None
      else if length buf \<noteq> JOIN_MSG_LEN then None
      else Some \<lparr> jm_ver = buf ! 0, jm_boot_id = get_u32 (drop 1 buf), jm_ctr = get_u32 (drop 5 buf),
        jm_ursk = take JOIN_URSK_LEN (drop 9 buf), jm_rcfg = take JOIN_RCFG_LEN (drop 41 buf),
        jm_channel = buf ! 58, jm_sync_code_index = buf ! 59 \<rparr>)"

section \<open>Codec laws\<close>

text \<open>
  What the link relies on for each message: on the well-formed messages the encoder succeeds
  and the decoder inverts it, and whatever the decoder accepts is such a datagram.
\<close>

locale wire_codec =
  fixes enc :: "'m \<Rightarrow> bytes option" and dec :: "bytes \<Rightarrow> 'm option" and wf :: "'m \<Rightarrow> bool"
  assumes dec_of_enc: "wf m \<Longrightarrow> \<exists>b. enc m = Some b \<and> dec b = Some m"
    and enc_of_dec: "dec b = Some m \<Longrightarrow> wf m \<and> enc m = Some b"
begin

lemma accepts_exactly_image: "dec b \<noteq> None \<longleftrightarrow> (\<exists>m. wf m \<and> enc m = Some b)"
  using dec_of_enc enc_of_dec by fastforce

lemma dec_inj: "dec b = Some m \<Longrightarrow> dec b' = Some m \<Longrightarrow> b = b'"
  by (metis enc_of_dec option.inject)

lemma dec_iff_enc: "dec b = Some m \<longleftrightarrow> wf m \<and> enc m = Some b"
  using dec_of_enc enc_of_dec by fastforce

end

lemma buf_split2: "2 \<le> length buf \<Longrightarrow> (buf::bytes) ! 0 # buf ! Suc 0 # drop 2 buf = buf"
  by (cases buf rule: get_u16.cases) auto

subsection \<open>WV3\<close>

definition anchor_msg_ok :: "anchor_msg \<Rightarrow> bool" where
  "anchor_msg_ok m \<longleftrightarrow> am_ver m = ANCHOR_MSG_VER \<and> role_known (am_role m) \<and>
     - 2147483648 \<le> am_peer_mm m \<and> am_peer_mm m < 2147483648"

lemma anchor_dec_of_enc:
  assumes "anchor_msg_ok m" and "ANCHOR_MSG_LEN \<le> cap"
  shows "\<exists>b. ultrawidelock_anchor_msg_encode m cap = Some b \<and> length b = ANCHOR_MSG_LEN \<and>
           ultrawidelock_anchor_msg_decode b = Some m"
proof -
  have "sint (word_of_int (am_peer_mm m) :: u32) = am_peer_mm m"
    using assms(1) to_i32_id by (auto simp: anchor_msg_ok_def to_i32_def)
  moreover have "get_u32 (put_u32 v) = v" for v
    using get_put_u32 [of v "[]"] by simp
  ultimately show ?thesis
    using assms
    by (cases m) (auto simp: anchor_msg_ok_def ultrawidelock_anchor_msg_encode_def ultrawidelock_anchor_msg_decode_def)
qed

lemma anchor_enc_of_dec:
  assumes "ultrawidelock_anchor_msg_decode b = Some m"
  shows "anchor_msg_ok m \<and> ultrawidelock_anchor_msg_encode m ANCHOR_MSG_LEN = Some b"
proof -
  have len: "length b = 24" and m: "m = \<lparr> am_ver = b ! 0, am_role = b ! 1, am_boot_id = get_u32 (drop 2 b),
        am_ctr = get_u32 (drop 6 b), am_echo_nonce = get_u64 (drop 10 b),
        am_ranging_block = get_u16 (drop 18 b), am_peer_mm = sint (get_u32 (drop 20 b)) \<rparr>"
    and v: "b ! 0 = ANCHOR_MSG_VER" and r: "role_known (b ! 1)"
    using assms by (auto simp: ultrawidelock_anchor_msg_decode_def split: if_splits)
  have "- 2147483648 \<le> sint w \<and> sint w < 2147483648" for w :: u32
    using sint_range_size [of w] by (simp add: word_size)
  then have "anchor_msg_ok m"
    using m v r by (simp add: anchor_msg_ok_def)
  moreover have "put_u32 (get_u32 (drop 2 b)) @ put_u32 (get_u32 (drop 6 b)) @ put_u64 (get_u64 (drop 10 b)) @
      put_u16 (get_u16 (drop 18 b)) @ put_u32 (get_u32 (drop 20 b)) = drop 2 b"
    using len by (simp add: put_get_u16 put_get_u32 put_get_u64 fields_join)
  ultimately show ?thesis
    using m v r len buf_split2 [of b] by (simp add: ultrawidelock_anchor_msg_encode_def)
qed

interpretation anchor: wire_codec "\<lambda>m. ultrawidelock_anchor_msg_encode m ANCHOR_MSG_LEN"
    ultrawidelock_anchor_msg_decode anchor_msg_ok
  using anchor_dec_of_enc [OF _ order_refl] by unfold_locales (blast, erule anchor_enc_of_dec)

subsection \<open>WV4\<close>

definition join_msg_ok :: "join_msg \<Rightarrow> bool" where
  "join_msg_ok m \<longleftrightarrow> jm_ver m = JOIN_MSG_VER \<and> length (jm_ursk m) = JOIN_URSK_LEN \<and> length (jm_rcfg m) = JOIN_RCFG_LEN"

lemma join_dec_of_enc:
  assumes "join_msg_ok m" and "JOIN_MSG_LEN \<le> cap"
  shows "\<exists>b. ultrawidelock_join_msg_encode m cap = Some b \<and> length b = JOIN_MSG_LEN \<and>
           ultrawidelock_join_msg_decode b = Some m"
  using assms
  by (cases m) (auto simp: join_msg_ok_def ultrawidelock_join_msg_encode_def ultrawidelock_join_msg_decode_def nth_append)

lemma join_enc_of_dec:
  assumes "ultrawidelock_join_msg_decode b = Some m"
  shows "join_msg_ok m \<and> ultrawidelock_join_msg_encode m JOIN_MSG_LEN = Some b"
proof -
  have len: "length b = 60" and m: "m = \<lparr> jm_ver = b ! 0, jm_boot_id = get_u32 (drop 1 b), jm_ctr = get_u32 (drop 5 b),
        jm_ursk = take JOIN_URSK_LEN (drop 9 b), jm_rcfg = take JOIN_RCFG_LEN (drop 41 b),
        jm_channel = b ! 58, jm_sync_code_index = b ! 59 \<rparr>" and v: "b ! 0 = JOIN_MSG_VER"
    using assms by (auto simp: ultrawidelock_join_msg_decode_def split: if_splits)
  have "[b ! 58, b ! 59] = drop 58 b"
    using len by (auto simp: list_eq_iff_nth_eq nth_Cons split: nat.split)
  then have "put_u32 (get_u32 (drop 1 b)) @ put_u32 (get_u32 (drop 5 b)) @ take 32 (drop 9 b) @ take 17 (drop 41 b) @
      [b ! 58, b ! 59] = drop 1 b"
    using len by (simp add: put_get_u32 fields_join)
  moreover have "b ! 0 # drop 1 b = b"
    using len by (cases b) auto
  ultimately show ?thesis
    using m v len by (simp add: join_msg_ok_def ultrawidelock_join_msg_encode_def)
qed

interpretation join: wire_codec "\<lambda>m. ultrawidelock_join_msg_encode m JOIN_MSG_LEN"
    ultrawidelock_join_msg_decode join_msg_ok
  using join_dec_of_enc [OF _ order_refl] by unfold_locales (blast, erule join_enc_of_dec)

subsection \<open>WV2\<close>

definition tuple_ok :: "witness_tuple \<Rightarrow> bool" where
  "tuple_ok t \<longleftrightarrow> wt_hash24 t AND 0x00FFFFFF = wt_hash24 t \<and> - 128 \<le> wt_mean_dbm t \<and> wt_mean_dbm t < 128"

text \<open>A message as the decoder leaves it: the slots beyond the count are the zeroes of the \<^verbatim>\<open>memset\<close>.\<close>

definition witness_msg_ok :: "witness_msg \<Rightarrow> bool" where
  "witness_msg_ok m \<longleftrightarrow> wm_ver m = WITNESS_MSG_VER \<and> role_known (wm_role m) \<and> unat (wm_n_tuples m) \<le> WITNESS_MSG_MAX_TUPLES \<and>
     length (wm_tuples m) = WITNESS_MSG_MAX_TUPLES \<and> list_all tuple_ok (take (unat (wm_n_tuples m)) (wm_tuples m)) \<and>
     drop (unat (wm_n_tuples m)) (wm_tuples m) = replicate (WITNESS_MSG_MAX_TUPLES - unat (wm_n_tuples m)) tuple_zero"

lemma length_put_tuple [simp]: "length (put_tuple t) = 5"
  by (simp add: put_tuple_def Let_def)

lemma mask24: "(0x00FFFFFF::u32) = mask 24"
  by (simp add: mask_eq_exp_minus_1)

lemma hash24_bytes:
  fixes h :: u32
  assumes "h AND 0x00FFFFFF = h"
  shows "push_bit 16 (ucast (ucast (drop_bit 16 h) :: u8)) OR push_bit 8 (ucast (ucast (drop_bit 8 h) :: u8)) OR
      ucast (ucast h :: u8) = h"
proof (rule bit_word_eqI)
  fix n
  assume "n < LENGTH(32)"
  then consider "n < 8" | "8 \<le> n \<and> n < 16" | "16 \<le> n \<and> n < 24" | "24 \<le> n \<and> n < 32"
    by force
  moreover have "bit h n \<Longrightarrow> n < 24"
    by (subst (asm) assms [symmetric], unfold mask24) (simp add: bit_simps)
  ultimately show "bit (push_bit 16 (ucast (ucast (drop_bit 16 h) :: u8)) OR push_bit 8 (ucast (ucast (drop_bit 8 h) :: u8)) OR
      ucast (ucast h :: u8) :: u32) n = bit h n"
    by cases (auto simp: bit_simps)
qed

lemma get_put_tuple: "tuple_ok t \<Longrightarrow> get_tuple (put_tuple t @ r) = t"
  using sint_word_of_int_id [where 'a = 8, of "wt_mean_dbm t"]
  by (cases t) (simp add: get_tuple_def put_tuple_def Let_def tuple_ok_def hash24_bytes)

lemma put_get_tuple:
  assumes "5 \<le> length p"
  shows "put_tuple (get_tuple p) = take 5 p \<and> tuple_ok (get_tuple p)"
proof -
  obtain a b c d e r where p: "p = a # b # c # d # e # r"
    using assms by (cases p rule: get_u32.cases) (auto simp: Suc_le_length_iff)
  let ?h = "push_bit 16 (ucast a) OR push_bit 8 (ucast b) OR ucast c :: u32"
  have h: "?h AND 0x00FFFFFF = ?h"
    unfolding mask24 by (rule bit_word_eqI) (auto simp: bit_simps dest: bit_imp_le_length)
  have "ucast (drop_bit 16 ?h) = a" "ucast (drop_bit 8 ?h) = b" "ucast ?h = c"
    by (auto intro!: bit_word_eqI simp: bit_simps not_bit_beyond)
  moreover have "- 128 \<le> sint d \<and> sint d < 128"
    using sint_range_size [of d] by (simp add: word_size)
  ultimately show ?thesis
    using h unfolding p by (simp only: get_tuple_def put_tuple_def tuple_ok_def Let_def) (simp del: drop_bit_or)
qed

lemma get_tuples_put:
  "list_all tuple_ok ts \<Longrightarrow> get_tuples (length ts) (concat (map put_tuple ts)) = ts"
  by (induction ts) (simp_all add: get_put_tuple)

lemma put_tuples_get:
  "length p = n * WITNESS_MSG_TUPLE_LEN \<Longrightarrow>
   concat (map put_tuple (get_tuples n p)) = p \<and> list_all tuple_ok (get_tuples n p) \<and> length (get_tuples n p) = n"
proof (induction n arbitrary: p)
  case (Suc n)
  then show ?case
    using put_get_tuple [of p] Suc.IH [of "drop 5 p"] by auto
qed simp

lemma length_put_tuples [simp]: "length (concat (map put_tuple ts)) = length ts * WITNESS_MSG_TUPLE_LEN"
  by (induction ts) simp_all

lemma witness_dec_of_enc:
  assumes "witness_msg_ok m" and "WITNESS_MSG_HDR_LEN + WITNESS_MSG_MAX_TUPLES * WITNESS_MSG_TUPLE_LEN \<le> cap"
  shows "\<exists>b. ultrawidelock_witness_msg_encode m cap = Some b \<and> ultrawidelock_witness_msg_decode b = Some m"
proof -
  let ?n = "unat (wm_n_tuples m)"
  let ?ts = "take ?n (wm_tuples m)"
  have n: "length ?ts = ?n" "?n \<le> 8"
    using assms(1) by (simp_all add: witness_msg_ok_def)
  have "get_tuples ?n (concat (map put_tuple ?ts)) = ?ts"
    using assms(1) get_tuples_put [of ?ts] n by (simp add: witness_msg_ok_def)
  moreover have "?ts @ replicate (8 - ?n) tuple_zero = wm_tuples m"
    using assms(1) append_take_drop_id [of ?n "wm_tuples m"] by (simp add: witness_msg_ok_def)
  moreover have "21 + ?n * 5 \<le> cap"
    using n(2) assms(2) by linarith
  ultimately show ?thesis
    using assms(1) n
    by (cases m) (auto simp: witness_msg_ok_def ultrawidelock_witness_msg_encode_def ultrawidelock_witness_msg_decode_def
        nth_append Let_def not_le)
qed

lemma witness_enc_of_dec:
  assumes "ultrawidelock_witness_msg_decode b = Some m"
  shows "witness_msg_ok m \<and>
    ultrawidelock_witness_msg_encode m (WITNESS_MSG_HDR_LEN + WITNESS_MSG_MAX_TUPLES * WITNESS_MSG_TUPLE_LEN) = Some b"
proof -
  define n where "n = unat (b ! 20)"
  have len: "length b = 21 + n * 5" and n: "n \<le> 8" and v: "b ! 0 = WITNESS_MSG_VER" and r: "role_known (b ! 1)"
    and m: "m = \<lparr> wm_ver = b ! 0, wm_role = b ! 1, wm_boot_id = get_u32 (drop 2 b),
        wm_ctr = get_u32 (drop 6 b), wm_echo_nonce = get_u64 (drop 10 b), wm_window_ms = get_u16 (drop 18 b),
        wm_n_tuples = b ! 20, wm_tuples = get_tuples n (drop 21 b) @ replicate (8 - n) tuple_zero \<rparr>"
    using assms by (auto simp: ultrawidelock_witness_msg_decode_def Let_def n_def split: if_splits)
  have ts: "concat (map put_tuple (get_tuples n (drop 21 b))) = drop 21 b"
      "list_all tuple_ok (get_tuples n (drop 21 b))" "length (get_tuples n (drop 21 b)) = n"
    using put_tuples_get [of "drop 21 b" n] len by simp_all
  have "[b ! 20] = take 1 (drop 20 b)"
    using len by (intro byte_field) simp
  then have "put_u32 (get_u32 (drop 2 b)) @ put_u32 (get_u32 (drop 6 b)) @ put_u64 (get_u64 (drop 10 b)) @
      put_u16 (get_u16 (drop 18 b)) @ [b ! 20] @ drop 21 b = drop 2 b"
    using len by (simp add: put_get_u16 put_get_u32 put_get_u64 fields_join)
  then have "ultrawidelock_witness_msg_encode m 61 = Some b"
    using m v r len n ts buf_split2 [of b] by (simp add: ultrawidelock_witness_msg_encode_def flip: n_def)
  moreover have "witness_msg_ok m"
    using m v r n ts by (simp add: witness_msg_ok_def flip: n_def)
  ultimately show ?thesis by simp
qed

interpretation witness: wire_codec
    "\<lambda>m. ultrawidelock_witness_msg_encode m (WITNESS_MSG_HDR_LEN + WITNESS_MSG_MAX_TUPLES * WITNESS_MSG_TUPLE_LEN)"
    ultrawidelock_witness_msg_decode witness_msg_ok
  using witness_dec_of_enc [OF _ order_refl] by unfold_locales (blast, erule witness_enc_of_dec)

text \<open>The three decoders accept exactly the datagrams the encoders produce for well-formed
  messages, and give back the message that was encoded: no datagram decodes to a message that
  would be encoded differently, and no well-formed message is refused.\<close>

theorem link_codecs_exact:
  "(ultrawidelock_witness_msg_decode b = Some w \<longleftrightarrow>
      witness_msg_ok w \<and> ultrawidelock_witness_msg_encode w 61 = Some b) \<and>
   (ultrawidelock_anchor_msg_decode b = Some a \<longleftrightarrow>
      anchor_msg_ok a \<and> ultrawidelock_anchor_msg_encode a ANCHOR_MSG_LEN = Some b) \<and>
   (ultrawidelock_join_msg_decode b = Some j \<longleftrightarrow>
      join_msg_ok j \<and> ultrawidelock_join_msg_encode j JOIN_MSG_LEN = Some b)"
  using witness.dec_iff_enc anchor.dec_iff_enc join.dec_iff_enc by simp

end
