(* ===== verification/Link.thy ===== *)
theory Link
  imports Witness_Msg
begin

text \<open>
  The sealed peer link: the AES-CCM envelope (\<^verbatim>\<open>ultrawidelock_seal.c\<close>) and the link's decisions
  (\<^verbatim>\<open>ultrawidelock_link.c\<close>), as the lock and its satellites run them.

  AES-128-CCM itself is behind the primitive seam (\<^verbatim>\<open>ultrawidelock_prim.h\<close>, provided by PSA or
  mbedTLS): the two calls are the parameters \<open>ccm_encrypt\<close> and \<open>ccm_decrypt\<close>, taking key, nonce,
  input, tag length and output capacity, and returning \<^const>\<open>None\<close> for a negative status.
\<close>

type_synonym ccm = "bytes \<Rightarrow> bytes \<Rightarrow> bytes \<Rightarrow> nat \<Rightarrow> nat \<Rightarrow> bytes option"

section \<open>The envelope\<close>

abbreviation SEAL_KEY_LEN :: nat where "SEAL_KEY_LEN \<equiv> 16"
abbreviation SEAL_NONCE_LEN :: nat where "SEAL_NONCE_LEN \<equiv> 13"
abbreviation SEAL_TAG_LEN :: nat where "SEAL_TAG_LEN \<equiv> 8"
abbreviation SEALED :: "nat \<Rightarrow> nat" where "SEALED n \<equiv> 21 + n"

definition ultrawidelock_seal_nonce :: "u8 \<Rightarrow> u32 \<Rightarrow> u32 \<Rightarrow> bytes" where
  "ultrawidelock_seal_nonce role boot_id ctr =
     [role, ucast (drop_bit 24 boot_id), ucast (drop_bit 16 boot_id), ucast (drop_bit 8 boot_id), ucast boot_id,
      ucast (drop_bit 24 ctr), ucast (drop_bit 16 ctr), ucast (drop_bit 8 ctr), ucast ctr, 0, 0, 0, 0]"

definition ultrawidelock_seal :: "ccm \<Rightarrow> bytes \<Rightarrow> bytes \<Rightarrow> bytes \<Rightarrow> nat \<Rightarrow> bytes option" where
  "ultrawidelock_seal ccm_encrypt key nonce plain cap =
     (if cap < SEAL_NONCE_LEN + length plain + SEAL_TAG_LEN then None
      else case ccm_encrypt key nonce plain SEAL_TAG_LEN (cap - SEAL_NONCE_LEN) of
          None \<Rightarrow> None
        | Some ct \<Rightarrow> Some (nonce @ ct))"

definition ultrawidelock_unseal :: "ccm \<Rightarrow> bytes \<Rightarrow> bytes \<Rightarrow> nat \<Rightarrow> bytes option" where
  "ultrawidelock_unseal ccm_decrypt key inp out_cap =
     (if length inp \<le> SEAL_NONCE_LEN + SEAL_TAG_LEN then None
      else ccm_decrypt key (take SEAL_NONCE_LEN inp) (drop SEAL_NONCE_LEN inp) SEAL_TAG_LEN out_cap)"

section \<open>One end of the link\<close>

abbreviation LINK_HANDOFF_ROLE :: u8 where "LINK_HANDOFF_ROLE \<equiv> 0xFF"
abbreviation LINK_ROLE_MIN :: u8 where "LINK_ROLE_MIN \<equiv> 1"
abbreviation LINK_ROLE_MAX :: u8 where "LINK_ROLE_MAX \<equiv> 3"
abbreviation LINK_CHALLENGE_LEN :: nat where "LINK_CHALLENGE_LEN \<equiv> 9"
abbreviation LINK_CHALLENGE_HINT_LEN :: nat where "LINK_CHALLENGE_HINT_LEN \<equiv> 12"

datatype link_rx = RX_IGNORED | RX_CHALLENGE | RX_REPORT | RX_JOIN | RX_UNSEALED | RX_MALFORMED | RX_REPLAYED

record link =
  lk_key :: bytes
  lk_provisioned :: bool
  lk_role :: u8
  lk_boot_id :: u32
  lk_ctr :: u32
  lk_tx_echo_nonce :: u64
  lk_expected_echo_nonce :: u64
  lk_report_peer :: "witness_seen list"
  lk_report_epoch :: "u64 list"
  lk_join_peer :: witness_seen

definition seen_zero :: witness_seen where
  "seen_zero = \<lparr> ws_boot_id = 0, ws_ctr = 0, ws_have = False \<rparr>"

definition ultrawidelock_link_init :: "u8 \<Rightarrow> u32 \<Rightarrow> link" where
  "ultrawidelock_link_init role boot_id =
     \<lparr> lk_key = replicate SEAL_KEY_LEN 0, lk_provisioned = False, lk_role = role, lk_boot_id = boot_id, lk_ctr = 0,
       lk_tx_echo_nonce = 0, lk_expected_echo_nonce = 0, lk_report_peer = replicate 3 seen_zero,
       lk_report_epoch = replicate 3 0, lk_join_peer = seen_zero \<rparr>"

definition ultrawidelock_link_set_key :: "link \<Rightarrow> bytes \<Rightarrow> bool \<times> link" where
  "ultrawidelock_link_set_key l key =
     (if length key \<noteq> SEAL_KEY_LEN then (False, l)
      else (True, l\<lparr> lk_key := key, lk_provisioned := True \<rparr>))"

definition ultrawidelock_link_ready :: "link option \<Rightarrow> bool" where
  "ultrawidelock_link_ready l = (case l of None \<Rightarrow> False | Some k \<Rightarrow> lk_provisioned k)"

section \<open>Sending\<close>

definition seal_next :: "ccm \<Rightarrow> link \<Rightarrow> u8 \<Rightarrow> bytes \<Rightarrow> nat \<Rightarrow> bytes option \<times> link" where
  "seal_next ccm_encrypt l nonce_role plain cap =
     (let next = lk_ctr l + 1;
          nonce = ultrawidelock_seal_nonce nonce_role (lk_boot_id l) next
      in case ultrawidelock_seal ccm_encrypt (lk_key l) nonce plain cap of
           None \<Rightarrow> (None, l)
         | Some f \<Rightarrow> (Some f, l\<lparr> lk_ctr := next \<rparr>))"

definition ultrawidelock_link_build_report :: "ccm \<Rightarrow> link \<Rightarrow> int \<Rightarrow> u32 \<Rightarrow> nat \<Rightarrow> bytes option \<times> link" where
  "ultrawidelock_link_build_report ccm_encrypt l peer_mm ranging_block cap =
     (if \<not> lk_provisioned l \<or> peer_mm < 0 then (None, l)
      else if lk_role l < LINK_ROLE_MIN \<or> LINK_ROLE_MAX < lk_role l then (None, l)
      else if cap < SEALED ANCHOR_MSG_LEN then (None, l)
      else (let am = \<lparr> am_ver = ANCHOR_MSG_VER, am_role = lk_role l, am_boot_id = lk_boot_id l, am_ctr = lk_ctr l + 1,
                  am_echo_nonce = lk_tx_echo_nonce l, am_ranging_block = ucast ranging_block, am_peer_mm = peer_mm \<rparr>
        in case ultrawidelock_anchor_msg_encode am ANCHOR_MSG_LEN of
             None \<Rightarrow> (None, l)
           | Some plain \<Rightarrow> seal_next ccm_encrypt l (lk_role l) plain cap))"

definition ultrawidelock_link_build_join ::
  "ccm \<Rightarrow> link \<Rightarrow> bytes \<Rightarrow> bytes \<Rightarrow> u8 \<Rightarrow> u8 \<Rightarrow> nat \<Rightarrow> bytes option \<times> link" where
  "ultrawidelock_link_build_join ccm_encrypt l ursk rcfg channel sync_code_index cap =
     (if \<not> lk_provisioned l then (None, l)
      else if cap < SEALED JOIN_MSG_LEN then (None, l)
      else (let jm = \<lparr> jm_ver = JOIN_MSG_VER, jm_boot_id = lk_boot_id l, jm_ctr = lk_ctr l + 1,
                  jm_ursk = take JOIN_URSK_LEN ursk, jm_rcfg = take JOIN_RCFG_LEN rcfg,
                  jm_channel = channel, jm_sync_code_index = sync_code_index \<rparr>
        in case ultrawidelock_join_msg_encode jm JOIN_MSG_LEN of
             None \<Rightarrow> (None, l)
           | Some plain \<Rightarrow> seal_next ccm_encrypt l LINK_HANDOFF_ROLE plain cap))"

definition ultrawidelock_link_build_challenge :: "u64 \<Rightarrow> nat \<Rightarrow> bytes option" where
  "ultrawidelock_link_build_challenge nonce cap =
     (if cap < LINK_CHALLENGE_LEN then None
      else Some (WITNESS_MSG_VER # map (\<lambda>i. ucast (drop_bit (56 - 8 * i) nonce)) [0..<8]))"

definition ultrawidelock_link_build_challenge_hint :: "u64 \<Rightarrow> u32 \<Rightarrow> nat \<Rightarrow> bytes option" where
  "ultrawidelock_link_build_challenge_hint nonce hint cap =
     (if cap < LINK_CHALLENGE_HINT_LEN then None
      else map_option (\<lambda>c. c @ [ucast (drop_bit 16 hint), ucast (drop_bit 8 hint), ucast hint])
             (ultrawidelock_link_build_challenge nonce cap))"

section \<open>Receiving\<close>

definition anchor_zero :: anchor_msg where
  "anchor_zero = \<lparr> am_ver = 0, am_role = 0, am_boot_id = 0, am_ctr = 0, am_echo_nonce = 0, am_ranging_block = 0, am_peer_mm = 0 \<rparr>"

definition join_zero :: join_msg where
  "join_zero = \<lparr> jm_ver = 0, jm_boot_id = 0, jm_ctr = 0, jm_ursk = replicate JOIN_URSK_LEN 0,
     jm_rcfg = replicate JOIN_RCFG_LEN 0, jm_channel = 0, jm_sync_code_index = 0 \<rparr>"

definition report_rejected :: "anchor_msg \<Rightarrow> link_rx \<times> anchor_msg" where
  "report_rejected am = (RX_REPLAYED, anchor_zero\<lparr> am_role := am_role am, am_ctr := am_ctr am \<rparr>)"

definition ultrawidelock_link_expect_echo :: "link \<Rightarrow> u64 \<Rightarrow> link" where
  "ultrawidelock_link_expect_echo l nonce = l\<lparr> lk_expected_echo_nonce := nonce \<rparr>"

definition is_challenge :: "bytes \<Rightarrow> bool" where
  "is_challenge inp \<longleftrightarrow>
     (length inp = LINK_CHALLENGE_LEN \<or> length inp = LINK_CHALLENGE_HINT_LEN) \<and> inp ! 0 = WITNESS_MSG_VER"

definition challenge_nonce :: "bytes \<Rightarrow> u64" where
  "challenge_nonce inp = foldl (\<lambda>n i. push_bit 8 n OR ucast (inp ! (1 + i))) 0 [0..<8]"

text \<open>The freshness test of a decoded report; \<^const>\<open>None\<close> is a rejection.\<close>

definition report_accept :: "link \<Rightarrow> anchor_msg \<Rightarrow> link option" where
  "report_accept l am =
     (let idx = unat (am_role am - 1);
          seen = lk_report_peer l ! idx;
          e = lk_expected_echo_nonce l
      in if e \<noteq> 0 \<and> am_echo_nonce am \<noteq> e then None
         else if e \<noteq> 0 \<and> ws_have seen \<and> ws_boot_id seen \<noteq> am_boot_id am \<and> lk_report_epoch l ! idx = e then None
         else case ultrawidelock_seen_accept_ctr seen (am_boot_id am) (am_ctr am) of
             (False, _) \<Rightarrow> None
           | (True, seen') \<Rightarrow> Some (l\<lparr> lk_report_peer := (lk_report_peer l)[idx := seen'],
                                    lk_report_epoch := (lk_report_epoch l)[idx := e] \<rparr>))"

definition consume_report ::
  "ccm \<Rightarrow> link \<Rightarrow> bytes \<Rightarrow> anchor_msg option \<Rightarrow> link_rx \<times> link \<times> anchor_msg option" where
  "consume_report ccm_decrypt l inp am =
     (case am of None \<Rightarrow> (RX_IGNORED, l, am)
      | Some _ \<Rightarrow> (case ultrawidelock_unseal ccm_decrypt (lk_key l) inp JOIN_MSG_LEN of
          None \<Rightarrow> (RX_UNSEALED, l, am)
        | Some plain \<Rightarrow> (case ultrawidelock_anchor_msg_decode plain of
            None \<Rightarrow> (RX_MALFORMED, l, am)
          | Some a \<Rightarrow> (case report_accept l a of
              None \<Rightarrow> (let (rx, a') = report_rejected a in (rx, l, Some a'))
            | Some l' \<Rightarrow> (RX_REPORT, l', Some a)))))"

definition consume_join ::
  "ccm \<Rightarrow> link \<Rightarrow> bytes \<Rightarrow> join_msg option \<Rightarrow> link_rx \<times> link \<times> join_msg option" where
  "consume_join ccm_decrypt l inp jm =
     (case jm of None \<Rightarrow> (RX_IGNORED, l, jm)
      | Some _ \<Rightarrow> (case ultrawidelock_unseal ccm_decrypt (lk_key l) inp JOIN_MSG_LEN of
          None \<Rightarrow> (RX_UNSEALED, l, jm)
        | Some plain \<Rightarrow> (case ultrawidelock_join_msg_decode plain of
            None \<Rightarrow> (RX_MALFORMED, l, Some join_zero)
          | Some j \<Rightarrow> (case ultrawidelock_seen_accept_ctr (lk_join_peer l) (jm_boot_id j) (jm_ctr j) of
              (False, _) \<Rightarrow> (RX_REPLAYED, l, Some (join_zero\<lparr> jm_ctr := jm_ctr j \<rparr>))
            | (True, seen') \<Rightarrow> (RX_JOIN, l\<lparr> lk_join_peer := seen' \<rparr>, Some j)))))"

definition ultrawidelock_link_consume ::
  "ccm \<Rightarrow> link \<Rightarrow> bytes \<Rightarrow> anchor_msg option \<Rightarrow> join_msg option \<Rightarrow>
     link_rx \<times> link \<times> anchor_msg option \<times> join_msg option" where
  "ultrawidelock_link_consume ccm_decrypt l inp am jm =
     (if is_challenge inp then (RX_CHALLENGE, l\<lparr> lk_tx_echo_nonce := challenge_nonce inp \<rparr>, am, jm)
      else if \<not> lk_provisioned l then (RX_IGNORED, l, am, jm)
      else if length inp = SEALED ANCHOR_MSG_LEN then
        (let (rx, l', am') = consume_report ccm_decrypt l inp am in (rx, l', am', jm))
      else if length inp = SEALED JOIN_MSG_LEN then
        (let (rx, l', jm') = consume_join ccm_decrypt l inp jm in (rx, l', am, jm'))
      else (RX_IGNORED, l, am, jm))"

end
