(* ===== verification/Link_Proofs.thy ===== *)
theory Link_Proofs
  imports Link
begin

text \<open>
  What the sealed link guarantees. Receiving: a frame that does not authenticate changes nothing
  but the outgoing echo, and under fresh challenges no report is accepted twice. Sending: the
  nonces of one end never repeat, and a report of a satellite and a handoff of the lock never
  share one. End to end: a report that echoes the current challenge is delivered as it was sent.
\<close>

section \<open>Runs of one end\<close>

text \<open>
  The state carries, beside the link, the challenges still to be issued; \<open>Arm\<close> issues the next
  one, which is what the lock's beacon does when it rolls its nonce.
\<close>

datatype link_event = Arm | Recv bytes | SendReport int u32 nat | SendJoin bytes bytes u8 u8 nat | SetKey bytes

datatype link_out = Quiet | Sent "bytes option" | Got link_rx "anchor_msg option" "join_msg option"

fun link_step :: "ccm \<Rightarrow> ccm \<Rightarrow> link \<times> u64 list \<Rightarrow> link_event \<Rightarrow> (link \<times> u64 list) \<times> link_out" where
  "link_step enc dec (l, ns) Arm =
     (case ns of [] \<Rightarrow> ((l, ns), Quiet) | n # ns' \<Rightarrow> ((ultrawidelock_link_expect_echo l n, ns'), Quiet))"
| "link_step enc dec (l, ns) (Recv f) =
     (let (rx, l', am, jm) = ultrawidelock_link_consume dec l f (Some anchor_zero) (Some join_zero) in ((l', ns), Got rx am jm))"
| "link_step enc dec (l, ns) (SendReport mm blk cap) =
     (let (f, l') = ultrawidelock_link_build_report enc l mm blk cap in ((l', ns), Sent f))"
| "link_step enc dec (l, ns) (SendJoin ursk rcfg ch sc cap) =
     (let (f, l') = ultrawidelock_link_build_join enc l ursk rcfg ch sc cap in ((l', ns), Sent f))"
| "link_step enc dec (l, ns) (SetKey k) = ((snd (ultrawidelock_link_set_key l k), ns), Quiet)"

section \<open>Receiving\<close>

fun got_report :: "link_out \<Rightarrow> anchor_msg option" where
  "got_report (Got RX_REPORT am jm) = am"
| "got_report _ = None"

definition recv_inv :: "link \<times> u64 list \<Rightarrow> bool" where
  "recv_inv = (\<lambda>(l, ns). distinct (lk_expected_echo_nonce l # ns) \<and> 0 \<notin> set (lk_expected_echo_nonce l # ns) \<and>
     length (lk_report_peer l) = 3 \<and> length (lk_report_epoch l) = 3)"

text \<open>A report is spent when its challenge will not come up again, or when its role has accepted
  under the current challenge and the report does not advance that role's window.\<close>

definition report_spent :: "link \<times> u64 list \<Rightarrow> anchor_msg \<Rightarrow> bool" where
  "report_spent = (\<lambda>(l, ns) am. role_known (am_role am) \<and>
     (am_echo_nonce am \<notin> set (lk_expected_echo_nonce l # ns) \<or>
      am_echo_nonce am = lk_expected_echo_nonce l \<and>
      (let i = unat (am_role am - 1); seen = lk_report_peer l ! i
       in ws_have seen \<and> lk_report_epoch l ! i = lk_expected_echo_nonce l \<and>
          (ws_boot_id seen \<noteq> am_boot_id am \<or> am_ctr am \<le> ws_ctr seen))))"

lemma role_index: "role_known r \<Longrightarrow> unat (r - 1) < 3"
  by (auto simp: role_known_def)

lemma anchor_decode_role: "ultrawidelock_anchor_msg_decode p = Some a \<Longrightarrow> role_known (am_role a)"
  using anchor_enc_of_dec by (simp add: anchor_msg_ok_def)

text \<open>The part of the link the freshness test reads.\<close>

definition recv_view :: "link \<Rightarrow> u64 \<times> witness_seen list \<times> u64 list" where
  "recv_view l = (lk_expected_echo_nonce l, lk_report_peer l, lk_report_epoch l)"

lemma recv_view_seal_next: "recv_view (snd (seal_next enc l r p cap)) = recv_view l"
  by (simp add: seal_next_def recv_view_def Let_def split: option.split)

lemma recv_view_build:
  "recv_view (snd (ultrawidelock_link_build_report enc l mm blk cap)) = recv_view l"
  "recv_view (snd (ultrawidelock_link_build_join enc l ursk rcfg ch sc cap)) = recv_view l"
  by (simp_all add: ultrawidelock_link_build_report_def ultrawidelock_link_build_join_def Let_def recv_view_seal_next split: option.split)

lemma recv_view_set_key: "recv_view (snd (ultrawidelock_link_set_key l k)) = recv_view l"
  by (simp add: ultrawidelock_link_set_key_def recv_view_def)

text \<open>What receiving a frame does to the replay state: a report was accepted, or nothing that
  the freshness test reads has changed.\<close>

lemma consume_cases:
  assumes "ultrawidelock_link_consume dec l f am jm = (rx, l', am', jm')"
  obtains (accepted) a where "rx = RX_REPORT" "am' = Some a" "role_known (am_role a)" "report_accept l a = Some l'"
  | (other) "rx \<noteq> RX_REPORT" "recv_view l' = recv_view l"
  using assms
  by (auto simp: ultrawidelock_link_consume_def consume_report_def consume_join_def report_rejected_def recv_view_def Let_def
      split: if_splits option.splits prod.splits bool.splits dest: anchor_decode_role) (metis anchor_decode_role)

lemma seen_update_all:
  "s\<lparr> ws_boot_id := b, ws_ctr := c, ws_have := h \<rparr> = \<lparr> ws_boot_id = b, ws_ctr = c, ws_have = h \<rparr>"
  for s :: witness_seen
  by (cases s) simp

lemma report_accept_SomeD:
  assumes "report_accept l a = Some l'" and "role_known (am_role a)" and "recv_inv (l, ns)"
  defines "i \<equiv> unat (am_role a - 1)"
  shows "am_echo_nonce a = lk_expected_echo_nonce l \<and> lk_expected_echo_nonce l' = lk_expected_echo_nonce l \<and>
    (\<not> (ws_have (lk_report_peer l ! i) \<and> lk_report_epoch l ! i = lk_expected_echo_nonce l) \<or>
       ws_boot_id (lk_report_peer l ! i) = am_boot_id a \<and> ws_ctr (lk_report_peer l ! i) < am_ctr a) \<and>
    lk_report_peer l' = (lk_report_peer l)[i := \<lparr> ws_boot_id = am_boot_id a, ws_ctr = am_ctr a, ws_have = True \<rparr>] \<and>
    lk_report_epoch l' = (lk_report_epoch l)[i := lk_expected_echo_nonce l]"
  using assms(1,3) role_index [OF assms(2)]
  by (auto simp: report_accept_def ultrawidelock_seen_accept_ctr_def recv_inv_def Let_def not_le seen_update_all simp flip: i_def
      split: if_splits)

lemma got_report_other: "rx \<noteq> RX_REPORT \<Longrightarrow> got_report (Got rx am jm) = None"
  by (cases rx) simp_all

lemma link_step_cases:
  assumes "link_step enc dec (l, ns) e = ((l', ns'), out)"
  obtains (arm) "got_report out = None" "ns = lk_expected_echo_nonce l' # ns'" "snd (recv_view l') = snd (recv_view l)"
  | (accept) a where "got_report out = Some a" "role_known (am_role a)" "report_accept l a = Some l'" "ns' = ns"
  | (other) "got_report out = None" "ns' = ns" "recv_view l' = recv_view l"
proof (cases e)
  case (Recv f)
  obtain rx l1 am jm where c: "ultrawidelock_link_consume dec l f (Some anchor_zero) (Some join_zero) = (rx, l1, am, jm)"
    by (metis prod_cases4)
  then have "out = Got rx am jm" "l' = l1" "ns' = ns"
    using assms Recv by auto
  with c show ?thesis
    by (cases rule: consume_cases) (auto simp: got_report_other intro: that(2,3))
next
  case (SendReport mm blk cap)
  then show ?thesis
    using assms that(3) recv_view_build(1) [of enc l mm blk cap] by (auto split: prod.splits)
next
  case (SendJoin ursk rcfg ch sc cap)
  then show ?thesis
    using assms that(3) recv_view_build(2) [of enc l ursk rcfg ch sc cap] by (auto split: prod.splits)
qed (use assms that recv_view_set_key in \<open>auto simp: ultrawidelock_link_expect_echo_def recv_view_def split: list.splits\<close>)

lemma recv_inv_step: "recv_inv (l, ns) \<Longrightarrow> link_step enc dec (l, ns) e = (s', out) \<Longrightarrow> recv_inv s'"
proof (cases s')
  case (Pair l' ns')
  assume inv: "recv_inv (l, ns)" and "link_step enc dec (l, ns) e = (s', out)"
  then have "link_step enc dec (l, ns) e = ((l', ns'), out)"
    using Pair by simp
  then show ?thesis
  proof (cases rule: link_step_cases)
    case (accept a)
    then show ?thesis
      using report_accept_SomeD [of l a l' ns] inv Pair by (auto simp: recv_inv_def)
  qed (use inv Pair in \<open>auto simp: recv_inv_def recv_view_def\<close>)
qed

lemma spent_kept:
  assumes "recv_inv (l, ns)" and "report_spent (l, ns) i" and "link_step enc dec (l, ns) e = ((l', ns'), out)"
  shows "report_spent (l', ns') i \<and> got_report out \<noteq> Some i"
  using assms(3)
proof (cases rule: link_step_cases)
  case (accept a)
  then show ?thesis
    using report_accept_SomeD [of l a l' ns] assms(1,2) role_index [of "am_role a"] role_index [of "am_role i"]
    by (auto simp: recv_inv_def report_spent_def Let_def nth_list_update)
qed (use assms in \<open>auto simp: recv_inv_def report_spent_def recv_view_def Let_def\<close>)

lemma accepting_spends:
  assumes "recv_inv (l, ns)" and "link_step enc dec (l, ns) e = ((l', ns'), out)" and "got_report out = Some i"
  shows "report_spent (l', ns') i"
  using assms(2)
proof (cases rule: link_step_cases)
  case (accept a)
  then show ?thesis
    using report_accept_SomeD [of l a l' ns] assms role_index [of "am_role a"]
    by (auto simp: recv_inv_def report_spent_def Let_def)
qed (use assms in auto)

interpretation receiver: once_only "link_step enc dec" recv_inv got_report report_spent for enc dec
proof
  fix s :: "link \<times> u64 list" and e i
  assume inv: "recv_inv s"
  obtain l ns where s: "s = (l, ns)" by (cases s)
  obtain l' ns' out where st: "link_step enc dec (l, ns) e = ((l', ns'), out)" by (metis prod.collapse)
  show "recv_inv (fst (link_step enc dec s e))"
    using recv_inv_step inv s st by simp
  show "report_spent s i \<Longrightarrow> report_spent (fst (link_step enc dec s e)) i"
    "report_spent s i \<Longrightarrow> got_report (snd (link_step enc dec s e)) \<noteq> Some i"
    using spent_kept inv s st by simp_all
  show "got_report (snd (link_step enc dec s e)) = Some i \<Longrightarrow> report_spent (fst (link_step enc dec s e)) i"
    using accepting_spends inv s st by simp
qed

text \<open>An authenticated stand-in for AES-CCM, to evaluate the link on: the tag is the head of the key.\<close>

definition demo_encrypt :: ccm where
  "demo_encrypt key nonce pt tag_len cap =
     (if cap < length pt + tag_len then None else Some (pt @ take tag_len key))"

definition demo_decrypt :: ccm where
  "demo_decrypt key nonce ct tag_len cap =
     (let n = length ct - tag_len
      in if n \<le> cap \<and> tag_len \<le> length ct \<and> drop n ct = take tag_len key then Some (take n ct) else None)"

definition demo_key :: bytes where "demo_key = replicate 16 7"

definition demo_lock :: link where
  "demo_lock = ultrawidelock_link_expect_echo (snd (ultrawidelock_link_set_key (ultrawidelock_link_init 0xFF 11) demo_key)) 500"

definition demo_satellite :: link where
  "demo_satellite = (snd (ultrawidelock_link_set_key (ultrawidelock_link_init 1 77) demo_key))\<lparr> lk_tx_echo_nonce := 500 \<rparr>"

definition demo_report :: bytes where
  "demo_report = the (fst (ultrawidelock_link_build_report demo_encrypt demo_satellite 1500 42 64))"



text \<open>C13: A frame the primitive does not authenticate moves nothing this end believes: at most the
  challenge to echo in the next outgoing report changes, and the caller's out-parameters stay as
  they were.\<close>

theorem forged_frame_changes_nothing:
  assumes "\<And>cap. dec (lk_key l) (take SEAL_NONCE_LEN f) (drop SEAL_NONCE_LEN f) SEAL_TAG_LEN cap = None"
  shows "\<exists>rx e. ultrawidelock_link_consume dec l f am jm = (rx, l\<lparr> lk_tx_echo_nonce := e \<rparr>, am, jm) \<and>
           rx \<in> {RX_IGNORED, RX_CHALLENGE, RX_UNSEALED}"
proof -
  have same: "\<exists>e. l = l\<lparr> lk_tx_echo_nonce := e \<rparr>"
    by (intro exI [of _ "lk_tx_echo_nonce l"]) simp
  have "ultrawidelock_unseal dec (lk_key l) f JOIN_MSG_LEN = None"
    using assms by (simp add: ultrawidelock_unseal_def)
  then show ?thesis
    using same
    by (auto simp: ultrawidelock_link_consume_def consume_report_def consume_join_def Let_def split: option.splits)
qed

theorem forged_frame_changes_nothing_witness:
  "\<exists>rx e. ultrawidelock_link_consume demo_decrypt demo_lock (demo_report[44 := 8]) (Some anchor_zero) None =
     (rx, demo_lock\<lparr> lk_tx_echo_nonce := e \<rparr>, Some anchor_zero, None) \<and> rx \<in> {RX_IGNORED, RX_CHALLENGE, RX_UNSEALED}"
proof (rule forged_frame_changes_nothing)
  fix cap
  have "drop 24 (drop 13 (demo_report[44 := 8])) \<noteq> take 8 (lk_key demo_lock)" "length (drop 13 (demo_report[44 := 8])) = 32"
    by code_simp+
  then show "demo_decrypt (lk_key demo_lock) (take 13 (demo_report[44 := 8])) (drop 13 (demo_report[44 := 8])) 8 cap = None"
    by (simp add: demo_decrypt_def Let_def)
qed

section \<open>Sending\<close>

fun sent_frame :: "link_out \<Rightarrow> bytes option" where
  "sent_frame (Sent f) = f"
| "sent_frame _ = None"

lemma seal_nonce_eq_iff:
  "ultrawidelock_seal_nonce r b c = ultrawidelock_seal_nonce r' b' c' \<longleftrightarrow> r = r' \<and> b = b' \<and> c = c'"
proof
  assume eq: "ultrawidelock_seal_nonce r b c = ultrawidelock_seal_nonce r' b' c'"
  have "ultrawidelock_seal_nonce r b c = r # put_u32 b @ put_u32 c @ [0, 0, 0, 0]" for r b c
    by (simp add: ultrawidelock_seal_nonce_def put_u32_def)
  then have "r = r' \<and> put_u32 b @ put_u32 c = put_u32 b' @ put_u32 c'"
    using eq by simp
  then show "r = r' \<and> b = b' \<and> c = c'"
    by (metis append_eq_append_conv get_put_u32 length_put_u32)
qed simp

text \<open>A frame that was sent carries the nonce of the new counter value under one of the roles this
  end may use, and only a frame that was sent moves the counter.\<close>

definition sends :: "link \<Rightarrow> bytes option \<Rightarrow> link \<Rightarrow> bool" where
  "sends l fo l' \<longleftrightarrow> lk_boot_id l' = lk_boot_id l \<and> lk_role l' = lk_role l \<and>
     (case fo of None \<Rightarrow> lk_ctr l' = lk_ctr l
      | Some f \<Rightarrow> lk_ctr l' = lk_ctr l + 1 \<and>
          (\<exists>r. (r = LINK_HANDOFF_ROLE \<or> r = lk_role l \<and> role_known r) \<and>
               take SEAL_NONCE_LEN f = ultrawidelock_seal_nonce r (lk_boot_id l) (lk_ctr l + 1)))"

lemma sends_refl [simp]: "sends l None l"
  by (simp add: sends_def)

lemma seal_next_sends:
  "seal_next enc l r p cap = (fo, l') \<Longrightarrow> r = LINK_HANDOFF_ROLE \<or> r = lk_role l \<and> role_known r \<Longrightarrow> sends l fo l'"
  by (auto simp: sends_def seal_next_def ultrawidelock_seal_def ultrawidelock_seal_nonce_def Let_def
      split: if_splits option.splits)

lemma build_report_sends: "ultrawidelock_link_build_report enc l mm blk cap = (fo, l') \<Longrightarrow> sends l fo l'"
  by (auto simp: ultrawidelock_link_build_report_def ultrawidelock_anchor_msg_encode_def Let_def
      split: if_splits elim!: seal_next_sends)

lemma build_join_sends: "ultrawidelock_link_build_join enc l ursk rcfg ch sc cap = (fo, l') \<Longrightarrow> sends l fo l'"
  by (auto simp: ultrawidelock_link_build_join_def Let_def split: if_splits option.splits elim!: seal_next_sends)

lemma link_step_sends:
  assumes "link_step enc dec (l, ns) e = ((l', ns'), out)"
  shows "sends l (sent_frame out) l'"
proof (cases e)
  case (Recv f)
  then show ?thesis
    using assms
    by (auto simp: sends_def ultrawidelock_link_consume_def consume_report_def consume_join_def report_accept_def
        report_rejected_def Let_def split: if_splits option.splits prod.splits bool.splits)
qed (use assms build_report_sends build_join_sends in
    \<open>auto simp: sends_def ultrawidelock_link_expect_echo_def ultrawidelock_link_set_key_def split: list.splits prod.splits\<close>)

text \<open>The counters of the frames a run sends, in order.\<close>

definition end_nonce :: "link \<Rightarrow> nat \<Rightarrow> bytes \<Rightarrow> bool" where
  "end_nonce l c n \<longleftrightarrow> (\<exists>r. (r = LINK_HANDOFF_ROLE \<or> r = lk_role l \<and> role_known r) \<and>
     n = ultrawidelock_seal_nonce r (lk_boot_id l) (word_of_nat c))"

lemma run_nonces:
  "unat (lk_ctr l) + length es < 2 ^ 32 \<Longrightarrow>
   \<exists>cs. sorted_wrt (<) (unat (lk_ctr l) # cs) \<and> list_all (\<lambda>c. c < 2 ^ 32) cs \<and>
     list_all2 (end_nonce l) cs (map (take 13) (List.map_filter sent_frame (snd (run_steps (link_step enc dec) (l, ns) es))))"
proof (induction es arbitrary: l ns)
  case (Cons e es)
  obtain l' ns' out where st: "link_step enc dec (l, ns) e = ((l', ns'), out)" by (metis prod.collapse)
  then have sends: "sends l (sent_frame out) l'" by (rule link_step_sends)
  show ?case
  proof (cases "sent_frame out")
    case None
    then have "unat (lk_ctr l') + length es < 2 ^ 32" "lk_ctr l' = lk_ctr l" "end_nonce l' = end_nonce l"
      using sends Cons.prems by (auto simp: sends_def end_nonce_def fun_eq_iff)
    then show ?thesis
      using Cons.IH [of l' ns'] st None by (simp add: map_filter_simps del: run_steps.simps add: snd_run_steps_Cons)
  next
    case (Some f)
    have l': "lk_ctr l' = lk_ctr l + 1" and same: "end_nonce l' = end_nonce l"
      and nonce: "end_nonce l (unat (lk_ctr l')) (take 13 f)"
      using sends Some by (auto simp: sends_def end_nonce_def fun_eq_iff)
    have c: "unat (lk_ctr l') = Suc (unat (lk_ctr l))"
      using Cons.prems by (simp add: l' unat_word_ariths)
    then obtain cs where "sorted_wrt (<) (unat (lk_ctr l') # cs)" "list_all (\<lambda>c. c < 2 ^ 32) cs"
      "list_all2 (end_nonce l) cs (map (take 13) (List.map_filter sent_frame (snd (run_steps (link_step enc dec) (l', ns') es))))"
      using Cons.IH [of l' ns'] Cons.prems same by auto
    moreover have "List.map_filter sent_frame (snd (run_steps (link_step enc dec) (l, ns) (e # es))) =
        f # List.map_filter sent_frame (snd (run_steps (link_step enc dec) (l', ns') es))"
      using st Some by (simp add: map_filter_simps snd_run_steps_Cons del: run_steps.simps)
    ultimately show ?thesis
      using nonce c Cons.prems by (intro exI [of _ "unat (lk_ctr l') # cs"]) auto
  qed
qed (simp add: map_filter_simps exI [of _ "[]"])

lemma sorted_wrt_less_distinct: "sorted_wrt (<) (cs :: nat list) \<Longrightarrow> distinct cs"
  by (induction cs) auto

lemma end_nonces_distinct:
  "list_all2 (end_nonce l) cs xs \<Longrightarrow> list_all (\<lambda>c. c < 2 ^ 32) cs \<Longrightarrow> distinct cs \<Longrightarrow> distinct xs"
proof (induction rule: list_all2_induct)
  case (Cons c cs x xs)
  have "x \<notin> set xs"
  proof
    assume "x \<in> set xs"
    then obtain c' where "c' \<in> set cs" "end_nonce l c' x"
      using Cons.hyps(2) by (metis in_set_conv_nth list_all2_conv_all_nth)
    moreover have "word_of_nat c' = (word_of_nat c :: u32) \<longleftrightarrow> c' = c" if "c' < 2 ^ 32" "c < 2 ^ 32"
      using that by (simp add: word_of_nat_eq_iff take_bit_nat_eq_self)
    ultimately show False
      using Cons.hyps(1) Cons.prems by (auto simp: end_nonce_def seal_nonce_eq_iff list_all_iff)
  qed
  then show ?case using Cons by simp
qed simp

definition frames_sent :: "ccm \<Rightarrow> ccm \<Rightarrow> u8 \<Rightarrow> u32 \<Rightarrow> u64 list \<Rightarrow> link_event list \<Rightarrow> bytes list" where
  "frames_sent enc dec role boot_id ns es =
     List.map_filter sent_frame (snd (run_steps (link_step enc dec) (ultrawidelock_link_init role boot_id, ns) es))"

text \<open>C12: The nonces of the frames one end sends in a boot never repeat: whatever it sends and receives
  in between, up to the range of the counter, all nonces differ, and each is composed of this end's
  boot id and either its own role, which is a satellite's, or the handoff role, which is not.\<close>

theorem sent_nonces_never_repeat:
  assumes "length es < 2 ^ 32"
  shows "distinct (map (take SEAL_NONCE_LEN) (frames_sent enc dec role boot_id ns es)) \<and>
    list_all (\<lambda>f. \<exists>r c. (r = LINK_HANDOFF_ROLE \<or> r = role \<and> role_known role) \<and>
      take SEAL_NONCE_LEN f = ultrawidelock_seal_nonce r boot_id c) (frames_sent enc dec role boot_id ns es)"
proof -
  let ?fs = "frames_sent enc dec role boot_id ns es"
  let ?l = "ultrawidelock_link_init role boot_id"
  obtain cs where cs: "sorted_wrt (<) (unat (lk_ctr ?l) # cs)" "list_all (\<lambda>c. c < 2 ^ 32) cs"
    "list_all2 (end_nonce ?l) cs (map (take 13) ?fs)"
    using run_nonces [of ?l es enc dec ns] assms by (auto simp: frames_sent_def ultrawidelock_link_init_def)
  then have "distinct (map (take 13) ?fs)"
    using end_nonces_distinct sorted_wrt_less_distinct by (metis sorted_wrt.simps(2))
  moreover have "list_all (\<lambda>f. \<exists>c. end_nonce ?l c (take 13 f)) ?fs"
    using cs(3) by (fastforce simp: list_all_iff list_all2_map2 in_set_conv_nth list_all2_conv_all_nth)
  moreover have "end_nonce ?l c x \<Longrightarrow>
      \<exists>r c. (r = LINK_HANDOFF_ROLE \<or> r = role \<and> role_known role) \<and> x = ultrawidelock_seal_nonce r boot_id c" for c x
    by (auto simp: end_nonce_def ultrawidelock_link_init_def)
  ultimately show ?thesis
    by (auto simp: list_all_iff simp del: take_eq_Nil)
qed

theorem sent_nonces_never_repeat_witness:
  "let es = [SetKey demo_key, SendReport 1500 42 64, SendJoin (replicate 32 1) (replicate 17 2) 9 1 200, SendReport 1490 43 64];
       fs = frames_sent demo_encrypt demo_decrypt 1 77 [] es
   in length fs = 3 \<and> distinct (map (take SEAL_NONCE_LEN) fs)"
proof -
  let ?es = "[SetKey demo_key, SendReport 1500 42 64, SendJoin (replicate 32 1) (replicate 17 2) 9 1 200, SendReport 1490 43 64]"
  have "length (frames_sent demo_encrypt demo_decrypt 1 77 [] ?es) = 3"
    by code_simp
  then show ?thesis
    using sent_nonces_never_repeat [of ?es demo_encrypt demo_decrypt 1 77 "[]"] by (simp add: Let_def)
qed

section \<open>End to end\<close>

text \<open>What the primitive seam documents of AES-CCM: sealing into a large enough buffer succeeds and
  adds the tag, and opening the result under the same key and nonce gives the plaintext back.\<close>

definition ccm_ok :: "ccm \<Rightarrow> ccm \<Rightarrow> bool" where
  "ccm_ok enc dec \<longleftrightarrow> (\<forall>key nonce pt cap. length key = SEAL_KEY_LEN \<longrightarrow> length nonce = SEAL_NONCE_LEN \<longrightarrow>
     length pt + SEAL_TAG_LEN \<le> cap \<longrightarrow>
     (\<exists>ct. enc key nonce pt SEAL_TAG_LEN cap = Some ct \<and> length ct = length pt + SEAL_TAG_LEN \<and>
        (\<forall>cap'. length pt \<le> cap' \<longrightarrow> dec key nonce ct SEAL_TAG_LEN cap' = Some pt)))"

lemma length_seal_nonce [simp]: "length (ultrawidelock_seal_nonce r b c) = SEAL_NONCE_LEN"
  by (simp add: ultrawidelock_seal_nonce_def)

lemma seal_then_unseal:
  assumes "ccm_ok enc dec" and "length key = SEAL_KEY_LEN" and "length nonce = SEAL_NONCE_LEN"
    and "SEALED (length p) \<le> cap" and "p \<noteq> []" and "length p \<le> out_cap"
  shows "\<exists>f. ultrawidelock_seal enc key nonce p cap = Some f \<and> length f = SEALED (length p) \<and>
    ultrawidelock_unseal dec key f out_cap = Some p"
proof -
  have "length p + 8 \<le> cap - 13" using assms(4) by linarith
  then obtain ct where "enc key nonce p 8 (cap - 13) = Some ct" "length ct = length p + 8"
    "\<And>cap'. length p \<le> cap' \<Longrightarrow> dec key nonce ct 8 cap' = Some p"
    using assms(1) [unfolded ccm_ok_def, rule_format, of key nonce p "cap - 13"] assms(2,3) by auto
  then show ?thesis
    using assms(3-6) by (auto simp: ultrawidelock_seal_def ultrawidelock_unseal_def)
qed

definition report_window_open :: "link \<Rightarrow> u8 \<Rightarrow> u32 \<Rightarrow> u32 \<Rightarrow> bool" where
  "report_window_open l role boot_id ctr \<longleftrightarrow>
     (let seen = lk_report_peer l ! unat (role - 1)
      in \<not> ws_have seen \<or>
         (if ws_boot_id seen = boot_id then ws_ctr seen < ctr
          else lk_report_epoch l ! unat (role - 1) \<noteq> lk_expected_echo_nonce l))"

text \<open>A satellite's report that echoes the challenge the lock expects is delivered with the distance,
  block and counter it was built from, if the lock's window for that role is open to it: no report
  yet, a larger counter of the same boot, or a new boot not yet admitted in this epoch.\<close>

theorem fresh_report_is_delivered:
  assumes "ccm_ok enc dec" and "lk_key l = lk_key s" and "length (lk_key s) = SEAL_KEY_LEN"
    and "lk_provisioned l" and "lk_provisioned s" and "role_known (lk_role s)"
    and "lk_tx_echo_nonce s = lk_expected_echo_nonce l"
    and "report_window_open l (lk_role s) (lk_boot_id s) (lk_ctr s + 1)"
    and "0 \<le> mm" and "mm < 2147483648" and "SEALED ANCHOR_MSG_LEN \<le> cap"
  shows "\<exists>f l'. ultrawidelock_link_build_report enc s mm blk cap = (Some f, s\<lparr> lk_ctr := lk_ctr s + 1 \<rparr>) \<and>
    ultrawidelock_link_consume dec l f (Some am) jm = (RX_REPORT, l', Some \<lparr> am_ver = ANCHOR_MSG_VER, am_role = lk_role s,
      am_boot_id = lk_boot_id s, am_ctr = lk_ctr s + 1, am_echo_nonce = lk_expected_echo_nonce l,
      am_ranging_block = ucast blk, am_peer_mm = mm \<rparr>, jm)"
proof -
  let ?a = "\<lparr> am_ver = ANCHOR_MSG_VER, am_role = lk_role s, am_boot_id = lk_boot_id s, am_ctr = lk_ctr s + 1,
      am_echo_nonce = lk_expected_echo_nonce l, am_ranging_block = ucast blk, am_peer_mm = mm \<rparr>"
  let ?n = "ultrawidelock_seal_nonce (lk_role s) (lk_boot_id s) (lk_ctr s + 1)"
  have "anchor_msg_ok ?a" using assms by (simp add: anchor_msg_ok_def)
  then obtain p where p: "ultrawidelock_anchor_msg_encode ?a 24 = Some p" "length p = 24"
      "ultrawidelock_anchor_msg_decode p = Some ?a"
    using anchor_dec_of_enc [OF _ order_refl] by blast
  then obtain f where f: "ultrawidelock_seal enc (lk_key s) ?n p cap = Some f" "length f = 45"
      "ultrawidelock_unseal dec (lk_key l) f 60 = Some p"
    using seal_then_unseal [OF assms(1,3), of ?n p cap 60] assms(2,11) by force
  have "\<exists>l'. report_accept l ?a = Some l'"
    using assms(8)
    by (auto simp: report_window_open_def report_accept_def ultrawidelock_seen_accept_ctr_def Let_def split: if_splits)
  moreover have "\<not> lk_role s < 1" "\<not> 3 < lk_role s"
    using assms(6) by (auto simp: role_known_def)
  ultimately show ?thesis
    using assms p f
    by (auto simp: ultrawidelock_link_build_report_def seal_next_def ultrawidelock_link_consume_def is_challenge_def
        consume_report_def Let_def)
qed

lemma demo_ccm_ok: "ccm_ok demo_encrypt demo_decrypt"
  by (simp add: ccm_ok_def demo_encrypt_def demo_decrypt_def)

theorem fresh_report_is_delivered_witness:
  "\<exists>f l'. ultrawidelock_link_build_report demo_encrypt demo_satellite 1500 42 64 = (Some f, demo_satellite\<lparr> lk_ctr := 1 \<rparr>) \<and>
    ultrawidelock_link_consume demo_decrypt demo_lock f (Some anchor_zero) None =
      (RX_REPORT, l', Some \<lparr> am_ver = 3, am_role = 1, am_boot_id = 77, am_ctr = 1, am_echo_nonce = 500,
        am_ranging_block = 42, am_peer_mm = 1500 \<rparr>, None)"
proof -
  have "lk_key demo_lock = lk_key demo_satellite" "length (lk_key demo_satellite) = 16" "lk_provisioned demo_lock"
    "lk_provisioned demo_satellite" "lk_role demo_satellite = 1" "lk_boot_id demo_satellite = 77" "lk_ctr demo_satellite = 0"
    "lk_tx_echo_nonce demo_satellite = 500" "lk_expected_echo_nonce demo_lock = 500" "report_window_open demo_lock 1 77 1"
    by code_simp+
  then show ?thesis
    using fresh_report_is_delivered [OF demo_ccm_ok, of demo_lock demo_satellite 1500 64 42 anchor_zero None]
    by (simp add: role_known_def)
qed

definition demo_handoff :: "u32 \<Rightarrow> bytes" where
  "demo_handoff boot_id = the (fst (ultrawidelock_link_build_join demo_encrypt
     (snd (ultrawidelock_link_set_key (ultrawidelock_link_init 0xFF boot_id) demo_key)) (replicate 32 1) (replicate 17 2) 9 1 200))"

text \<open>A handoff has no challenge to echo. A satellite that took a handoff of boot 11 of the lock
  refuses its repetition; after the lock has rebooted once and sent a handoff of boot 12, the
  recorded handoff of boot 11 is accepted again.\<close>

theorem old_handoff_accepted_after_reboot:
  "map (\<lambda>out. case out of Got rx am jm \<Rightarrow> rx | _ \<Rightarrow> RX_IGNORED)
     (snd (run_steps (link_step demo_encrypt demo_decrypt) (ultrawidelock_link_init 1 77, [])
        [SetKey demo_key, Recv (demo_handoff 11), Recv (demo_handoff 11), Recv (demo_handoff 12), Recv (demo_handoff 11)])) =
   [RX_IGNORED, RX_JOIN, RX_REPLAYED, RX_JOIN, RX_JOIN]"
  by code_simp

end
