(* ===== verification/Witness_Core.thy ===== *)
theory Witness_Core
  imports Witness_Msg "HOL-Library.Multiset"
begin

text \<open>
  A witness's window (\<^verbatim>\<open>ultrawidelock_witness_core.c\<close>): advertising packets accumulate per label
  in a table of 16 slots; when the window closes the report takes the eight loudest labels, and a
  label the lock has hinted at is forced into it.
\<close>

section \<open>State and operations\<close>

record core_slot =
  cs_hash24 :: u32
  cs_rssi_sum :: int
  cs_n :: u16
  cs_rssi_peak :: int
  cs_used :: bool

record witness_core =
  co_slot :: "core_slot list"
  co_total_pkts :: u16
  co_open :: bool

abbreviation WITNESS_CORE_SLOTS :: nat where "WITNESS_CORE_SLOTS \<equiv> 16"
abbreviation RSSI_FLOOR :: int where "RSSI_FLOOR \<equiv> - 128"

definition slot_zero :: core_slot where
  "slot_zero = \<lparr> cs_hash24 = 0, cs_rssi_sum = 0, cs_n = 0, cs_rssi_peak = 0, cs_used = False \<rparr>"

definition ultrawidelock_witness_core_open :: witness_core where
  "ultrawidelock_witness_core_open =
     \<lparr> co_slot = replicate WITNESS_CORE_SLOTS slot_zero, co_total_pkts = 0, co_open = True \<rparr>"

definition slot_mean :: "core_slot \<Rightarrow> int" where
  "slot_mean s = (if cs_n s = 0 then RSSI_FLOOR else cdiv (cs_rssi_sum s) (uint (cs_n s)))"

text \<open>One pass over the table: the matching slot, or the first free one and the quietest in use.\<close>

fun note_scan :: "u32 \<Rightarrow> core_slot list \<Rightarrow> nat \<Rightarrow> nat option \<Rightarrow> (nat \<times> core_slot) option \<Rightarrow>
    nat + nat option \<times> (nat \<times> core_slot) option" where
  "note_scan h [] i first_free weakest = Inr (first_free, weakest)"
| "note_scan h (s # ss) i first_free weakest =
     (if \<not> cs_used s then note_scan h ss (Suc i) (case first_free of None \<Rightarrow> Some i | Some _ \<Rightarrow> first_free) weakest
      else if cs_hash24 s = h then Inl i
      else note_scan h ss (Suc i) first_free
        (case weakest of None \<Rightarrow> Some (i, s) | Some (_, w) \<Rightarrow> if slot_mean s < slot_mean w then Some (i, s) else weakest))"

definition slot_add :: "int \<Rightarrow> core_slot \<Rightarrow> core_slot" where
  "slot_add rssi s =
     (let s1 = (if cs_n s < 0xFFFF then s\<lparr> cs_n := cs_n s + 1, cs_rssi_sum := cs_rssi_sum s + rssi \<rparr> else s)
      in if cs_rssi_peak s < rssi then s1\<lparr> cs_rssi_peak := rssi \<rparr> else s1)"

definition slot_new :: "u32 \<Rightarrow> int \<Rightarrow> core_slot" where
  "slot_new h rssi = \<lparr> cs_hash24 = h, cs_rssi_sum = rssi, cs_n = 1, cs_rssi_peak = rssi, cs_used = True \<rparr>"

definition ultrawidelock_witness_core_note :: "witness_core \<Rightarrow> u32 \<Rightarrow> int \<Rightarrow> witness_core" where
  "ultrawidelock_witness_core_note c hash24 rssi =
     (if \<not> co_open c then c
      else (let h = hash24 AND 0x00FFFFFF;
                c1 = (if co_total_pkts c < 0xFFFF then c\<lparr> co_total_pkts := co_total_pkts c + 1 \<rparr> else c)
        in case note_scan h (co_slot c) 0 None None of
             Inl i \<Rightarrow> c1\<lparr> co_slot := (co_slot c)[i := slot_add rssi (co_slot c ! i)] \<rparr>
           | Inr (Some i, _) \<Rightarrow> c1\<lparr> co_slot := (co_slot c)[i := slot_new h rssi] \<rparr>
           | Inr (None, None) \<Rightarrow> c1
           | Inr (None, Some (i, w)) \<Rightarrow>
               (if rssi \<le> sint (word_of_int (slot_mean w) :: u8) then c1
                else c1\<lparr> co_slot := (co_slot c)[i := slot_new h rssi] \<rparr>)))"

fun best_scan :: "u8 \<Rightarrow> core_slot list \<Rightarrow> nat \<Rightarrow> (nat \<times> core_slot) option \<Rightarrow> (nat \<times> core_slot) option" where
  "best_scan min_pkts [] i best = best"
| "best_scan min_pkts (s # ss) i best =
     best_scan min_pkts ss (Suc i)
       (if \<not> cs_used s \<or> cs_n s < ucast min_pkts then best
        else case best of None \<Rightarrow> Some (i, s) | Some (_, b) \<Rightarrow> if slot_mean b < slot_mean s then Some (i, s) else best)"

definition slot_tuple :: "core_slot \<Rightarrow> witness_tuple" where
  "slot_tuple s = \<lparr> wt_hash24 = cs_hash24 s, wt_mean_dbm = sint (word_of_int (slot_mean s) :: u8),
     wt_n_pkts = (if 255 < cs_n s then 255 else ucast (cs_n s)) \<rparr>"

fun summarize_loop :: "nat \<Rightarrow> u8 \<Rightarrow> core_slot list \<Rightarrow> core_slot list \<times> witness_tuple list" where
  "summarize_loop 0 min_pkts ss = (ss, [])"
| "summarize_loop (Suc k) min_pkts ss =
     (case best_scan min_pkts ss 0 None of
        None \<Rightarrow> (ss, [])
      | Some (i, b) \<Rightarrow>
          (let (ss', ts) = summarize_loop k min_pkts (ss[i := b\<lparr> cs_used := False \<rparr>]) in (ss', slot_tuple b # ts)))"

definition ultrawidelock_witness_core_summarize ::
  "witness_core \<Rightarrow> witness_msg \<Rightarrow> u8 \<Rightarrow> u8 \<times> witness_core \<times> witness_msg" where
  "ultrawidelock_witness_core_summarize c msg min_pkts =
     (let (ss, ts) = summarize_loop WITNESS_MSG_MAX_TUPLES min_pkts (co_slot c); n = of_nat (length ts)
      in (n, c\<lparr> co_open := False, co_slot := ss \<rparr>,
          msg\<lparr> wm_n_tuples := n, wm_tuples := ts @ replicate (WITNESS_MSG_MAX_TUPLES - length ts) tuple_zero \<rparr>))"

definition ultrawidelock_witness_core_include ::
  "witness_core \<Rightarrow> witness_msg \<Rightarrow> u32 \<Rightarrow> bool \<times> witness_core \<times> witness_msg" where
  "ultrawidelock_witness_core_include c msg hash24 =
     (let h = hash24 AND 0x00FFFFFF
      in if h = 0 then (False, c, msg)
         else if ultrawidelock_witness_msg_find msg h \<noteq> None then (True, c, msg)
         else case List.find (\<lambda>i. cs_used (co_slot c ! i) \<and> cs_hash24 (co_slot c ! i) = h) [0..<WITNESS_CORE_SLOTS] of
             None \<Rightarrow> (False, c, msg)
           | Some i \<Rightarrow>
               (if cs_n (co_slot c ! i) = 0 then (False, c, msg)
                else (let s = co_slot c ! i; n = unat (wm_n_tuples msg);
                          msg' = (if n < WITNESS_MSG_MAX_TUPLES
                            then msg\<lparr> wm_tuples := (wm_tuples msg)[n := slot_tuple s], wm_n_tuples := wm_n_tuples msg + 1 \<rparr>
                            else msg\<lparr> wm_tuples := (wm_tuples msg)[WITNESS_MSG_MAX_TUPLES - 1 := slot_tuple s] \<rparr>)
                  in (True, c\<lparr> co_slot := (co_slot c)[i := s\<lparr> cs_used := False \<rparr>] \<rparr>, msg'))))"

section \<open>What a window accumulates\<close>

text \<open>The packets of a window are (label, RSSI) pairs. The specification keeps no table: the labels
  in the order they were first heard, and for each the packets that carried it.\<close>

definition labels :: "(u32 \<times> int) list \<Rightarrow> u32 list" where
  "labels ps = rev (remdups (rev (map fst ps)))"

definition rssis :: "(u32 \<times> int) list \<Rightarrow> u32 \<Rightarrow> int list" where
  "rssis ps h = map snd (filter (\<lambda>p. fst p = h) ps)"

definition spec_slot :: "(u32 \<times> int) list \<Rightarrow> u32 \<Rightarrow> core_slot" where
  "spec_slot ps h = \<lparr> cs_hash24 = h, cs_rssi_sum = sum_list (rssis ps h), cs_n = of_nat (length (rssis ps h)),
     cs_rssi_peak = Max (set (rssis ps h)), cs_used = True \<rparr>"

definition note_all :: "(u32 \<times> int) list \<Rightarrow> witness_core" where
  "note_all ps = foldl (\<lambda>c (h, r). ultrawidelock_witness_core_note c h r) ultrawidelock_witness_core_open ps"

lemma labels_snoc: "labels (ps @ [(h, r)]) = (if h \<in> fst ` set ps then labels ps else labels ps @ [h])"
  by (simp add: labels_def)

lemma set_labels [simp]: "set (labels ps) = fst ` set ps"
  by (simp add: labels_def)

lemma distinct_labels [simp]: "distinct (labels ps)"
  by (simp add: labels_def)

lemma rssis_snoc: "rssis (ps @ [(h', r)]) h = (if h = h' then rssis ps h @ [r] else rssis ps h)"
  by (simp add: rssis_def)

lemma rssis_nonempty: "h \<in> fst ` set ps \<longleftrightarrow> rssis ps h \<noteq> []"
  by (force simp: rssis_def filter_empty_conv)

lemma scan_hit:
  "\<forall>s\<in>set as. cs_used s \<and> cs_hash24 s \<noteq> h \<Longrightarrow> cs_used s \<Longrightarrow> cs_hash24 s = h \<Longrightarrow>
   note_scan h (as @ s # bs) i ff wk = Inl (i + length as)"
  by (induction as arbitrary: i ff wk) simp_all

lemma scan_free:
  "\<forall>s\<in>set as. cs_used s \<and> cs_hash24 s \<noteq> h \<Longrightarrow>
   \<exists>wk'. note_scan h (as @ replicate (Suc k) slot_zero) i None wk = Inr (Some (i + length as), wk')"
proof (induction as arbitrary: i wk)
  case Nil
  have "note_scan h (replicate m slot_zero) j (Some x) wk = Inr (Some x, wk)" for m j x
    by (induction m arbitrary: j) (simp_all add: slot_zero_def)
  then show ?case by (simp add: slot_zero_def)
next
  case (Cons a as)
  then show ?case using Cons.IH [of "Suc i"] by simp
qed

text \<open>While at most 16 labels are heard nothing is evicted: the table holds exactly the totals of
  every label, in the order the labels were first heard.\<close>

lemma note_all_slots:
  assumes "length (labels ps) \<le> WITNESS_CORE_SLOTS" and "length ps < 65535" and "\<forall>p\<in>set ps. fst p AND 0x00FFFFFF = fst p"
  shows "co_open (note_all ps) \<and>
    co_slot (note_all ps) = map (spec_slot ps) (labels ps) @ replicate (WITNESS_CORE_SLOTS - length (labels ps)) slot_zero"
  using assms
proof (induction ps rule: rev_induct)
  case Nil
  then show ?case by (simp add: note_all_def ultrawidelock_witness_core_open_def labels_def)
next
  case (snoc p ps)
  obtain h r where p: "p = (h, r)" by (cases p)
  let ?c = "note_all ps" and ?ls = "labels ps"
  have h: "h AND 0x00FFFFFF = h" using snoc.prems p by simp
  have le: "length ?ls \<le> 16" using snoc.prems p by (simp add: labels_snoc split: if_splits)
  then have IH: "co_open ?c" "co_slot ?c = map (spec_slot ps) ?ls @ replicate (16 - length ?ls) slot_zero"
    using snoc by auto
  have step: "note_all (ps @ [p]) = ultrawidelock_witness_core_note ?c h r"
    by (simp add: note_all_def p)
  have other: "map (spec_slot (ps @ [p])) ls = map (spec_slot ps) ls" if "h \<notin> set ls" for ls
    using that by (auto simp: spec_slot_def rssis_snoc p)
  show ?case
  proof (cases "h \<in> fst ` set ps")
    case True
    then obtain as bs where ab: "?ls = as @ h # bs" "h \<notin> set as" "h \<notin> set bs"
      using distinct_labels [of ps] set_labels [of ps] by (metis split_list not_distinct_conv_prefix distinct.simps(2) distinct_append Un_iff set_append)
    have scan: "note_scan h (co_slot ?c) 0 None None = Inl (length as)"
    proof -
      have "\<forall>s\<in>set (map (spec_slot ps) as). cs_used s \<and> cs_hash24 s \<noteq> h"
        "cs_used (spec_slot ps h)" "cs_hash24 (spec_slot ps h) = h"
        using ab by (auto simp: spec_slot_def)
      from scan_hit [OF this] show ?thesis by (simp add: IH ab)
    qed
    have "length (rssis ps h) < 65535"
      using snoc.prems(2) by (auto simp: rssis_def intro: le_less_trans [OF length_filter_le])
    moreover have "rssis ps h \<noteq> []" using True rssis_nonempty by simp
    ultimately have "slot_add r (spec_slot ps h) = spec_slot (ps @ [p]) h"
      by (simp add: slot_add_def spec_slot_def rssis_snoc p Let_def word_less_nat_alt unat_of_nat take_bit_nat_eq_self max_def
          del: Max_less_iff)
    then show ?thesis
      using IH scan step other ab True h
      by (auto simp: ultrawidelock_witness_core_note_def Let_def labels_snoc p list_update_append nth_append)
  next
    case False
    then have lt: "length ?ls < 16" using snoc.prems p by (simp add: labels_snoc)
    then obtain k where k: "16 - length ?ls = Suc k" by (metis Suc_diff_Suc)
    obtain wk where scan: "note_scan h (co_slot ?c) 0 None None = Inr (Some (length ?ls), wk)"
      using scan_free [of "map (spec_slot ps) ?ls" h k 0 None] False k by (auto simp: IH spec_slot_def)
    have "rssis ps h = []" using False rssis_nonempty by blast
    then have "slot_new h r = spec_slot (ps @ [p]) h"
      by (simp add: slot_new_def spec_slot_def rssis_snoc p)
    moreover have "16 - length (?ls @ [h]) = k" "map (spec_slot (ps @ [p])) ?ls = map (spec_slot ps) ?ls"
      using k other [of ?ls] False by simp_all
    ultimately show ?thesis
      using IH scan step False h k lt
      by (simp del: map_eq_conv add: ultrawidelock_witness_core_note_def Let_def labels_snoc p list_update_append)
  qed
qed

section \<open>What the report takes\<close>

definition eligible :: "u8 \<Rightarrow> core_slot \<Rightarrow> bool" where
  "eligible min_pkts s \<longleftrightarrow> cs_used s \<and> \<not> cs_n s < ucast min_pkts"

text \<open>The scan finds the first of the loudest eligible slots.\<close>

definition loudest_at :: "u8 \<Rightarrow> core_slot list \<Rightarrow> nat \<Rightarrow> core_slot \<Rightarrow> bool" where
  "loudest_at m ss j s \<longleftrightarrow> (\<exists>as bs. ss = as @ s # bs \<and> j = length as \<and> eligible m s \<and>
     (\<forall>x\<in>set as. eligible m x \<longrightarrow> slot_mean x < slot_mean s) \<and> (\<forall>x\<in>set bs. eligible m x \<longrightarrow> slot_mean x \<le> slot_mean s))"

lemma loudest_at_skip:
  "loudest_at m ss j s \<Longrightarrow> eligible m a \<longrightarrow> slot_mean a < slot_mean s \<Longrightarrow> loudest_at m (a # ss) (Suc j) s"
  unfolding loudest_at_def by (elim exE) (rule_tac x = "a # as" in exI, rule_tac x = bs in exI, simp)

lemma loudest_at_here:
  "eligible m a \<Longrightarrow> \<forall>x\<in>set ss. eligible m x \<longrightarrow> slot_mean x \<le> slot_mean a \<Longrightarrow> loudest_at m (a # ss) 0 a"
  unfolding loudest_at_def by (rule exI [of _ "[]"]) simp

lemma best_scan_from:
  "\<exists>k s. best_scan m ss i (Some (j, b)) = Some (k, s) \<and>
     (k = j \<and> s = b \<and> (\<forall>x\<in>set ss. eligible m x \<longrightarrow> slot_mean x \<le> slot_mean b) \<or>
      (\<exists>d. k = i + d \<and> loudest_at m ss d s \<and> slot_mean b < slot_mean s))"
proof (induction ss arbitrary: i j b)
  case (Cons a ss)
  show ?case
  proof (cases "eligible m a \<and> slot_mean b < slot_mean a")
    case True
    then have "best_scan m (a # ss) i (Some (j, b)) = best_scan m ss (Suc i) (Some (i, a))"
      by (auto simp: eligible_def)
    moreover note Cons.IH [of "Suc i" i a]
    ultimately show ?thesis
      using True by (force intro: loudest_at_skip loudest_at_here)
  next
    case False
    then have "best_scan m (a # ss) i (Some (j, b)) = best_scan m ss (Suc i) (Some (j, b))"
      by (auto simp: eligible_def)
    moreover note Cons.IH [of "Suc i" j b]
    ultimately show ?thesis
      using False by (force intro: loudest_at_skip)
  qed
qed auto

lemma best_scan_open:
  "case best_scan m ss i None of
     None \<Rightarrow> filter (eligible m) ss = []
   | Some (k, s) \<Rightarrow> \<exists>d. k = i + d \<and> loudest_at m ss d s"
proof (induction ss arbitrary: i)
  case (Cons a ss)
  show ?case
  proof (cases "eligible m a")
    case True
    then have "best_scan m (a # ss) i None = best_scan m ss (Suc i) (Some (i, a))"
      by (auto simp: eligible_def)
    then show ?thesis
      using best_scan_from [of m ss "Suc i" i a] True by (force intro: loudest_at_skip loudest_at_here)
  next
    case False
    then have r: "best_scan m (a # ss) i None = best_scan m ss (Suc i) None"
      by (auto simp: eligible_def)
    show ?thesis
      using Cons.IH [of "Suc i"] False unfolding r by (force intro: loudest_at_skip split: option.splits)
  qed
qed simp

lemma sort_key_first_min:
  assumes "\<forall>x\<in>set as. f m < f x" and "\<forall>x\<in>set bs. f m \<le> f x"
  shows "sort_key f (as @ m # bs) = m # sort_key f (as @ bs)"
proof (rule properties_for_sort_key)
  show "mset (m # sort_key f (as @ bs)) = mset (as @ m # bs)" by simp
next
  show "sorted (map f (m # sort_key f (as @ bs)))"
    using assms by auto
next
  fix k
  have "filter (\<lambda>x. f k = f x) (sort_key f (as @ bs)) = filter (\<lambda>x. f k = f x) (as @ bs)"
    using sort_key_stable [of f "f k" "as @ bs"] by (simp add: eq_commute)
  moreover have "f k = f m \<Longrightarrow> filter (\<lambda>x. f k = f x) as = []"
    using assms(1) by (force simp: filter_empty_conv)
  ultimately show "filter (\<lambda>x. f k = f x) (m # sort_key f (as @ bs)) = filter (\<lambda>x. f k = f x) (as @ m # bs)"
    by (cases "f k = f m") simp_all
qed

lemma summarize_loop_sorts:
  "snd (summarize_loop k m ss) = map slot_tuple (take k (sort_key (\<lambda>s. - slot_mean s) (filter (eligible m) ss)))"
proof (induction k arbitrary: ss)
  case (Suc k)
  show ?case
  proof (cases "best_scan m ss 0 None")
    case None
    then show ?thesis using best_scan_open [of m ss 0] by simp
  next
    case (Some best)
    then obtain s as bs where ss: "best = (length as, s)" "ss = as @ s # bs" "eligible m s"
      "\<forall>x\<in>set as. eligible m x \<longrightarrow> slot_mean x < slot_mean s" "\<forall>x\<in>set bs. eligible m x \<longrightarrow> slot_mean x \<le> slot_mean s"
      using best_scan_open [of m ss 0] by (cases best) (auto simp: loudest_at_def)
    have "sort_key (\<lambda>s. - slot_mean s) (filter (eligible m) ss) =
        s # sort_key (\<lambda>s. - slot_mean s) (filter (eligible m) as @ filter (eligible m) bs)"
      using ss sort_key_first_min [of "filter (eligible m) as" "\<lambda>s. - slot_mean s" s "filter (eligible m) bs"] by auto
    moreover have "filter (eligible m) (ss[length as := s\<lparr> cs_used := False \<rparr>]) = filter (eligible m) as @ filter (eligible m) bs"
      using ss(2) by (simp add: eligible_def)
    ultimately show ?thesis
      using Suc.IH [of "ss[length as := s\<lparr> cs_used := False \<rparr>]"] Some ss(1) by (simp add: split_beta Let_def)
  qed
qed simp

lemma sort_key_map: "sort_key f (map g xs) = map g (sort_key (\<lambda>x. f (g x)) xs)"
proof -
  have "insort_key f (g x) (map g ys) = map g (insort_key (\<lambda>x. f (g x)) x ys)" for x ys
    by (induction ys) simp_all
  then show ?thesis by (induction xs) simp_all
qed

lemma sort_key_same_key:
  "(\<And>x. x \<in> set xs \<Longrightarrow> f x = g x) \<Longrightarrow> sort_key f xs = sort_key g xs"
proof (induction xs)
  case (Cons x xs)
  have "set ys \<subseteq> set (x # xs) \<Longrightarrow> insort_key f x ys = insort_key g x ys" for ys
    using Cons.prems by (induction ys) auto
  from this [of "sort_key g xs"] show ?case using Cons by auto
qed simp

definition label_mean :: "(u32 \<times> int) list \<Rightarrow> u32 \<Rightarrow> int" where
  "label_mean ps h = cdiv (sum_list (rssis ps h)) (int (length (rssis ps h)))"

definition label_tuple :: "(u32 \<times> int) list \<Rightarrow> u32 \<Rightarrow> witness_tuple" where
  "label_tuple ps h = \<lparr> wt_hash24 = h, wt_mean_dbm = label_mean ps h, wt_n_pkts = of_nat (min 255 (length (rssis ps h))) \<rparr>"

definition packets_ok :: "(u32 \<times> int) list \<Rightarrow> bool" where
  "packets_ok ps \<longleftrightarrow> length ps < 65535 \<and> length (labels ps) \<le> WITNESS_CORE_SLOTS \<and>
     list_all (\<lambda>p. fst p AND 0x00FFFFFF = fst p \<and> - 128 \<le> snd p \<and> snd p < 128) ps"

lemma sum_list_bounds:
  "\<forall>x\<in>set xs. lo \<le> x \<and> x \<le> hi \<Longrightarrow> lo * int (length xs) \<le> sum_list xs \<and> sum_list xs \<le> hi * int (length xs)"
  by (induction xs) (auto simp: algebra_simps)

lemma cdiv_bounds:
  assumes "0 < b" and "- m * b \<le> a" and "a \<le> n * b" and "0 \<le> m" "0 \<le> n"
  shows "- m \<le> cdiv a b \<and> cdiv a b \<le> n"
proof (cases "0 \<le> a")
  case True
  then show ?thesis
    using assms zdiv_mono1 [of a "n * b" b] by (simp add: pos_imp_zdiv_nonneg_iff order_trans [of "- m" 0])
next
  case False
  then have "cdiv a b = - (\<bar>a\<bar> div b)" "\<bar>a\<bar> div b \<le> m" "0 \<le> \<bar>a\<bar> div b"
    using assms zdiv_mono1 [of "\<bar>a\<bar>" "m * b" b] by (auto simp: cdiv_def pos_imp_zdiv_nonneg_iff)
  then show ?thesis using assms by linarith
qed

lemma spec_slot_facts:
  assumes "packets_ok ps" and "h \<in> set (labels ps)"
  shows "slot_mean (spec_slot ps h) = label_mean ps h \<and> slot_tuple (spec_slot ps h) = label_tuple ps h \<and>
    (eligible m (spec_slot ps h) \<longleftrightarrow> unat m \<le> length (rssis ps h))"
proof -
  let ?n = "length (rssis ps h)"
  have n: "0 < ?n" "?n < 65535"
    using assms rssis_nonempty [of h ps]
    by (auto simp: packets_ok_def rssis_def intro: le_less_trans [OF length_filter_le])
  have r: "\<forall>x\<in>set (rssis ps h). - 128 \<le> x \<and> x \<le> 127"
    using assms(1) by (force simp: packets_ok_def rssis_def list_all_iff)
  have u: "unat (of_nat ?n :: u16) = ?n"
    using n by (simp add: unat_of_nat take_bit_nat_eq_self)
  then have u': "uint (of_nat ?n :: u16) = int ?n" "(of_nat ?n :: u16) \<noteq> 0"
    using n by (auto simp: uint_nat)
  have mean: "slot_mean (spec_slot ps h) = label_mean ps h"
    using u' by (simp add: slot_mean_def spec_slot_def label_mean_def)
  have "- 128 \<le> label_mean ps h \<and> label_mean ps h \<le> 127"
    using cdiv_bounds [of "int ?n" 128 "sum_list (rssis ps h)" 127] sum_list_bounds [OF r] n
    by (simp add: label_mean_def)
  then have "sint (word_of_int (label_mean ps h) :: u8) = label_mean ps h"
    by (intro sint_word_of_int_id) simp_all
  moreover have "(if 255 < cs_n (spec_slot ps h) then 255 else ucast (cs_n (spec_slot ps h))) = (of_nat (min 255 ?n) :: u8)"
    using u n by (auto simp: spec_slot_def word_less_nat_alt min_def unsigned_of_nat take_bit_nat_eq_self)
  moreover have "unat (ucast m :: u16) = unat m"
    using unsigned_less [of m, where ?'a = nat] by (simp add: unsigned_ucast_eq take_bit_nat_eq_self)
  then have "eligible m (spec_slot ps h) \<longleftrightarrow> unat m \<le> ?n"
    using u by (simp add: eligible_def spec_slot_def word_less_nat_alt not_less)
  ultimately show ?thesis
    using mean by (simp add: slot_tuple_def label_tuple_def split del: if_split) (simp add: spec_slot_def)
qed

lemma spec_slot_heard:
  assumes "packets_ok ps" and "h \<in> set (labels ps)"
  shows "cs_n (spec_slot ps h) \<noteq> 0 \<and> 0 < wt_n_pkts (label_tuple ps h) \<and> wt_hash24 (label_tuple ps h) = h"
proof -
  have "0 < length (rssis ps h)" "length (rssis ps h) < 65535"
    using assms rssis_nonempty [of h ps]
    by (auto simp: packets_ok_def rssis_def intro: le_less_trans [OF length_filter_le])
  then show ?thesis
    by (auto simp: spec_slot_def label_tuple_def word_less_nat_alt unat_of_nat take_bit_nat_eq_self min_def word_of_nat_eq_0_iff
        dest!: dvd_imp_le)
qed

text \<open>A window in which at most 16 labels were heard is reported exactly: the tuples are the eight
  loudest of the labels with enough packets, loudest first and ties in the order they were first
  heard, each with the mean of exactly its own packets.\<close>

theorem window_report_is_loudest_eight:
  assumes "packets_ok ps"
  shows "let (n, c, msg') = ultrawidelock_witness_core_summarize (note_all ps) msg min_pkts
         in take (unat n) (wm_tuples msg') =
            map (label_tuple ps) (take WITNESS_MSG_MAX_TUPLES
              (sort_key (\<lambda>h. - label_mean ps h) (filter (\<lambda>h. unat min_pkts \<le> length (rssis ps h)) (labels ps))))"
proof -
  let ?ls = "filter (\<lambda>h. unat min_pkts \<le> length (rssis ps h)) (labels ps)"
  let ?ts = "snd (summarize_loop 8 min_pkts (co_slot (note_all ps)))"
  have "co_slot (note_all ps) = map (spec_slot ps) (labels ps) @ replicate (16 - length (labels ps)) slot_zero"
    using assms note_all_slots [of ps] by (auto simp: packets_ok_def list_all_iff)
  moreover have "filter (eligible min_pkts) (map (spec_slot ps) (labels ps)) = map (spec_slot ps) ?ls"
    using spec_slot_facts [OF assms] by (auto simp: filter_map comp_def intro!: arg_cong [of _ _ "map _"] filter_cong)
  ultimately have "?ts = map slot_tuple (take 8 (map (spec_slot ps) (sort_key (\<lambda>h. - slot_mean (spec_slot ps h)) ?ls)))"
    unfolding summarize_loop_sorts by (simp add: eligible_def slot_zero_def sort_key_map)
  moreover have "sort_key (\<lambda>h. - slot_mean (spec_slot ps h)) ?ls = sort_key (\<lambda>h. - label_mean ps h) ?ls"
    using spec_slot_facts [OF assms] by (intro sort_key_same_key) auto
  ultimately have ts: "?ts = map (label_tuple ps) (take 8 (sort_key (\<lambda>h. - label_mean ps h) ?ls))"
    using spec_slot_facts [OF assms] by (auto simp: take_map comp_def dest!: in_set_takeD)
  then have "length ?ts \<le> 8" by simp
  then have "unat (of_nat (length ?ts) :: u8) = length ?ts"
    by (simp add: unat_of_nat take_bit_nat_eq_self)
  then show ?thesis
    using ts by (simp add: ultrawidelock_witness_core_summarize_def Let_def split_beta)
qed

definition demo_packets :: "(u32 \<times> int) list" where
  "demo_packets = [(7, - 60), (9, - 48), (7, - 61), (9, - 50), (5, - 40)]"

definition demo_msg :: witness_msg where
  "demo_msg = \<lparr> wm_ver = 2, wm_role = 2, wm_boot_id = 1, wm_ctr = 1, wm_echo_nonce = 0, wm_window_ms = 2000,
     wm_n_tuples = 0, wm_tuples = replicate 8 tuple_zero \<rparr>"

theorem window_report_is_loudest_eight_witness:
  "let (n, c, msg') = ultrawidelock_witness_core_summarize (note_all demo_packets) demo_msg 2
   in map wt_hash24 (take (unat n) (wm_tuples msg')) = [9, 7] \<and> map wt_mean_dbm (take (unat n) (wm_tuples msg')) = [- 49, - 60]"
proof -
  have "packets_ok demo_packets"
    "map (label_tuple demo_packets) (take 8 (sort_key (\<lambda>h. - label_mean demo_packets h)
       (filter (\<lambda>h. unat (2::u8) \<le> length (rssis demo_packets h)) (labels demo_packets)))) =
     [\<lparr> wt_hash24 = 9, wt_mean_dbm = - 49, wt_n_pkts = 2 \<rparr>, \<lparr> wt_hash24 = 7, wt_mean_dbm = - 60, wt_n_pkts = 2 \<rparr>]"
    by (simp_all add: demo_packets_def packets_ok_def labels_def label_tuple_def label_mean_def rssis_def cdiv_def)
  then show ?thesis
    using window_report_is_loudest_eight [of demo_packets demo_msg 2] by (simp add: Let_def split_beta)
qed

section \<open>The hinted label\<close>

lemma summarize_loop_slots:
  "length (fst (summarize_loop k m ss)) = length ss \<and>
   (\<forall>j<length ss. fst (summarize_loop k m ss) ! j = ss ! j \<or>
      \<not> cs_used (fst (summarize_loop k m ss) ! j) \<and> cs_used (ss ! j) \<and> slot_tuple (ss ! j) \<in> set (snd (summarize_loop k m ss)))"
proof (induction k arbitrary: ss)
  case (Suc k)
  show ?case
  proof (cases "best_scan m ss 0 None")
    case (Some best)
    then obtain i s where i: "best = (i, s)" "i < length ss" "ss ! i = s" "cs_used s"
      using best_scan_open [of m ss 0] by (cases best) (auto simp: loudest_at_def eligible_def)
    let ?ss = "ss[i := s\<lparr> cs_used := False \<rparr>]"
    have loop: "summarize_loop (Suc k) m ss =
        (fst (summarize_loop k m ?ss), slot_tuple s # snd (summarize_loop k m ?ss))"
      using Some i(1) by (simp add: split_beta Let_def)
    have IH: "j < length ss \<Longrightarrow> fst (summarize_loop k m ?ss) ! j = ?ss ! j \<or>
        \<not> cs_used (fst (summarize_loop k m ?ss) ! j) \<and> cs_used (?ss ! j) \<and> slot_tuple (?ss ! j) \<in> set (snd (summarize_loop k m ?ss))"
      and len: "length (fst (summarize_loop k m ?ss)) = length ss" for j
      using Suc.IH [of ?ss] by simp_all
    have "fst (summarize_loop k m ?ss) ! j = ss ! j \<or> \<not> cs_used (fst (summarize_loop k m ?ss) ! j) \<and> cs_used (ss ! j) \<and>
        slot_tuple (ss ! j) \<in> set (slot_tuple s # snd (summarize_loop k m ?ss))" if "j < length ss" for j
      using IH [OF that] i that by (cases "j = i") auto
    then show ?thesis
      unfolding loop using len by simp
  qed simp
qed simp

lemma find_eq_Some: "List.find P xs = Some x \<Longrightarrow> x \<in> set xs \<and> P x"
  by (auto simp: find_Some_iff in_set_conv_nth)

lemma find_snoc: "List.find P xs = None \<Longrightarrow> P x \<Longrightarrow> List.find P (xs @ [x]) = Some x"
  by (induction xs) (auto split: if_splits)

lemma find_None_last: "List.find P xs = None \<Longrightarrow> P x \<Longrightarrow> xs \<noteq> [] \<Longrightarrow> List.find P (xs[length xs - 1 := x]) = Some x"
proof -
  assume "List.find P xs = None" and "P x" and "xs \<noteq> []"
  moreover from \<open>xs \<noteq> []\<close> obtain ys y where "xs = ys @ [y]" by (metis append_butlast_last_id)
  ultimately show ?thesis
    using find_snoc [of P ys x] by (auto simp: find_None_iff list_update_append)
qed

lemma used_slot_of_label:
  assumes "i < WITNESS_CORE_SLOTS" and "length (labels ps) \<le> WITNESS_CORE_SLOTS"
    and "ss = map (spec_slot ps) (labels ps) @ replicate (WITNESS_CORE_SLOTS - length (labels ps)) slot_zero"
    and "cs_used (ss ! i)" and "cs_hash24 (ss ! i) = h"
  shows "ss ! i = spec_slot ps h \<and> h \<in> set (labels ps)"
  using assms by (auto simp: nth_append slot_zero_def spec_slot_def simp del: set_labels split: if_splits)

text \<open>Every label heard in a window can be forced into its report: after the hint the report holds a
  tuple for it, with the mean of exactly its packets, even when it was heard once or missed the cut.\<close>

theorem hinted_label_is_reported:
  assumes "packets_ok ps" and "h \<in> set (labels ps)" and "h \<noteq> 0"
  shows "let (n, c, msg1) = ultrawidelock_witness_core_summarize (note_all ps) msg min_pkts;
             (ok, c', msg2) = ultrawidelock_witness_core_include c msg1 h
         in ok \<and> ultrawidelock_witness_msg_find msg2 h = Some (label_tuple ps h)"
proof -
  define ss where "ss = co_slot (note_all ps)"
  define ss' ts where "ss' = fst (summarize_loop 8 min_pkts ss)" and "ts = snd (summarize_loop 8 min_pkts ss)"
  have le: "length (labels ps) \<le> 16" and mask: "h AND 0x00FFFFFF = h"
    using assms by (auto simp: packets_ok_def list_all_iff)
  have slots: "ss = map (spec_slot ps) (labels ps) @ replicate (16 - length (labels ps)) slot_zero"
    using assms(1) note_all_slots [of ps] by (simp add: ss_def packets_ok_def list_all_iff)
  let ?P = "\<lambda>t. 0 < wt_n_pkts t \<and> wt_hash24 t = h"
  have x: "slot_tuple (spec_slot ps h) = label_tuple ps h" "?P (label_tuple ps h)" "cs_n (spec_slot ps h) \<noteq> 0"
    using spec_slot_facts [OF assms(1,2)] spec_slot_heard [OF assms(1,2)] by simp_all
  have ts: "length ts \<le> 8" "t \<in> set ts \<Longrightarrow> wt_hash24 t = h \<Longrightarrow> t = label_tuple ps h" for t
  proof -
    show "length ts \<le> 8" by (simp add: ts_def summarize_loop_sorts)
    assume t: "t \<in> set ts" "wt_hash24 t = h"
    then obtain s where "s \<in> set ss" "cs_used s" "t = slot_tuple s"
      by (auto simp: ts_def summarize_loop_sorts eligible_def dest!: in_set_takeD)
    then obtain h' where "h' \<in> set (labels ps)" "t = slot_tuple (spec_slot ps h')"
      by (auto simp: slots slot_zero_def simp del: set_labels)
    then show "t = label_tuple ps h"
      using t(2) spec_slot_facts [OF assms(1)] by (simp add: label_tuple_def del: set_labels)
  qed
  let ?m1 = "msg\<lparr> wm_n_tuples := of_nat (length ts), wm_tuples := ts @ replicate (8 - length ts) tuple_zero \<rparr>"
  have n: "unat (of_nat (length ts) :: u8) = length ts"
    using ts(1) by (simp add: unat_of_nat take_bit_nat_eq_self)
  have find1: "ultrawidelock_witness_msg_find ?m1 h = List.find ?P ts"
    using ts(1) n mask by (simp add: ultrawidelock_witness_msg_find_def)
  have "\<exists>c' m2. ultrawidelock_witness_core_include (note_all ps\<lparr> co_open := False, co_slot := ss' \<rparr>) ?m1 h = (True, c', m2) \<and>
      ultrawidelock_witness_msg_find m2 h = Some (label_tuple ps h)"
  proof (cases "List.find ?P ts")
    case (Some t)
    then have "t = label_tuple ps h" using find_eq_Some [OF Some] ts(2) [of t] by simp
    then show ?thesis
      using Some find1 assms(3) mask by (simp add: ultrawidelock_witness_core_include_def Let_def)
  next
    case None
    obtain j where j: "j < length (labels ps)" "labels ps ! j = h"
      using assms(2) by (meson in_set_conv_nth)
    have "label_tuple ps h \<notin> set ts" using None x(2) by (auto simp: find_None_iff)
    moreover have "ss ! j = spec_slot ps h" "j < length ss" using j by (simp_all add: slots nth_append)
    ultimately have "ss' ! j = spec_slot ps h" "j < 16"
      using summarize_loop_slots [of 8 min_pkts ss] x(1) j le by (auto simp: ss'_def ts_def)
    then have "j \<in> set [0..<16] \<and> cs_used (ss' ! j) \<and> cs_hash24 (ss' ! j) = h"
      by (simp add: spec_slot_def)
    then obtain i where i: "List.find (\<lambda>i. cs_used (ss' ! i) \<and> cs_hash24 (ss' ! i) = h) [0..<16] = Some i"
      by (metis (mono_tags, lifting) find_None_iff not_None_eq)
    from find_eq_Some [OF this] have "i < 16" "cs_used (ss' ! i)" "cs_hash24 (ss' ! i) = h"
      by simp_all
    moreover have "length ss = 16" using slots le by simp
    ultimately have si: "ss' ! i = spec_slot ps h"
      using summarize_loop_slots [of 8 min_pkts ss] used_slot_of_label [OF _ le slots, of i h] by (auto simp: ss'_def)
    show ?thesis
    proof (cases "length ts < 8")
      case True
      then obtain k where k: "8 - length ts = Suc k" by (metis Suc_diff_Suc)
      have "unat (of_nat (length ts) + 1 :: u8) = Suc (length ts)"
        using True by (simp add: unat_word_ariths n)
      then show ?thesis
        using True None find1 assms(3) mask i si x n k find_snoc [OF None x(2)]
        by (simp add: ultrawidelock_witness_core_include_def ultrawidelock_witness_msg_find_def Let_def list_update_append)
    next
      case False
      then have "length ts = 8" "ts \<noteq> []" using ts(1) by auto
      then show ?thesis
        using None find1 assms(3) mask i si x n find_None_last [OF None x(2)]
        by (auto simp: ultrawidelock_witness_core_include_def ultrawidelock_witness_msg_find_def Let_def)
    qed
  qed
  then show ?thesis
    by (auto simp: ultrawidelock_witness_core_summarize_def Let_def split_beta ss_def ss'_def ts_def)
qed

theorem hinted_label_is_reported_witness:
  "let (n, c, msg1) = ultrawidelock_witness_core_summarize (note_all demo_packets) demo_msg 2;
       (ok, c', msg2) = ultrawidelock_witness_core_include c msg1 5
   in ok \<and> ultrawidelock_witness_msg_find msg2 5 = Some \<lparr> wt_hash24 = 5, wt_mean_dbm = - 40, wt_n_pkts = 1 \<rparr>"
proof -
  have "packets_ok demo_packets" "5 \<in> set (labels demo_packets)"
    "label_tuple demo_packets 5 = \<lparr> wt_hash24 = 5, wt_mean_dbm = - 40, wt_n_pkts = 1 \<rparr>"
    by (simp_all add: demo_packets_def packets_ok_def labels_def label_tuple_def label_mean_def rssis_def cdiv_def)
  then show ?thesis
    using hinted_label_is_reported [of demo_packets 5 demo_msg 2] by simp
qed

end
