(* ===== verification/Witness_Pick.thy ===== *)
theory Witness_Pick
  imports Witness_Msg
begin

text \<open>
  Which advertiser is the phone (\<^verbatim>\<open>ultrawidelock_witness_pick.c\<close>): each label the outside witness
  reports is scored on the agreement of its RSSI change with the lock's own range change, window by
  window; the best label is picked when its score, its number of windows and its margin over every
  rival suffice.
\<close>

section \<open>State and operations\<close>

record pick_cfg =
  pc_min_score :: int
  pc_min_windows :: u8
  pc_min_margin :: int
  pc_rssi_eps_db :: int
  pc_range_eps_mm :: int
  pc_cluster_db :: int

record pick_cand =
  pk_hash24 :: u32
  pk_last_dbm :: int
  pk_last_range_mm :: int
  pk_score :: int
  pk_windows :: u8
  pk_used :: bool
  pk_have_prev :: bool

record witness_pick =
  wp_cfg :: pick_cfg
  wp_cand :: "pick_cand list"
  wp_evictions :: u32

record pick_stats =
  ps_best_hash24 :: u32
  ps_evictions :: u32
  ps_best_score :: int
  ps_runner_score :: int
  ps_runner_gap_db :: int
  ps_best_windows :: u8
  ps_n_cand :: u8
  ps_have :: bool

abbreviation PICK_MAX :: nat where "PICK_MAX \<equiv> 24"
abbreviation SCORE_MIN :: int where "SCORE_MIN \<equiv> - 32"
abbreviation SCORE_MAX :: int where "SCORE_MAX \<equiv> 32"

definition ultrawidelock_witness_pick_defaults :: pick_cfg where
  "ultrawidelock_witness_pick_defaults =
     \<lparr> pc_min_score = 3, pc_min_windows = 3, pc_min_margin = 2, pc_rssi_eps_db = 3, pc_range_eps_mm = 300, pc_cluster_db = 6 \<rparr>"

definition cand_zero :: pick_cand where
  "cand_zero = \<lparr> pk_hash24 = 0, pk_last_dbm = 0, pk_last_range_mm = 0, pk_score = 0, pk_windows = 0,
     pk_used = False, pk_have_prev = False \<rparr>"

definition ultrawidelock_witness_pick_init :: "pick_cfg option \<Rightarrow> witness_pick" where
  "ultrawidelock_witness_pick_init cfg =
     \<lparr> wp_cfg = (case cfg of Some c \<Rightarrow> c | None \<Rightarrow> ultrawidelock_witness_pick_defaults),
       wp_cand = replicate PICK_MAX cand_zero, wp_evictions = 0 \<rparr>"

definition ultrawidelock_witness_pick_reset :: "witness_pick \<Rightarrow> witness_pick" where
  "ultrawidelock_witness_pick_reset p = p\<lparr> wp_cand := replicate PICK_MAX cand_zero, wp_evictions := 0 \<rparr>"

text \<open>The search several operations share: the first used entry with the label.\<close>

fun cand_find :: "u32 \<Rightarrow> pick_cand list \<Rightarrow> nat \<Rightarrow> nat option" where
  "cand_find h [] i = None"
| "cand_find h (c # cs) i = (if pk_used c \<and> pk_hash24 c = h then Some i else cand_find h cs (Suc i))"

fun victim_scan :: "pick_cand list \<Rightarrow> nat \<Rightarrow> (nat \<times> pick_cand) option \<Rightarrow> (nat \<times> pick_cand) option" where
  "victim_scan [] i v = v"
| "victim_scan (c # cs) i v =
     (if \<not> pk_used c then Some (i, c)
      else victim_scan cs (Suc i)
        (case v of None \<Rightarrow> Some (i, c)
         | Some (_, w) \<Rightarrow>
             if pk_score c < pk_score w \<or> (pk_score c = pk_score w \<and> pk_windows w < pk_windows c) then Some (i, c) else v))"

definition cand_get :: "witness_pick \<Rightarrow> u32 \<Rightarrow> nat option \<times> witness_pick" where
  "cand_get p h =
     (case cand_find h (wp_cand p) 0 of
        Some i \<Rightarrow> (Some i, p)
      | None \<Rightarrow>
          (case victim_scan (wp_cand p) 0 None of
             None \<Rightarrow> (None, p)
           | Some (i, v) \<Rightarrow>
               (Some i, p\<lparr> wp_evictions := wp_evictions p + (if pk_used v then 1 else 0),
                          wp_cand := (wp_cand p)[i := cand_zero\<lparr> pk_used := True, pk_hash24 := h \<rparr>] \<rparr>)))"

text \<open>One window's evidence about one label.\<close>

definition cand_observe :: "pick_cfg \<Rightarrow> int \<Rightarrow> int \<Rightarrow> pick_cand \<Rightarrow> pick_cand" where
  "cand_observe cfg dbm range_mm c0 =
     (let c = (if pk_windows c0 < 0xFF then c0\<lparr> pk_windows := pk_windows c0 + 1 \<rparr> else c0)
      in if \<not> pk_have_prev c then c\<lparr> pk_have_prev := True, pk_last_dbm := dbm, pk_last_range_mm := range_mm \<rparr>
         else
          (let d_rssi = dbm - pk_last_dbm c; d_range = range_mm - pk_last_range_mm c;
               c = c\<lparr> pk_last_dbm := dbm, pk_last_range_mm := range_mm \<rparr>
           in if (if d_rssi < 0 then - d_rssi < pc_rssi_eps_db cfg else d_rssi < pc_rssi_eps_db cfg) then c
              else if (if d_range < 0 then - d_range < pc_range_eps_mm cfg else d_range < pc_range_eps_mm cfg) then c
              else if (0 < d_rssi \<and> d_range < 0) \<or> (d_rssi < 0 \<and> 0 < d_range)
                then (if pk_score c < SCORE_MAX then c\<lparr> pk_score := pk_score c + 1 \<rparr> else c)
                else c\<lparr> pk_score := (if pk_score c - 2 < SCORE_MIN then SCORE_MIN else pk_score c - 2) \<rparr>))"

definition feed_tuple :: "int \<Rightarrow> witness_pick \<Rightarrow> witness_tuple \<Rightarrow> witness_pick" where
  "feed_tuple range_mm p t =
     (case cand_get p (wt_hash24 t) of
        (None, p') \<Rightarrow> p'
      | (Some i, p') \<Rightarrow> p'\<lparr> wp_cand := (wp_cand p')[i := cand_observe (wp_cfg p') (wt_mean_dbm t) range_mm (wp_cand p' ! i)] \<rparr>)"

definition msg_heard :: "witness_msg \<Rightarrow> witness_tuple list" where
  "msg_heard msg = List.map_filter (\<lambda>i. ultrawidelock_witness_msg_at msg (of_nat i)) [0..<WITNESS_MSG_MAX_TUPLES]"

definition ultrawidelock_witness_pick_feed :: "witness_pick \<Rightarrow> witness_msg \<Rightarrow> int \<Rightarrow> witness_pick" where
  "ultrawidelock_witness_pick_feed p msg range_mm =
     (if range_mm < 0 then p
      else if wm_role msg \<noteq> WITNESS_ROLE_OUTSIDE then p
      else foldl (feed_tuple range_mm) p (msg_heard msg))"

fun best_cand :: "pick_cand list \<Rightarrow> nat \<Rightarrow> (nat \<times> pick_cand) option \<Rightarrow> (nat \<times> pick_cand) option" where
  "best_cand [] i b = b"
| "best_cand (c # cs) i b =
     best_cand cs (Suc i)
       (if \<not> pk_used c then b
        else case b of None \<Rightarrow> Some (i, c) | Some (_, d) \<Rightarrow> if pk_score d < pk_score c then Some (i, c) else b)"

fun runner_scan :: "pick_cfg \<Rightarrow> nat \<Rightarrow> pick_cand \<Rightarrow> pick_cand list \<Rightarrow> nat \<Rightarrow> int \<times> int \<Rightarrow> int \<times> int" where
  "runner_scan cfg bi best [] i r = r"
| "runner_scan cfg bi best (c # cs) i (runner, gap) =
     (let d = \<bar>pk_last_dbm c - pk_last_dbm best\<bar>
      in runner_scan cfg bi best cs (Suc i)
           (if \<not> pk_used c \<or> i = bi then (runner, gap)
            else if pc_min_score cfg \<le> pk_score c \<and> d \<le> pc_cluster_db cfg then (runner, gap)
            else if runner < pk_score c then (pk_score c, to_i16 d)
            else (runner, gap)))"

definition stats_zero :: pick_stats where
  "stats_zero = \<lparr> ps_best_hash24 = 0, ps_evictions = 0, ps_best_score = 0, ps_runner_score = SCORE_MIN,
     ps_runner_gap_db = 0, ps_best_windows = 0, ps_n_cand = 0, ps_have = False \<rparr>"

definition ultrawidelock_witness_pick_stats :: "witness_pick option \<Rightarrow> pick_stats" where
  "ultrawidelock_witness_pick_stats po =
     (case po of None \<Rightarrow> stats_zero
      | Some p \<Rightarrow>
          (let st = stats_zero\<lparr> ps_evictions := wp_evictions p, ps_n_cand := of_nat (length (filter pk_used (wp_cand p))) \<rparr>
           in case best_cand (wp_cand p) 0 None of
                None \<Rightarrow> st
              | Some (bi, best) \<Rightarrow>
                  (let (runner, gap) = runner_scan (wp_cfg p) bi best (wp_cand p) 0 (SCORE_MIN, 0)
                   in st\<lparr> ps_have := True, ps_best_hash24 := pk_hash24 best, ps_best_score := pk_score best,
                         ps_best_windows := pk_windows best, ps_runner_score := runner, ps_runner_gap_db := gap \<rparr>)))"

definition ultrawidelock_witness_pick_retire :: "witness_pick \<Rightarrow> u32 \<Rightarrow> witness_pick" where
  "ultrawidelock_witness_pick_retire p h =
     (case cand_find h (wp_cand p) 0 of
        None \<Rightarrow> p
      | Some i \<Rightarrow> p\<lparr> wp_cand := (wp_cand p)[i := cand_zero] \<rparr>)"

definition succ_consider :: "witness_pick \<Rightarrow> u32 \<Rightarrow> pick_cand \<Rightarrow> (nat \<times> int) option \<Rightarrow> witness_tuple \<Rightarrow> (nat \<times> int) option" where
  "succ_consider p old_hash24 old succ t =
     (if wt_hash24 t = old_hash24 then succ
      else case cand_find (wt_hash24 t) (wp_cand p) 0 of
          None \<Rightarrow> succ
        | Some j \<Rightarrow>
            (if 6 < pk_windows (wp_cand p ! j) then succ
             else (let d = \<bar>wt_mean_dbm t - pk_last_dbm old\<bar>
               in if pc_cluster_db (wp_cfg p) < d then succ
                  else case succ of None \<Rightarrow> Some (j, d) | Some (_, d') \<Rightarrow> if d < d' then Some (j, d) else succ)))"

definition ultrawidelock_witness_pick_succeed :: "witness_pick \<Rightarrow> u32 \<Rightarrow> witness_msg \<Rightarrow> u32 \<times> witness_pick" where
  "ultrawidelock_witness_pick_succeed p old_hash24 msg =
     (case cand_find old_hash24 (wp_cand p) 0 of
        None \<Rightarrow> (0, p)
      | Some i \<Rightarrow>
          (let old = wp_cand p ! i
           in case foldl (succ_consider p old_hash24 old) None (msg_heard msg) of
                None \<Rightarrow> (0, p)
              | Some (j, _) \<Rightarrow>
                  (let s = (wp_cand p ! j)\<lparr> pk_score := pk_score old, pk_windows := pk_windows old \<rparr>
                   in (pk_hash24 s, p\<lparr> wp_cand := (wp_cand p)[j := s, i := cand_zero] \<rparr>))))"

definition ultrawidelock_witness_pick_best :: "witness_pick \<Rightarrow> u32 option" where
  "ultrawidelock_witness_pick_best p =
     (let st = ultrawidelock_witness_pick_stats (Some p)
      in if \<not> ps_have st then None
         else if ps_best_score st < pc_min_score (wp_cfg p) \<or> ps_best_windows st < pc_min_windows (wp_cfg p) then None
         else if ps_best_score st - ps_runner_score st < pc_min_margin (wp_cfg p) then None
         else Some (ps_best_hash24 st))"

section \<open>Evidence behind a pick\<close>

text \<open>
  The specification looks at the reports themselves: the observations of a label are the levels the
  outside witness reported for it with the range of the same window, and two consecutive
  observations agree when level and range both moved past their floors in opposite directions.
\<close>

type_synonym observation = "int \<times> int"

definition agree :: "pick_cfg \<Rightarrow> observation \<Rightarrow> observation \<Rightarrow> bool" where
  "agree cfg a b \<longleftrightarrow>
     (let d_rssi = fst b - fst a; d_range = snd b - snd a
      in pc_rssi_eps_db cfg \<le> \<bar>d_rssi\<bar> \<and> pc_range_eps_mm cfg \<le> \<bar>d_range\<bar> \<and> (0 < d_rssi \<and> d_range < 0 \<or> d_rssi < 0 \<and> 0 < d_range))"

fun agreements :: "pick_cfg \<Rightarrow> observation list \<Rightarrow> nat" where
  "agreements cfg (a # b # r) = (if agree cfg a b then 1 else 0) + agreements cfg (b # r)"
| "agreements cfg _ = 0"

datatype pick_event = Feed witness_msg int | Retire u32 | Reset

fun pick_step :: "witness_pick \<Rightarrow> pick_event \<Rightarrow> witness_pick" where
  "pick_step p (Feed msg r) = ultrawidelock_witness_pick_feed p msg r"
| "pick_step p (Retire h) = ultrawidelock_witness_pick_retire p h"
| "pick_step p Reset = ultrawidelock_witness_pick_reset p"

definition tuple_obs :: "u32 \<Rightarrow> int \<Rightarrow> witness_tuple list \<Rightarrow> observation list" where
  "tuple_obs h r ts = map (\<lambda>t. (wt_mean_dbm t, r)) (filter (\<lambda>t. wt_hash24 t = h) ts)"

fun event_obs :: "u32 \<Rightarrow> pick_event \<Rightarrow> observation list" where
  "event_obs h (Feed msg r) =
     (if r < 0 \<or> wm_role msg \<noteq> WITNESS_ROLE_OUTSIDE then [] else tuple_obs h r (msg_heard msg))"
| "event_obs h _ = []"

definition observations :: "u32 \<Rightarrow> pick_event list \<Rightarrow> observation list" where
  "observations h es = concat (map (event_obs h) es)"

lemma agreements_snoc:
  "agreements cfg (xs @ [y]) = agreements cfg xs + (if xs \<noteq> [] \<and> agree cfg (last xs) y then 1 else 0)"
  by (induction cfg xs rule: agreements.induct) auto

text \<open>What the table knows of a label is backed by its observations.\<close>

definition backed :: "pick_cfg \<Rightarrow> (u32 \<Rightarrow> observation list) \<Rightarrow> pick_cand \<Rightarrow> bool" where
  "backed cfg obs c \<longleftrightarrow>
     unat (pk_windows c) \<le> length (obs (pk_hash24 c)) \<and> pk_score c \<le> int (agreements cfg (obs (pk_hash24 c))) \<and>
     (pk_have_prev c \<longrightarrow> obs (pk_hash24 c) \<noteq> [] \<and> last (obs (pk_hash24 c)) = (pk_last_dbm c, pk_last_range_mm c))"

definition unique_labels :: "pick_cand list \<Rightarrow> bool" where
  "unique_labels cs \<longleftrightarrow> (\<forall>i<length cs. \<forall>j<length cs.
     pk_used (cs ! i) \<and> pk_used (cs ! j) \<and> pk_hash24 (cs ! i) = pk_hash24 (cs ! j) \<longrightarrow> i = j)"

definition pick_inv :: "witness_pick \<Rightarrow> (u32 \<Rightarrow> observation list) \<Rightarrow> bool" where
  "pick_inv p obs \<longleftrightarrow> unique_labels (wp_cand p) \<and> (\<forall>i<length (wp_cand p). pk_used (wp_cand p ! i) \<longrightarrow> backed (wp_cfg p) obs (wp_cand p ! i))"

lemma cand_find_Some:
  "cand_find h cs i = Some k \<Longrightarrow> i \<le> k \<and> k - i < length cs \<and> pk_used (cs ! (k - i)) \<and> pk_hash24 (cs ! (k - i)) = h"
  by (induction cs arbitrary: i) (fastforce simp: nth_Cons' Suc_le_eq split: if_splits)+

lemma cand_find_None: "cand_find h cs i = None \<longleftrightarrow> (\<forall>c\<in>set cs. pk_used c \<longrightarrow> pk_hash24 c \<noteq> h)"
  by (induction cs arbitrary: i) auto

lemma victim_scan_index: "victim_scan cs i v = Some (k, c) \<Longrightarrow> v = Some (k, c) \<or> i \<le> k \<and> k - i < length cs"
proof (induction cs arbitrary: i v)
  case (Cons a cs)
  show ?case
  proof (cases "pk_used a")
    case True
    then obtain v' where "victim_scan cs (Suc i) v' = Some (k, c)" "v' = v \<or> v' = Some (i, a)"
      using Cons.prems by (auto split: option.splits prod.splits if_splits)
    then show ?thesis using Cons.IH [of "Suc i" v'] by auto
  qed (use Cons.prems in auto)
qed simp

lemma backed_observe:
  assumes "backed cfg obs c" and "pk_hash24 c = h"
  shows "backed cfg (obs(h := obs h @ [(dbm, r)])) (cand_observe cfg dbm r c)"
proof -
  have w: "unat (pk_windows c + 1) = Suc (unat (pk_windows c))" if "pk_windows c < 0xFF"
    using unat_Suc_if_less [OF that] .
  have "agree cfg (pk_last_dbm c, pk_last_range_mm c) (dbm, r)"
    if "\<not> (if dbm - pk_last_dbm c < 0 then - (dbm - pk_last_dbm c) < pc_rssi_eps_db cfg else dbm - pk_last_dbm c < pc_rssi_eps_db cfg)"
      "\<not> (if r - pk_last_range_mm c < 0 then - (r - pk_last_range_mm c) < pc_range_eps_mm cfg else r - pk_last_range_mm c < pc_range_eps_mm cfg)"
      "(0 < dbm - pk_last_dbm c \<and> r - pk_last_range_mm c < 0) \<or> (dbm - pk_last_dbm c < 0 \<and> 0 < r - pk_last_range_mm c)"
    using that by (auto simp: agree_def Let_def split: if_splits)
  then show ?thesis
    using assms w by (auto simp: backed_def cand_observe_def agreements_snoc Let_def)
qed

lemma observe_label [simp]:
  "pk_hash24 (cand_observe cfg dbm r c) = pk_hash24 c" "pk_used (cand_observe cfg dbm r c) = pk_used c"
  by (simp_all add: cand_observe_def Let_def)

lemma unique_labels_update:
  assumes "unique_labels cs" and "i < length cs" and "\<And>j. j < length cs \<Longrightarrow> j \<noteq> i \<Longrightarrow> pk_used c \<Longrightarrow> pk_used (cs ! j) \<Longrightarrow> pk_hash24 (cs ! j) \<noteq> pk_hash24 c"
  shows "unique_labels (cs[i := c])"
  unfolding unique_labels_def
proof (intro allI impI)
  fix a b
  assume "a < length (cs[i := c])" "b < length (cs[i := c])"
    and "pk_used (cs[i := c] ! a) \<and> pk_used (cs[i := c] ! b) \<and> pk_hash24 (cs[i := c] ! a) = pk_hash24 (cs[i := c] ! b)"
  then show "a = b"
    using assms(1) [unfolded unique_labels_def, rule_format, of a b] assms(2) assms(3) [of a] assms(3) [of b]
    by (cases "a = i"; cases "b = i") auto
qed

text \<open>Looking a label up gives its own entry, whose contents are backed, and no other entry has it.\<close>

lemma cand_get_spec:
  assumes "cand_get p h = (io, p')" and "pick_inv p obs"
  shows "wp_cfg p' = wp_cfg p \<and> pick_inv p' obs \<and> length (wp_cand p') = length (wp_cand p) \<and>
    (case io of None \<Rightarrow> True
     | Some i \<Rightarrow> i < length (wp_cand p') \<and> pk_used (wp_cand p' ! i) \<and> pk_hash24 (wp_cand p' ! i) = h)"
proof (cases "cand_find h (wp_cand p) 0")
  case (Some i)
  then have "io = Some i" "p' = p"
    using assms(1) by (simp_all add: cand_get_def)
  then show ?thesis
    using assms(2) cand_find_Some [OF Some] by simp
next
  case None
  then have nh: "j < length (wp_cand p) \<Longrightarrow> pk_used (wp_cand p ! j) \<Longrightarrow> pk_hash24 (wp_cand p ! j) \<noteq> h" for j
    by (auto simp: cand_find_None)
  show ?thesis
  proof (cases "victim_scan (wp_cand p) 0 None")
    case (Some iv)
    then obtain i v where iv: "iv = (i, v)" "i < length (wp_cand p)"
      using victim_scan_index by (cases iv) fastforce
    let ?c = "cand_zero\<lparr> pk_used := True, pk_hash24 := h \<rparr>"
    have "unique_labels ((wp_cand p)[i := ?c])"
      using assms(2) nh iv by (intro unique_labels_update) (auto simp: pick_inv_def)
    moreover have "backed (wp_cfg p) obs ?c"
      by (simp add: backed_def cand_zero_def)
    ultimately show ?thesis
      using assms None Some iv by (auto simp: cand_get_def pick_inv_def nth_list_update)
  qed (use assms None in \<open>auto simp: cand_get_def\<close>)
qed

lemma pick_inv_feed_tuple:
  assumes "pick_inv p obs"
  shows "pick_inv (feed_tuple r p t) (obs(wt_hash24 t := obs (wt_hash24 t) @ [(wt_mean_dbm t, r)])) \<and> wp_cfg (feed_tuple r p t) = wp_cfg p \<and>
    length (wp_cand (feed_tuple r p t)) = length (wp_cand p)"
proof -
  let ?h = "wt_hash24 t" and ?obs = "obs(wt_hash24 t := obs (wt_hash24 t) @ [(wt_mean_dbm t, r)])"
  obtain io p' where g: "cand_get p ?h = (io, p')" by fastforce
  note spec = cand_get_spec [OF g assms]
  show ?thesis
  proof (cases io)
    case None
    then have "cand_find ?h (wp_cand p) 0 = None" "victim_scan (wp_cand p) 0 None = None" "p' = p"
      using g by (auto simp: cand_get_def split: option.splits prod.splits)
    then have "pk_used (wp_cand p ! i) \<Longrightarrow> i < length (wp_cand p) \<Longrightarrow> pk_hash24 (wp_cand p ! i) \<noteq> ?h" for i
      by (auto simp: cand_find_None)
    then show ?thesis
      using assms g None \<open>p' = p\<close> by (auto simp: feed_tuple_def pick_inv_def backed_def)
  next
    case (Some i)
    let ?c = "cand_observe (wp_cfg p') (wt_mean_dbm t) r (wp_cand p' ! i)"
    have i: "i < length (wp_cand p')" "pk_used (wp_cand p' ! i)" "pk_hash24 (wp_cand p' ! i) = ?h"
      using spec Some by auto
    have u: "unique_labels (wp_cand p')" using spec by (simp add: pick_inv_def)
    have other: "pk_hash24 (wp_cand p' ! j) \<noteq> ?h" if "j < length (wp_cand p')" "j \<noteq> i" "pk_used (wp_cand p' ! j)" for j
      using that i u unfolding unique_labels_def by metis
    have "pick_inv p' obs" using spec by blast
    then have "backed (wp_cfg p') obs (wp_cand p' ! i)"
      using i by (simp add: pick_inv_def)
    then have "backed (wp_cfg p') ?obs ?c"
      using i(3) by (rule backed_observe)
    moreover have "unique_labels ((wp_cand p')[i := ?c])"
      using u other i by (intro unique_labels_update) auto
    moreover have "backed (wp_cfg p') ?obs (wp_cand p' ! j)" if "j < length (wp_cand p')" "j \<noteq> i" "pk_used (wp_cand p' ! j)" for j
      using spec that other [OF that] by (auto simp: pick_inv_def backed_def)
    ultimately show ?thesis
      using g Some i spec by (auto simp: feed_tuple_def pick_inv_def nth_list_update)
  qed
qed

lemma pick_inv_feed_tuples:
  "pick_inv p obs \<Longrightarrow> pick_inv (foldl (feed_tuple r) p ts) (\<lambda>h. obs h @ tuple_obs h r ts) \<and> wp_cfg (foldl (feed_tuple r) p ts) = wp_cfg p"
proof (induction ts arbitrary: p obs)
  case (Cons t ts)
  let ?obs = "obs(wt_hash24 t := obs (wt_hash24 t) @ [(wt_mean_dbm t, r)])"
  have "(\<lambda>h. ?obs h @ tuple_obs h r ts) = (\<lambda>h. obs h @ tuple_obs h r (t # ts))"
    by (auto simp: tuple_obs_def fun_eq_iff)
  moreover have "pick_inv (feed_tuple r p t) ?obs" "wp_cfg (feed_tuple r p t) = wp_cfg p"
    using pick_inv_feed_tuple [OF Cons.prems, of r t] by simp_all
  ultimately show ?case
    using Cons.IH [of "feed_tuple r p t" ?obs] by (simp only: foldl_Cons)
qed (simp add: tuple_obs_def)

lemma unique_labels_clear: "unique_labels cs \<Longrightarrow> i < length cs \<Longrightarrow> unique_labels (cs[i := cand_zero])"
  by (rule unique_labels_update) (simp_all add: cand_zero_def)

lemma pick_inv_step:
  "pick_inv p obs \<Longrightarrow> pick_inv (pick_step p e) (\<lambda>h. obs h @ event_obs h e) \<and> wp_cfg (pick_step p e) = wp_cfg p"
proof (cases e)
  case (Feed msg r)
  assume "pick_inv p obs"
  then show ?thesis
    using pick_inv_feed_tuples [of p obs r "msg_heard msg"] Feed by (auto simp: ultrawidelock_witness_pick_feed_def)
next
  case (Retire h)
  assume "pick_inv p obs"
  moreover have "\<not> pk_used cand_zero" by (simp add: cand_zero_def)
  ultimately show ?thesis
    using Retire cand_find_Some [of h "wp_cand p" 0]
    by (auto simp: ultrawidelock_witness_pick_retire_def pick_inv_def unique_labels_clear nth_list_update
        split: option.split)
next
  case Reset
  then show ?thesis
    by (simp add: ultrawidelock_witness_pick_reset_def pick_inv_def unique_labels_def cand_zero_def)
qed

lemma pick_inv_run:
  "pick_inv p obs \<Longrightarrow> pick_inv (foldl pick_step p es) (\<lambda>h. obs h @ observations h es) \<and> wp_cfg (foldl pick_step p es) = wp_cfg p"
proof (induction es arbitrary: p obs)
  case (Cons e es)
  then show ?case
    using pick_inv_step [OF Cons.prems, of e] Cons.IH [of "pick_step p e" "\<lambda>h. obs h @ event_obs h e"]
    by (simp add: observations_def)
qed (simp add: observations_def)

lemma best_cand_used:
  "best_cand cs i b = Some (k, c) \<Longrightarrow> b = Some (k, c) \<or> i \<le> k \<and> k - i < length cs \<and> cs ! (k - i) = c \<and> pk_used c"
proof (induction cs arbitrary: i b)
  case (Cons a cs)
  from Cons.prems obtain b' where b': "best_cand cs (Suc i) b' = Some (k, c)" "b' = b \<or> b' = Some (i, a) \<and> pk_used a"
    by (auto split: if_splits option.splits prod.splits)
  from Cons.IH [OF b'(1)] b'(2) show ?case
    by (auto simp: nth_Cons' Suc_le_eq)
qed simp

text \<open>A label is picked only on evidence: whatever was fed, retired and reset before, the label
  appears in at least \<open>min_windows\<close> of the outside witness's reports, and between at least
  \<open>min_score\<close> consecutive ones its level and the lock's range moved in agreement.\<close>

theorem pick_rests_on_trajectory:
  assumes "ultrawidelock_witness_pick_best (foldl pick_step (ultrawidelock_witness_pick_init (Some cfg)) es) = Some h"
  shows "unat (pc_min_windows cfg) \<le> length (observations h es) \<and> pc_min_score cfg \<le> int (agreements cfg (observations h es))"
proof -
  define p where "p = foldl pick_step (ultrawidelock_witness_pick_init (Some cfg)) es"
  have "pick_inv (ultrawidelock_witness_pick_init (Some cfg)) (\<lambda>h. [])"
    by (simp add: pick_inv_def unique_labels_def ultrawidelock_witness_pick_init_def cand_zero_def)
  from pick_inv_run [OF this, of es] have inv: "pick_inv p (\<lambda>h. observations h es)" and cfg: "wp_cfg p = cfg"
    by (simp_all add: p_def ultrawidelock_witness_pick_init_def)
  from assms obtain i c where c: "best_cand (wp_cand p) 0 None = Some (i, c)" "pk_hash24 c = h"
      "pc_min_score cfg \<le> pk_score c" "pc_min_windows cfg \<le> pk_windows c"
    by (auto simp: ultrawidelock_witness_pick_best_def ultrawidelock_witness_pick_stats_def stats_zero_def Let_def cfg
        simp flip: p_def split: if_splits option.splits prod.splits)
  from best_cand_used [OF c(1)] inv cfg have "backed cfg (\<lambda>h. observations h es) c"
    by (auto simp: pick_inv_def)
  then show ?thesis
    using c by (auto simp: backed_def word_le_nat_alt)
qed

definition demo_report_of :: "u32 \<Rightarrow> int \<Rightarrow> witness_msg" where
  "demo_report_of h dbm = \<lparr> wm_ver = 2, wm_role = 2, wm_boot_id = 1, wm_ctr = 1, wm_echo_nonce = 0, wm_window_ms = 2000, wm_n_tuples = 1,
     wm_tuples = \<lparr> wt_hash24 = h, wt_mean_dbm = dbm, wt_n_pkts = 4 \<rparr> # replicate 7 tuple_zero \<rparr>"

definition demo_walkup :: "pick_event list" where
  "demo_walkup = [Feed (demo_report_of 7 (- 70)) 5000, Feed (demo_report_of 7 (- 66)) 4200,
     Feed (demo_report_of 7 (- 61)) 3300, Feed (demo_report_of 7 (- 55)) 2200]"

theorem pick_rests_on_trajectory_witness:
  "ultrawidelock_witness_pick_best (foldl pick_step (ultrawidelock_witness_pick_init (Some ultrawidelock_witness_pick_defaults)) demo_walkup) = Some 7 \<and>
   3 \<le> length (observations 7 demo_walkup) \<and> 3 \<le> agreements ultrawidelock_witness_pick_defaults (observations 7 demo_walkup)"
proof -
  have "ultrawidelock_witness_pick_best (foldl pick_step (ultrawidelock_witness_pick_init (Some ultrawidelock_witness_pick_defaults)) demo_walkup) = Some 7"
    by code_simp
  from this pick_rests_on_trajectory [OF this] show ?thesis
    by (simp add: ultrawidelock_witness_pick_defaults_def)
qed

section \<open>A walk-up is picked\<close>

definition single_report :: "u32 \<Rightarrow> witness_msg \<Rightarrow> int \<Rightarrow> bool" where
  "single_report h msg dbm \<longleftrightarrow> wm_role msg = WITNESS_ROLE_OUTSIDE \<and>
     (\<exists>t. msg_heard msg = [t] \<and> wt_hash24 t = h \<and> wt_mean_dbm t = dbm)"

definition walkup :: "pick_cfg \<Rightarrow> u32 \<Rightarrow> (witness_msg \<times> int \<times> int) list \<Rightarrow> bool" where
  "walkup cfg h ws \<longleftrightarrow> list_all (\<lambda>(msg, dbm, r). single_report h msg dbm \<and> 0 \<le> r) ws \<and>
     successively (agree cfg) (map snd ws)"

definition tracked :: "witness_pick \<Rightarrow> pick_cfg \<Rightarrow> u32 \<Rightarrow> observation \<Rightarrow> nat \<Rightarrow> bool" where
  "tracked p cfg h obs n \<longleftrightarrow> wp_cfg p = cfg \<and>
     wp_cand p = \<lparr> pk_hash24 = h, pk_last_dbm = fst obs, pk_last_range_mm = snd obs, pk_score = int n - 1,
       pk_windows = of_nat n, pk_used = True, pk_have_prev = True \<rparr> # replicate 23 cand_zero"

lemma feed_single:
  "single_report h msg dbm \<Longrightarrow> 0 \<le> r \<Longrightarrow>
   \<exists>t. pick_step p (Feed msg r) = feed_tuple r p t \<and> wt_hash24 t = h \<and> wt_mean_dbm t = dbm"
  by (auto simp: single_report_def ultrawidelock_witness_pick_feed_def)

lemma tracked_first:
  assumes "single_report h msg dbm" and "0 \<le> r"
  shows "tracked (pick_step (ultrawidelock_witness_pick_init (Some cfg)) (Feed msg r)) cfg h (dbm, r) 1"
proof -
  have "cand_find h (replicate 24 cand_zero) 0 = None" by (simp add: cand_find_None cand_zero_def)
  moreover have "replicate 24 cand_zero = cand_zero # replicate 23 cand_zero" by (simp add: numeral_eq_Suc)
  ultimately show ?thesis
    using feed_single [OF assms, of "ultrawidelock_witness_pick_init (Some cfg)"]
    by (auto simp: feed_tuple_def ultrawidelock_witness_pick_init_def cand_get_def tracked_def cand_observe_def cand_zero_def Let_def)
qed

lemma tracked_next:
  assumes "tracked p cfg h o0 n" and "single_report h msg dbm" and "0 \<le> r" and "agree cfg o0 (dbm, r)" and "n < 32"
  shows "tracked (pick_step p (Feed msg r)) cfg h (dbm, r) (Suc n)"
proof -
  have "(of_nat n :: u8) < 0xFF" using assms(5) by (simp add: word_less_nat_alt unat_of_nat take_bit_nat_eq_self)
  then show ?thesis
    using assms feed_single [OF assms(2,3), of p]
    by (auto simp: feed_tuple_def cand_get_def tracked_def cand_observe_def agree_def Let_def)
qed

lemma tracked_run:
  "tracked p cfg h o0 n \<Longrightarrow> walkup cfg h ws \<Longrightarrow> (ws \<noteq> [] \<longrightarrow> agree cfg o0 (snd (hd ws))) \<Longrightarrow> n + length ws \<le> 32 \<Longrightarrow>
   \<exists>o'. tracked (foldl pick_step p (map (\<lambda>(msg, dbm, r). Feed msg r) ws)) cfg h o' (n + length ws)"
proof (induction ws arbitrary: p o0 n)
  case (Cons w ws)
  obtain msg dbm r where w: "w = (msg, dbm, r)" by (cases w)
  have "tracked (pick_step p (Feed msg r)) cfg h (dbm, r) (Suc n)"
    using tracked_next [OF Cons.prems(1), of msg dbm r] Cons.prems w by (simp add: walkup_def)
  moreover have "walkup cfg h ws" "ws \<noteq> [] \<longrightarrow> agree cfg (dbm, r) (snd (hd ws))"
    using Cons.prems(2) w by (cases ws; simp add: walkup_def)+
  ultimately show ?case
    using Cons.IH [of "pick_step p (Feed msg r)" "(dbm, r)" "Suc n"] Cons.prems(4) w by simp
qed auto

text \<open>A phone that walks up alone is picked: when every window of the outside witness reports its
  label, each step of level and range agrees, and there are more of them than \<open>min_score\<close> (up to the
  score's ceiling), the label is the pick.\<close>

theorem walkup_is_picked:
  assumes "walkup cfg h ws" and "length ws \<le> 32" and "ws \<noteq> []"
    and "pc_min_score cfg < int (length ws)" and "unat (pc_min_windows cfg) \<le> length ws"
    and "pc_min_margin cfg < int (length ws) + 32"
  shows "ultrawidelock_witness_pick_best (foldl pick_step (ultrawidelock_witness_pick_init (Some cfg))
           (map (\<lambda>(msg, dbm, r). Feed msg r) ws)) = Some h"
proof -
  obtain msg dbm r ws' where ws: "ws = (msg, dbm, r) # ws'"
    using assms(3) by (metis list.exhaust prod_cases3)
  let ?p = "foldl pick_step (ultrawidelock_witness_pick_init (Some cfg)) (map (\<lambda>(msg, dbm, r). Feed msg r) ws)"
  have "tracked (pick_step (ultrawidelock_witness_pick_init (Some cfg)) (Feed msg r)) cfg h (dbm, r) 1"
    using assms(1) ws by (intro tracked_first) (simp_all add: walkup_def)
  moreover have "walkup cfg h ws'" "ws' \<noteq> [] \<longrightarrow> agree cfg (dbm, r) (snd (hd ws'))"
    using assms(1) ws by (cases ws'; simp add: walkup_def)+
  ultimately obtain o' where t: "tracked ?p cfg h o' (length ws)"
    using tracked_run [of _ cfg h "(dbm, r)" 1 ws'] assms(2) ws by fastforce
  have quiet: "best_cand (replicate k cand_zero) i b = b" "runner_scan cfg bi c (replicate k cand_zero) i rg = rg" for k i b bi c rg
    by (induction k arbitrary: i; cases rg; simp add: cand_zero_def)+
  have "pc_min_windows cfg \<le> (of_nat (length ws) :: u8)"
    using assms(2,5) by (simp add: word_le_nat_alt unat_of_nat take_bit_nat_eq_self)
  then show ?thesis
    using t assms(4,6)
    by (auto simp: ultrawidelock_witness_pick_best_def ultrawidelock_witness_pick_stats_def tracked_def stats_zero_def quiet Let_def not_less)
qed

theorem walkup_is_picked_witness:
  "ultrawidelock_witness_pick_best (foldl pick_step (ultrawidelock_witness_pick_init (Some ultrawidelock_witness_pick_defaults))
     [Feed (demo_report_of 7 (- 70)) 5000, Feed (demo_report_of 7 (- 66)) 4200, Feed (demo_report_of 7 (- 61)) 3300,
      Feed (demo_report_of 7 (- 55)) 2200]) = Some 7"
proof -
  let ?ws = "[(demo_report_of 7 (- 70), - 70, 5000), (demo_report_of 7 (- 66), - 66, 4200),
    (demo_report_of 7 (- 61), - 61, 3300), (demo_report_of 7 (- 55), - 55, 2200)]"
  have "single_report 7 (demo_report_of 7 d) d" for d
    by (simp add: single_report_def demo_report_of_def msg_heard_def ultrawidelock_witness_msg_at_def upt_rec map_filter_simps)
  then have "walkup ultrawidelock_witness_pick_defaults 7 ?ws"
    by (simp add: walkup_def agree_def ultrawidelock_witness_pick_defaults_def)
  from walkup_is_picked [OF this] show ?thesis
    by (simp add: ultrawidelock_witness_pick_defaults_def)
qed

end
