(* ===== verification/Uwb_Config.thy ===== *)
theory Uwb_Config
  imports Prelude
begin

text \<open>
  The UWB policy the Matter side owns and the grant loop takes: the attribute write of
  \<^verbatim>\<open>modules/ultrawidelock_matter/src/matter_clusters.c\<close> (the UWB presence cluster), the stored
  record of \<^verbatim>\<open>ports/zephyr/store/matter_fab_settings.c\<close>, and the dirty flag of
  \<^verbatim>\<open>apps/dwm3001cdk-lock/src/matter_commission.c\<close>. The value of a write is given after its TLV
  element has been read.
\<close>

record matter_uwb_config =
  uc_version :: u8
  uc_policy_flags :: u8
  uc_unlock_cm :: u16
  uc_approach_cm :: u16
  uc_relock_cm :: u16
  uc_motor_ms :: u16

abbreviation UWB_CONFIG_VERSION :: u8 where "UWB_CONFIG_VERSION \<equiv> 2"

definition UWB_POLICY_BOUND_RELOCK :: u8 where [cfg_defs]: "UWB_POLICY_BOUND_RELOCK = 0x01"
definition UWB_POLICY_BOUND_UNLOCK :: u8 where [cfg_defs]: "UWB_POLICY_BOUND_UNLOCK = 0x02"
definition UWB_POLICY_LOCK_RELOCK :: u8 where [cfg_defs]: "UWB_POLICY_LOCK_RELOCK = 0x04"
definition UWB_POLICY_LOCK_UNLOCK :: u8 where [cfg_defs]: "UWB_POLICY_LOCK_UNLOCK = 0x08"
definition UWB_POLICY_ALL :: u8 where [cfg_defs]: "UWB_POLICY_ALL = 0x0F"

datatype im_status =
    STATUS_SUCCESS | STATUS_INVALID_COMMAND | STATUS_CONSTRAINT_ERROR | STATUS_UNSUPPORTED_WRITE

text \<open>The first element of the write's data, as the two readers of the source see it.\<close>

datatype uwb_data = No_Element | Bool_Element bool | Uint_Element u64 | Other_Element

definition uwb_defaults :: matter_uwb_config where
  "uwb_defaults = \<lparr>uc_version = UWB_CONFIG_VERSION, uc_policy_flags = UWB_POLICY_ALL, uc_unlock_cm = 100,
     uc_approach_cm = 180, uc_relock_cm = 250, uc_motor_ms = 500\<rparr>"

text \<open>The range test both the write and the load apply.\<close>

definition uwb_config_ok :: "matter_uwb_config \<Rightarrow> bool" where
  "uwb_config_ok c \<longleftrightarrow>
     20 \<le> uc_unlock_cm c \<and> uc_unlock_cm c < uc_approach_cm c \<and> uc_approach_cm c < uc_relock_cm c \<and>
     uc_relock_cm c \<le> 1000 \<and> 100 \<le> uc_motor_ms c \<and> uc_motor_ms c \<le> 5000"

definition uwb_flag :: "nat \<Rightarrow> u8" where
  "uwb_flag attr = [UWB_POLICY_BOUND_RELOCK, UWB_POLICY_BOUND_UNLOCK, UWB_POLICY_LOCK_RELOCK,
     UWB_POLICY_LOCK_UNLOCK] ! (attr - 0x08)"

definition uwb_set_field :: "matter_uwb_config \<Rightarrow> nat \<Rightarrow> u16 \<Rightarrow> matter_uwb_config option" where
  "uwb_set_field c attr v =
     (if attr = 0x03 then Some (c\<lparr>uc_unlock_cm := v\<rparr>)
      else if attr = 0x05 then Some (c\<lparr>uc_approach_cm := v\<rparr>)
      else if attr = 0x06 then Some (c\<lparr>uc_relock_cm := v\<rparr>)
      else if attr = 0x07 then Some (c\<lparr>uc_motor_ms := v\<rparr>)
      else None)"

definition uwb_store_if_ok :: "matter_uwb_config \<Rightarrow> matter_uwb_config \<Rightarrow> im_status \<times> matter_uwb_config" where
  "uwb_store_if_ok c next_c =
     (if uc_unlock_cm next_c < 20 \<or> uc_unlock_cm next_c \<ge> uc_approach_cm next_c \<or>
         uc_approach_cm next_c \<ge> uc_relock_cm next_c \<or> uc_relock_cm next_c > 1000 \<or>
         uc_motor_ms next_c < 100 \<or> uc_motor_ms next_c > 5000
      then (STATUS_CONSTRAINT_ERROR, c)
      else (STATUS_SUCCESS, next_c\<lparr>uc_version := UWB_CONFIG_VERSION\<rparr>))"

definition uwb_write_attr :: "matter_uwb_config \<Rightarrow> nat \<Rightarrow> uwb_data \<Rightarrow> im_status \<times> matter_uwb_config" where
  "uwb_write_attr c attr d =
     (if d = No_Element then (STATUS_INVALID_COMMAND, c)
      else if attr \<ge> 0x08 \<and> attr \<le> 0x0B then
        (case d of
           Bool_Element enabled \<Rightarrow>
             uwb_store_if_ok c (c\<lparr>uc_policy_flags := (if enabled then uc_policy_flags c OR uwb_flag attr
                                                      else uc_policy_flags c AND NOT (uwb_flag attr))\<rparr>)
         | _ \<Rightarrow> (STATUS_INVALID_COMMAND, c))
      else
        (case d of
           Uint_Element v \<Rightarrow>
             if v > 0xFFFF then (STATUS_INVALID_COMMAND, c)
             else (case uwb_set_field c attr (ucast v) of
                     None \<Rightarrow> (STATUS_UNSUPPORTED_WRITE, c)
                   | Some next_c \<Rightarrow> uwb_store_if_ok c next_c)
         | _ \<Rightarrow> (STATUS_INVALID_COMMAND, c)))"

text \<open>The load: \<open>stored\<close> is the record the store returned, if one of the right size was there.\<close>

definition matter_uwb_config_load :: "matter_uwb_config \<Rightarrow> matter_uwb_config option \<Rightarrow> matter_uwb_config" where
  "matter_uwb_config_load c stored =
     (case stored of None \<Rightarrow> c
      | Some r \<Rightarrow>
          if (uc_version r = 1 \<or> uc_version r = UWB_CONFIG_VERSION) \<and>
             uc_unlock_cm r \<ge> 20 \<and> uc_unlock_cm r < uc_approach_cm r \<and>
             uc_approach_cm r < uc_relock_cm r \<and> uc_relock_cm r \<le> 1000 \<and>
             uc_motor_ms r \<ge> 100 \<and> uc_motor_ms r \<le> 5000 \<and>
             (uc_version r = 1 \<or> uc_policy_flags r AND NOT UWB_POLICY_ALL = 0)
          then (if uc_version r = 1
                then r\<lparr>uc_policy_flags := (if uc_policy_flags r \<noteq> 0 then UWB_POLICY_BOUND_RELOCK else 0) OR
                         (UWB_POLICY_ALL AND NOT UWB_POLICY_BOUND_RELOCK),
                       uc_version := UWB_CONFIG_VERSION\<rparr>
                else r)
          else c)"

section \<open>The owner\<close>

record uwb_owner =
  uo_config :: matter_uwb_config
  uo_dirty :: bool
  uo_stored :: "matter_uwb_config option"

definition uwb_boot :: "matter_uwb_config option \<Rightarrow> uwb_owner" where
  "uwb_boot stored = \<lparr>uo_config = matter_uwb_config_load uwb_defaults stored, uo_dirty = True, uo_stored = stored\<rparr>"

text \<open>A write request: the attribute, then the store and the dirty flag when the value changed.\<close>

definition uwb_handle_write :: "uwb_owner \<Rightarrow> nat \<Rightarrow> uwb_data \<Rightarrow> uwb_owner" where
  "uwb_handle_write u attr d =
     (let c = snd (uwb_write_attr (uo_config u) attr d)
      in if c \<noteq> uo_config u then \<lparr>uo_config = c, uo_dirty = True, uo_stored = Some c\<rparr> else u)"

definition matter_commission_take_uwb_config :: "uwb_owner \<Rightarrow> uwb_owner \<times> matter_uwb_config option" where
  "matter_commission_take_uwb_config u =
     (if \<not> uo_dirty u then (u, None) else (u\<lparr>uo_dirty := False\<rparr>, Some (uo_config u)))"

datatype uwb_event = Write_Attr nat uwb_data | Take | Reboot

fun uwb_step :: "uwb_owner \<Rightarrow> uwb_event \<Rightarrow> uwb_owner \<times> matter_uwb_config option" where
  "uwb_step u (Write_Attr attr d) = (uwb_handle_write u attr d, None)"
| "uwb_step u Take = matter_commission_take_uwb_config u"
| "uwb_step u Reboot = (uwb_boot (uo_stored u), None)"

section \<open>Every configuration is valid\<close>

lemma store_if_ok_ok: "uwb_config_ok c \<Longrightarrow> uwb_config_ok (snd (uwb_store_if_ok c n))"
  by (auto simp: uwb_store_if_ok_def uwb_config_ok_def not_less not_le)

lemma write_attr_ok: "uwb_config_ok c \<Longrightarrow> uwb_config_ok (snd (uwb_write_attr c attr d))"
  by (simp add: uwb_write_attr_def store_if_ok_ok split: uwb_data.split option.split)

lemma uwb_defaults_ok: "uwb_config_ok uwb_defaults"
  by (simp add: uwb_defaults_def uwb_config_ok_def)

lemma config_load_ok: "uwb_config_ok c \<Longrightarrow> uwb_config_ok (matter_uwb_config_load c stored)"
  by (auto simp: matter_uwb_config_load_def uwb_config_ok_def split: option.split)

text \<open>What is held is valid, carries the current version and only defined policy bits, and is what a
  boot from the store would load.\<close>

definition owner_inv :: "uwb_owner \<Rightarrow> bool" where
  "owner_inv u \<longleftrightarrow>
     uwb_config_ok (uo_config u) \<and> uc_version (uo_config u) = UWB_CONFIG_VERSION \<and>
     uc_policy_flags (uo_config u) AND NOT UWB_POLICY_ALL = 0 \<and>
     matter_uwb_config_load uwb_defaults (uo_stored u) = uo_config u"

lemma load_valid:
  "uwb_config_ok c \<Longrightarrow> uc_version c = UWB_CONFIG_VERSION \<Longrightarrow> uc_policy_flags c AND NOT UWB_POLICY_ALL = 0 \<Longrightarrow>
   matter_uwb_config_load d (Some c) = c"
  by (simp add: matter_uwb_config_load_def uwb_config_ok_def)

lemma load_shape:
  "uc_version (matter_uwb_config_load uwb_defaults stored) = UWB_CONFIG_VERSION"
  "uc_policy_flags (matter_uwb_config_load uwb_defaults stored) AND NOT UWB_POLICY_ALL = 0"
  by (auto simp: matter_uwb_config_load_def uwb_defaults_def cfg_defs split: option.split)

lemma flags_write:
  assumes "p AND NOT UWB_POLICY_ALL = 0" and "0x08 \<le> attr" and "attr \<le> 0x0B"
  shows "(p OR uwb_flag attr) AND NOT UWB_POLICY_ALL = 0"
    and "(p AND NOT (uwb_flag attr)) AND NOT UWB_POLICY_ALL = 0"
proof -
  have "uwb_flag attr \<in> {1, 2, 4, 8}"
    using assms(2,3) by (auto simp: uwb_flag_def cfg_defs le_Suc_eq numeral_eq_Suc nth_Cons')
  then have "uwb_flag attr AND NOT UWB_POLICY_ALL = 0" by (auto simp: cfg_defs)
  then show "(p OR uwb_flag attr) AND NOT UWB_POLICY_ALL = 0"
    using assms(1) by (simp add: bit.conj_disj_distrib2)
  have "(p AND NOT (uwb_flag attr)) AND NOT UWB_POLICY_ALL = (p AND NOT UWB_POLICY_ALL) AND NOT (uwb_flag attr)"
    by (simp only: ac_simps)
  then show "(p AND NOT (uwb_flag attr)) AND NOT UWB_POLICY_ALL = 0"
    using assms(1) by simp
qed

lemma write_attr_shape:
  assumes "uc_version c = UWB_CONFIG_VERSION" and "uc_policy_flags c AND NOT UWB_POLICY_ALL = 0"
  shows "uc_version (snd (uwb_write_attr c attr d)) = UWB_CONFIG_VERSION \<and>
    uc_policy_flags (snd (uwb_write_attr c attr d)) AND NOT UWB_POLICY_ALL = 0"
  using assms flags_write [OF assms(2), of attr]
  by (auto simp: uwb_write_attr_def uwb_store_if_ok_def uwb_set_field_def split: uwb_data.split)

lemma write_keeps_inv:
  assumes "owner_inv u"
  shows "owner_inv (uwb_handle_write u attr d)"
  using assms write_attr_ok [of "uo_config u" attr d] write_attr_shape [of "uo_config u" attr d]
  by (simp add: owner_inv_def uwb_handle_write_def Let_def load_valid)

lemma owner_boot: "owner_inv (uwb_boot stored)"
  by (simp add: owner_inv_def uwb_boot_def config_load_ok uwb_defaults_ok load_shape)

lemma owner_inv_step: "owner_inv u \<Longrightarrow> owner_inv (fst (uwb_step u e))"
  by (cases e) (simp_all add: write_keeps_inv owner_boot matter_commission_take_uwb_config_def owner_inv_def
      [of "u\<lparr>uo_dirty := False\<rparr>"], simp_all add: owner_inv_def)

interpretation owner: stepper uwb_step owner_inv
  by unfold_locales (rule owner_inv_step)

lemma take_ok: "owner_inv u \<Longrightarrow> snd (uwb_step u e) = Some c \<Longrightarrow> uwb_config_ok c"
  by (cases e) (auto simp: owner_inv_def matter_commission_take_uwb_config_def split: if_splits)

text \<open>C30: Whatever is written to the cluster, in whatever order, and whatever a corrupted or legacy
  record the store returns at boot, every configuration the grant loop takes has the unlock
  radius below the arming distance and that below the relock distance, inside the permitted
  range.\<close>

theorem taken_config_is_valid:
  assumes "Some c \<in> set (snd (run_steps uwb_step (uwb_boot stored) es))"
  shows "uwb_config_ok c"
  using owner.outputs_run [where P = "\<lambda>out. \<forall>c. out = Some c \<longrightarrow> uwb_config_ok c", OF owner_boot _ assms]
    take_ok by blast

theorem taken_config_is_valid_witness:
  "uwb_config_ok (uwb_defaults\<lparr>uc_unlock_cm := 120\<rparr>)"
  by (rule taken_config_is_valid [of _ None "[Take, Write_Attr 3 (Uint_Element 500), Write_Attr 3 (Uint_Element 120), Take]"])
    (simp add: uwb_boot_def uwb_handle_write_def uwb_write_attr_def uwb_set_field_def uwb_store_if_ok_def Let_def
      matter_commission_take_uwb_config_def matter_uwb_config_load_def uwb_defaults_def)

text \<open>A reboot keeps the configuration: after any sequence of writes the loop takes the same
  values whether or not the power is cut first, and a legacy record is migrated only once.\<close>

theorem config_survives_reboot:
  "uo_config (fst (run_steps uwb_step (uwb_boot stored) (es @ [Reboot]))) =
   uo_config (fst (run_steps uwb_step (uwb_boot stored) es))"
  using owner.invar_run [OF owner_boot, of stored es]
  by (simp add: run_steps_append split_beta Let_def owner_inv_def uwb_boot_def)

end
