(* ===== verification/Grant_Loop.thy ===== *)
theory Grant_Loop
  imports Approach_Proofs Side_Proofs Latch_Proofs Satellite Uwb_Config
begin

text \<open>
  The grant loop of the lock (\<^verbatim>\<open>apps/dwm3001cdk-lock/src/main.c\<close>): boot, one iteration of the main
  loop in the stages the source runs in order, and the asynchronous sink of peer reports. The
  build is the one with the side gate, the inside latch, the anchor link, the sealed link,
  Matter over BLE and the Matter client, and without the bench options and the channel
  classifier. An iteration reads the clock, the ranging engine, the reader and the Matter side
  once each, in the record \<open>lock_input\<close>; what it does to them is its list of outputs. Lights
  and log lines are left out.
\<close>

section \<open>Build options, state, inputs and outputs\<close>

record kconf =
  kc_near_dwell :: int
  kc_outside_margin_db :: int
  kc_entry_dwell_ms :: u32
  kc_clear_windows :: u8
  kc_clear_min_mm :: int
  kc_clear_valid_ms :: u32
  kc_baseline_mm :: int
  kc_baseline_2_mm :: int
  kc_baseline_3_mm :: int
  kc_tol_mm :: int
  kc_deadband_mm :: int
  kc_boundary_bias_mm :: int
  kc_stale_ms :: u32
  kc_self_inside :: bool

record lock =
  lo_approach :: approach
  lo_policy :: u8
  lo_side_cfg :: side_cfg
  lo_side_filt :: side_filter
  lo_side_dec :: side_decision
  lo_side_feed_ms :: int
  lo_side_seq :: u32
  lo_latch :: latch
  lo_latch_cred :: u32
  lo_latch_gap_ms :: int
  lo_satellite :: satellite_set
  lo_bl_cal :: "int list"
  lo_bl_cal_n :: nat
  lo_bl_cal_on :: bool
  lo_granted :: bool
  lo_present :: bool
  lo_session_was_up :: bool
  lo_last_start_gen :: u32
  lo_last_gen :: u32
  lo_last_obs_gen :: u32
  lo_flap_hold_ms :: int

datatype baseline_cmd = No_Baseline | Set_Baseline int | Calibrate

record lock_input =
  li_now :: int
  li_gen :: u32
  li_start_gen :: u32
  li_config :: "matter_uwb_config option"
  li_baseline :: baseline_cmd
  li_feat :: "side_features option"
  li_session :: bool
  li_cred_pub :: "bytes option"
  li_deliberate :: bool
  li_trusted :: "(int \<times> u32) option" \<comment> \<open>centimetres and ranging block\<close>
  li_raw :: "int option"
  li_sid :: u32
  li_session_end :: bool \<comment> \<open>the second reading of the session, in the departure test\<close>
  li_close_established :: bool

datatype lock_out =
    Notify_Unlock bool
  | Bound_Want bool
  | Bound_Rearm
  | Link_Session bool
  | Latch_Save bytes
  | Baseline_Save int
  | Bolt_Driven

abbreviation SESSION_FLAP_HOLD_MS :: int where "SESSION_FLAP_HOLD_MS \<equiv> 10000"
abbreviation SESSION_FLAP_FEED_FRESH_MS :: int where "SESSION_FLAP_FEED_FRESH_MS \<equiv> 3000"
abbreviation SIDE_FEED_WATCHDOG_MS :: int where "SIDE_FEED_WATCHDOG_MS \<equiv> 5000"
abbreviation LATCH_SESSION_CARRY_MS :: int where "LATCH_SESSION_CARRY_MS \<equiv> 30000"
abbreviation LATCH_CRED_NONE :: u32 where "LATCH_CRED_NONE \<equiv> 0"
abbreviation BL_CAL_N :: nat where "BL_CAL_N \<equiv> 25"

section \<open>Helpers\<close>

text \<open>The name of a credential: the top of the digest of its public key, with the two reserved
  values moved away. \<open>sha\<close> is the hash of the primitive seam.\<close>

definition latch_cred_id :: "(bytes \<Rightarrow> bytes) \<Rightarrow> bytes option \<Rightarrow> u32" where
  "latch_cred_id sha pub =
     (case pub of None \<Rightarrow> LATCH_CRED_NONE
      | Some p \<Rightarrow>
          let v = get_u32 (sha p)
          in if v = LATCH_CRED_NONE \<or> v = LATCH_CRED_ANY then 1 else v)"

definition latch_settings_set :: "latch \<Rightarrow> bytes \<Rightarrow> latch" where
  "latch_settings_set l blob =
     (if length blob > LATCH_BLOB_LEN \<or> blob = [] then l
      else fst (ultrawidelock_latch_deserialize (Some (la_cfg l)) blob))"

definition latch_save :: "latch \<Rightarrow> lock_out list" where
  "latch_save l =
     (case ultrawidelock_latch_serialize l LATCH_BLOB_LEN of None \<Rightarrow> [] | Some b \<Rightarrow> [Latch_Save b])"

definition latch_note_opened :: "lock \<Rightarrow> u32 \<Rightarrow> int \<Rightarrow> lock \<times> lock_out list" where
  "latch_note_opened s cred now =
     (if cred = LATCH_CRED_NONE then (s, [])
      else let l = ultrawidelock_latch_note_grant (lo_latch s) cred now
           in (s\<lparr>lo_latch := l\<rparr>, latch_save l))"

definition anchor_settings_set :: "int \<Rightarrow> int \<Rightarrow> int" where
  "anchor_settings_set saved v = (if v \<ge> 300 \<and> v \<le> 10000 then v else saved)"

definition baseline_bias :: "kconf \<Rightarrow> int \<Rightarrow> int" where
  "baseline_bias k mm =
     (let gap = kc_baseline_mm k - kc_boundary_bias_mm k
      in if kc_boundary_bias_mm k = 0 then 0 else if mm > gap then mm - gap else 0)"

definition baseline_apply :: "kconf \<Rightarrow> satellite_set \<Rightarrow> int \<Rightarrow> bool \<Rightarrow> satellite_set \<times> lock_out list" where
  "baseline_apply k ss mm save =
     (ss[0 := (ss ! 0)\<lparr>st_cfg := (st_cfg (ss ! 0))\<lparr>fc_baseline_mm := mm,
                        fc_boundary_bias_mm := baseline_bias k mm\<rparr>\<rparr>],
      if save then [Baseline_Save mm] else [])"

definition apply_uwb_config :: "lock \<Rightarrow> matter_uwb_config option \<Rightarrow> lock" where
  "apply_uwb_config s co =
     (case co of None \<Rightarrow> s
      | Some c \<Rightarrow>
          s\<lparr>lo_approach := (lo_approach s)\<lparr>ap_cfg := (ap_cfg (lo_approach s))
               \<lparr>ac_unlock_cm := uint (uc_unlock_cm c), ac_approach_cm := uint (uc_approach_cm c),
                ac_relock_cm := uint (uc_relock_cm c), ac_motor_ms := uint (uc_motor_ms c)\<rparr>\<rparr>,
            lo_policy := uc_policy_flags c\<rparr>)"

definition uwb_policy_enabled :: "u8 \<Rightarrow> u8 \<Rightarrow> bool" where
  "uwb_policy_enabled flags policy = (flags AND policy \<noteq> 0)"

text \<open>What a relock tells the reader and the bound lock.\<close>

definition relock_outputs :: "u8 \<Rightarrow> lock_out list" where
  "relock_outputs policy =
     (if uwb_policy_enabled policy UWB_POLICY_LOCK_RELOCK then [Notify_Unlock False] else []) @
     (if uwb_policy_enabled policy UWB_POLICY_BOUND_RELOCK then [Bound_Want False] else [Bound_Rearm])"

section \<open>Boot\<close>

definition boot_side_cfg :: "kconf \<Rightarrow> side_cfg" where
  "boot_side_cfg k = ultrawidelock_side_defaults
     \<lparr>sc_rssi_outside_margin_db := kc_outside_margin_db k, sc_quorum_mask := 0x01 OR 0x10\<rparr>"

definition boot_window :: "side_cfg \<Rightarrow> int \<Rightarrow> side_features" where
  "boot_window c now =
     \<lparr>sf_obs_session_id = 0, sf_seq = 0, sf_now_ms = now, sf_uwb_range_mm = - 1,
      sf_uwb_vel_mm_s = VEL_UNKNOWN, sf_uwb_range_var_mm = 0, sf_rssi_inside = RSSI_ABSENT,
      sf_rssi_outside = RSSI_ABSENT, sf_rssi_threshold = RSSI_ABSENT, sf_pkts_inside = 0,
      sf_pkts_outside = 0, sf_pkts_threshold = 0, sf_uwb_peer_mm = - 1, sf_fusion_side = 0,
      sf_fusion_conf = 0, sf_door_state = 0, sf_prev_side = 0, sf_since_confirmed_ms = 0,
      sf_classifier_ver = sc_classifier_ver c, sf_calibration_ver = sc_calibration_ver c,
      sf_anchor_health_mask = 0, sf_flags = SF_QUORUM_FAIL\<rparr>"

definition boot_latch :: "kconf \<Rightarrow> bytes option \<Rightarrow> latch" where
  "boot_latch k blob =
     (let l = ultrawidelock_latch_init (Some (ultrawidelock_latch_defaults
            \<lparr>lc_entry_dwell_ms := kc_entry_dwell_ms k, lc_clear_windows := kc_clear_windows k,
             lc_clear_min_mm := kc_clear_min_mm k, lc_clear_valid_ms := kc_clear_valid_ms k\<rparr>))
      in case blob of None \<Rightarrow> l | Some b \<Rightarrow> latch_settings_set l b)"

definition boot_fusion_cfg :: "kconf \<Rightarrow> int \<Rightarrow> fusion_cfg" where
  "boot_fusion_cfg k baseline =
     \<lparr>fc_baseline_mm = baseline, fc_tol_mm = kc_tol_mm k, fc_deadband_mm = kc_deadband_mm k,
      fc_boundary_bias_mm = kc_boundary_bias_mm k\<rparr>"

definition boot_satellite :: "kconf \<Rightarrow> int option \<Rightarrow> satellite_set" where
  "boot_satellite k stored =
     (let ss = ultrawidelock_satellite_set_init [0, 0, 0]
            (Some (map (boot_fusion_cfg k) [kc_baseline_mm k, kc_baseline_2_mm k, kc_baseline_3_mm k]))
            (kc_stale_ms k) (kc_self_inside k);
          saved = (case stored of None \<Rightarrow> 0 | Some v \<Rightarrow> anchor_settings_set 0 v)
      in if saved \<noteq> 0 then fst (baseline_apply k ss saved False) else ss)"

text \<open>Boot at uptime \<open>now\<close>, with the stored baseline and latch records, the configuration waiting on
  the Matter side, and the two counters of the ranging engine.\<close>

definition lock_boot ::
    "kconf \<Rightarrow> int \<Rightarrow> int option \<Rightarrow> bytes option \<Rightarrow> matter_uwb_config option \<Rightarrow> u32 \<Rightarrow> u32 \<Rightarrow> lock" where
  "lock_boot k now stored blob config gen start_gen =
     (let c = boot_side_cfg k;
          (filt, dec) = ultrawidelock_side_filter_feed (ultrawidelock_side_filter_init (Some c))
                          (Some (boot_window c now));
          ap = ultrawidelock_approach_init False None
      in apply_uwb_config
           \<lparr>lo_approach = ap\<lparr>ap_cfg := (ap_cfg ap)\<lparr>ac_near_dwell := kc_near_dwell k\<rparr>\<rparr>,
            lo_policy = UWB_POLICY_ALL, lo_side_cfg = c, lo_side_filt = filt, lo_side_dec = dec,
            lo_side_feed_ms = 0, lo_side_seq = 0, lo_latch = boot_latch k blob,
            lo_latch_cred = LATCH_CRED_NONE, lo_latch_gap_ms = 0,
            lo_satellite = boot_satellite k stored, lo_bl_cal = replicate BL_CAL_N 0, lo_bl_cal_n = 0,
            lo_bl_cal_on = False, lo_granted = False, lo_present = False, lo_session_was_up = False,
            lo_last_start_gen = start_gen, lo_last_gen = gen, lo_last_obs_gen = gen,
            lo_flap_hold_ms = 0\<rparr> config)"

section \<open>The stages of an iteration\<close>

text \<open>The label the latch is told: only a decision the gate would release counts as outside.\<close>

definition window_label :: "lock \<Rightarrow> side_label" where
  "window_label s =
     (if ultrawidelock_side_may_passive_unlock (Some (lo_side_dec s)) (Some (lo_side_cfg s))
      then sd_side (lo_side_dec s)
      else if sd_side (lo_side_dec s) = L_INSIDE then L_INSIDE else L_UNKNOWN)"

text \<open>Feed one window to the gate and tell the latch, as both feeds of the source do.\<close>

definition side_window :: "lock \<Rightarrow> side_features \<Rightarrow> int \<Rightarrow> lock" where
  "side_window s ft now =
     (let (filt, dec) = ultrawidelock_side_filter_feed (lo_side_filt s) (Some ft);
          s1 = s\<lparr>lo_side_filt := filt, lo_side_dec := dec, lo_side_feed_ms := now\<rparr>
      in s1\<lparr>lo_latch := ultrawidelock_latch_note_window (lo_latch s1) (lo_latch_cred s1) (window_label s1)
              (sf_uwb_range_mm ft) now\<rparr>)"

definition baseline_stage :: "kconf \<Rightarrow> lock \<Rightarrow> lock_input \<Rightarrow> lock \<times> lock_out list" where
  "baseline_stage k s i =
     (case li_baseline i of
        No_Baseline \<Rightarrow> (s, [])
      | Set_Baseline mm \<Rightarrow>
          let (ss, os) = baseline_apply k (lo_satellite s) mm True in (s\<lparr>lo_satellite := ss\<rparr>, os)
      | Calibrate \<Rightarrow> (s\<lparr>lo_bl_cal_n := 0, lo_bl_cal_on := True\<rparr>, []))"

definition witness_stage :: "lock \<Rightarrow> lock_input \<Rightarrow> lock" where
  "witness_stage s i =
     (case li_feat i of None \<Rightarrow> s
      | Some ft \<Rightarrow>
          side_window s
            (ft\<lparr>sf_now_ms := li_now i,
                sf_obs_session_id := (if sf_obs_session_id ft = 0 then 1 else sf_obs_session_id ft),
                sf_classifier_ver := sc_classifier_ver (lo_side_cfg s),
                sf_calibration_ver := sc_calibration_ver (lo_side_cfg s)\<rparr>) (li_now i))"

definition watchdog_stage :: "lock \<Rightarrow> lock_input \<Rightarrow> lock" where
  "watchdog_stage s i =
     (if sd_side (lo_side_dec s) \<noteq> L_UNKNOWN \<and> li_now i - lo_side_feed_ms s > SIDE_FEED_WATCHDOG_MS
      then s\<lparr>lo_side_dec := (lo_side_dec s)\<lparr>sd_side := L_UNKNOWN, sd_confidence := 0,
               sd_flags := sd_flags (lo_side_dec s) OR SF_EVIDENCE_STALE\<rparr>\<rparr>
      else s)"

definition went_inside :: "side_decision \<Rightarrow> bool" where
  "went_inside d = (sd_side d = L_INSIDE \<or> sd_flags d AND SF_INSIDE_CONTRADICT \<noteq> 0)"

definition revoke_stage :: "lock \<Rightarrow> lock \<times> lock_out list" where
  "revoke_stage s =
     (if lo_granted s \<and> went_inside (lo_side_dec s)
      then (s\<lparr>lo_granted := False, lo_approach := ultrawidelock_approach_veto (lo_approach s)\<rparr>,
            relock_outputs (lo_policy s))
      else (s, []))"

definition session_stage :: "lock \<Rightarrow> lock_input \<Rightarrow> lock" where
  "session_stage s i =
     (let s1 = (if li_session i \<and> \<not> lo_session_was_up s
                then s\<lparr>lo_approach := ultrawidelock_approach_session_up (lo_approach s)\<rparr> else s)
      in if li_start_gen i \<noteq> lo_last_start_gen s1
         then s1\<lparr>lo_last_start_gen := li_start_gen i,
                 lo_approach := ultrawidelock_approach_session_up (lo_approach s1)\<rparr>
         else s1)"

definition latch_stage :: "(bytes \<Rightarrow> bytes) \<Rightarrow> lock \<Rightarrow> lock_input \<Rightarrow> lock \<times> lock_out list" where
  "latch_stage sha s i =
     (let cred_now = (if li_session i then latch_cred_id sha (li_cred_pub i) else LATCH_CRED_NONE)
      in if cred_now = lo_latch_cred s then
           (if lo_latch_gap_ms s \<noteq> 0 then (s\<lparr>lo_latch_gap_ms := 0\<rparr>, [Link_Session True]) else (s, []))
         else if cred_now = LATCH_CRED_NONE then
           (if lo_latch_gap_ms s = 0 then (s\<lparr>lo_latch_gap_ms := li_now i\<rparr>, [Link_Session False])
            else if li_now i - lo_latch_gap_ms s > LATCH_SESSION_CARRY_MS
            then (s\<lparr>lo_latch := ultrawidelock_latch_session_close (lo_latch s),
                    lo_latch_cred := LATCH_CRED_NONE, lo_latch_gap_ms := 0\<rparr>, [])
            else (s, []))
         else
           let l = (if lo_latch_cred s \<noteq> LATCH_CRED_NONE
                    then ultrawidelock_latch_session_close (lo_latch s) else lo_latch s)
           in (s\<lparr>lo_latch := ultrawidelock_latch_session_open l cred_now, lo_latch_cred := cred_now,
                 lo_latch_gap_ms := 0\<rparr>, [Link_Session True]))"

definition deliberate_stage :: "lock \<Rightarrow> lock_input \<Rightarrow> lock \<times> lock_out list" where
  "deliberate_stage s i =
     (let (s1, os) = (if li_deliberate i \<and> lo_latch_cred s \<noteq> LATCH_CRED_NONE
                      then latch_note_opened s (lo_latch_cred s) (li_now i) else (s, []))
      in (s1\<lparr>lo_session_was_up := li_session i\<rparr>, os))"

text \<open>The window of one pair of same-round distances.\<close>

definition uwb_window :: "lock \<Rightarrow> lock_input \<Rightarrow> int \<Rightarrow> u32 \<Rightarrow> side_features" where
  "uwb_window s i cm sq =
     (let fv = ultrawidelock_satellite_set_verdict (Some (lo_satellite s)) (li_now i);
          peer = ultrawidelock_satellite_set_peer_mm (Some (lo_satellite s)) (li_now i);
          side = (if fv_geometry_ok fv
                  then (case fv_side fv of FSIDE_UNKNOWN \<Rightarrow> 0 | FSIDE_INSIDE \<Rightarrow> 1 | FSIDE_OUTSIDE \<Rightarrow> 2)
                  else 0)
      in \<lparr>sf_obs_session_id = (if li_sid i = 0 then 1 else li_sid i), sf_seq = sq, sf_now_ms = li_now i,
          sf_uwb_range_mm = cm * 10, sf_uwb_vel_mm_s = VEL_UNKNOWN, sf_uwb_range_var_mm = - 1,
          sf_rssi_inside = RSSI_ABSENT, sf_rssi_outside = RSSI_ABSENT, sf_rssi_threshold = RSSI_ABSENT,
          sf_pkts_inside = 0, sf_pkts_outside = 0, sf_pkts_threshold = 0, sf_uwb_peer_mm = peer,
          sf_fusion_side = side, sf_fusion_conf = (if side = 0 then 0 else 70), sf_door_state = 0,
          sf_prev_side = 0, sf_since_confirmed_ms = 0,
          sf_classifier_ver = sc_classifier_ver (lo_side_cfg s),
          sf_calibration_ver = sc_calibration_ver (lo_side_cfg s),
          sf_anchor_health_mask = (if cm * 10 \<ge> 0 then 0x01 else 0) OR (if peer \<ge> 0 then 0x10 else 0),
          sf_flags = 0\<rparr>)"

text \<open>The baseline calibration: the median of 25 differences, taken with the insertion sort of the
  source (\<open>sort_from\<close> is the same loop).\<close>

definition calibrate :: "kconf \<Rightarrow> lock \<Rightarrow> side_features \<Rightarrow> lock \<times> lock_out list" where
  "calibrate k s ft =
     (if lo_bl_cal_on s \<and> sf_uwb_range_mm ft \<ge> 0 \<and> sf_uwb_peer_mm ft \<ge> 0 then
        (let n = lo_bl_cal_n s;
             s1 = s\<lparr>lo_bl_cal := (lo_bl_cal s)[n := sf_uwb_range_mm ft - sf_uwb_peer_mm ft],
                    lo_bl_cal_n := n + 1\<rparr>
         in if lo_bl_cal_n s1 = BL_CAL_N then
              (let xs = sort_from (lo_bl_cal s1) 1 BL_CAL_N;
                   m0 = xs ! (BL_CAL_N div 2);
                   m = (if m0 < 0 then - m0 else m0);
                   s2 = s1\<lparr>lo_bl_cal := xs, lo_bl_cal_on := False\<rparr>
               in if m \<ge> 300 \<and> m \<le> 10000
                  then let (ss, os) = baseline_apply k (lo_satellite s2) m True
                       in (s2\<lparr>lo_satellite := ss\<rparr>, os)
                  else (s2, []))
            else (s1, []))
      else (s, []))"

definition trusted_stage ::
    "kconf \<Rightarrow> lock \<Rightarrow> lock_input \<Rightarrow> int \<Rightarrow> u32 \<Rightarrow> lock \<times> lock_out list \<times> approach_action" where
  "trusted_stage k s i cm block =
     (let s1 = s\<lparr>lo_last_gen := li_gen i, lo_last_obs_gen := li_gen i, lo_present := True,
                 lo_satellite := ultrawidelock_satellite_set_observe (lo_satellite s) (cm * 10) block (li_now i),
                 lo_side_seq := lo_side_seq s + 1\<rparr>;
          ft = uwb_window s1 i cm (lo_side_seq s1);
          (s2, os) = calibrate k (side_window s1 ft (li_now i)) ft;
          (ap, act) = ultrawidelock_approach_feed (lo_approach s2) (li_now i) cm
      in (s2\<lparr>lo_approach := ap\<rparr>, os, act))"

definition idle_stage :: "lock \<Rightarrow> lock_input \<Rightarrow> lock \<times> approach_action" where
  "idle_stage s i =
     (let s1 = (if li_gen i \<noteq> lo_last_obs_gen s
                then (case li_raw i of
                        None \<Rightarrow> s\<lparr>lo_last_obs_gen := li_gen i\<rparr>
                      | Some raw \<Rightarrow> s\<lparr>lo_last_obs_gen := li_gen i,
                          lo_approach := ultrawidelock_approach_observe_departure (lo_approach s) (li_now i) raw\<rparr>)
                else s);
          (ap, act) = ultrawidelock_approach_tick (lo_approach s1) (li_now i)
      in (s1\<lparr>lo_approach := ap\<rparr>, act))"

definition range_stage :: "kconf \<Rightarrow> lock \<Rightarrow> lock_input \<Rightarrow> lock \<times> lock_out list \<times> approach_action" where
  "range_stage k s i =
     (let idle = (let (s1, act) = idle_stage s i in (s1, [], act))
      in if li_gen i \<noteq> lo_last_gen s
         then (case li_trusted i of None \<Rightarrow> idle | Some (cm, block) \<Rightarrow> trusted_stage k s i cm block)
         else idle)"

definition lock_veto :: "lock \<Rightarrow> lock" where
  "lock_veto s = s\<lparr>lo_approach := ultrawidelock_approach_veto (lo_approach s)\<rparr>"

text \<open>The unlock case of the switch: the policy, the side gate and the latch in series, each refusal
  handed back to the controller.\<close>

definition unlock_stage :: "lock \<Rightarrow> lock_input \<Rightarrow> lock \<times> lock_out list" where
  "unlock_stage s i =
     (if \<not> uwb_policy_enabled (lo_policy s) UWB_POLICY_LOCK_UNLOCK \<and>
         \<not> uwb_policy_enabled (lo_policy s) UWB_POLICY_BOUND_UNLOCK then (lock_veto s, [])
      else if \<not> ultrawidelock_side_may_passive_unlock (Some (lo_side_dec s)) (Some (lo_side_cfg s))
      then (lock_veto s, [])
      else if \<not> fst (ultrawidelock_latch_may_passive_unlock (Some (lo_latch s)) (lo_latch_cred s) (li_now i))
      then (lock_veto s, [])
      else
        let (s1, os) = latch_note_opened (s\<lparr>lo_granted := True\<rparr>) (lo_latch_cred s) (li_now i)
        in (s1, (if uwb_policy_enabled (lo_policy s) UWB_POLICY_LOCK_UNLOCK then [Notify_Unlock True] else []) @
                (if uwb_policy_enabled (lo_policy s) UWB_POLICY_BOUND_UNLOCK then [Bound_Want True] else []) @
                os @ [Bolt_Driven]))"

definition act_stage :: "lock \<Rightarrow> lock_input \<Rightarrow> approach_action \<Rightarrow> lock \<times> lock_out list" where
  "act_stage s i act =
     (case act of
        UNLOCK_PREDICT \<Rightarrow> unlock_stage s i
      | UNLOCK_THRESHOLD \<Rightarrow> unlock_stage s i
      | RELOCK_DEPART \<Rightarrow> (s\<lparr>lo_granted := False\<rparr>, relock_outputs (lo_policy s))
      | RELOCK_ABORT \<Rightarrow> (s\<lparr>lo_granted := False\<rparr>, relock_outputs (lo_policy s))
      | HOLD \<Rightarrow> (s, []))"

definition session_gone :: "lock \<Rightarrow> lock_input \<Rightarrow> bool" where
  "session_gone s i = (lo_present s \<and> \<not> li_session_end i)"

definition flap_stage :: "lock \<Rightarrow> lock_input \<Rightarrow> lock" where
  "flap_stage s i =
     (let ap = lo_approach s
      in if \<not> session_gone s i then s\<lparr>lo_flap_hold_ms := 0\<rparr>
         else if lo_flap_hold_ms s = 0 \<and> lo_granted s \<and> ap_last_feed_ms ap \<noteq> 0 \<and>
                 \<not> li_close_established i \<and> ap_last_cm ap < ac_relock_cm (ap_cfg ap) \<and>
                 li_now i - ap_last_feed_ms ap \<le> SESSION_FLAP_FEED_FRESH_MS
         then s\<lparr>lo_flap_hold_ms := li_now i\<rparr>
         else s)"

definition departure_stage :: "lock \<Rightarrow> lock_input \<Rightarrow> lock \<times> lock_out list" where
  "departure_stage s i =
     (let s1 = flap_stage s i
      in if session_gone s i \<and>
            (lo_flap_hold_ms s1 = 0 \<or> li_now i - lo_flap_hold_ms s1 > SESSION_FLAP_HOLD_MS)
         then (s1\<lparr>lo_flap_hold_ms := 0, lo_approach := fst (ultrawidelock_approach_gone (lo_approach s1)),
                  lo_granted := False, lo_present := False\<rparr>,
               if lo_granted s1 then relock_outputs (lo_policy s1) else [])
         else (s1, []))"

section \<open>The loop\<close>

text \<open>The part of an iteration up to the range, and the whole iteration.\<close>

definition lock_prepare :: "(bytes \<Rightarrow> bytes) \<Rightarrow> kconf \<Rightarrow> lock \<Rightarrow> lock_input \<Rightarrow> lock \<times> lock_out list" where
  "lock_prepare sha k s i =
     (let (s1, o1) = baseline_stage k (apply_uwb_config s (li_config i)) i;
          (s2, o2) = revoke_stage (watchdog_stage (witness_stage s1 i) i);
          (s3, o3) = latch_stage sha (session_stage s2 i) i;
          (s4, o4) = deliberate_stage s3 i
      in (s4, o1 @ o2 @ o3 @ o4))"

definition lock_iterate :: "(bytes \<Rightarrow> bytes) \<Rightarrow> kconf \<Rightarrow> lock \<Rightarrow> lock_input \<Rightarrow> lock \<times> lock_out list" where
  "lock_iterate sha k s i =
     (let (s4, o4) = lock_prepare sha k s i;
          (s5, o5, act) = range_stage k s4 i;
          (s6, o6) = act_stage s5 i act;
          (s7, o7) = departure_stage s6 i
      in (s7, o4 @ o5 @ o6 @ o7))"

datatype lock_event =
    Iterate lock_input
  | Anchor_Report u8 int u32 int \<comment> \<open>role, distance, ranging block, time\<close>

definition on_anchor_report :: "lock \<Rightarrow> u8 \<Rightarrow> int \<Rightarrow> u32 \<Rightarrow> int \<Rightarrow> lock" where
  "on_anchor_report s role mm block now =
     s\<lparr>lo_satellite := ultrawidelock_satellite_set_report (lo_satellite s) role mm block now\<rparr>"

fun lock_step :: "(bytes \<Rightarrow> bytes) \<Rightarrow> kconf \<Rightarrow> lock \<Rightarrow> lock_event \<Rightarrow> lock \<times> lock_out list" where
  "lock_step sha k s (Iterate i) = lock_iterate sha k s i"
| "lock_step sha k s (Anchor_Report role mm block now) = (on_anchor_report s role mm block now, [])"

end
