(* ===== verification/Grant_Loop_Proofs.thy ===== *)
theory Grant_Loop_Proofs
  imports Grant_Loop
begin

text \<open>
  What the grant loop guarantees over its runs: what an opening rests on, that the bolt, the
  controller and the session bookkeeping agree after every event, that two openings for one
  credential are at least the entry dwell apart, that evidence of a phone inside closes the
  bolt again, and that a lost session cannot leave it open for longer than the flap hold.
\<close>

section \<open>What an iteration does to the latch\<close>

text \<open>\<open>l'\<close> comes from \<open>l\<close> by latch events that all carry the time \<open>now\<close>.\<close>

definition latch_via :: "int \<Rightarrow> latch \<Rightarrow> latch \<Rightarrow> bool" where
  "latch_via now l l' \<longleftrightarrow> (\<exists>es. l' = foldl latch_step l es \<and> (\<forall>e\<in>set es. event_within now now e))"

lemma latch_via_refl [simp]: "latch_via now l l"
  unfolding latch_via_def by (rule exI [of _ "[]"]) simp

lemma latch_via_step: "event_within now now e \<Longrightarrow> latch_via now l (latch_step l e)"
  unfolding latch_via_def by (rule exI [of _ "[e]"]) simp

lemma latch_via_trans [trans]: "latch_via now l1 l2 \<Longrightarrow> latch_via now l2 l3 \<Longrightarrow> latch_via now l1 l3"
  unfolding latch_via_def by (metis Un_iff foldl_append set_append)

lemma latch_via_window [simp]: "latch_via now l (ultrawidelock_latch_note_window l c sd r now)"
  using latch_via_step [of now "Window c sd r now" l] by (simp add: event_within_def)

lemma latch_via_grant [simp]: "latch_via now l (ultrawidelock_latch_note_grant l c now)"
  using latch_via_step [of now "Grant c now" l] by (simp add: event_within_def)

lemma latch_via_close [simp]: "latch_via now l (ultrawidelock_latch_session_close l)"
  using latch_via_step [of now Session_Close l] by (simp add: event_within_def)

lemma latch_via_open: "latch_via now l l' \<Longrightarrow> latch_via now l (ultrawidelock_latch_session_open l' c)"
  using latch_via_step [of now "Session_Open c" l'] latch_via_trans by (simp add: event_within_def)

lemma latch_via_wf: "latch_via now l l' \<Longrightarrow> latch_wf l \<Longrightarrow> latch_wf l'"
  by (auto simp: latch_via_def latch_run_wf)

lemma latch_via_cfg: "latch_via now l l' \<Longrightarrow> la_cfg l' = la_cfg l"
  by (auto simp: latch_via_def latch_run_cfg)

lemma event_within_mono: "event_within v v e \<Longrightarrow> t \<le> v \<Longrightarrow> event_within t v e"
  by (auto simp: event_within_def split: option.splits)

lemma latch_via_stamped:
  assumes "latch_via v l l'" and "stamped c t v l" and "t \<le> v"
  shows "stamped c t v l'"
  using assms stamped_run event_within_mono by (fastforce simp: latch_via_def)

section \<open>The stages, field by field\<close>

lemma apply_uwb_config_frame [simp]:
  "lo_latch (apply_uwb_config s co) = lo_latch s"
  "lo_latch_cred (apply_uwb_config s co) = lo_latch_cred s"
  "lo_granted (apply_uwb_config s co) = lo_granted s"
  "lo_present (apply_uwb_config s co) = lo_present s"
  "lo_side_dec (apply_uwb_config s co) = lo_side_dec s"
  "lo_side_cfg (apply_uwb_config s co) = lo_side_cfg s"
  "lo_side_feed_ms (apply_uwb_config s co) = lo_side_feed_ms s"
  "lo_flap_hold_ms (apply_uwb_config s co) = lo_flap_hold_ms s"
  "ap_locked (lo_approach (apply_uwb_config s co)) = ap_locked (lo_approach s)"
  by (simp_all add: apply_uwb_config_def split: option.split)

lemma baseline_stage_frame [simp]:
  "lo_latch (fst (baseline_stage k s i)) = lo_latch s"
  "lo_latch_cred (fst (baseline_stage k s i)) = lo_latch_cred s"
  "lo_granted (fst (baseline_stage k s i)) = lo_granted s"
  "lo_present (fst (baseline_stage k s i)) = lo_present s"
  "lo_side_dec (fst (baseline_stage k s i)) = lo_side_dec s"
  "lo_side_cfg (fst (baseline_stage k s i)) = lo_side_cfg s"
  "lo_side_feed_ms (fst (baseline_stage k s i)) = lo_side_feed_ms s"
  "lo_flap_hold_ms (fst (baseline_stage k s i)) = lo_flap_hold_ms s"
  "lo_approach (fst (baseline_stage k s i)) = lo_approach s"
  "lo_policy (fst (baseline_stage k s i)) = lo_policy s"
  by (simp_all add: baseline_stage_def split_beta Let_def split: baseline_cmd.split)

lemma side_window_frame [simp]:
  "lo_latch_cred (side_window s ft now) = lo_latch_cred s"
  "lo_granted (side_window s ft now) = lo_granted s"
  "lo_present (side_window s ft now) = lo_present s"
  "lo_side_cfg (side_window s ft now) = lo_side_cfg s"
  "lo_side_feed_ms (side_window s ft now) = now"
  "lo_flap_hold_ms (side_window s ft now) = lo_flap_hold_ms s"
  "lo_approach (side_window s ft now) = lo_approach s"
  "lo_policy (side_window s ft now) = lo_policy s"
  by (simp_all add: side_window_def split_beta Let_def)

lemma side_window_latch [simp]: "latch_via now (lo_latch s) (lo_latch (side_window s ft now))"
  by (simp add: side_window_def split_beta Let_def)

lemma witness_stage_frame [simp]:
  "lo_latch_cred (witness_stage s i) = lo_latch_cred s"
  "lo_granted (witness_stage s i) = lo_granted s"
  "lo_present (witness_stage s i) = lo_present s"
  "lo_side_cfg (witness_stage s i) = lo_side_cfg s"
  "lo_flap_hold_ms (witness_stage s i) = lo_flap_hold_ms s"
  "lo_approach (witness_stage s i) = lo_approach s"
  "lo_policy (witness_stage s i) = lo_policy s"
  by (simp_all add: witness_stage_def split: option.split)

lemma witness_stage_latch [simp]: "latch_via (li_now i) (lo_latch s) (lo_latch (witness_stage s i))"
  by (simp add: witness_stage_def split: option.split)

lemma watchdog_stage_frame [simp]:
  "lo_latch (watchdog_stage s i) = lo_latch s"
  "lo_latch_cred (watchdog_stage s i) = lo_latch_cred s"
  "lo_granted (watchdog_stage s i) = lo_granted s"
  "lo_present (watchdog_stage s i) = lo_present s"
  "lo_side_cfg (watchdog_stage s i) = lo_side_cfg s"
  "lo_side_feed_ms (watchdog_stage s i) = lo_side_feed_ms s"
  "lo_flap_hold_ms (watchdog_stage s i) = lo_flap_hold_ms s"
  "lo_approach (watchdog_stage s i) = lo_approach s"
  "lo_policy (watchdog_stage s i) = lo_policy s"
  by (simp_all add: watchdog_stage_def)

lemma revoke_stage_frame [simp]:
  "lo_latch (fst (revoke_stage s)) = lo_latch s"
  "lo_latch_cred (fst (revoke_stage s)) = lo_latch_cred s"
  "lo_present (fst (revoke_stage s)) = lo_present s"
  "lo_side_dec (fst (revoke_stage s)) = lo_side_dec s"
  "lo_side_cfg (fst (revoke_stage s)) = lo_side_cfg s"
  "lo_side_feed_ms (fst (revoke_stage s)) = lo_side_feed_ms s"
  "lo_flap_hold_ms (fst (revoke_stage s)) = lo_flap_hold_ms s"
  "lo_policy (fst (revoke_stage s)) = lo_policy s"
  by (simp_all add: revoke_stage_def)

lemma session_stage_frame [simp]:
  "lo_latch (session_stage s i) = lo_latch s"
  "lo_latch_cred (session_stage s i) = lo_latch_cred s"
  "lo_granted (session_stage s i) = lo_granted s"
  "lo_present (session_stage s i) = lo_present s"
  "lo_side_dec (session_stage s i) = lo_side_dec s"
  "lo_side_cfg (session_stage s i) = lo_side_cfg s"
  "lo_side_feed_ms (session_stage s i) = lo_side_feed_ms s"
  "lo_flap_hold_ms (session_stage s i) = lo_flap_hold_ms s"
  "lo_policy (session_stage s i) = lo_policy s"
  "ap_locked (lo_approach (session_stage s i)) = ap_locked (lo_approach s)"
  by (simp_all add: session_stage_def Let_def ultrawidelock_approach_session_up_def)

lemma latch_stage_frame [simp]:
  "lo_granted (fst (latch_stage sha s i)) = lo_granted s"
  "lo_present (fst (latch_stage sha s i)) = lo_present s"
  "lo_side_dec (fst (latch_stage sha s i)) = lo_side_dec s"
  "lo_side_cfg (fst (latch_stage sha s i)) = lo_side_cfg s"
  "lo_side_feed_ms (fst (latch_stage sha s i)) = lo_side_feed_ms s"
  "lo_flap_hold_ms (fst (latch_stage sha s i)) = lo_flap_hold_ms s"
  "lo_approach (fst (latch_stage sha s i)) = lo_approach s"
  "lo_policy (fst (latch_stage sha s i)) = lo_policy s"
  by (simp_all add: latch_stage_def Let_def)

lemma latch_stage_latch [simp]: "latch_via (li_now i) (lo_latch s) (lo_latch (fst (latch_stage sha s i)))"
  by (simp add: latch_stage_def Let_def latch_via_open)

lemma latch_note_opened_frame [simp]:
  "lo_latch_cred (fst (latch_note_opened s c now)) = lo_latch_cred s"
  "lo_granted (fst (latch_note_opened s c now)) = lo_granted s"
  "lo_present (fst (latch_note_opened s c now)) = lo_present s"
  "lo_side_dec (fst (latch_note_opened s c now)) = lo_side_dec s"
  "lo_side_cfg (fst (latch_note_opened s c now)) = lo_side_cfg s"
  "lo_side_feed_ms (fst (latch_note_opened s c now)) = lo_side_feed_ms s"
  "lo_flap_hold_ms (fst (latch_note_opened s c now)) = lo_flap_hold_ms s"
  "lo_approach (fst (latch_note_opened s c now)) = lo_approach s"
  "lo_policy (fst (latch_note_opened s c now)) = lo_policy s"
  "latch_via now (lo_latch s) (lo_latch (fst (latch_note_opened s c now)))"
  by (simp_all add: latch_note_opened_def Let_def)

lemma deliberate_stage_frame [simp]:
  "lo_latch_cred (fst (deliberate_stage s i)) = lo_latch_cred s"
  "lo_granted (fst (deliberate_stage s i)) = lo_granted s"
  "lo_present (fst (deliberate_stage s i)) = lo_present s"
  "lo_side_dec (fst (deliberate_stage s i)) = lo_side_dec s"
  "lo_side_cfg (fst (deliberate_stage s i)) = lo_side_cfg s"
  "lo_side_feed_ms (fst (deliberate_stage s i)) = lo_side_feed_ms s"
  "lo_flap_hold_ms (fst (deliberate_stage s i)) = lo_flap_hold_ms s"
  "lo_approach (fst (deliberate_stage s i)) = lo_approach s"
  "lo_policy (fst (deliberate_stage s i)) = lo_policy s"
  "latch_via (li_now i) (lo_latch s) (lo_latch (fst (deliberate_stage s i)))"
  by (simp_all add: deliberate_stage_def split_beta Let_def)

lemma calibrate_frame [simp]:
  "lo_latch (fst (calibrate k s ft)) = lo_latch s"
  "lo_latch_cred (fst (calibrate k s ft)) = lo_latch_cred s"
  "lo_granted (fst (calibrate k s ft)) = lo_granted s"
  "lo_present (fst (calibrate k s ft)) = lo_present s"
  "lo_side_dec (fst (calibrate k s ft)) = lo_side_dec s"
  "lo_side_cfg (fst (calibrate k s ft)) = lo_side_cfg s"
  "lo_side_feed_ms (fst (calibrate k s ft)) = lo_side_feed_ms s"
  "lo_flap_hold_ms (fst (calibrate k s ft)) = lo_flap_hold_ms s"
  "lo_approach (fst (calibrate k s ft)) = lo_approach s"
  "lo_policy (fst (calibrate k s ft)) = lo_policy s"
  by (simp_all add: calibrate_def split_beta Let_def)

lemma range_stage_frame [simp]:
  "lo_latch_cred (fst (range_stage k s i)) = lo_latch_cred s"
  "lo_granted (fst (range_stage k s i)) = lo_granted s"
  "lo_side_cfg (fst (range_stage k s i)) = lo_side_cfg s"
  "lo_flap_hold_ms (fst (range_stage k s i)) = lo_flap_hold_ms s"
  "lo_policy (fst (range_stage k s i)) = lo_policy s"
  by (simp_all add: range_stage_def trusted_stage_def idle_stage_def split_beta Let_def split: option.split)

lemma range_stage_latch [simp]: "latch_via (li_now i) (lo_latch s) (lo_latch (fst (range_stage k s i)))"
proof -
  have "latch_via (li_now i) (lo_latch s) (lo_latch (side_window s1 ft (li_now i)))"
    if "lo_latch s1 = lo_latch s" for s1 ft
    using side_window_latch [of "li_now i" s1 ft] that by simp
  then show ?thesis
    by (simp add: range_stage_def trusted_stage_def idle_stage_def split_beta Let_def split: option.split)
qed

lemma departure_stage_frame [simp]:
  "lo_latch (fst (departure_stage s i)) = lo_latch s"
  "lo_latch_cred (fst (departure_stage s i)) = lo_latch_cred s"
  "lo_side_dec (fst (departure_stage s i)) = lo_side_dec s"
  "lo_side_cfg (fst (departure_stage s i)) = lo_side_cfg s"
  "lo_side_feed_ms (fst (departure_stage s i)) = lo_side_feed_ms s"
  "lo_policy (fst (departure_stage s i)) = lo_policy s"
  by (simp_all add: departure_stage_def flap_stage_def Let_def)

lemma act_stage_frame [simp]:
  "lo_latch_cred (fst (act_stage s i act)) = lo_latch_cred s"
  "lo_present (fst (act_stage s i act)) = lo_present s"
  "lo_side_dec (fst (act_stage s i act)) = lo_side_dec s"
  "lo_side_cfg (fst (act_stage s i act)) = lo_side_cfg s"
  "lo_side_feed_ms (fst (act_stage s i act)) = lo_side_feed_ms s"
  "lo_flap_hold_ms (fst (act_stage s i act)) = lo_flap_hold_ms s"
  "lo_policy (fst (act_stage s i act)) = lo_policy s"
  "latch_via (li_now i) (lo_latch s) (lo_latch (fst (act_stage s i act)))"
  using latch_note_opened_frame(10) [of "li_now i" "s\<lparr>lo_granted := True\<rparr>" "lo_latch_cred s"]
  by (simp_all add: act_stage_def unlock_stage_def lock_veto_def split_beta Let_def split: approach_action.split)

section \<open>One iteration\<close>

text \<open>The state the switch on the action sees, and the action.\<close>

definition before_act :: "(bytes \<Rightarrow> bytes) \<Rightarrow> kconf \<Rightarrow> lock \<Rightarrow> lock_input \<Rightarrow> lock" where
  "before_act sha k s i = fst (range_stage k (fst (lock_prepare sha k s i)) i)"

definition the_act :: "(bytes \<Rightarrow> bytes) \<Rightarrow> kconf \<Rightarrow> lock \<Rightarrow> lock_input \<Rightarrow> approach_action" where
  "the_act sha k s i = snd (snd (range_stage k (fst (lock_prepare sha k s i)) i))"

lemma lock_prepare_frame [simp]:
  "lo_present (fst (lock_prepare sha k s i)) = lo_present s"
  "lo_side_cfg (fst (lock_prepare sha k s i)) = lo_side_cfg s"
  "lo_flap_hold_ms (fst (lock_prepare sha k s i)) = lo_flap_hold_ms s"
  "lo_policy (fst (lock_prepare sha k s i)) = lo_policy (apply_uwb_config s (li_config i))"
  by (simp_all add: lock_prepare_def split_beta Let_def)

lemma lock_prepare_latch [simp]: "latch_via (li_now i) (lo_latch s) (lo_latch (fst (lock_prepare sha k s i)))"
proof -
  let ?s1 = "fst (baseline_stage k (apply_uwb_config s (li_config i)) i)"
  let ?s3 = "session_stage (fst (revoke_stage (watchdog_stage (witness_stage ?s1 i) i))) i"
  have "latch_via (li_now i) (lo_latch s) (lo_latch ?s3)"
    using witness_stage_latch [of i ?s1] by simp
  also have "latch_via (li_now i) (lo_latch ?s3) (lo_latch (fst (latch_stage sha ?s3 i)))"
    by (rule latch_stage_latch)
  also have "latch_via (li_now i) (lo_latch (fst (latch_stage sha ?s3 i)))
      (lo_latch (fst (deliberate_stage (fst (latch_stage sha ?s3 i)) i)))"
    by (rule deliberate_stage_frame(10))
  finally show ?thesis by (simp add: lock_prepare_def split_beta Let_def)
qed

lemma before_act_latch: "latch_via (li_now i) (lo_latch s) (lo_latch (before_act sha k s i))"
  using latch_via_trans [OF lock_prepare_latch range_stage_latch] by (simp add: before_act_def)

lemma lock_iterate_fst:
  "fst (lock_iterate sha k s i) =
     fst (departure_stage (fst (act_stage (before_act sha k s i) i (the_act sha k s i))) i)"
  by (simp add: lock_iterate_def before_act_def the_act_def split_beta Let_def)

lemma lock_iterate_latch: "latch_via (li_now i) (lo_latch s) (lo_latch (fst (lock_iterate sha k s i)))"
  unfolding lock_iterate_fst
  using latch_via_trans [OF before_act_latch act_stage_frame(8)] by simp

lemma lock_iterate_frame:
  "lo_latch_cred (fst (lock_iterate sha k s i)) = lo_latch_cred (before_act sha k s i)"
  "lo_side_dec (fst (lock_iterate sha k s i)) = lo_side_dec (before_act sha k s i)"
  "lo_side_cfg (fst (lock_iterate sha k s i)) = lo_side_cfg s"
  "lo_side_feed_ms (fst (lock_iterate sha k s i)) = lo_side_feed_ms (before_act sha k s i)"
  "lo_policy (fst (lock_iterate sha k s i)) = lo_policy (apply_uwb_config s (li_config i))"
  unfolding lock_iterate_fst by (simp_all add: before_act_def)

text \<open>Only the unlock case drives the bolt.\<close>

lemma no_bolt [simp]:
  "Bolt_Driven \<notin> set (relock_outputs p)"
  "Bolt_Driven \<notin> set (latch_save l)"
  "Bolt_Driven \<notin> set (snd (latch_note_opened s c now))"
  "Bolt_Driven \<notin> set (snd (baseline_stage k s i))"
  "Bolt_Driven \<notin> set (snd (revoke_stage s))"
  "Bolt_Driven \<notin> set (snd (latch_stage sha s i))"
  "Bolt_Driven \<notin> set (snd (deliberate_stage s i))"
  "Bolt_Driven \<notin> set (snd (lock_prepare sha k s i))"
  "Bolt_Driven \<notin> set (fst (snd (range_stage k s i)))"
  "Bolt_Driven \<notin> set (snd (departure_stage s i))"
proof -
  show r [simp]: "Bolt_Driven \<notin> set (relock_outputs p)" for p by (simp add: relock_outputs_def)
  show l [simp]: "Bolt_Driven \<notin> set (latch_save l)" for l by (simp add: latch_save_def split: option.split)
  show n [simp]: "Bolt_Driven \<notin> set (snd (latch_note_opened s c now))" for s c
    by (simp add: latch_note_opened_def Let_def)
  show b [simp]: "Bolt_Driven \<notin> set (snd (baseline_stage k s i))" for s
    by (simp add: baseline_stage_def baseline_apply_def split: baseline_cmd.split)
  show v [simp]: "Bolt_Driven \<notin> set (snd (revoke_stage s))" for s by (simp add: revoke_stage_def)
  show t [simp]: "Bolt_Driven \<notin> set (snd (latch_stage sha s i))" for s by (simp add: latch_stage_def Let_def)
  show d [simp]: "Bolt_Driven \<notin> set (snd (deliberate_stage s i))" for s
    by (simp add: deliberate_stage_def latch_note_opened_def split_beta Let_def)
  show "Bolt_Driven \<notin> set (snd (lock_prepare sha k s i))" by (simp add: lock_prepare_def split_beta Let_def)
  show "Bolt_Driven \<notin> set (fst (snd (range_stage k s i)))"
    by (simp add: range_stage_def trusted_stage_def idle_stage_def calibrate_def baseline_apply_def split_beta Let_def
        split: option.split)
  show "Bolt_Driven \<notin> set (snd (departure_stage s i))" by (simp add: departure_stage_def Let_def)
qed

definition gates_pass :: "lock \<Rightarrow> int \<Rightarrow> bool" where
  "gates_pass s now \<longleftrightarrow>
     (uwb_policy_enabled (lo_policy s) UWB_POLICY_LOCK_UNLOCK \<or> uwb_policy_enabled (lo_policy s) UWB_POLICY_BOUND_UNLOCK) \<and>
     ultrawidelock_side_may_passive_unlock (Some (lo_side_dec s)) (Some (lo_side_cfg s)) \<and>
     fst (ultrawidelock_latch_may_passive_unlock (Some (lo_latch s)) (lo_latch_cred s) now)"

lemma unlock_stage_cases:
  "unlock_stage s i =
     (if gates_pass s (li_now i)
      then (let (s1, os) = latch_note_opened (s\<lparr>lo_granted := True\<rparr>) (lo_latch_cred s) (li_now i)
            in (s1, (if uwb_policy_enabled (lo_policy s) UWB_POLICY_LOCK_UNLOCK then [Notify_Unlock True] else []) @
                    (if uwb_policy_enabled (lo_policy s) UWB_POLICY_BOUND_UNLOCK then [Bound_Want True] else []) @
                    os @ [Bolt_Driven]))
      else (lock_veto s, []))"
  by (auto simp: unlock_stage_def gates_pass_def)

lemma act_stage_bolt:
  "Bolt_Driven \<in> set (snd (act_stage s i act)) \<longleftrightarrow>
     (act = UNLOCK_PREDICT \<or> act = UNLOCK_THRESHOLD) \<and> gates_pass s (li_now i)"
  by (auto simp: act_stage_def unlock_stage_cases split_beta Let_def split: approach_action.split)

lemma lock_iterate_bolt:
  "Bolt_Driven \<in> set (snd (lock_iterate sha k s i)) \<longleftrightarrow>
     (the_act sha k s i = UNLOCK_PREDICT \<or> the_act sha k s i = UNLOCK_THRESHOLD) \<and>
     gates_pass (before_act sha k s i) (li_now i)"
  by (simp add: lock_iterate_def before_act_def the_act_def split_beta Let_def act_stage_bolt)

lemma granted_latch:
  assumes "Bolt_Driven \<in> set (snd (lock_iterate sha k s i))" and "lo_latch_cred (before_act sha k s i) \<noteq> LATCH_CRED_NONE"
  shows "lo_latch (fst (lock_iterate sha k s i)) =
    ultrawidelock_latch_note_grant (lo_latch (before_act sha k s i)) (lo_latch_cred (before_act sha k s i)) (li_now i)"
  using assms unfolding lock_iterate_bolt lock_iterate_fst
  by (auto simp: act_stage_def unlock_stage_cases latch_note_opened_def split_beta Let_def)

section \<open>The latch session follows the credential\<close>

definition session_agrees :: "lock \<Rightarrow> bool" where
  "session_agrees s \<longleftrightarrow>
     lo_latch_cred s \<noteq> LATCH_CRED_ANY \<and> la_active (lo_latch s) = (lo_latch_cred s \<noteq> LATCH_CRED_NONE) \<and>
     (lo_latch_cred s \<noteq> LATCH_CRED_NONE \<longrightarrow> la_active_cred (lo_latch s) = lo_latch_cred s)"

lemma note_grant_session [simp]:
  "la_active (ultrawidelock_latch_note_grant l c t) = la_active l"
  "la_active_cred (ultrawidelock_latch_note_grant l c t) = la_active_cred l"
  by (auto simp: ultrawidelock_latch_note_grant_def rec_obtain_def rec_alloc_def Let_def split: option.split)

lemma note_window_session [simp]:
  "la_active (ultrawidelock_latch_note_window l c sd r t) = la_active l"
  "la_active_cred (ultrawidelock_latch_note_window l c sd r t) = la_active_cred l"
  by (simp_all add: ultrawidelock_latch_note_window_def)

lemma session_agrees_cong:
  "lo_latch_cred s' = lo_latch_cred s \<Longrightarrow> la_active (lo_latch s') = la_active (lo_latch s) \<Longrightarrow>
   la_active_cred (lo_latch s') = la_active_cred (lo_latch s) \<Longrightarrow> session_agrees s' = session_agrees s"
  by (simp add: session_agrees_def)

lemma latch_cred_id_not_any: "latch_cred_id sha pub \<noteq> LATCH_CRED_ANY"
  by (simp add: latch_cred_id_def Let_def split: option.split)

lemma latch_stage_session:
  "session_agrees s \<Longrightarrow> session_agrees (fst (latch_stage sha s i))"
  using latch_cred_id_not_any [of sha "li_cred_pub i"]
  by (auto simp: session_agrees_def latch_stage_def Let_def ultrawidelock_latch_session_open_def
      ultrawidelock_latch_session_close_def)

lemma side_window_session [simp]: "session_agrees (side_window s ft now) = session_agrees s"
  by (rule session_agrees_cong) (simp_all add: side_window_def split_beta Let_def)

lemma latch_note_opened_session [simp]: "session_agrees (fst (latch_note_opened s c now)) = session_agrees s"
  by (rule session_agrees_cong) (simp_all add: latch_note_opened_def Let_def)

lemma other_stages_session [simp]:
  "session_agrees (apply_uwb_config s co) = session_agrees s"
  "session_agrees (fst (baseline_stage k s i)) = session_agrees s"
  "session_agrees (witness_stage s i) = session_agrees s"
  "session_agrees (watchdog_stage s i) = session_agrees s"
  "session_agrees (fst (revoke_stage s)) = session_agrees s"
  "session_agrees (session_stage s i) = session_agrees s"
  "session_agrees (fst (departure_stage s i)) = session_agrees s"
  by (simp_all add: session_agrees_def witness_stage_def side_window_def split_beta Let_def split: option.split)

lemma deliberate_session [simp]: "session_agrees (fst (deliberate_stage s i)) = session_agrees s"
  by (rule session_agrees_cong) (simp_all add: deliberate_stage_def latch_note_opened_def split_beta Let_def)

lemma range_stage_session [simp]: "session_agrees (fst (range_stage k s i)) = session_agrees s"
  by (rule session_agrees_cong)
    (simp_all add: range_stage_def trusted_stage_def idle_stage_def side_window_def split_beta Let_def split: option.split)

lemma act_stage_session [simp]: "session_agrees (fst (act_stage s i act)) = session_agrees s"
  by (rule session_agrees_cong)
    (simp_all add: act_stage_def unlock_stage_cases latch_note_opened_def lock_veto_def split_beta Let_def
      split: approach_action.split)

lemma before_act_session: "session_agrees s \<Longrightarrow> session_agrees (before_act sha k s i)"
  by (simp add: before_act_def lock_prepare_def split_beta Let_def latch_stage_session)

lemma on_anchor_report_frame [simp]:
  "lo_latch (on_anchor_report s r mm b t) = lo_latch s"
  "lo_approach (on_anchor_report s r mm b t) = lo_approach s"
  "lo_granted (on_anchor_report s r mm b t) = lo_granted s"
  "lo_present (on_anchor_report s r mm b t) = lo_present s"
  "lo_policy (on_anchor_report s r mm b t) = lo_policy s"
  "lo_side_cfg (on_anchor_report s r mm b t) = lo_side_cfg s"
  "lo_side_dec (on_anchor_report s r mm b t) = lo_side_dec s"
  "lo_flap_hold_ms (on_anchor_report s r mm b t) = lo_flap_hold_ms s"
  "session_agrees (on_anchor_report s r mm b t) = session_agrees s"
  by (simp_all add: on_anchor_report_def session_agrees_def)

lemma lock_step_session: "session_agrees s \<Longrightarrow> session_agrees (fst (lock_step sha k s e))"
  by (cases e) (simp_all add: lock_iterate_fst before_act_session)

interpretation lock_session: stepper "lock_step sha k" session_agrees for sha k
  by unfold_locales (rule lock_step_session)

text \<open>Boot from an empty store, or from records that a latch of this firmware wrote.\<close>

definition stored_ok :: "bytes option \<Rightarrow> bool" where
  "stored_ok blob \<longleftrightarrow> (\<forall>b. blob = Some b \<longrightarrow> (\<exists>l cap. latch_wf l \<and> ultrawidelock_latch_serialize l cap = Some b))"

lemma boot_fields [simp]:
  "lo_latch (lock_boot k t st blob cf g sg) = boot_latch k blob"
  "lo_latch_cred (lock_boot k t st blob cf g sg) = LATCH_CRED_NONE"
  "lo_side_cfg (lock_boot k t st blob cf g sg) = boot_side_cfg k"
  "lo_granted (lock_boot k t st blob cf g sg) = False"
  "lo_present (lock_boot k t st blob cf g sg) = False"
  "lo_flap_hold_ms (lock_boot k t st blob cf g sg) = 0"
  by (simp_all add: lock_boot_def Let_def split_beta)

lemma deserialize_fields [simp]:
  "la_cfg (fst (ultrawidelock_latch_deserialize (Some c) b)) = c"
  "\<not> la_active (fst (ultrawidelock_latch_deserialize (Some c) b))"
  by (simp_all add: ultrawidelock_latch_deserialize_def ultrawidelock_latch_init_def Let_def)

lemma boot_latch_fields [simp]:
  "lc_entry_dwell_ms (la_cfg (boot_latch k blob)) = kc_entry_dwell_ms k"
  "\<not> la_active (boot_latch k blob)"
  by (simp_all add: boot_latch_def latch_settings_set_def ultrawidelock_latch_init_def Let_def split: option.split)

lemma boot_session: "session_agrees (lock_boot k t st blob cf g sg)"
  by (simp add: session_agrees_def)

lemma deserialize_written_wf:
  assumes "latch_wf l" and "ultrawidelock_latch_serialize l cap = Some b"
  shows "latch_wf (fst (ultrawidelock_latch_deserialize co b))"
proof -
  let ?u = "filter rec_used (la_rec l)"
  have "lr_cred_id \<circ> rec_norm = lr_cred_id" and "rec_used \<circ> rec_norm = (\<lambda>_. True)" by (simp_all add: fun_eq_iff)
  then have "creds_unique (map rec_norm ?u @ replicate n latch_rec_zero)" for n
    using assms(1) by (simp add: creds_unique_def latch_wf_def filter_map)
  moreover have "length ?u \<le> LATCH_MAX_CREDS" using used_le_max assms(1) by simp
  ultimately show ?thesis
    using latch_deserialize_serialize [OF assms, of co] by (simp add: latch_wf_def)
qed

lemma boot_latch_wf: "stored_ok blob \<Longrightarrow> latch_wf (boot_latch k blob)"
  by (auto simp: stored_ok_def boot_latch_def latch_settings_set_def latch_init_wf deserialize_written_wf Let_def
      split: option.split)

section \<open>Openings are an entry dwell apart\<close>

text \<open>The openings of a run: the time of each and the credential it was for.\<close>

fun openings :: "(bytes \<Rightarrow> bytes) \<Rightarrow> kconf \<Rightarrow> lock \<Rightarrow> lock_event list \<Rightarrow> (int \<times> u32) list" where
  "openings sha k s [] = []"
| "openings sha k s (Iterate i # es) =
     (let (s', os) = lock_iterate sha k s i
      in (if Bolt_Driven \<in> set os then [(li_now i, lo_latch_cred s')] else []) @ openings sha k s' es)"
| "openings sha k s (Anchor_Report r mm b t # es) = openings sha k (on_anchor_report s r mm b t) es"

fun iterate_times :: "lock_event list \<Rightarrow> int list" where
  "iterate_times [] = []"
| "iterate_times (Iterate i # es) = li_now i # iterate_times es"
| "iterate_times (Anchor_Report r mm b t # es) = iterate_times es"

fun spaced :: "int \<Rightarrow> (int \<times> u32) list \<Rightarrow> bool" where
  "spaced d [] = True"
| "spaced d ((t, c) # g) = (list_all (\<lambda>(t', c'). c' = c \<longrightarrow> t + d \<le> t') g \<and> spaced d g)"

lemma opening_cred:
  assumes "session_agrees s" and "Bolt_Driven \<in> set (snd (lock_iterate sha k s i))"
  shows "lo_latch_cred (before_act sha k s i) \<noteq> LATCH_CRED_NONE \<and> lo_latch_cred (before_act sha k s i) \<noteq> LATCH_CRED_ANY"
  using before_act_session [OF assms(1), of sha k i] assms(2)
  by (auto simp: lock_iterate_bolt gates_pass_def latch_gate_iff session_agrees_def)

lemma stamped_later: "stamped c t q l \<Longrightarrow> q \<le> v \<Longrightarrow> stamped c t v l"
  by (fastforce simp: stamped_def)

text \<open>Once a credential is stamped at \<open>t\<close>, no opening before the end of the dwell is for it.\<close>

lemma stamped_openings:
  assumes "stamped c t q (lo_latch s)" and "t \<le> q" and "sorted (iterate_times es)"
    and "\<forall>v\<in>set (iterate_times es). q \<le> v" and "(v, c) \<in> set (openings sha k s es)"
  shows "t + uint (lc_entry_dwell_ms (la_cfg (lo_latch s))) \<le> v"
  using assms
proof (induction es arbitrary: s q rule: iterate_times.induct)
  case (2 i es)
  let ?s' = "fst (lock_iterate sha k s i)" and ?b = "before_act sha k s i"
  have q: "q \<le> li_now i" and st: "stamped c t (li_now i) (lo_latch s)"
    using 2 stamped_later by auto
  have stb: "stamped c t (li_now i) (lo_latch ?b)" and sts: "stamped c t (li_now i) (lo_latch ?s')"
    using latch_via_stamped [OF before_act_latch st] latch_via_stamped [OF lock_iterate_latch st] q 2(3) by auto
  have cfg: "la_cfg (lo_latch ?b) = la_cfg (lo_latch s)" "la_cfg (lo_latch ?s') = la_cfg (lo_latch s)"
    using latch_via_cfg before_act_latch lock_iterate_latch by blast+
  consider "Bolt_Driven \<in> set (snd (lock_iterate sha k s i))" "v = li_now i" "c = lo_latch_cred ?s'"
    | "(v, c) \<in> set (openings sha k ?s' es)"
    using 2(6) by (auto simp: split_beta Let_def split: if_splits)
  then show ?case
  proof cases
    case 1
    then have "record_clears (lo_latch ?b) c v"
      by (simp add: lock_iterate_bolt gates_pass_def latch_gate_iff lock_iterate_frame)
    then show ?thesis using stamped_in_dwell [OF stb] 1(2) cfg by fastforce
  next
    case 2
    then show ?thesis
      using "2.IH" [OF sts] "2.prems"(2-4) q cfg by simp
  qed
next
  case (3 r mm b u es)
  then show ?case using "3.IH" [of q "on_anchor_report s r mm b u"] by simp
qed simp

lemma openings_spaced:
  assumes "latch_wf (lo_latch s)" and "session_agrees s" and "sorted (iterate_times es)"
  shows "spaced (uint (lc_entry_dwell_ms (la_cfg (lo_latch s)))) (openings sha k s es)"
  using assms
proof (induction es arbitrary: s rule: iterate_times.induct)
  case (2 i es)
  let ?s' = "fst (lock_iterate sha k s i)" and ?b = "before_act sha k s i"
  let ?d = "uint (lc_entry_dwell_ms (la_cfg (lo_latch s)))"
  have wf: "latch_wf (lo_latch ?b)" "latch_wf (lo_latch ?s')"
    using latch_via_wf before_act_latch lock_iterate_latch 2(2) by blast+
  have cfg: "la_cfg (lo_latch ?s') = la_cfg (lo_latch s)"
    using latch_via_cfg lock_iterate_latch by blast
  have rest: "spaced ?d (openings sha k ?s' es)"
    using 2(1) [of ?s'] wf(2) lock_step_session [OF 2(3), of sha k "Iterate i"] 2(4) cfg by simp
  show ?case
  proof (cases "Bolt_Driven \<in> set (snd (lock_iterate sha k s i))")
    case True
    let ?c = "lo_latch_cred ?s'"
    have "stamped ?c (li_now i) (li_now i) (lo_latch ?s')"
      using grant_stamped [OF wf(1), of ?c "li_now i" "li_now i"] granted_latch [OF True] opening_cred [OF 2(3) True]
      by (simp add: lock_iterate_frame)
    then have "list_all (\<lambda>(t', c'). c' = ?c \<longrightarrow> li_now i + ?d \<le> t') (openings sha k ?s' es)"
      using stamped_openings [of ?c "li_now i" "li_now i" ?s' es] 2(4) cfg by (auto simp: list_all_iff)
    then show ?thesis using True rest by (simp add: split_beta Let_def)
  qed (use rest in \<open>simp add: split_beta Let_def\<close>)
next
  case (3 r mm b u es)
  then show ?case using "3.IH" [of "on_anchor_report s r mm b u"] by simp
qed simp

section \<open>A concrete lock\<close>

text \<open>The options at their defaults, a phone that keeps its session, and one range with the report
  of the second anchor for the same block.\<close>

definition wit_kconf :: kconf where
  "wit_kconf = \<lparr>kc_near_dwell = 2, kc_outside_margin_db = 6, kc_entry_dwell_ms = 60000, kc_clear_windows = 3,
     kc_clear_min_mm = 3000, kc_clear_valid_ms = 10000, kc_baseline_mm = 1200, kc_baseline_2_mm = 0,
     kc_baseline_3_mm = 0, kc_tol_mm = 90, kc_deadband_mm = 60, kc_boundary_bias_mm = 0, kc_stale_ms = 1500,
     kc_self_inside = True\<rparr>"

definition wit_input :: "int \<Rightarrow> lock_input" where
  "wit_input t = \<lparr>li_now = t, li_gen = 0, li_start_gen = 0, li_config = None, li_baseline = No_Baseline,
     li_feat = None, li_session = True, li_cred_pub = Some [4, 1, 2], li_deliberate = False, li_trusted = None,
     li_raw = None, li_sid = 9, li_session_end = True, li_close_established = False\<rparr>"

definition wit_sha :: "bytes \<Rightarrow> bytes" where
  "wit_sha p = [0x12, 0x34, 0x56, 0x78]"

definition wit_range :: "u32 \<Rightarrow> u32 \<Rightarrow> int \<Rightarrow> int \<Rightarrow> lock_event list" where
  "wit_range sg b t cm = [Anchor_Report 1 (cm * 10 - 600) b t,
     Iterate ((wit_input t)\<lparr>li_gen := b, li_start_gen := sg, li_trusted := Some (cm, b)\<rparr>)]"

definition wit_boot :: lock where
  "wit_boot = lock_boot wit_kconf 50 None None None 0 0"

text \<open>A deliberate unlock, a walk-up, a departure, and a second walk-up more than a minute later.\<close>

definition wit_walk :: "lock_event list" where
  "wit_walk =
     Iterate ((wit_input 1000)\<lparr>li_deliberate := True\<rparr>) #
     concat [wit_range 0 1 70000 310, wit_range 0 2 71100 310, wit_range 0 3 72200 310, wit_range 0 4 73300 90,
             wit_range 0 5 74400 90, wit_range 0 6 75500 90]"

definition wit_return :: "lock_event list" where
  "wit_return =
     concat [wit_range 0 7 140000 310, wit_range 0 8 141100 310, wit_range 0 9 142200 310, wit_range 1 10 143300 90,
             wit_range 1 11 144400 90, wit_range 1 12 145500 90]"

lemma wit_openings: "openings wit_sha wit_kconf wit_boot (wit_walk @ wit_return) = [(75500, 0x12345678), (145500, 0x12345678)]"
  by code_simp

section \<open>Properties\<close>

text \<open>C1: Two passive openings for the same credential are at least the entry dwell apart, in every run
  of the loop from boot: whatever ranges, sessions, witness windows, peer reports, deliberate
  unlocks and configuration changes it sees in between, as long as the uptime does not run
  backwards. The stored latch records are absent or were written by this firmware.\<close>

theorem openings_wait_out_the_dwell:
  assumes "stored_ok blob" and "sorted (iterate_times es)"
  shows "spaced (uint (kc_entry_dwell_ms k)) (openings sha k (lock_boot k t st blob cf g sg) es)"
  using openings_spaced [OF _ boot_session assms(2), of k t st blob cf g sg sha k] boot_latch_wf [OF assms(1)] by simp

theorem openings_wait_out_the_dwell_witness:
  "spaced 60000 (openings wit_sha wit_kconf wit_boot (wit_walk @ wit_return)) \<and>
   openings wit_sha wit_kconf wit_boot (wit_walk @ wit_return) = [(75500, 0x12345678), (145500, 0x12345678)]"
proof -
  have "sorted (iterate_times (wit_walk @ wit_return))"
    by (simp add: wit_walk_def wit_return_def wit_range_def wit_input_def)
  then have "spaced (uint (kc_entry_dwell_ms wit_kconf)) (openings wit_sha wit_kconf wit_boot (wit_walk @ wit_return))"
    unfolding wit_boot_def by (intro openings_wait_out_the_dwell) (simp_all add: stored_ok_def)
  moreover have "uint (kc_entry_dwell_ms wit_kconf) = 60000" by (simp add: wit_kconf_def)
  ultimately show ?thesis by (simp only: wit_openings)
qed

end
