(* ===== verification/Grant_Loop_Bolt.thy ===== *)
theory Grant_Loop_Bolt
  imports Grant_Loop_Proofs
begin

text \<open>
  The grant loop and the approach controller: the loop's own record of the bolt agrees with the
  controller's after every event, what the reader was last told agrees with both, and the ways
  back to a closed bolt work (evidence of a phone inside, and a session that ended).
\<close>

section \<open>The controller under the loop\<close>

text \<open>The configuration the loop leaves in the controller: well formed, with no widening.\<close>

definition ctrl_ok :: "approach \<Rightarrow> bool" where
  "ctrl_ok ap \<longleftrightarrow> approach_wf ap \<and> ac_nlos_widen_cm (ap_cfg ap) = 0 \<and>
     ac_nlos_widen_class_cm (ap_cfg ap) = replicate CARRY_N 0"

lemma feed_presence_cfg [simp]: "ap_cfg (fst (feed_presence ap now f)) = ap_cfg ap"
  by (simp add: feed_presence_def Let_def)

lemma feed_predict_cfg [simp]: "ap_cfg (fst (feed_predict ap now fr cl a)) = ap_cfg ap"
  by (simp add: feed_predict_def pred_abort_def Let_def)

lemma feed_one_cfg: "ap_cfg (fst (feed_one ap now cm carry conf)) = ap_cfg ap"
proof (rule feed_one_stages [of ap now cm carry conf])
  fix fresh cl
  let ?a = "filed ap now cm carry conf" and ?f = "filed_median ap now cm carry conf"
  assume eq: "feed_one ap now cm carry conf = (case feed_presence ?a now ?f of
       (ap3, Some act) \<Rightarrow> (ap3, act)
     | (ap3, None) \<Rightarrow> feed_predict ap3 now fresh cl (gate_answer ?a ?f))"
  obtain ap3 out where "feed_presence ?a now ?f = (ap3, out)" by (cases "feed_presence ?a now ?f")
  then show ?thesis
    using feed_presence_cfg [of ?a now ?f] eq by (cases out) simp_all
qed

lemma ap_step_cfg:
  assumes "approach_wf ap"
  shows "ap_cfg (fst (ap_step ap e)) = ap_cfg ap"
  using assms
  by (cases e) (simp_all add: feed_one_cfg ultrawidelock_approach_session_up_def ultrawidelock_approach_tick_def
      ultrawidelock_approach_observe_departure_def ultrawidelock_approach_gone_def ultrawidelock_approach_veto_def
      ultrawidelock_approach_init_def approach_zero_def pred_abort_def approach_wf_def window_ok_def Let_def)

lemma ap_step_ctrl: "ctrl_ok ap \<Longrightarrow> ctrl_ok (fst (ap_step ap e))"
  by (simp add: ctrl_ok_def ap_step_wf ap_step_cfg)

lemma clamp_unwidened:
  assumes "ac_nlos_widen_cm c = 0" and "ac_nlos_widen_class_cm c = replicate CARRY_N 0"
    and "ac_unlock_cm c < ac_approach_cm c" and "ac_approach_cm c < ac_relock_cm c"
  shows "approach_cfg_clamp c = c"
  using assms by (simp add: approach_cfg_clamp_def clamp_approach_cm_def clamp_widen_def Let_def)

lemma apply_uwb_config_ctrl:
  assumes "ctrl_ok (lo_approach s)" and "\<And>c. co = Some c \<Longrightarrow> uwb_config_ok c"
  shows "ctrl_ok (lo_approach (apply_uwb_config s co))"
proof (cases co)
  case (Some c)
  let ?ac = "ap_cfg (lo_approach (apply_uwb_config s co))"
  have "uwb_config_ok c" using assms(2) Some by simp
  then have "uint (uc_unlock_cm c) < uint (uc_approach_cm c)" "uint (uc_approach_cm c) < uint (uc_relock_cm c)"
    by (simp_all add: uwb_config_ok_def word_less_def)
  then have "approach_cfg_clamp ?ac = ?ac"
    using assms(1) by (intro clamp_unwidened) (simp_all add: apply_uwb_config_def Some ctrl_ok_def)
  then show ?thesis
    using assms(1) by (simp add: apply_uwb_config_def Some ctrl_ok_def approach_wf_def window_ok_def)
qed (use assms(1) in \<open>simp add: apply_uwb_config_def\<close>)

lemma boot_ctrl:
  assumes "\<And>c. cf = Some c \<Longrightarrow> uwb_config_ok c"
  shows "ctrl_ok (lo_approach (lock_boot k t st blob cf g sg)) \<and> ap_locked (lo_approach (lock_boot k t st blob cf g sg))"
proof -
  let ?i = "ultrawidelock_approach_init False None"
  have c: "ap_cfg ?i = ultrawidelock_approach_defaults False"
    by (simp add: ultrawidelock_approach_init_def approach_zero_def approach_cfg_clamp_def
        clamp_approach_cm_def clamp_widen_def ultrawidelock_approach_defaults_def)
  have "approach_wf ?i" by (rule init_wf) (simp add: cfg_shape_def)
  moreover have "approach_cfg_clamp ((ap_cfg ?i)\<lparr>ac_near_dwell := n\<rparr>) = (ap_cfg ?i)\<lparr>ac_near_dwell := n\<rparr>" for n
    by (rule clamp_unwidened) (simp_all add: c ultrawidelock_approach_defaults_def)
  ultimately have "ctrl_ok (?i\<lparr>ap_cfg := (ap_cfg ?i)\<lparr>ac_near_dwell := kc_near_dwell k\<rparr>\<rparr>)"
    by (simp add: ctrl_ok_def approach_wf_def window_ok_def c ultrawidelock_approach_defaults_def)
  then show ?thesis
    using apply_uwb_config_ctrl [OF _ assms] init_frame(1) [of False None]
    by (simp add: lock_boot_def Let_def split_beta)
qed

section \<open>The bolt\<close>

definition bolt_agrees :: "lock \<Rightarrow> bool" where
  "bolt_agrees s \<longleftrightarrow> ctrl_ok (lo_approach s) \<and> lo_granted s = (\<not> ap_locked (lo_approach s)) \<and>
     (lo_granted s \<longrightarrow> lo_present s)"

lemma veto_ctrl: "ctrl_ok ap \<Longrightarrow> ctrl_ok (ultrawidelock_approach_veto ap)"
  using ap_step_ctrl [of ap EvVeto] by simp

lemma veto_locked [simp]: "ap_locked (ultrawidelock_approach_veto ap)"
  by (simp add: ultrawidelock_approach_veto_def)

lemma revoke_bolt: "bolt_agrees s \<Longrightarrow> bolt_agrees (fst (revoke_stage s))"
  by (simp add: revoke_stage_def bolt_agrees_def veto_ctrl)

lemma session_up_ctrl: "ctrl_ok ap \<Longrightarrow> ctrl_ok (ultrawidelock_approach_session_up ap)"
  using ap_step_ctrl [of ap EvSessionUp] by simp

lemma session_up_locked [simp]: "ap_locked (ultrawidelock_approach_session_up ap) = ap_locked ap"
  by (simp add: ultrawidelock_approach_session_up_def)

lemma session_stage_bolt: "bolt_agrees s \<Longrightarrow> bolt_agrees (session_stage s i)"
  by (simp add: session_stage_def bolt_agrees_def session_up_ctrl Let_def)

lemma lock_prepare_bolt:
  assumes "bolt_agrees s" and "\<And>c. li_config i = Some c \<Longrightarrow> uwb_config_ok c"
  shows "bolt_agrees (fst (lock_prepare sha k s i))"
proof -
  have "bolt_agrees (apply_uwb_config s (li_config i))"
    using assms apply_uwb_config_ctrl by (simp add: bolt_agrees_def)
  then have "bolt_agrees (watchdog_stage (witness_stage (fst (baseline_stage k (apply_uwb_config s (li_config i)) i)) i) i)"
    by (simp add: bolt_agrees_def)
  note session_stage_bolt [OF revoke_bolt [OF this], of i]
  then show ?thesis by (simp add: lock_prepare_def split_beta Let_def bolt_agrees_def)
qed

text \<open>The switch sees a controller that has just moved by one step of its own.\<close>

lemma feed_bolt:
  "ctrl_ok ap \<Longrightarrow> bolt_step (ap_locked ap) (snd (ultrawidelock_approach_feed ap now cm)) =
     Some (ap_locked (fst (ultrawidelock_approach_feed ap now cm)))"
  using ap_step_bolt [of ap "EvFeed now cm 0 (Fin 0)"]
  by (simp add: ctrl_ok_def ultrawidelock_approach_feed_def ultrawidelock_approach_feed_channel_def)

lemma feed_ctrl: "ctrl_ok ap \<Longrightarrow> ctrl_ok (fst (ultrawidelock_approach_feed ap now cm))"
  using ap_step_ctrl [of ap "EvFeed now cm 0 (Fin 0)"]
  by (simp add: ultrawidelock_approach_feed_def ultrawidelock_approach_feed_channel_def)

lemma tick_bolt:
  "ctrl_ok ap \<Longrightarrow> bolt_step (ap_locked ap) (snd (ultrawidelock_approach_tick ap now)) =
     Some (ap_locked (fst (ultrawidelock_approach_tick ap now)))"
  using ap_step_bolt [of ap "EvTick now"] by (simp add: ctrl_ok_def)

lemma tick_ctrl: "ctrl_ok ap \<Longrightarrow> ctrl_ok (fst (ultrawidelock_approach_tick ap now))"
  using ap_step_ctrl [of ap "EvTick now"] by simp

lemma observe_ctrl: "ctrl_ok ap \<Longrightarrow> ctrl_ok (ultrawidelock_approach_observe_departure ap now cm)"
  using ap_step_ctrl [of ap "EvDeparture now cm"] by simp

lemma observe_locked [simp]: "ap_locked (ultrawidelock_approach_observe_departure ap now cm) = ap_locked ap"
  by (simp add: ultrawidelock_approach_observe_departure_def)

lemma tick_never_unlocks:
  "snd (ultrawidelock_approach_tick ap now) \<noteq> UNLOCK_PREDICT" "snd (ultrawidelock_approach_tick ap now) \<noteq> UNLOCK_THRESHOLD"
  by (simp_all add: ultrawidelock_approach_tick_def pred_abort_def Let_def)

text \<open>Either a new trusted range was fed, or nothing but a tick happened.\<close>

lemma range_stage_cases:
  obtains (trusted) cm block where "li_gen i \<noteq> lo_last_gen s" and "li_trusted i = Some (cm, block)"
      and "range_stage k s i = trusted_stage k s i cm block"
  | (idle) "range_stage k s i = (fst (idle_stage s i), [], snd (idle_stage s i))"
  by (cases "li_gen i = lo_last_gen s \<or> li_trusted i = None") (auto simp: range_stage_def split_beta Let_def)

lemma trusted_stage_fields:
  "lo_approach (fst (trusted_stage k s i cm b)) = fst (ultrawidelock_approach_feed (lo_approach s) (li_now i) cm)"
  "snd (snd (trusted_stage k s i cm b)) = snd (ultrawidelock_approach_feed (lo_approach s) (li_now i) cm)"
  "lo_present (fst (trusted_stage k s i cm b))"
  by (simp_all add: trusted_stage_def split_beta Let_def)

lemma idle_stage_fields:
  "\<exists>ap. fst (ultrawidelock_approach_tick ap (li_now i)) = lo_approach (fst (idle_stage s i)) \<and>
     snd (idle_stage s i) = snd (ultrawidelock_approach_tick ap (li_now i)) \<and>
     (ap = lo_approach s \<or> (\<exists>raw. ap = ultrawidelock_approach_observe_departure (lo_approach s) (li_now i) raw))"
  "lo_present (fst (idle_stage s i)) = lo_present s"
  by (auto simp: idle_stage_def split_beta Let_def split: option.split)

lemma range_stage_bolt:
  assumes "bolt_agrees s" and "s' = fst (range_stage k s i)" and "act = snd (snd (range_stage k s i))"
  shows "ctrl_ok (lo_approach s') \<and> bolt_step (\<not> lo_granted s) act = Some (ap_locked (lo_approach s')) \<and>
    (lo_granted s \<longrightarrow> lo_present s') \<and> (act = UNLOCK_PREDICT \<or> act = UNLOCK_THRESHOLD \<longrightarrow> lo_present s')"
proof (cases rule: range_stage_cases [of i s k])
  case (trusted cm block)
  then show ?thesis
    using assms feed_bolt [of "lo_approach s" "li_now i" cm] feed_ctrl
    by (auto simp: bolt_agrees_def trusted_stage_fields)
next
  case idle
  obtain ap where "fst (ultrawidelock_approach_tick ap (li_now i)) = lo_approach (fst (idle_stage s i))"
      and "snd (idle_stage s i) = snd (ultrawidelock_approach_tick ap (li_now i))"
      and "ap = lo_approach s \<or> (\<exists>raw. ap = ultrawidelock_approach_observe_departure (lo_approach s) (li_now i) raw)"
    using idle_stage_fields(1) [of i s] by blast
  moreover from this(3) assms(1) have "ctrl_ok ap" "ap_locked ap = (\<not> lo_granted s)"
    using observe_ctrl by (auto simp: bolt_agrees_def)
  ultimately show ?thesis
    using idle assms tick_bolt [of ap "li_now i"] tick_ctrl [of ap "li_now i"] tick_never_unlocks [of ap "li_now i"]
    by (auto simp: bolt_agrees_def idle_stage_fields(2))
qed

lemma act_stage_bolt_agrees:
  assumes "ctrl_ok (lo_approach s)" and "bolt_step (\<not> lo_granted s) act = Some (ap_locked (lo_approach s))"
    and "lo_granted s \<longrightarrow> lo_present s" and "act = UNLOCK_PREDICT \<or> act = UNLOCK_THRESHOLD \<longrightarrow> lo_present s"
  shows "bolt_agrees (fst (act_stage s i act))"
  using assms
  by (cases act) (auto simp: act_stage_def unlock_stage_cases lock_veto_def bolt_agrees_def veto_ctrl split_beta Let_def
      split: if_splits)

lemma departure_bolt: "bolt_agrees s \<Longrightarrow> bolt_agrees (fst (departure_stage s i))"
  using ap_step_ctrl [of "lo_approach s" EvGone]
  by (auto simp: departure_stage_def flap_stage_def bolt_agrees_def ultrawidelock_approach_gone_def init_frame Let_def)

lemma lock_iterate_bolt_agrees:
  assumes "bolt_agrees s" and "\<And>c. li_config i = Some c \<Longrightarrow> uwb_config_ok c"
  shows "bolt_agrees (fst (lock_iterate sha k s i))"
proof -
  have "bolt_agrees (fst (lock_prepare sha k s i))" using lock_prepare_bolt [OF assms] by simp
  from range_stage_bolt [OF this refl refl, of k i] show ?thesis
    unfolding lock_iterate_fst before_act_def the_act_def
    by (intro departure_bolt act_stage_bolt_agrees) (simp_all add: range_stage_frame(2))
qed

section \<open>What the reader was told\<close>

fun reader_after :: "bool \<Rightarrow> lock_out list \<Rightarrow> bool" where
  "reader_after r [] = r"
| "reader_after r (Notify_Unlock b # os) = reader_after b os"
| "reader_after r (_ # os) = reader_after r os"

lemma reader_after_append [simp]: "reader_after r (xs @ ys) = reader_after (reader_after r xs) ys"
  by (induction r xs rule: reader_after.induct) simp_all

definition policy_on :: "u8 \<Rightarrow> bool" where
  "policy_on p \<longleftrightarrow> uwb_policy_enabled p UWB_POLICY_LOCK_RELOCK \<and> uwb_policy_enabled p UWB_POLICY_LOCK_UNLOCK"

lemma reader_relock [simp]: "policy_on p \<Longrightarrow> reader_after r (relock_outputs p) = False"
  by (simp add: policy_on_def relock_outputs_def)

lemma reader_silent [simp]:
  "reader_after r (snd (baseline_stage k s i)) = r"
  "reader_after r (snd (latch_stage sha s i)) = r"
  "reader_after r (snd (latch_note_opened s c now)) = r"
  "reader_after r (snd (deliberate_stage s i)) = r"
  "reader_after r (fst (snd (range_stage k s i))) = r"
  by (simp_all add: baseline_stage_def latch_stage_def latch_note_opened_def latch_save_def deliberate_stage_def
      range_stage_def trusted_stage_def idle_stage_def calibrate_def baseline_apply_def split_beta Let_def
      split: baseline_cmd.split option.split)

lemma lock_prepare_reader:
  assumes "policy_on (lo_policy (apply_uwb_config s (li_config i)))"
  shows "reader_after (lo_granted s) (snd (lock_prepare sha k s i)) = lo_granted (fst (lock_prepare sha k s i))"
  using assms by (simp add: lock_prepare_def split_beta Let_def revoke_stage_def)

lemma act_stage_reader:
  "policy_on (lo_policy s) \<Longrightarrow> reader_after (lo_granted s) (snd (act_stage s i act)) = lo_granted (fst (act_stage s i act))"
  by (cases act) (simp_all add: act_stage_def unlock_stage_cases lock_veto_def policy_on_def split_beta Let_def relock_outputs_def)

lemma departure_reader:
  "policy_on (lo_policy s) \<Longrightarrow> reader_after (lo_granted s) (snd (departure_stage s i)) = lo_granted (fst (departure_stage s i))"
  by (auto simp: departure_stage_def flap_stage_def Let_def)

lemma lock_iterate_reader:
  assumes "policy_on (lo_policy (apply_uwb_config s (li_config i)))"
  shows "reader_after (lo_granted s) (snd (lock_iterate sha k s i)) = lo_granted (fst (lock_iterate sha k s i))"
proof -
  let ?s4 = "fst (lock_prepare sha k s i)"
  let ?s5 = "fst (range_stage k ?s4 i)" and ?act = "snd (snd (range_stage k ?s4 i))"
  have "policy_on (lo_policy ?s5)" using assms by simp
  then have "reader_after (lo_granted ?s4) (snd (act_stage ?s5 i ?act)) = lo_granted (fst (act_stage ?s5 i ?act))"
    and "policy_on (lo_policy (fst (act_stage ?s5 i ?act)))"
    using act_stage_reader [of ?s5 i ?act] by simp_all
  then show ?thesis
    using departure_reader [of "fst (act_stage ?s5 i ?act)" i] lock_prepare_reader [OF assms, of sha k]
    by (simp add: lock_iterate_def split_beta Let_def)
qed

text \<open>A configuration the Matter side can hold, with both policies of this lock's own bolt on.\<close>

definition config_on :: "matter_uwb_config option \<Rightarrow> bool" where
  "config_on co \<longleftrightarrow> (case co of None \<Rightarrow> True | Some c \<Rightarrow> uwb_config_ok c \<and> policy_on (uc_policy_flags c))"

fun event_on :: "lock_event \<Rightarrow> bool" where
  "event_on (Iterate i) = config_on (li_config i)"
| "event_on (Anchor_Report _ _ _ _) = True"

definition mirror_inv :: "lock \<Rightarrow> bool" where
  "mirror_inv s \<longleftrightarrow> bolt_agrees s \<and> policy_on (lo_policy s)"

lemma apply_policy_on: "policy_on (lo_policy s) \<Longrightarrow> config_on co \<Longrightarrow> policy_on (lo_policy (apply_uwb_config s co))"
  by (auto simp: config_on_def apply_uwb_config_def split: option.split)

lemma lock_step_mirror:
  assumes "mirror_inv s" and "event_on e"
  shows "mirror_inv (fst (lock_step sha k s e)) \<and>
    reader_after (lo_granted s) (snd (lock_step sha k s e)) = lo_granted (fst (lock_step sha k s e))"
proof (cases e)
  case (Iterate i)
  then have c: "config_on (li_config i)" using assms(2) by simp
  then have "uwb_config_ok x" if "li_config i = Some x" for x using that by (simp add: config_on_def)
  then show ?thesis
    using assms(1) apply_policy_on [OF _ c] lock_iterate_bolt_agrees lock_iterate_reader
    by (simp add: Iterate mirror_inv_def lock_iterate_frame(5))
qed (use assms in \<open>simp add: mirror_inv_def bolt_agrees_def\<close>)

lemma mirror_run:
  "mirror_inv s \<Longrightarrow> list_all event_on es \<Longrightarrow>
   mirror_inv (fst (run_steps (lock_step sha k) s es)) \<and>
   reader_after (lo_granted s) (concat (snd (run_steps (lock_step sha k) s es))) =
     lo_granted (fst (run_steps (lock_step sha k) s es))"
proof (induction es arbitrary: s)
  case (Cons e es)
  then show ?case
    using lock_step_mirror [of s e sha k] Cons.IH [of "fst (lock_step sha k s e)"]
    by (simp add: fst_run_steps_Cons snd_run_steps_Cons del: run_steps.simps(2))
qed simp

lemma boot_mirror: "config_on cf \<Longrightarrow> mirror_inv (lock_boot k t st blob cf g sg)"
proof -
  assume c: "config_on cf"
  then have "uwb_config_ok x" if "cf = Some x" for x using that by (simp add: config_on_def)
  moreover have "policy_on (lo_policy (lock_boot k t st blob cf g sg))"
    using c by (auto simp: lock_boot_def split_beta Let_def apply_uwb_config_def config_on_def policy_on_def
        uwb_policy_enabled_def cfg_defs split: option.split)
  ultimately show ?thesis using boot_ctrl [of cf k t st blob g sg] by (simp add: mirror_inv_def bolt_agrees_def)
qed



section \<open>What an opening rests on\<close>

lemma lock_step_side_cfg: "lo_side_cfg (fst (lock_step sha k s e)) = lo_side_cfg s"
  by (cases e) (simp_all add: lock_iterate_frame(3))

lemma run_side_cfg: "lo_side_cfg (fst (run_steps (lock_step sha k) s es)) = lo_side_cfg s"
  by (induction es arbitrary: s) (simp_all add: fst_run_steps_Cons lock_step_side_cfg del: run_steps.simps(2))

lemma feed_decide_flags: "sd_flags (feed_decide f ft) = 0 \<Longrightarrow> fl_flags f = 0 \<and> sd_decided_ms (feed_decide f ft) = sf_now_ms ft"
  by (auto simp: feed_decide_def Let_def or_eq_0_iff split: if_splits)

lemma side_feed_clean:
  assumes "ultrawidelock_side_filter_feed f (Some ft) = (f', d)" and "sd_flags d = 0"
  shows "sf_anchor_health_mask ft AND sc_quorum_mask (fl_cfg f) = sc_quorum_mask (fl_cfg f) \<and> sd_decided_ms d = sf_now_ms ft"
proof -
  have "feed_flags_final f ft = 0" "sd_decided_ms d = sf_now_ms ft"
    using assms feed_decide_flags [of "feed_commit (feed_candidate f ft) (feed_raw f ft) ft" ft] by (auto simp: feed_Some)
  then show ?thesis
    by (auto simp: feed_flags_final_def feed_flags_def or_eq_0_iff Let_def split: if_splits)
qed

lemma side_filter_cfg: "fl_cfg (fst (ultrawidelock_side_filter_feed f (Some ft))) = fl_cfg f"
  by (simp add: feed_Some)

text \<open>The filter keeps the configuration the loop reads.\<close>

definition side_cfg_agrees :: "lock \<Rightarrow> bool" where
  "side_cfg_agrees s \<longleftrightarrow> fl_cfg (lo_side_filt s) = lo_side_cfg s"

lemma side_cfg_stages [simp]:
  "side_cfg_agrees (apply_uwb_config s co) = side_cfg_agrees s"
  "side_cfg_agrees (fst (baseline_stage k s i)) = side_cfg_agrees s"
  "side_cfg_agrees (side_window s ft now) = side_cfg_agrees s"
  "side_cfg_agrees (witness_stage s i) = side_cfg_agrees s"
  "side_cfg_agrees (watchdog_stage s i) = side_cfg_agrees s"
  "side_cfg_agrees (fst (revoke_stage s)) = side_cfg_agrees s"
  "side_cfg_agrees (session_stage s i) = side_cfg_agrees s"
  "side_cfg_agrees (fst (latch_stage sha s i)) = side_cfg_agrees s"
  "side_cfg_agrees (fst (deliberate_stage s i)) = side_cfg_agrees s"
  "side_cfg_agrees (fst (departure_stage s i)) = side_cfg_agrees s"
  by (simp_all add: side_cfg_agrees_def apply_uwb_config_def baseline_stage_def witness_stage_def side_window_def
      side_filter_cfg watchdog_stage_def revoke_stage_def session_stage_def latch_stage_def deliberate_stage_def
      latch_note_opened_def departure_stage_def flap_stage_def split_beta Let_def split: option.split baseline_cmd.split)

lemma side_cfg_frame [simp]:
  "side_cfg_agrees (s\<lparr>lo_approach := ap\<rparr>) = side_cfg_agrees s"
  "side_cfg_agrees (s\<lparr>lo_last_obs_gen := g\<rparr>) = side_cfg_agrees s"
  "side_cfg_agrees (s\<lparr>lo_last_gen := g\<rparr>) = side_cfg_agrees s"
  "side_cfg_agrees (s\<lparr>lo_present := p\<rparr>) = side_cfg_agrees s"
  "side_cfg_agrees (s\<lparr>lo_satellite := ss\<rparr>) = side_cfg_agrees s"
  "side_cfg_agrees (s\<lparr>lo_side_seq := q\<rparr>) = side_cfg_agrees s"
  by (simp_all add: side_cfg_agrees_def)

lemma calibrate_side_cfg [simp]: "side_cfg_agrees (fst (calibrate k s ft)) = side_cfg_agrees s"
  by (simp add: side_cfg_agrees_def calibrate_def split_beta Let_def)

lemma range_stage_side_cfg [simp]: "side_cfg_agrees (fst (range_stage k s i)) = side_cfg_agrees s"
  by (simp add: range_stage_def trusted_stage_def idle_stage_def split_beta Let_def split: option.split)

lemma act_stage_side_cfg [simp]: "side_cfg_agrees (fst (act_stage s i act)) = side_cfg_agrees s"
  by (simp add: side_cfg_agrees_def act_stage_def unlock_stage_cases lock_veto_def latch_note_opened_def split_beta Let_def
      split: approach_action.split)

lemma lock_prepare_side_cfg [simp]: "side_cfg_agrees (fst (lock_prepare sha k s i)) = side_cfg_agrees s"
  by (simp add: lock_prepare_def split_beta Let_def)

lemma lock_step_side_agrees: "side_cfg_agrees s \<Longrightarrow> side_cfg_agrees (fst (lock_step sha k s e))"
  by (cases e) (simp_all add: lock_iterate_fst before_act_def, simp add: side_cfg_agrees_def on_anchor_report_def)

interpretation side_cfg: stepper "lock_step sha k" side_cfg_agrees for sha k
  by unfold_locales (rule lock_step_side_agrees)

lemma boot_side_agrees: "side_cfg_agrees (lock_boot k t st blob cf g sg)"
  by (simp add: side_cfg_agrees_def lock_boot_def apply_uwb_config_def split_beta Let_def side_filter_cfg
      ultrawidelock_side_filter_init_def side_cfg_or_default_def split: option.split)

text \<open>A clean decision after a trusted range was taken on a window with both anchors in it.\<close>

lemma trusted_window_clean:
  assumes "side_cfg_agrees s" and "lo_side_cfg s = boot_side_cfg k"
    and "sd_flags (lo_side_dec (fst (trusted_stage k s i cm b))) = 0"
  shows "sd_decided_ms (lo_side_dec (fst (trusted_stage k s i cm b))) = li_now i \<and> 0 \<le> cm \<and>
    0 \<le> ultrawidelock_satellite_set_peer_mm
          (Some (ultrawidelock_satellite_set_observe (lo_satellite s) (cm * 10) b (li_now i))) (li_now i)"
proof -
  define s1 where "s1 = s\<lparr>lo_last_gen := li_gen i, lo_last_obs_gen := li_gen i, lo_present := True,
     lo_satellite := ultrawidelock_satellite_set_observe (lo_satellite s) (cm * 10) b (li_now i),
     lo_side_seq := lo_side_seq s + 1\<rparr>"
  define ft where "ft = uwb_window s1 i cm (lo_side_seq s1)"
  obtain f' d where fd: "ultrawidelock_side_filter_feed (lo_side_filt s1) (Some ft) = (f', d)"
    by (cases "ultrawidelock_side_filter_feed (lo_side_filt s1) (Some ft)")
  then have d: "lo_side_dec (fst (trusted_stage k s i cm b)) = d"
    by (simp add: trusted_stage_def Let_def split_beta side_window_def flip: s1_def) (simp add: ft_def)
  have q: "sc_quorum_mask (fl_cfg (lo_side_filt s1)) = 0x11"
    using assms(1,2) by (simp add: s1_def side_cfg_agrees_def boot_side_cfg_def)
  have mask: "sf_anchor_health_mask ft AND 0x11 = 0x11" and now: "sd_decided_ms d = li_now i"
    using side_feed_clean [OF fd] assms(3) q by (simp_all add: d ft_def uwb_window_def Let_def)
  have "sf_anchor_health_mask ft = (if cm * 10 \<ge> 0 then 0x01 else 0) OR
     (if ultrawidelock_satellite_set_peer_mm (Some (lo_satellite s1)) (li_now i) \<ge> 0 then 0x10 else 0)"
    by (simp add: ft_def uwb_window_def Let_def)
  then have "0 \<le> cm" "0 \<le> ultrawidelock_satellite_set_peer_mm (Some (lo_satellite s1)) (li_now i)"
    using mask by (auto split: if_splits)
  then show ?thesis by (simp add: d now s1_def)
qed

lemma stages_last_gen [simp]:
  "lo_last_gen (apply_uwb_config s co) = lo_last_gen s"
  "lo_last_gen (fst (baseline_stage k s i)) = lo_last_gen s"
  "lo_last_gen (side_window s ft now) = lo_last_gen s"
  "lo_last_gen (witness_stage s i) = lo_last_gen s"
  "lo_last_gen (watchdog_stage s i) = lo_last_gen s"
  "lo_last_gen (fst (revoke_stage s)) = lo_last_gen s"
  "lo_last_gen (session_stage s i) = lo_last_gen s"
  "lo_last_gen (fst (latch_stage sha s i)) = lo_last_gen s"
  "lo_last_gen (fst (deliberate_stage s i)) = lo_last_gen s"
  by (simp_all add: apply_uwb_config_def baseline_stage_def witness_stage_def side_window_def watchdog_stage_def
      revoke_stage_def session_stage_def latch_stage_def deliberate_stage_def latch_note_opened_def split_beta Let_def
      split: option.split baseline_cmd.split)

lemma lock_prepare_last_gen: "lo_last_gen (fst (lock_prepare sha k s i)) = lo_last_gen s"
  by (simp add: lock_prepare_def split_beta Let_def)

lemma idle_never_unlocks: "snd (idle_stage s i) \<noteq> UNLOCK_PREDICT" "snd (idle_stage s i) \<noteq> UNLOCK_THRESHOLD"
  by (simp_all add: idle_stage_def split_beta Let_def tick_never_unlocks)

lemma opening_evidence:
  assumes "Bolt_Driven \<in> set (snd (lock_iterate sha k s i))" and "side_cfg_agrees s"
    and "lo_side_cfg s = boot_side_cfg k" and "p = fst (lock_prepare sha k s i)"
  shows "\<exists>cm block. li_trusted i = Some (cm, block) \<and> 0 \<le> cm \<and> li_gen i \<noteq> lo_last_gen s \<and>
    0 \<le> ultrawidelock_satellite_set_peer_mm
          (Some (ultrawidelock_satellite_set_observe (lo_satellite p) (cm * 10) block (li_now i))) (li_now i) \<and>
    sd_decided_ms (lo_side_dec (before_act sha k s i)) = li_now i"
proof (cases rule: range_stage_cases [of i p k])
  case (trusted cm block)
  then have b: "before_act sha k s i = fst (trusted_stage k p i cm block)" by (simp add: before_act_def assms(4))
  have "sd_flags (lo_side_dec (before_act sha k s i)) = 0"
    using assms(1) by (simp add: lock_iterate_bolt gates_pass_def side_gate_iff)
  moreover have "side_cfg_agrees p" "lo_side_cfg p = boot_side_cfg k" using assms(2-4) by simp_all
  ultimately have "sd_decided_ms (lo_side_dec (before_act sha k s i)) = li_now i \<and> 0 \<le> cm \<and>
      0 \<le> ultrawidelock_satellite_set_peer_mm
          (Some (ultrawidelock_satellite_set_observe (lo_satellite p) (cm * 10) block (li_now i))) (li_now i)"
    using trusted_window_clean [of p k i cm block] b by simp
  then show ?thesis using trusted(1,2) lock_prepare_last_gen assms(4) by simp
next
  case idle
  then have "the_act sha k s i \<noteq> UNLOCK_PREDICT \<and> the_act sha k s i \<noteq> UNLOCK_THRESHOLD"
    using idle_never_unlocks [of p i] by (simp add: the_act_def assms(4))
  then show ?thesis using assms(1) by (simp add: lock_iterate_bolt)
qed



end
