(* ===== verification/Grant_Loop_Close.thy ===== *)
theory Grant_Loop_Close
  imports Grant_Loop_Bolt
begin

text \<open>
  The ways back to a closed bolt: evidence of a phone inside withdraws a grant in the next
  iteration, and a session that ended cannot leave the bolt open for longer than the flap hold.
\<close>

section \<open>Revocation\<close>

lemma revoke_closes:
  assumes "lo_granted s" and "went_inside (lo_side_dec s)"
  shows "\<not> lo_granted (fst (revoke_stage s))" and "ap_locked (lo_approach (fst (revoke_stage s)))"
    and "snd (revoke_stage s) = relock_outputs (lo_policy s)"
  using assms by (simp_all add: revoke_stage_def)

lemma prepare_revokes:
  assumes "lo_granted s" and "went_inside (lo_side_dec s)" and "li_feat i = None"
    and "li_now i - lo_side_feed_ms s \<le> SIDE_FEED_WATCHDOG_MS"
  shows "\<not> lo_granted (fst (lock_prepare sha k s i))" and "ap_locked (lo_approach (fst (lock_prepare sha k s i)))"
    and "set (relock_outputs (lo_policy (apply_uwb_config s (li_config i)))) \<subseteq> set (snd (lock_prepare sha k s i))"
proof -
  let ?s1 = "fst (baseline_stage k (apply_uwb_config s (li_config i)) i)"
  have w: "watchdog_stage (witness_stage ?s1 i) i = ?s1"
    using assms(3,4) by (simp add: watchdog_stage_def witness_stage_def)
  have "lo_granted ?s1" "went_inside (lo_side_dec ?s1)" using assms(1,2) by simp_all
  note r = revoke_closes [OF this]
  show "\<not> lo_granted (fst (lock_prepare sha k s i))" "ap_locked (lo_approach (fst (lock_prepare sha k s i)))"
    "set (relock_outputs (lo_policy (apply_uwb_config s (li_config i)))) \<subseteq> set (snd (lock_prepare sha k s i))"
    using r by (auto simp: lock_prepare_def split_beta Let_def w)
qed

lemma granted_only_by_opening:
  assumes "\<not> lo_granted (fst (lock_prepare sha k s i))" and "lo_granted (fst (lock_iterate sha k s i))"
  shows "Bolt_Driven \<in> set (snd (lock_iterate sha k s i))"
proof -
  let ?b = "before_act sha k s i"
  have "\<not> lo_granted ?b" using assms(1) by (simp add: before_act_def)
  moreover have "lo_granted (fst (act_stage ?b i (the_act sha k s i)))"
    using assms(2) by (auto simp: lock_iterate_fst departure_stage_def flap_stage_def Let_def split: if_splits)
  ultimately show ?thesis
    by (auto simp: lock_iterate_bolt act_stage_def unlock_stage_cases lock_veto_def split: approach_action.splits if_splits)
qed


text \<open>The walk-up, then one round in which the phone is on the inside of the door plane.\<close>

definition wit_cross :: "lock_event list" where
  "wit_cross = wit_walk @ [Anchor_Report 1 1500 7 76600,
     Iterate ((wit_input 76600)\<lparr>li_gen := 7, li_trusted := Some (90, 7)\<rparr>)]"

definition open_inside :: "lock \<Rightarrow> bool" where
  "open_inside s \<longleftrightarrow>
     lo_granted s \<and> went_inside (lo_side_dec s) \<and> lo_side_feed_ms s = 76600 \<and> lo_policy s = UWB_POLICY_ALL"


section \<open>The end of a session\<close>

text \<open>A grant implies that the phone was seen, with no condition on the configuration.\<close>

definition presence_ok :: "lock \<Rightarrow> bool" where
  "presence_ok s \<longleftrightarrow> (lo_granted s \<longrightarrow> lo_present s)"

lemma range_stage_present:
  "lo_present s \<Longrightarrow> lo_present (fst (range_stage k s i))"
  "snd (snd (range_stage k s i)) = UNLOCK_PREDICT \<or> snd (snd (range_stage k s i)) = UNLOCK_THRESHOLD \<Longrightarrow>
   lo_present (fst (range_stage k s i))"
  by (cases rule: range_stage_cases [of i s k];
      simp add: trusted_stage_fields idle_stage_fields(2) idle_never_unlocks)+

lemma lock_prepare_presence: "presence_ok s \<Longrightarrow> presence_ok (fst (lock_prepare sha k s i))"
  by (simp add: presence_ok_def lock_prepare_def split_beta Let_def revoke_stage_def)

lemma after_act_presence:
  assumes "presence_ok s"
  shows "presence_ok (fst (act_stage (before_act sha k s i) i (the_act sha k s i)))"
proof -
  let ?p = "fst (lock_prepare sha k s i)"
  have "presence_ok ?p" using assms by (rule lock_prepare_presence)
  then show ?thesis
    using range_stage_present(1) [of ?p k i] range_stage_present(2) [of k ?p i]
    by (auto simp: presence_ok_def act_stage_def unlock_stage_cases lock_veto_def before_act_def the_act_def split_beta Let_def
        split: approach_action.split)
qed

lemma lock_step_presence: "presence_ok s \<Longrightarrow> presence_ok (fst (lock_step sha k s e))"
proof (cases e)
  case (Iterate i)
  assume "presence_ok s"
  from after_act_presence [OF this, of sha k i] show ?thesis
    by (auto simp: Iterate lock_iterate_fst presence_ok_def departure_stage_def flap_stage_def Let_def)
qed (simp add: presence_ok_def)

interpretation presence: stepper "lock_step sha k" presence_ok for sha k
  by unfold_locales (rule lock_step_presence)

text \<open>One iteration with the session down: a bolt still open is under a hold, which either was running
  or starts now, and which is not over.\<close>

lemma departure_hold:
  assumes "presence_ok s" and "\<not> li_session_end i" and "lo_granted (fst (departure_stage s i))"
  shows "lo_granted s \<and> lo_flap_hold_ms (fst (departure_stage s i)) \<noteq> 0 \<and>
    li_now i - lo_flap_hold_ms (fst (departure_stage s i)) \<le> SESSION_FLAP_HOLD_MS \<and>
    lo_flap_hold_ms (fst (departure_stage s i)) = (if lo_flap_hold_ms s \<noteq> 0 then lo_flap_hold_ms s else li_now i)"
  using assms by (auto simp: presence_ok_def departure_stage_def flap_stage_def session_gone_def Let_def split: if_splits)

lemma iterate_hold:
  assumes "presence_ok s" and "\<not> li_session_end i" and "lo_granted (fst (lock_iterate sha k s i))"
  shows "lo_flap_hold_ms (fst (lock_iterate sha k s i)) \<noteq> 0 \<and>
    li_now i - lo_flap_hold_ms (fst (lock_iterate sha k s i)) \<le> SESSION_FLAP_HOLD_MS \<and>
    lo_flap_hold_ms (fst (lock_iterate sha k s i)) = (if lo_flap_hold_ms s \<noteq> 0 then lo_flap_hold_ms s else li_now i)"
  using departure_hold [OF after_act_presence [OF assms(1)] assms(2), of sha k i] assms(3)
  by (simp add: lock_iterate_fst before_act_def)

lemma iterate_hold_past:
  "lo_flap_hold_ms (fst (lock_iterate sha k s i)) = 0 \<or>
   lo_flap_hold_ms (fst (lock_iterate sha k s i)) = lo_flap_hold_ms s \<or>
   lo_flap_hold_ms (fst (lock_iterate sha k s i)) = li_now i"
  by (auto simp: lock_iterate_fst departure_stage_def flap_stage_def Let_def before_act_def)

lemma granted_before:
  assumes "lo_granted (fst (lock_iterate sha k s i))" and "Bolt_Driven \<notin> set (snd (lock_iterate sha k s i))"
  shows "lo_granted s"
proof -
  have "lo_granted (fst (lock_prepare sha k s i))" using assms granted_only_by_opening by blast
  then show ?thesis by (simp add: lock_prepare_def split_beta Let_def revoke_stage_def split: if_splits)
qed

text \<open>The open bolt of a run with the session down is under a hold that began by \<open>t0\<close>.\<close>

definition held_since :: "int \<Rightarrow> lock \<Rightarrow> bool" where
  "held_since t0 s \<longleftrightarrow> (lo_granted s \<longrightarrow> lo_flap_hold_ms s \<noteq> 0 \<and> lo_flap_hold_ms s \<le> t0)"

fun session_down :: "lock_event \<Rightarrow> bool" where
  "session_down (Iterate i) = (\<not> li_session_end i)"
| "session_down (Anchor_Report _ _ _ _) = True"

lemma held_iterate:
  assumes "held_since t0 s" and "presence_ok s" and "\<not> li_session_end i"
    and "Bolt_Driven \<notin> set (snd (lock_iterate sha k s i))"
  shows "held_since t0 (fst (lock_iterate sha k s i))"
  using iterate_hold [OF assms(2,3), of sha k] granted_before [of sha k s i] assms(1,4) by (auto simp: held_since_def)

lemma held_run:
  assumes "held_since t0 s" and "presence_ok s" and "list_all session_down es" and "openings sha k s es = []"
  shows "held_since t0 (fst (run_steps (lock_step sha k) s es))"
  using assms
proof (induction es arbitrary: s rule: iterate_times.induct)
  case (2 i es)
  have "Bolt_Driven \<notin> set (snd (lock_iterate sha k s i))" and "openings sha k (fst (lock_iterate sha k s i)) es = []"
    using 2(5) by (auto simp: split_beta Let_def split: if_splits)
  then show ?case
    using 2 held_iterate [of t0 s i sha k] lock_step_presence [of s sha k "Iterate i"]
    by (simp add: fst_run_steps_Cons del: run_steps.simps(2))
next
  case (3 r mm b u es)
  have "held_since t0 (on_anchor_report s r mm b u)" "presence_ok (on_anchor_report s r mm b u)"
    using 3(2,3) by (simp_all add: held_since_def presence_ok_def)
  then show ?case using 3 by (simp add: fst_run_steps_Cons del: run_steps.simps(2))
qed simp

lemma openings_append:
  "openings sha k s (xs @ ys) = openings sha k s xs @ openings sha k (fst (run_steps (lock_step sha k) s xs)) ys"
  by (induction xs arbitrary: s rule: iterate_times.induct)
    (simp_all add: split_beta Let_def fst_run_steps_Cons del: run_steps.simps(2))

text \<open>The hold is stamped with a time that has passed.\<close>

lemma hold_past_run:
  assumes "lo_flap_hold_ms s = 0 \<or> lo_flap_hold_ms s \<le> q" and "sorted (q # iterate_times es)" and "\<forall>x\<in>set (iterate_times es). x \<le> v" and "q \<le> v"
  shows "lo_flap_hold_ms (fst (run_steps (lock_step sha k) s es)) = 0 \<or>
    lo_flap_hold_ms (fst (run_steps (lock_step sha k) s es)) \<le> v"
  using assms
proof (induction es arbitrary: s q rule: iterate_times.induct)
  case (2 i es)
  have "lo_flap_hold_ms (fst (lock_iterate sha k s i)) = 0 \<or> lo_flap_hold_ms (fst (lock_iterate sha k s i)) \<le> li_now i"
    using iterate_hold_past [of sha k s i] 2(2,3) by auto
  then show ?case
    using 2(1) [of "fst (lock_iterate sha k s i)" "li_now i"] 2(3-5)
    by (simp add: fst_run_steps_Cons del: run_steps.simps(2))
next
  case (3 r mm b u es)
  then show ?case
    using 3(1) [of "on_anchor_report s r mm b u" q] by (simp add: fst_run_steps_Cons del: run_steps.simps(2))
qed auto

lemma iterate_times_append [simp]: "iterate_times (xs @ ys) = iterate_times xs @ iterate_times ys"
  by (induction xs rule: iterate_times.induct) simp_all

text \<open>C6: A lost session closes the door. Take any run from boot in which the uptime does not run
  backwards: if the reader reports no session from some iteration on, no new passive opening
  happens after it, and an iteration more than the flap hold (10 s) later still sees no session,
  then the bolt is closed at its end, whatever ranges, windows and reports came in between.\<close>

theorem lost_session_closes:
  assumes "s0 = lock_boot k t st blob cf g sg"
    and "sorted (0 # iterate_times (pre @ Iterate i # mid @ [Iterate j]))"
    and "\<not> li_session_end i" and "list_all session_down mid" and "\<not> li_session_end j"
    and "s1 = fst (run_steps (lock_step sha k) s0 (pre @ [Iterate i]))"
    and "openings sha k s1 (mid @ [Iterate j]) = []"
    and "li_now j - li_now i > SESSION_FLAP_HOLD_MS"
  shows "\<not> lo_granted (fst (run_steps (lock_step sha k) s1 (mid @ [Iterate j])))"
proof
  let ?p = "fst (run_steps (lock_step sha k) s0 pre)"
  let ?m = "fst (run_steps (lock_step sha k) s1 mid)"
  assume open_end: "lo_granted (fst (run_steps (lock_step sha k) s1 (mid @ [Iterate j])))"
  have presence: "presence_ok ?p" by (rule presence.invar_run) (simp add: presence_ok_def assms(1))
  have s1: "s1 = fst (lock_iterate sha k ?p i)"
    by (simp add: assms(6) run_steps_append split_beta Let_def)
  have "lo_flap_hold_ms ?p = 0 \<or> lo_flap_hold_ms ?p \<le> li_now i"
    by (rule hold_past_run [where q = 0]) (use assms(1,2) in \<open>auto simp: sorted_append\<close>)
  then have "held_since (li_now i) s1"
    using iterate_hold [OF presence assms(3), of sha k] by (auto simp: held_since_def s1)
  moreover have p1: "presence_ok s1" using lock_step_presence [OF presence, of sha k "Iterate i"] by (simp add: s1)
  ultimately have m: "held_since (li_now i) ?m" "presence_ok ?m"
    using held_run [OF _ p1 assms(4)] openings_append [of sha k s1 mid "[Iterate j]"] assms(7) presence.invar_run [OF p1]
    by simp_all
  have j: "fst (run_steps (lock_step sha k) s1 (mid @ [Iterate j])) = fst (lock_iterate sha k ?m j)"
    by (simp add: run_steps_append split_beta Let_def)
  have "Bolt_Driven \<notin> set (snd (lock_iterate sha k ?m j))"
    using assms(7) openings_append [of sha k s1 mid "[Iterate j]"] by (auto simp: split_beta Let_def split: if_splits)
  then have "held_since (li_now i) (fst (lock_iterate sha k ?m j))"
    using held_iterate [OF m assms(5), of sha k] by simp
  then show False
    using iterate_hold [OF m(2) assms(5), of sha k] open_end assms(8) by (auto simp: j held_since_def)
qed

definition wit_gone :: "int \<Rightarrow> lock_input" where
  "wit_gone t = (wit_input t)\<lparr>li_gen := 6, li_session := False, li_cred_pub := None, li_session_end := False\<rparr>"

lemma wit_held: "lo_granted (fst (run_steps (lock_step wit_sha wit_kconf) wit_boot (wit_walk @ [Iterate (wit_gone 76000)])))"
  by code_simp

lemma wit_no_opening:
  "openings wit_sha wit_kconf (fst (run_steps (lock_step wit_sha wit_kconf) wit_boot (wit_walk @ [Iterate (wit_gone 76000)])))
     ([Iterate (wit_gone 80000)] @ [Iterate (wit_gone 86100)]) = []"
  by code_simp

theorem lost_session_closes_witness:
  "lo_granted (fst (run_steps (lock_step wit_sha wit_kconf) wit_boot (wit_walk @ [Iterate (wit_gone 76000)]))) \<and>
   \<not> lo_granted (fst (run_steps (lock_step wit_sha wit_kconf)
       (fst (run_steps (lock_step wit_sha wit_kconf) wit_boot (wit_walk @ [Iterate (wit_gone 76000)])))
       ([Iterate (wit_gone 80000)] @ [Iterate (wit_gone 86100)])))"
proof (intro conjI wit_held)
  show "\<not> lo_granted (fst (run_steps (lock_step wit_sha wit_kconf)
       (fst (run_steps (lock_step wit_sha wit_kconf) wit_boot (wit_walk @ [Iterate (wit_gone 76000)])))
       ([Iterate (wit_gone 80000)] @ [Iterate (wit_gone 86100)])))"
    by (rule lost_session_closes [OF wit_boot_def _ _ _ _ refl wit_no_opening])
      (simp_all add: wit_walk_def wit_range_def wit_gone_def wit_input_def)
qed

end
