(* ===== verification/Matter_Base.thy ===== *)
theory Matter_Base
  imports Prelude
begin

text \<open>
  What the Matter components share: the status codes of \<^verbatim>\<open>matter_status.h\<close> and the little-endian
  byte order of the wire.
\<close>

datatype matter_status =
    MATTER_END | MATTER_OK | MATTER_E_NOSPACE | MATTER_E_INVAL | MATTER_E_DEPTH | MATTER_E_STATE
  | MATTER_E_TRUNC | MATTER_E_TYPE | MATTER_E_DUP | MATTER_E_TIMEOUT | MATTER_E_ACCESS

fun rd16 :: "bytes \<Rightarrow> u16" where
  "rd16 (a # b # _) = ucast a OR push_bit 8 (ucast b)"
| "rd16 _ = 0"

definition wr16 :: "u16 \<Rightarrow> bytes" where
  "wr16 v = [ucast v, ucast (drop_bit 8 v)]"

lemma length_wr16 [simp]: "length (wr16 v) = 2"
  by (simp add: wr16_def)

lemma rd_wr16 [simp, codec_simps]: "rd16 (wr16 v @ r) = v"
  by (simp add: wr16_def bit_eq_iff bit_simps) (auto simp: not_bit_beyond)

lemma wr_rd16: "2 \<le> length p \<Longrightarrow> wr16 (rd16 p) = take 2 p"
proof (induction p rule: rd16.induct)
  case (1 a b r)
  then show ?case by (simp add: wr16_def bit_eq_iff bit_simps) (auto simp: not_bit_beyond)
qed simp_all

end
