(* ===== verification/Btp.thy ===== *)
theory Btp
  imports Matter_Base
begin

text \<open>
  BTP, the commissioning transport over BLE (\<^verbatim>\<open>modules/ultrawidelock_matter/src/matter_btp.c\<close>): the
  handshake codecs, the selection of a fragment size, the fragmenter and the reassembler. The
  tests for NULL pointers at the head of the functions are left out, except where a missing
  buffer is a case of its own.
\<close>

abbreviation BTP_START :: u8 where "BTP_START \<equiv> 0x01"
abbreviation BTP_CONTINUE :: u8 where "BTP_CONTINUE \<equiv> 0x02"
abbreviation BTP_END :: u8 where "BTP_END \<equiv> 0x04"
abbreviation BTP_ACK :: u8 where "BTP_ACK \<equiv> 0x08"
abbreviation BTP_VERSION :: u8 where "BTP_VERSION \<equiv> 4"
abbreviation BTP_CHECK_1 :: u8 where "BTP_CHECK_1 \<equiv> 0x65"
abbreviation BTP_CHECK_2 :: u8 where "BTP_CHECK_2 \<equiv> 0x6C"
abbreviation BTP_REQ_LEN :: nat where "BTP_REQ_LEN \<equiv> 9"
abbreviation BTP_RESP_LEN :: nat where "BTP_RESP_LEN \<equiv> 6"
abbreviation BTP_MIN_FRAGMENT :: u16 where "BTP_MIN_FRAGMENT \<equiv> 20"
abbreviation BTP_MAX_FRAGMENT :: u16 where "BTP_MAX_FRAGMENT \<equiv> 244"
abbreviation ATT_OVERHEAD :: u16 where "ATT_OVERHEAD \<equiv> 3"

section \<open>The handshake\<close>

record btp_req =
  bq_versions :: "u8 list" \<comment> \<open>eight slots\<close>
  bq_mtu :: u16
  bq_window :: u8

record btp_resp =
  br_version :: u8
  br_fragment :: u16
  br_window :: u8

definition btp_slot :: "bytes \<Rightarrow> nat \<Rightarrow> u8" where
  "btp_slot buf i =
     (let b = buf ! (2 + i div 2) in if i mod 2 = 0 then b AND 0x0F else drop_bit 4 b AND 0x0F)"

definition matter_btp_req_decode :: "bytes \<Rightarrow> matter_status + btp_req" where
  "matter_btp_req_decode buf =
     (if length buf < BTP_REQ_LEN then Inl MATTER_E_TRUNC
      else if buf ! 0 \<noteq> BTP_CHECK_1 \<or> buf ! 1 \<noteq> BTP_CHECK_2 then Inl MATTER_E_INVAL
      else Inr \<lparr>bq_versions = map (btp_slot buf) [0..<8], bq_mtu = rd16 (drop 6 buf), bq_window = buf ! 8\<rparr>)"

definition btp_pack :: "u8 list \<Rightarrow> nat \<Rightarrow> u8" where
  "btp_pack vs j = (vs ! (2 * j) AND 0x0F) OR push_bit 4 (vs ! (2 * j + 1) AND 0x0F)"

definition matter_btp_req_encode :: "btp_req \<Rightarrow> nat \<Rightarrow> matter_status + bytes" where
  "matter_btp_req_encode r cap =
     (if cap < BTP_REQ_LEN then Inl MATTER_E_NOSPACE
      else Inr ([BTP_CHECK_1, BTP_CHECK_2] @ map (btp_pack (bq_versions r)) [0..<4] @ wr16 (bq_mtu r) @ [bq_window r]))"

definition matter_btp_resp_decode :: "bytes \<Rightarrow> matter_status + btp_resp" where
  "matter_btp_resp_decode buf =
     (if length buf < BTP_RESP_LEN then Inl MATTER_E_TRUNC
      else if buf ! 0 \<noteq> BTP_CHECK_1 \<or> buf ! 1 \<noteq> BTP_CHECK_2 then Inl MATTER_E_INVAL
      else Inr \<lparr>br_version = buf ! 2, br_fragment = rd16 (drop 3 buf), br_window = buf ! 5\<rparr>)"

definition matter_btp_resp_encode :: "btp_resp \<Rightarrow> nat \<Rightarrow> matter_status + bytes" where
  "matter_btp_resp_encode r cap =
     (if cap < BTP_RESP_LEN then Inl MATTER_E_NOSPACE
      else Inr ([BTP_CHECK_1, BTP_CHECK_2, br_version r] @ wr16 (br_fragment r) @ [br_window r]))"

text \<open>The offered versions end at the first zero.\<close>

fun btp_offers :: "u8 list \<Rightarrow> bool" where
  "btp_offers [] = False"
| "btp_offers (v # vs) = (if v = 0 then False else if v = BTP_VERSION then True else btp_offers vs)"

definition btp_fragment_size :: "u16 \<Rightarrow> u16 \<Rightarrow> u16" where
  "btp_fragment_size mtu local_att_mtu =
     (let f1 = (if mtu > ATT_OVERHEAD \<and> mtu - ATT_OVERHEAD > BTP_MIN_FRAGMENT then mtu - ATT_OVERHEAD else BTP_MIN_FRAGMENT);
          f2 = (if local_att_mtu > ATT_OVERHEAD \<and> local_att_mtu - ATT_OVERHEAD < f1 then local_att_mtu - ATT_OVERHEAD else f1);
          f3 = (if f2 > BTP_MAX_FRAGMENT then BTP_MAX_FRAGMENT else f2)
      in if f3 < BTP_MIN_FRAGMENT then BTP_MIN_FRAGMENT else f3)"

definition matter_btp_accept :: "btp_req \<Rightarrow> u16 \<Rightarrow> u8 \<Rightarrow> matter_status + btp_resp" where
  "matter_btp_accept req local_att_mtu local_window =
     (if \<not> btp_offers (bq_versions req) then Inl MATTER_E_TYPE
      else Inr \<lparr>br_version = BTP_VERSION, br_fragment = btp_fragment_size (bq_mtu req) local_att_mtu,
                br_window = (if bq_window req < local_window then bq_window req else local_window)\<rparr>)"

section \<open>The reassembler\<close>

datatype btp_state = BTP_IDLE | BTP_IN_PROGRESS | BTP_COMPLETE | BTP_ERROR

record btp_rx =
  rx_buf :: "bytes option" \<comment> \<open>the reassembly area, if there is one\<close>
  rx_cap :: nat
  rx_len :: nat
  rx_declared :: u16
  rx_state :: btp_state
  rx_next_seq :: u8
  rx_last_seq :: u8
  rx_got_ack :: bool
  rx_ack :: u8

definition matter_btp_rx_init :: "bytes option \<Rightarrow> nat \<Rightarrow> u8 \<Rightarrow> btp_rx" where
  "matter_btp_rx_init buf cap first_seq =
     \<lparr>rx_buf = buf, rx_cap = cap, rx_len = 0, rx_declared = 0, rx_state = BTP_IDLE, rx_next_seq = first_seq,
      rx_last_seq = 0, rx_got_ack = False, rx_ack = 0\<rparr>"

definition matter_btp_rx_reset :: "btp_rx \<Rightarrow> btp_rx" where
  "matter_btp_rx_reset rx = rx\<lparr>rx_len := 0, rx_declared := 0, rx_state := BTP_IDLE, rx_got_ack := False\<rparr>"

definition rx_fail :: "matter_status \<Rightarrow> btp_rx \<Rightarrow> btp_rx \<times> matter_status" where
  "rx_fail st rx = (rx\<lparr>rx_state := BTP_ERROR\<rparr>, st)"

text \<open>The tail of the function, from the payload check on.\<close>

definition rx_payload :: "btp_rx \<Rightarrow> u8 \<Rightarrow> bytes \<Rightarrow> btp_rx \<times> matter_status" where
  "rx_payload rx flags p =
     (if length p > rx_cap rx - rx_len rx then rx_fail MATTER_E_NOSPACE rx
      else if length p > unat (rx_declared rx) - rx_len rx then rx_fail MATTER_E_STATE rx
      else if p \<noteq> [] \<and> rx_buf rx = None then rx_fail MATTER_E_INVAL rx
      else
        let rx1 = (if p = [] then rx
                   else rx\<lparr>rx_buf := map_option (\<lambda>b. overwrite b (rx_len rx) p) (rx_buf rx), rx_len := rx_len rx + length p\<rparr>)
        in if flags AND BTP_END \<noteq> 0
           then (if rx_len rx1 \<noteq> unat (rx_declared rx1) then rx_fail MATTER_E_TRUNC rx1
                 else (rx1\<lparr>rx_state := BTP_COMPLETE\<rparr>, MATTER_END))
           else (rx1, MATTER_OK))"

text \<open>The part that depends on the state, for a fragment with data flags.\<close>

definition rx_data :: "btp_rx \<Rightarrow> u8 \<Rightarrow> bytes \<Rightarrow> btp_rx \<times> matter_status" where
  "rx_data rx flags p =
     (case rx_state rx of
        BTP_IDLE \<Rightarrow>
          if flags AND BTP_START = 0 then rx_fail MATTER_E_STATE rx
          else if length p < 2 then rx_fail MATTER_E_TRUNC rx
          else let rx1 = rx\<lparr>rx_declared := rd16 p\<rparr>
               in if unat (rx_declared rx1) > rx_cap rx1 then rx_fail MATTER_E_NOSPACE rx1
                  else rx_payload (rx1\<lparr>rx_len := 0, rx_state := BTP_IN_PROGRESS\<rparr>) flags (drop 2 p)
      | BTP_IN_PROGRESS \<Rightarrow>
          if flags AND BTP_START \<noteq> 0 then rx_fail MATTER_E_STATE rx
          else if flags AND (BTP_CONTINUE OR BTP_END) = 0 then rx_fail MATTER_E_STATE rx
          else rx_payload rx flags p
      | _ \<Rightarrow> rx_fail MATTER_E_STATE rx)"

definition rx_sequence :: "btp_rx \<Rightarrow> u8 \<Rightarrow> bytes \<Rightarrow> btp_rx \<times> matter_status" where
  "rx_sequence rx flags r =
     (case r of [] \<Rightarrow> rx_fail MATTER_E_TRUNC rx
      | sq # p \<Rightarrow>
          if sq \<noteq> rx_next_seq rx then rx_fail MATTER_E_STATE rx
          else let rx1 = rx\<lparr>rx_last_seq := sq, rx_next_seq := rx_next_seq rx + 1\<rparr>
               in if flags AND (BTP_START OR BTP_CONTINUE OR BTP_END) = 0 then (rx1, MATTER_OK)
                  else rx_data rx1 flags p)"

definition matter_btp_rx_fragment :: "btp_rx \<Rightarrow> bytes \<Rightarrow> btp_rx \<times> matter_status" where
  "matter_btp_rx_fragment rx frag =
     (if rx_state rx = BTP_ERROR then (rx, MATTER_E_STATE)
      else case frag of [] \<Rightarrow> rx_fail MATTER_E_TRUNC rx
           | flags # r \<Rightarrow>
               let rx1 = rx\<lparr>rx_got_ack := False\<rparr>
               in if flags AND BTP_ACK \<noteq> 0
                  then (case r of [] \<Rightarrow> rx_fail MATTER_E_TRUNC rx1
                        | a # r2 \<Rightarrow> rx_sequence (rx1\<lparr>rx_ack := a, rx_got_ack := True\<rparr>) flags r2)
                  else rx_sequence rx1 flags r)"

section \<open>The fragmenter\<close>

record btp_tx =
  tx_msg :: bytes
  tx_off :: nat
  tx_fragment :: u16
  tx_next_seq :: u8
  tx_started :: bool

definition matter_btp_tx_init :: "bytes option \<Rightarrow> nat \<Rightarrow> u16 \<Rightarrow> u8 \<Rightarrow> matter_status + btp_tx" where
  "matter_btp_tx_init msg len fragment_size first_seq =
     (if msg = None \<and> len \<noteq> 0 then Inl MATTER_E_INVAL
      else if fragment_size < BTP_MIN_FRAGMENT \<or> fragment_size > BTP_MAX_FRAGMENT then Inl MATTER_E_INVAL
      else if len > 0xFFFF then Inl MATTER_E_INVAL
      else Inr \<lparr>tx_msg = (case msg of None \<Rightarrow> [] | Some m \<Rightarrow> take len m), tx_off = 0, tx_fragment = fragment_size,
                tx_next_seq = first_seq, tx_started = False\<rparr>)"

definition tx_header_len :: "btp_tx \<Rightarrow> u8 option \<Rightarrow> nat" where
  "tx_header_len tx ack = 2 + (if ack \<noteq> None then 1 else 0) + (if \<not> tx_started tx then 2 else 0)"

definition tx_take :: "btp_tx \<Rightarrow> u8 option \<Rightarrow> nat" where
  "tx_take tx ack =
     (let room = unat (tx_fragment tx) - tx_header_len tx ack; left = length (tx_msg tx) - tx_off tx
      in if left > room then room else left)"

definition tx_flags :: "btp_tx \<Rightarrow> u8 option \<Rightarrow> nat \<Rightarrow> u8" where
  "tx_flags tx ack n =
     (if \<not> tx_started tx then BTP_START else BTP_CONTINUE) OR
     (if tx_off tx + n \<ge> length (tx_msg tx) then BTP_END else 0) OR (if ack \<noteq> None then BTP_ACK else 0)"

definition matter_btp_tx_next :: "btp_tx \<Rightarrow> u8 option \<Rightarrow> nat \<Rightarrow> btp_tx \<times> (matter_status + bytes)" where
  "matter_btp_tx_next tx ack cap =
     (if tx_started tx \<and> tx_off tx \<ge> length (tx_msg tx) then (tx, Inl MATTER_END)
      else if unat (tx_fragment tx) \<le> tx_header_len tx ack then (tx, Inl MATTER_E_NOSPACE)
      else
        let n = tx_take tx ack
        in if cap < tx_header_len tx ack + n then (tx, Inl MATTER_E_NOSPACE)
           else (tx\<lparr>tx_next_seq := tx_next_seq tx + 1, tx_started := True, tx_off := tx_off tx + n\<rparr>,
                 Inr ([tx_flags tx ack n] @ (case ack of None \<Rightarrow> [] | Some a \<Rightarrow> [a]) @ [tx_next_seq tx] @
                      (if \<not> tx_started tx then wr16 (of_nat (length (tx_msg tx))) else []) @
                      take n (drop (tx_off tx) (tx_msg tx)))))"

definition matter_btp_standalone_ack :: "u8 \<Rightarrow> u8 \<Rightarrow> nat \<Rightarrow> matter_status + bytes" where
  "matter_btp_standalone_ack ack sq cap = (if cap < 3 then Inl MATTER_E_NOSPACE else Inr [BTP_ACK, ack, sq])"

text \<open>The sender's loop: fragments until the fragmenter says that there are no more. The acknowledgement
  to carry is chosen per fragment; \<open>acks\<close> lists the choices and none follow.\<close>

definition tx_left :: "btp_tx \<Rightarrow> nat" where
  "tx_left tx = (length (tx_msg tx) - tx_off tx) + (if tx_started tx then 0 else 1)"

lemma tx_next_progress: "matter_btp_tx_next tx ack cap = (tx', Inr f) \<Longrightarrow> tx_left tx' < tx_left tx"
  by (auto simp: matter_btp_tx_next_def tx_take_def tx_left_def Let_def split: if_splits)

function btp_send :: "btp_tx \<Rightarrow> u8 option list \<Rightarrow> nat \<Rightarrow> bytes list \<times> matter_status" where
  "btp_send tx acks cap =
     (let (a, as) = (case acks of [] \<Rightarrow> (None, []) | x # xs \<Rightarrow> (x, xs))
      in case matter_btp_tx_next tx a cap of
           (tx', Inl st) \<Rightarrow> ([], st)
         | (tx', Inr f) \<Rightarrow> let (fs, st) = btp_send tx' as cap in (f # fs, st))"
  by pat_completeness auto
termination
  by (relation "measure (\<lambda>(tx, _). tx_left tx)") (auto dest: sym [THEN tx_next_progress] split: list.splits)

declare btp_send.simps [simp del]

end
