(* ===== verification/Btp_Proofs.thy ===== *)
theory Btp_Proofs
  imports Btp
begin

text \<open>
  What BTP guarantees: the reassembler stays inside its area whatever a peer sends, the
  fragmenter ends and what it sends is reassembled to the same message, the negotiated fragment
  fits both sides, and the handshake codecs are exact.
\<close>

section \<open>The reassembler stays inside its area\<close>

datatype rx_event = Fragment bytes | Reset

fun rx_step :: "btp_rx \<Rightarrow> rx_event \<Rightarrow> btp_rx \<times> matter_status" where
  "rx_step rx (Fragment f) = matter_btp_rx_fragment rx f"
| "rx_step rx Reset = (matter_btp_rx_reset rx, MATTER_OK)"

definition rx_ok :: "btp_rx \<Rightarrow> bool" where
  "rx_ok rx \<longleftrightarrow>
     (\<forall>b. rx_buf rx = Some b \<longrightarrow> length b = rx_cap rx) \<and>
     (rx_state rx = BTP_IN_PROGRESS \<or> rx_state rx = BTP_COMPLETE \<longrightarrow>
        rx_len rx \<le> unat (rx_declared rx) \<and> unat (rx_declared rx) \<le> rx_cap rx) \<and>
     (rx_state rx = BTP_COMPLETE \<longrightarrow> rx_len rx = unat (rx_declared rx))"

lemma rx_fail_ok [simp]: "rx_ok rx \<Longrightarrow> rx_ok (fst (rx_fail st rx))"
  by (simp add: rx_ok_def rx_fail_def)

lemma rx_ok_frame [simp]:
  "rx_ok (rx\<lparr>rx_got_ack := b\<rparr>) = rx_ok rx"
  "rx_ok (rx\<lparr>rx_ack := a\<rparr>) = rx_ok rx"
  "rx_ok (rx\<lparr>rx_last_seq := q\<rparr>) = rx_ok rx"
  "rx_ok (rx\<lparr>rx_next_seq := q\<rparr>) = rx_ok rx"
  by (simp_all add: rx_ok_def)

lemma rx_payload_ok:
  assumes "rx_ok rx" and "rx_state rx = BTP_IN_PROGRESS"
  shows "rx_ok (fst (rx_payload rx flags p))"
  using assms by (auto simp: rx_payload_def rx_fail_def rx_ok_def Let_def)

lemma rx_data_ok: "rx_ok rx \<Longrightarrow> rx_ok (fst (rx_data rx flags p))"
  by (cases "rx_state rx") (auto simp: rx_data_def Let_def intro!: rx_payload_ok, auto simp: rx_ok_def rx_fail_def)

lemma rx_sequence_ok: "rx_ok rx \<Longrightarrow> rx_ok (fst (rx_sequence rx flags r))"
  by (simp add: rx_sequence_def rx_data_ok Let_def split: list.split)

lemma rx_fragment_ok: "rx_ok rx \<Longrightarrow> rx_ok (fst (matter_btp_rx_fragment rx f))"
  by (simp add: matter_btp_rx_fragment_def rx_sequence_ok Let_def split: list.split)

lemma rx_step_ok: "rx_ok rx \<Longrightarrow> rx_ok (fst (rx_step rx e))"
  by (cases e) (simp_all add: rx_fragment_ok, simp add: matter_btp_rx_reset_def rx_ok_def)

interpretation rx: stepper rx_step rx_ok
  by unfold_locales (rule rx_step_ok)

text \<open>Everything but acceptance leaves the error state behind.\<close>

definition good_status :: "matter_status \<Rightarrow> bool" where
  "good_status st \<longleftrightarrow> st = MATTER_OK \<or> st = MATTER_END"

lemma rx_payload_status: "\<not> good_status (snd (rx_payload rx fl p)) \<Longrightarrow> rx_state (fst (rx_payload rx fl p)) = BTP_ERROR"
  by (auto simp: rx_payload_def rx_fail_def good_status_def Let_def split: if_splits)

lemma rx_data_status: "\<not> good_status (snd (rx_data rx fl p)) \<Longrightarrow> rx_state (fst (rx_data rx fl p)) = BTP_ERROR"
  by (auto simp: rx_data_def rx_fail_def good_status_def [of MATTER_OK] Let_def rx_payload_status
      split: btp_state.splits if_splits)

lemma rx_fragment_status:
  "\<not> good_status (snd (matter_btp_rx_fragment rx f)) \<Longrightarrow> rx_state (fst (matter_btp_rx_fragment rx f)) = BTP_ERROR"
  by (auto simp: matter_btp_rx_fragment_def rx_sequence_def rx_fail_def good_status_def [of MATTER_OK] Let_def rx_data_status
      split: list.splits if_splits)

text \<open>The area is neither exchanged nor lost.\<close>

definition rx_area :: "btp_rx \<Rightarrow> nat \<times> bool" where
  "rx_area rx = (rx_cap rx, rx_buf rx = None)"

lemma rx_area_frame [simp]:
  "rx_area (fst (rx_fail st rx)) = rx_area rx"
  "rx_area (rx\<lparr>rx_got_ack := b\<rparr>) = rx_area rx"
  "rx_area (rx\<lparr>rx_ack := a\<rparr>) = rx_area rx"
  "rx_area (rx\<lparr>rx_last_seq := q\<rparr>) = rx_area rx"
  "rx_area (rx\<lparr>rx_next_seq := q\<rparr>) = rx_area rx"
  "rx_area (rx\<lparr>rx_len := n\<rparr>) = rx_area rx"
  "rx_area (rx\<lparr>rx_declared := d\<rparr>) = rx_area rx"
  "rx_area (rx\<lparr>rx_state := st'\<rparr>) = rx_area rx"
  "rx_area (rx\<lparr>rx_buf := map_option g (rx_buf rx)\<rparr>) = rx_area rx"
  by (simp_all add: rx_area_def rx_fail_def)

lemma rx_area_payload [simp]: "rx_area (fst (rx_payload rx fl p)) = rx_area rx"
  by (simp add: rx_payload_def Let_def)

lemma rx_area_data [simp]: "rx_area (fst (rx_data rx fl p)) = rx_area rx"
  by (simp add: rx_data_def Let_def split: btp_state.split)

lemma rx_area_sequence [simp]: "rx_area (fst (rx_sequence rx fl r)) = rx_area rx"
  by (simp add: rx_sequence_def Let_def split: list.split)

lemma rx_area_step: "rx_area (fst (rx_step rx e)) = rx_area rx"
  by (cases e) (simp_all add: matter_btp_rx_fragment_def matter_btp_rx_reset_def Let_def split: list.split)

lemma rx_area_run: "rx_area (fst (run_steps rx_step rx es)) = rx_area rx"
  by (induction es arbitrary: rx) (simp_all add: fst_run_steps_Cons rx_area_step del: run_steps.simps(2))

text \<open>Whatever fragments a peer sends, in whatever order and with resets in between, the reassembler
  never writes outside its area: the area keeps its size, a message in progress or complete
  is no longer than announced and the announced length fits, a complete message has exactly
  the announced length, and every fragment that is not accepted latches the error state.\<close>

theorem btp_reassembly_in_bounds:
  assumes "length area = cap" and "rx = fst (run_steps rx_step (matter_btp_rx_init (Some area) cap sq) es)"
  shows "(\<exists>b. rx_buf rx = Some b \<and> length b = cap) \<and>
    (rx_state rx = BTP_IN_PROGRESS \<longrightarrow> rx_len rx \<le> unat (rx_declared rx) \<and> unat (rx_declared rx) \<le> cap) \<and>
    (rx_state rx = BTP_COMPLETE \<longrightarrow> rx_len rx = unat (rx_declared rx) \<and> rx_len rx \<le> cap) \<and>
    (good_status (snd (matter_btp_rx_fragment rx f)) \<or> rx_state (fst (matter_btp_rx_fragment rx f)) = BTP_ERROR)"
proof -
  have "rx_ok (matter_btp_rx_init (Some area) cap sq)"
    using assms(1) by (simp add: rx_ok_def matter_btp_rx_init_def)
  then have ok: "rx_ok rx" using rx.invar_run assms(2) by blast
  have "rx_area rx = (cap, False)" by (simp add: assms(2) rx_area_run) (simp add: rx_area_def matter_btp_rx_init_def)
  then show ?thesis using ok rx_fragment_status [of rx f] by (auto simp: rx_ok_def rx_area_def)
qed

theorem btp_reassembly_in_bounds_witness:
  "let rx = fst (run_steps rx_step (matter_btp_rx_init (Some (replicate 4 0)) 4 1)
              [Fragment [1, 1, 3, 0, 7, 8], Fragment [6, 2, 9]])
   in rx_state rx = BTP_COMPLETE \<and> rx_len rx = 3 \<and>
      rx_state (fst (matter_btp_rx_fragment rx [1, 3, 200, 0])) = BTP_ERROR"
proof -
  let ?rx = "fst (run_steps rx_step (matter_btp_rx_init (Some (replicate 4 0)) 4 1)
              [Fragment [1, 1, 3, 0, 7, 8], Fragment [6, 2, 9]])"
  have c: "rx_state ?rx = BTP_COMPLETE" "unat (rx_declared ?rx) = 3"
    "\<not> good_status (snd (matter_btp_rx_fragment ?rx [1, 3, 200, 0]))" by code_simp+
  show ?thesis
    using btp_reassembly_in_bounds [of "replicate 4 0" 4 ?rx 1 "[Fragment [1, 1, 3, 0, 7, 8], Fragment [6, 2, 9]]" "[1, 3, 200, 0]"] c
    by (simp add: Let_def del: run_steps.simps)
qed

section \<open>A message crosses\<close>

lemma tx_flags_bits:
  "(tx_flags tx ack n AND BTP_ACK = 0) = (ack = None)"
  "(tx_flags tx ack n AND BTP_START = 0) = tx_started tx"
  "(tx_flags tx ack n AND BTP_END = 0) = (tx_off tx + n < length (tx_msg tx))"
  "tx_flags tx ack n AND 7 \<noteq> 0" \<comment> \<open>start, continue or end\<close>
  "tx_started tx \<Longrightarrow> tx_flags tx ack n AND 6 \<noteq> 0" \<comment> \<open>continue or end\<close>
  by (simp_all add: tx_flags_def)

text \<open>A fragment of the sender reaches the data part with its flags when its number is the expected one.\<close>

definition rx_header_done :: "btp_rx \<Rightarrow> u8 option \<Rightarrow> btp_rx" where
  "rx_header_done rx ack =
     (case ack of None \<Rightarrow> rx\<lparr>rx_got_ack := False\<rparr> | Some a \<Rightarrow> rx\<lparr>rx_ack := a, rx_got_ack := True\<rparr>)
       \<lparr>rx_last_seq := rx_next_seq rx, rx_next_seq := rx_next_seq rx + 1\<rparr>"

lemma rx_header_done_frame [simp]:
  "rx_buf (rx_header_done rx ack) = rx_buf rx" "rx_cap (rx_header_done rx ack) = rx_cap rx"
  "rx_len (rx_header_done rx ack) = rx_len rx" "rx_declared (rx_header_done rx ack) = rx_declared rx"
  "rx_state (rx_header_done rx ack) = rx_state rx" "rx_next_seq (rx_header_done rx ack) = rx_next_seq rx + 1"
  by (simp_all add: rx_header_done_def split: option.split)

lemma rx_fragment_header:
  assumes "rx_state rx \<noteq> BTP_ERROR" and "rx_next_seq rx = sq"
  shows "matter_btp_rx_fragment rx ([tx_flags tx ack n] @ (case ack of None \<Rightarrow> [] | Some a \<Rightarrow> [a]) @ [sq] @ p) =
    rx_data (rx_header_done rx ack) (tx_flags tx ack n) p"
  using assms
  by (cases ack) (simp_all add: matter_btp_rx_fragment_def rx_sequence_def rx_header_done_def tx_flags_bits Let_def)

text \<open>Sender and receiver agree on what has crossed.\<close>

definition linked :: "btp_tx \<Rightarrow> btp_rx \<Rightarrow> bool" where
  "linked tx rx \<longleftrightarrow>
     length (tx_msg tx) \<le> 65535 \<and> length (tx_msg tx) \<le> rx_cap rx \<and> tx_off tx \<le> length (tx_msg tx) \<and>
     rx_next_seq rx = tx_next_seq tx \<and>
     (\<exists>b. rx_buf rx = Some b \<and> length b = rx_cap rx \<and>
        (if tx_started tx
         then rx_state rx = BTP_IN_PROGRESS \<and> unat (rx_declared rx) = length (tx_msg tx) \<and> rx_len rx = tx_off tx \<and>
              take (tx_off tx) b = take (tx_off tx) (tx_msg tx)
         else rx_state rx = BTP_IDLE \<and> tx_off tx = 0))"

definition received :: "btp_rx \<Rightarrow> bytes \<Rightarrow> u8 \<Rightarrow> bool" where
  "received rx m sq \<longleftrightarrow>
     rx_state rx = BTP_COMPLETE \<and> rx_len rx = length m \<and> rx_next_seq rx = sq \<and>
     (\<exists>b. rx_buf rx = Some b \<and> take (length m) b = m)"

text \<open>The payload step on a receiver that holds the first \<open>off\<close> bytes.\<close>

lemma payload_appends:
  assumes "rx_buf rx = Some b" and "length b = rx_cap rx" and "unat (rx_declared rx) = length m" and "length m \<le> rx_cap rx"
    and "rx_len rx = off" and "take off b = take off m" and "off + n \<le> length m" and "(fl AND BTP_END = 0) = (off + n < length m)"
  shows "\<exists>b'. length b' = rx_cap rx \<and> take (off + n) b' = take (off + n) m \<and>
    rx_payload rx fl (take n (drop off m)) =
      (if off + n < length m then (rx\<lparr>rx_buf := Some b', rx_len := off + n\<rparr>, MATTER_OK)
       else (rx\<lparr>rx_buf := Some b', rx_len := off + n, rx_state := BTP_COMPLETE\<rparr>, MATTER_END))"
proof -
  let ?p = "take n (drop off m)"
  have l: "length ?p = n" using assms(7) by simp
  have m: "take (off + n) m = take off m @ ?p" by (simp add: take_add)
  show ?thesis
  proof (cases "n = 0")
    case True
    have "rx = rx\<lparr>rx_buf := Some b, rx_len := off\<rparr>" using assms(1,5) by simp
    then show ?thesis
      using True assms by (intro exI [of _ b]) (auto simp: rx_payload_def Let_def)
  next
    case False
    then have ne: "?p \<noteq> []" using l by auto
    have "take (off + n) (overwrite b off ?p) = take (off + n) m" "length (overwrite b off ?p) = rx_cap rx"
      using take_overwrite [of off ?p b] assms l by (simp_all add: m)
    then show ?thesis
      using ne assms l by (intro exI [of _ "overwrite b off ?p"]) (auto simp: rx_payload_def Let_def)
  qed
qed

lemma tx_take_le: "tx_off tx \<le> length (tx_msg tx) \<Longrightarrow> tx_off tx + tx_take tx ack \<le> length (tx_msg tx)"
  by (auto simp: tx_take_def Let_def)

lemma fragment_crosses:
  assumes "linked tx rx" and "matter_btp_tx_next tx ack cap = (tx', Inr f)" and "matter_btp_rx_fragment rx f = (rx', st)"
  shows "tx_msg tx' = tx_msg tx \<and> tx_started tx' \<and> tx_fragment tx' = tx_fragment tx \<and> tx_off tx' \<le> length (tx_msg tx) \<and>
    (if tx_off tx' < length (tx_msg tx) then st = MATTER_OK \<and> linked tx' rx'
     else st = MATTER_END \<and> received rx' (tx_msg tx) (tx_next_seq tx'))"
proof -
  let ?n = "tx_take tx ack" and ?m = "tx_msg tx" and ?fl = "tx_flags tx ack (tx_take tx ack)"
  let ?h = "rx_header_done rx ack"
  let ?p = "take ?n (drop (tx_off tx) ?m)"
  have tx': "tx' = tx\<lparr>tx_next_seq := tx_next_seq tx + 1, tx_started := True, tx_off := tx_off tx + ?n\<rparr>"
    and f: "f = [?fl] @ (case ack of None \<Rightarrow> [] | Some a \<Rightarrow> [a]) @ [tx_next_seq tx] @
                (if \<not> tx_started tx then wr16 (of_nat (length ?m)) else []) @ ?p"
    using assms(2) by (auto simp: matter_btp_tx_next_def Let_def split: if_splits)
  have bound: "tx_off tx + ?n \<le> length ?m" using assms(1) tx_take_le by (simp add: linked_def)
  have st: "rx_state rx \<noteq> BTP_ERROR" "rx_next_seq rx = tx_next_seq tx"
    using assms(1) by (auto simp: linked_def split: if_splits)
  have data: "(rx', st) = rx_data ?h ?fl ((if \<not> tx_started tx then wr16 (of_nat (length ?m)) else []) @ ?p)"
    using rx_fragment_header [OF st, of tx ack ?n] assms(3) by (simp add: f)
  obtain b where b: "rx_buf rx = Some b" "length b = rx_cap rx" using assms(1) by (auto simp: linked_def)
  define r where "r = (if tx_started tx then ?h
     else ?h\<lparr>rx_declared := of_nat (length ?m), rx_len := 0, rx_state := BTP_IN_PROGRESS\<rparr>)"
  have dec: "unat (of_nat (length ?m) :: u16) = length ?m"
    using assms(1) by (simp add: linked_def unat_of_nat)
  have "rx_data ?h ?fl ((if \<not> tx_started tx then wr16 (of_nat (length ?m)) else []) @ ?p) = rx_payload r ?fl ?p"
    using assms(1) dec
    by (auto simp: r_def rx_data_def linked_def tx_flags_bits Let_def split: if_splits)
  moreover have r: "rx_buf r = Some b" "rx_cap r = rx_cap rx" "unat (rx_declared r) = length ?m" "rx_len r = tx_off tx"
      "take (tx_off tx) b = take (tx_off tx) ?m" "rx_next_seq r = rx_next_seq rx + 1" "rx_state r = BTP_IN_PROGRESS"
    using assms(1) b dec by (auto simp: r_def linked_def split: if_splits)
  ultimately obtain b' where "length b' = rx_cap rx" "take (tx_off tx + ?n) b' = take (tx_off tx + ?n) ?m"
      "(rx', st) = (if tx_off tx + ?n < length ?m then (r\<lparr>rx_buf := Some b', rx_len := tx_off tx + ?n\<rparr>, MATTER_OK)
         else (r\<lparr>rx_buf := Some b', rx_len := tx_off tx + ?n, rx_state := BTP_COMPLETE\<rparr>, MATTER_END))"
    using payload_appends [of r b ?m "tx_off tx" ?n ?fl] b(2) bound assms(1) data
    by (auto simp: tx_flags_bits linked_def)
  then show ?thesis
    using bound r st(2) assms(1) by (auto simp: tx' linked_def received_def split: if_splits)
qed

lemma tx_next_succeeds:
  assumes "tx_started tx \<longrightarrow> tx_off tx < length (tx_msg tx)" and "20 \<le> unat (tx_fragment tx)" and "unat (tx_fragment tx) \<le> cap"
  obtains tx' f where "matter_btp_tx_next tx ack cap = (tx', Inr f)" and "length f \<le> unat (tx_fragment tx)"
    and "tx_next_seq tx' = tx_next_seq tx + 1"
proof -
  have h: "tx_header_len tx ack \<le> 5" by (simp add: tx_header_len_def)
  then have t: "tx_header_len tx ack + tx_take tx ack \<le> unat (tx_fragment tx)"
    using assms(2) by (auto simp: tx_take_def Let_def)
  have "length (take (tx_take tx ack) (drop (tx_off tx) (tx_msg tx))) \<le> tx_take tx ack" by simp
  then show ?thesis
    using that h t assms
    by (cases ack; cases "tx_started tx") (auto simp: matter_btp_tx_next_def Let_def tx_header_len_def)
qed

definition crossed :: "btp_rx \<Rightarrow> bytes list \<Rightarrow> bytes \<Rightarrow> bool" where
  "crossed rx fs m \<longleftrightarrow>
     (let (rx', sts) = run_steps rx_step rx (map Fragment fs)
      in fs \<noteq> [] \<and> sts = replicate (length fs - 1) MATTER_OK @ [MATTER_END] \<and>
         received rx' m (rx_next_seq rx + of_nat (length fs)))"

lemma send_crosses:
  assumes "linked tx rx" and "tx_started tx \<longrightarrow> tx_off tx < length (tx_msg tx)" and "20 \<le> unat (tx_fragment tx)"
    and "unat (tx_fragment tx) \<le> cap"
  shows "snd (btp_send tx acks cap) = MATTER_END \<and> list_all (\<lambda>f. length f \<le> unat (tx_fragment tx)) (fst (btp_send tx acks cap)) \<and>
    crossed rx (fst (btp_send tx acks cap)) (tx_msg tx)"
  using assms
proof (induction tx acks cap arbitrary: rx rule: btp_send.induct)
  case (1 tx acks cap)
  define a where "a = (case acks of [] \<Rightarrow> None | x # xs \<Rightarrow> x)"
  define as where "as = (case acks of [] \<Rightarrow> [] | x # xs \<Rightarrow> xs)"
  have aas: "(case acks of [] \<Rightarrow> (None, []) | x # xs \<Rightarrow> (x, xs)) = (a, as)" by (simp add: a_def as_def split: list.split)
  obtain tx' f where n: "matter_btp_tx_next tx a cap = (tx', Inr f)" and lf: "length f \<le> unat (tx_fragment tx)"
      and sq: "tx_next_seq tx' = tx_next_seq tx + 1"
    using tx_next_succeeds 1(3-5) by metis
  have send: "btp_send tx acks cap = (f # fst (btp_send tx' as cap), snd (btp_send tx' as cap))"
    by (subst btp_send.simps) (simp add: aas n split_beta)
  obtain rx1 st where r: "matter_btp_rx_fragment rx f = (rx1, st)" by (cases "matter_btp_rx_fragment rx f")
  note c = fragment_crosses [OF 1(2) n r]
  have seqs: "rx_next_seq rx = tx_next_seq tx" using 1(2) by (simp add: linked_def)
  show ?case
  proof (cases "tx_off tx' < length (tx_msg tx)")
    case True
    then have IH: "snd (btp_send tx' as cap) = MATTER_END \<and>
        list_all (\<lambda>f. length f \<le> unat (tx_fragment tx')) (fst (btp_send tx' as cap)) \<and>
        crossed rx1 (fst (btp_send tx' as cap)) (tx_msg tx')"
      using "1.IH" [OF aas [symmetric] refl n [symmetric] refl, of rx1] c 1(4,5) by simp
    moreover have "rx_next_seq rx1 = rx_next_seq rx + 1" using c True sq seqs by (simp add: linked_def)
    ultimately show ?thesis
      using c True lf r by (cases "fst (btp_send tx' as cap)") (auto simp: send crossed_def split_beta Let_def ac_simps)
  next
    case False
    have "btp_send tx' as cap = ([], MATTER_END)"
      using c False by (subst btp_send.simps) (simp add: matter_btp_tx_next_def split_beta)
    then show ?thesis
      using c False lf r sq seqs by (simp add: send crossed_def)
  qed
qed

text \<open>C37: A message crosses BTP intact. For every message of up to 65535 bytes, every permitted fragment
  size, every starting sequence number (the eight-bit counter may wrap on the way) and every
  choice of acknowledgements carried along, the fragmenter ends; every fragment fits the
  negotiated size; and a reassembler that expects that number and has room accepts each
  fragment, reports the end on the last one and no earlier, and then holds exactly the message.\<close>

theorem btp_message_crosses:
  assumes "matter_btp_tx_init (Some m) (length m) fsz sq = Inr tx" and "unat fsz \<le> cap"
    and "rx_state rx = BTP_IDLE" and "rx_next_seq rx = sq" and "rx_buf rx = Some area" and "length area = rx_cap rx"
    and "length m \<le> rx_cap rx" and "(fs, st) = btp_send tx acks cap"
  shows "st = MATTER_END \<and> list_all (\<lambda>f. length f \<le> unat fsz) fs \<and> crossed rx fs m"
proof -
  have tx: "tx = \<lparr>tx_msg = m, tx_off = 0, tx_fragment = fsz, tx_next_seq = sq, tx_started = False\<rparr>" "length m \<le> 65535"
      and "20 \<le> fsz"
    using assms(1) by (auto simp: matter_btp_tx_init_def split: if_splits)
  then have "20 \<le> unat fsz" using word_le_nat_alt [of 20 fsz] by simp
  moreover have "linked tx rx" using assms tx by (simp add: linked_def)
  ultimately show ?thesis
    using send_crosses [of tx rx cap acks] assms(2,8) tx(1) by (metis btp_tx.select_convs(1,3,5) fst_conv snd_conv)
qed

theorem btp_message_crosses_witness:
  "crossed (matter_btp_rx_init (Some (replicate 64 0)) 64 255)
     (fst (btp_send \<lparr>tx_msg = map of_nat [0..<40], tx_off = 0, tx_fragment = 20, tx_next_seq = 255, tx_started = False\<rparr> [None, Some 9] 20))
     (map of_nat [0..<40])"
proof -
  let ?tx = "\<lparr>tx_msg = map of_nat [0..<40], tx_off = 0, tx_fragment = 20, tx_next_seq = 255, tx_started = False\<rparr>"
  have "matter_btp_tx_init (Some (map of_nat [0..<40])) (length (map of_nat [0..<40] :: bytes)) 20 255 = Inr ?tx"
    by (simp add: matter_btp_tx_init_def)
  then show ?thesis
    using btp_message_crosses [of "map of_nat [0..<40]" 20 255 ?tx 20 "matter_btp_rx_init (Some (replicate 64 0)) 64 255"
        "replicate 64 0" "fst (btp_send ?tx [None, Some 9] 20)" "snd (btp_send ?tx [None, Some 9] 20)" "[None, Some 9]"]
    by (simp add: matter_btp_rx_init_def)
qed

section \<open>The handshake\<close>

text \<open>The negotiated fragment size is always one the fragmenter accepts, never exceeds the room
  either side has when that side offers at least the BLE minimum, and uses that room up to the
  limit; the window is the smaller one; and no other version is ever selected.\<close>

theorem btp_negotiation_fits:
  assumes "matter_btp_accept req mtu window = Inr r" and "23 \<le> mtu" and "23 \<le> bq_mtu req"
  shows "unat (br_fragment r) = min 244 (min (unat mtu - 3) (unat (bq_mtu req) - 3)) \<and> 20 \<le> br_fragment r \<and>
    br_window r = min (bq_window req) window \<and> br_version r = 4 \<and> 4 \<in> set (bq_versions req)"
proof -
  have off: "btp_offers vs \<Longrightarrow> 4 \<in> set vs" for vs by (induction vs) (auto split: if_splits)
  have sub: "unat (x - 3) = unat x - 3" if "23 \<le> x" for x :: u16
    using that unat_sub [of 3 x] by (simp add: word_le_nat_alt)
  have "unat (btp_fragment_size (bq_mtu req) mtu) = min 244 (min (unat mtu - 3) (unat (bq_mtu req) - 3)) \<and>
      20 \<le> btp_fragment_size (bq_mtu req) mtu"
    using assms(2,3) sub [OF assms(2)] sub [OF assms(3)]
    by (auto simp: btp_fragment_size_def Let_def word_le_nat_alt word_less_nat_alt split: if_splits)
  then show ?thesis using assms(1) off by (auto simp: matter_btp_accept_def split: if_splits)
qed

theorem btp_negotiation_fits_witness:
  "\<exists>r. matter_btp_accept \<lparr>bq_versions = [4, 0, 0, 0, 0, 0, 0, 0], bq_mtu = 185, bq_window = 6\<rparr> 247 5 = Inr r \<and>
     unat (br_fragment r) = 182 \<and> br_window r = 5"
proof -
  let ?q = "\<lparr>bq_versions = [4, 0, 0, 0, 0, 0, 0, 0], bq_mtu = 185, bq_window = 6\<rparr> :: btp_req"
  obtain r where r: "matter_btp_accept ?q 247 5 = Inr r" by (simp add: matter_btp_accept_def)
  then show ?thesis using btp_negotiation_fits [OF r] by auto
qed

lemma and_15: "x AND 15 = take_bit 4 (x::u8)"
  by (simp add: take_bit_eq_mask mask_eq_exp_minus_1)

lemma packed_slots:
  "btp_pack vs j AND 15 = vs ! (2 * j) AND 15"
  "drop_bit 4 (btp_pack vs j) AND 15 = vs ! (2 * j + 1) AND 15"
  unfolding btp_pack_def and_15 by (auto simp: bit_eq_iff bit_simps)

lemma nibble_id: "v < 16 \<Longrightarrow> v AND 15 = (v::u8)"
proof -
  assume "v < 16"
  then have "take_bit 4 (unat v) = unat v" by (simp add: take_bit_nat_eq_self word_less_nat_alt)
  then have "unat (take_bit 4 v) = unat v" by (simp add: unsigned_take_bit_eq)
  then show ?thesis unfolding and_15 by (rule unsigned_word_eqI)
qed

text \<open>Both handshake messages survive encoding and decoding: a request whose eight version slots are
  four-bit numbers, and every response.\<close>

theorem btp_handshake_roundtrip:
  assumes "length (bq_versions q) = 8" and "\<forall>v\<in>set (bq_versions q). v < 16" and "9 \<le> cap"
  shows "(\<exists>b. matter_btp_req_encode q cap = Inr b \<and> length b = 9 \<and> matter_btp_req_decode b = Inr q) \<and>
    (\<exists>b. matter_btp_resp_encode r cap = Inr b \<and> length b = 6 \<and> matter_btp_resp_decode b = Inr r)"
proof -
  obtain a0 a1 a2 a3 a4 a5 a6 a7 where vs: "bq_versions q = [a0, a1, a2, a3, a4, a5, a6, a7]"
    using assms(1) by (auto simp: length_Suc_conv numeral_eq_Suc)
  have u: "[0..<8] = [0, 1, 2, 3, 4, 5, 6, 7 :: nat]" "[0..<4] = [0, 1, 2, 3 :: nat]" by (simp_all add: upt_rec)
  have "matter_btp_req_encode q cap = Inr ([0x65, 0x6C] @ map (btp_pack (bq_versions q)) [0..<4] @ wr16 (bq_mtu q) @ [bq_window q])"
    (is "_ = Inr ?b") using assms(3) by (simp add: matter_btp_req_encode_def)
  moreover have "length ?b = 9" by simp
  moreover have "matter_btp_req_decode ?b = Inr q"
    using assms(2)
    by (simp add: matter_btp_req_decode_def u btp_slot_def packed_slots del: Suc_eq_plus1)
      (cases q, use vs in \<open>simp add: nibble_id nth_append\<close>)
  ultimately have req: "\<exists>b. matter_btp_req_encode q cap = Inr b \<and> length b = 9 \<and> matter_btp_req_decode b = Inr q" by blast
  have "matter_btp_resp_decode ([0x65, 0x6C, br_version r] @ wr16 (br_fragment r) @ [br_window r]) = Inr r"
    by (simp add: matter_btp_resp_decode_def nth_append numeral_eq_Suc)
  then show ?thesis using req assms(3) by (simp add: matter_btp_resp_encode_def)
qed

theorem btp_handshake_roundtrip_witness:
  "\<exists>b. matter_btp_req_encode \<lparr>bq_versions = [4, 3, 0, 0, 0, 0, 0, 0], bq_mtu = 185, bq_window = 6\<rparr> 9 = Inr b \<and> length b = 9 \<and>
     matter_btp_req_decode b = Inr \<lparr>bq_versions = [4, 3, 0, 0, 0, 0, 0, 0], bq_mtu = 185, bq_window = 6\<rparr>"
  by (rule btp_handshake_roundtrip [where r = "\<lparr>br_version = 4, br_fragment = 20, br_window = 5\<rparr>", THEN conjunct1]) simp_all

end
