(* ===== verification/Mrp.thy ===== *)
theory Mrp
  imports Matter_Base
begin

text \<open>
  MRP, the reliability layer of Matter (\<^verbatim>\<open>modules/ultrawidelock_matter/src/matter_mrp.c\<close>): the backoff
  schedule in 64-bit arithmetic, the replay window over 32-bit counters, and the state of one
  exchange with its wrapping millisecond deadlines. NULL tests are left out.
\<close>

section \<open>The schedule\<close>

abbreviation MRP_MAX_DELAY_MS :: nat where "MRP_MAX_DELAY_MS \<equiv> 0x40000000"
abbreviation MRP_SENDER_BOOST_MS :: u64 where "MRP_SENDER_BOOST_MS \<equiv> 1500"
abbreviation MRP_STANDALONE_ACK_MS :: u32 where "MRP_STANDALONE_ACK_MS \<equiv> 200"
abbreviation MRP_MAX_TRANSMISSIONS :: u8 where "MRP_MAX_TRANSMISSIONS \<equiv> 5"

definition mrp_exponent :: "u8 \<Rightarrow> nat" where
  "mrp_exponent send_count =
     (let n = (if send_count = 0 then 1 else unat send_count);
          e = (if n > 1 then n - 1 else 0)
      in if e > 4 then 4 else e)"

text \<open>The loop that accumulates the ratio.\<close>

fun mrp_ratio :: "nat \<Rightarrow> u64 \<times> u64 \<Rightarrow> u64 \<times> u64" where
  "mrp_ratio 0 r = r"
| "mrp_ratio (Suc e) (num, den) = mrp_ratio e (num * 16, den * 10)"

definition matter_mrp_backoff_ms :: "u32 \<Rightarrow> u8 \<Rightarrow> u8 \<Rightarrow> u32" where
  "matter_mrp_backoff_ms base_ms send_count jitter =
     (let t0 = (ucast base_ms * 1127) div 1024 :: u64;
          (num, den) = mrp_ratio (mrp_exponent send_count) (1, 1);
          t1 = (t0 * num) div den;
          t2 = (t1 * (1024 + ucast jitter)) div 1024;
          t3 = (if t2 > 0x40000000 then 0x40000000 else t2)
      in ucast t3)"

definition mrp_delay :: "u32 \<Rightarrow> u8 \<Rightarrow> u8 \<Rightarrow> u64" where
  "mrp_delay base_ms send_count jitter =
     (let d = ucast (matter_mrp_backoff_ms base_ms send_count jitter) + MRP_SENDER_BOOST_MS
      in if d > 0x40000000 then 0x40000000 else d)"

fun mrp_horizon :: "u32 \<Rightarrow> u8 list \<Rightarrow> u64 \<Rightarrow> u32" where
  "mrp_horizon base_ms [] horizon = ucast horizon"
| "mrp_horizon base_ms (n # ns) horizon =
     (let h = horizon + mrp_delay base_ms n 0xFF
      in if h \<ge> 0x40000000 then 0x40000000 else mrp_horizon base_ms ns h)"

definition matter_mrp_retry_horizon_ms :: "u32 \<Rightarrow> u32" where
  "matter_mrp_retry_horizon_ms base_ms = mrp_horizon base_ms [1, 2, 3, 4, 5] 0"

section \<open>The replay window\<close>

record mrp_window =
  mw_max_counter :: u32
  mw_bitmap :: u32
  mw_synced :: bool

definition matter_mrp_window_init :: mrp_window where
  "matter_mrp_window_init = \<lparr>mw_max_counter = 0, mw_bitmap = 0, mw_synced = False\<rparr>"

definition matter_mrp_window_check :: "mrp_window \<Rightarrow> u32 \<Rightarrow> matter_status" where
  "matter_mrp_window_check w counter =
     (if \<not> mw_synced w then MATTER_OK
      else
        let behind = mw_max_counter w - counter
        in if behind = 0 then MATTER_E_DUP
           else if behind \<le> 32
           then (if mw_bitmap w AND push_bit (unat (behind - 1)) 1 \<noteq> 0 then MATTER_E_DUP else MATTER_OK)
           else if counter - mw_max_counter w \<le> 0x7FFFFFFF then MATTER_OK
           else MATTER_E_DUP)"

definition matter_mrp_window_commit :: "mrp_window \<Rightarrow> u32 \<Rightarrow> mrp_window" where
  "matter_mrp_window_commit w counter =
     (if \<not> mw_synced w then \<lparr>mw_max_counter = counter, mw_bitmap = 0, mw_synced = True\<rparr>
      else
        let behind = mw_max_counter w - counter
        in if behind = 0 then w
           else if behind \<le> 32 then w\<lparr>mw_bitmap := mw_bitmap w OR push_bit (unat (behind - 1)) 1\<rparr>
           else
             let ahead = counter - mw_max_counter w;
                 b1 = (if ahead \<ge> 32 then 0 else push_bit (unat ahead) (mw_bitmap w));
                 b2 = (if ahead \<le> 32 then b1 OR push_bit (unat (ahead - 1)) 1 else b1)
             in w\<lparr>mw_bitmap := b2, mw_max_counter := counter\<rparr>)"

text \<open>How a session uses the window: a message that passes the check is committed.\<close>

definition mrp_receive :: "mrp_window \<Rightarrow> u32 \<Rightarrow> mrp_window \<times> bool" where
  "mrp_receive w counter =
     (if matter_mrp_window_check w counter = MATTER_OK then (matter_mrp_window_commit w counter, True) else (w, False))"

section \<open>The exchange\<close>

record mrp =
  mr_base_ms :: u32
  mr_tx_counter :: u32
  mr_tx_due_ms :: u32
  mr_ack_counter :: u32
  mr_ack_due_ms :: u32
  mr_send_count :: u8
  mr_tx_pending :: bool
  mr_ack_pending :: bool

datatype mrp_action = MRP_IDLE | MRP_RETRANSMIT | MRP_SEND_ACK | MRP_GIVE_UP

definition mrp_elapsed :: "u32 \<Rightarrow> u32 \<Rightarrow> int" where
  "mrp_elapsed now since = sint (now - since)"

definition mrp_reached :: "u32 \<Rightarrow> u32 \<Rightarrow> bool" where
  "mrp_reached now deadline = (mrp_elapsed now deadline \<ge> 0)"

definition matter_mrp_init :: "u32 \<Rightarrow> mrp" where
  "matter_mrp_init base_ms =
     \<lparr>mr_base_ms = base_ms, mr_tx_counter = 0, mr_tx_due_ms = 0, mr_ack_counter = 0, mr_ack_due_ms = 0,
      mr_send_count = 0, mr_tx_pending = False, mr_ack_pending = False\<rparr>"

definition matter_mrp_arm :: "mrp \<Rightarrow> u32 \<Rightarrow> u32 \<Rightarrow> u8 \<Rightarrow> mrp \<times> matter_status" where
  "matter_mrp_arm m counter now_ms jitter =
     (if mr_tx_pending m \<and> mr_tx_counter m \<noteq> counter then (m, MATTER_E_STATE)
      else
        let m1 = (if \<not> mr_tx_pending m then m\<lparr>mr_tx_counter := counter, mr_send_count := 0, mr_tx_pending := True\<rparr> else m);
            m2 = (if mr_send_count m1 < 0xFF then m1\<lparr>mr_send_count := mr_send_count m1 + 1\<rparr> else m1)
        in (m2\<lparr>mr_tx_due_ms := now_ms + ucast (mrp_delay (mr_base_ms m2) (mr_send_count m2) jitter)\<rparr>, MATTER_OK))"

definition matter_mrp_on_ack :: "mrp \<Rightarrow> u32 \<Rightarrow> mrp \<times> matter_status" where
  "matter_mrp_on_ack m counter =
     (if \<not> mr_tx_pending m then (m, MATTER_E_STATE)
      else if mr_tx_counter m \<noteq> counter then (m, MATTER_E_INVAL)
      else (m\<lparr>mr_tx_pending := False, mr_send_count := 0\<rparr>, MATTER_OK))"

definition matter_mrp_on_reliable_recv :: "mrp \<Rightarrow> u32 \<Rightarrow> u32 \<Rightarrow> mrp" where
  "matter_mrp_on_reliable_recv m counter now_ms =
     m\<lparr>mr_ack_counter := counter, mr_ack_due_ms := now_ms + MRP_STANDALONE_ACK_MS, mr_ack_pending := True\<rparr>"

definition matter_mrp_take_ack :: "mrp \<Rightarrow> mrp \<times> u32 option" where
  "matter_mrp_take_ack m =
     (if \<not> mr_ack_pending m then (m, None) else (m\<lparr>mr_ack_pending := False\<rparr>, Some (mr_ack_counter m)))"

definition matter_mrp_poll :: "mrp \<Rightarrow> u32 \<Rightarrow> mrp_action \<times> u32 option" where
  "matter_mrp_poll m now_ms =
     (if mr_tx_pending m \<and> mrp_reached now_ms (mr_tx_due_ms m)
      then ((if mr_send_count m \<ge> MRP_MAX_TRANSMISSIONS then MRP_GIVE_UP else MRP_RETRANSMIT), Some (mr_tx_counter m))
      else if mr_ack_pending m \<and> mrp_reached now_ms (mr_ack_due_ms m) then (MRP_SEND_ACK, Some (mr_ack_counter m))
      else (MRP_IDLE, None))"

definition matter_mrp_next_deadline :: "mrp \<Rightarrow> u32 option" where
  "matter_mrp_next_deadline m =
     (if mr_tx_pending m \<and> mr_ack_pending m
      then Some (if mrp_elapsed (mr_ack_due_ms m) (mr_tx_due_ms m) < 0 then mr_ack_due_ms m else mr_tx_due_ms m)
      else if mr_tx_pending m then Some (mr_tx_due_ms m)
      else if mr_ack_pending m then Some (mr_ack_due_ms m)
      else None)"

end
