(* ===== verification/Mrp_Proofs.thy ===== *)
theory Mrp_Proofs
  imports Mrp
begin

text \<open>
  What the MRP layer guarantees: the schedule computes the protocol's formula without overflow, the
  32-bit replay window refuses exactly what a window over unbounded counters refuses, also across
  the wrap of the counter, and a deadline fires after its delay at every phase of the wrapping clock.
\<close>

section \<open>The schedule\<close>

lemma mrp_ratio_exact: "mrp_ratio e (a, b) = (a * 16 ^ e, b * 10 ^ e)"
  by (induction e arbitrary: a b) (simp_all add: algebra_simps)

lemma mrp_exponent_le: "mrp_exponent n \<le> 4"
  by (simp add: mrp_exponent_def Let_def)

definition mrp_formula :: "nat \<Rightarrow> nat \<Rightarrow> nat \<Rightarrow> nat" where
  "mrp_formula base e j = (base * 1127 div 1024 * 16 ^ e div 10 ^ e) * (1024 + j) div 1024"

lemma mrp_formula_ge: "base \<le> mrp_formula base e j"
proof -
  have a: "base \<le> base * 1127 div 1024" by (simp add: less_eq_div_iff_mult_less_eq)
  have "base * 1127 div 1024 * 10 ^ e \<le> base * 1127 div 1024 * 16 ^ e"
    by (intro mult_left_mono power_mono) auto
  then have b: "base * 1127 div 1024 \<le> base * 1127 div 1024 * 16 ^ e div 10 ^ e"
    by (simp add: less_eq_div_iff_mult_less_eq)
  have c: "k \<le> k * (1024 + j) div 1024" for k :: nat
    by (simp add: less_eq_div_iff_mult_less_eq)
  show ?thesis unfolding mrp_formula_def by (rule order_trans [OF a order_trans [OF b c]])
qed

text \<open>No product of the 64-bit computation overflows.\<close>

lemma unat_mult_below: "unat x * unat y < 2 ^ 64 \<Longrightarrow> unat (x * y) = unat x * unat (y::u64)"
  by (simp add: unat_word_ariths)

lemma unat_pow_10_16: "e \<le> 4 \<Longrightarrow> unat (16 ^ e :: u64) = 16 ^ e \<and> unat (10 ^ e :: u64) = 10 ^ e"
proof -
  assume "e \<le> 4"
  then consider "e = 0" | "e = 1" | "e = 2" | "e = 3" | "e = 4" by linarith
  then show ?thesis by cases simp_all
qed

lemma unat_ucast_32_64 [simp]: "unat (ucast (x::u32) :: u64) = unat x"
  using unsigned_less [of x, where 'a = nat] by (simp add: unsigned_ucast_eq take_bit_nat_eq_self)

lemma unat_ucast_8_64 [simp]: "unat (ucast (x::u8) :: u64) = unat x"
  using unsigned_less [of x, where 'a = nat] by (simp add: unsigned_ucast_eq take_bit_nat_eq_self)

lemma unat_u32_less: "unat (x::u32) < 4294967296"
  using unsigned_less [of x, where 'a = nat] by simp

lemma unat_u8_less: "unat (x::u8) < 256"
  using unsigned_less [of x, where 'a = nat] by simp

lemma unat_formula:
  fixes base :: u32 and j :: u8
  assumes e: "e \<le> 4"
  shows "unat (((ucast base * 1127) div 1024 * 16 ^ e) div 10 ^ e * (1024 + ucast j) div 1024 :: u64)
    = mrp_formula (unat base) e (unat j)"
proof -
  define t0 where "t0 = (ucast base * 1127 :: u64) div 1024"
  define t1 where "t1 = t0 * 16 ^ e div 10 ^ e"
  have p: "(16::nat) ^ e \<le> 65536"
    using power_increasing [OF e, of "16::nat"] by simp
  have t0: "unat t0 = unat base * 1127 div 1024"
    using unat_u32_less [of base] by (simp add: t0_def unat_div_distrib unat_mult_below)
  then have b0: "unat t0 < 4726980609" using unat_u32_less [of base] by (simp add: div_less_iff_less_mult)
  have b1: "unat t0 * 16 ^ e < 310000000000000"
    using mult_mono [of "unat t0" 4726980609 "16 ^ e" 65536] b0 p by simp
  have t1: "unat t1 = unat t0 * 16 ^ e div 10 ^ e"
    using b1 unat_pow_10_16 [OF e] by (simp add: t1_def unat_div_distrib unat_mult_below)
  have b1': "unat t1 < 310000000000000" using b1 t1 div_le_dividend [of "unat t0 * 16 ^ e" "10 ^ e"] by linarith
  have u: "unat (1024 + ucast j :: u64) = 1024 + unat j"
    using unat_u8_less [of j] by (simp add: unat_word_ariths)
  have "unat t1 * (1024 + unat j) \<le> 310000000000000 * 1280"
    using b1' unat_u8_less [of j] by (intro mult_mono) auto
  then have "unat (t1 * (1024 + ucast j) div 1024) = unat t1 * (1024 + unat j) div 1024"
    by (simp add: unat_div_distrib unat_mult_below u)
  then show ?thesis by (simp add: mrp_formula_def t1 t0 flip: t0_def t1_def)
qed

lemma unat_min_cap:
  "unat (ucast (if (t::u64) > 0x40000000 then 0x40000000 else t) :: u32) = min 0x40000000 (unat t)"
  by (auto simp: word_less_nat_alt unsigned_ucast_eq take_bit_nat_eq_self)

lemma unat_backoff:
  "unat (matter_mrp_backoff_ms base n j) = min 0x40000000 (mrp_formula (unat base) (mrp_exponent n) (unat j))"
  by (simp add: matter_mrp_backoff_ms_def mrp_ratio_exact Let_def unat_min_cap unat_formula [OF mrp_exponent_le])

lemma unat_delay:
  "unat (mrp_delay base n j) = min 0x40000000 (unat (matter_mrp_backoff_ms base n j) + 1500)"
proof -
  have "unat (ucast (matter_mrp_backoff_ms base n j) + 1500 :: u64) = unat (matter_mrp_backoff_ms base n j) + 1500"
    using unat_u32_less [of "matter_mrp_backoff_ms base n j"] by (simp add: unat_word_ariths)
  then show ?thesis by (auto simp: mrp_delay_def Let_def word_less_nat_alt)
qed

section \<open>The replay window\<close>

text \<open>
  The specification keeps the unbounded counters it has accepted and looks at no word: a counter is
  new when it is above all of them, or at most 32 below the greatest and not among them.
\<close>

definition window_accepts :: "nat list \<Rightarrow> nat \<Rightarrow> bool" where
  "window_accepts acc n =
     (acc = [] \<or> n > Max (set acc) \<or> (Max (set acc) \<le> n + 32 \<and> n \<notin> set acc))"

fun window_run :: "nat list \<Rightarrow> nat list \<Rightarrow> bool list" where
  "window_run acc [] = []"
| "window_run acc (n # ns) =
     (let ok = window_accepts acc n in ok # window_run (if ok then n # acc else acc) ns)"

lemma window_run_accept: "window_accepts acc n \<Longrightarrow> window_run acc (n # ns) = True # window_run (n # acc) ns"
  by simp

lemma window_run_refuse: "\<not> window_accepts acc n \<Longrightarrow> window_run acc (n # ns) = False # window_run acc ns"
  by simp

fun mrp_receives :: "mrp_window \<Rightarrow> u32 list \<Rightarrow> bool list" where
  "mrp_receives w [] = []"
| "mrp_receives w (c # cs) = (let (w', ok) = mrp_receive w c in ok # mrp_receives w' cs)"

definition window_at :: "mrp_window \<Rightarrow> nat \<Rightarrow> nat set \<Rightarrow> bool" where
  "window_at w m S \<longleftrightarrow>
     mw_synced w \<and> mw_max_counter w = of_nat m \<and> m \<in> S \<and> (\<forall>n\<in>S. n \<le> m) \<and>
     (\<forall>i<32. bit (mw_bitmap w) i \<longleftrightarrow> Suc i \<le> m \<and> m - Suc i \<in> S)"

definition window_rel :: "mrp_window \<Rightarrow> nat list \<Rightarrow> bool" where
  "window_rel w acc \<longleftrightarrow> (if acc = [] then \<not> mw_synced w else window_at w (Max (set acc)) (set acc))"

lemma unat_of_nat_below: "k < 4294967296 \<Longrightarrow> unat (of_nat k :: u32) = k"
  by (simp add: unsigned_of_nat take_bit_nat_eq_self)

lemma unat_diff_back: "n \<le> m \<Longrightarrow> m - n < 4294967296 \<Longrightarrow> unat (of_nat m - of_nat n :: u32) = m - n"
  by (simp only: of_nat_diff [symmetric] unat_of_nat_below)

lemma unat_diff_ahead:
  assumes "m < n" "n - m < 4294967296"
  shows "unat (of_nat m - of_nat n :: u32) = 4294967296 - (n - m)"
proof -
  have "of_nat (4294967296 - (n - m)) = (of_nat 4294967296 - (of_nat n - of_nat m) :: u32)"
    using assms by (simp only: of_nat_diff less_imp_le)
  also have "\<dots> = of_nat m - of_nat n" by simp
  finally show ?thesis
    using assms unat_of_nat_below [of "4294967296 - (n - m)"] by (metis diff_less zero_less_diff zero_less_numeral)
qed

text \<open>Both operations, over the natural numbers of the two distances.\<close>

lemma window_check_unat:
  "matter_mrp_window_check w c =
     (if \<not> mw_synced w then MATTER_OK
      else if unat (mw_max_counter w - c) = 0 then MATTER_E_DUP
      else if unat (mw_max_counter w - c) \<le> 32
      then (if bit (mw_bitmap w) (unat (mw_max_counter w - c) - 1) then MATTER_E_DUP else MATTER_OK)
      else if unat (c - mw_max_counter w) \<le> 0x7FFFFFFF then MATTER_OK else MATTER_E_DUP)"
proof -
  have "(b AND push_bit k (1::u32)) \<noteq> 0 \<longleftrightarrow> bit b k" for b :: u32 and k
    by (metis and_exp_eq_0_iff_not_bit push_bit_of_1)
  then show ?thesis
    by (simp add: matter_mrp_window_check_def Let_def word_le_nat_alt unat_minus_one unat_eq_zero del: push_bit_of_1)
qed

lemma window_commit_unat:
  "mw_synced w \<Longrightarrow> c \<noteq> mw_max_counter w \<Longrightarrow>
   matter_mrp_window_commit w c =
     (let b = unat (mw_max_counter w - c); a = unat (c - mw_max_counter w)
      in if b \<le> 32 then w\<lparr>mw_bitmap := mw_bitmap w OR 2 ^ (b - 1)\<rparr>
         else w\<lparr>mw_bitmap := (if a \<ge> 32 then 0 else push_bit a (mw_bitmap w)) OR (if a \<le> 32 then 2 ^ (a - 1) else 0),
                mw_max_counter := c\<rparr>)"
  by (auto simp: matter_mrp_window_commit_def Let_def word_le_nat_alt unat_minus_one)

lemma bit_pow_u32: "bit (2 ^ k :: u32) i \<longleftrightarrow> i = k \<and> k < 32"
  by (auto simp: bit_simps)

lemma window_atD:
  "window_at w m S \<Longrightarrow> mw_synced w"
  "window_at w m S \<Longrightarrow> m \<in> S"
  "window_at w m S \<Longrightarrow> n \<in> S \<Longrightarrow> n \<le> m"
  "window_at w m S \<Longrightarrow> i < 32 \<Longrightarrow> bit (mw_bitmap w) i \<longleftrightarrow> Suc i \<le> m \<and> m - Suc i \<in> S"
  by (auto simp: window_at_def)

lemma window_back:
  "window_at w m S \<Longrightarrow> n \<le> m \<Longrightarrow> m - n < 2 ^ 31 \<Longrightarrow> unat (mw_max_counter w - of_nat n) = m - n"
  "window_at w m S \<Longrightarrow> n < m \<Longrightarrow> m - n < 2 ^ 31 \<Longrightarrow> unat (of_nat n - mw_max_counter w) = 4294967296 - (m - n)"
  using unat_diff_back [of n m] unat_diff_ahead [of n m] by (auto simp: window_at_def)

lemma window_ahead:
  "window_at w m S \<Longrightarrow> m < n \<Longrightarrow> n - m < 2 ^ 31 \<Longrightarrow> unat (mw_max_counter w - of_nat n) = 4294967296 - (n - m)"
  "window_at w m S \<Longrightarrow> m < n \<Longrightarrow> n - m < 2 ^ 31 \<Longrightarrow> unat (of_nat n - mw_max_counter w) = n - m"
  using unat_diff_ahead [of m n] unat_diff_back [of m n] by (auto simp: window_at_def)

text \<open>The check: at the mark and behind it, then ahead of it.\<close>

lemma window_check_behind:
  assumes w: "window_at w m S" and n: "n \<le> m" "m - n < 2 ^ 31"
  shows "matter_mrp_window_check w (of_nat n) = MATTER_OK \<longleftrightarrow> m \<le> n + 32 \<and> n \<notin> S"
proof -
  consider "n = m" | "n < m" "m - n \<le> 32" | "n < m" "m - n > 32" using n(1) by linarith
  then show ?thesis
  proof cases
    case 1
    then show ?thesis using window_back(1) [OF w n] window_atD(1,2) [OF w] by (simp add: window_check_unat)
  next
    case 2
    then show ?thesis using window_back(1) [OF w n] window_atD(1) [OF w] window_atD(4) [OF w, of "m - n - 1"]
      by (auto simp: window_check_unat)
  next
    case 3
    then show ?thesis using window_back(1) [OF w n] window_back(2) [OF w 3(1) n(2)] n(2) window_atD(1) [OF w]
      by (auto simp: window_check_unat)
  qed
qed

lemma window_check_ahead:
  "window_at w m S \<Longrightarrow> m < n \<Longrightarrow> n - m < 2 ^ 31 \<Longrightarrow> matter_mrp_window_check w (of_nat n) = MATTER_OK"
  using window_ahead [of w m S n] by (auto simp: window_check_unat)

text \<open>The commit moves the related state.\<close>

lemma window_commit_behind:
  assumes w: "window_at w m S" and n: "n < m" "m - n \<le> 32"
  shows "window_at (matter_mrp_window_commit w (of_nat n)) m (insert n S)"
proof -
  have b: "unat (mw_max_counter w - of_nat n) = m - n" using window_back(1) [OF w] n by simp
  then have "of_nat n \<noteq> mw_max_counter w" using n by auto
  then have "matter_mrp_window_commit w (of_nat n) = w\<lparr>mw_bitmap := mw_bitmap w OR 2 ^ (m - n - 1)\<rparr>"
    using n b by (simp add: window_commit_unat window_atD(1) [OF w] Let_def)
  then show ?thesis using w n unfolding window_at_def
    by (auto simp: bit_or_iff bit_pow_u32)
qed

lemma window_slide_bit:
  assumes w: "window_at w m S" and n: "m < n" and i: "i < 32"
  shows "bit ((if n - m \<ge> 32 then 0 else push_bit (n - m) (mw_bitmap w)) OR (if n - m \<le> 32 then 2 ^ (n - m - 1) else 0)) i
    \<longleftrightarrow> Suc i \<le> n \<and> n - Suc i \<in> insert n S"
proof -
  have m: "m \<in> S" "n - Suc i \<in> S \<Longrightarrow> n - Suc i \<le> m" using window_atD(2,3) [OF w] by auto
  consider "i < n - m - 1" | "i = n - m - 1" | "n - m \<le> i" using n by linarith
  then show ?thesis
  proof cases
    case 3
    then have "m - Suc (i - (n - m)) = n - Suc i" using n by simp
    then show ?thesis using 3 n i window_atD(4) [OF w, of "i - (n - m)"]
      by (auto simp: bit_or_iff bit_pow_u32 bit_push_bit_iff)
  qed (use m n i in \<open>auto simp: bit_or_iff bit_pow_u32 bit_push_bit_iff\<close>)
qed

lemma window_commit_ahead:
  assumes w: "window_at w m S" and n: "m < n" "n - m < 2 ^ 31"
  shows "window_at (matter_mrp_window_commit w (of_nat n)) n (insert n S)"
proof -
  note a = window_ahead [OF w n]
  have "of_nat n \<noteq> mw_max_counter w" using a n by auto
  then have c: "matter_mrp_window_commit w (of_nat n) =
      w\<lparr>mw_bitmap := (if n - m \<ge> 32 then 0 else push_bit (n - m) (mw_bitmap w)) OR (if n - m \<le> 32 then 2 ^ (n - m - 1) else 0),
        mw_max_counter := of_nat n\<rparr>"
    using a n by (simp add: window_commit_unat window_atD(1) [OF w] Let_def)
  show ?thesis unfolding c window_at_def
    using window_atD(1,3) [OF w] n window_slide_bit [OF w n(1)] by fastforce
qed

lemma window_commit_first:
  "\<not> mw_synced w \<Longrightarrow> window_at (matter_mrp_window_commit w (of_nat n)) n {n}"
  by (auto simp: matter_mrp_window_commit_def window_at_def)

lemma window_step:
  assumes r: "window_rel w acc" and near: "\<forall>k\<in>set (n # acc). b \<le> k \<and> k < b + 2 ^ 31"
  shows "window_accepts acc n = (matter_mrp_window_check w (of_nat n) = MATTER_OK) \<and>
         (window_accepts acc n \<longrightarrow> window_rel (matter_mrp_window_commit w (of_nat n)) (n # acc))"
proof (cases "acc = []")
  case True
  then show ?thesis using r window_commit_first [of w n]
    by (simp add: window_rel_def window_accepts_def window_check_unat)
next
  case False
  define m where "m = Max (set acc)"
  have w: "window_at w m (set acc)" using r False by (simp add: window_rel_def m_def)
  have acc: "window_accepts acc n \<longleftrightarrow> n > m \<or> (m \<le> n + 32 \<and> n \<notin> set acc)"
    using False by (simp only: window_accepts_def flip: m_def) simp
  have Max: "Max (set (n # acc)) = max n m" using False by (simp add: m_def)
  have near': "n - m < 2 ^ 31" "m - n < 2 ^ 31" using near window_atD(2) [OF w] by auto
  show ?thesis
  proof (cases "m < n")
    case True
    then show ?thesis
      using window_check_ahead [OF w True near'(1)] window_commit_ahead [OF w True near'(1)] acc Max
      by (simp add: window_rel_def)
  next
    case behind: False
    have "window_rel (matter_mrp_window_commit w (of_nat n)) (n # acc)" if "m \<le> n + 32" "n \<notin> set acc"
    proof -
      have "n < m" using behind that window_atD(2) [OF w] by (metis linorder_neqE_nat)
      then show ?thesis using window_commit_behind [OF w] that Max by (simp add: window_rel_def)
    qed
    then show ?thesis using window_check_behind [OF w _ near'(2)] behind acc by auto
  qed
qed

lemma window_run_refines:
  "window_rel w acc \<Longrightarrow> \<forall>k\<in>set (ns @ acc). b \<le> k \<and> k < b + 2 ^ 31 \<Longrightarrow>
   mrp_receives w (map of_nat ns) = window_run acc ns"
proof (induction ns arbitrary: w acc)
  case (Cons n ns)
  then show ?case using window_step [of w acc n b] by (auto simp: mrp_receive_def Let_def)
qed simp

lemma window_run_distinct:
  "\<forall>k \<in> set (map snd (filter fst (zip (window_run acc ns) ns))). k \<notin> set acc"
  "distinct (map snd (filter fst (zip (window_run acc ns) ns)))"
proof (induction ns arbitrary: acc)
  case (Cons n ns)
  have new: "window_accepts acc n \<Longrightarrow> n \<notin> set acc" for acc
    by (auto simp: window_accepts_def dest: Max_ge [OF finite_set])
  { case 1 show ?case using new Cons(1) [of "n # acc"] Cons(1) [of acc] by (auto simp: Let_def) }
  { case 2 show ?case using Cons(1,2) [of "n # acc"] Cons(2) [of acc] by (fastforce simp: Let_def) }
qed simp_all



section \<open>Deadlines\<close>

lemma unat_delay_le: "unat (mrp_delay base n j) \<le> 0x40000000"
  by (simp add: unat_delay)

lemma ucast_delay: "unat (ucast (mrp_delay base n j) :: u32) = unat (mrp_delay base n j)"
  using unat_delay_le [of base n j] by (simp add: unsigned_ucast_eq take_bit_nat_eq_self)

lemma mrp_reached_after:
  assumes "e < 2 ^ 30" "unat d \<le> 2 ^ 30"
  shows "mrp_reached (t + of_nat e) (t + d) \<longleftrightarrow> unat d \<le> e"
proof -
  have b: "e < 1073741824" "unat d \<le> 1073741824" using assms by simp_all
  have "t + of_nat e - (t + d) = (word_of_int (int e - int (unat d)) :: u32)" by simp
  moreover have "sint (word_of_int (int e - int (unat d)) :: u32) = int e - int (unat d)"
    unfolding to_i32_def [symmetric] by (rule to_i32_id) (use b in linarith)+
  ultimately have "mrp_elapsed (t + of_nat e) (t + d) = int e - int (unat d)"
    by (simp only: mrp_elapsed_def)
  then show ?thesis by (simp only: mrp_reached_def) linarith
qed

text \<open>
  The backoff is the protocol's formula on natural numbers, capped at 2^30 ms: the 64-bit
  intermediate never overflows for any base interval, send count and jitter byte. It is never
  shorter than the peer's interval (or the cap).
\<close>

theorem mrp_backoff_exact:
  "unat (matter_mrp_backoff_ms base n j) =
     min (2 ^ 30) ((unat base * 1127 div 1024 * 16 ^ min 4 (unat n - 1) div 10 ^ min 4 (unat n - 1)) * (1024 + unat j) div 1024) \<and>
   min (2 ^ 30) (unat base) \<le> unat (matter_mrp_backoff_ms base n j)"
proof -
  have e: "mrp_exponent n = min 4 (unat n - 1)"
    by (auto simp: mrp_exponent_def Let_def unat_eq_zero)
  show ?thesis
    using mrp_formula_ge [of "unat base" "min 4 (unat n - 1)" "unat j"]
    by (auto simp: unat_backoff e) (auto simp: mrp_formula_def)
qed

text \<open>
  A deadline is kept at every phase of the wrapping 32-bit clock. When a message is armed at any
  time \<open>t\<close>, then until its delay has passed a poll asks for nothing on its account, and from then
  on (for the 2^30 ms in which the clock can tell) every poll asks for its retransmission, or gives up once it has been sent five times.
  Arming a second message meanwhile is refused and changes nothing, as does an acknowledgement of another counter.
\<close>

theorem mrp_deadline_exact:
  assumes "\<not> mr_tx_pending m \<or> mr_tx_counter m = c" and "\<not> mr_ack_pending m" and "e < 2 ^ 30"
  shows "(let (m', rc) = matter_mrp_arm m c t j;
              d = unat (mrp_delay (mr_base_ms m) (mr_send_count m') j)
          in rc = MATTER_OK \<and>
             matter_mrp_poll m' (t + of_nat e) =
               (if e < d then (MRP_IDLE, None)
                else if mr_send_count m' < 5 then (MRP_RETRANSMIT, Some c) else (MRP_GIVE_UP, Some c)) \<and>
             (c' \<noteq> c \<longrightarrow> fst (matter_mrp_arm m' c' t' j') = m' \<and> fst (matter_mrp_on_ack m' c') = m') \<and>
             \<not> mr_tx_pending (fst (matter_mrp_on_ack m' c)))"
proof -
  obtain m' rc where arm: "matter_mrp_arm m c t j = (m', rc)" by force
  let ?d = "ucast (mrp_delay (mr_base_ms m) (mr_send_count m') j) :: u32"
  have m': "rc = MATTER_OK" "mr_tx_pending m'" "mr_tx_counter m' = c" "\<not> mr_ack_pending m'" "mr_tx_due_ms m' = t + ?d"
    using arm assms(1,2) by (auto simp: matter_mrp_arm_def Let_def split: if_splits)
  have "unat ?d \<le> 2 ^ 30" unfolding ucast_delay using unat_delay_le by simp
  from mrp_reached_after [OF assms(3) this, of t]
  have due: "mrp_reached (t + of_nat e) (mr_tx_due_ms m') \<longleftrightarrow> \<not> e < unat (mrp_delay (mr_base_ms m) (mr_send_count m') j)"
    by (simp add: m' ucast_delay not_less)
  have "matter_mrp_poll m' (t + of_nat e) =
               (if e < unat (mrp_delay (mr_base_ms m) (mr_send_count m') j) then (MRP_IDLE, None)
                else if mr_send_count m' < 5 then (MRP_RETRANSMIT, Some c) else (MRP_GIVE_UP, Some c))"
    using m'(2-4) by (auto simp: matter_mrp_poll_def due not_le not_less)
  moreover have "c' \<noteq> c \<longrightarrow> fst (matter_mrp_arm m' c' t' j') = m' \<and> fst (matter_mrp_on_ack m' c') = m'"
    "\<not> mr_tx_pending (fst (matter_mrp_on_ack m' c))"
    using m'(2,3) by (auto simp: matter_mrp_arm_def matter_mrp_on_ack_def)
  ultimately show ?thesis using m'(1) unfolding arm Let_def prod.case by blast
qed

theorem mrp_deadline_exact_witness:
  "(let (m', rc) = matter_mrp_arm (matter_mrp_init 300) 7 0xFFFFFF00 0
    in rc = MATTER_OK \<and> matter_mrp_poll m' (0xFFFFFF00 + of_nat 1829) = (MRP_IDLE, None)
       \<and> matter_mrp_poll m' (0xFFFFFF00 + of_nat 1830) = (MRP_RETRANSMIT, Some 7))"
proof -
  have d: "unat (mrp_delay 300 1 0) = 1830" by code_simp
  show ?thesis
    using mrp_deadline_exact [where m = "matter_mrp_init 300" and c = 7 and e = 1829 and t = "0xFFFFFF00" and j = 0]
      mrp_deadline_exact [where m = "matter_mrp_init 300" and c = 7 and e = 1830 and t = "0xFFFFFF00" and j = 0]
    by (simp add: Let_def matter_mrp_init_def matter_mrp_arm_def d del: of_nat_numeral)
qed

section \<open>An unanswered message\<close>

text \<open>
  The sender's loop around the engine (the handshake's retransmission in \<^verbatim>\<open>matter_client.c\<close>): sleep
  until the next deadline, poll, resend and arm again with a fresh jitter byte. The result is how often the
  message was sent and how many milliseconds passed when the engine gave up.
\<close>

definition mrp_wake :: "mrp \<Rightarrow> u32 \<Rightarrow> (mrp_action \<times> u32 option \<times> u32 \<times> nat) option" where
  "mrp_wake m now =
     (case matter_mrp_next_deadline m of None \<Rightarrow> None
      | Some due \<Rightarrow> (case matter_mrp_poll m due of (a, c) \<Rightarrow> Some (a, c, due, unat (due - now))))"

fun mrp_unanswered :: "mrp \<Rightarrow> u32 \<Rightarrow> u8 list \<Rightarrow> nat \<Rightarrow> nat \<Rightarrow> (nat \<times> nat) option" where
  "mrp_unanswered m now [] sent waited =
     (case mrp_wake m now of Some (MRP_GIVE_UP, _, _, w) \<Rightarrow> Some (sent, waited + w) | _ \<Rightarrow> None)"
| "mrp_unanswered m now (j # js) sent waited =
     (case mrp_wake m now of
        Some (MRP_GIVE_UP, _, _, w) \<Rightarrow> Some (sent, waited + w)
      | Some (MRP_RETRANSMIT, Some c, due, w) \<Rightarrow>
          mrp_unanswered (fst (matter_mrp_arm m c due j)) due js (sent + 1) (waited + w)
      | _ \<Rightarrow> None)"

definition mrp_armed :: "mrp \<Rightarrow> u32 \<Rightarrow> u8 \<Rightarrow> u32 \<Rightarrow> u8 \<Rightarrow> bool" where
  "mrp_armed m c n now j \<longleftrightarrow>
     mr_tx_pending m \<and> \<not> mr_ack_pending m \<and> mr_tx_counter m = c \<and> mr_send_count m = n \<and>
     mr_tx_due_ms m = now + ucast (mrp_delay (mr_base_ms m) n j)"

lemma mrp_wake_armed:
  "mrp_armed m c n now j \<Longrightarrow>
   mrp_wake m now =
     Some (if n \<ge> 5 then MRP_GIVE_UP else MRP_RETRANSMIT, Some c, mr_tx_due_ms m, unat (mrp_delay (mr_base_ms m) n j))"
  by (simp add: mrp_wake_def mrp_armed_def matter_mrp_next_deadline_def matter_mrp_poll_def mrp_reached_def
        mrp_elapsed_def ucast_delay)

lemma mrp_armed_arm:
  "mrp_armed m c n now j \<Longrightarrow> n < 0xFF \<Longrightarrow> mrp_armed (fst (matter_mrp_arm m c t j')) c (n + 1) t j'"
  by (simp add: mrp_armed_def matter_mrp_arm_def Let_def)

lemma mrp_arm_base [simp]: "mr_base_ms (fst (matter_mrp_arm m c t j)) = mr_base_ms m"
  by (simp add: matter_mrp_arm_def Let_def)

text \<open>The delays that jitter bytes give, from the \<open>n\<close>-th transmission on.\<close>

fun mrp_waits :: "u32 \<Rightarrow> u8 \<Rightarrow> u8 list \<Rightarrow> nat" where
  "mrp_waits base n [] = 0"
| "mrp_waits base n (j # js) = unat (mrp_delay base n j) + mrp_waits base (n + 1) js"

lemma mrp_unanswered_waits:
  "mrp_armed m c n now j \<Longrightarrow> unat n + length js = 5 \<Longrightarrow>
   mrp_unanswered m now js sent waited = Some (sent + length js, waited + mrp_waits (mr_base_ms m) n (j # js))"
proof (induction js arbitrary: m n now j sent waited)
  case Nil
  then have "5 \<le> n" by (simp add: word_le_nat_alt)
  then show ?case using mrp_wake_armed [OF Nil.prems(1)] by simp
next
  case (Cons j' js)
  have n: "\<not> 5 \<le> n" "n < 0xFF" using Cons.prems(2) by (simp_all add: word_le_nat_alt word_less_nat_alt)
  have "unat (n + 1) = Suc (unat n)" by (rule unat_Suc_if_less [OF n(2)])
  then show ?case
    using Cons.IH [OF mrp_armed_arm [OF Cons.prems(1) n(2)]] Cons.prems(2) mrp_wake_armed [OF Cons.prems(1)] n(1)
    by simp
qed

lemma mrp_delay_jitter_mono: "unat (mrp_delay base n j) \<le> unat (mrp_delay base n 0xFF)"
proof -
  have "unat j \<le> 255" using unat_u8_less [of j] by simp
  then have "mrp_formula (unat base) e (unat j) \<le> mrp_formula (unat base) e 255" for e
    unfolding mrp_formula_def by (intro div_le_mono mult_left_mono) auto
  then show ?thesis by (simp add: unat_delay unat_backoff min_le_iff_disj min.coboundedI2)
qed

lemma mrp_horizon_step:
  assumes "unat h < 0x40000000"
  shows "unat (h + mrp_delay base n 0xFF) = unat h + unat (mrp_delay base n 0xFF)"
  using assms unat_delay_le [of base n "0xFF"] by (simp add: unat_word_ariths)

lemma unat_mrp_horizon:
  "unat h < 0x40000000 \<Longrightarrow>
   unat (mrp_horizon base ns h) = min 0x40000000 (unat h + (\<Sum>n\<leftarrow>ns. unat (mrp_delay base n 0xFF)))"
proof (induction ns arbitrary: h)
  case Nil
  then show ?case by (simp add: unsigned_ucast_eq take_bit_nat_eq_self)
next
  case (Cons n ns)
  show ?case
    using Cons.IH [of "h + mrp_delay base n 0xFF"] Cons.prems
    by (auto simp: Let_def word_le_nat_alt mrp_horizon_step not_le)
qed



end
