(* ===== verification/Trust_Store.thy ===== *)
theory Trust_Store
  imports Prelude
begin

text \<open>
  The reader's identity and its trust store (\<^verbatim>\<open>modules/ultrawidelock_cred/src/ultrawidelock_prov.c\<close>):
  the credential keys that open the door with the fast-path key, the names and the issuer of
  each, the issuer keys, and the blob both are stored as. The store is the source's parallel arrays;
  a row is a slot. The counts are naturals; the operations test them against the
  capacities as the source does. NULL tests are left out.
\<close>

abbreviation READER_ID_LEN :: nat where "READER_ID_LEN \<equiv> 32"
abbreviation READER_PRIV_LEN :: nat where "READER_PRIV_LEN \<equiv> 32"
abbreviation CRED_PUB_LEN :: nat where "CRED_PUB_LEN \<equiv> 65"
abbreviation TRUST_MAX :: nat where "TRUST_MAX \<equiv> 6"
abbreviation ISSUER_MAX :: nat where "ISSUER_MAX \<equiv> 5"
abbreviation GRK_LEN :: nat where "GRK_LEN \<equiv> 16"
abbreviation KPERSISTENT_LEN :: nat where "KPERSISTENT_LEN \<equiv> 32"
abbreviation ANCHOR_ISSUER_NONE :: u8 where "ANCHOR_ISSUER_NONE \<equiv> 0"
abbreviation CRED_INDEX_NONE :: u16 where "CRED_INDEX_NONE \<equiv> 0"
abbreviation USER_INDEX_ALL :: u16 where "USER_INDEX_ALL \<equiv> 0xFFFE"
abbreviation CRED_TYPE_ALIRO_ISSUER :: u8 where "CRED_TYPE_ALIRO_ISSUER \<equiv> 6"

record reader_identity =
  id_reader_id :: bytes
  id_sign_priv :: bytes
  id_grk :: bytes
  id_is_dev :: bool

record trust_store =
  ts_count :: nat
  ts_cred_pub :: "bytes list"
  ts_kp_valid :: u8
  ts_kpersistent :: "bytes list"
  ts_cred_type :: "u8 list"
  ts_cred_index :: "u16 list"
  ts_user_index :: "u16 list"
  ts_anchor_issuer :: "u8 list"
  ts_issuer_count :: nat
  ts_issuer_pub :: "bytes list"
  ts_issuer_cred_index :: "u16 list"
  ts_issuer_user_index :: "u16 list"

definition zero_bytes :: "nat \<Rightarrow> bytes" where
  "zero_bytes n = replicate n 0"

definition ts_empty :: trust_store where
  "ts_empty = \<lparr>ts_count = 0, ts_cred_pub = replicate TRUST_MAX (zero_bytes CRED_PUB_LEN), ts_kp_valid = 0,
     ts_kpersistent = replicate TRUST_MAX (zero_bytes KPERSISTENT_LEN), ts_cred_type = replicate TRUST_MAX 0,
     ts_cred_index = replicate TRUST_MAX 0, ts_user_index = replicate TRUST_MAX 0,
     ts_anchor_issuer = replicate TRUST_MAX 0, ts_issuer_count = 0,
     ts_issuer_pub = replicate ISSUER_MAX (zero_bytes CRED_PUB_LEN), ts_issuer_cred_index = replicate ISSUER_MAX 0,
     ts_issuer_user_index = replicate ISSUER_MAX 0\<rparr>"

definition k_dev_reader_id :: bytes where
  "k_dev_reader_id =
     [0x11, 0x3b, 0x1a, 0x9e, 0xf2, 0x95, 0x67, 0x60, 0x8b, 0x75, 0x00,
      0xfb, 0xac, 0xa6, 0x09, 0xe9, 0xc0, 0x7b, 0x87, 0x4e, 0x18, 0x2a,
      0xe5, 0x65, 0x02, 0x4b, 0x54, 0x3e, 0x3b, 0x40, 0x93, 0x5f]"

definition k_dev_sign_priv :: bytes where
  "k_dev_sign_priv =
     [0x4d, 0x33, 0x21, 0x69, 0xf4, 0x33, 0x9e, 0xef, 0x54, 0x9e, 0xf2,
      0xa6, 0xa9, 0x4b, 0x61, 0x95, 0xa4, 0x2f, 0xc2, 0xaf, 0x8c, 0xcf,
      0xdf, 0xce, 0x35, 0xbd, 0xf9, 0xbe, 0xd8, 0xf3, 0x83, 0xa3]"

definition ultrawidelock_prov_dev_default :: "reader_identity \<times> trust_store" where
  "ultrawidelock_prov_dev_default =
     (\<lparr>id_reader_id = k_dev_reader_id, id_sign_priv = k_dev_sign_priv, id_grk = zero_bytes GRK_LEN, id_is_dev = True\<rparr>, ts_empty)"

section \<open>Bits of the fast-key mask\<close>

definition kp_bit :: "trust_store \<Rightarrow> nat \<Rightarrow> bool" where
  "kp_bit ts i = (ts_kp_valid ts AND push_bit i 1 \<noteq> 0)"

definition kp_set :: "nat \<Rightarrow> u8 \<Rightarrow> u8" where
  "kp_set i m = m OR push_bit i 1"

definition kp_clear :: "nat \<Rightarrow> u8 \<Rightarrow> u8" where
  "kp_clear i m = m AND NOT (push_bit i 1)"

section \<open>Anchors\<close>

definition row_scan :: "(nat \<Rightarrow> bool) \<Rightarrow> nat \<Rightarrow> int" where
  "row_scan P n = (case find P [0..<n] of Some i \<Rightarrow> int i | None \<Rightarrow> -1)"

definition ultrawidelock_prov_trust_find :: "trust_store \<Rightarrow> bytes \<Rightarrow> int" where
  "ultrawidelock_prov_trust_find ts cred_pub = row_scan (\<lambda>i. ts_cred_pub ts ! i = cred_pub) (min (ts_count ts) TRUST_MAX)"

definition ultrawidelock_prov_trust_check :: "trust_store \<Rightarrow> bytes \<Rightarrow> int" where
  "ultrawidelock_prov_trust_check ts cred_pub =
     (if ts_count ts = 0 then 1
      else if \<exists>i\<in>set [0..<min (ts_count ts) TRUST_MAX]. ts_cred_pub ts ! i = cred_pub then 0
      else -1)"

text \<open>Slot \<open>i\<close> takes over everything of slot \<open>i + 1\<close>, its fast-key bit included.\<close>

definition row_copy :: "trust_store \<Rightarrow> nat \<Rightarrow> trust_store" where
  "row_copy ts i =
     ts\<lparr>ts_cred_pub := (ts_cred_pub ts)[i := ts_cred_pub ts ! (i + 1)],
        ts_kpersistent := (ts_kpersistent ts)[i := ts_kpersistent ts ! (i + 1)],
        ts_cred_type := (ts_cred_type ts)[i := ts_cred_type ts ! (i + 1)],
        ts_cred_index := (ts_cred_index ts)[i := ts_cred_index ts ! (i + 1)],
        ts_user_index := (ts_user_index ts)[i := ts_user_index ts ! (i + 1)],
        ts_anchor_issuer := (ts_anchor_issuer ts)[i := ts_anchor_issuer ts ! (i + 1)],
        ts_kp_valid := (if kp_bit ts (i + 1) then kp_set i (ts_kp_valid ts) else kp_clear i (ts_kp_valid ts))\<rparr>"

definition row_zero :: "trust_store \<Rightarrow> nat \<Rightarrow> trust_store" where
  "row_zero ts i =
     ts\<lparr>ts_cred_pub := (ts_cred_pub ts)[i := zero_bytes CRED_PUB_LEN],
        ts_kpersistent := (ts_kpersistent ts)[i := zero_bytes KPERSISTENT_LEN],
        ts_kp_valid := kp_clear i (ts_kp_valid ts),
        ts_cred_type := (ts_cred_type ts)[i := 0],
        ts_cred_index := (ts_cred_index ts)[i := CRED_INDEX_NONE],
        ts_user_index := (ts_user_index ts)[i := CRED_INDEX_NONE],
        ts_anchor_issuer := (ts_anchor_issuer ts)[i := ANCHOR_ISSUER_NONE]\<rparr>"

function rows_shift :: "trust_store \<Rightarrow> nat \<Rightarrow> trust_store" where
  "rows_shift ts i = (if i + 1 < ts_count ts then rows_shift (row_copy ts i) (i + 1) else ts)"
  by pat_completeness auto
termination
  by (relation "measure (\<lambda>(ts, i). ts_count ts - i)") (auto simp: row_copy_def)

declare rows_shift.simps [simp del]

definition ultrawidelock_prov_trust_remove_at :: "trust_store \<Rightarrow> int \<Rightarrow> trust_store \<times> int" where
  "ultrawidelock_prov_trust_remove_at ts idx =
     (if idx < 0 \<or> nat idx \<ge> ts_count ts \<or> ts_count ts > TRUST_MAX then (ts, -1)
      else
        let ts1 = rows_shift ts (nat idx);
            ts2 = ts1\<lparr>ts_count := ts_count ts1 - 1\<rparr>
        in (row_zero ts2 (ts_count ts2), 0))"

definition ultrawidelock_prov_trust_remove :: "trust_store \<Rightarrow> bytes \<Rightarrow> trust_store \<times> int" where
  "ultrawidelock_prov_trust_remove ts cred_pub =
     (let idx = ultrawidelock_prov_trust_find ts cred_pub
      in if idx < 0 then (ts, 1) else ultrawidelock_prov_trust_remove_at ts idx)"

text \<open>The slot a full store gives up: the first that no phone has ever used.\<close>

definition evict_victim :: "trust_store \<Rightarrow> nat" where
  "evict_victim ts = (case find (\<lambda>i. \<not> kp_bit ts i) [0..<TRUST_MAX] of Some i \<Rightarrow> i | None \<Rightarrow> 0)"

definition row_new :: "trust_store \<Rightarrow> bytes \<Rightarrow> trust_store" where
  "row_new ts cred_pub =
     (let n = ts_count ts
      in ts\<lparr>ts_cred_pub := (ts_cred_pub ts)[n := cred_pub],
            ts_kp_valid := kp_clear n (ts_kp_valid ts),
            ts_kpersistent := (ts_kpersistent ts)[n := zero_bytes KPERSISTENT_LEN],
            ts_cred_type := (ts_cred_type ts)[n := 0],
            ts_cred_index := (ts_cred_index ts)[n := CRED_INDEX_NONE],
            ts_user_index := (ts_user_index ts)[n := CRED_INDEX_NONE],
            ts_anchor_issuer := (ts_anchor_issuer ts)[n := ANCHOR_ISSUER_NONE],
            ts_count := n + 1\<rparr>)"

definition ultrawidelock_prov_trust_add :: "trust_store \<Rightarrow> bytes \<Rightarrow> trust_store \<times> int" where
  "ultrawidelock_prov_trust_add ts cred_pub =
     (if cred_pub ! 0 \<noteq> 0x04 then (ts, -1)
      else if ultrawidelock_prov_trust_check ts cred_pub = 0 then (ts, 1)
      else if ts_count ts \<ge> TRUST_MAX
      then (case ultrawidelock_prov_trust_remove_at ts (int (evict_victim ts)) of
              (ts1, rc) \<Rightarrow> if rc \<noteq> 0 then (ts1, -1) else (row_new ts1 cred_pub, 2))
      else (row_new ts cred_pub, 0))"

definition ultrawidelock_prov_cred_bind_set :: "trust_store \<Rightarrow> int \<Rightarrow> u8 \<Rightarrow> u16 \<Rightarrow> u16 \<Rightarrow> trust_store \<times> int" where
  "ultrawidelock_prov_cred_bind_set ts idx cred_type cred_index user_index =
     (if idx < 0 \<or> nat idx \<ge> ts_count ts then (ts, -1)
      else (ts\<lparr>ts_cred_type := (ts_cred_type ts)[nat idx := cred_type],
               ts_cred_index := (ts_cred_index ts)[nat idx := cred_index],
               ts_user_index := (ts_user_index ts)[nat idx := user_index]\<rparr>, 0))"

definition ultrawidelock_prov_find_cred_index :: "trust_store \<Rightarrow> u8 \<Rightarrow> u16 \<Rightarrow> int" where
  "ultrawidelock_prov_find_cred_index ts cred_type cred_index =
     (if cred_type = 0 \<or> cred_index = CRED_INDEX_NONE then -1
      else row_scan (\<lambda>i. ts_cred_type ts ! i = cred_type \<and> ts_cred_index ts ! i = cred_index) (min (ts_count ts) TRUST_MAX))"

definition ultrawidelock_prov_kpersistent_set :: "trust_store \<Rightarrow> int \<Rightarrow> bytes \<Rightarrow> trust_store \<times> int" where
  "ultrawidelock_prov_kpersistent_set ts idx kp =
     (if idx < 0 \<or> nat idx \<ge> ts_count ts then (ts, -1)
      else (ts\<lparr>ts_kpersistent := (ts_kpersistent ts)[nat idx := kp], ts_kp_valid := kp_set (nat idx) (ts_kp_valid ts)\<rparr>, 0))"

definition ultrawidelock_prov_free_cred_index :: "trust_store \<Rightarrow> u8 \<Rightarrow> u16" where
  "ultrawidelock_prov_free_cred_index ts cred_type =
     (case find (\<lambda>index. ultrawidelock_prov_find_cred_index ts cred_type index < 0) [1, 2, 3, 4, 5, 6] of
        Some index \<Rightarrow> index | None \<Rightarrow> 0)"

section \<open>Issuers\<close>

definition ultrawidelock_prov_issuer_find :: "trust_store \<Rightarrow> bytes \<Rightarrow> int" where
  "ultrawidelock_prov_issuer_find ts pub = row_scan (\<lambda>i. ts_issuer_pub ts ! i = pub) (min (ts_issuer_count ts) ISSUER_MAX)"

definition ultrawidelock_prov_issuer_find_index :: "trust_store \<Rightarrow> u16 \<Rightarrow> int" where
  "ultrawidelock_prov_issuer_find_index ts cred_index =
     (if cred_index = CRED_INDEX_NONE then -1
      else row_scan (\<lambda>i. ts_issuer_cred_index ts ! i = cred_index) (min (ts_issuer_count ts) ISSUER_MAX))"

definition ultrawidelock_prov_issuer_add :: "trust_store \<Rightarrow> bytes \<Rightarrow> u16 \<Rightarrow> u16 \<Rightarrow> trust_store \<times> int" where
  "ultrawidelock_prov_issuer_add ts pub cred_index user_index =
     (if pub ! 0 \<noteq> 0x04 then (ts, -1)
      else
        let slot = ultrawidelock_prov_issuer_find ts pub; n = ts_issuer_count ts
        in if slot \<ge> 0
           then (ts\<lparr>ts_issuer_cred_index := (ts_issuer_cred_index ts)[nat slot := cred_index],
                    ts_issuer_user_index := (ts_issuer_user_index ts)[nat slot := user_index]\<rparr>, 1)
           else if n \<ge> ISSUER_MAX then (ts, -1)
           else (ts\<lparr>ts_issuer_pub := (ts_issuer_pub ts)[n := pub],
                    ts_issuer_cred_index := (ts_issuer_cred_index ts)[n := cred_index],
                    ts_issuer_user_index := (ts_issuer_user_index ts)[n := user_index],
                    ts_issuer_count := n + 1\<rparr>, 0))"

text \<open>The downward loop over the anchors: slots \<open>i - 1\<close> to \<open>0\<close> are still to be visited.\<close>

fun issuer_drop :: "u8 \<Rightarrow> nat \<Rightarrow> trust_store \<times> int \<Rightarrow> trust_store \<times> int" where
  "issuer_drop bound 0 (ts, dropped) = (ts, dropped)"
| "issuer_drop bound (Suc i) (ts, dropped) =
     (let a = ts_anchor_issuer ts ! i
      in if a = bound then issuer_drop bound i (fst (ultrawidelock_prov_trust_remove_at ts (int i)), dropped + 1)
         else if a > bound then issuer_drop bound i (ts\<lparr>ts_anchor_issuer := (ts_anchor_issuer ts)[i := a - 1]\<rparr>, dropped)
         else issuer_drop bound i (ts, dropped))"

definition issuer_copy :: "trust_store \<Rightarrow> nat \<Rightarrow> trust_store" where
  "issuer_copy ts i =
     ts\<lparr>ts_issuer_pub := (ts_issuer_pub ts)[i := ts_issuer_pub ts ! (i + 1)],
        ts_issuer_cred_index := (ts_issuer_cred_index ts)[i := ts_issuer_cred_index ts ! (i + 1)],
        ts_issuer_user_index := (ts_issuer_user_index ts)[i := ts_issuer_user_index ts ! (i + 1)]\<rparr>"

function issuers_shift :: "trust_store \<Rightarrow> nat \<Rightarrow> trust_store" where
  "issuers_shift ts i = (if i + 1 < ts_issuer_count ts then issuers_shift (issuer_copy ts i) (i + 1) else ts)"
  by pat_completeness auto
termination
  by (relation "measure (\<lambda>(ts, i). ts_issuer_count ts - i)") (auto simp: issuer_copy_def)

declare issuers_shift.simps [simp del]

definition ultrawidelock_prov_issuer_remove_at :: "trust_store \<Rightarrow> int \<Rightarrow> trust_store \<times> int" where
  "ultrawidelock_prov_issuer_remove_at ts idx =
     (if idx < 0 \<or> nat idx \<ge> ts_issuer_count ts \<or> ts_issuer_count ts > ISSUER_MAX then (ts, -1)
      else
        let (ts1, dropped) = issuer_drop (of_int (idx + 1)) (ts_count ts) (ts, 0);
            ts2 = issuers_shift ts1 (nat idx);
            n = ts_issuer_count ts2 - 1
        in (ts2\<lparr>ts_issuer_count := n,
                ts_issuer_pub := (ts_issuer_pub ts2)[n := zero_bytes CRED_PUB_LEN],
                ts_issuer_cred_index := (ts_issuer_cred_index ts2)[n := CRED_INDEX_NONE],
                ts_issuer_user_index := (ts_issuer_user_index ts2)[n := CRED_INDEX_NONE]\<rparr>, dropped))"

definition ultrawidelock_prov_anchor_issuer_set :: "trust_store \<Rightarrow> int \<Rightarrow> int \<Rightarrow> trust_store \<times> int" where
  "ultrawidelock_prov_anchor_issuer_set ts idx issuer_slot =
     (if idx < 0 \<or> nat idx \<ge> ts_count ts \<or> issuer_slot < 0 \<or> nat issuer_slot \<ge> ts_issuer_count ts then (ts, -1)
      else (ts\<lparr>ts_anchor_issuer := (ts_anchor_issuer ts)[nat idx := of_int (issuer_slot + 1)]\<rparr>, 0))"

definition ultrawidelock_prov_anchor_issuer :: "trust_store \<Rightarrow> int \<Rightarrow> int" where
  "ultrawidelock_prov_anchor_issuer ts idx =
     (if idx < 0 \<or> nat idx \<ge> ts_count ts \<or> ts_anchor_issuer ts ! nat idx = ANCHOR_ISSUER_NONE then -1
      else uint (ts_anchor_issuer ts ! nat idx) - 1)"

end
