(* ===== verification/Trust_Store_Proofs.thy ===== *)
theory Trust_Store_Proofs
  imports Trust_Store
begin

text \<open>
  The parallel arrays of the trust store behave like a list of anchors and a list of issuers: the
  specification at the end keeps the key, the fast-path key, the names and the vouching issuer of an anchor
  in one record, and every sequence of operations on the arrays is shown to refine it.
\<close>

section \<open>Rows\<close>

record row =
  r_pub :: bytes
  r_has_kp :: bool
  r_kp :: bytes
  r_type :: u8
  r_cred :: u16
  r_user :: u16
  r_issuer :: u8

definition row_at :: "trust_store \<Rightarrow> nat \<Rightarrow> row" where
  "row_at ts i = \<lparr>r_pub = ts_cred_pub ts ! i, r_has_kp = bit (ts_kp_valid ts) i, r_kp = ts_kpersistent ts ! i,
     r_type = ts_cred_type ts ! i, r_cred = ts_cred_index ts ! i, r_user = ts_user_index ts ! i,
     r_issuer = ts_anchor_issuer ts ! i\<rparr>"

definition blank_row :: row where
  "blank_row = \<lparr>r_pub = zero_bytes CRED_PUB_LEN, r_has_kp = False, r_kp = zero_bytes KPERSISTENT_LEN, r_type = 0,
     r_cred = 0, r_user = 0, r_issuer = 0\<rparr>"

record irow =
  i_pub :: bytes
  i_cred :: u16
  i_user :: u16

definition irow_at :: "trust_store \<Rightarrow> nat \<Rightarrow> irow" where
  "irow_at ts i = \<lparr>i_pub = ts_issuer_pub ts ! i, i_cred = ts_issuer_cred_index ts ! i, i_user = ts_issuer_user_index ts ! i\<rparr>"

definition blank_irow :: irow where
  "blank_irow = \<lparr>i_pub = zero_bytes CRED_PUB_LEN, i_cred = 0, i_user = 0\<rparr>"

definition ts_sized :: "trust_store \<Rightarrow> bool" where
  "ts_sized ts \<longleftrightarrow> length (ts_cred_pub ts) = TRUST_MAX \<and> length (ts_kpersistent ts) = TRUST_MAX \<and>
     length (ts_cred_type ts) = TRUST_MAX \<and> length (ts_cred_index ts) = TRUST_MAX \<and>
     length (ts_user_index ts) = TRUST_MAX \<and> length (ts_anchor_issuer ts) = TRUST_MAX \<and>
     length (ts_issuer_pub ts) = ISSUER_MAX \<and> length (ts_issuer_cred_index ts) = ISSUER_MAX \<and>
     length (ts_issuer_user_index ts) = ISSUER_MAX"

lemma bit_pow_u8: "bit (2 ^ k :: u8) i \<longleftrightarrow> i = k \<and> k < 8"
  by (auto simp: bit_simps)

lemma kp_bit_iff [simp]: "kp_bit ts i \<longleftrightarrow> bit (ts_kp_valid ts) i"
  by (simp add: kp_bit_def and_exp_eq_0_iff_not_bit)

lemma bit_kp_set [simp]: "i < 8 \<Longrightarrow> bit (kp_set i m) j \<longleftrightarrow> j = i \<or> bit m j"
  by (auto simp: kp_set_def bit_or_iff bit_pow_u8)

lemma bit_kp_clear [simp]: "i < 8 \<Longrightarrow> bit (kp_clear i m) j \<longleftrightarrow> j \<noteq> i \<and> bit m j"
  by (auto simp: kp_clear_def bit_and_iff bit_not_iff bit_pow_u8 not_bit_beyond)
     (drule bit_imp_le_length, simp)

lemma ts_sized_row_ops [simp]:
  "ts_sized (row_copy ts i) = ts_sized ts" "ts_sized (row_zero ts i) = ts_sized ts"
  "ts_sized (row_new ts p) = ts_sized ts" "ts_sized (ts\<lparr>ts_count := n\<rparr>) = ts_sized ts"
  "ts_sized (issuer_copy ts i) = ts_sized ts"
  by (simp_all add: ts_sized_def row_copy_def row_zero_def row_new_def issuer_copy_def Let_def)

lemma row_at_count [simp]: "row_at (ts\<lparr>ts_count := n\<rparr>) i = row_at ts i"
  by (simp add: row_at_def)

lemma row_at_copy: "ts_sized ts \<Longrightarrow> i < TRUST_MAX \<Longrightarrow> row_at (row_copy ts i) j = (if j = i then row_at ts (i + 1) else row_at ts j)"
  by (auto simp: row_at_def row_copy_def ts_sized_def)

lemma row_at_zero: "ts_sized ts \<Longrightarrow> i < TRUST_MAX \<Longrightarrow> row_at (row_zero ts i) j = (if j = i then blank_row else row_at ts j)"
  by (auto simp: row_at_def row_zero_def blank_row_def ts_sized_def)

lemma row_at_new:
  "ts_sized ts \<Longrightarrow> ts_count ts < TRUST_MAX \<Longrightarrow>
   row_at (row_new ts p) j = (if j = ts_count ts then blank_row\<lparr>r_pub := p\<rparr> else row_at ts j)"
  by (auto simp: row_at_def row_new_def blank_row_def ts_sized_def Let_def)

lemma row_ops_count [simp]:
  "ts_count (row_copy ts i) = ts_count ts" "ts_count (row_zero ts i) = ts_count ts" "ts_count (row_new ts p) = ts_count ts + 1"
  by (simp_all add: row_copy_def row_zero_def row_new_def Let_def)

text \<open>What the operations on anchors leave alone.\<close>

definition issuer_part :: "trust_store \<Rightarrow> nat \<times> bytes list \<times> u16 list \<times> u16 list" where
  "issuer_part ts = (ts_issuer_count ts, ts_issuer_pub ts, ts_issuer_cred_index ts, ts_issuer_user_index ts)"

definition anchor_part where
  "anchor_part ts = (ts_count ts, ts_cred_pub ts, ts_kp_valid ts, ts_kpersistent ts, ts_cred_type ts, ts_cred_index ts,
     ts_user_index ts, ts_anchor_issuer ts)"

lemma row_ops_issuers [simp]:
  "issuer_part (row_copy ts i) = issuer_part ts" "issuer_part (row_zero ts i) = issuer_part ts"
  "issuer_part (row_new ts p) = issuer_part ts" "issuer_part (ts\<lparr>ts_count := n\<rparr>) = issuer_part ts"
  by (simp_all add: issuer_part_def row_copy_def row_zero_def row_new_def Let_def)

section \<open>Closing a gap\<close>

lemma rows_shift_spec:
  "ts_sized ts \<Longrightarrow> ts_count ts \<le> TRUST_MAX \<Longrightarrow>
   ts_sized (rows_shift ts i) \<and> ts_count (rows_shift ts i) = ts_count ts \<and> issuer_part (rows_shift ts i) = issuer_part ts \<and>
   row_at (rows_shift ts i) j = (if i \<le> j \<and> j + 1 < ts_count ts then row_at ts (j + 1) else row_at ts j)"
proof (induction ts i rule: rows_shift.induct)
  case (1 ts i)
  show ?case
  proof (cases "i + 1 < ts_count ts")
    case True
    then have "i < TRUST_MAX" using 1(3) by simp
    with True show ?thesis
      using 1(1) [OF True] 1(2,3) by (subst (1 2 3 4) rows_shift.simps) (auto simp: row_at_copy)
  next
    case False
    then show ?thesis using 1(2) by (subst (1 2 3 4) rows_shift.simps) auto
  qed
qed

definition rows :: "trust_store \<Rightarrow> row list" where
  "rows ts = map (row_at ts) [0..<ts_count ts]"

definition irows :: "trust_store \<Rightarrow> irow list" where
  "irows ts = map (irow_at ts) [0..<ts_issuer_count ts]"

definition del_nth :: "nat \<Rightarrow> 'a list \<Rightarrow> 'a list" where
  "del_nth i xs = take i xs @ drop (Suc i) xs"

lemma length_del_nth [simp]: "i < length xs \<Longrightarrow> length (del_nth i xs) = length xs - 1"
  by (simp add: del_nth_def)

lemma nth_del_nth: "i < length xs \<Longrightarrow> j < length xs - 1 \<Longrightarrow> del_nth i xs ! j = (if j < i then xs ! j else xs ! Suc j)"
  by (auto simp: del_nth_def nth_append)

section \<open>Well-formed stores\<close>

text \<open>Unused rows are blank, an anchor without a fast-path key holds no key bytes, issuers are distinct.\<close>

definition row_ok :: "nat \<Rightarrow> row \<Rightarrow> bool" where
  "row_ok n r \<longleftrightarrow> length (r_pub r) = CRED_PUB_LEN \<and> length (r_kp r) = KPERSISTENT_LEN \<and>
     (\<not> r_has_kp r \<longrightarrow> r_kp r = zero_bytes KPERSISTENT_LEN) \<and> unat (r_issuer r) \<le> n"

definition issuers_ok :: "trust_store \<Rightarrow> bool" where
  "issuers_ok ts \<longleftrightarrow> ts_issuer_count ts \<le> ISSUER_MAX \<and>
     (\<forall>i\<in>{ts_issuer_count ts..<ISSUER_MAX}. irow_at ts i = blank_irow) \<and>
     (\<forall>r\<in>set (irows ts). length (i_pub r) = CRED_PUB_LEN) \<and> distinct (map i_pub (irows ts))"

definition ts_clean :: "trust_store \<Rightarrow> bool" where
  "ts_clean ts \<longleftrightarrow> ts_sized ts \<and> ts_count ts \<le> TRUST_MAX \<and> issuers_ok ts \<and>
     (\<forall>i<TRUST_MAX. row_ok (ts_issuer_count ts) (row_at ts i)) \<and>
     (\<forall>i\<in>{ts_count ts..<TRUST_MAX}. row_at ts i = blank_row) \<and> (\<forall>i\<ge>TRUST_MAX. \<not> r_has_kp (row_at ts i))"

lemma row_ok_blank [simp]: "row_ok n blank_row" "length p = CRED_PUB_LEN \<Longrightarrow> row_ok n (blank_row\<lparr>r_pub := p\<rparr>)"
  by (simp_all add: row_ok_def blank_row_def zero_bytes_def)

lemma same_issuers:
  assumes "issuer_part ts' = issuer_part ts"
  shows "ts_issuer_count ts' = ts_issuer_count ts" "irow_at ts' = irow_at ts" "irows ts' = irows ts" "issuers_ok ts' = issuers_ok ts"
proof -
  show n: "ts_issuer_count ts' = ts_issuer_count ts" and i: "irow_at ts' = irow_at ts"
    using assms by (auto simp: issuer_part_def irow_at_def)
  show r: "irows ts' = irows ts" by (simp add: irows_def n i)
  show "issuers_ok ts' = issuers_ok ts" by (simp add: issuers_ok_def n i r)
qed

lemma ts_cleanI:
  assumes "ts_clean ts" "issuer_part ts' = issuer_part ts" "ts_sized ts'" "ts_count ts' \<le> TRUST_MAX"
    "\<And>i. i < TRUST_MAX \<Longrightarrow> row_ok (ts_issuer_count ts) (row_at ts' i)"
    "\<And>i. ts_count ts' \<le> i \<Longrightarrow> i < TRUST_MAX \<Longrightarrow> row_at ts' i = blank_row" "\<And>i. TRUST_MAX \<le> i \<Longrightarrow> \<not> r_has_kp (row_at ts' i)"
  shows "ts_clean ts'"
  using assms(1,3-) same_issuers [OF assms(2)] by (auto simp: ts_clean_def)

lemma ts_cleanD:
  assumes "ts_clean ts"
  shows "ts_sized ts" "ts_count ts \<le> TRUST_MAX" "i < TRUST_MAX \<Longrightarrow> row_ok (ts_issuer_count ts) (row_at ts i)"
    "ts_count ts \<le> i \<Longrightarrow> i < TRUST_MAX \<Longrightarrow> row_at ts i = blank_row" "TRUST_MAX \<le> i \<Longrightarrow> \<not> r_has_kp (row_at ts i)"
    "ts_issuer_count ts \<le> ISSUER_MAX"
  using assms by (auto simp: ts_clean_def issuers_ok_def)

lemma length_rows [simp]: "length (rows ts) = ts_count ts"
  by (simp add: rows_def)

lemma nth_rows [simp]: "i < ts_count ts \<Longrightarrow> rows ts ! i = row_at ts i"
  by (simp add: rows_def)

lemma rows_bound: "ts_clean ts \<Longrightarrow> r \<in> set (rows ts) \<Longrightarrow> unat (r_issuer r) \<le> ts_issuer_count ts"
  using ts_cleanD(2,3) [of ts] by (auto simp: in_set_conv_nth row_ok_def)

section \<open>Removing and adding anchors\<close>

lemma remove_at_spec:
  assumes c: "ts_clean ts" and i: "i < ts_count ts"
  shows "ts_clean (fst (ultrawidelock_prov_trust_remove_at ts (int i))) \<and> snd (ultrawidelock_prov_trust_remove_at ts (int i)) = 0 \<and>
         issuer_part (fst (ultrawidelock_prov_trust_remove_at ts (int i))) = issuer_part ts \<and>
         rows (fst (ultrawidelock_prov_trust_remove_at ts (int i))) = del_nth i (rows ts)"
proof -
  note d = ts_cleanD [OF c]
  let ?n = "ts_count ts - 1"
  let ?ts = "fst (ultrawidelock_prov_trust_remove_at ts (int i))"
  note sh = rows_shift_spec [OF d(1,2), where i = i]
  have n: "?n < TRUST_MAX" using i d(2) by simp
  have ts: "?ts = row_zero ((rows_shift ts i)\<lparr>ts_count := ?n\<rparr>) ?n" "snd (ultrawidelock_prov_trust_remove_at ts (int i)) = 0"
    using i d(2) sh by (auto simp: ultrawidelock_prov_trust_remove_at_def Let_def)
  have r: "row_at ?ts j = (if j = ?n then blank_row else if i \<le> j \<and> j + 1 < ts_count ts then row_at ts (j + 1) else row_at ts j)" for j
    using sh n by (simp add: ts row_at_zero)
  have iss: "issuer_part ?ts = issuer_part ts" and sz: "ts_sized ?ts" and ct: "ts_count ?ts = ?n"
    using sh by (simp_all add: ts)
  have "ts_clean ?ts"
    by (rule ts_cleanI [OF c iss sz]) (use d i in \<open>auto simp: ct r\<close>)
  moreover have "rows ?ts = del_nth i (rows ts)"
    by (rule nth_equalityI) (use i in \<open>auto simp: ct r nth_del_nth\<close>)
  ultimately show ?thesis using iss ts(2) by simp
qed

lemma trust_find_rows:
  "ts_clean ts \<Longrightarrow> ultrawidelock_prov_trust_find ts p = (case find (\<lambda>i. r_pub (rows ts ! i) = p) [0..<length (rows ts)] of
     Some i \<Rightarrow> int i | None \<Rightarrow> -1)"
proof -
  assume "ts_clean ts"
  then have "ts_count ts \<le> TRUST_MAX" by (rule ts_cleanD)
  moreover have "find (\<lambda>i. ts_cred_pub ts ! i = p) [0..<ts_count ts] = find (\<lambda>i. r_pub (rows ts ! i) = p) [0..<ts_count ts]"
    by (rule find_cong) (auto simp: row_at_def)
  ultimately show ?thesis by (simp add: ultrawidelock_prov_trust_find_def row_scan_def min_absorb1)
qed

lemma trust_check_rows:
  "ts_clean ts \<Longrightarrow> ultrawidelock_prov_trust_check ts p = (if rows ts = [] then 1 else if p \<in> r_pub ` set (rows ts) then 0 else -1)"
proof -
  assume "ts_clean ts"
  then have "ts_count ts \<le> TRUST_MAX" by (rule ts_cleanD)
  then show ?thesis
    by (auto simp: ultrawidelock_prov_trust_check_def rows_def row_at_def image_image)
qed

lemma row_new_spec:
  assumes c: "ts_clean ts" and n: "ts_count ts < TRUST_MAX" and p: "length p = CRED_PUB_LEN"
  shows "ts_clean (row_new ts p) \<and> issuer_part (row_new ts p) = issuer_part ts \<and> rows (row_new ts p) = rows ts @ [blank_row\<lparr>r_pub := p\<rparr>]"
proof -
  note d = ts_cleanD [OF c]
  have r: "row_at (row_new ts p) j = (if j = ts_count ts then blank_row\<lparr>r_pub := p\<rparr> else row_at ts j)" for j
    by (rule row_at_new [OF d(1) n])
  have "ts_clean (row_new ts p)"
    by (rule ts_cleanI [OF c]) (use d n p in \<open>auto simp: r\<close>)
  moreover have "rows (row_new ts p) = rows ts @ [blank_row\<lparr>r_pub := p\<rparr>]"
    by (rule nth_equalityI) (auto simp: r nth_append less_Suc_eq)
  ultimately show ?thesis by simp
qed

lemma evict_victim_less: "evict_victim ts < TRUST_MAX"
  by (auto simp: evict_victim_def find_Some_iff split: option.splits)

lemma evict_victim_rows:
  "ts_count ts = TRUST_MAX \<Longrightarrow>
   evict_victim ts = (case find (\<lambda>i. \<not> r_has_kp (rows ts ! i)) [0..<TRUST_MAX] of Some i \<Rightarrow> i | None \<Rightarrow> 0)"
proof -
  assume n: "ts_count ts = TRUST_MAX"
  have "find (\<lambda>i. \<not> kp_bit ts i) [0..<TRUST_MAX] = find (\<lambda>i. \<not> r_has_kp (rows ts ! i)) [0..<TRUST_MAX]"
    by (rule find_cong) (use n in \<open>auto simp: row_at_def\<close>)
  then show ?thesis by (simp add: evict_victim_def)
qed

lemma trust_add_spec:
  assumes c: "ts_clean ts" and p: "length p = CRED_PUB_LEN"
  shows "ts_clean (fst (ultrawidelock_prov_trust_add ts p)) \<and> issuer_part (fst (ultrawidelock_prov_trust_add ts p)) = issuer_part ts \<and>
    (rows (fst (ultrawidelock_prov_trust_add ts p)), snd (ultrawidelock_prov_trust_add ts p)) =
      (if p ! 0 \<noteq> 0x04 then (rows ts, -1)
       else if p \<in> r_pub ` set (rows ts) then (rows ts, 1)
       else if length (rows ts) = TRUST_MAX
       then (del_nth (case find (\<lambda>i. \<not> r_has_kp (rows ts ! i)) [0..<TRUST_MAX] of Some i \<Rightarrow> i | None \<Rightarrow> 0) (rows ts)
               @ [blank_row\<lparr>r_pub := p\<rparr>], 2)
       else (rows ts @ [blank_row\<lparr>r_pub := p\<rparr>], 0))"
proof -
  note d = ts_cleanD [OF c]
  have chk: "ultrawidelock_prov_trust_check ts p = 0 \<longleftrightarrow> p \<in> r_pub ` set (rows ts)"
    by (auto simp: trust_check_rows [OF c])
  show ?thesis
  proof (cases "p ! 0 = 0x04 \<and> p \<notin> r_pub ` set (rows ts)")
    case False
    then show ?thesis using c chk by (auto simp: ultrawidelock_prov_trust_add_def)
  next
    case new: True
    show ?thesis
    proof (cases "ts_count ts = TRUST_MAX")
      case True
      let ?v = "evict_victim ts"
      let ?t = "fst (ultrawidelock_prov_trust_remove_at ts (int ?v))"
      have "?v < ts_count ts" using evict_victim_less [of ts] True by simp
      note rm = remove_at_spec [OF c this]
      then have n: "ts_count ?t < TRUST_MAX" using True evict_victim_less [of ts] length_rows [of ?t] by simp
      have "ultrawidelock_prov_trust_add ts p = (row_new ?t p, 2)"
        using new True rm chk by (simp add: ultrawidelock_prov_trust_add_def case_prod_beta)
      then show ?thesis
        using new True rm row_new_spec [of ?t p] n p by (simp add: evict_victim_rows)
    next
      case False
      then show ?thesis using new chk row_new_spec [OF c _ p] d(2) by (simp add: ultrawidelock_prov_trust_add_def)
    qed
  qed
qed

lemma row_edit_spec:
  assumes c: "ts_clean ts" and i: "i < ts_count ts" and t: "issuer_part ts' = issuer_part ts" "ts_sized ts'" "ts_count ts' = ts_count ts"
    and r: "\<And>j. row_at ts' j = (if j = i then r else row_at ts j)" and ok: "row_ok (ts_issuer_count ts) r"
  shows "ts_clean ts' \<and> rows ts' = (rows ts)[i := r]"
proof -
  note d = ts_cleanD [OF c]
  have "ts_clean ts'" by (rule ts_cleanI [OF c t(1,2)]) (use d i ok t(3) in \<open>auto simp: r\<close>)
  moreover have "rows ts' = (rows ts)[i := r]"
    by (rule nth_equalityI) (use i t(3) in \<open>auto simp: r nth_list_update\<close>)
  ultimately show ?thesis by simp
qed

lemma bind_set_spec:
  assumes c: "ts_clean ts" and i: "i < ts_count ts"
  shows "ts_clean (fst (ultrawidelock_prov_cred_bind_set ts (int i) ty ci ui)) \<and>
    issuer_part (fst (ultrawidelock_prov_cred_bind_set ts (int i) ty ci ui)) = issuer_part ts \<and>
    rows (fst (ultrawidelock_prov_cred_bind_set ts (int i) ty ci ui)) = (rows ts)[i := (rows ts ! i)\<lparr>r_type := ty, r_cred := ci, r_user := ui\<rparr>]"
proof -
  note d = ts_cleanD [OF c]
  have i6: "i < TRUST_MAX" using i d(2) by simp
  let ?t = "fst (ultrawidelock_prov_cred_bind_set ts (int i) ty ci ui)"
  have p: "issuer_part ?t = issuer_part ts" "ts_sized ?t" "ts_count ?t = ts_count ts"
    using d(1) i by (simp_all add: ultrawidelock_prov_cred_bind_set_def issuer_part_def ts_sized_def)
  have "row_at ?t j = (if j = i then (row_at ts i)\<lparr>r_type := ty, r_cred := ci, r_user := ui\<rparr> else row_at ts j)" for j
    using d(1) i i6 by (auto simp: ultrawidelock_prov_cred_bind_set_def row_at_def ts_sized_def)
  from row_edit_spec [OF c i p this] show ?thesis
    using d(3) [OF i6] p i by (simp add: row_ok_def)
qed

lemma kpersistent_set_spec:
  assumes c: "ts_clean ts" and i: "i < ts_count ts" and k: "length kp = KPERSISTENT_LEN"
  shows "ts_clean (fst (ultrawidelock_prov_kpersistent_set ts (int i) kp)) \<and>
    issuer_part (fst (ultrawidelock_prov_kpersistent_set ts (int i) kp)) = issuer_part ts \<and>
    rows (fst (ultrawidelock_prov_kpersistent_set ts (int i) kp)) = (rows ts)[i := (rows ts ! i)\<lparr>r_has_kp := True, r_kp := kp\<rparr>]"
proof -
  note d = ts_cleanD [OF c]
  have i6: "i < TRUST_MAX" using i d(2) by simp
  let ?t = "fst (ultrawidelock_prov_kpersistent_set ts (int i) kp)"
  have p: "issuer_part ?t = issuer_part ts" "ts_sized ?t" "ts_count ?t = ts_count ts"
    using d(1) i by (simp_all add: ultrawidelock_prov_kpersistent_set_def issuer_part_def ts_sized_def)
  have "row_at ?t j = (if j = i then (row_at ts i)\<lparr>r_has_kp := True, r_kp := kp\<rparr> else row_at ts j)" for j
    using d(1) i i6 by (auto simp: ultrawidelock_prov_kpersistent_set_def row_at_def ts_sized_def)
  from row_edit_spec [OF c i p this] show ?thesis
    using d(3) [OF i6] p i k by (simp add: row_ok_def)
qed

lemma set_issuer_spec:
  assumes c: "ts_clean ts" and i: "i < ts_count ts" and a: "unat a \<le> ts_issuer_count ts"
  shows "ts_clean (ts\<lparr>ts_anchor_issuer := (ts_anchor_issuer ts)[i := a]\<rparr>) \<and>
    issuer_part (ts\<lparr>ts_anchor_issuer := (ts_anchor_issuer ts)[i := a]\<rparr>) = issuer_part ts \<and>
    rows (ts\<lparr>ts_anchor_issuer := (ts_anchor_issuer ts)[i := a]\<rparr>) = (rows ts)[i := (rows ts ! i)\<lparr>r_issuer := a\<rparr>]"
proof -
  note d = ts_cleanD [OF c]
  have i6: "i < TRUST_MAX" using i d(2) by simp
  let ?t = "ts\<lparr>ts_anchor_issuer := (ts_anchor_issuer ts)[i := a]\<rparr>"
  have p: "issuer_part ?t = issuer_part ts" "ts_sized ?t" "ts_count ?t = ts_count ts"
    using d(1) by (simp_all add: issuer_part_def ts_sized_def)
  have "row_at ?t j = (if j = i then (row_at ts i)\<lparr>r_issuer := a\<rparr> else row_at ts j)" for j
    using d(1) i6 by (auto simp: row_at_def ts_sized_def)
  from row_edit_spec [OF c i p this] show ?thesis
    using d(3) [OF i6] p i a by (simp add: row_ok_def)
qed

section \<open>Issuers\<close>

lemma irow_at_copy: "ts_sized ts \<Longrightarrow> i < ISSUER_MAX \<Longrightarrow> irow_at (issuer_copy ts i) j = (if j = i then irow_at ts (i + 1) else irow_at ts j)"
  by (auto simp: irow_at_def issuer_copy_def ts_sized_def)

lemma issuer_copy_same [simp]:
  "ts_issuer_count (issuer_copy ts i) = ts_issuer_count ts" "anchor_part (issuer_copy ts i) = anchor_part ts"
  by (simp_all add: issuer_copy_def anchor_part_def)

lemma issuers_shift_spec:
  "ts_sized ts \<Longrightarrow> ts_issuer_count ts \<le> ISSUER_MAX \<Longrightarrow>
   ts_sized (issuers_shift ts i) \<and> ts_issuer_count (issuers_shift ts i) = ts_issuer_count ts \<and>
   anchor_part (issuers_shift ts i) = anchor_part ts \<and>
   irow_at (issuers_shift ts i) j = (if i \<le> j \<and> j + 1 < ts_issuer_count ts then irow_at ts (j + 1) else irow_at ts j)"
proof (induction ts i rule: issuers_shift.induct)
  case (1 ts i)
  show ?case
  proof (cases "i + 1 < ts_issuer_count ts")
    case True
    then have "i < ISSUER_MAX" using 1(3) by simp
    with True show ?thesis
      using 1(1) [OF True] 1(2,3) by (subst (1 2 3 4) issuers_shift.simps) (auto simp: irow_at_copy)
  next
    case False
    then show ?thesis using 1(2) by (subst (1 2 3 4) issuers_shift.simps) auto
  qed
qed

lemma same_anchors:
  assumes "anchor_part ts' = anchor_part ts"
  shows "ts_count ts' = ts_count ts" "row_at ts' = row_at ts" "rows ts' = rows ts"
proof -
  show n: "ts_count ts' = ts_count ts" and i: "row_at ts' = row_at ts"
    using assms by (auto simp: anchor_part_def row_at_def)
  show "rows ts' = rows ts" by (simp add: rows_def n i)
qed

text \<open>The downward loop drops the rows of one issuer and renumbers those of later ones.\<close>

definition renumber :: "u8 \<Rightarrow> row \<Rightarrow> row" where
  "renumber b r = (if r_issuer r > b then r\<lparr>r_issuer := r_issuer r - 1\<rparr> else r)"

lemma del_nth_split: "i < length xs \<Longrightarrow> take i (del_nth i xs) = take i xs \<and> drop i (del_nth i xs) = drop (Suc i) xs"
  by (simp add: del_nth_def)

lemma issuer_drop_spec:
  "ts_clean ts \<Longrightarrow> i \<le> ts_count ts \<Longrightarrow>
   ts_clean (fst (issuer_drop b i (ts, d))) \<and> issuer_part (fst (issuer_drop b i (ts, d))) = issuer_part ts \<and>
   rows (fst (issuer_drop b i (ts, d))) = map (renumber b) (filter (\<lambda>r. r_issuer r \<noteq> b) (take i (rows ts))) @ drop i (rows ts) \<and>
   snd (issuer_drop b i (ts, d)) = d + int (length (filter (\<lambda>r. r_issuer r = b) (take i (rows ts))))"
proof (induction i arbitrary: ts d)
  case (Suc i)
  note c = Suc.prems(1)
  have i: "i < ts_count ts" using Suc.prems(2) by simp
  have a: "ts_anchor_issuer ts ! i = r_issuer (rows ts ! i)" using i by (simp add: row_at_def)
  have tk: "take (Suc i) (rows ts) = take i (rows ts) @ [rows ts ! i]" using i by (simp add: take_Suc_conv_app_nth)
  have dr: "drop i (rows ts) = rows ts ! i # drop (Suc i) (rows ts)" using i by (metis Cons_nth_drop_Suc length_rows)
  consider (eq) "r_issuer (rows ts ! i) = b" | (gt) "r_issuer (rows ts ! i) > b" | (lt) "r_issuer (rows ts ! i) < b"
    by (metis linorder_neqE)
  then show ?case
  proof cases
    case eq
    let ?t = "fst (ultrawidelock_prov_trust_remove_at ts (int i))"
    note rm = remove_at_spec [OF c i]
    then have n: "ts_count ?t = ts_count ts - 1" using i length_rows [of ?t] by simp
    show ?thesis
      using Suc.IH [of ?t "d + 1"] rm n i eq del_nth_split [of i "rows ts"]
      by (simp add: a tk)
  next
    case gt
    let ?t = "ts\<lparr>ts_anchor_issuer := (ts_anchor_issuer ts)[i := r_issuer (rows ts ! i) - 1]\<rparr>"
    have "unat (r_issuer (rows ts ! i) - 1) \<le> ts_issuer_count ts"
      using ts_cleanD(3) [OF c, of i] i ts_cleanD(2) [OF c] gt
      by (subst unat_minus_one) (auto simp: row_ok_def)
    note st = set_issuer_spec [OF c i this]
    then have "ts_count ?t = ts_count ts" by simp
    moreover have "drop i ((rows ts)[i := x]) = x # drop (Suc i) (rows ts)" for x
      using dr by (simp add: drop_update_swap)
    moreover have "r_issuer (rows ts ! i) \<noteq> b" using gt by auto
    ultimately show ?thesis
      using Suc.IH [of ?t d] st i gt by (simp add: a tk Let_def renumber_def del: nth_rows)
  next
    case lt
    then show ?thesis using Suc.IH [of ts d] c i by (auto simp: a tk dr Let_def renumber_def)
  qed
qed simp

lemma length_irows [simp]: "length (irows ts) = ts_issuer_count ts"
  by (simp add: irows_def)

lemma nth_irows [simp]: "i < ts_issuer_count ts \<Longrightarrow> irows ts ! i = irow_at ts i"
  by (simp add: irows_def)

lemma irow_clear:
  "ts_sized ts \<Longrightarrow> n < ISSUER_MAX \<Longrightarrow>
   irow_at (ts\<lparr>ts_issuer_count := k, ts_issuer_pub := (ts_issuer_pub ts)[n := zero_bytes CRED_PUB_LEN],
     ts_issuer_cred_index := (ts_issuer_cred_index ts)[n := 0], ts_issuer_user_index := (ts_issuer_user_index ts)[n := 0]\<rparr>) j
   = (if j = n then blank_irow else irow_at ts j)"
  by (auto simp: irow_at_def blank_irow_def ts_sized_def)

text \<open>Rebuilding the invariant after the issuers have changed.\<close>

lemma ts_clean_issuers:
  assumes c: "ts_clean ts" and a: "anchor_part ts' = anchor_part ts" "ts_sized ts'" and i: "issuers_ok ts'"
    and b: "\<forall>r\<in>set (rows ts). unat (r_issuer r) \<le> ts_issuer_count ts'"
  shows "ts_clean ts'"
proof -
  note d = ts_cleanD [OF c] and s = same_anchors [OF a(1)]
  have "row_ok (ts_issuer_count ts') (row_at ts k)" if "k < TRUST_MAX" for k
  proof (cases "k < ts_count ts")
    case True
    then have "unat (r_issuer (row_at ts k)) \<le> ts_issuer_count ts'" using b by (metis length_rows nth_mem nth_rows)
    then show ?thesis using d(3) [OF that] by (simp add: row_ok_def)
  next
    case False
    then show ?thesis using d(4) [of k] that by simp
  qed
  then show ?thesis using d i a(2) by (simp add: ts_clean_def s)
qed

lemma unat_bound: "i < ISSUER_MAX \<Longrightarrow> unat (of_int (int i + 1) :: u8) = Suc i"
proof -
  assume "i < ISSUER_MAX"
  then have "i = 0 \<or> i = 1 \<or> i = 2 \<or> i = 3 \<or> i = 4" by presburger
  then show ?thesis by auto
qed

lemma issuer_remove_at_spec:
  assumes c: "ts_clean ts" and i: "i < ts_issuer_count ts"
  defines "b \<equiv> of_int (int i + 1) :: u8" and "t \<equiv> fst (ultrawidelock_prov_issuer_remove_at ts (int i))"
  shows "ts_clean t \<and> irows t = del_nth i (irows ts) \<and>
         rows t = map (renumber b) (filter (\<lambda>r. r_issuer r \<noteq> b) (rows ts)) \<and>
         snd (ultrawidelock_prov_issuer_remove_at ts (int i)) = int (length (filter (\<lambda>r. r_issuer r = b) (rows ts)))"
proof -
  note d = ts_cleanD [OF c]
  have i5: "i < ISSUER_MAX" using i d(6) by simp
  have ub: "unat b = Suc i" unfolding b_def by (rule unat_bound [OF i5])
  let ?n = "ts_issuer_count ts - 1"
  obtain ts1 k where dr: "issuer_drop b (ts_count ts) (ts, 0) = (ts1, k)" by force
  have s1: "ts_clean ts1" "issuer_part ts1 = issuer_part ts" "rows ts1 = map (renumber b) (filter (\<lambda>r. r_issuer r \<noteq> b) (rows ts))"
    "k = int (length (filter (\<lambda>r. r_issuer r = b) (rows ts)))"
    using issuer_drop_spec [OF c, of "ts_count ts" b 0] by (simp_all add: dr)
  note d1 = ts_cleanD [OF s1(1)] and e1 = same_issuers [OF s1(2)]
  note sh = issuers_shift_spec [OF d1(1), where i = i, unfolded e1(1), OF d(6)]
  let ?t2 = "issuers_shift ts1 i"
  have t: "t = ?t2\<lparr>ts_issuer_count := ?n, ts_issuer_pub := (ts_issuer_pub ?t2)[?n := zero_bytes CRED_PUB_LEN],
      ts_issuer_cred_index := (ts_issuer_cred_index ?t2)[?n := 0], ts_issuer_user_index := (ts_issuer_user_index ?t2)[?n := 0]\<rparr>"
    and rc: "snd (ultrawidelock_prov_issuer_remove_at ts (int i)) = k"
    using i d(6) dr sh e1(1) by (simp_all add: ultrawidelock_prov_issuer_remove_at_def t_def b_def Let_def)
  have n5: "?n < ISSUER_MAX" using i d(6) by simp
  have r: "irow_at t j = (if j = ?n then blank_irow else if i \<le> j \<and> j + 1 < ts_issuer_count ts then irow_at ts (j + 1) else irow_at ts j)" for j
    using sh n5 by (simp add: t irow_clear e1(2))
  have ap: "anchor_part t = anchor_part ts1" using sh by (simp add: t anchor_part_def)
  have sz: "ts_sized t" using sh by (simp add: t ts_sized_def)
  have ct: "ts_issuer_count t = ?n" by (simp add: t)
  have ir: "irows t = del_nth i (irows ts)"
    by (rule nth_equalityI) (use i in \<open>auto simp: ct r nth_del_nth\<close>)
  have io: "issuers_ok ts" using c by (simp add: ts_clean_def)
  have dm: "map i_pub (del_nth i (irows ts)) = del_nth i (map i_pub (irows ts))"
    by (simp add: del_nth_def take_map drop_map)
  have "distinct (del_nth i (map i_pub (irows ts)))"
    unfolding del_nth_def using io i
    by (auto simp: issuers_ok_def intro!: set_take_disj_set_drop_if_distinct)
  moreover have "set (del_nth i (irows ts)) \<subseteq> set (irows ts)"
    by (auto simp: del_nth_def dest: in_set_takeD in_set_dropD)
  ultimately have "issuers_ok t"
    using io d(6) i by (auto simp: issuers_ok_def ir dm ct r)
  moreover have "unat (r_issuer (renumber b x)) \<le> ?n" if "x \<in> set (rows ts)" "r_issuer x \<noteq> b" for x
  proof -
    have ux: "unat (r_issuer x) \<le> ts_issuer_count ts" by (rule rows_bound [OF c that(1)])
    have nb: "unat (r_issuer x) \<noteq> Suc i" using that(2) ub by (metis unsigned_word_eqI)
    show ?thesis
    proof (cases "r_issuer x > b")
      case True
      then have "unat (r_issuer x - 1) = unat (r_issuer x) - 1" by (intro unat_minus_one) auto
      then show ?thesis using True ux by (simp add: renumber_def)
    next
      case False
      then have "unat (r_issuer x) \<le> i" using nb ub by (simp add: word_less_nat_alt)
      then show ?thesis using False i by (simp add: renumber_def)
    qed
  qed
  ultimately have "ts_clean t"
    by (intro ts_clean_issuers [OF s1(1) ap sz]) (auto simp: ct s1(3))
  then show ?thesis using ir same_anchors(3) [OF ap] s1(3,4) rc by simp
qed

lemma row_scan_find:
  "row_scan P n = (case find P [0..<n] of Some i \<Rightarrow> int i | None \<Rightarrow> -1)" "row_scan P n < int n"
  by (auto simp: row_scan_def find_Some_iff split: option.splits)

lemma row_scan_cong: "(\<And>i. i < n \<Longrightarrow> P i = Q i) \<Longrightarrow> row_scan P n = row_scan Q n"
proof -
  assume "\<And>i. i < n \<Longrightarrow> P i = Q i"
  then have "find P [0..<n] = find Q [0..<n]" by (intro find_cong) auto
  then show ?thesis by (simp add: row_scan_def)
qed

lemma issuer_find_rows:
  "ts_clean ts \<Longrightarrow> ultrawidelock_prov_issuer_find ts p = row_scan (\<lambda>i. i_pub (irows ts ! i) = p) (length (irows ts))"
  using ts_cleanD(6) [of ts]
  by (auto simp: ultrawidelock_prov_issuer_find_def min_absorb1 irow_at_def intro!: row_scan_cong)

lemma issuer_add_spec:
  fixes ci ui :: u16
  assumes c: "ts_clean ts" and p: "length p = CRED_PUB_LEN"
  defines "t \<equiv> fst (ultrawidelock_prov_issuer_add ts p ci ui)" and "k \<equiv> row_scan (\<lambda>i. i_pub (irows ts ! i) = p) (length (irows ts))"
  shows "ts_clean t \<and> rows t = rows ts \<and> (irows t, snd (ultrawidelock_prov_issuer_add ts p ci ui)) =
    (if p ! 0 \<noteq> 0x04 then (irows ts, -1)
     else if k \<ge> 0 then ((irows ts)[nat k := (irows ts ! nat k)\<lparr>i_cred := ci, i_user := ui\<rparr>], 1)
     else if length (irows ts) \<ge> ISSUER_MAX then (irows ts, -1)
     else (irows ts @ [\<lparr>i_pub = p, i_cred = ci, i_user = ui\<rparr>], 0))"
proof -
  note d = ts_cleanD [OF c]
  have io: "issuers_ok ts" using c by (simp add: ts_clean_def)
  have kf: "ultrawidelock_prov_issuer_find ts p = k" by (simp add: k_def issuer_find_rows [OF c])
  consider (bad) "p ! 0 \<noteq> 0x04 \<or> (k < 0 \<and> ts_issuer_count ts \<ge> ISSUER_MAX)" | (old) "p ! 0 = 0x04" "k \<ge> 0"
    | (new) "p ! 0 = 0x04" "k < 0" "ts_issuer_count ts < ISSUER_MAX" by linarith
  then show ?thesis
  proof cases
    case bad
    then show ?thesis using c kf by (auto simp: ultrawidelock_prov_issuer_add_def t_def Let_def)
  next
    case old
    have kn: "nat k < ts_issuer_count ts" using old row_scan_find(2) [of _ "length (irows ts)"] by (simp add: k_def nat_less_iff)
    have t: "t = ts\<lparr>ts_issuer_cred_index := (ts_issuer_cred_index ts)[nat k := ci], ts_issuer_user_index := (ts_issuer_user_index ts)[nat k := ui]\<rparr>"
      and rc: "snd (ultrawidelock_prov_issuer_add ts p ci ui) = 1"
      using old kf by (simp_all add: ultrawidelock_prov_issuer_add_def t_def Let_def)
    have ap: "anchor_part t = anchor_part ts" and sz: "ts_sized t" and ct: "ts_issuer_count t = ts_issuer_count ts"
      using d(1) by (simp_all add: t anchor_part_def ts_sized_def)
    have r: "irow_at t j = (if j = nat k then (irow_at ts j)\<lparr>i_cred := ci, i_user := ui\<rparr> else irow_at ts j)" for j
      using kn d(1,6) by (auto simp: t irow_at_def ts_sized_def)
    have ir: "irows t = (irows ts)[nat k := (irows ts ! nat k)\<lparr>i_cred := ci, i_user := ui\<rparr>]"
      by (rule nth_equalityI) (use kn in \<open>auto simp: ct r nth_list_update\<close>)
    have mp: "map i_pub (irows t) = map i_pub (irows ts)"
      by (rule nth_equalityI) (use ct in \<open>auto simp: r\<close>)
    then have "\<forall>x\<in>i_pub ` set (irows t). length x = CRED_PUB_LEN"
      using io by (metis (no_types, lifting) image_iff issuers_ok_def list.set_map)
    then have "issuers_ok t" using io mp kn by (simp add: issuers_ok_def ct r)
    then have "ts_clean t"
      by (intro ts_clean_issuers [OF c ap sz]) (use rows_bound [OF c] in \<open>auto simp: ct\<close>)
    then show ?thesis using ir rc old same_anchors(3) [OF ap] by simp
  next
    case new
    let ?n = "ts_issuer_count ts"
    have t: "t = ts\<lparr>ts_issuer_pub := (ts_issuer_pub ts)[?n := p], ts_issuer_cred_index := (ts_issuer_cred_index ts)[?n := ci],
        ts_issuer_user_index := (ts_issuer_user_index ts)[?n := ui], ts_issuer_count := ?n + 1\<rparr>"
      and rc: "snd (ultrawidelock_prov_issuer_add ts p ci ui) = 0"
      using new kf by (simp_all add: ultrawidelock_prov_issuer_add_def t_def Let_def)
    have ap: "anchor_part t = anchor_part ts" and sz: "ts_sized t" and ct: "ts_issuer_count t = ?n + 1"
      using d(1) by (simp_all add: t anchor_part_def ts_sized_def)
    have r: "irow_at t j = (if j = ?n then \<lparr>i_pub = p, i_cred = ci, i_user = ui\<rparr> else irow_at ts j)" for j
      using new d(1) by (auto simp: t irow_at_def ts_sized_def)
    have ir: "irows t = irows ts @ [\<lparr>i_pub = p, i_cred = ci, i_user = ui\<rparr>]"
      by (rule nth_equalityI) (auto simp: ct r nth_append less_Suc_eq)
    have "find (\<lambda>i. i_pub (irows ts ! i) = p) [0..<?n] = None"
      using new(2) by (auto simp: k_def row_scan_def split: option.splits)
    then have "p \<notin> i_pub ` set (irows ts)" by (auto simp: find_None_iff in_set_conv_nth) blast
    then have "issuers_ok t" using io new(3) p by (auto simp: issuers_ok_def ct r ir)
    then have "ts_clean t"
      by (intro ts_clean_issuers [OF c ap sz]) (use rows_bound [OF c] in \<open>auto simp: ct intro: le_SucI\<close>)
    then show ?thesis using ir rc new same_anchors(3) [OF ap] by simp
  qed
qed

section \<open>The specification\<close>

record anchor =
  an_pub :: bytes
  an_kp :: "bytes option"
  an_type :: u8
  an_cred :: u16
  an_user :: u16
  an_issuer :: "bytes option" \<comment> \<open>the key of the issuer that vouched for it\<close>

record anchors =
  st_anchors :: "anchor list"
  st_issuers :: "irow list"

definition fresh_anchor :: "bytes \<Rightarrow> anchor" where
  "fresh_anchor p = \<lparr>an_pub = p, an_kp = None, an_type = 0, an_cred = 0, an_user = 0, an_issuer = None\<rparr>"

definition anchor_of :: "irow list \<Rightarrow> row \<Rightarrow> anchor" where
  "anchor_of is r = \<lparr>an_pub = r_pub r, an_kp = (if r_has_kp r then Some (r_kp r) else None), an_type = r_type r,
     an_cred = r_cred r, an_user = r_user r,
     an_issuer = (if r_issuer r = 0 then None else Some (i_pub (is ! (unat (r_issuer r) - 1))))\<rparr>"

definition abs_store :: "trust_store \<Rightarrow> anchors" where
  "abs_store ts = \<lparr>st_anchors = map (anchor_of (irows ts)) (rows ts), st_issuers = irows ts\<rparr>"

definition list_index :: "('a \<Rightarrow> bool) \<Rightarrow> 'a list \<Rightarrow> int" where
  "list_index P xs = row_scan (\<lambda>i. P (xs ! i)) (length xs)"

datatype ts_op =
    Trust_Add bytes | Trust_Remove_At int | Trust_Remove bytes | Cred_Bind int u8 u16 u16 | Kp_Set int bytes
  | Issuer_Add bytes u16 u16 | Issuer_Remove_At int | Anchor_Issuer_Set int int

fun ts_op_ok :: "ts_op \<Rightarrow> bool" where
  "ts_op_ok (Trust_Add p) = (length p = CRED_PUB_LEN)"
| "ts_op_ok (Kp_Set _ k) = (length k = KPERSISTENT_LEN)"
| "ts_op_ok (Issuer_Add p _ _) = (length p = CRED_PUB_LEN)"
| "ts_op_ok _ = True"

fun ts_step :: "trust_store \<Rightarrow> ts_op \<Rightarrow> trust_store \<times> int" where
  "ts_step ts (Trust_Add p) = ultrawidelock_prov_trust_add ts p"
| "ts_step ts (Trust_Remove_At i) = ultrawidelock_prov_trust_remove_at ts i"
| "ts_step ts (Trust_Remove p) = ultrawidelock_prov_trust_remove ts p"
| "ts_step ts (Cred_Bind i t c u) = ultrawidelock_prov_cred_bind_set ts i t c u"
| "ts_step ts (Kp_Set i k) = ultrawidelock_prov_kpersistent_set ts i k"
| "ts_step ts (Issuer_Add p c u) = ultrawidelock_prov_issuer_add ts p c u"
| "ts_step ts (Issuer_Remove_At i) = ultrawidelock_prov_issuer_remove_at ts i"
| "ts_step ts (Anchor_Issuer_Set i j) = ultrawidelock_prov_anchor_issuer_set ts i j"

definition spec_remove :: "anchors \<Rightarrow> int \<Rightarrow> anchors \<times> int" where
  "spec_remove st i =
     (if i < 0 \<or> i \<ge> int (length (st_anchors st)) then (st, -1)
      else (st\<lparr>st_anchors := del_nth (nat i) (st_anchors st)\<rparr>, 0))"

definition spec_edit :: "anchors \<Rightarrow> int \<Rightarrow> (anchor \<Rightarrow> anchor) \<Rightarrow> anchors \<times> int" where
  "spec_edit st i f =
     (if i < 0 \<or> i \<ge> int (length (st_anchors st)) then (st, -1)
      else (st\<lparr>st_anchors := (st_anchors st)[nat i := f (st_anchors st ! nat i)]\<rparr>, 0))"

definition spec_victim :: "anchor list \<Rightarrow> nat" where
  "spec_victim as = (let i = list_index (\<lambda>a. an_kp a = None) as in if i < 0 then 0 else nat i)"

fun spec_step :: "anchors \<Rightarrow> ts_op \<Rightarrow> anchors \<times> int" where
  "spec_step st (Trust_Add p) =
     (if p ! 0 \<noteq> 0x04 then (st, -1)
      else if p \<in> an_pub ` set (st_anchors st) then (st, 1)
      else if length (st_anchors st) = TRUST_MAX
      then (st\<lparr>st_anchors := del_nth (spec_victim (st_anchors st)) (st_anchors st) @ [fresh_anchor p]\<rparr>, 2)
      else (st\<lparr>st_anchors := st_anchors st @ [fresh_anchor p]\<rparr>, 0))"
| "spec_step st (Trust_Remove_At i) = spec_remove st i"
| "spec_step st (Trust_Remove p) =
     (let i = list_index (\<lambda>a. an_pub a = p) (st_anchors st) in if i < 0 then (st, 1) else spec_remove st i)"
| "spec_step st (Cred_Bind i t c u) = spec_edit st i (\<lambda>a. a\<lparr>an_type := t, an_cred := c, an_user := u\<rparr>)"
| "spec_step st (Kp_Set i k) = spec_edit st i (\<lambda>a. a\<lparr>an_kp := Some k\<rparr>)"
| "spec_step st (Issuer_Add p c u) =
     (let i = list_index (\<lambda>r. i_pub r = p) (st_issuers st)
      in if p ! 0 \<noteq> 0x04 then (st, -1)
         else if i \<ge> 0 then (st\<lparr>st_issuers := (st_issuers st)[nat i := (st_issuers st ! nat i)\<lparr>i_cred := c, i_user := u\<rparr>]\<rparr>, 1)
         else if length (st_issuers st) \<ge> ISSUER_MAX then (st, -1)
         else (st\<lparr>st_issuers := st_issuers st @ [\<lparr>i_pub = p, i_cred = c, i_user = u\<rparr>]\<rparr>, 0))"
| "spec_step st (Issuer_Remove_At i) =
     (if i < 0 \<or> i \<ge> int (length (st_issuers st)) then (st, -1)
      else
        let mine = (\<lambda>a. an_issuer a = Some (i_pub (st_issuers st ! nat i)))
        in (st\<lparr>st_anchors := filter (\<lambda>a. \<not> mine a) (st_anchors st), st_issuers := del_nth (nat i) (st_issuers st)\<rparr>,
            int (length (filter mine (st_anchors st)))))"
| "spec_step st (Anchor_Issuer_Set i j) =
     (if j < 0 \<or> j \<ge> int (length (st_issuers st)) then (st, -1)
      else spec_edit st i (\<lambda>a. a\<lparr>an_issuer := Some (i_pub (st_issuers st ! nat j))\<rparr>))"

section \<open>The refinement\<close>

lemma abs_sizes [simp]:
  "length (st_anchors (abs_store ts)) = ts_count ts" "length (st_issuers (abs_store ts)) = ts_issuer_count ts"
  "st_issuers (abs_store ts) = irows ts"
  by (simp_all add: abs_store_def)

lemma abs_pubs [simp]: "an_pub ` set (st_anchors (abs_store ts)) = r_pub ` set (rows ts)"
  by (simp add: abs_store_def image_image anchor_of_def)

lemma abs_storeI:
  "rows t = rs \<Longrightarrow> irows t = is \<Longrightarrow> abs_store t = \<lparr>st_anchors = map (anchor_of is) rs, st_issuers = is\<rparr>"
  by (simp add: abs_store_def)

lemma map_del_nth: "map f (del_nth i xs) = del_nth i (map f xs)"
  by (simp add: del_nth_def take_map drop_map)

lemma anchor_of_fresh: "anchor_of is (blank_row\<lparr>r_pub := p\<rparr>) = fresh_anchor p"
  by (simp add: anchor_of_def blank_row_def fresh_anchor_def)

lemma spec_remove_abs:
  assumes "ts_clean ts"
  shows "ts_clean (fst (ultrawidelock_prov_trust_remove_at ts i)) \<and>
         (abs_store (fst (ultrawidelock_prov_trust_remove_at ts i)), snd (ultrawidelock_prov_trust_remove_at ts i)) = spec_remove (abs_store ts) i"
proof (cases "0 \<le> i \<and> i < int (ts_count ts)")
  case True
  then obtain k where k: "i = int k" "k < ts_count ts" by (metis nonneg_int_cases of_nat_less_iff)
  show ?thesis
    using remove_at_spec [OF assms k(2)] k same_issuers(3) [of "fst (ultrawidelock_prov_trust_remove_at ts (int k))" ts]
    by (simp add: spec_remove_def abs_store_def map_del_nth)
next
  case False
  then show ?thesis using assms by (auto simp: spec_remove_def ultrawidelock_prov_trust_remove_at_def)
qed

lemma spec_edit_abs:
  assumes "k < ts_count ts" "rows t = (rows ts)[k := r]" "irows t = irows ts" "anchor_of (irows ts) r = f (anchor_of (irows ts) (rows ts ! k))"
  shows "(abs_store t, 0) = spec_edit (abs_store ts) (int k) f"
  using assms by (simp add: spec_edit_def abs_store_def map_update del: nth_rows)

lemma spec_edit_out: "\<not> (0 \<le> i \<and> i < int (ts_count ts)) \<Longrightarrow> spec_edit (abs_store ts) i f = (abs_store ts, -1)"
  by (auto simp: spec_edit_def)

lemma nonneg_int_less: "0 \<le> i \<Longrightarrow> i < int n \<Longrightarrow> (\<And>k. i = int k \<Longrightarrow> k < n \<Longrightarrow> thesis) \<Longrightarrow> thesis"
  by (metis nonneg_int_cases of_nat_less_iff)

lemma list_index_map: "list_index P (map f xs) = list_index (P \<circ> f) xs"
  unfolding list_index_def by (auto intro!: row_scan_cong)

lemma list_index_cong: "(\<And>x. x \<in> set xs \<Longrightarrow> P x = Q x) \<Longrightarrow> list_index P xs = list_index Q xs"
  unfolding list_index_def by (auto intro!: row_scan_cong)

lemma abs_add:
  assumes c: "ts_clean ts" and p: "length p = CRED_PUB_LEN"
  shows "ts_clean (fst (ts_step ts (Trust_Add p))) \<and>
         (abs_store (fst (ts_step ts (Trust_Add p))), snd (ts_step ts (Trust_Add p))) = spec_step (abs_store ts) (Trust_Add p)"
proof -
  have "list_index (\<lambda>a. an_kp a = None) (st_anchors (abs_store ts)) = row_scan (\<lambda>i. \<not> r_has_kp (rows ts ! i)) (length (rows ts))"
    unfolding list_index_def by (auto simp: abs_store_def anchor_of_def intro!: row_scan_cong)
  then have v: "spec_victim (map (anchor_of (irows ts)) (rows ts)) =
      (case find (\<lambda>i. \<not> r_has_kp (rows ts ! i)) [0..<length (rows ts)] of Some i \<Rightarrow> i | None \<Rightarrow> 0)"
    by (auto simp: abs_store_def spec_victim_def row_scan_def Let_def split: option.splits)
  have pubs: "an_pub ` anchor_of (irows ts) ` set (rows ts) = r_pub ` set (rows ts)"
    by (simp add: image_image anchor_of_def)
  let ?t = "ultrawidelock_prov_trust_add ts p"
  note sp = trust_add_spec [OF c p]
  then have ir: "irows (fst ?t) = irows ts" using same_issuers(3) by blast
  show ?thesis
    using sp by (simp add: abs_store_def ir v pubs map_del_nth anchor_of_fresh split: if_splits)
qed

lemma abs_issuer_remove:
  assumes c: "ts_clean ts"
  shows "ts_clean (fst (ts_step ts (Issuer_Remove_At i))) \<and>
         (abs_store (fst (ts_step ts (Issuer_Remove_At i))), snd (ts_step ts (Issuer_Remove_At i))) = spec_step (abs_store ts) (Issuer_Remove_At i)"
proof (cases "0 \<le> i \<and> i < int (ts_issuer_count ts)")
  case True
  then obtain k where k: "i = int k" "k < ts_issuer_count ts" using nonneg_int_less by blast
  define b where "b = (of_int (int k + 1) :: u8)"
  have k5: "k < ISSUER_MAX" using k(2) ts_cleanD(6) [OF c] by simp
  have ub: "unat b = Suc k" unfolding b_def by (rule unat_bound [OF k5])
  note sp = issuer_remove_at_spec [OF c k(2), folded b_def]
  have dist: "distinct (map i_pub (irows ts))" using c by (simp add: ts_clean_def issuers_ok_def)
  have mine: "an_issuer (anchor_of (irows ts) r) = Some (i_pub (irows ts ! k)) \<longleftrightarrow> r_issuer r = b" if "r \<in> set (rows ts)" for r
  proof (cases "r_issuer r = 0")
    case True
    then show ?thesis using ub by (auto simp: anchor_of_def)
  next
    case False
    then have u: "0 < unat (r_issuer r)" by (simp add: unat_gt_0)
    then have "unat (r_issuer r) - 1 < ts_issuer_count ts" using rows_bound [OF c that] by simp
    then have "i_pub (irows ts ! (unat (r_issuer r) - 1)) = i_pub (irows ts ! k) \<longleftrightarrow> unat (r_issuer r) - 1 = k"
      using dist k(2) nth_eq_iff_index_eq [of "map i_pub (irows ts)" "unat (r_issuer r) - 1" k] by simp
    moreover have "unat (r_issuer r) - 1 = k \<longleftrightarrow> r_issuer r = b" using u ub by (metis Suc_pred' diff_Suc_1 unsigned_word_eqI)
    ultimately show ?thesis using False by (simp add: anchor_of_def)
  qed
  have keep: "anchor_of (del_nth k (irows ts)) (renumber b r) = anchor_of (irows ts) r" if r: "r \<in> set (rows ts)" "r_issuer r \<noteq> b" for r
  proof -
    note rb = rows_bound [OF c r(1)]
    have nb: "unat (r_issuer r) \<noteq> Suc k" using r(2) ub by (metis unsigned_word_eqI)
    show ?thesis
    proof (cases "r_issuer r > b")
      case True
      then have g: "Suc k < unat (r_issuer r)" using ub by (simp add: word_less_nat_alt)
      have m: "unat (r_issuer r - 1) = unat (r_issuer r) - 1" using True by (intro unat_minus_one) auto
      then have "r_issuer r - 1 \<noteq> 0" "r_issuer r \<noteq> 0" using g by (auto simp: unat_eq_zero [symmetric])
      then show ?thesis using True g m rb k(2) by (simp add: renumber_def anchor_of_def nth_del_nth Suc_diff_Suc)
    next
      case False
      then have "unat (r_issuer r) \<le> k" using nb ub by (simp add: word_less_nat_alt)
      then show ?thesis using False k(2) by (auto simp: renumber_def anchor_of_def nth_del_nth unat_gt_0 [symmetric])
    qed
  qed
  have "map (anchor_of (del_nth k (irows ts))) (map (renumber b) (filter (\<lambda>r. r_issuer r \<noteq> b) (rows ts)))
      = filter (\<lambda>a. an_issuer a \<noteq> Some (i_pub (irows ts ! k))) (map (anchor_of (irows ts)) (rows ts))"
    using keep mine by (auto simp: filter_map comp_def intro!: map_cong filter_cong) 
  moreover have "length (filter (\<lambda>a. an_issuer a = Some (i_pub (irows ts ! k))) (map (anchor_of (irows ts)) (rows ts)))
      = length (filter (\<lambda>r. r_issuer r = b) (rows ts))"
    using mine by (auto simp: filter_map comp_def intro!: arg_cong [where f = length] filter_cong)
  ultimately show ?thesis using sp k by (simp add: abs_store_def Let_def)
next
  case False
  then show ?thesis using c by (auto simp: ultrawidelock_prov_issuer_remove_at_def)
qed

lemma i_pub_update [simp]: "i_pub (xs[k := (xs ! k)\<lparr>i_cred := ci, i_user := ui\<rparr>] ! j) = i_pub (xs ! j)"
  by (cases "k < length xs") (auto simp: nth_list_update list_update_beyond)

lemma abs_issuer_add:
  assumes c: "ts_clean ts" and p: "length p = CRED_PUB_LEN"
  shows "ts_clean (fst (ts_step ts (Issuer_Add p ci ui))) \<and>
         (abs_store (fst (ts_step ts (Issuer_Add p ci ui))), snd (ts_step ts (Issuer_Add p ci ui))) = spec_step (abs_store ts) (Issuer_Add p ci ui)"
proof -
  let ?t = "ultrawidelock_prov_issuer_add ts p ci ui"
  note sp = issuer_add_spec [OF c p, of ci ui]
  have keep: "map (anchor_of (irows (fst ?t))) (rows ts) = map (anchor_of (irows ts)) (rows ts)"
  proof (rule map_cong [OF refl])
    fix r assume r: "r \<in> set (rows ts)"
    show "anchor_of (irows (fst ?t)) r = anchor_of (irows ts) r"
    proof (cases "r_issuer r = 0")
      case False
      then have "unat (r_issuer r) - 1 < length (irows ts)"
        using rows_bound [OF c r] by (simp add: unat_gt_0 [symmetric])
      then have "i_pub (irows (fst ?t) ! (unat (r_issuer r) - 1)) = i_pub (irows ts ! (unat (r_issuer r) - 1))"
        using sp by (auto simp: nth_append split: if_splits)
      then show ?thesis by (simp add: anchor_of_def)
    qed (simp add: anchor_of_def)
  qed
  then show ?thesis using sp by (auto simp: abs_store_def list_index_def Let_def split: if_splits)
qed

lemma ts_step_refines:
  assumes c: "ts_clean ts" and ok: "ts_op_ok e"
  shows "ts_clean (fst (ts_step ts e)) \<and> (abs_store (fst (ts_step ts e)), snd (ts_step ts e)) = spec_step (abs_store ts) e"
proof (cases e)
  case (Trust_Add p)
  then show ?thesis using abs_add [OF c] ok by simp
next
  case (Trust_Remove_At i)
  then show ?thesis using spec_remove_abs [OF c] by simp
next
  case (Trust_Remove p)
  have "list_index (\<lambda>a. an_pub a = p) (st_anchors (abs_store ts)) = ultrawidelock_prov_trust_find ts p"
    unfolding trust_find_rows [OF c] list_index_def row_scan_def [symmetric]
    by (auto simp: abs_store_def anchor_of_def intro!: row_scan_cong)
  then show ?thesis using Trust_Remove spec_remove_abs [OF c] c by (simp add: ultrawidelock_prov_trust_remove_def Let_def)
next
  case (Cred_Bind i t ci ui)
  show ?thesis
  proof (cases "0 \<le> i \<and> i < int (ts_count ts)")
    case True
    then obtain k where k: "i = int k" "k < ts_count ts" using nonneg_int_less by blast
    show ?thesis
      using bind_set_spec [OF c k(2), of t ci ui] k Cred_Bind
        spec_edit_abs [OF k(2), of "fst (ts_step ts e)" _ "\<lambda>a. a\<lparr>an_type := t, an_cred := ci, an_user := ui\<rparr>"]
        same_issuers(3) [of "fst (ts_step ts e)" ts]
      by (simp add: anchor_of_def ultrawidelock_prov_cred_bind_set_def)
  next
    case False
    then show ?thesis using Cred_Bind c by (auto simp: spec_edit_out ultrawidelock_prov_cred_bind_set_def)
  qed
next
  case (Kp_Set i kp)
  show ?thesis
  proof (cases "0 \<le> i \<and> i < int (ts_count ts)")
    case True
    then obtain k where k: "i = int k" "k < ts_count ts" using nonneg_int_less by blast
    show ?thesis
      using kpersistent_set_spec [OF c k(2), of kp] k Kp_Set ok
        spec_edit_abs [OF k(2), of "fst (ts_step ts e)" _ "\<lambda>a. a\<lparr>an_kp := Some kp\<rparr>"]
        same_issuers(3) [of "fst (ts_step ts e)" ts]
      by (simp add: anchor_of_def ultrawidelock_prov_kpersistent_set_def)
  next
    case False
    then show ?thesis using Kp_Set c by (auto simp: spec_edit_out ultrawidelock_prov_kpersistent_set_def)
  qed
next
  case (Issuer_Add p ci ui)
  then show ?thesis using abs_issuer_add [OF c] ok by simp
next
  case (Issuer_Remove_At i)
  then show ?thesis using abs_issuer_remove [OF c] by simp
next
  case (Anchor_Issuer_Set i j)
  show ?thesis
  proof (cases "0 \<le> i \<and> i < int (ts_count ts) \<and> 0 \<le> j \<and> j < int (ts_issuer_count ts)")
    case True
    then obtain k l where k: "i = int k" "k < ts_count ts" and l: "j = int l" "l < ts_issuer_count ts" using nonneg_int_less by metis
    have ub: "unat (of_int (int l + 1) :: u8) = Suc l" using unat_bound [of l] l(2) ts_cleanD(6) [OF c] by simp
    then have nz: "(of_int (int l + 1) :: u8) \<noteq> 0" by (metis unat_0 Zero_not_Suc)
    show ?thesis
      using set_issuer_spec [OF c k(2), of "of_int (int l + 1)"] k l ub nz Anchor_Issuer_Set
        spec_edit_abs [OF k(2), of "fst (ts_step ts e)" _ "\<lambda>a. a\<lparr>an_issuer := Some (i_pub (irows ts ! l))\<rparr>"]
        same_issuers(3) [of "fst (ts_step ts e)" ts]
      by (simp add: anchor_of_def ultrawidelock_prov_anchor_issuer_set_def del: of_int_add)
  next
    case False
    then show ?thesis using Anchor_Issuer_Set c by (auto simp: spec_edit_out ultrawidelock_prov_anchor_issuer_set_def)
  qed
qed

interpretation ts: stepper "\<lambda>ts e. if ts_op_ok e then ts_step ts e else (ts, 0)" ts_clean
  by unfold_locales (use ts_step_refines in auto)

lemma ts_clean_empty: "ts_clean ts_empty"
proof -
  have "row_at ts_empty i = blank_row" if "i < TRUST_MAX" for i
    using that by (simp add: row_at_def ts_empty_def blank_row_def)
  moreover have "irow_at ts_empty i = blank_irow" if "i < ISSUER_MAX" for i
    using that by (simp add: irow_at_def ts_empty_def blank_irow_def)
  moreover have "\<not> r_has_kp (row_at ts_empty i)" for i by (simp add: row_at_def ts_empty_def)
  ultimately show ?thesis
    by (simp add: ts_clean_def issuers_ok_def ts_sized_def) (simp add: ts_empty_def irows_def)
qed

lemma ts_run_refines:
  "ts_clean ts \<Longrightarrow> \<forall>e\<in>set es. ts_op_ok e \<Longrightarrow>
   ts_clean (fst (run_steps ts_step ts es)) \<and>
   (abs_store (fst (run_steps ts_step ts es)), snd (run_steps ts_step ts es)) = run_steps spec_step (abs_store ts) es"
proof (induction es arbitrary: ts)
  case (Cons e es)
  have step: "ts_clean (fst (ts_step ts e))" "spec_step (abs_store ts) e = (abs_store (fst (ts_step ts e)), snd (ts_step ts e))"
    using ts_step_refines [OF Cons.prems(1), of e] Cons.prems(2) by simp_all
  show ?case
    using Cons.IH [OF step(1)] Cons.prems(2) step(2) by (simp add: case_prod_beta prod_eq_iff)
qed simp

text \<open>C26: The trust store is a list of anchors and a list of issuers. Every sequence of operations on the
  parallel arrays, from the empty store, gives the answers of the specification and ends in a store
  that represents the specification's: a key keeps its own fast-path key, its own names and its own
  vouching issuer through every eviction, removal and renumbering; revoking an issuer removes exactly
  the anchors it vouched for. On that store the trust check accepts exactly the keys of the anchors.\<close>

theorem trust_store_refines:
  assumes "\<forall>e\<in>set es. ts_op_ok e"
  shows "(let (ts, rcs) = run_steps ts_step ts_empty es; (st, rcs') = run_steps spec_step \<lparr>st_anchors = [], st_issuers = []\<rparr> es
          in abs_store ts = st \<and> rcs = rcs' \<and>
             (ultrawidelock_prov_trust_check ts p = 0 \<longleftrightarrow> p \<in> an_pub ` set (st_anchors st)))"
proof -
  have "abs_store ts_empty = \<lparr>st_anchors = [], st_issuers = []\<rparr>"
    by (simp add: abs_store_def rows_def irows_def ts_empty_def)
  then have r: "ts_clean (fst (run_steps ts_step ts_empty es))"
    "run_steps spec_step \<lparr>st_anchors = [], st_issuers = []\<rparr> es =
       (abs_store (fst (run_steps ts_step ts_empty es)), snd (run_steps ts_step ts_empty es))"
    using ts_run_refines [OF ts_clean_empty assms] by simp_all
  then show ?thesis by (auto simp: Let_def case_prod_beta trust_check_rows)
qed

theorem trust_store_refines_witness:
  "(let k = (\<lambda>n. 4 # replicate 64 n);
        es = [Issuer_Add (k 9) 1 1, Issuer_Add (k 8) 2 2, Trust_Add (k 1), Trust_Add (k 2), Trust_Add (k 3), Kp_Set 2 (replicate 32 7),
              Anchor_Issuer_Set 0 0, Anchor_Issuer_Set 2 1, Issuer_Remove_At 0];
        ts = fst (run_steps ts_step ts_empty es)
    in \<not> ultrawidelock_prov_trust_check ts (k 1) = 0 \<and> ultrawidelock_prov_trust_check ts (k 3) = 0)"
proof -
  let ?k = "\<lambda>n. 4 # replicate 64 (n::u8)"
  let ?es = "[Issuer_Add (?k 9) 1 1, Issuer_Add (?k 8) 2 2, Trust_Add (?k 1), Trust_Add (?k 2), Trust_Add (?k 3), Kp_Set 2 (replicate 32 7),
              Anchor_Issuer_Set 0 0, Anchor_Issuer_Set 2 1, Issuer_Remove_At 0]"
  have ok: "\<forall>e\<in>set ?es. ts_op_ok e" by simp
  have "an_pub ` set (st_anchors (fst (run_steps spec_step \<lparr>st_anchors = [], st_issuers = []\<rparr> ?es))) = {?k 2, ?k 3}"
    by code_simp
  then show ?thesis
    using trust_store_refines [OF ok, of "?k 1"] trust_store_refines [OF ok, of "?k 3"]
    by (simp only: Let_def case_prod_beta) simp
qed

end
