(* ===== verification/Trust_Blob.thy ===== *)
theory Trust_Blob
  imports Trust_Store_Proofs
begin

text \<open>
  The stored form of identity and trust store (\<open>ultrawidelock_prov_serialize\<close> and
  \<open>ultrawidelock_prov_deserialize\<close> of \<^verbatim>\<open>ultrawidelock_prov.c\<close>), with the four older layouts the parser still
  takes, and its round trip for every store the operations can build.
\<close>

abbreviation PROV_BLOB_HDR :: nat where "PROV_BLOB_HDR \<equiv> 6"
abbreviation PROV_VERSION :: u8 where "PROV_VERSION \<equiv> 5"
abbreviation PROV_FLAG_DEV :: u8 where "PROV_FLAG_DEV \<equiv> 1"

definition k_magic :: bytes where "k_magic = [0x41, 0x50, 0x52, 0x56]"

definition kp_mask :: "nat \<Rightarrow> u8" where
  "kp_mask n = push_bit n 1 - 1"

definition prov_need :: "nat \<Rightarrow> nat \<Rightarrow> nat" where
  "prov_need count issuers =
     PROV_BLOB_HDR + READER_ID_LEN + READER_PRIV_LEN + GRK_LEN + 1 + count * CRED_PUB_LEN + 1 + count * KPERSISTENT_LEN +
     count * 6 + 1 + issuers * (CRED_PUB_LEN + 4)"

definition put_kp :: "trust_store \<Rightarrow> u8 \<Rightarrow> nat \<Rightarrow> bytes" where
  "put_kp ts msk i = (if msk AND push_bit i 1 \<noteq> 0 then ts_kpersistent ts ! i else zero_bytes KPERSISTENT_LEN)"

definition put_names :: "trust_store \<Rightarrow> nat \<Rightarrow> bytes" where
  "put_names ts i = ts_cred_type ts ! i # put_u16 (ts_cred_index ts ! i) @ put_u16 (ts_user_index ts ! i)"

definition put_issuer :: "trust_store \<Rightarrow> nat \<Rightarrow> bytes" where
  "put_issuer ts i = ts_issuer_pub ts ! i @ put_u16 (ts_issuer_cred_index ts ! i) @ put_u16 (ts_issuer_user_index ts ! i)"

definition prov_head :: "reader_identity \<Rightarrow> nat \<Rightarrow> bytes" where
  "prov_head idt count =
     k_magic @ [PROV_VERSION, if id_is_dev idt then PROV_FLAG_DEV else 0] @ id_reader_id idt @ id_sign_priv idt @ id_grk idt @ [of_nat count]"

definition ultrawidelock_prov_serialize :: "reader_identity \<Rightarrow> trust_store \<Rightarrow> nat \<Rightarrow> bytes option" where
  "ultrawidelock_prov_serialize idt ts cap =
     (let count = ts_count ts; issuers = ts_issuer_count ts; msk = ts_kp_valid ts AND kp_mask count
      in if count > TRUST_MAX \<or> issuers > ISSUER_MAX then None
         else if cap < prov_need count issuers then None
         else Some (prov_head idt count @ concat (map (\<lambda>i. ts_cred_pub ts ! i) [0..<count]) @
                    [msk] @ concat (map (put_kp ts msk) [0..<count]) @ concat (map (put_names ts) [0..<count]) @
                    map (\<lambda>i. ts_anchor_issuer ts ! i) [0..<count] @ [of_nat issuers] @ concat (map (put_issuer ts) [0..<issuers])))"

text \<open>What each version of the blob carries: the length of the group key, and whether the fast-path
  keys, the names and the issuers are there.\<close>

definition prov_layout :: "u8 \<Rightarrow> (nat \<times> bool \<times> bool \<times> bool) option" where
  "prov_layout v =
     (if v = 5 then Some (GRK_LEN, True, True, True)
      else if v = 4 then Some (GRK_LEN, True, True, False)
      else if v = 3 then Some (GRK_LEN, True, False, False)
      else if v = 2 then Some (GRK_LEN, False, False, False)
      else if v = 1 then Some (0, False, False, False)
      else None)"

definition block_at :: "bytes \<Rightarrow> nat \<Rightarrow> nat \<Rightarrow> nat \<Rightarrow> bytes" where
  "block_at buf off sz i = take sz (drop (off + i * sz) buf)"

definition get_identity :: "bytes \<Rightarrow> nat \<Rightarrow> reader_identity" where
  "get_identity buf grk_len =
     \<lparr>id_reader_id = take READER_ID_LEN (drop PROV_BLOB_HDR buf),
      id_sign_priv = take READER_PRIV_LEN (drop (PROV_BLOB_HDR + READER_ID_LEN) buf),
      id_grk = (if grk_len = GRK_LEN then take GRK_LEN (drop (PROV_BLOB_HDR + READER_ID_LEN + READER_PRIV_LEN) buf) else zero_bytes GRK_LEN),
      id_is_dev = (buf ! 5 AND PROV_FLAG_DEV \<noteq> 0)\<rparr>"

definition fill :: "nat \<Rightarrow> nat \<Rightarrow> 'a \<Rightarrow> (nat \<Rightarrow> 'a) \<Rightarrow> 'a list" where
  "fill sz n z f = map (\<lambda>i. if i < n then f i else z) [0..<sz]"

definition get_store :: "bytes \<Rightarrow> nat \<Rightarrow> nat \<Rightarrow> nat \<Rightarrow> bool \<Rightarrow> bool \<Rightarrow> bool \<Rightarrow> trust_store" where
  "get_store buf fixed count issuers has_kp has_idx has_issuers =
     (let k1 = fixed + count * CRED_PUB_LEN;
          k2 = (if has_kp then k1 + 1 + count * KPERSISTENT_LEN else k1);
          k3 = (if has_idx then k2 + count * 5 else k2);
          k4 = k3 + count + 1
      in \<lparr>ts_count = count,
          ts_cred_pub = fill TRUST_MAX count (zero_bytes CRED_PUB_LEN) (block_at buf fixed CRED_PUB_LEN),
          ts_kp_valid = (if has_kp then buf ! k1 AND kp_mask count else 0),
          ts_kpersistent = (if has_kp then fill TRUST_MAX count (zero_bytes KPERSISTENT_LEN) (block_at buf (k1 + 1) KPERSISTENT_LEN)
                            else replicate TRUST_MAX (zero_bytes KPERSISTENT_LEN)),
          ts_cred_type = (if has_idx then fill TRUST_MAX count 0 (\<lambda>i. buf ! (k2 + i * 5)) else replicate TRUST_MAX 0),
          ts_cred_index = (if has_idx then fill TRUST_MAX count 0 (\<lambda>i. get_u16 (drop (k2 + i * 5 + 1) buf)) else replicate TRUST_MAX 0),
          ts_user_index = (if has_idx then fill TRUST_MAX count 0 (\<lambda>i. get_u16 (drop (k2 + i * 5 + 3) buf)) else replicate TRUST_MAX 0),
          ts_anchor_issuer = (if has_issuers then fill TRUST_MAX count 0 (\<lambda>i. buf ! (k3 + i)) else replicate TRUST_MAX 0),
          ts_issuer_count = (if has_issuers then issuers else 0),
          ts_issuer_pub = (if has_issuers
             then fill ISSUER_MAX issuers (zero_bytes CRED_PUB_LEN) (\<lambda>i. take CRED_PUB_LEN (drop (k4 + i * (CRED_PUB_LEN + 4)) buf))
             else replicate ISSUER_MAX (zero_bytes CRED_PUB_LEN)),
          ts_issuer_cred_index = (if has_issuers
             then fill ISSUER_MAX issuers 0 (\<lambda>i. get_u16 (drop (k4 + i * (CRED_PUB_LEN + 4) + CRED_PUB_LEN) buf)) else replicate ISSUER_MAX 0),
          ts_issuer_user_index = (if has_issuers
             then fill ISSUER_MAX issuers 0 (\<lambda>i. get_u16 (drop (k4 + i * (CRED_PUB_LEN + 4) + CRED_PUB_LEN + 2) buf)) else replicate ISSUER_MAX 0)\<rparr>)"

definition ultrawidelock_prov_deserialize :: "bytes \<Rightarrow> (reader_identity \<times> trust_store) option" where
  "ultrawidelock_prov_deserialize buf =
     (if length buf < PROV_BLOB_HDR \<or> take 4 buf \<noteq> k_magic then None
      else case prov_layout (buf ! 4) of None \<Rightarrow> None
      | Some (grk_len, has_kp, has_idx, has_issuers) \<Rightarrow>
        let fixed = PROV_BLOB_HDR + READER_ID_LEN + READER_PRIV_LEN + grk_len + 1
        in if length buf < fixed then None
        else let count = unat (buf ! (fixed - 1));
                 want1 = fixed + count * CRED_PUB_LEN + (if has_kp then 1 + count * KPERSISTENT_LEN else 0) + (if has_idx then count * 5 else 0);
                 want2 = (if has_issuers then want1 + count + 1 else want1)
             in if has_issuers \<and> (length buf < want2 \<or> count > TRUST_MAX) then None
                else let issuers = (if has_issuers then unat (buf ! (want2 - 1)) else 0);
                         want = want2 + issuers * (CRED_PUB_LEN + 4)
                     in if count > TRUST_MAX \<or> issuers > ISSUER_MAX \<or> length buf \<noteq> want then None
                        else Some (get_identity buf grk_len, get_store buf fixed count issuers has_kp has_idx has_issuers))"

section \<open>The record in the key-value store\<close>

text \<open>
  The backend (\<^verbatim>\<open>ports/zephyr/store/ultrawidelock_prov_settings.c\<close>) moves the blob in and out of one record.
  The key-value store below it is given by its answers: the result of mounting it, and the
  result of the access together with the record a failed write leaves behind.
\<close>

datatype kv_result = KV_OK | KV_NOT_FOUND | KV_INVALID | KV_FULL | KV_IO | KV_CORRUPT

abbreviation PROV_BLOB_MAX :: nat where "PROV_BLOB_MAX \<equiv> 1052"
abbreviation PROV_LOAD_EMPTY :: int where "PROV_LOAD_EMPTY \<equiv> 1"

fun prov_errno :: "kv_result \<Rightarrow> int" where
  "prov_errno KV_OK = 0"
| "prov_errno KV_INVALID = -22"
| "prov_errno KV_FULL = -28"
| "prov_errno _ = -5"

definition kv_get :: "kv_result \<Rightarrow> bytes option \<Rightarrow> nat \<Rightarrow> kv_result + bytes" where
  "kv_get fault stored cap =
     (if fault \<noteq> KV_OK then Inl fault
      else case stored of None \<Rightarrow> Inl KV_NOT_FOUND | Some b \<Rightarrow> if length b > cap then Inl KV_INVALID else Inr b)"

definition ultrawidelock_prov_load :: "kv_result \<Rightarrow> kv_result \<Rightarrow> bytes option \<Rightarrow> (reader_identity \<times> trust_store) \<times> int" where
  "ultrawidelock_prov_load init_rc fault stored =
     (if init_rc \<noteq> KV_OK then (ultrawidelock_prov_dev_default, prov_errno init_rc)
      else case kv_get fault stored PROV_BLOB_MAX of
        Inl KV_NOT_FOUND \<Rightarrow> (ultrawidelock_prov_dev_default, PROV_LOAD_EMPTY)
      | Inl rc \<Rightarrow> (ultrawidelock_prov_dev_default, prov_errno rc)
      | Inr blob \<Rightarrow> (case ultrawidelock_prov_deserialize blob of
                      None \<Rightarrow> (ultrawidelock_prov_dev_default, -74)
                    | Some it \<Rightarrow> (it, 0)))"

definition ultrawidelock_prov_store ::
  "kv_result \<Rightarrow> kv_result \<times> bytes option \<Rightarrow> reader_identity \<Rightarrow> trust_store \<Rightarrow> bytes option \<Rightarrow> bytes option \<times> int" where
  "ultrawidelock_prov_store init_rc set_rc idt ts stored =
     (if init_rc \<noteq> KV_OK then (stored, prov_errno init_rc)
      else case ultrawidelock_prov_serialize idt ts PROV_BLOB_MAX of
        None \<Rightarrow> (stored, -22)
      | Some blob \<Rightarrow> (case set_rc of (KV_OK, _) \<Rightarrow> (Some blob, 0) | (rc, left) \<Rightarrow> (left, prov_errno rc)))"

definition ultrawidelock_prov_erase :: "kv_result \<Rightarrow> kv_result \<Rightarrow> bytes option \<Rightarrow> bytes option \<times> int" where
  "ultrawidelock_prov_erase init_rc del_rc stored =
     (if init_rc \<noteq> KV_OK then (stored, prov_errno init_rc)
      else if del_rc = KV_OK \<or> del_rc = KV_NOT_FOUND then (None, 0)
      else (stored, prov_errno del_rc))"

section \<open>Round trip\<close>

lemma length_concat_blocks: "\<forall>b\<in>set bs. length b = n \<Longrightarrow> length (concat bs) = length bs * n"
  by (induction bs) auto

lemma drop_block:
  "\<forall>b\<in>set bs. length b = n \<Longrightarrow> i < length bs \<Longrightarrow> j \<le> n \<Longrightarrow>
   drop (length pre + i * n + j) (pre @ concat bs @ post) = drop j (bs ! i) @ concat (drop (Suc i) bs) @ post"
proof (induction bs arbitrary: i pre)
  case (Cons b bs)
  show ?case
  proof (cases i)
    case 0
    then show ?thesis using Cons.prems by simp
  next
    case (Suc k)
    have "drop (length (pre @ b) + k * n + j) ((pre @ b) @ concat bs @ post) = drop j (bs ! k) @ concat (drop (Suc k) bs) @ post"
      using Cons.prems Suc by (intro Cons.IH) auto
    then show ?thesis using Cons.prems(1) Suc by (simp add: algebra_simps)
  qed
qed simp

lemma take_block:
  "\<forall>b\<in>set bs. length b = n \<Longrightarrow> i < length bs \<Longrightarrow> take n (drop (length pre + i * n) (pre @ concat bs @ post)) = bs ! i"
  using drop_block [of bs n i 0 pre post] by simp

lemma byte_block:
  "\<forall>b\<in>set bs. length b = n \<Longrightarrow> i < length bs \<Longrightarrow> j < n \<Longrightarrow> (pre @ concat bs @ post) ! (length pre + i * n + j) = bs ! i ! j"
proof -
  assume a: "\<forall>b\<in>set bs. length b = n" "i < length bs" "j < n"
  have "length pre + i * n + j < length (pre @ concat bs @ post)"
  proof -
    have "i * n + j < Suc i * n" using a(3) by simp
    also have "\<dots> \<le> length bs * n" using a(2) by (intro mult_right_mono) auto
    finally show ?thesis using length_concat_blocks [OF a(1)] by simp
  qed
  then have "(pre @ concat bs @ post) ! (length pre + i * n + j) = hd (drop (length pre + i * n + j) (pre @ concat bs @ post))"
    by (rule hd_drop_conv_nth [symmetric])
  also have "\<dots> = hd (drop j (bs ! i))" using a drop_block [OF a(1,2), of j pre post] by (simp add: hd_append)
  also have "\<dots> = bs ! i ! j" using a by (simp add: hd_drop_conv_nth)
  finally show ?thesis .
qed

lemma fill_eq: "length xs = sz \<Longrightarrow> (\<And>i. i < n \<Longrightarrow> f i = xs ! i) \<Longrightarrow> (\<And>i. n \<le> i \<Longrightarrow> i < sz \<Longrightarrow> xs ! i = z) \<Longrightarrow> fill sz n z f = xs"
  by (rule nth_equalityI) (auto simp: fill_def)

lemma bit_kp_mask: "n \<le> TRUST_MAX \<Longrightarrow> bit (kp_mask n) i \<longleftrightarrow> i < n"
proof -
  assume "n \<le> TRUST_MAX"
  then have n: "n < 8" by simp
  have "kp_mask n = mask n" by (simp add: kp_mask_def mask_eq_exp_minus_1)
  then show ?thesis using n by (auto simp: bit_mask_iff)
qed

lemma kp_mask_clean: "ts_clean ts \<Longrightarrow> ts_kp_valid ts AND kp_mask (ts_count ts) = ts_kp_valid ts"
proof (rule bit_eqI)
  fix i assume c: "ts_clean ts"
  have "i < ts_count ts" if "bit (ts_kp_valid ts) i"
  proof (rule ccontr)
    assume "\<not> i < ts_count ts"
    then have "\<not> r_has_kp (row_at ts i)"
      using ts_cleanD(4,5) [OF c, of i] by (cases "i < TRUST_MAX") (auto simp: blank_row_def)
    then show False using that by (simp add: row_at_def)
  qed
  then show "bit (ts_kp_valid ts AND kp_mask (ts_count ts)) i = bit (ts_kp_valid ts) i"
    using ts_cleanD(2) [OF c] by (auto simp: bit_and_iff bit_kp_mask)
qed

definition id_ok :: "reader_identity \<Rightarrow> bool" where
  "id_ok idt \<longleftrightarrow> length (id_reader_id idt) = READER_ID_LEN \<and> length (id_sign_priv idt) = READER_PRIV_LEN \<and> length (id_grk idt) = GRK_LEN"

lemma get_identity_head:
  assumes "id_ok idt"
  shows "get_identity (prov_head idt n @ rest) GRK_LEN = idt"
  using assms by (cases idt) (auto simp: get_identity_def prov_head_def id_ok_def k_magic_def nth_append)

lemma length_head: "id_ok idt \<Longrightarrow> length (prov_head idt n) = 87"
  by (simp add: prov_head_def id_ok_def k_magic_def)

text \<open>The pieces of a blob and their lengths.\<close>

definition pubs_of where "pubs_of ts = map (\<lambda>i. ts_cred_pub ts ! i) [0..<ts_count ts]"
definition kps_of where "kps_of ts = map (put_kp ts (ts_kp_valid ts AND kp_mask (ts_count ts))) [0..<ts_count ts]"
definition names_of where "names_of ts = map (put_names ts) [0..<ts_count ts]"
definition vouch_of where "vouch_of ts = map (\<lambda>i. ts_anchor_issuer ts ! i) [0..<ts_count ts]"
definition issuers_of where "issuers_of ts = map (put_issuer ts) [0..<ts_issuer_count ts]"

lemma pieces_sized:
  assumes c: "ts_clean ts"
  shows "\<forall>b\<in>set (pubs_of ts). length b = CRED_PUB_LEN" "\<forall>b\<in>set (kps_of ts). length b = KPERSISTENT_LEN"
    "\<forall>b\<in>set (names_of ts). length b = 5" "\<forall>b\<in>set (issuers_of ts). length b = 69"
proof -
  note d = ts_cleanD [OF c]
  have "length (ts_cred_pub ts ! i) = CRED_PUB_LEN \<and> length (ts_kpersistent ts ! i) = KPERSISTENT_LEN" if "i < ts_count ts" for i
    using d(3) [of i] d(2) that by (simp add: row_ok_def row_at_def)
  then show "\<forall>b\<in>set (pubs_of ts). length b = CRED_PUB_LEN" "\<forall>b\<in>set (kps_of ts). length b = KPERSISTENT_LEN"
    by (auto simp: pubs_of_def kps_of_def put_kp_def zero_bytes_def)
  show "\<forall>b\<in>set (names_of ts). length b = 5" by (auto simp: names_of_def put_names_def)
  have "length (ts_issuer_pub ts ! i) = CRED_PUB_LEN" if "i < ts_issuer_count ts" for i
  proof -
    have "irow_at ts i \<in> set (irows ts)" using that by (auto simp: irows_def)
    then show ?thesis using c by (auto simp: ts_clean_def issuers_ok_def irow_at_def)
  qed
  then show "\<forall>b\<in>set (issuers_of ts). length b = 69" by (auto simp: issuers_of_def put_issuer_def)
qed

lemma pieces_count [simp]:
  "length (pubs_of ts) = ts_count ts" "length (kps_of ts) = ts_count ts" "length (names_of ts) = ts_count ts"
  "length (vouch_of ts) = ts_count ts" "length (issuers_of ts) = ts_issuer_count ts"
  by (simp_all add: pubs_of_def kps_of_def names_of_def vouch_of_def issuers_of_def)

text \<open>Each field of the blob, found at the offset the parser computes.\<close>

lemma serialized_store:
  assumes c: "ts_clean ts" and h: "length pre1 = 87"
  defines "msk \<equiv> ts_kp_valid ts AND kp_mask (ts_count ts)"
  defines "buf \<equiv> pre1 @ concat (pubs_of ts) @ [msk] @ concat (kps_of ts) @ concat (names_of ts) @ vouch_of ts @
      [of_nat (ts_issuer_count ts)] @ concat (issuers_of ts)"
  shows "get_store buf 87 (ts_count ts) (ts_issuer_count ts) True True True = ts"
proof -
  note d = ts_cleanD [OF c] and sz = pieces_sized [OF c]
  let ?n = "ts_count ts"
  let ?m = "ts_issuer_count ts"
  have len: "length (concat (pubs_of ts)) = ?n * 65" "length (concat (kps_of ts)) = ?n * 32" "length (concat (names_of ts)) = ?n * 5"
    using length_concat_blocks [OF sz(1)] length_concat_blocks [OF sz(2)] length_concat_blocks [OF sz(3)] by simp_all
  have msk: "msk = ts_kp_valid ts" unfolding msk_def by (rule kp_mask_clean [OF c])
  have blank: "ts_cred_pub ts ! i = zero_bytes CRED_PUB_LEN" "ts_kpersistent ts ! i = zero_bytes KPERSISTENT_LEN"
    "ts_cred_type ts ! i = 0" "ts_cred_index ts ! i = 0" "ts_user_index ts ! i = 0" "ts_anchor_issuer ts ! i = 0"
    if "?n \<le> i" "i < TRUST_MAX" for i
    using d(4) [OF that] by (simp_all add: row_at_def blank_row_def)
  have iblank: "ts_issuer_pub ts ! i = zero_bytes CRED_PUB_LEN" "ts_issuer_cred_index ts ! i = 0" "ts_issuer_user_index ts ! i = 0"
    if "?m \<le> i" "i < ISSUER_MAX" for i
    using c that by (simp_all add: ts_clean_def issuers_ok_def irow_at_def blank_irow_def)
  have pubs: "block_at buf 87 CRED_PUB_LEN i = ts_cred_pub ts ! i" if "i < ?n" for i
    unfolding block_at_def buf_def using take_block [OF sz(1), of i pre1] that h by (simp add: pubs_of_def)
  have mbyte: "buf ! (87 + ?n * CRED_PUB_LEN) = msk"
    using len h by (simp add: buf_def nth_append)
  define pre2 where "pre2 = pre1 @ concat (pubs_of ts) @ [msk]"
  have buf2: "buf = pre2 @ concat (kps_of ts) @ (concat (names_of ts) @ vouch_of ts @ [of_nat ?m] @ concat (issuers_of ts))"
    and l2: "length pre2 = 87 + ?n * CRED_PUB_LEN + 1"
    using len h by (simp_all add: buf_def pre2_def)
  have kps: "block_at buf (87 + ?n * CRED_PUB_LEN + 1) KPERSISTENT_LEN i = ts_kpersistent ts ! i" if "i < ?n" for i
  proof -
    have "block_at buf (87 + ?n * CRED_PUB_LEN + 1) KPERSISTENT_LEN i = kps_of ts ! i"
      unfolding block_at_def buf2 l2 [symmetric] by (rule take_block [OF sz(2)]) (use that in simp)
    also have "\<dots> = ts_kpersistent ts ! i"
      using that d(3) [of i] d(2) msk by (simp add: kps_of_def put_kp_def row_ok_def row_at_def msk_def and_exp_eq_0_iff_not_bit)
    finally show ?thesis .
  qed
  define pre3 where "pre3 = pre2 @ concat (kps_of ts)"
  define post3 where "post3 = vouch_of ts @ [of_nat ?m] @ concat (issuers_of ts)"
  have buf3: "buf = pre3 @ concat (names_of ts) @ post3"
    and l3: "length pre3 = 87 + ?n * CRED_PUB_LEN + 1 + ?n * KPERSISTENT_LEN"
    using len l2 by (simp_all add: buf2 pre3_def post3_def)
  have names: "buf ! (87 + ?n * CRED_PUB_LEN + 1 + ?n * KPERSISTENT_LEN + i * 5) = ts_cred_type ts ! i"
    "get_u16 (drop (87 + ?n * CRED_PUB_LEN + 1 + ?n * KPERSISTENT_LEN + i * 5 + 1) buf) = ts_cred_index ts ! i"
    "get_u16 (drop (87 + ?n * CRED_PUB_LEN + 1 + ?n * KPERSISTENT_LEN + i * 5 + 3) buf) = ts_user_index ts ! i" if "i < ?n" for i
    unfolding buf3 l3 [symmetric]
    using byte_block [OF sz(3), of i 0 pre3 post3] drop_block [OF sz(3), of i 1 pre3 post3] drop_block [OF sz(3), of i 3 pre3 post3] that
    by (simp_all only: pieces_count add_0_right) (simp_all add: names_of_def put_names_def)
  define pre4 where "pre4 = pre3 @ concat (names_of ts)"
  have buf4: "buf = pre4 @ vouch_of ts @ [of_nat ?m] @ concat (issuers_of ts)"
    and l4: "length pre4 = 87 + ?n * CRED_PUB_LEN + 1 + ?n * KPERSISTENT_LEN + ?n * 5"
    using len l3 by (simp_all add: buf3 pre4_def post3_def)
  have vouch: "buf ! (87 + ?n * CRED_PUB_LEN + 1 + ?n * KPERSISTENT_LEN + ?n * 5 + i) = ts_anchor_issuer ts ! i" if "i < ?n" for i
    unfolding buf4 l4 [symmetric] using that by (simp add: nth_append vouch_of_def)
  define pre5 where "pre5 = pre4 @ vouch_of ts @ [of_nat ?m]"
  have buf5: "buf = pre5 @ concat (issuers_of ts) @ []"
    and l5: "length pre5 = 87 + ?n * CRED_PUB_LEN + 1 + ?n * KPERSISTENT_LEN + ?n * 5 + ?n + 1"
    using l4 by (simp_all add: buf4 pre5_def)
  have pub65: "length (ts_issuer_pub ts ! i) = CRED_PUB_LEN" if "i < ?m" for i
    using sz(4) that by (auto simp: issuers_of_def put_issuer_def)
  have issuers: "take CRED_PUB_LEN (drop (87 + ?n * CRED_PUB_LEN + 1 + ?n * KPERSISTENT_LEN + ?n * 5 + ?n + 1 + i * 69) buf) = ts_issuer_pub ts ! i"
    "get_u16 (drop (87 + ?n * CRED_PUB_LEN + 1 + ?n * KPERSISTENT_LEN + ?n * 5 + ?n + 1 + i * 69 + CRED_PUB_LEN) buf) = ts_issuer_cred_index ts ! i"
    "get_u16 (drop (87 + ?n * CRED_PUB_LEN + 1 + ?n * KPERSISTENT_LEN + ?n * 5 + ?n + 1 + i * 69 + CRED_PUB_LEN + 2) buf) = ts_issuer_user_index ts ! i"
    if "i < ?m" for i
    unfolding buf5 l5 [symmetric] add.assoc [of _ CRED_PUB_LEN 2]
    using drop_block [OF sz(4), of i 0 pre5 "[]"] drop_block [OF sz(4), of i 65 pre5 "[]"] drop_block [OF sz(4), of i 67 pre5 "[]"] that pub65 [OF that]
    by (simp_all only: pieces_count add_0_right) (simp_all add: issuers_of_def put_issuer_def)
  have "ts_sized ts" by (rule d(1))
  then show ?thesis
    unfolding get_store_def Let_def if_True mbyte
    using blank iblank pubs kps names vouch issuers msk kp_mask_clean [OF c]
    by (cases ts) (simp add: fill_eq ts_sized_def del: One_nat_def)
qed

lemma serialize_pieces:
  "ts_clean ts \<Longrightarrow> prov_need (ts_count ts) (ts_issuer_count ts) \<le> cap \<Longrightarrow>
   ultrawidelock_prov_serialize idt ts cap =
     Some (prov_head idt (ts_count ts) @ concat (pubs_of ts) @ [ts_kp_valid ts AND kp_mask (ts_count ts)] @ concat (kps_of ts) @
           concat (names_of ts) @ vouch_of ts @ [of_nat (ts_issuer_count ts)] @ concat (issuers_of ts))"
  using ts_cleanD(2,6) [of ts]
  by (simp add: ultrawidelock_prov_serialize_def Let_def pubs_of_def kps_of_def names_of_def vouch_of_def issuers_of_def)

lemma unat_small: "n \<le> TRUST_MAX \<Longrightarrow> unat (of_nat n :: u8) = n"
  by (simp add: unsigned_of_nat take_bit_nat_eq_self)

lemma prov_roundtrip:
  assumes c: "ts_clean ts" and i: "id_ok idt" and cap: "prov_need (ts_count ts) (ts_issuer_count ts) \<le> cap"
  shows "\<exists>b. ultrawidelock_prov_serialize idt ts cap = Some b \<and> length b = prov_need (ts_count ts) (ts_issuer_count ts) \<and>
         ultrawidelock_prov_deserialize b = Some (idt, ts)"
proof -
  note d = ts_cleanD [OF c] and sz = pieces_sized [OF c]
  let ?n = "ts_count ts" and ?m = "ts_issuer_count ts"
  define h where "h = prov_head idt ?n"
  define rest where "rest = concat (pubs_of ts) @ [ts_kp_valid ts AND kp_mask ?n] @ concat (kps_of ts) @ concat (names_of ts) @ vouch_of ts @
      [of_nat ?m] @ concat (issuers_of ts)"
  define buf where "buf = h @ rest"
  have lh: "length h = 87" unfolding h_def by (rule length_head [OF i])
  have len: "length (concat (pubs_of ts)) = ?n * 65" "length (concat (kps_of ts)) = ?n * 32" "length (concat (names_of ts)) = ?n * 5"
    "length (concat (issuers_of ts)) = ?m * 69"
    using length_concat_blocks [OF sz(1)] length_concat_blocks [OF sz(2)] length_concat_blocks [OF sz(3)] length_concat_blocks [OF sz(4)] by simp_all
  have lb: "length buf = prov_need ?n ?m" using lh len by (simp add: buf_def rest_def prov_need_def)
  have h4: "take 4 buf = k_magic" "buf ! 4 = 5" using i by (simp_all add: buf_def h_def prov_head_def k_magic_def nth_append)
  have cnt: "unat (buf ! 86) = ?n"
  proof -
    have "buf ! 86 = h ! 86" using lh by (simp add: buf_def nth_append)
    also have "\<dots> = of_nat ?n" using i by (simp add: h_def prov_head_def id_ok_def k_magic_def nth_append)
    finally show ?thesis using unat_small [OF d(2)] by simp
  qed
  have iss: "unat (buf ! (87 + ?n * 65 + (1 + ?n * 32) + ?n * 5 + ?n)) = ?m"
  proof -
    have "buf ! (87 + ?n * 65 + (1 + ?n * 32) + ?n * 5 + ?n) = of_nat ?m"
      using lh len by (simp add: buf_def rest_def nth_append)
    then show ?thesis using unat_small [of ?m] d(6) by simp
  qed
  then have iss': "unat (buf ! (88 + 103 * ?n)) = ?m" by (simp add: algebra_simps)
  have "get_identity buf GRK_LEN = idt" unfolding buf_def h_def by (rule get_identity_head [OF i])
  moreover have "get_store buf 87 ?n ?m True True True = ts"
    unfolding buf_def rest_def by (rule serialized_store [OF c lh])
  ultimately have "ultrawidelock_prov_deserialize buf = Some (idt, ts)"
    using h4 cnt iss' d(2,6) lb
    by (simp add: ultrawidelock_prov_deserialize_def prov_layout_def Let_def prov_need_def)
  moreover have "ultrawidelock_prov_serialize idt ts cap = Some buf"
    using serialize_pieces [OF c cap] by (simp add: buf_def rest_def h_def)
  ultimately show ?thesis using lb by blast
qed



end
