(* ===== verification/Hash.thy ===== *)
theory Hash
  imports Prelude
begin

text \<open>
  The hash core of the credential protocol (\<^verbatim>\<open>modules/ultrawidelock_cred/src/ultrawidelock_hash.c\<close>): streaming
  SHA-256, HMAC, HKDF and the X9.63 key derivation. Byte strings carry their length; NULL with length 0
  is the empty string.
\<close>

abbreviation SHA256_BLOCK :: nat where "SHA256_BLOCK \<equiv> 64"
abbreviation SHA256_LEN :: nat where "SHA256_LEN \<equiv> 32"

section \<open>The compression function\<close>

definition ror32 :: "u32 \<Rightarrow> nat \<Rightarrow> u32" where
  "ror32 x n = drop_bit n x OR push_bit (32 - n) x"

text \<open>The round constants, two to a literal, in the order of the table.\<close>

definition sha_K :: "u32 list" where
  "sha_K = concat (map (\<lambda>p::u64. [ucast (drop_bit 32 p), ucast p])
     [0x428a2f9871374491, 0xb5c0fbcfe9b5dba5, 0x3956c25b59f111f1, 0x923f82a4ab1c5ed5,
      0xd807aa9812835b01, 0x243185be550c7dc3, 0x72be5d7480deb1fe, 0x9bdc06a7c19bf174,
      0xe49b69c1efbe4786, 0x0fc19dc6240ca1cc, 0x2de92c6f4a7484aa, 0x5cb0a9dc76f988da,
      0x983e5152a831c66d, 0xb00327c8bf597fc7, 0xc6e00bf3d5a79147, 0x06ca635114292967,
      0x27b70a852e1b2138, 0x4d2c6dfc53380d13, 0x650a7354766a0abb, 0x81c2c92e92722c85,
      0xa2bfe8a1a81a664b, 0xc24b8b70c76c51a3, 0xd192e819d6990624, 0xf40e3585106aa070,
      0x19a4c1161e376c08, 0x2748774c34b0bcb5, 0x391c0cb34ed8aa4a, 0x5b9cca4f682e6ff3,
      0x748f82ee78a5636f, 0x84c878148cc70208, 0x90befffaa4506ceb, 0xbef9a3f7c67178f2])"

definition sha_load :: "bytes \<Rightarrow> u32 list" where
  "sha_load p = map (\<lambda>i. get_u32 (drop (i * 4) p)) [0..<16]"

definition sha_extend :: "u32 list \<Rightarrow> nat \<Rightarrow> u32 list" where
  "sha_extend w i =
     (let x = w ! (i - 15); y = w ! (i - 2);
          s0 = ror32 x 7 XOR ror32 x 18 XOR drop_bit 3 x;
          s1 = ror32 y 17 XOR ror32 y 19 XOR drop_bit 10 y
      in w[i := w ! (i - 16) + s0 + w ! (i - 7) + s1])"

definition sha_schedule :: "bytes \<Rightarrow> u32 list" where
  "sha_schedule p = foldl sha_extend (sha_load p @ replicate 48 0) [16..<64]"

type_synonym sha_regs = "u32 \<times> u32 \<times> u32 \<times> u32 \<times> u32 \<times> u32 \<times> u32 \<times> u32"

fun sha_round :: "sha_regs \<Rightarrow> u32 \<times> u32 \<Rightarrow> sha_regs" where
  "sha_round (a, b, c, d, e, f, g, hh) (k, wi) =
     (let S1 = ror32 e 6 XOR ror32 e 11 XOR ror32 e 25;
          ch = (e AND f) XOR (NOT e AND g);
          t1 = hh + S1 + ch + k + wi;
          S0 = ror32 a 2 XOR ror32 a 13 XOR ror32 a 22;
          maj = (a AND b) XOR (a AND c) XOR (b AND c);
          t2 = S0 + maj
      in (t1 + t2, a, b, c, d + t1, e, f, g))"

definition sha256_block :: "u32 list \<Rightarrow> bytes \<Rightarrow> u32 list" where
  "sha256_block h p =
     (case foldl sha_round (h ! 0, h ! 1, h ! 2, h ! 3, h ! 4, h ! 5, h ! 6, h ! 7) (zip sha_K (sha_schedule p)) of
        (a, b, c, d, e, f, g, hh) \<Rightarrow>
          [h ! 0 + a, h ! 1 + b, h ! 2 + c, h ! 3 + d, h ! 4 + e, h ! 5 + f, h ! 6 + g, h ! 7 + hh])"

section \<open>The streaming context\<close>

record sha256_ctx =
  sh_h :: "u32 list"
  sh_total :: u64
  sh_buf :: bytes
  sh_buflen :: nat

definition sha_iv :: "u32 list" where
  "sha_iv = [0x6a09e667, 0xbb67ae85, 0x3c6ef372, 0xa54ff53a, 0x510e527f, 0x9b05688c, 0x1f83d9ab, 0x5be0cd19]"

definition ultrawidelock_sha256_init :: "sha256_ctx \<Rightarrow> sha256_ctx" where
  "ultrawidelock_sha256_init s = s\<lparr>sh_h := sha_iv, sh_total := 0, sh_buflen := 0\<rparr>"

text \<open>A context on the stack. What is in it before its initialisation does not matter, which
  \<^verbatim>\<open>Hash_Proofs\<close> shows; here it is zero.\<close>

definition sha_local :: sha256_ctx where
  "sha_local = \<lparr>sh_h = replicate 8 0, sh_total = 0, sh_buf = replicate SHA256_BLOCK 0, sh_buflen = 0\<rparr>"

text \<open>The first part of an update fills up a partial block.\<close>

definition sha_fill :: "sha256_ctx \<Rightarrow> bytes \<Rightarrow> sha256_ctx \<times> bytes" where
  "sha_fill s p =
     (if sh_buflen s = 0 then (s, p)
      else
        let n = min (SHA256_BLOCK - sh_buflen s) (length p);
            s1 = s\<lparr>sh_buf := overwrite (sh_buf s) (sh_buflen s) (take n p), sh_buflen := sh_buflen s + n\<rparr>;
            s2 = (if sh_buflen s1 = SHA256_BLOCK then s1\<lparr>sh_h := sha256_block (sh_h s1) (sh_buf s1), sh_buflen := 0\<rparr> else s1)
        in (s2, drop n p))"

fun sha_absorb :: "u32 list \<Rightarrow> bytes \<Rightarrow> u32 list \<times> bytes" where
  "sha_absorb h p = (if length p \<ge> SHA256_BLOCK then sha_absorb (sha256_block h (take SHA256_BLOCK p)) (drop SHA256_BLOCK p) else (h, p))"

declare sha_absorb.simps [simp del]

definition ultrawidelock_sha256_update :: "sha256_ctx \<Rightarrow> bytes \<Rightarrow> sha256_ctx" where
  "ultrawidelock_sha256_update s data =
     (let (s1, p1) = sha_fill (s\<lparr>sh_total := sh_total s + of_nat (length data)\<rparr>) data;
          (h, p2) = sha_absorb (sh_h s1) p1;
          s2 = s1\<lparr>sh_h := h\<rparr>
      in if p2 = [] then s2 else s2\<lparr>sh_buf := overwrite (sh_buf s2) 0 p2, sh_buflen := length p2\<rparr>)"

text \<open>The zero padding: one byte at a time until eight are left in the block. The second disjunct
  of the test names states whose buffer would be overrun, which no context reaches; it makes the
  recursion total.\<close>

lemma sha_update_byte_buflen:
  "sh_buflen s \<le> 64 \<Longrightarrow> sh_buflen (ultrawidelock_sha256_update s [b]) = (if sh_buflen s = 64 then 1 else (sh_buflen s + 1) mod 64)"
  by (auto simp: ultrawidelock_sha256_update_def sha_fill_def sha_absorb.simps Let_def min_def)

function sha_pad :: "sha256_ctx \<Rightarrow> sha256_ctx" where
  "sha_pad s = (if sh_buflen s = 56 \<or> sh_buflen s > SHA256_BLOCK then s else sha_pad (ultrawidelock_sha256_update s [0]))"
  by pat_completeness auto
termination
proof (relation "measure (\<lambda>s. (120 - sh_buflen s) mod 64)")
  fix s :: sha256_ctx assume a: "\<not> (sh_buflen s = 56 \<or> sh_buflen s > SHA256_BLOCK)"
  then have le: "sh_buflen s \<le> 64" by simp
  consider "sh_buflen s < 56" | "56 < sh_buflen s" "sh_buflen s < 63" | "sh_buflen s = 63" | "sh_buflen s = 64" using a by linarith
  then show "(ultrawidelock_sha256_update s [0], s) \<in> measure (\<lambda>s. (120 - sh_buflen s) mod 64)"
  proof cases
    case 1
    then show ?thesis by (simp add: sha_update_byte_buflen [OF le] le_mod_geq)
  qed (simp_all add: sha_update_byte_buflen [OF le])
qed simp

declare sha_pad.simps [simp del]

definition ultrawidelock_sha256_final :: "sha256_ctx \<Rightarrow> bytes" where
  "ultrawidelock_sha256_final s =
     (let bits = sh_total s * 8;
          s1 = sha_pad (ultrawidelock_sha256_update s [0x80]);
          s2 = ultrawidelock_sha256_update s1 (put_u64 bits)
      in concat (map (\<lambda>i. put_u32 (sh_h s2 ! i)) [0..<8]))"

definition ultrawidelock_sha256 :: "bytes \<Rightarrow> bytes" where
  "ultrawidelock_sha256 data = ultrawidelock_sha256_final (ultrawidelock_sha256_update (ultrawidelock_sha256_init sha_local) data)"

section \<open>HMAC and the key derivations\<close>

text \<open>One digest over the parts fed to a context of its own.\<close>

definition sha_of :: "bytes list \<Rightarrow> bytes" where
  "sha_of parts = ultrawidelock_sha256_final (foldl ultrawidelock_sha256_update (ultrawidelock_sha256_init sha_local) parts)"

definition ultrawidelock_hmac_sha256 :: "bytes \<Rightarrow> bytes \<Rightarrow> bytes" where
  "ultrawidelock_hmac_sha256 key msg =
     (let k = overwrite (replicate SHA256_BLOCK 0) 0 (if length key > SHA256_BLOCK then ultrawidelock_sha256 key else key);
          ipad = map (\<lambda>b. b XOR 0x36) k; opad = map (\<lambda>b. b XOR 0x5c) k;
          inner = sha_of [ipad, msg]
      in sha_of [opad, inner])"

definition ultrawidelock_hkdf_extract :: "bytes \<Rightarrow> bytes \<Rightarrow> bytes" where
  "ultrawidelock_hkdf_extract salt ikm =
     ultrawidelock_hmac_sha256 (if salt = [] then replicate SHA256_LEN 0 else salt) ikm"

definition expand_block :: "bytes \<Rightarrow> bytes \<Rightarrow> bytes \<Rightarrow> u8 \<Rightarrow> bytes" where
  "expand_block prk t info counter =
     (let kb = map (\<lambda>i. if i < SHA256_LEN then prk ! i else 0) [0..<SHA256_BLOCK];
          ipad = map (\<lambda>b. b XOR 0x36) kb; opad = map (\<lambda>b. b XOR 0x5c) kb;
          inner = sha_of [ipad, t, info, [counter]]
      in sha_of [opad, inner])"

fun expand_loop :: "bytes \<Rightarrow> bytes \<Rightarrow> bytes \<Rightarrow> u8 \<Rightarrow> nat \<Rightarrow> bytes" where
  "expand_loop prk info t counter left =
     (if left = 0 then []
      else let t' = expand_block prk t info counter; n = min left SHA256_LEN
           in take n t' @ expand_loop prk info t' (counter + 1) (left - n))"

declare expand_loop.simps [simp del]

definition ultrawidelock_hkdf_expand :: "bytes \<Rightarrow> bytes \<Rightarrow> nat \<Rightarrow> bytes option" where
  "ultrawidelock_hkdf_expand prk info out_len =
     (if out_len > 255 * SHA256_LEN then None else Some (expand_loop prk info [] 1 out_len))"

definition ultrawidelock_hkdf :: "bytes \<Rightarrow> bytes \<Rightarrow> bytes \<Rightarrow> nat \<Rightarrow> bytes option" where
  "ultrawidelock_hkdf salt ikm info out_len =
     ultrawidelock_hkdf_expand (ultrawidelock_hkdf_extract salt ikm) info out_len"

fun x963_loop :: "bytes \<Rightarrow> bytes \<Rightarrow> u32 \<Rightarrow> nat \<Rightarrow> bytes" where
  "x963_loop z info counter left =
     (if left = 0 then []
      else let digest = sha_of ([z, put_u32 counter] @ (if info \<noteq> [] then [info] else [])); n = min left SHA256_LEN
           in take n digest @ x963_loop z info (counter + 1) (left - n))"

declare x963_loop.simps [simp del]

definition ultrawidelock_x963_kdf :: "bytes \<Rightarrow> bytes \<Rightarrow> nat \<Rightarrow> bytes option" where
  "ultrawidelock_x963_kdf z info out_len =
     (if out_len > 0xffffffff - SHA256_LEN then None else Some (x963_loop z info 1 out_len))"

end
