(* ===== verification/Cred_Codec.thy ===== *)
theory Cred_Codec
  imports Prelude
begin

text \<open>
  The wire codec of the credential protocol (\<^verbatim>\<open>modules/ultrawidelock_cred/src/ultrawidelock_apdu.c\<close> and
  \<^verbatim>\<open>ultrawidelock_tlv.c\<close>): the latching TLV writer, the lenient reader the responses go through, the command
  builders, the APDU and the BLE envelope, and the strict DER reader and writer. A buffer with a
  length is a list; a value pointer into a buffer is the value. \<^verbatim>\<open>size_t\<close> has 32 bits.
\<close>

section \<open>Constants\<close>

abbreviation TAG_EXP_PHASE :: u8 where "TAG_EXP_PHASE \<equiv> 0x41"
abbreviation TAG_USER_POL :: u8 where "TAG_USER_POL \<equiv> 0x42"
abbreviation TAG_VERSION :: u8 where "TAG_VERSION \<equiv> 0x5C"
abbreviation TAG_READER_EPH :: u8 where "TAG_READER_EPH \<equiv> 0x87"
abbreviation TAG_TXID :: u8 where "TAG_TXID \<equiv> 0x4C"
abbreviation TAG_READER_ID :: u8 where "TAG_READER_ID \<equiv> 0x4D"
abbreviation TAG_SIG :: u8 where "TAG_SIG \<equiv> 0x9E"
abbreviation TAG_DEVICE_PUBX :: u8 where "TAG_DEVICE_PUBX \<equiv> 0x86"
abbreviation TAG_USAGE :: u8 where "TAG_USAGE \<equiv> 0x93"
abbreviation TAG_DEVICE_PUB :: u8 where "TAG_DEVICE_PUB \<equiv> 0x5A"
abbreviation TAG_STATUS :: u8 where "TAG_STATUS \<equiv> 0x97"
abbreviation TAG_URSK_READY :: u8 where "TAG_URSK_READY \<equiv> 0x98"
abbreviation INS_AUTH0 :: u8 where "INS_AUTH0 \<equiv> 0x80"
abbreviation INS_AUTH1 :: u8 where "INS_AUTH1 \<equiv> 0x81"
abbreviation INS_EXCHANGE :: u8 where "INS_EXCHANGE \<equiv> 0xC9"
abbreviation PROTO_ACCESS :: u8 where "PROTO_ACCESS \<equiv> 0"
abbreviation PROTO_NOTIFICATION :: u8 where "PROTO_NOTIFICATION \<equiv> 2"
abbreviation AP_OP_COMMAND :: u8 where "AP_OP_COMMAND \<equiv> 0"
abbreviation AP_OP_RESPONSE :: u8 where "AP_OP_RESPONSE \<equiv> 1"
abbreviation NOTIF_EVENT :: u8 where "NOTIF_EVENT \<equiv> 0"
abbreviation NOTIF_INITIATE_AP :: u8 where "NOTIF_INITIATE_AP \<equiv> 5"
abbreviation ENVELOPE_HDR :: nat where "ENVELOPE_HDR \<equiv> 4"

definition k_reader_usage :: bytes where "k_reader_usage = [0x41, 0x5D, 0x95, 0x69]"
definition k_user_device_usage :: bytes where "k_user_device_usage = [0x4E, 0x88, 0x7B, 0x4C]"

section \<open>The latching writer\<close>

record tlv_w =
  tw_buf :: bytes
  tw_cap :: nat
  tw_err :: bool

definition ultrawidelock_tlv_w_init :: "nat \<Rightarrow> tlv_w" where
  "ultrawidelock_tlv_w_init cap = \<lparr>tw_buf = [], tw_cap = cap, tw_err = False\<rparr>"

definition w_byte :: "tlv_w \<Rightarrow> u8 \<Rightarrow> tlv_w" where
  "w_byte w b = (if length (tw_buf w) \<ge> tw_cap w then w\<lparr>tw_err := True\<rparr> else w\<lparr>tw_buf := tw_buf w @ [b]\<rparr>)"

definition w_len :: "tlv_w \<Rightarrow> nat \<Rightarrow> tlv_w" where
  "w_len w len =
     (if len < 0x80 then w_byte w (of_nat len)
      else if len \<le> 0xff then w_byte (w_byte w 0x81) (of_nat len)
      else w_byte (w_byte (w_byte w 0x82) (of_nat (len div 256))) (of_nat len))"

definition ultrawidelock_tlv_put :: "tlv_w \<Rightarrow> u8 \<Rightarrow> bytes \<Rightarrow> tlv_w" where
  "ultrawidelock_tlv_put w tag val = foldl w_byte (w_len (w_byte w tag) (length val)) val"

definition ultrawidelock_tlv_put_u8 :: "tlv_w \<Rightarrow> u8 \<Rightarrow> u8 \<Rightarrow> tlv_w" where
  "ultrawidelock_tlv_put_u8 w tag v = ultrawidelock_tlv_put w tag [v]"

definition ultrawidelock_tlv_put_u16 :: "tlv_w \<Rightarrow> u8 \<Rightarrow> u16 \<Rightarrow> tlv_w" where
  "ultrawidelock_tlv_put_u16 w tag v = ultrawidelock_tlv_put w tag (put_u16 v)"

definition ultrawidelock_tlv_put_empty :: "tlv_w \<Rightarrow> u8 \<Rightarrow> tlv_w" where
  "ultrawidelock_tlv_put_empty w tag = w_len (w_byte w tag) 0"

definition ultrawidelock_tlv_w_finish :: "tlv_w \<Rightarrow> bytes option" where
  "ultrawidelock_tlv_w_finish w = (if tw_err w then None else Some (tw_buf w))"

section \<open>The reader\<close>

text \<open>One item at a position: its tag, its value and the position after it.\<close>

definition tlv_read :: "bytes \<Rightarrow> nat \<Rightarrow> (u8 \<times> bytes \<times> nat) option" where
  "tlv_read buf pos =
     (if pos + 2 > length buf then None
      else
        let t = buf ! pos; l0 = buf ! (pos + 1); p = pos + 2;
            body = (\<lambda>p len. if p + len > length buf then None else Some (t, take len (drop p buf), p + len))
        in if l0 < 0x80 then body p (unat l0)
           else if l0 = 0x81 then (if p + 1 > length buf then None else body (p + 1) (unat (buf ! p)))
           else if l0 = 0x82 then (if p + 2 > length buf then None else body (p + 2) (unat (buf ! p) * 256 + unat (buf ! (p + 1))))
           else None)"

lemma tlv_read_advances: "tlv_read buf pos = Some (t, v, pos') \<Longrightarrow> pos + 2 \<le> pos' \<and> pos' \<le> length buf"
  by (auto simp: tlv_read_def Let_def split: if_splits)

function tlv_find_from :: "bytes \<Rightarrow> u8 \<Rightarrow> nat \<Rightarrow> bytes option" where
  "tlv_find_from buf tag pos =
     (case tlv_read buf pos of None \<Rightarrow> None
      | Some (t, v, pos') \<Rightarrow> if t = tag then Some v else tlv_find_from buf tag pos')"
  by pat_completeness auto
termination
  by (relation "measure (\<lambda>(buf, tag, pos). length buf - pos)") (auto dest!: tlv_read_advances)

declare tlv_find_from.simps [simp del]

definition ultrawidelock_tlv_find :: "bytes \<Rightarrow> u8 \<Rightarrow> bytes option" where
  "ultrawidelock_tlv_find buf tag = tlv_find_from buf tag 0"

section \<open>Command builders\<close>

definition ultrawidelock_apdu_build_auth0 :: "u8 \<Rightarrow> u8 \<Rightarrow> u16 \<Rightarrow> bytes \<Rightarrow> bytes \<Rightarrow> bytes \<Rightarrow> nat \<Rightarrow> bytes option" where
  "ultrawidelock_apdu_build_auth0 exp_phase user_policy version reader_eph_pub txid reader_id cap =
     (let w = ultrawidelock_tlv_w_init cap;
          w = ultrawidelock_tlv_put_u8 w TAG_EXP_PHASE exp_phase;
          w = ultrawidelock_tlv_put_u8 w TAG_USER_POL user_policy;
          w = ultrawidelock_tlv_put_u16 w TAG_VERSION version;
          w = ultrawidelock_tlv_put w TAG_READER_EPH reader_eph_pub;
          w = ultrawidelock_tlv_put w TAG_TXID txid;
          w = ultrawidelock_tlv_put w TAG_READER_ID reader_id
      in ultrawidelock_tlv_w_finish w)"

definition ultrawidelock_apdu_build_auth1 :: "u8 \<Rightarrow> bytes \<Rightarrow> nat \<Rightarrow> bytes option" where
  "ultrawidelock_apdu_build_auth1 cred_type sig cap =
     (let w = ultrawidelock_tlv_w_init cap;
          w = ultrawidelock_tlv_put_u8 w TAG_EXP_PHASE cred_type;
          w = ultrawidelock_tlv_put w TAG_SIG sig
      in ultrawidelock_tlv_w_finish w)"

definition ultrawidelock_apdu_build_authdata :: "bool \<Rightarrow> bytes \<Rightarrow> bytes \<Rightarrow> bytes \<Rightarrow> bytes \<Rightarrow> nat \<Rightarrow> bytes option" where
  "ultrawidelock_apdu_build_authdata reader_usage reader_id device_pubx reader_eph_pubx txid cap =
     (let w = ultrawidelock_tlv_w_init cap;
          w = ultrawidelock_tlv_put w TAG_READER_ID reader_id;
          w = ultrawidelock_tlv_put w TAG_DEVICE_PUBX device_pubx;
          w = ultrawidelock_tlv_put w TAG_READER_EPH reader_eph_pubx;
          w = ultrawidelock_tlv_put w TAG_TXID txid;
          w = ultrawidelock_tlv_put w TAG_USAGE (if reader_usage then k_reader_usage else k_user_device_usage)
      in ultrawidelock_tlv_w_finish w)"

definition ultrawidelock_apdu_build_exchange :: "bool \<Rightarrow> u16 \<Rightarrow> bool \<Rightarrow> nat \<Rightarrow> bytes option" where
  "ultrawidelock_apdu_build_exchange have_status reader_status ursk_ready cap =
     (let w = ultrawidelock_tlv_w_init cap;
          w = (if have_status then ultrawidelock_tlv_put_u16 w TAG_STATUS reader_status else w);
          w = (if ursk_ready then ultrawidelock_tlv_put_empty w TAG_URSK_READY else w)
      in ultrawidelock_tlv_w_finish w)"

definition ultrawidelock_apdu_wrap :: "u8 \<Rightarrow> bytes \<Rightarrow> nat \<Rightarrow> bytes option" where
  "ultrawidelock_apdu_wrap ins tlv cap =
     (if length tlv = 0 \<or> length tlv > 0xff \<or> cap < 6 + length tlv then None
      else Some ([0x80, ins, 0, 0, of_nat (length tlv)] @ tlv @ [0]))"

section \<open>Responses\<close>

definition ultrawidelock_apdu_strip_sw :: "bytes \<Rightarrow> (bytes \<times> u16) option" where
  "ultrawidelock_apdu_strip_sw buf =
     (if length buf < 2 then None
      else let n = length buf - 2 in Some (take n buf, get_u16 (drop n buf)))"

record auth0_response =
  a0_device_eph_pub :: bytes
  a0_have_cryptogram :: bool
  a0_cryptogram :: bytes

definition ultrawidelock_apdu_parse_auth0_response :: "bytes \<Rightarrow> auth0_response option" where
  "ultrawidelock_apdu_parse_auth0_response buf =
     (case ultrawidelock_tlv_find buf TAG_DEVICE_PUBX of
        None \<Rightarrow> None
      | Some v \<Rightarrow>
          if length v \<noteq> 65 then None
          else Some (case ultrawidelock_tlv_find buf 0x9D of
                 Some c \<Rightarrow> if length c = 64 then \<lparr>a0_device_eph_pub = v, a0_have_cryptogram = True, a0_cryptogram = c\<rparr>
                           else \<lparr>a0_device_eph_pub = v, a0_have_cryptogram = False, a0_cryptogram = replicate 64 0\<rparr>
               | None \<Rightarrow> \<lparr>a0_device_eph_pub = v, a0_have_cryptogram = False, a0_cryptogram = replicate 64 0\<rparr>))"

record auth1_response =
  a1_have_device_pub :: bool
  a1_device_pub :: bytes
  a1_device_sig :: bytes
  a1_signaling :: u16

definition ultrawidelock_apdu_parse_auth1_response :: "bytes \<Rightarrow> auth1_response option" where
  "ultrawidelock_apdu_parse_auth1_response buf =
     (case ultrawidelock_tlv_find buf TAG_SIG of
        None \<Rightarrow> None
      | Some s \<Rightarrow>
          if length s \<noteq> 64 then None
          else
            let pub = (case ultrawidelock_tlv_find buf TAG_DEVICE_PUB of
                         Some v \<Rightarrow> if length v = 65 then Some v else None | None \<Rightarrow> None);
                sg = (case ultrawidelock_tlv_find buf 0x5E of
                        Some v \<Rightarrow> if length v = 2 then get_u16 v else 0 | None \<Rightarrow> 0)
            in Some \<lparr>a1_have_device_pub = (pub \<noteq> None),
                     a1_device_pub = (case pub of Some v \<Rightarrow> v | None \<Rightarrow> replicate 65 0),
                     a1_device_sig = s, a1_signaling = sg\<rparr>)"

section \<open>The BLE envelope\<close>

definition ultrawidelock_ble_frame :: "u8 \<Rightarrow> u8 \<Rightarrow> bytes \<Rightarrow> nat \<Rightarrow> bytes option" where
  "ultrawidelock_ble_frame type opcode payload cap =
     (let plen = length payload
      in if plen > 0xffff \<or> cap < ENVELOPE_HDR + plen then None
         else Some ([type AND 0x3F, opcode, of_nat (plen div 256), of_nat plen] @ payload))"

definition ultrawidelock_ble_unframe :: "bytes \<Rightarrow> (u8 \<times> u8 \<times> bytes) option" where
  "ultrawidelock_ble_unframe buf =
     (if length buf < ENVELOPE_HDR then None
      else
        let p = unat (buf ! 2) * 256 + unat (buf ! 3)
        in if p + ENVELOPE_HDR > length buf then None
           else Some (buf ! 0 AND 0x3F, buf ! 1, take p (drop ENVELOPE_HDR buf)))"

section \<open>The strict DER codec\<close>

record cred_tlv =
  ct_tag :: u32
  ct_value :: bytes
  ct_encoded_length :: nat

datatype tlv_next = Tlv_Ok cred_tlv nat | Tlv_End | Tlv_Invalid

text \<open>The continuation octets of a high-tag-number tag: the tag so far, the number of octets read
  and the cursor.\<close>

fun tag_more :: "bytes \<Rightarrow> nat \<Rightarrow> u32 \<Rightarrow> nat \<Rightarrow> nat \<Rightarrow> (u32 \<times> nat) option" where
  "tag_more data 0 tag octets cursor = None"
| "tag_more data (Suc room) tag octets cursor =
     (if cursor \<ge> length data then None
      else
        let octet = data ! cursor
        in if octets = 1 \<and> octet AND 0x7f = 0 then None
           else
             let tag' = push_bit 8 tag OR ucast octet
             in if octet AND 0x80 \<noteq> 0 then tag_more data room tag' (octets + 1) (cursor + 1)
                else Some (tag', cursor + 1))"

definition SIZE_MAX :: nat where "SIZE_MAX = 2 ^ 32 - 1"

fun length_more :: "bytes \<Rightarrow> nat \<Rightarrow> nat \<Rightarrow> nat \<Rightarrow> (nat \<times> nat) option" where
  "length_more data 0 value_length cursor = Some (value_length, cursor)"
| "length_more data (Suc n) value_length cursor =
     (if value_length > SIZE_MAX div 256 then None
      else length_more data n (value_length * 256 + unat (data ! cursor)) (cursor + 1))"

definition der_tag :: "bytes \<Rightarrow> nat \<Rightarrow> (u32 \<times> nat) option" where
  "der_tag data start =
     (let tag = ucast (data ! start) :: u32
      in if tag AND 0x1f = 0x1f then tag_more data 3 tag 1 (start + 1) else Some (tag, start + 1))"

definition der_length :: "bytes \<Rightarrow> nat \<Rightarrow> (nat \<times> nat) option" where
  "der_length data cursor =
     (if cursor \<ge> length data then None
      else
        let first_length = data ! cursor; cursor = cursor + 1
        in if first_length AND 0x80 = 0 then Some (unat first_length, cursor)
           else
             let length_octets = unat (first_length AND 0x7f)
             in if length_octets = 0 \<or> length_octets > 4 \<or> cursor + length_octets > length data \<or> data ! cursor = 0 then None
                else case length_more data length_octets 0 cursor of None \<Rightarrow> None
                     | Some (n, c) \<Rightarrow> if n < 128 then None else Some (n, c))"

definition ultrawidelock_cred_tlv_next :: "bytes \<Rightarrow> nat \<Rightarrow> tlv_next" where
  "ultrawidelock_cred_tlv_next data offset =
     (if offset > length data then Tlv_Invalid
      else if offset = length data then Tlv_End
      else case der_tag data offset of None \<Rightarrow> Tlv_Invalid
        | Some (tag, cursor) \<Rightarrow>
          (case der_length data cursor of None \<Rightarrow> Tlv_Invalid
           | Some (n, cursor) \<Rightarrow>
               if n > length data - cursor then Tlv_Invalid
               else Tlv_Ok \<lparr>ct_tag = tag, ct_value = take n (drop cursor data), ct_encoded_length = cursor + n - offset\<rparr> (cursor + n)))"

definition tag_size :: "u32 \<Rightarrow> nat" where
  "tag_size tag = (if tag \<le> 0xff then 1 else if tag \<le> 0xffff then 2 else if tag \<le> 0xffffff then 3 else 0)"

definition length_size :: "nat \<Rightarrow> nat" where
  "length_size n = (if n < 0x80 then 1 else if n \<le> 0xff then 2 else if n \<le> 0xffff then 3 else 0)"

definition ultrawidelock_cred_tlv_encoded_size :: "u32 \<Rightarrow> nat \<Rightarrow> nat" where
  "ultrawidelock_cred_tlv_encoded_size tag value_length =
     (let ts = tag_size tag; ls = length_size value_length
      in if ts = 0 \<or> ls = 0 \<or> value_length > SIZE_MAX - ts - ls then 0 else ts + ls + value_length)"

definition tlv_tag_bytes :: "u32 \<Rightarrow> bytes" where
  "tlv_tag_bytes tag = map (\<lambda>i. ucast (drop_bit (8 * (tag_size tag - i - 1)) tag)) [0..<tag_size tag]"

definition tlv_length_bytes :: "nat \<Rightarrow> bytes" where
  "tlv_length_bytes n =
     (if n < 0x80 then [of_nat n] else if n \<le> 0xff then [0x81, of_nat n] else [0x82, of_nat (n div 256), of_nat n])"

text \<open>The buffer is the list of its bytes, the capacity its length; the result is the buffer and the
  offset after the item.\<close>

definition ultrawidelock_cred_tlv_write :: "bytes \<Rightarrow> nat \<Rightarrow> u32 \<Rightarrow> bytes \<Rightarrow> (bytes \<times> nat) option" where
  "ultrawidelock_cred_tlv_write data offset tag value =
     (let total = ultrawidelock_cred_tlv_encoded_size tag (length value)
      in if total = 0 \<or> offset > length data \<or> total > length data - offset then None
         else Some (overwrite data offset (tlv_tag_bytes tag @ tlv_length_bytes (length value) @ value), offset + total))"

end
