(* ===== verification/Cred_Crypto.thy ===== *)
theory Cred_Crypto
  imports Hash Cred_Codec
begin

text \<open>
  The key schedule and the sealed channels of the credential protocol
  (\<^verbatim>\<open>modules/ultrawidelock_cred/src/ultrawidelock_crypto.c\<close>). The primitives below it
  (\<^verbatim>\<open>ultrawidelock_prim.h\<close>: AES-256-GCM, P-256) are a parameter, the record \<open>prim\<close>: each
  operation answers \<^term>\<open>None\<close> or \<^term>\<open>False\<close> where the C function returns an error.
\<close>

abbreviation KEY_BLOCK_LEN :: nat where "KEY_BLOCK_LEN \<equiv> 160"
abbreviation URSK_OFFSET :: nat where "URSK_OFFSET \<equiv> 128"
abbreviation URSK_LEN :: nat where "URSK_LEN \<equiv> 32"
abbreviation SESSION_KEY_LEN :: nat where "SESSION_KEY_LEN \<equiv> 32"
abbreviation BLESK_OFFSET :: nat where "BLESK_OFFSET \<equiv> 96"
abbreviation GCM_NONCE_LEN :: nat where "GCM_NONCE_LEN \<equiv> 12"
abbreviation GCM_TAG_LEN :: nat where "GCM_TAG_LEN \<equiv> 16"
abbreviation SALT_MAX :: nat where "SALT_MAX \<equiv> 256"
abbreviation IFACE_BLE :: u8 where "IFACE_BLE \<equiv> 0xC3"

record prim =
  gcm_encrypt :: "bytes \<Rightarrow> bytes \<Rightarrow> bytes \<Rightarrow> bytes \<Rightarrow> (bytes \<times> bytes) option"
  gcm_decrypt :: "bytes \<Rightarrow> bytes \<Rightarrow> bytes \<Rightarrow> bytes \<Rightarrow> bytes \<Rightarrow> bytes option"
  ec_pub_from_priv :: "bytes \<Rightarrow> bytes option"
  ecdh :: "bytes \<Rightarrow> bytes \<Rightarrow> bytes option"
  ecdsa_sign :: "bytes \<Rightarrow> bytes \<Rightarrow> bytes option"
  ecdsa_verify :: "bytes \<Rightarrow> bytes \<Rightarrow> bytes \<Rightarrow> bool"

section \<open>Key schedule\<close>

definition ultrawidelock_crypto_ursk_from_block :: "bytes \<Rightarrow> bytes" where
  "ultrawidelock_crypto_ursk_from_block block = take URSK_LEN (drop URSK_OFFSET block)"

text \<open>The source ignores the return code of the derivation; 32 bytes are always in range.\<close>

definition ultrawidelock_crypto_derive_z :: "bytes \<Rightarrow> bytes \<Rightarrow> bytes" where
  "ultrawidelock_crypto_derive_z shared_secret txid =
     (case ultrawidelock_x963_kdf shared_secret txid 32 of Some z \<Rightarrow> z | None \<Rightarrow> [])"

definition ultrawidelock_crypto_derive_block :: "bytes \<Rightarrow> bytes \<Rightarrow> bytes \<Rightarrow> bytes option" where
  "ultrawidelock_crypto_derive_block z salt device_pub_x = ultrawidelock_hkdf salt z device_pub_x KEY_BLOCK_LEN"

definition ultrawidelock_crypto_derive_key32 :: "bytes \<Rightarrow> bytes \<Rightarrow> bytes \<Rightarrow> bytes option" where
  "ultrawidelock_crypto_derive_key32 z salt device_pub_x = ultrawidelock_hkdf salt z device_pub_x 32"

definition ultrawidelock_crypto_split :: "bytes \<Rightarrow> bool \<Rightarrow> bytes \<times> bytes \<times> bytes" where
  "ultrawidelock_crypto_split block with_c =
     (let base = (if with_c then 0 else 32)
      in (take SESSION_KEY_LEN (drop base block), take SESSION_KEY_LEN (drop (base + 32) block),
          take URSK_LEN (drop URSK_OFFSET block)))"

definition ultrawidelock_crypto_verify_cryptogram :: "prim \<Rightarrow> bytes \<Rightarrow> bytes \<Rightarrow> bytes option" where
  "ultrawidelock_crypto_verify_cryptogram P cryptogram_sk cryptogram =
     (if length cryptogram < GCM_TAG_LEN then None
      else let ct_len = length cryptogram - GCM_TAG_LEN
           in gcm_decrypt P cryptogram_sk (replicate GCM_NONCE_LEN 0) [] (take ct_len cryptogram) (drop ct_len cryptogram))"

section \<open>The secure channel\<close>

record secchan =
  sc_enc_key :: bytes
  sc_dec_key :: bytes
  sc_enc_ctr :: u32
  sc_dec_ctr :: u32

definition ultrawidelock_secchan_init :: "bytes \<Rightarrow> bytes \<Rightarrow> secchan" where
  "ultrawidelock_secchan_init enc_key dec_key = \<lparr>sc_enc_key = enc_key, sc_dec_key = dec_key, sc_enc_ctr = 1, sc_dec_ctr = 1\<rparr>"

definition ultrawidelock_crypto_gcm_nonce :: "u64 \<Rightarrow> u32 \<Rightarrow> bytes" where
  "ultrawidelock_crypto_gcm_nonce direction counter =
     map (\<lambda>i. ucast (drop_bit (56 - i * 8) direction)) [0..<8] @
     [ucast (drop_bit 24 counter), ucast (drop_bit 16 counter), ucast (drop_bit 8 counter), ucast counter]"

definition ultrawidelock_secchan_seal :: "prim \<Rightarrow> secchan \<Rightarrow> bytes \<Rightarrow> bytes \<Rightarrow> secchan \<times> (bytes \<times> bytes) option" where
  "ultrawidelock_secchan_seal P sc aad pt =
     (if sc_enc_ctr sc = 0xffffffff then (sc, None)
      else case gcm_encrypt P (sc_enc_key sc) (ultrawidelock_crypto_gcm_nonce 0 (sc_enc_ctr sc)) aad pt of
             None \<Rightarrow> (sc, None)
           | Some r \<Rightarrow> (sc\<lparr>sc_enc_ctr := sc_enc_ctr sc + 1\<rparr>, Some r))"

definition ultrawidelock_secchan_open :: "prim \<Rightarrow> secchan \<Rightarrow> bytes \<Rightarrow> bytes \<Rightarrow> bytes \<Rightarrow> secchan \<times> bytes option" where
  "ultrawidelock_secchan_open P sc aad ct tag =
     (if sc_dec_ctr sc = 0xffffffff then (sc, None)
      else case gcm_decrypt P (sc_dec_key sc) (ultrawidelock_crypto_gcm_nonce 1 (sc_dec_ctr sc)) aad ct tag of
             None \<Rightarrow> (sc, None)
           | Some pt \<Rightarrow> (sc\<lparr>sc_dec_ctr := sc_dec_ctr sc + 1\<rparr>, Some pt))"

definition ble_sk_reader :: bytes where "ble_sk_reader = [0x42, 0x6C, 0x65, 0x53, 0x4B, 0x52, 0x65, 0x61, 0x64, 0x65, 0x72]"
definition ble_sk_device :: bytes where "ble_sk_device = [0x42, 0x6C, 0x65, 0x53, 0x4B, 0x44, 0x65, 0x76, 0x69, 0x63, 0x65]"

definition ultrawidelock_crypto_derive_ble_keys :: "bytes \<Rightarrow> bytes \<Rightarrow> (bytes \<times> bytes) option" where
  "ultrawidelock_crypto_derive_ble_keys block salt =
     (let ble_sk = take 32 (drop BLESK_OFFSET block)
      in case ultrawidelock_hkdf salt ble_sk ble_sk_reader SESSION_KEY_LEN of
           None \<Rightarrow> None
         | Some r \<Rightarrow> (case ultrawidelock_hkdf salt ble_sk ble_sk_device SESSION_KEY_LEN of
                        None \<Rightarrow> None | Some d \<Rightarrow> Some (r, d)))"

text \<open>Framed messages. The 16-bit wire length wraps, as the cast in the source does.\<close>

definition ultrawidelock_msg_seal :: "prim \<Rightarrow> secchan \<Rightarrow> bytes \<Rightarrow> nat \<Rightarrow> secchan \<times> bytes option" where
  "ultrawidelock_msg_seal P sc plain wire_cap =
     (if length plain < 4 then (sc, None)
      else
        let len_plain = length plain - 4
        in if unat (plain ! 2) * 256 + unat (plain ! 3) \<noteq> len_plain then (sc, None)
           else if 4 + len_plain + GCM_TAG_LEN > wire_cap then (sc, None)
           else
             let wlen = of_nat (len_plain + GCM_TAG_LEN) :: u16
             in case ultrawidelock_secchan_seal P sc (take 4 plain) (drop 4 plain) of
                  (sc', None) \<Rightarrow> (sc', None)
                | (sc', Some (ct, tag)) \<Rightarrow> (sc', Some ([plain ! 0, plain ! 1, ucast (drop_bit 8 wlen), ucast wlen] @ ct @ tag)))"

definition ultrawidelock_msg_open :: "prim \<Rightarrow> secchan \<Rightarrow> bytes \<Rightarrow> nat \<Rightarrow> secchan \<times> bytes option" where
  "ultrawidelock_msg_open P sc wire plain_cap =
     (if length wire < 4 + GCM_TAG_LEN then (sc, None)
      else
        let len_wire = unat (wire ! 2) * 256 + unat (wire ! 3)
        in if len_wire + 4 \<noteq> length wire \<or> len_wire < GCM_TAG_LEN then (sc, None)
           else
             let len_plain = len_wire - GCM_TAG_LEN
             in if 4 + len_plain > plain_cap then (sc, None)
                else
                  let aad = [wire ! 0, wire ! 1, of_nat (len_plain div 256), of_nat len_plain]
                  in case ultrawidelock_secchan_open P sc aad (take len_plain (drop 4 wire)) (drop (4 + len_plain) wire) of
                       (sc', None) \<Rightarrow> (sc', None)
                     | (sc', Some pt) \<Rightarrow> (sc', Some (aad @ pt)))"

section \<open>Salts\<close>

datatype salt_type = SALT_CRYPTOGRAM | SALT_SESSION | SALT_KPERSISTENT

primrec salt_type_val :: "salt_type \<Rightarrow> nat" where
  "salt_type_val SALT_CRYPTOGRAM = 0"
| "salt_type_val SALT_SESSION = 1"
| "salt_type_val SALT_KPERSISTENT = 2"

text \<open>\<^verbatim>\<open>VolatileFastVolatile****Persistent**\<close>\<close>

definition k_salt_label :: bytes where
  "k_salt_label =
     [0x56, 0x6F, 0x6C, 0x61, 0x74, 0x69, 0x6C, 0x65, 0x46, 0x61, 0x73, 0x74,
      0x56, 0x6F, 0x6C, 0x61, 0x74, 0x69, 0x6C, 0x65, 0x2A, 0x2A, 0x2A, 0x2A,
      0x50, 0x65, 0x72, 0x73, 0x69, 0x73, 0x74, 0x65, 0x6E, 0x74, 0x2A, 0x2A]"

definition k_salt_const :: bytes where "k_salt_const = [0x5c, 0x02]"

text \<open>Appending with a bound: the flag is the accumulated error code.\<close>

definition salt_append :: "bytes \<times> bool \<Rightarrow> bytes \<Rightarrow> bytes \<times> bool" where
  "salt_append st src = (case st of (out, bad) \<Rightarrow> if length out + length src > SALT_MAX then (out, True) else (out @ src, bad))"

definition ultrawidelock_salt_build ::
  "salt_type \<Rightarrow> bytes \<Rightarrow> bytes \<Rightarrow> bytes \<Rightarrow> bytes \<Rightarrow> u8 \<Rightarrow> u16 \<Rightarrow> u8 \<Rightarrow> u8 \<Rightarrow> bytes option \<Rightarrow> bytes \<Rightarrow> bytes option" where
  "ultrawidelock_salt_build type txid span_s1 reader_value reader_id interface_byte proto_version exp_phase_type user_auth_policy s3opt a5_tlv =
     (let st = salt_append ([], False) span_s1;
          st = salt_append st (take 12 (drop (salt_type_val type * 12) k_salt_label));
          st = salt_append st reader_id;
          st = salt_append st [interface_byte];
          st = salt_append st k_salt_const;
          st = salt_append st (put_u16 proto_version);
          st = salt_append st reader_value;
          st = salt_append st txid;
          st = salt_append st [exp_phase_type, user_auth_policy];
          st = (if a5_tlv \<noteq> [] then salt_append st a5_tlv else st);
          st = (case s3opt of Some x \<Rightarrow> if type \<noteq> SALT_SESSION then salt_append st x else st | None \<Rightarrow> st)
      in if snd st then None else Some (fst st))"

end
