(* ===== verification/Cred_Device.thy ===== *)
theory Cred_Device
  imports Cred_Crypto Cred_Codec
begin

text \<open>
  The initiator (phone) side of the credential protocol as the repository implements it
  (\<^verbatim>\<open>modules/ultrawidelock_cred/src/ultrawidelock_device.c\<close> and \<^verbatim>\<open>ultrawidelock_device_apdu.c\<close>): the inverse
  codec, the mirrored channels, the session derivation and the command handler. The key pair a call
  of the key generator answers is an argument of the handler.
\<close>

section \<open>Inverse codec\<close>

definition ultrawidelock_apdu_unwrap :: "bytes \<Rightarrow> (u8 \<times> bytes) option" where
  "ultrawidelock_apdu_unwrap apdu =
     (if length apdu < 5 \<or> apdu ! 0 \<noteq> 0x80 then None
      else let lc = unat (apdu ! 4)
           in if 5 + lc > length apdu then None else Some (apdu ! 1, take lc (drop 5 apdu)))"

definition ultrawidelock_apdu_append_sw :: "bytes \<Rightarrow> nat \<Rightarrow> u16 \<Rightarrow> bytes option" where
  "ultrawidelock_apdu_append_sw buf cap sw = (if length buf + 2 > cap then None else Some (buf @ put_u16 sw))"

record auth0_command =
  c0_exp_phase :: u8
  c0_user_policy :: u8
  c0_version :: u16
  c0_reader_eph_pub :: bytes
  c0_txid :: bytes
  c0_reader_id :: bytes

definition tlv_exact :: "bytes \<Rightarrow> u8 \<Rightarrow> nat \<Rightarrow> bytes option" where
  "tlv_exact buf tag n = (case ultrawidelock_tlv_find buf tag of None \<Rightarrow> None | Some v \<Rightarrow> if length v = n then Some v else None)"

definition ultrawidelock_dev_parse_auth0_cmd :: "bytes \<Rightarrow> auth0_command option" where
  "ultrawidelock_dev_parse_auth0_cmd tlv =
     (case tlv_exact tlv TAG_EXP_PHASE 1 of None \<Rightarrow> None | Some ph \<Rightarrow>
     (case tlv_exact tlv TAG_USER_POL 1 of None \<Rightarrow> None | Some pol \<Rightarrow>
     (case tlv_exact tlv TAG_VERSION 2 of None \<Rightarrow> None | Some ver \<Rightarrow>
     (case tlv_exact tlv TAG_READER_EPH 65 of None \<Rightarrow> None | Some eph \<Rightarrow>
     (case tlv_exact tlv TAG_TXID 16 of None \<Rightarrow> None | Some txid \<Rightarrow>
     (case tlv_exact tlv TAG_READER_ID 32 of None \<Rightarrow> None | Some rid \<Rightarrow>
        Some \<lparr>c0_exp_phase = ph ! 0, c0_user_policy = pol ! 0, c0_version = get_u16 ver,
              c0_reader_eph_pub = eph, c0_txid = txid, c0_reader_id = rid\<rparr>))))))"

record auth1_command =
  c1_cred_type :: u8
  c1_reader_sig :: bytes

definition ultrawidelock_dev_parse_auth1_cmd :: "bytes \<Rightarrow> auth1_command option" where
  "ultrawidelock_dev_parse_auth1_cmd tlv =
     (let ct = (case tlv_exact tlv TAG_EXP_PHASE 1 of Some v \<Rightarrow> v ! 0 | None \<Rightarrow> 0)
      in case tlv_exact tlv TAG_SIG 64 of None \<Rightarrow> None | Some sig \<Rightarrow> Some \<lparr>c1_cred_type = ct, c1_reader_sig = sig\<rparr>)"

record exchange_command =
  ce_have_status :: bool
  ce_reader_status :: u16
  ce_ursk_ready :: bool

definition ultrawidelock_dev_parse_exchange_cmd :: "bytes \<Rightarrow> exchange_command" where
  "ultrawidelock_dev_parse_exchange_cmd plain =
     (let st = tlv_exact plain TAG_STATUS 2
      in \<lparr>ce_have_status = (st \<noteq> None), ce_reader_status = (case st of Some v \<Rightarrow> get_u16 v | None \<Rightarrow> 0),
          ce_ursk_ready = (ultrawidelock_tlv_find plain TAG_URSK_READY \<noteq> None)\<rparr>)"

definition ultrawidelock_dev_build_auth0_resp :: "bytes \<Rightarrow> bytes option \<Rightarrow> nat \<Rightarrow> bytes option" where
  "ultrawidelock_dev_build_auth0_resp device_eph_pub cryptogram64 cap =
     (let w = ultrawidelock_tlv_w_init cap;
          w = ultrawidelock_tlv_put w TAG_DEVICE_PUBX device_eph_pub;
          w = (case cryptogram64 of Some c \<Rightarrow> ultrawidelock_tlv_put w 0x9D c | None \<Rightarrow> w)
      in ultrawidelock_tlv_w_finish w)"

definition ultrawidelock_dev_build_auth1_resp :: "bytes \<Rightarrow> bytes option \<Rightarrow> nat \<Rightarrow> bytes option" where
  "ultrawidelock_dev_build_auth1_resp device_sig device_pub65 cap =
     (let w = ultrawidelock_tlv_w_init cap;
          w = ultrawidelock_tlv_put w TAG_SIG device_sig;
          w = (case device_pub65 of Some p \<Rightarrow> ultrawidelock_tlv_put w TAG_DEVICE_PUB p | None \<Rightarrow> w)
      in ultrawidelock_tlv_w_finish w)"

definition ultrawidelock_dev_build_exchange_resp :: "u16 \<Rightarrow> nat \<Rightarrow> bytes option" where
  "ultrawidelock_dev_build_exchange_resp error cap = (if cap < 4 then None else Some ([0, 2] @ put_u16 error))"

section \<open>Channels\<close>

record dev_secchan =
  ds_s0 :: bytes
  ds_s1 :: bytes
  ds_ctr_r2d :: u32
  ds_ctr_d2r :: u32

definition ultrawidelock_dev_secchan_init :: "bytes \<Rightarrow> bytes \<Rightarrow> dev_secchan" where
  "ultrawidelock_dev_secchan_init s0 s1 = \<lparr>ds_s0 = s0, ds_s1 = s1, ds_ctr_r2d = 1, ds_ctr_d2r = 1\<rparr>"

definition ultrawidelock_dev_secchan_open :: "prim \<Rightarrow> dev_secchan \<Rightarrow> bytes \<Rightarrow> bytes \<Rightarrow> dev_secchan \<times> bytes option" where
  "ultrawidelock_dev_secchan_open P sc ct tag =
     (case gcm_decrypt P (ds_s0 sc) (ultrawidelock_crypto_gcm_nonce 0 (ds_ctr_r2d sc)) [] ct tag of
        None \<Rightarrow> (sc, None)
      | Some pt \<Rightarrow> (sc\<lparr>ds_ctr_r2d := ds_ctr_r2d sc + 1\<rparr>, Some pt))"

definition ultrawidelock_dev_secchan_seal :: "prim \<Rightarrow> dev_secchan \<Rightarrow> bytes \<Rightarrow> dev_secchan \<times> (bytes \<times> bytes) option" where
  "ultrawidelock_dev_secchan_seal P sc pt =
     (case gcm_encrypt P (ds_s1 sc) (ultrawidelock_crypto_gcm_nonce 1 (ds_ctr_d2r sc)) [] pt of
        None \<Rightarrow> (sc, None)
      | Some r \<Rightarrow> (sc\<lparr>ds_ctr_d2r := ds_ctr_d2r sc + 1\<rparr>, Some r))"

definition ultrawidelock_dev_blesk_init :: "bytes \<Rightarrow> bytes \<Rightarrow> dev_secchan option" where
  "ultrawidelock_dev_blesk_init block versions_salt =
     (case ultrawidelock_crypto_derive_ble_keys block versions_salt of
        None \<Rightarrow> None | Some (ble_reader, ble_device) \<Rightarrow> Some (ultrawidelock_dev_secchan_init ble_reader ble_device))"

definition ultrawidelock_dev_ble_open :: "prim \<Rightarrow> dev_secchan \<Rightarrow> bytes \<Rightarrow> nat \<Rightarrow> dev_secchan \<times> bytes option" where
  "ultrawidelock_dev_ble_open P ch wire plain_cap =
     (if length wire < 4 + GCM_TAG_LEN then (ch, None)
      else
        let len_wire = unat (wire ! 2) * 256 + unat (wire ! 3)
        in if len_wire + 4 \<noteq> length wire \<or> len_wire < GCM_TAG_LEN then (ch, None)
           else
             let len_plain = len_wire - GCM_TAG_LEN
             in if 4 + len_plain > plain_cap then (ch, None)
                else
                  let aad = [wire ! 0, wire ! 1, of_nat (len_plain div 256), of_nat len_plain]
                  in case gcm_decrypt P (ds_s0 ch) (ultrawidelock_crypto_gcm_nonce 0 (ds_ctr_r2d ch)) aad
                            (take len_plain (drop 4 wire)) (drop (4 + len_plain) wire) of
                       None \<Rightarrow> (ch, None)
                     | Some pt \<Rightarrow> (ch\<lparr>ds_ctr_r2d := ds_ctr_r2d ch + 1\<rparr>, Some (aad @ pt)))"

definition ultrawidelock_dev_ble_seal :: "prim \<Rightarrow> dev_secchan \<Rightarrow> bytes \<Rightarrow> nat \<Rightarrow> dev_secchan \<times> bytes option" where
  "ultrawidelock_dev_ble_seal P ch plain wire_cap =
     (if length plain < 4 then (ch, None)
      else
        let len_plain = length plain - 4
        in if unat (plain ! 2) * 256 + unat (plain ! 3) \<noteq> len_plain then (ch, None)
           else if 4 + len_plain + GCM_TAG_LEN > wire_cap then (ch, None)
           else
             let wlen = of_nat (len_plain + GCM_TAG_LEN) :: u16
             in case gcm_encrypt P (ds_s1 ch) (ultrawidelock_crypto_gcm_nonce 1 (ds_ctr_d2r ch)) (take 4 plain) (drop 4 plain) of
                  None \<Rightarrow> (ch, None)
                | Some (ct, tag) \<Rightarrow>
                    (ch\<lparr>ds_ctr_d2r := ds_ctr_d2r ch + 1\<rparr>, Some ([plain ! 0, plain ! 1, ucast (drop_bit 8 wlen), ucast wlen] @ ct @ tag)))"

definition ultrawidelock_dev_seal_cryptogram :: "prim \<Rightarrow> bytes \<Rightarrow> bytes \<Rightarrow> bytes option" where
  "ultrawidelock_dev_seal_cryptogram P cryptogram_sk plain =
     (case gcm_encrypt P cryptogram_sk (replicate GCM_NONCE_LEN 0) [] plain of None \<Rightarrow> None | Some (ct, tag) \<Rightarrow> Some (ct @ tag))"

abbreviation DEV_VERSION :: u16 where "DEV_VERSION \<equiv> 0x0100"

definition ultrawidelock_device_derive_session ::
  "bytes \<Rightarrow> bytes \<Rightarrow> bytes \<Rightarrow> bytes \<Rightarrow> bytes \<Rightarrow> u8 \<Rightarrow> bytes \<Rightarrow> bytes \<Rightarrow> (dev_secchan \<times> bytes \<times> bytes) option" where
  "ultrawidelock_device_derive_session shared_x txid reader_group_x reader_eph_x reader_id exp_phase a5 device_eph_x =
     (let z = ultrawidelock_crypto_derive_z shared_x txid
      in case ultrawidelock_salt_build SALT_SESSION txid reader_group_x reader_eph_x reader_id IFACE_BLE DEV_VERSION exp_phase 1 None a5 of
           None \<Rightarrow> None
         | Some salt \<Rightarrow>
             (case ultrawidelock_crypto_derive_block z salt device_eph_x of
                None \<Rightarrow> None
              | Some block \<Rightarrow>
                  (case ultrawidelock_crypto_split block True of
                     (enc, dec, ursk) \<Rightarrow> Some (ultrawidelock_dev_secchan_init enc dec, ursk, block))))"

section \<open>The command handler\<close>

datatype device_phase = DEV_IDLE | DEV_SENT_AUTH0_RESP | DEV_SENT_AUTH1_RESP | DEV_ESTABLISHED | DEV_FAILED

record device =
  dv_cred_priv :: bytes
  dv_cred_pub :: bytes
  dv_reader_id :: bytes
  dv_reader_verif_pub :: bytes
  dv_reader_group_x :: bytes
  dv_eph_priv :: bytes
  dv_eph_pub :: bytes
  dv_reader_eph_pub :: bytes
  dv_txid :: bytes
  dv_exp_phase :: u8
  dv_version :: u16
  dv_ursk :: bytes
  dv_sc :: dev_secchan
  dv_sc_ble :: dev_secchan
  dv_blesk_salt :: bytes
  dv_a5 :: bytes
  dv_phase :: device_phase

definition k_a5_csa_v1 :: bytes where
  "k_a5_csa_v1 = [0xa5, 0x08, 0x80, 0x02, 0x00, 0x00, 0x5c, 0x02, 0x01, 0x00]"

definition dev_secchan_zero :: dev_secchan where
  "dev_secchan_zero = \<lparr>ds_s0 = replicate 32 0, ds_s1 = replicate 32 0, ds_ctr_r2d = 0, ds_ctr_d2r = 0\<rparr>"

definition ultrawidelock_device_init :: "prim \<Rightarrow> bytes \<Rightarrow> bytes \<Rightarrow> bytes \<Rightarrow> device option" where
  "ultrawidelock_device_init P cred_priv reader_id reader_verif_pub =
     (case ec_pub_from_priv P cred_priv of
        None \<Rightarrow> None
      | Some pub \<Rightarrow>
          Some \<lparr>dv_cred_priv = cred_priv, dv_cred_pub = pub, dv_reader_id = reader_id, dv_reader_verif_pub = reader_verif_pub,
                dv_reader_group_x = take 32 (drop 1 reader_verif_pub), dv_eph_priv = replicate 32 0, dv_eph_pub = replicate 65 0,
                dv_reader_eph_pub = replicate 65 0, dv_txid = replicate 16 0, dv_exp_phase = 0, dv_version = DEV_VERSION,
                dv_ursk = replicate 32 0, dv_sc = dev_secchan_zero, dv_sc_ble = dev_secchan_zero,
                dv_blesk_salt = put_u16 DEV_VERSION @ put_u16 DEV_VERSION, dv_a5 = k_a5_csa_v1, dv_phase = DEV_IDLE\<rparr>)"

abbreviation DEV_BLESK_SALT_MAX :: nat where "DEV_BLESK_SALT_MAX \<equiv> 18"

definition ultrawidelock_device_set_blesk_salt :: "device \<Rightarrow> bytes \<Rightarrow> device \<times> bool" where
  "ultrawidelock_device_set_blesk_salt d salt =
     (if length salt < 4 \<or> odd (length salt) \<or> length salt > DEV_BLESK_SALT_MAX then (d, False) else (d\<lparr>dv_blesk_salt := salt\<rparr>, True))"

definition dev_fail :: "device \<Rightarrow> device \<times> bytes option" where
  "dev_fail d = (d\<lparr>dv_phase := DEV_FAILED\<rparr>, None)"

definition dev_on_auth0 :: "(bytes \<times> bytes) option \<Rightarrow> device \<Rightarrow> bytes \<Rightarrow> nat \<Rightarrow> device \<times> bytes option" where
  "dev_on_auth0 keygen d data cap =
     (case ultrawidelock_dev_parse_auth0_cmd data of
        None \<Rightarrow> dev_fail d
      | Some c \<Rightarrow>
          if c0_reader_id c \<noteq> dv_reader_id d then dev_fail d
          else
            let d1 = d\<lparr>dv_reader_eph_pub := c0_reader_eph_pub c, dv_txid := c0_txid c, dv_exp_phase := c0_exp_phase c\<rparr>
            in case keygen of
                 None \<Rightarrow> dev_fail d1
               | Some (priv, pub) \<Rightarrow>
                   let d2 = d1\<lparr>dv_eph_priv := priv, dv_eph_pub := pub\<rparr>
                   in case ultrawidelock_dev_build_auth0_resp pub None cap of
                        None \<Rightarrow> dev_fail d2
                      | Some body \<Rightarrow>
                          (case ultrawidelock_apdu_append_sw body cap 0x9000 of
                             None \<Rightarrow> dev_fail d2
                           | Some resp \<Rightarrow> (d2\<lparr>dv_phase := DEV_SENT_AUTH0_RESP\<rparr>, Some resp)))"

text \<open>The sealed body of a response: ciphertext, tag and status word.\<close>

definition dev_reply :: "prim \<Rightarrow> device \<Rightarrow> bytes \<Rightarrow> nat \<Rightarrow> device_phase \<Rightarrow> device \<times> bytes option" where
  "dev_reply P d plain cap phase =
     (if cap < length plain + GCM_TAG_LEN + 2 then dev_fail d
      else case ultrawidelock_dev_secchan_seal P (dv_sc d) plain of
        (sc, None) \<Rightarrow> dev_fail (d\<lparr>dv_sc := sc\<rparr>)
      | (sc, Some (ct, tag)) \<Rightarrow>
          let d1 = d\<lparr>dv_sc := sc\<rparr>
          in case ultrawidelock_apdu_append_sw (ct @ tag) cap 0x9000 of
               None \<Rightarrow> dev_fail d1
             | Some resp \<Rightarrow> (d1\<lparr>dv_phase := phase\<rparr>, Some resp))"

definition dev_on_auth1 :: "prim \<Rightarrow> device \<Rightarrow> bytes \<Rightarrow> nat \<Rightarrow> device \<times> bytes option" where
  "dev_on_auth1 P d data cap =
     (let eph_x = take 32 (drop 1 (dv_eph_pub d)); reader_x = take 32 (drop 1 (dv_reader_eph_pub d))
      in case ultrawidelock_dev_parse_auth1_cmd data of
        None \<Rightarrow> dev_fail d
      | Some c \<Rightarrow>
        (case ultrawidelock_apdu_build_authdata True (dv_reader_id d) eph_x reader_x (dv_txid d) 160 of
           None \<Rightarrow> dev_fail d
         | Some td \<Rightarrow>
           if \<not> ecdsa_verify P (dv_reader_verif_pub d) td (c1_reader_sig c) then dev_fail d
           else case ecdh P (dv_eph_priv d) (dv_reader_eph_pub d) of
             None \<Rightarrow> dev_fail d
           | Some shared \<Rightarrow>
             (case ultrawidelock_device_derive_session shared (dv_txid d) (dv_reader_group_x d) reader_x (dv_reader_id d)
                     (dv_exp_phase d) (dv_a5 d) eph_x of
                None \<Rightarrow> dev_fail d
              | Some (sc, ursk, block) \<Rightarrow>
                let d1 = d\<lparr>dv_sc := sc, dv_ursk := ursk\<rparr>
                in if dv_blesk_salt d1 = [] then dev_fail d1
                   else case ultrawidelock_dev_blesk_init block (dv_blesk_salt d1) of
                     None \<Rightarrow> dev_fail d1
                   | Some ble \<Rightarrow>
                     let d2 = d1\<lparr>dv_sc_ble := ble\<rparr>
                     in case ultrawidelock_apdu_build_authdata False (dv_reader_id d) eph_x reader_x (dv_txid d) 160 of
                          None \<Rightarrow> dev_fail d2
                        | Some td' \<Rightarrow>
                          (case ecdsa_sign P (dv_cred_priv d) td' of
                             None \<Rightarrow> dev_fail d2
                           | Some sig \<Rightarrow>
                             (case ultrawidelock_dev_build_auth1_resp sig (Some (dv_cred_pub d)) 160 of
                                None \<Rightarrow> dev_fail d2
                              | Some plain \<Rightarrow> dev_reply P d2 plain cap DEV_SENT_AUTH1_RESP)))))"

definition dev_on_exchange :: "prim \<Rightarrow> device \<Rightarrow> bytes \<Rightarrow> nat \<Rightarrow> device \<times> bytes option" where
  "dev_on_exchange P d data cap =
     (if length data < GCM_TAG_LEN then dev_fail d
      else
        let ctlen = length data - GCM_TAG_LEN
        in if ctlen > 64 then dev_fail d
           else case ultrawidelock_dev_secchan_open P (dv_sc d) (take ctlen data) (drop ctlen data) of
             (sc, None) \<Rightarrow> dev_fail (d\<lparr>dv_sc := sc\<rparr>)
           | (sc, Some pt) \<Rightarrow>
               let d1 = d\<lparr>dv_sc := sc\<rparr>
               in case ultrawidelock_dev_build_exchange_resp 0 8 of
                    None \<Rightarrow> dev_fail d1
                  | Some plain \<Rightarrow> dev_reply P d1 plain cap DEV_ESTABLISHED)"

definition ultrawidelock_device_on_command :: "prim \<Rightarrow> (bytes \<times> bytes) option \<Rightarrow> device \<Rightarrow> bytes \<Rightarrow> nat \<Rightarrow> device \<times> bytes option" where
  "ultrawidelock_device_on_command P keygen d ap_payload cap =
     (case ultrawidelock_apdu_unwrap ap_payload of
        None \<Rightarrow> dev_fail d
      | Some (ins, data) \<Rightarrow>
          if ins = INS_AUTH0 then dev_on_auth0 keygen d data cap
          else if ins = INS_AUTH1 then dev_on_auth1 P d data cap
          else if ins = INS_EXCHANGE then dev_on_exchange P d data cap
          else dev_fail d)"

end
