(* ===== verification/Reader_State.thy ===== *)
theory Reader_State
  imports Cred_Device Trust_Blob Rssi_Gate
begin

text \<open>
  The state of the credential reader (\<^verbatim>\<open>modules/ultrawidelock_cred/src/ultrawidelock_reader.c\<close>) and the
  operations on one session slot, with the ranging bridge (\<^verbatim>\<open>ultrawidelock_ranging.c\<close>) it arms. The build
  modelled has the RSSI gate and no step-up documents; the bench trust option is a field of \<open>reader_build\<close>.

  The file's statics are the record \<open>reader\<close>. A pointer into the session table is the index of its slot;
  the channel the ranging bridge borrows is such an index, so a message the engine sends seals on the
  session's own counters. What one callback learns from outside (clock, key generator, transport
  results, the answers of the ranging engine, the outcome of a write) is the record \<open>renv\<close>; what it does to
  the outside is appended to the field \<open>rd_out\<close>. A callback posted to the host task is an output here and an
  event of its own later.
\<close>

section \<open>Build and environment\<close>

record reader_build =
  rb_prim :: prim
  rb_dev_trust :: bool
  rb_gate_cfg :: rssi_gate_cfg

record renv =
  en_now :: u32
  en_uptime :: u32
  en_keygen :: "(bytes \<times> bytes) option"
  en_random :: "bytes option"
  en_send :: "u16 \<Rightarrow> bytes \<Rightarrow> bool"
  en_start :: "u16 \<Rightarrow> u32 \<Rightarrow> bytes \<Rightarrow> bool"
  en_engine :: "u16 \<Rightarrow> bytes \<Rightarrow> bytes list \<times> bool \<times> bool"
  en_range_age :: "int option"
  en_load :: "kv_result \<times> kv_result"
  en_store :: "kv_result \<times> kv_result \<times> bytes option"

datatype rd_out =
    Out_Send u16 bytes
  | Out_Disconnect u16
  | Out_Access bool
  | Out_Ranging u16 u32 bytes
  | Out_Ranging_Stop u16
  | Out_Post_Status bool
  | Out_Lock_State bool
  | Out_Post_Sweep
  | Out_Post_Presence
  | Out_Adv_Params bytes bytes bytes
  | Out_Readvertise

section \<open>Records\<close>

datatype provisioning_state = PROVISIONING_UNAVAILABLE | PROVISIONING_EMPTY | PROVISIONING_READY

datatype txn_phase = PH_IDLE | PH_SENT_AUTH0 | PH_SENT_AUTH1 | PH_SENT_EXCHANGE | PH_GATE_HOLD | PH_ESTABLISHED | PH_FAILED

abbreviation READER_PHASE_TIMEOUT_MS :: u32 where "READER_PHASE_TIMEOUT_MS \<equiv> 5000"
abbreviation READER_SESSION_TIMEOUT_MS :: u32 where "READER_SESSION_TIMEOUT_MS \<equiv> 30000"
abbreviation SECURED_REPLAY_HOLD_MS :: u32 where "SECURED_REPLAY_HOLD_MS \<equiv> 3000"
abbreviation MAX_SESSIONS :: nat where "MAX_SESSIONS \<equiv> 2"
abbreviation READER_VERSION :: u16 where "READER_VERSION \<equiv> 0x0100"
abbreviation RANGING_MSG_MAX :: nat where "RANGING_MSG_MAX \<equiv> 256"

record session =
  ss_active :: bool
  ss_disconnect_requested :: bool
  ss_conn :: u16
  ss_phase :: txn_phase
  ss_phase_armed :: bool
  ss_phase_deadline :: u32
  ss_overall_armed :: bool
  ss_overall_deadline :: u32
  ss_msgs_rx :: u32
  ss_eph_priv :: bytes
  ss_eph_pub :: bytes
  ss_txid :: bytes
  ss_exp_phase :: u8
  ss_dev_eph :: bytes
  ss_z :: bytes
  ss_sc :: secchan
  ss_sc_ble :: secchan
  ss_ursk :: bytes
  ss_a5 :: bytes
  ss_rgate :: rssi_gate

definition secchan_zero :: secchan where
  "secchan_zero = \<lparr>sc_enc_key = zero_bytes 32, sc_dec_key = zero_bytes 32, sc_enc_ctr = 0, sc_dec_ctr = 0\<rparr>"

definition session_zero :: session where
  "session_zero =
     \<lparr>ss_active = False, ss_disconnect_requested = False, ss_conn = 0, ss_phase = PH_IDLE, ss_phase_armed = False,
      ss_phase_deadline = 0, ss_overall_armed = False, ss_overall_deadline = 0, ss_msgs_rx = 0,
      ss_eph_priv = zero_bytes 32, ss_eph_pub = zero_bytes 65, ss_txid = zero_bytes 16, ss_exp_phase = 0,
      ss_dev_eph = zero_bytes 65, ss_z = zero_bytes 32, ss_sc = secchan_zero, ss_sc_ble = secchan_zero,
      ss_ursk = zero_bytes 32, ss_a5 = [], ss_rgate = ultrawidelock_rssi_gate_reset\<rparr>"

text \<open>A captured 0xA5 TLV and its length are one list; the pair of a key and its validity flag is an option.\<close>

record reader =
  rd_id :: reader_identity
  rd_trust :: trust_store
  rd_loaded :: bool
  rd_prov :: provisioning_state
  rd_last_cred :: "bytes option"
  rd_auth_cred :: "bytes option"
  rd_auth_gen :: u32
  rd_fast_mru :: int
  rd_group_x :: "bytes option"
  rd_kp_dirty :: bool
  rd_spare :: "(bytes \<times> bytes \<times> bytes) option"
  rd_sessions :: "session list"
  rd_established :: u32
  rd_undelivered :: bool
  rd_replay_at :: u32
  rd_last_unsecured :: bool
  rd_peer_unknown :: bool
  rd_presence_request :: u32
  rd_presence_ready :: u32
  rd_presence_gen :: u32
  rd_presence_wait :: bool
  rd_last_close_est :: bool
  rd_housekeeping :: u8
  rd_adapter :: bool
  rd_rg_active :: bool
  rd_rg_conn :: u16
  rd_rg_failed :: bool
  rd_rg_sc :: "nat option"
  rd_kv :: "bytes option"
  rd_out :: "rd_out list"

text \<open>The statics as the image starts, before the first load, over a given store.\<close>

definition reader_boot :: "bytes option \<Rightarrow> reader" where
  "reader_boot kv =
     \<lparr>rd_id = \<lparr>id_reader_id = zero_bytes READER_ID_LEN, id_sign_priv = zero_bytes READER_PRIV_LEN, id_grk = zero_bytes GRK_LEN, id_is_dev = False\<rparr>,
      rd_trust = ts_empty, rd_loaded = False, rd_prov = PROVISIONING_UNAVAILABLE, rd_last_cred = None, rd_auth_cred = None,
      rd_auth_gen = 0, rd_fast_mru = -1, rd_group_x = None, rd_kp_dirty = False, rd_spare = None,
      rd_sessions = replicate MAX_SESSIONS session_zero, rd_established = 0, rd_undelivered = True, rd_replay_at = 0,
      rd_last_unsecured = False, rd_peer_unknown = False, rd_presence_request = 0, rd_presence_ready = 0, rd_presence_gen = 0,
      rd_presence_wait = False, rd_last_close_est = False, rd_housekeeping = 0, rd_adapter = False, rd_rg_active = False,
      rd_rg_conn = 0, rd_rg_failed = False, rd_rg_sc = None, rd_kv = kv, rd_out = []\<rparr>"

section \<open>Loading\<close>

text \<open>Bringing up the primitives is part of what \<open>ec_pub_from_priv\<close> answers.\<close>

definition compute_reader_group_x :: "reader_build \<Rightarrow> reader \<Rightarrow> reader" where
  "compute_reader_group_x B r =
     r\<lparr>rd_group_x := (case ec_pub_from_priv (rb_prim B) (id_sign_priv (rd_id r)) of Some pub \<Rightarrow> Some (take 32 (drop 1 pub)) | None \<Rightarrow> None)\<rparr>"

definition prov_state_of :: "reader_identity \<Rightarrow> trust_store \<Rightarrow> int \<Rightarrow> provisioning_state" where
  "prov_state_of idt ts rc =
     (if rc = 0 then (if id_is_dev idt \<and> ts_count ts = 0 then PROVISIONING_EMPTY else PROVISIONING_READY)
      else if rc = PROV_LOAD_EMPTY then PROVISIONING_EMPTY else PROVISIONING_UNAVAILABLE)"

definition load_provisioning :: "reader_build \<Rightarrow> renv \<Rightarrow> reader \<Rightarrow> reader \<times> int" where
  "load_provisioning B E r =
     (if rd_loaded r \<and> rd_prov r \<noteq> PROVISIONING_UNAVAILABLE
      then (r, if rd_prov r = PROVISIONING_READY then 0 else PROV_LOAD_EMPTY)
      else case ultrawidelock_prov_load (fst (en_load E)) (snd (en_load E)) (rd_kv r) of
        ((idt, ts), rc) \<Rightarrow>
          ((compute_reader_group_x B (r\<lparr>rd_id := idt, rd_trust := ts, rd_prov := prov_state_of idt ts rc\<rparr>))\<lparr>rd_loaded := True\<rparr>, rc))"

section \<open>Slots\<close>

definition emit :: "rd_out \<Rightarrow> reader \<Rightarrow> reader" where
  "emit x r = r\<lparr>rd_out := rd_out r @ [x]\<rparr>"

definition sess :: "reader \<Rightarrow> nat \<Rightarrow> session" where
  "sess r i = rd_sessions r ! i"

definition put_sess :: "reader \<Rightarrow> nat \<Rightarrow> session \<Rightarrow> reader" where
  "put_sess r i s = r\<lparr>rd_sessions := (rd_sessions r)[i := s]\<rparr>"

definition x_of :: "bytes \<Rightarrow> bytes" where
  "x_of p = take 32 (drop 1 p)"

fun phase_awaits_peer :: "txn_phase \<Rightarrow> bool" where
  "phase_awaits_peer PH_IDLE = True"
| "phase_awaits_peer PH_SENT_AUTH0 = True"
| "phase_awaits_peer PH_SENT_AUTH1 = True"
| "phase_awaits_peer PH_SENT_EXCHANGE = True"
| "phase_awaits_peer PH_GATE_HOLD = True"
| "phase_awaits_peer PH_ESTABLISHED = False"
| "phase_awaits_peer PH_FAILED = False"

definition count_phase :: "txn_phase \<Rightarrow> txn_phase \<Rightarrow> u32 \<Rightarrow> u32" where
  "count_phase old new n =
     (if old = new then n else if old = PH_ESTABLISHED then n - 1 else if new = PH_ESTABLISHED then n + 1 else n)"

definition session_enter_phase :: "renv \<Rightarrow> reader \<Rightarrow> nat \<Rightarrow> txn_phase \<Rightarrow> reader" where
  "session_enter_phase E r i ph =
     (let s = sess r i;
          s1 = s\<lparr>ss_phase := ph, ss_phase_armed := phase_awaits_peer ph\<rparr>;
          s2 = (if phase_awaits_peer ph then s1\<lparr>ss_phase_deadline := en_now E + READER_PHASE_TIMEOUT_MS\<rparr> else s1)
      in put_sess (r\<lparr>rd_established := count_phase (ss_phase s) ph (rd_established r)\<rparr>) i s2)"

definition session_terminate :: "renv \<Rightarrow> reader \<Rightarrow> nat \<Rightarrow> reader" where
  "session_terminate E r i =
     (if \<not> ss_active (sess r i) \<or> ss_disconnect_requested (sess r i) then r
      else
        let r1 = session_enter_phase E r i PH_FAILED;
            s = sess r1 i
        in emit (Out_Disconnect (ss_conn s))
             (put_sess r1 i (s\<lparr>ss_phase_armed := False, ss_overall_armed := False, ss_disconnect_requested := True\<rparr>)))"

definition session_find :: "reader \<Rightarrow> u16 \<Rightarrow> nat option" where
  "session_find r conn = find (\<lambda>i. ss_active (sess r i) \<and> ss_conn (sess r i) = conn) [0..<MAX_SESSIONS]"

definition session_alloc :: "renv \<Rightarrow> reader \<Rightarrow> u16 \<Rightarrow> reader \<times> nat option" where
  "session_alloc E r conn =
     (case find (\<lambda>i. \<not> ss_active (sess r i)) [0..<MAX_SESSIONS] of
        None \<Rightarrow> (r, None)
      | Some i \<Rightarrow>
          let s = session_zero\<lparr>ss_active := True, ss_conn := conn, ss_overall_armed := True,
                     ss_overall_deadline := en_now E + READER_SESSION_TIMEOUT_MS\<rparr>
          in (session_enter_phase E (put_sess r i s) i PH_IDLE, Some i))"

definition ble_send :: "renv \<Rightarrow> reader \<Rightarrow> u16 \<Rightarrow> bytes \<Rightarrow> reader \<times> bool" where
  "ble_send E r conn data = (emit (Out_Send conn data) r, en_send E conn data)"

definition send_ap_command :: "renv \<Rightarrow> reader \<Rightarrow> u16 \<Rightarrow> u8 \<Rightarrow> bytes \<Rightarrow> reader \<times> bool" where
  "send_ap_command E r conn ins tlv =
     (case ultrawidelock_apdu_wrap ins tlv 256 of
        None \<Rightarrow> (r, False)
      | Some apdu \<Rightarrow>
          ble_send E r conn ([PROTO_ACCESS, AP_OP_COMMAND, of_nat (length apdu div 256), of_nat (length apdu)] @ apdu))"

section \<open>The ranging bridge\<close>

definition ultrawidelock_ranging_stop :: "reader \<Rightarrow> u16 \<Rightarrow> reader" where
  "ultrawidelock_ranging_stop r conn =
     (if \<not> rd_rg_active r \<or> rd_rg_conn r \<noteq> conn then r
      else emit (Out_Ranging_Stop conn) (r\<lparr>rd_rg_active := False, rd_rg_failed := False, rd_rg_sc := None\<rparr>))"

definition ultrawidelock_ranging_start :: "renv \<Rightarrow> reader \<Rightarrow> u16 \<Rightarrow> u32 \<Rightarrow> bytes \<Rightarrow> nat \<Rightarrow> reader \<times> bool" where
  "ultrawidelock_ranging_start E r conn session_id ursk i =
     (if \<not> rd_adapter r then (r, False)
      else
        let r1 = (if rd_rg_active r then ultrawidelock_ranging_stop r (rd_rg_conn r) else r)
        in if \<not> en_start E conn session_id ursk then (r1, False)
           else (emit (Out_Ranging conn session_id ursk)
                   (r1\<lparr>rd_rg_sc := Some i, rd_rg_conn := conn, rd_rg_active := True, rd_rg_failed := False\<rparr>), True))"

text \<open>One message the engine hands out: sealed on the borrowed channel, the bridge is done for after the first failure.\<close>

definition uwb_tx_cb :: "reader_build \<Rightarrow> renv \<Rightarrow> u16 \<Rightarrow> bytes \<Rightarrow> reader \<Rightarrow> reader" where
  "uwb_tx_cb B E conn msg r =
     (if rd_rg_failed r then r
      else case rd_rg_sc r of
        None \<Rightarrow> emit (Out_Disconnect conn) (r\<lparr>rd_rg_failed := True\<rparr>)
      | Some i \<Rightarrow>
          (case ultrawidelock_msg_seal (rb_prim B) (ss_sc_ble (sess r i)) msg (RANGING_MSG_MAX + GCM_TAG_LEN) of
             (sc, None) \<Rightarrow> emit (Out_Disconnect conn) ((put_sess r i ((sess r i)\<lparr>ss_sc_ble := sc\<rparr>))\<lparr>rd_rg_failed := True\<rparr>)
           | (sc, Some wire) \<Rightarrow>
               let r1 = put_sess r i ((sess r i)\<lparr>ss_sc_ble := sc\<rparr>)
               in case ble_send E r1 conn wire of
                    (r2, ok) \<Rightarrow> if ok then r2 else emit (Out_Disconnect conn) (r2\<lparr>rd_rg_failed := True\<rparr>)))"

definition ultrawidelock_ranging_feed :: "reader_build \<Rightarrow> renv \<Rightarrow> reader \<Rightarrow> u16 \<Rightarrow> bytes \<Rightarrow> reader \<times> bool" where
  "ultrawidelock_ranging_feed B E r conn data =
     (if \<not> rd_rg_active r \<or> rd_rg_failed r \<or> rd_rg_conn r \<noteq> conn then (r, False)
      else if length data < 4 \<or> length data > RANGING_MSG_MAX then (r, False)
      else case en_engine E conn data of
        (msgs, deinit, ok) \<Rightarrow>
          let r1 = fold (uwb_tx_cb B E conn) msgs r
          in (if deinit then r1\<lparr>rd_rg_active := False\<rparr> else r1, ok))"

end
