(* ===== verification/Reader_Auth.thy ===== *)
theory Reader_Auth
  imports Reader_State
begin

text \<open>
  The transaction of one session (\<^verbatim>\<open>ultrawidelock_reader.c\<close>): AUTH0, the fast-path trial, AUTH1, EXCHANGE, the
  power gate and AP-Completed, and the dispatch of an inbound message by phase.
\<close>

section \<open>AUTH0\<close>

definition take_ephemeral :: "renv \<Rightarrow> reader \<Rightarrow> nat \<Rightarrow> reader \<times> bool" where
  "take_ephemeral E r i =
     (case rd_spare r of
        Some (priv, pub, txid) \<Rightarrow>
          (put_sess (r\<lparr>rd_spare := None\<rparr>) i ((sess r i)\<lparr>ss_eph_priv := priv, ss_eph_pub := pub, ss_txid := txid\<rparr>), True)
      | None \<Rightarrow>
          (case en_keygen E of
             None \<Rightarrow> (r, False)
           | Some (priv, pub) \<Rightarrow>
               let r1 = put_sess r i ((sess r i)\<lparr>ss_eph_priv := priv, ss_eph_pub := pub\<rparr>)
               in case en_random E of
                    None \<Rightarrow> (r1, False)
                  | Some txid \<Rightarrow> (put_sess r1 i ((sess r1 i)\<lparr>ss_txid := txid\<rparr>), True)))"

definition exp_phase_of :: "trust_store \<Rightarrow> u8" where
  "exp_phase_of ts = (if ts_kp_valid ts \<noteq> 0 then 1 else 0)"

definition start_auth :: "reader_build \<Rightarrow> renv \<Rightarrow> reader \<Rightarrow> nat \<Rightarrow> reader" where
  "start_auth B E r i =
     (if rd_prov r \<noteq> PROVISIONING_READY \<and> \<not> (rb_dev_trust B \<and> rd_prov r = PROVISIONING_EMPTY) then session_terminate E r i
      else case take_ephemeral E r i of
        (r1, False) \<Rightarrow> session_terminate E r1 i
      | (r1, True) \<Rightarrow>
          let s = (sess r1 i)\<lparr>ss_exp_phase := exp_phase_of (rd_trust r1)\<rparr>;
              r2 = put_sess r1 i s
          in case ultrawidelock_apdu_build_auth0 (ss_exp_phase s) 1 READER_VERSION (ss_eph_pub s) (ss_txid s) (id_reader_id (rd_id r2)) 160 of
               None \<Rightarrow> session_terminate E r2 i
             | Some apdu \<Rightarrow>
                 (case send_ap_command E r2 (ss_conn s) INS_AUTH0 apdu of
                    (r3, False) \<Rightarrow> session_terminate E r3 i
                  | (r3, True) \<Rightarrow> session_enter_phase E r3 i PH_SENT_AUTH0))"

section \<open>Channels and EXCHANGE\<close>

definition k_proto_versions :: "u16 list" where
  "k_proto_versions = [0x0100]"

definition ble_salt :: bytes where
  "ble_salt = concat (map put_u16 k_proto_versions) @ put_u16 READER_VERSION"

definition init_ble_channel :: "reader \<Rightarrow> nat \<Rightarrow> bytes \<Rightarrow> reader \<times> bool" where
  "init_ble_channel r i block =
     (case ultrawidelock_crypto_derive_ble_keys block ble_salt of
        None \<Rightarrow> (r, False)
      | Some (ble_r, ble_d) \<Rightarrow> (put_sess r i ((sess r i)\<lparr>ss_sc_ble := ultrawidelock_secchan_init ble_r ble_d\<rparr>), True))"

definition send_exchange :: "reader_build \<Rightarrow> renv \<Rightarrow> reader \<Rightarrow> nat \<Rightarrow> reader \<times> bool" where
  "send_exchange B E r i =
     (case ultrawidelock_apdu_build_exchange False 0 True 16 of
        None \<Rightarrow> (session_terminate E r i, False)
      | Some ex \<Rightarrow>
          (case ultrawidelock_secchan_seal (rb_prim B) (ss_sc (sess r i)) [] ex of
             (sc, sealed) \<Rightarrow>
               let r1 = put_sess r i ((sess r i)\<lparr>ss_sc := sc\<rparr>)
               in case sealed of
                    None \<Rightarrow> (session_terminate E r1 i, False)
                  | Some (ct, tag) \<Rightarrow>
                      (case send_ap_command E r1 (ss_conn (sess r1 i)) INS_EXCHANGE (ct @ tag) of
                         (r2, False) \<Rightarrow> (session_terminate E r2 i, False)
                       | (r2, True) \<Rightarrow> (session_enter_phase E r2 i PH_SENT_EXCHANGE, True))))"

definition session_a5 :: "session \<Rightarrow> bytes" where
  "session_a5 s = (if ss_a5 s \<noteq> [] then ss_a5 s else k_a5_csa_v1)"

text \<open>The salt of each derivation of a session; field 3 is the credential for the two that bind it.\<close>

definition session_salt :: "reader \<Rightarrow> bytes \<Rightarrow> session \<Rightarrow> salt_type \<Rightarrow> bytes option \<Rightarrow> bytes option" where
  "session_salt r gx s type cred_x =
     ultrawidelock_salt_build type (ss_txid s) gx (x_of (ss_eph_pub s)) (id_reader_id (rd_id r)) IFACE_BLE READER_VERSION
       (ss_exp_phase s) 1 cred_x (session_a5 s)"

section \<open>The fast path\<close>

definition fast_block :: "reader \<Rightarrow> bytes \<Rightarrow> session \<Rightarrow> nat \<Rightarrow> bytes option" where
  "fast_block r gx s k =
     (case session_salt r gx s SALT_CRYPTOGRAM (Some (x_of (ts_cred_pub (rd_trust r) ! k))) of
        None \<Rightarrow> None
      | Some salt \<Rightarrow> ultrawidelock_crypto_derive_block (ts_kpersistent (rd_trust r) ! k) salt (x_of (ss_dev_eph s)))"

definition fast_opens :: "reader_build \<Rightarrow> reader \<Rightarrow> bytes \<Rightarrow> session \<Rightarrow> bytes \<Rightarrow> nat \<Rightarrow> bool" where
  "fast_opens B r gx s cryptogram k =
     (kp_bit (rd_trust r) k \<and>
      (case fast_block r gx s k of
         None \<Rightarrow> False
       | Some block \<Rightarrow> ultrawidelock_crypto_verify_cryptogram (rb_prim B) (take 32 block) cryptogram \<noteq> None))"

definition fast_order :: "reader \<Rightarrow> nat list" where
  "fast_order r =
     (let n = ts_count (rd_trust r); mru = rd_fast_mru r
      in (if 0 \<le> mru \<and> nat mru < n then [nat mru] else []) @ filter (\<lambda>k. k \<noteq> nat (mru mod 256)) [0..<min n TRUST_MAX])"

definition publish_auth :: "reader \<Rightarrow> bytes \<Rightarrow> reader" where
  "publish_auth r cred_pub = r\<lparr>rd_auth_cred := Some cred_pub, rd_auth_gen := rd_auth_gen r + 1\<rparr>"

definition remember_mru :: "reader \<Rightarrow> bytes \<Rightarrow> reader" where
  "remember_mru r cred_pub = r\<lparr>rd_fast_mru := ultrawidelock_prov_trust_find (rd_trust r) cred_pub\<rparr>"

text \<open>True when the session was consumed, matched or not.\<close>

definition fast_accept :: "reader_build \<Rightarrow> renv \<Rightarrow> reader \<Rightarrow> nat \<Rightarrow> nat \<Rightarrow> bytes \<Rightarrow> reader" where
  "fast_accept B E r i k block =
     (let pub = ts_cred_pub (rd_trust r) ! k; r1 = r\<lparr>rd_last_cred := Some pub\<rparr>
      in case ultrawidelock_crypto_split block False of
        (enc, dec, ursk) \<Rightarrow>
          let r2 = put_sess r1 i ((sess r1 i)\<lparr>ss_ursk := ursk, ss_sc := ultrawidelock_secchan_init enc dec\<rparr>)
          in case init_ble_channel r2 i block of
               (r3, False) \<Rightarrow> session_terminate E r3 i
             | (r3, True) \<Rightarrow>
                 (case send_exchange B E r3 i of
                    (r4, False) \<Rightarrow> r4
                  | (r4, True) \<Rightarrow> emit (Out_Access True) (remember_mru (publish_auth r4 pub) pub)))"

definition try_fast_auth :: "reader_build \<Rightarrow> renv \<Rightarrow> reader \<Rightarrow> nat \<Rightarrow> bytes \<Rightarrow> reader \<times> bool" where
  "try_fast_auth B E r i cryptogram =
     (case rd_group_x r of
        None \<Rightarrow> (r, False)
      | Some gx \<Rightarrow>
          (case find (fast_opens B r gx (sess r i) cryptogram) (fast_order r) of
             None \<Rightarrow> (r, False)
           | Some k \<Rightarrow>
               (case fast_block r gx (sess r i) k of
                  None \<Rightarrow> (r, False)
                | Some block \<Rightarrow> (fast_accept B E r i k block, True))))"

section \<open>AUTH1\<close>

definition send_auth1 :: "reader_build \<Rightarrow> renv \<Rightarrow> reader \<Rightarrow> nat \<Rightarrow> reader" where
  "send_auth1 B E r i =
     (let s = sess r i
      in case ecdh (rb_prim B) (ss_eph_priv s) (ss_dev_eph s) of
        None \<Rightarrow> session_terminate E r i
      | Some shared \<Rightarrow>
          let r1 = put_sess r i (s\<lparr>ss_z := ultrawidelock_crypto_derive_z shared (ss_txid s)\<rparr>)
          in case ultrawidelock_apdu_build_authdata True (id_reader_id (rd_id r)) (x_of (ss_dev_eph s)) (x_of (ss_eph_pub s)) (ss_txid s) 160 of
               None \<Rightarrow> session_terminate E r1 i
             | Some td \<Rightarrow>
                 (case ecdsa_sign (rb_prim B) (id_sign_priv (rd_id r)) td of
                    None \<Rightarrow> session_terminate E r1 i
                  | Some sig \<Rightarrow>
                      (case ultrawidelock_apdu_build_auth1 1 sig 128 of
                         None \<Rightarrow> session_terminate E r1 i
                       | Some apdu \<Rightarrow>
                           (case send_ap_command E r1 (ss_conn s) INS_AUTH1 apdu of
                              (r2, False) \<Rightarrow> session_terminate E r2 i
                            | (r2, True) \<Rightarrow> session_enter_phase E r2 i PH_SENT_AUTH1))))"

definition on_auth0_response :: "reader_build \<Rightarrow> renv \<Rightarrow> reader \<Rightarrow> nat \<Rightarrow> bytes \<Rightarrow> reader" where
  "on_auth0_response B E r i pl =
     (case ultrawidelock_apdu_strip_sw pl of
        None \<Rightarrow> session_terminate E r i
      | Some (body, sw) \<Rightarrow>
          if sw \<noteq> 0x9000 then session_terminate E r i
          else case ultrawidelock_apdu_parse_auth0_response body of
            None \<Rightarrow> session_terminate E r i
          | Some resp \<Rightarrow>
              let r1 = put_sess r i ((sess r i)\<lparr>ss_dev_eph := a0_device_eph_pub resp\<rparr>)
              in if ss_exp_phase (sess r1 i) = 1 \<and> a0_have_cryptogram resp
                 then (case try_fast_auth B E r1 i (a0_cryptogram resp) of
                         (r2, True) \<Rightarrow> r2
                       | (r2, False) \<Rightarrow> send_auth1 B E r2 i)
                 else send_auth1 B E r1 i)"

text \<open>The fast-path key this standard phase agrees on, for a credential of the store.\<close>

definition pending_kpersistent :: "reader \<Rightarrow> bytes \<Rightarrow> session \<Rightarrow> bytes \<Rightarrow> (nat \<times> bytes) option" where
  "pending_kpersistent r gx s cred_pub =
     (case session_salt r gx s SALT_KPERSISTENT (Some (x_of cred_pub)) of
        None \<Rightarrow> None
      | Some salt \<Rightarrow>
          (case ultrawidelock_crypto_derive_key32 (ss_z s) salt (x_of (ss_dev_eph s)) of
             None \<Rightarrow> None
           | Some kp \<Rightarrow>
               let idx = ultrawidelock_prov_trust_find (rd_trust r) cred_pub in if idx < 0 then None else Some (nat idx, kp)))"

definition commit_kpersistent :: "reader \<Rightarrow> bytes \<Rightarrow> (nat \<times> bytes) option \<Rightarrow> reader" where
  "commit_kpersistent r cred_pub pending =
     (case pending of
        None \<Rightarrow> r
      | Some (k, kp) \<Rightarrow>
          let idx = (if k \<ge> ts_count (rd_trust r) \<or> ts_cred_pub (rd_trust r) ! k \<noteq> cred_pub
                     then ultrawidelock_prov_trust_find (rd_trust r) cred_pub else int k)
          in if idx < 0 then r
             else case ultrawidelock_prov_kpersistent_set (rd_trust r) idx kp of
               (ts, rc) \<Rightarrow> if rc = 0 then r\<lparr>rd_trust := ts, rd_kp_dirty := True\<rparr> else r)"

definition auth1_trusted :: "reader_build \<Rightarrow> renv \<Rightarrow> reader \<Rightarrow> nat \<Rightarrow> bytes \<Rightarrow> bytes \<Rightarrow> int \<Rightarrow> reader" where
  "auth1_trusted B E r i gx cred_pub tv =
     (let pending = (if tv = 0 then pending_kpersistent r gx (sess r i) cred_pub else None)
      in case send_exchange B E r i of
           (r1, False) \<Rightarrow> r1
         | (r1, True) \<Rightarrow>
             let r2 = publish_auth (commit_kpersistent r1 cred_pub pending) cred_pub;
                 r3 = (if tv = 0 then remember_mru r2 cred_pub else r2)
             in emit (Out_Access True) r3)"

text \<open>The signature of the presented key, then the trust decision.\<close>

definition auth1_verify :: "reader_build \<Rightarrow> renv \<Rightarrow> reader \<Rightarrow> nat \<Rightarrow> bytes \<Rightarrow> auth1_response \<Rightarrow> reader" where
  "auth1_verify B E r i gx resp =
     (let s = sess r i; cred_pub = (if a1_have_device_pub resp then a1_device_pub resp else ss_dev_eph s)
      in case ultrawidelock_apdu_build_authdata False (id_reader_id (rd_id r)) (x_of (ss_dev_eph s)) (x_of (ss_eph_pub s)) (ss_txid s) 160 of
           None \<Rightarrow> session_terminate E r i
         | Some td \<Rightarrow>
             if \<not> ecdsa_verify (rb_prim B) cred_pub td (a1_device_sig resp) then session_terminate E r i
             else
               let r1 = r\<lparr>rd_last_cred := Some cred_pub\<rparr>; tv = ultrawidelock_prov_trust_check (rd_trust r1) cred_pub
               in if tv = 0 \<or> (tv = 1 \<and> id_is_dev (rd_id r1) \<and> rb_dev_trust B \<and> rd_prov r1 = PROVISIONING_EMPTY)
                  then auth1_trusted B E r1 i gx cred_pub tv
                  else session_terminate E (emit (Out_Access False) r1) i)"

definition auth1_open :: "reader_build \<Rightarrow> renv \<Rightarrow> reader \<Rightarrow> nat \<Rightarrow> bytes \<Rightarrow> bytes \<Rightarrow> reader" where
  "auth1_open B E r i gx body =
     (if length body < GCM_TAG_LEN then session_terminate E r i
      else
        let ctlen = length body - GCM_TAG_LEN
        in if ctlen > 256 then session_terminate E r i
           else case ultrawidelock_secchan_open (rb_prim B) (ss_sc (sess r i)) [] (take ctlen body) (drop ctlen body) of
             (sc, opened) \<Rightarrow>
               let r1 = put_sess r i ((sess r i)\<lparr>ss_sc := sc\<rparr>)
               in case opened of
                    None \<Rightarrow> session_terminate E r1 i
                  | Some pt \<Rightarrow>
                      (case ultrawidelock_apdu_parse_auth1_response pt of
                         None \<Rightarrow> session_terminate E r1 i
                       | Some resp \<Rightarrow> auth1_verify B E r1 i gx resp))"

definition standard_block :: "reader \<Rightarrow> bytes \<Rightarrow> session \<Rightarrow> bytes option" where
  "standard_block r gx s =
     (case session_salt r gx s SALT_SESSION None of
        None \<Rightarrow> None
      | Some salt \<Rightarrow> ultrawidelock_crypto_derive_block (ss_z s) salt (x_of (ss_dev_eph s)))"

definition on_auth1_response :: "reader_build \<Rightarrow> renv \<Rightarrow> reader \<Rightarrow> nat \<Rightarrow> bytes \<Rightarrow> reader" where
  "on_auth1_response B E r i pl =
     (case ultrawidelock_apdu_strip_sw pl of
        None \<Rightarrow> session_terminate E r i
      | Some (body, sw) \<Rightarrow>
          if sw \<noteq> 0x9000 then session_terminate E r i
          else case rd_group_x r of
            None \<Rightarrow> session_terminate E r i
          | Some gx \<Rightarrow>
              (case standard_block r gx (sess r i) of
                 None \<Rightarrow> session_terminate E r i
               | Some block \<Rightarrow>
                   (case ultrawidelock_crypto_split block True of
                      (enc, dec, ursk) \<Rightarrow>
                        let r1 = put_sess r i ((sess r i)\<lparr>ss_ursk := ursk, ss_sc := ultrawidelock_secchan_init enc dec\<rparr>)
                        in case init_ble_channel r1 i block of
                             (r2, False) \<Rightarrow> session_terminate E r2 i
                           | (r2, True) \<Rightarrow> auth1_open B E r2 i gx body)))"

section \<open>AP-Completed\<close>

definition k_ap_completed_plain :: bytes where
  "k_ap_completed_plain = [0x02, 0x03, 0x00, 0x04, 0x00, 0x02, 0x20, 0x00]"

definition arm_replay :: "renv \<Rightarrow> reader \<Rightarrow> reader" where
  "arm_replay E r =
     (if rd_undelivered r
      then let at = en_now E + SECURED_REPLAY_HOLD_MS
           in r\<lparr>rd_replay_at := (if at = 0 then 1 else at), rd_peer_unknown := True\<rparr>
      else r)"

definition complete_ap_and_range :: "reader_build \<Rightarrow> renv \<Rightarrow> reader \<Rightarrow> nat \<Rightarrow> reader" where
  "complete_ap_and_range B E r i =
     (case ultrawidelock_msg_seal (rb_prim B) (ss_sc_ble (sess r i)) k_ap_completed_plain 64 of
        (sc, sealed) \<Rightarrow>
          let r1 = put_sess r i ((sess r i)\<lparr>ss_sc_ble := sc\<rparr>); s = sess r1 i
          in case sealed of
               None \<Rightarrow> session_terminate E r1 i
             | Some wire \<Rightarrow>
                 (case ble_send E r1 (ss_conn s) wire of
                    (r2, False) \<Rightarrow> session_terminate E r2 i
                  | (r2, True) \<Rightarrow>
                      (case ultrawidelock_ranging_start E r2 (ss_conn s) (get_u32 (drop 12 (ss_txid s))) (ss_ursk s) i of
                         (r3, False) \<Rightarrow> session_terminate E r3 i
                       | (r3, True) \<Rightarrow> arm_replay E (session_enter_phase E r3 i PH_ESTABLISHED))))"

definition gated_complete_ap :: "reader_build \<Rightarrow> renv \<Rightarrow> reader \<Rightarrow> nat \<Rightarrow> reader" where
  "gated_complete_ap B E r i =
     (if rg_primed (ss_rgate (sess r i)) \<and> \<not> ultrawidelock_rssi_gate_is_open (ss_rgate (sess r i))
      then
        let r1 = session_enter_phase E r i PH_GATE_HOLD
        in put_sess r1 i ((sess r1 i)\<lparr>ss_rgate := ultrawidelock_rssi_gate_hold_begin (ss_rgate (sess r1 i)) (en_uptime E)\<rparr>)
      else complete_ap_and_range B E r i)"

definition on_exchange_response :: "reader_build \<Rightarrow> renv \<Rightarrow> reader \<Rightarrow> nat \<Rightarrow> bytes \<Rightarrow> reader" where
  "on_exchange_response B E r i pl =
     (case ultrawidelock_apdu_strip_sw pl of
        None \<Rightarrow> session_terminate E r i
      | Some (body, sw) \<Rightarrow>
          if sw \<noteq> 0x9000 then session_terminate E r i
          else
            let bodylen = (if length body \<ge> GCM_TAG_LEN then length body - GCM_TAG_LEN else 0)
            in if bodylen = 0 \<or> bodylen > 16 then session_terminate E r i
               else case ultrawidelock_secchan_open (rb_prim B) (ss_sc (sess r i)) [] (take bodylen body) (drop bodylen body) of
                 (sc, opened) \<Rightarrow>
                   let r1 = put_sess r i ((sess r i)\<lparr>ss_sc := sc\<rparr>)
                   in case opened of
                        None \<Rightarrow> session_terminate E r1 i
                      | Some pt \<Rightarrow>
                          if bodylen \<ge> 4 \<and> pt ! 2 = 0 \<and> pt ! 3 = 0 then gated_complete_ap B E r1 i
                          else session_terminate E r1 i)"

section \<open>One inbound message\<close>

text \<open>The phone's 0xA5 TLV: nothing found is the empty list, one that cannot be used is \<open>None\<close>.\<close>

fun capture_a5_tlv :: "bytes \<Rightarrow> nat \<Rightarrow> bytes option" where
  "capture_a5_tlv (t # v # rest) cap =
     (if t \<noteq> 0xA5 then capture_a5_tlv (v # rest) cap
      else if v \<ge> 0x80 then None
      else if 2 + unat v > length (t # v # rest) then capture_a5_tlv (v # rest) cap
      else if 2 + unat v > cap then None
      else Some (take (2 + unat v) (t # v # rest)))"
| "capture_a5_tlv _ cap = Some []"

definition feed_idle :: "reader_build \<Rightarrow> renv \<Rightarrow> reader \<Rightarrow> nat \<Rightarrow> bytes \<Rightarrow> reader" where
  "feed_idle B E r i pl =
     (case capture_a5_tlv pl 64 of
        None \<Rightarrow> session_terminate E r i
      | Some a5 \<Rightarrow> start_auth B E (put_sess r i ((sess r i)\<lparr>ss_a5 := a5\<rparr>)) i)"

definition feed_established :: "reader_build \<Rightarrow> renv \<Rightarrow> reader \<Rightarrow> nat \<Rightarrow> bytes \<Rightarrow> reader" where
  "feed_established B E r i data =
     (case ultrawidelock_msg_open (rb_prim B) (ss_sc_ble (sess r i)) data 256 of
        (sc, opened) \<Rightarrow>
          let r1 = put_sess r i ((sess r i)\<lparr>ss_sc_ble := sc\<rparr>)
          in case opened of
               None \<Rightarrow> session_terminate E r1 i
             | Some plain \<Rightarrow>
                 (case ultrawidelock_ranging_feed B E r1 (ss_conn (sess r1 i)) plain of
                    (r2, ok) \<Rightarrow> if ok then r2 else session_terminate E r2 i))"

definition envelope_of :: "bytes \<Rightarrow> u8 \<times> u8 \<times> bytes" where
  "envelope_of data = (case ultrawidelock_ble_unframe data of Some x \<Rightarrow> x | None \<Rightarrow> (0xff, 0xff, data))"

definition transaction_feed :: "reader_build \<Rightarrow> renv \<Rightarrow> reader \<Rightarrow> nat \<Rightarrow> bytes \<Rightarrow> reader" where
  "transaction_feed B E r0 i data =
     (let r = put_sess r0 i ((sess r0 i)\<lparr>ss_msgs_rx := ss_msgs_rx (sess r0 i) + 1\<rparr>)
      in case envelope_of data of
        (type, opcode, pl) \<Rightarrow>
          if ss_phase (sess r i) \<noteq> PH_ESTABLISHED \<and> type = PROTO_NOTIFICATION \<and> opcode = NOTIF_EVENT
          then (if length pl \<ge> 3 \<and> pl ! 0 = 1 \<and> pl ! 1 = 1 then session_terminate E r i else r)
          else case ss_phase (sess r i) of
            PH_IDLE \<Rightarrow> feed_idle B E r i pl
          | PH_SENT_AUTH0 \<Rightarrow> on_auth0_response B E r i pl
          | PH_SENT_AUTH1 \<Rightarrow> on_auth1_response B E r i pl
          | PH_SENT_EXCHANGE \<Rightarrow> on_exchange_response B E r i pl
          | PH_ESTABLISHED \<Rightarrow> feed_established B E r i data
          | _ \<Rightarrow> r)"

end
