(* ===== verification/Reader_Host.thy ===== *)
theory Reader_Host
  imports Reader_Auth
begin

text \<open>
  The callbacks of the reader (\<^verbatim>\<open>ultrawidelock_reader.c\<close>) on the BLE host task: connections, data, RSSI samples,
  the periodic tick, lock-state notifications, the presence reset and the revocation sweep; and the
  housekeeping thread. Each is one definition over the whole reader.
\<close>

section \<open>Lock-state notifications\<close>

definition status_plain :: "bool \<Rightarrow> bytes" where
  "status_plain unsecured = [0x02, 0x02, 0x00, 0x04, 0x00, 0x02, 0x04, if unsecured then 1 else 0]"

definition reader_status_send :: "reader_build \<Rightarrow> renv \<Rightarrow> reader \<Rightarrow> nat \<Rightarrow> bool \<Rightarrow> reader" where
  "reader_status_send B E r i unsecured =
     (case ultrawidelock_msg_seal (rb_prim B) (ss_sc_ble (sess r i)) (status_plain unsecured) 64 of
        (sc, sealed) \<Rightarrow>
          let r1 = put_sess r i ((sess r i)\<lparr>ss_sc_ble := sc\<rparr>)
          in case sealed of
               None \<Rightarrow> session_terminate E r1 i
             | Some wire \<Rightarrow>
                 (case ble_send E r1 (ss_conn (sess r1 i)) wire of
                    (r2, False) \<Rightarrow>
                      session_terminate E (if unsecured then r2 else r2\<lparr>rd_undelivered := True\<rparr>) i
                  | (r2, True) \<Rightarrow>
                      r2\<lparr>rd_undelivered := False, rd_replay_at := 0, rd_peer_unknown := False, rd_last_unsecured := unsecured\<rparr>))"

definition reader_status_send_on_host :: "reader_build \<Rightarrow> renv \<Rightarrow> reader \<Rightarrow> bool \<Rightarrow> reader" where
  "reader_status_send_on_host B E r unsecured =
     (if unsecured = rd_last_unsecured r \<and> \<not> rd_peer_unknown r then r
      else case find (\<lambda>i. ss_active (sess r i) \<and> ss_phase (sess r i) = PH_ESTABLISHED) [0..<MAX_SESSIONS] of
        None \<Rightarrow> if unsecured then r else r\<lparr>rd_undelivered := True\<rparr>
      | Some i \<Rightarrow> reader_status_send B E r i unsecured)"

definition ultrawidelock_reader_notify_unlock :: "reader \<Rightarrow> bool \<Rightarrow> reader" where
  "ultrawidelock_reader_notify_unlock r unsecured = emit (Out_Post_Status unsecured) (emit (Out_Lock_State unsecured) r)"

definition ultrawidelock_reader_session_active :: "reader \<Rightarrow> bool" where
  "ultrawidelock_reader_session_active r = (rd_established r \<noteq> 0)"

section \<open>The tick\<close>

text \<open>\<^verbatim>\<open>(int32_t)(a - b) >= 0\<close>\<close>

definition ms_reached :: "u32 \<Rightarrow> u32 \<Rightarrow> bool" where
  "ms_reached now at = (0 \<le> sint (now - at))"

definition session_idle_extend :: "renv \<Rightarrow> session \<Rightarrow> u32 \<Rightarrow> session" where
  "session_idle_extend E s now =
     (case en_range_age E of
        None \<Rightarrow> s
      | Some age \<Rightarrow>
          if ss_phase s \<noteq> PH_ESTABLISHED \<or> \<not> ss_overall_armed s \<or> age < 0 \<or> age \<ge> uint READER_SESSION_TIMEOUT_MS then s
          else
            let until = now + (READER_SESSION_TIMEOUT_MS - word_of_int age)
            in if 0 < sint (until - ss_overall_deadline s) then s\<lparr>ss_overall_deadline := until\<rparr> else s)"

definition tick_session :: "renv \<Rightarrow> u32 \<Rightarrow> nat \<Rightarrow> reader \<Rightarrow> reader" where
  "tick_session E now i r =
     (if \<not> ss_active (sess r i) then r
      else
        let r1 = put_sess r i (session_idle_extend E (sess r i) now); s = sess r1 i
        in if ss_phase_armed s \<and> ms_reached now (ss_phase_deadline s) then session_terminate E r1 i
           else if ss_overall_armed s \<and> ms_reached now (ss_overall_deadline s) then session_terminate E r1 i
           else r1)"

definition tick_replay :: "u32 \<Rightarrow> reader \<Rightarrow> reader" where
  "tick_replay now r =
     (if rd_replay_at r = 0 \<or> \<not> ms_reached now (rd_replay_at r) then r
      else
        let r1 = r\<lparr>rd_replay_at := 0\<rparr>
        in if \<not> rd_undelivered r1 \<or> \<not> ultrawidelock_reader_session_active r1 then r1 else emit (Out_Post_Status False) r1)"

definition reader_tick_on_host :: "renv \<Rightarrow> reader \<Rightarrow> u32 \<Rightarrow> reader" where
  "reader_tick_on_host E r now = tick_replay now (fold (tick_session E now) [0..<MAX_SESSIONS] r)"

section \<open>Presence\<close>

definition any_session_active_on_host :: "reader \<Rightarrow> bool" where
  "any_session_active_on_host r = (\<exists>i\<in>set [0..<MAX_SESSIONS]. ss_active (sess r i))"

definition presence_checkpoint_ready_on_host :: "reader \<Rightarrow> reader" where
  "presence_checkpoint_ready_on_host r =
     r\<lparr>rd_presence_ready := rd_presence_request r, rd_presence_gen := rd_auth_gen r, rd_presence_wait := False\<rparr>"

definition disconnect_active :: "nat \<Rightarrow> reader \<Rightarrow> reader" where
  "disconnect_active i r = (if ss_active (sess r i) then emit (Out_Disconnect (ss_conn (sess r i))) r else r)"

definition presence_reset_on_host :: "reader \<Rightarrow> reader" where
  "presence_reset_on_host r =
     (let r1 = r\<lparr>rd_presence_wait := True\<rparr>
      in if any_session_active_on_host r1 then fold disconnect_active [0..<MAX_SESSIONS] r1
         else presence_checkpoint_ready_on_host r1)"

definition ultrawidelock_reader_presence_restart :: "reader_build \<Rightarrow> renv \<Rightarrow> reader \<Rightarrow> reader \<times> u32" where
  "ultrawidelock_reader_presence_restart B E r0 =
     (let r = fst (load_provisioning B E r0);
          n = rd_presence_request r + 1; request = (if n = 0 then n + 1 else n)
      in (emit Out_Post_Presence (r\<lparr>rd_presence_request := request, rd_presence_ready := 0\<rparr>), request))"

text \<open>The queries. Each may be the call that loads the store.\<close>

definition ultrawidelock_reader_presence_checkpoint :: "reader_build \<Rightarrow> renv \<Rightarrow> reader \<Rightarrow> u32 \<Rightarrow> reader \<times> u32 option" where
  "ultrawidelock_reader_presence_checkpoint B E r0 request =
     (let r = fst (load_provisioning B E r0)
      in (r, if request \<noteq> 0 \<and> rd_presence_ready r = request then Some (rd_presence_gen r) else None))"

definition ultrawidelock_reader_presence_authenticated_after :: "reader_build \<Rightarrow> renv \<Rightarrow> reader \<Rightarrow> u32 \<Rightarrow> reader \<times> bytes option" where
  "ultrawidelock_reader_presence_authenticated_after B E r0 checkpoint =
     (let r = fst (load_provisioning B E r0)
      in (r, if 0 < sint (rd_auth_gen r - checkpoint) then rd_auth_cred r else None))"

definition ultrawidelock_reader_presence_expected_credential :: "reader_build \<Rightarrow> renv \<Rightarrow> reader \<Rightarrow> reader \<times> bytes option" where
  "ultrawidelock_reader_presence_expected_credential B E r0 =
     (let r = fst (load_provisioning B E r0)
      in (r, if ts_count (rd_trust r) = 1 then Some (ts_cred_pub (rd_trust r) ! 0) else None))"

definition ultrawidelock_reader_authenticated_credential :: "reader_build \<Rightarrow> renv \<Rightarrow> reader \<Rightarrow> reader \<times> bytes option" where
  "ultrawidelock_reader_authenticated_credential B E r0 =
     (let r = fst (load_provisioning B E r0) in (r, rd_auth_cred r))"

section \<open>RSSI samples\<close>

definition ultrawidelock_reader_rssi_sample :: "reader_build \<Rightarrow> renv \<Rightarrow> reader \<Rightarrow> u16 \<Rightarrow> int \<Rightarrow> reader" where
  "ultrawidelock_reader_rssi_sample B E r conn rssi =
     (case session_find r conn of
        None \<Rightarrow> r
      | Some i \<Rightarrow>
          let was_open = ultrawidelock_rssi_gate_is_open (ss_rgate (sess r i));
              (g, now_open) = ultrawidelock_rssi_gate_feed (ss_rgate (sess r i)) (rb_gate_cfg B) rssi (en_uptime E);
              r1 = put_sess r i ((sess r i)\<lparr>ss_rgate := g\<rparr>)
          in if now_open \<and> ss_phase (sess r1 i) = PH_GATE_HOLD then complete_ap_and_range B E r1 i
             else if was_open \<and> \<not> now_open \<and> ss_phase (sess r1 i) = PH_ESTABLISHED
             then
               let r2 = ultrawidelock_ranging_stop r1 conn;
                   r3 = (if rd_last_unsecured r2 then reader_status_send B E r2 i False else r2)
               in emit (Out_Disconnect conn) r3
             else r1)"

section \<open>Housekeeping\<close>

abbreviation HOUSEKEEPING_REFILL :: u8 where "HOUSEKEEPING_REFILL \<equiv> 1"
abbreviation HOUSEKEEPING_STORE :: u8 where "HOUSEKEEPING_STORE \<equiv> 2"

definition spare_eph_refill :: "renv \<Rightarrow> reader \<Rightarrow> reader \<times> bool" where
  "spare_eph_refill E r =
     (if rd_spare r \<noteq> None then (r, True)
      else case en_keygen E of
        None \<Rightarrow> (r, False)
      | Some (priv, pub) \<Rightarrow> (case en_random E of None \<Rightarrow> (r, False) | Some txid \<Rightarrow> (r\<lparr>rd_spare := Some (priv, pub, txid)\<rparr>, True)))"

definition prov_write :: "renv \<Rightarrow> reader \<Rightarrow> reader_identity \<Rightarrow> trust_store \<Rightarrow> reader \<times> int" where
  "prov_write E r idt ts =
     (case ultrawidelock_prov_store (fst (en_store E)) (snd (en_store E)) idt ts (rd_kv r) of
        (kv, rc) \<Rightarrow> (r\<lparr>rd_kv := kv\<rparr>, rc))"

definition flush_pending_store :: "renv \<Rightarrow> reader \<Rightarrow> reader \<times> int" where
  "flush_pending_store E r =
     (if \<not> rd_kp_dirty r then (r, 0)
      else case prov_write E (r\<lparr>rd_kp_dirty := False\<rparr>) (rd_id r) (rd_trust r) of
        (r1, rc) \<Rightarrow> if rc \<noteq> 0 then (r1\<lparr>rd_kp_dirty := True\<rparr>, rc) else (r1, 0))"

definition housekeeping_schedule :: "u8 \<Rightarrow> reader \<Rightarrow> reader" where
  "housekeeping_schedule reasons r = r\<lparr>rd_housekeeping := rd_housekeeping r OR reasons\<rparr>"

definition housekeeping_run_once :: "renv \<Rightarrow> reader \<Rightarrow> reader \<times> u8" where
  "housekeeping_run_once E r =
     (let reasons = rd_housekeeping r; r1 = r\<lparr>rd_housekeeping := 0\<rparr>;
          (r2, refilled) = (if reasons AND HOUSEKEEPING_REFILL \<noteq> 0 then spare_eph_refill E r1 else (r1, True));
          (r3, rc) = (if reasons AND HOUSEKEEPING_STORE \<noteq> 0 then flush_pending_store E r2 else (r2, 0));
          retry = (if refilled then 0 else HOUSEKEEPING_REFILL) OR (if rc = 0 then 0 else HOUSEKEEPING_STORE)
      in (if retry \<noteq> 0 then housekeeping_schedule retry r3 else r3, retry))"

section \<open>Transport callbacks\<close>

definition on_connected :: "renv \<Rightarrow> reader \<Rightarrow> u16 \<Rightarrow> reader" where
  "on_connected E r conn = fst (session_alloc E r conn)"

definition close_session :: "renv \<Rightarrow> reader \<Rightarrow> u16 \<Rightarrow> reader" where
  "close_session E r conn =
     (case session_find r conn of
        None \<Rightarrow> ultrawidelock_ranging_stop r conn
      | Some i \<Rightarrow>
          let r1 = session_enter_phase E (r\<lparr>rd_last_close_est := (ss_phase (sess r i) = PH_ESTABLISHED)\<rparr>) i PH_FAILED;
              r2 = put_sess r1 i ((sess r1 i)\<lparr>ss_active := False\<rparr>)
          in put_sess (ultrawidelock_ranging_stop r2 conn) i session_zero)"

definition on_disconnected :: "renv \<Rightarrow> reader \<Rightarrow> u16 \<Rightarrow> reader" where
  "on_disconnected E r conn =
     (let r1 = close_session E r conn;
          r2 = (if rd_presence_wait r1 \<and> \<not> any_session_active_on_host r1 then presence_checkpoint_ready_on_host r1 else r1)
      in housekeeping_schedule (HOUSEKEEPING_REFILL OR HOUSEKEEPING_STORE) r2)"

definition sdu_len :: "bytes \<Rightarrow> nat" where
  "sdu_len data = (case ultrawidelock_ble_unframe data of Some (_, _, pl) \<Rightarrow> ENVELOPE_HDR + length pl | None \<Rightarrow> length data)"

function on_data_loop :: "reader_build \<Rightarrow> renv \<Rightarrow> nat \<Rightarrow> bytes \<Rightarrow> reader \<Rightarrow> reader" where
  "on_data_loop B E i data r =
     (if data = [] then r
      else
        let r1 = transaction_feed B E r i (take (sdu_len data) data)
        in if \<not> ss_active (sess r1 i) \<or> ss_disconnect_requested (sess r1 i) then r1
           else on_data_loop B E i (drop (sdu_len data) data) r1)"
  by pat_completeness auto
termination
  by (relation "measure (\<lambda>(B, E, i, data, r). length data)") (auto simp: sdu_len_def split: option.splits)

declare on_data_loop.simps [simp del]

definition on_data :: "reader_build \<Rightarrow> renv \<Rightarrow> reader \<Rightarrow> u16 \<Rightarrow> bytes \<Rightarrow> reader" where
  "on_data B E r conn data =
     (case session_find r conn of
        None \<Rightarrow> r
      | Some i \<Rightarrow>
          let s = sess r i; now = en_now E
          in if ss_phase s = PH_ESTABLISHED
             then on_data_loop B E i data
                    (if ss_overall_armed s then put_sess r i (s\<lparr>ss_overall_deadline := now + READER_SESSION_TIMEOUT_MS\<rparr>) else r)
             else if ss_phase_armed s \<and> ms_reached now (ss_phase_deadline s) \<or>
                     ss_overall_armed s \<and> ms_reached now (ss_overall_deadline s)
             then session_terminate E r i
             else on_data_loop B E i data r)"

definition revoke_sweep_on_host :: "reader \<Rightarrow> reader" where
  "revoke_sweep_on_host r = fold disconnect_active [0..<MAX_SESSIONS] r"

section \<open>Events of the host task\<close>

datatype host_event =
    Ev_Connected u16
  | Ev_Disconnected u16
  | Ev_Data u16 bytes
  | Ev_Rssi u16 int
  | Ev_Tick u32
  | Ev_Status bool
  | Ev_Notify bool
  | Ev_Presence_Restart
  | Ev_Presence_Reset
  | Ev_Sweep
  | Ev_Housekeeping

fun host_handle :: "reader_build \<Rightarrow> renv \<Rightarrow> reader \<Rightarrow> host_event \<Rightarrow> reader" where
  "host_handle B E r (Ev_Connected conn) = on_connected E r conn"
| "host_handle B E r (Ev_Disconnected conn) = on_disconnected E r conn"
| "host_handle B E r (Ev_Data conn data) = on_data B E r conn data"
| "host_handle B E r (Ev_Rssi conn rssi) = ultrawidelock_reader_rssi_sample B E r conn rssi"
| "host_handle B E r (Ev_Tick now) = reader_tick_on_host E r now"
| "host_handle B E r (Ev_Status unsecured) = reader_status_send_on_host B E r unsecured"
| "host_handle B E r (Ev_Notify unsecured) = ultrawidelock_reader_notify_unlock r unsecured"
| "host_handle B E r Ev_Presence_Restart = fst (ultrawidelock_reader_presence_restart B E r)"
| "host_handle B E r Ev_Presence_Reset = presence_reset_on_host r"
| "host_handle B E r Ev_Sweep = revoke_sweep_on_host r"
| "host_handle B E r Ev_Housekeeping = fst (housekeeping_run_once E r)"

end
