(* ===== verification/Reader_Prov.thy ===== *)
theory Reader_Prov
  imports Reader_Host
begin

text \<open>
  The provisioning bridge of the reader (\<^verbatim>\<open>ultrawidelock_reader.c\<close>): what a Matter admin or the bench console
  calls to install, name and revoke credentials, and the start of the reader. An addition is written first
  and adopted second; a removal is adopted first and written second. Each definition gives the new reader
  and the source's return code. The locks of the source make each of them one step.
\<close>

section \<open>Start\<close>

definition apply_provisioned_adv_params :: "reader \<Rightarrow> reader \<times> bool" where
  "apply_provisioned_adv_params r =
     (let idt = rd_id r
      in if \<exists>b\<in>set (id_grk idt). b \<noteq> 0
         then (emit (Out_Adv_Params (take 8 (id_reader_id idt)) [id_reader_id idt ! 16, id_reader_id idt ! 17] (id_grk idt)) r, True)
         else (r, False))"

definition ultrawidelock_reader_refresh_adv :: "reader \<Rightarrow> reader" where
  "ultrawidelock_reader_refresh_adv r = (case apply_provisioned_adv_params r of (r1, ok) \<Rightarrow> if ok then emit Out_Readvertise r1 else r)"

text \<open>Whether the primitives, the housekeeping thread and the ranging adapter come up are arguments.\<close>

definition reader_engine_init :: "reader_build \<Rightarrow> renv \<Rightarrow> bool \<Rightarrow> bool \<Rightarrow> bool \<Rightarrow> reader \<Rightarrow> reader \<times> int" where
  "reader_engine_init B E crypto_up thread_up adapter_up r =
     (if \<not> crypto_up then (r, -1)
      else case load_provisioning B E r of
        (r1, rc) \<Rightarrow>
          if rc < 0 then (r1, rc)
          else if \<not> thread_up then (r1, -1)
          else (fst (spare_eph_refill E (r1\<lparr>rd_adapter := rd_adapter r1 \<or> adapter_up\<rparr>)), 0))"

definition ultrawidelock_reader_start :: "reader_build \<Rightarrow> renv \<Rightarrow> bool \<Rightarrow> bool \<Rightarrow> bool \<Rightarrow> int \<Rightarrow> reader \<Rightarrow> reader \<times> int" where
  "ultrawidelock_reader_start B E crypto_up thread_up adapter_up transport_rc r =
     (case reader_engine_init B E crypto_up thread_up adapter_up r of
        (r1, rc) \<Rightarrow> if rc \<noteq> 0 then (r1, rc) else (fst (apply_provisioned_adv_params r1), transport_rc))"

section \<open>Revocation\<close>

definition revoke_aftermath :: "bytes option \<Rightarrow> reader \<Rightarrow> reader" where
  "revoke_aftermath removed r =
     (let hit = (\<lambda>c. removed = None \<or> removed = c)
      in emit Out_Post_Sweep
           (r\<lparr>rd_auth_cred := (if hit (rd_auth_cred r) then None else rd_auth_cred r),
              rd_last_cred := (if hit (rd_last_cred r) then None else rd_last_cred r)\<rparr>))"

definition persist_removal :: "renv \<Rightarrow> reader \<Rightarrow> reader \<times> int" where
  "persist_removal E r =
     (case prov_write E r (rd_id r) (rd_trust r) of (r1, rc) \<Rightarrow> if rc = 0 then (r1, 0) else (r1\<lparr>rd_kp_dirty := True\<rparr>, rc))"

text \<open>The common end of a removal: persist what is already live, then forget the key elsewhere.\<close>

definition finish_removal :: "renv \<Rightarrow> bytes option \<Rightarrow> reader \<Rightarrow> reader \<times> int" where
  "finish_removal E removed r =
     (case persist_removal E (r\<lparr>rd_fast_mru := -1\<rparr>) of (r1, rc) \<Rightarrow> (revoke_aftermath removed r1, rc))"

definition ultrawidelock_reader_trust_clear :: "reader_build \<Rightarrow> renv \<Rightarrow> reader \<Rightarrow> reader \<times> int" where
  "ultrawidelock_reader_trust_clear B E r0 =
     (let r = fst (load_provisioning B E r0)
      in if ts_count (rd_trust r) = 0 then (r, 1)
         else finish_removal E None (r\<lparr>rd_trust := ts_empty\<rparr>))"

definition ultrawidelock_reader_provision_remove_issuer :: "reader_build \<Rightarrow> renv \<Rightarrow> reader \<Rightarrow> u16 \<Rightarrow> reader \<times> int" where
  "ultrawidelock_reader_provision_remove_issuer B E r0 cred_index =
     (let r = fst (load_provisioning B E r0); idx = ultrawidelock_prov_issuer_find_index (rd_trust r) cred_index
      in if idx < 0 then (case flush_pending_store E r of (r1, pending) \<Rightarrow> (r1, if pending \<noteq> 0 then pending else 1))
         else finish_removal E None (r\<lparr>rd_trust := fst (ultrawidelock_prov_issuer_remove_at (rd_trust r) idx)\<rparr>))"

lemma rows_shift_count [simp]: "ts_count (rows_shift ts i) = ts_count ts"
  by (induction ts i rule: rows_shift.induct) (subst rows_shift.simps, simp add: row_copy_def)

text \<open>Every anchor under one name; the key of the last and how many there were.\<close>

function remove_named :: "u8 \<Rightarrow> u16 \<Rightarrow> trust_store \<Rightarrow> bytes option \<Rightarrow> nat \<Rightarrow> trust_store \<times> bytes option \<times> nat" where
  "remove_named ty ci ts removed found =
     (let idx = ultrawidelock_prov_find_cred_index ts ty ci
      in if idx < 0 then (ts, removed, found)
         else case ultrawidelock_prov_trust_remove_at ts idx of
           (ts1, rc) \<Rightarrow>
             if rc \<noteq> 0 then (ts, Some (ts_cred_pub ts ! nat idx), found)
             else remove_named ty ci ts1 (Some (ts_cred_pub ts ! nat idx)) (found + 1))"
  by pat_completeness auto
termination
  by (relation "measure (\<lambda>(ty, ci, ts, removed, found). ts_count ts)")
     (auto simp: ultrawidelock_prov_trust_remove_at_def Let_def row_zero_def split: if_splits)

declare remove_named.simps [simp del]

definition ultrawidelock_reader_provision_remove_trust :: "reader_build \<Rightarrow> renv \<Rightarrow> reader \<Rightarrow> u8 \<Rightarrow> u16 \<Rightarrow> reader \<times> int" where
  "ultrawidelock_reader_provision_remove_trust B E r0 cred_type cred_index =
     (let r = fst (load_provisioning B E r0)
      in case remove_named cred_type cred_index (rd_trust r) None 0 of
        (ts, removed, found) \<Rightarrow>
          if found = 0 then (case flush_pending_store E (r\<lparr>rd_trust := ts\<rparr>) of (r1, pending) \<Rightarrow> (r1, if pending \<noteq> 0 then pending else 1))
          else finish_removal E (if found > 1 then None else removed) (r\<lparr>rd_trust := ts\<rparr>))"

text \<open>The two downward loops of a wildcard removal, over the issuers and then over the anchors.\<close>

definition drop_issuer_if :: "(trust_store \<Rightarrow> nat \<Rightarrow> bool) \<Rightarrow> nat \<Rightarrow> trust_store \<times> int \<Rightarrow> trust_store \<times> int" where
  "drop_issuer_if c i st =
     (case st of (ts, removed) \<Rightarrow>
        if c ts i
        then (case ultrawidelock_prov_issuer_remove_at ts (int i) of
                (ts1, dropped) \<Rightarrow> (ts1, removed + (if dropped > 0 then dropped + 1 else 1)))
        else (ts, removed))"

definition drop_anchor_if :: "(trust_store \<Rightarrow> nat \<Rightarrow> bool) \<Rightarrow> nat \<Rightarrow> trust_store \<times> int \<Rightarrow> trust_store \<times> int" where
  "drop_anchor_if c i st =
     (case st of (ts, removed) \<Rightarrow>
        if c ts i then (fst (ultrawidelock_prov_trust_remove_at ts (int i)), removed + 1) else (ts, removed))"

definition drop_matching :: "(trust_store \<Rightarrow> nat \<Rightarrow> bool) \<Rightarrow> (trust_store \<Rightarrow> nat \<Rightarrow> bool) \<Rightarrow> trust_store \<Rightarrow> trust_store \<times> int" where
  "drop_matching ci ca ts =
     (let st = fold (drop_issuer_if ci) (rev [0..<ts_issuer_count ts]) (ts, 0)
      in fold (drop_anchor_if ca) (rev [0..<ts_count (fst st)]) st)"

definition remove_matching :: "renv \<Rightarrow> reader \<Rightarrow> (trust_store \<Rightarrow> nat \<Rightarrow> bool) \<Rightarrow> (trust_store \<Rightarrow> nat \<Rightarrow> bool) \<Rightarrow> reader \<times> int" where
  "remove_matching E r ci ca =
     (case drop_matching ci ca (rd_trust r) of
        (ts, removed) \<Rightarrow>
          if removed = 0 then flush_pending_store E (r\<lparr>rd_trust := ts\<rparr>)
          else case finish_removal E None (r\<lparr>rd_trust := ts\<rparr>) of (r1, rc) \<Rightarrow> (r1, if rc = 0 then removed else rc))"

definition ultrawidelock_reader_provision_remove_type :: "reader_build \<Rightarrow> renv \<Rightarrow> reader \<Rightarrow> u8 \<Rightarrow> reader \<times> int" where
  "ultrawidelock_reader_provision_remove_type B E r0 cred_type =
     remove_matching E (fst (load_provisioning B E r0))
       (\<lambda>ts i. cred_type = 0 \<or> cred_type = CRED_TYPE_ALIRO_ISSUER)
       (\<lambda>ts i. cred_type = 0 \<or> ts_cred_type ts ! i = cred_type)"

definition ultrawidelock_reader_provision_remove_user :: "reader_build \<Rightarrow> renv \<Rightarrow> reader \<Rightarrow> u16 \<Rightarrow> reader \<times> int" where
  "ultrawidelock_reader_provision_remove_user B E r0 user_index =
     remove_matching E (fst (load_provisioning B E r0))
       (\<lambda>ts i. user_index = USER_INDEX_ALL \<or> ts_issuer_user_index ts ! i = user_index)
       (\<lambda>ts i. user_index = USER_INDEX_ALL \<or> ts_user_index ts ! i = user_index)"

section \<open>Installation\<close>

text \<open>Write the candidate; only a write that landed is adopted.\<close>

definition adopt :: "renv \<Rightarrow> reader \<Rightarrow> trust_store \<Rightarrow> bool \<Rightarrow> int \<Rightarrow> reader \<times> int" where
  "adopt E r cand reset_mru rc_ok =
     (case prov_write E r (rd_id r) cand of
        (r1, rc) \<Rightarrow>
          if rc \<noteq> 0 then (r1, rc)
          else (r1\<lparr>rd_trust := cand, rd_fast_mru := (if reset_mru then -1 else rd_fast_mru r1)\<rparr>, rc_ok))"

definition ultrawidelock_reader_trust_last :: "reader_build \<Rightarrow> renv \<Rightarrow> reader \<Rightarrow> reader \<times> int" where
  "ultrawidelock_reader_trust_last B E r0 =
     (let r = fst (load_provisioning B E r0)
      in case rd_last_cred r of
           None \<Rightarrow> (r, 1)
         | Some key \<Rightarrow>
             (case ultrawidelock_prov_trust_add (rd_trust r) key of
                (cand, add) \<Rightarrow> if add = 1 then (r, 1) else if add < 0 then (r, -1) else adopt E r cand True 0))"

definition ultrawidelock_reader_provision_add_trust :: "reader_build \<Rightarrow> renv \<Rightarrow> reader \<Rightarrow> bytes \<Rightarrow> u8 \<Rightarrow> u16 \<Rightarrow> u16 \<Rightarrow> reader \<times> int" where
  "ultrawidelock_reader_provision_add_trust B E r0 cred_pub cred_type cred_index user_index =
     (let r = fst (load_provisioning B E r0)
      in case ultrawidelock_prov_trust_add (rd_trust r) cred_pub of
           (cand, add) \<Rightarrow>
             if add < 0 then (r, -1)
             else
               let slot = ultrawidelock_prov_trust_find cand cred_pub;
                   rebind = (slot \<ge> 0 \<and> (ts_cred_type cand ! nat slot \<noteq> cred_type \<or> ts_cred_index cand ! nat slot \<noteq> cred_index \<or>
                                          ts_user_index cand ! nat slot \<noteq> user_index));
                   cand1 = fst (ultrawidelock_prov_cred_bind_set cand slot cred_type cred_index user_index)
               in if add = 1 \<and> \<not> rebind then (r, 1)
                  else adopt E r cand1 True (if add = 1 then 1 else 0))"

definition ultrawidelock_reader_provision_add_issuer :: "reader_build \<Rightarrow> renv \<Rightarrow> reader \<Rightarrow> bytes \<Rightarrow> u16 \<Rightarrow> u16 \<Rightarrow> reader \<times> int" where
  "ultrawidelock_reader_provision_add_issuer B E r0 pub cred_index user_index =
     (let r = fst (load_provisioning B E r0)
      in case ultrawidelock_prov_issuer_add (rd_trust r) pub cred_index user_index of
           (cand, add) \<Rightarrow>
             if add < 0 then (r, -1)
             else if add = 1 \<and> cand = rd_trust r then (r, 1)
             else adopt E r cand False add)"

definition ultrawidelock_reader_provision_cred_lookup :: "reader_build \<Rightarrow> renv \<Rightarrow> reader \<Rightarrow> u8 \<Rightarrow> u16 \<Rightarrow> reader \<times> (u16 \<times> bytes) option" where
  "ultrawidelock_reader_provision_cred_lookup B E r0 cred_type cred_index =
     (let r = fst (load_provisioning B E r0); ts = rd_trust r
      in (r, if cred_type = CRED_TYPE_ALIRO_ISSUER
             then let idx = ultrawidelock_prov_issuer_find_index ts cred_index
                  in if idx \<ge> 0 then Some (ts_issuer_user_index ts ! nat idx, ts_issuer_pub ts ! nat idx) else None
             else let idx = ultrawidelock_prov_find_cred_index ts cred_type cred_index
                  in if idx \<ge> 0 then Some (ts_user_index ts ! nat idx, ts_cred_pub ts ! nat idx) else None))"

section \<open>Identity\<close>

definition ultrawidelock_reader_provision_identity :: "reader_build \<Rightarrow> renv \<Rightarrow> reader \<Rightarrow> bytes \<Rightarrow> bytes \<Rightarrow> bytes \<Rightarrow> reader \<times> int" where
  "ultrawidelock_reader_provision_identity B E r0 reader_id sign_priv grk =
     (let r = fst (load_provisioning B E r0);
          idt = \<lparr>id_reader_id = reader_id, id_sign_priv = sign_priv, id_grk = grk, id_is_dev = False\<rparr>
      in case prov_write E r idt (rd_trust r) of
           (r1, rc) \<Rightarrow>
             if rc \<noteq> 0 then (r1, rc)
             else (ultrawidelock_reader_refresh_adv (compute_reader_group_x B (r1\<lparr>rd_id := idt, rd_prov := PROVISIONING_READY\<rparr>)), 0))"

definition ultrawidelock_reader_identity_public :: "reader_build \<Rightarrow> renv \<Rightarrow> reader \<Rightarrow> reader \<times> (int + bytes \<times> bytes \<times> bytes)" where
  "ultrawidelock_reader_identity_public B E r0 =
     (let r = fst (load_provisioning B E r0); idt = rd_id r
      in (r, if id_is_dev idt then Inl (-2)
             else case ec_pub_from_priv (rb_prim B) (id_sign_priv idt) of
               None \<Rightarrow> Inl (-5)
             | Some verif_pub \<Rightarrow> Inr (id_reader_id idt, verif_pub, id_grk idt)))"

definition ultrawidelock_reader_provision_clear :: "reader_build \<Rightarrow> renv \<Rightarrow> reader \<Rightarrow> reader \<times> int" where
  "ultrawidelock_reader_provision_clear B E r0 =
     (let r = fst (load_provisioning B E r0); (idt, ts) = ultrawidelock_prov_dev_default
      in case prov_write E r idt ts of
           (r1, rc) \<Rightarrow>
             if rc \<noteq> 0 then (r1, rc)
             else (revoke_aftermath None
                     (compute_reader_group_x B (r1\<lparr>rd_id := idt, rd_trust := ts, rd_prov := PROVISIONING_EMPTY, rd_fast_mru := -1\<rparr>)), 0))"

definition ultrawidelock_reader_export_blob :: "reader_build \<Rightarrow> renv \<Rightarrow> reader \<Rightarrow> nat \<Rightarrow> reader \<times> bytes option" where
  "ultrawidelock_reader_export_blob B E r0 cap =
     (let r = fst (load_provisioning B E r0) in (r, ultrawidelock_prov_serialize (rd_id r) (rd_trust r) cap))"

definition ultrawidelock_reader_import_blob :: "reader_build \<Rightarrow> renv \<Rightarrow> reader \<Rightarrow> bytes \<Rightarrow> reader \<times> int" where
  "ultrawidelock_reader_import_blob B E r0 buf =
     (let r = fst (load_provisioning B E r0)
      in case ultrawidelock_prov_deserialize buf of
           None \<Rightarrow> (r, -1)
         | Some (idt, ts) \<Rightarrow>
             (case prov_write E r idt ts of
                (r1, rc) \<Rightarrow>
                  if rc \<noteq> 0 then (r1, -2)
                  else (ultrawidelock_reader_refresh_adv (compute_reader_group_x B
                          (r1\<lparr>rd_id := idt, rd_trust := ts, rd_prov := (if id_is_dev idt then PROVISIONING_EMPTY else PROVISIONING_READY),
                              rd_fast_mru := -1\<rparr>)), 0)))"

section \<open>The reader as a whole\<close>

datatype admin_op =
    Adm_Start bool bool bool int
  | Adm_Trust_Last
  | Adm_Trust_Clear
  | Adm_Add_Trust bytes u8 u16 u16
  | Adm_Add_Issuer bytes u16 u16
  | Adm_Remove_Trust u8 u16
  | Adm_Remove_Issuer u16
  | Adm_Remove_Type u8
  | Adm_Remove_User u16
  | Adm_Identity bytes bytes bytes
  | Adm_Clear
  | Adm_Import bytes

fun admin_handle :: "reader_build \<Rightarrow> renv \<Rightarrow> reader \<Rightarrow> admin_op \<Rightarrow> reader \<times> int" where
  "admin_handle B E r (Adm_Start c t a rc) = ultrawidelock_reader_start B E c t a rc r"
| "admin_handle B E r Adm_Trust_Last = ultrawidelock_reader_trust_last B E r"
| "admin_handle B E r Adm_Trust_Clear = ultrawidelock_reader_trust_clear B E r"
| "admin_handle B E r (Adm_Add_Trust p ty ci ui) = ultrawidelock_reader_provision_add_trust B E r p ty ci ui"
| "admin_handle B E r (Adm_Add_Issuer p ci ui) = ultrawidelock_reader_provision_add_issuer B E r p ci ui"
| "admin_handle B E r (Adm_Remove_Trust ty ci) = ultrawidelock_reader_provision_remove_trust B E r ty ci"
| "admin_handle B E r (Adm_Remove_Issuer ci) = ultrawidelock_reader_provision_remove_issuer B E r ci"
| "admin_handle B E r (Adm_Remove_Type ty) = ultrawidelock_reader_provision_remove_type B E r ty"
| "admin_handle B E r (Adm_Remove_User ui) = ultrawidelock_reader_provision_remove_user B E r ui"
| "admin_handle B E r (Adm_Identity rid priv grk) = ultrawidelock_reader_provision_identity B E r rid priv grk"
| "admin_handle B E r Adm_Clear = ultrawidelock_reader_provision_clear B E r"
| "admin_handle B E r (Adm_Import blob) = ultrawidelock_reader_import_blob B E r blob"

text \<open>One event with what the outside answers during it; the outputs are those of the event.\<close>

datatype reader_event = Ev_Host host_event | Ev_Admin admin_op

definition reader_step :: "reader_build \<Rightarrow> reader \<Rightarrow> renv \<times> reader_event \<Rightarrow> reader \<times> rd_out list" where
  "reader_step B r x =
     (case x of (E, ev) \<Rightarrow>
        let r0 = r\<lparr>rd_out := []\<rparr>;
            r1 = (case ev of Ev_Host h \<Rightarrow> host_handle B E r0 h | Ev_Admin a \<Rightarrow> fst (admin_handle B E r0 a))
        in (r1, rd_out r1))"

definition reader_after :: "reader_build \<Rightarrow> bytes option \<Rightarrow> (renv \<times> reader_event) list \<Rightarrow> reader" where
  "reader_after B kv evs = fst (run_steps (reader_step B) (reader_boot kv) evs)"

end
