(* ===== verification/Reader_Inv.thy ===== *)
theory Reader_Inv
  imports Reader_Prov
begin

text \<open>
  The invariant of the credential reader and that every callback and every provisioning call keeps it. \<open>slot_ok\<close>
  says what the flags of a slot mean together, \<open>reader_wf\<close> that the published counter is the number of established
  sessions, \<open>bridge_ok\<close> that the ranging bridge borrows a live channel, and \<open>backed\<close> that a session past authentication rests
  on a proof that some earlier state of the reader accepted.
\<close>

section \<open>The invariant\<close>

fun past_auth :: "txn_phase \<Rightarrow> bool" where
  "past_auth ph = (ph = PH_SENT_EXCHANGE \<or> ph = PH_GATE_HOLD \<or> ph = PH_ESTABLISHED)"

definition slot_ok :: "session \<Rightarrow> bool" where
  "slot_ok s \<longleftrightarrow>
     (\<not> ss_active s \<longrightarrow> s = session_zero) \<and>
     (ss_active s \<longrightarrow> (ss_disconnect_requested s \<longleftrightarrow> ss_phase s = PH_FAILED) \<and>
        (ss_phase_armed s \<longleftrightarrow> phase_awaits_peer (ss_phase s)) \<and> (ss_overall_armed s \<longleftrightarrow> \<not> ss_disconnect_requested s))"

definition bridge_ok :: "reader \<Rightarrow> bool" where
  "bridge_ok r \<longleftrightarrow>
     (rd_rg_active r \<longrightarrow> (\<exists>i. rd_rg_sc r = Some i \<and> i < MAX_SESSIONS \<and> ss_active (sess r i) \<and> ss_conn (sess r i) = rd_rg_conn r \<and>
        (ss_phase (sess r i) = PH_ESTABLISHED \<or> ss_phase (sess r i) = PH_FAILED)))"

definition established_count :: "reader \<Rightarrow> nat" where
  "established_count r = length (filter (\<lambda>s. ss_active s \<and> ss_phase s = PH_ESTABLISHED) (rd_sessions r))"

definition reader_wf :: "reader \<Rightarrow> bool" where
  "reader_wf r \<longleftrightarrow>
     length (rd_sessions r) = MAX_SESSIONS \<and> (\<forall>s\<in>set (rd_sessions r). slot_ok s) \<and>
     rd_established r = of_nat (established_count r)"

text \<open>What a state of the reader accepts as proof for the keys a session holds: a signature over this
  session's transcript by a key of the store (or, on an empty bench reader, by any key), or a cryptogram that
  opens under the fast-path key of an anchor; and the ranging key comes out of the same derivation.\<close>

definition agreed :: "reader_build \<Rightarrow> session \<Rightarrow> bool" where
  "agreed B s \<longleftrightarrow>
     (\<exists>shared. ecdh (rb_prim B) (ss_eph_priv s) (ss_dev_eph s) = Some shared \<and> ss_z s = ultrawidelock_crypto_derive_z shared (ss_txid s))"

definition accepts_key :: "reader_build \<Rightarrow> reader \<Rightarrow> bytes \<Rightarrow> bool" where
  "accepts_key B r cred \<longleftrightarrow>
     ultrawidelock_prov_trust_check (rd_trust r) cred = 0 \<or>
     (ts_count (rd_trust r) = 0 \<and> id_is_dev (rd_id r) \<and> rb_dev_trust B \<and> rd_prov r = PROVISIONING_EMPTY)"

definition proven_standard :: "reader_build \<Rightarrow> reader \<Rightarrow> session \<Rightarrow> bool" where
  "proven_standard B r s \<longleftrightarrow>
     agreed B s \<and>
     (\<exists>gx block. rd_group_x r = Some gx \<and> standard_block r gx s = Some block \<and> ss_ursk s = ultrawidelock_crypto_ursk_from_block block) \<and>
     (\<exists>cred td sig. accepts_key B r cred \<and>
        ultrawidelock_apdu_build_authdata False (id_reader_id (rd_id r)) (x_of (ss_dev_eph s)) (x_of (ss_eph_pub s)) (ss_txid s) 160 = Some td \<and>
        ecdsa_verify (rb_prim B) cred td sig)"

definition proven_fast :: "reader_build \<Rightarrow> reader \<Rightarrow> session \<Rightarrow> bool" where
  "proven_fast B r s \<longleftrightarrow>
     (\<exists>k gx block cryptogram. k < ts_count (rd_trust r) \<and> kp_bit (rd_trust r) k \<and> rd_group_x r = Some gx \<and>
        fast_block r gx s k = Some block \<and> ultrawidelock_crypto_verify_cryptogram (rb_prim B) (take 32 block) cryptogram \<noteq> None \<and>
        ss_ursk s = ultrawidelock_crypto_ursk_from_block block)"

definition proven :: "reader_build \<Rightarrow> reader \<Rightarrow> session \<Rightarrow> bool" where
  "proven B r s \<longleftrightarrow> proven_standard B r s \<or> proven_fast B r s"

definition backed :: "reader_build \<Rightarrow> reader set \<Rightarrow> session \<Rightarrow> bool" where
  "backed B H s \<longleftrightarrow>
     (ss_phase s = PH_SENT_AUTH1 \<longrightarrow> agreed B s) \<and> (past_auth (ss_phase s) \<longrightarrow> (\<exists>r\<in>H. proven B r s))"

definition core :: "reader_build \<Rightarrow> reader set \<Rightarrow> reader \<Rightarrow> bool" where
  "core B H r \<longleftrightarrow> reader_wf r \<and> (\<forall>s\<in>set (rd_sessions r). backed B H s)"

definition good :: "reader_build \<Rightarrow> reader set \<Rightarrow> reader \<Rightarrow> bool" where
  "good B H r \<longleftrightarrow> core B H r \<and> bridge_ok r"

definition live :: "reader \<Rightarrow> nat \<Rightarrow> bool" where
  "live r i \<longleftrightarrow> i < MAX_SESSIONS \<and> ss_active (sess r i) \<and> \<not> ss_disconnect_requested (sess r i)"

text \<open>What the proof of a session is judged against.\<close>

definition snapshot :: "reader \<Rightarrow> reader_identity \<times> trust_store \<times> bytes option \<times> provisioning_state" where
  "snapshot r = (rd_id r, rd_trust r, rd_group_x r, rd_prov r)"

definition known :: "reader set \<Rightarrow> reader \<Rightarrow> bool" where
  "known H r \<longleftrightarrow> snapshot r \<in> snapshot ` H"

section \<open>Frame\<close>

definition ctl where
  "ctl s = (ss_active s, ss_disconnect_requested s, ss_conn s, ss_phase s, ss_phase_armed s, ss_overall_armed s)"

definition keys where
  "keys s = (ss_eph_priv s, ss_eph_pub s, ss_txid s, ss_exp_phase s, ss_dev_eph s, ss_z s, ss_ursk s, ss_a5 s)"

lemma keys_simps [simp]:
  "keys (s\<lparr>ss_phase := ph\<rparr>) = keys s" "keys (s\<lparr>ss_sc := c\<rparr>) = keys s" "keys (s\<lparr>ss_sc_ble := c\<rparr>) = keys s" "keys (s\<lparr>ss_rgate := g\<rparr>) = keys s"
  "keys (s\<lparr>ss_overall_deadline := t\<rparr>) = keys s" "keys (s\<lparr>ss_msgs_rx := n\<rparr>) = keys s"
  by (simp_all add: keys_def)

lemma ctl_simps [simp]:
  "ctl (s\<lparr>ss_sc := c\<rparr>) = ctl s" "ctl (s\<lparr>ss_sc_ble := c\<rparr>) = ctl s" "ctl (s\<lparr>ss_rgate := g\<rparr>) = ctl s" "ctl (s\<lparr>ss_overall_deadline := t\<rparr>) = ctl s"
  "ctl (s\<lparr>ss_msgs_rx := n\<rparr>) = ctl s" "ctl (s\<lparr>ss_eph_priv := x\<rparr>) = ctl s" "ctl (s\<lparr>ss_eph_pub := x\<rparr>) = ctl s" "ctl (s\<lparr>ss_txid := x\<rparr>) = ctl s"
  "ctl (s\<lparr>ss_exp_phase := e\<rparr>) = ctl s" "ctl (s\<lparr>ss_dev_eph := x\<rparr>) = ctl s" "ctl (s\<lparr>ss_z := x\<rparr>) = ctl s" "ctl (s\<lparr>ss_ursk := x\<rparr>) = ctl s"
  "ctl (s\<lparr>ss_a5 := x\<rparr>) = ctl s"
  by (simp_all add: ctl_def)

lemma derivations_cong:
  assumes "keys s = keys s'"
  shows "session_salt r gx s = session_salt r gx s'" "standard_block r gx s = standard_block r gx s'" "fast_block r gx s = fast_block r gx s'"
proof -
  have k: "ss_txid s = ss_txid s'" "ss_eph_pub s = ss_eph_pub s'" "ss_exp_phase s = ss_exp_phase s'" "ss_a5 s = ss_a5 s'"
    "ss_z s = ss_z s'" "ss_dev_eph s = ss_dev_eph s'"
    using assms by (simp_all add: keys_def)
  then show c: "session_salt r gx s = session_salt r gx s'" by (simp add: fun_eq_iff session_salt_def session_a5_def)
  show "standard_block r gx s = standard_block r gx s'" "fast_block r gx s = fast_block r gx s'"
    by (simp_all only: standard_block_def fast_block_def c k fun_eq_iff simp_thms)
qed

lemma derivations_snapshot:
  assumes "snapshot r = snapshot r'"
  shows "session_salt r = session_salt r'" "standard_block r = standard_block r'" "fast_block r = fast_block r'"
proof -
  have k: "rd_id r = rd_id r'" "rd_trust r = rd_trust r'" using assms by (simp_all add: snapshot_def)
  then show c: "session_salt r = session_salt r'" by (simp add: fun_eq_iff session_salt_def)
  show "standard_block r = standard_block r'" "fast_block r = fast_block r'"
    by (simp_all only: standard_block_def fast_block_def c k fun_eq_iff simp_thms)
qed

lemma agreed_cong: "keys s = keys s' \<Longrightarrow> agreed B s = agreed B s'"
  by (simp add: keys_def agreed_def)

lemma proven_cong:
  assumes "keys s = keys s'"
  shows "proven B r s = proven B r s'"
proof -
  have k: "ss_txid s = ss_txid s'" "ss_eph_pub s = ss_eph_pub s'" "ss_dev_eph s = ss_dev_eph s'" "ss_ursk s = ss_ursk s'"
    using assms by (simp_all add: keys_def)
  show ?thesis
    by (simp only: proven_def proven_standard_def proven_fast_def derivations_cong [OF assms] agreed_cong [OF assms] k)
qed

lemma proven_snapshot:
  assumes "snapshot r = snapshot r'"
  shows "proven B r s = proven B r' s"
proof -
  have k: "rd_id r = rd_id r'" "rd_trust r = rd_trust r'" "rd_group_x r = rd_group_x r'" "rd_prov r = rd_prov r'"
    using assms by (simp_all add: snapshot_def)
  show ?thesis
    by (simp only: proven_def proven_standard_def proven_fast_def accepts_key_def derivations_snapshot [OF assms] k)
qed

lemma backed_cong: "keys s = keys s' \<Longrightarrow> ss_phase s = ss_phase s' \<Longrightarrow> backed B H s = backed B H s'"
  unfolding backed_def using proven_cong agreed_cong by metis

text \<open>The rest of the reader does not matter to the invariant.\<close>

lemma good_cong:
  "rd_sessions r = rd_sessions r' \<Longrightarrow> rd_established r = rd_established r' \<Longrightarrow> rd_rg_active r = rd_rg_active r' \<Longrightarrow>
   rd_rg_sc r = rd_rg_sc r' \<Longrightarrow> rd_rg_conn r = rd_rg_conn r' \<Longrightarrow> good B H r = good B H r'"
  by (simp add: good_def core_def reader_wf_def bridge_ok_def established_count_def sess_def)

lemma core_cong: "rd_sessions r = rd_sessions r' \<Longrightarrow> rd_established r = rd_established r' \<Longrightarrow> core B H r = core B H r'"
  by (simp add: core_def reader_wf_def established_count_def)

lemma good_emit [simp]: "good B H (emit x r) = good B H r" "core B H (emit x r) = core B H r"
  by (rule good_cong core_cong; simp add: emit_def)+

lemma emit_simps [simp]:
  "rd_sessions (emit x r) = rd_sessions r" "sess (emit x r) = sess r" "snapshot (emit x r) = snapshot r"
  "live (emit x r) = live r" "known H (emit x r) = known H r" "rd_established (emit x r) = rd_established r" "rd_trust (emit x r) = rd_trust r"
  "rd_group_x (emit x r) = rd_group_x r" "rd_id (emit x r) = rd_id r" "rd_prov (emit x r) = rd_prov r"
  "rd_undelivered (emit x r) = rd_undelivered r" "rd_last_unsecured (emit x r) = rd_last_unsecured r"
  "rd_out (emit x r) = rd_out r @ [x]" "rd_rg_active (emit x r) = rd_rg_active r" "rd_rg_conn (emit x r) = rd_rg_conn r"
  "rd_rg_sc (emit x r) = rd_rg_sc r" "rd_rg_failed (emit x r) = rd_rg_failed r" "rd_adapter (emit x r) = rd_adapter r"
  by (auto simp: emit_def sess_def fun_eq_iff snapshot_def live_def known_def)

lemma put_sess_simps [simp]:
  "snapshot (put_sess r i s) = snapshot r" "known H (put_sess r i s) = known H r" "rd_established (put_sess r i s) = rd_established r"
  "rd_trust (put_sess r i s) = rd_trust r" "rd_group_x (put_sess r i s) = rd_group_x r" "rd_id (put_sess r i s) = rd_id r"
  "rd_prov (put_sess r i s) = rd_prov r" "rd_rg_active (put_sess r i s) = rd_rg_active r" "rd_rg_conn (put_sess r i s) = rd_rg_conn r"
  "rd_rg_sc (put_sess r i s) = rd_rg_sc r" "rd_rg_failed (put_sess r i s) = rd_rg_failed r" "rd_adapter (put_sess r i s) = rd_adapter r"
  "length (rd_sessions (put_sess r i s)) = length (rd_sessions r)" "rd_sessions (put_sess r i s) = (rd_sessions r)[i := s]"
  "rd_undelivered (put_sess r i s) = rd_undelivered r" "rd_last_unsecured (put_sess r i s) = rd_last_unsecured r"
  "rd_out (put_sess r i s) = rd_out r"
  by (auto simp: put_sess_def snapshot_def known_def)

lemma core_length: "core B H r \<Longrightarrow> length (rd_sessions r) = MAX_SESSIONS"
  by (simp add: core_def reader_wf_def)

lemma sess_put: "core B H r \<Longrightarrow> i < MAX_SESSIONS \<Longrightarrow> sess (put_sess r i s) j = (if j = i then s else sess r j)"
  using core_length by (fastforce simp: sess_def put_sess_def nth_list_update)

lemma core_slot: "core B H r \<Longrightarrow> i < MAX_SESSIONS \<Longrightarrow> slot_ok (sess r i) \<and> backed B H (sess r i)"
  by (simp add: core_def reader_wf_def sess_def)

text \<open>Two slots, written out.\<close>

lemma two_slots:
  assumes "length xs = MAX_SESSIONS"
  obtains a b where "xs = [a, b]"
  using assms by (auto simp: numeral_2_eq_2 length_Suc_conv)

lemma less_two: "i < MAX_SESSIONS \<longleftrightarrow> i = 0 \<or> i = 1"
  by auto

definition est :: "session \<Rightarrow> bool" where
  "est s \<longleftrightarrow> ss_active s \<and> ss_phase s = PH_ESTABLISHED"

lemma core_iff:
  "core B H r \<longleftrightarrow> (\<exists>a b. rd_sessions r = [a, b] \<and> slot_ok a \<and> slot_ok b \<and> backed B H a \<and> backed B H b \<and>
     rd_established r = of_bool (est a) + of_bool (est b))"
proof
  assume c: "core B H r"
  obtain a b where ab: "rd_sessions r = [a, b]" using two_slots core_length [OF c] by blast
  have "rd_established r = of_bool (est a) + of_bool (est b)"
    using c ab by (auto simp: core_def reader_wf_def established_count_def est_def)
  then show "\<exists>a b. rd_sessions r = [a, b] \<and> slot_ok a \<and> slot_ok b \<and> backed B H a \<and> backed B H b \<and>
     rd_established r = of_bool (est a) + of_bool (est b)"
    using c ab by (simp add: core_def reader_wf_def)
next
  assume "\<exists>a b. rd_sessions r = [a, b] \<and> slot_ok a \<and> slot_ok b \<and> backed B H a \<and> backed B H b \<and>
     rd_established r = of_bool (est a) + of_bool (est b)"
  then show "core B H r"
    by (auto simp: core_def reader_wf_def established_count_def est_def)
qed

section \<open>Slot operations\<close>

text \<open>Replacing a slot by one with the same standing, or by another with the counter adjusted.\<close>

lemma core_replace:
  assumes c: "core B H r" and i: "i < MAX_SESSIONS" and s: "slot_ok s" "backed B H s"
    and n: "n + of_bool (est (sess r i)) = rd_established r + of_bool (est s)"
  shows "core B H (put_sess (r\<lparr>rd_established := n\<rparr>) i s)"
proof -
  obtain a b where ab: "rd_sessions r = [a, b]" "slot_ok a" "slot_ok b" "backed B H a" "backed B H b"
    "rd_established r = of_bool (est a) + of_bool (est b)"
    using c unfolding core_iff by blast
  consider "i = 0" | "i = 1" using i by (auto simp: less_two)
  then show ?thesis
  proof cases
    case 1
    then have "n = of_bool (est s) + of_bool (est b)" using n ab by (simp add: sess_def algebra_simps)
    then show ?thesis using 1 ab s unfolding core_iff by (simp add: put_sess_def)
  next
    case 2
    then have "n = of_bool (est a) + of_bool (est s)" using n ab by (simp add: sess_def algebra_simps)
    then show ?thesis using 2 ab s unfolding core_iff by (simp add: put_sess_def)
  qed
qed

lemma core_put:
  assumes "core B H r" "i < MAX_SESSIONS" "ss_active (sess r i)" "ctl s = ctl (sess r i)" "backed B H s"
  shows "core B H (put_sess r i s)"
proof -
  have "slot_ok s" using core_slot [OF assms(1,2)] assms(3,4) by (auto simp: slot_ok_def ctl_def)
  moreover have "est s = est (sess r i)" using assms(4) by (simp add: est_def ctl_def)
  ultimately show ?thesis using core_replace [OF assms(1,2), of s "rd_established r"] assms(5) by simp
qed

lemma bridge_put:
  assumes "core B H r" "bridge_ok r" "i < MAX_SESSIONS" "ctl s = ctl (sess r i)"
  shows "bridge_ok (put_sess r i s)"
  using assms unfolding bridge_ok_def by (auto simp: sess_put ctl_def split: if_splits)

lemma good_put:
  "good B H r \<Longrightarrow> live r i \<Longrightarrow> ctl s = ctl (sess r i) \<Longrightarrow> backed B H s \<Longrightarrow> good B H (put_sess r i s)"
  unfolding good_def live_def using core_put bridge_put by blast

definition entered :: "renv \<Rightarrow> txn_phase \<Rightarrow> session \<Rightarrow> session" where
  "entered E ph s =
     (let s1 = s\<lparr>ss_phase := ph, ss_phase_armed := phase_awaits_peer ph\<rparr>
      in if phase_awaits_peer ph then s1\<lparr>ss_phase_deadline := en_now E + READER_PHASE_TIMEOUT_MS\<rparr> else s1)"

lemma enter_eq:
  "session_enter_phase E r i ph =
     put_sess (r\<lparr>rd_established := count_phase (ss_phase (sess r i)) ph (rd_established r)\<rparr>) i (entered E ph (sess r i))"
  by (simp add: session_enter_phase_def entered_def Let_def)

lemma entered_simps [simp]:
  "ss_active (entered E ph s) = ss_active s" "ss_conn (entered E ph s) = ss_conn s" "ss_phase (entered E ph s) = ph"
  "ss_disconnect_requested (entered E ph s) = ss_disconnect_requested s" "ss_phase_armed (entered E ph s) = phase_awaits_peer ph"
  "ss_overall_armed (entered E ph s) = ss_overall_armed s" "keys (entered E ph s) = keys s" "ss_rgate (entered E ph s) = ss_rgate s"
  "ss_sc (entered E ph s) = ss_sc s" "ss_sc_ble (entered E ph s) = ss_sc_ble s" "ss_ursk (entered E ph s) = ss_ursk s"
  by (auto simp: entered_def Let_def keys_def)

lemma count_phase_est:
  "ss_active s \<Longrightarrow> ss_active s' \<Longrightarrow>
   count_phase (ss_phase s) (ss_phase s') n + of_bool (est s) = n + (of_bool (est s') :: u32)"
  by (auto simp: count_phase_def est_def)

lemma enter_simps [simp]:
  "snapshot (session_enter_phase E r i ph) = snapshot r" "known H (session_enter_phase E r i ph) = known H r"
  "rd_trust (session_enter_phase E r i ph) = rd_trust r" "rd_rg_active (session_enter_phase E r i ph) = rd_rg_active r"
  "rd_rg_conn (session_enter_phase E r i ph) = rd_rg_conn r" "rd_rg_sc (session_enter_phase E r i ph) = rd_rg_sc r"
  "rd_out (session_enter_phase E r i ph) = rd_out r" "rd_undelivered (session_enter_phase E r i ph) = rd_undelivered r"
  "rd_group_x (session_enter_phase E r i ph) = rd_group_x r"
  by (simp_all add: enter_eq snapshot_def known_def)

lemma sess_enter:
  "core B H r \<Longrightarrow> i < MAX_SESSIONS \<Longrightarrow> sess (session_enter_phase E r i ph) j = (if j = i then entered E ph (sess r i) else sess r j)"
  using core_length [of B H r] by (simp add: enter_eq sess_def put_sess_def nth_list_update)

lemma core_enter:
  assumes c: "core B H r" and l: "live r i" and ph: "ph \<noteq> PH_FAILED" and b: "backed B H ((sess r i)\<lparr>ss_phase := ph\<rparr>)"
  shows "core B H (session_enter_phase E r i ph)"
proof -
  have i: "i < MAX_SESSIONS" using l by (simp add: live_def)
  have "slot_ok (entered E ph (sess r i))"
    using core_slot [OF c i] l ph by (auto simp: slot_ok_def live_def)
  moreover have "backed B H (entered E ph (sess r i))"
    using backed_cong [of "entered E ph (sess r i)" "(sess r i)\<lparr>ss_phase := ph\<rparr>"] b by simp
  moreover have "count_phase (ss_phase (sess r i)) ph (rd_established r) + of_bool (est (sess r i)) =
      rd_established r + of_bool (est (entered E ph (sess r i)))"
    using count_phase_est [of "sess r i" "entered E ph (sess r i)"] l by (simp add: live_def)
  ultimately show ?thesis unfolding enter_eq by (rule core_replace [OF c i])
qed

lemma good_enter:
  assumes g: "good B H r" and l: "live r i" and ph: "ph \<noteq> PH_FAILED" "ss_phase (sess r i) \<noteq> PH_ESTABLISHED"
    and b: "backed B H ((sess r i)\<lparr>ss_phase := ph\<rparr>)"
  shows "good B H (session_enter_phase E r i ph)"
proof -
  have c: "core B H r" and i: "i < MAX_SESSIONS" using g l by (simp_all add: good_def live_def)
  have "ss_phase (sess r i) \<noteq> PH_FAILED" using core_slot [OF c i] l by (simp add: slot_ok_def live_def)
  then have "bridge_ok (session_enter_phase E r i ph)"
    using g ph(2) unfolding good_def bridge_ok_def by (auto simp: sess_enter [OF c i])
  then show ?thesis using core_enter [OF c l ph(1) b] by (simp add: good_def)
qed

definition ended :: "session \<Rightarrow> session" where
  "ended s = s\<lparr>ss_phase := PH_FAILED, ss_phase_armed := False, ss_overall_armed := False, ss_disconnect_requested := True\<rparr>"

lemma ended_simps [simp]:
  "ss_active (ended s) = ss_active s" "ss_conn (ended s) = ss_conn s" "ss_phase (ended s) = PH_FAILED" "ss_disconnect_requested (ended s)"
  "\<not> ss_phase_armed (ended s)" "\<not> ss_overall_armed (ended s)"
  by (simp_all add: ended_def)

lemma terminate_eq:
  assumes "core B H r" "live r i"
  shows "session_terminate E r i = emit (Out_Disconnect (ss_conn (sess r i)))
     (put_sess (r\<lparr>rd_established := count_phase (ss_phase (sess r i)) PH_FAILED (rd_established r)\<rparr>) i (ended (sess r i)))"
  using assms core_length [OF assms(1)]
  by (simp add: session_terminate_def live_def Let_def enter_eq sess_def put_sess_def nth_list_update entered_def ended_def)

lemma terminate_dead: "\<not> live r i \<Longrightarrow> i < MAX_SESSIONS \<Longrightarrow> session_terminate E r i = r"
  by (simp add: session_terminate_def live_def)

lemma terminate_simps [simp]:
  "snapshot (session_terminate E r i) = snapshot r" "known H (session_terminate E r i) = known H r"
  "rd_trust (session_terminate E r i) = rd_trust r" "rd_rg_active (session_terminate E r i) = rd_rg_active r"
  "rd_rg_conn (session_terminate E r i) = rd_rg_conn r" "rd_rg_sc (session_terminate E r i) = rd_rg_sc r"
  "rd_undelivered (session_terminate E r i) = rd_undelivered r" "rd_last_unsecured (session_terminate E r i) = rd_last_unsecured r"
  by (simp_all add: session_terminate_def Let_def enter_eq snapshot_def known_def)

lemma sess_terminate:
  "core B H r \<Longrightarrow> i < MAX_SESSIONS \<Longrightarrow> sess (session_terminate E r i) j = (if j = i \<and> live r i then ended (sess r i) else sess r j)"
  by (cases "live r i")
     (use core_length [of B H r] in \<open>auto simp: terminate_eq terminate_dead sess_def put_sess_def nth_list_update\<close>)

lemma good_terminate:
  assumes g: "good B H r" and i: "i < MAX_SESSIONS"
  shows "good B H (session_terminate E r i)"
proof (cases "live r i")
  case True
  have c: "core B H r" using g by (simp add: good_def)
  have a: "ss_active (sess r i)" using True by (simp add: live_def)
  have "core B H (put_sess (r\<lparr>rd_established := count_phase (ss_phase (sess r i)) PH_FAILED (rd_established r)\<rparr>) i (ended (sess r i)))"
    using count_phase_est [of "sess r i" "ended (sess r i)"] a
    by (intro core_replace [OF c i]) (auto simp: slot_ok_def backed_def)
  then have "core B H (session_terminate E r i)" by (simp add: terminate_eq [OF c True])
  moreover have "bridge_ok (session_terminate E r i)"
    using g unfolding good_def bridge_ok_def by (auto simp: sess_terminate [OF c i])
  ultimately show ?thesis by (simp add: good_def)
qed (use g i in \<open>simp add: terminate_dead\<close>)

end
