(* ===== verification/Reader_Keeps.thy ===== *)
theory Reader_Keeps
  imports Reader_Inv
begin

text \<open>
  Every handler of a transaction keeps the invariant of the reader. \<open>at\<close> says that a live slot stands in a phase,
  \<open>fin\<close> what a handler leaves behind: the invariant, and either nothing changed that proofs are judged
  against or the slot is past authentication.
\<close>

definition at :: "reader_build \<Rightarrow> reader set \<Rightarrow> nat \<Rightarrow> txn_phase \<Rightarrow> reader \<Rightarrow> bool" where
  "at B H i ph r \<longleftrightarrow> good B H r \<and> live r i \<and> ss_phase (sess r i) = ph"

definition fin :: "reader_build \<Rightarrow> reader set \<Rightarrow> nat \<Rightarrow> reader \<Rightarrow> bool" where
  "fin B H i r \<longleftrightarrow> good B H r \<and> i < MAX_SESSIONS \<and> (known H r \<or> past_auth (ss_phase (sess r i)) \<or> ss_phase (sess r i) = PH_FAILED)"

lemma atD:
  assumes "at B H i ph r"
  shows at_good: "good B H r" and at_core: "core B H r" and at_live: "live r i" and at_less: "i < MAX_SESSIONS"
    and at_phase: "ss_phase (sess r i) = ph" and at_backed: "backed B H (sess r i)"
  using assms core_slot by (auto simp: at_def good_def live_def)

lemma at_emit [simp]: "at B H i ph (emit x r) = at B H i ph r"
  by (simp add: at_def)

lemma at_cong:
  "rd_sessions r = rd_sessions r' \<Longrightarrow> rd_established r = rd_established r' \<Longrightarrow> rd_rg_active r = rd_rg_active r' \<Longrightarrow>
   rd_rg_sc r = rd_rg_sc r' \<Longrightarrow> rd_rg_conn r = rd_rg_conn r' \<Longrightarrow> at B H i ph r = at B H i ph r'"
  unfolding at_def live_def sess_def using good_cong by metis

lemma at_upd [simp]:
  "at B H i ph (r\<lparr>rd_spare := a\<rparr>) = at B H i ph r" "at B H i ph (r\<lparr>rd_last_cred := b\<rparr>) = at B H i ph r"
  by (rule at_cong; simp)+

lemma upd_simps [simp]:
  "sess (r\<lparr>rd_spare := a\<rparr>) = sess r" "sess (r\<lparr>rd_last_cred := b\<rparr>) = sess r" "snapshot (r\<lparr>rd_spare := a\<rparr>) = snapshot r"
  "snapshot (r\<lparr>rd_last_cred := b\<rparr>) = snapshot r" "known H (r\<lparr>rd_spare := a\<rparr>) = known H r" "known H (r\<lparr>rd_last_cred := b\<rparr>) = known H r"
  by (auto simp: sess_def snapshot_def known_def)

lemma at_put:
  assumes "at B H i ph r" "ctl s = ctl (sess r i)" "backed B H s"
  shows "at B H i ph (put_sess r i s)" "sess (put_sess r i s) i = s"
proof -
  show e: "sess (put_sess r i s) i = s" using sess_put [OF at_core at_less] assms(1) by metis
  have "ss_phase s = ph" "live (put_sess r i s) i" using assms e by (auto simp: at_def live_def ctl_def)
  then show "at B H i ph (put_sess r i s)"
    using good_put [OF at_good at_live] assms e by (metis at_def)
qed

lemma backed_same: "at B H i ph r \<Longrightarrow> keys s = keys (sess r i) \<Longrightarrow> ss_phase s = ph \<Longrightarrow> backed B H s"
  using backed_cong at_backed at_phase by metis

lemma backed_early: "ss_phase s = PH_IDLE \<or> ss_phase s = PH_SENT_AUTH0 \<or> ss_phase s = PH_FAILED \<Longrightarrow> backed B H s"
  by (auto simp: backed_def)

lemma at_put_early:
  "at B H i ph r \<Longrightarrow> ph = PH_IDLE \<or> ph = PH_SENT_AUTH0 \<Longrightarrow> ctl s = ctl (sess r i) \<Longrightarrow> at B H i ph (put_sess r i s) \<and> sess (put_sess r i s) i = s"
  using at_put [of B H i ph r s] backed_early [of s B H] at_phase [of B H i ph r] by (auto simp: ctl_def)

lemma fin_terminate: "at B H i ph r \<Longrightarrow> fin B H i (session_terminate E r i)"
  using good_terminate [OF at_good at_less] by (auto simp: fin_def sess_terminate [OF at_core at_less] at_live atD)

lemma fin_known: "good B H r \<Longrightarrow> i < MAX_SESSIONS \<Longrightarrow> known H r \<Longrightarrow> fin B H i r"
  by (simp add: fin_def)

lemma at_enter:
  assumes "at B H i ph r" "ph \<noteq> PH_ESTABLISHED" "ph' \<noteq> PH_FAILED" "backed B H ((sess r i)\<lparr>ss_phase := ph'\<rparr>)"
  shows "at B H i ph' (session_enter_phase E r i ph')"
  using assms good_enter [OF at_good at_live, of B H i ph r] sess_enter [OF at_core at_less, of B H i ph r]
  by (auto simp: at_def live_def)

lemma fin_at: "at B H i ph r \<Longrightarrow> known H r \<or> past_auth ph \<Longrightarrow> fin B H i r"
  by (auto simp: fin_def atD)

text \<open>Sending touches nothing but the outputs.\<close>

lemma ble_send_emit: "ble_send E r conn d = (emit (Out_Send conn d) r, en_send E conn d)"
  by (simp add: ble_send_def)

lemma send_ap_at:
  assumes "at B H i ph r" "send_ap_command E r conn ins tlv = (r', ok)"
  shows "at B H i ph r' \<and> sess r' = sess r \<and> snapshot r' = snapshot r"
  using assms by (auto simp: send_ap_command_def ble_send_def split: option.splits)

lemma send_ap_fin:
  assumes a: "at B H i ph r" and f: "\<And>q. at B H i ph q \<Longrightarrow> sess q = sess r \<Longrightarrow> snapshot q = snapshot r \<Longrightarrow> fin B H i (f q)"
  shows "fin B H i (case send_ap_command E r c ins tlv of (q, False) \<Rightarrow> session_terminate E q i | (q, True) \<Rightarrow> f q)"
proof -
  obtain q ok where q: "send_ap_command E r c ins tlv = (q, ok)" by fastforce
  then show ?thesis using send_ap_at [OF a q] f fin_terminate by (cases ok) auto
qed

lemma known_snapshot: "snapshot r' = snapshot r \<Longrightarrow> known H r' = known H r"
  by (simp add: known_def)

section \<open>AUTH0\<close>

lemma take_ephemeral_at:
  assumes "at B H i PH_IDLE r" "take_ephemeral E r i = (r', ok)"
  shows "at B H i PH_IDLE r' \<and> snapshot r' = snapshot r"
proof -
  note p = at_put_early [where ph = PH_IDLE, simplified]
  show ?thesis
    using assms by (auto simp: take_ephemeral_def Let_def p split: option.splits)
qed

lemma start_auth_fin:
  assumes a: "at B H i PH_IDLE r" and k: "known H r"
  shows "fin B H i (start_auth B E r i)"
proof -
  obtain r1 ok where t: "take_ephemeral E r i = (r1, ok)" by fastforce
  note t1 = take_ephemeral_at [OF a t]
  let ?s = "(sess r1 i)\<lparr>ss_exp_phase := exp_phase_of (rd_trust r1)\<rparr>"
  have p: "at B H i PH_IDLE (put_sess r1 i ?s)"
    using t1 at_put_early [of B H i PH_IDLE r1 ?s] by simp
  have e: "fin B H i (session_enter_phase E q i PH_SENT_AUTH0)" if "at B H i PH_IDLE q" "snapshot q = snapshot r" for q
    using at_enter [OF that(1), of PH_SENT_AUTH0 E] backed_early that(2) k
    by (intro fin_at) (auto simp: known_def)
  have s: "fin B H i (case send_ap_command E (put_sess r1 i ?s) c INS_AUTH0 apdu of
      (r3, False) \<Rightarrow> session_terminate E r3 i | (r3, True) \<Rightarrow> session_enter_phase E r3 i PH_SENT_AUTH0)" for c apdu
    using send_ap_fin [OF p] e t1 by simp
  have u: "fin B H i (session_terminate E r i)" "fin B H i (session_terminate E r1 i)" "fin B H i (session_terminate E (put_sess r1 i ?s) i)"
    using fin_terminate a t1 p by blast+
  show ?thesis
    by (cases ok) (simp_all add: start_auth_def t Let_def s u split: option.split)
qed

lemma feed_idle_fin:
  assumes a: "at B H i PH_IDLE r" and k: "known H r"
  shows "fin B H i (feed_idle B E r i pl)"
proof -
  have "at B H i PH_IDLE (put_sess r i ((sess r i)\<lparr>ss_a5 := x\<rparr>))" for x
    using at_put_early [OF a] by simp
  then show ?thesis
    using start_auth_fin k fin_terminate [OF a] by (auto simp: feed_idle_def split: option.splits)
qed

section \<open>EXCHANGE\<close>

lemma at_put_keys:
  assumes "at B H i ph r" "ctl s = ctl (sess r i)" "keys s = keys (sess r i)"
  shows "at B H i ph (put_sess r i s) \<and> sess (put_sess r i s) i = s"
proof -
  have "ss_phase s = ph" using assms(2) at_phase [OF assms(1)] by (simp add: ctl_def)
  then show ?thesis using at_put [OF assms(1,2)] backed_same [OF assms(1,3)] by blast
qed

lemma at_publish:
  "at B H i ph (publish_auth r c) = at B H i ph r" "at B H i ph (remember_mru r c) = at B H i ph r"
  "at B H i ph (commit_kpersistent r c p) = at B H i ph r"
  by (rule at_cong; simp add: publish_auth_def remember_mru_def commit_kpersistent_def Let_def split: option.split prod.split)+

lemma publish_snapshot [simp]: "snapshot (publish_auth r c) = snapshot r" "snapshot (remember_mru r c) = snapshot r"
  by (simp_all add: publish_auth_def remember_mru_def snapshot_def)

lemma exchange_plain: "ultrawidelock_apdu_build_exchange False 0 True 16 = Some [0x98, 0]"
  by code_simp

lemma salt_upd [simp]:
  "session_salt r gx (s\<lparr>ss_ursk := u\<rparr>) = session_salt r gx s" "session_salt r gx (s\<lparr>ss_sc := c\<rparr>) = session_salt r gx s"
  "session_salt r gx (s\<lparr>ss_sc_ble := c\<rparr>) = session_salt r gx s"
  by (simp_all add: fun_eq_iff session_salt_def session_a5_def)

lemma block_upd [simp]:
  "fast_block r gx (s\<lparr>ss_ursk := u\<rparr>) = fast_block r gx s" "fast_block r gx (s\<lparr>ss_sc := c\<rparr>) = fast_block r gx s"
  "standard_block r gx (s\<lparr>ss_ursk := u\<rparr>) = standard_block r gx s" "standard_block r gx (s\<lparr>ss_sc := c\<rparr>) = standard_block r gx s"
  by (simp_all add: fun_eq_iff fast_block_def standard_block_def cong: option.case_cong)

lemma send_exchange_at:
  assumes a: "at B H i ph r" and ph: "ph \<noteq> PH_ESTABLISHED" and h: "h \<in> H" "proven B h (sess r i)"
    and x: "send_exchange B E r i = (r', ok)"
  shows "fin B H i r' \<and> (ok \<longrightarrow> at B H i PH_SENT_EXCHANGE r')"
proof -
  obtain sc sealed where sl: "ultrawidelock_secchan_seal (rb_prim B) (ss_sc (sess r i)) [] [0x98, 0] = (sc, sealed)"
    by fastforce
  let ?r = "put_sess r i ((sess r i)\<lparr>ss_sc := sc\<rparr>)"
  have p: "at B H i ph ?r" "sess ?r i = (sess r i)\<lparr>ss_sc := sc\<rparr>"
    using at_put_keys [OF a, of "(sess r i)\<lparr>ss_sc := sc\<rparr>"] by simp_all
  have e: "at B H i PH_SENT_EXCHANGE (session_enter_phase E q i PH_SENT_EXCHANGE)"
    if "at B H i ph q" "sess q = sess ?r" for q
  proof -
    have "keys ((sess q i)\<lparr>ss_phase := PH_SENT_EXCHANGE\<rparr>) = keys (sess r i)" using p(2) that(2) by simp
    then have "proven B h ((sess q i)\<lparr>ss_phase := PH_SENT_EXCHANGE\<rparr>)" using h(2) proven_cong by blast
    then show ?thesis using h(1) by (intro at_enter [OF that(1) ph]) (auto simp: backed_def)
  qed
  have "fin B H i q2 \<and> (o2 \<longrightarrow> at B H i PH_SENT_EXCHANGE q2)"
    if "(case send_ap_command E ?r c INS_EXCHANGE t of (q, False) \<Rightarrow> (session_terminate E q i, False)
         | (q, True) \<Rightarrow> (session_enter_phase E q i PH_SENT_EXCHANGE, True)) = (q2, o2)" for c t q2 o2
  proof -
    obtain q ok where q: "send_ap_command E ?r c INS_EXCHANGE t = (q, ok)" by fastforce
    note q1 = send_ap_at [OF p(1) q]
    show ?thesis
      using that q q1 e [of q] fin_terminate [of B H i ph q E] fin_at [of B H i PH_SENT_EXCHANGE]
      by (cases ok) auto
  qed
  then show ?thesis
    using x fin_terminate [OF a] fin_terminate [OF p(1)]
    by (auto simp: send_exchange_def exchange_plain sl Let_def split: option.splits)
qed

lemma init_ble_at:
  assumes a: "at B H i ph r" and x: "init_ble_channel r i block = (r', ok)"
  shows "at B H i ph r' \<and> snapshot r' = snapshot r \<and> keys (sess r' i) = keys (sess r i)"
  using x at_put_keys [OF a] a by (auto simp: init_ble_channel_def split: option.splits)

section \<open>The fast path\<close>

lemma fast_order_less: "k \<in> set (fast_order r) \<Longrightarrow> k < ts_count (rd_trust r)"
  by (auto simp: fast_order_def Let_def split: if_splits)

lemma fast_accept_fin:
  assumes a: "at B H i PH_SENT_AUTH0 r" and k: "known H r" and g: "rd_group_x r = Some gx" and o: "kk \<in> set (fast_order r)"
    and f: "fast_opens B r gx (sess r i) cryptogram kk" and b: "fast_block r gx (sess r i) kk = Some block"
  shows "fin B H i (fast_accept B E r i kk block)"
proof -
  obtain enc dec ursk where sp: "ultrawidelock_crypto_split block False = (enc, dec, ursk)" by (metis prod_cases3)
  let ?r1 = "r\<lparr>rd_last_cred := Some (ts_cred_pub (rd_trust r) ! kk)\<rparr>"
  let ?s = "(sess r i)\<lparr>ss_ursk := ursk, ss_sc := ultrawidelock_secchan_init enc dec\<rparr>"
  let ?r2 = "put_sess ?r1 i ?s"
  have p: "at B H i PH_SENT_AUTH0 ?r2" "sess ?r2 i = ?s" using at_put_early [of B H i PH_SENT_AUTH0 ?r1 ?s] a by simp_all
  obtain r3 ok where i3: "init_ble_channel ?r2 i block = (r3, ok)" by fastforce
  note at3 = init_ble_at [OF p(1) i3]
  obtain h where h: "h \<in> H" "snapshot h = snapshot r" using k by (auto simp: known_def)
  have "ursk = ultrawidelock_crypto_ursk_from_block block"
    using sp by (auto simp: ultrawidelock_crypto_split_def ultrawidelock_crypto_ursk_from_block_def Let_def)
  moreover have "fast_block r gx ?s kk = Some block"
    using b by simp
  ultimately have "proven_fast B r ?s"
    using f g b fast_order_less [OF o] by (auto simp: proven_fast_def fast_opens_def)
  then have pr: "proven B h (sess r3 i)"
    using at3 p(2) proven_cong [of "sess r3 i" ?s B h] proven_snapshot [OF h(2)] by (simp add: proven_def)
  obtain r4 o4 where x: "send_exchange B E r3 i = (r4, o4)" by fastforce
  have "fin B H i r4 \<and> (o4 \<longrightarrow> at B H i PH_SENT_EXCHANGE r4)"
    using send_exchange_at [OF _ _ h(1) pr x, of PH_SENT_AUTH0] at3 by simp
  then have "fin B H i (if o4 then emit (Out_Access True) (remember_mru (publish_auth r4 c) c) else r4)" for c
    by (auto intro!: fin_at [of B H i PH_SENT_EXCHANGE] simp: at_publish)
  then show ?thesis
    using sp i3 x at3 fin_terminate
    by (simp add: fast_accept_def Let_def split: bool.split) metis
qed

lemma try_fast_at:
  assumes a: "at B H i PH_SENT_AUTH0 r" and k: "known H r" and x: "try_fast_auth B E r i cg = (r', consumed)"
  shows "if consumed then fin B H i r' else r' = r"
proof (cases "rd_group_x r")
  case g: (Some gx)
  show ?thesis
  proof (cases "find (fast_opens B r gx (sess r i) cg) (fast_order r)")
    case f: (Some kk)
    then have o: "kk \<in> set (fast_order r)" "fast_opens B r gx (sess r i) cg kk"
      by (auto simp: find_Some_iff)
    then obtain block where b: "fast_block r gx (sess r i) kk = Some block" by (auto simp: fast_opens_def split: option.splits)
    show ?thesis using x g f b fast_accept_fin [OF a k g o b, of E] by (auto simp: try_fast_auth_def)
  qed (use x g in \<open>simp add: try_fast_auth_def\<close>)
qed (use x in \<open>simp add: try_fast_auth_def\<close>)

section \<open>AUTH1\<close>

lemma send_auth1_fin:
  assumes a: "at B H i PH_SENT_AUTH0 r" and k: "known H r"
  shows "fin B H i (send_auth1 B E r i)"
proof (cases "ecdh (rb_prim B) (ss_eph_priv (sess r i)) (ss_dev_eph (sess r i))")
  case (Some shared)
  let ?s = "(sess r i)\<lparr>ss_z := ultrawidelock_crypto_derive_z shared (ss_txid (sess r i))\<rparr>"
  have p: "at B H i PH_SENT_AUTH0 (put_sess r i ?s)" "sess (put_sess r i ?s) i = ?s" using at_put_early [OF a, of ?s] by simp_all
  have e: "fin B H i (session_enter_phase E q i PH_SENT_AUTH1)"
    if q: "at B H i PH_SENT_AUTH0 q" "sess q = sess (put_sess r i ?s)" "snapshot q = snapshot r" for q
  proof -
    have "sess q i = ?s" using p(2) q(2) by simp
    then have "backed B H ((sess q i)\<lparr>ss_phase := PH_SENT_AUTH1\<rparr>)" using Some by (simp add: backed_def agreed_def)
    then have "at B H i PH_SENT_AUTH1 (session_enter_phase E q i PH_SENT_AUTH1)" by (intro at_enter [OF q(1)]) simp_all
    then show ?thesis using k q(3) by (intro fin_at) (simp_all add: known_def)
  qed
  have "fin B H i (case send_ap_command E (put_sess r i ?s) c INS_AUTH1 apdu of
      (q, False) \<Rightarrow> session_terminate E q i | (q, True) \<Rightarrow> session_enter_phase E q i PH_SENT_AUTH1)" for c apdu
    using send_ap_fin [OF p(1)] e by simp
  then show ?thesis
    using Some fin_terminate [OF p(1)] by (simp add: send_auth1_def Let_def split: option.split)
qed (use fin_terminate [OF a] in \<open>simp add: send_auth1_def Let_def\<close>)

lemma on_auth0_fin:
  assumes a: "at B H i PH_SENT_AUTH0 r" and k: "known H r"
  shows "fin B H i (on_auth0_response B E r i pl)"
proof -
  have "fin B H i (case try_fast_auth B E q i cg of (r2, True) \<Rightarrow> r2 | (r2, False) \<Rightarrow> send_auth1 B E r2 i)"
    if "at B H i PH_SENT_AUTH0 q" "known H q" for q cg
  proof -
    obtain r2 ok where x: "try_fast_auth B E q i cg = (r2, ok)" by fastforce
    show ?thesis using try_fast_at [OF that x] x send_auth1_fin [OF that] by (cases ok) simp_all
  qed
  moreover have "at B H i PH_SENT_AUTH0 (put_sess r i ((sess r i)\<lparr>ss_dev_eph := d\<rparr>))" for d
    using at_put_early [OF a] by simp
  ultimately show ?thesis
    using fin_terminate [OF a] k by (simp add: on_auth0_response_def Let_def send_auth1_fin split: option.split prod.split)
qed

lemma auth1_trusted_fin:
  assumes a: "at B H i PH_SENT_AUTH1 r" and h: "h \<in> H" "proven B h (sess r i)"
  shows "fin B H i (auth1_trusted B E r i gx cred tv)"
proof -
  obtain q ok where x: "send_exchange B E r i = (q, ok)" by fastforce
  have e: "fin B H i q" "ok \<Longrightarrow> at B H i PH_SENT_EXCHANGE q"
    using send_exchange_at [OF a _ h x] by auto
  then have "ok \<Longrightarrow> fin B H i (emit z (if tv = 0 then remember_mru (publish_auth (commit_kpersistent q cred p) cred) cred
      else publish_auth (commit_kpersistent q cred p) cred))" for p z
    by (auto intro!: fin_at [of B H i PH_SENT_EXCHANGE] simp: at_publish)
  then show ?thesis using e(1) x by (cases ok) (simp_all add: auth1_trusted_def Let_def)
qed

lemma auth1_verify_fin:
  assumes a: "at B H i PH_SENT_AUTH1 r" and k: "known H r" and g: "rd_group_x r = Some gx"
    and b: "standard_block r gx (sess r i) = Some block" "ss_ursk (sess r i) = ultrawidelock_crypto_ursk_from_block block"
  shows "fin B H i (auth1_verify B E r i gx resp)"
proof -
  let ?s = "sess r i" and ?cred = "if a1_have_device_pub resp then a1_device_pub resp else ss_dev_eph (sess r i)"
  let ?td = "ultrawidelock_apdu_build_authdata False (id_reader_id (rd_id r)) (x_of (ss_dev_eph ?s)) (x_of (ss_eph_pub ?s)) (ss_txid ?s) 160"
  have ag: "agreed B ?s" using at_backed [OF a] at_phase [OF a] by (simp add: backed_def)
  obtain h where h: "h \<in> H" "snapshot h = snapshot r" using k by (auto simp: known_def)
  have pr: "fin B H i (auth1_trusted B E (r\<lparr>rd_last_cred := Some ?cred\<rparr>) i gx ?cred tv)"
    if "?td = Some td" "ecdsa_verify (rb_prim B) ?cred td (a1_device_sig resp)" "accepts_key B r ?cred" for td tv
  proof -
    have "proven_standard B r ?s" using that ag g b unfolding proven_standard_def by blast
    then have "proven B h ?s" using proven_snapshot [OF h(2)] by (simp add: proven_def)
    then show ?thesis using auth1_trusted_fin [of B H i "r\<lparr>rd_last_cred := Some ?cred\<rparr>" h] a h(1) by simp
  qed
  have t: "ultrawidelock_prov_trust_check ts c = 1 \<Longrightarrow> ts_count ts = 0" for ts c
    by (simp add: ultrawidelock_prov_trust_check_def split: if_splits)
  have "fin B H i (session_terminate E (emit z (r\<lparr>rd_last_cred := Some c\<rparr>)) i)" for c z
    by (rule fin_terminate [of B H i PH_SENT_AUTH1]) (simp add: a)
  then show ?thesis
    using fin_terminate [OF a] pr t by (auto simp: auth1_verify_def Let_def accepts_key_def split: option.split simp del: if_split)
qed

lemma auth1_open_fin:
  assumes a: "at B H i PH_SENT_AUTH1 r" and k: "known H r" and g: "rd_group_x r = Some gx"
    and b: "standard_block r gx (sess r i) = Some block" "ss_ursk (sess r i) = ultrawidelock_crypto_ursk_from_block block"
  shows "fin B H i (auth1_open B E r i gx body)"
proof -
  have p: "fin B H i (auth1_verify B E (put_sess r i ((sess r i)\<lparr>ss_sc := c\<rparr>)) i gx resp)"
      "fin B H i (session_terminate E (put_sess r i ((sess r i)\<lparr>ss_sc := c\<rparr>)) i)" for c resp
  proof -
    let ?r = "put_sess r i ((sess r i)\<lparr>ss_sc := c\<rparr>)"
    have q: "at B H i PH_SENT_AUTH1 ?r" "sess ?r i = (sess r i)\<lparr>ss_sc := c\<rparr>" using at_put_keys [OF a] by simp_all
    have "standard_block ?r gx = standard_block r gx" using derivations_snapshot(2) [of ?r r] by simp
    then show "fin B H i (auth1_verify B E ?r i gx resp)"
      using auth1_verify_fin [OF q(1)] k g b q(2) by simp
    show "fin B H i (session_terminate E ?r i)" by (rule fin_terminate [OF q(1)])
  qed
  then show ?thesis
    using fin_terminate [OF a] by (simp add: auth1_open_def Let_def split: option.split prod.split)
qed

lemma on_auth1_fin:
  assumes a: "at B H i PH_SENT_AUTH1 r" and k: "known H r"
  shows "fin B H i (on_auth1_response B E r i pl)"
proof -
  have "fin B H i (case init_ble_channel (put_sess r i ((sess r i)\<lparr>ss_ursk := ursk, ss_sc := c\<rparr>)) i block of
      (r2, False) \<Rightarrow> session_terminate E r2 i | (r2, True) \<Rightarrow> auth1_open B E r2 i gx body)"
    if g: "rd_group_x r = Some gx" and b: "standard_block r gx (sess r i) = Some block" and u: "ursk = ultrawidelock_crypto_ursk_from_block block"
    for gx block ursk c body
  proof -
    let ?s = "(sess r i)\<lparr>ss_ursk := ursk, ss_sc := c\<rparr>"
    have "backed B H ?s" using at_backed [OF a] at_phase [OF a] by (simp add: backed_def agreed_def)
    then have p: "at B H i PH_SENT_AUTH1 (put_sess r i ?s)" "sess (put_sess r i ?s) i = ?s" using at_put [OF a, of ?s] by simp_all
    obtain r2 ok where x: "init_ble_channel (put_sess r i ?s) i block = (r2, ok)" by fastforce
    note i2 = init_ble_at [OF p(1) x]
    have sn: "snapshot r2 = snapshot r" using i2 by simp
    have "standard_block r2 gx (sess r2 i) = Some block"
      using derivations_cong(2) [of "sess r2 i" ?s] derivations_snapshot(2) [OF sn] i2 p(2) b by simp
    moreover have "ss_ursk (sess r2 i) = ursk" using i2 p(2) by (simp add: keys_def)
    moreover have "rd_group_x r2 = Some gx" "known H r2" using sn g k by (simp_all add: snapshot_def known_def)
    ultimately have "fin B H i (auth1_open B E r2 i gx body)" using auth1_open_fin [of B H i r2 gx block] i2 u by simp
    then show ?thesis using x i2 fin_terminate by (cases ok) auto
  qed
  then show ?thesis
    using fin_terminate [OF a]
    by (auto simp: on_auth1_response_def Let_def ultrawidelock_crypto_split_def ultrawidelock_crypto_ursk_from_block_def
        split: option.split prod.split)
qed

section \<open>AP-Completed\<close>

lemma good_stop [simp]: "good B H r \<Longrightarrow> good B H (ultrawidelock_ranging_stop r c)"
  by (auto simp: ultrawidelock_ranging_stop_def good_def core_def reader_wf_def established_count_def bridge_ok_def)

lemma stop_simps [simp]:
  "sess (ultrawidelock_ranging_stop r c) = sess r" "snapshot (ultrawidelock_ranging_stop r c) = snapshot r"
  "rd_last_unsecured (ultrawidelock_ranging_stop r c) = rd_last_unsecured r" "rd_adapter (ultrawidelock_ranging_stop r c) = rd_adapter r"
  "rd_sessions (ultrawidelock_ranging_stop r c) = rd_sessions r" "known H (ultrawidelock_ranging_stop r c) = known H r"
  "rd_established (ultrawidelock_ranging_stop r c) = rd_established r"
  by (auto simp: ultrawidelock_ranging_stop_def snapshot_def sess_def fun_eq_iff known_def)

lemma at_stop: "at B H i ph r \<Longrightarrow> at B H i ph (ultrawidelock_ranging_stop r c)"
  by (simp add: at_def live_def)

lemma at_arm [simp]: "at B H i ph (arm_replay E r) = at B H i ph r"
  by (rule at_cong; simp add: arm_replay_def Let_def)

lemma ranging_start_at:
  assumes a: "at B H i ph r" and ph: "past_auth ph" "ph \<noteq> PH_ESTABLISHED"
    and x: "ultrawidelock_ranging_start E r (ss_conn (sess r i)) sid ursk i = (r', ok)"
  shows "if ok then at B H i PH_ESTABLISHED (session_enter_phase E r' i PH_ESTABLISHED) else at B H i ph r'"
proof (cases ok)
  case True
  let ?c = "ss_conn (sess r i)"
  obtain q where q: "q = (if rd_rg_active r then ultrawidelock_ranging_stop r (rd_rg_conn r) else r)" by simp
  have aq: "at B H i ph q" "sess q = sess r" using at_stop [OF a] a q by simp_all
  have r': "r' = emit (Out_Ranging ?c sid ursk) (q\<lparr>rd_rg_sc := Some i, rd_rg_conn := ?c, rd_rg_active := True, rd_rg_failed := False\<rparr>)"
    using x True q by (auto simp: ultrawidelock_ranging_start_def Let_def split: if_splits)
  have s: "sess r' = sess r" using r' aq(2) by (simp add: sess_def fun_eq_iff)
  have c: "core B H r'" using at_core [OF aq(1)] core_cong [of r' q] r' by simp
  have l: "live r' i" using at_live [OF a] s by (simp add: live_def)
  have "backed B H ((sess r' i)\<lparr>ss_phase := PH_ESTABLISHED\<rparr>)"
    using at_backed [OF a] at_phase [OF a] ph s proven_cong [of "(sess r i)\<lparr>ss_phase := PH_ESTABLISHED\<rparr>" "sess r i"]
    by (auto simp: backed_def)
  then have e: "core B H (session_enter_phase E r' i PH_ESTABLISHED)" by (intro core_enter [OF c l]) simp_all
  note se = sess_enter [OF c at_less [OF a]]
  have "rd_rg_sc r' = Some i" "rd_rg_conn r' = ?c" using r' by simp_all
  then have "bridge_ok (session_enter_phase E r' i PH_ESTABLISHED)"
    using l s by (simp add: bridge_ok_def se live_def)
  then show ?thesis using e l s True by (simp add: at_def good_def live_def se)
next
  case False
  then show ?thesis
    using x a at_stop [OF a] by (auto simp: ultrawidelock_ranging_start_def Let_def split: if_splits)
qed

lemma complete_ap_fin:
  assumes a: "at B H i ph r" and ph: "past_auth ph" "ph \<noteq> PH_ESTABLISHED"
  shows "fin B H i (complete_ap_and_range B E r i)"
proof -
  obtain sc sealed where sl: "ultrawidelock_msg_seal (rb_prim B) (ss_sc_ble (sess r i)) k_ap_completed_plain 64 = (sc, sealed)" by fastforce
  let ?r = "put_sess r i ((sess r i)\<lparr>ss_sc_ble := sc\<rparr>)"
  have p: "at B H i ph ?r" using at_put_keys [OF a] by simp
  have "fin B H i (case ultrawidelock_ranging_start E q (ss_conn (sess q i)) sid ursk i of
      (r3, False) \<Rightarrow> session_terminate E r3 i | (r3, True) \<Rightarrow> arm_replay E (session_enter_phase E r3 i PH_ESTABLISHED))"
    if "at B H i ph q" for q sid ursk
  proof -
    obtain r3 ok where x: "ultrawidelock_ranging_start E q (ss_conn (sess q i)) sid ursk i = (r3, ok)" by fastforce
    show ?thesis
      using ranging_start_at [OF that ph x] x fin_terminate [of B H i ph r3 E]
        fin_at [of B H i PH_ESTABLISHED "arm_replay E (session_enter_phase E r3 i PH_ESTABLISHED)"]
      by (cases ok) auto
  qed
  from this [of "emit x ?r" for x] have
    "fin B H i (case ultrawidelock_ranging_start E (emit x ?r) (ss_conn (sess ?r i)) sid ursk i of
      (r3, False) \<Rightarrow> session_terminate E r3 i | (r3, True) \<Rightarrow> arm_replay E (session_enter_phase E r3 i PH_ESTABLISHED))" for x sid ursk
    using p by simp
  moreover have "fin B H i (session_terminate E ?r i)" "fin B H i (session_terminate E (emit x ?r) i)" for x
    using p fin_terminate by auto
  ultimately show ?thesis
    by (simp add: complete_ap_and_range_def sl Let_def ble_send_def split: option.split bool.split)
qed

lemma gated_fin:
  assumes a: "at B H i PH_SENT_EXCHANGE r"
  shows "fin B H i (gated_complete_ap B E r i)"
proof -
  let ?r = "session_enter_phase E r i PH_GATE_HOLD"
  have "backed B H ((sess r i)\<lparr>ss_phase := PH_GATE_HOLD\<rparr>)"
    using at_backed [OF a] at_phase [OF a] proven_cong [of "(sess r i)\<lparr>ss_phase := PH_GATE_HOLD\<rparr>" "sess r i"]
    by (auto simp: backed_def)
  then have "at B H i PH_GATE_HOLD ?r" by (intro at_enter [OF a]) simp_all
  then have "at B H i PH_GATE_HOLD (put_sess ?r i ((sess ?r i)\<lparr>ss_rgate := g\<rparr>))" for g
    using at_put_keys [of B H i PH_GATE_HOLD ?r] by simp
  then show ?thesis
    using complete_ap_fin [OF a] fin_at [of B H i PH_GATE_HOLD] by (simp add: gated_complete_ap_def Let_def)
qed

lemma on_exchange_fin:
  assumes a: "at B H i PH_SENT_EXCHANGE r"
  shows "fin B H i (on_exchange_response B E r i pl)"
proof -
  have "at B H i PH_SENT_EXCHANGE (put_sess r i ((sess r i)\<lparr>ss_sc := c\<rparr>))" for c using at_put_keys [OF a] by simp
  then have "fin B H i (gated_complete_ap B E (put_sess r i ((sess r i)\<lparr>ss_sc := c\<rparr>)) i)"
    "fin B H i (session_terminate E (put_sess r i ((sess r i)\<lparr>ss_sc := c\<rparr>)) i)" for c
    using gated_fin fin_terminate by blast+
  then show ?thesis
    using fin_terminate [OF a] by (simp add: on_exchange_response_def Let_def split: option.split prod.split)
qed

end
