(* ===== verification/Reader_Run.thy ===== *)
theory Reader_Run
  imports Reader_Keeps
begin

text \<open>
  Runs of the reader: every callback and provisioning call keeps the invariant, so every session past
  authentication rests on a proof some earlier state accepted, and the published counter is exact.
\<close>

section \<open>Ranging traffic\<close>

text \<open>A message of the engine moves a counter of the borrowed channel and nothing else of a session.\<close>

definition same_sessions :: "reader \<Rightarrow> reader \<Rightarrow> bool" where
  "same_sessions r r' \<longleftrightarrow>
     (\<forall>j<MAX_SESSIONS. ctl (sess r' j) = ctl (sess r j) \<and> keys (sess r' j) = keys (sess r j)) \<and> snapshot r' = snapshot r \<and>
     rd_rg_active r' = rd_rg_active r \<and> rd_rg_sc r' = rd_rg_sc r \<and> rd_rg_conn r' = rd_rg_conn r"

lemma same_sessions_refl: "same_sessions r r"
  by (simp add: same_sessions_def)

lemma same_sessions_trans: "same_sessions r q \<Longrightarrow> same_sessions q p \<Longrightarrow> same_sessions r p"
  by (simp add: same_sessions_def)

lemma put_ble_same:
  assumes g: "good B H r" and j: "j < MAX_SESSIONS" "ss_active (sess r j)"
  shows "good B H (put_sess r j ((sess r j)\<lparr>ss_sc_ble := c\<rparr>)) \<and> same_sessions r (put_sess r j ((sess r j)\<lparr>ss_sc_ble := c\<rparr>))"
proof -
  have cr: "core B H r" using g by (simp add: good_def)
  have "backed B H ((sess r j)\<lparr>ss_sc_ble := c\<rparr>)"
    using core_slot [OF cr j(1)] backed_cong [of "(sess r j)\<lparr>ss_sc_ble := c\<rparr>" "sess r j"] by simp
  then show ?thesis
    using core_put [OF cr j] bridge_put [OF cr _ j(1)] g by (simp add: good_def same_sessions_def sess_put [OF cr j(1)])
qed

lemma tx_good:
  assumes g: "good B H r" and a: "rd_rg_active r"
  shows "good B H (uwb_tx_cb B E conn m r) \<and> same_sessions r (uwb_tx_cb B E conn m r)"
proof -
  obtain j where j: "rd_rg_sc r = Some j" "j < MAX_SESSIONS" "ss_active (sess r j)"
    using g a by (auto simp: good_def bridge_ok_def)
  have f: "good B H (r'\<lparr>rd_rg_failed := True\<rparr>) = good B H r'" "same_sessions r (r'\<lparr>rd_rg_failed := True\<rparr>) = same_sessions r r'"
    "same_sessions r (emit x r') = same_sessions r r'" for r' x
    by (rule good_cong; simp) (auto simp: same_sessions_def sess_def snapshot_def)
  show ?thesis
    using put_ble_same [OF g j(2,3)] g
    by (auto simp: uwb_tx_cb_def j(1) ble_send_def Let_def f same_sessions_refl split: prod.split option.split)
qed

lemma txs_good: "good B H r \<Longrightarrow> rd_rg_active r \<Longrightarrow> good B H (fold (uwb_tx_cb B E conn) ms r) \<and> same_sessions r (fold (uwb_tx_cb B E conn) ms r)"
proof (induction ms arbitrary: r)
  case (Cons m ms)
  have t: "good B H (uwb_tx_cb B E conn m r)" "same_sessions r (uwb_tx_cb B E conn m r)" using tx_good [OF Cons.prems] by simp_all
  then have "rd_rg_active (uwb_tx_cb B E conn m r)" using Cons.prems by (simp add: same_sessions_def)
  then show ?case using Cons.IH [OF t(1)] same_sessions_trans [OF t(2)] by simp
qed (simp add: same_sessions_refl)

lemma at_same: "at B H i ph r \<Longrightarrow> good B H r' \<Longrightarrow> same_sessions r r' \<Longrightarrow> at B H i ph r'"
  by (auto simp: at_def same_sessions_def live_def ctl_def)

lemma feed_established_fin:
  assumes a: "at B H i PH_ESTABLISHED r"
  shows "fin B H i (feed_established B E r i data)"
proof -
  have "fin B H i (case ultrawidelock_ranging_feed B E q conn plain of (r2, ok) \<Rightarrow> if ok then r2 else session_terminate E r2 i)"
    if q: "at B H i PH_ESTABLISHED q" for q conn plain
  proof -
    obtain msgs deinit ok where e: "en_engine E conn plain = (msgs, deinit, ok)" by (metis prod_cases3)
    let ?q = "fold (uwb_tx_cb B E conn) msgs q"
    have d: "at B H i PH_ESTABLISHED (p\<lparr>rd_rg_active := False\<rparr>)" if "at B H i PH_ESTABLISHED p" for p
      using that core_cong [of "p\<lparr>rd_rg_active := False\<rparr>" p]
      by (simp add: at_def good_def bridge_ok_def live_def sess_def)
    have "at B H i PH_ESTABLISHED (if deinit then ?q\<lparr>rd_rg_active := False\<rparr> else ?q)" if "rd_rg_active q"
      using txs_good [OF at_good [OF q] that] at_same [OF q] d by simp
    then have "at B H i PH_ESTABLISHED (fst (ultrawidelock_ranging_feed B E q conn plain))"
      using q by (simp add: ultrawidelock_ranging_feed_def e Let_def)
    then show ?thesis using fin_terminate fin_at by (fastforce split: prod.split)
  qed
  moreover have "at B H i PH_ESTABLISHED (put_sess r i ((sess r i)\<lparr>ss_sc_ble := c\<rparr>))" for c using at_put_keys [OF a] by simp
  ultimately show ?thesis
    by (simp add: feed_established_def Let_def fin_terminate [where ph = PH_ESTABLISHED] split: prod.split option.split)
qed

section \<open>Inbound data\<close>

lemma transaction_feed_fin:
  assumes a: "at B H i ph r" and k: "known H r \<or> past_auth ph"
  shows "fin B H i (transaction_feed B E r i data)"
proof -
  let ?r = "put_sess r i ((sess r i)\<lparr>ss_msgs_rx := ss_msgs_rx (sess r i) + 1\<rparr>)"
  have p: "at B H i ph ?r" using at_put_keys [OF a] by simp
  have kp: "known H ?r \<or> past_auth ph" using k by simp
  have nf: "ph \<noteq> PH_FAILED" using core_slot [OF at_core [OF a] at_less [OF a]] at_live [OF a] at_phase [OF a] by (auto simp: slot_ok_def live_def)
  have s: "fin B H i (case ph of PH_IDLE \<Rightarrow> feed_idle B E ?r i pl | PH_SENT_AUTH0 \<Rightarrow> on_auth0_response B E ?r i pl
      | PH_SENT_AUTH1 \<Rightarrow> on_auth1_response B E ?r i pl | PH_SENT_EXCHANGE \<Rightarrow> on_exchange_response B E ?r i pl
      | PH_ESTABLISHED \<Rightarrow> feed_established B E ?r i data | _ \<Rightarrow> ?r)" for pl
    using p kp nf feed_idle_fin [of B H i ?r] on_auth0_fin [of B H i ?r] on_auth1_fin [of B H i ?r] on_exchange_fin [of B H i ?r]
      feed_established_fin [of B H i ?r] fin_at [OF p]
    by (cases ph) auto
  show ?thesis
    using s fin_terminate [OF p] fin_at [OF p] kp at_phase [OF p]
    by (auto simp: transaction_feed_def Let_def split: prod.split)
qed

lemma fin_live: "fin B H i r \<Longrightarrow> ss_active (sess r i) \<Longrightarrow> \<not> ss_disconnect_requested (sess r i) \<Longrightarrow>
  at B H i (ss_phase (sess r i)) r \<and> (known H r \<or> past_auth (ss_phase (sess r i)))"
  using core_slot [of B H r i] by (auto simp: fin_def at_def good_def live_def slot_ok_def)

lemma on_data_loop_good:
  "at B H i ph r \<Longrightarrow> known H r \<or> past_auth ph \<Longrightarrow> good B H (on_data_loop B E i data r)"
proof (induction B E i data r arbitrary: ph rule: on_data_loop.induct)
  case (1 B E i data r)
  show ?case
  proof (cases "data = []")
    case False
    let ?r = "transaction_feed B E r i (take (sdu_len data) data)"
    have f: "fin B H i ?r" by (rule transaction_feed_fin [OF 1(2,3)])
    then have g: "good B H ?r" by (simp add: fin_def)
    show ?thesis
      using 1(1) [OF False refl] fin_live [OF f] g False by (subst on_data_loop.simps) (auto simp: Let_def)
  qed (use 1(2) in \<open>simp add: on_data_loop.simps at_good\<close>)
qed

lemma find_slot: "find P [0..<MAX_SESSIONS] = Some i \<Longrightarrow> i < MAX_SESSIONS \<and> P i"
  by (auto simp: find_Some_iff)

lemma on_data_good:
  assumes g: "good B H r" and k: "known H r"
  shows "good B H (on_data B E r conn data)"
proof (cases "session_find r conn")
  case (Some i)
  then have i: "i < MAX_SESSIONS" "ss_active (sess r i)" using find_slot by (auto simp: session_find_def)
  have c: "core B H r" using g by (simp add: good_def)
  let ?s = "sess r i"
  have l: "live r i" if "ss_disconnect_requested ?s = False" using that i by (simp add: live_def)
  have sl: "slot_ok ?s" using core_slot [OF c i(1)] by simp
  show ?thesis
  proof (cases "ss_disconnect_requested ?s")
    case True
    then have ph: "ss_phase ?s = PH_FAILED" "\<not> ss_phase_armed ?s" "\<not> ss_overall_armed ?s" using sl i by (auto simp: slot_ok_def)
    have "transaction_feed B E r i d = put_sess r i (?s\<lparr>ss_msgs_rx := ss_msgs_rx ?s + 1\<rparr>)" for d
      using True ph sess_put [OF c i(1)]
      by (simp add: transaction_feed_def Let_def session_terminate_def split: prod.split)
    then have "on_data_loop B E i data r = r \<or> on_data_loop B E i data r = put_sess r i (?s\<lparr>ss_msgs_rx := ss_msgs_rx ?s + 1\<rparr>)"
      using True sess_put [OF c i(1)] by (subst (1 2) on_data_loop.simps) (simp add: Let_def)
    moreover have p: "good B H (put_sess r i (?s\<lparr>ss_msgs_rx := n\<rparr>))" for n
      using g core_put [OF c i] bridge_put [OF c _ i(1)] core_slot [OF c i(1)] backed_cong [of "?s\<lparr>ss_msgs_rx := n\<rparr>" ?s]
      by (simp add: good_def)
    ultimately show ?thesis
      using Some ph g by (auto simp: on_data_def Let_def)
  next
    case False
    then have a: "at B H i (ss_phase ?s) r" using l g by (simp add: at_def)
    have "at B H i PH_ESTABLISHED (put_sess r i (?s\<lparr>ss_overall_deadline := t\<rparr>))" if "ss_phase ?s = PH_ESTABLISHED" for t
      using at_put_keys [OF a] that by simp
    then show ?thesis
      using Some a k good_terminate [OF g i(1)] on_data_loop_good [of B H i]
      by (auto simp: on_data_def Let_def intro!: on_data_loop_good [of B H i])
  qed
qed (use g in \<open>simp add: on_data_def\<close>)

section \<open>The other callbacks\<close>

text \<open>Everything the invariant reads.\<close>

definition table where
  "table r = (rd_sessions r, rd_established r, rd_rg_active r, rd_rg_sc r, rd_rg_conn r)"

lemma good_table: "table r' = table r \<Longrightarrow> good B H r \<Longrightarrow> good B H r'"
  using good_cong [of r' r] by (simp add: table_def)

lemma good_put_same:
  assumes g: "good B H r" and i: "i < MAX_SESSIONS" "ss_active (sess r i)" and s: "ctl s = ctl (sess r i)" "keys s = keys (sess r i)"
  shows "good B H (put_sess r i s)"
proof -
  have c: "core B H r" using g by (simp add: good_def)
  have "backed B H s" using core_slot [OF c i(1)] backed_cong [OF s(2)] s(1) by (simp add: ctl_def)
  then show ?thesis using core_put [OF c i s(1)] bridge_put [OF c _ i(1) s(1)] g by (simp add: good_def)
qed

lemma at_now: "good B H r \<Longrightarrow> i < MAX_SESSIONS \<Longrightarrow> ss_active (sess r i) \<Longrightarrow> ss_phase (sess r i) = ph \<Longrightarrow> ph \<noteq> PH_FAILED \<Longrightarrow> at B H i ph r"
  using core_slot [of B H r i] by (simp add: at_def good_def live_def slot_ok_def)

lemma on_connected_good:
  assumes g: "good B H r"
  shows "good B H (on_connected E r conn)"
proof (cases "find (\<lambda>i. \<not> ss_active (sess r i)) [0..<MAX_SESSIONS]")
  case (Some i)
  then have i: "i < MAX_SESSIONS" "\<not> ss_active (sess r i)" using find_slot by blast+
  have c: "core B H r" using g by (simp add: good_def)
  let ?s = "session_zero\<lparr>ss_active := True, ss_conn := conn, ss_overall_armed := True, ss_overall_deadline := en_now E + READER_SESSION_TIMEOUT_MS\<rparr>"
  let ?r = "put_sess (r\<lparr>rd_established := rd_established r\<rparr>) i (entered E PH_IDLE ?s)"
  have e: "on_connected E r conn = ?r"
    using Some i(1) core_length [OF c]
    by (simp add: on_connected_def session_alloc_def Let_def enter_eq count_phase_def sess_def put_sess_def session_zero_def)
  have "core B H ?r"
    using i(2) by (intro core_replace [OF c i(1)]) (auto simp: slot_ok_def backed_def est_def session_zero_def)
  moreover have "bridge_ok ?r"
    using g i(2) sess_put [OF c i(1)] unfolding good_def bridge_ok_def by (auto simp: sess_put [OF c i(1)])
  ultimately show ?thesis using e by (simp add: good_def)
qed (use g in \<open>simp add: on_connected_def session_alloc_def\<close>)

lemma close_session_good:
  assumes g: "good B H r"
  shows "good B H (close_session E r conn)"
proof (cases "session_find r conn")
  case (Some i)
  then have i: "i < MAX_SESSIONS" "ss_active (sess r i)" "ss_conn (sess r i) = conn" using find_slot by (auto simp: session_find_def)
  have c: "core B H r" using g by (simp add: good_def)
  let ?n = "count_phase (ss_phase (sess r i)) PH_FAILED (rd_established r)"
  let ?r' = "close_session E r conn"
  have t: "rd_sessions ?r' = (rd_sessions r)[i := session_zero]" "rd_established ?r' = ?n"
    "rd_rg_active ?r' = (rd_rg_active r \<and> rd_rg_conn r \<noteq> conn)" "rd_rg_active ?r' \<Longrightarrow> rd_rg_sc ?r' = rd_rg_sc r \<and> rd_rg_conn ?r' = rd_rg_conn r"
    using Some by (auto simp: close_session_def Let_def enter_eq put_sess_def sess_def ultrawidelock_ranging_stop_def emit_def)
  have "?n + of_bool (est (sess r i)) = rd_established r + of_bool (est session_zero)"
    using i(2) by (auto simp: count_phase_def est_def session_zero_def)
  then have "core B H (put_sess (r\<lparr>rd_established := ?n\<rparr>) i session_zero)"
    by (intro core_replace [OF c i(1)]) (simp_all add: slot_ok_def backed_def session_zero_def)
  then have "core B H ?r'"
    using core_cong [of ?r' "put_sess (r\<lparr>rd_established := ?n\<rparr>) i session_zero"] t(1,2) by (simp add: put_sess_def)
  moreover have "bridge_ok ?r'"
    using g t i core_length [OF c] unfolding good_def bridge_ok_def by (auto simp: sess_def nth_list_update)
  ultimately show ?thesis by (simp add: good_def)
qed (use g in \<open>simp add: close_session_def\<close>)

lemma on_disconnected_good: "good B H r \<Longrightarrow> good B H (on_disconnected E r conn)"
  by (rule good_table [OF _ close_session_good [of B H r E conn]])
     (simp_all add: on_disconnected_def Let_def housekeeping_schedule_def presence_checkpoint_ready_on_host_def table_def)

lemma status_send_good:
  assumes g: "good B H r" and i: "i < MAX_SESSIONS" "ss_active (sess r i)"
  shows "good B H (reader_status_send B E r i u)"
proof -
  have p: "good B H (put_sess r i ((sess r i)\<lparr>ss_sc_ble := c\<rparr>))" for c using good_put_same [OF g i] by simp
  have f: "good B H (q\<lparr>rd_undelivered := a\<rparr>) = good B H q"
    "good B H (q\<lparr>rd_undelivered := a, rd_replay_at := b, rd_peer_unknown := d, rd_last_unsecured := e\<rparr>) = good B H q" for q a b d e
    by (rule good_cong; simp)+
  show ?thesis
    using p good_terminate [OF _ i(1)]
    by (auto simp: reader_status_send_def Let_def ble_send_def f split: prod.split option.split bool.split)
qed

lemma status_on_host_good: "good B H r \<Longrightarrow> good B H (reader_status_send_on_host B E r u)"
  using status_send_good good_cong [of "r\<lparr>rd_undelivered := True\<rparr>" r]
  by (auto simp: reader_status_send_on_host_def dest!: find_slot split: option.split)

lemma rssi_good:
  assumes g: "good B H r"
  shows "good B H (ultrawidelock_reader_rssi_sample B E r conn v)"
proof (cases "session_find r conn")
  case (Some i)
  then have i: "i < MAX_SESSIONS" "ss_active (sess r i)" using find_slot by (auto simp: session_find_def)
  have c: "core B H r" using g by (simp add: good_def)
  obtain gt op where f: "ultrawidelock_rssi_gate_feed (ss_rgate (sess r i)) (rb_gate_cfg B) v (en_uptime E) = (gt, op)" by fastforce
  let ?r = "put_sess r i ((sess r i)\<lparr>ss_rgate := gt\<rparr>)"
  have p: "good B H ?r" using good_put_same [OF g i] by simp
  have s: "sess ?r i = (sess r i)\<lparr>ss_rgate := gt\<rparr>" by (simp add: sess_put [OF c i(1)])
  have "good B H (complete_ap_and_range B E ?r i)" if "ss_phase (sess r i) = PH_GATE_HOLD"
    using complete_ap_fin [OF at_now [OF p i(1), of PH_GATE_HOLD]] s i(2) that by (simp add: fin_def)
  moreover have "good B H (reader_status_send B E (ultrawidelock_ranging_stop ?r conn) i False)"
    using status_send_good [of B H "ultrawidelock_ranging_stop ?r conn" i] p s i by simp
  ultimately show ?thesis
    using Some f s p by (simp add: ultrawidelock_reader_rssi_sample_def Let_def)
qed (use g in \<open>simp add: ultrawidelock_reader_rssi_sample_def\<close>)

lemma tick_good:
  assumes g: "good B H r"
  shows "good B H (reader_tick_on_host E r now)"
proof -
  have "good B H (tick_session E now i q)" if "good B H q" "i < MAX_SESSIONS" for q i
  proof (cases "ss_active (sess q i)")
    case True
    have "ctl (session_idle_extend E s now) = ctl s" "keys (session_idle_extend E s now) = keys s" for s
      by (auto simp: session_idle_extend_def Let_def split: option.split)
    then have "good B H (put_sess q i (session_idle_extend E (sess q i) now))" using good_put_same [OF that True] by simp
    then show ?thesis using good_terminate [OF _ that(2)] True by (simp add: tick_session_def Let_def)
  qed (use that in \<open>simp add: tick_session_def\<close>)
  then have "good B H (fold (tick_session E now) [0..<MAX_SESSIONS] r)" using g by (simp add: upt_rec)
  then show ?thesis
    by (rule good_table [rotated]) (auto simp: reader_tick_on_host_def tick_replay_def Let_def table_def emit_def)
qed

lemma sweep_table: "table (fold disconnect_active xs r) = table r"
  by (induction xs arbitrary: r) (simp_all add: disconnect_active_def emit_def table_def)

lemma housekeeping_table:
  "table (fst (spare_eph_refill E r)) = table r" "table (fst (flush_pending_store E r)) = table r" "table (housekeeping_schedule x r) = table r"
  "table (r\<lparr>rd_housekeeping := y\<rparr>) = table r"
  by (simp_all add: spare_eph_refill_def flush_pending_store_def prov_write_def housekeeping_schedule_def table_def case_prod_beta
      split: option.split)

lemma host_table:
  "table (ultrawidelock_reader_notify_unlock r u) = table r" "table (fst (load_provisioning B E r)) = table r"
  "table (presence_reset_on_host r) = table r" "table (revoke_sweep_on_host r) = table r" "table (fst (housekeeping_run_once E r)) = table r"
  "table (fst (ultrawidelock_reader_presence_restart B E r)) = table r"
proof -
  show l: "table (fst (load_provisioning B E r)) = table r" for r
    by (auto simp: load_provisioning_def compute_reader_group_x_def table_def split: prod.split)
  show "table (fst (ultrawidelock_reader_presence_restart B E r)) = table r"
    using l [of r] by (simp add: ultrawidelock_reader_presence_restart_def Let_def emit_def table_def)
  show "table (presence_reset_on_host r) = table r"
    using sweep_table [of "[0..<MAX_SESSIONS]" "r\<lparr>rd_presence_wait := True\<rparr>"]
    by (simp add: presence_reset_on_host_def presence_checkpoint_ready_on_host_def table_def Let_def)
  show "table (fst (housekeeping_run_once E r)) = table r"
    by (simp add: housekeeping_run_once_def Let_def case_prod_beta housekeeping_table)
qed (simp_all add: ultrawidelock_reader_notify_unlock_def revoke_sweep_on_host_def sweep_table, simp add: emit_def table_def)

lemma host_good: "good B H r \<Longrightarrow> known H r \<Longrightarrow> good B H (host_handle B E r ev)"
  by (cases ev)
     (auto simp: on_connected_good on_disconnected_good on_data_good rssi_good tick_good status_on_host_good
       intro: good_table [OF host_table(1)] good_table [OF host_table(3)] good_table [OF host_table(4)] good_table [OF host_table(5)]
         good_table [OF host_table(6)])

section \<open>Provisioning calls\<close>

lemma emit_table [simp]: "table (emit x r) = table r"
  by (simp add: emit_def table_def)

lemma prov_table:
  "table (fst (prov_write E r idt ts)) = table r" "table (compute_reader_group_x B r) = table r" "table (revoke_aftermath k r) = table r"
  "table (fst (apply_provisioned_adv_params r)) = table r"
  by (simp_all add: prov_write_def compute_reader_group_x_def revoke_aftermath_def apply_provisioned_adv_params_def table_def Let_def
      emit_def case_prod_beta)

lemma upd_table [simp]:
  "table (r\<lparr>rd_trust := t\<rparr>) = table r" "table (r\<lparr>rd_id := idt\<rparr>) = table r" "table (r\<lparr>rd_fast_mru := m\<rparr>) = table r" "table (r\<lparr>rd_kp_dirty := d\<rparr>) = table r"
  "table (r\<lparr>rd_prov := p\<rparr>) = table r" "table (r\<lparr>rd_adapter := b\<rparr>) = table r" "table (r\<lparr>rd_out := out\<rparr>) = table r"
  by (simp_all add: table_def)

lemma removal_table:
  "table (fst (finish_removal E k r)) = table r" "table (fst (remove_matching E r ci ca)) = table r" "table (fst (adopt E r ts m n)) = table r"
  "table (ultrawidelock_reader_refresh_adv r) = table r"
proof -
  show f: "table (fst (finish_removal E k r)) = table r" for k r
    by (simp add: finish_removal_def persist_removal_def case_prod_beta prov_table)
  show "table (fst (remove_matching E r ci ca)) = table r"
    by (simp add: remove_matching_def case_prod_beta f housekeeping_table)
  show "table (fst (adopt E r ts m n)) = table r"
    using prov_table(1) [of E r "rd_id r" ts] by (simp add: adopt_def case_prod_beta)
  show "table (ultrawidelock_reader_refresh_adv r) = table r"
    by (simp add: ultrawidelock_reader_refresh_adv_def case_prod_beta prov_table)
qed

lemma admin_table: "table (fst (admin_handle B E r op)) = table r"
proof -
  note t = host_table(2) prov_table removal_table housekeeping_table
  have s: "table (fst (reader_engine_init B E c h a r)) = table r" for c h a
    by (simp add: reader_engine_init_def case_prod_beta t)
  show ?thesis
    by (cases op)
       (simp_all add: ultrawidelock_reader_start_def ultrawidelock_reader_trust_last_def ultrawidelock_reader_trust_clear_def
         ultrawidelock_reader_provision_add_trust_def ultrawidelock_reader_provision_add_issuer_def
         ultrawidelock_reader_provision_remove_trust_def ultrawidelock_reader_provision_remove_issuer_def
         ultrawidelock_reader_provision_remove_type_def ultrawidelock_reader_provision_remove_user_def
         ultrawidelock_reader_provision_identity_def ultrawidelock_reader_provision_clear_def ultrawidelock_reader_import_blob_def
         Let_def case_prod_beta s t split: option.split)
qed

section \<open>Runs\<close>

lemma good_mono: "good B H r \<Longrightarrow> H \<subseteq> H' \<Longrightarrow> good B H' r"
  unfolding good_def core_def backed_def by blast

lemma step_good:
  assumes g: "good B H r" and r: "r \<in> H"
  shows "good B H (fst (reader_step B r x))"
proof -
  obtain E ev where x: "x = (E, ev)" by fastforce
  let ?r = "r\<lparr>rd_out := []\<rparr>"
  have g0: "good B H ?r" using good_table [OF _ g, of ?r] by simp
  have "known H ?r" using r by (auto simp: known_def snapshot_def image_iff intro!: bexI [of _ r])
  then show ?thesis
    using host_good [OF g0] good_table [OF admin_table g0] by (auto simp: reader_step_def x Let_def split: reader_event.split)
qed

text \<open>The reader with the states it has been in.\<close>

definition tracked :: "('s \<Rightarrow> 'e \<Rightarrow> 's \<times> 'o) \<Rightarrow> 's set \<times> 's \<Rightarrow> 'e \<Rightarrow> ('s set \<times> 's) \<times> 'o" where
  "tracked step hs e = ((insert (snd hs) (fst hs), fst (step (snd hs) e)), snd (step (snd hs) e))"

interpretation reader_history: stepper "tracked (reader_step B)" "\<lambda>(H, r). good B H r" for B
proof
  fix hs e
  assume "case hs of (H, r) \<Rightarrow> good B H r"
  then have "good B (insert (snd hs) (fst hs)) (snd hs)" using good_mono [of B "fst hs" "snd hs"] by (auto simp: case_prod_beta)
  then have "good B (insert (snd hs) (fst hs)) (fst (reader_step B (snd hs) e))" by (rule step_good) simp
  then show "case fst (tracked (reader_step B) hs e) of (H, r) \<Rightarrow> good B H r" by (simp add: tracked_def)
qed

lemma history_run:
  "snd (fst (run_steps (tracked step) (H, s) es)) = fst (run_steps step s es)"
  "fst (fst (run_steps (tracked step) (H, s) es)) \<subseteq> H \<union> {fst (run_steps step s (take m es)) | m. m < length es}"
proof (induction es arbitrary: H s)
  case (Cons e es)
  have t: "fst (tracked step (H, s) e) = (insert s H, fst (step s e))" for H s by (simp add: tracked_def)
  { case 1 show ?case using Cons.IH(1) [of "insert s H" "fst (step s e)"] by (simp add: fst_run_steps_Cons t del: run_steps.simps(2)) }
  { case 2
    have "fst (run_steps step (fst (step s e)) (take m es)) = fst (run_steps step s (take (Suc m) (e # es)))" for m
      by (simp add: fst_run_steps_Cons del: run_steps.simps(2))
    moreover have "s = fst (run_steps step s (take 0 (e # es)))" by simp
    ultimately have "insert s H \<union> {fst (run_steps step (fst (step s e)) (take m es)) | m. m < length es} \<subseteq>
        H \<union> {fst (run_steps step s (take m (e # es))) | m. m < length (e # es)}"
      by (force simp del: run_steps.simps(2))
    then show ?case
      using Cons.IH(2) [of "insert s H" "fst (step s e)"]
      unfolding fst_run_steps_Cons [of "tracked step"] t by (rule subset_trans [rotated]) }
qed simp_all

lemma boot_good: "good B {} (reader_boot kv)"
  by (simp add: good_def core_iff bridge_ok_def reader_boot_def numeral_2_eq_2 slot_ok_def backed_def est_def session_zero_def)

lemma reader_after_good: "good B {reader_after B kv (take m evs) | m. m < length evs} (reader_after B kv evs)"
proof -
  obtain H r where hr: "fst (run_steps (tracked (reader_step B)) ({}, reader_boot kv) evs) = (H, r)" by fastforce
  have "good B H r" using reader_history.invar_run [of B "({}, reader_boot kv)" evs] boot_good hr by simp
  moreover have "r = reader_after B kv evs" "H \<subseteq> {reader_after B kv (take m evs) | m. m < length evs}"
    using history_run [of "reader_step B" "{}" "reader_boot kv" evs] hr by (simp_all add: reader_after_def)
  ultimately show ?thesis using good_mono by blast
qed

end
