(* ===== verification/Hash_Proofs.thy ===== *)
theory Hash_Proofs
  imports Hash
begin

text \<open>
  The streaming hash computes the one-shot definition of SHA-256 (pad, cut into blocks, fold the
  compression function) however the message is cut into parts, and the inlined HMAC of the key
  derivations computes the recurrences of RFC 2104, RFC 5869 and X9.63.
\<close>

section \<open>Reference definitions\<close>

fun chunks64 :: "bytes \<Rightarrow> bytes list" where
  "chunks64 p = (if length p < 64 then [] else take 64 p # chunks64 (drop 64 p))"

declare chunks64.simps [simp del]

definition sha256_padded :: "bytes \<Rightarrow> bytes" where
  "sha256_padded m = m @ [0x80] @ replicate ((119 - length m mod 64) mod 64) 0 @ put_u64 (of_nat (8 * length m))"

definition sha256_spec :: "bytes \<Rightarrow> bytes" where
  "sha256_spec m = concat (map put_u32 (foldl sha256_block sha_iv (chunks64 (sha256_padded m))))"

definition hmac_key :: "bytes \<Rightarrow> bytes" where
  "hmac_key key = (let k = (if length key > 64 then sha256_spec key else key) in k @ replicate (64 - length k) 0)"

definition hmac_spec :: "bytes \<Rightarrow> bytes \<Rightarrow> bytes" where
  "hmac_spec key m = sha256_spec (map (\<lambda>b. b XOR 0x5c) (hmac_key key) @ sha256_spec (map (\<lambda>b. b XOR 0x36) (hmac_key key) @ m))"

fun hkdf_T :: "bytes \<Rightarrow> bytes \<Rightarrow> nat \<Rightarrow> bytes" where
  "hkdf_T prk info 0 = []"
| "hkdf_T prk info (Suc i) = hmac_spec prk (hkdf_T prk info i @ info @ [of_nat (Suc i)])"

definition hkdf_spec :: "bytes \<Rightarrow> bytes \<Rightarrow> bytes \<Rightarrow> nat \<Rightarrow> bytes" where
  "hkdf_spec salt ikm info n =
     take n (concat (map (hkdf_T (hmac_spec (if salt = [] then replicate 32 0 else salt) ikm) info) [1..<256]))"

definition x963_spec :: "bytes \<Rightarrow> bytes \<Rightarrow> nat \<Rightarrow> bytes" where
  "x963_spec z info n = take n (concat (map (\<lambda>i. sha256_spec (z @ put_u32 (of_nat i) @ info)) [1..<1 + (n + 31) div 32]))"

section \<open>Absorbing\<close>

lemma length_sha256_block [simp]: "length (sha256_block h p) = 8"
  by (simp add: sha256_block_def split: prod.split)

lemma length_foldl_block: "length h = 8 \<Longrightarrow> length (foldl sha256_block h bs) = 8"
  by (induction bs arbitrary: h) auto

lemma sha_absorb_append: "sha_absorb h (a @ b) = (case sha_absorb h a of (h', r) \<Rightarrow> sha_absorb h' (r @ b))"
proof (induction h a rule: sha_absorb.induct)
  case (1 h p)
  show ?case
  proof (cases "length p \<ge> SHA256_BLOCK")
    case True
    then show ?thesis using 1 sha_absorb.simps [of h "p @ b"] sha_absorb.simps [of h p] by simp
  next
    case False
    then show ?thesis using sha_absorb.simps [of h p] by simp
  qed
qed

lemma sha_absorb_chunks: "fst (sha_absorb h p) = foldl sha256_block h (chunks64 p)"
proof (induction h p rule: sha_absorb.induct)
  case (1 h p)
  then show ?case using sha_absorb.simps [of h p] chunks64.simps [of p] by auto
qed

lemma sha_absorb_rest: "length (snd (sha_absorb h p)) = length p mod 64"
proof (induction h p rule: sha_absorb.induct)
  case (1 h p)
  then show ?case using sha_absorb.simps [of h p] by (auto simp: le_mod_geq [symmetric])
qed

lemma sha_absorb_short: "length p < 64 \<Longrightarrow> sha_absorb h p = (h, p)"
  by (simp add: sha_absorb.simps)

lemma sha_absorb_block: "length p = 64 \<Longrightarrow> sha_absorb h (p @ q) = sha_absorb (sha256_block h p) q"
  using sha_absorb.simps [of h "p @ q"] by simp

text \<open>A context that has seen the message \<open>m\<close>.\<close>

definition sha_repr :: "sha256_ctx \<Rightarrow> bytes \<Rightarrow> bool" where
  "sha_repr s m \<longleftrightarrow> length (sh_buf s) = 64 \<and> sh_buflen s < 64 \<and> sh_total s = of_nat (length m) \<and>
     sha_absorb sha_iv m = (sh_h s, take (sh_buflen s) (sh_buf s))"

lemma sha_repr_init: "length (sh_buf s) = 64 \<Longrightarrow> sha_repr (ultrawidelock_sha256_init s) []"
  by (simp add: sha_repr_def ultrawidelock_sha256_init_def sha_absorb_short)

lemma sha_repr_buflen: "sha_repr s m \<Longrightarrow> sh_buflen s = length m mod 64"
  using sha_absorb_rest [of sha_iv m] by (auto simp: sha_repr_def)

lemma overwrite_fills: "off + length p = length buf \<Longrightarrow> overwrite buf off p = take off buf @ p"
  by (simp add: overwrite_def)

lemma sha_fill_absorb:
  assumes "length (sh_buf s) = 64" "sh_buflen s < 64"
  shows "case sha_fill s d of (s1, p1) \<Rightarrow>
     length (sh_buf s1) = 64 \<and> sh_total s1 = sh_total s \<and> sh_buflen s1 < 64 \<and>
     sha_absorb (sh_h s) (take (sh_buflen s) (sh_buf s) @ d) = sha_absorb (sh_h s1) (take (sh_buflen s1) (sh_buf s1) @ p1) \<and>
     (sh_buflen s1 \<noteq> 0 \<longrightarrow> p1 = [])"
proof -
  let ?b = "sh_buflen s" and ?r = "take (sh_buflen s) (sh_buf s)"
  let ?n = "min (64 - ?b) (length d)"
  have len: "?b + length (take ?n d) = ?b + ?n" by simp
  consider "?b = 0" | "?b \<noteq> 0" "?b + ?n = 64" | "?b \<noteq> 0" "?b + ?n < 64" "?n = length d" using assms by linarith
  then show ?thesis
  proof cases
    case 1
    then show ?thesis using assms by (simp add: sha_fill_def)
  next
    case 2
    have full: "overwrite (sh_buf s) ?b (take ?n d) = ?r @ take ?n d"
      by (rule overwrite_fills) (use 2(2) assms(1) len in simp)
    have "length (?r @ take ?n d) = 64" using 2(2) assms by simp
    then have "sha_absorb (sh_h s) ((?r @ take ?n d) @ drop ?n d) = sha_absorb (sha256_block (sh_h s) (?r @ take ?n d)) (drop ?n d)"
      by (rule sha_absorb_block)
    then show ?thesis using 2 assms unfolding sha_fill_def Let_def full by simp
  next
    case 3
    have "take (?b + length d) (overwrite (sh_buf s) ?b d) = ?r @ d" "length (overwrite (sh_buf s) ?b d) = 64"
      using take_overwrite [of ?b d "sh_buf s"] 3 assms by simp_all
    then show ?thesis using 3 assms unfolding sha_fill_def Let_def by simp
  qed
qed

lemma sha_update_repr:
  assumes "sha_repr s m"
  shows "sha_repr (ultrawidelock_sha256_update s d) (m @ d)"
proof -
  let ?s = "s\<lparr>sh_total := sh_total s + of_nat (length d)\<rparr>"
  obtain s1 p1 where f: "sha_fill ?s d = (s1, p1)" by fastforce
  obtain h p2 where a: "sha_absorb (sh_h s1) p1 = (h, p2)" by fastforce
  have s: "length (sh_buf s) = 64" "sh_buflen s < 64" "sh_total s = of_nat (length m)"
    "sha_absorb sha_iv m = (sh_h s, take (sh_buflen s) (sh_buf s))" using assms by (auto simp: sha_repr_def)
  have f1: "length (sh_buf s1) = 64" "sh_total s1 = of_nat (length (m @ d))" "sh_buflen s1 < 64"
    "sha_absorb (sh_h s) (take (sh_buflen s) (sh_buf s) @ d) = sha_absorb (sh_h s1) (take (sh_buflen s1) (sh_buf s1) @ p1)"
    "sh_buflen s1 \<noteq> 0 \<longrightarrow> p1 = []"
    using sha_fill_absorb [of ?s d] s f by auto
  have tot: "sha_absorb sha_iv (m @ d) = sha_absorb (sh_h s1) (take (sh_buflen s1) (sh_buf s1) @ p1)"
    by (subst sha_absorb_append) (simp only: s(4) prod.case f1(4))
  have p2: "length p2 < 64" using sha_absorb_rest [of "sh_h s1" p1] a by simp
  show ?thesis
  proof (cases "sh_buflen s1 = 0")
    case True
    have "take (length p2) (overwrite (sh_buf s1) 0 p2) = p2" by (simp add: overwrite_def)
    then show ?thesis using True f1(1-3) tot a f p2
      by (simp add: sha_repr_def ultrawidelock_sha256_update_def Let_def)
  next
    case False
    then have "p1 = []" using f1(5) by simp
    moreover have "sha_absorb (sh_h s1) (take (sh_buflen s1) (sh_buf s1)) = (sh_h s1, take (sh_buflen s1) (sh_buf s1))"
      by (rule sha_absorb_short) (use f1(3) in simp)
    ultimately show ?thesis using False f1(1-3) tot a f
      by (simp add: sha_repr_def ultrawidelock_sha256_update_def Let_def sha_absorb_short)
  qed
qed

lemma sha_updates_repr: "sha_repr s m \<Longrightarrow> sha_repr (foldl ultrawidelock_sha256_update s parts) (m @ concat parts)"
proof (induction parts arbitrary: s m)
  case (Cons p parts)
  then show ?case using Cons.IH [OF sha_update_repr [OF Cons.prems, of p]] by simp
qed simp

section \<open>Padding and the digest\<close>

lemma sha_pad_repr:
  "sha_repr s m \<Longrightarrow> \<exists>z<64. sha_repr (sha_pad s) (m @ replicate z 0) \<and> (length m + z) mod 64 = 56"
proof (induction s arbitrary: m rule: sha_pad.induct)
  case (1 s)
  have b: "sh_buflen s = length m mod 64" by (rule sha_repr_buflen [OF 1(2)])
  show ?case
  proof (cases "sh_buflen s = 56")
    case True
    then show ?thesis using 1(2) b sha_pad.simps [of s] by (intro exI [of _ 0]) simp
  next
    case False
    have lt: "sh_buflen s < 64" using 1(2) by (simp add: sha_repr_def)
    have "sha_repr (ultrawidelock_sha256_update s [0]) (m @ [0])" by (rule sha_update_repr [OF 1(2)])
    from 1(1) [OF _ this] False lt obtain z where
      z: "z < 64" "sha_repr (sha_pad (ultrawidelock_sha256_update s [0])) ((m @ [0]) @ replicate z 0)" "(length (m @ [0]) + z) mod 64 = 56"
      by auto
    have "z \<noteq> 63"
    proof
      assume "z = 63"
      then have "length m mod 64 = 56" using z(3) by (simp add: mod_simps)
      then show False using False b by simp
    qed
    then show ?thesis using z False lt sha_pad.simps [of s] by (intro exI [of _ "Suc z"]) auto
  qed
qed

lemma pad_unique: "z < 64 \<Longrightarrow> (length m + 1 + z) mod 64 = 56 \<Longrightarrow> z = (119 - length m mod 64) mod (64::nat)"
proof -
  assume z: "z < 64" "(length m + 1 + z) mod 64 = 56"
  define r where "r = length m mod 64"
  have r: "r < 64" by (simp add: r_def)
  have "(r + 1 + z) mod 64 = 56" using z(2) mod_add_left_eq [of "length m" 64 "1 + z"] by (simp add: r_def add.assoc)
  moreover have "(r + 1 + z) mod 64 = (if r + 1 + z < 64 then r + 1 + z else r + 1 + z - 64)"
    using z(1) r by (simp add: le_mod_geq)
  ultimately have "r + 1 + z = 56 \<or> r + 1 + z = 120" by (auto split: if_splits)
  then have "119 - r = z + 64 \<or> 119 - r = z" by linarith
  then show "z = (119 - length m mod 64) mod 64" using z(1) by (auto simp: r_def [symmetric])
qed

lemma final_repr:
  assumes "sha_repr s m"
  shows "ultrawidelock_sha256_final s = sha256_spec m"
proof -
  let ?s1 = "ultrawidelock_sha256_update s [0x80]"
  let ?bits = "sh_total s * 8"
  have "sha_repr ?s1 (m @ [0x80])" by (rule sha_update_repr [OF assms])
  from sha_pad_repr [OF this] obtain z where
    z: "z < 64" "sha_repr (sha_pad ?s1) ((m @ [0x80]) @ replicate z 0)" "(length m + 1 + z) mod 64 = 56" by auto
  have "sha_repr (ultrawidelock_sha256_update (sha_pad ?s1) (put_u64 ?bits)) (((m @ [0x80]) @ replicate z 0) @ put_u64 ?bits)"
    by (rule sha_update_repr [OF z(2)])
  moreover have "((m @ [0x80]) @ replicate z 0) @ put_u64 ?bits = sha256_padded m"
    using pad_unique [OF z(1,3)] assms by (simp add: sha256_padded_def sha_repr_def mult.commute)
  ultimately have r: "sha_absorb sha_iv (sha256_padded m) = (sh_h (ultrawidelock_sha256_update (sha_pad ?s1) (put_u64 ?bits)),
      take (sh_buflen (ultrawidelock_sha256_update (sha_pad ?s1) (put_u64 ?bits))) (sh_buf (ultrawidelock_sha256_update (sha_pad ?s1) (put_u64 ?bits))))"
    by (simp only: sha_repr_def)
  define h where "h = sh_h (ultrawidelock_sha256_update (sha_pad ?s1) (put_u64 ?bits))"
  have h: "h = foldl sha256_block sha_iv (chunks64 (sha256_padded m))"
    using sha_absorb_chunks [of sha_iv "sha256_padded m"] r by (simp add: h_def)
  have "length h = 8" unfolding h by (rule length_foldl_block) (simp add: sha_iv_def)
  then have "map (\<lambda>i. put_u32 (h ! i)) [0..<8] = map put_u32 h"
    by (intro nth_equalityI) simp_all
  then show ?thesis by (simp add: ultrawidelock_sha256_final_def Let_def sha256_spec_def h [symmetric] h_def [symmetric])
qed

text \<open>C34: The streaming hash is SHA-256: from any initialised context, feeding a message in any parts and
  finishing gives the digest of the whole message, and the padding loop ends.\<close>

theorem sha256_streaming_exact:
  assumes "length (sh_buf s) = SHA256_BLOCK"
  shows "ultrawidelock_sha256_final (foldl ultrawidelock_sha256_update (ultrawidelock_sha256_init s) parts) = sha256_spec (concat parts) \<and>
         ultrawidelock_sha256 m = sha256_spec m"
proof -
  have "sha_repr (ultrawidelock_sha256_init s) []" by (rule sha_repr_init) (use assms in simp)
  from sha_updates_repr [OF this, of parts] have "ultrawidelock_sha256_final (foldl ultrawidelock_sha256_update (ultrawidelock_sha256_init s) parts) = sha256_spec (concat parts)"
    by (intro final_repr) simp
  moreover have "sha_repr (ultrawidelock_sha256_init sha_local) []" by (rule sha_repr_init) (simp add: sha_local_def)
  from sha_update_repr [OF this, of m] have "ultrawidelock_sha256 m = sha256_spec m"
    unfolding ultrawidelock_sha256_def by (intro final_repr) simp
  ultimately show ?thesis ..
qed

theorem sha256_streaming_exact_witness:
  "ultrawidelock_sha256_final (foldl ultrawidelock_sha256_update (ultrawidelock_sha256_init (sha_local\<lparr>sh_buf := replicate 64 7\<rparr>)) [[1, 2], replicate 70 3]) =
   ultrawidelock_sha256 ([1, 2] @ replicate 70 3)"
  using sha256_streaming_exact [of "sha_local\<lparr>sh_buf := replicate 64 7\<rparr>" "[[1, 2], replicate 70 3]" "[1, 2] @ replicate 70 3"] by simp

section \<open>HMAC, HKDF and X9.63\<close>

lemma sha_of_spec: "sha_of parts = sha256_spec (concat parts)"
proof -
  have "sha_repr (ultrawidelock_sha256_init sha_local) []" by (rule sha_repr_init) (simp add: sha_local_def)
  from sha_updates_repr [OF this, of parts] show ?thesis unfolding sha_of_def by (intro final_repr) simp
qed

lemma sha256_is_spec: "ultrawidelock_sha256 m = sha256_spec m"
  using sha_of_spec [of "[m]"] by (simp add: sha_of_def ultrawidelock_sha256_def)

lemma length_sha256_spec [simp]: "length (sha256_spec m) = 32"
proof -
  have "length (foldl sha256_block sha_iv (chunks64 (sha256_padded m))) = 8"
    by (rule length_foldl_block) (simp add: sha_iv_def)
  then show ?thesis by (simp add: sha256_spec_def length_concat comp_def sum_list_triv)
qed

lemma length_hmac_spec [simp]: "length (hmac_spec key m) = 32"
  by (simp add: hmac_spec_def)

lemma overwrite_zeros: "length p \<le> n \<Longrightarrow> overwrite (replicate n 0) 0 p = p @ replicate (n - length p) 0"
  by (simp add: overwrite_def)

lemma hmac_is_spec: "ultrawidelock_hmac_sha256 key msg = hmac_spec key msg"
  by (simp add: ultrawidelock_hmac_sha256_def hmac_spec_def hmac_key_def Let_def sha_of_spec sha256_is_spec overwrite_zeros)

lemma expand_block_spec: "length prk = 32 \<Longrightarrow> expand_block prk t info c = hmac_spec prk (t @ info @ [c])"
proof -
  assume l: "length prk = 32"
  have "map (\<lambda>i. if i < 32 then prk ! i else 0) [0..<64] = prk @ replicate 32 0"
    by (rule nth_equalityI) (auto simp: l nth_append)
  then show ?thesis using l by (simp add: expand_block_def hmac_spec_def hmac_key_def Let_def sha_of_spec)
qed

lemma length_hkdf_T: "length (hkdf_T prk info (Suc i)) = 32"
  by simp

lemma expand_loop_spec:
  "length prk = 32 \<Longrightarrow> left \<le> 32 * k \<Longrightarrow>
   expand_loop prk info (hkdf_T prk info i) (of_nat (Suc i)) left = take left (concat (map (hkdf_T prk info) [Suc i..<Suc i + k]))"
proof (induction k arbitrary: i left)
  case 0
  then show ?case by (simp add: expand_loop.simps)
next
  case (Suc k)
  let ?n = "min left 32"
  have t: "expand_block prk (hkdf_T prk info i) info (of_nat (Suc i)) = hkdf_T prk info (Suc i)"
    using Suc.prems(1) by (simp add: expand_block_spec)
  have up: "[Suc i..<Suc i + Suc k] = Suc i # [Suc (Suc i)..<Suc (Suc i) + k]" by (simp add: upt_conv_Cons del: upt_Suc)
  have c: "(of_nat (Suc i) :: u8) + 1 = of_nat (Suc (Suc i))" by simp
  have ih: "expand_loop prk info (hkdf_T prk info (Suc i)) (of_nat (Suc (Suc i))) (left - ?n) =
      take (left - ?n) (concat (map (hkdf_T prk info) [Suc (Suc i)..<Suc (Suc i) + k]))"
    by (rule Suc.IH) (use Suc.prems in auto)
  show ?case
  proof (cases "left = 0")
    case True
    then show ?thesis by (simp add: expand_loop.simps)
  next
    case False
    then have "expand_loop prk info (hkdf_T prk info i) (of_nat (Suc i)) left =
        take ?n (hkdf_T prk info (Suc i)) @ take (left - ?n) (concat (map (hkdf_T prk info) [Suc (Suc i)..<Suc (Suc i) + k]))"
      unfolding expand_loop.simps [of _ _ _ _ left] t Let_def c ih by simp
    also have "\<dots> = take left (hkdf_T prk info (Suc i) @ concat (map (hkdf_T prk info) [Suc (Suc i)..<Suc (Suc i) + k]))"
      by (simp only: take_append length_hkdf_T) (simp add: min_def)
    finally show ?thesis unfolding up by simp
  qed
qed

lemma x963_loop_spec:
  "left \<le> 32 * k \<Longrightarrow>
   x963_loop z info (of_nat i) left = take left (concat (map (\<lambda>j. sha256_spec (z @ put_u32 (of_nat j) @ info)) [i..<i + k]))"
proof (induction k arbitrary: i left)
  case 0
  then show ?case by (simp add: x963_loop.simps)
next
  case (Suc k)
  let ?n = "min left 32" and ?f = "\<lambda>j. sha256_spec (z @ put_u32 (of_nat j) @ info)"
  have d: "sha_of ([z, put_u32 (of_nat i)] @ (if info \<noteq> [] then [info] else [])) = ?f i" by (simp add: sha_of_spec)
  have up: "[i..<i + Suc k] = i # [Suc i..<Suc i + k]" by (simp add: upt_conv_Cons del: upt_Suc)
  have c: "(of_nat i :: u32) + 1 = of_nat (Suc i)" by simp
  have ih: "x963_loop z info (of_nat (Suc i)) (left - ?n) = take (left - ?n) (concat (map ?f [Suc i..<Suc i + k]))"
    by (rule Suc.IH) (use Suc.prems in auto)
  show ?case
  proof (cases "left = 0")
    case True
    then show ?thesis by (simp add: x963_loop.simps)
  next
    case False
    then have "x963_loop z info (of_nat i) left = take ?n (?f i) @ take (left - ?n) (concat (map ?f [Suc i..<Suc i + k]))"
      unfolding x963_loop.simps [of _ _ _ left] d Let_def c ih by simp
    also have "\<dots> = take left (?f i @ concat (map ?f [Suc i..<Suc i + k]))"
      by (simp only: take_append length_sha256_spec) (simp add: min_def)
    finally show ?thesis unfolding up by simp
  qed
qed

text \<open>The key derivations are the standard ones: HMAC is RFC 2104, HKDF is RFC 5869 and refuses exactly
  the lengths the RFC forbids, and the X9.63 derivation concatenates the digests of secret, counter
  and shared information.\<close>

theorem key_derivations_exact:
  "ultrawidelock_hmac_sha256 key msg = hmac_spec key msg \<and>
   ultrawidelock_hkdf salt ikm info n = (if n > 255 * 32 then None else Some (hkdf_spec salt ikm info n)) \<and>
   ultrawidelock_x963_kdf z info n = (if n > 0xffffffff - 32 then None else Some (x963_spec z info n))"
proof (intro conjI)
  let ?prk = "hmac_spec (if salt = [] then replicate 32 0 else salt) ikm"
  have prk: "ultrawidelock_hkdf_extract salt ikm = ?prk" by (simp add: ultrawidelock_hkdf_extract_def hmac_is_spec)
  have "expand_loop ?prk info [] 1 n = hkdf_spec salt ikm info n" if "n \<le> 8160"
    using expand_loop_spec [of ?prk n 255 info 0] that by (simp add: hkdf_spec_def)
  then show "ultrawidelock_hkdf salt ikm info n = (if n > 255 * 32 then None else Some (hkdf_spec salt ikm info n))"
    unfolding ultrawidelock_hkdf_def prk ultrawidelock_hkdf_expand_def by simp
  have "n \<le> 32 * ((n + 31) div 32)" by linarith
  then have "x963_loop z info 1 n = x963_spec z info n"
    using x963_loop_spec [of n "(n + 31) div 32" z info 1] by (simp add: x963_spec_def)
  then show "ultrawidelock_x963_kdf z info n = (if n > 0xffffffff - 32 then None else Some (x963_spec z info n))"
    by (simp add: ultrawidelock_x963_kdf_def)
qed (rule hmac_is_spec)

end
