(* ===== verification/Cred_Codec_Proofs.thy ===== *)
theory Cred_Codec_Proofs
  imports Cred_Codec
begin

text \<open>
  Round trips of the credential codec: every field a builder writes is the field a reader finds,
  signed transcripts determine their contents, envelopes come apart as they were put together, and
  the strict DER reader accepts exactly the encodings the writer produces.
\<close>

section \<open>The writer\<close>

definition item_bytes :: "u8 \<times> bytes \<Rightarrow> bytes" where
  "item_bytes tv = (case tv of (t, v) \<Rightarrow> t # tlv_length_bytes (length v) @ v)"

lemma w_len_bytes: "w_len w n = foldl w_byte w (tlv_length_bytes n)"
  by (simp add: w_len_def tlv_length_bytes_def)

lemma put_bytes: "ultrawidelock_tlv_put w t v = foldl w_byte w (item_bytes (t, v))"
  by (simp add: ultrawidelock_tlv_put_def w_len_bytes item_bytes_def)

lemma puts_bytes:
  "foldl (\<lambda>w (t, v). ultrawidelock_tlv_put w t v) w items = foldl w_byte w (concat (map item_bytes items))"
  by (induction items arbitrary: w) (auto simp: put_bytes)

lemma w_bytes_err: "tw_err w \<Longrightarrow> tw_err (foldl w_byte w bs)"
  by (induction bs arbitrary: w) (auto simp: w_byte_def)

lemma w_bytes:
  "\<not> tw_err w \<Longrightarrow> length (tw_buf w) \<le> tw_cap w \<Longrightarrow>
   ultrawidelock_tlv_w_finish (foldl w_byte w bs) = (if length (tw_buf w) + length bs \<le> tw_cap w then Some (tw_buf w @ bs) else None)"
proof (induction bs arbitrary: w)
  case (Cons b bs)
  show ?case
  proof (cases "length (tw_buf w) < tw_cap w")
    case True
    then show ?thesis using Cons.IH [of "w_byte w b"] Cons.prems by (simp add: w_byte_def)
  next
    case False
    then have "tw_err (foldl w_byte (w_byte w b) bs)" by (intro w_bytes_err) (simp add: w_byte_def)
    then show ?thesis using False by (simp add: ultrawidelock_tlv_w_finish_def)
  qed
qed (simp add: ultrawidelock_tlv_w_finish_def)

lemma w_init_bytes:
  "ultrawidelock_tlv_w_finish (foldl w_byte (ultrawidelock_tlv_w_init cap) bs) = (if length bs \<le> cap then Some bs else None)"
  using w_bytes [of "ultrawidelock_tlv_w_init cap" bs] by (simp add: ultrawidelock_tlv_w_init_def)

section \<open>The reader finds what was written\<close>

lemma nth_after:
  "(pre @ a # r) ! length pre = a"
  "(pre @ a # b # r) ! Suc (length pre) = b"
  "(pre @ a # b # c # r) ! Suc (Suc (length pre)) = c"
  "(pre @ a # b # c # d # r) ! Suc (Suc (Suc (length pre))) = d"
  by (simp_all add: nth_append)

lemma tlv_read_item:
  assumes "length v \<le> 0xffff"
  shows "tlv_read (pre @ item_bytes (t, v) @ post) (length pre) = Some (t, v, length pre + length (item_bytes (t, v)))"
proof -
  have n: "unat (of_nat (length v) :: u8) = length v mod 256" "unat (of_nat (length v div 256) :: u8) = length v div 256 mod 256"
    by (simp_all add: unsigned_of_nat take_bit_eq_mod)
  consider "length v < 0x80" | "0x80 \<le> length v" "length v \<le> 0xff" | "0xff < length v" by linarith
  then show ?thesis
  proof cases
    case 1
    then have "(of_nat (length v) :: u8) < 0x80" using n(1) by (simp add: word_less_nat_alt)
    then show ?thesis using 1 n(1)
      by (simp add: tlv_read_def item_bytes_def tlv_length_bytes_def Let_def nth_after)
  next
    case 2
    then show ?thesis using n(1)
      by (simp add: tlv_read_def item_bytes_def tlv_length_bytes_def Let_def nth_after)
  next
    case 3
    have d: "length v div 256 mod 256 * 256 + length v mod 256 = length v" using assms by simp
    show ?thesis using 3 n d
      by (simp add: tlv_read_def item_bytes_def tlv_length_bytes_def Let_def nth_after)
  qed
qed

lemma tlv_find_items:
  "\<forall>tv\<in>set items. length (snd tv) \<le> 0xffff \<Longrightarrow>
   tlv_find_from (pre @ concat (map item_bytes items)) tag (length pre) = map_of items tag"
proof (induction items arbitrary: pre)
  case Nil
  then show ?case by (simp add: tlv_find_from.simps [of pre] tlv_read_def)
next
  case (Cons tv items)
  obtain t v where tv: "tv = (t, v)" by fastforce
  let ?buf = "pre @ concat (map item_bytes (tv # items))"
  have r: "tlv_read ?buf (length pre) = Some (t, v, length pre + length (item_bytes tv))"
    using tlv_read_item [of v pre t "concat (map item_bytes items)"] Cons.prems tv by simp
  have ih: "tlv_find_from ?buf tag (length pre + length (item_bytes tv)) = map_of items tag"
    using Cons.IH [of "pre @ item_bytes tv"] Cons.prems by simp
  show ?case unfolding tlv_find_from.simps [of ?buf tag "length pre"] r using ih tv by simp
qed

lemma find_written: "\<forall>tv\<in>set items. length (snd tv) \<le> 0xffff \<Longrightarrow> ultrawidelock_tlv_find (concat (map item_bytes items)) tag = map_of items tag"
  using tlv_find_items [of items "[]" tag] by (simp add: ultrawidelock_tlv_find_def)

text \<open>Whatever items are written, the writer produces them all or latches its error, exactly when they
  do not fit; and the reader then finds for each tag the first value written under it.\<close>

theorem tlv_written_is_found:
  assumes "\<forall>tv\<in>set items. length (snd tv) \<le> 0xffff"
  shows "case ultrawidelock_tlv_w_finish (foldl (\<lambda>w (t, v). ultrawidelock_tlv_put w t v) (ultrawidelock_tlv_w_init cap) items) of
           None \<Rightarrow> cap < length (concat (map item_bytes items))
         | Some b \<Rightarrow> length b \<le> cap \<and> b = concat (map item_bytes items) \<and> ultrawidelock_tlv_find b tag = map_of items tag"
  unfolding puts_bytes w_init_bytes using find_written [OF assms, of tag] by simp

theorem tlv_written_is_found_witness:
  "ultrawidelock_tlv_find (concat (map item_bytes [(0x41, [1]), (0x86, replicate 200 7), (0x41, [2])])) 0x86 = Some (replicate 200 7)"
  using tlv_written_is_found [of "[(0x41, [1]), (0x86, replicate 200 7), (0x41, [2])]" 1000 "0x86"]
  unfolding puts_bytes w_init_bytes by (simp add: item_bytes_def tlv_length_bytes_def)

section \<open>Commands and transcripts\<close>

definition auth0_items :: "u8 \<Rightarrow> u8 \<Rightarrow> u16 \<Rightarrow> bytes \<Rightarrow> bytes \<Rightarrow> bytes \<Rightarrow> (u8 \<times> bytes) list" where
  "auth0_items ph pol ver eph txid rid =
     [(TAG_EXP_PHASE, [ph]), (TAG_USER_POL, [pol]), (TAG_VERSION, put_u16 ver), (TAG_READER_EPH, eph), (TAG_TXID, txid), (TAG_READER_ID, rid)]"

definition authdata_items :: "bool \<Rightarrow> bytes \<Rightarrow> bytes \<Rightarrow> bytes \<Rightarrow> bytes \<Rightarrow> (u8 \<times> bytes) list" where
  "authdata_items rd rid dpx epx txid =
     [(TAG_READER_ID, rid), (TAG_DEVICE_PUBX, dpx), (TAG_READER_EPH, epx), (TAG_TXID, txid),
      (TAG_USAGE, if rd then k_reader_usage else k_user_device_usage)]"

lemma finish_items:
  "ultrawidelock_tlv_w_finish (foldl w_byte (ultrawidelock_tlv_w_init cap) (concat (map item_bytes items))) =
     (if length (concat (map item_bytes items)) \<le> cap then Some (concat (map item_bytes items)) else None)"
  by (rule w_init_bytes)

lemma auth0_is_items:
  "ultrawidelock_apdu_build_auth0 ph pol ver eph txid rid cap =
     (let b = concat (map item_bytes (auth0_items ph pol ver eph txid rid)) in if length b \<le> cap then Some b else None)"
  unfolding Let_def finish_items [symmetric]
  by (simp add: ultrawidelock_apdu_build_auth0_def auth0_items_def ultrawidelock_tlv_put_u8_def ultrawidelock_tlv_put_u16_def put_bytes)

lemma authdata_is_items:
  "ultrawidelock_apdu_build_authdata rd rid dpx epx txid cap =
     (let b = concat (map item_bytes (authdata_items rd rid dpx epx txid)) in if length b \<le> cap then Some b else None)"
  unfolding Let_def finish_items [symmetric]
  by (simp add: ultrawidelock_apdu_build_authdata_def authdata_items_def put_bytes)

lemma authdata_found:
  assumes "ultrawidelock_apdu_build_authdata rd rid dpx epx txid cap = Some b"
    "length rid \<le> 0xffff" "length dpx \<le> 0xffff" "length epx \<le> 0xffff" "length txid \<le> 0xffff"
  shows "ultrawidelock_tlv_find b t = map_of (authdata_items rd rid dpx epx txid) t"
proof -
  have "b = concat (map item_bytes (authdata_items rd rid dpx epx txid))"
    using assms(1) by (simp add: authdata_is_items Let_def split: if_splits)
  then show ?thesis
    using find_written [of "authdata_items rd rid dpx epx txid" t] assms(2-)
    by (simp add: authdata_items_def k_reader_usage_def k_user_device_usage_def)
qed

text \<open>C32: A signed transcript says what it signs: two transcripts with the same bytes have the same
  reader, device key, ephemeral key and transaction, and the same usage, so a reader's signature is never one
  of a device.\<close>

theorem transcript_determines_contents:
  assumes "ultrawidelock_apdu_build_authdata rd rid dpx epx txid cap = Some b"
    and "ultrawidelock_apdu_build_authdata rd' rid' dpx' epx' txid' cap' = Some b"
    and "length rid = 32" "length dpx = 32" "length epx = 32" "length txid = 16"
    and "length rid' = 32" "length dpx' = 32" "length epx' = 32" "length txid' = 16"
  shows "rd = rd' \<and> rid = rid' \<and> dpx = dpx' \<and> epx = epx' \<and> txid = txid'"
proof -
  have same: "map_of (authdata_items rd rid dpx epx txid) t = map_of (authdata_items rd' rid' dpx' epx' txid') t" for t
    using authdata_found [OF assms(1), of t] authdata_found [OF assms(2), of t] assms(3-) by simp
  show ?thesis
    using same [of TAG_READER_ID] same [of TAG_DEVICE_PUBX] same [of TAG_READER_EPH] same [of TAG_TXID] same [of TAG_USAGE]
    by (simp add: authdata_items_def k_reader_usage_def k_user_device_usage_def split: if_splits)
qed

theorem transcript_determines_contents_witness:
  "ultrawidelock_apdu_build_authdata True (replicate 32 1) (replicate 32 2) (replicate 32 3) (replicate 16 4) 256 \<noteq>
   ultrawidelock_apdu_build_authdata False (replicate 32 1) (replicate 32 2) (replicate 32 3) (replicate 16 4) 256"
proof -
  let ?b = "concat (map item_bytes (authdata_items True (replicate 32 1) (replicate 32 2) (replicate 32 3) (replicate 16 4)))"
  have "length ?b \<le> 256" by (simp add: item_bytes_def authdata_items_def tlv_length_bytes_def k_reader_usage_def)
  then have b: "ultrawidelock_apdu_build_authdata True (replicate 32 1) (replicate 32 2) (replicate 32 3) (replicate 16 4) 256 = Some ?b"
    by (simp add: authdata_is_items)
  show ?thesis
    using transcript_determines_contents [OF b, of False "replicate 32 1" "replicate 32 2" "replicate 32 3" "replicate 16 4" 256] b
    by force
qed

lemma auth0_found:
  assumes "ultrawidelock_apdu_build_auth0 ph pol ver eph txid rid cap = Some b" "length eph \<le> 0xffff" "length txid \<le> 0xffff" "length rid \<le> 0xffff"
  shows "ultrawidelock_tlv_find b t = map_of (auth0_items ph pol ver eph txid rid) t"
proof -
  have "b = concat (map item_bytes (auth0_items ph pol ver eph txid rid))"
    using assms(1) by (simp add: auth0_is_items Let_def split: if_splits)
  then show ?thesis
    using find_written [of "auth0_items ph pol ver eph txid rid" t] assms(2-) by (simp add: auth0_items_def)
qed

section \<open>Envelopes\<close>

lemma be16_nat: "n \<le> 0xffff \<Longrightarrow> unat (of_nat (n div 256) :: u8) * 256 + unat (of_nat n :: u8) = n"
  by (simp add: unsigned_of_nat take_bit_eq_mod)

lemma unframe_frame:
  assumes "ultrawidelock_ble_frame type opcode payload cap = Some b"
  shows "ultrawidelock_ble_unframe (b @ rest) = Some (type AND 0x3F, opcode, payload)" "length b = 4 + length payload"
  using assms be16_nat [of "length payload"]
  by (auto simp: ultrawidelock_ble_frame_def ultrawidelock_ble_unframe_def Let_def split: if_splits)

lemma strip_sw_append: "ultrawidelock_apdu_strip_sw (body @ put_u16 sw) = Some (body, sw)"
  using get_put_u16 [of sw "[]"] by (simp add: ultrawidelock_apdu_strip_sw_def)

text \<open>A response a device builds as the protocol says reaches the parser with exactly its fields: key and
  cryptogram of AUTH0, signature, key and signalling bits of AUTH1, under the status word and inside the envelope,
  whatever follows it in the buffer.\<close>

theorem responses_parse_back:
  assumes "length eph = 65" "length crypt = 64" "length sig = 64" "length pub = 65"
    and r0: "r0 = concat (map item_bytes [(TAG_DEVICE_PUBX, eph), (0x9D, crypt)])"
    and r1: "r1 = concat (map item_bytes [(TAG_DEVICE_PUB, pub), (TAG_SIG, sig), (0x5E, put_u16 sg)])"
    and "ultrawidelock_ble_frame PROTO_ACCESS AP_OP_RESPONSE (r0 @ put_u16 sw) cap = Some b0"
    and "ultrawidelock_ble_frame PROTO_ACCESS AP_OP_RESPONSE (r1 @ put_u16 sw) cap = Some b1"
  shows "ultrawidelock_ble_unframe (b0 @ rest) = Some (PROTO_ACCESS, AP_OP_RESPONSE, r0 @ put_u16 sw) \<and>
         ultrawidelock_ble_unframe (b1 @ rest) = Some (PROTO_ACCESS, AP_OP_RESPONSE, r1 @ put_u16 sw) \<and>
         ultrawidelock_apdu_strip_sw (r0 @ put_u16 sw) = Some (r0, sw) \<and>
         ultrawidelock_apdu_strip_sw (r1 @ put_u16 sw) = Some (r1, sw) \<and>
         ultrawidelock_apdu_parse_auth0_response r0 = Some \<lparr>a0_device_eph_pub = eph, a0_have_cryptogram = True, a0_cryptogram = crypt\<rparr> \<and>
         ultrawidelock_apdu_parse_auth1_response r1 =
           Some \<lparr>a1_have_device_pub = True, a1_device_pub = pub, a1_device_sig = sig, a1_signaling = sg\<rparr>"
proof -
  have f0: "ultrawidelock_tlv_find r0 t = map_of [(TAG_DEVICE_PUBX, eph), (0x9D, crypt)] t" for t
    unfolding r0 by (rule find_written) (use assms(1,2) in simp)
  have f1: "ultrawidelock_tlv_find r1 t = map_of [(TAG_DEVICE_PUB, pub), (TAG_SIG, sig), (0x5E, put_u16 sg)] t" for t
    unfolding r1 by (rule find_written) (use assms(3,4) in simp)
  show ?thesis
    using unframe_frame(1) [OF assms(7), of rest] unframe_frame(1) [OF assms(8), of rest] assms(1-4) get_put_u16 [of sg "[]"]
    by (simp add: strip_sw_append ultrawidelock_apdu_parse_auth0_response_def ultrawidelock_apdu_parse_auth1_response_def f0 f1)
qed

theorem responses_parse_back_witness:
  "ultrawidelock_apdu_parse_auth0_response (concat (map item_bytes [(TAG_DEVICE_PUBX, replicate 65 4), (0x9D, replicate 64 9)])) =
     Some \<lparr>a0_device_eph_pub = replicate 65 4, a0_have_cryptogram = True, a0_cryptogram = replicate 64 9\<rparr>"
proof -
  let ?r0 = "concat (map item_bytes [(TAG_DEVICE_PUBX, replicate 65 4), (0x9D, replicate 64 9)])"
  let ?r1 = "concat (map item_bytes [(TAG_DEVICE_PUB, replicate 65 4), (TAG_SIG, replicate 64 8), (0x5E, put_u16 3)])"
  have len: "length (?r0 @ put_u16 0x9000) + 4 \<le> 512" "length (?r1 @ put_u16 0x9000) + 4 \<le> 512"
    by (simp_all add: item_bytes_def tlv_length_bytes_def)
  obtain b0 b1 where "ultrawidelock_ble_frame PROTO_ACCESS AP_OP_RESPONSE (?r0 @ put_u16 0x9000) 512 = Some b0"
    "ultrawidelock_ble_frame PROTO_ACCESS AP_OP_RESPONSE (?r1 @ put_u16 0x9000) 512 = Some b1"
    using len by (simp add: ultrawidelock_ble_frame_def Let_def)
  from responses_parse_back [OF _ _ _ _ refl refl this] show ?thesis by simp
qed

section \<open>The strict DER codec\<close>

text \<open>The octet forms of a tag: one octet whose low five bits are not all set, or a first octet with all of them
  set and a number in further octets, each but the last marked, the first of them not zero.\<close>

fun tag_form :: "bytes \<Rightarrow> bool" where
  "tag_form [a] \<longleftrightarrow> a AND 0x1f \<noteq> 0x1f"
| "tag_form [a, b] \<longleftrightarrow> a AND 0x1f = 0x1f \<and> b AND 0x7f \<noteq> 0 \<and> b AND 0x80 = 0"
| "tag_form [a, b, c] \<longleftrightarrow> a AND 0x1f = 0x1f \<and> b AND 0x7f \<noteq> 0 \<and> b AND 0x80 \<noteq> 0 \<and> c AND 0x80 = 0"
| "tag_form _ \<longleftrightarrow> False"

lemma byte_lt: "unat (a::u8) < 256"
  using unsigned_less [of a] by simp

lemma unat_ucast_byte [simp]: "unat (ucast (a::u8) :: u32) = unat a"
  using byte_lt [of a] by (simp add: unsigned_ucast_eq take_bit_nat_eq_self)

lemma shift_or_nat: "unat x < 2 ^ 24 \<Longrightarrow> unat (push_bit 8 x OR ucast (b::u8) :: u32) = unat x * 256 + unat b"
proof -
  assume x: "unat x < 2 ^ 24"
  have "push_bit 8 x OR ucast b = push_bit 8 x + (ucast b :: u32)"
    by (rule disjunctive_add_eq_or [symmetric]) (auto simp: bit_eq_iff bit_simps not_bit_beyond)
  moreover have "unat (push_bit 8 x + (ucast b :: u32)) = unat x * 256 + unat b"
  proof -
    have "unat (push_bit 8 x) = unat x * 256"
      using x by (simp add: push_bit_eq_mult unat_word_ariths mult.commute take_bit_nat_eq_self)
    then show ?thesis using x byte_lt [of b] by (simp add: unat_word_ariths)
  qed
  ultimately show ?thesis by simp
qed

definition tag_val :: "bytes \<Rightarrow> u32" where
  "tag_val octs = foldl (\<lambda>t b. push_bit 8 t OR ucast b) 0 octs"

lemma tag_val_snoc: "unat (tag_val octs) < 2 ^ 24 \<Longrightarrow> unat (tag_val (octs @ [b])) = unat (tag_val octs) * 256 + unat b"
  by (simp add: tag_val_def shift_or_nat)

lemma tag_val_nat:
  shows tag_val_1: "unat (tag_val [a]) = unat a"
    and tag_val_2: "unat (tag_val [a, b]) = unat a * 256 + unat b"
    and tag_val_3: "unat (tag_val [a, b, c]) = (unat a * 256 + unat b) * 256 + unat c"
    and tag_val_4: "unat (tag_val [a, b, c, d]) = ((unat a * 256 + unat b) * 256 + unat c) * 256 + unat d"
proof -
  show 1: "unat (tag_val [a]) = unat a" by (simp add: tag_val_def)
  show 2: "unat (tag_val [a, b]) = unat a * 256 + unat b"
    using tag_val_snoc [of "[a]" b] 1 byte_lt [of a] by simp
  show 3: "unat (tag_val [a, b, c]) = (unat a * 256 + unat b) * 256 + unat c"
    using tag_val_snoc [of "[a, b]" c] 2 byte_lt [of a] byte_lt [of b] by simp
  show "unat (tag_val [a, b, c, d]) = ((unat a * 256 + unat b) * 256 + unat c) * 256 + unat d"
    using tag_val_snoc [of "[a, b, c]" d] 3 byte_lt [of a] byte_lt [of b] byte_lt [of c] by simp
qed

lemma full_octet_nonzero: "(a::u8) AND 0x1f = 0x1f \<Longrightarrow> 0 < unat a"
  by (cases "a = 0") (auto simp: unat_gt_0)

lemma tag_bytes_of_val: "tag_form octs \<Longrightarrow> tlv_tag_bytes (tag_val octs) = octs \<and> tag_size (tag_val octs) = length octs"
proof (induction octs rule: tag_form.induct)
  case (1 a)
  have "tag_val [a] \<le> 0xff" using byte_lt [of a] by (simp add: word_le_nat_alt tag_val_nat)
  moreover have "ucast (tag_val [a]) = a" by (auto simp: tag_val_def bit_eq_iff bit_simps not_bit_beyond)
  ultimately show ?case by (simp add: tlv_tag_bytes_def tag_size_def)
next
  case (2 a b)
  then have "\<not> tag_val [a, b] \<le> 0xff" "tag_val [a, b] \<le> 0xffff"
    using byte_lt [of a] byte_lt [of b] full_octet_nonzero [of a] by (simp_all add: word_le_nat_alt tag_val_nat)
  moreover have "ucast (drop_bit 8 (tag_val [a, b])) = a" "ucast (tag_val [a, b]) = b"
    by (auto simp: tag_val_def bit_eq_iff bit_simps not_bit_beyond)
  ultimately show ?case by (simp add: tlv_tag_bytes_def tag_size_def upt_rec)
next
  case (3 a b c)
  then have "\<not> tag_val [a, b, c] \<le> 0xff" "\<not> tag_val [a, b, c] \<le> 0xffff" "tag_val [a, b, c] \<le> 0xffffff"
    using byte_lt [of a] byte_lt [of b] byte_lt [of c] full_octet_nonzero [of a] by (simp_all add: word_le_nat_alt tag_val_nat)
  moreover have "ucast (drop_bit 16 (tag_val [a, b, c])) = a" "ucast (drop_bit 8 (tag_val [a, b, c])) = b" "ucast (tag_val [a, b, c]) = c"
    by (auto simp: tag_val_def bit_eq_iff bit_simps not_bit_beyond)
  ultimately show ?case by (simp add: tlv_tag_bytes_def tag_size_def upt_rec)
qed auto

lemma and_ucast: "ucast (a::u8) AND (0x1f::u32) = 0x1f \<longleftrightarrow> a AND 0x1f = 0x1f"
proof -
  have "ucast a AND (0x1f::u32) = ucast (a AND 0x1f)"
    by (auto simp: bit_eq_iff bit_simps dest: bit_imp_le_length)
  also have "\<dots> = 0x1f \<longleftrightarrow> a AND 0x1f = 0x1f"
    using unat_ucast_byte [of "a AND 0x1f"] by (auto simp: word_unat_eq_iff)
  finally show ?thesis .
qed

text \<open>Tags: the reader takes exactly the forms above, and their value is what the writer turns back into them.\<close>

lemma der_tag_reads:
  "tag_form octs \<Longrightarrow> der_tag (pre @ octs @ post) (length pre) = Some (tag_val octs, length pre + length octs)"
proof (induction octs rule: tag_form.induct)
  case (1 a)
  then show ?case by (simp add: der_tag_def Let_def and_ucast nth_after tag_val_def)
next
  case (2 a b)
  then show ?case by (simp add: der_tag_def Let_def and_ucast nth_after tag_val_def numeral_3_eq_3)
next
  case (3 a b c)
  then show ?case by (simp add: der_tag_def Let_def and_ucast nth_after tag_val_def numeral_3_eq_3)
qed auto

lemma der_tag_form:
  assumes "der_tag data start = Some (tag, c)" "start < length data" "unat tag \<le> 0xffffff"
  shows "\<exists>octs. tag_form octs \<and> tag = tag_val octs \<and> c = start + length octs \<and> c \<le> length data \<and> take (length octs) (drop start data) = octs"
proof -
  obtain pre a r where d: "data = pre @ a # r" "start = length pre"
    using assms(2) by (metis id_take_nth_drop length_take less_imp_le_nat min.absorb2)
  have a1: "ucast a AND (0x1f::u32) = 0x1f \<longleftrightarrow> a AND 0x1f = 0x1f" by (rule and_ucast)
  show ?thesis
  proof (cases "a AND 0x1f = 0x1f")
    case False
    then have "tag = tag_val [a]" "c = start + 1"
      using assms(1) d by (auto simp: der_tag_def Let_def and_ucast nth_after tag_val_def)
    then show ?thesis using False d by (intro exI [of _ "[a]"]) simp
  next
    case full: True
    then have m: "tag_more (pre @ a # r) 3 (ucast a) 1 (Suc (length pre)) = Some (tag, c)"
      using assms(1) d by (simp add: der_tag_def Let_def and_ucast nth_after)
    then obtain b r1 where r: "r = b # r1" by (cases r) (auto simp: numeral_3_eq_3)
    have b7: "b AND 0x7f \<noteq> 0" using m r by (auto simp: numeral_3_eq_3 nth_after split: if_splits)
    show ?thesis
    proof (cases "b AND 0x80 = 0")
      case True
      then have "tag = tag_val [a, b]" "c = start + 2"
        using m b7 r d by (auto simp: numeral_3_eq_3 nth_after tag_val_def)
      then show ?thesis using full b7 True d r by (intro exI [of _ "[a, b]"]) simp
    next
      case cont: False
      then obtain e r2 where r1: "r1 = e # r2" using m b7 r by (cases r1) (auto simp: numeral_3_eq_3 nth_after)
      show ?thesis
      proof (cases "e AND 0x80 = 0")
        case True
        then have "tag = tag_val [a, b, e]" "c = start + 3"
          using m b7 cont r r1 d by (auto simp: numeral_3_eq_3 nth_after tag_val_def)
        then show ?thesis using full b7 cont True d r r1 by (intro exI [of _ "[a, b, e]"]) simp
      next
        case False
        then obtain f where "tag = tag_val [a, b, e, f]"
          using m b7 cont r r1 by (cases r2) (auto simp: numeral_3_eq_3 nth_after tag_val_def Let_def split: if_splits)
        then have "unat tag \<ge> unat a * 16777216" by (simp add: tag_val_4)
        then show ?thesis using full_octet_nonzero [OF full] assms(3) by linarith
      qed
    qed
  qed
qed

lemma top_bit_nat: "(f::u8) AND 0x80 = 0 \<longleftrightarrow> unat f < 128"
proof -
  have "f AND 0x80 = 0 \<longleftrightarrow> \<not> bit f 7" using and_exp_eq_0_iff_not_bit [of f 7] by simp
  also have "bit f 7 \<longleftrightarrow> bit (unat f) 7" by (simp add: bit_unsigned_iff)
  also have "\<dots> \<longleftrightarrow> odd (unat f div 128)" by (simp add: bit_iff_odd)
  also have "\<dots> \<longleftrightarrow> \<not> unat f < 128"
  proof (cases "unat f < 128")
    case False
    then have "unat f div 128 = 1" using byte_lt [of f] by simp
    then show ?thesis using False by simp
  qed simp
  finally show ?thesis by simp
qed

lemma low_bits_nat: "unat ((f::u8) AND 0x7f) = unat f mod 128"
proof -
  have "f AND 0x7f = take_bit 7 f" by (simp add: take_bit_eq_mask mask_eq_exp_minus_1)
  then have "unat (f AND 0x7f) = take_bit 7 (unat f)" by (simp only: unsigned_take_bit_eq)
  then show ?thesis by (simp add: take_bit_eq_mod)
qed

lemma length_more_two:
  "length_more data 2 0 c = Some (unat (data ! c) * 256 + unat (data ! Suc c), Suc (Suc c))"
  using byte_lt [of "data ! c"] unfolding numeral_2_eq_2 by (simp add: SIZE_MAX_def)

lemma der_length_reads:
  assumes "n \<le> 0xffff"
  shows "der_length (pre @ tlv_length_bytes n @ post) (length pre) = Some (n, length pre + length_size n)"
proof -
  have u: "unat (of_nat n :: u8) = n mod 256" "unat (of_nat (n div 256) :: u8) = n div 256 mod 256"
    by (simp_all add: unsigned_of_nat take_bit_eq_mod)
  consider "n < 0x80" | "0x80 \<le> n" "n \<le> 0xff" | "0xff < n" by linarith
  then show ?thesis
  proof cases
    case 1
    then have "(of_nat n :: u8) AND 0x80 = 0" using u(1) by (simp add: top_bit_nat)
    then show ?thesis using 1 u by (simp add: der_length_def tlv_length_bytes_def length_size_def nth_after Let_def)
  next
    case 2
    then have "(of_nat n :: u8) \<noteq> 0" using u(1) by (auto simp: word_unat_eq_iff)
    then show ?thesis using 2 u
      by (simp add: der_length_def tlv_length_bytes_def length_size_def nth_after Let_def SIZE_MAX_def)
  next
    case 3
    have d: "n div 256 mod 256 * 256 + n mod 256 = n" using assms by simp
    have "(of_nat (n div 256) :: u8) \<noteq> 0" using u(2) 3 assms by (auto simp: word_unat_eq_iff)
    then show ?thesis using 3 u d assms
      by (simp add: der_length_def tlv_length_bytes_def length_size_def nth_after Let_def length_more_two)
  qed
qed

lemma long_form_octet: "\<not> unat (f::u8) < 128 \<Longrightarrow> unat f mod 128 = k \<Longrightarrow> unat f = 128 + k"
  using byte_lt [of f] by (simp add: le_mod_geq)

lemma length_more_ge:
  "length_more data n v c = Some (v', c') \<Longrightarrow> v * 256 ^ n \<le> v' \<and> c' = c + n"
proof (induction n arbitrary: v c)
  case (Suc n)
  then have "length_more data n (v * 256 + unat (data ! c)) (c + 1) = Some (v', c')" by (simp split: if_splits)
  from Suc.IH [OF this] have "(v * 256 + unat (data ! c)) * 256 ^ n \<le> v' \<and> c' = c + 1 + n" .
  moreover have "v * 256 ^ Suc n \<le> (v * 256 + unat (data ! c)) * 256 ^ n" by (simp add: algebra_simps)
  ultimately show ?case by linarith
qed simp

lemma of_unat_byte: "of_nat (unat (b::u8)) = b"
  by simp

lemma der_length_form:
  assumes "der_length data c = Some (n, c')" "n \<le> 0xffff"
  shows "c' = c + length_size n \<and> c' \<le> length data \<and> take (length_size n) (drop c data) = tlv_length_bytes n"
proof -
  have "c < length data" using assms(1) by (auto simp: der_length_def split: if_splits)
  then obtain pre f r where d: "data = pre @ f # r" "c = length pre"
    by (metis id_take_nth_drop length_take less_imp_le_nat min.absorb2)
  show ?thesis
  proof (cases "unat f < 128")
    case True
    then show ?thesis using assms(1) d
      by (auto simp: der_length_def top_bit_nat nth_after Let_def length_size_def tlv_length_bytes_def)
  next
    case False
    define k where "k = unat f mod 128"
    have f: "unat f = 128 + k" by (rule long_form_octet [OF False k_def [symmetric]])
    have g: "k \<noteq> 0" "k \<le> 4" "k \<le> length r" "data ! Suc c \<noteq> 0" "length_more data k 0 (Suc c) = Some (n, c')" "128 \<le> n"
      using assms(1) d False by (auto simp: der_length_def top_bit_nat low_bits_nat k_def [symmetric] nth_after Let_def split: if_splits option.splits)
    obtain b r1 where r: "r = b # r1" using g(1,3) by (cases r) auto
    have b: "data ! Suc c = b" using d r by (simp add: nth_after)
    obtain j where j: "k = Suc j" using g(1) by (cases k) auto
    then have m: "length_more data j (unat b) (Suc (Suc c)) = Some (n, c')" using g(5) b by (simp split: if_splits)
    from length_more_ge [OF m] have ge: "unat b * 256 ^ j \<le> n" "c' = c + 2 + j" by auto
    have b0: "1 \<le> unat b" using g(4) b by (simp add: unat_gt_0 Suc_leI)
    have "j \<le> 1"
    proof (rule ccontr)
      assume "\<not> j \<le> 1"
      then have "256 ^ 2 \<le> (256::nat) ^ j" by (intro power_increasing) auto
      then have "65536 \<le> unat b * 256 ^ j" using mult_le_mono [OF b0, of "256 ^ 2" "256 ^ j"] by simp
      then show False using ge(1) assms(2) by linarith
    qed
    then consider "j = 0" | "j = 1" by linarith
    then show ?thesis
    proof cases
      case 1
      have "f = 0x81" using f j 1 by (simp add: word_unat_eq_iff)
      moreover have "n = unat b" using m 1 by simp
      ultimately show ?thesis using ge(2) 1 d r g(6) byte_lt [of b]
        by (simp add: length_size_def tlv_length_bytes_def)
    next
      case 2
      obtain e r2 where r1: "r1 = e # r2" using g(3) j 2 r by (cases r1) auto
      have e: "data ! Suc (Suc c) = e" using d r r1 by (simp add: nth_after)
      have "f = 0x82" using f j 2 by (simp add: word_unat_eq_iff)
      moreover have n: "n = unat b * 256 + unat e" using m 2 e by (simp split: if_splits)
      moreover have "n div 256 = unat b" using n byte_lt [of e] by simp
      moreover have "(of_nat n :: u8) = of_nat (unat e)" unfolding word_of_nat_eq_iff by (simp add: n take_bit_eq_mod)
      then have "of_nat n = e" by (simp only: of_unat_byte)
      ultimately show ?thesis using ge(2) 2 d r r1 b0 assms(2) by (simp add: length_size_def tlv_length_bytes_def numeral_3_eq_3)
    qed
  qed
qed

lemma length_bytes_size: "n \<le> 0xffff \<Longrightarrow> length (tlv_length_bytes n) = length_size n"
  by (simp add: tlv_length_bytes_def length_size_def)

lemma length_tag_bytes: "length (tlv_tag_bytes tag) = tag_size tag"
  by (simp add: tlv_tag_bytes_def)

lemma tag_val_bytes:
  assumes "tag_form (tlv_tag_bytes tag)"
  shows "tag_val (tlv_tag_bytes tag) = tag"
proof -
  have hi: "n < k" if "unat tag < 2 ^ k" "bit tag n" for k n
  proof (rule ccontr)
    assume "\<not> n < k"
    then have "unat tag < 2 ^ n" using that(1) by (meson less_le_trans one_le_numeral power_increasing not_less)
    then have "\<not> bit (unat tag) n" by (simp add: bit_iff_odd)
    then show False using that(2) by (simp add: bit_unsigned_iff)
  qed
  consider "tag \<le> 0xff" | "\<not> tag \<le> 0xff" "tag \<le> 0xffff" | "\<not> tag \<le> 0xffff" "tag \<le> 0xffffff"
    using assms by (auto simp: tlv_tag_bytes_def tag_size_def split: if_splits)
  then show ?thesis
  proof cases
    case 1
    then have "unat tag < 2 ^ 8" by (simp add: word_le_nat_alt)
    then have hi: "bit tag n \<Longrightarrow> n < 8" for n using hi by blast
    then show ?thesis using 1 by (auto simp: tlv_tag_bytes_def tag_size_def tag_val_def bit_eq_iff bit_simps dest: hi)
  next
    case 2
    then have "unat tag < 2 ^ 16" by (simp add: word_le_nat_alt)
    then have hi: "bit tag n \<Longrightarrow> n < 16" for n using hi by blast
    then show ?thesis using 2
      by (auto simp: tlv_tag_bytes_def tag_size_def upt_rec tag_val_def bit_eq_iff bit_simps not_less dest: hi)
  next
    case 3
    then have t: "unat tag < 2 ^ 24" "\<not> tag \<le> 0xff" by (simp_all add: word_le_nat_alt)
    then have hi: "bit tag n \<Longrightarrow> n < 24" for n using hi by blast
    have "tag_val [ucast (drop_bit 16 tag), ucast (drop_bit 8 tag), ucast tag] = tag"
    proof (rule bit_word_eqI)
      fix n assume "n < LENGTH(32)"
      consider "n < 8" | "8 \<le> n" "n < 16" | "16 \<le> n" by linarith
      then show "bit (tag_val [ucast (drop_bit 16 tag), ucast (drop_bit 8 tag), ucast tag]) n = bit tag n"
        using hi [of n] by cases (auto simp: tag_val_def bit_simps)
    qed
    then show ?thesis using 3 t(2) by (simp add: tlv_tag_bytes_def tag_size_def upt_rec)
  qed
qed

lemma next_reads:
  assumes "tag_form (tlv_tag_bytes tag)" "length v \<le> 0xffff"
  shows "ultrawidelock_cred_tlv_next (pre @ tlv_tag_bytes tag @ tlv_length_bytes (length v) @ v @ post) (length pre) =
    Tlv_Ok \<lparr>ct_tag = tag, ct_value = v, ct_encoded_length = tag_size tag + length_size (length v) + length v\<rparr>
      (length pre + (tag_size tag + length_size (length v) + length v))"
proof -
  let ?t = "tlv_tag_bytes tag" and ?l = "tlv_length_bytes (length v)"
  let ?d = "pre @ ?t @ ?l @ v @ post"
  have t: "der_tag ?d (length pre) = Some (tag, length pre + tag_size tag)"
    using der_tag_reads [OF assms(1), of pre "?l @ v @ post"] by (simp add: tag_val_bytes [OF assms(1)] length_tag_bytes)
  have l: "der_length ?d (length pre + tag_size tag) = Some (length v, length pre + tag_size tag + length_size (length v))"
    using der_length_reads [OF assms(2), of "pre @ ?t" "v @ post"] by (simp add: length_tag_bytes)
  have v: "take (length v) (drop (length pre + tag_size tag + length_size (length v)) ?d) = v"
    by (simp add: length_tag_bytes length_bytes_size [OF assms(2)])
  have "tag_size tag \<noteq> 0" using assms(1) length_tag_bytes [of tag] by (cases "tlv_tag_bytes tag") auto
  then show ?thesis
    unfolding ultrawidelock_cred_tlv_next_def t option.case prod.case l v
    by (simp add: length_tag_bytes length_bytes_size [OF assms(2)])
qed

lemma next_is_written:
  assumes "ultrawidelock_cred_tlv_next data offset = Tlv_Ok it offset'" "ct_tag it \<le> 0xffffff" "length (ct_value it) \<le> 0xffff"
  shows "offset' = offset + ct_encoded_length it \<and> offset' \<le> length data \<and>
    ultrawidelock_cred_tlv_write data offset (ct_tag it) (ct_value it) = Some (data, offset')"
proof -
  obtain tag c n c' where t: "der_tag data offset = Some (tag, c)" and l: "der_length data c = Some (n, c')"
    and o: "offset < length data" "n \<le> length data - c'"
    and it: "it = \<lparr>ct_tag = tag, ct_value = take n (drop c' data), ct_encoded_length = c' + n - offset\<rparr>" "offset' = c' + n"
    using assms(1) by (auto simp: ultrawidelock_cred_tlv_next_def split: if_splits option.splits prod.splits)
  have tag: "unat tag \<le> 0xffffff" using assms(2) it by (simp add: word_le_nat_alt)
  obtain octs where f: "tag_form octs" "tag = tag_val octs" "c = offset + length octs" "c \<le> length data"
    "take (length octs) (drop offset data) = octs"
    using der_tag_form [OF t o(1) tag] by blast
  have b: "tlv_tag_bytes tag = octs" "tag_size tag = length octs" using tag_bytes_of_val [OF f(1)] f(2) by auto
  have n: "n \<le> 0xffff"
  proof -
    have "c' \<le> length data \<or> n = 0" using o(2) by linarith
    then show ?thesis using assms(3) it o(2) by auto
  qed
  have g: "c' = c + length_size n" "c' \<le> length data" "take (length_size n) (drop c data) = tlv_length_bytes n"
    using der_length_form [OF l n] by auto
  have ln: "length (ct_value it) = n" using it o(2) g(2) by simp
  let ?e = "tlv_tag_bytes tag @ tlv_length_bytes n @ take n (drop c' data)"
  have e: "?e = take (length octs + length_size n + n) (drop offset data)"
  proof -
    have "drop (length octs) (drop offset data) = drop c data" "drop (length_size n) (drop c data) = drop c' data"
      using f(3) g(1) by (simp_all add: add.commute)
    then show ?thesis
      using take_add [of "length octs" "length_size n + n" "drop offset data"] take_add [of "length_size n" n "drop c data"] f(5) g(3) b(1)
      by (simp add: add.assoc)
  qed
  have sz: "ultrawidelock_cred_tlv_encoded_size tag n = length octs + length_size n + n"
    using b(2) f(1) n by (cases octs) (auto simp: ultrawidelock_cred_tlv_encoded_size_def Let_def length_size_def SIZE_MAX_def tag_size_def split: if_splits)
  have pos: "length octs \<noteq> 0" using f(1) by (cases octs) auto
  have fit: "offset + (length octs + length_size n + n) \<le> length data" using f(3) g(1,2) o(2) by linarith
  have "overwrite data offset ?e = data"
  proof -
    let ?m = "length octs + length_size n + n"
    have "take offset data @ take ?m (drop offset data) = take (offset + ?m) data" by (rule take_add [symmetric])
    moreover have "length (take ?m (drop offset data)) = ?m" using fit by simp
    ultimately have "overwrite data offset (take ?m (drop offset data)) = data"
      unfolding overwrite_def append.assoc [symmetric] by (simp only: append_take_drop_id)
    then show ?thesis by (simp only: e)
  qed
  then show ?thesis using it ln sz pos fit f(3) g(1) by (simp add: ultrawidelock_cred_tlv_write_def Let_def)
qed

text \<open>The strict reader and the writer are inverse: an item written into a buffer is read back from it with
  its tag and value and the same end, and every item the reader accepts, with a tag and a length the writer
  supports, is byte for byte what the writer would have written. So no value has two accepted encodings.\<close>

theorem der_codec_exact:
  "(case ultrawidelock_cred_tlv_write data offset tag v of None \<Rightarrow> True
    | Some (data', offset') \<Rightarrow> tag_form (tlv_tag_bytes tag) \<longrightarrow>
        ultrawidelock_cred_tlv_next data' offset = Tlv_Ok \<lparr>ct_tag = tag, ct_value = v, ct_encoded_length = offset' - offset\<rparr> offset') \<and>
   (case ultrawidelock_cred_tlv_next data offset of
      Tlv_Ok it offset' \<Rightarrow> ct_tag it \<le> 0xffffff \<and> length (ct_value it) \<le> 0xffff \<longrightarrow>
        offset' = offset + ct_encoded_length it \<and> offset' \<le> length data \<and>
        ultrawidelock_cred_tlv_write data offset (ct_tag it) (ct_value it) = Some (data, offset')
    | _ \<Rightarrow> True)"
proof (rule conjI)
  show "case ultrawidelock_cred_tlv_write data offset tag v of None \<Rightarrow> True
    | Some (data', offset') \<Rightarrow> tag_form (tlv_tag_bytes tag) \<longrightarrow>
        ultrawidelock_cred_tlv_next data' offset = Tlv_Ok \<lparr>ct_tag = tag, ct_value = v, ct_encoded_length = offset' - offset\<rparr> offset'"
  proof (cases "ultrawidelock_cred_tlv_write data offset tag v")
    case (Some r)
    obtain data' offset' where r: "r = (data', offset')" by fastforce
    let ?n = "ultrawidelock_cred_tlv_encoded_size tag (length v)"
    have n: "?n \<noteq> 0" "offset \<le> length data" "?n \<le> length data - offset" "offset' = offset + ?n"
      "data' = overwrite data offset (tlv_tag_bytes tag @ tlv_length_bytes (length v) @ v)"
      using Some r by (auto simp: ultrawidelock_cred_tlv_write_def Let_def split: if_splits)
    have len: "length v \<le> 0xffff" "?n = tag_size tag + length_size (length v) + length v"
      using n(1) by (auto simp: ultrawidelock_cred_tlv_encoded_size_def length_size_def Let_def split: if_splits)
    let ?post = "drop (offset + length (tlv_tag_bytes tag @ tlv_length_bytes (length v) @ v)) data"
    have d: "data' = take offset data @ tlv_tag_bytes tag @ tlv_length_bytes (length v) @ v @ ?post"
      using n(5) by (simp add: overwrite_def)
    have o: "length (take offset data) = offset" using n(2) by simp
    show ?thesis
      using next_reads [OF _ len(1), of tag "take offset data" ?post] Some r n(4) len(2) o d by auto
  qed simp
next
  show "case ultrawidelock_cred_tlv_next data offset of
      Tlv_Ok it offset' \<Rightarrow> ct_tag it \<le> 0xffffff \<and> length (ct_value it) \<le> 0xffff \<longrightarrow>
        offset' = offset + ct_encoded_length it \<and> offset' \<le> length data \<and>
        ultrawidelock_cred_tlv_write data offset (ct_tag it) (ct_value it) = Some (data, offset')
    | _ \<Rightarrow> True"
    using next_is_written [of data offset] by (simp split: tlv_next.split)
qed

theorem der_codec_exact_witness:
  "ultrawidelock_cred_tlv_write (replicate 8 0) 1 0x7f66 [1, 2] = Some ([0, 0x7f, 0x66, 2, 1, 2, 0, 0], 6) \<and>
   ultrawidelock_cred_tlv_next [0, 0x7f, 0x66, 2, 1, 2, 0, 0] 1 = Tlv_Ok \<lparr>ct_tag = 0x7f66, ct_value = [1, 2], ct_encoded_length = 5\<rparr> 6"
proof -
  have t: "tlv_tag_bytes 0x7f66 = [0x7f, 0x66]" by code_simp
  then have "tag_form (tlv_tag_bytes 0x7f66)" by simp
  moreover have "replicate 8 (0::u8) = [0, 0, 0, 0, 0, 0, 0, 0]" by (simp add: numeral_eq_Suc)
  then have "ultrawidelock_cred_tlv_write (replicate 8 0) 1 0x7f66 [1, 2] = Some ([0, 0x7f, 0x66, 2, 1, 2, 0, 0], 6)"
    by (simp add: ultrawidelock_cred_tlv_write_def ultrawidelock_cred_tlv_encoded_size_def tag_size_def length_size_def SIZE_MAX_def Let_def
        t tlv_length_bytes_def overwrite_def)
  ultimately show ?thesis using der_codec_exact [where data = "replicate 8 0" and offset = 1 and tag = "0x7f66" and v = "[1, 2]"] by simp
qed

end
