(* ===== verification/Cred_Channel.thy ===== *)
theory Cred_Channel
  imports Cred_Device Hash_Proofs Cred_Codec_Proofs
begin

text \<open>
  What the channels of the credential protocol promise: nonces never repeat, both ends understand each
  other, salts separate the derivations, and how far the initiator's handler can be trusted.
\<close>

section \<open>The primitives\<close>

text \<open>What the primitive seam documents: opening inverts sealing, key agreement is symmetric, a
  signature verifies under the public key of the key that made it, and lengths are fixed.\<close>

definition prim_ok :: "prim \<Rightarrow> bool" where
  "prim_ok P \<longleftrightarrow>
     (\<forall>k n a p c t. gcm_encrypt P k n a p = Some (c, t) \<longrightarrow>
        length c = length p \<and> length t = GCM_TAG_LEN \<and> gcm_decrypt P k n a c t = Some p) \<and>
     (\<forall>a b A B. ec_pub_from_priv P a = Some A \<longrightarrow> ec_pub_from_priv P b = Some B \<longrightarrow> ecdh P a B = ecdh P b A) \<and>
     (\<forall>k K m s. ec_pub_from_priv P k = Some K \<longrightarrow> ecdsa_sign P k m = Some s \<longrightarrow> ecdsa_verify P K m s \<and> length s = 64) \<and>
     (\<forall>k K. ec_pub_from_priv P k = Some K \<longrightarrow> length K = 65)"

text \<open>And that they are there: no call on inputs of the right size fails.\<close>

definition prim_up :: "prim \<Rightarrow> bool" where
  "prim_up P \<longleftrightarrow>
     (\<forall>k n a p. gcm_encrypt P k n a p \<noteq> None) \<and>
     (\<forall>k. length k = 32 \<longrightarrow> ec_pub_from_priv P k \<noteq> None) \<and>
     (\<forall>a b B. ec_pub_from_priv P b = Some B \<longrightarrow> ecdh P a B \<noteq> None) \<and>
     (\<forall>k m. ecdsa_sign P k m \<noteq> None)"

lemma prim_okD:
  assumes "prim_ok P"
  shows gcm_roundtrip: "gcm_encrypt P k n a p = Some (c, t) \<Longrightarrow> length c = length p \<and> length t = 16 \<and> gcm_decrypt P k n a c t = Some p"
    and ecdh_sym: "ec_pub_from_priv P x = Some X \<Longrightarrow> ec_pub_from_priv P y = Some Y \<Longrightarrow> ecdh P x Y = ecdh P y X"
    and sign_verifies: "ec_pub_from_priv P x = Some X \<Longrightarrow> ecdsa_sign P x m = Some s \<Longrightarrow> ecdsa_verify P X m s \<and> length s = 64"
    and pub_length: "ec_pub_from_priv P x = Some X \<Longrightarrow> length X = 65"
  using assms unfolding prim_ok_def by blast+

text \<open>A stand-in that satisfies both, for the witnesses: the cipher adds a constant tag, keys are their own coordinates.\<close>

definition toy_prim :: prim where
  "toy_prim =
     \<lparr>gcm_encrypt = (\<lambda>k n a p. Some (p, replicate 16 0)),
      gcm_decrypt = (\<lambda>k n a c t. if t = replicate 16 0 then Some c else None),
      ec_pub_from_priv = (\<lambda>k. if length k = 32 then Some (4 # k @ k) else None),
      ecdh = (\<lambda>a B. Some (map2 (XOR) a (take 32 (drop 1 B)))),
      ecdsa_sign = (\<lambda>k m. Some (take 64 (k @ k @ replicate 64 0))),
      ecdsa_verify = (\<lambda>K m s. s = drop 1 K)\<rparr>"

lemma toy_prim_ok: "prim_ok toy_prim" "prim_up toy_prim"
proof -
  have x: "map2 (XOR) (a::bytes) b = map2 (XOR) b a" for a b
    by (simp add: map2_map_map zip_commute [of a b] comp_def case_prod_beta xor.commute)
  show "prim_ok toy_prim"
    using x by (auto simp: prim_ok_def toy_prim_def split: if_splits)
  show "prim_up toy_prim" by (simp add: prim_up_def toy_prim_def)
qed

section \<open>Nonces\<close>

lemma gcm_nonce_layout: "ultrawidelock_crypto_gcm_nonce dir ctr = map (\<lambda>i. ucast (drop_bit (56 - i * 8) dir)) [0..<8] @ put_u32 ctr"
  by (simp add: ultrawidelock_crypto_gcm_nonce_def put_u32_def)

lemma gcm_nonce_inj: "ultrawidelock_crypto_gcm_nonce dir ctr = ultrawidelock_crypto_gcm_nonce dir' ctr' \<Longrightarrow> ctr = ctr'"
proof -
  assume "ultrawidelock_crypto_gcm_nonce dir ctr = ultrawidelock_crypto_gcm_nonce dir' ctr'"
  then have "put_u32 ctr @ [] = put_u32 ctr' @ []" by (simp add: gcm_nonce_layout)
  then show ?thesis using get_put_u32 [of ctr "[]"] get_put_u32 [of ctr' "[]"] by metis
qed

lemma length_gcm_nonce [simp]: "length (ultrawidelock_crypto_gcm_nonce dir ctr) = GCM_NONCE_LEN"
  by (simp add: ultrawidelock_crypto_gcm_nonce_def)

text \<open>The operations of one channel, with the nonce an encryption used.\<close>

datatype chan_op = Op_Seal bytes bytes | Op_Open bytes bytes bytes

fun chan_step :: "prim \<Rightarrow> secchan \<Rightarrow> chan_op \<Rightarrow> secchan \<times> bytes option" where
  "chan_step P sc (Op_Seal aad pt) =
     (case ultrawidelock_secchan_seal P sc aad pt of
        (sc', None) \<Rightarrow> (sc', None) | (sc', Some _) \<Rightarrow> (sc', Some (ultrawidelock_crypto_gcm_nonce 0 (sc_enc_ctr sc))))"
| "chan_step P sc (Op_Open aad ct tag) = (fst (ultrawidelock_secchan_open P sc aad ct tag), None)"

definition nonce_spent :: "secchan \<Rightarrow> bytes \<Rightarrow> bool" where
  "nonce_spent sc n \<longleftrightarrow> (\<exists>c. c < sc_enc_ctr sc \<and> n = ultrawidelock_crypto_gcm_nonce 0 c)"

lemma below_max: "(c::u32) \<noteq> 0xffffffff \<Longrightarrow> c < c + 1"
proof -
  assume "c \<noteq> 0xffffffff"
  then have "unat c \<noteq> unat (0xffffffff::u32)" by (metis word_unat_eq_iff)
  moreover have "unat c < 2 ^ LENGTH(32)" by (rule unsigned_less)
  ultimately have "unat c < 0xffffffff" by simp
  then show ?thesis by (simp add: word_less_nat_alt unat_word_ariths)
qed

lemma chan_step_cases:
  "(fst (chan_step P sc op) = sc \<or> sc_enc_ctr (fst (chan_step P sc op)) = sc_enc_ctr sc) \<and> snd (chan_step P sc op) = None \<or>
   sc_enc_ctr sc \<noteq> 0xffffffff \<and> sc_enc_ctr (fst (chan_step P sc op)) = sc_enc_ctr sc + 1 \<and>
     snd (chan_step P sc op) = Some (ultrawidelock_crypto_gcm_nonce 0 (sc_enc_ctr sc))"
  by (cases op) (auto simp: ultrawidelock_secchan_seal_def ultrawidelock_secchan_open_def split: option.split)

interpretation nonces: once_only "chan_step P" "\<lambda>_. True" "\<lambda>out. out" nonce_spent for P
proof
  fix sc :: secchan and n and op
  show "nonce_spent sc n \<Longrightarrow> nonce_spent (fst (chan_step P sc op)) n"
  proof -
    assume "nonce_spent sc n"
    then obtain c where "c < sc_enc_ctr sc" "n = ultrawidelock_crypto_gcm_nonce 0 c" by (auto simp: nonce_spent_def)
    moreover have "sc_enc_ctr sc \<le> sc_enc_ctr (fst (chan_step P sc op))"
      using chan_step_cases [of P sc op] below_max [of "sc_enc_ctr sc"] by auto
    ultimately show ?thesis unfolding nonce_spent_def by (metis order.strict_trans2)
  qed
  show "nonce_spent sc n \<Longrightarrow> snd (chan_step P sc op) \<noteq> Some n"
    using chan_step_cases [of P sc op] by (auto simp: nonce_spent_def dest: gcm_nonce_inj)
  show "snd (chan_step P sc op) = Some n \<Longrightarrow> nonce_spent (fst (chan_step P sc op)) n"
    using chan_step_cases [of P sc op] by (auto simp: nonce_spent_def dest: below_max)
qed simp


section \<open>Both ends understand each other\<close>

definition mirrored :: "secchan \<Rightarrow> dev_secchan \<Rightarrow> bool" where
  "mirrored sc ch \<longleftrightarrow> ds_s0 ch = sc_enc_key sc \<and> ds_s1 ch = sc_dec_key sc \<and> ds_ctr_r2d ch = sc_enc_ctr sc \<and> ds_ctr_d2r ch = sc_dec_ctr sc"

definition frame_ok :: "nat \<Rightarrow> bytes \<Rightarrow> bool" where
  "frame_ok cap m \<longleftrightarrow> 4 \<le> length m \<and> unat (m ! 2) * 256 + unat (m ! 3) = length m - 4 \<and> length m + GCM_TAG_LEN \<le> cap"

lemma wire_len_bytes:
  assumes "n \<le> 0xffff"
  shows "unat (ucast (drop_bit 8 (of_nat n :: u16)) :: u8) * 256 + unat (ucast (of_nat n :: u16) :: u8) = n"
proof -
  let ?w = "of_nat n :: u16"
  have u: "unat ?w = n" using assms by (simp add: unsigned_of_nat take_bit_eq_mod)
  have "unat (ucast (drop_bit 8 ?w) :: u8) = take_bit 8 (drop_bit 8 (take_bit 16 (unat ?w)))" "unat (ucast ?w :: u8) = take_bit 8 (unat ?w)"
    by (simp_all only: unsigned_ucast_eq unsigned_drop_bit_eq) simp_all
  then show ?thesis using assms by (simp only: u) (simp add: take_bit_eq_mod drop_bit_eq_div)
qed

text \<open>A well-formed message is a header that carries its length, and a body.\<close>

lemma frame_split:
  assumes "frame_ok cap m"
  obtains a b r where "m = [a, b, of_nat (length r div 256), of_nat (length r)] @ r"
    "unat (of_nat (length r div 256) :: u8) * 256 + unat (of_nat (length r) :: u8) = length r" "length r + 20 \<le> cap"
proof -
  obtain a b c d r where m: "m = a # b # c # d # r"
    using assms by (auto simp: frame_ok_def Suc_le_length_iff numeral_eq_Suc)
  have l: "length r = unat c * 256 + unat d" using assms m by (simp add: frame_ok_def)
  have "length r div 256 = unat c" using l byte_lt [of d] by simp
  moreover have "(of_nat (length r) :: u8) = of_nat (unat d)"
    unfolding word_of_nat_eq_iff by (simp add: l take_bit_eq_mod)
  ultimately have c: "of_nat (length r div 256) = c" "of_nat (length r) = d" by (simp_all only: of_unat_byte)
  show thesis
  proof (rule that)
    show "m = [a, b, of_nat (length r div 256), of_nat (length r)] @ r" unfolding c using m by simp
    show "unat (of_nat (length r div 256) :: u8) * 256 + unat (of_nat (length r) :: u8) = length r" unfolding c using l by simp
    show "length r + 20 \<le> cap" using assms m by (simp add: frame_ok_def)
  qed
qed

lemma drop_frame: "drop (4 + length c) (a # b # x # y # c @ t) = t"
  using drop_drop [of "length c" 4 "a # b # x # y # c @ t"] by (simp add: add.commute)

lemma dev_open_frame:
  assumes "unat hi * 256 + unat lo = length c + 16" "length t = 16" "4 + length c \<le> cap"
  shows "ultrawidelock_dev_ble_open P ch ([a, b, hi, lo] @ c @ t) cap =
    (case gcm_decrypt P (ds_s0 ch) (ultrawidelock_crypto_gcm_nonce 0 (ds_ctr_r2d ch)) [a, b, of_nat (length c div 256), of_nat (length c)] c t of
       None \<Rightarrow> (ch, None)
     | Some pt \<Rightarrow> (ch\<lparr>ds_ctr_r2d := ds_ctr_r2d ch + 1\<rparr>, Some ([a, b, of_nat (length c div 256), of_nat (length c)] @ pt)))"
  using assms by (simp add: ultrawidelock_dev_ble_open_def Let_def drop_frame)

lemma msg_open_frame:
  assumes "unat hi * 256 + unat lo = length c + 16" "length t = 16" "4 + length c \<le> cap"
  shows "ultrawidelock_msg_open P sc ([a, b, hi, lo] @ c @ t) cap =
    (case ultrawidelock_secchan_open P sc [a, b, of_nat (length c div 256), of_nat (length c)] c t of
       (sc', None) \<Rightarrow> (sc', None)
     | (sc', Some pt) \<Rightarrow> (sc', Some ([a, b, of_nat (length c div 256), of_nat (length c)] @ pt)))"
  using assms by (simp add: ultrawidelock_msg_open_def Let_def drop_frame split: prod.split option.split)

lemma to_device:
  assumes "prim_ok P" "mirrored sc ch" "frame_ok cap m" "cap \<le> 0xffff + 4" "ultrawidelock_msg_seal P sc m cap = (sc', Some w)"
  shows "\<exists>ch'. ultrawidelock_dev_ble_open P ch w cap = (ch', Some m) \<and> mirrored sc' ch'"
proof -
  obtain a b r where m: "m = [a, b, of_nat (length r div 256), of_nat (length r)] @ r" and r: "length r + 20 \<le> cap"
    using frame_split [OF assms(3)] by metis
  let ?h = "[a, b, of_nat (length r div 256), of_nat (length r)] :: bytes" and ?wl = "of_nat (length r + 16) :: u16"
  obtain c t where e: "gcm_encrypt P (sc_enc_key sc) (ultrawidelock_crypto_gcm_nonce 0 (sc_enc_ctr sc)) ?h r = Some (c, t)"
    and sc': "sc' = sc\<lparr>sc_enc_ctr := sc_enc_ctr sc + 1\<rparr>" and w: "w = [a, b, ucast (drop_bit 8 ?wl), ucast ?wl] @ c @ t"
    using assms(5) m by (auto simp: ultrawidelock_msg_seal_def ultrawidelock_secchan_seal_def Let_def split: if_splits option.splits prod.splits)
  note g = gcm_roundtrip [OF assms(1) e]
  have "unat (ucast (drop_bit 8 ?wl) :: u8) * 256 + unat (ucast ?wl :: u8) = length c + 16"
    using wire_len_bytes [of "length r + 16"] r assms(4) g by simp
  from dev_open_frame [OF this, of t cap P ch a b] show ?thesis
    using g r assms(2) sc' m unfolding w by (simp add: mirrored_def)
qed

lemma to_reader:
  assumes "prim_ok P" "mirrored sc ch" "frame_ok cap m" "cap \<le> 0xffff + 4" "ultrawidelock_dev_ble_seal P ch m cap = (ch', Some w)"
    "sc_dec_ctr sc \<noteq> 0xffffffff"
  shows "\<exists>sc'. ultrawidelock_msg_open P sc w cap = (sc', Some m) \<and> mirrored sc' ch'"
proof -
  obtain a b r where m: "m = [a, b, of_nat (length r div 256), of_nat (length r)] @ r" and r: "length r + 20 \<le> cap"
    using frame_split [OF assms(3)] by metis
  let ?h = "[a, b, of_nat (length r div 256), of_nat (length r)] :: bytes" and ?wl = "of_nat (length r + 16) :: u16"
  obtain c t where e: "gcm_encrypt P (ds_s1 ch) (ultrawidelock_crypto_gcm_nonce 1 (ds_ctr_d2r ch)) ?h r = Some (c, t)"
    and ch': "ch' = ch\<lparr>ds_ctr_d2r := ds_ctr_d2r ch + 1\<rparr>" and w: "w = [a, b, ucast (drop_bit 8 ?wl), ucast ?wl] @ c @ t"
    using assms(5) m by (auto simp: ultrawidelock_dev_ble_seal_def Let_def split: if_splits option.splits prod.splits)
  note g = gcm_roundtrip [OF assms(1) e]
  have "unat (ucast (drop_bit 8 ?wl) :: u8) * 256 + unat (ucast ?wl :: u8) = length c + 16"
    using wire_len_bytes [of "length r + 16"] r assms(4) g by simp
  from msg_open_frame [OF this, of t cap P sc a b] show ?thesis
    using g r assms(2,6) ch' m unfolding w by (simp add: mirrored_def ultrawidelock_secchan_open_def)
qed

text \<open>Messages that cross the ranging channel, one at a time, in either direction.\<close>

datatype ble_send = To_Device bytes | To_Reader bytes

fun ble_content :: "ble_send \<Rightarrow> bytes" where
  "ble_content (To_Device m) = m"
| "ble_content (To_Reader m) = m"

fun ble_cross :: "prim \<Rightarrow> nat \<Rightarrow> secchan \<times> dev_secchan \<Rightarrow> ble_send \<Rightarrow> (secchan \<times> dev_secchan) \<times> bytes option" where
  "ble_cross P cap (sc, ch) (To_Device m) =
     (case ultrawidelock_msg_seal P sc m cap of
        (sc', None) \<Rightarrow> ((sc', ch), None)
      | (sc', Some w) \<Rightarrow> (case ultrawidelock_dev_ble_open P ch w cap of (ch', r) \<Rightarrow> ((sc', ch'), r)))"
| "ble_cross P cap (sc, ch) (To_Reader m) =
     (case ultrawidelock_dev_ble_seal P ch m cap of
        (ch', None) \<Rightarrow> ((sc, ch'), None)
      | (ch', Some w) \<Rightarrow> (case ultrawidelock_msg_open P sc w cap of (sc', r) \<Rightarrow> ((sc', ch'), r)))"

definition ctrs_left :: "secchan \<Rightarrow> nat \<Rightarrow> bool" where
  "ctrs_left sc n \<longleftrightarrow> unat (sc_enc_ctr sc) + n \<le> 0xffffffff \<and> unat (sc_dec_ctr sc) + n \<le> 0xffffffff"

lemma ctr_up: "unat (c::u32) + Suc n \<le> 0xffffffff \<Longrightarrow> c \<noteq> 0xffffffff \<and> unat (c + 1) + n \<le> 0xffffffff"
  by (auto simp: unat_word_ariths word_unat_eq_iff)

lemma ble_cross_delivers:
  assumes "prim_ok P" "prim_up P" "mirrored sc ch" "frame_ok cap (ble_content s)" "cap \<le> 0xffff + 4" "ctrs_left sc (Suc n)"
  shows "\<exists>sc' ch'. ble_cross P cap (sc, ch) s = ((sc', ch'), Some (ble_content s)) \<and> mirrored sc' ch' \<and> ctrs_left sc' n"
proof (cases s)
  case (To_Device m)
  have ne: "sc_enc_ctr sc \<noteq> 0xffffffff" and up: "ctrs_left (sc\<lparr>sc_enc_ctr := sc_enc_ctr sc + 1\<rparr>) n"
    using assms(6) ctr_up [of "sc_enc_ctr sc" n] by (auto simp: ctrs_left_def)
  have f: "frame_ok cap m" using assms(4) To_Device by simp
  obtain c t where "gcm_encrypt P (sc_enc_key sc) (ultrawidelock_crypto_gcm_nonce 0 (sc_enc_ctr sc)) (take 4 m) (drop 4 m) = Some (c, t)"
    using assms(2) unfolding prim_up_def by fastforce
  then obtain w where w: "ultrawidelock_msg_seal P sc m cap = (sc\<lparr>sc_enc_ctr := sc_enc_ctr sc + 1\<rparr>, Some w)"
    using ne f by (simp add: ultrawidelock_msg_seal_def ultrawidelock_secchan_seal_def Let_def frame_ok_def)
  then show ?thesis using to_device [OF assms(1,3) f assms(5) w] up To_Device by auto
next
  case (To_Reader m)
  have ne: "sc_dec_ctr sc \<noteq> 0xffffffff" using assms(6) ctr_up [of "sc_dec_ctr sc" n] by (auto simp: ctrs_left_def)
  have f: "frame_ok cap m" using assms(4) To_Reader by simp
  obtain c t where "gcm_encrypt P (ds_s1 ch) (ultrawidelock_crypto_gcm_nonce 1 (ds_ctr_d2r ch)) (take 4 m) (drop 4 m) = Some (c, t)"
    using assms(2) unfolding prim_up_def by fastforce
  then obtain ch' w where w: "ultrawidelock_dev_ble_seal P ch m cap = (ch', Some w)"
    using f by (simp add: ultrawidelock_dev_ble_seal_def Let_def frame_ok_def)
  obtain sc' where r: "ultrawidelock_msg_open P sc w cap = (sc', Some m)" "mirrored sc' ch'"
    using to_reader [OF assms(1,3) f assms(5) w ne] by blast
  have "sc' = sc\<lparr>sc_dec_ctr := sc_dec_ctr sc + 1\<rparr>"
    using r(1) by (auto simp: ultrawidelock_msg_open_def ultrawidelock_secchan_open_def Let_def split: if_splits option.splits)
  then have "ctrs_left sc' n" using assms(6) ctr_up [of "sc_dec_ctr sc" n] by (auto simp: ctrs_left_def)
  then show ?thesis using r w To_Reader by auto
qed

text \<open>C33: The ranging channel delivers: between a reader and a device that derived the same keys, every
  well-formed message that fits the buffers arrives exactly as it was sent, in any mix of directions, and
  the counters of both ends stay together.\<close>

theorem ranging_channel_delivers:
  assumes "prim_ok P" "prim_up P" "mirrored sc ch" "\<forall>s\<in>set sends. frame_ok cap (ble_content s)" "cap \<le> 0xffff + 4"
    "ctrs_left sc (length sends)"
  shows "snd (run_steps (ble_cross P cap) (sc, ch) sends) = map (\<lambda>s. Some (ble_content s)) sends \<and>
         (case fst (run_steps (ble_cross P cap) (sc, ch) sends) of (sc', ch') \<Rightarrow> mirrored sc' ch')"
  using assms(3,4,6)
proof (induction sends arbitrary: sc ch)
  case (Cons s sends)
  have f: "frame_ok cap (ble_content s)" "ctrs_left sc (Suc (length sends))" using Cons.prems by auto
  obtain sc' ch' where "ble_cross P cap (sc, ch) s = ((sc', ch'), Some (ble_content s))" "mirrored sc' ch'" "ctrs_left sc' (length sends)"
    using ble_cross_delivers [OF assms(1,2) Cons.prems(1) f(1) assms(5) f(2)] by blast
  then show ?case using Cons.IH [of sc' ch'] Cons.prems(2) by (simp add: split_beta Let_def)
qed simp

theorem ranging_channel_delivers_witness:
  "snd (run_steps (ble_cross toy_prim 64) (ultrawidelock_secchan_init (replicate 32 1) (replicate 32 2), ultrawidelock_dev_secchan_init (replicate 32 1) (replicate 32 2))
     [To_Device [2, 4, 0, 1, 9], To_Reader [3, 5, 0, 2, 7, 8]]) = [Some [2, 4, 0, 1, 9], Some [3, 5, 0, 2, 7, 8]]"
  using ranging_channel_delivers [OF toy_prim_ok, of "ultrawidelock_secchan_init (replicate 32 1) (replicate 32 2)"
      "ultrawidelock_dev_secchan_init (replicate 32 1) (replicate 32 2)" "[To_Device [2, 4, 0, 1, 9], To_Reader [3, 5, 0, 2, 7, 8]]" 64]
  by (simp add: mirrored_def ultrawidelock_secchan_init_def ultrawidelock_dev_secchan_init_def frame_ok_def ctrs_left_def)

section \<open>Salts\<close>

lemma salt_append_pair: "salt_append (out, bad) p = (if length out + length p > SALT_MAX then (out, True) else (out @ p, bad))"
  by (simp add: salt_append_def)

lemma salt_appends: "\<not> snd (foldl salt_append (out, bad) parts) \<Longrightarrow> fst (foldl salt_append (out, bad) parts) = out @ concat parts \<and> \<not> bad"
proof (induction parts arbitrary: out bad)
  case (Cons p parts)
  show ?case
  proof (cases "length out + length p > SALT_MAX")
    case True
    then show ?thesis using Cons.IH [of out True] Cons.prems by (simp add: salt_append_pair)
  next
    case False
    then show ?thesis using Cons.IH [of "out @ p" bad] Cons.prems by (cases bad) (simp_all add: salt_append_pair)
  qed
qed simp

definition salt_label :: "salt_type \<Rightarrow> bytes" where
  "salt_label type = take 12 (drop (salt_type_val type * 12) k_salt_label)"

lemma salt_labels: "length (salt_label type) = 12" "salt_label type = salt_label type' \<longleftrightarrow> type = type'"
  by (cases type; simp add: salt_label_def k_salt_label_def)
    (cases type; cases type'; simp add: salt_label_def k_salt_label_def)

definition salt_tail :: "salt_type \<Rightarrow> bytes option \<Rightarrow> bytes \<Rightarrow> bytes" where
  "salt_tail type s3opt a5 = a5 @ (case s3opt of Some x \<Rightarrow> if type \<noteq> SALT_SESSION then x else [] | None \<Rightarrow> [])"

lemma salt_layout:
  assumes "ultrawidelock_salt_build type txid s1 rv rid ifc ver ph pol s3 a5 = Some s"
  shows "s = s1 @ salt_label type @ rid @ [ifc] @ k_salt_const @ put_u16 ver @ rv @ txid @ [ph, pol] @ salt_tail type s3 a5"
proof -
  let ?parts = "[s1, salt_label type, rid, [ifc], k_salt_const, put_u16 ver, rv, txid, [ph, pol]] @
    (if a5 \<noteq> [] then [a5] else []) @ (case s3 of Some x \<Rightarrow> if type \<noteq> SALT_SESSION then [x] else [] | None \<Rightarrow> [])"
  let ?st = "foldl salt_append ([], False) ?parts"
  have b: "ultrawidelock_salt_build type txid s1 rv rid ifc ver ph pol s3 a5 = (if snd ?st then None else Some (fst ?st))"
    by (cases s3) (simp_all add: ultrawidelock_salt_build_def salt_label_def Let_def)
  then have "\<not> snd ?st" "s = fst ?st" using assms by (auto split: if_splits)
  then have "s = concat ?parts" using salt_appends [of "[]" False ?parts] by simp
  then show ?thesis by (cases s3) (simp_all add: salt_tail_def)
qed

text \<open>Salts separate: two salts with the same bytes belong to the same derivation and agree in the group key,
  the reader, the transport, the version, the ephemeral key, the transaction, the phase and policy bytes and the tail. In
  particular the keys of the fast phase, the session and the persistent key never share a salt.\<close>

theorem salt_determines_derivation:
  assumes "ultrawidelock_salt_build type txid s1 rv rid ifc ver ph pol s3 a5 = Some s"
    and "ultrawidelock_salt_build type' txid' s1' rv' rid' ifc' ver' ph' pol' s3' a5' = Some s"
    and "length s1 = 32" "length rid = 32" "length rv = 32" "length txid = 16"
    and "length s1' = 32" "length rid' = 32" "length rv' = 32" "length txid' = 16"
  shows "type = type' \<and> s1 = s1' \<and> rid = rid' \<and> ifc = ifc' \<and> ver = ver' \<and> rv = rv' \<and> txid = txid' \<and> ph = ph' \<and> pol = pol' \<and>
         salt_tail type s3 a5 = salt_tail type' s3' a5'"
proof -
  have "s1 @ salt_label type @ rid @ [ifc] @ k_salt_const @ put_u16 ver @ rv @ txid @ [ph, pol] @ salt_tail type s3 a5 =
        s1' @ salt_label type' @ rid' @ [ifc'] @ k_salt_const @ put_u16 ver' @ rv' @ txid' @ [ph', pol'] @ salt_tail type' s3' a5'"
    using salt_layout [OF assms(1)] salt_layout [OF assms(2)] by simp
  then have "s1 = s1'" "salt_label type = salt_label type'" "rid = rid'" "ifc = ifc'" "put_u16 ver = put_u16 ver'" "rv = rv'" "txid = txid'"
    "ph = ph'" "pol = pol'" "salt_tail type s3 a5 = salt_tail type' s3' a5'"
    using assms(3-) salt_labels(1) by (auto simp: append_eq_append_conv)
  then show ?thesis using salt_labels(2) get_put_u16 [of ver "[]"] get_put_u16 [of ver' "[]"] by (metis append_Nil2)
qed

theorem salt_determines_derivation_witness:
  "ultrawidelock_salt_build SALT_SESSION (replicate 16 1) (replicate 32 2) (replicate 32 3) (replicate 32 4) IFACE_BLE 0x0100 0 1 None k_a5_csa_v1 \<noteq>
   ultrawidelock_salt_build SALT_KPERSISTENT (replicate 16 1) (replicate 32 2) (replicate 32 3) (replicate 32 4) IFACE_BLE 0x0100 0 1 None k_a5_csa_v1"
proof
  assume eq: "ultrawidelock_salt_build SALT_SESSION (replicate 16 1) (replicate 32 2) (replicate 32 3) (replicate 32 4) IFACE_BLE 0x0100 0 1 None k_a5_csa_v1 =
    ultrawidelock_salt_build SALT_KPERSISTENT (replicate 16 1) (replicate 32 2) (replicate 32 3) (replicate 32 4) IFACE_BLE 0x0100 0 1 None k_a5_csa_v1"
  have "ultrawidelock_salt_build SALT_SESSION (replicate 16 1) (replicate 32 2) (replicate 32 3) (replicate 32 4) IFACE_BLE 0x0100 0 1 None k_a5_csa_v1 \<noteq> None"
    by (simp add: ultrawidelock_salt_build_def salt_append_def Let_def k_salt_label_def k_salt_const_def k_a5_csa_v1_def)
  then obtain s where s: "ultrawidelock_salt_build SALT_SESSION (replicate 16 1) (replicate 32 2) (replicate 32 3) (replicate 32 4) IFACE_BLE 0x0100 0 1 None k_a5_csa_v1 = Some s"
    by blast
  have "SALT_SESSION = SALT_KPERSISTENT" using salt_determines_derivation [OF s eq [symmetric, unfolded s]] by simp
  then show False by simp
qed

section \<open>The initiator\<close>

lemma unwrap_wrap: "ultrawidelock_apdu_wrap ins tlv n = Some cmd \<Longrightarrow> ultrawidelock_apdu_unwrap cmd = Some (ins, tlv)"
proof -
  assume a: "ultrawidelock_apdu_wrap ins tlv n = Some cmd"
  then have "unat (of_nat (length tlv) :: u8) = length tlv"
    by (auto simp: ultrawidelock_apdu_wrap_def unsigned_of_nat take_bit_eq_mod split: if_splits)
  then show ?thesis using a by (auto simp: ultrawidelock_apdu_wrap_def ultrawidelock_apdu_unwrap_def Let_def split: if_splits)
qed

text \<open>C38: The initiator does not check that commands come in order: a fresh device answers an EXCHANGE command that
  anyone can make, sealed under the all-zero key of its unset channel, and takes the session for
  established without having verified any reader.\<close>

theorem initiator_establishes_unverified:
  assumes "prim_ok P" "prim_up P" and "ultrawidelock_device_init P priv rid rpub = Some d"
    and "gcm_encrypt P (replicate 32 0) (ultrawidelock_crypto_gcm_nonce 0 0) [] body = Some (c, t)" "length body \<le> 64"
    and "ultrawidelock_apdu_wrap INS_EXCHANGE (c @ t) n = Some cmd" and "22 \<le> cap"
  shows "dv_phase (fst (ultrawidelock_device_on_command P keygen d cmd cap)) = DEV_ESTABLISHED \<and>
         dv_ursk (fst (ultrawidelock_device_on_command P keygen d cmd cap)) = replicate 32 0"
proof -
  note g = gcm_roundtrip [OF assms(1,4)]
  have d: "dv_sc d = dev_secchan_zero" "dv_ursk d = replicate 32 0"
    using assms(3) by (auto simp: ultrawidelock_device_init_def split: option.splits)
  have u: "ultrawidelock_apdu_unwrap cmd = Some (INS_EXCHANGE, c @ t)" by (rule unwrap_wrap [OF assms(6)])
  have o: "ultrawidelock_dev_secchan_open P dev_secchan_zero c t = (dev_secchan_zero\<lparr>ds_ctr_r2d := 1\<rparr>, Some body)"
    using g by (simp add: ultrawidelock_dev_secchan_open_def dev_secchan_zero_def)
  obtain c' t' where e: "gcm_encrypt P (replicate 32 0) (ultrawidelock_crypto_gcm_nonce 1 0) [] [0, 2, 0, 0] = Some (c', t')"
    using assms(2) unfolding prim_up_def by fastforce
  note g' = gcm_roundtrip [OF assms(1) e]
  have z: "put_u16 0 = [0, 0]" by (simp add: put_u16_def)
  have "length (c @ t) - 16 = length c" "length (c @ t) \<ge> 16" "length c \<le> 64" using g assms(5) by auto
  then show ?thesis
    using u o g d e g' assms(7)
    by (simp add: ultrawidelock_device_on_command_def dev_on_exchange_def Let_def ultrawidelock_dev_build_exchange_resp_def dev_reply_def
        ultrawidelock_dev_secchan_seal_def dev_secchan_zero_def ultrawidelock_apdu_append_sw_def z)
qed

theorem initiator_establishes_unverified_witness:
  "(case ultrawidelock_device_init toy_prim (replicate 32 5) (replicate 32 6) (4 # replicate 64 7) of
      Some d \<Rightarrow> dv_phase (fst (ultrawidelock_device_on_command toy_prim None d ([0x80, INS_EXCHANGE, 0, 0, 16] @ replicate 16 0 @ [0]) 64)) = DEV_ESTABLISHED
    | None \<Rightarrow> False)"
proof -
  obtain d where d: "ultrawidelock_device_init toy_prim (replicate 32 5) (replicate 32 6) (4 # replicate 64 7) = Some d"
    by (simp add: ultrawidelock_device_init_def toy_prim_def)
  have e: "gcm_encrypt toy_prim (replicate 32 0) (ultrawidelock_crypto_gcm_nonce 0 0) [] [] = Some ([], replicate 16 0)"
    by (simp add: toy_prim_def)
  have w: "ultrawidelock_apdu_wrap INS_EXCHANGE ([] @ replicate 16 0) 64 = Some ([0x80, INS_EXCHANGE, 0, 0, 16] @ replicate 16 0 @ [0])"
    by (simp add: ultrawidelock_apdu_wrap_def)
  show ?thesis using initiator_establishes_unverified [OF toy_prim_ok d e _ w] d by simp
qed

end
