(* ===== verification/Reader_Revoke.thy ===== *)
theory Reader_Revoke
  imports Reader_Run Cred_Channel
begin

text \<open>
  Revocation at the reader. The loops that remove credentials by name, by user and by type are shown to be
  filters on the abstract trust store, and a removal is shown to be live whatever the key-value store
  answers and written by the first write that lands.
\<close>

section \<open>An environment\<close>

text \<open>One in which everything works, on the stand-in primitives; for the witnesses.\<close>

definition calm_env :: renv where
  "calm_env = \<lparr>en_now = 0, en_uptime = 0, en_keygen = Some (replicate 32 3, 4 # replicate 64 3), en_random = Some (replicate 16 9),
     en_send = (\<lambda>_ _. True), en_start = (\<lambda>_ _ _. True), en_engine = (\<lambda>_ _. ([], False, True)), en_range_age = None,
     en_load = (KV_OK, KV_OK), en_store = (KV_OK, KV_OK, None)\<rparr>"

definition calm_build :: reader_build where
  "calm_build = \<lparr>rb_prim = toy_prim, rb_dev_trust = False, rb_gate_cfg = rssi_gate_cfg_default\<rparr>"

section \<open>What is stored\<close>

definition stored :: "reader \<Rightarrow> bool" where
  "stored r \<longleftrightarrow> ultrawidelock_prov_load KV_OK KV_OK (rd_kv r) = ((rd_id r, rd_trust r), 0)"

lemma write_lands:
  assumes "ts_clean ts" "id_ok idt" "prov_write E r idt ts = (r', rc)"
  shows "r' = r\<lparr>rd_kv := rd_kv r'\<rparr>"
    and "rc = 0 \<Longrightarrow> ultrawidelock_prov_load KV_OK KV_OK (rd_kv r') = ((idt, ts), 0)"
    and "rc \<noteq> 0 \<Longrightarrow> rc < 0"
    and "fst (en_store E) = KV_OK \<Longrightarrow> fst (snd (en_store E)) = KV_OK \<Longrightarrow> rc = 0"
proof -
  have need: "prov_need (ts_count ts) (ts_issuer_count ts) \<le> PROV_BLOB_MAX"
    using ts_cleanD(2,6) [OF assms(1)] by (simp add: prov_need_def)
  obtain b where b: "ultrawidelock_prov_serialize idt ts PROV_BLOB_MAX = Some b" "ultrawidelock_prov_deserialize b = Some (idt, ts)" "length b \<le> PROV_BLOB_MAX"
    using prov_roundtrip [OF assms(1,2) need] need by auto
  have e: "prov_errno k = 0 \<or> prov_errno k < 0" "prov_errno k = 0 \<longleftrightarrow> k = KV_OK" for k by (cases k; simp)+
  obtain i s l where k: "en_store E = (i, s, l)" by (cases "en_store E")
  have w: "r' = r\<lparr>rd_kv := fst (ultrawidelock_prov_store i (s, l) idt ts (rd_kv r))\<rparr>" "rc = snd (ultrawidelock_prov_store i (s, l) idt ts (rd_kv r))"
    using assms(3) by (simp_all add: prov_write_def k case_prod_beta)
  show "r' = r\<lparr>rd_kv := rd_kv r'\<rparr>" by (simp add: w)
  have p: "ultrawidelock_prov_store i (s, l) idt ts (rd_kv r) =
      (if i \<noteq> KV_OK then (rd_kv r, prov_errno i) else if s = KV_OK then (Some b, 0) else (l, prov_errno s))"
    using b by (cases s) (simp_all add: ultrawidelock_prov_store_def)
  show "rc = 0 \<Longrightarrow> ultrawidelock_prov_load KV_OK KV_OK (rd_kv r') = ((idt, ts), 0)"
    using b e by (auto simp: w p ultrawidelock_prov_load_def kv_get_def split: if_splits)
  show "rc \<noteq> 0 \<Longrightarrow> rc < 0" using e by (auto simp: w p split: if_splits)
  show "fst (en_store E) = KV_OK \<Longrightarrow> fst (snd (en_store E)) = KV_OK \<Longrightarrow> rc = 0" using p by (auto simp: w k)
qed

lemma flush_outcome:
  assumes "ts_clean (rd_trust r)" "id_ok (rd_id r)" "flush_pending_store E r = (r', rc)"
  shows "rd_trust r' = rd_trust r" "rd_id r' = rd_id r" "rd_out r' = rd_out r" "rc < 0 \<and> rd_kp_dirty r' \<or> rc = 0 \<and> (rd_kp_dirty r \<longrightarrow> stored r')"
    and "rd_kp_dirty r \<Longrightarrow> fst (en_store E) = KV_OK \<Longrightarrow> fst (snd (en_store E)) = KV_OK \<Longrightarrow> stored r'"
proof -
  obtain q c where w: "prov_write E (r\<lparr>rd_kp_dirty := False\<rparr>) (rd_id r) (rd_trust r) = (q, c)" by fastforce
  note l = write_lands [OF assms(1,2) w]
  have k: "rd_trust q = rd_trust r" "rd_id q = rd_id r" "rd_out q = rd_out r" by (subst l(1), simp)+
  show "rd_trust r' = rd_trust r" "rd_id r' = rd_id r" "rd_out r' = rd_out r"
    using assms(3) k by (auto simp: flush_pending_store_def w split: if_splits)
  show "rc < 0 \<and> rd_kp_dirty r' \<or> rc = 0 \<and> (rd_kp_dirty r \<longrightarrow> stored r')"
    using assms(3) l(2,3) k by (auto simp: flush_pending_store_def w stored_def split: if_splits)
  show "stored r'" if "rd_kp_dirty r" "fst (en_store E) = KV_OK" "fst (snd (en_store E)) = KV_OK"
    using assms(3) l(2,4) k that by (auto simp: flush_pending_store_def w stored_def split: if_splits)
qed

lemma later_write_lands:
  "ts_clean (rd_trust r) \<Longrightarrow> id_ok (rd_id r) \<Longrightarrow>
   rd_kp_dirty r \<longrightarrow> stored (fst (flush_pending_store (E\<lparr>en_store := (KV_OK, KV_OK, None)\<rparr>) r))"
  using flush_outcome(5) [of r "E\<lparr>en_store := (KV_OK, KV_OK, None)\<rparr>", OF _ _ prod.collapse [symmetric]] by simp

lemma removal_outcome:
  assumes "ts_clean (rd_trust r)" "id_ok (rd_id r)" "finish_removal E k r = (r', rc)"
  shows "rd_trust r' = rd_trust r" "rd_id r' = rd_id r" "Out_Post_Sweep \<in> set (rd_out r')" "rc < 0 \<and> rd_kp_dirty r' \<or> rc = 0 \<and> stored r'"
proof -
  obtain q c where w: "prov_write E (r\<lparr>rd_fast_mru := -1\<rparr>) (rd_id r) (rd_trust r) = (q, c)" by fastforce
  note l = write_lands [OF assms(1,2) w]
  have k: "rd_trust q = rd_trust r" "rd_id q = rd_id r" by (subst l(1), simp)+
  show "rd_trust r' = rd_trust r" "rd_id r' = rd_id r" "Out_Post_Sweep \<in> set (rd_out r')" "rc < 0 \<and> rd_kp_dirty r' \<or> rc = 0 \<and> stored r'"
    using assms(3) k l(2,3)
    by (auto simp: finish_removal_def persist_removal_def w revoke_aftermath_def Let_def emit_def stored_def split: if_splits)
qed

section \<open>Removal by name\<close>

lemma filter_del_nth: "i < length xs \<Longrightarrow> \<not> P (xs ! i) \<Longrightarrow> filter P (del_nth i xs) = filter P xs"
  unfolding del_nth_def by (subst (3) id_take_nth_drop [of i xs]) simp_all

lemma find_named:
  assumes c: "ts_clean ts"
  shows "(ultrawidelock_prov_find_cred_index ts ty ci = -1 \<and> (ty \<noteq> 0 \<and> ci \<noteq> CRED_INDEX_NONE \<longrightarrow> (\<forall>x\<in>set (rows ts). \<not> (r_type x = ty \<and> r_cred x = ci)))) \<or>
    (\<exists>i<ts_count ts. ultrawidelock_prov_find_cred_index ts ty ci = int i \<and> r_type (rows ts ! i) = ty \<and> r_cred (rows ts ! i) = ci)"
proof -
  have n: "min (ts_count ts) TRUST_MAX = ts_count ts" using ts_cleanD(2) [OF c] by simp
  let ?P = "\<lambda>i. ts_cred_type ts ! i = ty \<and> ts_cred_index ts ! i = ci"
  show ?thesis
  proof (cases "find ?P [0..<ts_count ts]")
    case None
    then have "\<forall>x\<in>set (rows ts). \<not> (r_type x = ty \<and> r_cred x = ci)" by (auto simp: find_None_iff rows_def row_at_def)
    then show ?thesis using None by (simp add: ultrawidelock_prov_find_cred_index_def row_scan_def n)
  next
    case (Some i)
    then have "i < ts_count ts" "?P i" by (auto simp: find_Some_iff)
    then show ?thesis using Some by (auto simp: ultrawidelock_prov_find_cred_index_def row_scan_def n row_at_def)
  qed
qed

lemma remove_named_spec:
  assumes "ts_clean ts" "ty \<noteq> 0" "ci \<noteq> CRED_INDEX_NONE" "remove_named ty ci ts k n = (ts', k', n')"
  shows "ts_clean ts' \<and> rows ts' = filter (\<lambda>x. \<not> (r_type x = ty \<and> r_cred x = ci)) (rows ts) \<and> irows ts' = irows ts \<and>
    n' = n + length (filter (\<lambda>x. r_type x = ty \<and> r_cred x = ci) (rows ts))"
  using assms
proof (induction ty ci ts k n rule: remove_named.induct)
  case (1 ty ci ts k n)
  let ?idx = "ultrawidelock_prov_find_cred_index ts ty ci"
  from find_named [OF 1(2), of ty ci] consider "?idx = -1" "\<forall>x\<in>set (rows ts). \<not> (r_type x = ty \<and> r_cred x = ci)"
    | i where "i < ts_count ts" "?idx = int i" "r_type (rows ts ! i) = ty" "r_cred (rows ts ! i) = ci"
    using 1(3,4) by blast
  then show ?case
  proof cases
    case 1
    have "filter (\<lambda>x. \<not> (r_type x = ty \<and> r_cred x = ci)) (rows ts) = rows ts" "filter (\<lambda>x. r_type x = ty \<and> r_cred x = ci) (rows ts) = []"
      using 1(2) by (auto simp: filter_empty_conv intro!: filter_True)
    then show ?thesis using 1(1) "1.prems" by (simp add: remove_named.simps [of ty ci ts])
  next
    case 2
    obtain ts1 rc where t: "ultrawidelock_prov_trust_remove_at ts ?idx = (ts1, rc)" by fastforce
    have s: "ts_clean ts1" "rc = 0" "irows ts1 = irows ts" "rows ts1 = del_nth i (rows ts)"
      using remove_at_spec [OF "1.prems"(1) 2(1)] t 2(2) same_issuers(3) [of ts1 ts] by auto
    have r: "remove_named ty ci ts1 (Some (ts_cred_pub ts ! i)) (n + 1) = (ts', k', n')"
      using "1.prems"(4) 2(2) t s(2) by (simp add: remove_named.simps [of ty ci ts])
    have "length (filter P (rows ts)) = length (filter P (del_nth i (rows ts))) + 1" if "P (rows ts ! i)" for P
      using that 2(1) unfolding del_nth_def by (subst (1) id_take_nth_drop [of i "rows ts"]) simp_all
    then show ?thesis
      using "1.IH" [OF refl _ t [symmetric] _ s(1)] r "1.prems"(2,3) 2 s t filter_del_nth [of i "rows ts"]
      by auto
  qed
qed

text \<open>C25: A credential revoked by its name is gone at once: every anchor under that name leaves the live store whatever
  the key-value store answers, the rest stays as it is, sessions are swept, and the stored record follows: right
  away, or, when the write fails, with the first later one that lands.\<close>

theorem revoked_credential_is_gone:
  assumes "rd_loaded r" "rd_prov r \<noteq> PROVISIONING_UNAVAILABLE" "ts_clean (rd_trust r)" "id_ok (rd_id r)" "ty \<noteq> 0" "ci \<noteq> CRED_INDEX_NONE"
    and "ultrawidelock_reader_provision_remove_trust B E r ty ci = (r', rc)"
  shows "rows (rd_trust r') = filter (\<lambda>x. \<not> (r_type x = ty \<and> r_cred x = ci)) (rows (rd_trust r)) \<and> irows (rd_trust r') = irows (rd_trust r) \<and>
    (rows (rd_trust r') \<noteq> rows (rd_trust r) \<longrightarrow> Out_Post_Sweep \<in> set (rd_out r') \<and> (stored r' \<or> rd_kp_dirty r')) \<and>
    (rc < 0 \<longrightarrow> rd_kp_dirty r') \<and>
    (rd_kp_dirty r' \<longrightarrow> stored (fst (flush_pending_store (E\<lparr>en_store := (KV_OK, KV_OK, None)\<rparr>) r')))"
proof -
  obtain ts k n where m: "remove_named ty ci (rd_trust r) None 0 = (ts, k, n)" by (metis prod_cases3)
  note s = remove_named_spec [OF assms(3,5,6) m]
  have l: "fst (load_provisioning B E r) = r" using assms(1,2) by (simp add: load_provisioning_def)
  let ?r = "r\<lparr>rd_trust := ts\<rparr>"
  have t: "rd_trust r' = ts \<and> rd_id r' = rd_id r \<and> (rows ts \<noteq> rows (rd_trust r) \<longrightarrow> Out_Post_Sweep \<in> set (rd_out r') \<and> (stored r' \<or> rd_kp_dirty r')) \<and>
      (rc < 0 \<longrightarrow> rd_kp_dirty r')"
  proof (cases "n = 0")
    case True
    then have "filter (\<lambda>x. r_type x = ty \<and> r_cred x = ci) (rows (rd_trust r)) = []" using s by simp
    then have "rows ts = rows (rd_trust r)" using s by (auto simp: filter_empty_conv)
    moreover obtain q p where f: "flush_pending_store E ?r = (q, p)" by fastforce
    ultimately show ?thesis
      using assms(7) True m flush_outcome [OF _ _ f] s assms(4)
      by (auto simp: ultrawidelock_reader_provision_remove_trust_def Let_def l split: if_splits)
  next
    case False
    then have "finish_removal E (if n > 1 then None else k) ?r = (r', rc)"
      using assms(7) m by (simp add: ultrawidelock_reader_provision_remove_trust_def Let_def l)
    from removal_outcome [OF _ _ this] show ?thesis using s assms(4) by auto
  qed
  show ?thesis using t s later_write_lands [of r' E] assms(4) by simp
qed

text \<open>Two anchors under names 3 and 4 of a user, and the issuer of another; for the witnesses.\<close>

definition demo_ops :: "ts_op list" where
  "demo_ops = [Issuer_Add (4 # replicate 64 9) 1 7, Trust_Add (4 # replicate 64 1), Trust_Add (4 # replicate 64 2),
     Cred_Bind 0 5 3 8, Cred_Bind 1 5 4 8, Anchor_Issuer_Set 1 0]"

definition demo_reader :: reader where
  "demo_reader = (reader_boot None)\<lparr>rd_loaded := True, rd_prov := PROVISIONING_READY, rd_id := fst ultrawidelock_prov_dev_default,
     rd_trust := fst (run_steps ts_step ts_empty demo_ops)\<rparr>"

lemma demo_reader_ok: "rd_loaded demo_reader" "rd_prov demo_reader \<noteq> PROVISIONING_UNAVAILABLE" "ts_clean (rd_trust demo_reader)" "id_ok (rd_id demo_reader)"
proof -
  have "\<forall>e\<in>set demo_ops. ts_op_ok e" by (simp add: demo_ops_def)
  then show "ts_clean (rd_trust demo_reader)" using ts_run_refines [OF ts_clean_empty] by (simp add: demo_reader_def)
qed (simp_all add: demo_reader_def id_ok_def ultrawidelock_prov_dev_default_def k_dev_reader_id_def k_dev_sign_priv_def zero_bytes_def)

theorem revoked_credential_is_gone_witness:
  "map r_pub (rows (rd_trust (fst (ultrawidelock_reader_provision_remove_trust calm_build calm_env demo_reader 5 3)))) = [4 # replicate 64 2]"
proof -
  obtain r' rc where e: "ultrawidelock_reader_provision_remove_trust calm_build calm_env demo_reader 5 3 = (r', rc)" by fastforce
  have "map r_pub (filter (\<lambda>x. \<not> (r_type x = 5 \<and> r_cred x = 3)) (rows (rd_trust demo_reader))) = [4 # replicate 64 2]"
    by code_simp
  then show ?thesis using revoked_credential_is_gone [OF demo_reader_ok _ _ e] e by simp
qed

section \<open>Removal by user and by type\<close>

text \<open>The downward loops are filters; what they count is what they removed.\<close>

lemma issuer_loop:
  assumes "\<And>t k. ts_clean t \<Longrightarrow> k < ts_issuer_count t \<Longrightarrow> c t k = P (irows t ! k)"
  shows "ts_clean ts \<Longrightarrow> i \<le> ts_issuer_count ts \<Longrightarrow> fold (drop_issuer_if c) (rev [0..<i]) (ts, n) = (ts', n') \<Longrightarrow>
    ts_clean ts' \<and> irows ts' = filter (\<lambda>x. \<not> P x) (take i (irows ts)) @ drop i (irows ts) \<and>
    st_anchors (abs_store ts') = filter (\<lambda>a. an_issuer a \<notin> Some ` i_pub ` {x \<in> set (take i (irows ts)). P x}) (st_anchors (abs_store ts)) \<and>
    n' = n + int (ts_issuer_count ts - ts_issuer_count ts') + int (ts_count ts - ts_count ts') \<and>
    ts_issuer_count ts' \<le> ts_issuer_count ts \<and> ts_count ts' \<le> ts_count ts"
proof (induction i arbitrary: ts n)
  case (Suc i)
  have i: "i < ts_issuer_count ts" using Suc.prems by simp
  have tk: "take (Suc i) (irows ts) = take i (irows ts) @ [irows ts ! i]" using i by (simp add: take_Suc_conv_app_nth)
  obtain t1 n1 where s: "drop_issuer_if c i (ts, n) = (t1, n1)" by fastforce
  have f: "fold (drop_issuer_if c) (rev [0..<i]) (t1, n1) = (ts', n')" using Suc.prems(3) s by simp
  show ?case
  proof (cases "P (irows ts ! i)")
    case False
    then have "t1 = ts" "n1 = n" using s assms [OF Suc.prems(1) i] by (auto simp: drop_issuer_if_def)
    moreover have "{x \<in> set (take (Suc i) (irows ts)). P x} = {x \<in> set (take i (irows ts)). P x}" using False by (auto simp: tk)
    moreover have "drop i (irows ts) = irows ts ! i # drop (Suc i) (irows ts)" using i Cons_nth_drop_Suc [of i "irows ts"] by simp
    ultimately show ?thesis using Suc.IH [OF Suc.prems(1) _ f [unfolded \<open>t1 = ts\<close> \<open>n1 = n\<close>]] i False by (simp add: tk)
  next
    case True
    let ?mine = "\<lambda>a. an_issuer a = Some (i_pub (irows ts ! i))"
    note a = abs_issuer_remove [OF Suc.prems(1), of "int i"]
    have t1: "t1 = fst (ultrawidelock_prov_issuer_remove_at ts (int i))"
      and n1: "n1 = n + 1 + int (length (filter ?mine (st_anchors (abs_store ts))))"
      using s assms [OF Suc.prems(1) i] True a i by (auto simp: drop_issuer_if_def case_prod_beta Let_def)
    have c1: "ts_clean t1" "st_anchors (abs_store t1) = filter (\<lambda>x. \<not> ?mine x) (st_anchors (abs_store ts))" "irows t1 = del_nth i (irows ts)"
      using a i t1 abs_sizes(3) [of t1] by (auto simp: Let_def)
    have k: "ts_issuer_count t1 = ts_issuer_count ts - 1" using arg_cong [OF c1(3), of length] i by simp
    have m: "int (ts_count t1) + int (length (filter ?mine (st_anchors (abs_store ts)))) = int (ts_count ts)"
      using arg_cong [OF c1(2), of length] sum_length_filter_compl [of ?mine "st_anchors (abs_store ts)"] by simp
    have d: "take i (irows t1) = take i (irows ts)" "drop i (irows t1) = drop (Suc i) (irows ts)"
      using del_nth_split [of i "irows ts"] i c1(3) by simp_all
    have "{x \<in> set (take (Suc i) (irows ts)). P x} = insert (irows ts ! i) {x \<in> set (take i (irows ts)). P x}" using True by (auto simp: tk)
    moreover have "i \<le> ts_issuer_count t1" using i k by simp
    note ih = Suc.IH [OF c1(1) this f, unfolded d c1(2)]
    ultimately show ?thesis using i k n1 m True by (auto simp: tk intro!: filter_cong)
  qed
qed simp

lemma anchor_loop:
  assumes "\<And>t k. ts_clean t \<Longrightarrow> k < ts_count t \<Longrightarrow> c t k = Q (st_anchors (abs_store t) ! k)"
  shows "ts_clean ts \<Longrightarrow> i \<le> ts_count ts \<Longrightarrow> fold (drop_anchor_if c) (rev [0..<i]) (ts, n) = (ts', n') \<Longrightarrow>
    ts_clean ts' \<and> irows ts' = irows ts \<and>
    st_anchors (abs_store ts') = filter (\<lambda>a. \<not> Q a) (take i (st_anchors (abs_store ts))) @ drop i (st_anchors (abs_store ts)) \<and>
    n' = n + int (ts_count ts - ts_count ts') \<and> ts_count ts' \<le> ts_count ts"
proof (induction i arbitrary: ts n)
  case (Suc i)
  let ?as = "st_anchors (abs_store ts)"
  have i: "i < ts_count ts" using Suc.prems by simp
  then have li: "i < length ?as" by simp
  have tk: "take (Suc i) ?as = take i ?as @ [?as ! i]" using i by (simp add: take_Suc_conv_app_nth)
  obtain t1 n1 where s: "drop_anchor_if c i (ts, n) = (t1, n1)" by fastforce
  have f: "fold (drop_anchor_if c) (rev [0..<i]) (t1, n1) = (ts', n')" using Suc.prems(3) s by simp
  show ?case
  proof (cases "Q (?as ! i)")
    case False
    then have "t1 = ts" "n1 = n" using s assms [OF Suc.prems(1) i] by (auto simp: drop_anchor_if_def)
    moreover have "drop i ?as = ?as ! i # drop (Suc i) ?as" using Cons_nth_drop_Suc [OF li] by simp
    ultimately show ?thesis using Suc.IH [OF Suc.prems(1) _ f [unfolded \<open>t1 = ts\<close> \<open>n1 = n\<close>]] i False by (simp add: tk)
  next
    case True
    have t1: "t1 = fst (ultrawidelock_prov_trust_remove_at ts (int i))" "n1 = n + 1"
      using s assms [OF Suc.prems(1) i] True by (auto simp: drop_anchor_if_def)
    have c1: "ts_clean t1" "st_anchors (abs_store t1) = del_nth i ?as" "irows t1 = irows ts"
      using spec_remove_abs [OF Suc.prems(1), of "int i"] i t1 abs_sizes(3) [of t1] by (auto simp: spec_remove_def)
    have k: "ts_count t1 = ts_count ts - 1" using arg_cong [OF c1(2), of length] i by simp
    then have "i \<le> ts_count t1" using i by simp
    from Suc.IH [OF c1(1) this f] show ?thesis
      using i k t1(2) True del_nth_split [OF li] c1(2,3) by (auto simp: tk)
  qed
qed simp

lemma filter_full: "length (filter P xs) = length xs \<Longrightarrow> filter P xs = xs"
  by (metis filter_True length_filter_less less_irrefl)

lemma drop_matching_spec:
  assumes c: "ts_clean ts" and d: "drop_matching ci ca ts = (ts', n)"
    and P: "\<And>t k. ts_clean t \<Longrightarrow> k < ts_issuer_count t \<Longrightarrow> ci t k = P (irows t ! k)"
    and Q: "\<And>t k. ts_clean t \<Longrightarrow> k < ts_count t \<Longrightarrow> ca t k = Q (st_anchors (abs_store t) ! k)"
  shows "ts_clean ts' \<and> irows ts' = filter (\<lambda>x. \<not> P x) (irows ts) \<and>
    st_anchors (abs_store ts') = filter (\<lambda>a. an_issuer a \<notin> Some ` i_pub ` {x \<in> set (irows ts). P x} \<and> \<not> Q a) (st_anchors (abs_store ts)) \<and>
    0 \<le> n \<and> (n = 0 \<longrightarrow> abs_store ts' = abs_store ts)"
proof -
  obtain t1 m where l: "fold (drop_issuer_if ci) (rev [0..<ts_issuer_count ts]) (ts, 0) = (t1, m)" by fastforce
  note s1 = issuer_loop [OF P c order_refl l]
  have l2: "fold (drop_anchor_if ca) (rev [0..<ts_count t1]) (t1, m) = (ts', n)" using d l by (simp add: drop_matching_def Let_def)
  have "ts_clean t1" using s1 by simp
  note s2 = anchor_loop [OF Q this order_refl l2]
  have tl: "take (ts_count t1) (st_anchors (abs_store t1)) = st_anchors (abs_store t1)" "drop (ts_count t1) (st_anchors (abs_store t1)) = []"
    "take (ts_issuer_count ts) (irows ts) = irows ts" "drop (ts_issuer_count ts) (irows ts) = []" by simp_all
  have i: "irows ts' = filter (\<lambda>x. \<not> P x) (irows ts)" using s1 s2 by simp
  have a: "st_anchors (abs_store ts') = filter (\<lambda>a. an_issuer a \<notin> Some ` i_pub ` {x \<in> set (irows ts). P x} \<and> \<not> Q a) (st_anchors (abs_store ts))"
    using s1 s2 unfolding tl by (simp add: conj_commute)
  have "abs_store ts' = abs_store ts" if "n = 0"
  proof -
    have "ts_issuer_count ts' = ts_issuer_count t1" using s2 length_irows by metis
    moreover have "m = int (ts_issuer_count ts - ts_issuer_count t1) + int (ts_count ts - ts_count t1)" "ts_issuer_count t1 \<le> ts_issuer_count ts"
      "ts_count t1 \<le> ts_count ts" "n = m + int (ts_count t1 - ts_count ts')" "ts_count ts' \<le> ts_count t1"
      using s1 s2 by simp_all
    ultimately have "ts_issuer_count ts' = ts_issuer_count ts" "ts_count ts' = ts_count ts" using that by linarith+
    then have "length (irows ts') = length (irows ts)" "length (st_anchors (abs_store ts')) = length (st_anchors (abs_store ts))" by simp_all
    then have "irows ts' = irows ts" "st_anchors (abs_store ts') = st_anchors (abs_store ts)"
      unfolding i a by (simp_all only: filter_full)
    then show ?thesis by (simp add: abs_store_def)
  qed
  then show ?thesis using s1 s2 i a by simp
qed

text \<open>The two wildcard removals, with the anchors and issuers they mean.\<close>

definition user_hit :: "u16 \<Rightarrow> u16 \<Rightarrow> bool" where
  "user_hit ui u \<longleftrightarrow> ui = USER_INDEX_ALL \<or> u = ui"

lemma remove_matching_outcome:
  assumes "ts_clean (rd_trust r)" "id_ok (rd_id r)" "remove_matching E r ci ca = (r', rc)"
    and "\<And>t k. ts_clean t \<Longrightarrow> k < ts_issuer_count t \<Longrightarrow> ci t k = P (irows t ! k)"
    and "\<And>t k. ts_clean t \<Longrightarrow> k < ts_count t \<Longrightarrow> ca t k = Q (st_anchors (abs_store t) ! k)"
  shows "ts_clean (rd_trust r') \<and> rd_id r' = rd_id r \<and> abs_store (rd_trust r') =
      \<lparr>st_anchors = filter (\<lambda>a. an_issuer a \<notin> Some ` i_pub ` {x \<in> set (irows (rd_trust r)). P x} \<and> \<not> Q a) (st_anchors (abs_store (rd_trust r))),
       st_issuers = filter (\<lambda>x. \<not> P x) (irows (rd_trust r))\<rparr> \<and>
    (abs_store (rd_trust r') \<noteq> abs_store (rd_trust r) \<longrightarrow> Out_Post_Sweep \<in> set (rd_out r') \<and> (stored r' \<or> rd_kp_dirty r')) \<and>
    (rc < 0 \<longrightarrow> rd_kp_dirty r')"
proof -
  obtain ts n where d: "drop_matching ci ca (rd_trust r) = (ts, n)" by fastforce
  note s = drop_matching_spec [OF assms(1) d assms(4,5)]
  have ab: "abs_store ts = \<lparr>st_anchors = st_anchors (abs_store ts), st_issuers = irows ts\<rparr>" by (simp add: abs_store_def)
  let ?r = "r\<lparr>rd_trust := ts\<rparr>"
  show ?thesis
  proof (cases "n = 0")
    case True
    then have "flush_pending_store E ?r = (r', rc)" using assms(3) d by (simp add: remove_matching_def)
    from flush_outcome [OF _ _ this] show ?thesis using s True assms(2) ab by auto
  next
    case False
    obtain q c where f: "finish_removal E None ?r = (q, c)" by fastforce
    then have "r' = q" "rc = (if c = 0 then n else c)" using assms(3) d False by (simp_all add: remove_matching_def)
    then show ?thesis using removal_outcome [OF _ _ f] s assms(2) ab by (auto split: if_splits)
  qed
qed

text \<open>C24: Revoking a user revokes what the user has and what the user's issuers vouched for: whatever the key-value
  store answers, the issuers and anchors of that user and the anchors of those issuers leave the live store, everything else
  stays, sessions are swept when anything left, and the stored record follows as for a named credential.\<close>

theorem revoked_user_is_gone:
  assumes "rd_loaded r" "rd_prov r \<noteq> PROVISIONING_UNAVAILABLE" "ts_clean (rd_trust r)" "id_ok (rd_id r)"
    and "ultrawidelock_reader_provision_remove_user B E r ui = (r', rc)"
  shows "abs_store (rd_trust r') =
      \<lparr>st_anchors = filter (\<lambda>a. an_issuer a \<notin> Some ` i_pub ` {x \<in> set (irows (rd_trust r)). user_hit ui (i_user x)} \<and> \<not> user_hit ui (an_user a))
                      (st_anchors (abs_store (rd_trust r))),
       st_issuers = filter (\<lambda>x. \<not> user_hit ui (i_user x)) (irows (rd_trust r))\<rparr> \<and>
    (abs_store (rd_trust r') \<noteq> abs_store (rd_trust r) \<longrightarrow> Out_Post_Sweep \<in> set (rd_out r') \<and> (stored r' \<or> rd_kp_dirty r')) \<and>
    (rc < 0 \<longrightarrow> rd_kp_dirty r') \<and>
    (rd_kp_dirty r' \<longrightarrow> stored (fst (flush_pending_store (E\<lparr>en_store := (KV_OK, KV_OK, None)\<rparr>) r')))"
proof -
  have l: "fst (load_provisioning B E r) = r" using assms(1,2) by (simp add: load_provisioning_def)
  note o = remove_matching_outcome [OF assms(3,4) assms(5) [unfolded ultrawidelock_reader_provision_remove_user_def l],
      where P = "\<lambda>x. user_hit ui (i_user x)" and Q = "\<lambda>a. user_hit ui (an_user a)"]
  have h: "ts_clean (rd_trust r') \<and> rd_id r' = rd_id r \<and> abs_store (rd_trust r') =
      \<lparr>st_anchors = filter (\<lambda>a. an_issuer a \<notin> Some ` i_pub ` {x \<in> set (irows (rd_trust r)). user_hit ui (i_user x)} \<and> \<not> user_hit ui (an_user a))
                      (st_anchors (abs_store (rd_trust r))),
       st_issuers = filter (\<lambda>x. \<not> user_hit ui (i_user x)) (irows (rd_trust r))\<rparr> \<and>
    (abs_store (rd_trust r') \<noteq> abs_store (rd_trust r) \<longrightarrow> Out_Post_Sweep \<in> set (rd_out r') \<and> (stored r' \<or> rd_kp_dirty r')) \<and>
    (rc < 0 \<longrightarrow> rd_kp_dirty r')"
    by (rule o) (auto simp: user_hit_def irow_at_def abs_store_def anchor_of_def row_at_def)
  then show ?thesis using later_write_lands [of r' E] assms(4) by metis
qed

theorem revoked_user_is_gone_witness:
  "map an_pub (st_anchors (abs_store (rd_trust (fst (ultrawidelock_reader_provision_remove_user calm_build calm_env demo_reader 7))))) = [4 # replicate 64 1]"
proof -
  obtain r' rc where e: "ultrawidelock_reader_provision_remove_user calm_build calm_env demo_reader 7 = (r', rc)" by fastforce
  have "map an_pub (filter (\<lambda>a. an_issuer a \<notin> Some ` i_pub ` {x \<in> set (irows (rd_trust demo_reader)). user_hit 7 (i_user x)} \<and> \<not> user_hit 7 (an_user a))
     (st_anchors (abs_store (rd_trust demo_reader)))) = [4 # replicate 64 1]"
    by code_simp
  then show ?thesis using revoked_user_is_gone [OF demo_reader_ok e] e by simp
qed

section \<open>Two gaps\<close>

text \<open>Clearing is not retried: when the write of a clear fails, repeating the command answers that there was nothing
  to clear and leaves the record with the revoked anchors in place, so that a restart before the next disconnect
  brings them back.\<close>

theorem repeated_clear_never_writes:
  assumes "rd_loaded r" "rd_prov r \<noteq> PROVISIONING_UNAVAILABLE" "0 < ts_count (rd_trust r)" "fst (en_store E) = KV_IO"
    and "ultrawidelock_reader_trust_clear B E r = (r', rc)"
  shows "rc = -5 \<and> rd_kv r' = rd_kv r \<and> rd_kp_dirty r' \<and> ultrawidelock_reader_trust_clear B E' r' = (r', 1)"
proof -
  have l: "fst (load_provisioning B E q) = q" if "rd_loaded q" "rd_prov q \<noteq> PROVISIONING_UNAVAILABLE" for q E
    using that by (simp add: load_provisioning_def)
  obtain s k where e: "en_store E = (KV_IO, s, k)" using assms(4) by (cases "en_store E") auto
  have r: "rc = -5 \<and> rd_kv r' = rd_kv r \<and> rd_kp_dirty r' \<and> rd_loaded r' \<and> rd_prov r' = rd_prov r \<and> rd_trust r' = ts_empty"
    using assms(3,5) e l [OF assms(1,2)]
    by (auto simp: ultrawidelock_reader_trust_clear_def finish_removal_def persist_removal_def prov_write_def ultrawidelock_prov_store_def
        revoke_aftermath_def emit_def Let_def assms(1))
  then have "fst (load_provisioning B E' r') = r'" using l assms(2) by simp
  then show ?thesis using r by (simp add: ultrawidelock_reader_trust_clear_def Let_def ts_empty_def)
qed

theorem repeated_clear_never_writes_witness:
  "snd (ultrawidelock_reader_trust_clear calm_build calm_env
     (fst (ultrawidelock_reader_trust_clear calm_build (calm_env\<lparr>en_store := (KV_IO, KV_OK, None)\<rparr>) demo_reader))) = 1"
proof -
  have "0 < ts_count (rd_trust demo_reader)" by code_simp
  from repeated_clear_never_writes [OF demo_reader_ok(1,2) this _ prod.collapse [symmetric], of "calm_env\<lparr>en_store := (KV_IO, KV_OK, None)\<rparr>" calm_build calm_env]
  show ?thesis by simp
qed

text \<open>C40: A read that failed is not remembered by the calls that write: after it, installing one credential replaces the stored
  identity and every stored anchor by the development identity and that one credential, and answers success.\<close>

theorem failed_read_then_add_wipes:
  assumes "\<not> rd_loaded r" "en_load E = (KV_OK, KV_IO)" "fst (en_store E) = KV_OK" "fst (snd (en_store E)) = KV_OK" "length p = CRED_PUB_LEN" "p ! 0 = 0x04"
    and "ultrawidelock_reader_provision_add_trust B E r p ty ci ui = (r', rc)"
  shows "rc = 0 \<and> (\<exists>ts. map r_pub (rows ts) = [p] \<and> ultrawidelock_prov_load KV_OK KV_OK (rd_kv r') = ((fst ultrawidelock_prov_dev_default, ts), 0))"
proof -
  let ?q = "fst (load_provisioning B E r)" and ?id = "fst ultrawidelock_prov_dev_default"
  have q: "rd_trust ?q = ts_empty" "rd_id ?q = ?id"
    using assms(1,2) by (simp_all add: load_provisioning_def ultrawidelock_prov_load_def kv_get_def compute_reader_group_x_def ultrawidelock_prov_dev_default_def)
  have id: "id_ok ?id" by (simp add: id_ok_def ultrawidelock_prov_dev_default_def k_dev_reader_id_def k_dev_sign_priv_def zero_bytes_def)
  let ?c = "fst (ultrawidelock_prov_trust_add ts_empty p)"
  have e: "rows ts_empty = []" by (simp add: rows_def ts_empty_def)
  have a: "ts_clean ?c" "rows ?c = [blank_row\<lparr>r_pub := p\<rparr>]" "snd (ultrawidelock_prov_trust_add ts_empty p) = 0"
    using trust_add_spec [OF ts_clean_empty assms(5)] assms(6) e by auto
  then have n: "ts_count ?c = 1" using length_rows [of ?c] by simp
  have f: "ultrawidelock_prov_trust_find ?c p = 0" using trust_find_rows [OF a(1), of p] a(2) by simp
  define c1 where "c1 = fst (ultrawidelock_prov_cred_bind_set ?c 0 ty ci ui)"
  have b: "ts_clean c1" "map r_pub (rows c1) = [p]" using bind_set_spec [OF a(1), of 0 ty ci ui] n a(2) by (simp_all add: c1_def)
  obtain q2 rc2 where w: "prov_write E ?q ?id c1 = (q2, rc2)" by fastforce
  note l = write_lands [OF b(1) id w]
  have "rc2 = 0" using l(4) assms(3,4) by simp
  moreover have "r' = (if rc2 \<noteq> 0 then q2 else q2\<lparr>rd_trust := c1, rd_fast_mru := -1\<rparr>) \<and> rc = (if rc2 \<noteq> 0 then rc2 else 0)"
    using assms(7) q a(3) f w
    by (auto simp: ultrawidelock_reader_provision_add_trust_def Let_def adopt_def case_prod_beta c1_def split: if_splits)
  ultimately show ?thesis using l(2) b(2) by auto
qed

theorem failed_read_then_add_wipes_witness:
  "snd (ultrawidelock_reader_provision_add_trust calm_build (calm_env\<lparr>en_load := (KV_OK, KV_IO)\<rparr>) (reader_boot (Some [1, 2, 3])) (4 # replicate 64 1) 5 3 8) = 0"
proof -
  let ?E = "calm_env\<lparr>en_load := (KV_OK, KV_IO)\<rparr>"
  obtain r' rc where e: "ultrawidelock_reader_provision_add_trust calm_build ?E (reader_boot (Some [1, 2, 3])) (4 # replicate 64 1) 5 3 8 = (r', rc)" by fastforce
  have "\<not> rd_loaded (reader_boot (Some [1, 2, 3]))" by (simp add: reader_boot_def)
  from failed_read_then_add_wipes [OF this _ _ _ _ _ e] show ?thesis using e by (simp add: calm_env_def)
qed

end
