(* ===== verification/Reader_Theorems.thy ===== *)
theory Reader_Theorems
  imports Reader_Revoke
begin

text \<open>
  What the credential reader promises over every run of events: sessions rest on proofs, the published
  session state is exact, and a peer that stalls is dropped.
\<close>

section \<open>Runs\<close>

lemma after_core: "core B {reader_after B kv (take m evs) | m. m < length evs} (reader_after B kv evs)"
  using reader_after_good [of B kv evs] by (simp add: good_def)

text \<open>C14: A session past authentication was proven: whatever peers, administrators and the ranging engine
  do, in whatever order, a slot that has sent EXCHANGE, waits at the power gate or is established holds a
  ranging key that comes out of a key agreement, and some earlier state of the reader accepted for it
  either a signature over this very transcript by a key of its trust store or a cryptogram under the
  fast-path key of one of its anchors. (A bench build accepts any key while nothing is provisioned.)\<close>

theorem session_rests_on_proof:
  "{s \<in> set (rd_sessions (reader_after B kv evs)). past_auth (ss_phase s)} \<subseteq>
   {s. \<exists>m<length evs. proven B (reader_after B kv (take m evs)) s}"
  using after_core [of B kv evs] by (auto simp: core_def backed_def)

text \<open>C22: What the reader publishes is exact: the lock sees an active session exactly while some slot is
  established, there are never more than two slots, a closed slot keeps no key material, and a live
  ranging bridge uses the channel of a slot that is still connected.\<close>

theorem published_sessions_exact:
  "(ultrawidelock_reader_session_active (reader_after B kv evs) \<longleftrightarrow>
      (\<exists>s\<in>set (rd_sessions (reader_after B kv evs)). ss_active s \<and> ss_phase s = PH_ESTABLISHED)) \<and>
   length (rd_sessions (reader_after B kv evs)) = MAX_SESSIONS \<and>
   {s \<in> set (rd_sessions (reader_after B kv evs)). \<not> ss_active s} \<subseteq> {session_zero} \<and>
   bridge_ok (reader_after B kv evs)"
proof -
  let ?r = "reader_after B kv evs"
  obtain a b where ab: "rd_sessions ?r = [a, b]" "slot_ok a" "slot_ok b" "rd_established ?r = of_bool (est a) + of_bool (est b)"
    using after_core [of B kv evs] unfolding core_iff by blast
  have "ultrawidelock_reader_session_active ?r \<longleftrightarrow> est a \<or> est b"
    using ab(4) by (auto simp: ultrawidelock_reader_session_active_def)
  moreover have "bridge_ok ?r" using reader_after_good [of B kv evs] by (simp add: good_def)
  ultimately show ?thesis using ab(1-3) by (auto simp: est_def slot_ok_def)
qed

section \<open>The tick\<close>

definition overdue :: "renv \<Rightarrow> u32 \<Rightarrow> session \<Rightarrow> bool" where
  "overdue E now s \<longleftrightarrow>
     phase_awaits_peer (ss_phase s) \<and> ms_reached now (ss_phase_deadline s) \<or>
     ms_reached now (ss_overall_deadline s) \<and>
       (ss_phase s \<noteq> PH_ESTABLISHED \<or>
        (case en_range_age E of None \<Rightarrow> True | Some age \<Rightarrow> age < 0 \<or> age \<ge> uint READER_SESSION_TIMEOUT_MS))"

lemma idle_extend_fields [simp]:
  "ctl (session_idle_extend E s now) = ctl s" "keys (session_idle_extend E s now) = keys s"
  "ss_phase_deadline (session_idle_extend E s now) = ss_phase_deadline s"
  by (auto simp: session_idle_extend_def Let_def split: option.split)

lemma put_overall_core:
  assumes "core B H r" "i < MAX_SESSIONS" "ss_active (sess r i)"
  shows "core B H (put_sess r i (session_idle_extend E (sess r i) now))"
  using core_put [OF assms, of "session_idle_extend E (sess r i) now"] core_slot [OF assms(1,2)]
    backed_cong [of "session_idle_extend E (sess r i) now" "sess r i" B H] idle_extend_fields(1) [of E "sess r i" now]
  unfolding ctl_def prod.inject by simp

lemma tick_other:
  assumes c: "core B H r" and j: "j < MAX_SESSIONS"
  shows "core B H (tick_session E now j r)"
    and "i \<noteq> j \<Longrightarrow> sess (tick_session E now j r) i = sess r i"
    and "set (rd_out r) \<subseteq> set (rd_out (tick_session E now j r))"
proof -
  let ?q = "put_sess r j (session_idle_extend E (sess r j) now)"
  have t: "core B H (session_terminate E q j)" if "core B H q" for q
  proof (cases "live q j")
    case True
    have a: "ss_active (sess q j)" using True by (simp add: live_def)
    show ?thesis unfolding terminate_eq [OF that True] good_emit
      using count_phase_est [of "sess q j" "ended (sess q j)"] a
      by (intro core_replace [OF that j]) (auto simp: slot_ok_def backed_def)
  qed (use that j in \<open>simp add: terminate_dead\<close>)
  have o: "set (rd_out q) \<subseteq> set (rd_out (session_terminate E q j))" for q
    by (auto simp: session_terminate_def Let_def enter_eq)
  have q: "core B H ?q" if "ss_active (sess r j)" using put_overall_core [OF c j that] .
  show "core B H (tick_session E now j r)" using q t c by (simp add: tick_session_def Let_def)
  show "sess (tick_session E now j r) i = sess r i" if "i \<noteq> j"
    using that q by (auto simp: tick_session_def Let_def sess_terminate [OF _ j] sess_put [OF c j])
  show "set (rd_out r) \<subseteq> set (rd_out (tick_session E now j r))"
    using o [of ?q] by (auto simp: tick_session_def Let_def)
qed

lemma tick_drops:
  assumes c: "core B H r" and l: "live r i" and d: "overdue E now (sess r i)"
  shows "ss_phase (sess (tick_session E now i r) i) = PH_FAILED \<and> ss_disconnect_requested (sess (tick_session E now i r) i) \<and>
         Out_Disconnect (ss_conn (sess r i)) \<in> set (rd_out (tick_session E now i r))"
proof -
  have i: "i < MAX_SESSIONS" and a: "ss_active (sess r i)" using l by (simp_all add: live_def)
  let ?s = "session_idle_extend E (sess r i) now" and ?q = "put_sess r i (session_idle_extend E (sess r i) now)"
  have q: "core B H ?q" "sess ?q i = ?s" using put_overall_core [OF c i a] sess_put [OF c i] by simp_all
  have f: "ss_active ?s" "\<not> ss_disconnect_requested ?s" "ss_conn ?s = ss_conn (sess r i)"
    "ss_phase_armed ?s = ss_phase_armed (sess r i)" "ss_overall_armed ?s = ss_overall_armed (sess r i)"
    using idle_extend_fields(1) [of E "sess r i" now] l by (simp_all add: ctl_def live_def)
  have k: "ss_overall_armed (sess r i)" "ss_phase_armed (sess r i) = phase_awaits_peer (ss_phase (sess r i))"
    using core_slot [OF c i] l by (auto simp: slot_ok_def live_def)
  have "ms_reached now (ss_overall_deadline ?s)"
    if "ms_reached now (ss_overall_deadline (sess r i))" "ss_phase (sess r i) \<noteq> PH_ESTABLISHED \<or>
        (case en_range_age E of None \<Rightarrow> True | Some age \<Rightarrow> age < 0 \<or> age \<ge> uint READER_SESSION_TIMEOUT_MS)"
    using that by (auto simp: session_idle_extend_def split: option.splits)
  then have "tick_session E now i r = session_terminate E ?q i"
    using d a q f k by (auto simp: tick_session_def Let_def overdue_def)
  moreover have "live ?q i" using q f i by (simp add: live_def)
  ultimately show ?thesis using terminate_eq [OF q(1)] sess_terminate [OF q(1) i] q f by simp
qed

text \<open>C23: A peer that stalls is dropped: after any run, a tick at which a connected slot's phase deadline has
  passed while it waits for the peer, or whose overall deadline has passed with no fresh range to
  extend it, fails the slot and asks the transport to disconnect it.\<close>

theorem stalled_peer_is_dropped:
  assumes r: "r = reader_after B kv evs" and l: "live r i" and d: "overdue E now (sess r i)"
    and s: "reader_step B r (E, Ev_Host (Ev_Tick now)) = (r', outs)"
  shows "ss_phase (sess r' i) = PH_FAILED \<and> Out_Disconnect (ss_conn (sess r i)) \<in> set outs"
proof -
  let ?H = "{reader_after B kv (take m evs) | m. m < length evs}" and ?r = "r\<lparr>rd_out := []\<rparr>"
  have c: "core B ?H ?r" using after_core [of B kv evs] core_cong [of ?r r B ?H] r by simp
  have l': "live ?r i" "sess ?r = sess r" using l by (simp_all add: live_def sess_def fun_eq_iff)
  have e: "r' = tick_replay now (tick_session E now 1 (tick_session E now 0 ?r))" "outs = rd_out r'"
    using s by (auto simp: reader_step_def Let_def reader_tick_on_host_def upt_rec)
  have p: "sess (tick_replay now q) = sess q" "set (rd_out q) \<subseteq> set (rd_out (tick_replay now q))" for q
    by (auto simp: tick_replay_def Let_def emit_def sess_def)
  let ?q = "tick_session E now 0 ?r"
  have c0: "core B ?H ?q" and t0: "sess ?q 1 = sess ?r 1" using tick_other(1,2) [OF c] by simp_all
  have t1: "sess (tick_session E now 1 ?q) 0 = sess ?q 0" "set (rd_out ?q) \<subseteq> set (rd_out (tick_session E now 1 ?q))"
    using tick_other(2,3) [OF c0] by simp_all
  consider "i = 0" | "i = 1" using l by (auto simp: live_def less_two)
  then show ?thesis
  proof cases
    case 1
    then show ?thesis
      using tick_drops [OF c l'(1), of E now] d l' t1 p [of "tick_session E now 1 ?q"] e by auto
  next
    case 2
    have "live ?q 1" "overdue E now (sess ?q 1)" "ss_conn (sess ?q 1) = ss_conn (sess r 1)"
      using 2 l d l' t0 by (auto simp: live_def)
    then show ?thesis
      using 2 tick_drops [OF c0, of 1 E now] p [of "tick_session E now 1 ?q"] e by auto
  qed
qed

theorem stalled_peer_is_dropped_witness:
  "Out_Disconnect 5 \<in> set (snd (reader_step calm_build (reader_after calm_build None [(calm_env, Ev_Host (Ev_Connected 5))])
     (calm_env, Ev_Host (Ev_Tick 6000))))"
proof -
  let ?r = "reader_after calm_build None [(calm_env, Ev_Host (Ev_Connected 5))]"
  obtain r' outs where s: "reader_step calm_build ?r (calm_env, Ev_Host (Ev_Tick 6000)) = (r', outs)" by fastforce
  have c: "rd_sessions ?r = [session_zero\<lparr>ss_active := True, ss_conn := 5, ss_overall_armed := True, ss_overall_deadline := 30000,
      ss_phase_armed := True, ss_phase_deadline := 5000\<rparr>, session_zero]"
    by (simp add: reader_after_def reader_step_def on_connected_def session_alloc_def reader_boot_def sess_def put_sess_def
        session_enter_phase_def calm_env_def session_zero_def Let_def numeral_2_eq_2)
  then have l: "live ?r 0" and d: "overdue calm_env 6000 (sess ?r 0)" and n: "ss_conn (sess ?r 0) = 5"
    by (simp_all add: live_def sess_def overdue_def ms_reached_def session_zero_def)
  show ?thesis using stalled_peer_is_dropped [OF refl l d s] s n by simp
qed

end
