(* ===== verification/Initiator.thy ===== *)
theory Initiator
  imports Cred_Channel
begin

text \<open>
  Discovery and the phone's side of the transport. What the reader publishes over BLE
  (\<^verbatim>\<open>ultrawidelock_advtag.c\<close> and the two emitters of \<^verbatim>\<open>ultrawidelock_ble_nimble.c\<close>), how the initiator decodes
  it (\<^verbatim>\<open>ultrawidelock_ble_central.c\<close>), and the initiator application that arms the device and pumps
  commands through it (\<^verbatim>\<open>examples/zephyr/nrf5340dk-initiator\<close>). The AES block cipher of the tag, the
  address and the clock are arguments. Of the initiator's ranging setup only the opening of a sealed
  message is modelled.
\<close>

section \<open>What the reader publishes\<close>

abbreviation ADVTAG_LEN :: nat where "ADVTAG_LEN \<equiv> 7"
abbreviation ADVTAG_EXPIRY_UNAVAILABLE :: u32 where "ADVTAG_EXPIRY_UNAVAILABLE \<equiv> 0xffffffff"
abbreviation ADV_TAG_VALID_S :: int where "ADV_TAG_VALID_S \<equiv> 900"
abbreviation ADV_TIME_FLOOR :: int where "ADV_TIME_FLOOR \<equiv> 946684800"
abbreviation L2CAP_SPSM :: u16 where "L2CAP_SPSM \<equiv> 0x0080"

definition ultrawidelock_advtag_derive :: "(bytes \<Rightarrow> bytes \<Rightarrow> bytes option) \<Rightarrow> bytes \<Rightarrow> bytes \<Rightarrow> u32 \<Rightarrow> bytes option" where
  "ultrawidelock_advtag_derive aes grk adva_msb expiry_unix =
     (case aes grk (replicate 6 0 @ adva_msb @ put_u32 expiry_unix) of None \<Rightarrow> None | Some enc \<Rightarrow> Some (take ADVTAG_LEN enc))"

definition build_ultrawidelock_svc_data ::
  "(bytes \<Rightarrow> bytes \<Rightarrow> bytes option) \<Rightarrow> bytes option \<Rightarrow> int \<Rightarrow> u8 \<Rightarrow> bytes \<Rightarrow> bytes \<Rightarrow> bytes \<Rightarrow> bytes option" where
  "build_ultrawidelock_svc_data aes adva now tx_power group_id sub_id grk =
     (case adva of
        None \<Rightarrow> None
      | Some a \<Rightarrow>
          let expiry = (if now \<ge> ADV_TIME_FLOOR then of_int now + of_int ADV_TAG_VALID_S else ADVTAG_EXPIRY_UNAVAILABLE)
          in case ultrawidelock_advtag_derive aes grk (rev a) expiry of
               None \<Rightarrow> None
             | Some tag \<Rightarrow> Some ([0xF2, 0xFF, 0x80, tx_power] @ group_id @ sub_id @ put_u32 expiry @ [0] @ tag))"

record ble_features =
  bf_timesync_procedure_0 :: bool
  bf_timesync_procedure_1 :: bool
  bf_le_coded_phy :: bool

definition encode_features :: "ble_features \<Rightarrow> u8" where
  "encode_features f =
     (if bf_timesync_procedure_0 f then 1 else 0) OR (if bf_timesync_procedure_1 f then 2 else 0) OR (if bf_le_coded_phy f then 4 else 0)"

definition build_read_payload :: "u16 list \<Rightarrow> ble_features \<Rightarrow> bytes" where
  "build_read_payload versions f =
     put_u16 L2CAP_SPSM @ [of_nat (length versions * 2)] @ concat (map put_u16 versions) @ [1, encode_features f]"

section \<open>How the initiator reads it\<close>

abbreviation SVC_DATA_LEN :: nat where "SVC_DATA_LEN \<equiv> 26"
abbreviation CENTRAL_MAX_VERSIONS :: nat where "CENTRAL_MAX_VERSIONS \<equiv> 8"

record ble_central_adv =
  ba_flags :: u8
  ba_tx_power :: u8
  ba_group_id :: bytes
  ba_sub_id :: bytes
  ba_expiry :: u32
  ba_tag :: bytes

record ble_central_peer =
  bp_spsm :: u16
  bp_versions :: "u16 list"
  bp_features :: u8

definition ultrawidelock_ble_central_parse_adv :: "bytes \<Rightarrow> ble_central_adv option" where
  "ultrawidelock_ble_central_parse_adv svc_data =
     (if length svc_data \<noteq> SVC_DATA_LEN then None
      else if svc_data ! 0 \<noteq> 0xF2 \<or> svc_data ! 1 \<noteq> 0xFF then None
      else
        let p = drop 2 svc_data
        in Some \<lparr>ba_flags = p ! 0, ba_tx_power = p ! 1, ba_group_id = take 8 (drop 2 p), ba_sub_id = take 2 (drop 10 p),
                ba_expiry = get_u32 (drop 12 p), ba_tag = take ADVTAG_LEN (drop 17 p)\<rparr>)"

definition ultrawidelock_ble_central_adv_matches :: "ble_central_adv \<Rightarrow> bytes \<Rightarrow> bool" where
  "ultrawidelock_ble_central_adv_matches adv reader_id \<longleftrightarrow>
     ba_group_id adv = take 8 reader_id \<and> ba_sub_id adv = take 2 (drop 16 reader_id)"

fun read_versions :: "bytes \<Rightarrow> nat \<Rightarrow> u16 list" where
  "read_versions v 0 = []"
| "read_versions v (Suc n) = get_u16 v # read_versions (drop 2 v) n"

definition ultrawidelock_ble_central_parse_read_payload :: "bytes \<Rightarrow> ble_central_peer option" where
  "ultrawidelock_ble_central_parse_read_payload payload =
     (if length payload < 3 then None
      else
        let vlen = unat (payload ! 2)
        in if odd vlen \<or> vlen > CENTRAL_MAX_VERSIONS * 2 then None
           else if length payload < 3 + vlen + 1 then None
           else
             let flen = unat (payload ! (3 + vlen))
             in if flen < 1 \<or> length payload < 3 + vlen + 1 + flen then None
                else Some \<lparr>bp_spsm = get_u16 payload, bp_versions = read_versions (drop 3 payload) (vlen div 2),
                           bp_features = payload ! (3 + vlen + 1)\<rparr>)"

definition ultrawidelock_ble_central_blesk_salt :: "ble_central_peer \<Rightarrow> u16 \<Rightarrow> nat \<Rightarrow> bytes option" where
  "ultrawidelock_ble_central_blesk_salt peer selected cap =
     (if bp_versions peer = [] then None
      else if cap < 2 * (length (bp_versions peer) + 1) then None
      else Some (concat (map put_u16 (bp_versions peer)) @ put_u16 selected))"

lemma read_versions_put: "read_versions (concat (map put_u16 vs) @ r) (length vs) = vs"
proof (induction vs)
  case (Cons v vs)
  have "drop 2 ((put_u16 v @ concat (map put_u16 vs)) @ r) = concat (map put_u16 vs) @ r" by simp
  then show ?case using Cons by simp
qed simp

lemma length_versions [simp]: "length (concat (map put_u16 vs)) = 2 * length vs"
  by (induction vs) auto

text \<open>What the reader publishes is what the initiator reads, up to eight versions.\<close>

lemma published_is_read:
  assumes "length vs \<le> CENTRAL_MAX_VERSIONS"
  shows "ultrawidelock_ble_central_parse_read_payload (build_read_payload vs f) =
    Some \<lparr>bp_spsm = L2CAP_SPSM, bp_versions = vs, bp_features = encode_features f\<rparr>"
proof -
  let ?p = "build_read_payload vs f" and ?v = "concat (map put_u16 vs)"
  have l: "length ?p = 2 * length vs + 5" by (simp add: build_read_payload_def)
  have n: "?p ! 2 = of_nat (length vs * 2)" "?p ! (3 + 2 * length vs) = 1" "?p ! Suc (3 + 2 * length vs) = encode_features f"
    by (simp_all add: build_read_payload_def nth_append)
  have d: "drop 3 ?p = ?v @ [1, encode_features f]" by (simp add: build_read_payload_def)
  have g: "get_u16 ?p = L2CAP_SPSM" by (simp add: build_read_payload_def)
  have u: "unat (of_nat (length vs * 2) :: u8) = length vs * 2"
    unfolding unat_of_nat using assms by simp
  show ?thesis
    using assms l n d g u read_versions_put [of vs "[1, encode_features f]"]
    by (simp add: ultrawidelock_ble_central_parse_read_payload_def Let_def mult.commute)
qed

text \<open>A reader that advertises under the truncated identifier of \<open>rid\<close> is found by the initiator provisioned for \<open>rid\<close>.\<close>

lemma advert_is_found:
  assumes "length rid = 32" "build_ultrawidelock_svc_data aes adva now tx (take 8 rid) [rid ! 16, rid ! 17] grk = Some svc"
    and "\<forall>k b c. aes k b = Some c \<longrightarrow> length c = 16"
  shows "\<exists>adv. ultrawidelock_ble_central_parse_adv svc = Some adv \<and> ultrawidelock_ble_central_adv_matches adv rid"
proof -
  obtain ex tag where s: "svc = [0xF2, 0xFF, 0x80, tx] @ take 8 rid @ [rid ! 16, rid ! 17] @ put_u32 ex @ [0] @ tag" and t: "length tag = 7"
    using assms(2,3) by (auto simp: build_ultrawidelock_svc_data_def ultrawidelock_advtag_derive_def Let_def split: option.splits)
  have "take 2 (drop 16 rid) = [rid ! 16, rid ! 17]"
    using assms(1) by (auto simp: list_eq_iff_nth_eq less_Suc_eq numeral_2_eq_2 nth_Cons')
  then show ?thesis
    using s t assms(1) by (simp add: ultrawidelock_ble_central_parse_adv_def ultrawidelock_ble_central_adv_matches_def Let_def)
qed

section \<open>The initiator application\<close>

abbreviation INITIATOR_RESP_MAX :: nat where "INITIATOR_RESP_MAX \<equiv> 320"
abbreviation INITIATOR_VERSION :: u16 where "INITIATOR_VERSION \<equiv> 0x0100"
abbreviation RANGING_SDU_MAX :: nat where "RANGING_SDU_MAX \<equiv> 256"

text \<open>The statics of \<^verbatim>\<open>main.c\<close>, and of \<^verbatim>\<open>ranging.c\<close> whether its channel is in use.\<close>

record initiator =
  in_dev :: device
  in_armed :: bool
  in_conn :: u16
  in_ranging :: bool

definition initiator_on_ready :: "prim \<Rightarrow> bytes \<Rightarrow> bytes \<Rightarrow> bytes \<Rightarrow> u16 \<Rightarrow> ble_central_peer \<Rightarrow> initiator \<Rightarrow> initiator \<times> bytes option" where
  "initiator_on_ready P cred_priv reader_id verif_pub conn peer s =
     (let s0 = s\<lparr>in_armed := False\<rparr>
      in case ultrawidelock_device_init P cred_priv reader_id verif_pub of
           None \<Rightarrow> (s0, None)
         | Some d \<Rightarrow>
             (case ultrawidelock_ble_central_blesk_salt peer INITIATOR_VERSION (2 * (CENTRAL_MAX_VERSIONS + 1)) of
                None \<Rightarrow> (s0\<lparr>in_dev := d\<rparr>, None)
              | Some salt \<Rightarrow>
                  (case ultrawidelock_device_set_blesk_salt d salt of
                     (d1, False) \<Rightarrow> (s0\<lparr>in_dev := d1\<rparr>, None)
                   | (d1, True) \<Rightarrow>
                       (s0\<lparr>in_dev := d1, in_conn := conn, in_armed := True\<rparr>,
                        ultrawidelock_ble_frame PROTO_NOTIFICATION NOTIF_INITIATE_AP k_a5_csa_v1 (ENVELOPE_HDR + length k_a5_csa_v1)))))"

text \<open>What one inbound message makes the initiator do: nothing, send a response, or hand an opened ranging message on.\<close>

datatype initiator_out = In_Nothing | In_Send bytes | In_Sdu bytes

definition initiator_ranging_on_sdu :: "prim \<Rightarrow> initiator \<Rightarrow> u16 \<Rightarrow> bytes \<Rightarrow> initiator \<times> initiator_out" where
  "initiator_ranging_on_sdu P s conn wire =
     (if \<not> in_ranging s \<or> conn \<noteq> in_conn s then (s, In_Nothing)
      else case ultrawidelock_dev_ble_open P (dv_sc_ble (in_dev s)) wire RANGING_SDU_MAX of
             (ch, r) \<Rightarrow> (s\<lparr>in_dev := (in_dev s)\<lparr>dv_sc_ble := ch\<rparr>\<rparr>, case r of None \<Rightarrow> In_Nothing | Some plain \<Rightarrow> In_Sdu plain))"

definition initiator_on_data :: "prim \<Rightarrow> (bytes \<times> bytes) option \<Rightarrow> initiator \<Rightarrow> u16 \<Rightarrow> bytes \<Rightarrow> initiator \<times> initiator_out" where
  "initiator_on_data P keygen s conn data =
     (case ultrawidelock_ble_unframe data of
        None \<Rightarrow> (s, In_Nothing)
      | Some (type, opcode, pl) \<Rightarrow>
          if type \<noteq> PROTO_ACCESS \<or> opcode \<noteq> AP_OP_COMMAND then initiator_ranging_on_sdu P s conn data
          else if \<not> in_armed s \<or> conn \<noteq> in_conn s then (s, In_Nothing)
          else case ultrawidelock_device_on_command P keygen (in_dev s) pl INITIATOR_RESP_MAX of
                 (d, None) \<Rightarrow> (s\<lparr>in_dev := d, in_armed := False\<rparr>, In_Nothing)
               | (d, Some resp) \<Rightarrow>
                   (case ultrawidelock_ble_frame PROTO_ACCESS AP_OP_RESPONSE resp (ENVELOPE_HDR + INITIATOR_RESP_MAX) of
                      None \<Rightarrow> (s\<lparr>in_dev := d\<rparr>, In_Nothing)
                    | Some frame \<Rightarrow>
                        (s\<lparr>in_dev := d, in_ranging := (if dv_phase d = DEV_ESTABLISHED then True else in_ranging s)\<rparr>, In_Send frame)))"

end
