(* ===== verification/Reader_Handshake.thy ===== *)
theory Reader_Handshake
  imports Reader_Theorems Initiator
begin

text \<open>
  Reader and device together: an enrolled device that answers as \<^verbatim>\<open>ultrawidelock_device.c\<close> does gets an established session,
  with the same ranging key and the same ranging channel at both ends. Each handler is shown to take its good branch
  and to say exactly what it leaves in its slot; the composition is the last section.
\<close>

section \<open>Frames\<close>

definition ap_frame :: "u8 \<Rightarrow> bytes \<Rightarrow> bytes" where
  "ap_frame ins tlv =
     (let apdu = [0x80, ins, 0, 0, of_nat (length tlv)] @ tlv @ [0]
      in [PROTO_ACCESS, AP_OP_COMMAND, of_nat (length apdu div 256), of_nat (length apdu)] @ apdu)"

lemma send_ap_ok:
  "tlv \<noteq> [] \<Longrightarrow> length tlv \<le> 250 \<Longrightarrow> en_send E = (\<lambda>_ _. True) \<Longrightarrow>
   send_ap_command E r conn ins tlv = (emit (Out_Send conn (ap_frame ins tlv)) r, True)"
  by (simp add: send_ap_command_def ultrawidelock_apdu_wrap_def ble_send_def ap_frame_def Let_def)

definition resp_frame :: "bytes \<Rightarrow> bytes" where
  "resp_frame pl = [PROTO_ACCESS, AP_OP_RESPONSE, of_nat (length pl div 256), of_nat (length pl)] @ pl"

lemma resp_frame_eq: "length pl \<le> INITIATOR_RESP_MAX \<Longrightarrow> ultrawidelock_ble_frame PROTO_ACCESS AP_OP_RESPONSE pl (4 + INITIATOR_RESP_MAX) = Some (resp_frame pl)"
  by (simp add: ultrawidelock_ble_frame_def resp_frame_def Let_def)

lemma unframe_resp:
  assumes "length pl \<le> INITIATOR_RESP_MAX"
  shows "ultrawidelock_ble_unframe (resp_frame pl) = Some (PROTO_ACCESS, AP_OP_RESPONSE, pl)" "length (resp_frame pl) = 4 + length pl"
  using unframe_frame(1) [OF resp_frame_eq [OF assms], of "[]"] unframe_frame(2) [OF resp_frame_eq [OF assms]] by simp_all

lemma unwraps: "tlv \<noteq> [] \<Longrightarrow> length tlv \<le> 250 \<Longrightarrow> ultrawidelock_apdu_unwrap ([0x80, ins, 0, 0, of_nat (length tlv)] @ tlv @ [0]) = Some (ins, tlv)"
  by (rule unwrap_wrap [of ins tlv 256]) (simp add: ultrawidelock_apdu_wrap_def)

lemma initiator_answers:
  assumes "tlv \<noteq> []" "length tlv \<le> 250" "in_armed s" "in_conn s = conn"
    and "(if ins = INS_AUTH0 then dev_on_auth0 kg (in_dev s) tlv INITIATOR_RESP_MAX else if ins = INS_AUTH1 then dev_on_auth1 P (in_dev s) tlv INITIATOR_RESP_MAX
          else if ins = INS_EXCHANGE then dev_on_exchange P (in_dev s) tlv INITIATOR_RESP_MAX else dev_fail (in_dev s)) = (d, Some resp)"
    and "length resp \<le> INITIATOR_RESP_MAX"
  shows "initiator_on_data P kg s conn (ap_frame ins tlv) =
    (s\<lparr>in_dev := d, in_ranging := (if dv_phase d = DEV_ESTABLISHED then True else in_ranging s)\<rparr>, In_Send (resp_frame resp))"
proof -
  let ?apdu = "[0x80, ins, 0, 0, of_nat (length tlv)] @ tlv @ [0]"
  have "ultrawidelock_ble_frame PROTO_ACCESS AP_OP_COMMAND ?apdu 512 = Some (ap_frame ins tlv)"
    using assms(2) by (simp add: ultrawidelock_ble_frame_def ap_frame_def Let_def)
  then have "ultrawidelock_ble_unframe (ap_frame ins tlv) = Some (PROTO_ACCESS, AP_OP_COMMAND, ?apdu)"
    using unframe_frame(1) [of _ _ ?apdu 512 "ap_frame ins tlv" "[]"] by simp
  moreover have "ultrawidelock_device_on_command P kg (in_dev s) ?apdu INITIATOR_RESP_MAX = (d, Some resp)"
    unfolding ultrawidelock_device_on_command_def unwraps [OF assms(1,2)] using assms(5) by simp
  ultimately show ?thesis using assms(3,4) resp_frame_eq [OF assms(6)] by (simp add: initiator_on_data_def)
qed

section \<open>Slots\<close>

text \<open>The reader differs from the one at the start in one slot; identity, group key, adapter and state are the same.\<close>

definition stage :: "reader \<Rightarrow> nat \<Rightarrow> session \<Rightarrow> reader \<Rightarrow> bool" where
  "stage r0 i s r \<longleftrightarrow>
     i < length (rd_sessions r0) \<and> rd_sessions r = (rd_sessions r0)[i := s] \<and> rd_id r = rd_id r0 \<and> rd_group_x r = rd_group_x r0 \<and>
     rd_prov r = rd_prov r0 \<and> rd_adapter r = rd_adapter r0"

lemma stageD:
  assumes "stage r0 i s r"
  shows stage_sess: "sess r i = s" and stage_id: "rd_id r = rd_id r0" and stage_gx: "rd_group_x r = rd_group_x r0"
    and stage_prov: "rd_prov r = rd_prov r0" and stage_adapter: "rd_adapter r = rd_adapter r0"
  using assms by (simp_all add: stage_def sess_def)

lemma stage_less: "stage r0 i s r \<Longrightarrow> i < length (rd_sessions r)"
  by (simp add: stage_def)

lemma sess_put_self: "i < length (rd_sessions r) \<Longrightarrow> sess (put_sess r i s) i = s"
  by (simp add: sess_def put_sess_def)

lemma strip_response: "ultrawidelock_apdu_strip_sw (ct @ tag @ put_u16 0x9000) = Some (ct @ tag, 0x9000)"
  using strip_sw_append [of "ct @ tag" "0x9000"] by simp

lemma stage_put: "stage r0 i s r \<Longrightarrow> stage r0 i s' (put_sess r i s')"
  by (auto simp: stage_def put_sess_def)

lemma stage_emit [simp]: "stage r0 i s (emit x r) = stage r0 i s r"
  by (simp add: stage_def emit_def)

lemma stage_upd [simp]:
  "stage r0 i s (r\<lparr>rd_spare := a\<rparr>) = stage r0 i s r" "stage r0 i s (r\<lparr>rd_last_cred := b\<rparr>) = stage r0 i s r"
  "stage r0 i s (publish_auth r c) = stage r0 i s r" "stage r0 i s (remember_mru r c) = stage r0 i s r"
  "stage r0 i s (commit_kpersistent r c p) = stage r0 i s r" "stage r0 i s (arm_replay E r) = stage r0 i s r"
  by (auto simp: stage_def publish_auth_def remember_mru_def commit_kpersistent_def arm_replay_def Let_def split: option.split prod.split)

lemma stage_enter: "stage r0 i s r \<Longrightarrow> stage r0 i (entered E ph s) (session_enter_phase E r i ph)"
  by (auto simp: stage_def enter_eq put_sess_def sess_def)

section \<open>The reader's good branches\<close>

definition auth0_tlv :: "reader \<Rightarrow> u8 \<Rightarrow> bytes \<Rightarrow> bytes \<Rightarrow> bytes" where
  "auth0_tlv r ph pub txid = concat (map item_bytes (auth0_items ph 1 READER_VERSION pub txid (id_reader_id (rd_id r))))"

lemma auth0_tlv_size:
  assumes "length pub = 65" "length txid = 16" "length (id_reader_id (rd_id r)) = 32"
  shows "length (auth0_tlv r ph pub txid) = 129"
  using assms by (simp add: auth0_tlv_def auth0_items_def item_bytes_def tlv_length_bytes_def put_u16_def)

definition ephemeral_ready :: "renv \<Rightarrow> reader \<Rightarrow> bytes \<Rightarrow> bytes \<Rightarrow> bytes \<Rightarrow> bool" where
  "ephemeral_ready E r priv pub txid \<longleftrightarrow>
     rd_spare r = Some (priv, pub, txid) \<or> rd_spare r = None \<and> en_keygen E = Some (priv, pub) \<and> en_random E = Some txid"

lemma start_auth_ok:
  assumes st: "stage r0 i s r" and prov: "rd_prov r0 = PROVISIONING_READY" and eph: "ephemeral_ready E r priv pub txid"
    and len: "length pub = 65" "length txid = 16" "length (id_reader_id (rd_id r0)) = 32" and snd: "en_send E = (\<lambda>_ _. True)"
  shows "stage r0 i (entered E PH_SENT_AUTH0 (s\<lparr>ss_eph_priv := priv, ss_eph_pub := pub, ss_txid := txid, ss_exp_phase := exp_phase_of (rd_trust r)\<rparr>))
           (start_auth B E r i) \<and>
         rd_trust (start_auth B E r i) = rd_trust r \<and>
         rd_out (start_auth B E r i) = rd_out r @ [Out_Send (ss_conn s) (ap_frame INS_AUTH0 (auth0_tlv r0 (exp_phase_of (rd_trust r)) pub txid))]"
proof -
  let ?s = "s\<lparr>ss_eph_priv := priv, ss_eph_pub := pub, ss_txid := txid\<rparr>"
  obtain q where q: "take_ephemeral E r i = (q, True)" "stage r0 i ?s q" "rd_trust q = rd_trust r" "rd_out q = rd_out r"
  proof (cases "rd_spare r")
    case None
    then have k: "en_keygen E = Some (priv, pub)" "en_random E = Some txid" using eph by (auto simp: ephemeral_ready_def)
    let ?r1 = "put_sess r i (s\<lparr>ss_eph_priv := priv, ss_eph_pub := pub\<rparr>)"
    have "stage r0 i (s\<lparr>ss_eph_priv := priv, ss_eph_pub := pub\<rparr>) ?r1" by (rule stage_put [OF st])
    then show thesis
      using that [of "put_sess ?r1 i ?s"] None k stage_put [of r0 i _ ?r1 ?s]
      by (simp add: take_ephemeral_def Let_def stage_sess [OF st] stage_sess)
  next
    case (Some x)
    then have "x = (priv, pub, txid)" using eph by (auto simp: ephemeral_ready_def)
    then show thesis
      using that [of "put_sess (r\<lparr>rd_spare := None\<rparr>) i ?s"] Some st stage_put [of r0 i s "r\<lparr>rd_spare := None\<rparr>" ?s]
      by (simp add: take_ephemeral_def stage_sess [OF st])
  qed
  let ?s1 = "?s\<lparr>ss_exp_phase := exp_phase_of (rd_trust r)\<rparr>" and ?q = "put_sess q i (?s\<lparr>ss_exp_phase := exp_phase_of (rd_trust r)\<rparr>)"
  have p: "stage r0 i ?s1 ?q" by (rule stage_put [OF q(2)])
  let ?tlv = "auth0_tlv r0 (exp_phase_of (rd_trust r)) pub txid"
  have b: "ultrawidelock_apdu_build_auth0 (exp_phase_of (rd_trust r)) 1 READER_VERSION pub txid (id_reader_id (rd_id r0)) 160 = Some ?tlv"
    using auth0_tlv_size [OF len] by (simp add: auth0_is_items auth0_tlv_def Let_def)
  have "send_ap_command E ?q (ss_conn s) INS_AUTH0 ?tlv = (emit (Out_Send (ss_conn s) (ap_frame INS_AUTH0 ?tlv)) ?q, True)"
    by (rule send_ap_ok) (use auth0_tlv_size [OF len, of "exp_phase_of (rd_trust r)"] snd in auto)
  then have "start_auth B E r i = session_enter_phase E (emit (Out_Send (ss_conn s) (ap_frame INS_AUTH0 ?tlv)) ?q) i PH_SENT_AUTH0"
    using q b prov stage_prov [OF st] by (simp add: start_auth_def Let_def stage_sess [OF q(2)] stage_id [OF q(2)])
  then show ?thesis using stage_enter [of r0 i ?s1 "emit (Out_Send (ss_conn s) (ap_frame INS_AUTH0 ?tlv)) ?q" E PH_SENT_AUTH0] p q by simp
qed

definition auth1_tlv :: "bytes \<Rightarrow> bytes" where
  "auth1_tlv sig = concat (map item_bytes [(TAG_EXP_PHASE, [1]), (TAG_SIG, sig)])"

lemma auth1_build: "length sig = 64 \<Longrightarrow> ultrawidelock_apdu_build_auth1 1 sig 128 = Some (auth1_tlv sig) \<and> length (auth1_tlv sig) = 69"
proof -
  assume l: "length sig = 64"
  have n: "length (auth1_tlv sig) = 69" using l by (simp add: auth1_tlv_def item_bytes_def tlv_length_bytes_def)
  have "ultrawidelock_apdu_build_auth1 1 sig 128 = ultrawidelock_tlv_w_finish (foldl w_byte (ultrawidelock_tlv_w_init 128) (auth1_tlv sig))"
    by (simp add: ultrawidelock_apdu_build_auth1_def ultrawidelock_tlv_put_u8_def put_bytes auth1_tlv_def)
  then show ?thesis unfolding w_init_bytes using n by simp
qed

lemma authdata_ok:
  assumes "length rid = 32" "length dx = 32" "length ex = 32" "length txid = 16"
  shows "\<exists>td. ultrawidelock_apdu_build_authdata rd rid dx ex txid 160 = Some td"
  using assms by (simp add: authdata_is_items Let_def authdata_items_def item_bytes_def tlv_length_bytes_def k_reader_usage_def k_user_device_usage_def)

lemma on_auth0_ok:
  assumes st: "stage r0 i s r" and dpub: "length dpub = 65" and dh: "ecdh (rb_prim B) (ss_eph_priv s) dpub = Some shared"
    and td: "ultrawidelock_apdu_build_authdata True (id_reader_id (rd_id r0)) (x_of dpub) (x_of (ss_eph_pub s)) (ss_txid s) 160 = Some td"
    and sig: "ecdsa_sign (rb_prim B) (id_sign_priv (rd_id r0)) td = Some sig" "length sig = 64" and snd: "en_send E = (\<lambda>_ _. True)"
  defines "r' \<equiv> on_auth0_response B E r i (item_bytes (TAG_DEVICE_PUBX, dpub) @ put_u16 0x9000)"
  shows "stage r0 i (entered E PH_SENT_AUTH1 (s\<lparr>ss_dev_eph := dpub, ss_z := ultrawidelock_crypto_derive_z shared (ss_txid s)\<rparr>)) r' \<and>
         rd_trust r' = rd_trust r \<and> rd_out r' = rd_out r @ [Out_Send (ss_conn s) (ap_frame INS_AUTH1 (auth1_tlv sig))]"
proof -
  have f: "ultrawidelock_tlv_find (item_bytes (TAG_DEVICE_PUBX, dpub)) t = map_of [(TAG_DEVICE_PUBX, dpub)] t" for t
    using find_written [of "[(TAG_DEVICE_PUBX, dpub)]" t] dpub by simp
  let ?s1 = "s\<lparr>ss_dev_eph := dpub\<rparr>" and ?s2 = "s\<lparr>ss_dev_eph := dpub, ss_z := ultrawidelock_crypto_derive_z shared (ss_txid s)\<rparr>"
  let ?q1 = "put_sess r i ?s1" let ?q2 = "put_sess ?q1 i ?s2"
  have p1: "stage r0 i ?s1 ?q1" by (rule stage_put [OF st])
  have p2: "stage r0 i ?s2 ?q2" by (rule stage_put [OF p1])
  have "send_ap_command E ?q2 (ss_conn s) INS_AUTH1 (auth1_tlv sig) = (emit (Out_Send (ss_conn s) (ap_frame INS_AUTH1 (auth1_tlv sig))) ?q2, True)"
    by (rule send_ap_ok) (use auth1_build [OF sig(2)] snd in auto)
  then have "send_auth1 B E ?q1 i = session_enter_phase E (emit (Out_Send (ss_conn s) (ap_frame INS_AUTH1 (auth1_tlv sig))) ?q2) i PH_SENT_AUTH1"
    using dh td sig auth1_build [OF sig(2)] by (simp add: send_auth1_def Let_def sess_put_self stage_less [OF st] stage_id [OF st])
  moreover have "r' = send_auth1 B E ?q1 i"
    unfolding r'_def using f dpub by (simp add: on_auth0_response_def strip_sw_append ultrawidelock_apdu_parse_auth0_response_def Let_def stage_sess [OF st])
  ultimately show ?thesis
    using stage_enter [of r0 i ?s2 "emit (Out_Send (ss_conn s) (ap_frame INS_AUTH1 (auth1_tlv sig))) ?q2" E PH_SENT_AUTH1] p2 by simp
qed

lemma exchange_sent:
  assumes st: "stage r0 i s r" and sc: "sc_enc_ctr (ss_sc s) \<noteq> 0xffffffff"
    and e: "gcm_encrypt (rb_prim B) (sc_enc_key (ss_sc s)) (ultrawidelock_crypto_gcm_nonce 0 (sc_enc_ctr (ss_sc s))) [] [0x98, 0] = Some (ct, tag)"
    and l: "length ct = 2" "length tag = 16" and snd: "en_send E = (\<lambda>_ _. True)"
  defines "s' \<equiv> s\<lparr>ss_sc := (ss_sc s)\<lparr>sc_enc_ctr := sc_enc_ctr (ss_sc s) + 1\<rparr>\<rparr>"
  shows "send_exchange B E r i =
    (session_enter_phase E (emit (Out_Send (ss_conn s) (ap_frame INS_EXCHANGE (ct @ tag))) (put_sess r i s')) i PH_SENT_EXCHANGE, True)"
proof -
  have p: "stage r0 i s' (put_sess r i s')" by (rule stage_put [OF st])
  have "send_ap_command E (put_sess r i s') (ss_conn s) INS_EXCHANGE (ct @ tag) =
      (emit (Out_Send (ss_conn s) (ap_frame INS_EXCHANGE (ct @ tag))) (put_sess r i s'), True)"
    by (rule send_ap_ok) (use l snd in auto)
  then show ?thesis
    using e sc by (simp add: send_exchange_def exchange_plain ultrawidelock_secchan_seal_def Let_def stage_sess [OF st] sess_put_self stage_less [OF st] s'_def)
qed

definition auth1_plain :: "bytes \<Rightarrow> bytes \<Rightarrow> bytes" where
  "auth1_plain sig pub = concat (map item_bytes [(TAG_SIG, sig), (TAG_DEVICE_PUB, pub)])"

lemma auth1_plain_parses:
  assumes "length sig = 64" "length pub = 65"
  shows "length (auth1_plain sig pub) = 133"
    and "ultrawidelock_apdu_parse_auth1_response (auth1_plain sig pub) =
      Some \<lparr>a1_have_device_pub = True, a1_device_pub = pub, a1_device_sig = sig, a1_signaling = 0\<rparr>"
proof -
  show "length (auth1_plain sig pub) = 133" using assms by (simp add: auth1_plain_def item_bytes_def tlv_length_bytes_def)
  have "ultrawidelock_tlv_find (auth1_plain sig pub) t = map_of [(TAG_SIG, sig), (TAG_DEVICE_PUB, pub)] t" for t
    unfolding auth1_plain_def by (rule find_written) (use assms in auto)
  then show "ultrawidelock_apdu_parse_auth1_response (auth1_plain sig pub) =
      Some \<lparr>a1_have_device_pub = True, a1_device_pub = pub, a1_device_sig = sig, a1_signaling = 0\<rparr>"
    using assms by (simp add: ultrawidelock_apdu_parse_auth1_response_def Let_def)
qed

text \<open>The keys of a block: both directions of the transaction channel, both of the ranging channel.\<close>

definition enc_of :: "bytes \<Rightarrow> bytes" where "enc_of block = take 32 block"
definition dec_of :: "bytes \<Rightarrow> bytes" where "dec_of block = take 32 (drop 32 block)"
definition ursk_of :: "bytes \<Rightarrow> bytes" where "ursk_of block = take 32 (drop 128 block)"

lemma split_block: "ultrawidelock_crypto_split block True = (enc_of block, dec_of block, ursk_of block)"
  by (simp add: ultrawidelock_crypto_split_def Let_def enc_of_def dec_of_def ursk_of_def)

definition sc_at :: "bytes \<Rightarrow> u32 \<Rightarrow> u32 \<Rightarrow> secchan" where
  "sc_at block n m = \<lparr>sc_enc_key = enc_of block, sc_dec_key = dec_of block, sc_enc_ctr = n, sc_dec_ctr = m\<rparr>"

lemma sc_at_simps [simp]:
  "sc_enc_key (sc_at b n m) = enc_of b" "sc_dec_key (sc_at b n m) = dec_of b" "sc_enc_ctr (sc_at b n m) = n" "sc_dec_ctr (sc_at b n m) = m"
  "(sc_at b n m)\<lparr>sc_enc_ctr := k\<rparr> = sc_at b k m" "(sc_at b n m)\<lparr>sc_dec_ctr := k\<rparr> = sc_at b n k"
  "ultrawidelock_secchan_init (enc_of b) (dec_of b) = sc_at b 1 1"
  by (simp_all add: sc_at_def ultrawidelock_secchan_init_def)

lemma on_auth1_ok:
  assumes st: "stage r0 i s r" and gx: "rd_group_x r0 = Some gx" and blk: "standard_block r0 gx s = Some block"
    and ble: "ultrawidelock_crypto_derive_ble_keys block ble_salt = Some (br, bd)"
    and dec: "gcm_decrypt (rb_prim B) (dec_of block) (ultrawidelock_crypto_gcm_nonce 1 1) [] ct tag = Some (auth1_plain sig pub)"
    and len: "length ct = 133" "length tag = 16" "length sig = 64" "length pub = 65"
    and td: "ultrawidelock_apdu_build_authdata False (id_reader_id (rd_id r0)) (x_of (ss_dev_eph s)) (x_of (ss_eph_pub s)) (ss_txid s) 160 = Some td"
    and ver: "ecdsa_verify (rb_prim B) pub td sig" and tr: "ultrawidelock_prov_trust_check (rd_trust r) pub = 0"
    and enc: "gcm_encrypt (rb_prim B) (enc_of block) (ultrawidelock_crypto_gcm_nonce 0 1) [] [0x98, 0] = Some (ct2, tag2)" "length ct2 = 2" "length tag2 = 16"
    and snd: "en_send E = (\<lambda>_ _. True)"
  defines "r' \<equiv> on_auth1_response B E r i ((ct @ tag) @ put_u16 0x9000)"
  shows "stage r0 i (entered E PH_SENT_EXCHANGE (s\<lparr>ss_ursk := ursk_of block, ss_sc := sc_at block 2 2, ss_sc_ble := ultrawidelock_secchan_init br bd\<rparr>)) r' \<and>
         rd_auth_cred r' = Some pub \<and>
         rd_out r' = rd_out r @ [Out_Send (ss_conn s) (ap_frame INS_EXCHANGE (ct2 @ tag2)), Out_Access True]"
proof -
  let ?s1 = "s\<lparr>ss_ursk := ursk_of block, ss_sc := sc_at block 1 1\<rparr>"
  let ?s2 = "?s1\<lparr>ss_sc_ble := ultrawidelock_secchan_init br bd\<rparr>" let ?s3 = "?s2\<lparr>ss_sc := sc_at block 1 2\<rparr>" let ?s4 = "?s2\<lparr>ss_sc := sc_at block 2 2\<rparr>"
  let ?q1 = "put_sess r i ?s1" let ?q2 = "put_sess ?q1 i ?s2" let ?q3 = "put_sess ?q2 i ?s3" let ?q4 = "?q3\<lparr>rd_last_cred := Some pub\<rparr>"
  have p1: "stage r0 i ?s1 ?q1" by (rule stage_put [OF st])
  have p2: "stage r0 i ?s2 ?q2" by (rule stage_put [OF p1])
  have p3: "stage r0 i ?s3 ?q3" by (rule stage_put [OF p2])
  have p4: "stage r0 i ?s3 ?q4" using p3 by simp
  have sb: "standard_block r gx s = Some block"
    using blk stage_id [OF st] by (simp add: standard_block_def session_salt_def)
  have v: "auth1_open B E ?q2 i gx (ct @ tag) = auth1_verify B E ?q3 i gx \<lparr>a1_have_device_pub = True, a1_device_pub = pub, a1_device_sig = sig, a1_signaling = 0\<rparr>"
    using len dec auth1_plain_parses [OF len(3,4)]
    by (simp add: auth1_open_def Let_def sess_put_self stage_less [OF st] ultrawidelock_secchan_open_def)
  have t: "auth1_verify B E ?q3 i gx \<lparr>a1_have_device_pub = True, a1_device_pub = pub, a1_device_sig = sig, a1_signaling = 0\<rparr> = auth1_trusted B E ?q4 i gx pub 0"
    using td ver tr by (simp add: auth1_verify_def Let_def sess_put_self stage_less [OF st] stage_id [OF st])
  have m: "r' = auth1_trusted B E ?q4 i gx pub 0"
    unfolding r'_def using gx stage_gx [OF st] sb ble v t
    by (simp add: on_auth1_response_def strip_response stage_sess [OF st] split_block init_ble_channel_def Let_def sess_put_self stage_less [OF st])
  have e: "send_exchange B E ?q4 i =
      (session_enter_phase E (emit (Out_Send (ss_conn s) (ap_frame INS_EXCHANGE (ct2 @ tag2))) (put_sess ?q4 i ?s4)) i PH_SENT_EXCHANGE, True)"
    using exchange_sent [OF p4, of B ct2 tag2 E] enc snd by simp
  let ?q5 = "session_enter_phase E (emit (Out_Send (ss_conn s) (ap_frame INS_EXCHANGE (ct2 @ tag2))) (put_sess ?q4 i ?s4)) i PH_SENT_EXCHANGE"
  have p5: "stage r0 i (entered E PH_SENT_EXCHANGE ?s4) ?q5" by (rule stage_enter) (use stage_put [OF p4] in simp)
  have o: "rd_out (commit_kpersistent q c k) = rd_out q" for q c k
    by (auto simp: commit_kpersistent_def Let_def split: option.split prod.split)
  have so: "?s4 = s\<lparr>ss_ursk := ursk_of block, ss_sc := sc_at block 2 2, ss_sc_ble := ultrawidelock_secchan_init br bd\<rparr>" by simp
  have out: "rd_out ?q5 = rd_out r @ [Out_Send (ss_conn s) (ap_frame INS_EXCHANGE (ct2 @ tag2))]" by simp
  define q5 where "q5 = ?q5"
  have "r' = emit (Out_Access True) (remember_mru (publish_auth (commit_kpersistent q5 pub (pending_kpersistent ?q4 gx (sess ?q4 i) pub)) pub) pub)"
    unfolding m auth1_trusted_def Let_def e q5_def by simp
  then obtain k where k: "r' = emit (Out_Access True) (remember_mru (publish_auth (commit_kpersistent q5 pub k) pub) pub)" by blast
  have "stage r0 i (entered E PH_SENT_EXCHANGE ?s4) r'" unfolding k using p5 by (simp add: q5_def)
  moreover have "rd_auth_cred r' = Some pub" "rd_out r' = rd_out q5 @ [Out_Access True]"
    unfolding k by (simp_all add: publish_auth_def remember_mru_def emit_def o)
  moreover have "rd_out q5 = rd_out r @ [Out_Send (ss_conn s) (ap_frame INS_EXCHANGE (ct2 @ tag2))]" unfolding q5_def by (rule out)
  ultimately show ?thesis unfolding so by simp
qed

lemma on_exchange_ok:
  assumes st: "stage r0 i s r" and sc: "ss_sc s = sc_at block 2 2"
    and dec: "gcm_decrypt (rb_prim B) (dec_of block) (ultrawidelock_crypto_gcm_nonce 1 2) [] ct tag = Some [0, 2, 0, 0]"
    and len: "length ct = 4" "length tag = 16" and gate: "\<not> rg_primed (ss_rgate s)"
    and seal: "ultrawidelock_msg_seal (rb_prim B) (ss_sc_ble s) k_ap_completed_plain 64 = (ble', Some wire)"
    and ad: "rd_adapter r0" and E: "en_send E = (\<lambda>_ _. True)" "en_start E = (\<lambda>_ _ _. True)"
  defines "r' \<equiv> on_exchange_response B E r i ((ct @ tag) @ put_u16 0x9000)"
  shows "stage r0 i (entered E PH_ESTABLISHED (s\<lparr>ss_sc := sc_at block 2 3, ss_sc_ble := ble'\<rparr>)) r' \<and> rd_rg_active r' \<and> rd_rg_sc r' = Some i \<and>
         rd_rg_conn r' = ss_conn s \<and> rd_auth_cred r' = rd_auth_cred r \<and>
         (\<exists>mid. rd_out r' = rd_out r @ [Out_Send (ss_conn s) wire] @ mid @ [Out_Ranging (ss_conn s) (get_u32 (drop 12 (ss_txid s))) (ss_ursk s)] \<and>
            (\<forall>x\<in>set mid. \<exists>c. x = Out_Ranging_Stop c))"
proof -
  let ?s1 = "s\<lparr>ss_sc := sc_at block 2 3\<rparr>" let ?s2 = "?s1\<lparr>ss_sc_ble := ble'\<rparr>"
  let ?q1 = "put_sess r i ?s1" let ?q2 = "put_sess ?q1 i ?s2" let ?q3 = "emit (Out_Send (ss_conn s) wire) ?q2"
  have p1: "stage r0 i ?s1 ?q1" by (rule stage_put [OF st])
  have p2: "stage r0 i ?s2 ?q2" by (rule stage_put [OF p1])
  define mid where "mid = (if rd_rg_active r then [Out_Ranging_Stop (rd_rg_conn r)] else [])"
  define q4 where "q4 = (if rd_rg_active ?q3 then ultrawidelock_ranging_stop ?q3 (rd_rg_conn ?q3) else ?q3)"
  define q5 where "q5 = emit (Out_Ranging (ss_conn s) (get_u32 (drop 12 (ss_txid s))) (ss_ursk s))
     (q4\<lparr>rd_rg_sc := Some i, rd_rg_conn := ss_conn s, rd_rg_active := True, rd_rg_failed := False\<rparr>)"
  have a: "rd_adapter ?q3" using ad stage_adapter [OF p2] by simp
  have st': "ultrawidelock_ranging_start E ?q3 (ss_conn s) (get_u32 (drop 12 (ss_txid s))) (ss_ursk s) i = (q5, True)"
    using a E unfolding ultrawidelock_ranging_start_def Let_def q4_def q5_def by simp
  have "complete_ap_and_range B E ?q1 i = arm_replay E (session_enter_phase E q5 i PH_ESTABLISHED)"
    unfolding complete_ap_and_range_def stage_sess [OF p1] using seal st' E stage_sess [OF p2] by (simp add: ble_send_def Let_def)
  moreover have "r' = complete_ap_and_range B E ?q1 i"
    unfolding r'_def using dec sc len gate
    by (simp add: on_exchange_response_def strip_response Let_def stage_sess [OF st] ultrawidelock_secchan_open_def gated_complete_ap_def sess_put_self stage_less [OF st])
  ultimately have r': "r' = arm_replay E (session_enter_phase E q5 i PH_ESTABLISHED)" by simp
  have q4: "stage r0 i ?s2 q4" "rd_out q4 = rd_out r @ [Out_Send (ss_conn s) wire] @ mid" "rd_auth_cred q4 = rd_auth_cred r"
    using p2 unfolding q4_def mid_def by (auto simp: ultrawidelock_ranging_stop_def stage_def put_sess_def emit_def)
  have "stage r0 i ?s2 q5" using q4(1) by (simp add: q5_def stage_def emit_def)
  then have st5: "stage r0 i (entered E PH_ESTABLISHED ?s2) r'" unfolding r' using stage_enter by simp
  have ar: "rd_out (arm_replay E q) = rd_out q" "rd_auth_cred (arm_replay E q) = rd_auth_cred q" "rd_rg_active (arm_replay E q) = rd_rg_active q"
    "rd_rg_sc (arm_replay E q) = rd_rg_sc q" "rd_rg_conn (arm_replay E q) = rd_rg_conn q" for q
    by (auto simp: arm_replay_def Let_def)
  have "rd_rg_active r' \<and> rd_rg_sc r' = Some i \<and> rd_rg_conn r' = ss_conn s \<and> rd_auth_cred r' = rd_auth_cred r \<and>
      rd_out r' = rd_out r @ [Out_Send (ss_conn s) wire] @ mid @ [Out_Ranging (ss_conn s) (get_u32 (drop 12 (ss_txid s))) (ss_ursk s)]"
    unfolding r' ar by (simp add: enter_eq q5_def q4 put_sess_def emit_def)
  moreover have "\<forall>x\<in>set mid. \<exists>c. x = Out_Ranging_Stop c" by (simp add: mid_def)
  ultimately show ?thesis using st5 by blast
qed

section \<open>The device's answers\<close>

lemma auth0_parses:
  assumes "length pub = 65" "length txid = 16" "length (id_reader_id (rd_id r)) = 32"
  shows "ultrawidelock_dev_parse_auth0_cmd (auth0_tlv r ph pub txid) =
    Some \<lparr>c0_exp_phase = ph, c0_user_policy = 1, c0_version = READER_VERSION, c0_reader_eph_pub = pub, c0_txid = txid, c0_reader_id = id_reader_id (rd_id r)\<rparr>"
proof -
  have "ultrawidelock_tlv_find (auth0_tlv r ph pub txid) t = map_of (auth0_items ph 1 READER_VERSION pub txid (id_reader_id (rd_id r))) t" for t
    unfolding auth0_tlv_def by (rule find_written) (use assms in \<open>auto simp: auth0_items_def\<close>)
  then show ?thesis
    using assms get_put_u16 [of READER_VERSION "[]"] by (simp add: ultrawidelock_dev_parse_auth0_cmd_def tlv_exact_def auth0_items_def)
qed

lemma auth1_parses:
  assumes "length sig = 64"
  shows "ultrawidelock_dev_parse_auth1_cmd (auth1_tlv sig) = Some \<lparr>c1_cred_type = 1, c1_reader_sig = sig\<rparr>"
proof -
  have "ultrawidelock_tlv_find (auth1_tlv sig) t = map_of [(TAG_EXP_PHASE, [1]), (TAG_SIG, sig)] t" for t
    unfolding auth1_tlv_def by (rule find_written) (use assms in auto)
  then show ?thesis using assms by (simp add: ultrawidelock_dev_parse_auth1_cmd_def tlv_exact_def Let_def)
qed

definition auth0_resp :: "bytes \<Rightarrow> bytes" where
  "auth0_resp dpub = item_bytes (TAG_DEVICE_PUBX, dpub) @ put_u16 0x9000"

lemma device_auth0:
  assumes len: "length pub = 65" "length txid = 16" "length (id_reader_id (rd_id r)) = 32" "length dpub = 65"
    and s: "in_armed s" "in_conn s = conn" "in_dev s = d" "dv_reader_id d = id_reader_id (rd_id r)"
  shows "initiator_on_data P (Some (dpriv, dpub)) s conn (ap_frame INS_AUTH0 (auth0_tlv r ph pub txid)) =
    (s\<lparr>in_dev := d\<lparr>dv_reader_eph_pub := pub, dv_txid := txid, dv_exp_phase := ph, dv_eph_priv := dpriv, dv_eph_pub := dpub, dv_phase := DEV_SENT_AUTH0_RESP\<rparr>\<rparr>,
     In_Send (resp_frame (auth0_resp dpub)))"
proof -
  let ?tlv = "auth0_tlv r ph pub txid"
  note n = auth0_tlv_size [OF len(1-3), of ph]
  have l: "length (item_bytes (TAG_DEVICE_PUBX, dpub)) = 67" using len(4) by (simp add: item_bytes_def tlv_length_bytes_def)
  have b: "ultrawidelock_dev_build_auth0_resp dpub None INITIATOR_RESP_MAX = Some (item_bytes (TAG_DEVICE_PUBX, dpub))"
    unfolding ultrawidelock_dev_build_auth0_resp_def Let_def option.case put_bytes w_init_bytes using l by simp
  let ?d = "d\<lparr>dv_reader_eph_pub := pub, dv_txid := txid, dv_exp_phase := ph, dv_eph_priv := dpriv, dv_eph_pub := dpub, dv_phase := DEV_SENT_AUTH0_RESP\<rparr>"
  have "dev_on_auth0 (Some (dpriv, dpub)) (in_dev s) ?tlv INITIATOR_RESP_MAX = (?d, Some (auth0_resp dpub))"
    using n auth0_parses [OF len(1-3), of ph] s b l by (simp add: dev_on_auth0_def ultrawidelock_apdu_append_sw_def auth0_resp_def)
  moreover have "?tlv \<noteq> []" using n by auto
  ultimately show ?thesis
    using initiator_answers [OF _ _ s(1,2), of ?tlv INS_AUTH0 "Some (dpriv, dpub)" P ?d "auth0_resp dpub"] n l by (auto simp: auth0_resp_def)
qed

definition dsc_at :: "bytes \<Rightarrow> u32 \<Rightarrow> u32 \<Rightarrow> dev_secchan" where
  "dsc_at block n m = \<lparr>ds_s0 = enc_of block, ds_s1 = dec_of block, ds_ctr_r2d = n, ds_ctr_d2r = m\<rparr>"

lemma dsc_at_simps [simp]:
  "ds_s0 (dsc_at b n m) = enc_of b" "ds_s1 (dsc_at b n m) = dec_of b" "ds_ctr_r2d (dsc_at b n m) = n" "ds_ctr_d2r (dsc_at b n m) = m"
  "(dsc_at b n m)\<lparr>ds_ctr_r2d := k\<rparr> = dsc_at b k m" "(dsc_at b n m)\<lparr>ds_ctr_d2r := k\<rparr> = dsc_at b n k"
  "ultrawidelock_dev_secchan_init (enc_of b) (dec_of b) = dsc_at b 1 1"
  by (simp_all add: dsc_at_def ultrawidelock_dev_secchan_init_def)

lemma device_auth1:
  assumes s: "in_armed s" "in_conn s = conn" "in_dev s = d" and rsig: "length rsig = 64"
    and td: "ultrawidelock_apdu_build_authdata True (dv_reader_id d) (x_of (dv_eph_pub d)) (x_of (dv_reader_eph_pub d)) (dv_txid d) 160 = Some td"
    and ver: "ecdsa_verify P (dv_reader_verif_pub d) td rsig" and dh: "ecdh P (dv_eph_priv d) (dv_reader_eph_pub d) = Some shared"
    and salt: "ultrawidelock_salt_build SALT_SESSION (dv_txid d) (dv_reader_group_x d) (x_of (dv_reader_eph_pub d)) (dv_reader_id d) IFACE_BLE DEV_VERSION (dv_exp_phase d) 1 None (dv_a5 d) = Some salt"
    and blk: "ultrawidelock_crypto_derive_block (ultrawidelock_crypto_derive_z shared (dv_txid d)) salt (x_of (dv_eph_pub d)) = Some block"
    and ble: "dv_blesk_salt d \<noteq> []" "ultrawidelock_crypto_derive_ble_keys block (dv_blesk_salt d) = Some (br, bd)"
    and td': "ultrawidelock_apdu_build_authdata False (dv_reader_id d) (x_of (dv_eph_pub d)) (x_of (dv_reader_eph_pub d)) (dv_txid d) 160 = Some td'"
    and sig: "ecdsa_sign P (dv_cred_priv d) td' = Some sig" "length sig = 64" "length (dv_cred_pub d) = 65"
    and enc: "gcm_encrypt P (dec_of block) (ultrawidelock_crypto_gcm_nonce 1 1) [] (auth1_plain sig (dv_cred_pub d)) = Some (ct, tag)"
      "length ct = 133" "length tag = 16"
  shows "initiator_on_data P kg s conn (ap_frame INS_AUTH1 (auth1_tlv rsig)) =
    (s\<lparr>in_dev := d\<lparr>dv_sc := dsc_at block 1 2, dv_ursk := ursk_of block, dv_sc_ble := ultrawidelock_dev_secchan_init br bd, dv_phase := DEV_SENT_AUTH1_RESP\<rparr>\<rparr>,
     In_Send (resp_frame ((ct @ tag) @ put_u16 0x9000)))"
proof -
  let ?tlv = "auth1_tlv rsig" and ?resp = "(ct @ tag) @ put_u16 0x9000"
  let ?d = "d\<lparr>dv_sc := dsc_at block 1 2, dv_ursk := ursk_of block, dv_sc_ble := ultrawidelock_dev_secchan_init br bd, dv_phase := DEV_SENT_AUTH1_RESP\<rparr>"
  have n: "length ?tlv = 69" using auth1_build [OF rsig] by simp
  have xo: "take 32 (drop 1 p) = x_of p" for p by (simp add: x_of_def)
  have pl: "ultrawidelock_dev_build_auth1_resp sig (Some (dv_cred_pub d)) 160 = Some (auth1_plain sig (dv_cred_pub d))"
  proof -
    have c: "auth1_plain sig (dv_cred_pub d) = item_bytes (TAG_SIG, sig) @ item_bytes (TAG_DEVICE_PUB, dv_cred_pub d)" by (simp add: auth1_plain_def)
    show ?thesis
      unfolding ultrawidelock_dev_build_auth1_resp_def Let_def option.case put_bytes foldl_append [symmetric] c [symmetric] w_init_bytes
      using auth1_plain_parses(1) [OF sig(2,3)] by simp
  qed
  have ds: "ultrawidelock_device_derive_session shared (dv_txid d) (dv_reader_group_x d) (x_of (dv_reader_eph_pub d)) (dv_reader_id d) (dv_exp_phase d) (dv_a5 d) (x_of (dv_eph_pub d)) =
      Some (dsc_at block 1 1, ursk_of block, block)"
    using salt blk by (simp add: ultrawidelock_device_derive_session_def Let_def split_block)
  have bi: "ultrawidelock_dev_blesk_init block (dv_blesk_salt d) = Some (ultrawidelock_dev_secchan_init br bd)"
    using ble(2) by (simp add: ultrawidelock_dev_blesk_init_def)
  let ?d2 = "d\<lparr>dv_sc := dsc_at block 1 1, dv_ursk := ursk_of block, dv_sc_ble := ultrawidelock_dev_secchan_init br bd\<rparr>"
  have rp: "dev_reply P ?d2 (auth1_plain sig (dv_cred_pub d)) INITIATOR_RESP_MAX DEV_SENT_AUTH1_RESP = (?d, Some ?resp)"
    using enc auth1_plain_parses(1) [OF sig(2,3)]
    by (simp add: dev_reply_def ultrawidelock_dev_secchan_seal_def ultrawidelock_apdu_append_sw_def Let_def)
  have "dev_on_auth1 P d ?tlv INITIATOR_RESP_MAX = (?d, Some ?resp)"
    unfolding dev_on_auth1_def Let_def xo using auth1_parses [OF rsig] td ver dh ds ble(1) bi td' sig(1) pl rp by simp
  moreover have "?tlv \<noteq> []" using n by auto
  ultimately show ?thesis using initiator_answers [OF _ _ s(1,2), of ?tlv INS_AUTH1 kg P ?d ?resp] n enc(2,3) s(3) by auto
qed

lemma device_exchange:
  assumes s: "in_armed s" "in_conn s = conn" "in_dev s = d" "dv_sc d = dsc_at block 1 2"
    and dec: "gcm_decrypt P (enc_of block) (ultrawidelock_crypto_gcm_nonce 0 1) [] ct tag = Some [0x98, 0]" "length ct = 2" "length tag = 16"
    and enc: "gcm_encrypt P (dec_of block) (ultrawidelock_crypto_gcm_nonce 1 2) [] [0, 2, 0, 0] = Some (ct2, tag2)" "length ct2 = 4" "length tag2 = 16"
  shows "initiator_on_data P kg s conn (ap_frame INS_EXCHANGE (ct @ tag)) =
    (s\<lparr>in_dev := d\<lparr>dv_sc := dsc_at block 2 3, dv_phase := DEV_ESTABLISHED\<rparr>, in_ranging := True\<rparr>, In_Send (resp_frame ((ct2 @ tag2) @ put_u16 0x9000)))"
proof -
  let ?tlv = "ct @ tag" and ?resp = "(ct2 @ tag2) @ put_u16 0x9000" and ?d = "d\<lparr>dv_sc := dsc_at block 2 3, dv_phase := DEV_ESTABLISHED\<rparr>"
  have n: "length ?tlv = 18" using dec by simp
  have ex: "ultrawidelock_dev_build_exchange_resp 0 8 = Some [0, 2, 0, 0]"
    by (simp add: ultrawidelock_dev_build_exchange_resp_def put_u16_def)
  have "dev_on_exchange P d ?tlv INITIATOR_RESP_MAX = (?d, Some ?resp)"
    using dec enc s(4) ex
    by (simp add: dev_on_exchange_def Let_def ultrawidelock_dev_secchan_open_def dev_reply_def ultrawidelock_dev_secchan_seal_def ultrawidelock_apdu_append_sw_def)
  moreover have "?tlv \<noteq> []" using n by auto
  ultimately show ?thesis using initiator_answers [OF _ _ s(1,2), of ?tlv INS_EXCHANGE kg P ?d ?resp] n enc(2,3) s(3) by simp
qed

end
