(* ===== verification/Reader_Dialogue.thy ===== *)
theory Reader_Dialogue
  imports Reader_Handshake
begin

text \<open>
  The whole walk-up at the transport: a phone connects, sends its first message, and from then on each frame the
  reader sends is answered by the initiator application, until nobody has anything to say. An enrolled phone ends
  with an established session.
\<close>

section \<open>The dialogue\<close>

definition sent_frames :: "u16 \<Rightarrow> rd_out list \<Rightarrow> bytes list" where
  "sent_frames conn out = concat (map (\<lambda>x. case x of Out_Send c f \<Rightarrow> if c = conn then [f] else [] | _ \<Rightarrow> []) out)"

fun answer_of :: "initiator_out \<Rightarrow> bytes option" where
  "answer_of (In_Send a) = Some a"
| "answer_of _ = None"

text \<open>One message to the reader, the frame it sends in return, and the initiator's answer to that frame.\<close>

fun dialogue :: "reader_build \<Rightarrow> u16 \<Rightarrow> reader \<times> initiator \<times> bytes option \<Rightarrow> renv \<times> (bytes \<times> bytes) option \<Rightarrow> reader \<times> initiator \<times> bytes option" where
  "dialogue B conn (r, s, None) x = (r, s, None)"
| "dialogue B conn (r, s, Some wire) (E, kg) =
     (let r' = on_data B E r conn wire
      in case sent_frames conn (drop (length (rd_out r)) (rd_out r')) of
           [] \<Rightarrow> (r', s, None)
         | f # _ \<Rightarrow> (case initiator_on_data (rb_prim B) kg s conn f of (s', a) \<Rightarrow> (r', s', answer_of a)))"

lemma dialogue_step:
  assumes "on_data B E r conn wire = r'" "rd_out r' = rd_out r @ Out_Send conn f # rest" "initiator_on_data (rb_prim B) kg s conn f = (s', a)"
  shows "dialogue B conn (r, s, Some wire) (E, kg) = (r', s', answer_of a)"
  using assms by (simp add: sent_frames_def Let_def)

section \<open>One message\<close>

text \<open>The clock of the walk-up: every call is less than the phase timeout after the connection.\<close>

definition at_ms :: "u32 \<Rightarrow> nat \<Rightarrow> renv \<Rightarrow> bool" where
  "at_ms t0 a E \<longleftrightarrow> a < 5000 \<and> en_now E = t0 + of_nat a \<and> en_send E = (\<lambda>_ _. True) \<and> en_start E = (\<lambda>_ _ _. True)"

lemma ms_early: "a < b + c \<Longrightarrow> b + c < 2 ^ 31 \<Longrightarrow> \<not> ms_reached (t + of_nat a) (t + of_nat b + of_nat c)"
proof -
  assume a: "a < b + c" "b + c < 2 ^ 31"
  have e: "(t + of_nat a) - (t + of_nat b + of_nat c) = word_of_int (int a - int (b + c))" by (simp add: algebra_simps)
  have "sint ((t + of_nat a) - (t + of_nat b + of_nat c)) = int a - int (b + c)"
    unfolding e by (rule sint_word_of_int_id) (use a in simp_all)
  then show ?thesis using a(1) unfolding ms_reached_def by linarith
qed

definition heard :: "session \<Rightarrow> session" where
  "heard s = s\<lparr>ss_msgs_rx := ss_msgs_rx s + 1\<rparr>"

lemma heard_simps [simp]:
  "ss_phase (heard s) = ss_phase s" "ss_conn (heard s) = ss_conn s" "ss_active (heard s) = ss_active s" "ss_a5 (heard s) = ss_a5 s"
  "ss_eph_priv (heard s) = ss_eph_priv s" "ss_eph_pub (heard s) = ss_eph_pub s" "ss_txid (heard s) = ss_txid s" "ss_exp_phase (heard s) = ss_exp_phase s"
  "ss_dev_eph (heard s) = ss_dev_eph s" "ss_z (heard s) = ss_z s" "ss_sc (heard s) = ss_sc s" "ss_sc_ble (heard s) = ss_sc_ble s" "ss_ursk (heard s) = ss_ursk s"
  "ss_rgate (heard s) = ss_rgate s" "ss_overall_armed (heard s) = ss_overall_armed s" "ss_overall_deadline (heard s) = ss_overall_deadline s"
  by (simp_all add: heard_def)

lemma entered_more [simp]:
  "ss_a5 (entered E ph s) = ss_a5 s" "ss_eph_priv (entered E ph s) = ss_eph_priv s" "ss_eph_pub (entered E ph s) = ss_eph_pub s"
  "ss_txid (entered E ph s) = ss_txid s" "ss_exp_phase (entered E ph s) = ss_exp_phase s" "ss_dev_eph (entered E ph s) = ss_dev_eph s"
  "ss_z (entered E ph s) = ss_z s" "ss_overall_deadline (entered E ph s) = ss_overall_deadline s"
  by (simp_all add: entered_def Let_def)

text \<open>A slot in the middle of the transaction, entered at \<open>E\<close>, on the connection under consideration.\<close>

definition pending :: "u32 \<Rightarrow> u16 \<Rightarrow> session \<Rightarrow> bool" where
  "pending t0 conn s \<longleftrightarrow> ss_active s \<and> ss_conn s = conn \<and> ss_phase s \<noteq> PH_ESTABLISHED \<and>
     (\<exists>b<5000. ss_phase_deadline s = t0 + of_nat b + READER_PHASE_TIMEOUT_MS) \<and> (\<exists>b<5000. ss_overall_deadline s = t0 + of_nat b + READER_SESSION_TIMEOUT_MS)"

lemma pending_in_time:
  assumes "pending t0 conn s" "at_ms t0 a E"
  shows "\<not> ms_reached (en_now E) (ss_phase_deadline s)" "\<not> ms_reached (en_now E) (ss_overall_deadline s)"
proof -
  have n: "en_now E = t0 + of_nat a" "a < 5000" using assms(2) by (simp_all add: at_ms_def)
  obtain b c where b: "b < 5000" "ss_phase_deadline s = t0 + of_nat b + READER_PHASE_TIMEOUT_MS"
    and c: "c < 5000" "ss_overall_deadline s = t0 + of_nat c + READER_SESSION_TIMEOUT_MS"
    using assms(1) by (auto simp: pending_def)
  show "\<not> ms_reached (en_now E) (ss_phase_deadline s)" using ms_early [of a b 5000 t0] n b by simp
  show "\<not> ms_reached (en_now E) (ss_overall_deadline s)" using ms_early [of a c 30000 t0] n c by simp
qed

lemma pending_entered:
  assumes "pending t0 conn s" "at_ms t0 a E" "phase_awaits_peer ph" "ss_active s' = ss_active s" "ss_conn s' = ss_conn s" "ss_overall_deadline s' = ss_overall_deadline s"
  shows "pending t0 conn (entered E ph s')"
  using assms by (cases ph) (auto simp: pending_def at_ms_def entered_def Let_def)

text \<open>No slot of the reader before the connection is on \<open>conn\<close>.\<close>

definition unused :: "reader \<Rightarrow> u16 \<Rightarrow> bool" where
  "unused r0 conn \<longleftrightarrow> length (rd_sessions r0) = MAX_SESSIONS \<and> (\<forall>s\<in>set (rd_sessions r0). ss_active s \<longrightarrow> ss_conn s \<noteq> conn)"

lemma stage_found:
  assumes "stage r0 i s r" "unused r0 conn" "ss_active s" "ss_conn s = conn"
  shows "session_find r conn = Some i"
proof -
  obtain a b where ab: "rd_sessions r0 = [a, b]" using assms(2) by (auto simp: unused_def length_Suc_conv numeral_2_eq_2)
  then have "i = 0 \<or> i = 1" using assms(1) by (auto simp: stage_def)
  then show ?thesis using assms ab by (auto simp: session_find_def sess_def stage_def unused_def upt_rec)
qed

lemma on_data_once:
  assumes st: "stage r0 i s r" "unused r0 conn" "pending t0 conn s" "at_ms t0 a E"
    and w: "ultrawidelock_ble_unframe wire = Some (type, opcode, pl)" "length wire = 4 + length pl" "\<not> (type = PROTO_NOTIFICATION \<and> opcode = NOTIF_EVENT)"
  shows "on_data B E r conn wire =
    (case ss_phase s of
       PH_IDLE \<Rightarrow> feed_idle B E (put_sess r i (heard s)) i pl
     | PH_SENT_AUTH0 \<Rightarrow> on_auth0_response B E (put_sess r i (heard s)) i pl
     | PH_SENT_AUTH1 \<Rightarrow> on_auth1_response B E (put_sess r i (heard s)) i pl
     | PH_SENT_EXCHANGE \<Rightarrow> on_exchange_response B E (put_sess r i (heard s)) i pl
     | _ \<Rightarrow> put_sess r i (heard s))"
    and "stage r0 i (heard s) (put_sess r i (heard s))"
proof -
  have act: "ss_active s" "ss_conn s = conn" "ss_phase s \<noteq> PH_ESTABLISHED" using st(3) by (simp_all add: pending_def)
  have f: "session_find r conn = Some i" by (rule stage_found [OF st(1,2) act(1,2)])
  have l: "sdu_len wire = length wire" "wire \<noteq> []" using w by (auto simp: sdu_len_def)
  let ?r1 = "transaction_feed B E r i wire"
  have "on_data_loop B E i wire r = ?r1"
    using l by (simp add: on_data_loop.simps [of B E i wire] on_data_loop.simps [of B E i "[]"] Let_def)
  then have "on_data B E r conn wire = ?r1"
    using f act pending_in_time [OF st(3,4)] by (simp add: on_data_def Let_def stage_sess [OF st(1)])
  moreover have "sess (put_sess r i (heard s)) i = heard s" by (rule sess_put_self) (rule stage_less [OF st(1)])
  ultimately show "on_data B E r conn wire =
    (case ss_phase s of
       PH_IDLE \<Rightarrow> feed_idle B E (put_sess r i (heard s)) i pl
     | PH_SENT_AUTH0 \<Rightarrow> on_auth0_response B E (put_sess r i (heard s)) i pl
     | PH_SENT_AUTH1 \<Rightarrow> on_auth1_response B E (put_sess r i (heard s)) i pl
     | PH_SENT_EXCHANGE \<Rightarrow> on_exchange_response B E (put_sess r i (heard s)) i pl
     | _ \<Rightarrow> put_sess r i (heard s))"
    using w act unfolding transaction_feed_def envelope_of_def Let_def stage_sess [OF st(1)] heard_def [symmetric]
    by (auto split: txn_phase.split)
  show "stage r0 i (heard s) (put_sess r i (heard s))" by (rule stage_put [OF st(1)])
qed

section \<open>The reader's rounds\<close>

text \<open>What the slot has agreed on after AUTH0.\<close>

definition keyed :: "bytes \<Rightarrow> bytes \<Rightarrow> bytes \<Rightarrow> u8 \<Rightarrow> session \<Rightarrow> bool" where
  "keyed priv pub txid ph s \<longleftrightarrow> ss_eph_priv s = priv \<and> ss_eph_pub s = pub \<and> ss_txid s = txid \<and> ss_exp_phase s = ph \<and>
     ss_a5 s = k_a5_csa_v1 \<and> \<not> rg_primed (ss_rgate s)"

lemma connected:
  assumes "session_alloc E r0 conn = (r1, Some i)" "unused r0 conn" "at_ms t0 a E"
  shows "\<exists>s. stage r0 i s r1 \<and> pending t0 conn s \<and> ss_phase s = PH_IDLE \<and> \<not> rg_primed (ss_rgate s)"
    and "rd_out r1 = rd_out r0" "rd_trust r1 = rd_trust r0" "rd_spare r1 = rd_spare r0"
proof -
  let ?s = "session_zero\<lparr>ss_active := True, ss_conn := conn, ss_overall_armed := True, ss_overall_deadline := en_now E + READER_SESSION_TIMEOUT_MS\<rparr>"
  have f: "find (\<lambda>i. \<not> ss_active (sess r0 i)) [0..<MAX_SESSIONS] = Some i" and r1: "r1 = session_enter_phase E (put_sess r0 i ?s) i PH_IDLE"
    using assms(1) by (auto simp: session_alloc_def Let_def split: option.splits)
  have "i < length (rd_sessions r0)" using f assms(2) by (auto simp: find_Some_iff unused_def)
  then have "stage r0 i ?s (put_sess r0 i ?s)" by (simp add: stage_def put_sess_def)
  from stage_enter [OF this] have st: "stage r0 i (entered E PH_IDLE ?s) r1" unfolding r1 .
  have "pending t0 conn (entered E PH_IDLE ?s)"
    using assms(3) by (auto simp: pending_def at_ms_def entered_def Let_def)
  moreover have "\<not> rg_primed (ss_rgate (entered E PH_IDLE ?s))"
    by (simp add: session_zero_def ultrawidelock_rssi_gate_reset_def)
  ultimately show "\<exists>s. stage r0 i s r1 \<and> pending t0 conn s \<and> ss_phase s = PH_IDLE \<and> \<not> rg_primed (ss_rgate s)"
    using st by (intro exI [of _ "entered E PH_IDLE ?s"]) simp
  show "rd_out r1 = rd_out r0" "rd_trust r1 = rd_trust r0" "rd_spare r1 = rd_spare r0"
    unfolding r1 by (simp_all add: enter_eq put_sess_def)
qed

lemma hello_round:
  assumes st: "stage r0 i s r" "unused r0 conn" "pending t0 conn s" "at_ms t0 a E" and ph: "ss_phase s = PH_IDLE" "\<not> rg_primed (ss_rgate s)"
    and prov: "rd_prov r0 = PROVISIONING_READY" and eph: "ephemeral_ready E r priv pub txid"
    and len: "length pub = 65" "length txid = 16" "length (id_reader_id (rd_id r0)) = 32"
    and w: "ultrawidelock_ble_unframe wire = Some (PROTO_NOTIFICATION, NOTIF_INITIATE_AP, k_a5_csa_v1)" "length wire = 4 + length k_a5_csa_v1"
  shows "\<exists>s'. stage r0 i s' (on_data B E r conn wire) \<and> pending t0 conn s' \<and> ss_phase s' = PH_SENT_AUTH0 \<and> keyed priv pub txid (exp_phase_of (rd_trust r)) s'"
    and "rd_trust (on_data B E r conn wire) = rd_trust r"
    and "rd_out (on_data B E r conn wire) = rd_out r @ [Out_Send conn (ap_frame INS_AUTH0 (auth0_tlv r0 (exp_phase_of (rd_trust r)) pub txid))]"
proof -
  note o = on_data_once [OF st w]
  have a5: "capture_a5_tlv k_a5_csa_v1 64 = Some k_a5_csa_v1" by (simp add: k_a5_csa_v1_def)
  let ?q = "put_sess r i (heard s)" and ?s = "(heard s)\<lparr>ss_a5 := k_a5_csa_v1\<rparr>"
  let ?q1 = "put_sess ?q i ?s"
  have q: "on_data B E r conn wire = start_auth B E ?q1 i" using o ph a5 by (simp add: feed_idle_def stage_sess)
  have s1: "stage r0 i ?s ?q1" by (rule stage_put) (use o(2) in simp)
  have e1: "ephemeral_ready E ?q1 priv pub txid" using eph by (simp add: ephemeral_ready_def put_sess_def)
  have t1: "rd_trust ?q1 = rd_trust r" "rd_out ?q1 = rd_out r" by (simp_all add: put_sess_def)
  have snd: "en_send E = (\<lambda>_ _. True)" "ss_conn ?s = conn" using st(3,4) by (simp_all add: at_ms_def pending_def)
  note res = start_auth_ok [OF s1 prov e1 len snd(1), of B, unfolded t1]
  let ?s' = "entered E PH_SENT_AUTH0 (?s\<lparr>ss_eph_priv := priv, ss_eph_pub := pub, ss_txid := txid, ss_exp_phase := exp_phase_of (rd_trust r)\<rparr>)"
  have "pending t0 conn ?s'" by (rule pending_entered [OF st(3,4)]) simp_all
  moreover have "keyed priv pub txid (exp_phase_of (rd_trust r)) ?s'" using ph(2) by (simp add: keyed_def)
  ultimately show "\<exists>s'. stage r0 i s' (on_data B E r conn wire) \<and> pending t0 conn s' \<and> ss_phase s' = PH_SENT_AUTH0 \<and> keyed priv pub txid (exp_phase_of (rd_trust r)) s'"
    unfolding q using res by (intro exI [of _ ?s']) simp
  show "rd_trust (on_data B E r conn wire) = rd_trust r"
    "rd_out (on_data B E r conn wire) = rd_out r @ [Out_Send conn (ap_frame INS_AUTH0 (auth0_tlv r0 (exp_phase_of (rd_trust r)) pub txid))]"
    unfolding q using res snd(2) by simp_all
qed

lemma resp_round:
  assumes st: "stage r0 i s r" "unused r0 conn" "pending t0 conn s" "at_ms t0 a E" and l: "length pl \<le> INITIATOR_RESP_MAX"
  shows "on_data B E r conn (resp_frame pl) =
    (case ss_phase s of
       PH_IDLE \<Rightarrow> feed_idle B E (put_sess r i (heard s)) i pl
     | PH_SENT_AUTH0 \<Rightarrow> on_auth0_response B E (put_sess r i (heard s)) i pl
     | PH_SENT_AUTH1 \<Rightarrow> on_auth1_response B E (put_sess r i (heard s)) i pl
     | PH_SENT_EXCHANGE \<Rightarrow> on_exchange_response B E (put_sess r i (heard s)) i pl
     | _ \<Rightarrow> put_sess r i (heard s))"
    and "stage r0 i (heard s) (put_sess r i (heard s))" "rd_trust (put_sess r i (heard s)) = rd_trust r" "rd_out (put_sess r i (heard s)) = rd_out r"
    "rd_auth_cred (put_sess r i (heard s)) = rd_auth_cred r" "en_send E = (\<lambda>_ _. True)" "en_start E = (\<lambda>_ _ _. True)" "ss_conn s = conn"
proof -
  note u = unframe_resp [OF l]
  note on_data_once [OF st u(1) u(2)]
  then show "on_data B E r conn (resp_frame pl) =
    (case ss_phase s of
       PH_IDLE \<Rightarrow> feed_idle B E (put_sess r i (heard s)) i pl
     | PH_SENT_AUTH0 \<Rightarrow> on_auth0_response B E (put_sess r i (heard s)) i pl
     | PH_SENT_AUTH1 \<Rightarrow> on_auth1_response B E (put_sess r i (heard s)) i pl
     | PH_SENT_EXCHANGE \<Rightarrow> on_exchange_response B E (put_sess r i (heard s)) i pl
     | _ \<Rightarrow> put_sess r i (heard s))" "stage r0 i (heard s) (put_sess r i (heard s))" by simp_all
  show "rd_trust (put_sess r i (heard s)) = rd_trust r" "rd_out (put_sess r i (heard s)) = rd_out r" "rd_auth_cred (put_sess r i (heard s)) = rd_auth_cred r"
    by (simp_all add: put_sess_def)
  show "en_send E = (\<lambda>_ _. True)" "en_start E = (\<lambda>_ _ _. True)" "ss_conn s = conn" using st(3,4) by (simp_all add: at_ms_def pending_def)
qed

lemma auth0_round:
  assumes st: "stage r0 i s r" "unused r0 conn" "pending t0 conn s" "at_ms t0 a E" and ph: "ss_phase s = PH_SENT_AUTH0" "keyed priv pub txid ph s"
    and dpub: "length dpub = 65" and dh: "ecdh (rb_prim B) priv dpub = Some shared"
    and td: "ultrawidelock_apdu_build_authdata True (id_reader_id (rd_id r0)) (x_of dpub) (x_of pub) txid 160 = Some td"
    and sig: "ecdsa_sign (rb_prim B) (id_sign_priv (rd_id r0)) td = Some sig" "length sig = 64"
  defines "r' \<equiv> on_data B E r conn (resp_frame (auth0_resp dpub))"
  shows "\<exists>s'. stage r0 i s' r' \<and> pending t0 conn s' \<and> ss_phase s' = PH_SENT_AUTH1 \<and> keyed priv pub txid ph s' \<and>
           ss_dev_eph s' = dpub \<and> ss_z s' = ultrawidelock_crypto_derive_z shared txid"
    and "rd_trust r' = rd_trust r" "rd_out r' = rd_out r @ [Out_Send conn (ap_frame INS_AUTH1 (auth1_tlv sig))]"
proof -
  have l: "length (auth0_resp dpub) \<le> INITIATOR_RESP_MAX" using dpub by (simp add: auth0_resp_def item_bytes_def tlv_length_bytes_def)
  note o = resp_round [OF st l]
  let ?q = "put_sess r i (heard s)"
  have r': "r' = on_auth0_response B E ?q i (item_bytes (TAG_DEVICE_PUBX, dpub) @ put_u16 0x9000)" unfolding r'_def using o(1) ph(1) by (simp add: auth0_resp_def)
  have k: "ss_eph_priv (heard s) = priv" "ss_eph_pub (heard s) = pub" "ss_txid (heard s) = txid" using ph(2) by (simp_all add: keyed_def)
  note res = on_auth0_ok [OF o(2) dpub, unfolded k, OF dh td sig o(6), folded r']
  let ?s' = "entered E PH_SENT_AUTH1 ((heard s)\<lparr>ss_dev_eph := dpub, ss_z := ultrawidelock_crypto_derive_z shared txid\<rparr>)"
  have "pending t0 conn ?s'" by (rule pending_entered [OF st(3,4)]) simp_all
  moreover have "keyed priv pub txid ph ?s'" using ph(2) by (simp add: keyed_def)
  ultimately show "\<exists>s'. stage r0 i s' r' \<and> pending t0 conn s' \<and> ss_phase s' = PH_SENT_AUTH1 \<and> keyed priv pub txid ph s' \<and>
           ss_dev_eph s' = dpub \<and> ss_z s' = ultrawidelock_crypto_derive_z shared txid"
    using res by (intro exI [of _ ?s']) simp
  show "rd_trust r' = rd_trust r" "rd_out r' = rd_out r @ [Out_Send conn (ap_frame INS_AUTH1 (auth1_tlv sig))]"
    using res o(3,4,8) by simp_all
qed

lemma auth1_round:
  assumes st: "stage r0 i s r" "unused r0 conn" "pending t0 conn s" "at_ms t0 a E" and ph: "ss_phase s = PH_SENT_AUTH1" "keyed priv pub txid ph s" "ss_dev_eph s = dpub"
    and gx: "rd_group_x r0 = Some gx" and blk: "standard_block r0 gx s = Some block"
    and ble: "ultrawidelock_crypto_derive_ble_keys block ble_salt = Some (br, bd)"
    and dec: "gcm_decrypt (rb_prim B) (dec_of block) (ultrawidelock_crypto_gcm_nonce 1 1) [] ct tag = Some (auth1_plain sig cpub)"
    and len: "length ct = 133" "length tag = 16" "length sig = 64" "length cpub = 65"
    and td: "ultrawidelock_apdu_build_authdata False (id_reader_id (rd_id r0)) (x_of dpub) (x_of pub) txid 160 = Some td"
    and ver: "ecdsa_verify (rb_prim B) cpub td sig" and tr: "ultrawidelock_prov_trust_check (rd_trust r) cpub = 0"
    and enc: "gcm_encrypt (rb_prim B) (enc_of block) (ultrawidelock_crypto_gcm_nonce 0 1) [] [0x98, 0] = Some (ct2, tag2)" "length ct2 = 2" "length tag2 = 16"
  defines "r' \<equiv> on_data B E r conn (resp_frame ((ct @ tag) @ put_u16 0x9000))"
  shows "\<exists>s'. stage r0 i s' r' \<and> pending t0 conn s' \<and> ss_phase s' = PH_SENT_EXCHANGE \<and> keyed priv pub txid ph s' \<and>
           ss_ursk s' = ursk_of block \<and> ss_sc s' = sc_at block 2 2 \<and> ss_sc_ble s' = ultrawidelock_secchan_init br bd"
    and "rd_auth_cred r' = Some cpub" "rd_out r' = rd_out r @ [Out_Send conn (ap_frame INS_EXCHANGE (ct2 @ tag2)), Out_Access True]"
proof -
  have l: "length ((ct @ tag) @ put_u16 0x9000) \<le> INITIATOR_RESP_MAX" using len by simp
  note o = resp_round [OF st l]
  let ?q = "put_sess r i (heard s)"
  have r': "r' = on_auth1_response B E ?q i ((ct @ tag) @ put_u16 0x9000)" unfolding r'_def using o(1) ph(1) by simp
  have k: "ss_dev_eph (heard s) = dpub" "ss_eph_pub (heard s) = pub" "ss_txid (heard s) = txid" using ph(2,3) by (simp_all add: keyed_def)
  have blk': "standard_block r0 gx (heard s) = Some block" using blk unfolding standard_block_def session_salt_def session_a5_def heard_simps .
  note res = on_auth1_ok [OF o(2) gx blk' ble dec len, unfolded k, OF td ver _ enc o(6), folded r']
  let ?s' = "entered E PH_SENT_EXCHANGE ((heard s)\<lparr>ss_ursk := ursk_of block, ss_sc := sc_at block 2 2, ss_sc_ble := ultrawidelock_secchan_init br bd\<rparr>)"
  have "pending t0 conn ?s'" by (rule pending_entered [OF st(3,4)]) simp_all
  moreover have "keyed priv pub txid ph ?s'" using ph(2) by (simp add: keyed_def)
  ultimately show "\<exists>s'. stage r0 i s' r' \<and> pending t0 conn s' \<and> ss_phase s' = PH_SENT_EXCHANGE \<and> keyed priv pub txid ph s' \<and>
           ss_ursk s' = ursk_of block \<and> ss_sc s' = sc_at block 2 2 \<and> ss_sc_ble s' = ultrawidelock_secchan_init br bd"
    using res tr o(3) by (intro exI [of _ ?s']) simp
  show "rd_auth_cred r' = Some cpub" "rd_out r' = rd_out r @ [Out_Send conn (ap_frame INS_EXCHANGE (ct2 @ tag2)), Out_Access True]"
    using res tr o(3,4,8) by simp_all
qed

lemma exchange_round:
  assumes st: "stage r0 i s r" "unused r0 conn" "pending t0 conn s" "at_ms t0 a E" and ph: "ss_phase s = PH_SENT_EXCHANGE" "keyed priv pub txid ph s" "ss_sc s = sc_at block 2 2"
    and dec: "gcm_decrypt (rb_prim B) (dec_of block) (ultrawidelock_crypto_gcm_nonce 1 2) [] ct tag = Some [0, 2, 0, 0]" "length ct = 4" "length tag = 16"
    and seal: "ultrawidelock_msg_seal (rb_prim B) (ss_sc_ble s) k_ap_completed_plain 64 = (ble', Some wire)" and ad: "rd_adapter r0"
  defines "r' \<equiv> on_data B E r conn (resp_frame ((ct @ tag) @ put_u16 0x9000))"
  shows "ss_phase (sess r' i) = PH_ESTABLISHED \<and> ss_ursk (sess r' i) = ss_ursk s \<and> ss_sc_ble (sess r' i) = ble' \<and> rd_auth_cred r' = rd_auth_cred r \<and>
         rd_rg_active r' \<and> rd_rg_sc r' = Some i \<and> rd_rg_conn r' = conn \<and>
         (\<exists>rest. rd_out r' = rd_out r @ Out_Send conn wire # rest) \<and> last (rd_out r') = Out_Ranging conn (get_u32 (drop 12 txid)) (ss_ursk s)"
proof -
  have l: "length ((ct @ tag) @ put_u16 0x9000) \<le> INITIATOR_RESP_MAX" using dec by simp
  note o = resp_round [OF st l]
  let ?q = "put_sess r i (heard s)"
  have r': "r' = on_exchange_response B E ?q i ((ct @ tag) @ put_u16 0x9000)" unfolding r'_def using o(1) ph(1) by simp
  have k: "ss_sc (heard s) = sc_at block 2 2" "\<not> rg_primed (ss_rgate (heard s))" "ultrawidelock_msg_seal (rb_prim B) (ss_sc_ble (heard s)) k_ap_completed_plain 64 = (ble', Some wire)"
    using ph seal by (simp_all add: keyed_def)
  note res = on_exchange_ok [OF o(2) k(1) dec k(2,3) ad o(6,7), folded r']
  have "stage r0 i (entered E PH_ESTABLISHED ((heard s)\<lparr>ss_sc := sc_at block 2 3, ss_sc_ble := ble'\<rparr>)) r'" using res by blast
  note se = stage_sess [OF this]
  obtain mid where "rd_out r' = rd_out ?q @ [Out_Send (ss_conn (heard s)) wire] @ mid @ [Out_Ranging (ss_conn (heard s)) (get_u32 (drop 12 (ss_txid (heard s)))) (ss_ursk (heard s))]"
    using res by blast
  then show ?thesis unfolding se using res o(4,5,8) ph(2) by (auto simp: keyed_def)
qed

section \<open>The initiator's rounds\<close>

lemma hkdf_some: "n \<le> 8160 \<Longrightarrow> \<exists>k. ultrawidelock_hkdf salt ikm info n = Some k"
  by (simp add: ultrawidelock_hkdf_def ultrawidelock_hkdf_expand_def)

lemma ble_keys_some: "\<exists>br bd. ultrawidelock_crypto_derive_ble_keys block salt = Some (br, bd)"
proof -
  obtain a b where "ultrawidelock_hkdf salt (take 32 (drop BLESK_OFFSET block)) ble_sk_reader SESSION_KEY_LEN = Some a"
    "ultrawidelock_hkdf salt (take 32 (drop BLESK_OFFSET block)) ble_sk_device SESSION_KEY_LEN = Some b"
    using hkdf_some [of 32] by fastforce
  then show ?thesis by (simp add: ultrawidelock_crypto_derive_ble_keys_def Let_def)
qed

lemma session_salt_some:
  assumes "length txid = 16" "length gx = 32" "length ex = 32" "length rid = 32"
  shows "\<exists>salt. ultrawidelock_salt_build SALT_SESSION txid gx ex rid IFACE_BLE READER_VERSION ph 1 None k_a5_csa_v1 = Some salt"
  using assms by (simp add: ultrawidelock_salt_build_def salt_append_def Let_def k_salt_label_def k_salt_const_def k_a5_csa_v1_def)

text \<open>The device as it stands when it is armed.\<close>

lemma ready_round:
  assumes "ec_pub_from_priv P cpriv = Some cpub" "ultrawidelock_ble_central_parse_read_payload (build_read_payload k_proto_versions f) = Some peer"
  shows "\<exists>s hello. initiator_on_ready P cpriv rid rpub conn peer s0 = (s, Some hello) \<and>
    ultrawidelock_ble_unframe hello = Some (PROTO_NOTIFICATION, NOTIF_INITIATE_AP, k_a5_csa_v1) \<and> length hello = 4 + length k_a5_csa_v1 \<and>
    in_armed s \<and> in_conn s = conn \<and> dv_reader_id (in_dev s) = rid \<and> dv_reader_verif_pub (in_dev s) = rpub \<and> dv_reader_group_x (in_dev s) = x_of rpub \<and>
    dv_cred_priv (in_dev s) = cpriv \<and> dv_cred_pub (in_dev s) = cpub \<and> dv_a5 (in_dev s) = k_a5_csa_v1 \<and> dv_blesk_salt (in_dev s) = ble_salt"
proof -
  have p: "bp_versions peer = k_proto_versions" using published_is_read [of k_proto_versions f] assms(2) by (auto simp: k_proto_versions_def)
  have b: "ultrawidelock_ble_central_blesk_salt peer INITIATOR_VERSION (2 * (CENTRAL_MAX_VERSIONS + 1)) = Some ble_salt"
    by (simp add: ultrawidelock_ble_central_blesk_salt_def p ble_salt_def k_proto_versions_def)
  have l: "length ble_salt = 4" by (simp add: ble_salt_def k_proto_versions_def)
  obtain d where d: "ultrawidelock_device_init P cpriv rid rpub = Some d" "dv_reader_id d = rid" "dv_reader_verif_pub d = rpub"
    "dv_reader_group_x d = x_of rpub" "dv_cred_priv d = cpriv" "dv_cred_pub d = cpub" "dv_a5 d = k_a5_csa_v1"
    using assms(1) by (simp add: ultrawidelock_device_init_def x_of_def)
  have la: "length k_a5_csa_v1 = 10" by (simp add: k_a5_csa_v1_def)
  let ?h = "[PROTO_NOTIFICATION, NOTIF_INITIATE_AP, 0, 10] @ k_a5_csa_v1"
  have h: "ultrawidelock_ble_frame PROTO_NOTIFICATION NOTIF_INITIATE_AP k_a5_csa_v1 (ENVELOPE_HDR + length k_a5_csa_v1) = Some ?h"
    by (simp add: ultrawidelock_ble_frame_def Let_def la)
  show ?thesis
    using d b l h unframe_frame(1) [OF h, of "[]"] unframe_frame(2) [OF h]
    by (intro exI [of _ "s0\<lparr>in_armed := True, in_dev := d\<lparr>dv_blesk_salt := ble_salt\<rparr>, in_conn := conn\<rparr>"] exI [of _ ?h])
       (simp add: initiator_on_ready_def Let_def ultrawidelock_device_set_blesk_salt_def)
qed

lemma completed_round:
  assumes P: "prim_ok P" "prim_up P" and m: "mirrored sc (dv_sc_ble (in_dev s))" "sc_enc_ctr sc \<noteq> 0xffffffff" and s: "in_ranging s" "in_conn s = conn"
  shows "\<exists>sc' wire s'. ultrawidelock_msg_seal P sc k_ap_completed_plain 64 = (sc', Some wire) \<and>
    initiator_on_data P kg s conn wire = (s', In_Sdu k_ap_completed_plain) \<and> mirrored sc' (dv_sc_ble (in_dev s')) \<and>
    dv_phase (in_dev s') = dv_phase (in_dev s) \<and> dv_ursk (in_dev s') = dv_ursk (in_dev s)"
proof -
  let ?m = k_ap_completed_plain
  obtain c t where e: "gcm_encrypt P (sc_enc_key sc) (ultrawidelock_crypto_gcm_nonce 0 (sc_enc_ctr sc)) (take 4 ?m) (drop 4 ?m) = Some (c, t)"
    using P(2) unfolding prim_up_def by fastforce
  have fo: "frame_ok RANGING_SDU_MAX ?m" by (simp add: frame_ok_def k_ap_completed_plain_def)
  let ?sc = "sc\<lparr>sc_enc_ctr := sc_enc_ctr sc + 1\<rparr>" and ?w = "[2, 3, 0, 20] @ c @ t"
  have w: "ultrawidelock_msg_seal P sc ?m cap = (?sc, Some ?w)" if "24 \<le> cap" for cap
    using e m(2) that by (simp add: ultrawidelock_msg_seal_def ultrawidelock_secchan_seal_def Let_def k_ap_completed_plain_def)
  obtain ch where ch: "ultrawidelock_dev_ble_open P (dv_sc_ble (in_dev s)) ?w RANGING_SDU_MAX = (ch, Some ?m)" "mirrored ?sc ch"
    using to_device [OF P(1) m(1) fo _ w [of RANGING_SDU_MAX]] by auto
  have l: "length c = 4" "length t = 16" using gcm_roundtrip [OF P(1) e] by (simp_all add: k_ap_completed_plain_def)
  have "ultrawidelock_ble_frame PROTO_NOTIFICATION 3 (c @ t) 64 = Some ?w" using l by (simp add: ultrawidelock_ble_frame_def Let_def)
  from unframe_frame(1) [OF this, of "[]"] have "ultrawidelock_ble_unframe ?w = Some (PROTO_NOTIFICATION, 3, c @ t)" by simp
  then show ?thesis
    using w [of 64] ch s by (intro exI [of _ ?sc] exI [of _ ?w] exI [of _ "s\<lparr>in_dev := (in_dev s)\<lparr>dv_sc_ble := ch\<rparr>\<rparr>"])
      (simp add: initiator_on_data_def initiator_ranging_on_sdu_def)
qed

section \<open>What both ends compute\<close>

lemma x_length: "length p = 65 \<Longrightarrow> length (x_of p) = 32"
  by (simp add: x_of_def)

lemma sealed: "prim_ok P \<Longrightarrow> prim_up P \<Longrightarrow>
    \<exists>c t. gcm_encrypt P k n a p = Some (c, t) \<and> length c = length p \<and> length t = 16 \<and> gcm_decrypt P k n a c t = Some p"
  using gcm_roundtrip unfolding prim_up_def by fastforce

lemma signed:
  assumes "prim_ok P" "prim_up P" "ec_pub_from_priv P k = Some K" "length rid = 32" "length dx = 32" "length ex = 32" "length txid = 16"
  shows "\<exists>td sg. ultrawidelock_apdu_build_authdata rd rid dx ex txid 160 = Some td \<and> ecdsa_sign P k td = Some sg \<and> ecdsa_verify P K td sg \<and> length sg = 64"
proof -
  obtain td where td: "ultrawidelock_apdu_build_authdata rd rid dx ex txid 160 = Some td" using authdata_ok assms(4-7) by blast
  obtain sg where sg: "ecdsa_sign P k td = Some sg" using assms(2) unfolding prim_up_def by blast
  then show ?thesis using td sign_verifies [OF assms(1,3) sg] by blast
qed

lemma shared_block:
  assumes "prim_ok P" "prim_up P" "ec_pub_from_priv P priv = Some pub" "ec_pub_from_priv P dpriv = Some dpub" "length txid = 16" "length gx = 32" "length rid = 32"
  shows "\<exists>shared salt block br bd. ecdh P priv dpub = Some shared \<and> ecdh P dpriv pub = Some shared \<and>
    ultrawidelock_salt_build SALT_SESSION txid gx (x_of pub) rid IFACE_BLE READER_VERSION ph 1 None k_a5_csa_v1 = Some salt \<and>
    ultrawidelock_crypto_derive_block (ultrawidelock_crypto_derive_z shared txid) salt (x_of dpub) = Some block \<and>
    ultrawidelock_crypto_derive_ble_keys block ble_salt = Some (br, bd)"
proof -
  obtain shared where sh: "ecdh P priv dpub = Some shared" using assms(2,4) unfolding prim_up_def by blast
  then have "ecdh P dpriv pub = Some shared" using ecdh_sym [OF assms(1,3,4)] by simp
  moreover obtain salt where "ultrawidelock_salt_build SALT_SESSION txid gx (x_of pub) rid IFACE_BLE READER_VERSION ph 1 None k_a5_csa_v1 = Some salt"
    using session_salt_some [OF assms(5,6) x_length assms(7)] pub_length [OF assms(1,3)] by blast
  moreover obtain block where "ultrawidelock_crypto_derive_block (ultrawidelock_crypto_derive_z shared txid) salt (x_of dpub) = Some block"
    using hkdf_some [of KEY_BLOCK_LEN salt "ultrawidelock_crypto_derive_z shared txid" "x_of dpub"] by (auto simp: ultrawidelock_crypto_derive_block_def)
  ultimately show ?thesis using sh ble_keys_some by blast
qed

text \<open>Half-way: the reader waits for the AUTH1 response that the device has sent, and both hold the same key block.\<close>

definition halfway :: "reader_build \<Rightarrow> u32 \<Rightarrow> u16 \<Rightarrow> reader \<Rightarrow> nat \<Rightarrow> bytes \<Rightarrow> reader \<times> initiator \<times> bytes option \<Rightarrow> bool" where
  "halfway B t0 conn r0 i cpub x \<longleftrightarrow>
     (\<exists>r s ses priv pub txid ph dpub block br bd sg td gx ct tag.
        x = (r, s, Some (resp_frame ((ct @ tag) @ put_u16 0x9000))) \<and>
        stage r0 i ses r \<and> pending t0 conn ses \<and> ss_phase ses = PH_SENT_AUTH1 \<and> keyed priv pub txid ph ses \<and> ss_dev_eph ses = dpub \<and>
        rd_group_x r0 = Some gx \<and> standard_block r0 gx ses = Some block \<and> ultrawidelock_crypto_derive_ble_keys block ble_salt = Some (br, bd) \<and>
        gcm_decrypt (rb_prim B) (dec_of block) (ultrawidelock_crypto_gcm_nonce 1 1) [] ct tag = Some (auth1_plain sg cpub) \<and>
        length ct = 133 \<and> length tag = 16 \<and> length sg = 64 \<and> length cpub = 65 \<and>
        ultrawidelock_apdu_build_authdata False (id_reader_id (rd_id r0)) (x_of dpub) (x_of pub) txid 160 = Some td \<and>
        ecdsa_verify (rb_prim B) cpub td sg \<and> rd_trust r = rd_trust r0 \<and>
        in_armed s \<and> in_conn s = conn \<and> dv_sc (in_dev s) = dsc_at block 1 2 \<and> dv_ursk (in_dev s) = ursk_of block \<and>
        dv_sc_ble (in_dev s) = ultrawidelock_dev_secchan_init br bd)"

lemma first_half:
  assumes P: "prim_ok (rb_prim B)" "prim_up (rb_prim B)"
    and rd: "rd_prov r0 = PROVISIONING_READY" "unused r0 conn" "length (id_reader_id (rd_id r0)) = 32"
      "ec_pub_from_priv (rb_prim B) (id_sign_priv (rd_id r0)) = Some rpub" "rd_group_x r0 = Some (x_of rpub)"
    and r: "stage r0 i ses r" "pending t0 conn ses" "ss_phase ses = PH_IDLE" "\<not> rg_primed (ss_rgate ses)" "rd_trust r = rd_trust r0"
    and keys: "ephemeral_ready E1 r priv pub txid" "ec_pub_from_priv (rb_prim B) priv = Some pub" "length txid = 16" "ec_pub_from_priv (rb_prim B) dpriv = Some dpub"
    and hello: "ultrawidelock_ble_unframe hello = Some (PROTO_NOTIFICATION, NOTIF_INITIATE_AP, k_a5_csa_v1)" "length hello = 4 + length k_a5_csa_v1"
    and s: "in_armed s" "in_conn s = conn" "dv_reader_id (in_dev s) = id_reader_id (rd_id r0)" "dv_reader_verif_pub (in_dev s) = rpub"
      "dv_reader_group_x (in_dev s) = x_of rpub" "dv_cred_priv (in_dev s) = cpriv" "dv_cred_pub (in_dev s) = cpub" "dv_a5 (in_dev s) = k_a5_csa_v1" "dv_blesk_salt (in_dev s) = ble_salt"
    and cred: "ec_pub_from_priv (rb_prim B) cpriv = Some cpub" and t: "at_ms t0 a1 E1" "at_ms t0 a2 E2"
  shows "halfway B t0 conn r0 i cpub (foldl (dialogue B conn) (r, s, Some hello) [(E1, Some (dpriv, dpub)), (E2, kg2)])"
proof -
  let ?P = "rb_prim B" and ?ph = "exp_phase_of (rd_trust r)" and ?d = "in_dev s" and ?rid = "id_reader_id (rd_id r0)"
  note len = pub_length [OF P(1) keys(2)] pub_length [OF P(1) keys(4)] pub_length [OF P(1) rd(4)] pub_length [OF P(1) cred]
  obtain shared salt block br bd where b: "ecdh ?P priv dpub = Some shared" "ecdh ?P dpriv pub = Some shared"
      "ultrawidelock_salt_build SALT_SESSION txid (x_of rpub) (x_of pub) ?rid IFACE_BLE READER_VERSION ?ph 1 None k_a5_csa_v1 = Some salt"
      "ultrawidelock_crypto_derive_block (ultrawidelock_crypto_derive_z shared txid) salt (x_of dpub) = Some block" "ultrawidelock_crypto_derive_ble_keys block ble_salt = Some (br, bd)"
    using shared_block [OF P keys(2,4,3) x_length [OF len(3)] rd(3), of ?ph] by blast
  obtain td rsig where rs: "ultrawidelock_apdu_build_authdata True ?rid (x_of dpub) (x_of pub) txid 160 = Some td" "ecdsa_sign ?P (id_sign_priv (rd_id r0)) td = Some rsig"
      "ecdsa_verify ?P rpub td rsig" "length rsig = 64"
    using signed [OF P rd(4,3) x_length [OF len(2)] x_length [OF len(1)] keys(3)] by blast
  obtain td' sg where ds: "ultrawidelock_apdu_build_authdata False ?rid (x_of dpub) (x_of pub) txid 160 = Some td'" "ecdsa_sign ?P cpriv td' = Some sg"
      "ecdsa_verify ?P cpub td' sg" "length sg = 64"
    using signed [OF P cred rd(3) x_length [OF len(2)] x_length [OF len(1)] keys(3)] by blast
  obtain ct tag where ct: "gcm_encrypt ?P (dec_of block) (ultrawidelock_crypto_gcm_nonce 1 1) [] (auth1_plain sg cpub) = Some (ct, tag)"
      "length ct = 133" "length tag = 16" "gcm_decrypt ?P (dec_of block) (ultrawidelock_crypto_gcm_nonce 1 1) [] ct tag = Some (auth1_plain sg cpub)"
    using sealed [OF P, of "dec_of block" "ultrawidelock_crypto_gcm_nonce 1 1" "[]" "auth1_plain sg cpub"] auth1_plain_parses(1) [OF ds(4) len(4)] by auto
  let ?r1 = "on_data B E1 r conn hello"
  note h = hello_round [OF r(1) rd(2) r(2) t(1) r(3,4) rd(1) keys(1) len(1) keys(3) rd(3) hello]
  obtain s1 where s1: "stage r0 i s1 ?r1" "pending t0 conn s1" "ss_phase s1 = PH_SENT_AUTH0" "keyed priv pub txid ?ph s1" using h(1) by blast
  let ?d1 = "?d\<lparr>dv_reader_eph_pub := pub, dv_txid := txid, dv_exp_phase := ?ph, dv_eph_priv := dpriv, dv_eph_pub := dpub, dv_phase := DEV_SENT_AUTH0_RESP\<rparr>"
  have 1: "dialogue B conn (r, s, Some hello) (E1, Some (dpriv, dpub)) = (?r1, s\<lparr>in_dev := ?d1\<rparr>, Some (resp_frame (auth0_resp dpub)))"
    using dialogue_step [OF refl h(3) [of B] device_auth0 [OF len(1) keys(3) rd(3) len(2) s(1,2) refl s(3)]] by simp
  let ?r2 = "on_data B E2 ?r1 conn (resp_frame (auth0_resp dpub))"
  note a = auth0_round [OF s1(1) rd(2) s1(2) t(2) s1(3,4) len(2) b(1) rs(1,2,4)]
  obtain s2 where s2: "stage r0 i s2 ?r2" "pending t0 conn s2" "ss_phase s2 = PH_SENT_AUTH1" "keyed priv pub txid ?ph s2" "ss_dev_eph s2 = dpub"
      "ss_z s2 = ultrawidelock_crypto_derive_z shared txid" using a(1) by blast
  let ?i1 = "s\<lparr>in_dev := ?d1\<rparr>"
  have bs: "ble_salt \<noteq> []" by (simp add: ble_salt_def put_u16_def)
  have dv: "initiator_on_data ?P kg2 ?i1 conn (ap_frame INS_AUTH1 (auth1_tlv rsig)) =
    (?i1\<lparr>in_dev := ?d1\<lparr>dv_sc := dsc_at block 1 2, dv_ursk := ursk_of block, dv_sc_ble := ultrawidelock_dev_secchan_init br bd, dv_phase := DEV_SENT_AUTH1_RESP\<rparr>\<rparr>,
     In_Send (resp_frame ((ct @ tag) @ put_u16 0x9000)))"
    by (rule device_auth1) (use s rs ds ct b len bs in simp_all)
  have 2: "dialogue B conn (?r1, ?i1, Some (resp_frame (auth0_resp dpub))) (E2, kg2) =
     (?r2, ?i1\<lparr>in_dev := ?d1\<lparr>dv_sc := dsc_at block 1 2, dv_ursk := ursk_of block, dv_sc_ble := ultrawidelock_dev_secchan_init br bd, dv_phase := DEV_SENT_AUTH1_RESP\<rparr>\<rparr>,
      Some (resp_frame ((ct @ tag) @ put_u16 0x9000)))"
    using dialogue_step [OF refl a(3) dv] by simp
  have sb: "standard_block r0 (x_of rpub) s2 = Some block"
    using s2(4-6) b(3,4) by (simp add: standard_block_def session_salt_def session_a5_def keyed_def k_a5_csa_v1_def)
  have tr: "rd_trust ?r2 = rd_trust r0" using a(2) h(2) r(5) by simp
  show ?thesis
    unfolding halfway_def foldl.simps 1 2
    using s2 rd(5) sb b(5) ct ds len tr s by (intro exI conjI) (rule refl | assumption | simp)+
qed

lemma second_half:
  assumes P: "prim_ok (rb_prim B)" "prim_up (rb_prim B)" and hw: "halfway B t0 conn r0 i cpub x"
    and rd: "unused r0 conn" "rd_adapter r0" "ultrawidelock_prov_trust_check (rd_trust r0) cpub = 0" and t: "at_ms t0 a3 E3" "at_ms t0 a4 E4"
  shows "\<exists>r s. foldl (dialogue B conn) x [(E3, kg3), (E4, kg4)] = (r, s, None) \<and>
    ss_phase (sess r i) = PH_ESTABLISHED \<and> dv_phase (in_dev s) = DEV_ESTABLISHED \<and> ss_ursk (sess r i) = dv_ursk (in_dev s) \<and>
    mirrored (ss_sc_ble (sess r i)) (dv_sc_ble (in_dev s)) \<and> rd_auth_cred r = Some cpub \<and>
    rd_rg_active r \<and> rd_rg_conn r = conn \<and> (\<exists>sid. last (rd_out r) = Out_Ranging conn sid (dv_ursk (in_dev s)))"
proof -
  let ?P = "rb_prim B"
  obtain r s ses priv pub txid ph dpub block br bd sg td gx ct tag where x: "x = (r, s, Some (resp_frame ((ct @ tag) @ put_u16 0x9000)))"
    and st: "stage r0 i ses r" "pending t0 conn ses" "ss_phase ses = PH_SENT_AUTH1" "keyed priv pub txid ph ses" "ss_dev_eph ses = dpub"
    and gx: "rd_group_x r0 = Some gx" "standard_block r0 gx ses = Some block" "ultrawidelock_crypto_derive_ble_keys block ble_salt = Some (br, bd)"
      "gcm_decrypt ?P (dec_of block) (ultrawidelock_crypto_gcm_nonce 1 1) [] ct tag = Some (auth1_plain sg cpub)"
    and len: "length ct = 133" "length tag = 16" "length sg = 64" "length cpub = 65"
    and td: "ultrawidelock_apdu_build_authdata False (id_reader_id (rd_id r0)) (x_of dpub) (x_of pub) txid 160 = Some td" "ecdsa_verify ?P cpub td sg"
    and tr: "rd_trust r = rd_trust r0"
    and s: "in_armed s" "in_conn s = conn" "dv_sc (in_dev s) = dsc_at block 1 2" "dv_ursk (in_dev s) = ursk_of block" "dv_sc_ble (in_dev s) = ultrawidelock_dev_secchan_init br bd"
    using hw unfolding halfway_def by blast
  obtain ct2 tag2 where c2: "gcm_encrypt ?P (enc_of block) (ultrawidelock_crypto_gcm_nonce 0 1) [] [0x98, 0] = Some (ct2, tag2)" "length ct2 = 2" "length tag2 = 16"
      "gcm_decrypt ?P (enc_of block) (ultrawidelock_crypto_gcm_nonce 0 1) [] ct2 tag2 = Some [0x98, 0]"
    using sealed [OF P, of "enc_of block" "ultrawidelock_crypto_gcm_nonce 0 1" "[]" "[0x98, 0]"] by auto
  obtain ct3 tag3 where c3: "gcm_encrypt ?P (dec_of block) (ultrawidelock_crypto_gcm_nonce 1 2) [] [0, 2, 0, 0] = Some (ct3, tag3)" "length ct3 = 4" "length tag3 = 16"
      "gcm_decrypt ?P (dec_of block) (ultrawidelock_crypto_gcm_nonce 1 2) [] ct3 tag3 = Some [0, 2, 0, 0]"
    using sealed [OF P, of "dec_of block" "ultrawidelock_crypto_gcm_nonce 1 2" "[]" "[0, 2, 0, 0]"] by auto
  let ?r1 = "on_data B E3 r conn (resp_frame ((ct @ tag) @ put_u16 0x9000))"
  note a = auth1_round [OF st(1) rd(1) st(2) t(1) st(3-5) gx len td rd(3) [folded tr] c2(1-3)]
  obtain s1 where s1: "stage r0 i s1 ?r1" "pending t0 conn s1" "ss_phase s1 = PH_SENT_EXCHANGE" "keyed priv pub txid ph s1" "ss_ursk s1 = ursk_of block"
      "ss_sc s1 = sc_at block 2 2" "ss_sc_ble s1 = ultrawidelock_secchan_init br bd" using a(1) by blast
  let ?i1 = "s\<lparr>in_dev := (in_dev s)\<lparr>dv_sc := dsc_at block 2 3, dv_phase := DEV_ESTABLISHED\<rparr>, in_ranging := True\<rparr>"
  have 1: "dialogue B conn x (E3, kg3) = (?r1, ?i1, Some (resp_frame ((ct3 @ tag3) @ put_u16 0x9000)))"
    unfolding x using dialogue_step [OF refl a(3) device_exchange [OF s(1,2) refl s(3) c2(4,2,3) c3(1-3)]] by simp
  have m: "mirrored (ss_sc_ble s1) (dv_sc_ble (in_dev ?i1))"
    using s1(7) s(5) by (simp add: mirrored_def ultrawidelock_secchan_init_def ultrawidelock_dev_secchan_init_def)
  obtain sc' wire s' where w: "ultrawidelock_msg_seal ?P (ss_sc_ble s1) k_ap_completed_plain 64 = (sc', Some wire)"
      "initiator_on_data ?P kg4 ?i1 conn wire = (s', In_Sdu k_ap_completed_plain)" "mirrored sc' (dv_sc_ble (in_dev s'))"
      "dv_phase (in_dev s') = DEV_ESTABLISHED" "dv_ursk (in_dev s') = ursk_of block"
    using completed_round [OF P m, of conn kg4] s1(7) s(2,4) by (auto simp: ultrawidelock_secchan_init_def)
  let ?r2 = "on_data B E4 ?r1 conn (resp_frame ((ct3 @ tag3) @ put_u16 0x9000))"
  note e = exchange_round [OF s1(1) rd(1) s1(2) t(2) s1(3,4,6) c3(4,2,3) w(1) rd(2)]
  obtain rest where "rd_out ?r2 = rd_out ?r1 @ Out_Send conn wire # rest" using e by blast
  from dialogue_step [OF refl this w(2)]
  have "foldl (dialogue B conn) x [(E3, kg3), (E4, kg4)] = (?r2, s', None)" by (simp add: 1 del: dialogue.simps)
  then show ?thesis using e w(3-5) s1(5) a(2) by auto
qed

text \<open>C15: An enrolled phone gets in: when a phone whose credential is in the trust store connects to a provisioned reader with a
  free slot and reads the versions the reader publishes, then the initiator's first message and the three rounds it starts
  (AUTH0, AUTH1, EXCHANGE), each taken as the code of both ends takes it, end with both established: the same ranging key at
  both ends and handed to the ranging engine, mirrored ranging channels on which the reader's AP-Completed has been
  opened, and the phone's credential published as authenticated. What is assumed: working primitives and key generators, a
  transport that delivers, all within the phase timeout, and no power gate armed.\<close>

theorem enrolled_phone_gets_in:
  assumes "prim_ok (rb_prim B)" "prim_up (rb_prim B)"
    and "rd_prov r0 = PROVISIONING_READY" "rd_adapter r0" "unused r0 conn" "length (id_reader_id (rd_id r0)) = 32"
    and "ec_pub_from_priv (rb_prim B) (id_sign_priv (rd_id r0)) = Some rpub" "rd_group_x r0 = Some (x_of rpub)"
    and "session_alloc E0 r0 conn = (r1, Some i)" "ephemeral_ready E1 r0 priv pub txid" "length txid = 16"
    and "ec_pub_from_priv (rb_prim B) priv = Some pub" "ec_pub_from_priv (rb_prim B) dpriv = Some dpub"
    and "ec_pub_from_priv (rb_prim B) cpriv = Some cpub" "ultrawidelock_prov_trust_check (rd_trust r0) cpub = 0"
    and "ultrawidelock_ble_central_parse_read_payload (build_read_payload k_proto_versions f) = Some peer"
    and "at_ms t0 a0 E0" "at_ms t0 a1 E1" "at_ms t0 a2 E2" "at_ms t0 a3 E3" "at_ms t0 a4 E4"
  shows "\<exists>r s. (case initiator_on_ready (rb_prim B) cpriv (id_reader_id (rd_id r0)) rpub conn peer s0 of
                  (s1, hello) \<Rightarrow> foldl (dialogue B conn) (r1, s1, hello) [(E1, Some (dpriv, dpub)), (E2, kg2), (E3, kg3), (E4, kg4)]) = (r, s, None) \<and>
    ss_phase (sess r i) = PH_ESTABLISHED \<and> dv_phase (in_dev s) = DEV_ESTABLISHED \<and> ss_ursk (sess r i) = dv_ursk (in_dev s) \<and>
    mirrored (ss_sc_ble (sess r i)) (dv_sc_ble (in_dev s)) \<and> rd_auth_cred r = Some cpub \<and>
    rd_rg_active r \<and> rd_rg_conn r = conn \<and> (\<exists>sid. last (rd_out r) = Out_Ranging conn sid (dv_ursk (in_dev s)))"
proof -
  obtain s1 hello where h: "initiator_on_ready (rb_prim B) cpriv (id_reader_id (rd_id r0)) rpub conn peer s0 = (s1, Some hello)"
      "ultrawidelock_ble_unframe hello = Some (PROTO_NOTIFICATION, NOTIF_INITIATE_AP, k_a5_csa_v1)" "length hello = 4 + length k_a5_csa_v1"
    and s1: "in_armed s1" "in_conn s1 = conn" "dv_reader_id (in_dev s1) = id_reader_id (rd_id r0)" "dv_reader_verif_pub (in_dev s1) = rpub"
      "dv_reader_group_x (in_dev s1) = x_of rpub" "dv_cred_priv (in_dev s1) = cpriv" "dv_cred_pub (in_dev s1) = cpub" "dv_a5 (in_dev s1) = k_a5_csa_v1" "dv_blesk_salt (in_dev s1) = ble_salt"
    using ready_round [OF assms(14,16), of "id_reader_id (rd_id r0)" rpub conn s0] by blast
  note c = connected [OF assms(9,5,17)]
  obtain ses where ses: "stage r0 i ses r1" "pending t0 conn ses" "ss_phase ses = PH_IDLE" "\<not> rg_primed (ss_rgate ses)" using c(1) by blast
  have eph: "ephemeral_ready E1 r1 priv pub txid" using assms(10) c(4) by (simp add: ephemeral_ready_def)
  have "halfway B t0 conn r0 i cpub (foldl (dialogue B conn) (r1, s1, Some hello) [(E1, Some (dpriv, dpub)), (E2, kg2)])"
    by (rule first_half [OF assms(1-3,5-8) ses c(3) eph assms(12,11,13) h(2,3) s1 assms(14,18,19)])
  from second_half [OF assms(1,2) this assms(5,4,15,20,21), of kg3 kg4] show ?thesis by (simp add: h(1) del: dialogue.simps)
qed

section \<open>A walk-up\<close>

definition toy_pub :: "bytes \<Rightarrow> bytes" where
  "toy_pub k = 4 # k @ k"

definition demo_door :: reader where
  "demo_door = (reader_boot None)\<lparr>rd_id := \<lparr>id_reader_id = replicate 32 6, id_sign_priv = replicate 32 7, id_grk = replicate 16 1, id_is_dev = False\<rparr>,
     rd_trust := row_new ts_empty (toy_pub (replicate 32 5)), rd_prov := PROVISIONING_READY, rd_loaded := True,
     rd_group_x := Some (replicate 32 7), rd_adapter := True\<rparr>"

definition demo_at :: "nat \<Rightarrow> renv" where
  "demo_at ms = \<lparr>en_now = 1000 + of_nat ms, en_uptime = 0, en_keygen = Some (replicate 32 3, toy_pub (replicate 32 3)), en_random = Some (replicate 16 9),
     en_send = (\<lambda>_ _. True), en_start = (\<lambda>_ _ _. True), en_engine = (\<lambda>_ _. ([], False, True)), en_range_age = None,
     en_load = (KV_OK, KV_OK), en_store = (KV_OK, KV_OK, None)\<rparr>"

definition demo_peer :: ble_central_peer where
  "demo_peer = \<lparr>bp_spsm = L2CAP_SPSM, bp_versions = k_proto_versions, bp_features = 1\<rparr>"

definition demo_phone :: initiator where
  "demo_phone = \<lparr>in_dev = the (ultrawidelock_device_init toy_prim (replicate 32 5) (replicate 32 0) (toy_pub (replicate 32 0))), in_armed = False, in_conn = 0, in_ranging = False\<rparr>"

lemma toy_keys: "length k = 32 \<Longrightarrow> ec_pub_from_priv toy_prim k = Some (toy_pub k)"
  by (simp add: toy_prim_def toy_pub_def)

lemma demo_door_facts:
  "rd_prov demo_door = PROVISIONING_READY" "rd_adapter demo_door" "unused demo_door 1" "length (id_reader_id (rd_id demo_door)) = 32"
  "rd_group_x demo_door = Some (x_of (toy_pub (replicate 32 7)))" "ultrawidelock_prov_trust_check (rd_trust demo_door) (toy_pub (replicate 32 5)) = 0"
  "ephemeral_ready (demo_at 10) demo_door (replicate 32 3) (toy_pub (replicate 32 3)) (replicate 16 9)"
  by (simp_all add: demo_door_def reader_boot_def unused_def session_zero_def x_of_def toy_pub_def ultrawidelock_prov_trust_check_def row_new_def ts_empty_def
      ephemeral_ready_def demo_at_def Let_def)

lemma demo_at_ms: "ms < 5000 \<Longrightarrow> at_ms 1000 ms (demo_at ms)"
  by (simp add: at_ms_def demo_at_def)

theorem enrolled_phone_gets_in_witness:
  "\<exists>r s. (case initiator_on_ready toy_prim (replicate 32 5) (replicate 32 6) (toy_pub (replicate 32 7)) 1 demo_peer demo_phone of
            (s1, hello) \<Rightarrow> foldl (dialogue calm_build 1) (on_connected (demo_at 0) demo_door 1, s1, hello)
              [(demo_at 10, Some (replicate 32 4, toy_pub (replicate 32 4))), (demo_at 20, None), (demo_at 30, None), (demo_at 40, None)]) = (r, s, None) \<and>
     ss_phase (sess r 0) = PH_ESTABLISHED \<and> dv_phase (in_dev s) = DEV_ESTABLISHED \<and> ss_ursk (sess r 0) = dv_ursk (in_dev s)"
proof -
  have a: "session_alloc (demo_at 0) demo_door 1 = (on_connected (demo_at 0) demo_door 1, Some 0)"
    by (simp add: on_connected_def session_alloc_def demo_door_def reader_boot_def sess_def session_zero_def upt_rec Let_def)
  have p: "ultrawidelock_ble_central_parse_read_payload (build_read_payload k_proto_versions \<lparr>bf_timesync_procedure_0 = True, bf_timesync_procedure_1 = False, bf_le_coded_phy = False\<rparr>) = Some demo_peer"
    by (subst published_is_read) (simp_all add: k_proto_versions_def demo_peer_def encode_features_def)
  have b: "rb_prim calm_build = toy_prim" by (simp add: calm_build_def)
  have i: "id_sign_priv (rd_id demo_door) = replicate 32 7" "id_reader_id (rd_id demo_door) = replicate 32 6" by (simp_all add: demo_door_def)
  from enrolled_phone_gets_in [where B = calm_build and ?r0.0 = demo_door and conn = 1 and cpriv = "replicate 32 5" and peer = demo_peer and ?s0.0 = demo_phone
      and dpriv = "replicate 32 4" and ?kg2.0 = None and ?kg3.0 = None and ?kg4.0 = None and ?a0.0 = 0 and ?a1.0 = 10 and ?a2.0 = 20 and ?a3.0 = 30 and ?a4.0 = 40,
      unfolded b i, OF toy_prim_ok demo_door_facts(1-3) _ toy_keys demo_door_facts(5) a demo_door_facts(7) _ toy_keys toy_keys toy_keys demo_door_facts(6) p
        demo_at_ms demo_at_ms demo_at_ms demo_at_ms demo_at_ms]
  show ?thesis by simp blast
qed

end
