(* ===== verification/Bytes_Le.thy ===== *)
theory Bytes_Le
  imports Prelude
begin

text \<open>
  The little-endian byte codec (\<^verbatim>\<open>ultrawidelock_bytes.h\<close>). The update header uses it, and so
  do the radio frames: \<^verbatim>\<open>ccc_mac.c\<close> carries private copies of the same four helpers
  (\<^verbatim>\<open>put_le16\<close>, \<^verbatim>\<open>put_le32\<close>, \<^verbatim>\<open>get_le16\<close>, \<^verbatim>\<open>get_le32\<close>), which are modelled once here.
\<close>

fun sys_get_le16 :: "bytes \<Rightarrow> u16" where
  "sys_get_le16 (a # b # _) = ucast a OR push_bit 8 (ucast b)"
| "sys_get_le16 _ = 0"

fun sys_get_le32 :: "bytes \<Rightarrow> u32" where
  "sys_get_le32 (a # b # c # d # _) =
     ucast a OR push_bit 8 (ucast b) OR push_bit 16 (ucast c) OR push_bit 24 (ucast d)"
| "sys_get_le32 _ = 0"

definition sys_put_le16 :: "u16 \<Rightarrow> bytes" where
  "sys_put_le16 v = [ucast v, ucast (drop_bit 8 v)]"

definition sys_put_le32 :: "u32 \<Rightarrow> bytes" where
  "sys_put_le32 v = [ucast v, ucast (drop_bit 8 v), ucast (drop_bit 16 v), ucast (drop_bit 24 v)]"

lemma length_put_le [simp]: "length (sys_put_le16 h) = 2" "length (sys_put_le32 v) = 4"
  by (simp_all add: sys_put_le16_def sys_put_le32_def)

lemma get_put_le16 [simp, codec_simps]: "sys_get_le16 (sys_put_le16 v @ r) = v"
  by (rule bit_word_eqI) (auto simp: sys_put_le16_def bit_simps)

lemma get_put_le32 [simp, codec_simps]: "sys_get_le32 (sys_put_le32 v @ r) = v"
proof (rule bit_word_eqI)
  fix n
  assume "n < LENGTH(32)"
  then consider "n < 8" | "8 \<le> n \<and> n < 16" | "16 \<le> n \<and> n < 24" | "24 \<le> n \<and> n < 32"
    by force
  then show "bit (sys_get_le32 (sys_put_le32 v @ r)) n = bit v n"
    by cases (auto simp: sys_put_le32_def bit_simps)
qed

lemma get_put_le32_whole [simp, codec_simps]: "sys_get_le32 (sys_put_le32 v) = v"
  using get_put_le32 [of v "[]"] by simp

lemma get_le32_take: "4 \<le> n \<Longrightarrow> sys_get_le32 (take n p) = sys_get_le32 p"
  by (cases p rule: sys_get_le32.cases) (auto simp: take_Cons' split: nat.split)

lemma get_le16_take: "2 \<le> n \<Longrightarrow> sys_get_le16 (take n p) = sys_get_le16 p"
  by (cases p rule: sys_get_le16.cases) (auto simp: take_Cons' split: nat.split)

end
