(* ===== verification/Dfu_Flash.thy ===== *)
theory Dfu_Flash
  imports Checksum Bytes_Le
begin

text \<open>
  What the two halves of the delta update share: the flash partitions behind \<^verbatim>\<open>ultrawidelock_flash.h\<close> with the
  bounds and alignment tests of \<^verbatim>\<open>flash_area_freertos.c\<close>, and the staged-update header
  (\<^verbatim>\<open>ultrawidelock_dfu.h\<close>).

  A partition is its size, 32 bits wide, and the byte at each offset. The driver under it is not modelled: each
  operation that reaches the driver takes one outcome from \<open>fl_io\<close>. \<^term>\<open>None\<close>, or an exhausted
  list, is success; \<^term>\<open>Some junk\<close> is a reported failure, after which the bytes the operation was
  to change read as \<open>junk\<close> says. Programming clears bits and never sets one, as NOR flash does. A
  read of the memory-mapped port cannot fail once its bounds hold; the contract lets a backend fail there
  too, and so does the model.
\<close>

section \<open>Flash partitions\<close>

abbreviation FLASH_WRITE_ALIGN :: nat where "FLASH_WRITE_ALIGN \<equiv> 4"
abbreviation FLASH_PAGE_SIZE :: nat where "FLASH_PAGE_SIZE \<equiv> 4096"

record flash =
  fl_size :: u32
  fl_at :: "nat \<Rightarrow> u8"
  fl_io :: "(nat \<Rightarrow> u8) option list"

definition in_bounds :: "flash \<Rightarrow> nat \<Rightarrow> nat \<Rightarrow> bool" where
  "in_bounds fa off len \<longleftrightarrow> \<not> off > unat (fl_size fa) \<and> len \<le> unat (fl_size fa) - off"

text \<open>The next outcome of the driver, and the partition with that outcome used up.\<close>

fun flash_io :: "flash \<Rightarrow> (nat \<Rightarrow> u8) option \<times> flash" where
  "flash_io fa = (case fl_io fa of [] \<Rightarrow> (None, fa) | r # rs \<Rightarrow> (r, fa\<lparr>fl_io := rs\<rparr>))"

definition set_range :: "flash \<Rightarrow> nat \<Rightarrow> nat \<Rightarrow> (nat \<Rightarrow> u8) \<Rightarrow> flash" where
  "set_range fa off len f = fa\<lparr>fl_at := \<lambda>i. if off \<le> i \<and> i < off + len then f i else fl_at fa i\<rparr>"

definition span :: "flash \<Rightarrow> nat \<Rightarrow> nat \<Rightarrow> bytes" where
  "span fa off len = map (fl_at fa) [off..<off + len]"

definition ultrawidelock_flash_read :: "flash \<Rightarrow> nat \<Rightarrow> nat \<Rightarrow> flash \<times> bytes option" where
  "ultrawidelock_flash_read fa off len =
     (if \<not> in_bounds fa off len then (fa, None)
      else if len = 0 then (fa, Some [])
      else case flash_io fa of
             (None, fa') \<Rightarrow> (fa', Some (span fa off len))
           | (Some junk, fa') \<Rightarrow> (fa', None))"

definition ultrawidelock_flash_write :: "flash \<Rightarrow> nat \<Rightarrow> bytes \<Rightarrow> flash \<times> bool" where
  "ultrawidelock_flash_write fa off src =
     (if \<not> in_bounds fa off (length src) then (fa, False)
      else if length src = 0 then (fa, True)
      else if off mod FLASH_WRITE_ALIGN \<noteq> 0 \<or> length src mod FLASH_WRITE_ALIGN \<noteq> 0 then (fa, False)
      else case flash_io fa of
             (None, fa') \<Rightarrow> (set_range fa' off (length src) (\<lambda>i. fl_at fa i AND src ! (i - off)), True)
           | (Some junk, fa') \<Rightarrow> (set_range fa' off (length src) junk, False))"

definition ultrawidelock_flash_erase :: "flash \<Rightarrow> nat \<Rightarrow> nat \<Rightarrow> flash \<times> bool" where
  "ultrawidelock_flash_erase fa off len =
     (if \<not> in_bounds fa off len then (fa, False)
      else if len = 0 then (fa, True)
      else if off mod FLASH_PAGE_SIZE \<noteq> 0 \<or> len mod FLASH_PAGE_SIZE \<noteq> 0 then (fa, False)
      else case flash_io fa of
             (None, fa') \<Rightarrow> (set_range fa' off len (\<lambda>_. 0xff), True)
           | (Some junk, fa') \<Rightarrow> (set_range fa' off len junk, False))"

definition blank :: "flash \<Rightarrow> nat \<Rightarrow> nat \<Rightarrow> bool" where
  "blank fa a b \<longleftrightarrow> (\<forall>i\<in>{a..<b}. fl_at fa i = 0xff)"

lemma length_span [simp]: "length (span fa off len) = len"
  by (simp add: span_def)

lemma span_nth [simp]: "i < len \<Longrightarrow> span fa off len ! i = fl_at fa (off + i)"
  by (simp add: span_def)

lemma span_0 [simp]: "span fa off 0 = []"
  by (simp add: span_def)

lemma span_append: "span fa off (m + n) = span fa off m @ span fa (off + m) n"
  by (rule nth_equalityI) (auto simp: nth_append)

lemma span_cong: "(\<And>i. off \<le> i \<Longrightarrow> i < off + len \<Longrightarrow> fl_at fa i = fl_at fb i) \<Longrightarrow> span fa off len = span fb off len"
  by (simp add: span_def)

lemma take_span: "n \<le> len \<Longrightarrow> take n (span fa off len) = span fa off n"
  by (rule nth_equalityI) auto

lemma drop_span: "drop n (span fa off len) = span fa (off + n) (len - n)"
  by (rule nth_equalityI) (auto simp: add.assoc)

text \<open>What a write or an erase leaves behind, whatever the driver answered.\<close>

lemma flash_write_frame:
  assumes "ultrawidelock_flash_write fa off src = (fa', ok)"
  shows "fl_size fa' = fl_size fa" and "i < off \<or> off + length src \<le> i \<Longrightarrow> fl_at fa' i = fl_at fa i"
  using assms by (auto simp: ultrawidelock_flash_write_def set_range_def split: if_splits list.splits option.splits)

lemma ff_and [simp]: "(0xff :: u8) AND x = x"
proof -
  have "(0xff :: u8) = - 1" by simp
  then show ?thesis by (simp only: and.left_neutral)
qed

lemma flash_write_ok:
  assumes "ultrawidelock_flash_write fa off src = (fa', True)" and "blank fa off (off + length src)"
  shows "span fa' off (length src) = src" and "off + length src \<le> unat (fl_size fa)"
proof -
  show "span fa' off (length src) = src"
    using assms
    by (intro nth_equalityI)
       (auto simp: ultrawidelock_flash_write_def set_range_def blank_def in_bounds_def split: if_splits list.splits option.splits)
  show "off + length src \<le> unat (fl_size fa)"
    using assms(1) by (auto simp: ultrawidelock_flash_write_def in_bounds_def split: if_splits)
qed

lemma flash_write_done:
  assumes "fl_io fa = []" "off + length src \<le> unat (fl_size fa)" "off mod 4 = 0" "length src mod 4 = 0"
  shows "\<exists>fa'. ultrawidelock_flash_write fa off src = (fa', True) \<and> fl_io fa' = []"
proof -
  have "in_bounds fa off (length src)" using assms(2) by (simp add: in_bounds_def)
  then show ?thesis using assms by (simp add: ultrawidelock_flash_write_def set_range_def)
qed

lemma flash_erase_frame:
  assumes "ultrawidelock_flash_erase fa off len = (fa', ok)"
  shows "fl_size fa' = fl_size fa" and "i < off \<or> off + len \<le> i \<Longrightarrow> fl_at fa' i = fl_at fa i"
    and "ok \<Longrightarrow> blank fa' off (off + len)"
  using assms by (auto simp: ultrawidelock_flash_erase_def set_range_def blank_def split: if_splits list.splits option.splits)

lemma flash_erase_done:
  assumes "fl_io fa = []" "off + len \<le> unat (fl_size fa)" "off mod 4096 = 0" "len mod 4096 = 0"
  shows "\<exists>fa'. ultrawidelock_flash_erase fa off len = (fa', True) \<and> fl_io fa' = []"
proof -
  have "in_bounds fa off len" using assms(2) by (simp add: in_bounds_def)
  then show ?thesis using assms by (simp add: ultrawidelock_flash_erase_def set_range_def)
qed

section \<open>The staged-update header\<close>

abbreviation DFU_MAGIC :: u32 where "DFU_MAGIC \<equiv> 0x55464457"
abbreviation DFU_ABI_VERSION :: u16 where "DFU_ABI_VERSION \<equiv> 1"
abbreviation DFU_HDR_OFFSET :: nat where "DFU_HDR_OFFSET \<equiv> 0"
abbreviation DFU_STEP_OFFSET :: nat where "DFU_STEP_OFFSET \<equiv> 4096"
abbreviation DFU_PATCH_OFFSET :: nat where "DFU_PATCH_OFFSET \<equiv> 8192"
abbreviation DFU_STEP_ERASED :: u32 where "DFU_STEP_ERASED \<equiv> 0xffffffff"
abbreviation DFU_HDR_CRC_LEN :: nat where "DFU_HDR_CRC_LEN \<equiv> 28"
abbreviation DFU_HDR_LEN :: nat where "DFU_HDR_LEN \<equiv> 32"
abbreviation DFU_SIG_LEN :: nat where "DFU_SIG_LEN \<equiv> 64"

record ultrawidelock_dfu_hdr =
  hdr_magic :: u32
  hdr_abi_version :: u16
  hdr_flags :: u16
  hdr_patch_len :: u32
  hdr_to_len :: u32
  hdr_patch_crc32 :: u32
  hdr_from_crc32 :: u32
  hdr_from_len :: u32
  hdr_hdr_crc32 :: u32

text \<open>The bytes of the header copied into the struct: its layout is little-endian and unpadded.\<close>

definition hdr_of :: "bytes \<Rightarrow> ultrawidelock_dfu_hdr" where
  "hdr_of p = \<lparr>hdr_magic = sys_get_le32 p, hdr_abi_version = sys_get_le16 (drop 4 p), hdr_flags = sys_get_le16 (drop 6 p),
     hdr_patch_len = sys_get_le32 (drop 8 p), hdr_to_len = sys_get_le32 (drop 12 p),
     hdr_patch_crc32 = sys_get_le32 (drop 16 p), hdr_from_crc32 = sys_get_le32 (drop 20 p),
     hdr_from_len = sys_get_le32 (drop 24 p), hdr_hdr_crc32 = sys_get_le32 (drop 28 p)\<rparr>"

text \<open>The layout the other way round, with the header checksum in place: what the signing host builds.\<close>

definition make_hdr :: "u16 \<Rightarrow> bytes \<Rightarrow> u32 \<Rightarrow> u32 \<Rightarrow> u32 \<Rightarrow> bytes" where
  "make_hdr flags patch to_len from_crc from_len =
     (let b = sys_put_le32 DFU_MAGIC @ sys_put_le16 DFU_ABI_VERSION @ sys_put_le16 flags @
              sys_put_le32 (of_nat (length patch)) @ sys_put_le32 to_len @ sys_put_le32 (ultrawidelock_crc32 patch) @
              sys_put_le32 from_crc @ sys_put_le32 from_len
      in b @ sys_put_le32 (ultrawidelock_crc32 b))"

lemma length_make_hdr [simp]: "length (make_hdr fl p t c l) = DFU_HDR_LEN"
  by (simp add: make_hdr_def Let_def)

lemma hdr_of_take: "DFU_HDR_LEN \<le> n \<Longrightarrow> hdr_of (take n p) = hdr_of p"
  by (simp add: hdr_of_def drop_take get_le32_take get_le16_take)

lemma hdr_of_make_hdr:
  "hdr_of (make_hdr fl p t c l) =
     \<lparr>hdr_magic = DFU_MAGIC, hdr_abi_version = DFU_ABI_VERSION, hdr_flags = fl, hdr_patch_len = of_nat (length p),
      hdr_to_len = t, hdr_patch_crc32 = ultrawidelock_crc32 p, hdr_from_crc32 = c, hdr_from_len = l,
      hdr_hdr_crc32 = ultrawidelock_crc32 (take DFU_HDR_CRC_LEN (make_hdr fl p t c l))\<rparr>"
  by (simp add: hdr_of_def make_hdr_def Let_def)

end
