(* ===== verification/Dfu_Receiver.thy ===== *)
theory Dfu_Receiver
  imports Dfu_Flash
begin

text \<open>
  The application half of the delta update (\<^verbatim>\<open>modules/ultrawidelock_dfu/src/dfu_receiver.c\<close>): the
  update window, the transfer state machine behind the framed protocol and behind SMP image upload,
  and the staging of a signed patch. The file's statics are one record; an operation returns it
  updated, and runs under the mutex the source takes, so operations are atomic. The write buffer
  \<^verbatim>\<open>wbuf\<close> with its fill \<^verbatim>\<open>wlen\<close> is the list of the bytes held. The reboot and window work items
  are what the source asks of them: whether the reboot is armed, and the delay the window timer was
  last given. Lengths of buffers (\<^verbatim>\<open>size_t\<close>) are naturals; the fields of the state keep their
  width.

  The signature check (\<^verbatim>\<open>ultrawidelock_ecdsa_p256_verify\<close>), the built-in key and the outcome of the
  provider's initialisation, of opening the partition and of each flash operation are parameters.
\<close>

section \<open>State\<close>

datatype ultrawidelock_dfu_owner = OWNER_NONE | OWNER_L2CAP | OWNER_GATT | OWNER_SMP | OWNER_TEST

datatype ultrawidelock_dfu_err =
  ERR_OK | ERR_CLOSED | ERR_SEQUENCE | ERR_SIZE | ERR_AUTH | ERR_INTEGRITY | ERR_FLASH | ERR_MALFORMED | ERR_BUSY

fun err_code :: "ultrawidelock_dfu_err \<Rightarrow> u8" where
  "err_code ERR_OK = 0" | "err_code ERR_CLOSED = 1" | "err_code ERR_SEQUENCE = 2" | "err_code ERR_SIZE = 3"
| "err_code ERR_AUTH = 4" | "err_code ERR_INTEGRITY = 5" | "err_code ERR_FLASH = 6" | "err_code ERR_MALFORMED = 7"
| "err_code ERR_BUSY = 8"

abbreviation OP_BEGIN :: u8 where "OP_BEGIN \<equiv> 0x11"
abbreviation OP_DATA :: u8 where "OP_DATA \<equiv> 0x12"
abbreviation OP_COMMIT :: u8 where "OP_COMMIT \<equiv> 0x13"
abbreviation OP_ABORT :: u8 where "OP_ABORT \<equiv> 0x14"
abbreviation RSP_OK :: u8 where "RSP_OK \<equiv> 0x81"
abbreviation RSP_ERR :: u8 where "RSP_ERR \<equiv> 0x82"
abbreviation HEAD_LEN :: nat where "HEAD_LEN \<equiv> 96"
abbreviation RX_WBUF_SZ :: nat where "RX_WBUF_SZ \<equiv> 64"
abbreviation MCUBOOT_IMAGE_MAGIC :: u32 where "MCUBOOT_IMAGE_MAGIC \<equiv> 0x96f3b83d"
abbreviation MCUBOOT_HDR_MIN :: nat where "MCUBOOT_HDR_MIN \<equiv> 16"
abbreviation EIO :: int where "EIO \<equiv> 5"
abbreviation EACCES :: int where "EACCES \<equiv> 13"
abbreviation EBUSY :: int where "EBUSY \<equiv> 16"
abbreviation EINVAL :: int where "EINVAL \<equiv> 22"

record dfu_rx =
  rx_active :: bool
  rx_erased :: bool
  rx_staged :: bool
  rx_owner :: ultrawidelock_dfu_owner
  rx_transfer_id :: u32
  rx_total :: u32
  rx_got :: u32
  rx_patch_crc :: u32
  rx_wpos :: u32
  rx_head :: bytes
  rx_wbuf :: bytes

definition rx_zero :: dfu_rx where
  "rx_zero = \<lparr>rx_active = False, rx_erased = False, rx_staged = False, rx_owner = OWNER_NONE, rx_transfer_id = 0,
     rx_total = 0, rx_got = 0, rx_patch_crc = 0, rx_wpos = 0, rx_head = replicate HEAD_LEN 0, rx_wbuf = []\<rparr>"

record dfu =
  s_rx :: dfu_rx
  s_fa :: bool
  s_cli_off :: u32
  s_skip :: u32
  s_inner :: u32
  s_open :: bool
  s_window_deadline_ms :: int
  s_window_timer :: "int option"
  s_window_cb :: bool
  s_commit_cb :: "(ultrawidelock_dfu_hdr \<Rightarrow> bool) option"
  s_reboot :: bool
  s_staging :: flash
  s_notes :: "bool list"

text \<open>
  \<open>s_fa\<close> tells whether the staging partition has been opened, \<open>s_staging\<close> is its content, and
  \<open>s_notes\<close> collects what the window callback was told.
\<close>

record dfu_build =
  db_verify :: "bytes \<Rightarrow> bytes \<Rightarrow> bytes \<Rightarrow> bool"
  db_pubkey :: bytes

record dfu_env =
  de_now :: int
  de_prim_init :: bool
  de_flash_open :: bool
  de_io :: "(nat \<Rightarrow> u8) option list"

section \<open>The window\<close>

definition ultrawidelock_dfu_set_window_cb :: "bool \<Rightarrow> dfu \<Rightarrow> dfu" where
  "ultrawidelock_dfu_set_window_cb cb d = d\<lparr>s_window_cb := cb\<rparr>"

definition ultrawidelock_dfu_set_commit_cb :: "(ultrawidelock_dfu_hdr \<Rightarrow> bool) option \<Rightarrow> dfu \<Rightarrow> dfu" where
  "ultrawidelock_dfu_set_commit_cb cb d = d\<lparr>s_commit_cb := cb\<rparr>"

definition window_notify :: "bool \<Rightarrow> dfu \<Rightarrow> dfu" where
  "window_notify opened d = (if s_window_cb d then d\<lparr>s_notes := s_notes d @ [opened]\<rparr> else d)"

definition rx_state_reset_locked :: "dfu \<Rightarrow> dfu" where
  "rx_state_reset_locked d = d\<lparr>s_rx := rx_zero\<rparr>"

definition smp_cursor_reset_locked :: "dfu \<Rightarrow> dfu" where
  "smp_cursor_reset_locked d = d\<lparr>s_cli_off := 0, s_skip := 0, s_inner := 0\<rparr>"

definition rx_reset_all_locked :: "dfu \<Rightarrow> dfu" where
  "rx_reset_all_locked d = smp_cursor_reset_locked (rx_state_reset_locked d)"

abbreviation INT32_MAX :: int where "INT32_MAX \<equiv> 2147483647"

definition window_expire :: "dfu_env \<Rightarrow> dfu \<Rightarrow> dfu" where
  "window_expire E d =
     (let remaining_ms = s_window_deadline_ms d - de_now E
      in if \<not> s_open d then d
         else if remaining_ms > 0 then d\<lparr>s_window_timer := Some (min remaining_ms INT32_MAX)\<rparr>
         else window_notify False (rx_reset_all_locked (d\<lparr>s_open := False, s_window_deadline_ms := 0\<rparr>)))"

definition ultrawidelock_dfu_window_open :: "dfu_env \<Rightarrow> u32 \<Rightarrow> dfu \<Rightarrow> dfu" where
  "ultrawidelock_dfu_window_open E duration_ms d =
     window_notify True
       (d\<lparr>s_open := True, s_window_deadline_ms := de_now E + uint duration_ms,
          s_window_timer := Some (min (uint duration_ms) INT32_MAX)\<rparr>)"

definition ultrawidelock_dfu_window_close :: "dfu \<Rightarrow> dfu" where
  "ultrawidelock_dfu_window_close d =
     window_notify False (rx_reset_all_locked (d\<lparr>s_window_timer := None, s_open := False, s_window_deadline_ms := 0\<rparr>))"

definition ultrawidelock_dfu_window_is_open :: "dfu \<Rightarrow> bool" where
  "ultrawidelock_dfu_window_is_open d = s_open d"

section \<open>Staging flash\<close>

definition staging_open :: "dfu_env \<Rightarrow> dfu \<Rightarrow> dfu \<times> bool" where
  "staging_open E d = (if s_fa d then (d, True) else (d\<lparr>s_fa := de_flash_open E\<rparr>, de_flash_open E))"

definition patch_max :: "dfu \<Rightarrow> u32" where
  "patch_max d = fl_size (s_staging d) - of_nat DFU_PATCH_OFFSET"

definition pad4 :: "bytes \<Rightarrow> bytes" where
  "pad4 b = b @ replicate ((4 - length b mod 4) mod 4) 0xff"

definition wbuf_flush :: "bool \<Rightarrow> dfu \<Rightarrow> dfu \<times> bool" where
  "wbuf_flush final d =
     (let r = s_rx d; buf = (if final then pad4 (rx_wbuf r) else rx_wbuf r);
          n = (if final then length buf else length buf div 4 * 4)
      in if n = 0 then (d\<lparr>s_rx := r\<lparr>rx_wbuf := buf\<rparr>\<rparr>, True)
         else case ultrawidelock_flash_write (s_staging d) (unat (rx_wpos r)) (take n buf) of
                (fa, False) \<Rightarrow> (d\<lparr>s_staging := fa, s_rx := r\<lparr>rx_wbuf := buf\<rparr>\<rparr>, False)
              | (fa, True) \<Rightarrow>
                  (d\<lparr>s_staging := fa, s_rx := r\<lparr>rx_wpos := rx_wpos r + of_nat n, rx_wbuf := drop n buf\<rparr>\<rparr>, True))"

text \<open>
  The loop of \<^verbatim>\<open>patch_write\<close>. With a full buffer the C loop would copy nothing and turn for ever;
  here it stops and fails. It starts with room and each flush makes room
  (\<open>patch_loop_spec\<close> below), so that case does not arise.
\<close>

function patch_loop :: "dfu \<Rightarrow> bytes \<Rightarrow> dfu \<times> bool" where
  "patch_loop d data =
     (if data = [] then (d, True)
      else if length (rx_wbuf (s_rx d)) \<ge> RX_WBUF_SZ then (d, False)
      else
        let n = min (length data) (RX_WBUF_SZ - length (rx_wbuf (s_rx d)));
            d1 = d\<lparr>s_rx := (s_rx d)\<lparr>rx_wbuf := rx_wbuf (s_rx d) @ take n data\<rparr>\<rparr>
        in if length (rx_wbuf (s_rx d1)) = RX_WBUF_SZ
           then (case wbuf_flush False d1 of
                   (d2, False) \<Rightarrow> (d2, False)
                 | (d2, True) \<Rightarrow> patch_loop d2 (drop n data))
           else patch_loop d1 (drop n data))"
  by pat_completeness auto
termination
  by (relation "measure (\<lambda>(d, data). length data)") auto

declare patch_loop.simps [simp del]

definition patch_write :: "dfu \<Rightarrow> bytes \<Rightarrow> dfu \<times> bool" where
  "patch_write d data =
     patch_loop (d\<lparr>s_rx := (s_rx d)\<lparr>rx_patch_crc := ultrawidelock_crc32_update (rx_patch_crc (s_rx d)) data\<rparr>\<rparr>) data"

section \<open>Authenticity\<close>

definition head_verifies :: "dfu_build \<Rightarrow> dfu_env \<Rightarrow> dfu \<Rightarrow> bool" where
  "head_verifies B E d \<longleftrightarrow>
     de_prim_init E \<and> db_verify B (db_pubkey B) (take DFU_HDR_LEN (rx_head (s_rx d))) (drop DFU_HDR_LEN (rx_head (s_rx d)))"

section \<open>Frames\<close>

definition ultrawidelock_dfu_rx_reset_all :: "dfu \<Rightarrow> dfu" where
  "ultrawidelock_dfu_rx_reset_all d = rx_reset_all_locked d"

definition ultrawidelock_dfu_rx_reset :: "ultrawidelock_dfu_owner \<Rightarrow> dfu \<Rightarrow> dfu" where
  "ultrawidelock_dfu_rx_reset owner d =
     (if owner \<noteq> OWNER_NONE \<and> rx_owner (s_rx d) = owner then rx_reset_all_locked d else d)"

definition rx_erase_locked :: "dfu_env \<Rightarrow> ultrawidelock_dfu_owner \<Rightarrow> dfu \<Rightarrow> dfu \<times> int" where
  "rx_erase_locked E owner d =
     (if \<not> s_open d then (d, - EACCES)
      else if rx_owner (s_rx d) \<noteq> OWNER_NONE \<and> rx_owner (s_rx d) \<noteq> owner then (d, - EBUSY)
      else case staging_open E d of
             (d1, False) \<Rightarrow> (d1, - EIO)
           | (d1, True) \<Rightarrow>
               (case ultrawidelock_flash_erase (s_staging d1) 0 (unat (fl_size (s_staging d1))) of
                  (fa, False) \<Rightarrow> (d1\<lparr>s_staging := fa\<rparr>, - EIO)
                | (fa, True) \<Rightarrow> (rx_reset_all_locked (d1\<lparr>s_staging := fa\<rparr>), 0)))"

definition ultrawidelock_dfu_rx_erase :: "dfu_env \<Rightarrow> ultrawidelock_dfu_owner \<Rightarrow> dfu \<Rightarrow> dfu \<times> int" where
  "ultrawidelock_dfu_rx_erase E owner d = rx_erase_locked E owner d"

definition reply_ok :: "dfu \<Rightarrow> u32 \<Rightarrow> bytes" where
  "reply_ok d transfer_id = RSP_OK # sys_put_le32 transfer_id @ sys_put_le32 (rx_got (s_rx d))"

definition reply_err :: "ultrawidelock_dfu_err \<Rightarrow> bytes" where
  "reply_err code = [RSP_ERR, err_code code]"

definition begin_at :: "dfu_env \<Rightarrow> ultrawidelock_dfu_owner \<Rightarrow> u32 \<Rightarrow> u32 \<Rightarrow> dfu \<Rightarrow> dfu \<times> ultrawidelock_dfu_err" where
  "begin_at E owner transfer_id tot d =
     (let r = s_rx d
      in if owner = OWNER_NONE \<or> transfer_id = 0 then (d, ERR_MALFORMED)
         else if rx_owner r \<noteq> OWNER_NONE
         then (if rx_owner r = owner \<and> rx_transfer_id r = transfer_id \<and> rx_total r = tot then (d, ERR_OK)
               else (d, ERR_BUSY))
         else case staging_open E d of
                (d1, False) \<Rightarrow> (d1, ERR_FLASH)
              | (d1, True) \<Rightarrow>
                  if tot \<le> of_nat HEAD_LEN \<or> tot - of_nat HEAD_LEN > patch_max d1 then (d1, ERR_SIZE)
                  else (d1\<lparr>s_rx := rx_zero\<lparr>rx_active := True, rx_owner := owner, rx_transfer_id := transfer_id,
                                          rx_total := tot, rx_wpos := of_nat DFU_PATCH_OFFSET\<rparr>\<rparr>, ERR_OK))"

text \<open>The preamble branch of \<^verbatim>\<open>feed_bytes\<close>: \<open>take\<close> bytes of \<open>p\<close> go to the head; once it is complete it
  has to verify, and only then is the partition erased.\<close>

definition feed_head :: "dfu_build \<Rightarrow> dfu_env \<Rightarrow> dfu \<Rightarrow> bytes \<Rightarrow> dfu \<times> ultrawidelock_dfu_err" where
  "feed_head B E d p =
     (let r = s_rx d; m = min (length p) (HEAD_LEN - unat (rx_got r));
          d1 = d\<lparr>s_rx := r\<lparr>rx_head := overwrite (rx_head r) (unat (rx_got r)) (take m p), rx_got := rx_got r + of_nat m\<rparr>\<rparr>
      in if rx_got (s_rx d1) = of_nat HEAD_LEN
         then if \<not> head_verifies B E d1 then (d1, ERR_AUTH)
              else case ultrawidelock_flash_erase (s_staging d1) 0 (unat (fl_size (s_staging d1))) of
                     (fa, False) \<Rightarrow> (d1\<lparr>s_staging := fa\<rparr>, ERR_FLASH)
                   | (fa, True) \<Rightarrow> (d1\<lparr>s_staging := fa, s_rx := (s_rx d1)\<lparr>rx_erased := True\<rparr>\<rparr>, ERR_OK)
         else (d1, ERR_OK))"

definition feed_patch :: "dfu \<Rightarrow> bytes \<Rightarrow> dfu \<times> ultrawidelock_dfu_err" where
  "feed_patch d p =
     (if p = [] then (d, ERR_OK)
      else case patch_write d p of
             (d1, False) \<Rightarrow> (d1, ERR_FLASH)
           | (d1, True) \<Rightarrow> (d1\<lparr>s_rx := (s_rx d1)\<lparr>rx_got := rx_got (s_rx d1) + of_nat (length p)\<rparr>\<rparr>, ERR_OK))"

definition feed_bytes :: "dfu_build \<Rightarrow> dfu_env \<Rightarrow> dfu \<Rightarrow> bytes \<Rightarrow> dfu \<times> ultrawidelock_dfu_err" where
  "feed_bytes B E d p =
     (let r = s_rx d
      in if \<not> rx_active r then (d, ERR_SEQUENCE)
         else if unat (rx_got r) + length p > unat (rx_total r) then (d, ERR_SIZE)
         else if unat (rx_got r) < HEAD_LEN
         then case feed_head B E d p of
                (d1, ERR_OK) \<Rightarrow> feed_patch d1 (drop (HEAD_LEN - unat (rx_got r)) p)
              | (d1, e) \<Rightarrow> (d1, e)
         else feed_patch d p)"

definition commit_now :: "bool \<Rightarrow> dfu \<Rightarrow> dfu \<times> ultrawidelock_dfu_err" where
  "commit_now reboot d =
     (let r = s_rx d; armed = (\<lambda>x. if reboot then x\<lparr>s_reboot := True\<rparr> else x)
      in if rx_staged r then (armed d, ERR_OK)
         else if \<not> rx_active r \<or> \<not> rx_erased r \<or> rx_got r \<noteq> rx_total r then (d, ERR_SEQUENCE)
         else case wbuf_flush True d of
                (d1, False) \<Rightarrow> (d1, ERR_FLASH)
              | (d1, True) \<Rightarrow>
                  let hdr = hdr_of (take DFU_HDR_LEN (rx_head (s_rx d1)))
                  in if hdr_magic hdr \<noteq> DFU_MAGIC \<or> hdr_abi_version hdr \<noteq> DFU_ABI_VERSION \<or>
                        hdr_hdr_crc32 hdr \<noteq> ultrawidelock_crc32 (take DFU_HDR_CRC_LEN (rx_head (s_rx d1))) \<or>
                        hdr_patch_len hdr \<noteq> rx_total (s_rx d1) - of_nat HEAD_LEN \<or>
                        hdr_patch_crc32 hdr \<noteq> rx_patch_crc (s_rx d1)
                     then (d1, ERR_INTEGRITY)
                     else case ultrawidelock_flash_write (s_staging d1) DFU_HDR_OFFSET (take DFU_HDR_LEN (rx_head (s_rx d1))) of
                            (fa, False) \<Rightarrow> (d1\<lparr>s_staging := fa\<rparr>, ERR_FLASH)
                          | (fa, True) \<Rightarrow>
                              let d2 = d1\<lparr>s_staging := fa\<rparr>
                              in if (case s_commit_cb d2 of None \<Rightarrow> False | Some cb \<Rightarrow> \<not> cb hdr) then (d2, ERR_FLASH)
                                 else (armed (d2\<lparr>s_rx := (s_rx d2)\<lparr>rx_active := False, rx_staged := True\<rparr>\<rparr>), ERR_OK))"

definition do_begin :: "dfu_env \<Rightarrow> ultrawidelock_dfu_owner \<Rightarrow> bytes \<Rightarrow> dfu \<Rightarrow> dfu \<times> bytes" where
  "do_begin E owner frame d =
     (if length frame \<noteq> 9 then (d, reply_err ERR_MALFORMED)
      else
        let transfer_id = sys_get_le32 (drop 1 frame)
        in case begin_at E owner transfer_id (sys_get_le32 (drop 5 frame)) d of
             (d1, e) \<Rightarrow> (d1, if e = ERR_OK then reply_ok d1 transfer_id else reply_err e))"

definition not_yours :: "dfu \<Rightarrow> bytes" where
  "not_yours d = reply_err (if rx_owner (s_rx d) = OWNER_NONE then ERR_SEQUENCE else ERR_BUSY)"

definition do_data :: "dfu_build \<Rightarrow> dfu_env \<Rightarrow> ultrawidelock_dfu_owner \<Rightarrow> bytes \<Rightarrow> dfu \<Rightarrow> dfu \<times> bytes" where
  "do_data B E owner frame d =
     (if length frame < 9 then (d, reply_err ERR_MALFORMED)
      else
        let transfer_id = sys_get_le32 (drop 1 frame); offset = sys_get_le32 (drop 5 frame)
        in if rx_owner (s_rx d) \<noteq> owner \<or> rx_transfer_id (s_rx d) \<noteq> transfer_id then (d, not_yours d)
           else if offset \<noteq> rx_got (s_rx d) then (d, reply_ok d transfer_id)
           else case feed_bytes B E d (drop 9 frame) of
                  (d1, e) \<Rightarrow> if e \<noteq> ERR_OK then (rx_reset_all_locked d1, reply_err e) else (d1, reply_ok d1 transfer_id))"

definition do_commit :: "ultrawidelock_dfu_owner \<Rightarrow> bytes \<Rightarrow> dfu \<Rightarrow> dfu \<times> bytes" where
  "do_commit owner frame d =
     (if length frame \<noteq> 5 then (d, reply_err ERR_MALFORMED)
      else
        let transfer_id = sys_get_le32 (drop 1 frame)
        in if rx_owner (s_rx d) \<noteq> owner \<or> rx_transfer_id (s_rx d) \<noteq> transfer_id then (d, not_yours d)
           else case commit_now True d of
                  (d1, e) \<Rightarrow> if e \<noteq> ERR_OK then (rx_reset_all_locked d1, reply_err e) else (d1, reply_ok d1 transfer_id))"

definition do_abort :: "dfu_env \<Rightarrow> ultrawidelock_dfu_owner \<Rightarrow> bytes \<Rightarrow> dfu \<Rightarrow> dfu \<times> bytes" where
  "do_abort E owner frame d =
     (if length frame \<noteq> 5 \<or> rx_owner (s_rx d) \<noteq> owner \<or> rx_transfer_id (s_rx d) \<noteq> sys_get_le32 (drop 1 frame)
      then (d, reply_err ERR_SEQUENCE)
      else
        let transfer_id = rx_transfer_id (s_rx d)
        in case rx_erase_locked E owner d of
             (d1, rc) \<Rightarrow> (d1, if rc = 0 then reply_ok d1 transfer_id else reply_err ERR_FLASH))"

definition ultrawidelock_dfu_rx_frame :: "dfu_build \<Rightarrow> dfu_env \<Rightarrow> ultrawidelock_dfu_owner \<Rightarrow> bytes \<Rightarrow> dfu \<Rightarrow> dfu \<times> bytes" where
  "ultrawidelock_dfu_rx_frame B E owner frame d =
     (if length frame < 1 then (d, reply_err ERR_MALFORMED)
      else if \<not> s_open d then (d, reply_err ERR_CLOSED)
      else if frame ! 0 = OP_BEGIN then do_begin E owner frame d
      else if frame ! 0 = OP_DATA then do_data B E owner frame d
      else if frame ! 0 = OP_COMMIT then do_commit owner frame d
      else if frame ! 0 = OP_ABORT then do_abort E owner frame d
      else (d, reply_err ERR_MALFORMED))"

section \<open>SMP image upload\<close>

text \<open>The label \<^verbatim>\<open>refused\<close>.\<close>

definition upload_refused :: "dfu \<Rightarrow> dfu \<times> int \<times> u32 option" where
  "upload_refused d =
     (let d1 = d\<lparr>s_cli_off := 0\<rparr>
      in (if rx_owner (s_rx d1) = OWNER_SMP then rx_reset_all_locked d1 else smp_cursor_reset_locked d1, - EINVAL, None))"

text \<open>The first chunk: measure the wrapper, if there is one, and begin.\<close>

definition upload_first :: "dfu_env \<Rightarrow> u32 \<Rightarrow> bytes \<Rightarrow> dfu \<Rightarrow> dfu \<times> bool" where
  "upload_first E tot data d =
     (let d0 = d\<lparr>s_skip := 0, s_inner := tot\<rparr>;
          wrapped = (length data \<ge> MCUBOOT_HDR_MIN \<and> sys_get_le32 data = MCUBOOT_IMAGE_MAGIC);
          hdr_sz = ucast (sys_get_le16 (drop 8 data)) :: u32;
          img_sz = sys_get_le32 (drop 12 data)
      in if wrapped \<and> (hdr_sz < of_nat MCUBOOT_HDR_MIN \<or> img_sz = 0 \<or> hdr_sz > tot \<or> img_sz > tot - hdr_sz)
         then (d0, False)
         else
           let d1 = (if wrapped then d0\<lparr>s_skip := hdr_sz, s_inner := img_sz\<rparr> else d0)
           in case begin_at E OWNER_SMP 1 (s_inner d1) d1 of
                (d2, e) \<Rightarrow> if e \<noteq> ERR_OK then (d2, False) else (d2\<lparr>s_cli_off := 0\<rparr>, True))"

text \<open>The rest of the handler: step over the wrapper's header, feed the patch, drop the trailer, and
  stage on the last patch byte.\<close>

definition upload_chunk :: "dfu_build \<Rightarrow> dfu_env \<Rightarrow> bytes \<Rightarrow> dfu \<Rightarrow> dfu \<times> int \<times> u32 option" where
  "upload_chunk B E data0 d =
     (let dropped = (if s_cli_off d < s_skip d then min (length data0) (unat (s_skip d - s_cli_off d)) else 0);
          d1 = d\<lparr>s_cli_off := s_cli_off d + of_nat dropped\<rparr>;
          data = drop dropped data0;
          feeding = (data \<noteq> [] \<and> rx_got (s_rx d1) < s_inner d1);
          n = (if feeding then min (length data) (unat (s_inner d1 - rx_got (s_rx d1))) else 0)
      in case (if feeding then feed_bytes B E d1 (take n data) else (d1, ERR_OK)) of
           (d2, e) \<Rightarrow>
             if e \<noteq> ERR_OK then upload_refused d2
             else
               let d3 = d2\<lparr>s_cli_off := s_cli_off d2 + of_nat n + of_nat (length data - n)\<rparr>
               in if rx_active (s_rx d3) \<and> rx_got (s_rx d3) = s_inner d3
                  then (case commit_now False d3 of
                          (d4, e4) \<Rightarrow> if e4 \<noteq> ERR_OK then upload_refused d4 else (d4, 0, Some (s_cli_off d4)))
                  else (d3, 0, Some (s_cli_off d3)))"

definition rx_upload_locked :: "dfu_build \<Rightarrow> dfu_env \<Rightarrow> u32 \<Rightarrow> u32 \<Rightarrow> bytes \<Rightarrow> dfu \<Rightarrow> dfu \<times> int \<times> u32 option" where
  "rx_upload_locked B E off tot data d =
     (if \<not> s_open d then (d, - EACCES, None)
      else if rx_owner (s_rx d) \<noteq> OWNER_NONE \<and> rx_owner (s_rx d) \<noteq> OWNER_SMP then (d, - EBUSY, None)
      else if off = 0 \<and> rx_owner (s_rx d) = OWNER_SMP \<and> s_cli_off d > 0 then (d, 0, Some (s_cli_off d))
      else if off = 0
      then (case upload_first E tot data d of
              (d1, False) \<Rightarrow> upload_refused d1
            | (d1, True) \<Rightarrow> upload_chunk B E data d1)
      else if off \<noteq> s_cli_off d then (d, 0, Some (s_cli_off d))
      else upload_chunk B E data d)"

definition ultrawidelock_dfu_rx_upload :: "dfu_build \<Rightarrow> dfu_env \<Rightarrow> u32 \<Rightarrow> u32 \<Rightarrow> bytes \<Rightarrow> dfu \<Rightarrow> dfu \<times> int \<times> u32 option" where
  "ultrawidelock_dfu_rx_upload B E off tot data d = rx_upload_locked B E off tot data d"

definition ultrawidelock_dfu_rx_staged :: "dfu_env \<Rightarrow> dfu \<Rightarrow> dfu \<times> bool" where
  "ultrawidelock_dfu_rx_staged E d =
     (case staging_open E d of
        (d1, False) \<Rightarrow> (d1, False)
      | (d1, True) \<Rightarrow>
          (case ultrawidelock_flash_read (s_staging d1) DFU_HDR_OFFSET DFU_HDR_LEN of
             (fa, None) \<Rightarrow> (d1\<lparr>s_staging := fa\<rparr>, False)
           | (fa, Some p) \<Rightarrow>
               (d1\<lparr>s_staging := fa\<rparr>, hdr_magic (hdr_of p) = DFU_MAGIC \<and> hdr_abi_version (hdr_of p) = DFU_ABI_VERSION)))"

section \<open>Events\<close>

datatype dfu_event =
    Dfu_Open u32
  | Dfu_Close
  | Dfu_Expire
  | Dfu_Window_Cb bool
  | Dfu_Commit_Cb "(ultrawidelock_dfu_hdr \<Rightarrow> bool) option"
  | Dfu_Frame ultrawidelock_dfu_owner bytes
  | Dfu_Upload u32 u32 bytes
  | Dfu_Erase ultrawidelock_dfu_owner
  | Dfu_Reset ultrawidelock_dfu_owner
  | Dfu_Reset_All
  | Dfu_Ask_Staged

datatype dfu_out = Done | Reply bytes | Uploaded int "u32 option" | Erased int | Answer bool

fun dfu_handle :: "dfu_build \<Rightarrow> dfu_env \<Rightarrow> dfu \<Rightarrow> dfu_event \<Rightarrow> dfu \<times> dfu_out" where
  "dfu_handle B E d (Dfu_Open ms) = (ultrawidelock_dfu_window_open E ms d, Done)"
| "dfu_handle B E d Dfu_Close = (ultrawidelock_dfu_window_close d, Done)"
| "dfu_handle B E d Dfu_Expire = (window_expire E d, Done)"
| "dfu_handle B E d (Dfu_Window_Cb cb) = (ultrawidelock_dfu_set_window_cb cb d, Done)"
| "dfu_handle B E d (Dfu_Commit_Cb cb) = (ultrawidelock_dfu_set_commit_cb cb d, Done)"
| "dfu_handle B E d (Dfu_Frame owner frame) = (case ultrawidelock_dfu_rx_frame B E owner frame d of (d', rsp) \<Rightarrow> (d', Reply rsp))"
| "dfu_handle B E d (Dfu_Upload off tot data) =
     (case ultrawidelock_dfu_rx_upload B E off tot data d of (d', rc, next) \<Rightarrow> (d', Uploaded rc next))"
| "dfu_handle B E d (Dfu_Erase owner) = (case ultrawidelock_dfu_rx_erase E owner d of (d', rc) \<Rightarrow> (d', Erased rc))"
| "dfu_handle B E d (Dfu_Reset owner) = (ultrawidelock_dfu_rx_reset owner d, Done)"
| "dfu_handle B E d Dfu_Reset_All = (ultrawidelock_dfu_rx_reset_all d, Done)"
| "dfu_handle B E d Dfu_Ask_Staged = (case ultrawidelock_dfu_rx_staged E d of (d', b) \<Rightarrow> (d', Answer b))"

definition dfu_step :: "dfu_build \<Rightarrow> dfu \<Rightarrow> dfu_env \<times> dfu_event \<Rightarrow> dfu \<times> dfu_out" where
  "dfu_step B d x = dfu_handle B (fst x) (d\<lparr>s_staging := (s_staging d)\<lparr>fl_io := de_io (fst x)\<rparr>\<rparr>) (snd x)"

text \<open>Power-up: nothing received, the window shut, whatever the partition holds.\<close>

definition dfu_boot :: "flash \<Rightarrow> dfu" where
  "dfu_boot fa = \<lparr>s_rx = rx_zero, s_fa = False, s_cli_off = 0, s_skip = 0, s_inner = 0, s_open = False,
     s_window_deadline_ms = 0, s_window_timer = None, s_window_cb = False, s_commit_cb = None, s_reboot = False,
     s_staging = fa, s_notes = []\<rparr>"

definition dfu_after :: "dfu_build \<Rightarrow> flash \<Rightarrow> (dfu_env \<times> dfu_event) list \<Rightarrow> dfu" where
  "dfu_after B fa xs = fst (run_steps (dfu_step B) (dfu_boot fa) xs)"

end
