(* ===== verification/Dfu_Staging.thy ===== *)
theory Dfu_Staging
  imports Dfu_Receiver
begin

text \<open>
  What the write path of the update receiver does to the staging partition: at every moment the bytes
  accepted so far are the partition from the patch offset to the write position followed by the write
  buffer, every write lands on erased flash, and the header page and the step log stay erased until the
  commit.
\<close>

section \<open>The write buffer\<close>

definition holds :: "flash \<Rightarrow> dfu_rx \<Rightarrow> bytes \<Rightarrow> bool" where
  "holds fa r data \<longleftrightarrow>
     DFU_PATCH_OFFSET \<le> unat (rx_wpos r) \<and> unat (rx_wpos r) mod 4 = 0 \<and>
     (rx_wpos r = of_nat DFU_PATCH_OFFSET \<or> unat (rx_wpos r) \<le> unat (fl_size fa)) \<and>
     span fa DFU_PATCH_OFFSET (unat (rx_wpos r) - DFU_PATCH_OFFSET) @ rx_wbuf r = data \<and>
     blank fa 0 (min DFU_PATCH_OFFSET (unat (fl_size fa))) \<and> blank fa (unat (rx_wpos r)) (unat (fl_size fa))"

definition settled :: "dfu \<Rightarrow> dfu" where
  "settled d = d\<lparr>s_staging := (s_staging d)\<lparr>fl_at := \<lambda>_. 0, fl_io := []\<rparr>, s_rx := (s_rx d)\<lparr>rx_wpos := 0, rx_wbuf := []\<rparr>\<rparr>"

text \<open>Only the write position, the buffer and the bytes of the partition differ.\<close>

definition moved :: "dfu \<Rightarrow> dfu \<Rightarrow> bool" where
  "moved d d' \<longleftrightarrow> settled d' = settled d"

lemma moved_refl: "moved d d"
  by (simp add: moved_def)

lemma moved_trans: "moved a b \<Longrightarrow> moved b c \<Longrightarrow> moved a c"
  by (simp add: moved_def)

lemma moved_buf: "moved d (d\<lparr>s_rx := (s_rx d)\<lparr>rx_wbuf := b\<rparr>\<rparr>)"
  by (simp add: moved_def settled_def)

lemma moved_fields:
  assumes "moved d d'"
  shows "rx_active (s_rx d') = rx_active (s_rx d)" "rx_erased (s_rx d') = rx_erased (s_rx d)"
    "rx_staged (s_rx d') = rx_staged (s_rx d)" "rx_owner (s_rx d') = rx_owner (s_rx d)"
    "rx_transfer_id (s_rx d') = rx_transfer_id (s_rx d)" "rx_total (s_rx d') = rx_total (s_rx d)"
    "rx_got (s_rx d') = rx_got (s_rx d)" "rx_patch_crc (s_rx d') = rx_patch_crc (s_rx d)"
    "rx_head (s_rx d') = rx_head (s_rx d)" "fl_size (s_staging d') = fl_size (s_staging d)"
    "s_commit_cb d' = s_commit_cb d" "s_open d' = s_open d" "s_cli_off d' = s_cli_off d" "s_skip d' = s_skip d"
    "s_inner d' = s_inner d" "s_reboot d' = s_reboot d" "s_fa d' = s_fa d"
  using arg_cong [OF assms [unfolded moved_def], of
      "\<lambda>d. (fl_size (s_staging d), s_commit_cb d, s_open d, s_cli_off d, s_skip d, s_inner d, s_reboot d, s_fa d)"]
    arg_cong [OF assms [unfolded moved_def], of "\<lambda>d. (rx_active (s_rx d), rx_erased (s_rx d), rx_staged (s_rx d), rx_owner (s_rx d),
      rx_transfer_id (s_rx d), rx_total (s_rx d), rx_got (s_rx d), rx_patch_crc (s_rx d), rx_head (s_rx d))"]
  by (simp_all add: settled_def)

lemma wbuf_flush_moved: "wbuf_flush final d = (d', ok) \<Longrightarrow> moved d d'"
  by (auto simp: wbuf_flush_def Let_def moved_def settled_def dest!: flash_write_frame(1) split: if_splits prod.splits bool.splits)

lemma holds_write:
  assumes h: "holds fa r data" and w: "ultrawidelock_flash_write fa (unat (rx_wpos r)) b = (fa', True)"
    and b: "rx_wbuf r @ pad = b @ rest" "b \<noteq> []" "length b mod 4 = 0"
  shows "holds fa' (r\<lparr>rx_wpos := rx_wpos r + of_nat (length b), rx_wbuf := rest\<rparr>) (data @ pad)"
proof -
  let ?w = "unat (rx_wpos r)"
  have bl: "blank fa ?w (?w + length b)" and le: "?w + length b \<le> unat (fl_size fa)"
  proof -
    show le: "?w + length b \<le> unat (fl_size fa)"
      using w by (auto simp: ultrawidelock_flash_write_def in_bounds_def split: if_splits)
    show "blank fa ?w (?w + length b)" using h le by (auto simp: holds_def blank_def)
  qed
  have wp: "unat (rx_wpos r + of_nat (length b)) = ?w + length b"
  proof -
    have "?w + length b < 4294967296" using le unsigned_less [of "fl_size fa", where ?'a = nat] by simp
    then show ?thesis by (simp add: unat_word_ariths unat_of_nat)
  qed
  note f = flash_write_frame [OF w] flash_write_ok(1) [OF w bl]
  have "span fa' DFU_PATCH_OFFSET (?w + length b - DFU_PATCH_OFFSET) = span fa DFU_PATCH_OFFSET (?w - DFU_PATCH_OFFSET) @ b"
  proof -
    have e: "?w + length b - DFU_PATCH_OFFSET = (?w - DFU_PATCH_OFFSET) + length b" "DFU_PATCH_OFFSET + (?w - DFU_PATCH_OFFSET) = ?w"
      using h by (simp_all add: holds_def)
    have "span fa' DFU_PATCH_OFFSET (?w - DFU_PATCH_OFFSET) = span fa DFU_PATCH_OFFSET (?w - DFU_PATCH_OFFSET)"
      by (rule span_cong) (use e(2) f(2) in simp)
    then show ?thesis unfolding e(1) span_append e(2) f(3) by simp
  qed
  moreover have "blank fa' 0 (min DFU_PATCH_OFFSET (unat (fl_size fa')))" "blank fa' (?w + length b) (unat (fl_size fa'))"
    using h f(1,2) le by (auto simp: holds_def blank_def)
  moreover have "(?w + length b) mod 4 = 0" using h b(3) by (auto simp: holds_def)
  moreover have "span fa DFU_PATCH_OFFSET (?w - DFU_PATCH_OFFSET) @ b @ rest = data @ pad"
    using h b(1) by (auto simp: holds_def)
  ultimately show ?thesis using h le f(1) unfolding holds_def by (auto simp: wp)
qed

lemma flush_holds:
  assumes h: "holds (s_staging d) (s_rx d) data" and f: "wbuf_flush False d = (d', True)"
  shows "holds (s_staging d') (s_rx d') data \<and> length (rx_wbuf (s_rx d')) = length (rx_wbuf (s_rx d)) mod 4"
proof (cases "length (rx_wbuf (s_rx d)) div 4 * 4 = 0")
  case True
  then show ?thesis using h f by (auto simp: wbuf_flush_def Let_def)
next
  case False
  let ?n = "length (rx_wbuf (s_rx d)) div 4 * 4" and ?b = "rx_wbuf (s_rx d)"
  have n: "length (take ?n ?b) = ?n" "?n \<le> length ?b" by auto
  obtain fa where w: "ultrawidelock_flash_write (s_staging d) (unat (rx_wpos (s_rx d))) (take ?n ?b) = (fa, True)"
    and d': "d' = d\<lparr>s_staging := fa, s_rx := (s_rx d)\<lparr>rx_wpos := rx_wpos (s_rx d) + of_nat ?n, rx_wbuf := drop ?n ?b\<rparr>\<rparr>"
    using f False by (auto simp: wbuf_flush_def Let_def split: prod.splits bool.splits)
  have ne: "take ?n ?b \<noteq> []" using False n(1) by (metis length_0_conv)
  have "?b @ [] = take ?n ?b @ drop ?n ?b" by simp
  from holds_write [OF h w this ne] n show ?thesis
    unfolding d' by (simp add: minus_div_mult_eq_mod)
qed

lemma length_pad4: "length (pad4 b) = (length b + 3) div 4 * 4"
proof -
  have "l + (4 - l mod 4) mod 4 = (l + 3) div 4 * 4" for l :: nat
  proof -
    define q r where "q = l div 4" and "r = l mod 4"
    have l: "l = 4 * q + r" by (simp add: q_def r_def)
    consider "r = 0" | "r = 1" | "r = 2" | "r = 3" using mod_less_divisor [of 4 l] unfolding r_def by linarith
    moreover have "(l + 3) div 4 = q + (r + 3) div 4" unfolding l by (simp add: add.assoc)
    ultimately show ?thesis unfolding r_def [symmetric] by cases (simp_all add: l)
  qed
  then show ?thesis by (simp add: pad4_def)
qed

lemma round4_fits:
  assumes "w + L \<le> S" "w mod 4 = 0" "S mod 4 = (0::nat)"
  shows "w + (L + 3) div 4 * 4 \<le> S"
proof -
  obtain a b where ab: "w = 4 * a" "S = 4 * b" using assms(2,3) by (auto simp: mod_eq_0_iff_dvd elim!: dvdE)
  then have "L \<le> 4 * (b - a)" "a \<le> b" using assms(1) by auto
  then have "(L + 3) div 4 \<le> b - a" by linarith
  then show ?thesis using ab \<open>a \<le> b\<close> by auto
qed

lemma drop_less: "p \<noteq> [] \<Longrightarrow> n < m \<Longrightarrow> length (drop (m - n) p) < length p"
  using diff_less [of "m - n" "length p"] by simp

lemma pad4_length [simp]: "length (pad4 b) mod 4 = 0" "take (length b) (pad4 b) = b" "length b \<le> length (pad4 b)"
  unfolding length_pad4 by (simp_all add: pad4_def)

lemma flush_final_holds:
  assumes h: "holds (s_staging d) (s_rx d) data" and f: "wbuf_flush True d = (d', True)" and ne: "data \<noteq> []"
  shows "span (s_staging d') DFU_PATCH_OFFSET (length data) = data" and "DFU_PATCH_OFFSET + length data \<le> unat (fl_size (s_staging d'))"
    and "blank (s_staging d') 0 DFU_PATCH_OFFSET"
proof -
  let ?b = "rx_wbuf (s_rx d)"
  let ?pad = "drop (length ?b) (pad4 ?b)"
  have "holds (s_staging d') (s_rx d') (data @ ?pad) \<and> rx_wbuf (s_rx d') = []"
  proof (cases "pad4 ?b = []")
    case True
    moreover then have "?b = []" by (simp add: pad4_def)
    ultimately show ?thesis using h f by (auto simp: wbuf_flush_def Let_def holds_def)
  next
    case False
    obtain fa where w: "ultrawidelock_flash_write (s_staging d) (unat (rx_wpos (s_rx d))) (pad4 ?b) = (fa, True)"
      and d': "d' = d\<lparr>s_staging := fa, s_rx := (s_rx d)\<lparr>rx_wpos := rx_wpos (s_rx d) + of_nat (length (pad4 ?b)), rx_wbuf := []\<rparr>\<rparr>"
      using f False by (auto simp: wbuf_flush_def Let_def split: prod.splits bool.splits)
    have "?b @ ?pad = pad4 ?b @ []" by (simp add: pad4_def)
    from holds_write [OF h w this False] show ?thesis unfolding d' by simp
  qed
  then have e: "span (s_staging d') DFU_PATCH_OFFSET (unat (rx_wpos (s_rx d')) - DFU_PATCH_OFFSET) = data @ ?pad"
    and s: "DFU_PATCH_OFFSET \<le> unat (rx_wpos (s_rx d'))" "rx_wpos (s_rx d') = of_nat DFU_PATCH_OFFSET \<or> unat (rx_wpos (s_rx d')) \<le> unat (fl_size (s_staging d'))"
    and bl: "blank (s_staging d') 0 (min DFU_PATCH_OFFSET (unat (fl_size (s_staging d'))))"
    by (auto simp: holds_def)
  have l: "unat (rx_wpos (s_rx d')) - DFU_PATCH_OFFSET = length data + length ?pad"
    using arg_cong [OF e, of length] by simp
  then have "rx_wpos (s_rx d') \<noteq> of_nat DFU_PATCH_OFFSET" using ne by (auto simp del: length_drop)
  then show le: "DFU_PATCH_OFFSET + length data \<le> unat (fl_size (s_staging d'))" using s l by linarith
  have "take (length data) (data @ ?pad) = span (s_staging d') DFU_PATCH_OFFSET (length data)"
    unfolding e [symmetric] by (rule take_span) (simp only: l)
  then show "span (s_staging d') DFU_PATCH_OFFSET (length data) = data" by simp
  show "blank (s_staging d') 0 DFU_PATCH_OFFSET" using bl le by (simp add: min_absorb1)
qed

lemma patch_loop_Nil [simp]: "patch_loop d [] = (d, True)"
  by (simp add: patch_loop.simps)

lemma patch_loop_full: "p \<noteq> [] \<Longrightarrow> RX_WBUF_SZ \<le> length (rx_wbuf (s_rx d)) \<Longrightarrow> patch_loop d p = (d, False)"
  by (simp add: patch_loop.simps)

text \<open>One turn of the loop.\<close>

definition filled :: "dfu \<Rightarrow> bytes \<Rightarrow> dfu" where
  "filled d p = d\<lparr>s_rx := (s_rx d)\<lparr>rx_wbuf := rx_wbuf (s_rx d) @ take (RX_WBUF_SZ - length (rx_wbuf (s_rx d))) p\<rparr>\<rparr>"

lemma patch_loop_turn:
  assumes "p \<noteq> []" "length (rx_wbuf (s_rx d)) < RX_WBUF_SZ"
  shows "patch_loop d p =
    (if length (rx_wbuf (s_rx (filled d p))) = RX_WBUF_SZ
     then (case wbuf_flush False (filled d p) of
             (d2, False) \<Rightarrow> (d2, False)
           | (d2, True) \<Rightarrow> patch_loop d2 (drop (RX_WBUF_SZ - length (rx_wbuf (s_rx d))) p))
     else (filled d p, True))"
proof -
  let ?k = "RX_WBUF_SZ - length (rx_wbuf (s_rx d))"
  let ?n = "min (length p) ?k"
  have n: "take ?n p = take ?k p" "drop ?n p = drop ?k p" by (simp_all add: min_def)
  have "drop ?k p = []" if "length (rx_wbuf (s_rx (filled d p))) \<noteq> RX_WBUF_SZ"
    using that assms(2) by (auto simp: filled_def)
  then show ?thesis
    using assms unfolding patch_loop.simps [of d p] Let_def n filled_def [symmetric] by (simp split: bool.split prod.split)
qed

lemma filled_fields [simp]:
  "length (rx_wbuf (s_rx (filled d p))) = RX_WBUF_SZ \<Longrightarrow> length (rx_wbuf (s_rx d)) \<le> RX_WBUF_SZ \<Longrightarrow>
     rx_wbuf (s_rx d) @ p = rx_wbuf (s_rx (filled d p)) @ drop (RX_WBUF_SZ - length (rx_wbuf (s_rx d))) p"
  "s_staging (filled d p) = s_staging d" "rx_wpos (s_rx (filled d p)) = rx_wpos (s_rx d)"
  by (simp_all add: filled_def)

lemma filled_moved: "moved d (filled d p)"
  unfolding filled_def by (rule moved_buf)

lemma patch_loop_moved: "patch_loop d p = (d', ok) \<Longrightarrow> moved d d'"
proof (induction p arbitrary: d rule: length_induct)
  case (1 p)
  show ?case
  proof (cases "p = [] \<or> length (rx_wbuf (s_rx d)) \<ge> RX_WBUF_SZ")
    case True
    then show ?thesis using 1(2) patch_loop_full [of p d] by (cases "p = []") (auto simp: moved_refl)
  next
    case False
    let ?k = "RX_WBUF_SZ - length (rx_wbuf (s_rx d))"
    have l: "length (drop ?k p) < length p" using False by (intro drop_less) auto
    note t = patch_loop_turn [of p d]
    show ?thesis
      using 1(2) False t filled_moved [of d p] wbuf_flush_moved [of False "filled d p"] 1(1) [rule_format, OF l]
      by (auto split: if_splits prod.splits bool.splits intro: moved_trans)
  qed
qed

lemma holds_filled:
  assumes "holds (s_staging d) (s_rx d) data"
  shows "holds (s_staging d) (s_rx (filled d p)) (data @ take (RX_WBUF_SZ - length (rx_wbuf (s_rx d))) p)"
  using assms by (auto simp: holds_def filled_def)

lemma patch_loop_holds:
  "patch_loop d p = (d', True) \<Longrightarrow> holds (s_staging d) (s_rx d) data \<Longrightarrow> length (rx_wbuf (s_rx d)) < RX_WBUF_SZ \<Longrightarrow>
   holds (s_staging d') (s_rx d') (data @ p) \<and> length (rx_wbuf (s_rx d')) < RX_WBUF_SZ"
proof (induction p arbitrary: d data rule: length_induct)
  case (1 p)
  let ?k = "RX_WBUF_SZ - length (rx_wbuf (s_rx d))"
  note h = holds_filled [OF 1(3), of p]
  show ?case
  proof (cases "p = []")
    case False
    have l: "length (drop ?k p) < length p" using False 1(4) by (intro drop_less) auto
    show ?thesis
    proof (cases "length (rx_wbuf (s_rx (filled d p))) = RX_WBUF_SZ")
      case True
      then obtain d2 where f: "wbuf_flush False (filled d p) = (d2, True)" and r: "patch_loop d2 (drop ?k p) = (d', True)"
        using 1(2) patch_loop_turn [OF False 1(4)] by (auto split: prod.splits bool.splits)
      have "holds (s_staging d2) (s_rx d2) (data @ take ?k p) \<and> length (rx_wbuf (s_rx d2)) = 0"
        using flush_holds [OF _ f] h True by simp
      then show ?thesis using 1(1) [rule_format, OF l r, of "data @ take ?k p"] by simp
    next
      case c: False
      then have d': "d' = filled d p" using 1(2) patch_loop_turn [OF False 1(4)] by simp
      have "length p < ?k" using c 1(4) by (auto simp: filled_def)
      then show ?thesis using h c 1(4) unfolding d' by (simp add: filled_def)
    qed
  qed (use 1 in simp)
qed

text \<open>With a willing driver and room in the partition every write succeeds.\<close>

lemma flush_done:
  assumes "holds (s_staging d) (s_rx d) data" "fl_io (s_staging d) = []"
    and "length data \<le> unat (fl_size (s_staging d)) - DFU_PATCH_OFFSET" "DFU_PATCH_OFFSET \<le> unat (fl_size (s_staging d))"
    and "final \<Longrightarrow> unat (fl_size (s_staging d)) mod 4 = 0"
  shows "\<exists>d'. wbuf_flush final d = (d', True) \<and> fl_io (s_staging d') = []"
proof -
  let ?b = "if final then pad4 (rx_wbuf (s_rx d)) else rx_wbuf (s_rx d)" and ?w = "unat (rx_wpos (s_rx d))"
  let ?n = "if final then length ?b else length ?b div 4 * 4"
  have w: "?w - DFU_PATCH_OFFSET + length (rx_wbuf (s_rx d)) = length data" "DFU_PATCH_OFFSET \<le> ?w" "?w mod 4 = 0"
    using assms(1) by (auto simp: holds_def)
  have n: "?n mod 4 = 0" "?n \<le> length ?b" by auto
  have "?w + ?n \<le> unat (fl_size (s_staging d))"
  proof (cases final)
    case True
    have "?w + (length (rx_wbuf (s_rx d)) + 3) div 4 * 4 \<le> unat (fl_size (s_staging d))"
      using w assms(3,4) by (intro round4_fits assms(5) [OF True]) auto
    then show ?thesis using True by (simp add: length_pad4)
  qed (use w n assms(3,4) in auto)
  then have "\<exists>fa. ultrawidelock_flash_write (s_staging d) ?w (take ?n ?b) = (fa, True) \<and> fl_io fa = []"
    using n w(3) by (intro flash_write_done [OF assms(2)]) simp_all
  then show ?thesis using assms(2) unfolding wbuf_flush_def Let_def by auto
qed

lemma patch_loop_done:
  "holds (s_staging d) (s_rx d) data \<Longrightarrow> fl_io (s_staging d) = [] \<Longrightarrow> length (rx_wbuf (s_rx d)) < RX_WBUF_SZ \<Longrightarrow>
   length (data @ p) \<le> unat (fl_size (s_staging d)) - DFU_PATCH_OFFSET \<Longrightarrow> DFU_PATCH_OFFSET \<le> unat (fl_size (s_staging d)) \<Longrightarrow>
   \<exists>d'. patch_loop d p = (d', True) \<and> fl_io (s_staging d') = []"
proof (induction p arbitrary: d data rule: length_induct)
  case (1 p)
  let ?k = "RX_WBUF_SZ - length (rx_wbuf (s_rx d))"
  show ?case
  proof (cases "p = [] \<or> length (rx_wbuf (s_rx (filled d p))) \<noteq> RX_WBUF_SZ")
    case True
    then show ?thesis using 1(3,4) patch_loop_turn [of p d] by (cases "p = []") auto
  next
    case False
    note h = holds_filled [OF 1(2), of p]
    obtain d2 where f: "wbuf_flush False (filled d p) = (d2, True)" and i: "fl_io (s_staging d2) = []"
      using flush_done [of "filled d p" "data @ take ?k p" False] h 1(3,6) order_trans [OF _ 1(5), of "length (data @ take ?k p)"] by auto
    note m = moved_fields(10) [OF wbuf_flush_moved [OF f]]
    have h2: "holds (s_staging d2) (s_rx d2) (data @ take ?k p)" "length (rx_wbuf (s_rx d2)) < RX_WBUF_SZ"
      using flush_holds [OF _ f] h False by simp_all
    have l: "length (drop ?k p) < length p" using False 1(4) by (intro drop_less) auto
    have "\<exists>d'. patch_loop d2 (drop ?k p) = (d', True) \<and> fl_io (s_staging d') = []"
      using 1(5,6) m by (intro 1(1) [rule_format, OF l h2(1) i h2(2)]) auto
    then show ?thesis using patch_loop_turn [of p d] f False 1(4) by auto
  qed
qed

end
