(* ===== verification/Dfu_Inv.thy ===== *)
theory Dfu_Inv
  imports Dfu_Staging
begin

text \<open>
  The invariant of the update receiver. While a transfer is active its header has been verified before
  anything was erased, and the running checksum is that of the bytes in the partition and the buffer;
  when the receiver calls an update staged, the partition holds a signed header and a patch of the
  length and checksum the header gives.
\<close>

section \<open>Complete updates\<close>

definition complete :: "dfu_build \<Rightarrow> flash \<Rightarrow> bytes \<Rightarrow> bytes \<Rightarrow> bool" where
  "complete B fa h sg \<longleftrightarrow>
     span fa DFU_HDR_OFFSET DFU_HDR_LEN = h \<and> db_verify B (db_pubkey B) h sg \<and>
     hdr_magic (hdr_of h) = DFU_MAGIC \<and> hdr_abi_version (hdr_of h) = DFU_ABI_VERSION \<and>
     hdr_hdr_crc32 (hdr_of h) = ultrawidelock_crc32 (take DFU_HDR_CRC_LEN h) \<and>
     0 < unat (hdr_patch_len (hdr_of h)) \<and> DFU_PATCH_OFFSET + unat (hdr_patch_len (hdr_of h)) \<le> unat (fl_size fa) \<and>
     ultrawidelock_crc32 (span fa DFU_PATCH_OFFSET (unat (hdr_patch_len (hdr_of h)))) = hdr_patch_crc32 (hdr_of h) \<and>
     blank fa DFU_HDR_LEN DFU_PATCH_OFFSET"

definition transfer_ok :: "dfu_build \<Rightarrow> dfu \<Rightarrow> bool" where
  "transfer_ok B d \<longleftrightarrow>
     (let r = s_rx d in
      rx_owner r \<noteq> OWNER_NONE \<and> \<not> rx_staged r \<and> length (rx_head r) = HEAD_LEN \<and> HEAD_LEN < unat (rx_total r) \<and>
      rx_got r \<le> rx_total r \<and>
      (if unat (rx_got r) < HEAD_LEN
       then \<not> rx_erased r \<and> rx_wbuf r = [] \<and> rx_wpos r = of_nat DFU_PATCH_OFFSET \<and> rx_patch_crc r = 0
       else rx_erased r \<and> db_verify B (db_pubkey B) (take DFU_HDR_LEN (rx_head r)) (drop DFU_HDR_LEN (rx_head r)) \<and>
            length (rx_wbuf r) < RX_WBUF_SZ \<and>
            (\<exists>data. holds (s_staging d) r data \<and> length data = unat (rx_got r) - HEAD_LEN \<and>
                    rx_patch_crc r = ultrawidelock_crc32 data)))"

definition rx_ok :: "dfu_build \<Rightarrow> dfu \<Rightarrow> bool" where
  "rx_ok B d \<longleftrightarrow>
     (rx_active (s_rx d) \<longrightarrow> transfer_ok B d) \<and>
     (rx_staged (s_rx d) \<longrightarrow>
        rx_owner (s_rx d) \<noteq> OWNER_NONE \<and> \<not> rx_active (s_rx d) \<and>
        complete B (s_staging d) (take DFU_HDR_LEN (rx_head (s_rx d))) (drop DFU_HDR_LEN (rx_head (s_rx d))))"

text \<open>What no data frame touches.\<close>

definition claim :: "dfu \<Rightarrow> bool \<times> bool \<times> ultrawidelock_dfu_owner \<times> u32 \<times> u32 \<times> u32 \<times> bool \<times> bool \<times> u32 \<times> u32 \<times> u32 \<times> bool \<times> (ultrawidelock_dfu_hdr \<Rightarrow> bool) option" where
  "claim d = (rx_active (s_rx d), rx_staged (s_rx d), rx_owner (s_rx d), rx_transfer_id (s_rx d), rx_total (s_rx d),
     fl_size (s_staging d), s_fa d, s_open d, s_cli_off d, s_skip d, s_inner d, s_reboot d, s_commit_cb d)"

lemma claim_moved: "moved d d' \<Longrightarrow> claim d' = claim d"
  by (simp add: claim_def moved_fields)

lemma unat_sum: "unat g + n \<le> unat (t::u32) \<Longrightarrow> unat (g + of_nat n :: u32) = unat g + n"
  using unsigned_less [of t, where ?'a = nat] by (simp add: unat_word_ariths unat_of_nat)

section \<open>Feeding bytes\<close>

lemma feed_head_claim: "feed_head B E d p = (d', e) \<Longrightarrow> claim d' = claim d"
  by (auto simp: feed_head_def Let_def claim_def dest!: flash_erase_frame(1) split: if_splits prod.splits bool.splits)

lemma feed_patch_claim: "feed_patch d p = (d', e) \<Longrightarrow> claim d' = claim d"
proof (cases "p = []")
  case False
  assume f: "feed_patch d p = (d', e)"
  let ?d0 = "d\<lparr>s_rx := (s_rx d)\<lparr>rx_patch_crc := ultrawidelock_crc32_update (rx_patch_crc (s_rx d)) p\<rparr>\<rparr>"
  obtain d1 ok where l: "patch_loop ?d0 p = (d1, ok)" by (cases "patch_loop ?d0 p")
  have "claim d1 = claim d" using claim_moved [OF patch_loop_moved [OF l]] by (simp add: claim_def)
  moreover have "claim (d1\<lparr>s_rx := (s_rx d1)\<lparr>rx_got := x\<rparr>\<rparr>) = claim d1" for x by (simp add: claim_def)
  ultimately show ?thesis using f l False by (cases ok) (auto simp: feed_patch_def patch_write_def)
qed (simp add: feed_patch_def)

lemma feed_bytes_claim: "feed_bytes B E d p = (d', e) \<Longrightarrow> claim d' = claim d"
  using feed_head_claim [of B E d p] feed_patch_claim
  by (auto simp: feed_bytes_def Let_def split: if_splits prod.splits ultrawidelock_dfu_err.splits)

lemma feed_head_got:
  assumes "unat (rx_got (s_rx d)) < HEAD_LEN" "unat (rx_got (s_rx d)) + length p \<le> unat (rx_total (s_rx d))"
    and "feed_head B E d p = (d', e)"
  shows "unat (rx_got (s_rx d')) = min HEAD_LEN (unat (rx_got (s_rx d)) + length p)"
proof -
  have "unat (rx_got (s_rx d) + of_nat (min (length p) (HEAD_LEN - unat (rx_got (s_rx d))))) = unat (rx_got (s_rx d)) + min (length p) (HEAD_LEN - unat (rx_got (s_rx d)))"
    using assms(1,2) by (intro unat_sum [of _ _ "rx_total (s_rx d)"]) linarith
  moreover have "rx_got (s_rx d') = rx_got (s_rx d) + of_nat (min (length p) (HEAD_LEN - unat (rx_got (s_rx d))))"
    using assms(3) by (auto simp: feed_head_def Let_def split: if_splits prod.splits bool.splits)
  moreover have "g + min (length p) (HEAD_LEN - g) = min HEAD_LEN (g + length p)" if "g < HEAD_LEN" for g
    using that by (auto simp: min_def)
  ultimately show ?thesis using assms(1) by simp
qed

lemma got_full: "unat g = HEAD_LEN \<longleftrightarrow> g = (of_nat HEAD_LEN :: u32)"
proof
  assume "unat g = HEAD_LEN"
  then have "of_nat (unat g) = (of_nat HEAD_LEN :: u32)" by simp
  then show "g = of_nat HEAD_LEN" by simp
qed simp

lemma feed_head_ok:
  assumes t: "transfer_ok B d" and g: "unat (rx_got (s_rx d)) < HEAD_LEN" "unat (rx_got (s_rx d)) + length p \<le> unat (rx_total (s_rx d))"
    and f: "feed_head B E d p = (d', ERR_OK)"
  shows "transfer_ok B d'"
proof -
  let ?r = "s_rx d" and ?m = "min (length p) (HEAD_LEN - unat (rx_got (s_rx d)))"
  let ?h = "overwrite (rx_head ?r) (unat (rx_got ?r)) (take ?m p)"
  note g' = feed_head_got [OF g f]
  have h: "length ?h = HEAD_LEN" using t g(1) by (subst length_overwrite) (auto simp: transfer_ok_def Let_def)
  have le: "rx_got (s_rx d') \<le> rx_total ?r" using g' g(2) by (simp add: word_le_nat_alt)
  show ?thesis
  proof (cases "unat (rx_got ?r) + length p < HEAD_LEN")
    case True
    then have "unat (rx_got (s_rx d')) \<noteq> HEAD_LEN" using g' by simp
    then have "d' = d\<lparr>s_rx := ?r\<lparr>rx_head := ?h, rx_got := rx_got ?r + of_nat ?m\<rparr>\<rparr>"
      using f unfolding got_full by (auto simp: feed_head_def Let_def split: if_splits prod.splits bool.splits)
    then show ?thesis using t g(1) g' h le True by (simp add: transfer_ok_def Let_def)
  next
    case False
    then have e: "rx_got (s_rx d') = of_nat HEAD_LEN" using g' got_full [of "rx_got (s_rx d')"] by simp
    obtain fa where fa: "ultrawidelock_flash_erase (s_staging d) 0 (unat (fl_size (s_staging d))) = (fa, True)"
      and d': "d' = d\<lparr>s_staging := fa, s_rx := ?r\<lparr>rx_head := ?h, rx_got := rx_got ?r + of_nat ?m, rx_erased := True\<rparr>\<rparr>"
      and v: "db_verify B (db_pubkey B) (take DFU_HDR_LEN ?h) (drop DFU_HDR_LEN ?h)"
      using f e by (auto simp: feed_head_def Let_def head_verifies_def split: if_splits prod.splits bool.splits)
    have "holds fa (s_rx d') []"
      using flash_erase_frame(1,3) [OF fa] t g(1) d'
      by (auto simp: holds_def transfer_ok_def Let_def blank_def)
    then show ?thesis
      using t g(1) g' h le e v False unfolding d'
      by (auto simp: transfer_ok_def Let_def ultrawidelock_crc32_def ultrawidelock_crc32_update_def intro!: exI [of _ "[]"])
  qed
qed

lemma crc32_snoc: "ultrawidelock_crc32_update (ultrawidelock_crc32 a) b = ultrawidelock_crc32 (a @ b)"
  by (simp add: ultrawidelock_crc32_def crc32_chain)

lemma feed_patch_got:
  assumes "unat (rx_got (s_rx d)) + length p \<le> unat (rx_total (s_rx d))" "feed_patch d p = (d', ERR_OK)"
  shows "unat (rx_got (s_rx d')) = unat (rx_got (s_rx d)) + length p"
proof (cases "p = []")
  case False
  let ?d0 = "d\<lparr>s_rx := (s_rx d)\<lparr>rx_patch_crc := ultrawidelock_crc32_update (rx_patch_crc (s_rx d)) p\<rparr>\<rparr>"
  obtain d1 ok where l: "patch_loop ?d0 p = (d1, ok)" by (cases "patch_loop ?d0 p")
  have "rx_got (s_rx d1) = rx_got (s_rx d)" using moved_fields(7) [OF patch_loop_moved [OF l]] by simp
  then show ?thesis using assms(2) l False unat_sum [OF assms(1)] by (cases ok) (auto simp: feed_patch_def patch_write_def)
qed (use assms in \<open>simp add: feed_patch_def\<close>)

lemma feed_patch_ok:
  assumes t: "transfer_ok B d" and g: "HEAD_LEN \<le> unat (rx_got (s_rx d))" "unat (rx_got (s_rx d)) + length p \<le> unat (rx_total (s_rx d))"
    and f: "feed_patch d p = (d', ERR_OK)"
  shows "transfer_ok B d'"
proof (cases "p = []")
  case False
  let ?d0 = "d\<lparr>s_rx := (s_rx d)\<lparr>rx_patch_crc := ultrawidelock_crc32_update (rx_patch_crc (s_rx d)) p\<rparr>\<rparr>"
  obtain d1 where l: "patch_loop ?d0 p = (d1, True)"
    and d': "d' = d1\<lparr>s_rx := (s_rx d1)\<lparr>rx_got := rx_got (s_rx d1) + of_nat (length p)\<rparr>\<rparr>"
    using f False by (auto simp: feed_patch_def patch_write_def split: prod.splits bool.splits)
  obtain data where h: "holds (s_staging d) (s_rx d) data" "length data = unat (rx_got (s_rx d)) - HEAD_LEN"
    and c: "rx_patch_crc (s_rx d) = ultrawidelock_crc32 data" "length (rx_wbuf (s_rx d)) < RX_WBUF_SZ"
    using t g(1) by (auto simp: transfer_ok_def Let_def)
  have "holds (s_staging ?d0) (s_rx ?d0) data" using h(1) by (simp add: holds_def)
  then have h1: "holds (s_staging d1) (s_rx d1) (data @ p)" "length (rx_wbuf (s_rx d1)) < RX_WBUF_SZ"
    using patch_loop_holds [OF l] c(2) by auto
  note m = moved_fields [OF patch_loop_moved [OF l]]
  have g': "unat (rx_got (s_rx d')) = unat (rx_got (s_rx d)) + length p" using feed_patch_got [OF g(2) f] .
  have "holds (s_staging d') (s_rx d') (data @ p)" using h1(1) unfolding d' by (simp add: holds_def)
  then show ?thesis
    using t g g' h h1(2) c m unfolding d'
    by (auto simp: transfer_ok_def Let_def crc32_snoc word_le_nat_alt intro!: exI [of _ "data @ p"])
qed (use t f in \<open>simp add: feed_patch_def\<close>)

lemma feed_bytes_ok:
  assumes t: "transfer_ok B d" and f: "feed_bytes B E d p = (d', ERR_OK)"
  shows "transfer_ok B d'" and "unat (rx_got (s_rx d')) = unat (rx_got (s_rx d)) + length p"
proof -
  let ?g = "unat (rx_got (s_rx d))"
  have le: "?g + length p \<le> unat (rx_total (s_rx d))" using f by (auto simp: feed_bytes_def Let_def split: if_splits)
  have "transfer_ok B d' \<and> unat (rx_got (s_rx d')) = ?g + length p"
  proof (cases "?g < HEAD_LEN")
    case True
    then obtain d1 where d1: "feed_head B E d p = (d1, ERR_OK)" and f1: "feed_patch d1 (drop (HEAD_LEN - ?g) p) = (d', ERR_OK)"
      using f le by (auto simp: feed_bytes_def Let_def split: if_splits prod.splits ultrawidelock_dfu_err.splits)
    have t1: "transfer_ok B d1" using feed_head_ok [OF t True le d1] .
    have g1: "unat (rx_got (s_rx d1)) = min HEAD_LEN (?g + length p)" using feed_head_got [OF True le d1] .
    have tt: "rx_total (s_rx d1) = rx_total (s_rx d)" using feed_head_claim [OF d1] by (simp add: claim_def)
    show ?thesis
    proof (cases "?g + length p < HEAD_LEN")
      case c: True
      then show ?thesis using f1 t1 g1 True by (auto simp: feed_patch_def)
    next
      case c: False
      have l1: "unat (rx_got (s_rx d1)) + length (drop (HEAD_LEN - ?g) p) \<le> unat (rx_total (s_rx d1))"
        using g1 c True le tt by auto
      have "HEAD_LEN \<le> unat (rx_got (s_rx d1))" using g1 c by simp
      from feed_patch_ok [OF t1 this l1 f1] feed_patch_got [OF l1 f1] show ?thesis using g1 c True by auto
    qed
  next
    case False
    then have f1: "feed_patch d p = (d', ERR_OK)" using f le by (auto simp: feed_bytes_def Let_def split: if_splits)
    from feed_patch_ok [OF t _ le f1] feed_patch_got [OF le f1] False show ?thesis by auto
  qed
  then show "transfer_ok B d'" and "unat (rx_got (s_rx d')) = ?g + length p" by auto
qed

section \<open>Commit\<close>

lemma header_completes:
  assumes "span fa DFU_PATCH_OFFSET (length data) = data" "DFU_PATCH_OFFSET + length data \<le> unat (fl_size fa)" "blank fa 0 DFU_PATCH_OFFSET"
    and "data \<noteq> []" "length h = DFU_HDR_LEN" "hdr_magic (hdr_of h) = DFU_MAGIC" "hdr_abi_version (hdr_of h) = DFU_ABI_VERSION"
    and "hdr_hdr_crc32 (hdr_of h) = ultrawidelock_crc32 (take DFU_HDR_CRC_LEN h)" "unat (hdr_patch_len (hdr_of h)) = length data"
    and "hdr_patch_crc32 (hdr_of h) = ultrawidelock_crc32 data" "db_verify B (db_pubkey B) h sg"
    and w: "ultrawidelock_flash_write fa DFU_HDR_OFFSET h = (fa', True)"
  shows "complete B fa' h sg"
proof -
  have "blank fa 0 (0 + length h)" using assms(3,5) by (auto simp: blank_def)
  note f = flash_write_frame [OF w] flash_write_ok(1) [OF w this]
  have "span fa' DFU_PATCH_OFFSET (length data) = span fa DFU_PATCH_OFFSET (length data)"
    by (rule span_cong) (use f(2) assms(5) in simp)
  moreover have "blank fa' DFU_HDR_LEN DFU_PATCH_OFFSET" using f(2) assms(3,5) by (auto simp: blank_def)
  ultimately show ?thesis using assms f(1,3) by (simp add: complete_def)
qed

definition armed :: "bool \<Rightarrow> dfu \<Rightarrow> dfu" where
  "armed reboot d = (if reboot then d\<lparr>s_reboot := True\<rparr> else d)"

lemma armed_fields [simp]:
  "s_rx (armed b d) = s_rx d" "s_staging (armed b d) = s_staging d" "s_open (armed b d) = s_open d"
  "s_cli_off (armed b d) = s_cli_off d" "s_skip (armed b d) = s_skip d" "s_inner (armed b d) = s_inner d"
  "s_reboot (armed b d) = (b \<or> s_reboot d)" "s_commit_cb (armed b d) = s_commit_cb d" "s_fa (armed b d) = s_fa d"
  by (simp_all add: armed_def)

definition hdr_good :: "dfu_rx \<Rightarrow> bool" where
  "hdr_good r \<longleftrightarrow>
     (let hdr = hdr_of (take DFU_HDR_LEN (rx_head r)) in
      hdr_magic hdr = DFU_MAGIC \<and> hdr_abi_version hdr = DFU_ABI_VERSION \<and>
      hdr_hdr_crc32 hdr = ultrawidelock_crc32 (take DFU_HDR_CRC_LEN (rx_head r)) \<and>
      hdr_patch_len hdr = rx_total r - of_nat HEAD_LEN \<and> hdr_patch_crc32 hdr = rx_patch_crc r)"

definition port_accepts :: "dfu \<Rightarrow> bool" where
  "port_accepts d \<longleftrightarrow> (case s_commit_cb d of None \<Rightarrow> True | Some cb \<Rightarrow> cb (hdr_of (take DFU_HDR_LEN (rx_head (s_rx d)))))"

lemma commit_now_eq:
  "commit_now reboot d =
     (if rx_staged (s_rx d) then (armed reboot d, ERR_OK)
      else if \<not> rx_active (s_rx d) \<or> \<not> rx_erased (s_rx d) \<or> rx_got (s_rx d) \<noteq> rx_total (s_rx d) then (d, ERR_SEQUENCE)
      else case wbuf_flush True d of
             (d1, False) \<Rightarrow> (d1, ERR_FLASH)
           | (d1, True) \<Rightarrow>
               if \<not> hdr_good (s_rx d1) then (d1, ERR_INTEGRITY)
               else case ultrawidelock_flash_write (s_staging d1) DFU_HDR_OFFSET (take DFU_HDR_LEN (rx_head (s_rx d1))) of
                      (fa, False) \<Rightarrow> (d1\<lparr>s_staging := fa\<rparr>, ERR_FLASH)
                    | (fa, True) \<Rightarrow>
                        if \<not> port_accepts d1 then (d1\<lparr>s_staging := fa\<rparr>, ERR_FLASH)
                        else (armed reboot (d1\<lparr>s_staging := fa, s_rx := (s_rx d1)\<lparr>rx_active := False, rx_staged := True\<rparr>\<rparr>), ERR_OK))"
  unfolding commit_now_def hdr_good_def port_accepts_def armed_def Let_def
  by (auto split: prod.split bool.split option.split)

definition holder :: "dfu \<Rightarrow> ultrawidelock_dfu_owner \<times> u32 \<times> bool \<times> u32 \<times> u32 \<times> u32 \<times> bool \<times> u32 \<times> (ultrawidelock_dfu_hdr \<Rightarrow> bool) option" where
  "holder d = (rx_owner (s_rx d), rx_transfer_id (s_rx d), s_open d, s_cli_off d, s_skip d, s_inner d, s_fa d, fl_size (s_staging d), s_commit_cb d)"

lemma holder_claim: "claim d' = claim d \<Longrightarrow> holder d' = holder d"
  by (simp add: claim_def holder_def)

lemma commit_now_holder:
  assumes "commit_now reboot d = (d', e)"
  shows "holder d' = holder d"
proof -
  obtain d1 ok where w: "wbuf_flush True d = (d1, ok)" by (cases "wbuf_flush True d")
  obtain fa ok' where fa: "ultrawidelock_flash_write (s_staging d1) 0 (take DFU_HDR_LEN (rx_head (s_rx d1))) = (fa, ok')"
    by (cases "ultrawidelock_flash_write (s_staging d1) 0 (take DFU_HDR_LEN (rx_head (s_rx d1)))")
  have h: "holder d1 = holder d" by (rule holder_claim [OF claim_moved [OF wbuf_flush_moved [OF w]]])
  have "holder (d1\<lparr>s_staging := fa\<rparr>) = holder d"
    "holder (armed reboot (d1\<lparr>s_staging := fa, s_rx := (s_rx d1)\<lparr>rx_active := False, rx_staged := True\<rparr>\<rparr>)) = holder d"
    unfolding h [symmetric] using flash_write_frame(1) [OF fa] by (simp_all add: holder_def)
  moreover have "holder (armed reboot d) = holder d" by (simp add: holder_def)
  ultimately show ?thesis using assms h unfolding commit_now_eq w prod.case fa by (cases ok; cases ok') (auto split: if_splits)
qed

lemma flushed_for_commit:
  assumes t: "transfer_ok B d" and g: "rx_erased (s_rx d)" "rx_got (s_rx d) = rx_total (s_rx d)"
    and w: "wbuf_flush True d = (d1, True)" and h: "hdr_good (s_rx d1)"
    and fa: "ultrawidelock_flash_write (s_staging d1) DFU_HDR_OFFSET (take DFU_HDR_LEN (rx_head (s_rx d1))) = (fa, True)"
  shows "complete B fa (take DFU_HDR_LEN (rx_head (s_rx d1))) (drop DFU_HDR_LEN (rx_head (s_rx d1)))"
proof -
  note m = moved_fields [OF wbuf_flush_moved [OF w]]
  have n: "\<not> unat (rx_got (s_rx d)) < HEAD_LEN" using t g(2) by (auto simp: transfer_ok_def Let_def)
  obtain data where hd: "holds (s_staging d) (s_rx d) data" "length data = unat (rx_total (s_rx d)) - HEAD_LEN"
    and c: "rx_patch_crc (s_rx d) = ultrawidelock_crc32 data"
    and v: "db_verify B (db_pubkey B) (take DFU_HDR_LEN (rx_head (s_rx d))) (drop DFU_HDR_LEN (rx_head (s_rx d)))"
    using t n g(2) by (auto simp: transfer_ok_def Let_def)
  have lt: "HEAD_LEN < unat (rx_total (s_rx d))" and lh: "length (rx_head (s_rx d)) = HEAD_LEN"
    using t by (auto simp: transfer_ok_def Let_def)
  have ne: "data \<noteq> []" using hd(2) lt by auto
  have "unat (rx_total (s_rx d) - of_nat HEAD_LEN) = length data"
    using lt hd(2) by (subst unat_sub) (auto simp: word_le_nat_alt)
  then show ?thesis
    using flush_final_holds [OF hd(1) w ne] h ne lh v c fa m
    by (intro header_completes [where data = data]) (auto simp: hdr_good_def Let_def min_def)
qed

lemma commit_now_ok:
  assumes "rx_ok B d" "commit_now reboot d = (d', ERR_OK)"
  shows "rx_ok B d'" and "rx_staged (s_rx d')" and "reboot \<Longrightarrow> s_reboot d'"
proof -
  have "rx_ok B d' \<and> rx_staged (s_rx d') \<and> (reboot \<longrightarrow> s_reboot d')"
  proof (cases "rx_staged (s_rx d)")
    case False
    obtain d1 ok where w: "wbuf_flush True d = (d1, ok)" by (cases "wbuf_flush True d")
    have a: "rx_active (s_rx d)" "rx_erased (s_rx d)" "rx_got (s_rx d) = rx_total (s_rx d)" and ok: "ok" "hdr_good (s_rx d1)"
      using assms(2) False w unfolding commit_now_eq by (cases ok; auto split: if_splits)+
    obtain fa where fa: "ultrawidelock_flash_write (s_staging d1) DFU_HDR_OFFSET (take DFU_HDR_LEN (rx_head (s_rx d1))) = (fa, True)"
      and d': "d' = armed reboot (d1\<lparr>s_staging := fa, s_rx := (s_rx d1)\<lparr>rx_active := False, rx_staged := True\<rparr>\<rparr>)"
      using assms(2) False w a ok unfolding commit_now_eq by (auto split: if_splits prod.splits bool.splits)
    have t: "transfer_ok B d" using assms(1) a(1) by (simp add: rx_ok_def)
    have "rx_owner (s_rx d1) \<noteq> OWNER_NONE"
      using t moved_fields(4) [OF wbuf_flush_moved [OF w]] by (simp add: transfer_ok_def Let_def)
    then show ?thesis
      using flushed_for_commit [OF t a(2,3)] w ok fa unfolding d' rx_ok_def by simp
  qed (use assms in \<open>auto simp: commit_now_eq rx_ok_def transfer_ok_def\<close>)
  then show "rx_ok B d'" and "rx_staged (s_rx d')" and "reboot \<Longrightarrow> s_reboot d'" by auto
qed

section \<open>Every event\<close>

lemma rx_ok_reset [simp]: "rx_ok B (rx_reset_all_locked d)" "rx_owner (s_rx (rx_reset_all_locked d)) = OWNER_NONE"
  by (simp_all add: rx_ok_def rx_reset_all_locked_def rx_state_reset_locked_def smp_cursor_reset_locked_def rx_zero_def)

lemma rx_ok_cong: "s_rx d' = s_rx d \<Longrightarrow> fl_size (s_staging d') = fl_size (s_staging d) \<Longrightarrow> fl_at (s_staging d') = fl_at (s_staging d) \<Longrightarrow> rx_ok B d' = rx_ok B d"
  by (simp add: rx_ok_def transfer_ok_def complete_def holds_def span_def blank_def)

lemma rx_ok_notify: "rx_ok B (window_notify b d) = rx_ok B d"
  by (rule rx_ok_cong) (simp_all add: window_notify_def)

lemma rx_ok_idle: "\<not> rx_active (s_rx d) \<Longrightarrow> \<not> rx_staged (s_rx d) \<Longrightarrow> rx_ok B d"
  by (simp add: rx_ok_def)

lemma rx_ok_no_owner: "rx_ok B d \<Longrightarrow> rx_owner (s_rx d) = OWNER_NONE \<Longrightarrow> \<not> rx_active (s_rx d) \<and> \<not> rx_staged (s_rx d)"
  by (auto simp: rx_ok_def transfer_ok_def Let_def)

lemma staging_open_fields:
  "staging_open E d = (d', ok) \<Longrightarrow> s_rx d' = s_rx d \<and> s_staging d' = s_staging d \<and> s_open d' = s_open d \<and> s_cli_off d' = s_cli_off d \<and>
     s_skip d' = s_skip d \<and> s_inner d' = s_inner d \<and> s_reboot d' = s_reboot d \<and> s_commit_cb d' = s_commit_cb d"
  by (auto simp: staging_open_def split: if_splits)

lemma begin_at_ok:
  assumes "rx_ok B d" "begin_at E owner tid tot d = (d', e)"
  shows "rx_ok B d'" and "e \<noteq> ERR_OK \<Longrightarrow> s_rx d' = s_rx d" and "e = ERR_OK \<Longrightarrow> rx_owner (s_rx d') = owner"
    and "s_staging d' = s_staging d"
proof -
  obtain d1 ok where o: "staging_open E d = (d1, ok)" by (cases "staging_open E d")
  note f = staging_open_fields [OF o]
  have k: "rx_ok B d1" using assms(1) f rx_ok_cong [of d1 d B] by simp
  let ?r = "rx_zero\<lparr>rx_active := True, rx_owner := owner, rx_transfer_id := tid, rx_total := tot, rx_wpos := of_nat DFU_PATCH_OFFSET\<rparr>"
  have n: "rx_ok B (d1\<lparr>s_rx := ?r\<rparr>)" if "\<not> tot \<le> of_nat HEAD_LEN" "owner \<noteq> OWNER_NONE"
    using that by (simp add: rx_ok_def transfer_ok_def rx_zero_def Let_def word_le_nat_alt)
  show "rx_ok B d'" "e \<noteq> ERR_OK \<Longrightarrow> s_rx d' = s_rx d" "e = ERR_OK \<Longrightarrow> rx_owner (s_rx d') = owner" "s_staging d' = s_staging d"
    using assms f k n o unfolding begin_at_def Let_def by (auto split: if_splits bool.splits)
qed

lemma feed_bytes_idle: "\<not> rx_active (s_rx d) \<Longrightarrow> feed_bytes B E d p = (d, ERR_SEQUENCE)"
  by (simp add: feed_bytes_def)

lemma feed_bytes_rx_ok: "rx_ok B d \<Longrightarrow> feed_bytes B E d p = (d', ERR_OK) \<Longrightarrow> rx_ok B d'"
proof -
  assume o: "rx_ok B d" and f: "feed_bytes B E d p = (d', ERR_OK)"
  have a: "rx_active (s_rx d)" using f by (cases "rx_active (s_rx d)") (auto simp: feed_bytes_idle)
  then have "transfer_ok B d'" using feed_bytes_ok(1) [OF _ f] o by (simp add: rx_ok_def)
  then show "rx_ok B d'" by (auto simp: rx_ok_def transfer_ok_def Let_def)
qed

lemma upload_refused_ok:
  assumes "rx_owner (s_rx d) = OWNER_SMP \<or> rx_ok B d"
  shows "rx_ok B (fst (upload_refused d))"
proof (cases "rx_owner (s_rx d) = OWNER_SMP")
  case False
  then have "rx_ok B d" using assms by simp
  moreover have "rx_ok B (smp_cursor_reset_locked (d\<lparr>s_cli_off := 0\<rparr>)) = rx_ok B d"
    by (rule rx_ok_cong) (simp_all add: smp_cursor_reset_locked_def)
  ultimately show ?thesis using False by (simp add: upload_refused_def)
qed (simp add: upload_refused_def)

lemma upload_first_ok:
  assumes "rx_ok B d" "upload_first E tot data d = (d', ok)"
  shows "rx_ok B d'" and "ok \<Longrightarrow> rx_owner (s_rx d') = OWNER_SMP"
proof -
  have k: "rx_ok B (d\<lparr>s_skip := a, s_inner := b\<rparr>)" for a b using assms(1) rx_ok_cong [of "d\<lparr>s_skip := a, s_inner := b\<rparr>" d B] by simp
  have c: "rx_ok B (x\<lparr>s_cli_off := 0\<rparr>) = rx_ok B x" for x by (rule rx_ok_cong) simp_all
  have b: "rx_ok B d2 \<and> (e = ERR_OK \<longrightarrow> rx_owner (s_rx d2) = OWNER_SMP)"
    if "begin_at E OWNER_SMP 1 n (d\<lparr>s_skip := a, s_inner := b\<rparr>) = (d2, e)" for a b n d2 e
    using begin_at_ok(1,3) [OF k that] by auto
  have "rx_ok B d' \<and> (ok \<longrightarrow> rx_owner (s_rx d') = OWNER_SMP)"
    using assms(2) k b c unfolding upload_first_def Let_def
    by (auto split: if_splits prod.splits)
  then show "rx_ok B d'" and "ok \<Longrightarrow> rx_owner (s_rx d') = OWNER_SMP" by auto
qed

lemma feed_bytes_refused:
  assumes "rx_ok B d" "rx_owner (s_rx d) = OWNER_SMP \<or> rx_owner (s_rx d) = OWNER_NONE" "feed_bytes B E d p = (d', e)" "e \<noteq> ERR_OK"
  shows "rx_owner (s_rx d') = OWNER_SMP \<or> rx_ok B d'"
  using assms feed_bytes_claim [OF assms(3)] rx_ok_no_owner [OF assms(1)] feed_bytes_idle [of d B E p]
  by (auto simp: claim_def)

lemma upload_chunk_ok:
  assumes k: "rx_ok B d" and o: "rx_owner (s_rx d) = OWNER_SMP \<or> rx_owner (s_rx d) = OWNER_NONE"
  shows "rx_ok B (fst (upload_chunk B E data d))"
proof -
  have c: "rx_ok B (x\<lparr>s_cli_off := y\<rparr>) = rx_ok B x" for x y by (rule rx_ok_cong) simp_all
  have cm: "rx_ok B (fst (case commit_now False x of (d4, e4) \<Rightarrow> if e4 \<noteq> ERR_OK then upload_refused d4 else (d4, 0, Some (s_cli_off d4))))"
    if x: "rx_ok B x" "rx_active (s_rx x)" "rx_owner (s_rx x) = OWNER_SMP \<or> rx_owner (s_rx x) = OWNER_NONE" for x
  proof -
    obtain d4 e4 where e: "commit_now False x = (d4, e4)" by (cases "commit_now False x")
    have "rx_owner (s_rx x) = OWNER_SMP" using x rx_ok_no_owner [OF x(1)] by auto
    then have "rx_owner (s_rx d4) = OWNER_SMP" using commit_now_holder [OF e] by (simp add: holder_def)
    then show ?thesis using e commit_now_ok(1) [OF x(1)] upload_refused_ok [of d4 B] by auto
  qed
  have fin: "rx_ok B (fst (let d3 = d2\<lparr>s_cli_off := n\<rparr> in if rx_active (s_rx d3) \<and> rx_got (s_rx d3) = s_inner d3
      then (case commit_now False d3 of (d4, e4) \<Rightarrow> if e4 \<noteq> ERR_OK then upload_refused d4 else (d4, 0, Some (s_cli_off d4)))
      else (d3, 0, Some (s_cli_off d3))))"
    if "rx_ok B d2" "rx_owner (s_rx d2) = OWNER_SMP \<or> rx_owner (s_rx d2) = OWNER_NONE" for d2 n
    using that cm [of "d2\<lparr>s_cli_off := n\<rparr>"] c [of n d2] by (simp add: Let_def)
  have body: "rx_ok B (fst (case (if q then feed_bytes B E (d\<lparr>s_cli_off := y\<rparr>) p else (d\<lparr>s_cli_off := y\<rparr>, ERR_OK)) of
      (d2, e) \<Rightarrow> if e \<noteq> ERR_OK then upload_refused d2
        else let d3 = d2\<lparr>s_cli_off := s_cli_off d2 + z\<rparr> in if rx_active (s_rx d3) \<and> rx_got (s_rx d3) = s_inner d3
          then (case commit_now False d3 of (d4, e4) \<Rightarrow> if e4 \<noteq> ERR_OK then upload_refused d4 else (d4, 0, Some (s_cli_off d4)))
          else (d3, 0, Some (s_cli_off d3))))" for q y p z
  proof (cases q)
    case True
    obtain d2 e where f: "feed_bytes B E (d\<lparr>s_cli_off := y\<rparr>) p = (d2, e)" by (cases "feed_bytes B E (d\<lparr>s_cli_off := y\<rparr>) p")
    have k1: "rx_ok B (d\<lparr>s_cli_off := y\<rparr>)" using k c by simp
    have o2: "rx_owner (s_rx d2) = OWNER_SMP \<or> rx_owner (s_rx d2) = OWNER_NONE"
      using o feed_bytes_claim [OF f] by (simp add: claim_def)
    show ?thesis
      using True f fin [OF _ o2] feed_bytes_rx_ok [OF k1] upload_refused_ok [OF feed_bytes_refused [OF k1 _ f]] o by auto
  qed (use fin [of "d\<lparr>s_cli_off := y\<rparr>" "y + z"] k o c in simp)
  show ?thesis unfolding upload_chunk_def using body by (simp only: Let_def add.assoc)
qed

lemma rx_erase_ok:
  assumes "rx_ok B d" "case fl_io (s_staging d) of Some _ # _ \<Rightarrow> False | _ \<Rightarrow> True"
  shows "rx_ok B (fst (rx_erase_locked E owner d))"
proof -
  obtain d1 ok where o: "staging_open E d = (d1, ok)" by (cases "staging_open E d")
  note f = staging_open_fields [OF o]
  have k: "rx_ok B d1" using assms(1) f rx_ok_cong [of d1 d B] by simp
  have e: "fa = s_staging d1" if "ultrawidelock_flash_erase (s_staging d1) 0 n = (fa, False)" for fa n
    using that assms(2) f by (auto simp: ultrawidelock_flash_erase_def split: if_splits list.splits option.splits)
  show ?thesis using assms(1) k o by (auto simp: rx_erase_locked_def dest!: e split: bool.split prod.split)
qed

text \<open>The calls that erase on request, and a driver that does not fail under them.\<close>

fun erases :: "dfu_event \<Rightarrow> bool" where
  "erases (Dfu_Erase owner) = True"
| "erases (Dfu_Frame owner frame) = (frame \<noteq> [] \<and> frame ! 0 = OP_ABORT)"
| "erases _ = False"

definition calm :: "dfu_env \<times> dfu_event \<Rightarrow> bool" where
  "calm x \<longleftrightarrow> erases (snd x) \<longrightarrow> (case de_io (fst x) of Some _ # _ \<Rightarrow> False | _ \<Rightarrow> True)"

lemma do_data_ok: "rx_ok B d \<Longrightarrow> rx_ok B (fst (do_data B E owner frame d))"
  using feed_bytes_rx_ok [of B d E "drop 9 frame"] by (auto simp: do_data_def Let_def split: prod.split)

lemma do_commit_ok: "rx_ok B d \<Longrightarrow> rx_ok B (fst (do_commit owner frame d))"
  using commit_now_ok(1) [of B d True] by (auto simp: do_commit_def Let_def split: prod.split)

lemma do_begin_ok: "rx_ok B d \<Longrightarrow> rx_ok B (fst (do_begin E owner frame d))"
  using begin_at_ok(1) by (auto simp: do_begin_def Let_def split: prod.split)

lemma frame_ok:
  assumes "rx_ok B d" "frame \<noteq> [] \<and> frame ! 0 = OP_ABORT \<longrightarrow> (case fl_io (s_staging d) of Some _ # _ \<Rightarrow> False | _ \<Rightarrow> True)"
  shows "rx_ok B (fst (ultrawidelock_dfu_rx_frame B E owner frame d))"
proof -
  have "rx_ok B (fst (do_abort E owner frame d))" if "frame \<noteq> []" "frame ! 0 = OP_ABORT"
    using assms that rx_erase_ok [of B d E owner] by (auto simp: do_abort_def Let_def split: prod.split)
  then show ?thesis
    using assms do_data_ok [OF assms(1)] do_commit_ok [OF assms(1)] do_begin_ok [OF assms(1)]
    by (auto simp: ultrawidelock_dfu_rx_frame_def)
qed

lemma upload_ok: "rx_ok B d \<Longrightarrow> rx_ok B (fst (ultrawidelock_dfu_rx_upload B E off tot data d))"
proof -
  assume k: "rx_ok B d"
  obtain d1 ok where f: "upload_first E tot data d = (d1, ok)" by (cases "upload_first E tot data d")
  have 1: "rx_ok B (fst (upload_refused d1))" "ok \<Longrightarrow> rx_ok B (fst (upload_chunk B E data d1))"
    using upload_first_ok [OF k f] upload_refused_ok [of d1 B] upload_chunk_ok [of B d1 E data] by auto
  show ?thesis
    using k 1 upload_chunk_ok [OF k, of E data] f
    by (cases ok) (auto simp: ultrawidelock_dfu_rx_upload_def rx_upload_locked_def)
qed

lemma staged_query_ok: "rx_ok B d \<Longrightarrow> rx_ok B (fst (ultrawidelock_dfu_rx_staged E d))"
proof -
  assume k: "rx_ok B d"
  obtain d1 ok where o: "staging_open E d = (d1, ok)" by (cases "staging_open E d")
  obtain fa p where r: "ultrawidelock_flash_read (s_staging d1) DFU_HDR_OFFSET DFU_HDR_LEN = (fa, p)"
    by (cases "ultrawidelock_flash_read (s_staging d1) DFU_HDR_OFFSET DFU_HDR_LEN")
  have "fl_size fa = fl_size (s_staging d1)" "fl_at fa = fl_at (s_staging d1)"
    using r by (auto simp: ultrawidelock_flash_read_def split: if_splits list.splits option.splits)
  then have "rx_ok B (d1\<lparr>s_staging := fa\<rparr>)" "rx_ok B d1"
    using k staging_open_fields [OF o] rx_ok_cong [of "d1\<lparr>s_staging := fa\<rparr>" d B] rx_ok_cong [of d1 d B] by simp_all
  then show ?thesis using o r by (auto simp: ultrawidelock_dfu_rx_staged_def split: bool.split option.split)
qed

lemma window_ok:
  "rx_ok B d \<Longrightarrow> rx_ok B (window_expire E d)" "rx_ok B (ultrawidelock_dfu_window_close d)"
  "rx_ok B d \<Longrightarrow> rx_ok B (ultrawidelock_dfu_window_open E ms d)"
proof -
  show "rx_ok B (ultrawidelock_dfu_window_close d)" by (simp add: ultrawidelock_dfu_window_close_def rx_ok_notify)
  show "rx_ok B d \<Longrightarrow> rx_ok B (window_expire E d)"
    using rx_ok_cong [of "d\<lparr>s_window_timer := Some (min (s_window_deadline_ms d - de_now E) INT32_MAX)\<rparr>" d B]
    by (simp add: window_expire_def Let_def rx_ok_notify)
  show "rx_ok B d \<Longrightarrow> rx_ok B (ultrawidelock_dfu_window_open E ms d)"
    unfolding ultrawidelock_dfu_window_open_def rx_ok_notify by (subst rx_ok_cong [of _ d]) simp_all
qed

lemma step_rx_ok:
  assumes "rx_ok B d" "calm x"
  shows "rx_ok B (fst (dfu_step B d x))"
proof -
  let ?d = "d\<lparr>s_staging := (s_staging d)\<lparr>fl_io := de_io (fst x)\<rparr>\<rparr>"
  have k: "rx_ok B ?d" using assms(1) rx_ok_cong [of ?d d B] by simp
  have c: "case fl_io (s_staging ?d) of Some _ # _ \<Rightarrow> False | _ \<Rightarrow> True" if "erases (snd x)"
    using assms(2) that by (simp add: calm_def)
  show ?thesis
  proof (cases "snd x")
    case (Dfu_Frame owner frame)
    then show ?thesis using frame_ok [OF k, of frame "fst x" owner] c by (auto simp: dfu_step_def split: prod.split)
  next
    case (Dfu_Upload off tot data)
    then show ?thesis using upload_ok [OF k, of "fst x" off tot data] by (auto simp: dfu_step_def split: prod.split)
  next
    case (Dfu_Erase owner)
    then show ?thesis using rx_erase_ok [OF k, of "fst x" owner] c by (auto simp: dfu_step_def ultrawidelock_dfu_rx_erase_def split: prod.split)
  next
    case Dfu_Ask_Staged
    then show ?thesis using staged_query_ok [OF k, of "fst x"] by (auto simp: dfu_step_def split: prod.split)
  next
    case (Dfu_Window_Cb cb)
    then show ?thesis using k rx_ok_cong [of "?d\<lparr>s_window_cb := cb\<rparr>" ?d B] by (simp add: dfu_step_def ultrawidelock_dfu_set_window_cb_def)
  next
    case (Dfu_Commit_Cb cb)
    then show ?thesis using k rx_ok_cong [of "?d\<lparr>s_commit_cb := cb\<rparr>" ?d B] by (simp add: dfu_step_def ultrawidelock_dfu_set_commit_cb_def)
  qed (use k window_ok [of B ?d] in \<open>auto simp: dfu_step_def ultrawidelock_dfu_rx_reset_def ultrawidelock_dfu_rx_reset_all_def\<close>)
qed

lemma run_rx_ok: "rx_ok B d \<Longrightarrow> list_all calm xs \<Longrightarrow> rx_ok B (fst (run_steps (dfu_step B) d xs))"
  by (induction xs arbitrary: d) (auto simp: fst_run_steps_Cons step_rx_ok simp del: run_steps.simps(2))

end
