(* ===== verification/Dfu_Magic.thy ===== *)
theory Dfu_Magic
  imports Dfu_Inv
begin

text \<open>
  The magic word is the commit mark of the staging partition: once a partition in which the word marks
  only complete, signed updates is handed to the receiver, it stays one, whatever is received and
  wherever it is cut off, as long as no torn flash operation leaves the word behind by itself.
\<close>

section \<open>The commit mark\<close>

definition marked :: "flash \<Rightarrow> bool" where
  "marked fa \<longleftrightarrow> 4 \<le> unat (fl_size fa) \<and> sys_get_le32 (span fa DFU_HDR_OFFSET 4) = DFU_MAGIC"

definition mark_ok :: "dfu_build \<Rightarrow> flash \<Rightarrow> bool" where
  "mark_ok B fa \<longleftrightarrow> (marked fa \<longrightarrow> (\<exists>h sg. complete B fa h sg))"

definition tame :: "(nat \<Rightarrow> u8) option list \<Rightarrow> bool" where
  "tame io \<longleftrightarrow> (\<forall>f. Some f \<in> set io \<longrightarrow> sys_get_le32 (map f [0..<4]) \<noteq> DFU_MAGIC)"

lemma upt4: "map f [0..<4] = [f 0, f 1, f 2, f (3::nat)]"
  by (simp add: upt_rec flip: numeral_2_eq_2 numeral_3_eq_3)

lemma marked_iff: "marked fa \<longleftrightarrow> 4 \<le> unat (fl_size fa) \<and> sys_get_le32 [fl_at fa 0, fl_at fa 1, fl_at fa 2, fl_at fa 3] = DFU_MAGIC"
  using upt4 [of "fl_at fa"] by (simp add: marked_def span_def)

lemma blank_unmarked:
  assumes "blank fa 0 (min DFU_PATCH_OFFSET (unat (fl_size fa)))"
  shows "\<not> marked fa"
proof
  assume m: "marked fa"
  then have "fl_at fa i = 0xff" if "i < 4" for i using assms that by (auto simp: blank_def marked_iff)
  then have "sys_get_le32 [0xff, 0xff, 0xff, 0xff] = DFU_MAGIC" using m by (simp add: marked_iff)
  then show False by code_simp
qed

lemma marked_cong: "fl_size fa' = fl_size fa \<Longrightarrow> (\<And>i. i < DFU_PATCH_OFFSET \<Longrightarrow> fl_at fa' i = fl_at fa i) \<Longrightarrow> marked fa' = marked fa"
  using span_cong [of 0 4 fa' fa] by (simp add: marked_def)

lemma mark_ok_cong: "fl_size fa' = fl_size fa \<Longrightarrow> fl_at fa' = fl_at fa \<Longrightarrow> mark_ok B fa' = mark_ok B fa"
  by (simp add: mark_ok_def marked_def complete_def span_def blank_def)

lemma flash_io_set:
  "ultrawidelock_flash_write fa off src = (fa', ok) \<Longrightarrow> set (fl_io fa') \<subseteq> set (fl_io fa)"
  "ultrawidelock_flash_erase fa off len = (fa', ok) \<Longrightarrow> set (fl_io fa') \<subseteq> set (fl_io fa)"
  by (auto simp: ultrawidelock_flash_write_def ultrawidelock_flash_erase_def set_range_def
      split: if_splits list.splits option.splits)

lemma erase_mark:
  assumes e: "ultrawidelock_flash_erase fa 0 (unat (fl_size fa)) = (fa', ok)" and m: "mark_ok B fa" and t: "tame (fl_io fa)"
  shows "mark_ok B fa'" and "ok \<Longrightarrow> \<not> marked fa'"
proof -
  show n: "\<not> marked fa'" if ok
    using flash_erase_frame(1,3) [OF e] that by (intro blank_unmarked) (auto simp: blank_def)
  have "ok \<or> fa' = fa \<or> (\<exists>f. Some f \<in> set (fl_io fa) \<and> fl_size fa' = fl_size fa \<and> (\<forall>i<unat (fl_size fa). fl_at fa' i = f i))"
    using e by (auto simp: ultrawidelock_flash_erase_def set_range_def split: if_splits list.splits option.splits)
  then show "mark_ok B fa'"
    using m n t unfolding mark_ok_def tame_def upt4 marked_iff by (elim disjE) auto
qed

lemma header_write_mark:
  assumes w: "ultrawidelock_flash_write fa 0 h = (fa', False)" and u: "\<not> marked fa" and t: "tame (fl_io fa)" and l: "4 \<le> length h"
  shows "\<not> marked fa'"
proof -
  have "fa' = fa \<or> (\<exists>f. Some f \<in> set (fl_io fa) \<and> (\<forall>i<length h. fl_at fa' i = f i))"
    using w by (auto simp: ultrawidelock_flash_write_def set_range_def split: if_splits list.splits option.splits)
  then show ?thesis
  proof (elim disjE exE conjE)
    fix f
    assume f: "Some f \<in> set (fl_io fa)" "\<forall>i<length h. fl_at fa' i = f i"
    have "fl_at fa' i = f i" if "i < 4" for i using f(2) l that by simp
    then show ?thesis using t f(1) unfolding tame_def upt4 marked_iff by auto
  qed (use u in simp)
qed

section \<open>Patch writes leave the header page alone\<close>

definition low_kept :: "dfu \<Rightarrow> dfu \<Rightarrow> bool" where
  "low_kept d d' \<longleftrightarrow>
     (\<forall>i<DFU_PATCH_OFFSET. fl_at (s_staging d') i = fl_at (s_staging d) i) \<and> set (fl_io (s_staging d')) \<subseteq> set (fl_io (s_staging d)) \<and>
     fl_size (s_staging d') = fl_size (s_staging d) \<and>
     (DFU_PATCH_OFFSET \<le> unat (rx_wpos (s_rx d)) \<longrightarrow> DFU_PATCH_OFFSET \<le> unat (rx_wpos (s_rx d')))"

lemma low_kept_refl: "low_kept d d"
  by (simp add: low_kept_def)

lemma low_kept_trans: "low_kept a b \<Longrightarrow> low_kept b c \<Longrightarrow> low_kept a c"
  by (auto simp: low_kept_def)

lemma flush_low:
  assumes w: "DFU_PATCH_OFFSET \<le> unat (rx_wpos (s_rx d))" and f: "wbuf_flush final d = (d', ok)"
  shows "low_kept d d'"
proof -
  let ?b = "if final then pad4 (rx_wbuf (s_rx d)) else rx_wbuf (s_rx d)"
  let ?n = "if final then length ?b else length ?b div 4 * 4"
  show ?thesis
  proof (cases "?n = 0")
    case False
    obtain fa ok' where fa: "ultrawidelock_flash_write (s_staging d) (unat (rx_wpos (s_rx d))) (take ?n ?b) = (fa, ok')"
      by (cases "ultrawidelock_flash_write (s_staging d) (unat (rx_wpos (s_rx d))) (take ?n ?b)")
    have n: "length (take ?n ?b) = ?n" by auto
    have up: "unat (rx_wpos (s_rx d) + of_nat ?n) = unat (rx_wpos (s_rx d)) + ?n" if ok'
    proof -
      have "unat (rx_wpos (s_rx d)) + ?n \<le> unat (fl_size (s_staging d))"
        using fa that n by (auto simp: ultrawidelock_flash_write_def in_bounds_def split: if_splits)
      then show ?thesis by (rule unat_sum)
    qed
    have "d' = (if ok' then d\<lparr>s_staging := fa, s_rx := (s_rx d)\<lparr>rx_wpos := rx_wpos (s_rx d) + of_nat ?n, rx_wbuf := drop ?n ?b\<rparr>\<rparr>
               else d\<lparr>s_staging := fa, s_rx := (s_rx d)\<lparr>rx_wbuf := ?b\<rparr>\<rparr>)"
      using f False unfolding wbuf_flush_def Let_def fa by (auto split: bool.splits)
    then show ?thesis using flash_write_frame [OF fa] flash_io_set(1) [OF fa] w up by (simp add: low_kept_def)
  qed (use f in \<open>auto simp: wbuf_flush_def Let_def low_kept_def split: if_splits\<close>)
qed

lemma patch_loop_low:
  "DFU_PATCH_OFFSET \<le> unat (rx_wpos (s_rx d)) \<Longrightarrow> patch_loop d p = (d', ok) \<Longrightarrow> low_kept d d'"
proof (induction p arbitrary: d rule: length_induct)
  case (1 p)
  show ?case
  proof (cases "p = [] \<or> length (rx_wbuf (s_rx d)) \<ge> RX_WBUF_SZ")
    case True
    then show ?thesis using 1(3) patch_loop_full [of p d] by (cases "p = []") (auto simp: low_kept_refl)
  next
    case False
    let ?k = "RX_WBUF_SZ - length (rx_wbuf (s_rx d))"
    have l: "length (drop ?k p) < length p" using False by (intro drop_less) auto
    have k: "low_kept d (filled d p)" "DFU_PATCH_OFFSET \<le> unat (rx_wpos (s_rx (filled d p)))" using 1(2) by (simp_all add: low_kept_def)
    obtain d2 ok2 where f: "wbuf_flush False (filled d p) = (d2, ok2)" by (cases "wbuf_flush False (filled d p)")
    note fl = flush_low [OF k(2) f]
    then have "DFU_PATCH_OFFSET \<le> unat (rx_wpos (s_rx d2))" using k by (simp add: low_kept_def)
    note ih = 1(1) [rule_format, OF l this]
    have "d' = d2 \<or> patch_loop d2 (drop ?k p) = (d', ok) \<or> d' = filled d p"
      using 1(3) patch_loop_turn [of p d] False f by (cases ok2) (auto split: if_splits)
    then show ?thesis using k(1) fl ih low_kept_trans by blast
  qed
qed

section \<open>The mark through every event\<close>

lemma transfer_unmarked: "transfer_ok B d \<Longrightarrow> rx_erased (s_rx d) \<Longrightarrow> \<not> marked (s_staging d)"
  by (rule blank_unmarked) (auto simp: transfer_ok_def Let_def holds_def split: if_splits)

lemma transfer_wpos: "transfer_ok B d \<Longrightarrow> DFU_PATCH_OFFSET \<le> unat (rx_wpos (s_rx d))"
  by (auto simp: transfer_ok_def Let_def holds_def split: if_splits)

lemma tame_mono: "tame io \<Longrightarrow> set io' \<subseteq> set io \<Longrightarrow> tame io'"
  by (auto simp: tame_def)

lemma feed_patch_mark:
  assumes t: "transfer_ok B d" "rx_erased (s_rx d)" and f: "feed_patch d p = (d', e)"
  shows "\<not> marked (s_staging d')"
proof -
  let ?d0 = "d\<lparr>s_rx := (s_rx d)\<lparr>rx_patch_crc := ultrawidelock_crc32_update (rx_patch_crc (s_rx d)) p\<rparr>\<rparr>"
  obtain d1 ok where l: "patch_loop ?d0 p = (d1, ok)" by (cases "patch_loop ?d0 p")
  have "low_kept ?d0 d1" using transfer_wpos [OF t(1)] by (intro patch_loop_low [OF _ l]) simp
  then have "marked (s_staging d1) = marked (s_staging d)" by (intro marked_cong) (simp_all add: low_kept_def)
  moreover have "s_staging d' = s_staging d1 \<or> d' = d"
    using f l by (cases ok) (auto simp: feed_patch_def patch_write_def split: if_splits)
  ultimately show ?thesis using transfer_unmarked [OF t] by auto
qed

lemma feed_bytes_io:
  assumes "feed_bytes B E d p = (d', e)"
  shows "set (fl_io (s_staging d')) \<subseteq> set (fl_io (s_staging d))"
proof -
  have fl: "set (fl_io (s_staging d2)) \<subseteq> set (fl_io (s_staging d1))" if "wbuf_flush b d1 = (d2, ok)" for b d1 d2 ok
    using that by (auto simp: wbuf_flush_def Let_def dest!: flash_io_set(1) split: if_splits prod.splits bool.splits)
  have lp: "set (fl_io (s_staging d2)) \<subseteq> set (fl_io (s_staging d1))" if "patch_loop d1 q = (d2, ok)" for d1 q d2 ok
    using that
  proof (induction q arbitrary: d1 rule: length_induct)
    case (1 q)
    show ?case
    proof (cases "q = [] \<or> length (rx_wbuf (s_rx d1)) \<ge> RX_WBUF_SZ")
      case True
      then show ?thesis using 1(2) patch_loop_full [of q d1] by (cases "q = []") auto
    next
      case False
      let ?k = "RX_WBUF_SZ - length (rx_wbuf (s_rx d1))"
      have l: "length (drop ?k q) < length q" using False by (intro drop_less) auto
      obtain d3 ok3 where f: "wbuf_flush False (filled d1 q) = (d3, ok3)" by (cases "wbuf_flush False (filled d1 q)")
      have "d2 = d3 \<or> patch_loop d3 (drop ?k q) = (d2, ok) \<or> d2 = filled d1 q"
        using 1(2) patch_loop_turn [of q d1] False f by (cases ok3) (auto split: if_splits)
      then show ?thesis using fl [OF f] 1(1) [rule_format, OF l, of d3] by auto
    qed
  qed
  have fp: "set (fl_io (s_staging d2)) \<subseteq> set (fl_io (s_staging d1))" if "feed_patch d1 q = (d2, e2)" for d1 q d2 e2
    using that lp [of "d1\<lparr>s_rx := (s_rx d1)\<lparr>rx_patch_crc := ultrawidelock_crc32_update (rx_patch_crc (s_rx d1)) q\<rparr>\<rparr>" q]
    by (auto simp: feed_patch_def patch_write_def split: if_splits prod.splits bool.splits)
  have fh: "set (fl_io (s_staging d2)) \<subseteq> set (fl_io (s_staging d1))" if "feed_head B E d1 q = (d2, e2)" for d1 q d2 e2
    using that by (auto simp: feed_head_def Let_def dest!: flash_io_set(2) split: if_splits prod.splits bool.splits)
  show ?thesis
    using assms fh [of d p]
    by (auto simp: feed_bytes_def Let_def dest!: fp split: if_splits prod.splits ultrawidelock_dfu_err.splits)
qed

lemma feed_bytes_mark:
  assumes k: "rx_ok B d" and m: "mark_ok B (s_staging d)" "tame (fl_io (s_staging d))" and f: "feed_bytes B E d p = (d', e)"
  shows "mark_ok B (s_staging d')"
proof -
  let ?g = "unat (rx_got (s_rx d))"
  consider "d' = d" | "rx_active (s_rx d)" "?g + length p \<le> unat (rx_total (s_rx d))"
    using f by (auto simp: feed_bytes_def Let_def split: if_splits)
  then show ?thesis
  proof cases
    case 2
    then have t: "transfer_ok B d" using k by (simp add: rx_ok_def)
    show ?thesis
    proof (cases "?g < HEAD_LEN")
      case True
      obtain d1 e1 where h: "feed_head B E d p = (d1, e1)" by (cases "feed_head B E d p")
      have "s_staging d1 = s_staging d \<or>
        (\<exists>ok. ultrawidelock_flash_erase (s_staging d) 0 (unat (fl_size (s_staging d))) = (s_staging d1, ok))"
        using h by (auto simp: feed_head_def Let_def split: if_splits prod.splits bool.splits)
      then have m1: "mark_ok B (s_staging d1)" using erase_mark(1) m by auto
      show ?thesis
      proof (cases "e1 = ERR_OK \<and> HEAD_LEN \<le> ?g + length p")
        case c: True
        then have "feed_patch d1 (drop (HEAD_LEN - ?g) p) = (d', e)"
          using f h True 2 by (auto simp: feed_bytes_def Let_def)
        moreover have "transfer_ok B d1" using feed_head_ok [OF t True 2(2)] h c by simp
        moreover have "rx_erased (s_rx d1)"
          using \<open>transfer_ok B d1\<close> feed_head_got [OF True 2(2) h] c by (auto simp: transfer_ok_def Let_def)
        ultimately show ?thesis using feed_patch_mark by (auto simp: mark_ok_def)
      next
        case c: False
        have "d' = d1"
          using f h True 2 c by (auto simp: feed_bytes_def Let_def feed_patch_def split: if_splits ultrawidelock_dfu_err.splits)
        then show ?thesis using m1 by simp
      qed
    next
      case False
      then have "feed_patch d p = (d', e)" using f 2 by (auto simp: feed_bytes_def Let_def)
      moreover have "rx_erased (s_rx d)" using t False by (auto simp: transfer_ok_def Let_def)
      ultimately show ?thesis using feed_patch_mark [OF t] by (auto simp: mark_ok_def)
    qed
  qed (use m in simp)
qed

lemma commit_now_mark:
  assumes k: "rx_ok B d" and m: "mark_ok B (s_staging d)" "tame (fl_io (s_staging d))" and f: "commit_now reboot d = (d', e)"
  shows "mark_ok B (s_staging d')"
proof (cases "rx_staged (s_rx d) \<or> \<not> rx_active (s_rx d) \<or> \<not> rx_erased (s_rx d) \<or> rx_got (s_rx d) \<noteq> rx_total (s_rx d)")
  case True
  then have "s_staging d' = s_staging d" using f unfolding commit_now_eq by (auto split: if_splits)
  then show ?thesis using m by simp
next
  case False
  then have t: "transfer_ok B d" using k by (simp add: rx_ok_def)
  obtain d1 ok where w: "wbuf_flush True d = (d1, ok)" by (cases "wbuf_flush True d")
  note lk = flush_low [OF transfer_wpos [OF t] w]
  have "marked (s_staging d1) = marked (s_staging d)" using lk by (intro marked_cong) (simp_all add: low_kept_def)
  then have u: "\<not> marked (s_staging d1)" using transfer_unmarked [OF t] False by simp
  have tm: "tame (fl_io (s_staging d1))" using lk m(2) tame_mono by (auto simp: low_kept_def)
  let ?h = "take DFU_HDR_LEN (rx_head (s_rx d1))"
  have lh: "4 \<le> length ?h" using t moved_fields(9) [OF wbuf_flush_moved [OF w]] by (simp add: transfer_ok_def Let_def)
  show ?thesis
  proof (cases "ok \<and> hdr_good (s_rx d1)")
    case True
    obtain fa ok' where fa: "ultrawidelock_flash_write (s_staging d1) 0 ?h = (fa, ok')"
      by (cases "ultrawidelock_flash_write (s_staging d1) 0 ?h")
    have "s_staging d' = fa" using f False True w fa unfolding commit_now_eq by (cases ok') (auto split: if_splits)
    moreover have "complete B fa ?h (drop DFU_HDR_LEN (rx_head (s_rx d1)))" if ok'
      using flushed_for_commit [OF t _ _ _ _ ] False True w fa that by auto
    moreover have "\<not> marked fa" if "\<not> ok'" using header_write_mark [OF _ u tm lh] fa that by auto
    ultimately show ?thesis by (cases ok') (auto simp: mark_ok_def)
  next
    case c: False
    then have "s_staging d' = s_staging d1" using f False w unfolding commit_now_eq by (cases ok) (auto split: if_splits)
    then show ?thesis using u by (simp add: mark_ok_def)
  qed
qed

lemma begin_at_staging: "begin_at E owner tid tot d = (d', e) \<Longrightarrow> s_staging d' = s_staging d"
  using staging_open_fields [of E d] by (auto simp: begin_at_def Let_def split: if_splits prod.splits bool.splits)

lemma reset_staging [simp]: "s_staging (rx_reset_all_locked d) = s_staging d"
  by (simp add: rx_reset_all_locked_def rx_state_reset_locked_def smp_cursor_reset_locked_def)

lemma refused_staging [simp]: "s_staging (fst (upload_refused d)) = s_staging d"
  by (simp add: upload_refused_def smp_cursor_reset_locked_def Let_def)

lemma rx_erase_mark:
  assumes "mark_ok B (s_staging d)" "tame (fl_io (s_staging d))"
  shows "mark_ok B (s_staging (fst (rx_erase_locked E owner d)))"
proof -
  obtain d1 ok where o: "staging_open E d = (d1, ok)" by (cases "staging_open E d")
  then have "s_staging d1 = s_staging d" using staging_open_fields by blast
  then show ?thesis
    using assms o erase_mark(1) [OF _ assms] by (auto simp: rx_erase_locked_def split: bool.split prod.split)
qed

lemma upload_chunk_mark:
  assumes k: "rx_ok B d" and m: "mark_ok B (s_staging d)" "tame (fl_io (s_staging d))"
  shows "mark_ok B (s_staging (fst (upload_chunk B E data d)))"
proof -
  have c: "rx_ok B (x\<lparr>s_cli_off := y\<rparr>) = rx_ok B x" for x y by (rule rx_ok_cong) simp_all
  have fin: "mark_ok B (s_staging (fst (let d3 = d2\<lparr>s_cli_off := n\<rparr> in if rx_active (s_rx d3) \<and> rx_got (s_rx d3) = s_inner d3
      then (case commit_now False d3 of (d4, e4) \<Rightarrow> if e4 \<noteq> ERR_OK then upload_refused d4 else (d4, 0, Some (s_cli_off d4)))
      else (d3, 0, Some (s_cli_off d3)))))"
    if "rx_ok B d2" "mark_ok B (s_staging d2)" "tame (fl_io (s_staging d2))" for d2 n
    using that commit_now_mark [of B "d2\<lparr>s_cli_off := n\<rparr>" False] c [of n d2] by (auto simp: Let_def split: prod.split)
  have body: "mark_ok B (s_staging (fst (case (if q then feed_bytes B E (d\<lparr>s_cli_off := y\<rparr>) p else (d\<lparr>s_cli_off := y\<rparr>, ERR_OK)) of
      (d2, e) \<Rightarrow> if e \<noteq> ERR_OK then upload_refused d2
        else let d3 = d2\<lparr>s_cli_off := s_cli_off d2 + z\<rparr> in if rx_active (s_rx d3) \<and> rx_got (s_rx d3) = s_inner d3
          then (case commit_now False d3 of (d4, e4) \<Rightarrow> if e4 \<noteq> ERR_OK then upload_refused d4 else (d4, 0, Some (s_cli_off d4)))
          else (d3, 0, Some (s_cli_off d3)))))" for q y p z
  proof (cases q)
    case True
    obtain d2 e where f: "feed_bytes B E (d\<lparr>s_cli_off := y\<rparr>) p = (d2, e)" by (cases "feed_bytes B E (d\<lparr>s_cli_off := y\<rparr>) p")
    have k1: "rx_ok B (d\<lparr>s_cli_off := y\<rparr>)" using k c by simp
    have m2: "mark_ok B (s_staging d2)" using feed_bytes_mark [OF k1 _ _ f] m by simp
    have t2: "tame (fl_io (s_staging d2))" using feed_bytes_io [OF f] m(2) tame_mono by auto
    show ?thesis using True f fin [OF _ m2 t2] feed_bytes_rx_ok [OF k1] m2 by (cases "e = ERR_OK") (auto simp del: Let_def)
  qed (use fin [of "d\<lparr>s_cli_off := y\<rparr>" "y + z"] k m c in simp)
  show ?thesis unfolding upload_chunk_def using body by (simp only: Let_def add.assoc)
qed

lemma upload_first_staging: "upload_first E tot data d = (d', ok) \<Longrightarrow> s_staging d' = s_staging d"
  by (auto simp: upload_first_def Let_def dest!: begin_at_staging split: if_splits prod.splits)

lemma upload_mark:
  assumes k: "rx_ok B d" and m: "mark_ok B (s_staging d)" "tame (fl_io (s_staging d))"
  shows "mark_ok B (s_staging (fst (ultrawidelock_dfu_rx_upload B E off tot data d)))"
proof -
  obtain d1 ok where f: "upload_first E tot data d = (d1, ok)" by (cases "upload_first E tot data d")
  have "mark_ok B (s_staging (fst (upload_chunk B E data d1)))"
    using upload_chunk_mark [OF upload_first_ok(1) [OF k f]] upload_first_staging [OF f] m by simp
  then show ?thesis
    using f m upload_chunk_mark [OF k m, of E data] upload_first_staging [OF f]
    by (cases ok) (auto simp: ultrawidelock_dfu_rx_upload_def rx_upload_locked_def)
qed

lemma frame_mark:
  assumes k: "rx_ok B d" and m: "mark_ok B (s_staging d)" "tame (fl_io (s_staging d))"
  shows "mark_ok B (s_staging (fst (ultrawidelock_dfu_rx_frame B E owner frame d)))"
proof -
  have "mark_ok B (s_staging (fst (do_begin E owner frame d)))"
    using m begin_at_staging by (auto simp: do_begin_def Let_def split: prod.split)
  moreover have "mark_ok B (s_staging (fst (do_data B E owner frame d)))"
    using m feed_bytes_mark [OF k m] by (auto simp: do_data_def Let_def split: prod.split)
  moreover have "mark_ok B (s_staging (fst (do_commit owner frame d)))"
    using m commit_now_mark [OF k m] by (auto simp: do_commit_def Let_def split: prod.split)
  moreover have "mark_ok B (s_staging (fst (do_abort E owner frame d)))"
    using m rx_erase_mark [OF m, of E owner] by (auto simp: do_abort_def Let_def split: prod.split)
  ultimately show ?thesis using m by (simp add: ultrawidelock_dfu_rx_frame_def)
qed

lemma staged_query_mark: "mark_ok B (s_staging d) \<Longrightarrow> mark_ok B (s_staging (fst (ultrawidelock_dfu_rx_staged E d)))"
proof -
  assume m: "mark_ok B (s_staging d)"
  obtain d1 ok where o: "staging_open E d = (d1, ok)" by (cases "staging_open E d")
  then have s: "s_staging d1 = s_staging d" using staging_open_fields by blast
  obtain fa p where r: "ultrawidelock_flash_read (s_staging d1) DFU_HDR_OFFSET DFU_HDR_LEN = (fa, p)"
    by (cases "ultrawidelock_flash_read (s_staging d1) DFU_HDR_OFFSET DFU_HDR_LEN")
  have "mark_ok B fa"
    using r m s mark_ok_cong [of fa "s_staging d1" B]
    by (auto simp: ultrawidelock_flash_read_def split: if_splits list.splits option.splits)
  then show ?thesis using o r m s by (auto simp: ultrawidelock_dfu_rx_staged_def split: bool.split option.split)
qed

lemma step_mark_ok:
  assumes "rx_ok B d" "mark_ok B (s_staging d)" "tame (de_io (fst x))"
  shows "mark_ok B (s_staging (fst (dfu_step B d x)))"
proof -
  let ?d = "d\<lparr>s_staging := (s_staging d)\<lparr>fl_io := de_io (fst x)\<rparr>\<rparr>"
  have k: "rx_ok B ?d" using assms(1) rx_ok_cong [of ?d d B] by simp
  have m: "mark_ok B (s_staging ?d)" "tame (fl_io (s_staging ?d))"
    using assms(2,3) mark_ok_cong [of "s_staging ?d" "s_staging d" B] by simp_all
  show ?thesis
  proof (cases "snd x")
    case (Dfu_Frame owner frame)
    then show ?thesis using frame_mark [OF k m, of "fst x" owner frame] by (auto simp: dfu_step_def split: prod.split)
  next
    case (Dfu_Upload off tot data)
    then show ?thesis using upload_mark [OF k m, of "fst x" off tot data] by (auto simp: dfu_step_def split: prod.split)
  next
    case (Dfu_Erase owner)
    then show ?thesis using rx_erase_mark [OF m, of "fst x" owner] by (auto simp: dfu_step_def ultrawidelock_dfu_rx_erase_def split: prod.split)
  next
    case Dfu_Ask_Staged
    then show ?thesis using staged_query_mark [OF m(1), of "fst x"] by (auto simp: dfu_step_def split: prod.split)
  qed (use m(1) in \<open>auto simp: dfu_step_def ultrawidelock_dfu_rx_reset_def ultrawidelock_dfu_rx_reset_all_def
        ultrawidelock_dfu_set_window_cb_def ultrawidelock_dfu_set_commit_cb_def ultrawidelock_dfu_window_open_def
        ultrawidelock_dfu_window_close_def window_expire_def window_notify_def Let_def\<close>)
qed

lemma run_mark_ok:
  "rx_ok B d \<Longrightarrow> mark_ok B (s_staging d) \<Longrightarrow> list_all calm xs \<Longrightarrow> list_all (\<lambda>x. tame (de_io (fst x))) xs \<Longrightarrow>
   mark_ok B (s_staging (fst (run_steps (dfu_step B) d xs)))"
proof (induction xs arbitrary: d)
  case (Cons x xs)
  then show ?case using step_rx_ok [of B d x] step_mark_ok [of B d x] by (simp add: fst_run_steps_Cons del: run_steps.simps(2))
qed simp

end
