(* ===== verification/Dfu_Upload.thy ===== *)
theory Dfu_Upload
  imports Dfu_Magic
begin

text \<open>
  An honest upload. With the window open, a willing flash and a signature that verifies, the frames of
  any chunking of a signed update are all acknowledged, each with the offset reached, and the commit
  stages exactly that update and arms the reboot.
\<close>

section \<open>Feeding with a willing flash\<close>

definition willing :: "dfu_env \<Rightarrow> bool" where
  "willing E \<longleftrightarrow> de_prim_init E \<and> de_flash_open E \<and> de_io E = []"

text \<open>\<open>n\<close> bytes of the stream \<open>S\<close> are in.\<close>

definition uploading :: "dfu_build \<Rightarrow> bytes \<Rightarrow> nat \<Rightarrow> dfu \<Rightarrow> bool" where
  "uploading B S n d \<longleftrightarrow>
     rx_active (s_rx d) \<and> transfer_ok B d \<and> unat (rx_got (s_rx d)) = n \<and> unat (rx_total (s_rx d)) = length S \<and> n \<le> length S \<and>
     take (min n HEAD_LEN) (rx_head (s_rx d)) = take (min n HEAD_LEN) S \<and>
     (HEAD_LEN \<le> n \<longrightarrow> holds (s_staging d) (s_rx d) (take (n - HEAD_LEN) (drop HEAD_LEN S))) \<and>
     fl_io (s_staging d) = [] \<and> unat (fl_size (s_staging d)) mod 4096 = 0 \<and> DFU_PATCH_OFFSET \<le> unat (fl_size (s_staging d)) \<and>
     length S - HEAD_LEN \<le> unat (fl_size (s_staging d)) - DFU_PATCH_OFFSET"

lemma drop_room:
  assumes "drop n S = p @ rest" "n \<le> length S"
  shows "n + length p \<le> length S"
proof -
  have "length S - n = length p + length rest" using arg_cong [OF assms(1), of length] by simp
  then show ?thesis using assms(2) by linarith
qed

lemma word_of_unat: "unat w = n \<Longrightarrow> w = (of_nat n :: u32)"
  by auto

lemma feed_patch_done:
  assumes u: "uploading B S n d" and n: "HEAD_LEN \<le> n" and p: "drop n S = p @ rest"
  shows "\<exists>d'. feed_patch d p = (d', ERR_OK) \<and> uploading B S (n + length p) d'"
proof (cases "p = []")
  case False
  let ?d0 = "d\<lparr>s_rx := (s_rx d)\<lparr>rx_patch_crc := ultrawidelock_crc32_update (rx_patch_crc (s_rx d)) p\<rparr>\<rparr>"
  let ?data = "take (n - HEAD_LEN) (drop HEAD_LEN S)"
  have pl: "n + length p \<le> length S" using u by (intro drop_room [OF p]) (simp add: uploading_def)
  have ld: "length ?data = n - HEAD_LEN" using u by (auto simp: uploading_def min_def)
  have t: "transfer_ok B d" and g: "unat (rx_got (s_rx d)) = n" "unat (rx_total (s_rx d)) = length S"
    using u by (simp_all add: uploading_def)
  have "holds (s_staging d) (s_rx d) ?data" using u n by (simp add: uploading_def)
  then have h: "holds (s_staging ?d0) (s_rx ?d0) ?data" by (simp add: holds_def)
  have w: "length (rx_wbuf (s_rx ?d0)) < RX_WBUF_SZ" using t g n by (simp add: transfer_ok_def Let_def)
  have dl: "length (?data @ p) \<le> unat (fl_size (s_staging ?d0)) - DFU_PATCH_OFFSET"
    using u n pl by (simp only: length_append ld) (auto simp: uploading_def)
  obtain d1 where l: "patch_loop ?d0 p = (d1, True)" "fl_io (s_staging d1) = []"
    using patch_loop_done [OF h _ w dl] u by (auto simp: uploading_def)
  let ?d' = "d1\<lparr>s_rx := (s_rx d1)\<lparr>rx_got := rx_got (s_rx d1) + of_nat (length p)\<rparr>\<rparr>"
  have f: "feed_patch d p = (?d', ERR_OK)" using False l by (simp add: feed_patch_def patch_write_def)
  have le: "unat (rx_got (s_rx d)) + length p \<le> unat (rx_total (s_rx d))" using g pl by simp
  have t': "transfer_ok B ?d'" using feed_patch_ok [OF t _ le f] g n by simp
  have g': "unat (rx_got (s_rx ?d')) = n + length p" using feed_patch_got [OF le f] g by simp
  have "?data @ p = take (n + length p - HEAD_LEN) (drop HEAD_LEN S)"
    using p n take_add [of "n - HEAD_LEN" "length p" "drop HEAD_LEN S"] by simp
  then have h': "holds (s_staging ?d') (s_rx ?d') (take (n + length p - HEAD_LEN) (drop HEAD_LEN S))"
    using patch_loop_holds [OF l(1) h w] by (simp add: holds_def)
  note m = moved_fields [OF patch_loop_moved [OF l(1)]]
  have "uploading B S (n + length p) ?d'"
  proof -
    have "min n HEAD_LEN = HEAD_LEN" using n by simp
    then have hd: "take HEAD_LEN (rx_head (s_rx d)) = take HEAD_LEN S" using u by (simp add: uploading_def)
    have mn: "min (n + length p) HEAD_LEN = HEAD_LEN" using n by simp
    have "rx_active (s_rx d)" "unat (fl_size (s_staging d)) mod 4096 = 0" "DFU_PATCH_OFFSET \<le> unat (fl_size (s_staging d))"
      "length S - HEAD_LEN \<le> unat (fl_size (s_staging d)) - DFU_PATCH_OFFSET"
      using u by (simp_all add: uploading_def)
    then show ?thesis unfolding uploading_def mn using t' g' h' l(2) m pl g(2) hd by simp
  qed
  then show ?thesis using f by blast
qed (use u in \<open>simp add: feed_patch_def\<close>)

lemma feed_head_done:
  assumes u: "uploading B S n d" and n: "n < HEAD_LEN" and p: "drop n S = p @ rest"
    and E: "willing E" and v: "db_verify B (db_pubkey B) (take DFU_HDR_LEN S) (take DFU_SIG_LEN (drop DFU_HDR_LEN S))"
  shows "\<exists>d'. feed_head B E d p = (d', ERR_OK) \<and> uploading B S (min HEAD_LEN (n + length p)) d'"
proof -
  let ?r = "s_rx d" and ?m = "min (length p) (HEAD_LEN - n)"
  have pl: "n + length p \<le> length S" using u by (intro drop_room [OF p]) (simp add: uploading_def)
  let ?h = "overwrite (rx_head ?r) n (take ?m p)"
  have t: "transfer_ok B d" and g: "unat (rx_got ?r) = n" "unat (rx_total ?r) = length S" using u by (simp_all add: uploading_def)
  have lS: "HEAD_LEN < length S" and lh: "length (rx_head ?r) = HEAD_LEN" using t g by (simp_all add: transfer_ok_def Let_def)
  have le: "unat (rx_got ?r) + length p \<le> unat (rx_total ?r)" and gl: "unat (rx_got ?r) < HEAD_LEN" using g pl n by simp_all
  have th: "take (n + ?m) ?h = take (n + ?m) S"
  proof -
    have l: "length (take ?m p) = ?m" by simp
    have "n + length (take ?m p) \<le> length (rx_head ?r)" unfolding l lh using n by linarith
    then have "take (n + ?m) ?h = take n (rx_head ?r) @ take ?m p" using take_overwrite [of n "take ?m p" "rx_head ?r"] unfolding l by blast
    moreover have "take n (rx_head ?r) = take n S" using u n by (simp add: uploading_def min_def)
    moreover have "take ?m (drop n S) = take ?m p" unfolding p by simp
    ultimately show ?thesis by (simp only: take_add)
  qed
  have nm: "n + ?m = min HEAD_LEN (n + length p)" using n by (auto simp: min_def)
  obtain d' e where f: "feed_head B E d p = (d', e)" by (cases "feed_head B E d p")
  note g' = feed_head_got [OF gl le f] and c' = feed_head_claim [OF f]
  let ?d1 = "d\<lparr>s_rx := ?r\<lparr>rx_head := ?h, rx_got := rx_got ?r + of_nat ?m\<rparr>\<rparr>"
  show ?thesis
  proof (cases "n + length p < HEAD_LEN")
    case True
    have "rx_got ?r + of_nat ?m \<noteq> of_nat HEAD_LEN"
      using True unat_sum [of "rx_got ?r" ?m "rx_total ?r"] g le n by (auto simp: min_def)
    then have d': "d' = ?d1" "e = ERR_OK" using f g by (auto simp: feed_head_def Let_def)
    have "transfer_ok B d'" using feed_head_ok [OF t gl le] f d' by simp
    then have "uploading B S (min HEAD_LEN (n + length p)) d'"
      using u d' g' g th nm pl True unfolding uploading_def by (simp add: min_def)
    then show ?thesis using f d' by auto
  next
    case False
    have full: "rx_got ?r + of_nat ?m = of_nat HEAD_LEN"
      using False unat_sum [of "rx_got ?r" ?m "rx_total ?r"] g le n got_full [of "rx_got ?r + of_nat ?m"] by (auto simp: min_def)
    have m96: "n + ?m = HEAD_LEN" using False nm by simp
    have "length ?h = HEAD_LEN" using lh m96 length_overwrite [of n "take ?m p" "rx_head ?r"] by simp
    then have hS: "?h = take HEAD_LEN S" using th unfolding m96 by simp
    have "take DFU_HDR_LEN (take HEAD_LEN S) = take DFU_HDR_LEN S" "drop DFU_HDR_LEN (take HEAD_LEN S) = take DFU_SIG_LEN (drop DFU_HDR_LEN S)"
      by (simp_all add: drop_take)
    then have hv: "head_verifies B E ?d1"
      using E v unfolding head_verifies_def willing_def by (simp add: hS)
    obtain fa where fa: "ultrawidelock_flash_erase (s_staging d) 0 (unat (fl_size (s_staging d))) = (fa, True)" "fl_io fa = []"
      using flash_erase_done [of "s_staging d" 0 "unat (fl_size (s_staging d))"] u by (auto simp: uploading_def)
    have d': "d' = ?d1\<lparr>s_staging := fa, s_rx := (s_rx ?d1)\<lparr>rx_erased := True\<rparr>\<rparr>" "e = ERR_OK"
      using f g full hv fa by (auto simp: feed_head_def Let_def)
    have t': "transfer_ok B d'" using feed_head_ok [OF t gl le] f d' by simp
    have sz: "fl_size fa = fl_size (s_staging d)" using flash_erase_frame(1) [OF fa(1)] .
    have g96: "unat (rx_got (s_rx d')) = HEAD_LEN" using g' g False by (simp add: min_def)
    obtain data where "holds (s_staging d') (s_rx d') data" "length data = 0"
      using t' g96 by (auto simp: transfer_ok_def Let_def)
    then have "uploading B S HEAD_LEN d'"
      using u d' t' g96 g hS lS sz fa(2) unfolding uploading_def by simp
    then show ?thesis using f d' False by (auto simp: min_def)
  qed
qed

lemma feed_bytes_done:
  assumes u: "uploading B S n d" and p: "drop n S = p @ rest"
    and E: "willing E" and v: "db_verify B (db_pubkey B) (take DFU_HDR_LEN S) (take DFU_SIG_LEN (drop DFU_HDR_LEN S))"
  shows "\<exists>d'. feed_bytes B E d p = (d', ERR_OK) \<and> uploading B S (n + length p) d'"
proof -
  have pl: "n + length p \<le> length S" using u by (intro drop_room [OF p]) (simp add: uploading_def)
  have a: "rx_active (s_rx d)" "unat (rx_got (s_rx d)) = n" "unat (rx_total (s_rx d)) = length S" using u by (simp_all add: uploading_def)
  show ?thesis
  proof (cases "n < HEAD_LEN")
    case True
    obtain d1 where d1: "feed_head B E d p = (d1, ERR_OK)" "uploading B S (min HEAD_LEN (n + length p)) d1"
      using feed_head_done [OF u True p E v] by blast
    let ?q = "drop (HEAD_LEN - n) p"
    have e: "feed_bytes B E d p = feed_patch d1 ?q" using a pl True d1(1) by (simp add: feed_bytes_def Let_def)
    show ?thesis
    proof (cases "n + length p < HEAD_LEN")
      case c: True
      then show ?thesis using e d1 True by (simp add: feed_patch_def min_def)
    next
      case c: False
      have q: "HEAD_LEN + length ?q = n + length p" using True c by simp
      have "drop (HEAD_LEN - n) (drop n S) = ?q @ rest" unfolding p using c by simp
      then have dq: "drop HEAD_LEN S = ?q @ rest" using True by simp
      have "uploading B S HEAD_LEN d1" using d1(2) c by (simp add: min_def)
      from feed_patch_done [OF this _ dq] obtain d2 where "feed_patch d1 ?q = (d2, ERR_OK)" "uploading B S (HEAD_LEN + length ?q) d2"
        by auto
      then show ?thesis using e unfolding q by simp
    qed
  next
    case False
    then show ?thesis using feed_patch_done [OF u _ p] a pl by (simp add: feed_bytes_def Let_def)
  qed
qed

section \<open>The host's frames\<close>

definition begin_frame :: "u32 \<Rightarrow> nat \<Rightarrow> bytes" where
  "begin_frame tid n = OP_BEGIN # sys_put_le32 tid @ sys_put_le32 (of_nat n)"

definition data_frame :: "u32 \<Rightarrow> u32 \<Rightarrow> bytes \<Rightarrow> bytes" where
  "data_frame tid off b = OP_DATA # sys_put_le32 tid @ sys_put_le32 off @ b"

definition commit_frame :: "u32 \<Rightarrow> bytes" where
  "commit_frame tid = OP_COMMIT # sys_put_le32 tid"

definition abort_frame :: "u32 \<Rightarrow> bytes" where
  "abort_frame tid = OP_ABORT # sys_put_le32 tid"

definition ok_reply :: "u32 \<Rightarrow> nat \<Rightarrow> dfu_out" where
  "ok_reply tid n = Reply (RSP_OK # sys_put_le32 tid @ sys_put_le32 (of_nat n))"

text \<open>What a host sends between BEGIN and COMMIT: the next bytes, or a frame whose offset is not the one
  reached (a retransmission after a lost reply, or one sent too early).\<close>

datatype piece = Next bytes | Stale u32 bytes

fun pieces_ok :: "nat \<Rightarrow> piece list \<Rightarrow> bool" where
  "pieces_ok n [] = True"
| "pieces_ok n (Next b # ps) = pieces_ok (n + length b) ps"
| "pieces_ok n (Stale off b # ps) = (off \<noteq> of_nat n \<and> pieces_ok n ps)"

fun stream_of :: "piece list \<Rightarrow> bytes" where
  "stream_of [] = []"
| "stream_of (Next b # ps) = b @ stream_of ps"
| "stream_of (Stale off b # ps) = stream_of ps"

fun piece_frames :: "u32 \<Rightarrow> nat \<Rightarrow> piece list \<Rightarrow> bytes list" where
  "piece_frames tid n [] = []"
| "piece_frames tid n (Next b # ps) = data_frame tid (of_nat n) b # piece_frames tid (n + length b) ps"
| "piece_frames tid n (Stale off b # ps) = data_frame tid off b # piece_frames tid n ps"

fun piece_acks :: "u32 \<Rightarrow> nat \<Rightarrow> piece list \<Rightarrow> dfu_out list" where
  "piece_acks tid n [] = []"
| "piece_acks tid n (Next b # ps) = ok_reply tid (n + length b) # piece_acks tid (n + length b) ps"
| "piece_acks tid n (Stale off b # ps) = ok_reply tid n # piece_acks tid n ps"

definition sends :: "dfu_env \<Rightarrow> ultrawidelock_dfu_owner \<Rightarrow> bytes list \<Rightarrow> (dfu_env \<times> dfu_event) list" where
  "sends E owner = map (\<lambda>f. (E, Dfu_Frame owner f))"

definition mine :: "ultrawidelock_dfu_owner \<Rightarrow> u32 \<Rightarrow> dfu \<Rightarrow> bool" where
  "mine owner tid d \<longleftrightarrow> s_open d \<and> rx_owner (s_rx d) = owner \<and> rx_transfer_id (s_rx d) = tid"

lemma same_io: "fl_io (s_staging d) = [] \<Longrightarrow> d\<lparr>s_staging := (s_staging d)\<lparr>fl_io := []\<rparr>\<rparr> = d"
proof -
  assume "fl_io (s_staging d) = []"
  then have "(s_staging d)\<lparr>fl_io := []\<rparr> = s_staging d" by (intro flash.equality) simp_all
  then show ?thesis by simp
qed

lemma le_after_le: "sys_get_le32 (drop 4 (sys_put_le32 v @ r)) = sys_get_le32 r"
  by simp

lemma data_frame_fields:
  "length (data_frame tid off b) = 9 + length b" "data_frame tid off b \<noteq> []" "data_frame tid off b ! 0 = OP_DATA"
  "sys_get_le32 (drop (Suc 0) (data_frame tid off b)) = tid" "sys_get_le32 (drop 5 (data_frame tid off b)) = off"
  "drop 9 (data_frame tid off b) = b"
  by (simp_all add: data_frame_def numeral_eq_Suc drop_Cons')

lemma next_step:
  assumes u: "uploading B S n d" and m: "mine owner tid d" and p: "drop n S = b @ rest" and E: "willing E"
    and v: "db_verify B (db_pubkey B) (take DFU_HDR_LEN S) (take DFU_SIG_LEN (drop DFU_HDR_LEN S))"
  shows "\<exists>d'. dfu_step B d (E, Dfu_Frame owner (data_frame tid (of_nat n) b)) = (d', ok_reply tid (n + length b)) \<and>
         uploading B S (n + length b) d' \<and> mine owner tid d' \<and> s_commit_cb d' = s_commit_cb d"
proof -
  have io: "d\<lparr>s_staging := (s_staging d)\<lparr>fl_io := de_io E\<rparr>\<rparr> = d" using u E by (simp add: same_io uploading_def willing_def)
  have g: "rx_got (s_rx d) = of_nat n" using u by (intro word_of_unat) (simp add: uploading_def)
  obtain d' where f: "feed_bytes B E d b = (d', ERR_OK)" and u': "uploading B S (n + length b) d'"
    using feed_bytes_done [OF u p E v] by blast
  have c: "claim d' = claim d" by (rule feed_bytes_claim [OF f])
  have g': "rx_got (s_rx d') = of_nat (n + length b)" using u' by (intro word_of_unat) (simp add: uploading_def)
  have "dfu_step B d (E, Dfu_Frame owner (data_frame tid (of_nat n) b)) = (d', ok_reply tid (n + length b))"
    using m g f g' unfolding dfu_step_def fst_conv snd_conv io
    by (simp add: ultrawidelock_dfu_rx_frame_def do_data_def Let_def data_frame_fields mine_def reply_ok_def ok_reply_def)
  then show ?thesis using u' m c by (auto simp: mine_def claim_def)
qed

lemma stale_step:
  assumes u: "uploading B S n d" and m: "mine owner tid d" and E: "willing E" and off: "off \<noteq> of_nat n"
  shows "dfu_step B d (E, Dfu_Frame owner (data_frame tid off b)) = (d, ok_reply tid n)"
proof -
  have io: "d\<lparr>s_staging := (s_staging d)\<lparr>fl_io := de_io E\<rparr>\<rparr> = d" using u E by (simp add: same_io uploading_def willing_def)
  have g: "rx_got (s_rx d) = of_nat n" using u by (intro word_of_unat) (simp add: uploading_def)
  show ?thesis
    using m g off unfolding dfu_step_def fst_conv snd_conv io
    by (simp add: ultrawidelock_dfu_rx_frame_def do_data_def Let_def data_frame_fields mine_def reply_ok_def ok_reply_def)
qed

lemma pieces_run:
  "uploading B S n d \<Longrightarrow> mine owner tid d \<Longrightarrow> pieces_ok n ps \<Longrightarrow> drop n S = stream_of ps @ rest \<Longrightarrow> willing E \<Longrightarrow>
   db_verify B (db_pubkey B) (take DFU_HDR_LEN S) (take DFU_SIG_LEN (drop DFU_HDR_LEN S)) \<Longrightarrow>
   \<exists>d'. run_steps (dfu_step B) d (sends E owner (piece_frames tid n ps)) = (d', piece_acks tid n ps) \<and>
     uploading B S (n + length (stream_of ps)) d' \<and> mine owner tid d' \<and> s_commit_cb d' = s_commit_cb d"
proof (induction ps arbitrary: d n)
  case Nil
  then show ?case by (simp add: sends_def)
next
  case (Cons x ps)
  show ?case
  proof (cases x)
    case (Next b)
    obtain d1 where s: "dfu_step B d (E, Dfu_Frame owner (data_frame tid (of_nat n) b)) = (d1, ok_reply tid (n + length b))"
      and u: "uploading B S (n + length b) d1" "mine owner tid d1" "s_commit_cb d1 = s_commit_cb d"
      using next_step [OF Cons.prems(1,2), of b "stream_of ps @ rest" E] Cons.prems(4-6) Next by auto
    have "drop (n + length b) S = drop (length b) (drop n S)" by (simp add: add.commute)
    also have "\<dots> = stream_of ps @ rest" using Cons.prems(4) Next by simp
    finally obtain d' where "run_steps (dfu_step B) d1 (sends E owner (piece_frames tid (n + length b) ps)) = (d', piece_acks tid (n + length b) ps)"
      "uploading B S (n + length b + length (stream_of ps)) d'" "mine owner tid d'" "s_commit_cb d' = s_commit_cb d1"
      using Cons.IH [OF u(1,2)] Cons.prems(3,5,6) Next by auto
    then show ?thesis using s u(3) Next by (simp add: sends_def add.assoc)
  next
    case (Stale off b)
    have s: "dfu_step B d (E, Dfu_Frame owner (data_frame tid off b)) = (d, ok_reply tid n)"
      using stale_step [OF Cons.prems(1,2,5)] Cons.prems(3) Stale by simp
    obtain d' where "run_steps (dfu_step B) d (sends E owner (piece_frames tid n ps)) = (d', piece_acks tid n ps)"
      "uploading B S (n + length (stream_of ps)) d'" "mine owner tid d'" "s_commit_cb d' = s_commit_cb d"
      using Cons.IH [OF Cons.prems(1,2)] Cons.prems(3-6) Stale by auto
    then show ?thesis using s Stale by (simp add: sends_def)
  qed
qed

section \<open>The whole upload\<close>

lemma commit_done:
  assumes u: "uploading B S (length S) d" and S: "S = make_hdr fl patch t c l @ sg @ patch" "length sg = DFU_SIG_LEN"
    and pl: "length patch < 2 ^ 32" and cb: "case s_commit_cb d of None \<Rightarrow> True | Some f \<Rightarrow> f (hdr_of (make_hdr fl patch t c l))"
  shows "\<exists>d'. commit_now True d = (d', ERR_OK) \<and> s_reboot d' \<and> rx_staged (s_rx d') \<and> rx_got (s_rx d') = rx_got (s_rx d) \<and>
         complete B (s_staging d') (make_hdr fl patch t c l) sg \<and> span (s_staging d') DFU_PATCH_OFFSET (length patch) = patch"
proof -
  let ?h = "make_hdr fl patch t c l"
  have t: "transfer_ok B d" and a: "rx_active (s_rx d)" and g: "unat (rx_got (s_rx d)) = length S" "unat (rx_total (s_rx d)) = length S"
    using u by (simp_all add: uploading_def)
  have lS: "HEAD_LEN < length S" "length S = HEAD_LEN + length patch" "drop HEAD_LEN S = patch" using t g S by (simp_all add: transfer_ok_def Let_def)
  have gt: "rx_got (s_rx d) = rx_total (s_rx d)" using g by (metis word_unat_eq_iff)
  have er: "rx_erased (s_rx d)" "\<not> rx_staged (s_rx d)" using t g lS by (simp_all add: transfer_ok_def Let_def)
  have h: "holds (s_staging d) (s_rx d) patch" using u lS by (simp add: uploading_def)
  obtain data where "holds (s_staging d) (s_rx d) data" "rx_patch_crc (s_rx d) = ultrawidelock_crc32 data"
    using t g lS by (auto simp: transfer_ok_def Let_def)
  then have crc: "rx_patch_crc (s_rx d) = ultrawidelock_crc32 patch" using h by (auto simp: holds_def)
  have "rx_head (s_rx d) = take HEAD_LEN (rx_head (s_rx d))" using t by (simp add: transfer_ok_def Let_def)
  also have "\<dots> = take HEAD_LEN S" using u lS(1) by (simp add: uploading_def min_def)
  finally have hd: "rx_head (s_rx d) = ?h @ sg" using S by simp
  have m4: "unat (fl_size (s_staging d)) mod 4 = 0"
    using u mod_mod_cancel [of 4 4096 "unat (fl_size (s_staging d))"] by (simp add: uploading_def)
  obtain d1 where w: "wbuf_flush True d = (d1, True)" "fl_io (s_staging d1) = []"
    using flush_done [OF h, of True] u lS m4 by (auto simp: uploading_def)
  note m = moved_fields [OF wbuf_flush_moved [OF w(1)]]
  have ne: "patch \<noteq> []" using lS by auto
  note fin = flush_final_holds [OF h w(1) ne]
  have tl: "rx_total (s_rx d) - of_nat HEAD_LEN = of_nat (length patch)"
  proof -
    have "rx_total (s_rx d) = of_nat (HEAD_LEN + length patch)" using g(2) lS(2) by (intro word_of_unat) simp
    then show ?thesis by simp
  qed
  have good: "hdr_good (s_rx d1)"
    using m crc hd tl unfolding hdr_good_def Let_def by (simp add: hdr_of_make_hdr)
  have tk: "take DFU_HDR_LEN (rx_head (s_rx d1)) = ?h" "drop DFU_HDR_LEN (rx_head (s_rx d1)) = sg" using m hd by simp_all
  obtain fa where fa: "ultrawidelock_flash_write (s_staging d1) 0 ?h = (fa, True)"
    using flash_write_done [OF w(2), of 0 ?h] fin(2) by auto
  have acc: "port_accepts d1" using cb m(11) unfolding port_accepts_def tk(1) by simp
  let ?d' = "armed True (d1\<lparr>s_staging := fa, s_rx := (s_rx d1)\<lparr>rx_active := False, rx_staged := True\<rparr>\<rparr>)"
  have e: "commit_now True d = (?d', ERR_OK)" unfolding commit_now_eq using er a gt w(1) good fa acc tk by simp
  have "complete B fa ?h sg" using flushed_for_commit [OF t er(1) gt w(1) good] fa tk by simp
  moreover have "span fa DFU_PATCH_OFFSET (length patch) = patch"
  proof -
    have "span fa DFU_PATCH_OFFSET (length patch) = span (s_staging d1) DFU_PATCH_OFFSET (length patch)"
      by (rule span_cong) (use flash_write_frame(2) [OF fa] in simp)
    then show ?thesis using fin(1) by simp
  qed
  ultimately show ?thesis using e m by simp
qed

text \<open>Where an upload starts: the window open, no transfer under way, the partition a whole number of pages.\<close>

definition ready :: "dfu \<Rightarrow> nat \<Rightarrow> bool" where
  "ready d n \<longleftrightarrow> s_open d \<and> rx_owner (s_rx d) = OWNER_NONE \<and> unat (fl_size (s_staging d)) mod 4096 = 0 \<and>
     0 < n \<and> DFU_PATCH_OFFSET + n \<le> unat (fl_size (s_staging d))"

lemma begin_done:
  assumes r: "ready d (length S - HEAD_LEN)" and o: "owner \<noteq> OWNER_NONE" "tid \<noteq> 0" and E: "willing E"
  shows "\<exists>d'. dfu_step B d (E, Dfu_Frame owner (begin_frame tid (length S))) = (d', ok_reply tid 0) \<and>
         uploading B S 0 d' \<and> mine owner tid d' \<and> s_commit_cb d' = s_commit_cb d"
proof -
  let ?base = "d\<lparr>s_staging := (s_staging d)\<lparr>fl_io := []\<rparr>\<rparr>"
  let ?d = "?base\<lparr>s_fa := True, s_rx := rx_zero\<lparr>rx_active := True, rx_owner := owner, rx_transfer_id := tid,
      rx_total := of_nat (length S), rx_wpos := of_nat DFU_PATCH_OFFSET\<rparr>\<rparr>"
  have lt: "length S < 2 ^ 32"
    using r unsigned_less [of "fl_size (s_staging d)", where ?'a = nat] by (auto simp: ready_def)
  then have us: "unat (of_nat (length S) :: u32) = length S" by (simp add: unat_of_nat)
  have hs: "HEAD_LEN < length S" using r by (simp add: ready_def)
  have n1: "\<not> (of_nat (length S) :: u32) \<le> of_nat HEAD_LEN" using us hs by (simp add: word_le_nat_alt)
  have "unat ((of_nat (length S) :: u32) - of_nat HEAD_LEN) = length S - HEAD_LEN"
    using n1 us by (subst unat_sub) (simp_all add: word_le_nat_alt)
  moreover have "unat (patch_max d) = unat (fl_size (s_staging d)) - DFU_PATCH_OFFSET"
    unfolding patch_max_def using r by (subst unat_sub) (auto simp: word_le_nat_alt ready_def)
  ultimately have n2: "\<not> (of_nat (length S) :: u32) - of_nat HEAD_LEN > patch_max d"
    using r by (auto simp: word_less_nat_alt ready_def)
  have pm: "patch_max (x::dfu) = patch_max d" if "fl_size (s_staging x) = fl_size (s_staging d)" for x using that by (simp add: patch_max_def)
  have b: "begin_at E owner tid (of_nat (length S)) ?base = (?d, ERR_OK)"
  proof -
    have st: "staging_open E ?base = (?base\<lparr>s_fa := True\<rparr>, True)" using E by (cases d) (auto simp: staging_open_def willing_def)
    have "rx_owner (s_rx ?base) = OWNER_NONE" using r by (simp add: ready_def)
    moreover have "patch_max (?base\<lparr>s_fa := True\<rparr>) = patch_max d" by (rule pm) simp
    ultimately show ?thesis using o n1 n2 unfolding begin_at_def Let_def st by simp
  qed
  have f: "length (begin_frame tid (length S)) = 9" "begin_frame tid (length S) ! 0 = OP_BEGIN" "begin_frame tid (length S) \<noteq> []"
    "sys_get_le32 (drop (Suc 0) (begin_frame tid (length S))) = tid" "sys_get_le32 (drop 5 (begin_frame tid (length S))) = of_nat (length S)"
    by (simp_all add: begin_frame_def)
  have "dfu_step B d (E, Dfu_Frame owner (begin_frame tid (length S))) = (?d, ok_reply tid 0)"
    using r E b f unfolding dfu_step_def
    by (simp add: ultrawidelock_dfu_rx_frame_def do_begin_def Let_def ready_def willing_def reply_ok_def ok_reply_def rx_zero_def)
  moreover have "uploading B S 0 ?d"
    using r us hs n1 o by (auto simp: uploading_def transfer_ok_def Let_def rx_zero_def ready_def)
  moreover have "mine owner tid ?d" using r by (simp add: mine_def rx_zero_def ready_def)
  ultimately show ?thesis by (intro exI [of _ ?d]) simp
qed

definition upload_frames :: "u32 \<Rightarrow> bytes \<Rightarrow> piece list \<Rightarrow> bytes list" where
  "upload_frames tid S ps = begin_frame tid (length S) # piece_frames tid 0 ps @ [commit_frame tid]"

lemma upload_stages:
  assumes S: "S = make_hdr fl patch t c l @ sg @ patch" "length sg = DFU_SIG_LEN"
    and v: "db_verify B (db_pubkey B) (make_hdr fl patch t c l) sg"
    and r: "ready d (length patch)" and o: "owner \<noteq> OWNER_NONE" "tid \<noteq> 0" and E: "willing E"
    and ps: "pieces_ok 0 ps" "stream_of ps = S"
    and cb: "case s_commit_cb d of None \<Rightarrow> True | Some f \<Rightarrow> f (hdr_of (make_hdr fl patch t c l))"
  shows "\<exists>d'. run_steps (dfu_step B) d (sends E owner (upload_frames tid S ps)) =
               (d', ok_reply tid 0 # piece_acks tid 0 ps @ [ok_reply tid (length S)]) \<and>
         s_reboot d' \<and> rx_staged (s_rx d') \<and> complete B (s_staging d') (make_hdr fl patch t c l) sg \<and>
         span (s_staging d') DFU_PATCH_OFFSET (length patch) = patch"
proof -
  have l: "length S = HEAD_LEN + length patch" using S by simp
  have vS: "db_verify B (db_pubkey B) (take DFU_HDR_LEN S) (take DFU_SIG_LEN (drop DFU_HDR_LEN S))" using S v by simp
  obtain d1 where s1: "dfu_step B d (E, Dfu_Frame owner (begin_frame tid (length S))) = (d1, ok_reply tid 0)"
    and u1: "uploading B S 0 d1" "mine owner tid d1" "s_commit_cb d1 = s_commit_cb d"
    using begin_done [OF _ o E, of d S B] r l by auto
  obtain d2 where s2: "run_steps (dfu_step B) d1 (sends E owner (piece_frames tid 0 ps)) = (d2, piece_acks tid 0 ps)"
    and u2: "uploading B S (length S) d2" "mine owner tid d2" "s_commit_cb d2 = s_commit_cb d1"
    using pieces_run [OF u1(1,2) ps(1), of "[]"] ps(2) E vS by auto
  have pl: "length patch < 2 ^ 32"
    using r unsigned_less [of "fl_size (s_staging d)", where ?'a = nat] by (simp add: ready_def)
  obtain d3 where c: "commit_now True d2 = (d3, ERR_OK)" and d3: "s_reboot d3" "rx_staged (s_rx d3)" "rx_got (s_rx d3) = rx_got (s_rx d2)"
    "complete B (s_staging d3) (make_hdr fl patch t c l) sg" "span (s_staging d3) DFU_PATCH_OFFSET (length patch) = patch"
    using commit_done [OF u2(1) S pl] cb u1(3) u2(3) by auto
  have io: "d2\<lparr>s_staging := (s_staging d2)\<lparr>fl_io := de_io E\<rparr>\<rparr> = d2" using u2 E by (simp add: same_io uploading_def willing_def)
  have f: "length (commit_frame tid) = 5" "commit_frame tid ! 0 = OP_COMMIT" "commit_frame tid \<noteq> []" "sys_get_le32 (drop (Suc 0) (commit_frame tid)) = tid"
    by (simp_all add: commit_frame_def)
  have g: "rx_got (s_rx d3) = of_nat (length S)" using u2(1) d3(3) by (auto simp: uploading_def intro!: word_of_unat)
  have "dfu_step B d2 (E, Dfu_Frame owner (commit_frame tid)) = (d3, ok_reply tid (length S))"
    using u2(2) c f g unfolding dfu_step_def fst_conv snd_conv io
    by (simp add: ultrawidelock_dfu_rx_frame_def do_commit_def Let_def mine_def reply_ok_def ok_reply_def)
  then show ?thesis
    using s1 s2 d3 by (simp add: upload_frames_def sends_def run_steps_append)
qed

end
