(* ===== verification/Dfu_Applier.thy ===== *)
theory Dfu_Applier
  imports Dfu_Flash
begin

text \<open>
  The bootloader half of the delta update (\<^verbatim>\<open>modules/ultrawidelock_dfu/src/dfu_applier.c\<close>): the
  memory callbacks with their write combiner, the step log, the integrity checks and the apply itself.

  The patch engine (detools, vendored in \<^verbatim>\<open>src/detools\<close>) is a parameter, and what is proved holds for
  every engine. All the applier knows of it is that its three entry points
  call the memory and step callbacks and return a code, so an entry point is a tree of callback requests
  (\<open>engine\<close>): each node asks for one callback and goes on with its answer. The engine's own state is a
  type parameter, kept where the source keeps \<^verbatim>\<open>s_patcher\<close>. The combiner \<^verbatim>\<open>s_w\<close> is the address
  of its first byte and the list of the bytes held.
\<close>

section \<open>State\<close>

abbreviation AP_WBUF_SZ :: nat where "AP_WBUF_SZ \<equiv> 128"
abbreviation APPLIER_CHUNK :: nat where "APPLIER_CHUNK \<equiv> 256"
abbreviation STEP_MAX :: nat where "STEP_MAX \<equiv> 1024"

record applier =
  ap_primary :: flash
  ap_staging :: flash
  w_addr :: u32
  w_buf :: bytes

section \<open>Memory callbacks\<close>

definition fill4 :: "bytes \<Rightarrow> bytes" where
  "fill4 b = b @ replicate ((4 - length b mod 4) mod 4) 0xff"

definition wbuf_flush_words :: "applier \<Rightarrow> applier \<times> bool" where
  "wbuf_flush_words a =
     (let whole = length (w_buf a) div 4 * 4
      in if whole = 0 then (a, True)
         else case ultrawidelock_flash_write (ap_primary a) (unat (w_addr a)) (take whole (w_buf a)) of
                (fa, False) \<Rightarrow> (a\<lparr>ap_primary := fa\<rparr>, False)
              | (fa, True) \<Rightarrow> (a\<lparr>ap_primary := fa, w_addr := w_addr a + of_nat whole, w_buf := drop whole (w_buf a)\<rparr>, True))"

definition wbuf_flush_all :: "applier \<Rightarrow> applier \<times> bool" where
  "wbuf_flush_all a =
     (case wbuf_flush_words a of
        (a1, False) \<Rightarrow> (a1, False)
      | (a1, True) \<Rightarrow>
          if w_buf a1 = [] then (a1, True)
          else
            let b = fill4 (w_buf a1)
            in case ultrawidelock_flash_write (ap_primary a1) (unat (w_addr a1)) b of
                 (fa, False) \<Rightarrow> (a1\<lparr>ap_primary := fa, w_buf := b\<rparr>, False)
               | (fa, True) \<Rightarrow> (a1\<lparr>ap_primary := fa, w_addr := w_addr a1 + of_nat (length b), w_buf := []\<rparr>, True))"

text \<open>
  The loop of \<^verbatim>\<open>mem_write\<close>. Like the receiver's, it would not end with a full buffer; here it stops
  and fails, and \<open>combine_spec\<close> shows that it never starts a turn with one.
\<close>

function mem_write_loop :: "applier \<Rightarrow> bytes \<Rightarrow> applier \<times> bool" where
  "mem_write_loop a src =
     (if src = [] then (a, True)
      else if length (w_buf a) \<ge> AP_WBUF_SZ then (a, False)
      else
        let n = min (length src) (AP_WBUF_SZ - length (w_buf a));
            a1 = a\<lparr>w_buf := w_buf a @ take n src\<rparr>
        in if length (w_buf a1) = AP_WBUF_SZ
           then (case wbuf_flush_words a1 of
                   (a2, False) \<Rightarrow> (a2, False)
                 | (a2, True) \<Rightarrow> mem_write_loop a2 (drop n src))
           else mem_write_loop a1 (drop n src))"
  by pat_completeness auto
termination
  by (relation "measure (\<lambda>(a, src). length src)") auto

declare mem_write_loop.simps [simp del]

definition mem_write :: "applier \<Rightarrow> nat \<Rightarrow> bytes \<Rightarrow> applier \<times> bool" where
  "mem_write a dst src =
     (case (if w_buf a \<noteq> [] \<and> of_nat dst \<noteq> w_addr a + of_nat (length (w_buf a)) then wbuf_flush_all a else (a, True)) of
        (a1, False) \<Rightarrow> (a1, False)
      | (a1, True) \<Rightarrow> mem_write_loop (if w_buf a1 = [] then a1\<lparr>w_addr := of_nat dst\<rparr> else a1) src)"

definition mem_read :: "applier \<Rightarrow> nat \<Rightarrow> nat \<Rightarrow> applier \<times> bytes option" where
  "mem_read a src n =
     (case wbuf_flush_all a of
        (a1, False) \<Rightarrow> (a1, None)
      | (a1, True) \<Rightarrow>
          (case ultrawidelock_flash_read (ap_primary a1) (unat (of_nat src :: u32)) n of (fa, v) \<Rightarrow> (a1\<lparr>ap_primary := fa\<rparr>, v)))"

definition round_up :: "nat \<Rightarrow> nat" where
  "round_up n = (n + FLASH_PAGE_SIZE - 1) div FLASH_PAGE_SIZE * FLASH_PAGE_SIZE"

definition mem_erase :: "applier \<Rightarrow> nat \<Rightarrow> nat \<Rightarrow> applier \<times> bool" where
  "mem_erase a addr n =
     (case wbuf_flush_all a of
        (a1, False) \<Rightarrow> (a1, False)
      | (a1, True) \<Rightarrow>
          if addr mod FLASH_PAGE_SIZE \<noteq> 0 then (a1, False)
          else if addr + round_up n > unat (fl_size (ap_primary a1)) then (a1, False)
          else case ultrawidelock_flash_erase (ap_primary a1) (unat (of_nat addr :: u32)) (round_up n) of
                 (fa, ok) \<Rightarrow> (a1\<lparr>ap_primary := fa\<rparr>, ok))"

section \<open>The step log\<close>

definition step_set :: "applier \<Rightarrow> int \<Rightarrow> applier \<times> bool" where
  "step_set a step =
     (if step = 0
      then (case ultrawidelock_flash_erase (ap_staging a) DFU_STEP_OFFSET FLASH_PAGE_SIZE of (fa, ok) \<Rightarrow> (a\<lparr>ap_staging := fa\<rparr>, ok))
      else if step < 0 \<or> nat step > STEP_MAX then (a, False)
      else case ultrawidelock_flash_write (ap_staging a) (DFU_STEP_OFFSET + (nat step - 1) * 4) (sys_put_le32 (word_of_int step)) of
             (fa, ok) \<Rightarrow> (a\<lparr>ap_staging := fa\<rparr>, ok))"

text \<open>The scan from word \<open>i\<close>, with \<open>k\<close> words still to look at.\<close>

fun step_scan :: "applier \<Rightarrow> nat \<Rightarrow> nat \<Rightarrow> applier \<times> nat option" where
  "step_scan a i 0 = (a, Some i)"
| "step_scan a i (Suc k) =
     (case ultrawidelock_flash_read (ap_staging a) (DFU_STEP_OFFSET + i * 4) 4 of
        (fa, None) \<Rightarrow> (a\<lparr>ap_staging := fa\<rparr>, None)
      | (fa, Some v) \<Rightarrow>
          if sys_get_le32 v = DFU_STEP_ERASED then (a\<lparr>ap_staging := fa\<rparr>, Some i)
          else step_scan (a\<lparr>ap_staging := fa\<rparr>) (Suc i) k)"

definition step_get :: "applier \<Rightarrow> applier \<times> nat option" where
  "step_get a = step_scan a 0 STEP_MAX"

section \<open>Integrity\<close>

function area_crc32_loop :: "flash \<Rightarrow> nat \<Rightarrow> nat \<Rightarrow> u32 \<Rightarrow> flash \<times> u32 option" where
  "area_crc32_loop fa off len crc =
     (if len = 0 then (fa, Some crc)
      else
        let n = min APPLIER_CHUNK len
        in case ultrawidelock_flash_read fa off n of
             (fa1, None) \<Rightarrow> (fa1, None)
           | (fa1, Some b) \<Rightarrow> area_crc32_loop fa1 (off + n) (len - n) (ultrawidelock_crc32_update crc b))"
  by pat_completeness auto
termination
  by (relation "measure (\<lambda>(fa, off, len, crc). len)") auto

declare area_crc32_loop.simps [simp del]

definition area_crc32 :: "flash \<Rightarrow> nat \<Rightarrow> nat \<Rightarrow> flash \<times> u32 option" where
  "area_crc32 fa off len = area_crc32_loop fa off len 0"

definition staging_consume :: "applier \<Rightarrow> applier" where
  "staging_consume a = a\<lparr>ap_staging := fst (ultrawidelock_flash_erase (ap_staging a) 0 (unat (fl_size (ap_staging a))))\<rparr>"

section \<open>The apply\<close>

datatype 'r engine =
    Ret 'r
  | Ask_Read nat nat "bytes option \<Rightarrow> 'r engine"
  | Ask_Write nat bytes "bool \<Rightarrow> 'r engine"
  | Ask_Erase nat nat "bool \<Rightarrow> 'r engine"
  | Ask_Step_Set int "bool \<Rightarrow> 'r engine"
  | Ask_Step_Get "nat option \<Rightarrow> 'r engine"

record 'p detools =
  dt_init :: "nat \<Rightarrow> (int \<times> 'p) engine"
  dt_process :: "'p \<Rightarrow> bytes \<Rightarrow> (int \<times> 'p) engine"
  dt_finalize :: "'p \<Rightarrow> int engine"

text \<open>An entry point of the engine, run against the callbacks above.\<close>

primrec serve :: "'r engine \<Rightarrow> applier \<Rightarrow> applier \<times> 'r" where
  "serve (Ret r) a = (a, r)"
| "serve (Ask_Read src n k) a = (case mem_read a src n of (a1, v) \<Rightarrow> serve (k v) a1)"
| "serve (Ask_Write dst b k) a = (case mem_write a dst b of (a1, ok) \<Rightarrow> serve (k ok) a1)"
| "serve (Ask_Erase addr n k) a = (case mem_erase a addr n of (a1, ok) \<Rightarrow> serve (k ok) a1)"
| "serve (Ask_Step_Set step k) a = (case step_set a step of (a1, ok) \<Rightarrow> serve (k ok) a1)"
| "serve (Ask_Step_Get k) a = (case step_get a of (a1, v) \<Rightarrow> serve (k v) a1)"

function feed_engine :: "'p detools \<Rightarrow> applier \<Rightarrow> 'p \<Rightarrow> nat \<Rightarrow> nat \<Rightarrow> applier \<times> int \<times> 'p" where
  "feed_engine D a p off left =
     (if left = 0 then (a, 0, p)
      else
        let n = min APPLIER_CHUNK left
        in case ultrawidelock_flash_read (ap_staging a) off n of
             (fa, None) \<Rightarrow> (a\<lparr>ap_staging := fa\<rparr>, - 1, p)
           | (fa, Some b) \<Rightarrow>
               (case serve (dt_process D p b) (a\<lparr>ap_staging := fa\<rparr>) of
                  (a1, res, p1) \<Rightarrow> if res \<noteq> 0 then (a1, res, p1) else feed_engine D a1 p1 (off + n) (left - n)))"
  by pat_completeness auto
termination
  by (relation "measure (\<lambda>(D, a, p, off, left). left)") auto

declare feed_engine.simps [simp del]

definition patch_stream :: "'p detools \<Rightarrow> applier \<Rightarrow> ultrawidelock_dfu_hdr \<Rightarrow> applier \<times> int" where
  "patch_stream D a hdr =
     (case serve (dt_init D (unat (hdr_patch_len hdr))) (a\<lparr>w_addr := 0, w_buf := []\<rparr>) of
        (a1, res, p) \<Rightarrow>
          if res \<noteq> 0 then (a1, res)
          else case feed_engine D a1 p DFU_PATCH_OFFSET (unat (hdr_patch_len hdr)) of
                 (a2, res2, p2) \<Rightarrow>
                   if res2 \<noteq> 0 then (a2, res2)
                   else case wbuf_flush_all a2 of
                          (a3, False) \<Rightarrow> (a3, - 1)
                        | (a3, True) \<Rightarrow> serve (dt_finalize D p2) a3)"

text \<open>The checks of a fresh apply: the patch first, then the image it was made for.\<close>

definition fresh_checks :: "applier \<Rightarrow> ultrawidelock_dfu_hdr \<Rightarrow> applier \<times> bool" where
  "fresh_checks a hdr =
     (if hdr_from_len hdr > fl_size (ap_primary a) then (a, False)
      else case area_crc32 (ap_staging a) DFU_PATCH_OFFSET (unat (hdr_patch_len hdr)) of
             (fs, c) \<Rightarrow>
               if c \<noteq> Some (hdr_patch_crc32 hdr) then (a\<lparr>ap_staging := fs\<rparr>, False)
               else case area_crc32 (ap_primary a) 0 (unat (hdr_from_len hdr)) of
                      (fp, c2) \<Rightarrow> (a\<lparr>ap_staging := fs, ap_primary := fp\<rparr>, c2 = Some (hdr_from_crc32 hdr)))"

definition header_rejected :: "flash \<Rightarrow> bytes \<Rightarrow> bool" where
  "header_rejected fa p \<longleftrightarrow>
     hdr_abi_version (hdr_of p) \<noteq> DFU_ABI_VERSION \<or> hdr_patch_len (hdr_of p) = 0 \<or>
     hdr_patch_len (hdr_of p) > fl_size fa - of_nat DFU_PATCH_OFFSET \<or>
     hdr_hdr_crc32 (hdr_of p) \<noteq> ultrawidelock_crc32 (take DFU_HDR_CRC_LEN p)"

definition dfu_apply :: "'p detools \<Rightarrow> bool \<Rightarrow> bool \<Rightarrow> applier \<Rightarrow> applier" where
  "dfu_apply D staging_opens primary_opens a =
     (if \<not> staging_opens then a
      else case ultrawidelock_flash_read (ap_staging a) DFU_HDR_OFFSET DFU_HDR_LEN of
             (fa, None) \<Rightarrow> a\<lparr>ap_staging := fa\<rparr>
           | (fa, Some p) \<Rightarrow>
               let hdr = hdr_of p; a1 = a\<lparr>ap_staging := fa\<rparr>
               in if hdr_magic hdr \<noteq> DFU_MAGIC then a1
                  else if header_rejected fa p then staging_consume a1
                  else if \<not> primary_opens then a1
                  else case step_get a1 of
                         (a2, None) \<Rightarrow> a2
                       | (a2, Some completed) \<Rightarrow>
                           (case (if completed = 0 then fresh_checks a2 hdr else (a2, True)) of
                              (a3, False) \<Rightarrow> staging_consume a3
                            | (a3, True) \<Rightarrow> staging_consume (fst (patch_stream D a3 hdr))))"

end
