(* ===== verification/Dfu_Combiner.thy ===== *)
theory Dfu_Combiner
  imports Dfu_Applier
begin

text \<open>
  The write combiner of the bootloader is transparent: as long as the engine writes only to erased
  bytes inside the slot and no callback reports a failure, it sees a memory in which every write takes
  effect at once and at any address and length.
\<close>

section \<open>What the slot holds once the combiner is flushed\<close>

definition view :: "applier \<Rightarrow> nat \<Rightarrow> u8" where
  "view a i = (if unat (w_addr a) \<le> i \<and> i < unat (w_addr a) + length (w_buf a) then w_buf a ! (i - unat (w_addr a))
               else fl_at (ap_primary a) i)"

definition combiner_ok :: "applier \<Rightarrow> bool" where
  "combiner_ok a \<longleftrightarrow>
     length (w_buf a) < AP_WBUF_SZ \<and> blank (ap_primary a) (unat (w_addr a)) (unat (w_addr a) + length (w_buf a)) \<and>
     (w_buf a = [] \<or> unat (w_addr a) + length (w_buf a) \<le> unat (fl_size (ap_primary a)))"

definition near_ok :: "applier \<Rightarrow> bool" where
  "near_ok a \<longleftrightarrow>
     blank (ap_primary a) (unat (w_addr a)) (unat (w_addr a) + length (w_buf a)) \<and>
     (w_buf a = [] \<or> unat (w_addr a) + length (w_buf a) \<le> unat (fl_size (ap_primary a)))"

lemma combiner_near: "combiner_ok a \<longleftrightarrow> near_ok a \<and> length (w_buf a) < AP_WBUF_SZ"
  by (auto simp: combiner_ok_def near_ok_def)

lemma unat_add_small: "unat x + n \<le> unat (t::u32) \<Longrightarrow> unat (x + of_nat n :: u32) = unat x + n"
  using unsigned_less [of t, where ?'a = nat] by (simp add: unat_word_ariths unat_of_nat)

text \<open>A write of buffered bytes, padded or not, moves them from the buffer to the slot.\<close>

lemma write_view:
  assumes k: "near_ok a" and w: "ultrawidelock_flash_write (ap_primary a) (unat (w_addr a)) b = (fa, True)"
    and b: "w_buf a @ replicate p 0xff = b @ rest" and r: "rest = [] \<or> p = 0"
  shows "view (a\<lparr>ap_primary := fa, w_addr := w_addr a + of_nat (length b), w_buf := drop (length b) (w_buf a)\<rparr>) = view a"
    and "near_ok (a\<lparr>ap_primary := fa, w_addr := w_addr a + of_nat (length b), w_buf := drop (length b) (w_buf a)\<rparr>)"
proof -
  let ?w = "unat (w_addr a)" and ?f = "ap_primary a"
  let ?a = "a\<lparr>ap_primary := fa, w_addr := w_addr a + of_nat (length b), w_buf := drop (length b) (w_buf a)\<rparr>"
  have le: "?w + length b \<le> unat (fl_size ?f)"
    using w by (auto simp: ultrawidelock_flash_write_def in_bounds_def split: if_splits)
  have up: "unat (w_addr a + of_nat (length b)) = ?w + length b" by (rule unat_add_small [OF le])
  have at: "fl_at fa i = (if ?w \<le> i \<and> i < ?w + length b then fl_at ?f i AND b ! (i - ?w) else fl_at ?f i)" for i
    using w by (auto simp: ultrawidelock_flash_write_def set_range_def split: if_splits list.splits option.splits)
  have bn: "b ! j = (if j < length (w_buf a) then w_buf a ! j else 0xff)" if "j < length b" for j
  proof -
    have "b ! j = (w_buf a @ replicate p 0xff) ! j" using b that by (simp add: nth_append)
    moreover have "j < length (w_buf a) + p" using arg_cong [OF b, of length] that by simp
    ultimately show ?thesis by (simp add: nth_append)
  qed
  have bl: "fl_at ?f i = 0xff" if "?w \<le> i" "i < ?w + length (w_buf a)" for i using k that by (auto simp: near_ok_def blank_def)
  show "view ?a = view a"
  proof
    fix i
    show "view ?a i = view a i"
      using bn [of "i - ?w"] bl [of i] unfolding view_def by (auto simp: up at and.commute [of _ "0xff"])
  qed
  show "near_ok ?a" unfolding near_ok_def
  proof (intro conjI)
    show "blank (ap_primary ?a) (unat (w_addr ?a)) (unat (w_addr ?a) + length (w_buf ?a))"
      using bl by (auto simp: blank_def up at)
    show "w_buf ?a = [] \<or> unat (w_addr ?a) + length (w_buf ?a) \<le> unat (fl_size (ap_primary ?a))"
      using k flash_write_frame(1) [OF w] by (auto simp: near_ok_def up)
  qed
qed

lemma flush_words_view:
  assumes k: "near_ok a" and f: "wbuf_flush_words a = (a', True)"
  shows "view a' = view a" and "near_ok a'" and "length (w_buf a') = length (w_buf a) mod 4" and "ap_staging a' = ap_staging a"
    and "fl_size (ap_primary a') = fl_size (ap_primary a)" and "unat (w_addr a') + length (w_buf a') = unat (w_addr a) + length (w_buf a)"
proof -
  let ?n = "length (w_buf a) div 4 * 4"
  have "view a' = view a \<and> near_ok a' \<and> length (w_buf a') = length (w_buf a) mod 4 \<and> ap_staging a' = ap_staging a \<and>
        fl_size (ap_primary a') = fl_size (ap_primary a) \<and> unat (w_addr a') + length (w_buf a') = unat (w_addr a) + length (w_buf a)"
  proof (cases "?n = 0")
    case False
    obtain fa where w: "ultrawidelock_flash_write (ap_primary a) (unat (w_addr a)) (take ?n (w_buf a)) = (fa, True)"
      and a': "a' = a\<lparr>ap_primary := fa, w_addr := w_addr a + of_nat ?n, w_buf := drop ?n (w_buf a)\<rparr>"
      using f False by (auto simp: wbuf_flush_words_def Let_def split: prod.splits bool.splits)
    have n: "length (take ?n (w_buf a)) = ?n" by auto
    have le: "unat (w_addr a) + ?n \<le> unat (fl_size (ap_primary a))"
      using w n by (auto simp: ultrawidelock_flash_write_def in_bounds_def split: if_splits)
    note v = write_view [OF k w, of 0 "drop ?n (w_buf a)", unfolded n]
    show ?thesis using v flash_write_frame(1) [OF w] unat_add_small [OF le] unfolding a' by (simp add: minus_div_mult_eq_mod)
  qed (use f k in \<open>auto simp: wbuf_flush_words_def Let_def\<close>)
  then show "view a' = view a" and "near_ok a'" and "length (w_buf a') = length (w_buf a) mod 4" and "ap_staging a' = ap_staging a"
    and "fl_size (ap_primary a') = fl_size (ap_primary a)" and "unat (w_addr a') + length (w_buf a') = unat (w_addr a) + length (w_buf a)" by auto
qed

lemma flush_all_view:
  assumes k: "near_ok a" and f: "wbuf_flush_all a = (a', True)"
  shows "view a' = view a \<and> w_buf a' = [] \<and> ap_staging a' = ap_staging a \<and> fl_size (ap_primary a') = fl_size (ap_primary a)"
proof -
  obtain a1 where f1: "wbuf_flush_words a = (a1, True)" using f by (auto simp: wbuf_flush_all_def split: prod.splits bool.splits)
  note v1 = flush_words_view [OF k f1]
  show ?thesis
  proof (cases "w_buf a1 = []")
    case False
    let ?b = "fill4 (w_buf a1)"
    obtain fa where w: "ultrawidelock_flash_write (ap_primary a1) (unat (w_addr a1)) ?b = (fa, True)"
      and a': "a' = a1\<lparr>ap_primary := fa, w_addr := w_addr a1 + of_nat (length ?b), w_buf := []\<rparr>"
      using f f1 False by (auto simp: wbuf_flush_all_def Let_def split: prod.splits bool.splits)
    have d: "drop (length ?b) (w_buf a1) = []" by (simp add: fill4_def)
    have e: "w_buf a1 @ replicate ((4 - length (w_buf a1) mod 4) mod 4) 0xff = ?b @ []" by (simp add: fill4_def)
    from write_view(1) [OF v1(2) w e] show ?thesis using v1 flash_write_frame(1) [OF w] unfolding a' d by simp
  qed (use f f1 v1 in \<open>auto simp: wbuf_flush_all_def\<close>)
qed

lemma view_flushed: "w_buf a = [] \<Longrightarrow> view a = fl_at (ap_primary a)"
  by (auto simp: view_def fun_eq_iff)

lemma view_beyond: "unat (w_addr a) + length (w_buf a) \<le> i \<Longrightarrow> view a i = fl_at (ap_primary a) i"
  by (simp add: view_def)

definition put_bytes :: "(nat \<Rightarrow> u8) \<Rightarrow> nat \<Rightarrow> bytes \<Rightarrow> nat \<Rightarrow> u8" where
  "put_bytes m dst b i = (if dst \<le> i \<and> i < dst + length b then b ! (i - dst) else m i)"

lemma put_bytes_append: "put_bytes m dst (b @ c) = put_bytes (put_bytes m dst b) (dst + length b) c"
  by (auto simp: put_bytes_def fun_eq_iff nth_append)

lemma put_bytes_Nil [simp]: "put_bytes m dst [] = m"
  by (auto simp: put_bytes_def fun_eq_iff)

text \<open>Appending to the buffer.\<close>

lemma buffered:
  assumes "near_ok a" "unat (w_addr a) + length (w_buf a) + length b \<le> unat (fl_size (ap_primary a))"
    and "blank (ap_primary a) (unat (w_addr a) + length (w_buf a)) (unat (w_addr a) + length (w_buf a) + length b)"
  shows "near_ok (a\<lparr>w_buf := w_buf a @ b\<rparr>)"
    and "view (a\<lparr>w_buf := w_buf a @ b\<rparr>) = put_bytes (view a) (unat (w_addr a) + length (w_buf a)) b"
proof -
  show "near_ok (a\<lparr>w_buf := w_buf a @ b\<rparr>)"
    using assms unfolding near_ok_def blank_def by (auto simp: add.assoc)
  show "view (a\<lparr>w_buf := w_buf a @ b\<rparr>) = put_bytes (view a) (unat (w_addr a) + length (w_buf a)) b"
    by (auto simp: view_def put_bytes_def fun_eq_iff nth_append)
qed

lemma combine_spec:
  "mem_write_loop a src = (a', True) \<Longrightarrow> combiner_ok a \<Longrightarrow>
   unat (w_addr a) + length (w_buf a) + length src \<le> unat (fl_size (ap_primary a)) \<Longrightarrow>
   blank (ap_primary a) (unat (w_addr a) + length (w_buf a)) (unat (w_addr a) + length (w_buf a) + length src) \<Longrightarrow>
   view a' = put_bytes (view a) (unat (w_addr a) + length (w_buf a)) src \<and> combiner_ok a' \<and> ap_staging a' = ap_staging a \<and>
   fl_size (ap_primary a') = fl_size (ap_primary a)"
proof (induction src arbitrary: a rule: length_induct)
  case (1 src)
  let ?k = "AP_WBUF_SZ - length (w_buf a)" and ?e = "unat (w_addr a) + length (w_buf a)"
  let ?t = "take ?k src" and ?a1 = "a\<lparr>w_buf := w_buf a @ take (AP_WBUF_SZ - length (w_buf a)) src\<rparr>"
  have room: "length (w_buf a) < AP_WBUF_SZ" and near: "near_ok a" using 1(3) by (simp_all add: combiner_near)
  have lt: "length ?t \<le> length src" by simp
  have bl: "blank (ap_primary a) ?e (?e + length ?t)" using 1(5) lt by (auto simp: blank_def)
  have fit: "?e + length ?t \<le> unat (fl_size (ap_primary a))" using 1(4) lt by linarith
  note b = buffered [OF near fit bl]
  show ?case
  proof (cases "src = []")
    case False
    have turn: "mem_write_loop a src =
        (if length (w_buf ?a1) = AP_WBUF_SZ
         then (case wbuf_flush_words ?a1 of (a2, False) \<Rightarrow> (a2, False) | (a2, True) \<Rightarrow> mem_write_loop a2 (drop ?k src))
         else mem_write_loop ?a1 (drop ?k src))"
    proof -
      have n: "take (min (length src) ?k) src = take ?k src" "drop (min (length src) ?k) src = drop ?k src" by (simp_all add: min_def)
      show ?thesis using False room unfolding mem_write_loop.simps [of a src] Let_def n by simp
    qed
    show ?thesis
    proof (cases "length (w_buf ?a1) = AP_WBUF_SZ")
      case True
      then obtain a2 where f: "wbuf_flush_words ?a1 = (a2, True)" and r: "mem_write_loop a2 (drop ?k src) = (a', True)"
        using 1(2) turn by (auto split: prod.splits bool.splits)
      note v = flush_words_view [OF b(1) f]
      have l: "length (drop ?k src) < length src" using False room diff_less [of ?k "length src"] by simp
      have k2: "length ?t = ?k" using True room by auto
      have e2: "unat (w_addr a2) + length (w_buf a2) = ?e + ?k" using v(6) k2 by simp
      have ok2: "combiner_ok a2" using v(2,3) True by (simp add: combiner_near)
      have keep: "fl_at (ap_primary a2) i = fl_at (ap_primary a) i" if "?e + ?k \<le> i" for i
      proof -
        have "unat (w_addr ?a1) + length (w_buf ?a1) \<le> i" using that k2 by simp
        then have "view ?a1 i = fl_at (ap_primary a) i" by (simp add: view_beyond)
        moreover have "view a2 i = fl_at (ap_primary a2) i" using that e2 by (intro view_beyond) simp
        ultimately show ?thesis using v(1) by simp
      qed
      have fit2: "unat (w_addr a2) + length (w_buf a2) + length (drop ?k src) \<le> unat (fl_size (ap_primary a2))"
        using e2 v(5) 1(4) k2 lt by simp
      have bl2: "blank (ap_primary a2) (unat (w_addr a2) + length (w_buf a2)) (unat (w_addr a2) + length (w_buf a2) + length (drop ?k src))"
        unfolding e2 using 1(5) keep k2 lt by (auto simp: blank_def)
      have "view a' = put_bytes (view a2) (?e + ?k) (drop ?k src) \<and> combiner_ok a' \<and> ap_staging a' = ap_staging a2 \<and>
          fl_size (ap_primary a') = fl_size (ap_primary a2)"
        using 1(1) [rule_format, OF l r ok2 fit2 bl2] unfolding e2 .
      moreover have "put_bytes (put_bytes (view a) ?e ?t) (?e + ?k) (drop ?k src) = put_bytes (view a) ?e src"
        using put_bytes_append [of "view a" ?e ?t "drop ?k src"] k2 by simp
      ultimately show ?thesis using v b(2) by simp
    next
      case c: False
      then have d: "drop ?k src = []" "?t = src" "length (w_buf a) + length src < AP_WBUF_SZ" using room by auto
      then have "a' = ?a1" using 1(2) turn c by (simp add: mem_write_loop.simps [of _ "[]"])
      then show ?thesis using b d by (simp add: combiner_near)
    qed
  qed (use 1 in \<open>simp add: mem_write_loop.simps [of _ "[]"]\<close>)
qed

section \<open>The callbacks against a plain memory\<close>

text \<open>The same bytes with nothing held back: what the engine believes it is working on.\<close>

definition plain :: "applier \<Rightarrow> applier" where
  "plain a = \<lparr>ap_primary = \<lparr>fl_size = fl_size (ap_primary a), fl_at = view a, fl_io = []\<rparr>, ap_staging = ap_staging a,
     w_addr = 0, w_buf = []\<rparr>"

lemma view_staging [simp]: "view (a\<lparr>ap_staging := x\<rparr>) = view a" "combiner_ok (a\<lparr>ap_staging := x\<rparr>) = combiner_ok a"
  by (simp_all add: view_def combiner_ok_def fun_eq_iff)

lemma plain_staging: "(plain a)\<lparr>ap_staging := x\<rparr> = plain (a\<lparr>ap_staging := x\<rparr>)"
  by (simp add: plain_def)

primrec direct :: "'r engine \<Rightarrow> applier \<Rightarrow> applier \<times> 'r" where
  "direct (Ret r) a = (a, r)"
| "direct (Ask_Read src n k) a = direct (k (Some (span (ap_primary a) src n))) a"
| "direct (Ask_Write dst b k) a =
     direct (k True) (a\<lparr>ap_primary := (ap_primary a)\<lparr>fl_at := put_bytes (fl_at (ap_primary a)) dst b\<rparr>\<rparr>)"
| "direct (Ask_Erase addr n k) a = direct (k True) (a\<lparr>ap_primary := set_range (ap_primary a) addr (round_up n) (\<lambda>_. 0xff)\<rparr>)"
| "direct (Ask_Step_Set step k) a = (case step_set a step of (a1, ok) \<Rightarrow> direct (k ok) a1)"
| "direct (Ask_Step_Get k) a = (case step_get a of (a1, v) \<Rightarrow> direct (k v) a1)"

text \<open>A run of the engine in which every memory callback succeeds and every write goes to erased bytes
  of the slot.\<close>

primrec smooth :: "'r engine \<Rightarrow> applier \<Rightarrow> bool" where
  "smooth (Ret r) a = True"
| "smooth (Ask_Read src n k) a = (case mem_read a src n of (a1, v) \<Rightarrow> v \<noteq> None \<and> src < 2 ^ 32 \<and> smooth (k v) a1)"
| "smooth (Ask_Write dst b k) a =
     (case mem_write a dst b of (a1, ok) \<Rightarrow>
        ok \<and> dst + length b \<le> unat (fl_size (ap_primary a)) \<and> (\<forall>i\<in>{dst..<dst + length b}. view a i = 0xff) \<and> smooth (k ok) a1)"
| "smooth (Ask_Erase addr n k) a = (case mem_erase a addr n of (a1, ok) \<Rightarrow> ok \<and> smooth (k ok) a1)"
| "smooth (Ask_Step_Set step k) a = (case step_set a step of (a1, ok) \<Rightarrow> smooth (k ok) a1)"
| "smooth (Ask_Step_Get k) a = (case step_get a of (a1, v) \<Rightarrow> smooth (k v) a1)"

lemma mem_read_plain:
  assumes k: "combiner_ok a" and r: "mem_read a src n = (a', Some v)" and s: "src < 2 ^ 32"
  shows "combiner_ok a'" and "plain a' = plain a" and "v = span (ap_primary (plain a)) src n"
proof -
  obtain a1 where f: "wbuf_flush_all a = (a1, True)" using r by (auto simp: mem_read_def split: prod.splits bool.splits)
  have v: "view a1 = view a" "w_buf a1 = []" "ap_staging a1 = ap_staging a" "fl_size (ap_primary a1) = fl_size (ap_primary a)"
    using flush_all_view [OF _ f] k by (auto simp: combiner_near)
  have u: "unat (of_nat src :: u32) = src" using s by (simp add: unat_of_nat)
  obtain fa where fa: "ultrawidelock_flash_read (ap_primary a1) src n = (fa, Some v)" and a': "a' = a1\<lparr>ap_primary := fa\<rparr>"
    using r f u by (auto simp: mem_read_def split: prod.splits)
  have c: "fl_at fa = fl_at (ap_primary a1)" "fl_size fa = fl_size (ap_primary a1)" "v = span (ap_primary a1) src n"
    using fa by (auto simp: ultrawidelock_flash_read_def split: if_splits list.splits option.splits)
  show "combiner_ok a'" using v(2) unfolding a' by (simp add: combiner_ok_def blank_def)
  have "view a' = view a" using v(1,2) c(1) view_flushed [of a'] view_flushed [of a1] unfolding a' by simp
  then show "plain a' = plain a" using v c unfolding plain_def a' by simp
  show "v = span (ap_primary (plain a)) src n"
    using c(3) v(1) view_flushed [OF v(2)] by (simp add: plain_def span_def)
qed

lemma mem_write_plain:
  assumes k: "combiner_ok a" and w: "mem_write a dst b = (a', True)" and fit: "dst + length b \<le> unat (fl_size (ap_primary a))"
    and fresh: "\<forall>i\<in>{dst..<dst + length b}. view a i = 0xff"
  shows "combiner_ok a'" and "plain a' = (plain a)\<lparr>ap_primary := (ap_primary (plain a))\<lparr>fl_at := put_bytes (view a) dst b\<rparr>\<rparr>"
proof -
  let ?d = "of_nat dst :: u32"
  have u: "unat ?d = dst" using fit unsigned_less [of "fl_size (ap_primary a)", where ?'a = nat] by (simp add: unat_of_nat)
  obtain a1 where a1: "(if w_buf a \<noteq> [] \<and> ?d \<noteq> w_addr a + of_nat (length (w_buf a)) then wbuf_flush_all a else (a, True)) = (a1, True)"
    and l: "mem_write_loop (if w_buf a1 = [] then a1\<lparr>w_addr := ?d\<rparr> else a1) b = (a', True)"
    using w by (auto simp: mem_write_def split: prod.splits bool.splits)
  let ?a2 = "if w_buf a1 = [] then a1\<lparr>w_addr := ?d\<rparr> else a1"
  have near: "near_ok a" using k by (simp add: combiner_near)
  have cases1: "a1 = a \<and> (w_buf a = [] \<or> ?d = w_addr a + of_nat (length (w_buf a))) \<or> wbuf_flush_all a = (a1, True)"
    using a1 by (auto split: if_splits)
  have v1: "view a1 = view a" "ap_staging a1 = ap_staging a" "fl_size (ap_primary a1) = fl_size (ap_primary a)" "combiner_ok a1"
    using cases1 k flush_all_view [OF near, of a1] by (auto simp: combiner_ok_def blank_def)
  have e: "unat (w_addr ?a2) + length (w_buf ?a2) = dst"
  proof (cases "w_buf a1 = []")
    case False
    then have "a1 = a" "?d = w_addr a + of_nat (length (w_buf a))"
      using cases1 flush_all_view [OF near, of a1] by auto
    moreover have "unat (w_addr a) + length (w_buf a) \<le> unat (fl_size (ap_primary a))" using k False calculation(1) by (auto simp: combiner_ok_def)
    ultimately show ?thesis using False u unat_add_small [of "w_addr a" "length (w_buf a)" "fl_size (ap_primary a)"] by simp
  qed (use u in simp)
  have v2: "view ?a2 = view a" using v1(1) view_flushed [of a1] view_flushed [of "a1\<lparr>w_addr := ?d\<rparr>"] by simp
  have k2: "combiner_ok ?a2" using v1(4) by (auto simp: combiner_ok_def blank_def)
  have "blank (ap_primary ?a2) dst (dst + length b)"
    unfolding blank_def
  proof
    fix i
    assume i: "i \<in> {dst..<dst + length b}"
    then have "view ?a2 i = fl_at (ap_primary ?a2) i" using e by (intro view_beyond) auto
    then show "fl_at (ap_primary ?a2) i = 0xff" using fresh i v2 by simp
  qed
  then have "view a' = put_bytes (view a) dst b \<and> combiner_ok a' \<and> ap_staging a' = ap_staging a \<and> fl_size (ap_primary a') = fl_size (ap_primary a)"
    using combine_spec [OF l k2] fit v1 v2 unfolding e by (auto split: if_splits)
  then show "combiner_ok a'" and "plain a' = (plain a)\<lparr>ap_primary := (ap_primary (plain a))\<lparr>fl_at := put_bytes (view a) dst b\<rparr>\<rparr>"
    by (auto simp: plain_def)
qed

lemma mem_erase_plain:
  assumes k: "combiner_ok a" and r: "mem_erase a addr n = (a', True)"
  shows "combiner_ok a'" and "plain a' = (plain a)\<lparr>ap_primary := set_range (ap_primary (plain a)) addr (round_up n) (\<lambda>_. 0xff)\<rparr>"
proof -
  obtain a1 where f: "wbuf_flush_all a = (a1, True)" using r by (auto simp: mem_erase_def split: prod.splits bool.splits)
  have v: "view a1 = view a" "w_buf a1 = []" "ap_staging a1 = ap_staging a" "fl_size (ap_primary a1) = fl_size (ap_primary a)"
    using flush_all_view [OF _ f] k by (auto simp: combiner_near)
  have le: "addr + round_up n \<le> unat (fl_size (ap_primary a1))" using r f by (auto simp: mem_erase_def split: if_splits)
  then have u: "unat (of_nat addr :: u32) = addr"
    using unsigned_less [of "fl_size (ap_primary a1)", where ?'a = nat] by (simp add: unat_of_nat)
  obtain fa where fa: "ultrawidelock_flash_erase (ap_primary a1) addr (round_up n) = (fa, True)" and a': "a' = a1\<lparr>ap_primary := fa\<rparr>"
    using r f u by (auto simp: mem_erase_def split: prod.splits if_splits)
  have c: "fl_at fa = fl_at (set_range (ap_primary a1) addr (round_up n) (\<lambda>_. 0xff))" "fl_size fa = fl_size (ap_primary a1)"
    using fa by (auto simp: ultrawidelock_flash_erase_def set_range_def fun_eq_iff split: if_splits list.splits option.splits)
  show "combiner_ok a'" using v(2) unfolding a' by (simp add: combiner_ok_def blank_def)
  have "view a' = fl_at fa" using v(2) view_flushed [of a'] unfolding a' by simp
  then show "plain a' = (plain a)\<lparr>ap_primary := set_range (ap_primary (plain a)) addr (round_up n) (\<lambda>_. 0xff)\<rparr>"
    using v c view_flushed [OF v(2)] unfolding plain_def a' by (simp add: set_range_def fun_eq_iff)
qed

lemma step_set_plain: "step_set a step = (a', ok) \<Longrightarrow> step_set (plain a) step = (plain a', ok) \<and> (combiner_ok a' = combiner_ok a)"
  by (auto simp: step_set_def plain_def split: if_splits prod.splits)

lemma step_scan_plain: "step_scan a i n = (a', v) \<Longrightarrow> step_scan (plain a) i n = (plain a', v) \<and> (combiner_ok a' = combiner_ok a)"
proof (induction n arbitrary: a i)
  case (Suc n)
  obtain fa w where r: "ultrawidelock_flash_read (ap_staging a) (DFU_STEP_OFFSET + i * 4) 4 = (fa, w)"
    by (cases "ultrawidelock_flash_read (ap_staging a) (DFU_STEP_OFFSET + i * 4) 4")
  have p: "(plain a)\<lparr>ap_staging := fa\<rparr> = plain (a\<lparr>ap_staging := fa\<rparr>)" "ap_staging (plain a) = ap_staging a"
    by (simp_all add: plain_def)
  show ?case using Suc(2) Suc.IH [of "a\<lparr>ap_staging := fa\<rparr>" "Suc i"] r p by (cases w) (auto split: if_splits)
qed simp

lemma serve_plain:
  "combiner_ok a \<Longrightarrow> smooth e a \<Longrightarrow> serve e a = (a', r) \<Longrightarrow> direct e (plain a) = (plain a', r) \<and> combiner_ok a'"
proof (induction e arbitrary: a)
  case (Ret x)
  then show ?case by simp
next
  case (Ask_Read src n k)
  obtain a1 v where m: "mem_read a src n = (a1, Some v)" and s: "src < 2 ^ 32" "smooth (k (Some v)) a1"
    using Ask_Read.prems(2) by (auto split: prod.splits)
  note p = mem_read_plain [OF Ask_Read.prems(1) m s(1)]
  show ?case using Ask_Read.IH [OF _ p(1) s(2)] Ask_Read.prems(3) m p(2,3) by simp
next
  case (Ask_Write dst b k)
  obtain a1 where m: "mem_write a dst b = (a1, True)" and s: "dst + length b \<le> unat (fl_size (ap_primary a))"
    "\<forall>i\<in>{dst..<dst + length b}. view a i = 0xff" "smooth (k True) a1"
    using Ask_Write.prems(2) by (auto split: prod.splits)
  note p = mem_write_plain [OF Ask_Write.prems(1) m s(1,2)]
  have "fl_at (ap_primary (plain a)) = view a" by (simp add: plain_def)
  then show ?case using Ask_Write.IH [OF _ p(1) s(3)] Ask_Write.prems(3) m p(2) by simp
next
  case (Ask_Erase addr n k)
  obtain a1 where m: "mem_erase a addr n = (a1, True)" and s: "smooth (k True) a1"
    using Ask_Erase.prems(2) by (auto split: prod.splits)
  note p = mem_erase_plain [OF Ask_Erase.prems(1) m]
  show ?case using Ask_Erase.IH [OF _ p(1) s] Ask_Erase.prems(3) m p(2) by simp
next
  case (Ask_Step_Set step k)
  obtain a1 ok where m: "step_set a step = (a1, ok)" by (cases "step_set a step")
  show ?case using Ask_Step_Set.IH [of "k ok" a1] Ask_Step_Set.prems step_set_plain [OF m] m by simp
next
  case (Ask_Step_Get k)
  obtain a1 v where m: "step_get a = (a1, v)" by (cases "step_get a")
  show ?case
    using Ask_Step_Get.IH [of "k v" a1] Ask_Step_Get.prems step_scan_plain [OF m [unfolded step_get_def]] m
    by (simp add: step_get_def)
qed

end
