(* ===== verification/Dfu_Boot.thy ===== *)
theory Dfu_Boot
  imports Dfu_Combiner
begin

text \<open>
  What the bootloader checks before it lets the patch engine touch the primary slot, and the step log that
  tells it where to resume.
\<close>

section \<open>Reading\<close>

definition same_bytes :: "flash \<Rightarrow> flash \<Rightarrow> bool" where
  "same_bytes fa fb \<longleftrightarrow> fl_size fb = fl_size fa \<and> fl_at fb = fl_at fa"

lemma same_bytes_refl [simp]: "same_bytes fa fa"
  by (simp add: same_bytes_def)

lemma same_bytes_trans: "same_bytes a b \<Longrightarrow> same_bytes b c \<Longrightarrow> same_bytes a c"
  by (simp add: same_bytes_def)

lemma same_span: "same_bytes fa fb \<Longrightarrow> span fb off n = span fa off n"
  by (simp add: same_bytes_def span_def)

lemma flash_read_same:
  assumes "ultrawidelock_flash_read fa off n = (fb, v)"
  shows "same_bytes fa fb" and "v = Some b \<Longrightarrow> b = span fa off n"
  using assms by (auto simp: ultrawidelock_flash_read_def same_bytes_def split: if_splits list.splits option.splits)

lemma flash_read_done: "fl_io fa = [] \<Longrightarrow> off + n \<le> unat (fl_size fa) \<Longrightarrow> ultrawidelock_flash_read fa off n = (fa, Some (span fa off n))"
  by (auto simp: ultrawidelock_flash_read_def in_bounds_def)

lemma area_crc32_loop_same:
  "area_crc32_loop fa off len crc = (fb, r) \<Longrightarrow>
   same_bytes fa fb \<and> (\<forall>c. r = Some c \<longrightarrow> c = ultrawidelock_crc32_update crc (span fa off len))"
proof (induction len arbitrary: fa off crc rule: less_induct)
  case (less len)
  show ?case
  proof (cases "len = 0")
    case True
    then show ?thesis using less.prems by (auto simp: area_crc32_loop.simps [of _ _ 0] ultrawidelock_crc32_update_def)
  next
    case False
    let ?n = "min APPLIER_CHUNK len"
    obtain f1 v where r: "ultrawidelock_flash_read fa off ?n = (f1, v)" by (cases "ultrawidelock_flash_read fa off ?n")
    note s = flash_read_same [OF r]
    show ?thesis
    proof (cases v)
      case None
      then show ?thesis using less.prems False r s(1) by (simp add: area_crc32_loop.simps [of fa off len crc] Let_def)
    next
      case (Some b)
      then have "area_crc32_loop f1 (off + ?n) (len - ?n) (ultrawidelock_crc32_update crc b) = (fb, r)"
        using less.prems False r by (simp add: area_crc32_loop.simps [of fa off len crc] Let_def)
      from less.IH [OF _ this] False have ih: "same_bytes f1 fb"
        "\<forall>c. r = Some c \<longrightarrow> c = ultrawidelock_crc32_update (ultrawidelock_crc32_update crc b) (span f1 (off + ?n) (len - ?n))"
        by auto
      have "span fa off len = b @ span f1 (off + ?n) (len - ?n)"
        using s Some span_append [of fa off ?n "len - ?n"] same_span [OF s(1)] by simp
      then show ?thesis using ih s(1) same_bytes_trans by (auto simp: crc32_chain)
    qed
  qed
qed

lemma area_crc32_same:
  assumes "area_crc32 fa off len = (fb, r)"
  shows "same_bytes fa fb" and "r = Some c \<Longrightarrow> c = ultrawidelock_crc32 (span fa off len)"
  using area_crc32_loop_same [OF assms [unfolded area_crc32_def]] by (auto simp: ultrawidelock_crc32_def)

lemma area_crc32_loop_done:
  "fl_io fa = [] \<Longrightarrow> off + len \<le> unat (fl_size fa) \<Longrightarrow>
   area_crc32_loop fa off len crc = (fa, Some (ultrawidelock_crc32_update crc (span fa off len)))"
proof (induction len arbitrary: off crc rule: less_induct)
  case (less len)
  show ?case
  proof (cases "len = 0")
    case True
    then show ?thesis by (simp add: area_crc32_loop.simps [of _ _ 0] ultrawidelock_crc32_update_def)
  next
    case False
    let ?n = "min APPLIER_CHUNK len"
    have r: "ultrawidelock_flash_read fa off ?n = (fa, Some (span fa off ?n))" using less.prems by (intro flash_read_done) auto
    have "off + ?n + (len - ?n) \<le> unat (fl_size fa)" using less.prems(2) by simp
    from less.IH [OF _ less.prems(1) this] False r show ?thesis
      using span_append [of fa off ?n "len - ?n"] by (simp add: area_crc32_loop.simps [of fa off len crc] crc32_chain Let_def)
  qed
qed

lemma area_crc32_done:
  "fl_io fa = [] \<Longrightarrow> off + len \<le> unat (fl_size fa) \<Longrightarrow> area_crc32 fa off len = (fa, Some (ultrawidelock_crc32 (span fa off len)))"
  by (simp add: area_crc32_def area_crc32_loop_done ultrawidelock_crc32_def)

section \<open>The step log\<close>

lemma step_scan_same:
  "step_scan a i k = (a', v) \<Longrightarrow>
   ap_primary a' = ap_primary a \<and> w_addr a' = w_addr a \<and> w_buf a' = w_buf a \<and> same_bytes (ap_staging a) (ap_staging a') \<and>
   (\<forall>n. v = Some n \<longrightarrow> i \<le> n \<and> n \<le> i + k \<and>
      (n < i + k \<longrightarrow> sys_get_le32 (span (ap_staging a) (DFU_STEP_OFFSET + n * 4) 4) = DFU_STEP_ERASED) \<and>
      (\<forall>j\<in>{i..<n}. sys_get_le32 (span (ap_staging a) (DFU_STEP_OFFSET + j * 4) 4) \<noteq> DFU_STEP_ERASED))"
proof (induction k arbitrary: a i)
  case 0
  then show ?case by auto
next
  case (Suc k)
  obtain fa w where r: "ultrawidelock_flash_read (ap_staging a) (DFU_STEP_OFFSET + i * 4) 4 = (fa, w)"
    by (cases "ultrawidelock_flash_read (ap_staging a) (DFU_STEP_OFFSET + i * 4) 4")
  note s = flash_read_same [OF r]
  show ?case
  proof (cases "w = None \<or> sys_get_le32 (the w) = DFU_STEP_ERASED")
    case True
    then show ?thesis using Suc.prems r s by (auto split: option.splits)
  next
    case False
    then obtain b where b: "w = Some b" "sys_get_le32 b \<noteq> DFU_STEP_ERASED" by auto
    then have "step_scan (a\<lparr>ap_staging := fa\<rparr>) (Suc i) k = (a', v)" using Suc.prems r by simp
    note ih = Suc.IH [OF this]
    have sp: "span fa x 4 = span (ap_staging a) x 4" for x using same_span [OF s(1)] .
    have first: "sys_get_le32 (span (ap_staging a) (DFU_STEP_OFFSET + i * 4) 4) \<noteq> DFU_STEP_ERASED" using b s(2) by simp
    have "{i..<n} = insert i {Suc i..<n}" if "Suc i \<le> n" for n using that by auto
    then show ?thesis using ih s(1) same_bytes_trans first by (auto simp: sp)
  qed
qed

definition log_holds :: "nat \<Rightarrow> flash \<Rightarrow> bool" where
  "log_holds n fa \<longleftrightarrow>
     fl_io fa = [] \<and> 2 * FLASH_PAGE_SIZE \<le> unat (fl_size fa) \<and> n \<le> STEP_MAX \<and>
     (\<forall>j<n. span fa (DFU_STEP_OFFSET + j * 4) 4 = sys_put_le32 (of_nat (Suc j))) \<and> blank fa (DFU_STEP_OFFSET + n * 4) (2 * FLASH_PAGE_SIZE)"

lemma step_set_log:
  assumes l: "log_holds n (ap_staging a)" and n: "n < STEP_MAX"
  shows "\<exists>fa. step_set a (int (Suc n)) = (a\<lparr>ap_staging := fa\<rparr>, True) \<and> log_holds (Suc n) fa"
proof -
  let ?v = "sys_put_le32 (of_nat (Suc n))" and ?o = "DFU_STEP_OFFSET + n * 4"
  have fit: "?o + length ?v \<le> unat (fl_size (ap_staging a))" using l n by (simp add: log_holds_def)
  obtain fa where w: "ultrawidelock_flash_write (ap_staging a) ?o ?v = (fa, True)" "fl_io fa = []"
    using flash_write_done [OF _ fit] l by (auto simp: log_holds_def mod_simps)
  have bl: "blank (ap_staging a) ?o (?o + length ?v)" using l n by (auto simp: log_holds_def blank_def)
  note f = flash_write_frame [OF w(1)] flash_write_ok(1) [OF w(1) bl]
  have "span fa (DFU_STEP_OFFSET + j * 4) 4 = sys_put_le32 (of_nat (Suc j))" if "j < Suc n" for j
  proof (cases "j = n")
    case False
    have "span fa (DFU_STEP_OFFSET + j * 4) 4 = span (ap_staging a) (DFU_STEP_OFFSET + j * 4) 4"
      by (rule span_cong) (use f(2) that False in simp)
    then show ?thesis using l that False by (simp add: log_holds_def)
  qed (use f(3) in simp)
  moreover have "blank fa (DFU_STEP_OFFSET + Suc n * 4) (2 * FLASH_PAGE_SIZE)" using l f(2) by (auto simp: log_holds_def blank_def)
  ultimately have "log_holds (Suc n) fa" using l n w(2) f(1) by (simp add: log_holds_def)
  moreover have e: "word_of_int (int (Suc n)) = (of_nat (Suc n) :: u32)" by simp
  have "step_set a (int (Suc n)) = (a\<lparr>ap_staging := fa\<rparr>, True)" using w(1) n by (simp add: step_set_def e del: of_nat_Suc)
  ultimately show ?thesis by blast
qed

lemma blank_word: "blank fa x (x + 4) \<Longrightarrow> sys_get_le32 (span fa x 4) = DFU_STEP_ERASED"
proof -
  assume b: "blank fa x (x + 4)"
  have "span fa x 4 = replicate 4 0xff" using b by (intro replicate_eqI) (auto simp: span_def blank_def)
  moreover have "sys_get_le32 (replicate 4 0xff) = DFU_STEP_ERASED" by code_simp
  ultimately show ?thesis by (simp only:)
qed

lemma log_read:
  assumes l: "log_holds n (ap_staging a)"
  shows "snd (step_get a) = Some n"
proof -
  have word: "sys_get_le32 (span (ap_staging a) (DFU_STEP_OFFSET + i * 4) 4) = of_nat (Suc i)" if "i < n" for i
    using l that by (simp add: log_holds_def)
  have small: "(of_nat (Suc i) :: u32) \<noteq> DFU_STEP_ERASED" if "i < STEP_MAX" for i
  proof
    assume "(of_nat (Suc i) :: u32) = DFU_STEP_ERASED"
    then have "unat (of_nat (Suc i) :: u32) = unat DFU_STEP_ERASED" by simp
    then show False using that by (simp add: unat_of_nat del: of_nat_Suc)
  qed
  have end': "sys_get_le32 (span (ap_staging a) (DFU_STEP_OFFSET + n * 4) 4) = DFU_STEP_ERASED" if "n < STEP_MAX"
  proof -
    have "blank (ap_staging a) (DFU_STEP_OFFSET + n * 4) (DFU_STEP_OFFSET + n * 4 + 4)"
      using l that by (auto simp: log_holds_def blank_def)
    then show ?thesis by (rule blank_word)
  qed
  have "step_scan a i k = (a, Some n)" if "i \<le> n" "i + k = STEP_MAX" for i k
    using that
  proof (induction k arbitrary: i)
    case 0
    then show ?case using l by (simp add: log_holds_def)
  next
    case (Suc k)
    have r: "ultrawidelock_flash_read (ap_staging a) (DFU_STEP_OFFSET + i * 4) 4 =
        (ap_staging a, Some (span (ap_staging a) (DFU_STEP_OFFSET + i * 4) 4))"
      using l Suc.prems by (intro flash_read_done) (auto simp: log_holds_def)
    show ?case
    proof (cases "i = n")
      case True
      then show ?thesis using r end' Suc.prems by simp
    next
      case False
      then show ?thesis using r Suc.IH [of "Suc i"] Suc.prems word [of i] small [of i] by simp
    qed
  qed
  then show ?thesis by (simp add: step_get_def)
qed

section \<open>The gate in front of the engine\<close>

lemma fresh_checks_same:
  assumes "fresh_checks a hdr = (a', ok)"
  shows "same_bytes (ap_primary a) (ap_primary a')" and "same_bytes (ap_staging a) (ap_staging a')"
    and "ok \<Longrightarrow> ultrawidelock_crc32 (span (ap_staging a) DFU_PATCH_OFFSET (unat (hdr_patch_len hdr))) = hdr_patch_crc32 hdr \<and>
               ultrawidelock_crc32 (span (ap_primary a) 0 (unat (hdr_from_len hdr))) = hdr_from_crc32 hdr \<and>
               hdr_from_len hdr \<le> fl_size (ap_primary a)"
proof -
  obtain fs c where cs: "area_crc32 (ap_staging a) DFU_PATCH_OFFSET (unat (hdr_patch_len hdr)) = (fs, c)"
    by (cases "area_crc32 (ap_staging a) DFU_PATCH_OFFSET (unat (hdr_patch_len hdr))")
  obtain fp c2 where cp: "area_crc32 (ap_primary a) 0 (unat (hdr_from_len hdr)) = (fp, c2)"
    by (cases "area_crc32 (ap_primary a) 0 (unat (hdr_from_len hdr))")
  note s = area_crc32_same [OF cs] and p = area_crc32_same [OF cp]
  show "same_bytes (ap_primary a) (ap_primary a')" "same_bytes (ap_staging a) (ap_staging a')"
    using assms s(1) p(1) unfolding fresh_checks_def cs cp by (auto split: if_splits)
  show "ultrawidelock_crc32 (span (ap_staging a) DFU_PATCH_OFFSET (unat (hdr_patch_len hdr))) = hdr_patch_crc32 hdr \<and>
        ultrawidelock_crc32 (span (ap_primary a) 0 (unat (hdr_from_len hdr))) = hdr_from_crc32 hdr \<and>
        hdr_from_len hdr \<le> fl_size (ap_primary a)" if ok
    using assms that s(2) p(2) unfolding fresh_checks_def cs cp by (auto split: if_splits)
qed

lemma staging_consume_primary [simp]: "ap_primary (staging_consume a) = ap_primary a"
  by (simp add: staging_consume_def)

end
