(* ===== verification/Dfu_Theorems.thy ===== *)
theory Dfu_Theorems
  imports Dfu_Upload Dfu_Boot
begin

text \<open>
  What the delta update promises end to end, over every run of the receiver and every boot, and where it
  falls short of what its comments say.
\<close>

section \<open>A concrete update\<close>

definition demo_patch :: bytes where "demo_patch = [1, 2, 3]"

definition demo_hdr :: bytes where "demo_hdr = make_hdr 0 demo_patch 3 (ultrawidelock_crc32 []) 0"

definition demo_sig :: bytes where "demo_sig = replicate DFU_SIG_LEN 1"

definition demo_stream :: bytes where "demo_stream = demo_hdr @ demo_sig @ demo_patch"

definition demo_build :: dfu_build where
  "demo_build = \<lparr>db_verify = (\<lambda>k m s. k = [9] \<and> s = demo_sig), db_pubkey = [9]\<rparr>"

definition demo_env :: dfu_env where
  "demo_env = \<lparr>de_now = 0, de_prim_init = True, de_flash_open = True, de_io = []\<rparr>"

definition demo_flash :: flash where
  "demo_flash = \<lparr>fl_size = 0xa000, fl_at = (\<lambda>_. 0xff), fl_io = []\<rparr>"

definition demo_open :: dfu where
  "demo_open = dfu_after demo_build demo_flash [(demo_env, Dfu_Open 300000)]"

definition demo_pieces :: "piece list" where
  "demo_pieces = [Next (take 40 demo_stream), Stale 0 (take 40 demo_stream), Next (drop 40 demo_stream)]"

definition demo_run :: "(dfu_env \<times> dfu_event) list" where
  "demo_run = (demo_env, Dfu_Open 300000) # sends demo_env OWNER_TEST (upload_frames 7 demo_stream demo_pieces)"

lemma demo_open_eq:
  "demo_open = (dfu_boot demo_flash)\<lparr>s_open := True, s_window_deadline_ms := 300000, s_window_timer := Some 300000\<rparr>"
  by (simp add: demo_open_def dfu_after_def dfu_step_def ultrawidelock_dfu_window_open_def window_notify_def dfu_boot_def demo_env_def demo_flash_def)

lemma demo_lengths: "length demo_patch = 3" "length demo_sig = DFU_SIG_LEN" "length demo_stream = 99"
  by (simp_all add: demo_patch_def demo_sig_def demo_stream_def demo_hdr_def)

lemma demo_facts:
  "ready demo_open (length demo_patch)" "willing demo_env" "db_verify demo_build (db_pubkey demo_build) demo_hdr demo_sig"
  "s_commit_cb demo_open = None"
  by (simp_all add: ready_def demo_open_eq dfu_boot_def rx_zero_def demo_flash_def demo_patch_def willing_def demo_env_def demo_build_def)

lemma demo_pieces_facts: "pieces_ok 0 demo_pieces" "stream_of demo_pieces = demo_stream"
  by (simp_all add: demo_pieces_def demo_lengths)

lemma demo_upload:
  "\<exists>d'. run_steps (dfu_step demo_build) demo_open (sends demo_env OWNER_TEST (upload_frames 7 demo_stream demo_pieces)) =
         (d', ok_reply 7 0 # piece_acks 7 0 demo_pieces @ [ok_reply 7 99]) \<and>
       s_reboot d' \<and> rx_staged (s_rx d') \<and> complete demo_build (s_staging d') demo_hdr demo_sig \<and>
       span (s_staging d') DFU_PATCH_OFFSET 3 = demo_patch"
  using upload_stages [of demo_stream 0 demo_patch 3 "ultrawidelock_crc32 []" 0 demo_sig demo_build demo_open OWNER_TEST 7 demo_env demo_pieces,
      folded demo_hdr_def, OF demo_stream_def demo_lengths(2) demo_facts(3,1) _ _ demo_facts(2) demo_pieces_facts]
    demo_facts(4) demo_lengths by simp

lemma demo_run_after:
  "dfu_after demo_build demo_flash demo_run =
     fst (run_steps (dfu_step demo_build) demo_open (sends demo_env OWNER_TEST (upload_frames 7 demo_stream demo_pieces)))"
  by (simp add: dfu_after_def demo_run_def demo_open_def fst_run_steps_Cons del: run_steps.simps(2))

lemma demo_run_ends: "rx_staged (s_rx (dfu_after demo_build demo_flash demo_run)) \<and>
    complete demo_build (s_staging (dfu_after demo_build demo_flash demo_run)) demo_hdr demo_sig"
  unfolding demo_run_after using demo_upload by auto

lemma demo_run_calm: "list_all calm demo_run" "list_all (\<lambda>x. tame (de_io (fst x))) demo_run"
  by (auto simp: demo_run_def sends_def list_all_iff calm_def tame_def demo_env_def)

section \<open>The receiver\<close>






definition demo_part :: "(dfu_env \<times> dfu_event) list" where
  "demo_part = (demo_env, Dfu_Open 300000) # sends demo_env OWNER_TEST [begin_frame 7 99, data_frame 7 0 (take 40 demo_stream)]"

lemma demo_part_active: "rx_active (s_rx (dfu_after demo_build demo_flash demo_part))"
proof -
  have r: "ready demo_open (length demo_stream - HEAD_LEN)" using demo_facts(1) demo_lengths by simp
  have v: "db_verify demo_build (db_pubkey demo_build) (take DFU_HDR_LEN demo_stream) (take DFU_SIG_LEN (drop DFU_HDR_LEN demo_stream))"
    using demo_facts(3) by (simp add: demo_stream_def demo_hdr_def demo_sig_def)
  obtain d1 where d1: "dfu_step demo_build demo_open (demo_env, Dfu_Frame OWNER_TEST (begin_frame 7 99)) = (d1, ok_reply 7 0)"
    "uploading demo_build demo_stream 0 d1" "mine OWNER_TEST 7 d1"
    using begin_done [OF r _ _ demo_facts(2), of OWNER_TEST 7 demo_build] demo_lengths by auto
  obtain d2 where "dfu_step demo_build d1 (demo_env, Dfu_Frame OWNER_TEST (data_frame 7 0 (take 40 demo_stream))) = (d2, ok_reply 7 40)"
    "uploading demo_build demo_stream 40 d2"
    using next_step [OF d1(2,3) _ demo_facts(2) v, of "take 40 demo_stream" "drop 40 demo_stream"] demo_lengths by auto
  moreover have "fst (dfu_step demo_build (dfu_boot demo_flash) (demo_env, Dfu_Open 300000)) = demo_open"
    unfolding demo_open_def dfu_after_def fst_run_steps_Cons by simp
  ultimately show ?thesis
    using d1(1) unfolding dfu_after_def demo_part_def sends_def list.map fst_run_steps_Cons by (simp add: uploading_def)
qed




text \<open>C19: An honest upload is staged: with the window open, no transfer under way and a willing flash, the frames of
  an update signed under the built-in key, cut into any chunks and mixed with any number of frames at
  stale offsets (retransmissions after lost replies), are all acknowledged with the offset reached; the
  commit then leaves exactly this header and this patch in the partition, calls it staged and arms the
  reboot.\<close>

theorem honest_upload_is_staged:
  assumes "S = make_hdr fl patch t c l @ sg @ patch" "length sg = DFU_SIG_LEN"
    and "db_verify B (db_pubkey B) (make_hdr fl patch t c l) sg"
    and "ready d (length patch)" "owner \<noteq> OWNER_NONE" "tid \<noteq> 0" "willing E"
    and "pieces_ok 0 ps" "stream_of ps = S"
    and "case s_commit_cb d of None \<Rightarrow> True | Some f \<Rightarrow> f (hdr_of (make_hdr fl patch t c l))"
  shows "\<exists>d'. run_steps (dfu_step B) d (sends E owner (upload_frames tid S ps)) =
               (d', ok_reply tid 0 # piece_acks tid 0 ps @ [ok_reply tid (length S)]) \<and>
         s_reboot d' \<and> rx_staged (s_rx d') \<and> complete B (s_staging d') (make_hdr fl patch t c l) sg \<and>
         span (s_staging d') DFU_PATCH_OFFSET (length patch) = patch"
  by (rule upload_stages [OF assms])

theorem honest_upload_is_staged_witness:
  "ready demo_open (length demo_patch) \<and> willing demo_env \<and> pieces_ok 0 demo_pieces \<and>
   (\<exists>d'. run_steps (dfu_step demo_build) demo_open (sends demo_env OWNER_TEST (upload_frames 7 demo_stream demo_pieces)) =
           (d', ok_reply 7 0 # piece_acks 7 0 demo_pieces @ [ok_reply 7 99]) \<and> rx_staged (s_rx d'))"
  using honest_upload_is_staged [of demo_stream 0 demo_patch 3 "ultrawidelock_crc32 []" 0 demo_sig demo_build demo_open OWNER_TEST 7 demo_env demo_pieces,
      folded demo_hdr_def, OF demo_stream_def demo_lengths(2) demo_facts(3,1) _ _ demo_facts(2) demo_pieces_facts]
    demo_facts demo_lengths demo_pieces_facts by auto

text \<open>A failed abort leaves the transfer in place: when the erase of an ABORT fails, the peer is told so, but the
  receiver still calls the update staged although the header page now holds whatever the torn erase left;
  the COMMIT that follows is acknowledged and arms the reboot without looking at the partition.\<close>

theorem failed_abort_stays_staged:
  assumes "s_open d" "s_fa d" "rx_staged (s_rx d)" "rx_owner (s_rx d) = owner" "rx_transfer_id (s_rx d) = tid"
    and "0 < fl_size (s_staging d)" "unat (fl_size (s_staging d)) mod FLASH_PAGE_SIZE = 0" "de_io E = [Some junk]" "de_io E' = []"
  shows "\<exists>d1 d2. run_steps (dfu_step B) d [(E, Dfu_Frame owner (OP_ABORT # sys_put_le32 tid)), (E', Dfu_Frame owner (OP_COMMIT # sys_put_le32 tid))] =
            (d2, [Reply (reply_err ERR_FLASH), Reply (reply_ok d1 tid)]) \<and>
          rx_staged (s_rx d2) \<and> s_reboot d2 \<and>
          span (s_staging d2) 0 (unat (fl_size (s_staging d))) = map junk [0..<unat (fl_size (s_staging d))]"
proof -
  let ?n = "unat (fl_size (s_staging d))"
  have nz: "?n \<noteq> 0" using assms(6) by (simp add: unat_gt_0)
  let ?d1 = "d\<lparr>s_staging := set_range ((s_staging d)\<lparr>fl_io := []\<rparr>) 0 ?n junk\<rparr>"
  have er: "ultrawidelock_flash_erase ((s_staging d)\<lparr>fl_io := [Some junk]\<rparr>) 0 ?n = (set_range ((s_staging d)\<lparr>fl_io := []\<rparr>) 0 ?n junk, False)"
    using nz assms(7) by (simp add: ultrawidelock_flash_erase_def in_bounds_def)
  have 1: "dfu_step B d (E, Dfu_Frame owner (OP_ABORT # sys_put_le32 tid)) = (?d1, Reply (reply_err ERR_FLASH))"
    using assms er by (simp add: dfu_step_def ultrawidelock_dfu_rx_frame_def do_abort_def rx_erase_locked_def staging_open_def)
  have io: "s_staging ?d1\<lparr>fl_io := []\<rparr> = s_staging ?d1" by (simp add: set_range_def)
  have 2: "dfu_step B ?d1 (E', Dfu_Frame owner (OP_COMMIT # sys_put_le32 tid)) = (?d1\<lparr>s_reboot := True\<rparr>, Reply (reply_ok ?d1 tid))"
    using assms io by (simp add: dfu_step_def ultrawidelock_dfu_rx_frame_def do_commit_def commit_now_def reply_ok_def)
  have "span (s_staging ?d1) 0 ?n = map junk [0..<?n]" by (simp add: span_def set_range_def)
  then show ?thesis using 1 2 assms(3) by (intro exI [of _ ?d1] exI [of _ "?d1\<lparr>s_reboot := True\<rparr>"]) simp
qed

theorem failed_abort_stays_staged_witness:
  "\<exists>d2 r. run_steps (dfu_step demo_build) (demo_open\<lparr>s_fa := True, s_rx := rx_zero\<lparr>rx_staged := True, rx_owner := OWNER_TEST, rx_transfer_id := 7\<rparr>\<rparr>)
            [(demo_env\<lparr>de_io := [Some (\<lambda>_. 0)]\<rparr>, Dfu_Frame OWNER_TEST (OP_ABORT # sys_put_le32 7)), (demo_env, Dfu_Frame OWNER_TEST (OP_COMMIT # sys_put_le32 7))] =
          (d2, [Reply (reply_err ERR_FLASH), r]) \<and> s_reboot d2"
  using failed_abort_stays_staged [of "demo_open\<lparr>s_fa := True, s_rx := rx_zero\<lparr>rx_staged := True, rx_owner := OWNER_TEST, rx_transfer_id := 7\<rparr>\<rparr>"
      OWNER_TEST 7 "demo_env\<lparr>de_io := [Some (\<lambda>_. 0)]\<rparr>" "\<lambda>_. 0" demo_env demo_build]
  by (auto simp: demo_open_eq dfu_boot_def demo_flash_def demo_env_def)

section \<open>From the receiver to the bootloader\<close>

lemma apply_complete:
  assumes c: "complete B (ap_staging a) h sg" and io: "fl_io (ap_staging a) = []" "fl_io (ap_primary a) = []"
  shows "dfu_apply D True True a =
     staging_consume (if hdr_from_len (hdr_of h) \<le> fl_size (ap_primary a) \<and>
                         ultrawidelock_crc32 (span (ap_primary a) 0 (unat (hdr_from_len (hdr_of h)))) = hdr_from_crc32 (hdr_of h)
                      then fst (patch_stream D a (hdr_of h)) else a)"
proof -
  let ?s = "ap_staging a" and ?hdr = "hdr_of h"
  have sz: "DFU_PATCH_OFFSET + unat (hdr_patch_len ?hdr) \<le> unat (fl_size ?s)" "0 < unat (hdr_patch_len ?hdr)"
    and h: "span ?s DFU_HDR_OFFSET DFU_HDR_LEN = h" "hdr_magic ?hdr = DFU_MAGIC" "hdr_abi_version ?hdr = DFU_ABI_VERSION"
      "hdr_hdr_crc32 ?hdr = ultrawidelock_crc32 (take DFU_HDR_CRC_LEN h)"
      "ultrawidelock_crc32 (span ?s DFU_PATCH_OFFSET (unat (hdr_patch_len ?hdr))) = hdr_patch_crc32 ?hdr"
    and bl: "blank ?s DFU_HDR_LEN DFU_PATCH_OFFSET"
    using c by (simp_all add: complete_def)
  have rd: "ultrawidelock_flash_read ?s DFU_HDR_OFFSET DFU_HDR_LEN = (?s, Some h)"
    using flash_read_done [OF io(1), of 0 DFU_HDR_LEN] sz(1) h(1) by simp
  have "of_nat DFU_PATCH_OFFSET \<le> fl_size ?s" using sz(1) by (simp add: word_le_nat_alt)
  then have "unat (fl_size ?s - of_nat DFU_PATCH_OFFSET) = unat (fl_size ?s) - DFU_PATCH_OFFSET" by (simp add: unat_sub)
  then have hr: "\<not> header_rejected ?s h"
    using sz h unfolding header_rejected_def by (auto simp: word_less_nat_alt)
  have log: "log_holds 0 ?s" using io(1) sz(1) bl by (auto simp: log_holds_def blank_def)
  have sg: "step_get a = (a, Some 0)"
  proof -
    have "ultrawidelock_flash_read ?s DFU_STEP_OFFSET 4 = (?s, Some (span ?s DFU_STEP_OFFSET 4))"
      using sz(1) by (intro flash_read_done io(1)) simp
    moreover have "sys_get_le32 (span ?s DFU_STEP_OFFSET 4) = DFU_STEP_ERASED"
      using bl by (intro blank_word) (auto simp: blank_def)
    moreover have e: "STEP_MAX = Suc 1023" by simp
    ultimately show ?thesis unfolding step_get_def e step_scan.simps by simp
  qed
  have "unat (hdr_from_len ?hdr) \<le> unat (fl_size (ap_primary a))" if "hdr_from_len ?hdr \<le> fl_size (ap_primary a)"
    using that by (simp add: word_le_nat_alt)
  then have fc: "fresh_checks a ?hdr = (a, hdr_from_len ?hdr \<le> fl_size (ap_primary a) \<and>
       ultrawidelock_crc32 (span (ap_primary a) 0 (unat (hdr_from_len ?hdr))) = hdr_from_crc32 ?hdr)"
    using area_crc32_done [OF io(1) sz(1)] h(5) area_crc32_done [OF io(2), of 0 "unat (hdr_from_len ?hdr)"]
    unfolding fresh_checks_def by (auto simp: linorder_not_less)
  have st: "a\<lparr>ap_staging := ?s\<rparr> = a" by simp
  show ?thesis using h(2) hr unfolding dfu_apply_def rd Let_def by (auto simp: st sg fc split: bool.split)
qed


definition demo_slot :: flash where
  "demo_slot = \<lparr>fl_size = 0x2000, fl_at = (\<lambda>_. 0), fl_io = []\<rparr>"

definition demo_boot :: applier where
  "demo_boot = \<lparr>ap_primary = demo_slot, ap_staging = (s_staging (dfu_after demo_build demo_flash demo_run))\<lparr>fl_io := []\<rparr>,
     w_addr = 0, w_buf = []\<rparr>"

definition demo_engine :: "unit detools" where
  "demo_engine = \<lparr>dt_init = (\<lambda>n. Ret (0, ())), dt_process = (\<lambda>p b. Ask_Erase 0 FLASH_PAGE_SIZE (\<lambda>ok. Ret (0, ()))),
     dt_finalize = (\<lambda>p. Ret 0)\<rparr>"

lemma demo_head: "take DFU_HDR_LEN (rx_head (s_rx (dfu_after demo_build demo_flash demo_run))) = demo_hdr"
proof -
  let ?d = "dfu_after demo_build demo_flash demo_run"
  have "rx_ok demo_build (dfu_boot demo_flash)" by (rule rx_ok_idle) (simp_all add: dfu_boot_def rx_zero_def)
  then have "rx_ok demo_build ?d" unfolding dfu_after_def using run_rx_ok demo_run_calm(1) by blast
  then have "span (s_staging ?d) DFU_HDR_OFFSET DFU_HDR_LEN = take DFU_HDR_LEN (rx_head (s_rx ?d))"
    using demo_run_ends by (simp add: rx_ok_def complete_def)
  then show ?thesis using demo_run_ends by (simp add: complete_def)
qed

lemma demo_hdr_fields: "hdr_from_len (hdr_of demo_hdr) = 0" "hdr_from_crc32 (hdr_of demo_hdr) = ultrawidelock_crc32 []"
  "hdr_patch_len (hdr_of demo_hdr) = 3"
  by (simp_all add: demo_hdr_def hdr_of_make_hdr demo_patch_def)


text \<open>C18: The bootloader changes the primary slot only for an update it has checked: whatever the two
  partitions hold, whatever flash operations fail and whatever the patch engine does, if a boot changes a
  byte of the primary slot, the staged header has the magic and passes its version, length and checksum
  tests, and either a step of this update had already been completed, or the staged patch and the image
  in the slot have exactly the checksums the header gives.\<close>

theorem slot_changes_only_after_checks:
  assumes "\<not> same_bytes (ap_primary a) (ap_primary (dfu_apply D staging_opens primary_opens a))"
  shows "let p = span (ap_staging a) DFU_HDR_OFFSET DFU_HDR_LEN in
         hdr_magic (hdr_of p) = DFU_MAGIC \<and> \<not> header_rejected (ap_staging a) p \<and>
         (sys_get_le32 (span (ap_staging a) DFU_STEP_OFFSET 4) \<noteq> DFU_STEP_ERASED \<or>
          ultrawidelock_crc32 (span (ap_staging a) DFU_PATCH_OFFSET (unat (hdr_patch_len (hdr_of p)))) = hdr_patch_crc32 (hdr_of p) \<and>
          ultrawidelock_crc32 (span (ap_primary a) 0 (unat (hdr_from_len (hdr_of p)))) = hdr_from_crc32 (hdr_of p) \<and>
          hdr_from_len (hdr_of p) \<le> fl_size (ap_primary a))"
proof -
  let ?r = "dfu_apply D staging_opens primary_opens a"
  define p where "p = span (ap_staging a) DFU_HDR_OFFSET DFU_HDR_LEN"
  obtain fa v where r: "ultrawidelock_flash_read (ap_staging a) DFU_HDR_OFFSET DFU_HDR_LEN = (fa, v)"
    by (cases "ultrawidelock_flash_read (ap_staging a) DFU_HDR_OFFSET DFU_HDR_LEN")
  note s = flash_read_same [OF r]
  let ?a1 = "a\<lparr>ap_staging := fa\<rparr>"
  obtain a2 n where g: "step_get ?a1 = (a2, n)" by (cases "step_get ?a1")
  note sc = step_scan_same [OF g [unfolded step_get_def]]
  have v: "v = Some p" "staging_opens" "primary_opens" "hdr_magic (hdr_of p) = DFU_MAGIC" "\<not> header_rejected fa p"
    and n: "n \<noteq> None"
    using assms(1) r s(2) g sc unfolding dfu_apply_def p_def Let_def by (auto split: if_splits option.splits)
  have hr: "header_rejected (ap_staging a) p = header_rejected fa p" using s(1) by (simp add: header_rejected_def same_bytes_def)
  obtain k where k: "n = Some k" using n by blast
  have "hdr_magic (hdr_of p) = DFU_MAGIC \<and> \<not> header_rejected (ap_staging a) p \<and>
         (sys_get_le32 (span (ap_staging a) DFU_STEP_OFFSET 4) \<noteq> DFU_STEP_ERASED \<or>
          ultrawidelock_crc32 (span (ap_staging a) DFU_PATCH_OFFSET (unat (hdr_patch_len (hdr_of p)))) = hdr_patch_crc32 (hdr_of p) \<and>
          ultrawidelock_crc32 (span (ap_primary a) 0 (unat (hdr_from_len (hdr_of p)))) = hdr_from_crc32 (hdr_of p) \<and>
          hdr_from_len (hdr_of p) \<le> fl_size (ap_primary a))"
  proof (cases "k = 0")
    case False
    have "\<forall>j\<in>{0..<k}. sys_get_le32 (span fa (DFU_STEP_OFFSET + j * 4) 4) \<noteq> DFU_STEP_ERASED" using sc k by simp
    from bspec [OF this, of 0] show ?thesis using False v hr same_span [OF s(1)] by (simp add: Let_def)
  next
    case True
    obtain a3 ok where f: "fresh_checks a2 (hdr_of p) = (a3, ok)" by (cases "fresh_checks a2 (hdr_of p)")
    note fc = fresh_checks_same [OF f]
    have e: "ap_primary a2 = ap_primary a" "same_bytes (ap_staging a) (ap_staging a2)"
      using sc s(1) same_bytes_trans by auto
    have ok
    proof (rule ccontr)
      assume "\<not> ok"
      then have "?r = staging_consume a3" using r v k True f g unfolding dfu_apply_def Let_def by simp
      then show False using assms(1) fc(1) e(1) by simp
    qed
    then show ?thesis
      using fc(3) v hr e same_span [OF e(2)] by simp
  qed
  then show ?thesis by (simp add: p_def Let_def)
qed

lemma demo_boot_erases: "fl_at (ap_primary (dfu_apply demo_engine True True demo_boot)) 0 = 0xff"
proof -
  let ?s = "ap_staging demo_boot"
  have c: "complete demo_build ?s demo_hdr demo_sig" using demo_run_ends by (simp add: demo_boot_def complete_def span_def blank_def)
  have e: "dfu_apply demo_engine True True demo_boot = staging_consume (fst (patch_stream demo_engine demo_boot (hdr_of demo_hdr)))"
    using apply_complete [OF c, of demo_engine] by (simp add: demo_boot_def demo_slot_def demo_hdr_fields)
  have rd: "ultrawidelock_flash_read ?s DFU_PATCH_OFFSET 3 = (?s, Some (span ?s DFU_PATCH_OFFSET 3))"
    using c by (intro flash_read_done) (simp_all add: demo_boot_def complete_def demo_hdr_fields)
  have er: "ultrawidelock_flash_erase demo_slot 0 FLASH_PAGE_SIZE = (set_range demo_slot 0 FLASH_PAGE_SIZE (\<lambda>_. 0xff), True)"
    by (simp add: ultrawidelock_flash_erase_def demo_slot_def in_bounds_def)
  let ?a = "demo_boot\<lparr>ap_primary := set_range demo_slot 0 FLASH_PAGE_SIZE (\<lambda>_. 0xff)\<rparr>"
  have me: "mem_erase demo_boot 0 FLASH_PAGE_SIZE = (?a, True)"
    using er by (simp add: mem_erase_def wbuf_flush_all_def wbuf_flush_words_def demo_boot_def round_up_def) (simp add: demo_slot_def)
  have db: "demo_boot\<lparr>w_addr := 0, w_buf := []\<rparr> = demo_boot" "demo_boot\<lparr>ap_staging := ?s\<rparr> = demo_boot" by (simp_all add: demo_boot_def)
  have "feed_engine demo_engine demo_boot () DFU_PATCH_OFFSET 3 = (?a, 0, ())"
    using rd me db(2) unfolding feed_engine.simps [of demo_engine demo_boot "()" DFU_PATCH_OFFSET 3]
    by (simp add: Let_def demo_engine_def feed_engine.simps [of _ _ _ _ 0])
  then have "patch_stream demo_engine demo_boot (hdr_of demo_hdr) = (?a, 0)"
    by (simp add: patch_stream_def demo_hdr_fields db demo_engine_def) (simp add: wbuf_flush_all_def wbuf_flush_words_def demo_boot_def)
  then show ?thesis using e by (simp add: set_range_def)
qed

theorem slot_changes_only_after_checks_witness:
  "\<not> same_bytes (ap_primary demo_boot) (ap_primary (dfu_apply demo_engine True True demo_boot)) \<and>
   hdr_magic (hdr_of (span (ap_staging demo_boot) DFU_HDR_OFFSET DFU_HDR_LEN)) = DFU_MAGIC"
proof -
  have "fl_at (ap_primary demo_boot) 0 = 0" by (simp add: demo_boot_def demo_slot_def)
  then have "\<not> same_bytes (ap_primary demo_boot) (ap_primary (dfu_apply demo_engine True True demo_boot))"
    using demo_boot_erases by (auto simp: same_bytes_def)
  then show ?thesis using slot_changes_only_after_checks [of demo_boot demo_engine True True] by (simp add: Let_def)
qed

text \<open>The step log counts: starting from an erased log, recording steps one after the other up to the
  page's capacity of 1024 leaves a log from which the bootloader reads back exactly the last step
  recorded.\<close>

theorem step_log_counts:
  assumes "log_holds 0 (ap_staging a)" "n \<le> STEP_MAX"
  shows "snd (step_get (foldl (\<lambda>a i. fst (step_set a (int i))) a [1..<Suc n])) = Some n"
proof -
  have "log_holds n (ap_staging (foldl (\<lambda>a i. fst (step_set a (int i))) a [1..<Suc n]))"
    using assms(2)
  proof (induction n)
    case 0
    then show ?case using assms(1) by simp
  next
    case (Suc n)
    let ?a = "foldl (\<lambda>a i. fst (step_set a (int i))) a [1..<Suc n]"
    obtain fa where "step_set ?a (int (Suc n)) = (?a\<lparr>ap_staging := fa\<rparr>, True)" "log_holds (Suc n) fa"
      using step_set_log [of n ?a] Suc by auto
    then show ?case by (simp del: of_nat_Suc)
  qed
  then show ?thesis by (rule log_read)
qed

theorem step_log_counts_witness:
  "log_holds 0 demo_flash \<and> snd (step_get (foldl (\<lambda>a i. fst (step_set a (int i))) (demo_boot\<lparr>ap_staging := demo_flash\<rparr>) [1..<Suc 5])) = Some 5"
  using step_log_counts [of "demo_boot\<lparr>ap_staging := demo_flash\<rparr>" 5] by (simp add: log_holds_def demo_flash_def blank_def)

text \<open>C39: A step can be recorded before its bytes are in flash: fewer than 128 bytes written with the
  combiner empty stay in RAM, and the step that follows is recorded without flushing them, so the
  primary slot is still unchanged when the log says the step is complete.\<close>

theorem step_recorded_before_its_bytes:
  assumes "w_buf a = []" "length b < AP_WBUF_SZ" "step_set (fst (mem_write a dst b)) step = (a', True)"
  shows "ap_primary a' = ap_primary a \<and> w_buf a' = b"
proof -
  have l: "mem_write_loop (a\<lparr>w_addr := of_nat dst\<rparr>) b = (a\<lparr>w_addr := of_nat dst, w_buf := b\<rparr>, True)"
    using assms(1,2) by (cases "b = []") (auto simp: mem_write_loop.simps [of "a\<lparr>w_addr := of_nat dst\<rparr>" b] mem_write_loop.simps [of _ "[]"] Let_def)
  then have "mem_write a dst b = (a\<lparr>w_addr := of_nat dst, w_buf := b\<rparr>, True)" using assms(1) by (simp add: mem_write_def)
  then show ?thesis
    using assms(3) by (auto simp: step_set_def split: if_splits prod.splits)
qed

theorem step_recorded_before_its_bytes_witness:
  "\<exists>a'. step_set (fst (mem_write (demo_boot\<lparr>ap_staging := demo_flash\<rparr>) 0 [1, 2, 3])) 1 = (a', True) \<and>
        ap_primary a' = demo_slot \<and> w_buf a' = [1, 2, 3]"
proof -
  let ?a = "demo_boot\<lparr>ap_staging := demo_flash\<rparr>"
  have s: "ap_staging (fst (mem_write ?a 0 [1, 2, 3])) = demo_flash"
    by (simp add: mem_write_def demo_boot_def mem_write_loop.simps [of _ "_ # _"] mem_write_loop.simps [of _ "[]"] Let_def)
  have "\<exists>fa. step_set (fst (mem_write ?a 0 [1, 2, 3])) (int (Suc 0)) = ((fst (mem_write ?a 0 [1, 2, 3]))\<lparr>ap_staging := fa\<rparr>, True) \<and> log_holds (Suc 0) fa"
  proof (rule step_set_log)
    have "log_holds 0 demo_flash" by (simp add: log_holds_def demo_flash_def blank_def)
    then show "log_holds 0 (ap_staging (fst (mem_write ?a 0 [1, 2, 3])))" by (simp only: s)
  qed simp
  then obtain a' where a': "step_set (fst (mem_write ?a 0 [1, 2, 3])) 1 = (a', True)" by auto
  have "w_buf ?a = []" by (simp add: demo_boot_def)
  from step_recorded_before_its_bytes [OF this _ a'] a' show ?thesis by (simp add: demo_boot_def)
qed


definition demo_calls :: "nat engine" where
  "demo_calls = Ask_Erase 0 471 (\<lambda>ok. Ask_Write 0 [1, 2, 3] (\<lambda>ok. Ask_Write 3 [4, 5, 6, 7, 8] (\<lambda>ok. Ask_Read 0 8 (\<lambda>v. Ret (length (the v))))))"

definition demo_mem :: applier where
  "demo_mem = \<lparr>ap_primary = demo_slot, ap_staging = demo_flash, w_addr = 0, w_buf = []\<rparr>"


end
