(* ===== verification/Spec2Isabelle.thy ===== *)
theory Spec2Isabelle
  imports Approach_Proofs Side_Proofs Side_Log Latch_Proofs Fusion Door_Proofs Slam Rssi_Gate Satellite Report_Proofs
    Link_Proofs Witness_Core Witness_Pick Uwb_Config Grant_Loop_Close Btp_Proofs Mrp_Proofs Trust_Blob
    Reader_Dialogue Dfu_Theorems
begin

text \<open>
  \<^bold>\<open>UltraWideLock.\<close> This development models the decision logic of the UltraWideLock door lock firmware
  and proves what makes it correct. The firmware opens a door when an enrolled phone walks up to
  it from the outside. A UWB session measures the distance to the phone; a second anchor on the
  other side of the door (a satellite) measures its own; BLE witnesses listen for the phone's
  advertisements. The grant loop of the lock combines them and drives the bolt.

  \<^bold>\<open>The parts and how they interact.\<close>

  \<^item> The grant loop (\<^verbatim>\<open>apps/dwm3001cdk-lock/src/main.c\<close>) runs a few times a second. Each iteration
    takes configuration changes, feeds witness windows to the side gate, ages the last decision,
    withdraws a grant on evidence of a phone inside, follows the credential session, feeds a
    newly trusted range to the satellites, the side gate and the approach controller, acts on
    the controller's answer, and handles a lost session. Theory \<^verbatim>\<open>Grant_Loop\<close>: the record \<open>lock\<close>
    holds the loop's variables and the states of the components it owns, \<open>lock_input\<close> is what one
    iteration reads, \<open>lock_out\<close> what it does, one definition per stage, \<open>lock_iterate\<close> their
    composition, \<open>lock_boot\<close> the start, and \<open>lock_step\<close> adds the peer reports that arrive between
    iterations. Theories \<^verbatim>\<open>Grant_Loop_Proofs\<close>, \<^verbatim>\<open>Grant_Loop_Bolt\<close> and \<^verbatim>\<open>Grant_Loop_Close\<close> show, over
    all runs from boot: openings for one credential are an entry dwell apart; every opening
    rests on a range and a satellite distance of the same round and on a clean OUTSIDE decision;
    the status the reader was told, the grant flag and the controller agree; inside evidence
    relocks; a lost session closes the bolt within the flap hold.

  \<^item> The UWB configuration (the attribute write in \<^verbatim>\<open>matter_clusters.c\<close>, the stored record in
    \<^verbatim>\<open>matter_fab_settings.c\<close>, the hand-over in \<^verbatim>\<open>matter_commission.c\<close>). Theory \<^verbatim>\<open>Uwb_Config\<close>: every
    configuration the loop takes is valid, which is what keeps the controller's own clamps
    unnecessary, and a reboot keeps it.

  \<^item> The approach controller (\<^verbatim>\<open>modules/ultrawidelock_cred/src/ultrawidelock_approach.c\<close>) turns
    ranges into unlock and relock actions: a Kalman filter in binary32 arithmetic (theory
    \<^verbatim>\<open>Float32\<close>, with the rounding of every operation), a median window, a trajectory gate, a
    presence path and a prediction path. Theories \<^verbatim>\<open>Approach\<close> and \<^verbatim>\<open>Approach_Proofs\<close>: well-formedness
    over runs, nothing opens without an approach, an arrival opens, the actions drive the bolt
    consistently, predictions are resolved, the median is the middle of the sorted fresh samples.

  \<^item> The side gate (\<^verbatim>\<open>modules/ultrawidelock_anchor/src/ultrawidelock_side.c\<close>) classifies windows of
    evidence and filters them over time; it fails closed. Theories \<^verbatim>\<open>Side\<close>, \<^verbatim>\<open>Side_Proofs\<close>, and
    \<^verbatim>\<open>Side_Log\<close> for its log records.

  \<^item> The inside veto latch (\<^verbatim>\<open>ultrawidelock_latch.c\<close>) remembers, per credential, that the phone is
    assumed inside after a grant. Theories \<^verbatim>\<open>Latch\<close> and \<^verbatim>\<open>Latch_Proofs\<close>: the gate refines a
    specification over the event history, a grant closes it for the dwell, the persistent blob
    round-trips and fails closed when damaged (\<^verbatim>\<open>Checksum\<close>, where the interface \<open>checksum\<close> covers
    both checksums).

  \<^item> Geometry: \<^verbatim>\<open>Fusion\<close> (two distances to a side, \<^verbatim>\<open>ultrawidelock_fusion.c\<close>), \<^verbatim>\<open>Satellite\<close> (pairing of
    distances by ranging block, \<^verbatim>\<open>ultrawidelock_satellite.c\<close>), \<^verbatim>\<open>Door\<close> and \<^verbatim>\<open>Door_Proofs\<close> (the swing angle,
    \<^verbatim>\<open>ultrawidelock_door.c\<close>), \<^verbatim>\<open>Slam\<close> (impacts, \<^verbatim>\<open>ultrawidelock_slam.c\<close>).

  \<^item> The peer link: \<^verbatim>\<open>Witness_Msg\<close> (message codecs; the interface \<open>wire_codec\<close> is interpreted for each),
    \<^verbatim>\<open>Link\<close> and \<^verbatim>\<open>Link_Proofs\<close> (the sealed envelope and the link, \<^verbatim>\<open>ultrawidelock_seal.c\<close> and
    \<^verbatim>\<open>ultrawidelock_link.c\<close>; the AES-CCM of the primitive seam is a parameter), \<^verbatim>\<open>Report\<close> and
    \<^verbatim>\<open>Report_Proofs\<close> (the console form of a report), \<^verbatim>\<open>Witness_Core\<close> and \<^verbatim>\<open>Witness_Pick\<close> (what a witness
    heard, and which advertiser is the phone).

  \<^item> The Matter transport: \<^verbatim>\<open>Btp\<close> and \<^verbatim>\<open>Btp_Proofs\<close> (fragments over BLE, \<^verbatim>\<open>matter_btp.c\<close>: a message crosses
    intact, the reassembler stays in bounds, the handshake negotiates sizes both ends have) and
    \<^verbatim>\<open>Mrp\<close> and \<^verbatim>\<open>Mrp_Proofs\<close> (reliability over UDP, \<^verbatim>\<open>matter_mrp.c\<close>: the replay window refines one over
    unbounded counters, deadlines hold across the wrap of the clock, an unanswered message is
    given up within the computed horizon), on the status codes of \<^verbatim>\<open>Matter_Base\<close>.

  \<^item> The credential trust store (\<^verbatim>\<open>ultrawidelock_prov.c\<close> and its record in the key-value store,
    \<^verbatim>\<open>ultrawidelock_prov_settings.c\<close>). Theories \<^verbatim>\<open>Trust_Store\<close> and \<^verbatim>\<open>Trust_Store_Proofs\<close>: the parallel arrays
    refine lists of anchor and issuer records; \<^verbatim>\<open>Trust_Blob\<close>: the stored blob gives back every store
    the operations can build.

  \<^item> The credential protocol. \<^verbatim>\<open>Hash\<close> and \<^verbatim>\<open>Hash_Proofs\<close> (\<^verbatim>\<open>ultrawidelock_hash.c\<close>): SHA-256, HMAC, HKDF and the
    X9.63 derivation, shown equal to their defining formulas however the input is cut. \<^verbatim>\<open>Cred_Codec\<close>
    and \<^verbatim>\<open>Cred_Codec_Proofs\<close> (\<^verbatim>\<open>ultrawidelock_apdu.c\<close>, \<^verbatim>\<open>ultrawidelock_tlv.c\<close>): commands, responses,
    signature transcripts, the envelope and the DER codec. \<^verbatim>\<open>Cred_Crypto\<close> (\<^verbatim>\<open>ultrawidelock_crypto.c\<close>):
    key schedule, salts and channels. \<^verbatim>\<open>Cred_Device\<close> (\<^verbatim>\<open>ultrawidelock_device.c\<close>,
    \<^verbatim>\<open>ultrawidelock_device_apdu.c\<close>): the device that answers the reader. \<^verbatim>\<open>Cred_Channel\<close>: nonces never
    repeat, the ranging channel delivers in any interleaving, a salt determines its inputs. The
    elliptic-curve and AES-GCM primitives are the record \<open>prim\<close>; what is assumed of them is \<open>prim_ok\<close>
    and \<open>prim_up\<close>, which \<open>toy_prim\<close> satisfies.

  \<^item> The credential reader (\<^verbatim>\<open>ultrawidelock_reader.c\<close> with the ranging bridge \<^verbatim>\<open>ultrawidelock_ranging.c\<close>), the
    lock's side of the protocol. \<^verbatim>\<open>Reader_State\<close>: the record \<open>reader\<close> is the file's statics, \<open>session\<close> one of
    the two slots, \<open>renv\<close> what one callback learns from outside (clock, key generator, transport, ranging
    engine, key-value store), and what it does to the outside is appended to \<open>rd_out\<close>. \<^verbatim>\<open>Reader_Auth\<close>: the
    transaction from AUTH0 over the fast path, AUTH1 and EXCHANGE to AP-Completed. \<^verbatim>\<open>Reader_Host\<close>: the callbacks of
    the host task and the housekeeping thread; a posted callback is an output and an event of its own later.
    \<^verbatim>\<open>Reader_Prov\<close>: the provisioning bridge, and \<open>reader_step\<close>, one event of any kind. \<^verbatim>\<open>Reader_Inv\<close>, \<^verbatim>\<open>Reader_Keeps\<close>
    and \<^verbatim>\<open>Reader_Run\<close>: the invariant that every event keeps. \<^verbatim>\<open>Reader_Theorems\<close>: over every run, a session past
    authentication rests on a proof an earlier state accepted, the published session state is
    exact, and a stalled peer is dropped. \<^verbatim>\<open>Reader_Revoke\<close>: the removals are filters on the abstract
    trust store, live at once and written by the first write that lands.

  \<^item> Reader and phone together. \<^verbatim>\<open>Initiator\<close>: what the reader publishes over BLE and how the phone side reads it
    (\<^verbatim>\<open>ultrawidelock_advtag.c\<close>, \<^verbatim>\<open>ultrawidelock_ble_central.c\<close>, the emitters of \<^verbatim>\<open>ultrawidelock_ble_nimble.c\<close>), and
    the initiator application (\<^verbatim>\<open>examples/zephyr/nrf5340dk-initiator\<close>). \<^verbatim>\<open>Reader_Handshake\<close>: the good branch of each
    handler at both ends. \<^verbatim>\<open>Reader_Dialogue\<close>: their composition; an enrolled phone ends with an established session.

  \<^item> The firmware update. \<^verbatim>\<open>Dfu_Flash\<close>: the flash partitions (\<^verbatim>\<open>flash_area_freertos.c\<close>), the byte codec
    and the staged header (\<^verbatim>\<open>ultrawidelock_dfu.h\<close>). \<^verbatim>\<open>Dfu_Receiver\<close> (\<^verbatim>\<open>dfu_receiver.c\<close>): the record \<open>dfu\<close> is
    the file's statics with the staging partition, \<open>dfu_step\<close> one call of any entry point. \<^verbatim>\<open>Dfu_Staging\<close>,
    \<^verbatim>\<open>Dfu_Inv\<close> and \<^verbatim>\<open>Dfu_Magic\<close> hold its invariants, \<^verbatim>\<open>Dfu_Upload\<close> the honest upload. \<^verbatim>\<open>Dfu_Applier\<close>
    (\<^verbatim>\<open>dfu_applier.c\<close>): the bootloader's write combiner, step log and apply, for any patch engine;
    \<^verbatim>\<open>Dfu_Combiner\<close> shows the combiner transparent and \<^verbatim>\<open>Dfu_Boot\<close> what the checks read. \<^verbatim>\<open>Dfu_Theorems\<close>:
    what is staged is signed and complete in every run with failing and torn flash, an interrupted
    transfer is no update, an honest upload is staged and taken up at the next boot, and the
    primary slot changes only behind the checks. The signature check and the engine are parameters,
    the flash driver a list of outcomes; the reads of the apply use the default chunk of 256 bytes.

  \<^item> The RSSI power gate (\<^verbatim>\<open>ultrawidelock_rssi_gate.c\<close>), theory \<^verbatim>\<open>Rssi_Gate\<close>.

  \<^bold>\<open>Shared library.\<close> \<^verbatim>\<open>Prelude\<close> holds the byte and word lemmas, C division, the runs of a step function
  (\<open>run_steps\<close>), and two interfaces: \<open>stepper\<close>, an invariant that every step keeps, interpreted by
  each stateful component, and \<open>once_only\<close>, a stepper that never accepts the same item twice,
  interpreted by the link's receiver and by the nonces of a channel.

  \<^bold>\<open>Conventions.\<close> Machine integers are words where the source relies on their width (flags, counters,
  sequence numbers, identifiers) and integers where the source's values stay far from the limits
  (milliseconds, millimetres). A NULL argument is \<^term>\<open>None\<close>. Pointers into a table are indices.
  Loops are structural recursions or functions with a termination proof; no definition uses fuel.
  Hash and cipher of the primitive seam are arguments of the definitions that call them, and what
  is assumed of them is a named hypothesis with a concrete instance in the witness.

  \<^bold>\<open>Not modelled.\<close> The step-up documents of the credential reader (the reader is modelled as built
  without them), the UWB session layer and its radio driver, the rest of the Matter stack, the patch engine and the transports of the
  firmware update, the channel classifier, NFC, the platform ports, the applications beyond the grant loop, tests and tools.
  In the reader: the order in which threads run (every call is one step, as its locks make it), log
  lines, printing, and the registration of listeners. In the grant loop: lights, log lines, bench options, presence reports to Matter, and the impact
  poll at the end of an iteration, none of which the decisions read.
\<close>

end
